(* ===== verification/Prelude.thy ===== *)
theory Prelude
  imports Main
begin

text \<open>
  Shared vocabulary of the development: Rust's \<open>Result\<close> as a sum type with its
  \<open>?\<close> operator, checked integer arithmetic at a width, truncating division, and
  the generic list facts the components use.

  Signed and unsigned integers that the source only touches through checked
  operations are kept as \<open>int\<close> or \<open>nat\<close>, with the range test of the width written
  out in \<open>checked_i64\<close>, \<open>checked_i128\<close>, \<open>checked_u32\<close> and \<open>checked_u64\<close>; that every
  stored value stays in range is then an invariant the components prove. Code that
  wraps uses \<open>64 word\<close> instead (theory \<open>Latency\<close>).
\<close>

named_theorems result_simps "introduction forms of the result combinators"

subsection \<open>Results\<close>

type_synonym ('a, 'e) result = "'e + 'a"

abbreviation Ok :: "'a \<Rightarrow> ('a, 'e) result" where
  "Ok \<equiv> Inr"

abbreviation Err :: "'e \<Rightarrow> ('a, 'e) result" where
  "Err \<equiv> Inl"

text \<open>\<open>attempt r k\<close> is \<open>let x = r?; k x\<close>.\<close>

definition attempt :: "('a, 'e) result \<Rightarrow> ('a \<Rightarrow> ('b, 'e) result) \<Rightarrow> ('b, 'e) result" where
  "attempt r k = (case r of Inl e \<Rightarrow> Inl e | Inr x \<Rightarrow> k x)"

text \<open>\<open>ok_or e v\<close> is \<open>v.ok_or(e)\<close>.\<close>

definition ok_or :: "'e \<Rightarrow> 'a option \<Rightarrow> ('a, 'e) result" where
  "ok_or e v = (case v of None \<Rightarrow> Inl e | Some x \<Rightarrow> Inr x)"

text \<open>\<open>map_err f r\<close> is \<open>r.map_err(f)\<close>.\<close>

definition map_err :: "('e \<Rightarrow> 'f) \<Rightarrow> ('a, 'e) result \<Rightarrow> ('a, 'f) result" where
  "map_err f r = (case r of Inl e \<Rightarrow> Inl (f e) | Inr x \<Rightarrow> Inr x)"

lemma attempt_simps [simp]:
  "attempt (Inl e) k = Inl e"
  "attempt (Inr x) k = k x"
  by (simp_all add: attempt_def)

lemma ok_or_simps [simp]:
  "ok_or e None = Inl e"
  "ok_or e (Some x) = Inr x"
  by (simp_all add: ok_or_def)

lemma map_err_simps [simp]:
  "map_err f (Inl e) = Inl (f e)"
  "map_err f (Inr x) = Inr x"
  by (simp_all add: map_err_def)

lemma attempt_Ok_iff [result_simps]:
  "attempt r k = Inr y \<longleftrightarrow> (\<exists>x. r = Inr x \<and> k x = Inr y)"
  by (cases r) auto

lemma attempt_Err_iff:
  "attempt r k = Inl e \<longleftrightarrow> r = Inl e \<or> (\<exists>x. r = Inr x \<and> k x = Inl e)"
  by (cases r) auto

lemma ok_or_Ok_iff [result_simps]: "ok_or e v = Inr x \<longleftrightarrow> v = Some x"
  by (cases v) auto

lemma ok_or_Err_iff: "ok_or e v = Inl e' \<longleftrightarrow> v = None \<and> e' = e"
  by (cases v) auto

lemma map_err_Ok_iff [result_simps]: "map_err f r = Inr x \<longleftrightarrow> r = Inr x"
  by (cases r) auto

lemma if_Err_Ok_iff [result_simps]:
  "(if b then Inl e else r) = Inr x \<longleftrightarrow> \<not> b \<and> r = Inr x"
  by simp

lemma attempt_cong [fundef_cong]:
  "r = r' \<Longrightarrow> (\<And>x. r' = Inr x \<Longrightarrow> k x = k' x) \<Longrightarrow> attempt r k = attempt r' k'"
  by (cases r') auto

text \<open>\<open>try_fold f xs s\<close> is \<open>for x in xs { f(x)?; }\<close> over the state the body changes.\<close>

fun try_fold :: "('a \<Rightarrow> 's \<Rightarrow> ('s, 'e) result) \<Rightarrow> 'a list \<Rightarrow> 's \<Rightarrow> ('s, 'e) result" where
  "try_fold f [] s = Ok s"
| "try_fold f (x # xs) s = attempt (f x s) (try_fold f xs)"

lemma try_fold_inv:
  assumes "try_fold f xs s = Ok t" and "P s"
    and "\<And>x u v. x \<in> set xs \<Longrightarrow> P u \<Longrightarrow> f x u = Ok v \<Longrightarrow> P v"
  shows "P t"
  using assms by (induction xs arbitrary: s) (auto simp: attempt_Ok_iff)

text \<open>\<open>try_map f xs\<close> is \<open>xs.map(f).collect::<Result<Vec<_>, _>>()?\<close>.\<close>

fun try_map :: "('a \<Rightarrow> ('b, 'e) result) \<Rightarrow> 'a list \<Rightarrow> ('b list, 'e) result" where
  "try_map f [] = Ok []"
| "try_map f (x # xs) = attempt (f x) (\<lambda>y. attempt (try_map f xs) (\<lambda>ys. Ok (y # ys)))"

lemma try_map_Ok_iff [result_simps]:
  "try_map f xs = Inr ys \<longleftrightarrow> list_all2 (\<lambda>x y. f x = Inr y) xs ys"
  by (induction xs arbitrary: ys) (auto simp: attempt_Ok_iff list_all2_Cons1)

subsection \<open>Integers at a width\<close>

definition in_i64 :: "int \<Rightarrow> bool" where
  "in_i64 x \<longleftrightarrow> - (2 ^ 63) \<le> x \<and> x < 2 ^ 63"

definition in_i128 :: "int \<Rightarrow> bool" where
  "in_i128 x \<longleftrightarrow> - (2 ^ 127) \<le> x \<and> x < 2 ^ 127"

definition checked_i64 :: "int \<Rightarrow> int option" where
  "checked_i64 x = (if in_i64 x then Some x else None)"

definition checked_i128 :: "int \<Rightarrow> int option" where
  "checked_i128 x = (if in_i128 x then Some x else None)"

definition checked_u32 :: "nat \<Rightarrow> nat option" where
  "checked_u32 n = (if n < 2 ^ 32 then Some n else None)"

definition checked_u64 :: "nat \<Rightarrow> nat option" where
  "checked_u64 n = (if n < 2 ^ 64 then Some n else None)"

lemma checked_i64_Some_iff [result_simps]: "checked_i64 x = Some y \<longleftrightarrow> y = x \<and> in_i64 x"
  by (auto simp: checked_i64_def)

lemma checked_i128_Some_iff [result_simps]: "checked_i128 x = Some y \<longleftrightarrow> y = x \<and> in_i128 x"
  by (auto simp: checked_i128_def)

lemma checked_u32_Some_iff [result_simps]: "checked_u32 n = Some m \<longleftrightarrow> m = n \<and> n < 2 ^ 32"
  by (auto simp: checked_u32_def)

lemma checked_u64_Some_iff [result_simps]: "checked_u64 n = Some m \<longleftrightarrow> m = n \<and> n < 2 ^ 64"
  by (auto simp: checked_u64_def)

lemma checked_i64_in [simp]: "in_i64 x \<Longrightarrow> checked_i64 x = Some x"
  by (simp add: checked_i64_def)

lemma checked_i128_in [simp]: "in_i128 x \<Longrightarrow> checked_i128 x = Some x"
  by (simp add: checked_i128_def)

lemma in_i64_0 [simp]: "in_i64 0"
  by (simp add: in_i64_def)

lemma in_i128_0 [simp]: "in_i128 0"
  by (simp add: in_i128_def)

lemma in_i64_between: "in_i64 a \<Longrightarrow> in_i64 b \<Longrightarrow> a \<le> x \<Longrightarrow> x \<le> b \<Longrightarrow> in_i64 x"
  by (simp add: in_i64_def)

lemma in_i128_between: "in_i128 a \<Longrightarrow> in_i128 b \<Longrightarrow> a \<le> x \<Longrightarrow> x \<le> b \<Longrightarrow> in_i128 x"
  by (simp add: in_i128_def)

lemma in_i64_in_i128: "in_i64 x \<Longrightarrow> in_i128 x"
  by (simp add: in_i64_def in_i128_def)

text \<open>The product of two 64-bit values always fits 128 bits.\<close>

lemma abs_mult_bound:
  fixes a b :: int
  assumes "\<bar>a\<bar> \<le> m" and "\<bar>b\<bar> \<le> n"
  shows "\<bar>a * b\<bar> \<le> m * n"
  using mult_mono [OF assms] assms by (simp add: abs_mult)

lemma in_i128_mult_i64: "in_i64 a \<Longrightarrow> in_i64 b \<Longrightarrow> in_i128 (a * b)"
proof -
  assume "in_i64 a" and "in_i64 b"
  then have "\<bar>a\<bar> \<le> 2 ^ 63" and "\<bar>b\<bar> \<le> 2 ^ 63"
    by (auto simp: in_i64_def)
  then have "\<bar>a * b\<bar> \<le> 2 ^ 63 * 2 ^ 63"
    by (rule abs_mult_bound)
  then show ?thesis
    by (auto simp: in_i128_def)
qed

subsection \<open>Truncating division\<close>

text \<open>Rust's \<open>/\<close> and \<open>%\<close> on signed integers round towards zero.\<close>

definition tdiv :: "int \<Rightarrow> int \<Rightarrow> int" where
  "tdiv a b = sgn a * sgn b * (\<bar>a\<bar> div \<bar>b\<bar>)"

definition tmod :: "int \<Rightarrow> int \<Rightarrow> int" where
  "tmod a b = a - b * tdiv a b"

lemma tdiv_mult_self: "0 < b \<Longrightarrow> tdiv (a * b) b = a"
  by (simp add: tdiv_def abs_mult sgn_mult sgn_mult_abs)

lemma tdiv_nonneg: "0 \<le> a \<Longrightarrow> 0 \<le> b \<Longrightarrow> 0 \<le> tdiv a b"
  by (auto simp: tdiv_def sgn_if pos_imp_zdiv_nonneg_iff)

lemma tdiv_nonpos: "a \<le> 0 \<Longrightarrow> 0 \<le> b \<Longrightarrow> tdiv a b \<le> 0"
  by (auto simp: tdiv_def sgn_if pos_imp_zdiv_nonneg_iff)

lemma tdiv_pos_div: "0 \<le> a \<Longrightarrow> 0 \<le> b \<Longrightarrow> tdiv a b = a div b"
  by (auto simp: tdiv_def sgn_if)

lemma tdiv_uminus: "tdiv (- a) b = - tdiv a b"
  by (simp add: tdiv_def sgn_if)

text \<open>A truncated share of a whole never exceeds it.\<close>

lemma tdiv_share_le:
  assumes "0 \<le> a" and "0 \<le> k" and "k \<le> n" and "0 < n"
  shows "tdiv (a * k) n \<le> a"
proof -
  have "a * k \<le> a * n"
    using assms by (simp add: mult_left_mono)
  then have "a * k div n \<le> a * n div n"
    using assms by (intro zdiv_mono1) auto
  then show ?thesis
    using assms by (simp add: tdiv_pos_div)
qed

lemma tdiv_share_ge:
  assumes "a \<le> 0" and "0 \<le> k" and "k \<le> n" and "0 < n"
  shows "a \<le> tdiv (a * k) n"
proof -
  have "tdiv (- a * k) n \<le> - a"
    using assms by (intro tdiv_share_le) auto
  then show ?thesis
    using tdiv_uminus [of "a * k" n] by simp
qed

subsection \<open>Invariants of step relations\<close>

text \<open>
  The contract of a component whose operations are steps of a state: what the start
  state and every step keep holds of every reachable state.
\<close>

locale step_system =
  fixes start :: "'s \<Rightarrow> bool"
    and step :: "'s \<Rightarrow> 's \<Rightarrow> bool"
    and inv :: "'s \<Rightarrow> bool"
  assumes start_inv: "start s \<Longrightarrow> inv s"
    and step_inv: "inv s \<Longrightarrow> step s t \<Longrightarrow> inv t"
begin

lemma steps_inv: "step\<^sup>*\<^sup>* s t \<Longrightarrow> inv s \<Longrightarrow> inv t"
  by (induction rule: rtranclp_induct) (auto intro: step_inv)

lemma reachable_inv: "start s \<Longrightarrow> step\<^sup>*\<^sup>* s t \<Longrightarrow> inv t"
  using steps_inv start_inv by blast

end

end
