(* ===== verification/Byte_Strings.thy ===== *)
theory Byte_Strings
  imports Prelude
begin

text \<open>
  Byte strings, as the wire formats of the program use them. A character of HOL is one of
  256 values, so \<open>u8\<close> is \<open>char\<close>, a byte slice is a \<open>string\<close>, and a Rust \<open>String\<close> is a byte
  string that \<open>from_utf8\<close> accepts. The theory holds the UTF-8 check and the slice operations of
  the standard library, with the facts on them the codecs share.
\<close>

type_synonym bytes = string

text \<open>\<open>std::str::from_utf8\<close>: the well-formed byte sequences of the Unicode standard.\<close>

definition utf8_tail :: "nat \<Rightarrow> bool" where
  "utf8_tail b \<longleftrightarrow> 128 \<le> b \<and> b \<le> 191"

fun utf8 :: "nat list \<Rightarrow> bool" where
  "utf8 [] \<longleftrightarrow> True"
| "utf8 (a # s) \<longleftrightarrow>
     (if a < 128 then utf8 s
      else if 194 \<le> a \<and> a \<le> 223 then
        (case s of b # t \<Rightarrow> utf8_tail b \<and> utf8 t | _ \<Rightarrow> False)
      else if 224 \<le> a \<and> a \<le> 239 then
        (case s of b # c # t \<Rightarrow>
           utf8_tail b \<and> (a = 224 \<longrightarrow> 160 \<le> b) \<and> (a = 237 \<longrightarrow> b \<le> 159) \<and> utf8_tail c \<and> utf8 t
         | _ \<Rightarrow> False)
      else if 240 \<le> a \<and> a \<le> 244 then
        (case s of b # c # d # t \<Rightarrow>
           utf8_tail b \<and> (a = 240 \<longrightarrow> 144 \<le> b) \<and> (a = 244 \<longrightarrow> b \<le> 143)
           \<and> utf8_tail c \<and> utf8_tail d \<and> utf8 t
         | _ \<Rightarrow> False)
      else False)"

definition from_utf8 :: "bytes \<Rightarrow> string option" where
  "from_utf8 s = (if utf8 (map of_char s) then Some s else None)"

text \<open>\<open>Iterator::position\<close>, \<open>slice::get\<close> on a range, \<open>slice::starts_with\<close> and \<open>slice::split\<close>.\<close>

fun position :: "('a \<Rightarrow> bool) \<Rightarrow> 'a list \<Rightarrow> nat option" where
  "position P [] = None"
| "position P (x # xs) = (if P x then Some 0 else map_option Suc (position P xs))"

definition get_range :: "bytes \<Rightarrow> nat \<Rightarrow> nat \<Rightarrow> bytes option" where
  "get_range bs a b = (if a \<le> b \<and> b \<le> length bs then Some (take (b - a) (drop a bs)) else None)"

definition get_at :: "'a list \<Rightarrow> nat \<Rightarrow> 'a option" where
  "get_at xs i = (if i < length xs then Some (xs ! i) else None)"

definition starts_with :: "bytes \<Rightarrow> bytes \<Rightarrow> bool" where
  "starts_with bs p \<longleftrightarrow> take (length p) bs = p"

fun split_on :: "char \<Rightarrow> bytes \<Rightarrow> bytes list" where
  "split_on c [] = [[]]"
| "split_on c (x # xs) =
     (if x = c then [] # split_on c xs
      else (case split_on c xs of [] \<Rightarrow> [[x]] | w # ws \<Rightarrow> (x # w) # ws))"

subsection \<open>Facts\<close>

lemma utf8_ascii: "(\<forall>b\<in>set bs. b < 128) \<Longrightarrow> utf8 bs"
  by (induction bs) auto

lemma position_bound: "position P xs = Some i \<Longrightarrow> i < length xs"
  by (induction xs arbitrary: i) (auto split: if_splits)

lemma position_append: "(\<forall>x\<in>set xs. \<not> P x) \<Longrightarrow> P y \<Longrightarrow> position P (xs @ y # ys) = Some (length xs)"
  by (induction xs) auto

lemma position_None: "(\<forall>x\<in>set xs. \<not> P x) \<Longrightarrow> position P xs = None"
  by (induction xs) auto

lemma position_prefix: "position P xs = Some i \<Longrightarrow> position P (xs @ ys) = Some i"
  by (induction xs arbitrary: i) (auto split: if_splits)

lemma split_on_append: "c \<notin> set w \<Longrightarrow> split_on c (w @ c # rest) = w # split_on c rest"
  by (induction w) auto

lemma get_range_append: "get_range (pre @ w @ rest) (length pre) (length pre + length w) = Some w"
  by (simp add: get_range_def)

lemma get_range_extend: "j \<le> length a \<Longrightarrow> get_range (a @ b) i j = get_range a i j"
  by (simp add: get_range_def)

lemma get_at_extend: "i < length a \<Longrightarrow> get_at (a @ b) i = get_at a i"
  by (simp add: get_at_def nth_append)

end
