(* ===== verification/Bnp_Types.thy ===== *)
theory Bnp_Types
  imports Byte_Strings "HOL-Library.Word"
begin

text \<open>
  The vocabulary of the native protocol, \<open>src/packages/bnp-wire/src/lib.rs\<close>: versions, limits,
  message types, the one-byte enumerations with their wire values, the client's and the
  server's messages. An unsigned or signed integer of the source is a \<open>word\<close> of its width (the
  signed value of an \<open>i64\<close> or \<open>i128\<close> is its \<open>sint\<close>), and a \<open>String\<close> is a \<open>ustring\<close>, a byte
  string that is valid UTF-8; so a value of these types is a value of the Rust types.
  Constructors that several enumerations share carry the name of their type.
\<close>

type_synonym u8 = "8 word"
type_synonym u16 = "16 word"
type_synonym u32 = "32 word"
type_synonym u64 = "64 word"
type_synonym u128 = "128 word"
type_synonym i64 = "64 word"
type_synonym i128 = "128 word"

subsection \<open>Strings\<close>

typedef ustring = "{s :: bytes. utf8 (map of_char s)}"
  morphisms str_bytes str_of
  by (rule exI [of _ "[]"]) simp

text \<open>\<open>String::from_utf8\<close>.\<close>

definition string_from_utf8 :: "bytes \<Rightarrow> ustring option" where
  "string_from_utf8 bs = map_option str_of (from_utf8 bs)"

lemma str_bytes_utf8: "utf8 (map of_char (str_bytes s))"
  using str_bytes [of s] by simp

lemma string_from_utf8_bytes [simp]: "string_from_utf8 (str_bytes s) = Some s"
  by (simp add: string_from_utf8_def from_utf8_def str_bytes_utf8 str_bytes_inverse)

subsection \<open>Versions and limits\<close>

definition VERSION_1_0 :: u16 where
  "VERSION_1_0 = 1"

definition VERSION_1_1 :: u16 where
  "VERSION_1_1 = 257"

definition PROTOCOL_VERSION :: u16 where
  "PROTOCOL_VERSION = VERSION_1_1"

definition negotiate :: "u16 \<Rightarrow> u16 option" where
  "negotiate offered =
     (if offered = VERSION_1_0 then Some VERSION_1_0
      else if drop_bit 8 offered \<noteq> 1 then None
      else if take_bit 8 offered = 0 then Some VERSION_1_0
      else Some VERSION_1_1)"

definition speaks_1_1 :: "u16 \<Rightarrow> bool" where
  "speaks_1_1 version \<longleftrightarrow> version \<ge> VERSION_1_1"

definition MAGIC :: bytes where
  "MAGIC = ''BNP1''"

definition LENGTH_BYTES :: nat where
  "LENGTH_BYTES = 4"

definition MAX_FRAME_BYTES :: nat where
  "MAX_FRAME_BYTES = 65536"

definition MAX_STRING_BYTES :: nat where
  "MAX_STRING_BYTES = 1024"

definition MAX_GROUP_ENTRIES :: nat where
  "MAX_GROUP_ENTRIES = 4096"

definition MAX_REFERENCE_INSTRUMENTS :: nat where
  "MAX_REFERENCE_INSTRUMENTS = 64"

datatype bnp_error =
    FrameTooLarge nat nat
  | EmptyFrame
  | Truncated
  | TrailingBytes
  | UnknownMessageType nat
  | WrongDirection nat
  | InvalidValue string nat
  | StringTooLong nat
  | InvalidUtf8
  | GroupTooLarge nat
  | BadMagic

subsection \<open>One-byte enumerations\<close>

text \<open>
  Each \<open>wire_enum!\<close> of the source declares a type with \<open>to_wire\<close> and \<open>from_wire\<close>; a value
  outside the enumeration is an \<open>InvalidValue\<close> that names the type.
\<close>

datatype side =
  Buy | Sell

fun side_to_wire :: "side \<Rightarrow> nat" where
  "side_to_wire Buy = 1"
| "side_to_wire Sell = 2"

definition side_from_wire :: "nat \<Rightarrow> (side, bnp_error) result" where
  "side_from_wire v =
     (if v = 1 then Ok Buy
      else if v = 2 then Ok Sell
      else Err (InvalidValue ''Side'' v))"

datatype role =
  RoleParticipant | RoleTeam | RoleInstructor | RoleAdministrator | RoleBuiltInAgent

fun role_to_wire :: "role \<Rightarrow> nat" where
  "role_to_wire RoleParticipant = 1"
| "role_to_wire RoleTeam = 2"
| "role_to_wire RoleInstructor = 3"
| "role_to_wire RoleAdministrator = 4"
| "role_to_wire RoleBuiltInAgent = 5"

definition role_from_wire :: "nat \<Rightarrow> (role, bnp_error) result" where
  "role_from_wire v =
     (if v = 1 then Ok RoleParticipant
      else if v = 2 then Ok RoleTeam
      else if v = 3 then Ok RoleInstructor
      else if v = 4 then Ok RoleAdministrator
      else if v = 5 then Ok RoleBuiltInAgent
      else Err (InvalidValue ''Role'' v))"

datatype resume_status =
  Live | Replaying | ResumeGap

fun resume_status_to_wire :: "resume_status \<Rightarrow> nat" where
  "resume_status_to_wire Live = 0"
| "resume_status_to_wire Replaying = 1"
| "resume_status_to_wire ResumeGap = 2"

definition resume_status_from_wire :: "nat \<Rightarrow> (resume_status, bnp_error) result" where
  "resume_status_from_wire v =
     (if v = 0 then Ok Live
      else if v = 1 then Ok Replaying
      else if v = 2 then Ok ResumeGap
      else Err (InvalidValue ''ResumeStatus'' v))"

datatype liquidity =
  Maker | Taker

fun liquidity_to_wire :: "liquidity \<Rightarrow> nat" where
  "liquidity_to_wire Maker = 1"
| "liquidity_to_wire Taker = 2"

definition liquidity_from_wire :: "nat \<Rightarrow> (liquidity, bnp_error) result" where
  "liquidity_from_wire v =
     (if v = 1 then Ok Maker
      else if v = 2 then Ok Taker
      else Err (InvalidValue ''Liquidity'' v))"

datatype entry_kind =
  EntryTrade | EntryBid | EntryAsk

fun entry_kind_to_wire :: "entry_kind \<Rightarrow> nat" where
  "entry_kind_to_wire EntryTrade = 0"
| "entry_kind_to_wire EntryBid = 1"
| "entry_kind_to_wire EntryAsk = 2"

definition entry_kind_from_wire :: "nat \<Rightarrow> (entry_kind, bnp_error) result" where
  "entry_kind_from_wire v =
     (if v = 0 then Ok EntryTrade
      else if v = 1 then Ok EntryBid
      else if v = 2 then Ok EntryAsk
      else Err (InvalidValue ''EntryKind'' v))"

datatype order_action =
  ActionAdd | ActionChange | ActionDelete

fun order_action_to_wire :: "order_action \<Rightarrow> nat" where
  "order_action_to_wire ActionAdd = 1"
| "order_action_to_wire ActionChange = 2"
| "order_action_to_wire ActionDelete = 3"

definition order_action_from_wire :: "nat \<Rightarrow> (order_action, bnp_error) result" where
  "order_action_from_wire v =
     (if v = 1 then Ok ActionAdd
      else if v = 2 then Ok ActionChange
      else if v = 3 then Ok ActionDelete
      else Err (InvalidValue ''OrderAction'' v))"

datatype delay_source =
  DelayNone | DelayKernel | DelayProbe | DelayBoth

fun delay_source_to_wire :: "delay_source \<Rightarrow> nat" where
  "delay_source_to_wire DelayNone = 0"
| "delay_source_to_wire DelayKernel = 1"
| "delay_source_to_wire DelayProbe = 2"
| "delay_source_to_wire DelayBoth = 3"

definition delay_source_from_wire :: "nat \<Rightarrow> (delay_source, bnp_error) result" where
  "delay_source_from_wire v =
     (if v = 0 then Ok DelayNone
      else if v = 1 then Ok DelayKernel
      else if v = 2 then Ok DelayProbe
      else if v = 3 then Ok DelayBoth
      else Err (InvalidValue ''DelaySource'' v))"

datatype reject_reason =
  DuplicateOrderId | InvalidOrderId | UnknownOrder | NotOrderOwner | KillSwitchActive
  | RunNotActive | ListingHalted | ParticipantDisabled | InvalidQuantity
  | InvalidInstrument | PriceOutOfBounds | MaxOrderQuantity | MaxOpenOrderQuantity
  | MaxLiveOrders | PositionLimit | InsufficientCash | InsufficientInventory
  | InsufficientLiquidity | PostOnlyWouldCross | InvalidTimeInForce | LogicalTimeRegression
  | SequenceConflict | ArithmeticOverflow | UnknownListing | MarketClosed
  | CallPhaseOrderType | PriceNotOnTick

fun reject_reason_to_wire :: "reject_reason \<Rightarrow> nat" where
  "reject_reason_to_wire DuplicateOrderId = 1"
| "reject_reason_to_wire InvalidOrderId = 2"
| "reject_reason_to_wire UnknownOrder = 3"
| "reject_reason_to_wire NotOrderOwner = 4"
| "reject_reason_to_wire KillSwitchActive = 5"
| "reject_reason_to_wire RunNotActive = 6"
| "reject_reason_to_wire ListingHalted = 7"
| "reject_reason_to_wire ParticipantDisabled = 8"
| "reject_reason_to_wire InvalidQuantity = 9"
| "reject_reason_to_wire InvalidInstrument = 10"
| "reject_reason_to_wire PriceOutOfBounds = 11"
| "reject_reason_to_wire MaxOrderQuantity = 12"
| "reject_reason_to_wire MaxOpenOrderQuantity = 13"
| "reject_reason_to_wire MaxLiveOrders = 14"
| "reject_reason_to_wire PositionLimit = 15"
| "reject_reason_to_wire InsufficientCash = 16"
| "reject_reason_to_wire InsufficientInventory = 17"
| "reject_reason_to_wire InsufficientLiquidity = 18"
| "reject_reason_to_wire PostOnlyWouldCross = 19"
| "reject_reason_to_wire InvalidTimeInForce = 20"
| "reject_reason_to_wire LogicalTimeRegression = 21"
| "reject_reason_to_wire SequenceConflict = 22"
| "reject_reason_to_wire ArithmeticOverflow = 23"
| "reject_reason_to_wire UnknownListing = 24"
| "reject_reason_to_wire MarketClosed = 25"
| "reject_reason_to_wire CallPhaseOrderType = 26"
| "reject_reason_to_wire PriceNotOnTick = 27"

definition reject_reason_from_wire :: "nat \<Rightarrow> (reject_reason, bnp_error) result" where
  "reject_reason_from_wire v =
     (if v = 1 then Ok DuplicateOrderId
      else if v = 2 then Ok InvalidOrderId
      else if v = 3 then Ok UnknownOrder
      else if v = 4 then Ok NotOrderOwner
      else if v = 5 then Ok KillSwitchActive
      else if v = 6 then Ok RunNotActive
      else if v = 7 then Ok ListingHalted
      else if v = 8 then Ok ParticipantDisabled
      else if v = 9 then Ok InvalidQuantity
      else if v = 10 then Ok InvalidInstrument
      else if v = 11 then Ok PriceOutOfBounds
      else if v = 12 then Ok MaxOrderQuantity
      else if v = 13 then Ok MaxOpenOrderQuantity
      else if v = 14 then Ok MaxLiveOrders
      else if v = 15 then Ok PositionLimit
      else if v = 16 then Ok InsufficientCash
      else if v = 17 then Ok InsufficientInventory
      else if v = 18 then Ok InsufficientLiquidity
      else if v = 19 then Ok PostOnlyWouldCross
      else if v = 20 then Ok InvalidTimeInForce
      else if v = 21 then Ok LogicalTimeRegression
      else if v = 22 then Ok SequenceConflict
      else if v = 23 then Ok ArithmeticOverflow
      else if v = 24 then Ok UnknownListing
      else if v = 25 then Ok MarketClosed
      else if v = 26 then Ok CallPhaseOrderType
      else if v = 27 then Ok PriceNotOnTick
      else Err (InvalidValue ''RejectReason'' v))"

datatype instrument_kind =
  KindEquity | KindCurrency | KindBond | KindOption | KindFuture | KindCommodity
  | KindSynthetic

fun instrument_kind_to_wire :: "instrument_kind \<Rightarrow> nat" where
  "instrument_kind_to_wire KindEquity = 1"
| "instrument_kind_to_wire KindCurrency = 2"
| "instrument_kind_to_wire KindBond = 3"
| "instrument_kind_to_wire KindOption = 4"
| "instrument_kind_to_wire KindFuture = 5"
| "instrument_kind_to_wire KindCommodity = 6"
| "instrument_kind_to_wire KindSynthetic = 7"

definition instrument_kind_from_wire :: "nat \<Rightarrow> (instrument_kind, bnp_error) result" where
  "instrument_kind_from_wire v =
     (if v = 1 then Ok KindEquity
      else if v = 2 then Ok KindCurrency
      else if v = 3 then Ok KindBond
      else if v = 4 then Ok KindOption
      else if v = 5 then Ok KindFuture
      else if v = 6 then Ok KindCommodity
      else if v = 7 then Ok KindSynthetic
      else Err (InvalidValue ''InstrumentKind'' v))"

datatype cancel_reason =
  CancelRequested | CancelKillSwitch | CancelMarketRemainder | CancelMassCancel
  | CancelExpired | CancelHalt

fun cancel_reason_to_wire :: "cancel_reason \<Rightarrow> nat" where
  "cancel_reason_to_wire CancelRequested = 1"
| "cancel_reason_to_wire CancelKillSwitch = 2"
| "cancel_reason_to_wire CancelMarketRemainder = 3"
| "cancel_reason_to_wire CancelMassCancel = 4"
| "cancel_reason_to_wire CancelExpired = 5"
| "cancel_reason_to_wire CancelHalt = 6"

definition cancel_reason_from_wire :: "nat \<Rightarrow> (cancel_reason, bnp_error) result" where
  "cancel_reason_from_wire v =
     (if v = 1 then Ok CancelRequested
      else if v = 2 then Ok CancelKillSwitch
      else if v = 3 then Ok CancelMarketRemainder
      else if v = 4 then Ok CancelMassCancel
      else if v = 5 then Ok CancelExpired
      else if v = 6 then Ok CancelHalt
      else Err (InvalidValue ''CancelReason'' v))"

datatype tender_status =
  TenderOpen | TenderAccepted | TenderDeclined | TenderExpired

fun tender_status_to_wire :: "tender_status \<Rightarrow> nat" where
  "tender_status_to_wire TenderOpen = 1"
| "tender_status_to_wire TenderAccepted = 2"
| "tender_status_to_wire TenderDeclined = 3"
| "tender_status_to_wire TenderExpired = 4"

definition tender_status_from_wire :: "nat \<Rightarrow> (tender_status, bnp_error) result" where
  "tender_status_from_wire v =
     (if v = 1 then Ok TenderOpen
      else if v = 2 then Ok TenderAccepted
      else if v = 3 then Ok TenderDeclined
      else if v = 4 then Ok TenderExpired
      else Err (InvalidValue ''TenderStatus'' v))"

datatype negotiation_status =
  NegotiationProposed | NegotiationCountered | NegotiationAccepted | NegotiationRejected
  | NegotiationBroken | NegotiationExpired

fun negotiation_status_to_wire :: "negotiation_status \<Rightarrow> nat" where
  "negotiation_status_to_wire NegotiationProposed = 1"
| "negotiation_status_to_wire NegotiationCountered = 2"
| "negotiation_status_to_wire NegotiationAccepted = 3"
| "negotiation_status_to_wire NegotiationRejected = 4"
| "negotiation_status_to_wire NegotiationBroken = 5"
| "negotiation_status_to_wire NegotiationExpired = 6"

definition negotiation_status_from_wire :: "nat \<Rightarrow> (negotiation_status, bnp_error) result" where
  "negotiation_status_from_wire v =
     (if v = 1 then Ok NegotiationProposed
      else if v = 2 then Ok NegotiationCountered
      else if v = 3 then Ok NegotiationAccepted
      else if v = 4 then Ok NegotiationRejected
      else if v = 5 then Ok NegotiationBroken
      else if v = 6 then Ok NegotiationExpired
      else Err (InvalidValue ''NegotiationStatus'' v))"

datatype otc_decision =
  OtcAccept | OtcReject | OtcBreak

fun otc_decision_to_wire :: "otc_decision \<Rightarrow> nat" where
  "otc_decision_to_wire OtcAccept = 1"
| "otc_decision_to_wire OtcReject = 2"
| "otc_decision_to_wire OtcBreak = 3"

definition otc_decision_from_wire :: "nat \<Rightarrow> (otc_decision, bnp_error) result" where
  "otc_decision_from_wire v =
     (if v = 1 then Ok OtcAccept
      else if v = 2 then Ok OtcReject
      else if v = 3 then Ok OtcBreak
      else Err (InvalidValue ''OtcDecision'' v))"

lemmas to_wire_defs =
  side_to_wire.simps
  role_to_wire.simps
  resume_status_to_wire.simps
  liquidity_to_wire.simps
  entry_kind_to_wire.simps
  order_action_to_wire.simps
  delay_source_to_wire.simps
  reject_reason_to_wire.simps
  instrument_kind_to_wire.simps
  cancel_reason_to_wire.simps
  tender_status_to_wire.simps
  negotiation_status_to_wire.simps
  otc_decision_to_wire.simps

lemmas from_wire_defs =
  side_from_wire_def
  role_from_wire_def
  resume_status_from_wire_def
  liquidity_from_wire_def
  entry_kind_from_wire_def
  order_action_from_wire_def
  delay_source_from_wire_def
  reject_reason_from_wire_def
  instrument_kind_from_wire_def
  cancel_reason_from_wire_def
  tender_status_from_wire_def
  negotiation_status_from_wire_def
  otc_decision_from_wire_def

lemma side_wire [simp]: "side_from_wire (side_to_wire v) = Ok v" "side_to_wire v < 256"
  by (cases v; simp add: side_from_wire_def)+

lemma role_wire [simp]: "role_from_wire (role_to_wire v) = Ok v" "role_to_wire v < 256"
  by (cases v; simp add: role_from_wire_def)+

lemma resume_status_wire [simp]: "resume_status_from_wire (resume_status_to_wire v) = Ok v" "resume_status_to_wire v < 256"
  by (cases v; simp add: resume_status_from_wire_def)+

lemma liquidity_wire [simp]: "liquidity_from_wire (liquidity_to_wire v) = Ok v" "liquidity_to_wire v < 256"
  by (cases v; simp add: liquidity_from_wire_def)+

lemma entry_kind_wire [simp]: "entry_kind_from_wire (entry_kind_to_wire v) = Ok v" "entry_kind_to_wire v < 256"
  by (cases v; simp add: entry_kind_from_wire_def)+

lemma order_action_wire [simp]: "order_action_from_wire (order_action_to_wire v) = Ok v" "order_action_to_wire v < 256"
  by (cases v; simp add: order_action_from_wire_def)+

lemma delay_source_wire [simp]: "delay_source_from_wire (delay_source_to_wire v) = Ok v" "delay_source_to_wire v < 256"
  by (cases v; simp add: delay_source_from_wire_def)+

lemma reject_reason_wire [simp]: "reject_reason_from_wire (reject_reason_to_wire v) = Ok v" "reject_reason_to_wire v < 256"
  by (cases v; simp add: reject_reason_from_wire_def)+

lemma instrument_kind_wire [simp]: "instrument_kind_from_wire (instrument_kind_to_wire v) = Ok v" "instrument_kind_to_wire v < 256"
  by (cases v; simp add: instrument_kind_from_wire_def)+

lemma cancel_reason_wire [simp]: "cancel_reason_from_wire (cancel_reason_to_wire v) = Ok v" "cancel_reason_to_wire v < 256"
  by (cases v; simp add: cancel_reason_from_wire_def)+

lemma tender_status_wire [simp]: "tender_status_from_wire (tender_status_to_wire v) = Ok v" "tender_status_to_wire v < 256"
  by (cases v; simp add: tender_status_from_wire_def)+

lemma negotiation_status_wire [simp]: "negotiation_status_from_wire (negotiation_status_to_wire v) = Ok v" "negotiation_status_to_wire v < 256"
  by (cases v; simp add: negotiation_status_from_wire_def)+

lemma otc_decision_wire [simp]: "otc_decision_from_wire (otc_decision_to_wire v) = Ok v" "otc_decision_to_wire v < 256"
  by (cases v; simp add: otc_decision_from_wire_def)+

subsection \<open>Message types\<close>

text \<open>Client messages are \<open>0x01\<close> to \<open>0x3f\<close>, server messages \<open>0x40\<close> to \<open>0x7f\<close>.\<close>

definition HELLO :: nat where
  "HELLO = 1"

definition CLIENT_HEARTBEAT :: nat where
  "CLIENT_HEARTBEAT = 2"

definition PROBE_REPLY :: nat where
  "PROBE_REPLY = 3"

definition PING :: nat where
  "PING = 4"

definition CLIENT_LOGOUT :: nat where
  "CLIENT_LOGOUT = 5"

definition ENROLL :: nat where
  "ENROLL = 6"

definition NEW_ORDER :: nat where
  "NEW_ORDER = 16"

definition CANCEL_ORDER :: nat where
  "CANCEL_ORDER = 17"

definition KILL_SWITCH :: nat where
  "KILL_SWITCH = 18"

definition KILL_SWITCH_RESET :: nat where
  "KILL_SWITCH_RESET = 19"

definition TENDER_DECISION :: nat where
  "TENDER_DECISION = 24"

definition OTC_PROPOSE :: nat where
  "OTC_PROPOSE = 25"

definition OTC_COUNTER :: nat where
  "OTC_COUNTER = 26"

definition OTC_DECISION :: nat where
  "OTC_DECISION = 27"

definition SUBSCRIBE :: nat where
  "SUBSCRIBE = 32"

definition UNSUBSCRIBE :: nat where
  "UNSUBSCRIBE = 33"

definition SNAPSHOT_REQUEST :: nat where
  "SNAPSHOT_REQUEST = 34"

definition LISTINGS_REQUEST :: nat where
  "LISTINGS_REQUEST = 48"

definition OPEN_ORDERS_REQUEST :: nat where
  "OPEN_ORDERS_REQUEST = 49"

definition ACCOUNT_REQUEST :: nat where
  "ACCOUNT_REQUEST = 50"

definition DEALS_REQUEST :: nat where
  "DEALS_REQUEST = 51"

definition REFERENCE_DATA_REQUEST :: nat where
  "REFERENCE_DATA_REQUEST = 52"

definition OPERATOR_COMMAND :: nat where
  "OPERATOR_COMMAND = 56"

definition WELCOME :: nat where
  "WELCOME = 65"

definition ENROLLED :: nat where
  "ENROLLED = 78"

definition SERVER_HEARTBEAT :: nat where
  "SERVER_HEARTBEAT = 66"

definition PROBE :: nat where
  "PROBE = 67"

definition PONG :: nat where
  "PONG = 68"

definition REJECT :: nat where
  "REJECT = 69"

definition REPLAY_COMPLETE :: nat where
  "REPLAY_COMPLETE = 70"

definition SERVER_LOGOUT :: nat where
  "SERVER_LOGOUT = 71"

definition ACCESS_DELAY :: nat where
  "ACCESS_DELAY = 72"

definition OPERATOR_DONE :: nat where
  "OPERATOR_DONE = 73"

definition DEAL_DONE :: nat where
  "DEAL_DONE = 74"

definition ORDER_ACCEPTED :: nat where
  "ORDER_ACCEPTED = 80"

definition ORDER_REJECTED :: nat where
  "ORDER_REJECTED = 81"

definition ORDER_RESTED :: nat where
  "ORDER_RESTED = 82"

definition FILL :: nat where
  "FILL = 83"

definition ORDER_DONE :: nat where
  "ORDER_DONE = 84"

definition ORDER_CANCELED :: nat where
  "ORDER_CANCELED = 85"

definition CANCEL_REJECTED :: nat where
  "CANCEL_REJECTED = 86"

definition POSITION_CHANGED :: nat where
  "POSITION_CHANGED = 87"

definition BALANCE_CHANGED :: nat where
  "BALANCE_CHANGED = 88"

definition KILL_SWITCH_ACTIVATED :: nat where
  "KILL_SWITCH_ACTIVATED = 89"

definition ORDER_REDUCED :: nat where
  "ORDER_REDUCED = 90"

definition KILL_SWITCH_RESET_DONE :: nat where
  "KILL_SWITCH_RESET_DONE = 91"

definition RUN_STATUS :: nat where
  "RUN_STATUS = 92"

definition LISTING_HALT :: nat where
  "LISTING_HALT = 93"

definition NEWS :: nat where
  "NEWS = 94"

definition MARKET_SNAPSHOT :: nat where
  "MARKET_SNAPSHOT = 96"

definition MARKET_UPDATE :: nat where
  "MARKET_UPDATE = 97"

definition ORDER_SNAPSHOT :: nat where
  "ORDER_SNAPSHOT = 98"

definition ORDER_UPDATE :: nat where
  "ORDER_UPDATE = 99"

definition TAPE_SNAPSHOT :: nat where
  "TAPE_SNAPSHOT = 100"

definition TAPE_UPDATE :: nat where
  "TAPE_UPDATE = 101"

definition LISTINGS :: nat where
  "LISTINGS = 112"

definition OPEN_ORDERS :: nat where
  "OPEN_ORDERS = 113"

definition ACCOUNT :: nat where
  "ACCOUNT = 114"

definition DEALS :: nat where
  "DEALS = 115"

definition TENDER :: nat where
  "TENDER = 116"

definition NEGOTIATION :: nat where
  "NEGOTIATION = 117"

definition REFERENCE_DATA :: nat where
  "REFERENCE_DATA = 118"

lemmas msg_type_defs =
  HELLO_def
  CLIENT_HEARTBEAT_def
  PROBE_REPLY_def
  PING_def
  CLIENT_LOGOUT_def
  ENROLL_def
  NEW_ORDER_def
  CANCEL_ORDER_def
  KILL_SWITCH_def
  KILL_SWITCH_RESET_def
  TENDER_DECISION_def
  OTC_PROPOSE_def
  OTC_COUNTER_def
  OTC_DECISION_def
  SUBSCRIBE_def
  UNSUBSCRIBE_def
  SNAPSHOT_REQUEST_def
  LISTINGS_REQUEST_def
  OPEN_ORDERS_REQUEST_def
  ACCOUNT_REQUEST_def
  DEALS_REQUEST_def
  REFERENCE_DATA_REQUEST_def
  OPERATOR_COMMAND_def
  WELCOME_def
  ENROLLED_def
  SERVER_HEARTBEAT_def
  PROBE_def
  PONG_def
  REJECT_def
  REPLAY_COMPLETE_def
  SERVER_LOGOUT_def
  ACCESS_DELAY_def
  OPERATOR_DONE_def
  DEAL_DONE_def
  ORDER_ACCEPTED_def
  ORDER_REJECTED_def
  ORDER_RESTED_def
  FILL_def
  ORDER_DONE_def
  ORDER_CANCELED_def
  CANCEL_REJECTED_def
  POSITION_CHANGED_def
  BALANCE_CHANGED_def
  KILL_SWITCH_ACTIVATED_def
  ORDER_REDUCED_def
  KILL_SWITCH_RESET_DONE_def
  RUN_STATUS_def
  LISTING_HALT_def
  NEWS_def
  MARKET_SNAPSHOT_def
  MARKET_UPDATE_def
  ORDER_SNAPSHOT_def
  ORDER_UPDATE_def
  TAPE_SNAPSHOT_def
  TAPE_UPDATE_def
  LISTINGS_def
  OPEN_ORDERS_def
  ACCOUNT_def
  DEALS_def
  TENDER_def
  NEGOTIATION_def
  REFERENCE_DATA_def

subsection \<open>Structures\<close>

text \<open>
  The fields of a structure carry a prefix of their own, since the structures share many
  field names; the fields keep the source's names and order.
\<close>

datatype news_audience =
    Public
  | Participant u128
  | Team u128
  | Role ustring

datatype operator_action =
    Start
  | Pause
  | Resume
  | Advance u32
  | Terminate ustring
  | Halt u128 bool ustring
  | MassCancel "u128 option" "u128 option"
  | PublishNews u128 news_audience ustring ustring
  | Score
  | Fine u128 u128 i128 ustring
  | OpenTender u128 u128 u128 side i64 i64 u64

record tender_info =
  tn_tender_id :: u128
  tn_participant_id :: u128
  tn_instrument_id :: u128
  tn_side :: side
  tn_quantity :: i64
  tn_price :: i64
  tn_expires_at_ns :: u64
  tn_status :: tender_status

record negotiation_info =
  ng_negotiation_id :: u128
  ng_proposer_id :: u128
  ng_counterparty_id :: u128
  ng_instrument_id :: u128
  ng_side :: side
  ng_quantity :: i64
  ng_price :: i64
  ng_expires_at_ns :: u64
  ng_status :: negotiation_status
  ng_awaiting :: u128

definition operator_action_code :: "operator_action \<Rightarrow> nat" where
  "operator_action_code m =
     (case m of
       Start \<Rightarrow> 1
     | Pause \<Rightarrow> 2
     | Resume \<Rightarrow> 3
     | Advance _ \<Rightarrow> 4
     | Terminate _ \<Rightarrow> 5
     | Halt _ _ _ \<Rightarrow> 6
     | MassCancel _ _ \<Rightarrow> 7
     | PublishNews _ _ _ _ \<Rightarrow> 8
     | Score \<Rightarrow> 9
     | Fine _ _ _ _ \<Rightarrow> 10
     | OpenTender _ _ _ _ _ _ _ \<Rightarrow> 11)"

record listing =
  l_venue_id :: u128
  l_instrument_id :: u128

text \<open>Feed flags: a \<open>u8\<close> with the known bits only.\<close>

definition KNOWN_FLAGS :: u8 where
  "KNOWN_FLAGS = 15"

typedef feed_flags = "{v :: u8. and v (not KNOWN_FLAGS) = 0}"
  morphisms feed_flags_to_wire FeedFlags
  by (rule exI [of _ 0]) simp

definition feed_flags_from_wire :: "u8 \<Rightarrow> (feed_flags, bnp_error) result" where
  "feed_flags_from_wire v =
     (if and v (not KNOWN_FLAGS) \<noteq> 0 then Err (InvalidValue ''FeedFlags'' (unat v)) else Ok (FeedFlags v))"

definition flag_BIDS :: feed_flags where
  "flag_BIDS = FeedFlags 1"

definition flag_OFFERS :: feed_flags where
  "flag_OFFERS = FeedFlags 2"

definition flag_TRADES :: feed_flags where
  "flag_TRADES = FeedFlags 4"

definition flag_ALL :: feed_flags where
  "flag_ALL = FeedFlags 7"

definition flag_ORDERS :: feed_flags where
  "flag_ORDERS = FeedFlags 8"

definition feed_flags_contains :: "feed_flags \<Rightarrow> feed_flags \<Rightarrow> bool" where
  "feed_flags_contains s t \<longleftrightarrow>
     and (feed_flags_to_wire s) (feed_flags_to_wire t) = feed_flags_to_wire t"

definition feed_flags_union :: "feed_flags \<Rightarrow> feed_flags \<Rightarrow> feed_flags" where
  "feed_flags_union s t = FeedFlags (or (feed_flags_to_wire s) (feed_flags_to_wire t))"

definition feed_flags_is_empty :: "feed_flags \<Rightarrow> bool" where
  "feed_flags_is_empty s \<longleftrightarrow> feed_flags_to_wire s = 0"

lemma feed_flags_wire [simp]: "feed_flags_from_wire (feed_flags_to_wire v) = Ok v"
  using feed_flags_to_wire [of v] by (simp add: feed_flags_from_wire_def feed_flags_to_wire_inverse)

datatype time_in_force =
    Gtc
  | Ioc
  | Fok
  | Day
  | Gtd u64

datatype order_type =
    Limit i64
  | Market

record new_order =
  no_client_order_id :: u64
  no_listing :: listing
  no_side :: side
  no_quantity :: i64
  no_order_type :: order_type
  no_time_in_force :: time_in_force
  no_post_only :: bool
  no_anonymous :: bool
  no_display_quantity :: "i64 option"

subsection \<open>Client messages\<close>

datatype client_message =
    Hello u16 "u64 option" ustring
  | ClientHeartbeat
  | ProbeReply u64
  | Ping u64
  | ClientLogout ustring
  | NewOrder new_order
  | CancelOrder u64
  | KillSwitch u64
  | KillSwitchReset u64
  | Subscribe u32 listing feed_flags
  | Unsubscribe u32
  | SnapshotRequest u32 listing u16
  | ListingsRequest u32
  | OpenOrdersRequest u32
  | AccountRequest u32
  | OperatorCommand u64 operator_action
  | TenderDecision u64 u128 bool
  | OtcPropose u64 u64 u128 u128 side i64 i64 u64
  | OtcCounter u64 u128 i64 i64
  | OtcDecision u64 u128 otc_decision
  | DealsRequest u32
  | ReferenceDataRequest u32 "u128 option" u16
  | Enroll ustring ustring

definition client_msg_type :: "client_message \<Rightarrow> nat" where
  "client_msg_type m =
     (case m of
       Hello _ _ _ \<Rightarrow> HELLO
     | ClientHeartbeat \<Rightarrow> CLIENT_HEARTBEAT
     | ProbeReply _ \<Rightarrow> PROBE_REPLY
     | Ping _ \<Rightarrow> PING
     | ClientLogout _ \<Rightarrow> CLIENT_LOGOUT
     | NewOrder _ \<Rightarrow> NEW_ORDER
     | CancelOrder _ \<Rightarrow> CANCEL_ORDER
     | KillSwitch _ \<Rightarrow> KILL_SWITCH
     | KillSwitchReset _ \<Rightarrow> KILL_SWITCH_RESET
     | Subscribe _ _ _ \<Rightarrow> SUBSCRIBE
     | Unsubscribe _ \<Rightarrow> UNSUBSCRIBE
     | SnapshotRequest _ _ _ \<Rightarrow> SNAPSHOT_REQUEST
     | ListingsRequest _ \<Rightarrow> LISTINGS_REQUEST
     | OpenOrdersRequest _ \<Rightarrow> OPEN_ORDERS_REQUEST
     | AccountRequest _ \<Rightarrow> ACCOUNT_REQUEST
     | OperatorCommand _ _ \<Rightarrow> OPERATOR_COMMAND
     | TenderDecision _ _ _ \<Rightarrow> TENDER_DECISION
     | OtcPropose _ _ _ _ _ _ _ _ \<Rightarrow> OTC_PROPOSE
     | OtcCounter _ _ _ _ \<Rightarrow> OTC_COUNTER
     | OtcDecision _ _ _ \<Rightarrow> OTC_DECISION
     | DealsRequest _ \<Rightarrow> DEALS_REQUEST
     | ReferenceDataRequest _ _ _ \<Rightarrow> REFERENCE_DATA_REQUEST
     | Enroll _ _ \<Rightarrow> ENROLL)"

subsection \<open>Server messages\<close>

record welcome_message =
  wc_version :: u16
  wc_run_id :: u128
  wc_participant_id :: u128
  wc_role :: role
  wc_heartbeat_ms :: u32
  wc_max_frame_bytes :: u32
  wc_resume :: resume_status
  wc_run_sequence :: u64

record stamp =
  st_sequence :: u64
  st_logical_time_ns :: u64

record level =
  lv_price :: i64
  lv_quantity :: i64

record entry =
  en_kind :: entry_kind
  en_price :: i64
  en_quantity :: i64

record book_order =
  bo_side :: side
  bo_reference :: u64
  bo_price :: i64
  bo_quantity :: i64
  bo_broker :: "u128 option"
  bo_queue_position :: u32

datatype order_entry =
    OrderEntryTrade i64 i64 "u64 option" "u128 option" "u128 option"
  | OrderEntryOrder order_action side u64 i64 i64 "u128 option"

record tape_quote =
  tq_venue_id :: u128
  tq_side :: side
  tq_price :: i64
  tq_quantity :: i64

record tape_entry =
  te_venue_id :: u128
  te_kind :: entry_kind
  te_price :: i64
  te_quantity :: i64

record listing_info =
  li_listing :: listing
  li_symbol :: ustring

record currency_info =
  ci_currency_id :: u128
  ci_code :: ustring
  ci_name :: ustring
  ci_minor_decimals :: u8

record instrument_info =
  ii_instrument_id :: u128
  ii_symbol :: ustring
  ii_kind :: instrument_kind
  ii_underlying :: "u128 option"
  ii_strike :: "i64 option"
  ii_expiry_ns :: "u64 option"
  ii_is_call :: bool
  ii_physical_delivery :: bool
  ii_coupon_bps :: u32
  ii_components :: "(u128 \<times> i64) list"
  ii_multiplier :: i64
  ii_currency_id :: u128
  ii_quoted_decimals :: u8
  ii_shortable :: bool
  ii_tradeable :: bool
  ii_window_start_ns :: "u64 option"
  ii_window_stop_ns :: "u64 option"
  ii_display_unit :: ustring
  ii_description :: ustring
  ii_opening_mark :: "i64 option"
  ii_max_order_quantity :: "i64 option"

record listing_reference =
  lr_listing :: listing
  lr_symbol :: ustring
  lr_min_price :: i64
  lr_max_price :: i64
  lr_tick_size :: i64
  lr_taker_fee_per_lot :: i128
  lr_maker_fee_per_lot :: i128
  lr_broker_ids :: bool
  lr_primary :: bool
  lr_halted :: bool
  lr_in_window :: bool

record open_order =
  oo_client_order_id :: u64
  oo_order_id :: u128
  oo_listing :: listing
  oo_side :: side
  oo_price :: i64
  oo_original_quantity :: i64
  oo_remaining_quantity :: i64

record cash_balance =
  cb_currency_id :: u128
  cb_balance :: i128
  cb_reserved :: i128

record position =
  ps_instrument_id :: u128
  ps_position :: i64
  ps_open_buy :: i64
  ps_open_sell :: i64

datatype server_message =
    Welcome welcome_message
  | ServerHeartbeat
  | Probe u64
  | Pong u64 u64
  | Reject u8 u64 ustring
  | ReplayComplete u64
  | ServerLogout ustring
  | AccessDelay delay_source "u64 option" "u64 option" u64
  | OperatorDone u64 u64
  | DealDone u64 u64
  | Tender stamp tender_info
  | Negotiation stamp negotiation_info
  | RunStatus stamp ustring
  | ListingHalt stamp u128 bool
  | News stamp u128 ustring ustring
  | OrderAccepted stamp u64 u128 listing side i64 "i64 option"
  | OrderRejected stamp u64 reject_reason
  | OrderRested stamp u64 u128 i64 i64 "u64 option"
  | OrderReduced stamp u64 u128 i64 "u64 option"
  | Fill stamp u64 u128 listing side i64 i64 i128 liquidity
  | OrderDone stamp u64 u128
  | OrderCanceled stamp u64 u128 i64 cancel_reason
  | CancelRejected stamp u64 reject_reason
  | PositionChanged stamp u128 i64
  | BalanceChanged stamp i128
  | KillSwitchActivated stamp
  | KillSwitchResetDone stamp
  | MarketSnapshot u32 listing u64 "level list" "level list"
  | MarketUpdate u32 listing u64 "entry list"
  | OrderSnapshot u32 listing u64 bool "book_order list"
  | OrderUpdate u32 listing u64 "order_entry list"
  | TapeSnapshot u32 u128 u64 "tape_quote list"
  | TapeUpdate u32 u128 u64 "tape_entry list"
  | Listings u32 "listing_info list"
  | OpenOrders u32 u64 "open_order list"
  | Account u32 u64 "cash_balance list" "position list"
  | Deals u32 u64 "tender_info list" "negotiation_info list"
  | ReferenceData u32 u64 "u128 option" "currency_info list" "instrument_info list" "listing_reference list"
  | Enrolled u128 ustring ustring

definition server_msg_type :: "server_message \<Rightarrow> nat" where
  "server_msg_type m =
     (case m of
       Welcome _ \<Rightarrow> WELCOME
     | ServerHeartbeat \<Rightarrow> SERVER_HEARTBEAT
     | Probe _ \<Rightarrow> PROBE
     | Pong _ _ \<Rightarrow> PONG
     | Reject _ _ _ \<Rightarrow> REJECT
     | ReplayComplete _ \<Rightarrow> REPLAY_COMPLETE
     | ServerLogout _ \<Rightarrow> SERVER_LOGOUT
     | AccessDelay _ _ _ _ \<Rightarrow> ACCESS_DELAY
     | OperatorDone _ _ \<Rightarrow> OPERATOR_DONE
     | DealDone _ _ \<Rightarrow> DEAL_DONE
     | Tender _ _ \<Rightarrow> TENDER
     | Negotiation _ _ \<Rightarrow> NEGOTIATION
     | RunStatus _ _ \<Rightarrow> RUN_STATUS
     | ListingHalt _ _ _ \<Rightarrow> LISTING_HALT
     | News _ _ _ _ \<Rightarrow> NEWS
     | OrderAccepted _ _ _ _ _ _ _ \<Rightarrow> ORDER_ACCEPTED
     | OrderRejected _ _ _ \<Rightarrow> ORDER_REJECTED
     | OrderRested _ _ _ _ _ _ \<Rightarrow> ORDER_RESTED
     | OrderReduced _ _ _ _ _ \<Rightarrow> ORDER_REDUCED
     | Fill _ _ _ _ _ _ _ _ _ \<Rightarrow> FILL
     | OrderDone _ _ _ \<Rightarrow> ORDER_DONE
     | OrderCanceled _ _ _ _ _ \<Rightarrow> ORDER_CANCELED
     | CancelRejected _ _ _ \<Rightarrow> CANCEL_REJECTED
     | PositionChanged _ _ _ \<Rightarrow> POSITION_CHANGED
     | BalanceChanged _ _ \<Rightarrow> BALANCE_CHANGED
     | KillSwitchActivated _ \<Rightarrow> KILL_SWITCH_ACTIVATED
     | KillSwitchResetDone _ \<Rightarrow> KILL_SWITCH_RESET_DONE
     | MarketSnapshot _ _ _ _ _ \<Rightarrow> MARKET_SNAPSHOT
     | MarketUpdate _ _ _ _ \<Rightarrow> MARKET_UPDATE
     | OrderSnapshot _ _ _ _ _ \<Rightarrow> ORDER_SNAPSHOT
     | OrderUpdate _ _ _ _ \<Rightarrow> ORDER_UPDATE
     | TapeSnapshot _ _ _ _ \<Rightarrow> TAPE_SNAPSHOT
     | TapeUpdate _ _ _ _ \<Rightarrow> TAPE_UPDATE
     | Listings _ _ \<Rightarrow> LISTINGS
     | OpenOrders _ _ _ \<Rightarrow> OPEN_ORDERS
     | Account _ _ _ _ \<Rightarrow> ACCOUNT
     | Deals _ _ _ _ \<Rightarrow> DEALS
     | ReferenceData _ _ _ _ _ _ \<Rightarrow> REFERENCE_DATA
     | Enrolled _ _ _ \<Rightarrow> ENROLLED)"

definition server_stamp :: "server_message \<Rightarrow> stamp option" where
  "server_stamp m =
     (case m of
       OrderAccepted s _ _ _ _ _ _ \<Rightarrow> Some s
     | OrderRejected s _ _ \<Rightarrow> Some s
     | OrderRested s _ _ _ _ _ \<Rightarrow> Some s
     | OrderReduced s _ _ _ _ \<Rightarrow> Some s
     | Fill s _ _ _ _ _ _ _ _ \<Rightarrow> Some s
     | OrderDone s _ _ \<Rightarrow> Some s
     | OrderCanceled s _ _ _ _ \<Rightarrow> Some s
     | CancelRejected s _ _ \<Rightarrow> Some s
     | PositionChanged s _ _ \<Rightarrow> Some s
     | BalanceChanged s _ \<Rightarrow> Some s
     | KillSwitchActivated s \<Rightarrow> Some s
     | KillSwitchResetDone s \<Rightarrow> Some s
     | RunStatus s _ \<Rightarrow> Some s
     | ListingHalt s _ _ \<Rightarrow> Some s
     | News s _ _ _ \<Rightarrow> Some s
     | Tender s _ \<Rightarrow> Some s
     | Negotiation s _ \<Rightarrow> Some s
     | _ \<Rightarrow> None)"

end
