(* ===== verification/Bnp_Codec.thy ===== *)
theory Bnp_Codec
  imports Bnp_Types
begin

text \<open>
  The field codecs of \<open>src/packages/bnp-wire/src/codec.rs\<close>: the methods of \<open>Writer\<close> and
  \<open>Reader\<close> and the codecs of the structures the messages are made of. A writer is the bytes it
  appends or its error (\<open>w_seq\<close> runs statements one after the other, stopping at the first
  error, as \<open>?\<close> does); a reader takes the bytes left and returns its value and the bytes after
  it. The closures the source passes to \<open>group\<close> are the definitions named after their structure.
\<close>

type_synonym 'a writer = "'a \<Rightarrow> (bytes, bnp_error) result"

type_synonym 'a reader = "bytes \<Rightarrow> ('a \<times> bytes, bnp_error) result"

subsection \<open>Sequencing\<close>

fun w_seq :: "(bytes, bnp_error) result list \<Rightarrow> (bytes, bnp_error) result" where
  "w_seq [] = Ok []"
| "w_seq (w # ws) = attempt w (\<lambda>bs. attempt (w_seq ws) (\<lambda>more_bytes. Ok (bs @ more_bytes)))"

declare w_seq.simps [simp del]

definition r_return :: "'a \<Rightarrow> 'a reader" where
  "r_return x bs = Ok (x, bs)"

definition r_fail :: "bnp_error \<Rightarrow> 'a reader" where
  "r_fail e bs = Err e"

definition r_bind :: "'a reader \<Rightarrow> ('a \<Rightarrow> 'b reader) \<Rightarrow> 'b reader" where
  "r_bind r k bs = attempt (r bs) (\<lambda>(x, rest). k x rest)"

definition r_lift :: "('a, bnp_error) result \<Rightarrow> 'a reader" where
  "r_lift v bs = attempt v (\<lambda>x. Ok (x, bs))"

subsection \<open>Integers\<close>

text \<open>\<open>to_le_bytes\<close> and \<open>from_le_bytes\<close>, on the value of the integer.\<close>

fun to_le_bytes :: "nat \<Rightarrow> nat \<Rightarrow> bytes" where
  "to_le_bytes 0 v = []"
| "to_le_bytes (Suc n) v = char_of (v mod 256) # to_le_bytes n (v div 256)"

fun from_le_bytes :: "bytes \<Rightarrow> nat" where
  "from_le_bytes [] = 0"
| "from_le_bytes (b # bs) = of_char b + 256 * from_le_bytes bs"

definition w_bytes :: "bytes writer" where
  "w_bytes bs = Ok bs"

definition w_u8 :: "u8 writer" where
  "w_u8 v = Ok (to_le_bytes 1 (unat v))"

definition w_bool :: "bool writer" where
  "w_bool b = w_u8 (if b then 1 else 0)"

definition w_u16 :: "u16 writer" where
  "w_u16 v = w_bytes (to_le_bytes 2 (unat v))"

definition w_u32 :: "u32 writer" where
  "w_u32 v = w_bytes (to_le_bytes 4 (unat v))"

definition w_u64 :: "u64 writer" where
  "w_u64 v = w_bytes (to_le_bytes 8 (unat v))"

definition w_i64 :: "i64 writer" where
  "w_i64 v = w_bytes (to_le_bytes 8 (unat v))"

definition w_u128 :: "u128 writer" where
  "w_u128 v = w_bytes (to_le_bytes 16 (unat v))"

definition w_i128 :: "i128 writer" where
  "w_i128 v = w_bytes (to_le_bytes 16 (unat v))"

definition r_bytes :: "nat \<Rightarrow> bytes reader" where
  "r_bytes n bs = (if length bs < n then Err Truncated else Ok (take n bs, drop n bs))"

text \<open>\<open>array\<close> with \<open>from_le_bytes\<close>: an integer of \<open>n\<close> bytes.\<close>

definition r_array :: "nat \<Rightarrow> ('w::len) word reader" where
  "r_array n = r_bind (r_bytes n) (\<lambda>bs. r_return (word_of_nat (from_le_bytes bs)))"

definition r_u8 :: "u8 reader" where
  "r_u8 = r_array 1"

definition r_bool :: "bool reader" where
  "r_bool =
     r_bind r_u8 (\<lambda>v.
     if v = 0 then r_return False
     else if v = 1 then r_return True
     else r_fail (InvalidValue ''bool'' (unat v)))"

definition r_u16 :: "u16 reader" where
  "r_u16 = r_array 2"

definition r_u32 :: "u32 reader" where
  "r_u32 = r_array 4"

definition r_u64 :: "u64 reader" where
  "r_u64 = r_array 8"

definition r_i64 :: "i64 reader" where
  "r_i64 = r_array 8"

definition r_u128 :: "u128 reader" where
  "r_u128 = r_array 16"

definition r_i128 :: "i128 reader" where
  "r_i128 = r_array 16"

text \<open>An enumeration is written as \<open>w.u8(v.to_wire())\<close> and read as \<open>T::from_wire(r.u8()?)?\<close>.\<close>

definition w_enum :: "nat writer" where
  "w_enum v = w_u8 (word_of_nat v)"

definition r_enum :: "(nat \<Rightarrow> ('a, bnp_error) result) \<Rightarrow> 'a reader" where
  "r_enum from_wire = r_bind r_u8 (\<lambda>v. r_lift (from_wire (unat v)))"

definition r_flags :: "feed_flags reader" where
  "r_flags = r_bind r_u8 (\<lambda>v. r_lift (feed_flags_from_wire v))"

subsection \<open>Options, strings and groups\<close>

definition w_option :: "'a writer \<Rightarrow> 'a option writer" where
  "w_option put v = (case v of Some x \<Rightarrow> w_seq [w_u8 1, put x] | None \<Rightarrow> w_u8 0)"

definition r_option :: "'a reader \<Rightarrow> 'a option reader" where
  "r_option r = r_bind r_bool (\<lambda>b. if b then r_bind r (\<lambda>x. r_return (Some x)) else r_return None)"

definition w_string :: "ustring writer" where
  "w_string s =
     (let n = length (str_bytes s) in
      if n > MAX_STRING_BYTES then Err (StringTooLong n)
      else w_seq [w_u16 (word_of_nat n), w_bytes (str_bytes s)])"

definition r_string :: "ustring reader" where
  "r_string =
     r_bind r_u16 (\<lambda>n.
     if unat n > MAX_STRING_BYTES then r_fail (StringTooLong (unat n))
     else r_bind (r_bytes (unat n)) (\<lambda>bs. r_lift (ok_or InvalidUtf8 (string_from_utf8 bs))))"

definition w_group :: "'a writer \<Rightarrow> 'a list writer" where
  "w_group put items =
     (if length items > MAX_GROUP_ENTRIES then Err (GroupTooLarge (length items))
      else w_seq (w_u16 (word_of_nat (length items)) # map put items))"

fun r_times :: "nat \<Rightarrow> 'a reader \<Rightarrow> 'a list reader" where
  "r_times 0 r = r_return []"
| "r_times (Suc n) r = r_bind r (\<lambda>x. r_bind (r_times n r) (\<lambda>xs. r_return (x # xs)))"

definition r_group :: "'a reader \<Rightarrow> 'a list reader" where
  "r_group r =
     r_bind r_u16 (\<lambda>count bs.
     if unat count > MAX_GROUP_ENTRIES then Err (GroupTooLarge (unat count))
     else if unat count > length bs then Err Truncated
     else r_times (unat count) r bs)"

definition r_finish :: "unit reader" where
  "r_finish bs = (if bs = [] then Ok ((), []) else Err TrailingBytes)"

subsection \<open>Structures\<close>

definition w_listing :: "listing writer" where
  "w_listing listing = w_seq [w_u128 (l_venue_id listing), w_u128 (l_instrument_id listing)]"

definition r_listing :: "listing reader" where
  "r_listing =
     r_bind r_u128 (\<lambda>venue_id.
     r_bind r_u128 (\<lambda>instrument_id.
     r_return (\<lparr>l_venue_id = venue_id, l_instrument_id = instrument_id\<rparr>)))"

definition w_stamp :: "stamp writer" where
  "w_stamp stamp = w_seq [w_u64 (st_sequence stamp), w_u64 (st_logical_time_ns stamp)]"

definition r_stamp :: "stamp reader" where
  "r_stamp =
     r_bind r_u64 (\<lambda>sequence.
     r_bind r_u64 (\<lambda>logical_time_ns.
     r_return (\<lparr>st_sequence = sequence, st_logical_time_ns = logical_time_ns\<rparr>)))"

definition w_level :: "level writer" where
  "w_level level = w_seq [w_i64 (lv_price level), w_i64 (lv_quantity level)]"

definition r_level :: "level reader" where
  "r_level =
     r_bind r_i64 (\<lambda>price.
     r_bind r_i64 (\<lambda>quantity.
     r_return (\<lparr>lv_price = price, lv_quantity = quantity\<rparr>)))"

definition write_tender :: "tender_info writer" where
  "write_tender tender =
     w_seq [w_u128 (tn_tender_id tender), w_u128 (tn_participant_id tender),
            w_u128 (tn_instrument_id tender), w_enum (side_to_wire (tn_side tender)),
            w_i64 (tn_quantity tender), w_i64 (tn_price tender), w_u64 (tn_expires_at_ns tender),
            w_enum (tender_status_to_wire (tn_status tender))]"

definition read_tender :: "tender_info reader" where
  "read_tender =
     r_bind r_u128 (\<lambda>tender_id.
     r_bind r_u128 (\<lambda>participant_id.
     r_bind r_u128 (\<lambda>instrument_id.
     r_bind (r_enum side_from_wire) (\<lambda>side.
     r_bind r_i64 (\<lambda>quantity.
     r_bind r_i64 (\<lambda>price.
     r_bind r_u64 (\<lambda>expires_at_ns.
     r_bind (r_enum tender_status_from_wire) (\<lambda>status.
     r_return (\<lparr>tn_tender_id = tender_id, tn_participant_id = participant_id,
         tn_instrument_id = instrument_id, tn_side = side, tn_quantity = quantity,
         tn_price = price, tn_expires_at_ns = expires_at_ns, tn_status = status\<rparr>)))))))))"

definition write_negotiation :: "negotiation_info writer" where
  "write_negotiation negotiation =
     w_seq [w_u128 (ng_negotiation_id negotiation), w_u128 (ng_proposer_id negotiation),
            w_u128 (ng_counterparty_id negotiation), w_u128 (ng_instrument_id negotiation),
            w_enum (side_to_wire (ng_side negotiation)), w_i64 (ng_quantity negotiation),
            w_i64 (ng_price negotiation), w_u64 (ng_expires_at_ns negotiation),
            w_enum (negotiation_status_to_wire (ng_status negotiation)),
            w_u128 (ng_awaiting negotiation)]"

definition read_negotiation :: "negotiation_info reader" where
  "read_negotiation =
     r_bind r_u128 (\<lambda>negotiation_id.
     r_bind r_u128 (\<lambda>proposer_id.
     r_bind r_u128 (\<lambda>counterparty_id.
     r_bind r_u128 (\<lambda>instrument_id.
     r_bind (r_enum side_from_wire) (\<lambda>side.
     r_bind r_i64 (\<lambda>quantity.
     r_bind r_i64 (\<lambda>price.
     r_bind r_u64 (\<lambda>expires_at_ns.
     r_bind (r_enum negotiation_status_from_wire) (\<lambda>status.
     r_bind r_u128 (\<lambda>awaiting.
     r_return (\<lparr>ng_negotiation_id = negotiation_id, ng_proposer_id = proposer_id,
         ng_counterparty_id = counterparty_id, ng_instrument_id = instrument_id, ng_side = side,
         ng_quantity = quantity, ng_price = price, ng_expires_at_ns = expires_at_ns,
         ng_status = status, ng_awaiting = awaiting\<rparr>)))))))))))"

definition write_component :: "(u128 \<times> i64) writer" where
  "write_component item = (case item of (component, weight) \<Rightarrow> w_seq [w_u128 component, w_i64 weight])"

definition read_component :: "(u128 \<times> i64) reader" where
  "read_component =
     r_bind r_u128 (\<lambda>component.
     r_bind r_i64 (\<lambda>weight.
     r_return (component, weight)))"

definition write_instrument :: "instrument_info writer" where
  "write_instrument instrument =
     w_seq [w_u128 (ii_instrument_id instrument), w_string (ii_symbol instrument),
            w_enum (instrument_kind_to_wire (ii_kind instrument)),
            w_option w_u128 (ii_underlying instrument), w_option w_i64 (ii_strike instrument),
            w_option w_u64 (ii_expiry_ns instrument), w_bool (ii_is_call instrument),
            w_bool (ii_physical_delivery instrument), w_u32 (ii_coupon_bps instrument),
            w_group write_component (ii_components instrument), w_i64 (ii_multiplier instrument),
            w_u128 (ii_currency_id instrument), w_u8 (ii_quoted_decimals instrument),
            w_bool (ii_shortable instrument), w_bool (ii_tradeable instrument),
            w_option w_u64 (ii_window_start_ns instrument),
            w_option w_u64 (ii_window_stop_ns instrument), w_string (ii_display_unit instrument),
            w_string (ii_description instrument), w_option w_i64 (ii_opening_mark instrument),
            w_option w_i64 (ii_max_order_quantity instrument)]"

definition read_instrument :: "instrument_info reader" where
  "read_instrument =
     r_bind r_u128 (\<lambda>instrument_id.
     r_bind r_string (\<lambda>symbol.
     r_bind (r_enum instrument_kind_from_wire) (\<lambda>kind.
     r_bind (r_option r_u128) (\<lambda>underlying.
     r_bind (r_option r_i64) (\<lambda>strike.
     r_bind (r_option r_u64) (\<lambda>expiry_ns.
     r_bind r_bool (\<lambda>is_call.
     r_bind r_bool (\<lambda>physical_delivery.
     r_bind r_u32 (\<lambda>coupon_bps.
     r_bind (r_group read_component) (\<lambda>components.
     r_bind r_i64 (\<lambda>multiplier.
     r_bind r_u128 (\<lambda>currency_id.
     r_bind r_u8 (\<lambda>quoted_decimals.
     r_bind r_bool (\<lambda>shortable.
     r_bind r_bool (\<lambda>tradeable.
     r_bind (r_option r_u64) (\<lambda>window_start_ns.
     r_bind (r_option r_u64) (\<lambda>window_stop_ns.
     r_bind r_string (\<lambda>display_unit.
     r_bind r_string (\<lambda>description.
     r_bind (r_option r_i64) (\<lambda>opening_mark.
     r_bind (r_option r_i64) (\<lambda>max_order_quantity.
     r_return (\<lparr>ii_instrument_id = instrument_id, ii_symbol = symbol, ii_kind = kind,
         ii_underlying = underlying, ii_strike = strike, ii_expiry_ns = expiry_ns,
         ii_is_call = is_call, ii_physical_delivery = physical_delivery,
         ii_coupon_bps = coupon_bps, ii_components = components, ii_multiplier = multiplier,
         ii_currency_id = currency_id, ii_quoted_decimals = quoted_decimals,
         ii_shortable = shortable, ii_tradeable = tradeable, ii_window_start_ns = window_start_ns,
         ii_window_stop_ns = window_stop_ns, ii_display_unit = display_unit,
         ii_description = description, ii_opening_mark = opening_mark,
         ii_max_order_quantity = max_order_quantity\<rparr>))))))))))))))))))))))"

definition write_currency_info :: "currency_info writer" where
  "write_currency_info currency =
     w_seq [w_u128 (ci_currency_id currency), w_string (ci_code currency),
            w_string (ci_name currency), w_u8 (ci_minor_decimals currency)]"

definition read_currency_info :: "currency_info reader" where
  "read_currency_info =
     r_bind r_u128 (\<lambda>currency_id.
     r_bind r_string (\<lambda>code.
     r_bind r_string (\<lambda>name.
     r_bind r_u8 (\<lambda>minor_decimals.
     r_return (\<lparr>ci_currency_id = currency_id, ci_code = code, ci_name = name,
         ci_minor_decimals = minor_decimals\<rparr>)))))"

definition write_listing_reference :: "listing_reference writer" where
  "write_listing_reference listing =
     w_seq [w_listing (lr_listing listing), w_string (lr_symbol listing),
            w_i64 (lr_min_price listing), w_i64 (lr_max_price listing),
            w_i64 (lr_tick_size listing), w_i128 (lr_taker_fee_per_lot listing),
            w_i128 (lr_maker_fee_per_lot listing), w_bool (lr_broker_ids listing),
            w_bool (lr_primary listing), w_bool (lr_halted listing), w_bool (lr_in_window listing)]"

definition read_listing_reference :: "listing_reference reader" where
  "read_listing_reference =
     r_bind r_listing (\<lambda>listing.
     r_bind r_string (\<lambda>symbol.
     r_bind r_i64 (\<lambda>min_price.
     r_bind r_i64 (\<lambda>max_price.
     r_bind r_i64 (\<lambda>tick_size.
     r_bind r_i128 (\<lambda>taker_fee_per_lot.
     r_bind r_i128 (\<lambda>maker_fee_per_lot.
     r_bind r_bool (\<lambda>broker_ids.
     r_bind r_bool (\<lambda>primary.
     r_bind r_bool (\<lambda>halted.
     r_bind r_bool (\<lambda>in_window.
     r_return (\<lparr>lr_listing = listing, lr_symbol = symbol, lr_min_price = min_price,
         lr_max_price = max_price, lr_tick_size = tick_size,
         lr_taker_fee_per_lot = taker_fee_per_lot, lr_maker_fee_per_lot = maker_fee_per_lot,
         lr_broker_ids = broker_ids, lr_primary = primary, lr_halted = halted,
         lr_in_window = in_window\<rparr>))))))))))))"

definition write_book_order :: "book_order writer" where
  "write_book_order order =
     w_seq [w_enum (side_to_wire (bo_side order)), w_u64 (bo_reference order),
            w_i64 (bo_price order), w_i64 (bo_quantity order), w_option w_u128 (bo_broker order),
            w_u32 (bo_queue_position order)]"

definition read_book_order :: "book_order reader" where
  "read_book_order =
     r_bind (r_enum side_from_wire) (\<lambda>side.
     r_bind r_u64 (\<lambda>reference.
     r_bind r_i64 (\<lambda>price.
     r_bind r_i64 (\<lambda>quantity.
     r_bind (r_option r_u128) (\<lambda>broker.
     r_bind r_u32 (\<lambda>queue_position.
     r_return (\<lparr>bo_side = side, bo_reference = reference, bo_price = price,
         bo_quantity = quantity, bo_broker = broker,
         bo_queue_position = queue_position\<rparr>)))))))"

definition write_tape_quote :: "tape_quote writer" where
  "write_tape_quote quote =
     w_seq [w_u128 (tq_venue_id quote), w_enum (side_to_wire (tq_side quote)),
            w_i64 (tq_price quote), w_i64 (tq_quantity quote)]"

definition read_tape_quote :: "tape_quote reader" where
  "read_tape_quote =
     r_bind r_u128 (\<lambda>venue_id.
     r_bind (r_enum side_from_wire) (\<lambda>side.
     r_bind r_i64 (\<lambda>price.
     r_bind r_i64 (\<lambda>quantity.
     r_return (\<lparr>tq_venue_id = venue_id, tq_side = side, tq_price = price,
         tq_quantity = quantity\<rparr>)))))"

definition write_tape_entry :: "tape_entry writer" where
  "write_tape_entry entry =
     w_seq [w_u128 (te_venue_id entry), w_enum (entry_kind_to_wire (te_kind entry)),
            w_i64 (te_price entry), w_i64 (te_quantity entry)]"

definition read_tape_entry :: "tape_entry reader" where
  "read_tape_entry =
     r_bind r_u128 (\<lambda>venue_id.
     r_bind (r_enum entry_kind_from_wire) (\<lambda>kind.
     r_bind r_i64 (\<lambda>price.
     r_bind r_i64 (\<lambda>quantity.
     r_return (\<lparr>te_venue_id = venue_id, te_kind = kind, te_price = price,
         te_quantity = quantity\<rparr>)))))"

definition write_entry :: "entry writer" where
  "write_entry entry =
     w_seq [w_enum (entry_kind_to_wire (en_kind entry)), w_i64 (en_price entry),
            w_i64 (en_quantity entry)]"

definition read_entry :: "entry reader" where
  "read_entry =
     r_bind (r_enum entry_kind_from_wire) (\<lambda>kind.
     r_bind r_i64 (\<lambda>price.
     r_bind r_i64 (\<lambda>quantity.
     r_return (\<lparr>en_kind = kind, en_price = price, en_quantity = quantity\<rparr>))))"

definition write_listing_info :: "listing_info writer" where
  "write_listing_info info = w_seq [w_listing (li_listing info), w_string (li_symbol info)]"

definition read_listing_info :: "listing_info reader" where
  "read_listing_info =
     r_bind r_listing (\<lambda>listing.
     r_bind r_string (\<lambda>symbol.
     r_return (\<lparr>li_listing = listing, li_symbol = symbol\<rparr>)))"

definition write_open_order :: "open_order writer" where
  "write_open_order order =
     w_seq [w_u64 (oo_client_order_id order), w_u128 (oo_order_id order),
            w_listing (oo_listing order), w_enum (side_to_wire (oo_side order)),
            w_i64 (oo_price order), w_i64 (oo_original_quantity order),
            w_i64 (oo_remaining_quantity order)]"

definition read_open_order :: "open_order reader" where
  "read_open_order =
     r_bind r_u64 (\<lambda>client_order_id.
     r_bind r_u128 (\<lambda>order_id.
     r_bind r_listing (\<lambda>listing.
     r_bind (r_enum side_from_wire) (\<lambda>side.
     r_bind r_i64 (\<lambda>price.
     r_bind r_i64 (\<lambda>original_quantity.
     r_bind r_i64 (\<lambda>remaining_quantity.
     r_return (\<lparr>oo_client_order_id = client_order_id, oo_order_id = order_id,
         oo_listing = listing, oo_side = side, oo_price = price,
         oo_original_quantity = original_quantity,
         oo_remaining_quantity = remaining_quantity\<rparr>))))))))"

definition write_cash_balance :: "cash_balance writer" where
  "write_cash_balance balance =
     w_seq [w_u128 (cb_currency_id balance), w_i128 (cb_balance balance),
            w_i128 (cb_reserved balance)]"

definition read_cash_balance :: "cash_balance reader" where
  "read_cash_balance =
     r_bind r_u128 (\<lambda>currency_id.
     r_bind r_i128 (\<lambda>balance.
     r_bind r_i128 (\<lambda>reserved.
     r_return (\<lparr>cb_currency_id = currency_id, cb_balance = balance,
         cb_reserved = reserved\<rparr>))))"

definition write_position :: "position writer" where
  "write_position held =
     w_seq [w_u128 (ps_instrument_id held), w_i64 (ps_position held), w_i64 (ps_open_buy held),
            w_i64 (ps_open_sell held)]"

definition read_position :: "position reader" where
  "read_position =
     r_bind r_u128 (\<lambda>instrument_id.
     r_bind r_i64 (\<lambda>position.
     r_bind r_i64 (\<lambda>open_buy.
     r_bind r_i64 (\<lambda>open_sell.
     r_return (\<lparr>ps_instrument_id = instrument_id, ps_position = position,
         ps_open_buy = open_buy, ps_open_sell = open_sell\<rparr>)))))"

definition ORDER_ENTRY_TRADE :: nat where
  "ORDER_ENTRY_TRADE = 0"

definition write_order_entry :: "order_entry writer" where
  "write_order_entry e =
     (case e of
       OrderEntryTrade price quantity resting_reference buyer seller \<Rightarrow>
         w_seq [w_enum ORDER_ENTRY_TRADE, w_i64 price, w_i64 quantity,
            w_option w_u64 resting_reference, w_option w_u128 buyer, w_option w_u128 seller]
     | OrderEntryOrder action side reference price quantity broker \<Rightarrow>
         w_seq [w_enum (order_action_to_wire action), w_enum (side_to_wire side), w_u64 reference,
            w_i64 price, w_i64 quantity, w_option w_u128 broker])"

definition read_order_entry :: "order_entry reader" where
  "read_order_entry =
     r_bind r_u8 (\<lambda>action.
     if unat action = ORDER_ENTRY_TRADE then
       r_bind r_i64 (\<lambda>price.
       r_bind r_i64 (\<lambda>quantity.
       r_bind (r_option r_u64) (\<lambda>resting_reference.
       r_bind (r_option r_u128) (\<lambda>buyer.
       r_bind (r_option r_u128) (\<lambda>seller.
       r_return (OrderEntryTrade price quantity resting_reference buyer seller))))))
     else
       r_bind (r_lift (order_action_from_wire (unat action))) (\<lambda>action.
       r_bind (r_enum side_from_wire) (\<lambda>side.
       r_bind r_u64 (\<lambda>reference.
       r_bind r_i64 (\<lambda>price.
       r_bind r_i64 (\<lambda>quantity.
       r_bind (r_option r_u128) (\<lambda>broker.
       r_return (OrderEntryOrder action side reference price quantity broker))))))))"

subsection \<open>Orders and operator actions\<close>

text \<open>The order's arm of \<open>write_client\<close>, and \<open>read_new_order\<close>.\<close>

definition write_order_type :: "order_type writer" where
  "write_order_type t =
     (case t of
       Limit price \<Rightarrow> w_seq [w_u8 1, w_i64 price]
     | Market \<Rightarrow> w_seq [w_u8 2, w_i64 0])"

definition tif_fields :: "time_in_force \<Rightarrow> u8 \<times> u64" where
  "tif_fields t =
     (case t of Gtc \<Rightarrow> (0, 0) | Ioc \<Rightarrow> (1, 0) | Fok \<Rightarrow> (2, 0) | Day \<Rightarrow> (3, 0)
      | Gtd expires_at_ns \<Rightarrow> (4, expires_at_ns))"

definition write_new_order :: "new_order writer" where
  "write_new_order order =
     (let (tif, expires) = tif_fields (no_time_in_force order) in
      w_seq [w_u64 (no_client_order_id order), w_listing (no_listing order),
            w_enum (side_to_wire (no_side order)), w_i64 (no_quantity order),
            write_order_type (no_order_type order), w_u8 tif, w_u64 expires,
            w_bool (no_post_only order), w_bool (no_anonymous order),
            w_option w_i64 (no_display_quantity order)])"

definition read_order_type :: "order_type reader" where
  "read_order_type =
     r_bind r_u8 (\<lambda>v.
     if v = 1 then r_bind r_i64 (\<lambda>price. r_return (Limit price))
     else if v = 2 then r_bind r_i64 (\<lambda>_. r_return Market)
     else r_fail (InvalidValue ''OrderType'' (unat v)))"

definition tif_of :: "u8 \<Rightarrow> u64 \<Rightarrow> (time_in_force, bnp_error) result" where
  "tif_of tif expires_at_ns =
     (if tif = 0 then Ok Gtc
      else if tif = 1 then Ok Ioc
      else if tif = 2 then Ok Fok
      else if tif = 3 then Ok Day
      else if tif = 4 then Ok (Gtd expires_at_ns)
      else Err (InvalidValue ''TimeInForce'' (unat tif)))"

definition read_new_order :: "new_order reader" where
  "read_new_order =
     r_bind r_u64 (\<lambda>client_order_id.
     r_bind r_listing (\<lambda>listing.
     r_bind (r_enum side_from_wire) (\<lambda>side.
     r_bind r_i64 (\<lambda>quantity.
     r_bind read_order_type (\<lambda>order_type.
     r_bind r_u8 (\<lambda>tif.
     r_bind r_u64 (\<lambda>expires_at_ns.
     r_bind (r_lift (tif_of tif expires_at_ns)) (\<lambda>time_in_force.
     r_bind r_bool (\<lambda>post_only.
     r_bind r_bool (\<lambda>anonymous.
     r_bind (r_option r_i64) (\<lambda>display_quantity.
     r_return (\<lparr>no_client_order_id = client_order_id, no_listing = listing, no_side = side,
         no_quantity = quantity, no_order_type = order_type, no_time_in_force = time_in_force,
         no_post_only = post_only, no_anonymous = anonymous,
         no_display_quantity = display_quantity\<rparr>))))))))))))"

definition AUDIENCE_PUBLIC :: nat where
  "AUDIENCE_PUBLIC = 0"

definition AUDIENCE_PARTICIPANT :: nat where
  "AUDIENCE_PARTICIPANT = 1"

definition AUDIENCE_TEAM :: nat where
  "AUDIENCE_TEAM = 2"

definition AUDIENCE_ROLE :: nat where
  "AUDIENCE_ROLE = 3"

definition write_news_audience :: "news_audience writer" where
  "write_news_audience audience =
     (case audience of
       Public \<Rightarrow> w_enum AUDIENCE_PUBLIC
     | Participant i \<Rightarrow> w_seq [w_enum AUDIENCE_PARTICIPANT, w_u128 i]
     | Team i \<Rightarrow> w_seq [w_enum AUDIENCE_TEAM, w_u128 i]
     | Role role \<Rightarrow> w_seq [w_enum AUDIENCE_ROLE, w_string role])"

definition read_news_audience :: "news_audience reader" where
  "read_news_audience =
     r_bind r_u8 (\<lambda>v.
     if unat v = AUDIENCE_PUBLIC then r_return Public
     else if unat v = AUDIENCE_PARTICIPANT then r_bind r_u128 (\<lambda>i. r_return (Participant i))
     else if unat v = AUDIENCE_TEAM then r_bind r_u128 (\<lambda>i. r_return (Team i))
     else if unat v = AUDIENCE_ROLE then r_bind r_string (\<lambda>role. r_return (Role role))
     else r_fail (InvalidValue ''NewsAudience'' (unat v)))"

definition write_operator_action :: "operator_action writer" where
  "write_operator_action action =
     w_seq [w_enum (operator_action_code action), (case action of
       Start \<Rightarrow> w_seq []
     | Pause \<Rightarrow> w_seq []
     | Resume \<Rightarrow> w_seq []
     | Advance steps \<Rightarrow> w_seq [w_u32 steps]
     | Terminate reason \<Rightarrow> w_seq [w_string reason]
     | Halt instrument_id halted reason \<Rightarrow>
         w_seq [w_u128 instrument_id, w_bool halted, w_string reason]
     | MassCancel participant_id instrument_id \<Rightarrow>
         w_seq [w_option w_u128 participant_id, w_option w_u128 instrument_id]
     | PublishNews news_id audience headline body \<Rightarrow>
         w_seq [w_u128 news_id, write_news_audience audience, w_string headline, w_string body]
     | Score \<Rightarrow> w_seq []
     | Fine participant_id currency_id amount reason \<Rightarrow>
         w_seq [w_u128 participant_id, w_u128 currency_id, w_i128 amount, w_string reason]
     | OpenTender tender_id participant_id instrument_id side quantity price expires_at_ns \<Rightarrow>
         w_seq [w_u128 tender_id, w_u128 participant_id, w_u128 instrument_id,
            w_enum (side_to_wire side), w_i64 quantity, w_i64 price, w_u64 expires_at_ns])]"

definition read_operator_action :: "operator_action reader" where
  "read_operator_action =
     r_bind r_u8 (\<lambda>v.
     if v = 1 then
         r_return Start
     else if v = 2 then
         r_return Pause
     else if v = 3 then
         r_return Resume
     else if v = 4 then
         r_bind r_u32 (\<lambda>steps.
         r_return (Advance steps))
     else if v = 5 then
         r_bind r_string (\<lambda>reason.
         r_return (Terminate reason))
     else if v = 6 then
         r_bind r_u128 (\<lambda>instrument_id.
         r_bind r_bool (\<lambda>halted.
         r_bind r_string (\<lambda>reason.
         r_return (Halt instrument_id halted reason))))
     else if v = 7 then
         r_bind (r_option r_u128) (\<lambda>participant_id.
         r_bind (r_option r_u128) (\<lambda>instrument_id.
         r_return (MassCancel participant_id instrument_id)))
     else if v = 8 then
         r_bind r_u128 (\<lambda>news_id.
         r_bind read_news_audience (\<lambda>audience.
         r_bind r_string (\<lambda>headline.
         r_bind r_string (\<lambda>body.
         r_return (PublishNews news_id audience headline body)))))
     else if v = 9 then
         r_return Score
     else if v = 10 then
         r_bind r_u128 (\<lambda>participant_id.
         r_bind r_u128 (\<lambda>currency_id.
         r_bind r_i128 (\<lambda>amount.
         r_bind r_string (\<lambda>reason.
         r_return (Fine participant_id currency_id amount reason)))))
     else if v = 11 then
         r_bind r_u128 (\<lambda>tender_id.
         r_bind r_u128 (\<lambda>participant_id.
         r_bind r_u128 (\<lambda>instrument_id.
         r_bind (r_enum side_from_wire) (\<lambda>side.
         r_bind r_i64 (\<lambda>quantity.
         r_bind r_i64 (\<lambda>price.
         r_bind r_u64 (\<lambda>expires_at_ns.
         r_return (OpenTender tender_id participant_id instrument_id side quantity price expires_at_ns))))))))
     else r_fail (InvalidValue ''OperatorAction'' (unat v)))"

end
