(* ===== verification/Bnp_Messages.thy ===== *)
theory Bnp_Messages
  imports Bnp_Codec
begin

text \<open>
  Messages and frames, \<open>src/packages/bnp-wire/src/codec.rs\<close>: \<open>write_client\<close> and \<open>write_server\<close>,
  \<open>decode_client\<close> and \<open>decode_server\<close>, \<open>frame\<close>, and the \<open>FrameDecoder\<close> that cuts a byte stream
  into frames. The arms of \<open>write_server\<close> and of \<open>decode_server\<close> are in four definitions each, in
  the order of the source; a definition answers \<open>None\<close> for the arms of the others.
\<close>

subsection \<open>Bodies\<close>

definition write_client :: "client_message writer" where
  "write_client message =
     (case message of
       Hello version resume_after client_name \<Rightarrow>
         w_seq [w_bytes MAGIC, w_u16 version, w_option w_u64 resume_after, w_string client_name]
     | ClientHeartbeat \<Rightarrow> w_seq []
     | ProbeReply probe_id \<Rightarrow> w_seq [w_u64 probe_id]
     | Ping nonce \<Rightarrow> w_seq [w_u64 nonce]
     | ClientLogout reason \<Rightarrow> w_seq [w_string reason]
     | NewOrder order \<Rightarrow> write_new_order order
     | CancelOrder client_order_id \<Rightarrow> w_seq [w_u64 client_order_id]
     | KillSwitch request_id \<Rightarrow> w_seq [w_u64 request_id]
     | KillSwitchReset request_id \<Rightarrow> w_seq [w_u64 request_id]
     | Subscribe request_id listing flags \<Rightarrow>
         w_seq [w_u32 request_id, w_listing listing, w_u8 (feed_flags_to_wire flags)]
     | Unsubscribe request_id \<Rightarrow> w_seq [w_u32 request_id]
     | ListingsRequest request_id \<Rightarrow> w_seq [w_u32 request_id]
     | OpenOrdersRequest request_id \<Rightarrow> w_seq [w_u32 request_id]
     | AccountRequest request_id \<Rightarrow> w_seq [w_u32 request_id]
     | DealsRequest request_id \<Rightarrow> w_seq [w_u32 request_id]
     | Enroll secret csr_pem \<Rightarrow> w_seq [w_string secret, w_string csr_pem]
     | ReferenceDataRequest request_id after_instrument limit \<Rightarrow>
         w_seq [w_u32 request_id, w_option w_u128 after_instrument, w_u16 limit]
     | OperatorCommand request_id action \<Rightarrow>
         w_seq [w_u64 request_id, write_operator_action action]
     | TenderDecision request_id tender_id accept \<Rightarrow>
         w_seq [w_u64 request_id, w_u128 tender_id, w_bool accept]
     | OtcPropose request_id negotiation_id counterparty_id instrument_id side quantity price expires_at_ns \<Rightarrow>
         w_seq [w_u64 request_id, w_u64 negotiation_id, w_u128 counterparty_id,
            w_u128 instrument_id, w_enum (side_to_wire side), w_i64 quantity, w_i64 price,
            w_u64 expires_at_ns]
     | OtcCounter request_id negotiation_id quantity price \<Rightarrow>
         w_seq [w_u64 request_id, w_u128 negotiation_id, w_i64 quantity, w_i64 price]
     | OtcDecision request_id negotiation_id decision \<Rightarrow>
         w_seq [w_u64 request_id, w_u128 negotiation_id, w_enum (otc_decision_to_wire decision)]
     | SnapshotRequest request_id listing depth \<Rightarrow>
         w_seq [w_u32 request_id, w_listing listing, w_u16 depth])"

definition write_server_session :: "server_message \<Rightarrow> (bytes, bnp_error) result option" where
  "write_server_session message =
     (case message of
       Welcome welcome \<Rightarrow>
         Some (w_seq [w_u16 (wc_version welcome), w_u128 (wc_run_id welcome),
            w_u128 (wc_participant_id welcome), w_enum (role_to_wire (wc_role welcome)),
            w_u32 (wc_heartbeat_ms welcome), w_u32 (wc_max_frame_bytes welcome),
            w_enum (resume_status_to_wire (wc_resume welcome)), w_u64 (wc_run_sequence welcome)])
     | ServerHeartbeat \<Rightarrow> Some (w_seq [])
     | Probe probe_id \<Rightarrow> Some (w_seq [w_u64 probe_id])
     | Pong nonce server_time_us \<Rightarrow> Some (w_seq [w_u64 nonce, w_u64 server_time_us])
     | Reject request_type reference reason \<Rightarrow>
         Some (w_seq [w_u8 request_type, w_u64 reference, w_string reason])
     | ReplayComplete through_sequence \<Rightarrow> Some (w_seq [w_u64 through_sequence])
     | ServerLogout reason \<Rightarrow> Some (w_seq [w_string reason])
     | OperatorDone request_id run_sequence \<Rightarrow>
         Some (w_seq [w_u64 request_id, w_u64 run_sequence])
     | DealDone request_id run_sequence \<Rightarrow>
         Some (w_seq [w_u64 request_id, w_u64 run_sequence])
     | Tender stamp tender \<Rightarrow> Some (w_seq [w_stamp stamp, write_tender tender])
     | Negotiation stamp negotiation \<Rightarrow>
         Some (w_seq [w_stamp stamp, write_negotiation negotiation])
     | Deals request_id run_sequence tenders negotiations \<Rightarrow>
         Some (w_seq [w_u32 request_id, w_u64 run_sequence, w_group write_tender tenders,
            w_group write_negotiation negotiations])
     | Enrolled participant_id certificate_pem ca_pem \<Rightarrow>
         Some (w_seq [w_u128 participant_id, w_string certificate_pem, w_string ca_pem])
     | ReferenceData request_id run_sequence next_after currencies instruments listings \<Rightarrow>
         Some (w_seq [w_u32 request_id, w_u64 run_sequence, w_option w_u128 next_after,
            w_group write_currency_info currencies, w_group write_instrument instruments,
            w_group write_listing_reference listings])
     | _ \<Rightarrow> None)"

definition write_server_feeds :: "server_message \<Rightarrow> (bytes, bnp_error) result option" where
  "write_server_feeds message =
     (case message of
       RunStatus stamp status \<Rightarrow> Some (w_seq [w_stamp stamp, w_string status])
     | ListingHalt stamp instrument_id halted \<Rightarrow>
         Some (w_seq [w_stamp stamp, w_u128 instrument_id, w_bool halted])
     | News stamp news_id headline body \<Rightarrow>
         Some (w_seq [w_stamp stamp, w_u128 news_id, w_string headline, w_string body])
     | AccessDelay source min_rtt_us one_way_us probe_samples \<Rightarrow>
         Some (w_seq [w_enum (delay_source_to_wire source), w_option w_u64 min_rtt_us,
            w_option w_u64 one_way_us, w_u64 probe_samples])
     | OrderSnapshot request_id listing next_report complete orders \<Rightarrow>
         Some (w_seq [w_u32 request_id, w_listing listing, w_u64 next_report, w_bool complete,
            w_group write_book_order orders])
     | OrderUpdate request_id listing first_report entries \<Rightarrow>
         Some (w_seq [w_u32 request_id, w_listing listing, w_u64 first_report,
            w_group write_order_entry entries])
     | TapeSnapshot request_id instrument_id last_report quotes \<Rightarrow>
         Some (w_seq [w_u32 request_id, w_u128 instrument_id, w_u64 last_report,
            w_group write_tape_quote quotes])
     | TapeUpdate request_id instrument_id first_report entries \<Rightarrow>
         Some (w_seq [w_u32 request_id, w_u128 instrument_id, w_u64 first_report,
            w_group write_tape_entry entries])
     | _ \<Rightarrow> None)"

definition write_server_orders :: "server_message \<Rightarrow> (bytes, bnp_error) result option" where
  "write_server_orders message =
     (case message of
       OrderAccepted stamp client_order_id order_id listing side quantity price \<Rightarrow>
         Some (w_seq [w_stamp stamp, w_u64 client_order_id, w_u128 order_id, w_listing listing,
            w_enum (side_to_wire side), w_i64 quantity, w_option w_i64 price])
     | OrderRejected stamp client_order_id reason \<Rightarrow>
         Some (w_seq [w_stamp stamp, w_u64 client_order_id, w_enum (reject_reason_to_wire reason)])
     | CancelRejected stamp client_order_id reason \<Rightarrow>
         Some (w_seq [w_stamp stamp, w_u64 client_order_id, w_enum (reject_reason_to_wire reason)])
     | OrderRested stamp client_order_id order_id price remaining reference \<Rightarrow>
         Some (w_seq [w_stamp stamp, w_u64 client_order_id, w_u128 order_id, w_i64 price,
            w_i64 remaining, w_option w_u64 reference])
     | OrderReduced stamp client_order_id order_id remaining reference \<Rightarrow>
         Some (w_seq [w_stamp stamp, w_u64 client_order_id, w_u128 order_id, w_i64 remaining,
            w_option w_u64 reference])
     | Fill stamp client_order_id order_id listing side price quantity fee liquidity \<Rightarrow>
         Some (w_seq [w_stamp stamp, w_u64 client_order_id, w_u128 order_id, w_listing listing,
            w_enum (side_to_wire side), w_i64 price, w_i64 quantity, w_i128 fee,
            w_enum (liquidity_to_wire liquidity)])
     | OrderDone stamp client_order_id order_id \<Rightarrow>
         Some (w_seq [w_stamp stamp, w_u64 client_order_id, w_u128 order_id])
     | OrderCanceled stamp client_order_id order_id remaining reason \<Rightarrow>
         Some (w_seq [w_stamp stamp, w_u64 client_order_id, w_u128 order_id, w_i64 remaining,
            w_enum (cancel_reason_to_wire reason)])
     | PositionChanged stamp instrument_id delta \<Rightarrow>
         Some (w_seq [w_stamp stamp, w_u128 instrument_id, w_i64 delta])
     | BalanceChanged stamp delta \<Rightarrow> Some (w_seq [w_stamp stamp, w_i128 delta])
     | KillSwitchActivated stamp \<Rightarrow> Some (w_seq [w_stamp stamp])
     | KillSwitchResetDone stamp \<Rightarrow> Some (w_seq [w_stamp stamp])
     | _ \<Rightarrow> None)"

definition write_server_books :: "server_message \<Rightarrow> (bytes, bnp_error) result option" where
  "write_server_books message =
     (case message of
       MarketSnapshot request_id listing next_report bids asks \<Rightarrow>
         Some (w_seq [w_u32 request_id, w_listing listing, w_u64 next_report, w_group w_level bids,
            w_group w_level asks])
     | MarketUpdate request_id listing first_report entries \<Rightarrow>
         Some (w_seq [w_u32 request_id, w_listing listing, w_u64 first_report,
            w_group write_entry entries])
     | Listings request_id listings \<Rightarrow>
         Some (w_seq [w_u32 request_id, w_group write_listing_info listings])
     | OpenOrders request_id run_sequence orders \<Rightarrow>
         Some (w_seq [w_u32 request_id, w_u64 run_sequence, w_group write_open_order orders])
     | Account request_id run_sequence cash positions \<Rightarrow>
         Some (w_seq [w_u32 request_id, w_u64 run_sequence, w_group write_cash_balance cash,
            w_group write_position positions])
     | _ \<Rightarrow> None)"

definition write_server :: "server_message writer" where
  "write_server message =
     (case write_server_session message of Some w \<Rightarrow> w
      | None \<Rightarrow> (case write_server_feeds message of Some w \<Rightarrow> w
        | None \<Rightarrow> (case write_server_orders message of Some w \<Rightarrow> w
          | None \<Rightarrow> (case write_server_books message of Some w \<Rightarrow> w
            | None \<Rightarrow> Ok []))))"

definition read_client :: "nat \<Rightarrow> client_message reader option" where
  "read_client kind =
     (if kind = HELLO then Some (
         r_bind (r_bytes (length MAGIC)) (\<lambda>magic.
         if magic \<noteq> MAGIC then r_fail BadMagic else
         r_bind r_u16 (\<lambda>version.
         r_bind (r_option r_u64) (\<lambda>resume_after.
         r_bind r_string (\<lambda>client_name.
         r_return (Hello version resume_after client_name))))))
      else if kind = CLIENT_HEARTBEAT then Some (
         r_return ClientHeartbeat)
      else if kind = PROBE_REPLY then Some (
         r_bind r_u64 (\<lambda>probe_id.
         r_return (ProbeReply probe_id)))
      else if kind = PING then Some (
         r_bind r_u64 (\<lambda>nonce.
         r_return (Ping nonce)))
      else if kind = CLIENT_LOGOUT then Some (
         r_bind r_string (\<lambda>reason.
         r_return (ClientLogout reason)))
      else if kind = NEW_ORDER then Some (
         r_bind read_new_order (\<lambda>new_order.
         r_return (NewOrder new_order)))
      else if kind = CANCEL_ORDER then Some (
         r_bind r_u64 (\<lambda>client_order_id.
         r_return (CancelOrder client_order_id)))
      else if kind = KILL_SWITCH then Some (
         r_bind r_u64 (\<lambda>request_id.
         r_return (KillSwitch request_id)))
      else if kind = KILL_SWITCH_RESET then Some (
         r_bind r_u64 (\<lambda>request_id.
         r_return (KillSwitchReset request_id)))
      else if kind = SUBSCRIBE then Some (
         r_bind r_u32 (\<lambda>request_id.
         r_bind r_listing (\<lambda>listing.
         r_bind r_flags (\<lambda>flags.
         r_return (Subscribe request_id listing flags)))))
      else if kind = UNSUBSCRIBE then Some (
         r_bind r_u32 (\<lambda>request_id.
         r_return (Unsubscribe request_id)))
      else if kind = SNAPSHOT_REQUEST then Some (
         r_bind r_u32 (\<lambda>request_id.
         r_bind r_listing (\<lambda>listing.
         r_bind r_u16 (\<lambda>depth.
         r_return (SnapshotRequest request_id listing depth)))))
      else if kind = LISTINGS_REQUEST then Some (
         r_bind r_u32 (\<lambda>request_id.
         r_return (ListingsRequest request_id)))
      else if kind = OPEN_ORDERS_REQUEST then Some (
         r_bind r_u32 (\<lambda>request_id.
         r_return (OpenOrdersRequest request_id)))
      else if kind = ACCOUNT_REQUEST then Some (
         r_bind r_u32 (\<lambda>request_id.
         r_return (AccountRequest request_id)))
      else if kind = OPERATOR_COMMAND then Some (
         r_bind r_u64 (\<lambda>request_id.
         r_bind read_operator_action (\<lambda>action.
         r_return (OperatorCommand request_id action))))
      else if kind = TENDER_DECISION then Some (
         r_bind r_u64 (\<lambda>request_id.
         r_bind r_u128 (\<lambda>tender_id.
         r_bind r_bool (\<lambda>accept.
         r_return (TenderDecision request_id tender_id accept)))))
      else if kind = OTC_PROPOSE then Some (
         r_bind r_u64 (\<lambda>request_id.
         r_bind r_u64 (\<lambda>negotiation_id.
         r_bind r_u128 (\<lambda>counterparty_id.
         r_bind r_u128 (\<lambda>instrument_id.
         r_bind (r_enum side_from_wire) (\<lambda>side.
         r_bind r_i64 (\<lambda>quantity.
         r_bind r_i64 (\<lambda>price.
         r_bind r_u64 (\<lambda>expires_at_ns.
         r_return (OtcPropose request_id negotiation_id counterparty_id instrument_id side quantity price expires_at_ns))))))))))
      else if kind = OTC_COUNTER then Some (
         r_bind r_u64 (\<lambda>request_id.
         r_bind r_u128 (\<lambda>negotiation_id.
         r_bind r_i64 (\<lambda>quantity.
         r_bind r_i64 (\<lambda>price.
         r_return (OtcCounter request_id negotiation_id quantity price))))))
      else if kind = OTC_DECISION then Some (
         r_bind r_u64 (\<lambda>request_id.
         r_bind r_u128 (\<lambda>negotiation_id.
         r_bind (r_enum otc_decision_from_wire) (\<lambda>decision.
         r_return (OtcDecision request_id negotiation_id decision)))))
      else if kind = DEALS_REQUEST then Some (
         r_bind r_u32 (\<lambda>request_id.
         r_return (DealsRequest request_id)))
      else if kind = ENROLL then Some (
         r_bind r_string (\<lambda>secret.
         r_bind r_string (\<lambda>csr_pem.
         r_return (Enroll secret csr_pem))))
      else if kind = REFERENCE_DATA_REQUEST then Some (
         r_bind r_u32 (\<lambda>request_id.
         r_bind (r_option r_u128) (\<lambda>after_instrument.
         r_bind r_u16 (\<lambda>limit.
         r_return (ReferenceDataRequest request_id after_instrument limit)))))
      else None)"

definition read_server_session :: "nat \<Rightarrow> server_message reader option" where
  "read_server_session kind =
     (if kind = WELCOME then Some (
         r_bind r_u16 (\<lambda>version.
         r_bind r_u128 (\<lambda>run_id.
         r_bind r_u128 (\<lambda>participant_id.
         r_bind (r_enum role_from_wire) (\<lambda>role.
         r_bind r_u32 (\<lambda>heartbeat_ms.
         r_bind r_u32 (\<lambda>max_frame_bytes.
         r_bind (r_enum resume_status_from_wire) (\<lambda>resume.
         r_bind r_u64 (\<lambda>run_sequence.
         r_return (Welcome \<lparr>wc_version = version, wc_run_id = run_id,
             wc_participant_id = participant_id, wc_role = role, wc_heartbeat_ms = heartbeat_ms,
             wc_max_frame_bytes = max_frame_bytes, wc_resume = resume,
             wc_run_sequence = run_sequence\<rparr>))))))))))
      else if kind = SERVER_HEARTBEAT then Some (
         r_return ServerHeartbeat)
      else if kind = PROBE then Some (
         r_bind r_u64 (\<lambda>probe_id.
         r_return (Probe probe_id)))
      else if kind = PONG then Some (
         r_bind r_u64 (\<lambda>nonce.
         r_bind r_u64 (\<lambda>server_time_us.
         r_return (Pong nonce server_time_us))))
      else if kind = REJECT then Some (
         r_bind r_u8 (\<lambda>request_type.
         r_bind r_u64 (\<lambda>reference.
         r_bind r_string (\<lambda>reason.
         r_return (Reject request_type reference reason)))))
      else if kind = REPLAY_COMPLETE then Some (
         r_bind r_u64 (\<lambda>through_sequence.
         r_return (ReplayComplete through_sequence)))
      else if kind = SERVER_LOGOUT then Some (
         r_bind r_string (\<lambda>reason.
         r_return (ServerLogout reason)))
      else if kind = OPERATOR_DONE then Some (
         r_bind r_u64 (\<lambda>request_id.
         r_bind r_u64 (\<lambda>run_sequence.
         r_return (OperatorDone request_id run_sequence))))
      else if kind = DEAL_DONE then Some (
         r_bind r_u64 (\<lambda>request_id.
         r_bind r_u64 (\<lambda>run_sequence.
         r_return (DealDone request_id run_sequence))))
      else if kind = TENDER then Some (
         r_bind r_stamp (\<lambda>stamp.
         r_bind read_tender (\<lambda>tender.
         r_return (Tender stamp tender))))
      else if kind = NEGOTIATION then Some (
         r_bind r_stamp (\<lambda>stamp.
         r_bind read_negotiation (\<lambda>negotiation.
         r_return (Negotiation stamp negotiation))))
      else if kind = DEALS then Some (
         r_bind r_u32 (\<lambda>request_id.
         r_bind r_u64 (\<lambda>run_sequence.
         r_bind (r_group read_tender) (\<lambda>tenders.
         r_bind (r_group read_negotiation) (\<lambda>negotiations.
         r_return (Deals request_id run_sequence tenders negotiations))))))
      else if kind = ENROLLED then Some (
         r_bind r_u128 (\<lambda>participant_id.
         r_bind r_string (\<lambda>certificate_pem.
         r_bind r_string (\<lambda>ca_pem.
         r_return (Enrolled participant_id certificate_pem ca_pem)))))
      else if kind = REFERENCE_DATA then Some (
         r_bind r_u32 (\<lambda>request_id.
         r_bind r_u64 (\<lambda>run_sequence.
         r_bind (r_option r_u128) (\<lambda>next_after.
         r_bind (r_group read_currency_info) (\<lambda>currencies.
         r_bind (r_group read_instrument) (\<lambda>instruments.
         r_bind (r_group read_listing_reference) (\<lambda>listings.
         r_return (ReferenceData request_id run_sequence next_after currencies instruments listings))))))))
      else None)"

definition read_server_feeds :: "nat \<Rightarrow> server_message reader option" where
  "read_server_feeds kind =
     (if kind = RUN_STATUS then Some (
         r_bind r_stamp (\<lambda>stamp.
         r_bind r_string (\<lambda>status.
         r_return (RunStatus stamp status))))
      else if kind = LISTING_HALT then Some (
         r_bind r_stamp (\<lambda>stamp.
         r_bind r_u128 (\<lambda>instrument_id.
         r_bind r_bool (\<lambda>halted.
         r_return (ListingHalt stamp instrument_id halted)))))
      else if kind = NEWS then Some (
         r_bind r_stamp (\<lambda>stamp.
         r_bind r_u128 (\<lambda>news_id.
         r_bind r_string (\<lambda>headline.
         r_bind r_string (\<lambda>body.
         r_return (News stamp news_id headline body))))))
      else if kind = ACCESS_DELAY then Some (
         r_bind (r_enum delay_source_from_wire) (\<lambda>source.
         r_bind (r_option r_u64) (\<lambda>min_rtt_us.
         r_bind (r_option r_u64) (\<lambda>one_way_us.
         r_bind r_u64 (\<lambda>probe_samples.
         r_return (AccessDelay source min_rtt_us one_way_us probe_samples))))))
      else if kind = ORDER_SNAPSHOT then Some (
         r_bind r_u32 (\<lambda>request_id.
         r_bind r_listing (\<lambda>listing.
         r_bind r_u64 (\<lambda>next_report.
         r_bind r_bool (\<lambda>complete.
         r_bind (r_group read_book_order) (\<lambda>orders.
         r_return (OrderSnapshot request_id listing next_report complete orders)))))))
      else if kind = ORDER_UPDATE then Some (
         r_bind r_u32 (\<lambda>request_id.
         r_bind r_listing (\<lambda>listing.
         r_bind r_u64 (\<lambda>first_report.
         r_bind (r_group read_order_entry) (\<lambda>entries.
         r_return (OrderUpdate request_id listing first_report entries))))))
      else if kind = TAPE_SNAPSHOT then Some (
         r_bind r_u32 (\<lambda>request_id.
         r_bind r_u128 (\<lambda>instrument_id.
         r_bind r_u64 (\<lambda>last_report.
         r_bind (r_group read_tape_quote) (\<lambda>quotes.
         r_return (TapeSnapshot request_id instrument_id last_report quotes))))))
      else if kind = TAPE_UPDATE then Some (
         r_bind r_u32 (\<lambda>request_id.
         r_bind r_u128 (\<lambda>instrument_id.
         r_bind r_u64 (\<lambda>first_report.
         r_bind (r_group read_tape_entry) (\<lambda>entries.
         r_return (TapeUpdate request_id instrument_id first_report entries))))))
      else None)"

definition read_server_orders :: "nat \<Rightarrow> server_message reader option" where
  "read_server_orders kind =
     (if kind = ORDER_ACCEPTED then Some (
         r_bind r_stamp (\<lambda>stamp.
         r_bind r_u64 (\<lambda>client_order_id.
         r_bind r_u128 (\<lambda>order_id.
         r_bind r_listing (\<lambda>listing.
         r_bind (r_enum side_from_wire) (\<lambda>side.
         r_bind r_i64 (\<lambda>quantity.
         r_bind (r_option r_i64) (\<lambda>price.
         r_return (OrderAccepted stamp client_order_id order_id listing side quantity price)))))))))
      else if kind = ORDER_REJECTED then Some (
         r_bind r_stamp (\<lambda>stamp.
         r_bind r_u64 (\<lambda>client_order_id.
         r_bind (r_enum reject_reason_from_wire) (\<lambda>reason.
         r_return (OrderRejected stamp client_order_id reason)))))
      else if kind = ORDER_RESTED then Some (
         r_bind r_stamp (\<lambda>stamp.
         r_bind r_u64 (\<lambda>client_order_id.
         r_bind r_u128 (\<lambda>order_id.
         r_bind r_i64 (\<lambda>price.
         r_bind r_i64 (\<lambda>remaining.
         r_bind (r_option r_u64) (\<lambda>reference.
         r_return (OrderRested stamp client_order_id order_id price remaining reference))))))))
      else if kind = ORDER_REDUCED then Some (
         r_bind r_stamp (\<lambda>stamp.
         r_bind r_u64 (\<lambda>client_order_id.
         r_bind r_u128 (\<lambda>order_id.
         r_bind r_i64 (\<lambda>remaining.
         r_bind (r_option r_u64) (\<lambda>reference.
         r_return (OrderReduced stamp client_order_id order_id remaining reference)))))))
      else if kind = FILL then Some (
         r_bind r_stamp (\<lambda>stamp.
         r_bind r_u64 (\<lambda>client_order_id.
         r_bind r_u128 (\<lambda>order_id.
         r_bind r_listing (\<lambda>listing.
         r_bind (r_enum side_from_wire) (\<lambda>side.
         r_bind r_i64 (\<lambda>price.
         r_bind r_i64 (\<lambda>quantity.
         r_bind r_i128 (\<lambda>fee.
         r_bind (r_enum liquidity_from_wire) (\<lambda>liquidity.
         r_return (Fill stamp client_order_id order_id listing side price quantity fee liquidity)))))))))))
      else if kind = ORDER_DONE then Some (
         r_bind r_stamp (\<lambda>stamp.
         r_bind r_u64 (\<lambda>client_order_id.
         r_bind r_u128 (\<lambda>order_id.
         r_return (OrderDone stamp client_order_id order_id)))))
      else if kind = ORDER_CANCELED then Some (
         r_bind r_stamp (\<lambda>stamp.
         r_bind r_u64 (\<lambda>client_order_id.
         r_bind r_u128 (\<lambda>order_id.
         r_bind r_i64 (\<lambda>remaining.
         r_bind (r_enum cancel_reason_from_wire) (\<lambda>reason.
         r_return (OrderCanceled stamp client_order_id order_id remaining reason)))))))
      else if kind = CANCEL_REJECTED then Some (
         r_bind r_stamp (\<lambda>stamp.
         r_bind r_u64 (\<lambda>client_order_id.
         r_bind (r_enum reject_reason_from_wire) (\<lambda>reason.
         r_return (CancelRejected stamp client_order_id reason)))))
      else if kind = POSITION_CHANGED then Some (
         r_bind r_stamp (\<lambda>stamp.
         r_bind r_u128 (\<lambda>instrument_id.
         r_bind r_i64 (\<lambda>delta.
         r_return (PositionChanged stamp instrument_id delta)))))
      else if kind = BALANCE_CHANGED then Some (
         r_bind r_stamp (\<lambda>stamp.
         r_bind r_i128 (\<lambda>delta.
         r_return (BalanceChanged stamp delta))))
      else if kind = KILL_SWITCH_ACTIVATED then Some (
         r_bind r_stamp (\<lambda>stamp.
         r_return (KillSwitchActivated stamp)))
      else if kind = KILL_SWITCH_RESET_DONE then Some (
         r_bind r_stamp (\<lambda>stamp.
         r_return (KillSwitchResetDone stamp)))
      else None)"

definition read_server_books :: "nat \<Rightarrow> server_message reader option" where
  "read_server_books kind =
     (if kind = MARKET_SNAPSHOT then Some (
         r_bind r_u32 (\<lambda>request_id.
         r_bind r_listing (\<lambda>listing.
         r_bind r_u64 (\<lambda>next_report.
         r_bind (r_group r_level) (\<lambda>bids.
         r_bind (r_group r_level) (\<lambda>asks.
         r_return (MarketSnapshot request_id listing next_report bids asks)))))))
      else if kind = MARKET_UPDATE then Some (
         r_bind r_u32 (\<lambda>request_id.
         r_bind r_listing (\<lambda>listing.
         r_bind r_u64 (\<lambda>first_report.
         r_bind (r_group read_entry) (\<lambda>entries.
         r_return (MarketUpdate request_id listing first_report entries))))))
      else if kind = LISTINGS then Some (
         r_bind r_u32 (\<lambda>request_id.
         r_bind (r_group read_listing_info) (\<lambda>listings.
         r_return (Listings request_id listings))))
      else if kind = OPEN_ORDERS then Some (
         r_bind r_u32 (\<lambda>request_id.
         r_bind r_u64 (\<lambda>run_sequence.
         r_bind (r_group read_open_order) (\<lambda>orders.
         r_return (OpenOrders request_id run_sequence orders)))))
      else if kind = ACCOUNT then Some (
         r_bind r_u32 (\<lambda>request_id.
         r_bind r_u64 (\<lambda>run_sequence.
         r_bind (r_group read_cash_balance) (\<lambda>cash.
         r_bind (r_group read_position) (\<lambda>positions.
         r_return (Account request_id run_sequence cash positions))))))
      else None)"

definition read_server :: "nat \<Rightarrow> server_message reader option" where
  "read_server kind =
     (case read_server_session kind of Some r \<Rightarrow> Some r
      | None \<Rightarrow> (case read_server_feeds kind of Some r \<Rightarrow> Some r
        | None \<Rightarrow> (case read_server_orders kind of Some r \<Rightarrow> Some r
          | None \<Rightarrow> read_server_books kind)))"

text \<open>The end of both decoders: nothing may follow the last field.\<close>

definition run_reader :: "'a reader \<Rightarrow> bytes \<Rightarrow> ('a, bnp_error) result" where
  "run_reader r body =
     attempt (r body) (\<lambda>(message, rest). attempt (r_finish rest) (\<lambda>_. Ok message))"

definition decode_client :: "bytes \<Rightarrow> (client_message, bnp_error) result" where
  "decode_client frame =
     (case frame of
       [] \<Rightarrow> Err EmptyFrame
     | type_byte # body \<Rightarrow>
         (let kind = of_char type_byte in
          case read_client kind of
            Some r \<Rightarrow> run_reader r body
          | None \<Rightarrow> if 64 \<le> kind \<and> kind \<le> 127 then Err (WrongDirection kind)
                    else Err (UnknownMessageType kind)))"

definition decode_server :: "bytes \<Rightarrow> (server_message, bnp_error) result" where
  "decode_server frame =
     (case frame of
       [] \<Rightarrow> Err EmptyFrame
     | type_byte # body \<Rightarrow>
         (let kind = of_char type_byte in
          case read_server kind of
            Some r \<Rightarrow> run_reader r body
          | None \<Rightarrow> if 1 \<le> kind \<and> kind \<le> 63 then Err (WrongDirection kind)
                    else Err (UnknownMessageType kind)))"

subsection \<open>Frames\<close>

text \<open>
  \<open>frame\<close> appends the length, the type byte and the body to \<open>out\<close>; an error truncates \<open>out\<close> to
  what it was.
\<close>

definition frame :: "bytes \<Rightarrow> nat \<Rightarrow> (bytes, bnp_error) result \<Rightarrow> (unit, bnp_error) result \<times> bytes" where
  "frame out kind body =
     (case body of
       Inl e \<Rightarrow> (Err e, out)
     | Inr bs \<Rightarrow>
         (let n = length (char_of kind # bs) in
          if n > MAX_FRAME_BYTES then (Err (FrameTooLarge MAX_FRAME_BYTES n), out)
          else (Ok (), out @ to_le_bytes LENGTH_BYTES n @ char_of kind # bs)))"

definition encode_client :: "client_message \<Rightarrow> bytes \<Rightarrow> (unit, bnp_error) result \<times> bytes" where
  "encode_client message out = frame out (client_msg_type message) (write_client message)"

definition encode_server :: "server_message \<Rightarrow> bytes \<Rightarrow> (unit, bnp_error) result \<times> bytes" where
  "encode_server message out = frame out (server_msg_type message) (write_server message)"

record frame_decoder =
  fd_max_frame_bytes :: nat
  fd_buffer :: bytes

definition frame_decoder_new :: "nat \<Rightarrow> frame_decoder" where
  "frame_decoder_new max_frame_bytes =
     \<lparr>fd_max_frame_bytes = max 1 (min max_frame_bytes MAX_FRAME_BYTES), fd_buffer = []\<rparr>"

text \<open>The loop of \<open>push\<close>: the frames found and the offset after them.\<close>

function push_loop :: "nat \<Rightarrow> bytes \<Rightarrow> nat \<Rightarrow> bytes list \<Rightarrow> (bytes list \<times> nat, bnp_error) result" where
  "push_loop limit buffer offset frames =
     (case get_range buffer offset (offset + LENGTH_BYTES) of
       None \<Rightarrow> Ok (frames, offset)
     | Some prefix \<Rightarrow>
         (let n = from_le_bytes prefix in
          if n = 0 then Err EmptyFrame
          else if n > limit then Err (FrameTooLarge limit n)
          else
            (let start = offset + LENGTH_BYTES in
             case get_range buffer start (start + n) of
               None \<Rightarrow> Ok (frames, offset)
             | Some one \<Rightarrow> push_loop limit buffer (start + n) (frames @ [one]))))"
  by pat_completeness auto
termination
  by (relation "measure (\<lambda>(limit, buffer, offset, frames). length buffer - offset)")
    (auto simp: get_range_def LENGTH_BYTES_def split: if_splits)

definition frame_push :: "bytes \<Rightarrow> frame_decoder \<Rightarrow> (bytes list, bnp_error) result \<times> frame_decoder" where
  "frame_push bs decoder =
     (let buffer = fd_buffer decoder @ bs in
      case push_loop (fd_max_frame_bytes decoder) buffer 0 [] of
        Inl e \<Rightarrow> (Err e, decoder \<lparr>fd_buffer := buffer\<rparr>)
      | Inr (frames, offset) \<Rightarrow> (Ok frames, decoder \<lparr>fd_buffer := drop offset buffer\<rparr>))"

definition pending_bytes :: "frame_decoder \<Rightarrow> nat" where
  "pending_bytes decoder = length (fd_buffer decoder)"

end
