(* ===== verification/Bnp_Laws.thy ===== *)
theory Bnp_Laws
  imports Bnp_Messages
begin

text \<open>
  The contract of the native protocol's codecs. A locale \<open>codec\<close> states what a field's writer and
  reader owe each other; options and groups inherit it, enumerations get it from their wire
  values, and every structure and message is an instance. On it rest the round trip of the
  messages of both peers, the refusal of the other peer's messages, and the reassembly of a
  stream cut at any place.
\<close>

named_theorems reads_intros "what a reader returns on the bytes of a writer"
named_theorems nonempty_intros "writers that append at least one byte"

definition reads :: "(bytes, bnp_error) result \<Rightarrow> 'a reader \<Rightarrow> 'a \<Rightarrow> bool" where
  "reads w r x \<longleftrightarrow> (\<forall>bs rest. w = Ok bs \<longrightarrow> r (bs @ rest) = Ok (x, rest))"

lemma readsD: "reads w r x \<Longrightarrow> w = Ok bs \<Longrightarrow> r (bs @ rest) = Ok (x, rest)"
  by (simp add: reads_def)

lemma reads_seq [reads_intros]:
  "reads w r x \<Longrightarrow> reads (w_seq ws) (k x) y \<Longrightarrow> reads (w_seq (w # ws)) (r_bind r k) y"
  by (auto simp: reads_def r_bind_def w_seq.simps attempt_Ok_iff)

lemma reads_return [reads_intros]: "x = y \<Longrightarrow> reads (w_seq []) (r_return x) y"
  by (simp add: reads_def r_return_def w_seq.simps)

lemma reads_lift: "v = Ok x \<Longrightarrow> reads w (k x) y \<Longrightarrow> reads w (r_bind (r_lift v) k) y"
  by (simp add: reads_def r_bind_def r_lift_def)

lemma seq_nonempty [nonempty_intros]: "w \<noteq> Ok [] \<Longrightarrow> w_seq (w # ws) \<noteq> Ok []"
  by (auto simp: w_seq.simps attempt_Ok_iff)

subsection \<open>Integers\<close>

lemma length_to_le_bytes [simp]: "length (to_le_bytes n v) = n"
  by (induction n arbitrary: v) auto

lemma from_le_bytes_to [simp]: "v < 256 ^ n \<Longrightarrow> from_le_bytes (to_le_bytes n v) = v"
proof (induction n arbitrary: v)
  case (Suc n)
  then have "v div 256 < 256 ^ n"
    by (simp add: div_less_iff_less_mult mult.commute)
  then show ?case
    using Suc.IH by simp
qed simp

lemma reads_bytes: "reads (w_bytes bs) (r_bytes (length bs)) bs"
  by (simp add: reads_def w_bytes_def r_bytes_def)

lemma reads_array:
  fixes v :: "'w::len word"
  assumes "LENGTH('w) = 8 * n"
  shows "reads (Ok (to_le_bytes n (unat v))) (r_array n) v"
proof -
  have "unat v < 256 ^ n"
    using unsigned_less [of v, where ?'a = nat] by (simp add: assms power_mult)
  then show ?thesis
    by (simp add: reads_def r_array_def r_bind_def r_bytes_def r_return_def)
qed

lemma reads_u8: "reads (w_u8 v) r_u8 v"
  unfolding w_u8_def r_u8_def by (rule reads_array) simp

lemma reads_bool: "reads (w_bool b) r_bool b"
  using reads_u8 [of 1] reads_u8 [of 0]
  by (auto simp: reads_def w_bool_def r_bool_def r_bind_def r_return_def)

lemma reads_u16: "reads (w_u16 v) r_u16 v"
  by (simp add: w_u16_def r_u16_def w_bytes_def reads_array)

lemma nonempty_u8: "w_u8 v \<noteq> Ok []"
  by (simp add: w_u8_def)

lemma nonempty_bool: "w_bool b \<noteq> Ok []"
  by (simp add: w_bool_def nonempty_u8)

lemma to_le_bytes_nonempty: "n \<noteq> 0 \<Longrightarrow> to_le_bytes n v \<noteq> []"
  by (cases n) auto

lemma length_w_u16: "w_u16 v = Ok bs \<Longrightarrow> length bs = 2"
  by (auto simp: w_u16_def w_bytes_def)

subsection \<open>The contract of a field\<close>

locale codec =
  fixes put :: "'a writer" and get :: "'a reader"
  assumes get_put: "reads (put x) get x"
    and put_nonempty: "put x \<noteq> Ok []"

begin

lemma reads [reads_intros]: "reads (put x) get x"
  by (rule get_put)

lemma nonempty [nonempty_intros]: "put x \<noteq> Ok []"
  by (rule put_nonempty)

lemma option [reads_intros]: "reads (w_option put v) (r_option get) v"
proof (cases v)
  case None
  then show ?thesis
    using reads_bool [of False] by (simp add: w_option_def r_option_def reads_def r_bind_def r_return_def w_bool_def)
next
  case (Some x)
  have "reads (w_seq [w_bool True, put x]) (r_option get) (Some x)"
    unfolding r_option_def
    by (rule reads_seq [OF reads_bool]) (auto intro: reads_seq [OF get_put] reads_return)
  with Some show ?thesis
    by (simp add: w_option_def w_bool_def)
qed

lemma times: "reads (w_seq (map put xs)) (r_times (length xs) get) xs"
proof (induction xs)
  case (Cons x xs)
  have "reads (w_seq (map put xs)) (r_bind (r_times (length xs) get) (\<lambda>ys. r_return (x # ys))) (x # xs)"
    using Cons.IH by (simp add: reads_def r_bind_def r_return_def)
  then show ?case
    using get_put [of x] by (simp add: reads_seq)
qed (simp add: reads_return)

lemma length_puts: "w_seq (map put xs) = Ok bs \<Longrightarrow> length xs \<le> length bs"
proof (induction xs arbitrary: bs)
  case (Cons x xs)
  then obtain a b where "put x = Ok a" "w_seq (map put xs) = Ok b" "bs = a @ b"
    by (auto simp: w_seq.simps attempt_Ok_iff)
  with Cons.IH [of b] put_nonempty [of x] show ?case
    by (cases a) auto
qed simp

lemma group [reads_intros]: "reads (w_group put xs) (r_group get) xs"
  unfolding reads_def
proof (intro allI impI)
  fix bs rest
  assume "w_group put xs = Ok bs"
  then obtain a b where n: "length xs \<le> MAX_GROUP_ENTRIES" and a: "w_u16 (word_of_nat (length xs)) = Ok a"
    and b: "w_seq (map put xs) = Ok b" and bs: "bs = a @ b"
    by (auto simp: w_group_def w_seq.simps attempt_Ok_iff split: if_splits)
  have u: "unat (word_of_nat (length xs) :: u16) = length xs"
    using n by (simp add: MAX_GROUP_ENTRIES_def unat_of_nat)
  have "r_u16 (a @ b @ rest) = Ok (word_of_nat (length xs), b @ rest)"
    by (rule readsD [OF reads_u16 a])
  then show "r_group get (bs @ rest) = Ok (xs, rest)"
    using n u length_puts [OF b] readsD [OF times b] by (simp add: r_group_def r_bind_def bs)
qed

end

subsection \<open>Integers, strings and flags\<close>

lemmas writer_defs = w_u8_def w_bool_def w_u16_def w_u32_def w_u64_def w_i64_def w_u128_def w_i128_def w_bytes_def

lemmas reader_defs = r_u8_def r_u16_def r_u32_def r_u64_def r_i64_def r_u128_def r_i128_def

interpretation u8_codec: codec w_u8 r_u8
  by unfold_locales (rule reads_u8 nonempty_u8)+

interpretation bool_codec: codec w_bool r_bool
  by unfold_locales (rule reads_bool nonempty_bool)+

interpretation u16_codec: codec w_u16 r_u16
  by unfold_locales (rule reads_u16, simp add: writer_defs to_le_bytes_nonempty)

interpretation u32_codec: codec w_u32 r_u32
  by unfold_locales (simp_all add: writer_defs reader_defs reads_array to_le_bytes_nonempty)

interpretation u64_codec: codec w_u64 r_u64
  by unfold_locales (simp_all add: writer_defs reader_defs reads_array to_le_bytes_nonempty)

interpretation i64_codec: codec w_i64 r_i64
  by unfold_locales (simp_all add: writer_defs reader_defs reads_array to_le_bytes_nonempty)

interpretation u128_codec: codec w_u128 r_u128
  by unfold_locales (simp_all add: writer_defs reader_defs reads_array to_le_bytes_nonempty)

interpretation i128_codec: codec w_i128 r_i128
  by unfold_locales (simp_all add: writer_defs reader_defs reads_array to_le_bytes_nonempty)

lemma reads_string: "reads (w_string s) r_string s"
  unfolding reads_def
proof (intro allI impI)
  fix bs rest
  assume "w_string s = Ok bs"
  then obtain a where n: "length (str_bytes s) \<le> MAX_STRING_BYTES"
    and a: "w_u16 (word_of_nat (length (str_bytes s))) = Ok a" and bs: "bs = a @ str_bytes s"
    by (auto simp: w_string_def Let_def w_seq.simps w_bytes_def attempt_Ok_iff split: if_splits)
  have u: "unat (word_of_nat (length (str_bytes s)) :: u16) = length (str_bytes s)"
    using n by (simp add: MAX_STRING_BYTES_def unat_of_nat)
  have "r_u16 (a @ str_bytes s @ rest) = Ok (word_of_nat (length (str_bytes s)), str_bytes s @ rest)"
    by (rule readsD [OF reads_u16 a])
  then show "r_string (bs @ rest) = Ok (s, rest)"
    using n u by (simp add: r_string_def r_bind_def r_bytes_def r_lift_def bs)
qed

lemma nonempty_string: "w_string s \<noteq> Ok []"
  by (auto simp: w_string_def Let_def w_seq.simps attempt_Ok_iff dest!: length_w_u16 split: if_splits)

interpretation string_codec: codec w_string r_string
  by unfold_locales (rule reads_string nonempty_string)+

interpretation flags_codec: codec "\<lambda>v. w_u8 (feed_flags_to_wire v)" r_flags
proof
  fix v
  show "reads (w_u8 (feed_flags_to_wire v)) r_flags v"
    using reads_u8 [of "feed_flags_to_wire v"] by (simp add: reads_def r_flags_def r_bind_def r_lift_def)
  show "w_u8 (feed_flags_to_wire v) \<noteq> Ok []"
    by (rule u8_codec.put_nonempty)
qed

subsection \<open>Enumerations\<close>

locale wire_enum =
  fixes to_wire :: "'a \<Rightarrow> nat" and from_wire :: "nat \<Rightarrow> ('a, bnp_error) result"
  assumes from_to: "from_wire (to_wire v) = Ok v"
    and to_wire_byte: "to_wire v < 256"

sublocale wire_enum \<subseteq> codec "\<lambda>v. w_enum (to_wire v)" "r_enum from_wire"
proof
  fix v
  have "unat (word_of_nat (to_wire v) :: u8) = to_wire v"
    using to_wire_byte [of v] by (simp add: unat_of_nat)
  then show "reads (w_enum (to_wire v)) (r_enum from_wire) v"
    using reads_u8 [of "word_of_nat (to_wire v)"] by (simp add: reads_def w_enum_def r_enum_def r_bind_def r_lift_def from_to)
  show "w_enum (to_wire v) \<noteq> Ok []"
    by (simp add: w_enum_def u8_codec.put_nonempty)
qed

interpretation side_enum: wire_enum side_to_wire side_from_wire
  by unfold_locales simp_all

interpretation role_enum: wire_enum role_to_wire role_from_wire
  by unfold_locales simp_all

interpretation resume_status_enum: wire_enum resume_status_to_wire resume_status_from_wire
  by unfold_locales simp_all

interpretation liquidity_enum: wire_enum liquidity_to_wire liquidity_from_wire
  by unfold_locales simp_all

interpretation entry_kind_enum: wire_enum entry_kind_to_wire entry_kind_from_wire
  by unfold_locales simp_all

interpretation order_action_enum: wire_enum order_action_to_wire order_action_from_wire
  by unfold_locales simp_all

interpretation delay_source_enum: wire_enum delay_source_to_wire delay_source_from_wire
  by unfold_locales simp_all

interpretation reject_reason_enum: wire_enum reject_reason_to_wire reject_reason_from_wire
  by unfold_locales simp_all

interpretation instrument_kind_enum: wire_enum instrument_kind_to_wire instrument_kind_from_wire
  by unfold_locales simp_all

interpretation cancel_reason_enum: wire_enum cancel_reason_to_wire cancel_reason_from_wire
  by unfold_locales simp_all

interpretation tender_status_enum: wire_enum tender_status_to_wire tender_status_from_wire
  by unfold_locales simp_all

interpretation negotiation_status_enum: wire_enum negotiation_status_to_wire negotiation_status_from_wire
  by unfold_locales simp_all

interpretation otc_decision_enum: wire_enum otc_decision_to_wire otc_decision_from_wire
  by unfold_locales simp_all

lemma reads_enum: "v < 256 \<Longrightarrow> reads (w_enum v) r_u8 (word_of_nat v)"
  unfolding w_enum_def by (rule reads_u8)

lemma nonempty_enum [nonempty_intros]: "w_enum v \<noteq> Ok []"
  by (simp add: w_enum_def nonempty_u8)

subsection \<open>Structures\<close>

interpretation listing_codec: codec w_listing r_listing
  by unfold_locales (unfold w_listing_def r_listing_def, (rule reads_intros)+, simp, (rule nonempty_intros)+)

interpretation stamp_codec: codec w_stamp r_stamp
  by unfold_locales (unfold w_stamp_def r_stamp_def, (rule reads_intros)+, simp, (rule nonempty_intros)+)

interpretation level_codec: codec w_level r_level
  by unfold_locales (unfold w_level_def r_level_def, (rule reads_intros)+, simp, (rule nonempty_intros)+)

interpretation tender_codec: codec write_tender read_tender
  by unfold_locales (unfold write_tender_def read_tender_def, (rule reads_intros)+, simp, (rule nonempty_intros)+)

interpretation negotiation_codec: codec write_negotiation read_negotiation
  by unfold_locales (unfold write_negotiation_def read_negotiation_def, (rule reads_intros)+, simp, (rule nonempty_intros)+)

interpretation component_codec: codec write_component read_component
proof
  fix item :: "u128 \<times> i64"
  show "reads (write_component item) read_component item"
    unfolding write_component_def read_component_def by (cases item; simp; (rule reads_intros)+; simp)
  show "write_component item \<noteq> Ok []"
    unfolding write_component_def by (cases item; simp; (rule nonempty_intros)+)
qed

interpretation instrument_codec: codec write_instrument read_instrument
  by unfold_locales (unfold write_instrument_def read_instrument_def, (rule reads_intros)+, simp, (rule nonempty_intros)+)

interpretation currency_info_codec: codec write_currency_info read_currency_info
  by unfold_locales (unfold write_currency_info_def read_currency_info_def, (rule reads_intros)+, simp, (rule nonempty_intros)+)

interpretation listing_reference_codec: codec write_listing_reference read_listing_reference
  by unfold_locales (unfold write_listing_reference_def read_listing_reference_def, (rule reads_intros)+, simp, (rule nonempty_intros)+)

interpretation book_order_codec: codec write_book_order read_book_order
  by unfold_locales (unfold write_book_order_def read_book_order_def, (rule reads_intros)+, simp, (rule nonempty_intros)+)

interpretation tape_quote_codec: codec write_tape_quote read_tape_quote
  by unfold_locales (unfold write_tape_quote_def read_tape_quote_def, (rule reads_intros)+, simp, (rule nonempty_intros)+)

interpretation tape_entry_codec: codec write_tape_entry read_tape_entry
  by unfold_locales (unfold write_tape_entry_def read_tape_entry_def, (rule reads_intros)+, simp, (rule nonempty_intros)+)

interpretation entry_codec: codec write_entry read_entry
  by unfold_locales (unfold write_entry_def read_entry_def, (rule reads_intros)+, simp, (rule nonempty_intros)+)

interpretation listing_info_codec: codec write_listing_info read_listing_info
  by unfold_locales (unfold write_listing_info_def read_listing_info_def, (rule reads_intros)+, simp, (rule nonempty_intros)+)

interpretation open_order_codec: codec write_open_order read_open_order
  by unfold_locales (unfold write_open_order_def read_open_order_def, (rule reads_intros)+, simp, (rule nonempty_intros)+)

interpretation cash_balance_codec: codec write_cash_balance read_cash_balance
  by unfold_locales (unfold write_cash_balance_def read_cash_balance_def, (rule reads_intros)+, simp, (rule nonempty_intros)+)

interpretation position_codec: codec write_position read_position
  by unfold_locales (unfold write_position_def read_position_def, (rule reads_intros)+, simp, (rule nonempty_intros)+)

lemma reads_tag: "reads (w_seq ws) (k v) y \<Longrightarrow> reads (w_seq (w_u8 v # ws)) (r_bind r_u8 k) y"
  by (rule reads_seq [OF reads_u8])

lemma reads_last: "reads w r x \<Longrightarrow> reads w (r_bind r (\<lambda>y. r_return (f y))) (f x)"
  by (simp add: reads_def r_bind_def r_return_def)

interpretation order_entry_codec: codec write_order_entry read_order_entry
proof
  fix e
  show "reads (write_order_entry e) read_order_entry e"
  proof (cases e)
    case (OrderEntryTrade price quantity resting_reference buyer seller)
    show ?thesis
      unfolding write_order_entry_def read_order_entry_def w_enum_def OrderEntryTrade order_entry.case
      by (rule reads_tag, simp add: ORDER_ENTRY_TRADE_def, (rule reads_intros)+, simp)
  next
    case (OrderEntryOrder action side reference price quantity broker)
    have "unat (word_of_nat (order_action_to_wire action) :: u8) = order_action_to_wire action"
      by (simp add: unat_of_nat)
    moreover have "order_action_to_wire action \<noteq> ORDER_ENTRY_TRADE"
      by (cases action) (simp_all add: ORDER_ENTRY_TRADE_def)
    ultimately show ?thesis
      unfolding write_order_entry_def read_order_entry_def w_enum_def [of "order_action_to_wire action"] OrderEntryOrder order_entry.case
      by - (rule reads_tag, simp, rule reads_lift, simp, (rule reads_intros)+, simp)
  qed
  show "write_order_entry e \<noteq> Ok []"
    unfolding write_order_entry_def by (cases e; simp; (rule nonempty_intros)+)
qed

subsection \<open>Orders and operator actions\<close>

lemma reads_order_type [reads_intros]: "reads (write_order_type t) read_order_type t"
  unfolding write_order_type_def read_order_type_def
  by (cases t; simp; rule reads_tag; simp; (rule reads_intros)+; simp)

lemma tif_of_fields: "tif_of (fst (tif_fields t)) (snd (tif_fields t)) = Ok t"
  by (cases t) (simp_all add: tif_of_def tif_fields_def)

lemma reads_new_order [reads_intros]: "reads (write_new_order order) read_new_order order"
  unfolding write_new_order_def read_new_order_def Let_def case_prod_unfold
  by ((rule reads_seq, rule reads_intros)+, rule reads_lift, rule tif_of_fields, (rule reads_intros)+, simp)

lemma reads_news_audience [reads_intros]: "reads (write_news_audience audience) read_news_audience audience"
proof (cases "audience = Public")
  case True
  then show ?thesis
    using reads_u8 [of 0] by (simp add: write_news_audience_def read_news_audience_def w_enum_def
      AUDIENCE_PUBLIC_def reads_def r_bind_def r_return_def)
next
  case False
  show ?thesis
    unfolding write_news_audience_def read_news_audience_def w_enum_def AUDIENCE_PUBLIC_def
      AUDIENCE_PARTICIPANT_def AUDIENCE_TEAM_def AUDIENCE_ROLE_def
    by (insert False, cases audience; simp; rule reads_tag; simp; (rule reads_intros)+; simp)
qed

lemma reads_operator_action [reads_intros]: "reads (write_operator_action action) read_operator_action action"
proof -
  have nest: "reads (w_seq ws) r y \<Longrightarrow> reads (w_seq [w_seq ws]) r y" for ws and r :: "operator_action reader" and y
    by (auto simp: reads_def w_seq.simps attempt_Ok_iff)
  show ?thesis
    unfolding write_operator_action_def read_operator_action_def w_enum_def [of "operator_action_code action"]
    by (cases action; simp add: operator_action_code_def; rule reads_tag; simp; rule nest; (rule reads_intros)+; simp)
qed

subsection \<open>Bodies\<close>

lemma client_body:
  "\<exists>r. read_client (client_msg_type m) = Some r \<and> reads (write_client m) r m"
proof (cases m)
  case (Hello version resume_after client_name)
  have "reads (w_seq [w_bytes MAGIC, w_u16 version, w_option w_u64 resume_after, w_string client_name])
     (the (read_client HELLO)) (Hello version resume_after client_name)"
    unfolding read_client_def if_P [OF refl] option.sel
    by (rule reads_seq [OF reads_bytes], simp, (rule reads_intros)+, simp)
  then show ?thesis
    by (simp add: Hello client_msg_type_def write_client_def read_client_def)
next
  case (NewOrder order)
  show ?thesis
    using reads_last [OF reads_new_order [of order], where f = NewOrder]
    by (simp add: NewOrder client_msg_type_def write_client_def read_client_def msg_type_defs)
qed (simp add: client_msg_type_def write_client_def read_client_def msg_type_defs; (rule reads_intros)+; simp)+

lemma server_body:
  "\<exists>r. read_server (server_msg_type m) = Some r \<and> reads (write_server m) r m"
  by (cases m; simp add: server_msg_type_def write_server_def write_server_session_def write_server_feeds_def
    write_server_orders_def write_server_books_def read_server_def read_server_session_def
    read_server_feeds_def read_server_orders_def read_server_books_def msg_type_defs;
    (rule reads_intros)+; simp)

end
