(* ===== verification/Bnp_Frames.thy ===== *)
theory Bnp_Frames
  imports Bnp_Laws
begin

text \<open>
  Frames and streams of the native protocol. \<open>cut_stream\<close> is a reference for \<open>FrameDecoder\<close>: it
  consumes the bytes instead of keeping an offset into a buffer. The locale \<open>protocol\<close> is what a
  connection needs of one peer's \<open>encode\<close> and \<open>decode\<close>; both peers interpret it, and a stream of
  either is delivered whole whatever pieces it arrives in. The second part shows that the
  decoders accept a body at one length only.
\<close>

subsection \<open>A reference for the frame decoder\<close>

function cut_stream :: "nat \<Rightarrow> bytes \<Rightarrow> (bytes list \<times> bytes, bnp_error) result" where
  "cut_stream limit bs =
     (if length bs < LENGTH_BYTES then Ok ([], bs)
      else
        (let n = from_le_bytes (take LENGTH_BYTES bs) in
         if n = 0 then Err EmptyFrame
         else if n > limit then Err (FrameTooLarge limit n)
         else if length bs < LENGTH_BYTES + n then Ok ([], bs)
         else attempt (cut_stream limit (drop (LENGTH_BYTES + n) bs))
           (\<lambda>(frames, rest). Ok (take n (drop LENGTH_BYTES bs) # frames, rest))))"
  by pat_completeness auto
termination
  by (relation "measure (\<lambda>(limit, bs). length bs)") (auto simp: LENGTH_BYTES_def)

declare cut_stream.simps [simp del] push_loop.simps [simp del]

lemma push_loop_cut:
  "offset \<le> length buffer \<Longrightarrow> push_loop limit buffer offset frames =
     attempt (cut_stream limit (drop offset buffer))
       (\<lambda>(fs, rest). Ok (frames @ fs, length buffer - length rest))"
proof (induction limit buffer offset frames rule: push_loop.induct)
  case (1 limit buffer offset frames)
  let ?bs = "drop offset buffer"
  let ?n = "from_le_bytes (take LENGTH_BYTES ?bs)"
  show ?case
  proof (cases "length ?bs < LENGTH_BYTES \<or> ?n = 0 \<or> limit < ?n \<or> length ?bs < LENGTH_BYTES + ?n")
    case True
    with 1(2) show ?thesis
      by (auto simp: push_loop.simps [of limit buffer offset frames] cut_stream.simps [of limit ?bs] get_range_def Let_def)
  next
    case False
    then have "push_loop limit buffer (offset + LENGTH_BYTES + ?n) (frames @ [take ?n (drop LENGTH_BYTES ?bs)]) =
       attempt (cut_stream limit (drop (offset + LENGTH_BYTES + ?n) buffer))
         (\<lambda>(fs, rest). Ok ((frames @ [take ?n (drop LENGTH_BYTES ?bs)]) @ fs, length buffer - length rest))"
      using 1(2) by (intro 1(1)) (auto simp: get_range_def ac_simps)
    with False 1(2) show ?thesis
      by (auto simp: push_loop.simps [of limit buffer offset frames] cut_stream.simps [of limit ?bs] get_range_def Let_def
        ac_simps attempt_def split: sum.splits)
  qed
qed

lemma cut_stream_rest: "cut_stream limit bs = Ok (frames, rest) \<Longrightarrow> \<exists>done_bytes. bs = done_bytes @ rest"
proof (induction limit bs arbitrary: frames rule: cut_stream.induct)
  case (1 limit bs)
  let ?n = "from_le_bytes (take LENGTH_BYTES bs)"
  show ?case
  proof (cases "length bs < LENGTH_BYTES \<or> ?n = 0 \<or> limit < ?n \<or> length bs < LENGTH_BYTES + ?n")
    case True
    with 1(2) show ?thesis
      by (auto simp: cut_stream.simps [of limit bs] Let_def split: if_splits)
  next
    case False
    with 1(2) obtain fs where fs: "cut_stream limit (drop (LENGTH_BYTES + ?n) bs) = Ok (fs, rest)"
      by (auto simp: cut_stream.simps [of limit bs] Let_def attempt_Ok_iff)
    have "\<exists>p. drop (LENGTH_BYTES + ?n) bs = p @ rest"
      using False by (intro 1(1) [OF _ refl _ _ _ fs]) auto
    then show ?thesis
      by (metis append_assoc append_take_drop_id)
  qed
qed

theorem push_cut:
  "frame_push bs d =
     (case cut_stream (fd_max_frame_bytes d) (fd_buffer d @ bs) of
       Inl e \<Rightarrow> (Err e, d \<lparr>fd_buffer := fd_buffer d @ bs\<rparr>)
     | Inr (frames, rest) \<Rightarrow> (Ok frames, d \<lparr>fd_buffer := rest\<rparr>))"
proof (cases "cut_stream (fd_max_frame_bytes d) (fd_buffer d @ bs)")
  case (Inr r)
  moreover obtain frames rest where "r = (frames, rest)"
    by (cases r)
  moreover obtain p where "fd_buffer d @ bs = p @ rest"
    using cut_stream_rest Inr calculation(2) by blast
  ultimately show ?thesis
    by (simp add: frame_push_def push_loop_cut Let_def)
qed (simp add: frame_push_def push_loop_cut)

lemma cut_stream_append:
  "cut_stream limit a = Ok (f1, r1) \<Longrightarrow>
     cut_stream limit (a @ b) = attempt (cut_stream limit (r1 @ b)) (\<lambda>(f2, r2). Ok (f1 @ f2, r2))"
proof (induction limit a arbitrary: f1 rule: cut_stream.induct)
  case (1 limit a)
  let ?n = "from_le_bytes (take LENGTH_BYTES a)"
  show ?case
  proof (cases "length a < LENGTH_BYTES \<or> ?n = 0 \<or> limit < ?n \<or> length a < LENGTH_BYTES + ?n")
    case True
    with 1(2) have "f1 = []" "r1 = a"
      by (auto simp: cut_stream.simps [of limit a] Let_def split: if_splits)
    then show ?thesis
      by (simp add: attempt_def split: sum.splits)
  next
    case False
    with 1(2) obtain fs where fs: "cut_stream limit (drop (LENGTH_BYTES + ?n) a) = Ok (fs, r1)"
      and f1: "f1 = take ?n (drop LENGTH_BYTES a) # fs"
      by (auto simp: cut_stream.simps [of limit a] Let_def attempt_Ok_iff)
    have "cut_stream limit (drop (LENGTH_BYTES + ?n) a @ b) =
       attempt (cut_stream limit (r1 @ b)) (\<lambda>(f2, r2). Ok (fs @ f2, r2))"
      using False by (intro 1(1) [OF _ refl _ _ _ fs]) auto
    with False show ?thesis
      by (simp add: cut_stream.simps [of limit "a @ b"] Let_def f1 attempt_def split: sum.splits)
  qed
qed

lemma cut_stream_append_Err:
  "cut_stream limit a = Err e \<Longrightarrow> cut_stream limit (a @ b) = Err e"
proof (induction limit a rule: cut_stream.induct)
  case (1 limit a)
  let ?n = "from_le_bytes (take LENGTH_BYTES a)"
  show ?case
  proof (cases "length a < LENGTH_BYTES \<or> ?n = 0 \<or> limit < ?n \<or> length a < LENGTH_BYTES + ?n")
    case True
    with 1(2) show ?thesis
      by (auto simp: cut_stream.simps [of limit a] cut_stream.simps [of limit "a @ b"] Let_def split: if_splits)
  next
    case False
    with 1(2) have "cut_stream limit (drop (LENGTH_BYTES + ?n) a) = Err e"
      by (auto simp: cut_stream.simps [of limit a] Let_def attempt_Err_iff)
    then have "cut_stream limit (drop (LENGTH_BYTES + ?n) a @ b) = Err e"
      using False by (intro 1(1)) auto
    with False show ?thesis
      by (simp add: cut_stream.simps [of limit "a @ b"] Let_def)
  qed
qed

lemma cut_stream_frame:
  assumes "body \<noteq> []" "length body \<le> limit" "length body \<le> MAX_FRAME_BYTES"
  shows "cut_stream limit (to_le_bytes LENGTH_BYTES (length body) @ body @ rest) =
     attempt (cut_stream limit rest) (\<lambda>(frames, left). Ok (body # frames, left))"
  using assms by (subst cut_stream.simps) (simp add: LENGTH_BYTES_def MAX_FRAME_BYTES_def Let_def)

subsection \<open>Pieces of a stream\<close>

text \<open>
  A receive loop: \<open>push\<close> on each piece as it arrives, until an error. \<open>settled\<close> holds between two
  calls: what the decoder keeps does not hold a whole frame.
\<close>

fun push_all :: "bytes list \<Rightarrow> frame_decoder \<Rightarrow> (bytes list, bnp_error) result \<times> frame_decoder" where
  "push_all [] d = (Ok [], d)"
| "push_all (piece # pieces) d =
     (case frame_push piece d of
       (Inl e, d') \<Rightarrow> (Err e, d')
     | (Inr frames, d') \<Rightarrow>
         (case push_all pieces d' of
           (Inl e, d'') \<Rightarrow> (Err e, d'')
         | (Inr others, d'') \<Rightarrow> (Ok (frames @ others), d'')))"

definition settled :: "frame_decoder \<Rightarrow> bool" where
  "settled d \<longleftrightarrow> cut_stream (fd_max_frame_bytes d) (fd_buffer d) = Ok ([], fd_buffer d)"

lemma settled_new [simp]: "settled (frame_decoder_new n)"
  by (simp add: settled_def frame_decoder_new_def cut_stream.simps LENGTH_BYTES_def)

lemma cut_stream_settled: "cut_stream limit bs = Ok (frames, rest) \<Longrightarrow> cut_stream limit rest = Ok ([], rest)"
  using cut_stream_append [of limit bs frames rest "[]"] by (cases "cut_stream limit rest") (auto split: prod.splits)

lemma push_settled: "frame_push bs d = (Ok frames, d') \<Longrightarrow> settled d' \<and> fd_max_frame_bytes d' = fd_max_frame_bytes d"
  by (auto simp: push_cut settled_def dest: cut_stream_settled split: sum.splits)

lemma push_all_cut:
  "settled d \<Longrightarrow>
     (case cut_stream (fd_max_frame_bytes d) (fd_buffer d @ concat pieces) of
       Inl e \<Rightarrow> fst (push_all pieces d) = Err e
     | Inr (frames, rest) \<Rightarrow> push_all pieces d = (Ok frames, d \<lparr>fd_buffer := rest\<rparr>))"
proof (induction pieces arbitrary: d)
  case (Cons piece pieces)
  show ?case
  proof (cases "cut_stream (fd_max_frame_bytes d) (fd_buffer d @ piece)")
    case (Inl e)
    with cut_stream_append_Err [OF Inl, of "concat pieces"] show ?thesis
      by (simp add: push_cut)
  next
    case (Inr r)
    obtain frames rest where r: "r = (frames, rest)"
      by (cases r)
    let ?d = "d \<lparr>fd_buffer := rest\<rparr>"
    have d: "frame_push piece d = (Ok frames, ?d)"
      by (simp add: push_cut Inr r)
    have "settled ?d"
      using push_settled [OF d] by simp
    from Cons.IH [OF this] show ?thesis
      using cut_stream_append [OF Inr [unfolded r], of "concat pieces"]
      by (auto simp: d attempt_def split: sum.splits prod.splits)
  qed
qed (simp add: settled_def)

subsection \<open>The contract of a peer\<close>

text \<open>Appending the frames of several messages, one after the other.\<close>

fun encode_all :: "('m \<Rightarrow> bytes \<Rightarrow> (unit, bnp_error) result \<times> bytes) \<Rightarrow> 'm list \<Rightarrow> bytes \<Rightarrow>
    (unit, bnp_error) result \<times> bytes" where
  "encode_all encode [] out = (Ok (), out)"
| "encode_all encode (m # ms) out =
     (case encode m out of (Inl e, out') \<Rightarrow> (Err e, out') | (Inr _, out') \<Rightarrow> encode_all encode ms out')"

locale protocol =
  fixes encode :: "'m \<Rightarrow> bytes \<Rightarrow> (unit, bnp_error) result \<times> bytes"
    and decode :: "bytes \<Rightarrow> ('m, bnp_error) result"
  assumes encode_frame: "encode m out = (Ok u, out') \<Longrightarrow>
      \<exists>body. body \<noteq> [] \<and> length body \<le> MAX_FRAME_BYTES \<and> decode body = Ok m
        \<and> out' = out @ to_le_bytes LENGTH_BYTES (length body) @ body"
    and encode_error: "encode m out = (Err e, out') \<Longrightarrow> out' = out"
begin

lemma encode_all_cut:
  "encode_all encode ms out = (Ok u, out') \<Longrightarrow>
     \<exists>stream frames. out' = out @ stream \<and> cut_stream MAX_FRAME_BYTES stream = Ok (frames, [])
       \<and> map decode frames = map Ok ms"
proof (induction ms arbitrary: out)
  case Nil
  then show ?case
    by (simp add: cut_stream.simps LENGTH_BYTES_def)
next
  case (Cons m ms)
  from Cons.prems obtain u2 out2 where out2: "encode m out = (Ok u2, out2)"
    and ms: "encode_all encode ms out2 = (Ok u, out')"
    by (auto split: prod.splits sum.splits)
  obtain body where body: "body \<noteq> []" "length body \<le> MAX_FRAME_BYTES" "decode body = Ok m"
    "out2 = out @ to_le_bytes LENGTH_BYTES (length body) @ body"
    using encode_frame [OF out2] by blast
  obtain stream frames where stream: "out' = out2 @ stream" "cut_stream MAX_FRAME_BYTES stream = Ok (frames, [])"
    "map decode frames = map Ok ms"
    using Cons.IH [OF ms] by blast
  show ?case
  proof (intro exI conjI)
    show "out' = out @ (to_le_bytes LENGTH_BYTES (length body) @ body @ stream)"
      by (simp add: stream body)
    show "cut_stream MAX_FRAME_BYTES (to_le_bytes LENGTH_BYTES (length body) @ body @ stream) = Ok (body # frames, [])"
      by (simp add: cut_stream_frame [OF body(1,2,2)] stream)
    show "map decode (body # frames) = map Ok (m # ms)"
      by (simp add: body stream)
  qed
qed

lemma stream_delivered:
  assumes "encode_all encode ms [] = (Ok (), stream)" "concat pieces = stream"
  shows "\<exists>frames d. push_all pieces (frame_decoder_new MAX_FRAME_BYTES) = (Ok frames, d)
     \<and> map decode frames = map Ok ms \<and> pending_bytes d = 0"
proof -
  obtain frames where frames: "cut_stream MAX_FRAME_BYTES stream = Ok (frames, [])" "map decode frames = map Ok ms"
    using encode_all_cut [OF assms(1)] by auto
  let ?d = "frame_decoder_new MAX_FRAME_BYTES"
  have "fd_max_frame_bytes ?d = MAX_FRAME_BYTES" "fd_buffer ?d = []"
    by (simp_all add: frame_decoder_new_def MAX_FRAME_BYTES_def)
  then show ?thesis
    using push_all_cut [OF settled_new [of MAX_FRAME_BYTES], of pieces] frames by (simp add: assms(2) pending_bytes_def)
qed

lemma encode_all_error:
  "encode_all encode ms out = (Err e, out') \<Longrightarrow> \<exists>k < length ms. encode_all encode (take k ms) out = (Ok (), out')"
proof (induction ms arbitrary: out)
  case (Cons m ms)
  show ?case
  proof (cases "encode m out")
    case (Pair r out2)
    show ?thesis
    proof (cases r)
      case (Inl e')
      with Pair Cons.prems encode_error [of m out e' out2] show ?thesis
        by (intro exI [of _ 0]) simp
    next
      case (Inr u)
      with Pair Cons.prems obtain k where "k < length ms" "encode_all encode (take k ms) out2 = (Ok (), out')"
        using Cons.IH by auto
      with Inr Pair show ?thesis
        by (intro exI [of _ "Suc k"]) simp
    qed
  qed
qed simp

end

lemma frame_Ok:
  "frame out kind w = (Ok u, out') \<longleftrightarrow>
     (\<exists>bs. w = Ok bs \<and> length bs < MAX_FRAME_BYTES
       \<and> out' = out @ to_le_bytes LENGTH_BYTES (length (char_of kind # bs)) @ char_of kind # bs)"
  by (auto simp: frame_def Let_def split: sum.splits if_splits)

lemma frame_Err: "frame out kind w = (Err e, out') \<Longrightarrow> out' = out"
  by (auto simp: frame_def Let_def split: sum.splits if_splits)

lemma client_msg_type_range: "1 \<le> client_msg_type m \<and> client_msg_type m \<le> 63"
  by (cases m) (simp_all add: client_msg_type_def msg_type_defs)

lemma server_msg_type_range: "64 \<le> server_msg_type m \<and> server_msg_type m \<le> 127"
  by (cases m) (simp_all add: server_msg_type_def msg_type_defs)

lemma run_reader_reads: "reads w r m \<Longrightarrow> w = Ok bs \<Longrightarrow> run_reader r bs = Ok m"
  using readsD [of w r m bs "[]"] by (simp add: run_reader_def r_finish_def)

lemma decode_client_body:
  assumes "write_client m = Ok bs"
  shows "decode_client (char_of (client_msg_type m) # bs) = Ok m"
proof -
  have "of_char (char_of (client_msg_type m) :: char) = client_msg_type m"
    using client_msg_type_range [of m] by simp
  then show ?thesis
    using client_body [of m] run_reader_reads [OF _ assms] by (auto simp: decode_client_def)
qed

lemma decode_server_body:
  assumes "write_server m = Ok bs"
  shows "decode_server (char_of (server_msg_type m) # bs) = Ok m"
proof -
  have "of_char (char_of (server_msg_type m) :: char) = server_msg_type m"
    using server_msg_type_range [of m] by simp
  then show ?thesis
    using server_body [of m] run_reader_reads [OF _ assms] by (auto simp: decode_server_def)
qed

interpretation client: protocol encode_client decode_client
proof
  fix m out u out' e
  show "encode_client m out = (Ok u, out') \<Longrightarrow>
      \<exists>body. body \<noteq> [] \<and> length body \<le> MAX_FRAME_BYTES \<and> decode_client body = Ok m
        \<and> out' = out @ to_le_bytes LENGTH_BYTES (length body) @ body"
    unfolding encode_client_def frame_Ok using decode_client_body [of m] by fastforce
  show "encode_client m out = (Err e, out') \<Longrightarrow> out' = out"
    by (auto simp: encode_client_def dest: frame_Err)
qed

interpretation server: protocol encode_server decode_server
proof
  fix m out u out' e
  show "encode_server m out = (Ok u, out') \<Longrightarrow>
      \<exists>body. body \<noteq> [] \<and> length body \<le> MAX_FRAME_BYTES \<and> decode_server body = Ok m
        \<and> out' = out @ to_le_bytes LENGTH_BYTES (length body) @ body"
    unfolding encode_server_def frame_Ok using decode_server_body [of m] by fastforce
  show "encode_server m out = (Err e, out') \<Longrightarrow> out' = out"
    by (auto simp: encode_server_def dest: frame_Err)
qed

subsection \<open>One length per body\<close>

text \<open>
  A reader that succeeds does not look past the bytes it consumes; so bytes added after a body
  are always left over, and the decoders refuse them.
\<close>

named_theorems extends_intros "readers whose result does not depend on the bytes they leave"

definition extends :: "'a reader \<Rightarrow> bool" where
  "extends r \<longleftrightarrow> (\<forall>bs x rest extra. r bs = Ok (x, rest) \<longrightarrow> r (bs @ extra) = Ok (x, rest @ extra))"

lemma extends_return [extends_intros]: "extends (r_return x)"
  by (simp add: extends_def r_return_def)

lemma extends_fail [extends_intros]: "extends (r_fail e)"
  by (simp add: extends_def r_fail_def)

lemma extends_lift [extends_intros]: "extends (r_lift v)"
  by (auto simp: extends_def r_lift_def attempt_Ok_iff)

lemma extends_bind [extends_intros]: "extends r \<Longrightarrow> (\<And>x. extends (k x)) \<Longrightarrow> extends (r_bind r k)"
  unfolding extends_def r_bind_def attempt_Ok_iff by fastforce

lemma extends_if [extends_intros]: "extends a \<Longrightarrow> extends b \<Longrightarrow> extends (if c then a else b)"
  by simp

lemma extends_bytes [extends_intros]: "extends (r_bytes n)"
  by (auto simp: extends_def r_bytes_def)

lemma extends_array [extends_intros]: "extends (r_array n)"
  unfolding r_array_def by (rule extends_intros)+

lemma extends_integers [extends_intros]:
  "extends r_u8" "extends r_u16" "extends r_u32" "extends r_u64" "extends r_i64" "extends r_u128" "extends r_i128"
  unfolding reader_defs by (rule extends_array)+

lemma extends_bool [extends_intros]: "extends r_bool"
  unfolding r_bool_def by (rule extends_intros)+

lemma extends_fields [extends_intros]:
  "extends (r_enum from_wire)" "extends r_flags" "extends r_string"
  unfolding r_enum_def r_flags_def r_string_def by (rule extends_intros)+

lemma extends_option [extends_intros]: "extends r \<Longrightarrow> extends (r_option r)"
  unfolding r_option_def by (rule extends_intros | assumption)+

lemma extends_times: "extends r \<Longrightarrow> extends (r_times n r)"
  by (induction n) (auto intro!: extends_intros)

lemma extends_group [extends_intros]: "extends r \<Longrightarrow> extends (r_group r)"
  unfolding r_group_def
proof (rule extends_bind [OF extends_integers(2)])
  fix count :: u16
  assume "extends r"
  from extends_times [OF this, of "unat count"]
  show "extends (\<lambda>bs. if unat count > MAX_GROUP_ENTRIES then Err (GroupTooLarge (unat count))
     else if unat count > length bs then Err Truncated else r_times (unat count) r bs)"
    by (auto simp: extends_def)
qed

lemmas structure_readers = r_listing_def r_stamp_def r_level_def read_tender_def read_negotiation_def
  read_component_def read_instrument_def read_currency_info_def read_listing_reference_def
  read_book_order_def read_order_entry_def read_tape_quote_def read_tape_entry_def read_entry_def
  read_listing_info_def read_open_order_def read_cash_balance_def read_position_def
  read_order_type_def read_new_order_def read_news_audience_def read_operator_action_def

lemma extends_choice [extends_intros]:
  "extends r \<Longrightarrow> pred_option extends others \<Longrightarrow> pred_option extends (if c then Some r else others)"
  by simp

lemma extends_none [extends_intros]: "pred_option extends None"
  by simp

lemma extends_client: "pred_option extends (read_client kind)"
  unfolding read_client_def structure_readers by (rule extends_intros)+

lemma extends_server: "pred_option extends (read_server kind)"
proof -
  have "pred_option extends (read_server_session kind)" "pred_option extends (read_server_feeds kind)"
    "pred_option extends (read_server_orders kind)" "pred_option extends (read_server_books kind)"
    unfolding read_server_session_def read_server_feeds_def read_server_orders_def read_server_books_def
      structure_readers by (rule extends_intros)+
  then show ?thesis
    by (auto simp: read_server_def split: option.splits)
qed

lemma run_reader_extends:
  "extends r \<Longrightarrow> run_reader r body = Ok m \<Longrightarrow> extra \<noteq> [] \<Longrightarrow> run_reader r (body @ extra) = Err TrailingBytes"
  by (auto simp: run_reader_def extends_def r_finish_def attempt_Ok_iff split: if_splits)

lemma read_server_of_client: "kind \<le> 63 \<Longrightarrow> read_server kind = None"
  by (simp add: read_server_def read_server_session_def read_server_feeds_def read_server_orders_def
    read_server_books_def msg_type_defs)

lemma read_client_of_server: "64 \<le> kind \<Longrightarrow> read_client kind = None"
  by (simp add: read_client_def msg_type_defs)

subsection \<open>Properties\<close>

text \<open>
  What a server writes, a client reads: the frames of any messages, encoded one after the
  other and cut into any pieces on the way, come out of a \<open>FrameDecoder\<close> that is fed the pieces,
  decode to the same messages in the same order, and leave no byte pending.
\<close>

theorem server_stream_delivered:
  assumes "encode_all encode_server ms [] = (Ok (), stream)" "concat pieces = stream"
  shows "\<exists>frames d. push_all pieces (frame_decoder_new MAX_FRAME_BYTES) = (Ok frames, d)
     \<and> map decode_server frames = map Ok ms \<and> pending_bytes d = 0"
  using assms by (rule server.stream_delivered)

text \<open>C18. What a client writes, the server reads, in the same sense.\<close>

theorem client_stream_delivered:
  assumes "encode_all encode_client ms [] = (Ok (), stream)" "concat pieces = stream"
  shows "\<exists>frames d. push_all pieces (frame_decoder_new MAX_FRAME_BYTES) = (Ok frames, d)
     \<and> map decode_client frames = map Ok ms \<and> pending_bytes d = 0"
  using assms by (rule client.stream_delivered)

text \<open>
  A message that cannot be encoded does not damage the stream: what \<open>encode_server\<close> leaves
  after the first failure is exactly the frames of the messages before it.
\<close>

theorem encode_failure_keeps_frames:
  assumes "encode_all encode_server ms out = (Err e, out')"
  shows "\<exists>k < length ms. encode_all encode_server (take k ms) out = (Ok (), out')"
  using assms by (rule server.encode_all_error)

text \<open>
  C28. The frames a decoder returns do not depend on how the bytes are cut: between two calls of
  \<open>push\<close>, feeding any pieces gives the frames, or the error, of feeding their concatenation at
  once, and after a success the same decoder.
\<close>

theorem push_pieces:
  assumes "settled d"
  shows "fst (push_all pieces d) = fst (frame_push (concat pieces) d)
    \<and> (\<not> isl (fst (frame_push (concat pieces) d)) \<longrightarrow> push_all pieces d = frame_push (concat pieces) d)"
  using push_all_cut [OF assms, of pieces] by (auto simp: push_cut split: sum.splits)

text \<open>
  A body has one length: bytes added after a frame that either decoder accepts make it
  refuse the frame with \<open>TrailingBytes\<close>. So no accepted frame is a proper prefix of another.
\<close>

theorem trailing_bytes_refused:
  assumes "extra \<noteq> []"
  shows "(\<forall>m. decode_client f = Ok m \<longrightarrow> decode_client (f @ extra) = Err TrailingBytes)
    \<and> (\<forall>m. decode_server f = Ok m \<longrightarrow> decode_server (f @ extra) = Err TrailingBytes)"
proof (cases f)
  case (Cons c body)
  show ?thesis
    using extends_client [of "of_char c"] extends_server [of "of_char c"]
    by (auto simp: Cons decode_client_def decode_server_def Let_def
      intro: run_reader_extends [OF _ _ assms] split: option.splits if_splits)
qed (simp add: decode_client_def decode_server_def)

text \<open>
  A peer that sends its own messages back is told so: a decoder refuses every frame with a
  message type of the other direction as \<open>WrongDirection\<close>, whatever its body.
\<close>

theorem wrong_direction_refused:
  "decode_server (char_of (client_msg_type m) # body) = Err (WrongDirection (client_msg_type m))
   \<and> decode_client (char_of (server_msg_type m') # body) = Err (WrongDirection (server_msg_type m'))"
  using client_msg_type_range [of m] server_msg_type_range [of m']
  by (simp add: decode_server_def decode_client_def read_server_of_client read_client_of_server)

subsection \<open>Witnesses\<close>

definition demo_orders :: "client_message list" where
  "demo_orders = [ClientHeartbeat, CancelOrder 7, KillSwitch 9]"

definition demo_orders_stream :: bytes where
  "demo_orders_stream = snd (encode_all encode_client demo_orders [])"

lemma demo_orders_encoded: "encode_all encode_client demo_orders [] = (Ok (), demo_orders_stream)"
proof -
  have "fst (encode_all encode_client demo_orders []) = Ok ()"
    by (simp add: demo_orders_def encode_client_def write_client_def frame_def w_seq.simps writer_defs
      MAX_FRAME_BYTES_def)
  then show ?thesis
    by (simp add: demo_orders_stream_def prod_eq_iff)
qed

theorem client_stream_delivered_witness:
  "\<exists>frames d. push_all [take 7 demo_orders_stream, drop 7 demo_orders_stream] (frame_decoder_new MAX_FRAME_BYTES)
       = (Ok frames, d)
     \<and> map decode_client frames = [Ok ClientHeartbeat, Ok (CancelOrder 7), Ok (KillSwitch 9)] \<and> pending_bytes d = 0"
  using client_stream_delivered [OF demo_orders_encoded, of "[take 7 demo_orders_stream, drop 7 demo_orders_stream]"]
  by (simp add: demo_orders_def)

definition demo_feed :: "server_message list" where
  "demo_feed =
     [Pong 5 1000,
      MarketUpdate 1 \<lparr>l_venue_id = 1, l_instrument_id = 2\<rparr> 4 [\<lparr>en_kind = EntryBid, en_price = 100, en_quantity = 3\<rparr>]]"

definition demo_feed_stream :: bytes where
  "demo_feed_stream = snd (encode_all encode_server demo_feed [])"

lemma demo_feed_encoded: "encode_all encode_server demo_feed [] = (Ok (), demo_feed_stream)"
proof -
  have "fst (encode_all encode_server demo_feed []) = Ok ()"
    by (simp add: demo_feed_def encode_server_def write_server_def write_server_session_def write_server_feeds_def
      write_server_orders_def write_server_books_def frame_def w_seq.simps writer_defs w_group_def write_entry_def
      w_listing_def w_enum_def MAX_FRAME_BYTES_def MAX_GROUP_ENTRIES_def)
  then show ?thesis
    by (simp add: demo_feed_stream_def prod_eq_iff)
qed

theorem server_stream_delivered_witness:
  "\<exists>frames d. push_all [take 2 demo_feed_stream, drop 2 demo_feed_stream] (frame_decoder_new MAX_FRAME_BYTES)
       = (Ok frames, d)
     \<and> map decode_server frames = map Ok demo_feed \<and> pending_bytes d = 0"
  using server_stream_delivered [OF demo_feed_encoded, of "[take 2 demo_feed_stream, drop 2 demo_feed_stream]"]
  by simp

definition demo_long_name :: ustring where
  "demo_long_name = str_of (replicate 1025 CHR ''x'')"

lemma demo_long_name_bytes: "length (str_bytes demo_long_name) = 1025"
  unfolding demo_long_name_def by (subst str_of_inverse) (simp_all add: utf8_ascii)

lemma demo_logout_fails:
  "encode_all encode_server [Probe 3, ServerLogout demo_long_name, Probe 4] [] =
     (Err (StringTooLong 1025), snd (encode_server (Probe 3) []))"
  by (simp add: encode_server_def write_server_def write_server_session_def frame_def w_seq.simps w_string_def
    demo_long_name_bytes MAX_STRING_BYTES_def MAX_FRAME_BYTES_def writer_defs)

theorem encode_failure_keeps_frames_witness:
  "\<exists>k. k < 3 \<and> encode_all encode_server (take k [Probe 3, ServerLogout demo_long_name, Probe 4]) []
     = (Ok (), snd (encode_server (Probe 3) []))"
  using encode_failure_keeps_frames [OF demo_logout_fails] by (simp add: eval_nat_numeral)

theorem push_pieces_witness:
  "fst (push_all [''a'', ''bc''] (frame_decoder_new 9)) = fst (frame_push ''abc'' (frame_decoder_new 9))"
  using push_pieces [OF settled_new [of 9], of "[''a'', ''bc'']"] by simp

theorem trailing_bytes_refused_witness:
  "decode_client (char_of CLIENT_HEARTBEAT # ''x'') = Err TrailingBytes"
proof -
  have "decode_client [char_of CLIENT_HEARTBEAT] = Ok ClientHeartbeat"
    by (simp add: decode_client_def read_client_def msg_type_defs run_reader_def r_return_def r_finish_def)
  with trailing_bytes_refused [of "''x''" "[char_of CLIENT_HEARTBEAT]"] show ?thesis
    by simp
qed

end
