(* ===== verification/BTree.thy ===== *)
theory BTree
  imports Prelude
begin

text \<open>
  The standard library's ordered containers. A \<open>BTreeMap\<close> is an association list
  kept in strictly ascending key order, a \<open>BTreeSet\<close> a strictly ascending list, so
  iteration order is the list order and two maps with the same lookups are equal.
  The locale \<open>ordered_map\<close> is the contract the components use; it is interpreted on
  the list operations below, and its lemmas about sums over a map carry the
  conservation proofs of the ledger and the aggregates of the book.
\<close>

subsection \<open>The interface\<close>

locale ordered_map =
  fixes get :: "'m \<Rightarrow> 'k::linorder \<Rightarrow> 'v option"
    and ins :: "'k \<Rightarrow> 'v \<Rightarrow> 'm \<Rightarrow> 'm"
    and del :: "'k \<Rightarrow> 'm \<Rightarrow> 'm"
    and entries :: "'m \<Rightarrow> ('k \<times> 'v) list"
    and wf :: "'m \<Rightarrow> bool"
  assumes get_entries: "wf m \<Longrightarrow> get m k = map_of (entries m) k"
    and entries_ascending: "wf m \<Longrightarrow> sorted_wrt (<) (map fst (entries m))"
    and get_ins: "wf m \<Longrightarrow> get (ins k v m) = (get m)(k \<mapsto> v)"
    and get_del: "wf m \<Longrightarrow> get (del k m) = (get m)(k := None)"
    and wf_ins: "wf m \<Longrightarrow> wf (ins k v m)"
    and wf_del: "wf m \<Longrightarrow> wf (del k m)"
begin

lemma entries_distinct: "wf m \<Longrightarrow> distinct (map fst (entries m))"
  using entries_ascending strict_sorted_iff by blast

lemma get_mem: "wf m \<Longrightarrow> get m k = Some v \<longleftrightarrow> (k, v) \<in> set (entries m)"
  by (simp add: get_entries entries_distinct)

lemma finite_dom_get: "wf m \<Longrightarrow> finite (dom (get m))"
proof -
  assume "wf m"
  then have "get m = map_of (entries m)"
    by (auto simp: get_entries)
  then show ?thesis
    by (simp add: finite_dom_map_of)
qed

text \<open>A sum over the entries is a sum over the domain.\<close>

lemma sum_entries:
  fixes f :: "'k \<Rightarrow> 'v \<Rightarrow> 'a::comm_monoid_add"
  assumes "wf m"
  shows "(\<Sum>(k, v) \<leftarrow> entries m. f k v) = (\<Sum>k \<in> dom (get m). f k (the (get m k)))"
proof -
  have d: "distinct (map fst (entries m))"
    using assms by (rule entries_distinct)
  have "(\<Sum>(k, v) \<leftarrow> entries m. f k v) = (\<Sum>x \<in> set (entries m). case x of (k, v) \<Rightarrow> f k v)"
    using d by (simp add: sum_list_distinct_conv_sum_set distinct_map)
  also have "\<dots> = (\<Sum>k \<in> fst ` set (entries m). f k (the (get m k)))"
    using d assms
    by (subst sum.reindex) (auto simp: distinct_map get_mem [symmetric] intro!: sum.cong
        dest: get_mem [THEN iffD2, rotated])
  also have "fst ` set (entries m) = dom (get m)"
    using assms by (force simp: get_mem)
  finally show ?thesis .
qed

text \<open>
  How one insertion moves a sum, with \<open>z\<close> the contribution of an absent key.
\<close>

lemma sum_ins:
  fixes f :: "'k \<Rightarrow> 'v \<Rightarrow> 'a::ab_group_add"
  assumes "wf m"
  shows "(\<Sum>(k, v) \<leftarrow> entries (ins k v m). f k v)
       = (\<Sum>(k, v) \<leftarrow> entries m. f k v) - (case get m k of None \<Rightarrow> 0 | Some w \<Rightarrow> f k w) + f k v"
proof -
  have fin: "finite (dom (get m))"
    using assms by (rule finite_dom_get)
  have eq: "(\<Sum>j \<in> dom (get m) - {k}. f j (the (((get m)(k \<mapsto> v)) j)))
      = (\<Sum>j \<in> dom (get m) - {k}. f j (the (get m j)))"
    by (rule sum.cong) auto
  have "(\<Sum>(k, v) \<leftarrow> entries (ins k v m). f k v)
      = (\<Sum>j \<in> insert k (dom (get m)). f j (the (((get m)(k \<mapsto> v)) j)))"
    using assms by (simp add: sum_entries wf_ins get_ins)
  also have "\<dots> = f k v + (\<Sum>j \<in> dom (get m) - {k}. f j (the (get m j)))"
    using fin by (simp add: sum.insert_remove eq del: fun_upd_apply) simp
  finally show ?thesis
    using fin assms by (auto simp: sum_entries sum_diff1 split: option.split)
qed

text \<open>How one removal moves a sum.\<close>

lemma sum_del:
  fixes f :: "'k \<Rightarrow> 'v \<Rightarrow> 'a::ab_group_add"
  assumes "wf m"
  shows "(\<Sum>(k, v) \<leftarrow> entries (del k m). f k v)
       = (\<Sum>(k, v) \<leftarrow> entries m. f k v) - (case get m k of None \<Rightarrow> 0 | Some w \<Rightarrow> f k w)"
proof -
  have fin: "finite (dom (get m))"
    using assms by (rule finite_dom_get)
  have "(\<Sum>(k, v) \<leftarrow> entries (del k m). f k v)
      = (\<Sum>j \<in> dom (get m) - {k}. f j (the (get m j)))"
    using assms by (auto simp: sum_entries wf_del get_del intro!: sum.cong)
  then show ?thesis
    using fin assms by (auto simp: sum_entries sum_diff1 split: option.split)
qed

text \<open>Lookups determine the entries.\<close>

lemma entries_ext:
  assumes "wf m" and "wf m'" and "\<And>k. get m k = get m' k"
  shows "entries m = entries m'"
proof -
  have "set (entries m) = set (entries m')"
    using assms by (auto simp flip: get_mem)
  then show ?thesis
    using assms(1,2) by (intro map_sorted_distinct_set_unique [of fst])
      (auto simp: entries_distinct inj_on_def get_mem [symmetric]
        strict_sorted_imp_sorted [OF entries_ascending])
qed

end

subsection \<open>BTreeMap\<close>

type_synonym ('k, 'v) btree_map = "('k \<times> 'v) list"

abbreviation bt_get :: "('k, 'v) btree_map \<Rightarrow> 'k \<Rightarrow> 'v option" where
  "bt_get \<equiv> map_of"

definition bt_insert :: "'k::linorder \<Rightarrow> 'v \<Rightarrow> ('k, 'v) btree_map \<Rightarrow> ('k, 'v) btree_map" where
  "bt_insert k v m =
     takeWhile (\<lambda>e. fst e < k) m @ (k, v) # filter (\<lambda>e. fst e \<noteq> k) (dropWhile (\<lambda>e. fst e < k) m)"

definition bt_remove :: "'k \<Rightarrow> ('k, 'v) btree_map \<Rightarrow> ('k, 'v) btree_map" where
  "bt_remove k m = filter (\<lambda>e. fst e \<noteq> k) m"

definition bt_wf :: "('k::linorder, 'v) btree_map \<Rightarrow> bool" where
  "bt_wf m = sorted_wrt (<) (map fst m)"

lemma bt_get_insert [simp]: "bt_get (bt_insert k v m) = (bt_get m)(k \<mapsto> v)"
proof (induction m)
  case Nil
  show ?case by (simp add: bt_insert_def)
next
  case (Cons e m)
  have "map_of (filter (\<lambda>e. fst e \<noteq> k) m) j = map_of m j" if "j \<noteq> k" for j
    using that by (induction m) auto
  with Cons show ?case
    by (auto simp: bt_insert_def fun_eq_iff)
qed

lemma bt_get_remove [simp]: "bt_get (bt_remove k m) = (bt_get m)(k := None)"
  by (induction m) (auto simp: bt_remove_def fun_eq_iff)

lemma bt_wf_Nil [simp]: "bt_wf []"
  by (simp add: bt_wf_def)

lemma bt_wf_Cons: "bt_wf (e # m) \<longleftrightarrow> (\<forall>e' \<in> set m. fst e < fst e') \<and> bt_wf m"
  by (auto simp: bt_wf_def)

lemma set_bt_insert: "set (bt_insert k v m) \<subseteq> insert (k, v) (set m)"
  by (auto simp: bt_insert_def dest: set_takeWhileD set_dropWhileD)

lemma bt_wf_insert [simp]: "bt_wf m \<Longrightarrow> bt_wf (bt_insert k v m)"
proof (induction m)
  case Nil
  show ?case by (simp add: bt_insert_def bt_wf_def)
next
  case (Cons e m)
  then have wf: "bt_wf m" and low: "\<forall>e' \<in> set m. fst e < fst e'"
    by (auto simp: bt_wf_Cons)
  show ?case
  proof (cases "fst e < k")
    case True
    then have "bt_insert k v (e # m) = e # bt_insert k v m"
      by (simp add: bt_insert_def)
    then show ?thesis
      using Cons True low set_bt_insert [of k v m] by (auto simp: bt_wf_Cons)
  next
    case False
    then have "bt_insert k v (e # m) = (k, v) # filter (\<lambda>e. fst e \<noteq> k) (e # m)"
      by (simp add: bt_insert_def)
    then show ?thesis
      using False low wf
      by (auto simp: bt_wf_Cons) (auto simp: bt_wf_def sorted_wrt_map sorted_wrt_filter)
  qed
qed

lemma bt_wf_remove [simp]: "bt_wf m \<Longrightarrow> bt_wf (bt_remove k m)"
  by (simp add: bt_wf_def bt_remove_def sorted_wrt_map sorted_wrt_filter)

interpretation bt: ordered_map bt_get bt_insert bt_remove "\<lambda>m. m" bt_wf
  by unfold_locales (auto simp: bt_wf_def [symmetric])

lemmas bt_ext = bt.entries_ext

lemma bt_distinct: "bt_wf m \<Longrightarrow> distinct (map fst m)"
  by (rule bt.entries_distinct)

lemma bt_get_mem: "bt_wf m \<Longrightarrow> bt_get m k = Some v \<longleftrightarrow> (k, v) \<in> set m"
  by (rule bt.get_mem)

lemma bt_remove_insert: "bt_wf m \<Longrightarrow> bt_get m k = None \<Longrightarrow> bt_remove k (bt_insert k v m) = m"
  by (rule bt_ext) auto

lemma bt_insert_remove: "bt_wf m \<Longrightarrow> bt_get m k = Some v \<Longrightarrow> bt_insert k v (bt_remove k m) = m"
  by (rule bt_ext) auto

lemma bt_insert_same: "bt_wf m \<Longrightarrow> bt_get m k = Some v \<Longrightarrow> bt_insert k v m = m"
  by (rule bt_ext) auto

lemma bt_insert_insert [simp]: "bt_wf m \<Longrightarrow> bt_insert k v (bt_insert k w m) = bt_insert k v m"
  by (rule bt_ext) auto

lemma bt_insert_commute:
  "bt_wf m \<Longrightarrow> j \<noteq> k \<Longrightarrow> bt_insert j u (bt_insert k v m) = bt_insert k v (bt_insert j u m)"
  by (rule bt_ext) (auto simp: fun_upd_twist)

lemma bt_insert_not_Nil [simp]: "bt_insert k v m \<noteq> []"
  by (simp add: bt_insert_def)

lemma bt_Nil_iff: "m = [] \<longleftrightarrow> (\<forall>k. bt_get m k = None)"
  by (auto simp: map_of_eq_empty_iff [symmetric] fun_eq_iff)

lemma bt_remove_Nil_iff: "bt_remove k m = [] \<longleftrightarrow> (\<forall>j. j \<noteq> k \<longrightarrow> bt_get m j = None)"
  by (simp add: bt_Nil_iff [of "bt_remove k m"])

subsection \<open>Sizes and keys\<close>

lemma bt_length: "bt_wf m \<Longrightarrow> length m = card (dom (bt_get m))"
  using distinct_card [OF bt_distinct [of m]] by (simp add: dom_map_of_conv_image_fst)

lemma bt_length_insert:
  "bt_wf m \<Longrightarrow> length (bt_insert k v m) = (if bt_get m k = None then Suc (length m) else length m)"
  using bt.finite_dom_get [of m] by (simp add: bt_length card_insert_if domIff)

lemma bt_length_remove:
  "bt_wf m \<Longrightarrow> length (bt_remove k m) = (if bt_get m k = None then length m else length m - 1)"
  using bt.finite_dom_get [of m] by (auto simp: bt_length domIff)

text \<open>Writing to a present key keeps the keys.\<close>

lemma bt_keys_insert:
  assumes "bt_wf m" and "bt_get m k \<noteq> None"
  shows "map fst (bt_insert k v m) = map fst m"
proof -
  have "set (map fst (bt_insert k v m)) = set (map fst m)"
    using assms(2) by (simp add: insert_absorb domIff flip: dom_map_of_conv_image_fst)
  then show ?thesis
    using assms(1) bt_wf_insert [OF assms(1), of k v]
    by (metis bt_wf_def strict_sorted_equal)
qed

lemma bt_filter_count:
  "bt_wf m \<Longrightarrow> length (filter (\<lambda>(k, v). P k v) m) = card {k. \<exists>v. bt_get m k = Some v \<and> P k v}"
proof -
  assume wf: "bt_wf m"
  let ?f = "filter (\<lambda>(k, v). P k v) m"
  have "distinct (map fst ?f)"
    using bt_distinct [OF wf] by (rule distinct_map_filter)
  then have "length ?f = card (set (map fst ?f))"
    using distinct_card [of "map fst ?f"] by simp
  also have "set (map fst ?f) = {k. \<exists>v. bt_get m k = Some v \<and> P k v}"
    by (force simp: bt_get_mem [OF wf])
  finally show ?thesis .
qed

subsection \<open>Ends of a map\<close>

definition bt_first :: "('k, 'v) btree_map \<Rightarrow> ('k \<times> 'v) option" where
  "bt_first m = (case m of [] \<Rightarrow> None | e # _ \<Rightarrow> Some e)"

definition bt_last :: "('k, 'v) btree_map \<Rightarrow> ('k \<times> 'v) option" where
  "bt_last m = bt_first (rev m)"

lemma bt_first_None [simp]: "bt_first m = None \<longleftrightarrow> m = []"
  by (auto simp: bt_first_def split: list.splits)

lemma bt_last_None [simp]: "bt_last m = None \<longleftrightarrow> m = []"
  by (simp add: bt_last_def)

lemma bt_firstD:
  assumes "bt_wf m" and "bt_first m = Some (k, v)"
  shows "bt_get m k = Some v" and "bt_get m j \<noteq> None \<Longrightarrow> k \<le> j"
  using assms
  by (auto simp: bt_first_def bt_wf_Cons bt_get_mem split: list.splits if_splits
      dest!: map_of_SomeD)

lemma bt_lastD:
  assumes "bt_wf m" and "bt_last m = Some (k, v)"
  shows "bt_get m k = Some v" and "bt_get m j \<noteq> None \<Longrightarrow> j \<le> k"
proof -
  from assms(2) obtain xs where m: "m = xs @ [(k, v)]"
    by (auto simp: bt_last_def bt_first_def split: list.splits)
  with assms(1) have low: "\<forall>e \<in> set xs. fst e < k"
    by (auto simp: bt_wf_def sorted_wrt_append)
  then have "bt_get xs k = None"
    by (auto simp: map_of_eq_None_iff)
  with m show "bt_get m k = Some v"
    by (simp add: map_add_def)
  show "j \<le> k" if "bt_get m j \<noteq> None"
    using that m low by (auto simp: map_of_eq_None_iff split: if_splits)
qed

text \<open>The first key is the least one present: what identifies a level's head.\<close>

lemma bt_first_eqI:
  assumes "bt_wf m" and "bt_get m k = Some v" and "\<And>j. bt_get m j \<noteq> None \<Longrightarrow> k \<le> j"
  shows "bt_first m = Some (k, v)"
proof (cases "bt_first m")
  case None
  with assms(2) show ?thesis by simp
next
  case (Some e)
  obtain j w where e: "e = (j, w)" by (cases e)
  from bt_firstD [OF assms(1) Some [unfolded e]] assms(2) have "bt_get m j = Some w" and "j \<le> k"
    by auto
  with assms(3) [of j] assms(2) have "j = k" and "w = v"
    by auto
  with Some e show ?thesis by simp
qed

subsection \<open>BTreeSet\<close>

type_synonym 'a btree_set = "'a list"

definition bs_insert :: "'a::linorder \<Rightarrow> 'a btree_set \<Rightarrow> 'a btree_set" where
  "bs_insert x s = takeWhile (\<lambda>y. y < x) s @ x # filter (\<lambda>y. y \<noteq> x) (dropWhile (\<lambda>y. y < x) s)"

definition bs_remove :: "'a \<Rightarrow> 'a btree_set \<Rightarrow> 'a btree_set" where
  "bs_remove x s = filter (\<lambda>y. y \<noteq> x) s"

definition bs_wf :: "'a::linorder btree_set \<Rightarrow> bool" where
  "bs_wf s = sorted_wrt (<) s"

lemma set_bs_insert [simp]: "set (bs_insert x s) = insert x (set s)"
proof -
  have "set s = set (takeWhile (\<lambda>y. y < x) s) \<union> set (dropWhile (\<lambda>y. y < x) s)"
    by (metis set_append takeWhile_dropWhile_id)
  then show ?thesis
    by (auto simp: bs_insert_def)
qed

lemma set_bs_remove [simp]: "set (bs_remove x s) = set s - {x}"
  by (auto simp: bs_remove_def)

lemma bs_wf_insert [simp]: "bs_wf s \<Longrightarrow> bs_wf (bs_insert x s)"
proof -
  have map: "map fst (map (\<lambda>y. (y, ())) s) = s" for s :: "'a list"
    by (induction s) auto
  have *: "map fst (bt_insert x () (map (\<lambda>y. (y, ())) s)) = bs_insert x s" for s :: "'a list"
    by (auto simp: bt_insert_def bs_insert_def takeWhile_map dropWhile_map filter_map o_def map)
  assume "bs_wf s"
  then have "bt_wf (map (\<lambda>y. (y, ())) s)"
    by (simp only: bt_wf_def bs_wf_def map)
  then have "bt_wf (bt_insert x () (map (\<lambda>y. (y, ())) s))"
    by (rule bt_wf_insert)
  then show ?thesis
    by (simp only: bt_wf_def bs_wf_def *)
qed

lemma bs_wf_remove [simp]: "bs_wf s \<Longrightarrow> bs_wf (bs_remove x s)"
  by (simp add: bs_wf_def bs_remove_def sorted_wrt_filter)

end
