(* ===== verification/Client_Book.thy ===== *)
theory Client_Book
  imports Bnp_Frames BTree "HOL-Library.Product_Lexorder"
begin

text \<open>
  The client's view of a market, \<open>src/packages/bunting-client/src/book.rs\<close> and \<open>tape.rs\<close>: a
  \<open>FeedBook\<close> rebuilds a venue's visible book from one feed, a \<open>TapeBook\<close> follows an instrument's
  consolidated tape. Prices and quantities are the signed values of the wire's \<open>i64\<close>; report
  numbers are natural numbers with the saturation of \<open>saturating_add\<close>. A \<open>BTreeMap\<close> keyed by
  \<open>u64\<close> or \<open>u128\<close> is keyed by the word, whose order is the unsigned one.

  \<open>-previous.quantity\<close> overflows for the least \<open>i64\<close> only; \<open>i64_neg\<close> is the release build, which
  wraps.
\<close>

definition i64_saturating_add :: "int \<Rightarrow> int \<Rightarrow> int" where
  "i64_saturating_add a b = max (- (2 ^ 63)) (min (2 ^ 63 - 1) (a + b))"

definition i64_neg :: "int \<Rightarrow> int" where
  "i64_neg a = (if a = - (2 ^ 63) then a else - a)"

definition u64_saturating_add :: "nat \<Rightarrow> nat \<Rightarrow> nat" where
  "u64_saturating_add a b = min (a + b) (2 ^ 64 - 1)"

subsection \<open>The book of one feed\<close>

datatype feed_error = NoSnapshot | Gap nat nat | WrongFeed

record feed_book =
  fb_request_id :: u32
  fb_listing :: "listing option"
  fb_bids :: "(int, int) btree_map"
  fb_asks :: "(int, int) btree_map"
  fb_next_report :: "nat option"
  fb_trades :: "(int \<times> int) list"
  fb_orders :: "(u64, book_order) btree_map"
  fb_assembling :: bool

record queued_order =
  qo_reference :: u64
  qo_side :: side
  qo_price :: int
  qo_quantity :: int
  qo_broker :: "u128 option"
  qo_quantity_ahead :: int
  qo_position_at_price :: nat

definition MAX_TRADES :: nat where
  "MAX_TRADES = 1024"

definition feed_book_new :: "u32 \<Rightarrow> feed_book" where
  "feed_book_new request_id =
     \<lparr>fb_request_id = request_id, fb_listing = None, fb_bids = [], fb_asks = [], fb_next_report = None,
      fb_trades = [], fb_orders = [], fb_assembling = False\<rparr>"

text \<open>\<open>collect\<close> into a \<open>BTreeMap\<close>: a later pair with the same key wins.\<close>

definition collect_levels :: "level list \<Rightarrow> (int, int) btree_map" where
  "collect_levels levels = fold (\<lambda>l. bt_insert (sint (lv_price l)) (sint (lv_quantity l))) levels []"

definition continues :: "listing \<Rightarrow> nat \<Rightarrow> nat \<Rightarrow> feed_book \<Rightarrow> (feed_book, feed_error) result" where
  "continues listing first_report entries b =
     (case fb_next_report b of
       None \<Rightarrow> Err NoSnapshot
     | Some expected \<Rightarrow>
         if fb_listing b \<noteq> Some listing then Err WrongFeed
         else if first_report \<noteq> expected then Err (Gap expected first_report)
         else Ok (b \<lparr>fb_next_report := Some (u64_saturating_add expected entries)\<rparr>))"

definition push_trade :: "'t \<Rightarrow> 't list \<Rightarrow> 't list" where
  "push_trade t trades = (if length trades \<ge> MAX_TRADES then drop 1 trades else trades) @ [t]"

definition feed_record_trade :: "int \<Rightarrow> int \<Rightarrow> feed_book \<Rightarrow> feed_book" where
  "feed_record_trade price quantity b = b \<lparr>fb_trades := push_trade (price, quantity) (fb_trades b)\<rparr>"

definition fb_levels :: "side \<Rightarrow> feed_book \<Rightarrow> (int, int) btree_map" where
  "fb_levels side b = (case side of Buy \<Rightarrow> fb_bids b | Sell \<Rightarrow> fb_asks b)"

definition set_levels :: "side \<Rightarrow> (int, int) btree_map \<Rightarrow> feed_book \<Rightarrow> feed_book" where
  "set_levels side levels b = (case side of Buy \<Rightarrow> b \<lparr>fb_bids := levels\<rparr> | Sell \<Rightarrow> b \<lparr>fb_asks := levels\<rparr>)"

definition adjust_level :: "side \<Rightarrow> int \<Rightarrow> int \<Rightarrow> feed_book \<Rightarrow> feed_book" where
  "adjust_level side price delta b =
     (let levels = fb_levels side b;
          before = (case bt_get levels price of Some q \<Rightarrow> q | None \<Rightarrow> 0);
          quantity = i64_saturating_add before delta in
      if quantity \<le> 0 then set_levels side (bt_remove price levels) b
      else set_levels side (bt_insert price quantity levels) b)"

definition add_order :: "book_order \<Rightarrow> feed_book \<Rightarrow> feed_book" where
  "add_order order b =
     (let b' = b \<lparr>fb_orders := bt_insert (bo_reference order) order (fb_orders b)\<rparr>;
          b'' = (case bt_get (fb_orders b) (bo_reference order) of
                   Some previous \<Rightarrow>
                     adjust_level (bo_side previous) (sint (bo_price previous)) (i64_neg (sint (bo_quantity previous))) b'
                 | None \<Rightarrow> b') in
      adjust_level (bo_side order) (sint (bo_price order)) (sint (bo_quantity order)) b'')"

definition apply_order_entry :: "order_entry \<Rightarrow> feed_book \<Rightarrow> feed_book" where
  "apply_order_entry e b =
     (case e of
       OrderEntryTrade price quantity _ _ _ \<Rightarrow> feed_record_trade (sint price) (sint quantity) b
     | OrderEntryOrder action side reference price quantity broker \<Rightarrow>
         if action = ActionDelete then
           (case bt_get (fb_orders b) reference of
             None \<Rightarrow> b
           | Some order \<Rightarrow>
               adjust_level (bo_side order) (sint (bo_price order)) (i64_neg (sint (bo_quantity order)))
                 (b \<lparr>fb_orders := bt_remove reference (fb_orders b)\<rparr>))
         else
           add_order \<lparr>bo_side = side, bo_reference = reference, bo_price = price, bo_quantity = quantity,
             bo_broker = broker, bo_queue_position = 0\<rparr> b)"

definition apply_entry :: "entry \<Rightarrow> feed_book \<Rightarrow> feed_book" where
  "apply_entry e b =
     (if en_kind e = EntryTrade then feed_record_trade (sint (en_price e)) (sint (en_quantity e)) b
      else
        (let side = (if en_kind e = EntryBid then Buy else Sell);
             levels = fb_levels side b in
         if en_quantity e = 0 then set_levels side (bt_remove (sint (en_price e)) levels) b
         else set_levels side (bt_insert (sint (en_price e)) (sint (en_quantity e)) levels) b))"

definition start_orders :: "listing \<Rightarrow> feed_book \<Rightarrow> feed_book" where
  "start_orders listing b =
     (if \<not> fb_assembling b \<or> fb_listing b \<noteq> Some listing then
        b \<lparr>fb_listing := Some listing, fb_orders := [], fb_bids := [], fb_asks := [], fb_trades := [],
           fb_next_report := None\<rparr>
      else b)"

definition feed_apply :: "server_message \<Rightarrow> feed_book \<Rightarrow> (bool, feed_error) result \<times> feed_book" where
  "feed_apply message b =
     (case message of
       MarketSnapshot request_id listing next_report bids asks \<Rightarrow>
         if request_id = fb_request_id b then
           (Ok True, b \<lparr>fb_listing := Some listing, fb_bids := collect_levels bids, fb_asks := collect_levels asks,
              fb_next_report := Some (unat next_report), fb_trades := [], fb_orders := [], fb_assembling := False\<rparr>)
         else (Ok False, b)
     | MarketUpdate request_id listing first_report entries \<Rightarrow>
         if request_id = fb_request_id b then
           (case continues listing (unat first_report) (length entries) b of
             Inl e \<Rightarrow> (Err e, b)
           | Inr b' \<Rightarrow> (Ok True, fold apply_entry entries b'))
         else (Ok False, b)
     | OrderSnapshot request_id listing next_report complete orders \<Rightarrow>
         if request_id = fb_request_id b then
           (let b' = (fold add_order orders (start_orders listing b)) \<lparr>fb_assembling := \<not> complete\<rparr> in
            (Ok True, if complete then b' \<lparr>fb_next_report := Some (unat next_report)\<rparr> else b'))
         else (Ok False, b)
     | OrderUpdate request_id listing first_report entries \<Rightarrow>
         if request_id = fb_request_id b then
           (case continues listing (unat first_report) (length entries) b of
             Inl e \<Rightarrow> (Err e, b)
           | Inr b' \<Rightarrow> (Ok True, fold apply_order_entry entries b'))
         else (Ok False, b)
     | _ \<Rightarrow> (Ok False, b))"

definition is_ready :: "feed_book \<Rightarrow> bool" where
  "is_ready b \<longleftrightarrow> fb_next_report b \<noteq> None"

text \<open>\<open>bids\<close>, \<open>asks\<close>, \<open>best_bid\<close> and \<open>best_ask\<close>, as pairs of price and quantity.\<close>

definition feed_bids :: "feed_book \<Rightarrow> (int \<times> int) list" where
  "feed_bids b = rev (fb_bids b)"

definition feed_asks :: "feed_book \<Rightarrow> (int \<times> int) list" where
  "feed_asks b = fb_asks b"

definition feed_best_bid :: "feed_book \<Rightarrow> (int \<times> int) option" where
  "feed_best_bid b = bt_last (fb_bids b)"

definition feed_best_ask :: "feed_book \<Rightarrow> (int \<times> int) option" where
  "feed_best_ask b = bt_first (fb_asks b)"

definition priority_key :: "side \<Rightarrow> book_order \<Rightarrow> int \<times> u64" where
  "priority_key side order =
     ((case side of Buy \<Rightarrow> - sint (bo_price order) | Sell \<Rightarrow> sint (bo_price order)), bo_reference order)"

text \<open>The loop of \<open>orders\<close>, with its mutable \<open>price\<close>, \<open>ahead\<close> and \<open>position\<close>.\<close>

fun queue_loop :: "int option \<Rightarrow> int \<Rightarrow> nat \<Rightarrow> book_order list \<Rightarrow> queued_order list" where
  "queue_loop price ahead place [] = []"
| "queue_loop price ahead place (order # orders) =
     (let p = sint (bo_price order);
          (ahead, place) = (if price \<noteq> Some p then (0, 0) else (ahead, place)) in
      \<lparr>qo_reference = bo_reference order, qo_side = bo_side order, qo_price = p,
        qo_quantity = sint (bo_quantity order), qo_broker = bo_broker order, qo_quantity_ahead = ahead,
        qo_position_at_price = Suc place\<rparr>
      # queue_loop (Some p) (i64_saturating_add ahead (sint (bo_quantity order))) (Suc place) orders)"

definition queue_orders :: "side \<Rightarrow> feed_book \<Rightarrow> book_order list" where
  "queue_orders side b = sort_key (priority_key side) (filter (\<lambda>order. bo_side order = side) (map snd (fb_orders b)))"

definition feed_orders :: "side \<Rightarrow> feed_book \<Rightarrow> queued_order list" where
  "feed_orders side b = queue_loop None 0 0 (queue_orders side b)"

definition feed_order :: "u64 \<Rightarrow> feed_book \<Rightarrow> queued_order option" where
  "feed_order reference b =
     (case bt_get (fb_orders b) reference of
       None \<Rightarrow> None
     | Some order \<Rightarrow> find (\<lambda>q. qo_reference q = reference) (feed_orders (bo_side order) b))"

subsection \<open>The consolidated tape\<close>

record tape_trade =
  tt_venue_id :: u128
  tt_price :: int
  tt_quantity :: int

text \<open>The key \<open>(u128, Side)\<close> is ordered by venue and then \<open>Buy\<close> before \<open>Sell\<close>; \<open>side_rank\<close> is the derived order of \<open>Side\<close>.\<close>

definition side_rank :: "side \<Rightarrow> nat" where
  "side_rank side = (case side of Buy \<Rightarrow> 0 | Sell \<Rightarrow> 1)"

record tape_book =
  tb_request_id :: u32
  tb_instrument_id :: "u128 option"
  tb_quotes :: "(u128 \<times> nat, int \<times> int) btree_map"
  tb_next_report :: "nat option"
  tb_trades :: "tape_trade list"

definition tape_book_new :: "u32 \<Rightarrow> tape_book" where
  "tape_book_new request_id =
     \<lparr>tb_request_id = request_id, tb_instrument_id = None, tb_quotes = [], tb_next_report = None, tb_trades = []\<rparr>"

definition collect_quotes :: "tape_quote list \<Rightarrow> (u128 \<times> nat, int \<times> int) btree_map" where
  "collect_quotes quotes =
     fold (\<lambda>q. bt_insert (tq_venue_id q, side_rank (tq_side q)) (sint (tq_price q), sint (tq_quantity q))) quotes []"

definition apply_tape_entry :: "tape_entry \<Rightarrow> tape_book \<Rightarrow> tape_book" where
  "apply_tape_entry e t =
     (if te_kind e = EntryTrade then
        t \<lparr>tb_trades := push_trade
            \<lparr>tt_venue_id = te_venue_id e, tt_price = sint (te_price e), tt_quantity = sint (te_quantity e)\<rparr> (tb_trades t)\<rparr>
      else
        (let key = (te_venue_id e, side_rank (if te_kind e = EntryBid then Buy else Sell)) in
         if te_quantity e = 0 then t \<lparr>tb_quotes := bt_remove key (tb_quotes t)\<rparr>
         else t \<lparr>tb_quotes := bt_insert key (sint (te_price e), sint (te_quantity e)) (tb_quotes t)\<rparr>))"

definition tape_apply :: "server_message \<Rightarrow> tape_book \<Rightarrow> (bool, feed_error) result \<times> tape_book" where
  "tape_apply message t =
     (case message of
       TapeSnapshot request_id instrument_id last_report quotes \<Rightarrow>
         if request_id = tb_request_id t then
           (Ok True, t \<lparr>tb_instrument_id := Some instrument_id, tb_quotes := collect_quotes quotes,
              tb_next_report := Some (u64_saturating_add (unat last_report) 1), tb_trades := []\<rparr>)
         else (Ok False, t)
     | TapeUpdate request_id instrument_id first_report entries \<Rightarrow>
         if request_id = tb_request_id t then
           (case tb_next_report t of
             None \<Rightarrow> (Err NoSnapshot, t)
           | Some expected \<Rightarrow>
               if tb_instrument_id t \<noteq> Some instrument_id then (Err WrongFeed, t)
               else if unat first_report \<noteq> expected then (Err (Gap expected (unat first_report)), t)
               else (Ok True, (fold apply_tape_entry entries t)
                 \<lparr>tb_next_report := Some (u64_saturating_add expected (length entries))\<rparr>))
         else (Ok False, t)
     | _ \<Rightarrow> (Ok False, t))"

definition tape_quote_at :: "u128 \<Rightarrow> side \<Rightarrow> tape_book \<Rightarrow> (int \<times> int) option" where
  "tape_quote_at venue_id side t = bt_get (tb_quotes t) (venue_id, side_rank side)"

definition quote_key :: "side \<Rightarrow> u128 \<times> int \<times> int \<Rightarrow> int \<times> u128" where
  "quote_key side q =
     (case q of (venue_id, price, _) \<Rightarrow> ((case side of Buy \<Rightarrow> - price | Sell \<Rightarrow> price), venue_id))"

definition tape_quotes :: "side \<Rightarrow> tape_book \<Rightarrow> (u128 \<times> int \<times> int) list" where
  "tape_quotes side t =
     sort_key (quote_key side)
       (map (\<lambda>((venue_id, _), level). (venue_id, level))
         (filter (\<lambda>((_, quote_side), _). quote_side = side_rank side) (tb_quotes t)))"

definition tape_best :: "side \<Rightarrow> tape_book \<Rightarrow> (u128 \<times> int \<times> int) option" where
  "tape_best side t = (case tape_quotes side t of [] \<Rightarrow> None | q # _ \<Rightarrow> Some q)"

end
