(* ===== verification/Client_Laws.thy ===== *)
theory Client_Laws
  imports Client_Book "HOL-Library.Multiset"
begin

text \<open>
  What a client may rely on. A feed either continues without a gap or says so (locale
  \<open>numbered_feed\<close>, interpreted on both kinds of venue feed and on the tape); on an
  order-by-order feed the price levels are the sums of the displayed orders, and the place a
  book reports for an order is its place in the queue of its price.
\<close>

subsection \<open>Numbered feeds\<close>

text \<open>A client's loop over the messages it receives: apply each, stop at the first error.\<close>

fun apply_all :: "('m \<Rightarrow> 'b \<Rightarrow> (bool, feed_error) result \<times> 'b) \<Rightarrow> 'm list \<Rightarrow> 'b \<Rightarrow> (unit, feed_error) result \<times> 'b" where
  "apply_all f [] b = (Ok (), b)"
| "apply_all f (m # ms) b = (case f m b of (Inl e, b') \<Rightarrow> (Err e, b') | (Inr _, b') \<Rightarrow> apply_all f ms b')"

locale numbered_feed =
  fixes next_of :: "'b \<Rightarrow> nat option"
    and content :: "'b \<Rightarrow> 'c"
    and change :: "'e \<Rightarrow> 'c \<Rightarrow> 'c"
    and update :: "u64 \<times> 'e list \<Rightarrow> 'm"
    and apply_one :: "'m \<Rightarrow> 'b \<Rightarrow> (bool, feed_error) result \<times> 'b"
  assumes update_True: "apply_one (update (n, es)) b = (Ok True, b') \<Longrightarrow>
      next_of b = Some (unat n) \<and> next_of b' = Some (u64_saturating_add (unat n) (length es))
      \<and> content b' = fold change es (content b)"
    and update_other: "apply_one (update (n, es)) b = (r, b') \<Longrightarrow> r \<noteq> Ok True \<Longrightarrow> b' = b"
begin

lemma exact_or_detected:
  assumes "apply_all apply_one (map update us) b = (Ok u, b')" "next_of b = Some n0"
    and "\<forall>(n, es) \<in> set us. es = map stream [unat n..<unat n + length es]"
    and "n0 + (\<Sum>(n, es) \<leftarrow> us. length es) < 2 ^ 64"
  shows "\<exists>n. n0 \<le> n \<and> next_of b' = Some n \<and> content b' = fold change (map stream [n0..<n]) (content b)"
  using assms
proof (induction us arbitrary: b n0)
  case (Cons x us)
  obtain n es where x: "x = (n, es)"
    by (cases x)
  obtain r b1 where b1: "apply_one (update (n, es)) b = (Ok r, b1)"
    and us: "apply_all apply_one (map update us) b1 = (Ok u, b')"
    using Cons.prems(1) by (auto simp: x split: prod.splits sum.splits)
  show ?case
  proof (cases r)
    case False
    then have "b1 = b"
      using update_other [OF b1] by simp
    with Cons.IH [OF us] Cons.prems show ?thesis
      by (simp add: x)
  next
    case True
    let ?n1 = "n0 + length es"
    have b1': "apply_one (update (n, es)) b = (Ok True, b1)"
      using b1 True by simp
    have n: "unat n = n0" and next1: "next_of b1 = Some ?n1" and c1: "content b1 = fold change es (content b)"
      using update_True [OF b1'] Cons.prems(2,4) by (auto simp: u64_saturating_add_def x)
    then have es: "es = map stream [n0..<?n1]"
      using Cons.prems(3) by (simp add: x)
    obtain k where k: "?n1 \<le> k" "next_of b' = Some k" "content b' = fold change (map stream [?n1..<k]) (content b1)"
      using Cons.IH [OF us next1] Cons.prems(3,4) by (auto simp: x)
    have "[n0..<k] = [n0..<?n1] @ [?n1..<k]"
      using k(1) upt_add_eq_append [of n0 ?n1 "k - ?n1"] by simp
    then have "fold change (map stream [n0..<k]) (content b) = content b'"
      by (simp add: k(3) c1 flip: es)
    then show ?thesis
      using k by (intro exI [of _ k]) simp
  qed
qed simp

end

text \<open>The content of a book is all but its report number, which no entry touches.\<close>

abbreviation no_report :: "feed_book \<Rightarrow> feed_book" where
  "no_report b \<equiv> b \<lparr>fb_next_report := None\<rparr>"

lemmas level_ops = feed_record_trade_def adjust_level_def set_levels_def fb_levels_def Let_def

lemma adjust_level_report: "adjust_level s p d (b \<lparr>fb_next_report := x\<rparr>) = (adjust_level s p d b) \<lparr>fb_next_report := x\<rparr>"
  by (cases s) (simp_all add: level_ops)

lemma apply_entry_report: "apply_entry e (b \<lparr>fb_next_report := x\<rparr>) = (apply_entry e b) \<lparr>fb_next_report := x\<rparr>"
  by (simp add: apply_entry_def level_ops split: side.splits)

lemma add_order_report: "add_order e (b \<lparr>fb_next_report := x\<rparr>) = (add_order e b) \<lparr>fb_next_report := x\<rparr>"
proof -
  have "adjust_level s p d (b \<lparr>fb_next_report := x, fb_orders := os\<rparr>)
     = (adjust_level s p d (b \<lparr>fb_orders := os\<rparr>)) \<lparr>fb_next_report := x\<rparr>" for s p d os
    by (cases s) (simp_all add: level_ops)
  then show ?thesis
    by (auto simp: add_order_def Let_def adjust_level_report split: option.split)
qed

lemma apply_order_entry_report:
  "apply_order_entry e (b \<lparr>fb_next_report := x\<rparr>) = (apply_order_entry e b) \<lparr>fb_next_report := x\<rparr>"
proof (cases e)
  case (OrderEntryTrade price quantity resting_reference buyer seller)
  then show ?thesis
    by (simp add: apply_order_entry_def feed_record_trade_def)
next
  case (OrderEntryOrder action side reference price quantity broker)
  have "adjust_level s p d (b \<lparr>fb_next_report := x, fb_orders := os\<rparr>)
     = (adjust_level s p d (b \<lparr>fb_orders := os\<rparr>)) \<lparr>fb_next_report := x\<rparr>" for s p d os
    by (cases s) (simp_all add: level_ops)
  then show ?thesis
    by (auto simp: OrderEntryOrder apply_order_entry_def add_order_report adjust_level_report split: option.split)
qed

lemma fold_report:
  assumes "\<And>e b x. f e (b \<lparr>fb_next_report := x\<rparr>) = (f e b) \<lparr>fb_next_report := x\<rparr>"
  shows "fold f es (b \<lparr>fb_next_report := x\<rparr>) = (fold f es b) \<lparr>fb_next_report := x\<rparr>"
  by (induction es arbitrary: b) (simp_all add: assms)

lemma continues_cases:
  "continues l n k b = Ok b' \<longleftrightarrow>
     fb_next_report b = Some n \<and> fb_listing b = Some l \<and> b' = b \<lparr>fb_next_report := Some (u64_saturating_add n k)\<rparr>"
  by (auto simp: continues_def split: option.splits)

interpretation market_feed: numbered_feed fb_next_report no_report apply_entry
  "\<lambda>(n, es). MarketUpdate r l n es" feed_apply for r l
proof
  fix n es b b' res
  show "feed_apply (case (n, es) of (n, es) \<Rightarrow> MarketUpdate r l n es) b = (Ok True, b') \<Longrightarrow>
      fb_next_report b = Some (unat n) \<and> fb_next_report b' = Some (u64_saturating_add (unat n) (length es))
      \<and> no_report b' = fold apply_entry es (no_report b)"
    by (auto simp: feed_apply_def continues_cases fold_report [OF apply_entry_report] split: if_splits sum.splits)
  show "feed_apply (case (n, es) of (n, es) \<Rightarrow> MarketUpdate r l n es) b = (res, b') \<Longrightarrow> res \<noteq> Ok True \<Longrightarrow> b' = b"
    by (auto simp: feed_apply_def split: if_splits sum.splits)
qed

interpretation order_feed: numbered_feed fb_next_report no_report apply_order_entry
  "\<lambda>(n, es). OrderUpdate r l n es" feed_apply for r l
proof
  fix n es b b' res
  show "feed_apply (case (n, es) of (n, es) \<Rightarrow> OrderUpdate r l n es) b = (Ok True, b') \<Longrightarrow>
      fb_next_report b = Some (unat n) \<and> fb_next_report b' = Some (u64_saturating_add (unat n) (length es))
      \<and> no_report b' = fold apply_order_entry es (no_report b)"
    by (auto simp: feed_apply_def continues_cases fold_report [OF apply_order_entry_report] split: if_splits sum.splits)
  show "feed_apply (case (n, es) of (n, es) \<Rightarrow> OrderUpdate r l n es) b = (res, b') \<Longrightarrow> res \<noteq> Ok True \<Longrightarrow> b' = b"
    by (auto simp: feed_apply_def split: if_splits sum.splits)
qed

lemma tape_entry_report:
  "fold apply_tape_entry es (t \<lparr>tb_next_report := x\<rparr>) = (fold apply_tape_entry es t) \<lparr>tb_next_report := x\<rparr>"
proof (induction es arbitrary: t)
  case (Cons e es)
  have "apply_tape_entry e (t \<lparr>tb_next_report := x\<rparr>) = (apply_tape_entry e t) \<lparr>tb_next_report := x\<rparr>"
    by (simp add: apply_tape_entry_def Let_def)
  with Cons show ?case
    by simp
qed simp

interpretation tape_feed: numbered_feed tb_next_report "\<lambda>t. t \<lparr>tb_next_report := None\<rparr>" apply_tape_entry
  "\<lambda>(n, es). TapeUpdate r i n es" tape_apply for r i
proof
  fix n es t t' res
  show "tape_apply (case (n, es) of (n, es) \<Rightarrow> TapeUpdate r i n es) t = (Ok True, t') \<Longrightarrow>
      tb_next_report t = Some (unat n) \<and> tb_next_report t' = Some (u64_saturating_add (unat n) (length es))
      \<and> t' \<lparr>tb_next_report := None\<rparr> = fold apply_tape_entry es (t \<lparr>tb_next_report := None\<rparr>)"
    by (auto simp: tape_apply_def tape_entry_report split: if_splits option.splits)
  show "tape_apply (case (n, es) of (n, es) \<Rightarrow> TapeUpdate r i n es) t = (res, t') \<Longrightarrow> res \<noteq> Ok True \<Longrightarrow> t' = t"
    by (auto simp: tape_apply_def split: if_splits option.splits)
qed

subsection \<open>Levels are the sums of the displayed orders\<close>

definition shown :: "book_order \<Rightarrow> side \<Rightarrow> int \<Rightarrow> int" where
  "shown x side p = (if bo_side x = side \<and> sint (bo_price x) = p then sint (bo_quantity x) else 0)"

definition displayed :: "(u64, book_order) btree_map \<Rightarrow> side \<Rightarrow> int \<Rightarrow> int" where
  "displayed orders side p = (\<Sum>(r, x) \<leftarrow> orders. shown x side p)"

definition level_of :: "int \<Rightarrow> int option" where
  "level_of q = (if q = 0 then None else Some q)"

text \<open>Levels \<open>b\<close> shows the amounts \<open>g\<close>.\<close>

definition shows_levels :: "feed_book \<Rightarrow> (side \<Rightarrow> int \<Rightarrow> int) \<Rightarrow> bool" where
  "shows_levels b g \<longleftrightarrow> bt_wf (fb_bids b) \<and> bt_wf (fb_asks b)
     \<and> (\<forall>side p. bt_get (fb_levels side b) p = level_of (g side p))"

lemma adjust_level_shows:
  assumes "shows_levels b g" "0 \<le> g side p + d" "g side p + d < 2 ^ 63"
  shows "shows_levels (adjust_level side p d b) (g(side := (g side)(p := g side p + d)))"
proof -
  have before: "(case bt_get (fb_levels side b) p of Some q \<Rightarrow> q | None \<Rightarrow> 0) = g side p"
    using assms(1) by (auto simp: shows_levels_def level_of_def)
  have "i64_saturating_add (g side p) d = g side p + d"
    using assms(2,3) by (simp add: i64_saturating_add_def)
  then show ?thesis
    using assms(1,2)
    by (cases side) (auto simp: adjust_level_def Let_def before shows_levels_def set_levels_def fb_levels_def level_of_def
      split: side.splits)
qed

lemma adjust_level_orders [simp]: "fb_orders (adjust_level side p d b) = fb_orders b"
  by (cases side) (simp_all add: level_ops)

lemma displayed_insert:
  "bt_wf orders \<Longrightarrow> displayed (bt_insert r x orders) side p =
     displayed orders side p - (case bt_get orders r of None \<Rightarrow> 0 | Some w \<Rightarrow> shown w side p) + shown x side p"
  unfolding displayed_def by (rule bt.sum_ins [of _ "\<lambda>_ x. shown x side p"])

lemma displayed_remove:
  "bt_wf orders \<Longrightarrow> displayed (bt_remove r orders) side p =
     displayed orders side p - (case bt_get orders r of None \<Rightarrow> 0 | Some w \<Rightarrow> shown w side p)"
  unfolding displayed_def by (rule bt.sum_del [of _ "\<lambda>_ x. shown x side p"])

text \<open>Orders by their reference, each displaying something.\<close>

definition orders_ok :: "(u64, book_order) btree_map \<Rightarrow> bool" where
  "orders_ok orders \<longleftrightarrow> bt_wf orders \<and> (\<forall>(r, x) \<in> set orders. bo_reference x = r \<and> 0 < sint (bo_quantity x))"

definition fits :: "(u64, book_order) btree_map \<Rightarrow> bool" where
  "fits orders \<longleftrightarrow> (\<forall>side p. displayed orders side p < 2 ^ 63)"

lemma orders_ok_get: "orders_ok orders \<Longrightarrow> bt_get orders r = Some x \<Longrightarrow> bo_reference x = r \<and> 0 < sint (bo_quantity x)"
  by (auto simp: orders_ok_def dest!: map_of_SomeD)

lemma orders_ok_remove: "orders_ok orders \<Longrightarrow> orders_ok (bt_remove r orders)"
  by (auto simp: orders_ok_def bt_remove_def sorted_wrt_map bt_wf_def sorted_wrt_filter)

lemma orders_ok_insert:
  "orders_ok orders \<Longrightarrow> 0 < sint (bo_quantity x) \<Longrightarrow> orders_ok (bt_insert (bo_reference x) x orders)"
  using set_bt_insert [of "bo_reference x" x orders] by (fastforce simp: orders_ok_def)

lemma displayed_nonneg: "orders_ok orders \<Longrightarrow> 0 \<le> displayed orders side p"
  by (auto simp: displayed_def orders_ok_def shown_def intro!: sum_list_nonneg) force

definition levels_match :: "feed_book \<Rightarrow> bool" where
  "levels_match b \<longleftrightarrow> orders_ok (fb_orders b) \<and> fits (fb_orders b) \<and> shows_levels b (displayed (fb_orders b))"

lemma shown_upd: "(displayed os)(side := (displayed os side)(p := displayed os side p + d)) =
    (\<lambda>s q. displayed os s q + (if s = side \<and> q = p then d else 0))"
  by (auto simp: fun_eq_iff)

lemma i64_neg_pos: "0 < a \<Longrightarrow> i64_neg a = - a"
  by (simp add: i64_neg_def)

text \<open>Taking an order away.\<close>

lemma withdraw_shows:
  assumes "orders_ok os" "fits os" "shows_levels b (displayed os)" "bt_get os r = Some x"
  shows "shows_levels (adjust_level (bo_side x) (sint (bo_price x)) (i64_neg (sint (bo_quantity x))) b) (displayed (bt_remove r os))"
proof -
  let ?s = "bo_side x" and ?p = "sint (bo_price x)" and ?q = "sint (bo_quantity x)"
  have wf: "bt_wf os"
    using assms(1) by (simp add: orders_ok_def)
  have q: "0 < ?q"
    using orders_ok_get [OF assms(1,4)] by simp
  have rm: "displayed (bt_remove r os) = (\<lambda>s q. displayed os s q + (if s = ?s \<and> q = ?p then - ?q else 0))"
    by (auto simp: fun_eq_iff displayed_remove [OF wf] assms(4) shown_def)
  have low: "0 \<le> displayed os ?s ?p + - ?q"
    using displayed_nonneg [OF orders_ok_remove [OF assms(1)], of r ?s ?p] by (simp add: rm)
  have high: "displayed os ?s ?p + - ?q < 2 ^ 63"
    using assms(2) [unfolded fits_def, THEN spec, THEN spec, of ?s ?p] q by linarith
  from adjust_level_shows [OF assms(3) low high] show ?thesis
    by (simp only: shown_upd rm i64_neg_pos [OF q])
qed

text \<open>Showing a new order.\<close>

lemma deposit_shows:
  assumes "orders_ok os" "shows_levels b (displayed os)" "bt_get os (bo_reference x) = None" "0 < sint (bo_quantity x)"
    and "fits (bt_insert (bo_reference x) x os)"
  shows "shows_levels (adjust_level (bo_side x) (sint (bo_price x)) (sint (bo_quantity x)) b)
    (displayed (bt_insert (bo_reference x) x os))"
proof -
  let ?s = "bo_side x" and ?p = "sint (bo_price x)" and ?q = "sint (bo_quantity x)"
  have wf: "bt_wf os"
    using assms(1) by (simp add: orders_ok_def)
  have ins: "displayed (bt_insert (bo_reference x) x os) = (\<lambda>s q. displayed os s q + (if s = ?s \<and> q = ?p then ?q else 0))"
    by (auto simp: fun_eq_iff displayed_insert [OF wf] assms(3) shown_def)
  have low: "0 \<le> displayed os ?s ?p + ?q"
    using displayed_nonneg [OF assms(1), of ?s ?p] assms(4) by simp
  have high: "displayed os ?s ?p + ?q < 2 ^ 63"
    using assms(5) [unfolded fits_def, THEN spec, THEN spec, of ?s ?p] by (simp add: ins)
  from adjust_level_shows [OF assms(2) low high] show ?thesis
    by (simp only: shown_upd ins)
qed

lemma shows_levels_orders [simp]: "shows_levels (b \<lparr>fb_orders := os\<rparr>) g = shows_levels b g"
  by (simp add: shows_levels_def fb_levels_def split: side.splits)

lemma add_order_match:
  assumes "levels_match b" "0 < sint (bo_quantity x)" "fits (bt_insert (bo_reference x) x (fb_orders b))"
  shows "levels_match (add_order x b)"
proof -
  let ?r = "bo_reference x" and ?os = "fb_orders b"
  let ?os' = "bt_insert ?r x ?os"
  note ok = assms(1) [unfolded levels_match_def]
  have wf: "bt_wf ?os"
    using ok by (simp add: orders_ok_def)
  have "bt_insert ?r x (bt_remove ?r ?os) = ?os'"
    using wf by (intro bt_ext) auto
  moreover have "orders_ok (bt_remove ?r ?os)"
    using ok orders_ok_remove by blast
  ultimately have dep: "shows_levels b1 (displayed (bt_remove ?r ?os)) \<Longrightarrow>
      shows_levels (adjust_level (bo_side x) (sint (bo_price x)) (sint (bo_quantity x)) b1) (displayed ?os')" for b1
    using deposit_shows [of "bt_remove ?r ?os" b1 x] assms(2,3) by simp
  have "shows_levels (add_order x b) (displayed ?os')"
  proof (cases "bt_get ?os ?r")
    case None
    then have "bt_remove ?r ?os = ?os"
      using wf by (intro bt_ext) auto
    then show ?thesis
      using dep [of "b \<lparr>fb_orders := ?os'\<rparr>"] ok by (simp add: add_order_def None)
  next
    case (Some w)
    then show ?thesis
      using dep withdraw_shows [of ?os "b \<lparr>fb_orders := ?os'\<rparr>" ?r w] ok by (simp add: add_order_def)
  qed
  moreover have "fb_orders (add_order x b) = ?os'"
    by (simp add: add_order_def Let_def split: option.split)
  ultimately show ?thesis
    using ok assms orders_ok_insert by (simp add: levels_match_def)
qed

lemma apply_order_entry_match:
  assumes "levels_match b"
    and "\<And>action side r p q broker. e = OrderEntryOrder action side r p q broker \<Longrightarrow> action \<noteq> ActionDelete \<Longrightarrow> 0 < sint q"
    and "fits (fb_orders (apply_order_entry e b))"
  shows "levels_match (apply_order_entry e b)"
proof (cases e)
  case (OrderEntryTrade price quantity resting_reference buyer seller)
  with assms(1) show ?thesis
    by (simp add: apply_order_entry_def feed_record_trade_def levels_match_def shows_levels_def fb_levels_def split: side.splits)
next
  case (OrderEntryOrder action side r price quantity broker)
  show ?thesis
  proof (cases "action = ActionDelete")
    case True
    show ?thesis
    proof (cases "bt_get (fb_orders b) r")
      case None
      with True assms(1) show ?thesis
        by (simp add: apply_order_entry_def OrderEntryOrder)
    next
      case (Some x)
      with True assms show ?thesis
        using withdraw_shows [of "fb_orders b" "b \<lparr>fb_orders := bt_remove r (fb_orders b)\<rparr>" r x] orders_ok_remove
        by (simp add: apply_order_entry_def OrderEntryOrder levels_match_def)
    qed
  next
    case False
    let ?x = "\<lparr>bo_side = side, bo_reference = r, bo_price = price, bo_quantity = quantity,
             bo_broker = broker, bo_queue_position = 0\<rparr>"
    have "apply_order_entry e b = add_order ?x b"
      using False by (simp add: apply_order_entry_def OrderEntryOrder)
    moreover have "fb_orders (add_order ?x b) = bt_insert r ?x (fb_orders b)"
      by (simp add: add_order_def Let_def split: option.split)
    ultimately show ?thesis
      using add_order_match [OF assms(1), of ?x] assms(2) [OF OrderEntryOrder False] assms(3) by simp
  qed
qed

text \<open>
  What a venue keeps of its order-by-order feed: an order shown has a positive quantity, and the
  amount displayed at a price fits an \<open>i64\<close> after every entry.
\<close>

definition entry_ok :: "order_entry \<Rightarrow> bool" where
  "entry_ok e =
     (case e of OrderEntryTrade _ _ _ _ _ \<Rightarrow> True
      | OrderEntryOrder action _ _ _ q _ \<Rightarrow> action = ActionDelete \<or> 0 < sint q)"

fun entries_ok :: "order_entry list \<Rightarrow> feed_book \<Rightarrow> bool" where
  "entries_ok [] b = True"
| "entries_ok (e # es) b =
     (entry_ok e \<and> fits (fb_orders (apply_order_entry e b)) \<and> entries_ok es (apply_order_entry e b))"

fun puts_ok :: "book_order list \<Rightarrow> feed_book \<Rightarrow> bool" where
  "puts_ok [] b = True"
| "puts_ok (x # xs) b =
     (0 < sint (bo_quantity x) \<and> fits (fb_orders (add_order x b)) \<and> puts_ok xs (add_order x b))"

definition venue_ok :: "server_message \<Rightarrow> feed_book \<Rightarrow> bool" where
  "venue_ok m b =
     (case m of
       OrderSnapshot r l _ _ orders \<Rightarrow> r = fb_request_id b \<longrightarrow> puts_ok orders (start_orders l b)
     | OrderUpdate r _ _ es \<Rightarrow> r = fb_request_id b \<longrightarrow> entries_ok es b
     | MarketSnapshot r _ _ _ _ \<Rightarrow> r \<noteq> fb_request_id b
     | MarketUpdate r _ _ _ \<Rightarrow> r \<noteq> fb_request_id b
     | _ \<Rightarrow> True)"

fun feed_ok :: "server_message list \<Rightarrow> feed_book \<Rightarrow> bool" where
  "feed_ok [] b = True"
| "feed_ok (m # ms) b = (venue_ok m b \<and> feed_ok ms (snd (feed_apply m b)))"

lemma fb_orders_add: "fb_orders (add_order x b) = bt_insert (bo_reference x) x (fb_orders b)"
  by (simp add: add_order_def Let_def split: option.split)

lemma puts_match: "levels_match b \<Longrightarrow> puts_ok xs b \<Longrightarrow> levels_match (fold add_order xs b)"
  by (induction xs arbitrary: b) (auto simp: fb_orders_add intro: add_order_match)

lemma entries_match: "levels_match b \<Longrightarrow> entries_ok es b \<Longrightarrow> levels_match (fold apply_order_entry es b)"
proof (induction es arbitrary: b)
  case (Cons e es)
  then have "levels_match (apply_order_entry e b)"
    by (intro apply_order_entry_match) (auto simp: entry_ok_def)
  with Cons show ?case
    by simp
qed simp

lemma levels_match_update [simp]:
  "levels_match (b \<lparr>fb_next_report := x\<rparr>) = levels_match b"
  "levels_match (b \<lparr>fb_assembling := y\<rparr>) = levels_match b"
  by (simp_all add: levels_match_def shows_levels_def fb_levels_def split: side.splits)

lemma levels_match_empty: "fb_orders b = [] \<Longrightarrow> fb_bids b = [] \<Longrightarrow> fb_asks b = [] \<Longrightarrow> levels_match b"
  by (simp add: levels_match_def orders_ok_def fits_def displayed_def shows_levels_def fb_levels_def level_of_def
    split: side.splits)

lemma entries_ok_report: "entries_ok es (b \<lparr>fb_next_report := x\<rparr>) = entries_ok es b"
  by (induction es arbitrary: b) (simp_all add: apply_order_entry_report)

lemma feed_apply_match:
  assumes "levels_match b" "venue_ok m b"
  shows "levels_match (snd (feed_apply m b))"
proof (cases m)
  case (OrderSnapshot r l n complete orders)
  have "levels_match (start_orders l b)"
    using assms(1) by (simp add: start_orders_def levels_match_empty)
  with assms OrderSnapshot show ?thesis
    by (auto simp: feed_apply_def venue_ok_def Let_def puts_match)
next
  case (OrderUpdate r l n es)
  with assms show ?thesis
    by (auto simp: feed_apply_def venue_ok_def continues_cases entries_match entries_ok_report split: sum.splits)
qed (use assms in \<open>auto simp: feed_apply_def venue_ok_def\<close>)

lemma feed_ok_match: "levels_match b \<Longrightarrow> feed_ok ms b \<Longrightarrow> levels_match (snd (apply_all feed_apply ms b))"
proof (induction ms arbitrary: b)
  case (Cons m ms)
  then have "levels_match (snd (feed_apply m b))"
    by (simp add: feed_apply_match)
  with Cons show ?case
    by (auto split: prod.splits sum.splits)
qed simp

subsection \<open>Places in a queue\<close>

definition price_of :: "book_order \<Rightarrow> int" where
  "price_of x = sint (bo_price x)"

definition amount :: "book_order list \<Rightarrow> int" where
  "amount xs = (\<Sum>x \<leftarrow> xs. sint (bo_quantity x))"

definition queue_at :: "book_order list \<Rightarrow> book_order \<Rightarrow> queued_order" where
  "queue_at before x =
     (let same = filter (\<lambda>y. price_of y = price_of x) before in
      \<lparr>qo_reference = bo_reference x, qo_side = bo_side x, qo_price = price_of x,
       qo_quantity = sint (bo_quantity x), qo_broker = bo_broker x, qo_quantity_ahead = amount same,
       qo_position_at_price = Suc (length same)\<rparr>)"

fun queue_spec :: "book_order list \<Rightarrow> book_order list \<Rightarrow> queued_order list" where
  "queue_spec before [] = []"
| "queue_spec before (x # xs) = queue_at before x # queue_spec (before @ [x]) xs"

lemma priority_key_price:
  "priority_key s x \<le> priority_key s y \<Longrightarrow> priority_key s y \<le> priority_key s z \<Longrightarrow> price_of x = price_of z \<Longrightarrow> price_of y = price_of z"
  by (cases s) (auto simp: priority_key_def price_of_def less_eq_prod_def)

lemma amount_append [simp]: "amount (xs @ ys) = amount xs + amount ys" "amount [] = 0"
    "amount (x # xs) = sint (bo_quantity x) + amount xs"
  by (simp_all add: amount_def)

lemma amount_nonneg: "(\<And>x. x \<in> set xs \<Longrightarrow> 0 < sint (bo_quantity x)) \<Longrightarrow> 0 \<le> amount xs"
  unfolding amount_def by (rule sum_list_nonneg) force

abbreviation at_price :: "int \<Rightarrow> book_order list \<Rightarrow> book_order list" where
  "at_price p xs \<equiv> filter (\<lambda>x. price_of x = p) xs"

definition loop_state :: "book_order list \<Rightarrow> int option \<Rightarrow> int \<Rightarrow> nat \<Rightarrow> bool" where
  "loop_state before price ahead place \<longleftrightarrow>
     (if before = [] then price = None
      else price = Some (price_of (last before)) \<and> ahead = amount (at_price (price_of (last before)) before)
        \<and> place = length (at_price (price_of (last before)) before))"

lemma loop_state_head:
  assumes "loop_state before price ahead place" "sorted_wrt (\<lambda>x y. priority_key s x \<le> priority_key s y) (before @ [x])"
  shows "(if price \<noteq> Some (price_of x) then (0, 0) else (ahead, place)) =
     (amount (at_price (price_of x) before), length (at_price (price_of x) before))"
proof (cases "before \<noteq> [] \<and> price_of (last before) \<noteq> price_of x")
  case True
  have "price_of y \<noteq> price_of x" if y: "y \<in> set before" for y
  proof -
    have "priority_key s y \<le> priority_key s (last before)"
      using assms(2) y True by (cases before rule: rev_cases) (auto simp: sorted_wrt_append)
    moreover have "priority_key s (last before) \<le> priority_key s x"
      using assms(2) True by (auto simp: sorted_wrt_append)
    ultimately show ?thesis
      using priority_key_price [of s y "last before" x] True by blast
  qed
  then have "at_price (price_of x) before = []"
    by (auto simp: filter_empty_conv)
  with True assms(1) show ?thesis
    by (simp add: loop_state_def)
qed (use assms(1) in \<open>auto simp: loop_state_def split: if_splits\<close>)

lemma queue_loop_spec:
  assumes "sorted_wrt (\<lambda>x y. priority_key s x \<le> priority_key s y) (before @ xs)"
    and "\<forall>x \<in> set (before @ xs). 0 < sint (bo_quantity x)"
    and "\<forall>p. amount (at_price p (before @ xs)) < 2 ^ 63"
    and "loop_state before price ahead place"
  shows "queue_loop price ahead place xs = queue_spec before xs"
  using assms
proof (induction xs arbitrary: before price ahead place)
  case (Cons x xs)
  let ?p = "price_of x"
  let ?same = "at_price ?p before"
  let ?q = "sint (bo_quantity x)"
  have "sorted_wrt (\<lambda>x y. priority_key s x \<le> priority_key s y) (before @ [x])"
    using Cons.prems(1) by (auto simp: sorted_wrt_append)
  note head = loop_state_head [OF Cons.prems(4) this]
  have "0 \<le> amount ?same" "0 \<le> amount (at_price ?p xs)" "0 < ?q"
    using Cons.prems(2) by (auto intro!: amount_nonneg)
  moreover have "amount ?same + (?q + amount (at_price ?p xs)) < 2 ^ 63"
    using Cons.prems(3) [THEN spec, of ?p] by simp
  ultimately have sat: "i64_saturating_add (amount ?same) ?q = amount ?same + ?q"
    by (simp add: i64_saturating_add_def)
  have "queue_loop (Some ?p) (amount ?same + ?q) (Suc (length ?same)) xs = queue_spec (before @ [x]) xs"
    using Cons.prems by (intro Cons.IH) (simp_all add: loop_state_def)
  then show ?case
    using head by (simp add: queue_at_def price_of_def [symmetric] sat Let_def case_prod_unfold split del: if_split)
qed simp

lemma queue_spec_find:
  "i < length xs \<Longrightarrow> distinct (map bo_reference xs) \<Longrightarrow>
     find (\<lambda>q. qo_reference q = bo_reference (xs ! i)) (queue_spec before xs) = Some (queue_at (before @ take i xs) (xs ! i))"
proof (induction xs arbitrary: i before)
  case (Cons x xs)
  show ?case
  proof (cases i)
    case 0
    then show ?thesis
      by (simp add: queue_at_def Let_def)
  next
    case (Suc j)
    with Cons.prems have j: "j < length xs" "bo_reference x \<noteq> bo_reference (xs ! j)"
      by auto
    then show ?thesis
      using Cons.IH [of j "before @ [x]"] Cons.prems Suc by (simp add: queue_at_def Let_def)
  qed
qed simp

lemma ahead_in_order:
  assumes "sorted_wrt (\<lambda>x y. priority_key s x \<le> priority_key s y) xs" "distinct (map bo_reference xs)" "i < length xs"
  shows "filter (\<lambda>y. price_of y = price_of (xs ! i) \<and> bo_reference y < bo_reference (xs ! i)) xs = at_price (price_of (xs ! i)) (take i xs)"
proof -
  let ?x = "xs ! i"
  have xs: "xs = take i xs @ ?x # drop (Suc i) xs"
    using assms(3) by (rule id_take_nth_drop)
  have key: "priority_key s y \<le> priority_key s z \<Longrightarrow> price_of y = price_of z \<Longrightarrow> bo_reference y \<le> bo_reference z" for y z
    by (cases s) (auto simp: priority_key_def price_of_def less_eq_prod_def)
  have "sorted_wrt (\<lambda>x y. priority_key s x \<le> priority_key s y) (take i xs @ ?x # drop (Suc i) xs)"
    using assms(1) xs by simp
  then have lt: "\<forall>y \<in> set (take i xs). priority_key s y \<le> priority_key s ?x"
    and gt: "\<forall>y \<in> set (drop (Suc i) xs). priority_key s ?x \<le> priority_key s y"
    by (auto simp: sorted_wrt_append)
  have "distinct (map bo_reference (take i xs @ ?x # drop (Suc i) xs))"
    using assms(2) xs by simp
  then have "bo_reference ?x \<notin> bo_reference ` set (take i xs)"
    by simp
  then have ne: "\<forall>y \<in> set (take i xs). bo_reference y \<noteq> bo_reference ?x"
    by (metis image_eqI)
  have "filter (\<lambda>y. price_of y = price_of ?x \<and> bo_reference y < bo_reference ?x) (take i xs) = at_price (price_of ?x) (take i xs)"
    using lt ne key by (intro filter_cong) (auto simp: order_less_le)
  moreover have "filter (\<lambda>y. price_of y = price_of ?x \<and> bo_reference y < bo_reference ?x) (?x # drop (Suc i) xs) = []"
    using gt key by (fastforce simp: filter_empty_conv not_less)
  ultimately show ?thesis
    by (subst (3) xs) (simp only: filter_append append_Nil2)
qed

lemma queue_orders_facts:
  assumes "orders_ok (fb_orders b)"
  shows "mset (queue_orders side b) = filter_mset (\<lambda>x. bo_side x = side) (mset (map snd (fb_orders b)))"
    and "sorted_wrt (\<lambda>x y. priority_key side x \<le> priority_key side y) (queue_orders side b)"
    and "distinct (map bo_reference (queue_orders side b))"
proof -
  show ms: "mset (queue_orders side b) = filter_mset (\<lambda>x. bo_side x = side) (mset (map snd (fb_orders b)))"
    by (simp add: queue_orders_def)
  show "sorted_wrt (\<lambda>x y. priority_key side x \<le> priority_key side y) (queue_orders side b)"
    using sorted_sort_key [of "priority_key side" "filter (\<lambda>order. bo_side order = side) (map snd (fb_orders b))"]
    by (simp add: queue_orders_def sorted_wrt_map)
  have "map bo_reference (map snd (fb_orders b)) = map fst (fb_orders b)"
    using assms by (auto simp: orders_ok_def)
  then have "distinct (map bo_reference (map snd (fb_orders b)))"
    using assms bt_distinct [of "fb_orders b"] by (simp only: orders_ok_def)
  then have "distinct (map bo_reference (filter (\<lambda>x. bo_side x = side) (map snd (fb_orders b))))"
    by (rule distinct_map_filter)
  moreover have "mset (map bo_reference (queue_orders side b)) = mset (map bo_reference (filter (\<lambda>x. bo_side x = side) (map snd (fb_orders b))))"
    by (simp add: queue_orders_def)
  ultimately show "distinct (map bo_reference (queue_orders side b))"
    using mset_eq_imp_distinct_iff by blast
qed

lemma amount_mset: "mset xs = mset ys \<Longrightarrow> amount xs = amount ys"
  unfolding amount_def by (metis mset_map sum_mset_sum_list)

lemma displayed_amount: "displayed os s p = amount (filter (\<lambda>x. bo_side x = s \<and> price_of x = p) (map snd os))"
  unfolding displayed_def by (induction os) (auto simp: shown_def price_of_def)

lemma feed_order_spec:
  assumes "levels_match b" "bt_get (fb_orders b) r = Some x"
  shows "feed_order r b =
    Some (queue_at (filter (\<lambda>y. bo_side y = bo_side x \<and> bo_reference y < r) (map snd (fb_orders b))) x)"
proof -
  let ?s = "bo_side x"
  let ?xs = "queue_orders ?s b"
  have ok: "orders_ok (fb_orders b)" and fit: "fits (fb_orders b)"
    using assms(1) by (simp_all add: levels_match_def)
  note facts = queue_orders_facts [OF ok, of ?s]
  have set: "set ?xs = {y \<in> set (map snd (fb_orders b)). bo_side y = ?s}"
    by (simp add: queue_orders_def)
  have r: "bo_reference x = r"
    using orders_ok_get [OF ok assms(2)] by simp
  have "x \<in> set ?xs"
    using assms(2) by (force simp: set dest!: map_of_SomeD)
  then obtain i where i: "i < length ?xs" "?xs ! i = x"
    by (auto simp: in_set_conv_nth)
  have pos: "\<forall>y \<in> set ([] @ ?xs). 0 < sint (bo_quantity y)"
    using ok by (force simp: set orders_ok_def)
  have "amount (at_price p ?xs) = displayed (fb_orders b) ?s p" for p
    unfolding displayed_amount by (rule amount_mset) (simp add: facts(1) filter_filter_mset conj_commute)
  then have "\<forall>p. amount (at_price p ([] @ ?xs)) < 2 ^ 63"
    using fit by (simp add: fits_def)
  then have "feed_orders ?s b = queue_spec [] ?xs"
    unfolding feed_orders_def using queue_loop_spec [of ?s "[]" ?xs None 0 0] facts(2) pos by (simp add: loop_state_def)
  then have found: "feed_order r b = Some (queue_at (take i ?xs) x)"
    using queue_spec_find [OF i(1) facts(3), of "[]"] assms(2) i(2) r by (simp add: feed_order_def)
  have "at_price (price_of x) (take i ?xs) = filter (\<lambda>y. price_of y = price_of x \<and> bo_reference y < r) ?xs"
    using ahead_in_order [OF facts(2,3) i(1)] i(2) r by simp
  then have ms: "mset (at_price (price_of x) (take i ?xs)) =
      mset (at_price (price_of x) (filter (\<lambda>y. bo_side y = ?s \<and> bo_reference y < r) (map snd (fb_orders b))))"
    by (simp add: facts(1) filter_filter_mset conj_ac)
  show ?thesis
    unfolding found queue_at_def Let_def amount_mset [OF ms] mset_eq_length [OF ms] by (rule refl)
qed

subsection \<open>Properties\<close>

text \<open>
  C19. A book never misses a change silently. Take any updates a venue sent on a feed, lost,
  repeated or reordered in any way on their path: if none of them makes the client's book report
  an error, the book is exactly the starting book with the venue's entries from its report number
  on applied one after the other, up to the number it now expects.
\<close>

theorem order_feed_exact:
  assumes "apply_all feed_apply (map (\<lambda>(n, es). OrderUpdate r l n es) us) b = (Ok (), b')"
    and "fb_next_report b = Some n0"
    and "\<forall>(n, es) \<in> set us. es = map stream [unat n..<unat n + length es]"
    and "n0 + (\<Sum>(n, es) \<leftarrow> us. length es) < 2 ^ 64"
  shows "\<exists>n. n0 \<le> n \<and> fb_next_report b' = Some n
    \<and> b' \<lparr>fb_next_report := None\<rparr> = fold apply_order_entry (map stream [n0..<n]) (b \<lparr>fb_next_report := None\<rparr>)"
  using assms by (rule order_feed.exact_or_detected)

text \<open>The consolidated tape, likewise.\<close>

theorem tape_feed_exact:
  assumes "apply_all tape_apply (map (\<lambda>(n, es). TapeUpdate r i n es) us) t = (Ok (), t')"
    and "tb_next_report t = Some n0"
    and "\<forall>(n, es) \<in> set us. es = map stream [unat n..<unat n + length es]"
    and "n0 + (\<Sum>(n, es) \<leftarrow> us. length es) < 2 ^ 64"
  shows "\<exists>n. n0 \<le> n \<and> tb_next_report t' = Some n
    \<and> t' \<lparr>tb_next_report := None\<rparr> = fold apply_tape_entry (map stream [n0..<n]) (t \<lparr>tb_next_report := None\<rparr>)"
  using assms by (rule tape_feed.exact_or_detected)

text \<open>
  C20. On an order-by-order feed the price levels follow from the orders: whatever messages a book
  has applied, the level at a price is the sum of the quantities displayed there, and is absent
  when nothing is. The venue is held to positive quantities and to amounts that fit an \<open>i64\<close>.
\<close>

theorem order_feed_levels:
  assumes "feed_ok ms (feed_book_new r)"
  shows "bt_get (fb_levels side (snd (apply_all feed_apply ms (feed_book_new r)))) p =
    (let q = displayed (fb_orders (snd (apply_all feed_apply ms (feed_book_new r)))) side p in
     if q = 0 then None else Some q)"
  using feed_ok_match [OF _ assms] levels_match_empty [of "feed_book_new r"]
  by (simp add: levels_match_def shows_levels_def level_of_def feed_book_new_def Let_def)

text \<open>
  The place a book gives for an order is its place in the queue: ahead of it are exactly the
  orders displayed on its side at its price with an earlier reference, \<open>quantity_ahead\<close> is their
  sum and \<open>position_at_price\<close> their number plus one.
\<close>

theorem queue_place_exact:
  assumes "feed_ok ms (feed_book_new r0)" "b = snd (apply_all feed_apply ms (feed_book_new r0))"
    and "bt_get (fb_orders b) r = Some x"
  shows "\<exists>q. feed_order r b = Some q \<and> qo_reference q = r \<and> qo_quantity q = sint (bo_quantity x)
    \<and> (let ahead = filter (\<lambda>y. bo_side y = bo_side x \<and> sint (bo_price y) = sint (bo_price x) \<and> bo_reference y < r)
             (map snd (fb_orders b)) in
       qo_quantity_ahead q = (\<Sum>y \<leftarrow> ahead. sint (bo_quantity y)) \<and> qo_position_at_price q = Suc (length ahead))"
proof -
  have m: "levels_match b"
    unfolding assms(2) by (rule feed_ok_match [OF levels_match_empty assms(1)]) (simp_all add: feed_book_new_def)
  have "bo_reference x = r"
    using orders_ok_get [of "fb_orders b" r x] m assms(3) by (simp add: levels_match_def)
  moreover have "at_price (price_of x) (filter (\<lambda>y. bo_side y = bo_side x \<and> bo_reference y < r) (map snd (fb_orders b))) =
      filter (\<lambda>y. bo_side y = bo_side x \<and> sint (bo_price y) = sint (bo_price x) \<and> bo_reference y < r) (map snd (fb_orders b))"
    unfolding filter_filter by (rule filter_cong) (auto simp: price_of_def)
  ultimately show ?thesis
    unfolding feed_order_spec [OF m assms(3)] queue_at_def Let_def by (simp only: amount_def) simp
qed

subsection \<open>Witnesses\<close>

lemma fits_small: "(\<Sum>(r, x) \<leftarrow> orders. \<bar>sint (bo_quantity x)\<bar>) < 2 ^ 63 \<Longrightarrow> fits orders"
proof -
  have "displayed orders side p \<le> (\<Sum>(r, x) \<leftarrow> orders. \<bar>sint (bo_quantity x)\<bar>)" for side p
    unfolding displayed_def by (rule sum_list_mono) (auto simp: shown_def)
  then show "(\<Sum>(r, x) \<leftarrow> orders. \<bar>sint (bo_quantity x)\<bar>) < 2 ^ 63 \<Longrightarrow> fits orders"
    by (auto simp: fits_def intro: le_less_trans)
qed

definition demo_order :: "side \<Rightarrow> u64 \<Rightarrow> i64 \<Rightarrow> i64 \<Rightarrow> book_order" where
  "demo_order side reference price quantity =
     \<lparr>bo_side = side, bo_reference = reference, bo_price = price, bo_quantity = quantity, bo_broker = None,
      bo_queue_position = 0\<rparr>"

definition demo_listing :: listing where
  "demo_listing = \<lparr>l_venue_id = 1, l_instrument_id = 1\<rparr>"

definition demo_snapshot :: server_message where
  "demo_snapshot = OrderSnapshot 7 demo_listing 1 True
     [demo_order Buy 3 99 5, demo_order Buy 8 99 2, demo_order Sell 5 101 4]"

definition demo_book :: feed_book where
  "demo_book = snd (apply_all feed_apply [demo_snapshot] (feed_book_new 7))"

lemma demo_book_orders:
  "fb_orders demo_book = [(3, demo_order Buy 3 99 5), (5, demo_order Sell 5 101 4), (8, demo_order Buy 8 99 2)]"
  by (simp add: demo_book_def demo_snapshot_def feed_apply_def feed_book_new_def start_orders_def fb_orders_add
    bt_insert_def demo_order_def)

lemma demo_feed_ok: "feed_ok [demo_snapshot] (feed_book_new 7)"
  by (simp add: demo_snapshot_def venue_ok_def feed_book_new_def start_orders_def fb_orders_add bt_insert_def
    demo_order_def fits_small)

theorem queue_place_exact_witness:
  "\<exists>q. feed_order 8 demo_book = Some q \<and> qo_quantity_ahead q = 5 \<and> qo_position_at_price q = 2"
  using queue_place_exact [OF demo_feed_ok demo_book_def, of 8] 
  by (auto simp: demo_book_orders demo_order_def)

theorem order_feed_levels_witness: "bt_get (fb_levels Buy demo_book) 99 = Some 7"
  using order_feed_levels [OF demo_feed_ok, of Buy 99, folded demo_book_def]
  by (simp add: demo_book_orders displayed_def shown_def demo_order_def)

definition demo_stream :: "nat \<Rightarrow> order_entry" where
  "demo_stream n = OrderEntryOrder ActionAdd Buy (10 + word_of_nat n) 98 1 None"

definition demo_updates :: "(u64 \<times> order_entry list) list" where
  "demo_updates = [(1, [demo_stream 1]), (2, [demo_stream 2])]"

lemma adjust_level_keeps [simp]:
  "fb_request_id (adjust_level s p d b) = fb_request_id b" "fb_listing (adjust_level s p d b) = fb_listing b"
  "fb_next_report (adjust_level s p d b) = fb_next_report b"
  by (cases s; simp add: level_ops)+

lemma add_order_keeps [simp]:
  "fb_request_id (add_order x b) = fb_request_id b" "fb_listing (add_order x b) = fb_listing b"
  "fb_next_report (add_order x b) = fb_next_report b"
  by (simp_all add: add_order_def Let_def split: option.split)

lemma demo_book_fields:
  "fb_request_id demo_book = 7" "fb_listing demo_book = Some demo_listing" "fb_next_report demo_book = Some 1"
  by (simp_all add: demo_book_def demo_snapshot_def feed_apply_def feed_book_new_def start_orders_def)

lemma demo_updates_apply:
  "fst (apply_all feed_apply (map (\<lambda>(n, es). OrderUpdate 7 demo_listing n es) demo_updates) demo_book) = Ok ()"
  by (simp add: demo_updates_def demo_stream_def feed_apply_def continues_def demo_book_fields u64_saturating_add_def
    apply_order_entry_def)

theorem order_feed_exact_witness:
  "\<exists>b' n. apply_all feed_apply (map (\<lambda>(n, es). OrderUpdate 7 demo_listing n es) demo_updates) demo_book = (Ok (), b')
     \<and> 1 \<le> n \<and> fb_next_report b' = Some n
     \<and> b' \<lparr>fb_next_report := None\<rparr> = fold apply_order_entry (map demo_stream [1..<n]) (demo_book \<lparr>fb_next_report := None\<rparr>)"
proof -
  let ?r = "apply_all feed_apply (map (\<lambda>(n, es). OrderUpdate 7 demo_listing n es) demo_updates) demo_book"
  have r: "?r = (Ok (), snd ?r)"
    using demo_updates_apply by (simp add: prod_eq_iff)
  have h: "\<forall>(n, es) \<in> set demo_updates. es = map demo_stream [unat n..<unat n + length es]"
    by (simp add: demo_updates_def flip: numeral_2_eq_2)
  have l: "1 + (\<Sum>(n, es) \<leftarrow> demo_updates. length es) < 2 ^ 64"
    by (simp add: demo_updates_def)
  from order_feed_exact [OF r demo_book_fields(3) h l] r show ?thesis
    by (elim exE) (intro exI conjI, assumption, (elim conjE, assumption)+)
qed

definition demo_tape :: tape_book where
  "demo_tape = snd (tape_apply (TapeSnapshot 3 1 10 [\<lparr>tq_venue_id = 1, tq_side = Sell, tq_price = 101, tq_quantity = 5\<rparr>])
     (tape_book_new 3))"

definition demo_tape_stream :: "nat \<Rightarrow> tape_entry" where
  "demo_tape_stream n = \<lparr>te_venue_id = 2, te_kind = EntryAsk, te_price = word_of_nat n, te_quantity = 1\<rparr>"

theorem tape_feed_exact_witness:
  "\<exists>t' n. apply_all tape_apply (map (\<lambda>(n, es). TapeUpdate 3 1 n es) [(11, [demo_tape_stream 11, demo_tape_stream 12])]) demo_tape = (Ok (), t')
     \<and> 11 \<le> n \<and> tb_next_report t' = Some n
     \<and> t' \<lparr>tb_next_report := None\<rparr> = fold apply_tape_entry (map demo_tape_stream [11..<n]) (demo_tape \<lparr>tb_next_report := None\<rparr>)"
proof -
  let ?r = "apply_all tape_apply (map (\<lambda>(n, es). TapeUpdate 3 1 n es) [(11, [demo_tape_stream 11, demo_tape_stream 12])]) demo_tape"
  have f: "tb_request_id demo_tape = 3" "tb_instrument_id demo_tape = Some 1" "tb_next_report demo_tape = Some 11"
    by (simp_all add: demo_tape_def tape_apply_def tape_book_new_def u64_saturating_add_def)
  have "fst ?r = Ok ()"
    by (simp add: tape_apply_def f)
  then have r: "?r = (Ok (), snd ?r)"
    by (simp add: prod_eq_iff)
  have h: "\<forall>(n, es) \<in> set [(11 :: u64, [demo_tape_stream 11, demo_tape_stream 12])].
      es = map demo_tape_stream [unat n..<unat n + length es]"
    by (simp add: upt_rec)
  have l: "11 + (\<Sum>(n, es) \<leftarrow> [(11 :: u64, [demo_tape_stream 11, demo_tape_stream 12])]. length es) < 2 ^ 64"
    by simp
  from tape_feed_exact [OF r f(3) h l] r show ?thesis
    by (elim exE) (intro exI conjI, assumption, (elim conjE, assumption)+)
qed

end
