(* ===== verification/Client_Connection.thy ===== *)
theory Client_Connection
  imports Client_Laws
begin

text \<open>
  The reader of a client connection, \<open>src/packages/bunting-client/src/connection.rs\<close>: it cuts the
  decrypted bytes into frames, answers every \<open>Probe\<close> at once, drops heartbeats and queues every
  other message for the application; \<open>recv_timeout\<close> takes the next one and moves the resume
  cursor. \<open>await_welcome\<close> is the loop of \<open>connect_at\<close> that waits for the venue's terms. TLS, the
  socket and the clock are arguments: \<open>sock\<close> is the outcome of writing bytes, \<open>alive\<close> says that
  the application still holds the receiving end, and a \<open>socket_read\<close> is the plaintext of one read
  with what the clock says then: the deadline of the handshake has passed, a heartbeat is due.
\<close>

text \<open>The text of a protocol error is what it prints.\<close>

datatype protocol_fault = Wire bnp_error | ExpectedWelcome nat | WelcomeTimedOut

datatype client_error =
    Io string
  | Tls string
  | Certificate string
  | Refused ustring
  | Protocol protocol_fault
  | Closed "ustring option"

type_synonym socket_write = "bytes \<Rightarrow> (unit, client_error) result"

record socket_read =
  pieces :: "bytes list"
  late :: bool
  due :: bool

record reader_state =
  rd_decoder :: frame_decoder
  rd_sent :: "client_message list"
  rd_queue :: "(server_message, client_error) result list"

definition reader_new :: "frame_decoder \<Rightarrow> reader_state" where
  "reader_new d = \<lparr>rd_decoder = d, rd_sent = [], rd_queue = []\<rparr>"

definition writer_send :: "socket_write \<Rightarrow> client_message \<Rightarrow> reader_state \<Rightarrow> (unit, client_error) result \<times> reader_state" where
  "writer_send sock message rd =
     (case encode_client message [] of
       (Inl e, _) \<Rightarrow> (Err (Protocol (Wire e)), rd)
     | (Inr _, bs) \<Rightarrow>
         (case sock bs of
           Inl e \<Rightarrow> (Err e, rd)
         | Inr _ \<Rightarrow> (Ok (), rd \<lparr>rd_sent := rd_sent rd @ [message]\<rparr>)))"

text \<open>\<open>Reader::dispatch\<close>: false after a \<open>Logout\<close> or when the application is gone.\<close>

fun dispatch :: "socket_write \<Rightarrow> bool \<Rightarrow> bytes list \<Rightarrow> reader_state \<Rightarrow> (bool, client_error) result \<times> reader_state" where
  "dispatch sock alive [] rd = (Ok True, rd)"
| "dispatch sock alive (f # fs) rd =
     (case decode_server f of
       Inl e \<Rightarrow> (Err (Protocol (Wire e)), rd)
     | Inr message \<Rightarrow>
         (case message of
           Probe probe_id \<Rightarrow>
             (case writer_send sock (ProbeReply probe_id) rd of
               (Inl e, rd') \<Rightarrow> (Err e, rd')
             | (Inr _, rd') \<Rightarrow> dispatch sock alive fs rd')
         | ServerHeartbeat \<Rightarrow> dispatch sock alive fs rd
         | ServerLogout reason \<Rightarrow>
             (Ok False, if alive then rd \<lparr>rd_queue := rd_queue rd @ [Err (Closed (Some reason))]\<rparr> else rd)
         | _ \<Rightarrow>
             if alive then dispatch sock alive fs (rd \<lparr>rd_queue := rd_queue rd @ [Ok message]\<rparr>)
             else (Ok False, rd)))"

text \<open>\<open>Writer::receive\<close>: the frames of the plaintext read so far, in pieces of the read buffer.\<close>

definition reader_receive :: "bytes list \<Rightarrow> frame_decoder \<Rightarrow> (bytes list, client_error) result \<times> frame_decoder" where
  "reader_receive ps d =
     (case push_all ps d of
       (Inl e, d') \<Rightarrow> (Err (Protocol (Wire e)), d')
     | (Inr frames, d') \<Rightarrow> (Ok frames, d'))"

text \<open>
  The loop of \<open>connect_at\<close> after \<open>Hello\<close>: the first frame must be \<open>Welcome\<close>. It returns the
  frames that came with it, the decoder and the reads that are left.
\<close>

definition first_frame :: "bytes \<Rightarrow> (welcome_message, client_error) result" where
  "first_frame f =
     (case decode_server f of
       Inl e \<Rightarrow> Err (Protocol (Wire e))
     | Inr message \<Rightarrow>
         (case message of
           Welcome w \<Rightarrow> Ok w
         | ServerLogout reason \<Rightarrow> Err (Refused reason)
         | _ \<Rightarrow> Err (Protocol (ExpectedWelcome (server_msg_type message)))))"

fun await_welcome :: "socket_read list \<Rightarrow> frame_decoder \<Rightarrow>
    (welcome_message \<times> bytes list \<times> frame_decoder \<times> socket_read list, client_error) result" where
  "await_welcome [] d = Err (Closed None)"
| "await_welcome (r # rs) d =
     (if late r then Err (Protocol WelcomeTimedOut)
      else
        (case reader_receive (pieces r) d of
          (Inl e, _) \<Rightarrow> Err e
        | (Inr [], d') \<Rightarrow> await_welcome rs d'
        | (Inr (f # fs), d') \<Rightarrow> attempt (first_frame f) (\<lambda>w. Ok (w, fs, d', rs))))"

text \<open>One round of the loop of \<open>Reader::serve\<close>, the loop, and \<open>serve\<close> on the frames that came with \<open>Welcome\<close>.\<close>

definition serve_round :: "socket_write \<Rightarrow> bool \<Rightarrow> socket_read \<Rightarrow> reader_state \<Rightarrow> (bool, client_error) result \<times> reader_state" where
  "serve_round sock alive r rd =
     (case reader_receive (pieces r) (rd_decoder rd) of
       (Inl e, d) \<Rightarrow> (Err e, rd \<lparr>rd_decoder := d\<rparr>)
     | (Inr frames, d) \<Rightarrow>
         (let rd' = rd \<lparr>rd_decoder := d\<rparr> in
          case (if due r then writer_send sock ClientHeartbeat rd' else (Ok (), rd')) of
            (Inl e, rd'') \<Rightarrow> (Err e, rd'')
          | (Inr _, rd'') \<Rightarrow> dispatch sock alive frames rd''))"

fun serve_loop :: "socket_write \<Rightarrow> bool \<Rightarrow> socket_read list \<Rightarrow> reader_state \<Rightarrow> (bool, client_error) result \<times> reader_state" where
  "serve_loop sock alive [] rd = (Ok True, rd)"
| "serve_loop sock alive (r # rs) rd =
     (case serve_round sock alive r rd of
       (Inl e, rd') \<Rightarrow> (Err e, rd')
     | (Inr go, rd') \<Rightarrow> if go then serve_loop sock alive rs rd' else (Ok False, rd'))"

definition serve :: "socket_write \<Rightarrow> bool \<Rightarrow> bytes list \<Rightarrow> socket_read list \<Rightarrow> reader_state \<Rightarrow> (bool, client_error) result \<times> reader_state" where
  "serve sock alive pending rs rd =
     (case dispatch sock alive pending rd of
       (Inl e, rd') \<Rightarrow> (Err e, rd')
     | (Inr go, rd') \<Rightarrow> if go then serve_loop sock alive rs rd' else (Ok False, rd'))"

text \<open>\<open>Client::recv_timeout\<close>: the next queued message and the cursor after it; an empty queue times out.\<close>

definition recv_timeout :: "u64 \<Rightarrow> (server_message, client_error) result list \<Rightarrow>
    (server_message option, client_error) result \<times> u64 \<times> (server_message, client_error) result list" where
  "recv_timeout cursor queue =
     (case queue of
       [] \<Rightarrow> (Ok None, cursor, [])
     | Inl e # rest \<Rightarrow> (Err e, cursor, rest)
     | Inr message # rest \<Rightarrow>
         (Ok (Some message),
          (case server_stamp message of Some stamp \<Rightarrow> max cursor (st_sequence stamp) | None \<Rightarrow> cursor), rest))"

subsection \<open>What the application sees\<close>

definition for_application :: "server_message \<Rightarrow> bool" where
  "for_application m = (case m of Probe _ \<Rightarrow> False | ServerHeartbeat \<Rightarrow> False | ServerLogout _ \<Rightarrow> False | _ \<Rightarrow> True)"

definition is_logout :: "server_message \<Rightarrow> bool" where
  "is_logout m = (case m of ServerLogout _ \<Rightarrow> True | _ \<Rightarrow> False)"

fun probe_replies :: "server_message list \<Rightarrow> client_message list" where
  "probe_replies [] = []"
| "probe_replies (m # ms) = (case m of Probe i \<Rightarrow> [ProbeReply i] | _ \<Rightarrow> []) @ probe_replies ms"

lemma probe_replies_append: "probe_replies (a @ b) = probe_replies a @ probe_replies b"
  by (induction a) simp_all

lemma send_small:
  assumes "\<And>bs. sock bs = Ok ()" "m = ClientHeartbeat \<or> (\<exists>i. m = ProbeReply i)"
  shows "writer_send sock m rd = (Ok (), rd \<lparr>rd_sent := rd_sent rd @ [m]\<rparr>)"
  using assms by (auto simp: writer_send_def encode_client_def write_client_def frame_def w_seq.simps writer_defs
    MAX_FRAME_BYTES_def)

lemma dispatch_all:
  assumes "\<And>bs. sock bs = Ok ()" "map decode_server frames = map Ok ms" "\<forall>m \<in> set ms. \<not> is_logout m"
  shows "dispatch sock True frames rd =
    (Ok True, rd \<lparr>rd_sent := rd_sent rd @ probe_replies ms, rd_queue := rd_queue rd @ map Ok (filter for_application ms)\<rparr>)"
  using assms(2,3)
proof (induction frames arbitrary: ms rd)
  case (Cons f frames)
  then obtain m ms' where ms: "ms = m # ms'" "decode_server f = Ok m" "map decode_server frames = map Ok ms'"
    by (cases ms) auto
  note IH = Cons.IH [OF ms(3)] and send = send_small [of sock, OF assms(1)]
  show ?case
    using Cons.prems(2) by (cases m) (simp_all add: ms IH send for_application_def is_logout_def)
qed simp

definition protocol_sent :: "client_message list \<Rightarrow> client_message list" where
  "protocol_sent ms = filter (\<lambda>m. m \<noteq> ClientHeartbeat) ms"

lemma protocol_sent_simps [simp]:
  "protocol_sent (a @ b) = protocol_sent a @ protocol_sent b" "protocol_sent [ClientHeartbeat] = []" "protocol_sent [] = []"
  "protocol_sent (probe_replies ms) = probe_replies ms"
proof -
  show "protocol_sent (probe_replies ms) = probe_replies ms"
    by (induction ms) (auto simp: protocol_sent_def split: server_message.split)
qed (simp_all add: protocol_sent_def)

text \<open>Receiving some pieces of a stream that cuts into frames without a rest.\<close>

lemma receive_part:
  assumes "settled d" "cut_stream (fd_max_frame_bytes d) (fd_buffer d @ concat ps @ rest) = Ok (frames, [])"
  obtains f1 f2 d' where "reader_receive ps d = (Ok f1, d')" "frames = f1 @ f2" "settled d'"
    "fd_max_frame_bytes d' = fd_max_frame_bytes d"
    "cut_stream (fd_max_frame_bytes d') (fd_buffer d' @ rest) = Ok (f2, [])"
proof -
  let ?limit = "fd_max_frame_bytes d"
  have whole: "cut_stream ?limit ((fd_buffer d @ concat ps) @ rest) = Ok (frames, [])"
    using assms(2) by simp
  obtain f1 r1 where cut1: "cut_stream ?limit (fd_buffer d @ concat ps) = Ok (f1, r1)"
    using cut_stream_append_Err [of ?limit "fd_buffer d @ concat ps" _ rest] whole
    by (cases "cut_stream ?limit (fd_buffer d @ concat ps)") auto
  from cut_stream_append [OF cut1, of rest] whole obtain f2
    where cut2: "cut_stream ?limit (r1 @ rest) = Ok (f2, [])" and frames: "frames = f1 @ f2"
    by (auto simp: attempt_Ok_iff)
  have "push_all ps d = (Ok f1, d \<lparr>fd_buffer := r1\<rparr>)"
    using push_all_cut [OF assms(1), of ps] cut1 by simp
  then show thesis
    using that [of f1 "d \<lparr>fd_buffer := r1\<rparr>" f2] cut2 frames cut_stream_settled [OF cut1]
    by (simp add: reader_receive_def settled_def)
qed

abbreviation plaintext :: "socket_read list \<Rightarrow> bytes" where
  "plaintext rs \<equiv> concat (concat (map pieces rs))"

lemma await_welcome_first:
  assumes "settled d" "cut_stream (fd_max_frame_bytes d) (fd_buffer d @ plaintext rs) = Ok (f # frames, [])"
    and "first_frame f = Ok w" "\<forall>r \<in> set rs. \<not> late r"
  shows "\<exists>pending d' rs' f2. await_welcome rs d = Ok (w, pending, d', rs') \<and> frames = pending @ f2 \<and> settled d'
    \<and> cut_stream (fd_max_frame_bytes d') (fd_buffer d' @ plaintext rs') = Ok (f2, [])"
  using assms
proof (induction rs arbitrary: d)
  case Nil
  then show ?case
    by (simp add: settled_def)
next
  case (Cons r rs)
  have "cut_stream (fd_max_frame_bytes d) (fd_buffer d @ concat (pieces r) @ plaintext rs) = Ok (f # frames, [])"
    using Cons.prems(2) by simp
  then obtain f1 f2 d' where recv: "reader_receive (pieces r) d = (Ok f1, d')" "f # frames = f1 @ f2" "settled d'"
    "cut_stream (fd_max_frame_bytes d') (fd_buffer d' @ plaintext rs) = Ok (f2, [])"
    using receive_part [OF Cons.prems(1)] by metis
  show ?case
  proof (cases f1)
    case Nil
    then show ?thesis
      using Cons.IH [of d'] recv Cons.prems(3,4) by simp
  next
    case (Cons g gs)
    then show ?thesis
      using recv Cons.prems(3,4) by simp
  qed
qed

lemma serve_loop_all:
  assumes "\<And>bs. sock bs = Ok ()" "settled (rd_decoder rd)"
    and "cut_stream (fd_max_frame_bytes (rd_decoder rd)) (fd_buffer (rd_decoder rd) @ plaintext rs) = Ok (frames, [])"
    and "map decode_server frames = map Ok ms" "\<forall>m \<in> set ms. \<not> is_logout m"
  shows "\<exists>rd'. serve_loop sock True rs rd = (Ok True, rd')
    \<and> rd_queue rd' = rd_queue rd @ map Ok (filter for_application ms)
    \<and> protocol_sent (rd_sent rd') = protocol_sent (rd_sent rd) @ probe_replies ms
    \<and> fd_buffer (rd_decoder rd') = []"
  using assms(2-)
proof (induction rs arbitrary: rd frames ms)
  case Nil
  then show ?case
    by (auto simp: settled_def)
next
  case (Cons r rs)
  have "cut_stream (fd_max_frame_bytes (rd_decoder rd)) (fd_buffer (rd_decoder rd) @ concat (pieces r) @ plaintext rs) = Ok (frames, [])"
    using Cons.prems(2) by simp
  then obtain f1 f2 d' where recv: "reader_receive (pieces r) (rd_decoder rd) = (Ok f1, d')" "frames = f1 @ f2" "settled d'"
    "cut_stream (fd_max_frame_bytes d') (fd_buffer d' @ plaintext rs) = Ok (f2, [])"
    using receive_part [OF Cons.prems(1)] by metis
  obtain m1 m2 where ms: "ms = m1 @ m2" "map decode_server f1 = map Ok m1" "map decode_server f2 = map Ok m2"
    using Cons.prems(3) by (auto simp: recv map_eq_append_conv append_eq_map_conv)
  let ?sent = "rd_sent rd @ (if due r then [ClientHeartbeat] else []) @ probe_replies m1"
  let ?rd = "rd \<lparr>rd_decoder := d', rd_sent := ?sent, rd_queue := rd_queue rd @ map Ok (filter for_application m1)\<rparr>"
  have no_logout: "\<forall>m \<in> set m1. \<not> is_logout m" "\<forall>m \<in> set m2. \<not> is_logout m"
    using Cons.prems(4) by (simp_all add: ms(1))
  have step: "serve_round sock True r rd = (Ok True, ?rd)"
    using send_small [of sock ClientHeartbeat, OF assms(1)] dispatch_all [OF assms(1) ms(2) no_logout(1)]
    by (simp add: serve_round_def recv)
  obtain rd' where "serve_loop sock True rs ?rd = (Ok True, rd')"
    "rd_queue rd' = rd_queue ?rd @ map Ok (filter for_application m2)"
    "protocol_sent (rd_sent rd') = protocol_sent (rd_sent ?rd) @ probe_replies m2" "fd_buffer (rd_decoder rd') = []"
    using Cons.IH [of ?rd f2 m2] recv(3,4) ms(3) no_logout(2) by auto
  then show ?case
    by (auto simp: step ms(1) probe_replies_append)
qed

text \<open>
  C17. A venue and its client end to end. Let a venue encode \<open>Welcome\<close> and any messages after it,
  short of a \<open>Logout\<close>, and let the bytes arrive in any pieces over any reads, with heartbeats due
  at any of them. While the deadline of the handshake is not passed, the socket accepts writes and
  the application listens, the connection is made with the venue's terms, the application is
  handed every message but probes and heartbeats, in order, and every probe is answered, in order.
\<close>

theorem session_delivers:
  assumes "encode_all encode_server (Welcome w # ms) [] = (Ok (), stream)" "concat (concat (map pieces rs)) = stream"
    and "\<forall>m \<in> set ms. \<not> is_logout m" "\<forall>bs. sock bs = Ok ()" "\<forall>r \<in> set rs. \<not> late r"
  shows "\<exists>pending d rs' rd.
    await_welcome rs (frame_decoder_new MAX_FRAME_BYTES) = Ok (w, pending, d, rs')
    \<and> serve sock True pending rs' (reader_new d) = (Ok True, rd)
    \<and> rd_queue rd = map Ok (filter for_application ms)
    \<and> filter (\<lambda>m. m \<noteq> ClientHeartbeat) (rd_sent rd) = probe_replies ms
    \<and> pending_bytes (rd_decoder rd) = 0"
proof -
  let ?d = "frame_decoder_new MAX_FRAME_BYTES"
  obtain f frames where cut: "cut_stream MAX_FRAME_BYTES stream = Ok (f # frames, [])"
    and f: "decode_server f = Ok (Welcome w)" and frames: "map decode_server frames = map Ok ms"
    using server.encode_all_cut [OF assms(1)] by auto
  have new: "fd_max_frame_bytes ?d = MAX_FRAME_BYTES" "fd_buffer ?d = []"
    by (simp_all add: frame_decoder_new_def MAX_FRAME_BYTES_def)
  obtain pending d' rs' f2 where await: "await_welcome rs ?d = Ok (w, pending, d', rs')" "frames = pending @ f2" "settled d'"
    "cut_stream (fd_max_frame_bytes d') (fd_buffer d' @ plaintext rs') = Ok (f2, [])"
    using await_welcome_first [of ?d rs f frames w] cut f assms(2,5) by (auto simp: new first_frame_def)
  obtain m1 m2 where ms: "ms = m1 @ m2" "map decode_server pending = map Ok m1" "map decode_server f2 = map Ok m2"
    using frames by (auto simp: await map_eq_append_conv append_eq_map_conv)
  have w: "sock bs = Ok ()" for bs
    using assms(4) by simp
  have no_logout: "\<forall>m \<in> set m1. \<not> is_logout m" "\<forall>m \<in> set m2. \<not> is_logout m"
    using assms(3) by (simp_all add: ms(1))
  let ?rd = "\<lparr>rd_decoder = d', rd_sent = probe_replies m1, rd_queue = map Ok (filter for_application m1)\<rparr>"
  have "dispatch sock True pending (reader_new d') = (Ok True, ?rd)"
    using dispatch_all [of sock, OF w ms(2) no_logout(1)] by (simp add: reader_new_def)
  moreover obtain rd' where "serve_loop sock True rs' ?rd = (Ok True, rd')"
    "rd_queue rd' = map Ok (filter for_application ms)" "protocol_sent (rd_sent rd') = probe_replies ms"
    "fd_buffer (rd_decoder rd') = []"
    using serve_loop_all [of sock ?rd rs' f2 m2, OF w] await(3,4) ms no_logout(2) by (auto simp: probe_replies_append)
  ultimately show ?thesis
    using await(1) by (auto simp: serve_def protocol_sent_def pending_bytes_def)
qed

definition demo_terms :: welcome_message where
  "demo_terms = \<lparr>wc_version = PROTOCOL_VERSION, wc_run_id = 1, wc_participant_id = 2, wc_role = RoleParticipant,
     wc_heartbeat_ms = 1000, wc_max_frame_bytes = 65536, wc_resume = Live, wc_run_sequence = 5\<rparr>"

definition demo_session_stream :: bytes where
  "demo_session_stream = snd (encode_all encode_server [Welcome demo_terms, Probe 3, Pong 5 9, ServerHeartbeat] [])"

definition demo_reads :: "socket_read list" where
  "demo_reads =
     [\<lparr>pieces = [take 6 demo_session_stream], late = False, due = False\<rparr>,
      \<lparr>pieces = [take 90 (drop 6 demo_session_stream)], late = False, due = False\<rparr>,
      \<lparr>pieces = [drop 96 demo_session_stream], late = False, due = True\<rparr>]"

theorem session_delivers_witness:
  "\<exists>pending d rs' rd. await_welcome demo_reads (frame_decoder_new MAX_FRAME_BYTES) = Ok (demo_terms, pending, d, rs')
    \<and> serve (\<lambda>_. Ok ()) True pending rs' (reader_new d) = (Ok True, rd)
    \<and> rd_queue rd = [Ok (Pong 5 9)]
    \<and> filter (\<lambda>m. m \<noteq> ClientHeartbeat) (rd_sent rd) = [ProbeReply 3]
    \<and> pending_bytes (rd_decoder rd) = 0"
proof -
  let ?ms = "[Welcome demo_terms, Probe 3, Pong 5 9, ServerHeartbeat]"
  have "fst (encode_all encode_server ?ms []) = Ok ()"
    by (simp add: encode_server_def write_server_def write_server_session_def frame_def w_seq.simps writer_defs w_enum_def
      MAX_FRAME_BYTES_def)
  then have enc: "encode_all encode_server ?ms [] = (Ok (), demo_session_stream)"
    by (simp add: demo_session_stream_def prod_eq_iff)
  have "take 90 (drop 6 demo_session_stream) @ drop 96 demo_session_stream = drop 6 demo_session_stream"
    using append_take_drop_id [of 90 "drop 6 demo_session_stream"] by simp
  then have whole: "concat (concat (map pieces demo_reads)) = demo_session_stream"
    by (simp add: demo_reads_def)
  show ?thesis
    using session_delivers [OF enc whole, of "\<lambda>_. Ok ()"]
    by (simp add: is_logout_def for_application_def demo_reads_def)
qed

end
