(* ===== verification/Market_Types.thy ===== *)
theory Market_Types
  imports BTree "HOL-Library.Product_Lexorder"
begin

text \<open>
  The fixed-point primitives of \<open>packages/market-types/src/lib.rs\<close> and the order
  vocabulary of \<open>packages/market-events/src/lib.rs\<close>.

  The newtypes \<open>PriceTicks\<close>, \<open>QuantityLots\<close> (\<open>i64\<close>) and \<open>MoneyMinor\<close> (\<open>i128\<close>) are
  \<open>int\<close>; \<open>LogicalTimeNs\<close>, \<open>EventSequence\<close> (\<open>u64\<close>) and the 128-bit identifiers are
  \<open>nat\<close>. Their checked operations carry the width.
\<close>

subsection \<open>Newtypes\<close>

type_synonym price_ticks = int
type_synonym quantity_lots = int
type_synonym money_minor = int
type_synonym logical_time_ns = nat
type_synonym event_sequence = nat

type_synonym run_id = nat
type_synonym instrument_id = nat
type_synonym participant_id = nat
type_synonym order_id = nat
type_synonym venue_id = nat
type_synonym currency_id = nat

datatype numeric_error = NonPositiveQuantity | InvalidPriceBounds | PriceOutOfBounds | Overflow

datatype identifier_error = Zero

definition i64_checked_add :: "int \<Rightarrow> int \<Rightarrow> int option" where
  "i64_checked_add a b = checked_i64 (a + b)"

definition i64_checked_sub :: "int \<Rightarrow> int \<Rightarrow> int option" where
  "i64_checked_sub a b = checked_i64 (a - b)"

definition i128_checked_add :: "int \<Rightarrow> int \<Rightarrow> int option" where
  "i128_checked_add a b = checked_i128 (a + b)"

definition i128_checked_sub :: "int \<Rightarrow> int \<Rightarrow> int option" where
  "i128_checked_sub a b = checked_i128 (a - b)"

definition u64_checked_add :: "nat \<Rightarrow> nat \<Rightarrow> nat option" where
  "u64_checked_add a b = checked_u64 (a + b)"

definition u64_checked_sub :: "nat \<Rightarrow> nat \<Rightarrow> nat option" where
  "u64_checked_sub a b = (if b \<le> a then Some (a - b) else None)"

lemma i64_checked_add_Some [result_simps]: "i64_checked_add a b = Some c \<longleftrightarrow> c = a + b \<and> in_i64 (a + b)"
  by (simp add: i64_checked_add_def result_simps)

lemma i64_checked_sub_Some [result_simps]: "i64_checked_sub a b = Some c \<longleftrightarrow> c = a - b \<and> in_i64 (a - b)"
  by (simp add: i64_checked_sub_def result_simps)

lemma i128_checked_add_Some [result_simps]: "i128_checked_add a b = Some c \<longleftrightarrow> c = a + b \<and> in_i128 (a + b)"
  by (simp add: i128_checked_add_def result_simps)

lemma i128_checked_sub_Some [result_simps]: "i128_checked_sub a b = Some c \<longleftrightarrow> c = a - b \<and> in_i128 (a - b)"
  by (simp add: i128_checked_sub_def result_simps)

lemma u64_checked_add_Some [result_simps]: "u64_checked_add a b = Some c \<longleftrightarrow> c = a + b \<and> a + b < 2 ^ 64"
  by (simp add: u64_checked_add_def result_simps)

lemma u64_checked_sub_Some [result_simps]: "u64_checked_sub a b = Some c \<longleftrightarrow> b \<le> a \<and> c = a - b"
  by (auto simp: u64_checked_sub_def)

definition try_new :: "nat \<Rightarrow> (nat, identifier_error) result" where
  "try_new value = (if value = 0 then Err Zero else Ok value)"

subsection \<open>Bounds and quantities\<close>

record price_bounds =
  bounds_min :: price_ticks
  bounds_max :: price_ticks

definition price_bounds_new :: "price_ticks \<Rightarrow> price_ticks \<Rightarrow> (price_bounds, numeric_error) result" where
  "price_bounds_new lo hi =
     (if lo \<le> 0 \<or> lo > hi then Err InvalidPriceBounds
      else Ok \<lparr>bounds_min = lo, bounds_max = hi\<rparr>)"

definition validate_price :: "price_bounds \<Rightarrow> price_ticks \<Rightarrow> (unit, numeric_error) result" where
  "validate_price b price =
     (if price < bounds_min b \<or> price > bounds_max b then Err PriceOutOfBounds else Ok ())"

definition positive :: "int \<Rightarrow> (quantity_lots, numeric_error) result" where
  "positive value = (if value \<le> 0 then Err NonPositiveQuantity else Ok value)"

definition checked_mul_price_quantity ::
    "price_ticks \<Rightarrow> quantity_lots \<Rightarrow> (money_minor, numeric_error) result" where
  "checked_mul_price_quantity price quantity = ok_or Overflow (checked_i128 (price * quantity))"

lemma checked_mul_price_quantity_total:
  "in_i64 p \<Longrightarrow> in_i64 q \<Longrightarrow> checked_mul_price_quantity p q = Ok (p * q)"
  by (simp add: checked_mul_price_quantity_def in_i128_mult_i64)

subsection \<open>Listing keys and their text form\<close>

text \<open>
  \<open>ListingKey\<close> derives its order from the field order, which is the lexicographic
  order of pairs. It is written as \<open>venue:instrument\<close> in decimal.
\<close>

type_synonym listing_key = "venue_id \<times> instrument_id"

abbreviation lk_venue :: "listing_key \<Rightarrow> venue_id" where
  "lk_venue \<equiv> fst"

abbreviation lk_instrument :: "listing_key \<Rightarrow> instrument_id" where
  "lk_instrument \<equiv> snd"

text \<open>Decimal printing and parsing of \<open>u128\<close>, as the standard library does them.\<close>

definition digit_char :: "nat \<Rightarrow> char" where
  "digit_char d = char_of (48 + d)"

fun show_u128 :: "nat \<Rightarrow> string" where
  "show_u128 n = (if n < 10 then [digit_char n] else show_u128 (n div 10) @ [digit_char (n mod 10)])"

declare show_u128.simps [simp del]

definition is_digit :: "char \<Rightarrow> bool" where
  "is_digit c \<longleftrightarrow> 48 \<le> (of_char c :: nat) \<and> (of_char c :: nat) \<le> 57"

definition push_digit :: "nat option \<Rightarrow> char \<Rightarrow> nat option" where
  "push_digit acc c = Option.bind acc (\<lambda>a.
     if is_digit c \<and> a * 10 + (of_char c - 48) < 2 ^ 128
     then Some (a * 10 + (of_char c - 48)) else None)"

definition parse_digits :: "string \<Rightarrow> nat option" where
  "parse_digits s = (if s = [] then None else foldl push_digit (Some 0) s)"

definition parse_u128 :: "string \<Rightarrow> nat option" where
  "parse_u128 s = (case s of CHR ''+'' # t \<Rightarrow> parse_digits t | _ \<Rightarrow> parse_digits s)"

definition split_once :: "char \<Rightarrow> string \<Rightarrow> (string \<times> string) option" where
  "split_once c s =
     (case dropWhile (\<lambda>x. x \<noteq> c) s of [] \<Rightarrow> None | _ # t \<Rightarrow> Some (takeWhile (\<lambda>x. x \<noteq> c) s, t))"

datatype listing_key_error = MissingColon | BadVenue | BadInstrument

definition listing_key_serialize :: "listing_key \<Rightarrow> string" where
  "listing_key_serialize k = show_u128 (lk_venue k) @ '':'' @ show_u128 (lk_instrument k)"

definition listing_key_deserialize :: "string \<Rightarrow> (listing_key, listing_key_error) result" where
  "listing_key_deserialize value =
     attempt (ok_or MissingColon (split_once (CHR '':'') value)) (\<lambda>(venue, instrument).
     attempt (ok_or BadVenue (parse_u128 venue)) (\<lambda>venue_id.
     attempt (ok_or BadInstrument (parse_u128 instrument)) (\<lambda>instrument_id.
     Ok (venue_id, instrument_id))))"

subsection \<open>Orders\<close>

datatype side = Buy | Sell

fun opposite :: "side \<Rightarrow> side" where
  "opposite Buy = Sell"
| "opposite Sell = Buy"

text \<open>\<open>Side\<close> derives \<open>Ord\<close>: \<open>Buy < Sell\<close>.\<close>

instantiation side :: linorder
begin

definition less_side :: "side \<Rightarrow> side \<Rightarrow> bool" where
  "less_side a b \<longleftrightarrow> a = Buy \<and> b = Sell"

definition less_eq_side :: "side \<Rightarrow> side \<Rightarrow> bool" where
  "less_eq_side a b \<longleftrightarrow> a = b \<or> a < (b::side)"

instance
proof
  fix x y z :: side
  show "x < y \<longleftrightarrow> x \<le> y \<and> \<not> y \<le> x"
    by (cases x; cases y) (simp_all add: less_side_def less_eq_side_def)
  show "x \<le> x"
    by (simp add: less_eq_side_def)
  show "x \<le> y \<Longrightarrow> y \<le> z \<Longrightarrow> x \<le> z"
    by (cases x; cases y; cases z) (simp_all add: less_side_def less_eq_side_def)
  show "x \<le> y \<Longrightarrow> y \<le> x \<Longrightarrow> x = y"
    by (cases x; cases y) (simp_all add: less_side_def less_eq_side_def)
  show "x \<le> y \<or> y \<le> x"
    by (cases x; cases y) (simp_all add: less_side_def less_eq_side_def)
qed

end

datatype time_in_force = Gtc | Ioc | Fok | Gtd logical_time_ns | Day

datatype order_kind =
    Limit price_ticks
  | Market
  | LimitWithPolicy price_ticks time_in_force bool "quantity_lots option"

fun limit_price :: "order_kind \<Rightarrow> price_ticks option" where
  "limit_price (Limit price) = Some price"
| "limit_price (LimitWithPolicy price _ _ _) = Some price"
| "limit_price Market = None"

record submit_order =
  so_order_id :: order_id
  so_instrument_id :: instrument_id
  so_participant_id :: participant_id
  so_side :: side
  so_quantity :: quantity_lots
  so_kind :: order_kind
  so_anonymous :: bool

datatype reject_code =
    DuplicateOrderId | InvalidOrderId | UnknownOrder | NotOrderOwner | KillSwitchActive
  | RunNotActive | ListingHalted | ParticipantDisabled | InvalidQuantity | InvalidInstrument
  | RejectPriceOutOfBounds | MaxOrderQuantity | MaxOpenOrderQuantity | MaxLiveOrders
  | PositionLimit | InsufficientCash | InsufficientInventory | InsufficientLiquidity
  | PostOnlyWouldCross | InvalidTimeInForce | MarketClosed | CallPhaseOrderType
  | LogicalTimeRegression | SequenceConflict | ArithmeticOverflow | PriceNotOnTick

datatype session_phase = Closed | PreOpen | Continuous | ClosingCall

lemma opposite_opposite [simp]: "opposite (opposite s) = s"
  by (cases s) auto

lemma opposite_neq [simp]: "opposite s \<noteq> s" "s \<noteq> opposite s"
  by (cases s; simp)+

subsection \<open>Text round trip\<close>

lemma of_char_digit: "d < 10 \<Longrightarrow> (of_char (digit_char d) :: nat) = 48 + d"
  by (simp add: digit_char_def)

lemma is_digit_digit_char: "d < 10 \<Longrightarrow> is_digit (digit_char d)"
  by (simp add: is_digit_def of_char_digit)

lemma push_digit_char:
  "d < 10 \<Longrightarrow> a * 10 + d < 2 ^ 128 \<Longrightarrow> push_digit (Some a) (digit_char d) = Some (a * 10 + d)"
  by (simp add: push_digit_def is_digit_digit_char of_char_digit)

lemma show_u128_digits: "c \<in> set (show_u128 n) \<Longrightarrow> is_digit c"
proof (induction n rule: show_u128.induct)
  case (1 n)
  then show ?case
    by (subst (asm) (2) show_u128.simps) (auto simp: is_digit_digit_char split: if_splits)
qed

lemma show_u128_not_Nil: "show_u128 n \<noteq> []"
  by (subst show_u128.simps) simp

lemma foldl_show_u128: "n < 2 ^ 128 \<Longrightarrow> foldl push_digit (Some 0) (show_u128 n) = Some n"
proof (induction n rule: show_u128.induct)
  case (1 n)
  show ?case
  proof (cases "n < 10")
    case True
    then show ?thesis
      by (subst show_u128.simps) (simp add: push_digit_char [of _ 0, simplified])
  next
    case False
    have "n div 10 < 2 ^ 128"
      using "1.prems" by simp
    with "1.IH" False have "foldl push_digit (Some 0) (show_u128 (n div 10)) = Some (n div 10)"
      by simp
    then show ?thesis
      using False "1.prems" by (subst show_u128.simps) (simp add: push_digit_char)
  qed
qed

lemma parse_show_u128: "n < 2 ^ 128 \<Longrightarrow> parse_u128 (show_u128 n) = Some n"
proof -
  assume n: "n < 2 ^ 128"
  obtain c t where s: "show_u128 n = c # t"
    using show_u128_not_Nil by (cases "show_u128 n") auto
  then have "is_digit c"
    using show_u128_digits [of c n] by simp
  then have "c \<noteq> CHR ''+''"
    by (auto simp: is_digit_def)
  then have "parse_u128 (show_u128 n) = parse_digits (show_u128 n)"
    by (auto simp: s parse_u128_def split: char.splits bool.splits)
  then show ?thesis
    using n by (simp add: parse_digits_def foldl_show_u128 show_u128_not_Nil)
qed

lemma split_once_append:
  "c \<notin> set xs \<Longrightarrow> split_once c (xs @ c # ys) = Some (xs, ys)"
  by (induction xs) (auto simp: split_once_def split: list.splits)

text \<open>
  A listing key written as \<open>venue:instrument\<close> is read back unchanged, for every
  pair of 128-bit identifiers (\<open>Serialize\<close> and \<open>Deserialize\<close> of \<open>ListingKey\<close>).
\<close>

theorem listing_key_roundtrip:
  assumes "venue < 2 ^ 128" and "instrument < 2 ^ 128"
  shows "listing_key_deserialize (listing_key_serialize (venue, instrument)) = Ok (venue, instrument)"
proof -
  have "CHR '':'' \<notin> set (show_u128 venue)"
    using show_u128_digits [of "CHR '':''" venue] by (auto simp: is_digit_def)
  then have "split_once (CHR '':'') (listing_key_serialize (venue, instrument))
      = Some (show_u128 venue, show_u128 instrument)"
    by (simp add: listing_key_serialize_def split_once_append)
  then show ?thesis
    using assms by (simp add: listing_key_deserialize_def parse_show_u128)
qed

theorem listing_key_roundtrip_witness:
  "listing_key_deserialize (listing_key_serialize (12, 2 ^ 127)) = Ok (12, 2 ^ 127)"
  by (rule listing_key_roundtrip) simp_all

end
