(* ===== verification/Events.thy ===== *)
theory Events
  imports Market_Types
begin

text \<open>
  The command and event vocabulary of \<open>packages/market-events/src/lib.rs\<close>: what a run is
  asked to do and the facts it commits. Fields are positional, in the source's order.
  Statuses of tenders and negotiations are strings in the source and here.
\<close>

subsection \<open>Simulation commands\<close>

type_synonym event_id = nat
type_synonym command_id = nat
type_synonym correlation_id = nat
type_synonym news_id = nat
type_synonym tender_id = nat
type_synonym negotiation_id = nat
type_synonym facility_id = nat

definition EVENT_SCHEMA_VERSION :: nat where
  "EVENT_SCHEMA_VERSION = 1"

record cancel_request =
  cr_order_id :: order_id
  cr_participant_id :: participant_id

datatype clock_mode = Lockstep | Accelerated nat | Paced nat

datatype news_audience = Public | Participant participant_id | Team nat | Role string

datatype tender_decision = TenderAccept | TenderDecline

datatype otc_decision = OtcAccept | OtcReject | OtcBreak

datatype composite_policy = BestEffort | MinimumFill | AllOrNone | AtomicConversion

record composite_leg =
  leg_instrument_id :: instrument_id
  leg_side :: side
  leg_quantity :: quantity_lots
  leg_limit_price :: price_ticks

datatype simulation_command =
    StartRun
  | PauseRun
  | ResumeRun
  | Advance nat
  | ClockTick
  | SetPacing clock_mode string
  | Terminate string
  | SetListingHalt instrument_id bool string
  | MassCancel "participant_id option" "instrument_id option"
  | PublishNews news_id news_audience string string
  | OpenTender tender_id participant_id instrument_id side quantity_lots price_ticks logical_time_ns
  | DecideTender tender_id tender_decision
  | OpenOtc negotiation_id participant_id instrument_id side quantity_lots price_ticks logical_time_ns
  | CounterOtc negotiation_id quantity_lots price_ticks
  | DecideOtc negotiation_id otc_decision
  | SubmitComposite composite_policy quantity_lots "composite_leg list"
  | ScheduleCashflow participant_id currency_id money_minor logical_time_ns string
  | ApplyFine participant_id currency_id money_minor string
  | ScheduleFacilityJob facility_id participant_id quantity_lots quantity_lots logical_time_ns
  | ScoreIteration

subsection \<open>Commands\<close>

datatype command_payload =
    SubmitOrder submit_order
  | SubmitOrderAtListing listing_key submit_order
  | CancelOrder cancel_request
  | ActivateKillSwitch
  | ResetKillSwitch

text \<open>
  The envelope of a command. \<open>Command\<close> and \<open>SimulationCommandRequest\<close> have the same
  fields but for the payload.
\<close>

record 'p envelope =
  c_run_id :: run_id
  c_command_id :: command_id
  c_correlation_id :: correlation_id
  c_logical_time :: logical_time_ns
  c_expected_sequence :: event_sequence
  c_actor :: participant_id
  c_payload :: 'p

type_synonym command = "command_payload envelope"
type_synonym simulation_command_request = "simulation_command envelope"

subsection \<open>Events\<close>

datatype cancel_reason =
    Requested | KillSwitch | MarketRemainder | MassCancelled | Expired | Halt

record instrument_mark =
  im_instrument_id :: instrument_id
  im_price :: price_ticks

record day_score =
  ds_participant_id :: participant_id
  ds_net_liquidation_value :: money_minor
  ds_rank :: nat

record closing_price =
  cp_listing_key :: listing_key
  cp_price :: price_ticks

datatype simulation_event =
    LifecycleChanged string
  | ClockAdvanced logical_time_ns logical_time_ns
  | PacingChanged clock_mode string
  | AdministratorChangeRecorded string
  | ListingHaltChanged instrument_id bool
  | MassCancelCompleted "order_id list"
  | NewsPublished news_id news_audience
  | TenderChanged tender_id string
  | TenderSettled tender_id participant_id instrument_id side quantity_lots price_ticks
  | OtcSettled negotiation_id participant_id participant_id instrument_id quantity_lots price_ticks
  | OtcChanged negotiation_id string
  | CompositeCompleted composite_policy nat
  | CashflowScheduled participant_id currency_id money_minor
  | FineApplied participant_id currency_id money_minor nat
  | FacilityJobScheduled facility_id participant_id
  | ScheduledActionApplied nat
  | IterationScored nat
  | SessionPhaseChanged venue_id nat session_phase
  | AuctionUncrossed listing_key price_ticks quantity_lots
  | DayClosed venue_id nat "closing_price list"
  | DaySettled nat "instrument_mark list" "day_score list"

datatype event_payload =
    OrderReceived submit_order "listing_key option"
  | OrderAccepted order_id
  | OrderRejected "order_id option" reject_code
  | OrderRested order_id participant_id instrument_id "listing_key option" side price_ticks quantity_lots
  | OrderReduced order_id quantity_lots
  | OrderCompleted order_id
  | OrderCanceled order_id participant_id instrument_id "listing_key option" quantity_lots cancel_reason
  | TradeExecuted instrument_id "listing_key option" order_id order_id participant_id participant_id
      price_ticks quantity_lots money_minor money_minor
  | PositionChanged participant_id instrument_id quantity_lots
  | BalanceChanged participant_id money_minor
  | KillSwitchActivated
  | KillSwitchReset
  | Simulation simulation_event

record event_envelope =
  ev_schema_version :: nat
  ev_run_id :: run_id
  ev_event_id :: event_id
  ev_sequence :: event_sequence
  ev_logical_time :: logical_time_ns
  ev_actor :: participant_id
  ev_command_id :: command_id
  ev_correlation_id :: correlation_id
  ev_causation_sequence :: "event_sequence option"
  ev_payload :: event_payload

end
