(* ===== verification/Ledger.thy ===== *)
theory Ledger
  imports Market_Types
begin

text \<open>
  The economic ledger, \<open>packages/ledger/src/lib.rs\<close>: instrument terms, cash with
  reservations and fees, positions with average-cost basis, valuation marks. One
  definition per method of \<open>Ledger\<close>; a method that takes \<open>&mut self\<close> returns the new
  ledger or the error, since every method stages its writes and performs them after
  its last check.
\<close>

datatype ledger_error =
    LedgerOverflow | InvalidRelease | InvalidPosting | UnknownInstrument
  | LedgerInsufficientCash | LedgerInsufficientInventory | MissingFxRate

record instrument_terms =
  currency :: currency_id
  multiplier :: int
  shortable :: bool

record fx_rate =
  fx_currency :: currency_id
  fx_instrument_id :: instrument_id
  minor_units_per_lot :: int

record cash_balance =
  balance :: money_minor
  cash_reserved :: money_minor
  fees :: money_minor

record position =
  quantity :: quantity_lots
  reserved :: quantity_lots
  open_buy :: quantity_lots
  open_sell :: quantity_lots
  cost_basis :: money_minor
  realized_pnl :: money_minor
  traded :: quantity_lots

record reservation =
  cash_per_lot :: money_minor
  inventory :: bool

record fill_party =
  party_participant :: participant_id
  party_fee :: money_minor
  party_order :: "reservation option"
  enforce_funding :: bool

record fill =
  fill_instrument :: instrument_id
  fill_price :: price_ticks
  fill_quantity :: quantity_lots
  buyer :: "fill_party option"
  seller :: "fill_party option"
  fill_set_mark :: bool

record ledger =
  terms_map :: "(instrument_id, instrument_terms) btree_map"
  cash_map :: "(participant_id \<times> currency_id, cash_balance) btree_map"
  positions_map :: "(participant_id \<times> instrument_id, position) btree_map"
  marks_map :: "(instrument_id, price_ticks) btree_map"

definition default_cash :: cash_balance where
  "default_cash = \<lparr>balance = 0, cash_reserved = 0, fees = 0\<rparr>"

definition default_position :: position where
  "default_position = \<lparr>quantity = 0, reserved = 0, open_buy = 0, open_sell = 0,
     cost_basis = 0, realized_pnl = 0, traded = 0\<rparr>"

definition reservation_none :: reservation where
  "reservation_none = \<lparr>cash_per_lot = 0, inventory = False\<rparr>"

definition cash_available :: "cash_balance \<Rightarrow> money_minor option" where
  "cash_available c = i128_checked_sub (balance c) (cash_reserved c)"

definition position_available :: "position \<Rightarrow> quantity_lots option" where
  "position_available p = i64_checked_sub (quantity p) (reserved p)"

subsection \<open>Arithmetic helpers\<close>

definition overflow :: "'a option \<Rightarrow> ('a, ledger_error) result" where
  "overflow value = ok_or LedgerOverflow value"

definition negate :: "money_minor \<Rightarrow> (money_minor, ledger_error) result" where
  "negate value = overflow (checked_i128 (- value))"

definition i128_checked_mul :: "int \<Rightarrow> int \<Rightarrow> int option" where
  "i128_checked_mul a b = checked_i128 (a * b)"

definition i128_checked_div :: "int \<Rightarrow> int \<Rightarrow> int option" where
  "i128_checked_div a b = (if b = 0 then None else checked_i128 (tdiv a b))"

definition notional :: "price_ticks \<Rightarrow> quantity_lots \<Rightarrow> int \<Rightarrow> (money_minor, ledger_error) result" where
  "notional price q mult =
     overflow (Option.bind (i128_checked_mul price q) (\<lambda>value. i128_checked_mul value mult))"

definition per_lot_total :: "money_minor \<Rightarrow> quantity_lots \<Rightarrow> (money_minor, ledger_error) result" where
  "per_lot_total per_lot q = overflow (i128_checked_mul per_lot q)"

subsection \<open>Configuration and queries\<close>

definition ledger_new :: ledger where
  "ledger_new = \<lparr>terms_map = [], cash_map = [], positions_map = [], marks_map = []\<rparr>"

definition configure_instrument ::
    "ledger \<Rightarrow> instrument_id \<Rightarrow> instrument_terms \<Rightarrow> (ledger, ledger_error) result" where
  "configure_instrument l instrument t =
     (if instrument = 0 \<or> currency t = 0 \<or> multiplier t \<le> 0 then Err InvalidPosting
      else Ok (l\<lparr>terms_map := bt_insert instrument t (terms_map l)\<rparr>))"

definition ledger_terms :: "ledger \<Rightarrow> instrument_id \<Rightarrow> (instrument_terms, ledger_error) result" where
  "ledger_terms l instrument = ok_or UnknownInstrument (bt_get (terms_map l) instrument)"

definition ledger_cash :: "ledger \<Rightarrow> participant_id \<Rightarrow> currency_id \<Rightarrow> cash_balance" where
  "ledger_cash l participant c =
     (case bt_get (cash_map l) (participant, c) of None \<Rightarrow> default_cash | Some b \<Rightarrow> b)"

definition cash_balances :: "ledger \<Rightarrow> participant_id \<Rightarrow> (currency_id \<times> cash_balance) list" where
  "cash_balances l participant =
     map (\<lambda>((_, c), b). (c, b)) (filter (\<lambda>((p, _), _). p = participant) (cash_map l))"

definition ledger_position :: "ledger \<Rightarrow> participant_id \<Rightarrow> instrument_id \<Rightarrow> position" where
  "ledger_position l participant instrument =
     (case bt_get (positions_map l) (participant, instrument) of
        None \<Rightarrow> default_position | Some p \<Rightarrow> p)"

definition ledger_positions :: "ledger \<Rightarrow> participant_id \<Rightarrow> (instrument_id \<times> position) list" where
  "ledger_positions l participant =
     map (\<lambda>((_, i), p). (i, p)) (filter (\<lambda>((p, _), _). p = participant) (positions_map l))"

definition ledger_mark :: "ledger \<Rightarrow> instrument_id \<Rightarrow> price_ticks option" where
  "ledger_mark l instrument = bt_get (marks_map l) instrument"

subsection \<open>Postings\<close>

definition set_mark :: "ledger \<Rightarrow> instrument_id \<Rightarrow> price_ticks \<Rightarrow> (ledger, ledger_error) result" where
  "set_mark l instrument mark =
     attempt (ledger_terms l instrument) (\<lambda>_.
     if mark \<le> 0 then Err InvalidPosting
     else Ok (l\<lparr>marks_map := bt_insert instrument mark (marks_map l)\<rparr>))"

definition post_cash ::
    "ledger \<Rightarrow> participant_id \<Rightarrow> currency_id \<Rightarrow> money_minor \<Rightarrow> (ledger, ledger_error) result" where
  "post_cash l participant c amount =
     (if c = 0 then Err InvalidPosting
      else let entry = ledger_cash l participant c in
        attempt (overflow (i128_checked_add (balance entry) amount)) (\<lambda>b.
        Ok (l\<lparr>cash_map := bt_insert (participant, c) (entry\<lparr>balance := b\<rparr>) (cash_map l)\<rparr>)))"

definition seed_position ::
    "ledger \<Rightarrow> participant_id \<Rightarrow> instrument_id \<Rightarrow> quantity_lots \<Rightarrow> money_minor \<Rightarrow>
     (ledger, ledger_error) result" where
  "seed_position l participant instrument q basis =
     attempt (ledger_terms l instrument) (\<lambda>_.
     let entry = ledger_position l participant instrument in
     Ok (l\<lparr>positions_map := bt_insert (participant, instrument)
            (entry\<lparr>quantity := q, cost_basis := basis\<rparr>) (positions_map l)\<rparr>))"

definition ledger_cash_per_lot ::
    "ledger \<Rightarrow> instrument_id \<Rightarrow> price_ticks \<Rightarrow> money_minor \<Rightarrow> (money_minor, ledger_error) result" where
  "ledger_cash_per_lot l instrument price fee_per_lot =
     attempt (ledger_terms l instrument) (\<lambda>t.
     attempt (notional price 1 (multiplier t)) (\<lambda>lot.
     overflow (i128_checked_add lot (max fee_per_lot 0))))"

subsection \<open>Open orders\<close>

text \<open>The buy and sell arms of \<open>change_open\<close>, on the staged position and cash.\<close>

definition change_open_buy ::
    "quantity_lots \<Rightarrow> reservation \<Rightarrow> bool \<Rightarrow> quantity_lots \<Rightarrow> position \<Rightarrow> cash_balance \<Rightarrow>
     (position \<times> cash_balance, ledger_error) result" where
  "change_open_buy q res opn delta pos cash =
     attempt (overflow (i64_checked_add (open_buy pos) delta)) (\<lambda>ob.
     attempt (per_lot_total (cash_per_lot res) q) (\<lambda>amount.
     attempt (overflow (if opn then i128_checked_add (cash_reserved cash) amount
                        else i128_checked_sub (cash_reserved cash) amount)) (\<lambda>r.
     if r < 0 then Err InvalidRelease
     else let cash' = cash\<lparr>cash_reserved := r\<rparr> in
       if opn
       then attempt (overflow (cash_available cash')) (\<lambda>a.
            if a < 0 then Err LedgerInsufficientCash else Ok (pos\<lparr>open_buy := ob\<rparr>, cash'))
       else Ok (pos\<lparr>open_buy := ob\<rparr>, cash'))))"

definition change_open_sell ::
    "reservation \<Rightarrow> bool \<Rightarrow> quantity_lots \<Rightarrow> position \<Rightarrow> cash_balance \<Rightarrow>
     (position \<times> cash_balance, ledger_error) result" where
  "change_open_sell res opn delta pos cash =
     attempt (overflow (i64_checked_add (open_sell pos) delta)) (\<lambda>os.
     if inventory res
     then attempt (overflow (i64_checked_add (reserved pos) delta)) (\<lambda>r.
          if r < 0 then Err InvalidRelease
          else let pos' = pos\<lparr>open_sell := os, reserved := r\<rparr> in
            if opn
            then attempt (overflow (position_available pos')) (\<lambda>a.
                 if a < 0 then Err LedgerInsufficientInventory else Ok (pos', cash))
            else Ok (pos', cash))
     else Ok (pos\<lparr>open_sell := os\<rparr>, cash))"

definition change_open ::
    "ledger \<Rightarrow> participant_id \<Rightarrow> instrument_id \<Rightarrow> side \<Rightarrow> quantity_lots \<Rightarrow> reservation \<Rightarrow> bool \<Rightarrow>
     (ledger, ledger_error) result" where
  "change_open l participant instrument sd q res opn =
     attempt (ledger_terms l instrument) (\<lambda>t.
     if q \<le> 0 then Err InvalidPosting
     else
       let pos = ledger_position l participant instrument;
           cash = ledger_cash l participant (currency t)
       in attempt (overflow (if opn then Some q else i64_checked_sub 0 q)) (\<lambda>delta.
          attempt (case sd of
                     Buy \<Rightarrow> change_open_buy q res opn delta pos cash
                   | Sell \<Rightarrow> change_open_sell res opn delta pos cash) (\<lambda>(pos', cash').
          if open_buy pos' < 0 \<or> open_sell pos' < 0 then Err InvalidRelease
          else Ok (l\<lparr>positions_map := bt_insert (participant, instrument) pos' (positions_map l),
                     cash_map := bt_insert (participant, currency t) cash' (cash_map l)\<rparr>))))"

definition open_order ::
    "ledger \<Rightarrow> participant_id \<Rightarrow> instrument_id \<Rightarrow> side \<Rightarrow> quantity_lots \<Rightarrow> reservation \<Rightarrow>
     (ledger, ledger_error) result" where
  "open_order l participant instrument sd q res = change_open l participant instrument sd q res True"

definition close_order ::
    "ledger \<Rightarrow> participant_id \<Rightarrow> instrument_id \<Rightarrow> side \<Rightarrow> quantity_lots \<Rightarrow> reservation \<Rightarrow>
     (ledger, ledger_error) result" where
  "close_order l participant instrument sd q res = change_open l participant instrument sd q res False"

subsection \<open>Fills\<close>

text \<open>Average-cost realization of a signed execution (\<open>apply_fill\<close>).\<close>

definition apply_fill ::
    "position \<Rightarrow> quantity_lots \<Rightarrow> price_ticks \<Rightarrow> int \<Rightarrow> (position, ledger_error) result" where
  "apply_fill pos delta price mult =
     (let old_qty = quantity pos in
      attempt (overflow (i64_checked_add old_qty delta)) (\<lambda>next_qty.
      let opp = (old_qty > 0 \<and> delta < 0) \<or> (old_qty < 0 \<and> delta > 0);
          closed = (if opp then min \<bar>old_qty\<bar> \<bar>delta\<bar> else 0);
          closed_delta = (if old_qty > 0 then - closed else closed)
      in attempt (overflow (i128_checked_mul price mult)) (\<lambda>unit.
      let old_basis = cost_basis pos in
      attempt (if closed = 0 then Ok 0
               else attempt (overflow (i128_checked_mul old_basis closed))
                      (\<lambda>v. Ok (tdiv v \<bar>old_qty\<bar>))) (\<lambda>removed_basis.
      attempt (overflow (Option.bind (i128_checked_mul closed_delta unit) (\<lambda>v.
                 Option.bind (checked_i128 (- v)) (\<lambda>flow.
                 i128_checked_sub flow removed_basis)))) (\<lambda>realized.
      attempt (overflow (i128_checked_sub delta closed_delta)) (\<lambda>opened_delta.
      attempt (overflow (i128_checked_mul opened_delta unit)) (\<lambda>opened_basis.
      attempt (overflow (Option.bind (i128_checked_sub old_basis removed_basis) (\<lambda>v.
                 i128_checked_add v opened_basis))) (\<lambda>new_basis.
      attempt (overflow (i128_checked_add (realized_pnl pos) realized)) (\<lambda>pnl.
      Ok (pos\<lparr>quantity := next_qty, cost_basis := new_basis, realized_pnl := pnl\<rparr>))))))))))"

text \<open>Release of the filled part of a party's reservation, first block of the loop in \<open>settle\<close>.\<close>

definition release_filled ::
    "side \<Rightarrow> quantity_lots \<Rightarrow> reservation option \<Rightarrow> cash_balance \<Rightarrow> position \<Rightarrow>
     (cash_balance \<times> position, ledger_error) result" where
  "release_filled sd q order bal pos =
     (case order of
        None \<Rightarrow> Ok (bal, pos)
      | Some res \<Rightarrow>
          attempt (case sd of
              Buy \<Rightarrow>
                attempt (overflow (i64_checked_sub (open_buy pos) q)) (\<lambda>ob.
                attempt (per_lot_total (cash_per_lot res) q) (\<lambda>amount.
                attempt (overflow (i128_checked_sub (cash_reserved bal) amount)) (\<lambda>r.
                Ok (bal\<lparr>cash_reserved := r\<rparr>, pos\<lparr>open_buy := ob\<rparr>))))
            | Sell \<Rightarrow>
                attempt (overflow (i64_checked_sub (open_sell pos) q)) (\<lambda>os.
                if inventory res
                then attempt (overflow (i64_checked_sub (reserved pos) q)) (\<lambda>r.
                     Ok (bal, pos\<lparr>open_sell := os, reserved := r\<rparr>))
                else Ok (bal, pos\<lparr>open_sell := os\<rparr>))) (\<lambda>(bal', pos').
          if open_buy pos' < 0 \<or> open_sell pos' < 0 \<or> reserved pos' < 0 \<or> cash_reserved bal' < 0
          then Err InvalidRelease
          else Ok (bal', pos')))"

text \<open>One party's side of a fill on its staged balance and position.\<close>

definition settle_balances ::
    "instrument_terms \<Rightarrow> fill \<Rightarrow> money_minor \<Rightarrow> side \<Rightarrow> fill_party \<Rightarrow> cash_balance \<Rightarrow> position \<Rightarrow>
     (cash_balance \<times> position, ledger_error) result" where
  "settle_balances t f value sd party bal0 pos0 =
     attempt (release_filled sd (fill_quantity f) (party_order party) bal0 pos0) (\<lambda>(bal, pos).
     attempt (case sd of
                Buy \<Rightarrow> attempt (negate value) (\<lambda>v. Ok (v, fill_quantity f))
              | Sell \<Rightarrow> attempt (overflow (i64_checked_sub 0 (fill_quantity f))) (\<lambda>d. Ok (value, d)))
       (\<lambda>(flow, delta).
     attempt (overflow (Option.bind (i128_checked_add (balance bal) flow)
                          (\<lambda>v. i128_checked_sub v (party_fee party)))) (\<lambda>new_balance.
     attempt (overflow (i128_checked_add (fees bal) (party_fee party))) (\<lambda>new_fees.
     let bal1 = bal\<lparr>balance := new_balance, fees := new_fees\<rparr> in
     attempt (apply_fill pos delta (fill_price f) (multiplier t)) (\<lambda>pos1.
     attempt (overflow (i64_checked_add (traded pos1) (fill_quantity f))) (\<lambda>tr.
     let pos2 = pos1\<lparr>traded := tr\<rparr> in
     attempt (if sd = Buy \<and> enforce_funding party
              then attempt (overflow (cash_available bal1)) (\<lambda>a.
                   if a < 0 then Err LedgerInsufficientCash else Ok ())
              else Ok ()) (\<lambda>_.
     attempt (if sd = Sell \<and> \<not> shortable t
              then attempt (overflow (position_available pos2)) (\<lambda>a.
                   if a < 0 then Err LedgerInsufficientInventory else Ok ())
              else Ok ()) (\<lambda>_.
     Ok (bal1, pos2)))))))))"

type_synonym staged =
  "(participant_id, cash_balance) btree_map \<times> (participant_id, position) btree_map"

definition settle_party ::
    "ledger \<Rightarrow> instrument_terms \<Rightarrow> fill \<Rightarrow> money_minor \<Rightarrow> side \<Rightarrow> fill_party option \<Rightarrow> staged \<Rightarrow>
     (staged, ledger_error) result" where
  "settle_party l t f value sd party stage =
     (case party of
        None \<Rightarrow> Ok stage
      | Some p \<Rightarrow>
          let who = party_participant p;
              bal = (case bt_get (fst stage) who of
                       Some b \<Rightarrow> b | None \<Rightarrow> ledger_cash l who (currency t));
              pos = (case bt_get (snd stage) who of
                       Some x \<Rightarrow> x | None \<Rightarrow> ledger_position l who (fill_instrument f))
          in attempt (settle_balances t f value sd p bal pos) (\<lambda>(bal', pos').
             Ok (bt_insert who bal' (fst stage), bt_insert who pos' (snd stage))))"

definition write_staged :: "currency_id \<Rightarrow> instrument_id \<Rightarrow> staged \<Rightarrow> ledger \<Rightarrow> ledger" where
  "write_staged c instrument stage l =
     l\<lparr>cash_map := fold (\<lambda>(p, b). bt_insert (p, c) b) (fst stage) (cash_map l),
       positions_map := fold (\<lambda>(p, x). bt_insert (p, instrument) x) (snd stage) (positions_map l)\<rparr>"

definition settle :: "ledger \<Rightarrow> fill \<Rightarrow> (ledger, ledger_error) result" where
  "settle l f =
     attempt (ledger_terms l (fill_instrument f)) (\<lambda>t.
     if fill_quantity f \<le> 0 \<or> fill_price f \<le> 0 then Err InvalidPosting
     else
       attempt (notional (fill_price f) (fill_quantity f) (multiplier t)) (\<lambda>value.
       attempt (settle_party l t f value Buy (buyer f) ([], [])) (\<lambda>stage1.
       attempt (settle_party l t f value Sell (seller f) stage1) (\<lambda>stage.
       let l1 = write_staged (currency t) (fill_instrument f) stage l in
       Ok (if fill_set_mark f
           then l1\<lparr>marks_map := bt_insert (fill_instrument f) (fill_price f) (marks_map l1)\<rparr>
           else l1)))))"

subsection \<open>Conversions\<close>

definition convert_input ::
    "ledger \<Rightarrow> participant_id \<Rightarrow> (instrument_id \<times> quantity_lots) option \<Rightarrow>
     (money_minor \<times> (instrument_id \<times> position) list, ledger_error) result" where
  "convert_input l participant input =
     (case input of
        None \<Rightarrow> Ok (0, [])
      | Some (instrument, q) \<Rightarrow>
          attempt (ledger_terms l instrument) (\<lambda>_.
          let pos = ledger_position l participant instrument in
          attempt (if q \<le> 0 then Err LedgerInsufficientInventory
                   else attempt (overflow (position_available pos)) (\<lambda>a.
                        if a < q then Err LedgerInsufficientInventory else Ok ())) (\<lambda>_.
          attempt (if quantity pos > 0
                   then overflow (Option.bind (i128_checked_mul (cost_basis pos) q) (\<lambda>v.
                          i128_checked_div v (quantity pos)))
                   else Ok 0) (\<lambda>transferred.
          attempt (overflow (i128_checked_sub (cost_basis pos) transferred)) (\<lambda>basis.
          attempt (overflow (i64_checked_sub (quantity pos) q)) (\<lambda>rest.
          Ok (transferred, [(instrument, pos\<lparr>cost_basis := basis, quantity := rest\<rparr>)])))))))"

definition convert_output ::
    "ledger \<Rightarrow> participant_id \<Rightarrow> money_minor \<Rightarrow> (instrument_id \<times> position) list \<Rightarrow>
     (instrument_id \<times> quantity_lots) option \<Rightarrow> ((instrument_id \<times> position) list, ledger_error) result" where
  "convert_output l participant transferred stage outp =
     (case outp of
        None \<Rightarrow> Ok stage
      | Some (instrument, q) \<Rightarrow>
          attempt (ledger_terms l instrument) (\<lambda>_.
          if q \<le> 0 then Err InvalidPosting
          else let pos = (case map_of stage instrument of
                            Some x \<Rightarrow> x | None \<Rightarrow> ledger_position l participant instrument) in
            attempt (overflow (i64_checked_add (quantity pos) q)) (\<lambda>acc.
            attempt (overflow (i128_checked_add (cost_basis pos) transferred)) (\<lambda>basis.
            Ok (filter (\<lambda>(i, _). i \<noteq> instrument) stage
                @ [(instrument, pos\<lparr>quantity := acc, cost_basis := basis\<rparr>)])))))"

definition convert ::
    "ledger \<Rightarrow> participant_id \<Rightarrow> (instrument_id \<times> quantity_lots) option \<Rightarrow>
     (instrument_id \<times> quantity_lots) option \<Rightarrow> (ledger, ledger_error) result" where
  "convert l participant input outp =
     attempt (convert_input l participant input) (\<lambda>(transferred, stage1).
     attempt (convert_output l participant transferred stage1 outp) (\<lambda>stage.
     Ok (l\<lparr>positions_map :=
            fold (\<lambda>(i, x). bt_insert (participant, i) x) stage (positions_map l)\<rparr>)))"

subsection \<open>Valuation\<close>

definition position_value ::
    "ledger \<Rightarrow> instrument_id \<Rightarrow> position \<Rightarrow> (money_minor, ledger_error) result" where
  "position_value l instrument pos =
     attempt (ledger_terms l instrument) (\<lambda>t.
     case ledger_mark l instrument of
       None \<Rightarrow> Ok (cost_basis pos)
     | Some mark \<Rightarrow> notional mark (quantity pos) (multiplier t))"

definition unrealized_pnl ::
    "ledger \<Rightarrow> participant_id \<Rightarrow> instrument_id \<Rightarrow> (money_minor, ledger_error) result" where
  "unrealized_pnl l participant instrument =
     (let pos = ledger_position l participant instrument in
      attempt (position_value l instrument pos) (\<lambda>v.
      overflow (i128_checked_sub v (cost_basis pos))))"

fun add_position_values ::
    "ledger \<Rightarrow> currency_id \<Rightarrow> money_minor \<Rightarrow> (instrument_id \<times> position) list \<Rightarrow>
     (money_minor, ledger_error) result" where
  "add_position_values l c acc [] = Ok acc"
| "add_position_values l c acc ((instrument, pos) # rest) =
     attempt (ledger_terms l instrument) (\<lambda>t.
     if currency t = c
     then attempt (position_value l instrument pos) (\<lambda>v.
          attempt (overflow (i128_checked_add acc v)) (\<lambda>acc'.
          add_position_values l c acc' rest))
     else add_position_values l c acc rest)"

definition net_liquidation_value ::
    "ledger \<Rightarrow> participant_id \<Rightarrow> currency_id \<Rightarrow> (money_minor, ledger_error) result" where
  "net_liquidation_value l participant c =
     add_position_values l c (balance (ledger_cash l participant c)) (ledger_positions l participant)"

fun position_currencies ::
    "ledger \<Rightarrow> (instrument_id \<times> position) list \<Rightarrow> (currency_id list, ledger_error) result" where
  "position_currencies l [] = Ok []"
| "position_currencies l ((instrument, _) # rest) =
     attempt (ledger_terms l instrument) (\<lambda>t.
     attempt (position_currencies l rest) (\<lambda>cs. Ok (currency t # cs)))"

definition converted_value ::
    "ledger \<Rightarrow> currency_id \<Rightarrow> fx_rate list \<Rightarrow> currency_id \<Rightarrow> money_minor \<Rightarrow>
     (money_minor, ledger_error) result" where
  "converted_value l reporting rates c value =
     (if c = reporting then Ok value
      else if value = 0 then Ok 0
      else attempt (ok_or MissingFxRate (find (\<lambda>r. fx_currency r = c) rates)) (\<lambda>rate.
           attempt (ok_or MissingFxRate (ledger_mark l (fx_instrument_id rate))) (\<lambda>mark.
           if minor_units_per_lot rate \<le> 0 then Err MissingFxRate
           else overflow (Option.bind (i128_checked_mul value mark) (\<lambda>amount.
                  i128_checked_div amount (minor_units_per_lot rate))))))"

fun add_converted ::
    "ledger \<Rightarrow> participant_id \<Rightarrow> currency_id \<Rightarrow> fx_rate list \<Rightarrow> money_minor \<Rightarrow> currency_id list \<Rightarrow>
     (money_minor, ledger_error) result" where
  "add_converted l participant reporting rates acc [] = Ok acc"
| "add_converted l participant reporting rates acc (c # cs) =
     attempt (net_liquidation_value l participant c) (\<lambda>value.
     attempt (converted_value l reporting rates c value) (\<lambda>converted.
     attempt (overflow (i128_checked_add acc converted)) (\<lambda>acc'.
     add_converted l participant reporting rates acc' cs)))"

definition reporting_value ::
    "ledger \<Rightarrow> participant_id \<Rightarrow> currency_id \<Rightarrow> fx_rate list \<Rightarrow> (money_minor, ledger_error) result" where
  "reporting_value l participant reporting rates =
     attempt (position_currencies l (ledger_positions l participant)) (\<lambda>cs.
     add_converted l participant reporting rates 0
       (remdups_adj (sort (map fst (cash_balances l participant) @ cs))))"

definition ledger_participants :: "ledger \<Rightarrow> participant_id list" where
  "ledger_participants l =
     remdups_adj (sort (remdups_adj (map (fst \<circ> fst) (cash_map l) @ map (fst \<circ> fst) (positions_map l))))"

end
