(* ===== verification/Ledger_Laws.thy ===== *)
theory Ledger_Laws
  imports Ledger
begin

text \<open>
  What the ledger guarantees: every operation keeps the representation and range
  invariant \<open>ledger_wf\<close>; reservations are released exactly; a fill conserves cash up
  to fees and conserves positions, and keeps every participant's cash, fees, cost
  basis and realized P\&L in balance; non-shortable inventory stays covered.
\<close>

subsection \<open>Inversion of the helpers\<close>

lemma overflow_Ok_iff [result_simps]: "overflow v = Inr x \<longleftrightarrow> v = Some x"
  by (simp add: overflow_def result_simps)

lemma overflow_simps [simp]:
  "overflow (Some x) = Inr x"
  "overflow None = Inl LedgerOverflow"
  by (simp_all add: overflow_def)

lemma i128_checked_mul_Some [result_simps]:
  "i128_checked_mul a b = Some c \<longleftrightarrow> c = a * b \<and> in_i128 (a * b)"
  by (simp add: i128_checked_mul_def result_simps)

lemma i128_checked_div_Some [result_simps]:
  "i128_checked_div a b = Some c \<longleftrightarrow> b \<noteq> 0 \<and> c = tdiv a b \<and> in_i128 (tdiv a b)"
  by (simp add: i128_checked_div_def result_simps)

lemma bind_Some_iff [result_simps]:
  "Option.bind v k = Some y \<longleftrightarrow> (\<exists>x. v = Some x \<and> k x = Some y)"
  by (cases v) auto

lemma negate_Ok_iff [result_simps]: "negate v = Inr w \<longleftrightarrow> w = - v \<and> in_i128 (- v)"
  by (simp add: negate_def result_simps)

lemma notional_Ok_iff [result_simps]:
  "notional p q m = Inr v \<longleftrightarrow> v = p * q * m \<and> in_i128 (p * q) \<and> in_i128 (p * q * m)"
  by (auto simp: notional_def result_simps)

lemma per_lot_total_Ok_iff [result_simps]:
  "per_lot_total a q = Inr v \<longleftrightarrow> v = a * q \<and> in_i128 (a * q)"
  by (simp add: per_lot_total_def result_simps)

lemma ledger_terms_Ok_iff [result_simps]:
  "ledger_terms l i = Inr t \<longleftrightarrow> bt_get (terms_map l) i = Some t"
  by (simp add: ledger_terms_def result_simps)

lemma cash_available_Some [result_simps]:
  "cash_available c = Some a \<longleftrightarrow> a = balance c - cash_reserved c \<and> in_i128 (balance c - cash_reserved c)"
  by (simp add: cash_available_def result_simps)

lemma position_available_Some [result_simps]:
  "position_available p = Some a \<longleftrightarrow> a = quantity p - reserved p \<and> in_i64 (quantity p - reserved p)"
  by (simp add: position_available_def result_simps)

subsection \<open>Well-formed entries\<close>

definition cash_ok :: "cash_balance \<Rightarrow> bool" where
  "cash_ok b \<longleftrightarrow> in_i128 (balance b) \<and> in_i128 (cash_reserved b) \<and> 0 \<le> cash_reserved b \<and> in_i128 (fees b)"

definition position_ok :: "position \<Rightarrow> bool" where
  "position_ok p \<longleftrightarrow>
     in_i64 (quantity p) \<and> in_i64 (reserved p) \<and> 0 \<le> reserved p \<and>
     in_i64 (open_buy p) \<and> 0 \<le> open_buy p \<and> in_i64 (open_sell p) \<and> 0 \<le> open_sell p \<and>
     in_i128 (cost_basis p) \<and> in_i128 (realized_pnl p) \<and> in_i64 (traded p)"

definition terms_ok :: "instrument_terms \<Rightarrow> bool" where
  "terms_ok t \<longleftrightarrow> currency t \<noteq> 0 \<and> 0 < multiplier t \<and> in_i64 (multiplier t)"

lemma default_ok [simp]: "cash_ok default_cash" "position_ok default_position"
  by (simp_all add: cash_ok_def position_ok_def default_cash_def default_position_def)

subsection \<open>Average-cost realization\<close>

text \<open>The lots of the old holding that a signed execution closes.\<close>

definition closed_lots :: "int \<Rightarrow> int \<Rightarrow> int" where
  "closed_lots old delta =
     (if (old > 0 \<and> delta < 0) \<or> (old < 0 \<and> delta > 0) then min \<bar>old\<bar> \<bar>delta\<bar> else 0)"

definition removed_basis :: "position \<Rightarrow> int \<Rightarrow> int" where
  "removed_basis pos delta =
     (if closed_lots (quantity pos) delta = 0 then 0
      else tdiv (cost_basis pos * closed_lots (quantity pos) delta) \<bar>quantity pos\<bar>)"

lemma apply_fill_Ok:
  assumes "apply_fill pos delta price mult = Ok pos'"
  shows "\<exists>cd. cd = (if quantity pos > 0 then - closed_lots (quantity pos) delta
                   else closed_lots (quantity pos) delta) \<and>
    pos' = pos\<lparr>quantity := quantity pos + delta,
      cost_basis := cost_basis pos - removed_basis pos delta + (delta - cd) * (price * mult),
      realized_pnl := realized_pnl pos + (- (cd * (price * mult)) - removed_basis pos delta)\<rparr> \<and>
    in_i64 (quantity pos + delta) \<and>
    in_i128 (cost_basis pos - removed_basis pos delta + (delta - cd) * (price * mult)) \<and>
    in_i128 (realized_pnl pos + (- (cd * (price * mult)) - removed_basis pos delta))"
  using assms
  unfolding apply_fill_def Let_def closed_lots_def [symmetric]
  by (cases "closed_lots (quantity pos) delta = 0") (simp_all add: removed_basis_def result_simps)

text \<open>
  The accounting identity of \<open>apply_fill\<close>: the change of cost basis is the realized
  P\&L plus the value traded in, whatever the rounding of the closed share.
\<close>

lemma apply_fill_effect:
  assumes "apply_fill pos delta price mult = Ok pos'"
  shows "quantity pos' = quantity pos + delta"
    and "cost_basis pos' - realized_pnl pos' = cost_basis pos - realized_pnl pos + delta * (price * mult)"
    and "reserved pos' = reserved pos" and "open_buy pos' = open_buy pos"
    and "open_sell pos' = open_sell pos" and "traded pos' = traded pos"
    and "position_ok pos \<Longrightarrow> position_ok pos'"
proof -
  obtain cd where e: "pos' = pos\<lparr>quantity := quantity pos + delta,
      cost_basis := cost_basis pos - removed_basis pos delta + (delta - cd) * (price * mult),
      realized_pnl := realized_pnl pos + (- (cd * (price * mult)) - removed_basis pos delta)\<rparr>"
    and r: "in_i64 (quantity pos + delta)"
      "in_i128 (cost_basis pos - removed_basis pos delta + (delta - cd) * (price * mult))"
      "in_i128 (realized_pnl pos + (- (cd * (price * mult)) - removed_basis pos delta))"
    using apply_fill_Ok [OF assms] by blast
  show "quantity pos' = quantity pos + delta" and "reserved pos' = reserved pos"
    and "open_buy pos' = open_buy pos" and "open_sell pos' = open_sell pos"
    and "traded pos' = traded pos"
    by (simp_all add: e)
  show "cost_basis pos' - realized_pnl pos' = cost_basis pos - realized_pnl pos + delta * (price * mult)"
    by (simp add: e left_diff_distrib)
  show "position_ok pos'" if "position_ok pos"
    using that r by (simp add: e position_ok_def)
qed

text \<open>
  The sign discipline of the basis: it has the sign of the holding, and a flat
  position carries none.
\<close>

definition basis_ok :: "position \<Rightarrow> bool" where
  "basis_ok p \<longleftrightarrow> (quantity p > 0 \<longrightarrow> cost_basis p \<ge> 0) \<and> (quantity p < 0 \<longrightarrow> cost_basis p \<le> 0) \<and>
     (quantity p = 0 \<longrightarrow> cost_basis p = 0)"

lemma apply_fill_basis_ok:
  assumes fill: "apply_fill pos delta price mult = Ok pos'"
    and ok: "basis_ok pos" and pos: "0 < price" "0 < mult"
  shows "basis_ok pos'"
proof -
  let ?k = "closed_lots (quantity pos) delta"
  define u where "u = price * mult"
  obtain cd rem where cb: "cost_basis pos' = cost_basis pos - rem + (delta - cd) * u"
    and cd: "cd = (if quantity pos > 0 then - ?k else ?k)"
    and rem: "rem = (if ?k = 0 then 0 else tdiv (cost_basis pos * ?k) \<bar>quantity pos\<bar>)"
    using apply_fill_Ok [OF fill] by (auto simp: removed_basis_def u_def)
  have q: "quantity pos' = quantity pos + delta"
    using fill by (rule apply_fill_effect)
  have u: "0 < u"
    using pos by (simp add: u_def)
  consider (flat) "quantity pos = 0" | (long) "quantity pos > 0" "delta \<ge> 0"
    | (long_part) "quantity pos > 0" "delta < 0" "- delta < quantity pos"
    | (long_all) "quantity pos > 0" "delta < 0" "quantity pos \<le> - delta"
    | (short) "quantity pos < 0" "delta \<le> 0"
    | (short_part) "quantity pos < 0" "delta > 0" "delta < - quantity pos"
    | (short_all) "quantity pos < 0" "delta > 0" "- quantity pos \<le> delta"
    by linarith
  then show ?thesis
  proof cases
    case flat
    then show ?thesis
      using ok u cb cd rem q by (auto simp: basis_ok_def closed_lots_def mult_le_0_iff zero_le_mult_iff)
  next
    case long
    then show ?thesis
      using ok u cb cd rem q by (auto simp: basis_ok_def closed_lots_def)
  next
    case long_part
    then have "?k = - delta" and "delta - cd = 0" and "0 \<le> cost_basis pos"
      using ok cd by (auto simp: closed_lots_def basis_ok_def)
    moreover from this long_part have "rem \<le> cost_basis pos"
      using rem tdiv_share_le [of "cost_basis pos" "- delta" "quantity pos"] by auto
    ultimately show ?thesis
      using long_part cb q by (auto simp: basis_ok_def)
  next
    case long_all
    then have "?k = quantity pos" and "delta - cd = quantity pos + delta" and "rem = cost_basis pos"
      using cd rem by (auto simp: closed_lots_def tdiv_mult_self)
    then show ?thesis
      using long_all cb q u by (auto simp: basis_ok_def mult_le_0_iff)
  next
    case short
    then show ?thesis
      using ok u cb cd rem q by (auto simp: basis_ok_def closed_lots_def mult_le_0_iff add_nonpos_nonpos)
  next
    case short_part
    then have "?k = delta" and "delta - cd = 0" and "cost_basis pos \<le> 0"
      using ok cd by (auto simp: closed_lots_def basis_ok_def)
    moreover from this short_part have "cost_basis pos \<le> rem"
      using rem tdiv_share_ge [of "cost_basis pos" delta "- quantity pos"] by auto
    ultimately show ?thesis
      using short_part cb q by (auto simp: basis_ok_def)
  next
    case short_all
    then have "?k = - quantity pos" and "delta - cd = quantity pos + delta" and "rem = cost_basis pos"
      using cd rem tdiv_mult_self [of "- quantity pos" "cost_basis pos"] by (auto simp: closed_lots_def)
    then show ?thesis
      using short_all cb q u by (auto simp: basis_ok_def zero_le_mult_iff)
  qed
qed

subsection \<open>One party of a fill\<close>

lemma release_filled_effect:
  assumes "release_filled sd q order bal pos = Ok (bal', pos')"
  shows "balance bal' = balance bal" and "fees bal' = fees bal"
    and "quantity pos' = quantity pos" and "cost_basis pos' = cost_basis pos"
    and "realized_pnl pos' = realized_pnl pos" and "traded pos' = traded pos"
    and "0 < q \<Longrightarrow> reserved pos' \<le> reserved pos"
    and "sd = Buy \<Longrightarrow> reserved pos' = reserved pos"
    and "cash_ok bal \<Longrightarrow> cash_ok bal'" and "position_ok pos \<Longrightarrow> position_ok pos'"
  using assms
  by (auto simp: release_filled_def result_simps cash_ok_def position_ok_def
      split: option.splits side.splits if_splits)

definition side_sign :: "side \<Rightarrow> int" where
  "side_sign sd = (case sd of Buy \<Rightarrow> 1 | Sell \<Rightarrow> - 1)"

lemma settle_balances_Ok:
  assumes "settle_balances t f value sd party bal0 pos0 = Ok (bal', pos')"
  shows "\<exists>bal pos pos1. release_filled sd (fill_quantity f) (party_order party) bal0 pos0 = Ok (bal, pos) \<and>
    apply_fill pos (side_sign sd * fill_quantity f) (fill_price f) (multiplier t) = Ok pos1 \<and>
    bal' = bal\<lparr>balance := balance bal - side_sign sd * value - party_fee party,
               fees := fees bal + party_fee party\<rparr> \<and>
    in_i128 (balance bal') \<and> in_i128 (fees bal') \<and>
    pos' = pos1\<lparr>traded := traded pos1 + fill_quantity f\<rparr> \<and> in_i64 (traded pos') \<and>
    (sd = Sell \<and> \<not> shortable t \<longrightarrow> reserved pos' \<le> quantity pos') \<and>
    (sd = Buy \<and> enforce_funding party \<longrightarrow> cash_reserved bal' \<le> balance bal')"
proof (cases sd)
  case Buy
  with assms show ?thesis
    by (cases "enforce_funding party")
      (auto simp: settle_balances_def Let_def result_simps side_sign_def; blast)+
next
  case Sell
  with assms show ?thesis
    by (cases "shortable t")
      (auto simp: settle_balances_def Let_def result_simps side_sign_def; blast)+
qed

lemma settle_balances_effect:
  assumes "settle_balances t f value sd party bal pos = Ok (bal', pos')"
  shows "balance bal' = balance bal - side_sign sd * value - party_fee party"
    and "fees bal' = fees bal + party_fee party"
    and "quantity pos' = quantity pos + side_sign sd * fill_quantity f"
    and "cost_basis pos' - realized_pnl pos' = cost_basis pos - realized_pnl pos
           + side_sign sd * fill_quantity f * (fill_price f * multiplier t)"
    and "traded pos' = traded pos + fill_quantity f"
    and "cash_ok bal \<Longrightarrow> cash_ok bal'" and "position_ok pos \<Longrightarrow> position_ok pos'"
    and "sd = Sell \<Longrightarrow> \<not> shortable t \<Longrightarrow> reserved pos' \<le> quantity pos'"
    and "sd = Buy \<Longrightarrow> reserved pos' = reserved pos"
    and "sd = Buy \<Longrightarrow> enforce_funding party \<Longrightarrow> cash_reserved bal' \<le> balance bal'"
    and "basis_ok pos \<Longrightarrow> 0 < fill_price f \<Longrightarrow> 0 < multiplier t \<Longrightarrow> basis_ok pos'"
proof -
  obtain bal1 pos1 pos2
    where r: "release_filled sd (fill_quantity f) (party_order party) bal pos = Ok (bal1, pos1)"
      and a: "apply_fill pos1 (side_sign sd * fill_quantity f) (fill_price f) (multiplier t) = Ok pos2"
      and b: "bal' = bal1\<lparr>balance := balance bal1 - side_sign sd * value - party_fee party,
                fees := fees bal1 + party_fee party\<rparr>"
      and bi: "in_i128 (balance bal')" "in_i128 (fees bal')"
      and p: "pos' = pos2\<lparr>traded := traded pos2 + fill_quantity f\<rparr>" and pi: "in_i64 (traded pos')"
      and cov: "sd = Sell \<and> \<not> shortable t \<longrightarrow> reserved pos' \<le> quantity pos'"
      and fund: "sd = Buy \<and> enforce_funding party \<longrightarrow> cash_reserved bal' \<le> balance bal'"
    using settle_balances_Ok [OF assms] by blast
  note rel = release_filled_effect [OF r] and app = apply_fill_effect [OF a]
  show "balance bal' = balance bal - side_sign sd * value - party_fee party"
    and "fees bal' = fees bal + party_fee party"
    by (simp_all add: b rel)
  show "quantity pos' = quantity pos + side_sign sd * fill_quantity f"
    and "traded pos' = traded pos + fill_quantity f"
    and "cost_basis pos' - realized_pnl pos' = cost_basis pos - realized_pnl pos
           + side_sign sd * fill_quantity f * (fill_price f * multiplier t)"
    using app(2) by (simp_all add: p app(1,6) rel)
  show "cash_ok bal'" if "cash_ok bal"
    using rel(9) [OF that] bi by (auto simp: cash_ok_def b)
  show "position_ok pos'" if "position_ok pos"
    using app(7) [OF rel(10) [OF that]] pi by (auto simp: position_ok_def p)
  show "reserved pos' = reserved pos" if "sd = Buy"
    using that by (simp add: p app(3) rel)
  show "sd = Sell \<Longrightarrow> \<not> shortable t \<Longrightarrow> reserved pos' \<le> quantity pos'"
    and "sd = Buy \<Longrightarrow> enforce_funding party \<Longrightarrow> cash_reserved bal' \<le> balance bal'"
    using cov fund by blast+
  show "basis_ok pos'" if "basis_ok pos" "0 < fill_price f" "0 < multiplier t"
    using apply_fill_basis_ok [OF a] that by (auto simp: basis_ok_def p rel)
qed

subsection \<open>The staged maps of a settlement\<close>

text \<open>A participant's balance and position as a settlement in progress sees them.\<close>

definition stage_cash :: "ledger \<Rightarrow> currency_id \<Rightarrow> staged \<Rightarrow> participant_id \<Rightarrow> cash_balance" where
  "stage_cash l c stage p = (case bt_get (fst stage) p of Some b \<Rightarrow> b | None \<Rightarrow> ledger_cash l p c)"

definition stage_position :: "ledger \<Rightarrow> instrument_id \<Rightarrow> staged \<Rightarrow> participant_id \<Rightarrow> position" where
  "stage_position l i stage p = (case bt_get (snd stage) p of Some x \<Rightarrow> x | None \<Rightarrow> ledger_position l p i)"

definition stage_wf :: "staged \<Rightarrow> bool" where
  "stage_wf stage \<longleftrightarrow> bt_wf (fst stage) \<and> bt_wf (snd stage)"

lemma stage_empty [simp]:
  "stage_wf ([], [])" "stage_cash l c ([], []) p = ledger_cash l p c"
  "stage_position l i ([], []) p = ledger_position l p i"
  by (simp_all add: stage_wf_def stage_cash_def stage_position_def)

lemma settle_party_None [simp]: "settle_party l t f v sd None stage = Ok stage"
  by (simp add: settle_party_def)

lemma settle_party_Some:
  assumes "settle_party l t f v sd (Some pa) stage = Ok stage'"
  obtains bal pos where
    "settle_balances t f v sd pa (stage_cash l (currency t) stage (party_participant pa))
       (stage_position l (fill_instrument f) stage (party_participant pa)) = Ok (bal, pos)"
    and "stage' = (bt_insert (party_participant pa) bal (fst stage),
                   bt_insert (party_participant pa) pos (snd stage))"
  using assms
  by (auto simp: settle_party_def Let_def result_simps stage_cash_def stage_position_def)

lemma settle_party_wf: "settle_party l t f v sd party stage = Ok stage' \<Longrightarrow> stage_wf stage \<Longrightarrow> stage_wf stage'"
  by (cases party) (auto simp: stage_wf_def elim!: settle_party_Some)

lemma fold_insert_keyed_get:
  assumes "bt_wf xs"
  shows "bt_get (fold (\<lambda>(p, b). bt_insert (p, c) b) xs m) (q, d)
       = (if d = c then (case bt_get xs q of Some b \<Rightarrow> Some b | None \<Rightarrow> bt_get m (q, c))
          else bt_get m (q, d))"
  using assms
proof (induction xs arbitrary: m)
  case (Cons x xs)
  obtain p b where x: "x = (p, b)" by (cases x)
  with Cons.prems have "bt_wf xs" and "bt_get xs p = None"
    by (auto simp: bt_wf_Cons map_of_eq_None_iff)
  then show ?case
    by (auto simp: x Cons.IH split: option.splits)
qed simp

lemma fold_insert_keyed_wf:
  "bt_wf m \<Longrightarrow> bt_wf (fold (\<lambda>(p, b). bt_insert (p, c) b) xs m)"
  by (induction xs arbitrary: m) auto

text \<open>The sum over a map after writing distinct staged entries into it.\<close>

lemma fold_insert_keyed_sum:
  fixes g :: "'v \<Rightarrow> int" and d :: 'v
  assumes "bt_wf m" and "bt_wf xs" and "g d = 0"
  shows "(\<Sum>(k, b) \<leftarrow> fold (\<lambda>(p, b). bt_insert (p, c) b) xs m. if snd k = c then g b else 0)
       = (\<Sum>(k, b) \<leftarrow> m. if snd k = c then g b else 0)
       + (\<Sum>(p, b) \<leftarrow> xs. g b - g (case bt_get m (p, c) of None \<Rightarrow> d | Some w \<Rightarrow> w))"
  using assms(1,2)
proof (induction xs arbitrary: m)
  case (Cons x xs)
  obtain p b where x: "x = (p, b)" by (cases x)
  let ?f = "\<lambda>k v. if snd k = c then g v else 0"
  have wf: "bt_wf xs" and absent: "\<And>e. e \<in> set xs \<Longrightarrow> fst e \<noteq> p"
    using Cons.prems x by (auto simp: bt_wf_Cons)
  have "(\<Sum>(q, w) \<leftarrow> xs. g w - g (case bt_get (bt_insert (p, c) b m) (q, c) of None \<Rightarrow> d | Some w \<Rightarrow> w))
      = (\<Sum>(q, w) \<leftarrow> xs. g w - g (case bt_get m (q, c) of None \<Rightarrow> d | Some w \<Rightarrow> w))"
    using absent by (intro arg_cong [of _ _ sum_list] map_cong) auto
  moreover have "(\<Sum>(k, b) \<leftarrow> bt_insert (p, c) b m. if snd k = c then g b else 0)
      = (\<Sum>(k, b) \<leftarrow> m. if snd k = c then g b else 0)
        - g (case bt_get m (p, c) of None \<Rightarrow> d | Some w \<Rightarrow> w) + g b"
    using bt.sum_ins [OF Cons.prems(1), where f = ?f and k = "(p, c)" and v = b] assms(3)
    by (auto split: option.splits)
  ultimately show ?case
    using Cons.IH [OF bt_wf_insert [OF Cons.prems(1)] wf, of "(p, c)" b] by (simp add: x)
qed simp

lemma fold_insert_keyed_sum_other:
  fixes g :: "'v \<Rightarrow> int"
  assumes "bt_wf m" and "d \<noteq> c"
  shows "(\<Sum>(k, b) \<leftarrow> fold (\<lambda>(p, b). bt_insert (p, c) b) xs m. if snd k = d then g b else 0)
       = (\<Sum>(k, b) \<leftarrow> m. if snd k = d then g b else 0)"
  using assms(1)
proof (induction xs arbitrary: m)
  case (Cons x xs)
  obtain p b where "x = (p, b)" by (cases x)
  with Cons.IH [OF bt_wf_insert [OF Cons.prems]] assms(2)
    bt.sum_ins [OF Cons.prems, of "\<lambda>k b. if snd k = d then g b else 0" "(p, c)" b]
  show ?case by (auto split: option.splits)
qed simp

lemma ledger_cash_write_staged:
  "stage_wf stage \<Longrightarrow> ledger_cash (write_staged c i stage l) p d
     = (if d = c then stage_cash l c stage p else ledger_cash l p d)"
  by (auto simp: ledger_cash_def write_staged_def stage_cash_def stage_wf_def fold_insert_keyed_get
      split: option.splits)

lemma ledger_position_write_staged:
  "stage_wf stage \<Longrightarrow> ledger_position (write_staged c i stage l) p j
     = (if j = i then stage_position l i stage p else ledger_position l p j)"
  by (auto simp: ledger_position_def write_staged_def stage_position_def stage_wf_def fold_insert_keyed_get
      split: option.splits)

lemma ledger_views_marks [simp]:
  "ledger_cash (l\<lparr>marks_map := m\<rparr>) p c = ledger_cash l p c"
  "ledger_position (l\<lparr>marks_map := m\<rparr>) p i = ledger_position l p i"
  by (simp_all add: ledger_cash_def ledger_position_def)

text \<open>Inversion of \<open>settle\<close>.\<close>

lemma settle_Ok:
  assumes "settle l f = Ok l'"
  obtains t stage1 stage where
    "bt_get (terms_map l) (fill_instrument f) = Some t"
    "0 < fill_quantity f" "0 < fill_price f"
    "settle_party l t f (fill_price f * fill_quantity f * multiplier t) Buy (buyer f) ([], []) = Ok stage1"
    "settle_party l t f (fill_price f * fill_quantity f * multiplier t) Sell (seller f) stage1 = Ok stage"
    "stage_wf stage1" "stage_wf stage"
    "l' = (let l1 = write_staged (currency t) (fill_instrument f) stage l in
           if fill_set_mark f
           then l1\<lparr>marks_map := bt_insert (fill_instrument f) (fill_price f) (marks_map l1)\<rparr>
           else l1)"
proof -
  from assms obtain t stage1 stage where *:
    "bt_get (terms_map l) (fill_instrument f) = Some t"
    "0 < fill_quantity f" "0 < fill_price f"
    "settle_party l t f (fill_price f * fill_quantity f * multiplier t) Buy (buyer f) ([], []) = Ok stage1"
    "settle_party l t f (fill_price f * fill_quantity f * multiplier t) Sell (seller f) stage1 = Ok stage"
    "l' = (let l1 = write_staged (currency t) (fill_instrument f) stage l in
           if fill_set_mark f
           then l1\<lparr>marks_map := bt_insert (fill_instrument f) (fill_price f) (marks_map l1)\<rparr>
           else l1)"
    by (auto simp: settle_def result_simps not_le Let_def)
  moreover from *(4) have "stage_wf stage1"
    by (rule settle_party_wf) simp
  moreover from *(5) this have "stage_wf stage"
    by (rule settle_party_wf)
  ultimately show thesis
    using that by blast
qed

lemma stage_cash_insert:
  "stage_cash l c (bt_insert p b (fst stage), ps) q = (if q = p then b else stage_cash l c stage q)"
  by (simp add: stage_cash_def)

lemma stage_position_insert:
  "stage_position l i (bs, bt_insert p x (snd stage)) q = (if q = p then x else stage_position l i stage q)"
  by (simp add: stage_position_def)

lemmas stage_insert = stage_cash_insert stage_position_insert

text \<open>
  An invariant of one participant's balance and position that \<open>settle_balances\<close> keeps
  is kept by the whole settlement.
\<close>

lemma settle_party_pointwise:
  assumes "settle_party l t f v sd party stage = Ok stage'"
    and "P p (stage_cash l (currency t) stage p) (stage_position l (fill_instrument f) stage p)"
    and "\<And>pa bal pos bal' pos'. settle_balances t f v sd pa bal pos = Ok (bal', pos') \<Longrightarrow>
           P (party_participant pa) bal pos \<Longrightarrow> P (party_participant pa) bal' pos'"
  shows "P p (stage_cash l (currency t) stage' p) (stage_position l (fill_instrument f) stage' p)"
proof (cases party)
  case None
  with assms show ?thesis by simp
next
  case (Some pa)
  with assms(1) obtain bal pos where
    "settle_balances t f v sd pa (stage_cash l (currency t) stage (party_participant pa))
       (stage_position l (fill_instrument f) stage (party_participant pa)) = Ok (bal, pos)"
    and "stage' = (bt_insert (party_participant pa) bal (fst stage),
                   bt_insert (party_participant pa) pos (snd stage))"
    by (auto elim: settle_party_Some)
  with assms(2,3) show ?thesis
    by (auto simp: stage_insert)
qed

lemma settle_pointwise:
  assumes "settle l f = Ok l'" and "bt_get (terms_map l) (fill_instrument f) = Some t"
    and "\<And>sd pa bal pos bal' pos'.
           settle_balances t f (fill_price f * fill_quantity f * multiplier t) sd pa bal pos = Ok (bal', pos') \<Longrightarrow>
           0 < fill_price f \<Longrightarrow> 0 < fill_quantity f \<Longrightarrow>
           P (party_participant pa) bal pos \<Longrightarrow> P (party_participant pa) bal' pos'"
    and "P p (ledger_cash l p (currency t)) (ledger_position l p (fill_instrument f))"
  shows "P p (ledger_cash l' p (currency t)) (ledger_position l' p (fill_instrument f))"
  using assms(1)
proof (rule settle_Ok, goal_cases)
  case (1 t' stage1 stage)
  with assms(2) have t: "t' = t" by simp
  have "P p (stage_cash l (currency t) stage1 p) (stage_position l (fill_instrument f) stage1 p)"
    using "1"(4)[unfolded t] by (rule settle_party_pointwise) (use "1" assms(3,4) in auto)
  with "1"(5)[unfolded t] have "P p (stage_cash l (currency t) stage p) (stage_position l (fill_instrument f) stage p)"
    by (rule settle_party_pointwise) (use "1" assms(3) in auto)
  then show ?thesis
    using "1" t
    by (simp add: Let_def ledger_cash_write_staged ledger_position_write_staged)
qed

text \<open>What a settlement leaves alone.\<close>

lemma settle_frame:
  assumes "settle l f = Ok l'" and "bt_get (terms_map l) (fill_instrument f) = Some t"
  shows "terms_map l' = terms_map l"
    and "c \<noteq> currency t \<Longrightarrow> ledger_cash l' p c = ledger_cash l p c"
    and "i \<noteq> fill_instrument f \<Longrightarrow> ledger_position l' p i = ledger_position l p i"
    and "ledger_mark l' i = (if fill_set_mark f \<and> i = fill_instrument f then Some (fill_price f) else ledger_mark l i)"
  using assms(1)
  by (rule settle_Ok,
      insert assms(2), auto simp: Let_def write_staged_def ledger_mark_def ledger_cash_def
        ledger_position_def stage_wf_def fold_insert_keyed_get)+

subsection \<open>Conservation\<close>

definition total_cash :: "ledger \<Rightarrow> currency_id \<Rightarrow> int" where
  "total_cash l c = (\<Sum>(k, b) \<leftarrow> cash_map l. if snd k = c then balance b else 0)"

definition total_quantity :: "ledger \<Rightarrow> instrument_id \<Rightarrow> int" where
  "total_quantity l i = (\<Sum>(k, x) \<leftarrow> positions_map l. if snd k = i then quantity x else 0)"

definition stage_cash_gain :: "ledger \<Rightarrow> currency_id \<Rightarrow> staged \<Rightarrow> int" where
  "stage_cash_gain l c stage = (\<Sum>(p, b) \<leftarrow> fst stage. balance b - balance (ledger_cash l p c))"

definition stage_quantity_gain :: "ledger \<Rightarrow> instrument_id \<Rightarrow> staged \<Rightarrow> int" where
  "stage_quantity_gain l i stage = (\<Sum>(p, x) \<leftarrow> snd stage. quantity x - quantity (ledger_position l p i))"

lemma settle_party_gain:
  assumes "settle_party l t f v sd (Some pa) stage = Ok stage'" and "stage_wf stage"
  shows "stage_cash_gain l (currency t) stage'
       = stage_cash_gain l (currency t) stage - side_sign sd * v - party_fee pa"
    and "stage_quantity_gain l (fill_instrument f) stage'
       = stage_quantity_gain l (fill_instrument f) stage + side_sign sd * fill_quantity f"
proof -
  obtain bal pos where b: "settle_balances t f v sd pa (stage_cash l (currency t) stage (party_participant pa))
       (stage_position l (fill_instrument f) stage (party_participant pa)) = Ok (bal, pos)"
    and s: "stage' = (bt_insert (party_participant pa) bal (fst stage),
                   bt_insert (party_participant pa) pos (snd stage))"
    using assms(1) by (rule settle_party_Some)
  note eff = settle_balances_effect [OF b]
  show "stage_cash_gain l (currency t) stage'
      = stage_cash_gain l (currency t) stage - side_sign sd * v - party_fee pa"
    using assms(2) bt.sum_ins [of "fst stage" "\<lambda>p b. balance b - balance (ledger_cash l p (currency t))"
        "party_participant pa" bal]
    by (simp add: s stage_cash_gain_def stage_wf_def eff(1) stage_cash_def split: option.splits)
  show "stage_quantity_gain l (fill_instrument f) stage'
      = stage_quantity_gain l (fill_instrument f) stage + side_sign sd * fill_quantity f"
    using assms(2) bt.sum_ins [of "snd stage"
        "\<lambda>p x. quantity x - quantity (ledger_position l p (fill_instrument f))" "party_participant pa" pos]
    by (simp add: s stage_quantity_gain_def stage_wf_def eff(3) stage_position_def split: option.splits)
qed

lemma total_cash_write_staged:
  assumes "bt_wf (cash_map l)" and "stage_wf stage"
  shows "total_cash (write_staged c i stage l) d
       = total_cash l d + (if d = c then stage_cash_gain l c stage else 0)"
proof (cases "d = c")
  case True
  have "(case bt_get (cash_map l) (p, c) of None \<Rightarrow> default_cash | Some w \<Rightarrow> w) = ledger_cash l p c" for p
    by (simp add: ledger_cash_def)
  then show ?thesis
    using True assms fold_insert_keyed_sum [of "cash_map l" "fst stage" balance default_cash c]
    by (simp add: total_cash_def write_staged_def stage_wf_def stage_cash_gain_def default_cash_def)
next
  case False
  with assms show ?thesis
    by (simp add: total_cash_def write_staged_def fold_insert_keyed_sum_other)
qed

lemma total_quantity_write_staged:
  assumes "bt_wf (positions_map l)" and "stage_wf stage"
  shows "total_quantity (write_staged c i stage l) j
       = total_quantity l j + (if j = i then stage_quantity_gain l i stage else 0)"
proof (cases "j = i")
  case True
  have "(case bt_get (positions_map l) (p, i) of None \<Rightarrow> default_position | Some w \<Rightarrow> w)
      = ledger_position l p i" for p
    by (simp add: ledger_position_def)
  then show ?thesis
    using True assms fold_insert_keyed_sum [of "positions_map l" "snd stage" quantity default_position i]
    by (simp add: total_quantity_def write_staged_def stage_wf_def stage_quantity_gain_def default_position_def)
next
  case False
  with assms show ?thesis
    by (simp add: total_quantity_def write_staged_def fold_insert_keyed_sum_other)
qed

lemma total_marks [simp]:
  "total_cash (l\<lparr>marks_map := m\<rparr>) c = total_cash l c"
  "total_quantity (l\<lparr>marks_map := m\<rparr>) i = total_quantity l i"
  by (simp_all add: total_cash_def total_quantity_def)

lemma settle_totals:
  assumes "settle l f = Ok l'" and "buyer f = Some b" and "seller f = Some s"
    and "bt_wf (cash_map l)" and "bt_wf (positions_map l)"
    and "bt_get (terms_map l) (fill_instrument f) = Some t"
  shows "total_cash l' c = total_cash l c - (if c = currency t then party_fee b + party_fee s else 0)"
    and "total_quantity l' i = total_quantity l i"
proof -
  let ?v = "fill_price f * fill_quantity f * multiplier t"
  obtain stage1 stage where s1: "settle_party l t f ?v Buy (Some b) ([], []) = Ok stage1"
    and s2: "settle_party l t f ?v Sell (Some s) stage1 = Ok stage"
    and wf: "stage_wf stage1" "stage_wf stage"
    and l': "l' = (let l1 = write_staged (currency t) (fill_instrument f) stage l in
           if fill_set_mark f
           then l1\<lparr>marks_map := bt_insert (fill_instrument f) (fill_price f) (marks_map l1)\<rparr>
           else l1)"
    using assms(1) by (rule settle_Ok) (use assms in auto)
  have "stage_cash_gain l (currency t) ([], []) = 0"
    and "stage_quantity_gain l (fill_instrument f) ([], []) = 0"
    by (simp_all add: stage_cash_gain_def stage_quantity_gain_def)
  with settle_party_gain [OF s1] settle_party_gain [OF s2 wf(1)]
  have "stage_cash_gain l (currency t) stage = - party_fee b - party_fee s"
    and "stage_quantity_gain l (fill_instrument f) stage = 0"
    by (simp_all add: side_sign_def)
  then show "total_cash l' c = total_cash l c - (if c = currency t then party_fee b + party_fee s else 0)"
    and "total_quantity l' i = total_quantity l i"
    using wf assms(4,5)
    by (simp_all add: l' Let_def total_cash_write_staged total_quantity_write_staged)
qed

text \<open>Cash together with the fees taken from it.\<close>

definition total_money :: "ledger \<Rightarrow> currency_id \<Rightarrow> int" where
  "total_money l c = (\<Sum>(k, b) \<leftarrow> cash_map l. if snd k = c then balance b + fees b else 0)"

definition stage_money_gain :: "ledger \<Rightarrow> currency_id \<Rightarrow> staged \<Rightarrow> int" where
  "stage_money_gain l c stage =
     (\<Sum>(p, b) \<leftarrow> fst stage. (balance b + fees b) - (balance (ledger_cash l p c) + fees (ledger_cash l p c)))"

lemma settle_party_money:
  assumes "settle_party l t f v sd (Some pa) stage = Ok stage'" and "stage_wf stage"
  shows "stage_money_gain l (currency t) stage' = stage_money_gain l (currency t) stage - side_sign sd * v"
proof -
  obtain bal pos where b: "settle_balances t f v sd pa (stage_cash l (currency t) stage (party_participant pa))
       (stage_position l (fill_instrument f) stage (party_participant pa)) = Ok (bal, pos)"
    and s: "stage' = (bt_insert (party_participant pa) bal (fst stage),
                   bt_insert (party_participant pa) pos (snd stage))"
    using assms(1) by (rule settle_party_Some)
  note eff = settle_balances_effect [OF b]
  show ?thesis
    using assms(2) bt.sum_ins [of "fst stage"
        "\<lambda>p b. (balance b + fees b) - (balance (ledger_cash l p (currency t)) + fees (ledger_cash l p (currency t)))"
        "party_participant pa" bal]
    by (simp add: s stage_money_gain_def stage_wf_def eff(1,2) stage_cash_def split: option.splits)
qed

lemma total_money_write_staged:
  assumes "bt_wf (cash_map l)" and "stage_wf stage"
  shows "total_money (write_staged c i stage l) d
       = total_money l d + (if d = c then stage_money_gain l c stage else 0)"
proof (cases "d = c")
  case True
  have "(case bt_get (cash_map l) (p, c) of None \<Rightarrow> default_cash | Some w \<Rightarrow> w) = ledger_cash l p c" for p
    by (simp add: ledger_cash_def)
  then show ?thesis
    using True assms fold_insert_keyed_sum [of "cash_map l" "fst stage" "\<lambda>b. balance b + fees b" default_cash c]
    by (simp add: total_money_def write_staged_def stage_wf_def stage_money_gain_def default_cash_def)
next
  case False
  with assms show ?thesis
    by (simp add: total_money_def write_staged_def fold_insert_keyed_sum_other)
qed

lemma settle_money:
  assumes "settle l f = Ok l'" and "buyer f = Some b" and "seller f = Some s" and "bt_wf (cash_map l)"
  shows "total_money l' c = total_money l c"
  using assms(1)
proof (cases rule: settle_Ok)
  case (1 t stage1 stage)
  have "stage_money_gain l (currency t) ([], []) = 0"
    by (simp add: stage_money_gain_def)
  then have "stage_money_gain l (currency t) stage = 0"
    using settle_party_money [of l t f _ Buy b "([], [])" stage1] settle_party_money [of l t f _ Sell s stage1 stage] 1 assms(2,3)
    by (simp add: side_sign_def stage_wf_def)
  then show ?thesis
    using total_money_write_staged [OF assms(4) 1(7)] by (simp add: 1(8) Let_def total_money_def)
qed

subsection \<open>The representation invariant\<close>

definition ledger_wf :: "ledger \<Rightarrow> bool" where
  "ledger_wf l \<longleftrightarrow>
     bt_wf (terms_map l) \<and> bt_wf (cash_map l) \<and> bt_wf (positions_map l) \<and> bt_wf (marks_map l) \<and>
     list_all (\<lambda>(i, t). i \<noteq> 0 \<and> terms_ok t) (terms_map l) \<and>
     list_all (\<lambda>(_, b). cash_ok b) (cash_map l) \<and>
     list_all (\<lambda>(_, x). position_ok x) (positions_map l) \<and>
     list_all (\<lambda>(_, m). 0 < m \<and> in_i64 m) (marks_map l)"

lemma list_all_bt_iff:
  "bt_wf m \<Longrightarrow> list_all (\<lambda>(k, v). Q k v) m \<longleftrightarrow> (\<forall>k v. bt_get m k = Some v \<longrightarrow> Q k v)"
  by (auto simp: list_all_iff bt_get_mem)

text \<open>The invariant through the ledger's own queries.\<close>

lemma ledger_wf_views:
  "ledger_wf l \<longleftrightarrow>
     bt_wf (terms_map l) \<and> bt_wf (cash_map l) \<and> bt_wf (positions_map l) \<and> bt_wf (marks_map l) \<and>
     (\<forall>i t. bt_get (terms_map l) i = Some t \<longrightarrow> i \<noteq> 0 \<and> terms_ok t) \<and>
     (\<forall>p c. cash_ok (ledger_cash l p c)) \<and> (\<forall>p i. position_ok (ledger_position l p i)) \<and>
     (\<forall>i m. ledger_mark l i = Some m \<longrightarrow> 0 < m \<and> in_i64 m)"
proof -
  have "(\<forall>k b. bt_get (cash_map l) k = Some b \<longrightarrow> cash_ok b) \<longleftrightarrow> (\<forall>p c. cash_ok (ledger_cash l p c))"
    by (auto simp: ledger_cash_def split: option.splits)
  moreover have "(\<forall>k x. bt_get (positions_map l) k = Some x \<longrightarrow> position_ok x) \<longleftrightarrow>
      (\<forall>p i. position_ok (ledger_position l p i))"
    by (auto simp: ledger_position_def split: option.splits)
  ultimately show ?thesis
    unfolding ledger_wf_def ledger_mark_def
    by (auto simp: list_all_bt_iff [of "terms_map l"] list_all_bt_iff [of "cash_map l"]
        list_all_bt_iff [of "positions_map l"] list_all_bt_iff [of "marks_map l"])
qed

lemma ledger_wfD:
  assumes "ledger_wf l"
  shows "cash_ok (ledger_cash l p c)" and "position_ok (ledger_position l p i)"
    and "bt_get (terms_map l) i = Some t \<Longrightarrow> terms_ok t"
    and "bt_wf (cash_map l)" and "bt_wf (positions_map l)"
  using assms by (auto simp: ledger_wf_views)

text \<open>How the views change under a write.\<close>

lemma ledger_cash_update [simp]:
  "ledger_cash (l\<lparr>cash_map := bt_insert (p, c) b m\<rparr>) q d
     = (if (q, d) = (p, c) then b else ledger_cash (l\<lparr>cash_map := m\<rparr>) q d)"
  by (simp add: ledger_cash_def)

lemma ledger_position_update [simp]:
  "ledger_position (l\<lparr>positions_map := bt_insert (p, i) x m\<rparr>) q j
     = (if (q, j) = (p, i) then x else ledger_position (l\<lparr>positions_map := m\<rparr>) q j)"
  by (simp add: ledger_position_def)

lemma ledger_views_frame [simp]:
  "ledger_cash (l\<lparr>positions_map := ps\<rparr>) = ledger_cash l"
  "ledger_cash (l\<lparr>terms_map := ts\<rparr>) = ledger_cash l"
  "ledger_position (l\<lparr>cash_map := cs\<rparr>) = ledger_position l"
  "ledger_position (l\<lparr>terms_map := ts\<rparr>) = ledger_position l"
  "ledger_mark (l\<lparr>cash_map := cs\<rparr>) = ledger_mark l"
  "ledger_mark (l\<lparr>positions_map := ps\<rparr>) = ledger_mark l"
  "ledger_mark (l\<lparr>terms_map := ts\<rparr>) = ledger_mark l"
  by (auto simp: ledger_cash_def ledger_position_def ledger_mark_def fun_eq_iff)

lemma ledger_cash_two_writes [simp]:
  "ledger_cash (l\<lparr>positions_map := ps, cash_map := cs\<rparr>) = ledger_cash (l\<lparr>cash_map := cs\<rparr>)"
  "ledger_position (l\<lparr>positions_map := ps, cash_map := cs\<rparr>) = ledger_position (l\<lparr>positions_map := ps\<rparr>)"
  by (auto simp: ledger_cash_def ledger_position_def fun_eq_iff)

subsection \<open>Open orders\<close>

lemma change_open_buy_effect:
  assumes "change_open_buy q res opn delta pos cash = Ok (pos', cash')"
  shows "pos' = pos\<lparr>open_buy := open_buy pos + delta\<rparr>"
    and "cash' = cash\<lparr>cash_reserved := cash_reserved cash
           + (if opn then cash_per_lot res * q else - (cash_per_lot res * q))\<rparr>"
    and "in_i64 (open_buy pos + delta)" and "in_i128 (cash_per_lot res * q)"
    and "in_i128 (cash_reserved cash')" and "0 \<le> cash_reserved cash'"
    and "opn \<Longrightarrow> cash_reserved cash' \<le> balance cash'"
  using assms
  by (cases opn; auto simp: change_open_buy_def Let_def result_simps not_less)+

lemma change_open_sell_effect:
  assumes "change_open_sell res opn delta pos cash = Ok (pos', cash')"
  shows "pos' = pos\<lparr>open_sell := open_sell pos + delta,
           reserved := reserved pos + (if inventory res then delta else 0)\<rparr>"
    and "cash' = cash" and "in_i64 (open_sell pos + delta)"
    and "inventory res \<Longrightarrow> in_i64 (reserved pos + delta) \<and> 0 \<le> reserved pos + delta"
    and "inventory res \<Longrightarrow> opn \<Longrightarrow> reserved pos' \<le> quantity pos'"
  using assms
  by (cases opn; cases "inventory res"; auto simp: change_open_sell_def Let_def result_simps not_less)+

lemma change_open_Ok:
  assumes "change_open l p i sd q res opn = Ok l'"
  obtains t pos cash delta where
    "bt_get (terms_map l) i = Some t" "0 < q"
    "delta = (if opn then q else - q)" "opn \<or> in_i64 (- q)"
    "(case sd of
        Buy \<Rightarrow> change_open_buy q res opn delta (ledger_position l p i) (ledger_cash l p (currency t))
      | Sell \<Rightarrow> change_open_sell res opn delta (ledger_position l p i) (ledger_cash l p (currency t)))
     = Ok (pos, cash)"
    "0 \<le> open_buy pos" "0 \<le> open_sell pos"
    "l' = l\<lparr>positions_map := bt_insert (p, i) pos (positions_map l),
            cash_map := bt_insert (p, currency t) cash (cash_map l)\<rparr>"
proof -
  from assms obtain t pos cash delta where *:
    "bt_get (terms_map l) i = Some t" "0 < q"
    "(if opn then Some q else i64_checked_sub 0 q) = Some delta"
    "(case sd of
        Buy \<Rightarrow> change_open_buy q res opn delta (ledger_position l p i) (ledger_cash l p (currency t))
      | Sell \<Rightarrow> change_open_sell res opn delta (ledger_position l p i) (ledger_cash l p (currency t)))
     = Ok (pos, cash)"
    "0 \<le> open_buy pos" "0 \<le> open_sell pos"
    "l' = l\<lparr>positions_map := bt_insert (p, i) pos (positions_map l),
            cash_map := bt_insert (p, currency t) cash (cash_map l)\<rparr>"
    by (auto simp: change_open_def Let_def result_simps not_le not_less)
  moreover from *(3) have "delta = (if opn then q else - q)" and "opn \<or> in_i64 (- q)"
    by (cases opn; simp add: result_simps)+
  ultimately show thesis
    using that by blast
qed

lemma change_open_position_ok:
  assumes "(case sd of
        Buy \<Rightarrow> change_open_buy q res opn delta pos cash
      | Sell \<Rightarrow> change_open_sell res opn delta pos cash) = Ok (pos', cash')"
    and "0 \<le> open_buy pos'" and "0 \<le> open_sell pos'"
  shows "position_ok pos \<Longrightarrow> position_ok pos'" and "cash_ok cash \<Longrightarrow> cash_ok cash'"
proof -
  have "(position_ok pos \<longrightarrow> position_ok pos') \<and> (cash_ok cash \<longrightarrow> cash_ok cash')"
  proof (cases sd)
    case Buy
    with assms(1) have b: "change_open_buy q res opn delta pos cash = Ok (pos', cash')"
      by simp
    show ?thesis
      using change_open_buy_effect [OF b] assms(2)
      by (auto simp: position_ok_def cash_ok_def simp del: split_paired_All)
  next
    case Sell
    with assms(1) have b: "change_open_sell res opn delta pos cash = Ok (pos', cash')"
      by simp
    show ?thesis
      using change_open_sell_effect [OF b] assms(3)
      by (cases "inventory res") (auto simp: position_ok_def)
  qed
  then show "position_ok pos \<Longrightarrow> position_ok pos'" and "cash_ok cash \<Longrightarrow> cash_ok cash'"
    by blast+
qed

subsection \<open>Every operation keeps the invariant\<close>

lemma configure_instrument_wf:
  "configure_instrument l i t = Ok l' \<Longrightarrow> in_i64 (multiplier t) \<Longrightarrow> ledger_wf l \<Longrightarrow> ledger_wf l'"
  by (auto simp: configure_instrument_def ledger_wf_views terms_ok_def split: if_splits)

lemma set_mark_wf: "set_mark l i m = Ok l' \<Longrightarrow> in_i64 m \<Longrightarrow> ledger_wf l \<Longrightarrow> ledger_wf l'"
  by (auto simp: set_mark_def result_simps ledger_wf_views ledger_mark_def split: if_splits)

lemma post_cash_wf: "post_cash l p c amount = Ok l' \<Longrightarrow> ledger_wf l \<Longrightarrow> ledger_wf l'"
  by (auto simp: post_cash_def Let_def result_simps ledger_wf_views cash_ok_def split: if_splits)

lemma seed_position_wf:
  "seed_position l p i q basis = Ok l' \<Longrightarrow> in_i64 q \<Longrightarrow> in_i128 basis \<Longrightarrow> ledger_wf l \<Longrightarrow> ledger_wf l'"
  by (auto simp: seed_position_def Let_def result_simps ledger_wf_views position_ok_def)

lemma change_open_wf:
  assumes "change_open l p i sd q res opn = Ok l'" and "ledger_wf l"
  shows "ledger_wf l'"
  using assms(1)
proof (rule change_open_Ok, goal_cases)
  case (1 t pos cash delta)
  have "position_ok pos" and "cash_ok cash"
    using change_open_position_ok [OF "1"(5-7)] assms(2) by (auto simp: ledger_wf_views)
  then show ?case
    using assms(2) by (auto simp: "1"(8) ledger_wf_views ledger_mark_def)
qed

lemma change_open_totals:
  assumes "change_open l p i sd q res opn = Ok l'" and "ledger_wf l"
  shows "total_money l' c = total_money l c" and "total_quantity l' j = total_quantity l j"
  using assms(1)
proof (atomize (full), rule change_open_Ok, goal_cases)
  case (1 t pos cash delta)
  have same: "balance cash = balance (ledger_cash l p (currency t))" "fees cash = fees (ledger_cash l p (currency t))"
    "quantity pos = quantity (ledger_position l p i)"
    using 1(5) by (auto simp: change_open_buy_def change_open_sell_def Let_def result_simps split: side.splits if_splits)
  have "total_money l' c = total_money l c"
    using bt.sum_ins [of "cash_map l" "\<lambda>k b. if snd k = c then balance b + fees b else 0" "(p, currency t)" cash] assms(2) same
    by (auto simp: 1(8) total_money_def ledger_wf_def ledger_cash_def default_cash_def split: option.splits)
  moreover have "total_quantity l' j = total_quantity l j"
    using bt.sum_ins [of "positions_map l" "\<lambda>k x. if snd k = j then quantity x else 0" "(p, i)" pos] assms(2) same
    by (auto simp: 1(8) total_quantity_def ledger_wf_def ledger_position_def default_position_def split: option.splits)
  ultimately show ?case
    by blast
qed

lemma settle_wf:
  assumes "settle l f = Ok l'" and "fill_set_mark f \<longrightarrow> in_i64 (fill_price f)" and "ledger_wf l"
  shows "ledger_wf l'"
proof -
  obtain t where t: "bt_get (terms_map l) (fill_instrument f) = Some t"
    using assms(1) by (rule settle_Ok)
  have "cash_ok (ledger_cash l' p (currency t)) \<and> position_ok (ledger_position l' p (fill_instrument f))" for p
    using assms(1) t
    by (rule settle_pointwise [where P = "\<lambda>_ b x. cash_ok b \<and> position_ok x"])
      (use assms(3) settle_balances_effect in \<open>auto simp: ledger_wf_views\<close>)
  then have "cash_ok (ledger_cash l' p c)" and "position_ok (ledger_position l' p i)" for p c i
    using settle_frame [OF assms(1) t] assms(3)
    by (cases "c = currency t"; cases "i = fill_instrument f"; simp add: ledger_wf_views)+
  moreover have "bt_wf (cash_map l')" "bt_wf (positions_map l')" "bt_wf (marks_map l')"
    and "terms_map l' = terms_map l" and "0 < fill_price f"
    using assms(1,3) by (auto elim!: settle_Ok simp: Let_def write_staged_def ledger_wf_views fold_insert_keyed_wf)
  ultimately show ?thesis
    using settle_frame(4) [OF assms(1) t] assms(2,3) by (auto simp: ledger_wf_views split: if_splits)
qed

text \<open>The entry that a conversion leg stages is the participant's position, moved.\<close>

lemma convert_input_Some:
  assumes "convert_input l p (Some (i, q)) = Ok (moved, stage)"
  shows "\<exists>t pos'. bt_get (terms_map l) i = Some t \<and> 0 < q \<and>
    reserved (ledger_position l p i) \<le> quantity (ledger_position l p i) - q \<and>
    moved = (if quantity (ledger_position l p i) > 0
             then tdiv (cost_basis (ledger_position l p i) * q) (quantity (ledger_position l p i)) else 0) \<and>
    pos' = (ledger_position l p i)\<lparr>cost_basis := cost_basis (ledger_position l p i) - moved,
              quantity := quantity (ledger_position l p i) - q\<rparr> \<and>
    stage = [(i, pos')] \<and> (position_ok (ledger_position l p i) \<longrightarrow> position_ok pos') \<and> in_i128 moved"
  using assms
  by (cases "quantity (ledger_position l p i) > 0")
    (auto simp: convert_input_def Let_def result_simps position_ok_def split: if_splits)

lemma convert_output_Some:
  assumes "convert_output l p moved stage (Some (i, q)) = Ok stage'"
    and "pos = (case map_of stage i of Some x \<Rightarrow> x | None \<Rightarrow> ledger_position l p i)"
  shows "\<exists>t pos'. bt_get (terms_map l) i = Some t \<and> 0 < q \<and>
    pos' = pos\<lparr>quantity := quantity pos + q, cost_basis := cost_basis pos + moved\<rparr> \<and>
    stage' = filter (\<lambda>(j, _). j \<noteq> i) stage @ [(i, pos')] \<and>
    (position_ok pos \<longrightarrow> position_ok pos')"
  using assms
  by (auto simp: convert_output_def Let_def result_simps position_ok_def not_le)

lemma convert_frame:
  assumes "convert l p input outp = Ok l'"
  shows "\<exists>stage. l' = l\<lparr>positions_map := fold (\<lambda>(i, x). bt_insert (p, i) x) stage (positions_map l)\<rparr>"
  using assms by (auto simp: convert_def result_simps)

lemma fold_insert_positions_wf:
  "bt_wf m \<Longrightarrow> bt_wf (fold (\<lambda>(i, x). bt_insert (p, i) x) stage m)"
  by (induction stage arbitrary: m) auto

text \<open>The position a conversion leaves behind, leg by leg.\<close>

lemma convert_positions:
  assumes "convert l p input outp = Ok l'"
  shows "\<exists>moved stage1 stage. convert_input l p input = Ok (moved, stage1) \<and>
    convert_output l p moved stage1 outp = Ok stage \<and>
    l' = l\<lparr>positions_map := fold (\<lambda>(i, x). bt_insert (p, i) x) stage (positions_map l)\<rparr>"
  using assms by (auto simp: convert_def result_simps)

lemma convert_stage_ok:
  assumes "convert_input l p input = Ok (moved, stage1)"
    and "convert_output l p moved stage1 outp = Ok stage" and "ledger_wf l"
  shows "list_all (\<lambda>(_, x). position_ok x) stage"
proof -
  have pos: "position_ok (ledger_position l p i)" for i
    using assms(3) by (rule ledger_wfD)
  have s1: "list_all (\<lambda>(_, x). position_ok x) stage1"
  proof (cases input)
    case None
    with assms(1) show ?thesis by (simp add: convert_input_def)
  next
    case (Some a)
    with assms(1) pos show ?thesis
      by (cases a) (auto dest!: convert_input_Some)
  qed
  show ?thesis
  proof (cases outp)
    case None
    with assms(2) s1 show ?thesis by (simp add: convert_output_def)
  next
    case (Some a)
    obtain i q where a: "a = (i, q)" by (cases a)
    define x where "x = (case map_of stage1 i of Some x \<Rightarrow> x | None \<Rightarrow> ledger_position l p i)"
    have "position_ok x"
      using pos s1 by (auto simp: x_def list_all_iff dest: map_of_SomeD split: option.splits)
    then show ?thesis
      using convert_output_Some [OF assms(2)[unfolded Some a] x_def] s1
      by (auto simp: list_all_iff)
  qed
qed

lemma fold_insert_list_all:
  "list_all (\<lambda>(_, x). Q x) stage \<Longrightarrow> list_all (\<lambda>(_, x). Q x) m \<Longrightarrow>
   list_all (\<lambda>(_, x). Q x) (fold (\<lambda>(i, x). bt_insert (p, i) x) stage m)"
proof (induction stage arbitrary: m)
  case (Cons e stage)
  obtain i x where e: "e = (i, x)" by (cases e)
  have "list_all (\<lambda>(_, x). Q x) (bt_insert (p, i) x m)"
    using Cons.prems set_bt_insert [of "(p, i)" x m] by (auto simp: e list_all_iff)
  then show ?case
    using Cons.IH Cons.prems by (simp add: e)
qed simp

lemma convert_wf:
  assumes "convert l p input outp = Ok l'" and "ledger_wf l"
  shows "ledger_wf l'"
proof -
  obtain moved stage1 stage where c: "convert_input l p input = Ok (moved, stage1)"
    "convert_output l p moved stage1 outp = Ok stage"
    and l': "l' = l\<lparr>positions_map := fold (\<lambda>(i, x). bt_insert (p, i) x) stage (positions_map l)\<rparr>"
    using convert_positions [OF assms(1)] by blast
  have "list_all (\<lambda>(_, x). position_ok x) stage"
    using c assms(2) by (rule convert_stage_ok)
  then show ?thesis
    using assms(2) unfolding ledger_wf_def l'
    by (simp add: fold_insert_positions_wf fold_insert_list_all)
qed

subsection \<open>Runs of the ledger\<close>

text \<open>
  The operations of a run: \<open>setup_step\<close> builds the ledger from a scenario
  (\<open>RunState::from_scenario\<close>), \<open>trading_step\<close> is everything that mutates it afterwards.
  The side conditions are the widths of the arguments.
\<close>

inductive setup_step :: "ledger \<Rightarrow> ledger \<Rightarrow> bool" where
  configure: "configure_instrument l i t = Ok l' \<Longrightarrow> in_i64 (multiplier t) \<Longrightarrow> setup_step l l'"
| seed: "seed_position l p i q basis = Ok l' \<Longrightarrow> in_i64 q \<Longrightarrow> in_i128 basis \<Longrightarrow> setup_step l l'"

inductive trading_step :: "ledger \<Rightarrow> ledger \<Rightarrow> bool" where
  mark: "set_mark l i m = Ok l' \<Longrightarrow> in_i64 m \<Longrightarrow> trading_step l l'"
| cash: "post_cash l p c amount = Ok l' \<Longrightarrow> trading_step l l'"
| opened: "open_order l p i sd q res = Ok l' \<Longrightarrow> trading_step l l'"
| closed: "close_order l p i sd q res = Ok l' \<Longrightarrow> trading_step l l'"
| settled: "settle l f = Ok l' \<Longrightarrow> fill_set_mark f \<longrightarrow> in_i64 (fill_price f) \<Longrightarrow> trading_step l l'"
| converted: "convert l p input outp = Ok l' \<Longrightarrow> trading_step l l'"

inductive ledger_reachable :: "ledger \<Rightarrow> bool" where
  start: "ledger_reachable ledger_new"
| prepare: "ledger_reachable l \<Longrightarrow> setup_step l l' \<Longrightarrow> ledger_reachable l'"
| trade: "ledger_reachable l \<Longrightarrow> trading_step l l' \<Longrightarrow> ledger_reachable l'"

lemmas ledger_operation_wf =
  configure_instrument_wf seed_position_wf set_mark_wf post_cash_wf change_open_wf settle_wf convert_wf

lemma setup_step_wf: "setup_step l l' \<Longrightarrow> ledger_wf l \<Longrightarrow> ledger_wf l'"
  by (erule setup_step.cases) (auto intro: ledger_operation_wf)

lemma trading_step_wf: "trading_step l l' \<Longrightarrow> ledger_wf l \<Longrightarrow> ledger_wf l'"
  by (erule trading_step.cases) (auto simp: open_order_def close_order_def intro: ledger_operation_wf)

text \<open>
  Coverage of reserved inventory: in an instrument that cannot be sold short, what open
  sell orders reserve never exceeds the holding.
\<close>

definition covered :: "ledger \<Rightarrow> bool" where
  "covered l \<longleftrightarrow> (\<forall>p i t. bt_get (terms_map l) i = Some t \<and> \<not> shortable t \<longrightarrow>
     reserved (ledger_position l p i) \<le> quantity (ledger_position l p i))"

lemma change_open_covered:
  assumes "change_open l p i sd q res opn = Ok l'" and "covered l"
  shows "covered l'"
  using assms(1)
proof (rule change_open_Ok, goal_cases)
  case (1 t pos cash delta)
  have "reserved pos \<le> quantity pos"
    if "reserved (ledger_position l p i) \<le> quantity (ledger_position l p i)"
  proof (cases sd)
    case Buy
    with "1"(5) that show ?thesis by (auto dest!: change_open_buy_effect(1))
  next
    case Sell
    with "1"(5) have c: "change_open_sell res opn delta (ledger_position l p i)
        (ledger_cash l p (currency t)) = Ok (pos, cash)"
      by simp
    from change_open_sell_effect(1,5) [OF c] that "1"(2,3) show ?thesis
      by (cases opn; cases "inventory res") auto
  qed
  then show ?case
    using assms(2) by (auto simp: "1"(8) covered_def)
qed

lemma settle_covered:
  assumes "settle l f = Ok l'" and "covered l"
  shows "covered l'"
proof -
  obtain t where t: "bt_get (terms_map l) (fill_instrument f) = Some t"
    using assms(1) by (rule settle_Ok)
  have "\<not> shortable t \<longrightarrow> reserved (ledger_position l' p (fill_instrument f))
      \<le> quantity (ledger_position l' p (fill_instrument f))" for p
    using assms(1) t
  proof (rule settle_pointwise [where P = "\<lambda>_ b x. \<not> shortable t \<longrightarrow> reserved x \<le> quantity x"])
    fix sd pa bal pos bal' pos'
    assume s: "settle_balances t f (fill_price f * fill_quantity f * multiplier t) sd pa bal pos = Ok (bal', pos')"
      and q: "0 < fill_quantity f" and "\<not> shortable t \<longrightarrow> reserved pos \<le> quantity pos"
    then show "\<not> shortable t \<longrightarrow> reserved pos' \<le> quantity pos'"
      using settle_balances_effect(3,8,9) [OF s] by (cases sd) (auto simp: side_sign_def)
  next
    show "\<not> shortable t \<longrightarrow> reserved (ledger_position l p (fill_instrument f))
        \<le> quantity (ledger_position l p (fill_instrument f))"
      using assms(2) t by (simp add: covered_def)
  qed
  then show ?thesis
    using settle_frame [OF assms(1) t] assms(2) t
    by (auto simp: covered_def) (metis option.inject)
qed

lemma fold_insert_position_get:
  "distinct (map fst stage) \<Longrightarrow>
   bt_get (fold (\<lambda>(i, x). bt_insert (p, i) x) stage m) (q, j)
     = (if q = p then (case map_of stage j of Some x \<Rightarrow> Some x | None \<Rightarrow> bt_get m (p, j)) else bt_get m (q, j))"
proof (induction stage arbitrary: m)
  case (Cons e stage)
  obtain i x where e: "e = (i, x)" by (cases e)
  with Cons.prems have "distinct (map fst stage)" and "map_of stage i = None"
    by (auto simp: map_of_eq_None_iff)
  then show ?case
    by (auto simp: e Cons.IH split: option.splits)
qed simp

lemma convert_covered:
  assumes "convert l p input outp = Ok l'" and "covered l"
  shows "covered l'"
proof -
  obtain moved stage1 stage where ci: "convert_input l p input = Ok (moved, stage1)"
    and co: "convert_output l p moved stage1 outp = Ok stage"
    and l': "l' = l\<lparr>positions_map := fold (\<lambda>(i, x). bt_insert (p, i) x) stage (positions_map l)\<rparr>"
    using convert_positions [OF assms(1)] by blast
  let ?ok = "\<lambda>i x. \<forall>t. bt_get (terms_map l) i = Some t \<and> \<not> shortable t \<longrightarrow> reserved x \<le> quantity x"
  have old: "?ok i (ledger_position l q i)" for q i
    using assms(2) by (auto simp: covered_def)
  have s1: "distinct (map fst stage1) \<and> (\<forall>(i, x) \<in> set stage1. ?ok i x)"
  proof (cases input)
    case None
    with ci show ?thesis by (simp add: convert_input_def)
  next
    case (Some a)
    with ci show ?thesis by (cases a) (auto dest!: convert_input_Some)
  qed
  have "distinct (map fst stage) \<and> (\<forall>(i, x) \<in> set stage. ?ok i x)"
  proof (cases outp)
    case None
    with co s1 show ?thesis by (simp add: convert_output_def)
  next
    case (Some a)
    obtain i q where a: "a = (i, q)" by (cases a)
    define x where "x = (case map_of stage1 i of Some x \<Rightarrow> x | None \<Rightarrow> ledger_position l p i)"
    have "?ok i x"
      using old s1 by (auto simp: x_def dest: map_of_SomeD split: option.splits)
    then show ?thesis
      using convert_output_Some [OF co[unfolded Some a] x_def] s1
      by (auto simp: distinct_map_filter)
  qed
  moreover from this have "ledger_position l' q i = (if q = p
      then (case map_of stage i of Some x \<Rightarrow> x | None \<Rightarrow> ledger_position l p i)
      else ledger_position l q i)" for q i
    by (auto simp: l' ledger_position_def fold_insert_position_get split: option.splits)
  ultimately have "?ok i (ledger_position l' q i)" for q i
    using old by (fastforce dest: map_of_SomeD split: option.splits)
  then show ?thesis
    by (auto simp: covered_def l')
qed

lemma trading_step_covered: "trading_step l l' \<Longrightarrow> covered l \<Longrightarrow> covered l'"
proof (erule trading_step.cases, goal_cases)
  case (1 l i m l')
  then show ?case by (auto simp: set_mark_def result_simps covered_def)
next
  case (2 l p c amount l')
  then show ?case by (auto simp: post_cash_def Let_def result_simps covered_def split: if_splits)
qed (auto simp: open_order_def close_order_def intro: change_open_covered settle_covered convert_covered)

subsection \<open>Properties\<close>

text \<open>Two traders and one stock, the ledger of the examples.\<close>

definition ex_terms :: instrument_terms where
  "ex_terms = \<lparr>currency = 1, multiplier = 1, shortable = False\<rparr>"

definition ex_ledger :: ledger where
  "ex_ledger = \<lparr>terms_map = [(10, ex_terms)],
     cash_map = [((1, 1), \<lparr>balance = 10000, cash_reserved = 0, fees = 0\<rparr>),
                 ((2, 1), \<lparr>balance = 10000, cash_reserved = 0, fees = 0\<rparr>)],
     positions_map = [((2, 10), default_position\<lparr>quantity := 10, cost_basis := 100\<rparr>)],
     marks_map = []\<rparr>"

definition ex_fill :: fill where
  "ex_fill = \<lparr>fill_instrument = 10, fill_price = 15, fill_quantity = 4,
     buyer = Some \<lparr>party_participant = 1, party_fee = 8, party_order = None, enforce_funding = True\<rparr>,
     seller = Some \<lparr>party_participant = 2, party_fee = - 4, party_order = None, enforce_funding = True\<rparr>,
     fill_set_mark = True\<rparr>"

lemma ex_settle: "settle ex_ledger ex_fill = Ok (projr (settle ex_ledger ex_fill))"
  by code_simp

lemma ex_ledger_terms: "bt_get (terms_map ex_ledger) (fill_instrument ex_fill) = Some ex_terms"
  by code_simp

text \<open>
  C31. A settled fill between two parties, who may be the same participant, conserves
  money and lots: in the settlement currency the cash of all participants together
  falls by exactly the two fees, in every other currency it is unchanged, and the
  holdings of every instrument sum to the same quantity as before.
\<close>

theorem settle_conserves:
  assumes "ledger_wf l" and "settle l f = Ok l'" and "buyer f = Some b" and "seller f = Some s"
    and "bt_get (terms_map l) (fill_instrument f) = Some t"
  shows "total_cash l' c = total_cash l c - (if c = currency t then party_fee b + party_fee s else 0)
    \<and> total_quantity l' i = total_quantity l i"
  using settle_totals [OF assms(2,3,4) _ _ assms(5)] assms(1) by (simp add: ledger_wf_def)

theorem settle_conserves_witness:
  "total_cash (projr (settle ex_ledger ex_fill)) 1 = total_cash ex_ledger 1 - (8 - 4)
    \<and> total_quantity (projr (settle ex_ledger ex_fill)) 10 = total_quantity ex_ledger 10"
proof -
  have wf: "ledger_wf ex_ledger" by code_simp
  show ?thesis
    using settle_conserves [OF wf ex_settle _ _ ex_ledger_terms]
    by (simp add: ex_fill_def ex_terms_def)
qed

text \<open>
  The books of every participant stay in balance through any fill: cash plus fees
  paid plus cost basis minus realized P\&L is the same before and after, for parties
  and bystanders alike, so rounding of the average cost never creates or destroys
  value.
\<close>

theorem settle_book_value:
  assumes "settle l f = Ok l'" and "bt_get (terms_map l) (fill_instrument f) = Some t"
  shows "balance (ledger_cash l' p (currency t)) + fees (ledger_cash l' p (currency t))
       + cost_basis (ledger_position l' p (fill_instrument f))
       - realized_pnl (ledger_position l' p (fill_instrument f))
     = balance (ledger_cash l p (currency t)) + fees (ledger_cash l p (currency t))
       + cost_basis (ledger_position l p (fill_instrument f))
       - realized_pnl (ledger_position l p (fill_instrument f))"
    (is "?w = ?v")
proof -
  have "p = p \<longrightarrow> ?w = ?v"
    using assms
  proof (rule settle_pointwise [where P = "\<lambda>q b x. q = p \<longrightarrow>
      balance b + fees b + cost_basis x - realized_pnl x = ?v"])
    fix sd pa bal pos bal' pos'
    assume s: "settle_balances t f (fill_price f * fill_quantity f * multiplier t) sd pa bal pos = Ok (bal', pos')"
      and old: "party_participant pa = p \<longrightarrow> balance bal + fees bal + cost_basis pos - realized_pnl pos = ?v"
    have "side_sign sd * (fill_price f * fill_quantity f * multiplier t)
        = side_sign sd * fill_quantity f * (fill_price f * multiplier t)"
      by (simp add: algebra_simps)
    with settle_balances_effect(1,2,4) [OF s]
    have "balance bal' + fees bal' + cost_basis pos' - realized_pnl pos'
        = balance bal + fees bal + cost_basis pos - realized_pnl pos"
      by linarith
    with old show "party_participant pa = p \<longrightarrow>
        balance bal' + fees bal' + cost_basis pos' - realized_pnl pos' = ?v"
      by simp
  qed simp
  then show ?thesis by simp
qed

theorem settle_book_value_witness:
  "balance (ledger_cash (projr (settle ex_ledger ex_fill)) 2 1)
     + fees (ledger_cash (projr (settle ex_ledger ex_fill)) 2 1)
     + cost_basis (ledger_position (projr (settle ex_ledger ex_fill)) 2 10)
     - realized_pnl (ledger_position (projr (settle ex_ledger ex_fill)) 2 10) = 10100"
proof -
  have i: "fill_instrument ex_fill = 10" and c: "currency ex_terms = 1"
    by (simp_all add: ex_fill_def ex_terms_def)
  have v: "balance (ledger_cash ex_ledger 2 1) + fees (ledger_cash ex_ledger 2 1)
      + cost_basis (ledger_position ex_ledger 2 10) - realized_pnl (ledger_position ex_ledger 2 10) = 10100"
    by code_simp
  show ?thesis
    using settle_book_value [OF ex_settle ex_ledger_terms, of 2] v unfolding i c by simp
qed

text \<open>
  Every ledger that a run can reach from the empty one, by any sequence of set-up,
  reservation, settlement, conversion, marking and cash postings, is well-formed: its
  maps are in key order, every stored amount fits its machine width, reservations and
  open quantities are never negative, multipliers and marks are positive.
\<close>

theorem ledger_reachable_wf: "ledger_reachable l \<Longrightarrow> ledger_wf l"
proof (induction rule: ledger_reachable.induct)
  case start
  show ?case by (simp add: ledger_new_def ledger_wf_def)
next
  case (prepare l l')
  then show ?case by (blast intro: setup_step_wf)
next
  case (trade l l')
  then show ?case by (blast intro: trading_step_wf)
qed

theorem ledger_reachable_wf_witness:
  "ledger_wf (projr (post_cash (projr (configure_instrument ledger_new 10 ex_terms)) 1 1 500))"
proof -
  have c: "configure_instrument ledger_new 10 ex_terms
      = Ok (projr (configure_instrument ledger_new 10 ex_terms))"
    by code_simp
  have p: "post_cash (projr (configure_instrument ledger_new 10 ex_terms)) 1 1 500
      = Ok (projr (post_cash (projr (configure_instrument ledger_new 10 ex_terms)) 1 1 500))"
    by code_simp
  have m: "in_i64 (multiplier ex_terms)" by code_simp
  show ?thesis
    by (rule ledger_reachable_wf, rule ledger_reachable.trade, rule ledger_reachable.prepare,
        rule ledger_reachable.start, rule setup_step.configure [OF c m], rule trading_step.cash [OF p])
qed

text \<open>Closing what was just opened, on the staged entries.\<close>

lemma change_open_buy_undo:
  assumes "change_open_buy q res True q pos cash = Ok (pos', cash')"
    and "position_ok pos" and "cash_ok cash"
  shows "change_open_buy q res False (- q) pos' cash' = Ok (pos, cash)"
  using change_open_buy_effect(1,2,4) [OF assms(1)] assms(2,3)
  by (simp add: change_open_buy_def Let_def i64_checked_add_def i128_checked_sub_def per_lot_total_def
      i128_checked_mul_def position_ok_def cash_ok_def)

lemma change_open_sell_undo:
  assumes "change_open_sell res True q pos cash = Ok (pos', cash')" and "position_ok pos"
  shows "change_open_sell res False (- q) pos' cash' = Ok (pos, cash)"
  using change_open_sell_effect(1,2) [OF assms(1)] assms(2)
  by (cases "inventory res")
    (simp_all add: change_open_sell_def Let_def i64_checked_add_def position_ok_def)

lemma open_close_undo:
  assumes "ledger_wf l" and "in_i64 q" and "open_order l p i sd q res = Ok l1"
  shows "\<exists>l2. close_order l1 p i sd q res = Ok l2 \<and>
    (\<forall>r c. ledger_cash l2 r c = ledger_cash l r c) \<and>
    (\<forall>r j. ledger_position l2 r j = ledger_position l r j) \<and>
    terms_map l2 = terms_map l \<and> marks_map l2 = marks_map l"
  using assms(3) unfolding open_order_def
proof (rule change_open_Ok, goal_cases)
  case (1 t pos cash delta)
  have ok: "position_ok (ledger_position l p i)" "cash_ok (ledger_cash l p (currency t))"
    using assms(1) by (auto intro: ledger_wfD)
  have view: "ledger_position l1 p i = pos" "ledger_cash l1 p (currency t) = cash"
    "bt_get (terms_map l1) i = Some t"
    using "1"(1) by (simp_all add: "1"(8))
  have "in_i64 (- q)"
    using assms(2) "1"(2) by (simp add: in_i64_def)
  moreover have "(case sd of
        Buy \<Rightarrow> change_open_buy q res False (- q) pos cash
      | Sell \<Rightarrow> change_open_sell res False (- q) pos cash)
      = Ok (ledger_position l p i, ledger_cash l p (currency t))"
    using "1"(3,5) ok by (cases sd) (auto intro: change_open_buy_undo change_open_sell_undo)
  ultimately have "close_order l1 p i sd q res = Ok (l1\<lparr>
      positions_map := bt_insert (p, i) (ledger_position l p i) (positions_map l1),
      cash_map := bt_insert (p, currency t) (ledger_cash l p (currency t)) (cash_map l1)\<rparr>)"
    using "1"(2) ok view
    by (simp add: close_order_def change_open_def ledger_terms_def i64_checked_sub_def position_ok_def)
  then show ?case
    by (auto simp: "1"(8))
qed

text \<open>
  A reservation is released exactly: an order that was admitted can always be closed
  in full, and closing it restores every balance, reservation, position and open
  quantity of every participant to what it was before.
\<close>

theorem open_close_roundtrip:
  assumes "ledger_wf l" and "in_i64 q" and "open_order l p i sd q res = Ok l1"
  shows "\<exists>l2. close_order l1 p i sd q res = Ok l2 \<and>
    (\<forall>r c. ledger_cash l2 r c = ledger_cash l r c) \<and>
    (\<forall>r j. ledger_position l2 r j = ledger_position l r j) \<and>
    terms_map l2 = terms_map l \<and> marks_map l2 = marks_map l"
  using assms by (rule open_close_undo)

definition ex_reservation :: reservation where
  "ex_reservation = \<lparr>cash_per_lot = 13, inventory = False\<rparr>"

theorem open_close_roundtrip_witness:
  "\<exists>l2. close_order (projr (open_order ex_ledger 1 10 Buy 4 ex_reservation)) 1 10 Buy 4 ex_reservation = Ok l2
     \<and> ledger_cash l2 1 1 = ledger_cash ex_ledger 1 1"
proof -
  have wf: "ledger_wf ex_ledger" by code_simp
  have q: "in_i64 4" by (simp add: in_i64_def)
  have "open_order ex_ledger 1 10 Buy 4 ex_reservation
      = Ok (projr (open_order ex_ledger 1 10 Buy 4 ex_reservation))"
    by code_simp
  from open_close_roundtrip [OF wf q this] show ?thesis by blast
qed

text \<open>
  C32. Inventory reserved by open sell orders of an instrument that cannot be shorted is
  always covered by the holding: no sequence of marks, cash postings, order openings
  and closings, settlements and conversions ever breaks this.
\<close>

theorem inventory_always_covered: "trading_step\<^sup>*\<^sup>* l l' \<Longrightarrow> covered l \<Longrightarrow> covered l'"
  by (induction rule: rtranclp_induct) (auto intro: trading_step_covered)

theorem inventory_always_covered_witness: "covered (projr (settle ex_ledger ex_fill))"
proof -
  have "covered ex_ledger"
    by (auto simp: covered_def ex_ledger_def ledger_position_def default_position_def split: option.splits if_splits)
  moreover have "in_i64 (fill_price ex_fill)"
    by code_simp
  then have "trading_step\<^sup>*\<^sup>* ex_ledger (projr (settle ex_ledger ex_fill))"
    by (intro r_into_rtranclp trading_step.settled [OF ex_settle] impI)
  ultimately show ?thesis
    by (rule inventory_always_covered [rotated])
qed

text \<open>
  Average cost keeps its sign through fills: while a position is long its basis is
  not negative, while it is short its basis is not positive, and a position closed
  exactly carries no basis at all, including fills that cross through zero.
\<close>

theorem settle_basis_sign:
  assumes "ledger_wf l" and "settle l f = Ok l'" and "\<And>i. basis_ok (ledger_position l p i)"
  shows "basis_ok (ledger_position l' p i)"
proof -
  obtain t where t: "bt_get (terms_map l) (fill_instrument f) = Some t"
    using assms(2) by (rule settle_Ok)
  have m: "0 < multiplier t"
    using ledger_wfD(3) [OF assms(1) t] by (simp add: terms_ok_def)
  have "p = p \<longrightarrow> basis_ok (ledger_position l' p (fill_instrument f))"
    using assms(2) t
    by (rule settle_pointwise [where P = "\<lambda>q _ x. q = p \<longrightarrow> basis_ok x"])
      (use assms(3) m settle_balances_effect(11) in auto)
  then show ?thesis
    using settle_frame(3) [OF assms(2) t] assms(3) by (cases "i = fill_instrument f") auto
qed

theorem settle_basis_sign_witness: "basis_ok (ledger_position (projr (settle ex_ledger ex_fill)) 2 10)"
proof -
  have wf: "ledger_wf ex_ledger" by code_simp
  have b: "basis_ok (ledger_position ex_ledger 2 i)" for i
    by (auto simp: basis_ok_def ex_ledger_def ledger_position_def default_position_def
        split: option.splits if_splits)
  show ?thesis by (rule settle_basis_sign [OF wf ex_settle b])
qed

text \<open>
  A conversion between two instruments moves cost basis and lots, never cash: the
  input holding falls by the input quantity, the output holding rises by the output
  quantity, the two bases keep their sum, converting a whole long holding carries its
  whole basis over, and no cash balance and no other position changes.
\<close>

theorem convert_moves_basis:
  assumes "convert l p (Some (i, q)) (Some (j, r)) = Ok l'" and "i \<noteq> j"
  shows "quantity (ledger_position l' p i) = quantity (ledger_position l p i) - q \<and>
    quantity (ledger_position l' p j) = quantity (ledger_position l p j) + r \<and>
    cost_basis (ledger_position l' p i) + cost_basis (ledger_position l' p j)
      = cost_basis (ledger_position l p i) + cost_basis (ledger_position l p j) \<and>
    (q = quantity (ledger_position l p i) \<longrightarrow> cost_basis (ledger_position l' p i) = 0) \<and>
    cash_map l' = cash_map l \<and>
    (\<forall>u k. (u, k) \<noteq> (p, i) \<and> (u, k) \<noteq> (p, j) \<longrightarrow> ledger_position l' u k = ledger_position l u k)"
proof -
  obtain moved stage1 stage where ci: "convert_input l p (Some (i, q)) = Ok (moved, stage1)"
    and co: "convert_output l p moved stage1 (Some (j, r)) = Ok stage"
    and l': "l' = l\<lparr>positions_map := fold (\<lambda>(i, x). bt_insert (p, i) x) stage (positions_map l)\<rparr>"
    using convert_positions [OF assms(1)] by blast
  let ?x = "ledger_position l p i" and ?y = "ledger_position l p j"
  have q: "0 < q" and m: "moved = (if quantity ?x > 0 then tdiv (cost_basis ?x * q) (quantity ?x) else 0)"
    and s1: "stage1 = [(i, ?x\<lparr>cost_basis := cost_basis ?x - moved, quantity := quantity ?x - q\<rparr>)]"
    using convert_input_Some [OF ci] by auto
  have y: "?y = (case map_of stage1 j of Some x \<Rightarrow> x | None \<Rightarrow> ?y)"
    using assms(2) by (simp add: s1)
  have "stage = stage1 @ [(j, ?y\<lparr>quantity := quantity ?y + r, cost_basis := cost_basis ?y + moved\<rparr>)]"
    using convert_output_Some [OF co y] assms(2) by (auto simp: s1)
  then have pos: "ledger_position l' u k = (if u = p \<and> k = j
        then ?y\<lparr>quantity := quantity ?y + r, cost_basis := cost_basis ?y + moved\<rparr>
        else if u = p \<and> k = i
        then ?x\<lparr>cost_basis := cost_basis ?x - moved, quantity := quantity ?x - q\<rparr>
        else ledger_position l u k)" for u k
    using assms(2) by (auto simp: l' s1 ledger_position_def)
  have "moved = cost_basis ?x" if "q = quantity ?x"
    using that q m by (simp add: tdiv_mult_self)
  with assms(2) show ?thesis
    by (auto simp: pos) (simp_all add: l')
qed

theorem convert_moves_basis_witness:
  "\<exists>l'. convert (ex_ledger\<lparr>terms_map := [(10, ex_terms), (11, ex_terms)]\<rparr>) 2 (Some (10, 10)) (Some (11, 2)) = Ok l'
     \<and> cost_basis (ledger_position l' 2 10) = 0"
proof -
  let ?l = "ex_ledger\<lparr>terms_map := [(10, ex_terms), (11, ex_terms)]\<rparr>"
  have c: "convert ?l 2 (Some (10, 10)) (Some (11, 2)) = Ok (projr (convert ?l 2 (Some (10, 10)) (Some (11, 2))))"
    by code_simp
  have "10 = quantity (ledger_position ?l 2 10)"
    by code_simp
  with convert_moves_basis [OF c] c show ?thesis by auto
qed

subsection \<open>Reporting\<close>

text \<open>The currencies a participant holds cash or positions in.\<close>

definition held_currencies :: "ledger \<Rightarrow> participant_id \<Rightarrow> currency_id set" where
  "held_currencies l p = {c. \<exists>b. bt_get (cash_map l) (p, c) = Some b} \<union>
     {c. \<exists>i x t. bt_get (positions_map l) (p, i) = Some x \<and> bt_get (terms_map l) i = Some t \<and> c = currency t}"

lemma position_currencies_set:
  "position_currencies l ps = Ok cs \<Longrightarrow>
   set cs = {c. \<exists>i x t. (i, x) \<in> set ps \<and> bt_get (terms_map l) i = Some t \<and> c = currency t}"
proof (induction ps arbitrary: cs)
  case (Cons e ps)
  obtain i x where e: "e = (i, x)" by (cases e)
  with Cons.prems obtain t cs' where t: "bt_get (terms_map l) i = Some t"
    and cs': "position_currencies l ps = Ok cs'" "cs = currency t # cs'"
    by (auto simp: result_simps)
  have "set cs' = {c. \<exists>i x t. (i, x) \<in> set ps \<and> bt_get (terms_map l) i = Some t \<and> c = currency t}"
    using cs'(1) by (rule Cons.IH)
  then show ?case
    using t by (auto simp: e cs'(2))
qed simp

lemma set_ledger_positions:
  "bt_wf (positions_map l) \<Longrightarrow> (i, x) \<in> set (ledger_positions l p) \<longleftrightarrow> bt_get (positions_map l) (p, i) = Some x"
  by (force simp: ledger_positions_def bt_get_mem)

lemma set_cash_balances:
  "bt_wf (cash_map l) \<Longrightarrow> (c, b) \<in> set (cash_balances l p) \<longleftrightarrow> bt_get (cash_map l) (p, c) = Some b"
  by (force simp: cash_balances_def bt_get_mem)

lemma distinct_remdups_adj_sort: "distinct (remdups_adj (sort xs))"
proof -
  have "distinct (remdups_adj ys)" if "sorted ys" for ys :: "'a::linorder list"
    using that by (induction ys rule: remdups_adj.induct) auto
  then show ?thesis by simp
qed

lemma add_converted_sum:
  "add_converted l p reporting rates acc cs = Ok v \<Longrightarrow>
   \<exists>conv. v = acc + sum_list (map conv cs) \<and>
     (\<forall>c \<in> set cs. \<exists>w. net_liquidation_value l p c = Ok w \<and> converted_value l reporting rates c w = Ok (conv c))"
proof (induction cs arbitrary: acc)
  case (Cons c cs)
  then obtain w k where w: "net_liquidation_value l p c = Ok w"
    and k: "converted_value l reporting rates c w = Ok k"
    and rest: "add_converted l p reporting rates (acc + k) cs = Ok v"
    by (auto simp: result_simps)
  from Cons.IH [OF rest] obtain conv where conv: "v = acc + k + sum_list (map conv cs)"
    and each: "\<forall>c \<in> set cs. \<exists>w. net_liquidation_value l p c = Ok w \<and> converted_value l reporting rates c w = Ok (conv c)"
    by blast
  have "map (conv(c := k)) cs = map conv cs"
    using each w k by (auto simp del: fun_upd_apply) (auto simp: fun_upd_def)
  then have "sum_list (map (conv(c := k)) (c # cs)) = k + sum_list (map conv cs)"
    by (simp only: list.map sum_list.Cons fun_upd_same)
  then show ?case
    using conv each w k
    by (intro exI [of _ "conv(c := k)"] conjI) (simp_all only: add.assoc, auto)
qed simp

text \<open>
  A reported value is complete and fails closed: when a participant's value is
  reported, it is the sum over exactly the currencies the participant holds cash or
  positions in, each converted once, and every nonzero foreign amount went through a
  configured rate with a positive lot size and a committed mark. A missing rate or mark
  makes the whole report an error.
\<close>

theorem reporting_value_complete:
  assumes "ledger_wf l" and "reporting_value l p reporting rates = Ok v"
  shows "\<exists>cs conv. distinct cs \<and> set cs = held_currencies l p \<and> v = sum_list (map conv cs) \<and>
    (\<forall>c \<in> set cs. \<exists>w. net_liquidation_value l p c = Ok w \<and>
       (c = reporting \<longrightarrow> conv c = w) \<and> (w = 0 \<longrightarrow> conv c = 0) \<and>
       (c \<noteq> reporting \<and> w \<noteq> 0 \<longrightarrow> (\<exists>rate mark. find (\<lambda>r. fx_currency r = c) rates = Some rate \<and>
          ledger_mark l (fx_instrument_id rate) = Some mark \<and> 0 < minor_units_per_lot rate \<and>
          conv c = tdiv (w * mark) (minor_units_per_lot rate))))"
proof -
  obtain cs0 where c0: "position_currencies l (ledger_positions l p) = Ok cs0"
    and add: "add_converted l p reporting rates 0
      (remdups_adj (sort (map fst (cash_balances l p) @ cs0))) = Ok v"
    using assms(2) by (auto simp: reporting_value_def result_simps)
  define cs where "cs = remdups_adj (sort (map fst (cash_balances l p) @ cs0))"
  have d: "distinct cs"
    by (simp add: cs_def distinct_remdups_adj_sort)
  have "set (map fst (cash_balances l p)) = {c. \<exists>b. bt_get (cash_map l) (p, c) = Some b}"
    using set_cash_balances [OF ledger_wfD(4) [OF assms(1)], of _ _ p] by (auto simp: image_iff) force
  then have held: "set cs = held_currencies l p"
    using position_currencies_set [OF c0] set_ledger_positions [OF ledger_wfD(5) [OF assms(1)], of _ _ p]
    by (simp add: cs_def held_currencies_def)
  obtain conv where v: "v = sum_list (map conv cs)"
    and each: "\<forall>c \<in> set cs. \<exists>w. net_liquidation_value l p c = Ok w \<and> converted_value l reporting rates c w = Ok (conv c)"
    using add_converted_sum [OF add] by (auto simp: cs_def)
  show ?thesis
  proof (intro exI [of _ cs] exI [of _ conv] conjI ballI)
    fix c
    assume "c \<in> set cs"
    with each obtain w where "net_liquidation_value l p c = Ok w"
      and "converted_value l reporting rates c w = Ok (conv c)"
      by blast
    then show "\<exists>w. net_liquidation_value l p c = Ok w \<and>
       (c = reporting \<longrightarrow> conv c = w) \<and> (w = 0 \<longrightarrow> conv c = 0) \<and>
       (c \<noteq> reporting \<and> w \<noteq> 0 \<longrightarrow> (\<exists>rate mark. find (\<lambda>r. fx_currency r = c) rates = Some rate \<and>
          ledger_mark l (fx_instrument_id rate) = Some mark \<and> 0 < minor_units_per_lot rate \<and>
          conv c = tdiv (w * mark) (minor_units_per_lot rate)))"
      by (intro exI [of _ w]) (auto simp: converted_value_def result_simps not_le split: if_splits)
  qed (use d held v in auto)
qed

theorem reporting_value_complete_witness:
  "\<exists>cs conv. set cs = held_currencies ex_ledger 2 \<and> (10100::int) = sum_list (map conv cs)"
proof -
  have wf: "ledger_wf ex_ledger" by code_simp
  have "position_currencies ex_ledger (ledger_positions ex_ledger 2) = Ok [1]"
    and "map fst (cash_balances ex_ledger 2) = [1]"
    and "add_converted ex_ledger 2 1 [] 0 [1] = Ok 10100"
    by (simp_all add: ex_ledger_def ledger_positions_def cash_balances_def ledger_terms_def ex_terms_def
        net_liquidation_value_def ledger_cash_def position_value_def ledger_mark_def
        i128_checked_add_def checked_i128_def in_i128_def converted_value_def default_position_def)
  moreover have "remdups_adj (sort ([1] @ [1::nat])) = [1]"
    by simp
  ultimately have "reporting_value ex_ledger 2 1 [] = Ok 10100"
    by (simp only: reporting_value_def attempt_simps)
  from reporting_value_complete [OF wf this] show ?thesis
    by (elim exE conjE) (intro exI conjI)
qed

end
