(* ===== verification/Risk_Engine.thy ===== *)
theory Risk_Engine
  imports Ledger_Laws
begin

text \<open>
  Pre-trade admission, \<open>packages/risk-engine/src/lib.rs\<close>: limits, listing terms, the
  decision \<open>admit\<close> and the live-order cap. Admission reads the ledger and never
  changes it; the properties say what an admitted order is guaranteed to satisfy and
  when the ledger is sure to accept its reservation.
\<close>

record risk_limits =
  max_order_quantity :: quantity_lots
  max_open_order_quantity :: quantity_lots
  max_absolute_position :: quantity_lots
  cash_constrained :: bool
  max_live_orders :: nat

definition risk_limits_new :: "quantity_lots \<Rightarrow> quantity_lots \<Rightarrow> quantity_lots \<Rightarrow> risk_limits" where
  "risk_limits_new order_q open_q pos_q =
     \<lparr>max_order_quantity = order_q, max_open_order_quantity = open_q, max_absolute_position = pos_q,
      cash_constrained = True, max_live_orders = 4294967295\<rparr>"

definition with_max_live_orders :: "risk_limits \<Rightarrow> nat \<Rightarrow> risk_limits" where
  "with_max_live_orders limits n = limits\<lparr>max_live_orders := n\<rparr>"

definition admit_live_order_count :: "risk_limits \<Rightarrow> nat \<Rightarrow> (unit, reject_code) result" where
  "admit_live_order_count limits live_orders =
     (if live_orders \<ge> max_live_orders limits then Err MaxLiveOrders else Ok ())"

record listing_terms =
  lt_price_bounds :: price_bounds
  fee_bound :: money_minor
  lt_tick_size :: int

record admission =
  reservation_price :: price_ticks
  adm_reservation :: reservation

text \<open>The price an order is checked and reserved at.\<close>

definition admit_price ::
    "submit_order \<Rightarrow> listing_terms \<Rightarrow> price_ticks option \<Rightarrow> (price_ticks, reject_code) result" where
  "admit_price order listing market_price =
     (case limit_price (so_kind order) of
        Some price \<Rightarrow>
          attempt (map_err (\<lambda>_. RejectPriceOutOfBounds) (validate_price (lt_price_bounds listing) price)) (\<lambda>_.
          if lt_tick_size listing > 1 \<and> tmod price (lt_tick_size listing) \<noteq> 0 then Err PriceNotOnTick
          else Ok price)
      | None \<Rightarrow> ok_or InsufficientLiquidity market_price)"

definition worst_case_position :: "side \<Rightarrow> position \<Rightarrow> quantity_lots \<Rightarrow> quantity_lots option" where
  "worst_case_position sd pos q =
     (case sd of
        Buy \<Rightarrow> Option.bind (i64_checked_add (quantity pos) (open_buy pos)) (\<lambda>v. i64_checked_add v q)
      | Sell \<Rightarrow> Option.bind (i64_checked_sub (quantity pos) (open_sell pos)) (\<lambda>v. i64_checked_sub v q))"

text \<open>The reservation an order needs.\<close>

definition admit_reservation ::
    "risk_limits \<Rightarrow> submit_order \<Rightarrow> listing_terms \<Rightarrow> ledger \<Rightarrow> instrument_terms \<Rightarrow> position \<Rightarrow>
     price_ticks \<Rightarrow> (reservation, reject_code) result" where
  "admit_reservation limits order listing l t pos price =
     (case so_side order of
        Buy \<Rightarrow>
          if cash_constrained limits
          then attempt (map_err (\<lambda>_. ArithmeticOverflow)
                 (ledger_cash_per_lot l (so_instrument_id order) price (fee_bound listing))) (\<lambda>per_lot.
               attempt (ok_or ArithmeticOverflow (i128_checked_mul per_lot (so_quantity order))) (\<lambda>required.
               attempt (ok_or ArithmeticOverflow
                 (cash_available (ledger_cash l (so_participant_id order) (currency t)))) (\<lambda>available.
               if available < required then Err InsufficientCash
               else Ok \<lparr>cash_per_lot = per_lot, inventory = False\<rparr>)))
          else Ok reservation_none
      | Sell \<Rightarrow>
          if shortable t then Ok reservation_none
          else attempt (ok_or ArithmeticOverflow (position_available pos)) (\<lambda>available.
               if available < so_quantity order then Err InsufficientInventory
               else Ok \<lparr>cash_per_lot = 0, inventory = True\<rparr>))"

definition admit ::
    "risk_limits \<Rightarrow> bool \<Rightarrow> submit_order \<Rightarrow> listing_terms \<Rightarrow> ledger \<Rightarrow> price_ticks option \<Rightarrow>
     (admission, reject_code) result" where
  "admit limits enabled order listing l market_reservation_price =
     (if \<not> enabled then Err ParticipantDisabled
      else if so_quantity order \<le> 0 then Err InvalidQuantity
      else
        attempt (map_err (\<lambda>_. InvalidInstrument) (ledger_terms l (so_instrument_id order))) (\<lambda>t.
        attempt (admit_price order listing market_reservation_price) (\<lambda>price.
        if so_quantity order > max_order_quantity limits then Err MaxOrderQuantity
        else
          let pos = ledger_position l (so_participant_id order) (so_instrument_id order) in
          attempt (ok_or ArithmeticOverflow
            (Option.bind (i64_checked_add (open_buy pos) (open_sell pos))
               (\<lambda>v. i64_checked_add v (so_quantity order)))) (\<lambda>open_total.
          if open_total > max_open_order_quantity limits then Err MaxOpenOrderQuantity
          else
            attempt (ok_or ArithmeticOverflow (worst_case_position (so_side order) pos (so_quantity order))) (\<lambda>worst.
            if \<bar>worst\<bar> > \<bar>max_absolute_position limits\<bar> then Err PositionLimit
            else
              attempt (admit_reservation limits order listing l t pos price) (\<lambda>res.
              Ok \<lparr>reservation_price = price, adm_reservation = res\<rparr>))))))"

subsection \<open>What an admitted order satisfies\<close>

lemma admit_Ok:
  assumes "admit limits enabled order listing l mkt = Ok a"
  obtains t where "bt_get (terms_map l) (so_instrument_id order) = Some t"
    and "enabled" and "0 < so_quantity order" and "so_quantity order \<le> max_order_quantity limits"
    and "admit_price order listing mkt = Ok (reservation_price a)"
    and "let pos = ledger_position l (so_participant_id order) (so_instrument_id order) in
      open_buy pos + open_sell pos + so_quantity order \<le> max_open_order_quantity limits \<and>
      in_i64 (open_buy pos + open_sell pos) \<and> in_i64 (open_buy pos + open_sell pos + so_quantity order) \<and>
      (\<exists>worst. worst_case_position (so_side order) pos (so_quantity order) = Some worst \<and>
         \<bar>worst\<bar> \<le> \<bar>max_absolute_position limits\<bar>) \<and>
      admit_reservation limits order listing l t pos (reservation_price a) = Ok (adm_reservation a)"
  using assms by (auto simp: admit_def Let_def result_simps not_le not_less)

lemma admit_reservation_buy_Ok:
  assumes "admit_reservation limits order listing l t pos price = Ok res"
    and "so_side order = Buy" and "cash_constrained limits"
  shows "inventory res = False" and "cash_per_lot res = price * multiplier t + max (fee_bound listing) 0 \<or>
      bt_get (terms_map l) (so_instrument_id order) \<noteq> Some t"
    and "cash_reserved (ledger_cash l (so_participant_id order) (currency t))
       + cash_per_lot res * so_quantity order
       \<le> balance (ledger_cash l (so_participant_id order) (currency t))"
    and "in_i128 (cash_per_lot res * so_quantity order)"
  using assms
  by (auto simp: admit_reservation_def ledger_cash_per_lot_def result_simps)

lemma admit_reservation_none:
  assumes "admit_reservation limits order listing l t pos price = Ok res"
  shows "so_side order = Buy \<Longrightarrow> \<not> cash_constrained limits \<Longrightarrow> res = reservation_none"
    and "so_side order = Sell \<Longrightarrow> shortable t \<Longrightarrow> res = reservation_none"
  using assms by (simp_all add: admit_reservation_def)

lemma admit_reservation_sell_Ok:
  assumes "admit_reservation limits order listing l t pos price = Ok res"
    and "so_side order = Sell" and "\<not> shortable t"
  shows "res = \<lparr>cash_per_lot = 0, inventory = True\<rparr>"
    and "reserved pos + so_quantity order \<le> quantity pos"
  using assms by (auto simp: admit_reservation_def result_simps not_less)

lemma admit_price_limit:
  assumes "admit_price order listing mkt = Ok price" and "limit_price (so_kind order) = Some p"
  shows "price = p" and "bounds_min (lt_price_bounds listing) \<le> p" and "p \<le> bounds_max (lt_price_bounds listing)"
    and "1 < lt_tick_size listing \<Longrightarrow> tmod p (lt_tick_size listing) = 0"
  using assms by (auto simp: admit_price_def validate_price_def result_simps split: if_splits)

text \<open>
  C33. Admission enforces every limit it is configured with: an admitted order belongs to
  an enabled participant, has a positive quantity within the order limit, keeps the
  open quantity of the instrument and the worst-case position (all open orders on that
  side filled) within their limits, and a limit price is inside the listing's bounds and
  on its tick grid.
\<close>

theorem admit_enforces_limits:
  assumes "admit limits enabled order listing l mkt = Ok a"
  defines "pos \<equiv> ledger_position l (so_participant_id order) (so_instrument_id order)"
  shows "enabled \<and> 0 < so_quantity order \<and> so_quantity order \<le> max_order_quantity limits \<and>
    open_buy pos + open_sell pos + so_quantity order \<le> max_open_order_quantity limits \<and>
    (so_side order = Buy \<longrightarrow>
       \<bar>quantity pos + open_buy pos + so_quantity order\<bar> \<le> \<bar>max_absolute_position limits\<bar>) \<and>
    (so_side order = Sell \<longrightarrow>
       \<bar>quantity pos - open_sell pos - so_quantity order\<bar> \<le> \<bar>max_absolute_position limits\<bar>) \<and>
    (\<forall>p. limit_price (so_kind order) = Some p \<longrightarrow>
       reservation_price a = p \<and> bounds_min (lt_price_bounds listing) \<le> p \<and>
       p \<le> bounds_max (lt_price_bounds listing) \<and>
       (1 < lt_tick_size listing \<longrightarrow> tmod p (lt_tick_size listing) = 0))"
  using assms(1)
proof (rule admit_Ok, goal_cases)
  case (1 t)
  then obtain worst where "worst_case_position (so_side order) pos (so_quantity order) = Some worst"
    and "\<bar>worst\<bar> \<le> \<bar>max_absolute_position limits\<bar>"
    by (auto simp: pos_def Let_def)
  then show ?case
    using "1" admit_price_limit [OF "1"(5)]
    by (auto simp: worst_case_position_def result_simps pos_def Let_def split: side.splits)
qed

definition ex_order :: "side \<Rightarrow> int \<Rightarrow> int \<Rightarrow> submit_order" where
  "ex_order sd q p = \<lparr>so_order_id = 7, so_instrument_id = 10, so_participant_id = 1, so_side = sd,
     so_quantity = q, so_kind = Limit p, so_anonymous = False\<rparr>"

definition ex_listing :: listing_terms where
  "ex_listing = \<lparr>lt_price_bounds = \<lparr>bounds_min = 1, bounds_max = 1000\<rparr>, fee_bound = 1, lt_tick_size = 5\<rparr>"

definition ex_limits :: risk_limits where
  "ex_limits = risk_limits_new 100 150 120"

lemma ex_admit:
  "admit ex_limits True (ex_order Buy 90 15) ex_listing ex_ledger None
     = Ok \<lparr>reservation_price = 15, adm_reservation = \<lparr>cash_per_lot = 16, inventory = False\<rparr>\<rparr>"
  by (simp add: admit_def ex_limits_def risk_limits_new_def ex_order_def ex_listing_def ex_ledger_def
      ex_terms_def ledger_terms_def ledger_position_def ledger_cash_def default_position_def Let_def
      admit_price_def validate_price_def tmod_def tdiv_def worst_case_position_def admit_reservation_def
      ledger_cash_per_lot_def notional_def cash_available_def i64_checked_add_def i128_checked_add_def
      i128_checked_sub_def i128_checked_mul_def checked_i64_def checked_i128_def in_i64_def in_i128_def)

theorem admit_enforces_limits_witness:
  "so_quantity (ex_order Buy 90 15) \<le> max_order_quantity ex_limits"
  using admit_enforces_limits [OF ex_admit] by blast

subsection \<open>Admission and the ledger\<close>

text \<open>
  The contract between admission and reservation: a set of funds or inventory that the
  check found available is one the ledger will reserve. \<open>reservable\<close> is what the
  ledger tests when it opens an order.
\<close>

locale reservation_provider =
  fixes available :: "'acct \<Rightarrow> side \<Rightarrow> int \<Rightarrow> reservation \<Rightarrow> bool"
    and reserve :: "'acct \<Rightarrow> side \<Rightarrow> int \<Rightarrow> reservation \<Rightarrow> ('acct, ledger_error) result"
    and release :: "'acct \<Rightarrow> side \<Rightarrow> int \<Rightarrow> reservation \<Rightarrow> ('acct, ledger_error) result"
    and same :: "'acct \<Rightarrow> 'acct \<Rightarrow> bool"
    and valid :: "'acct \<Rightarrow> bool"
  assumes reserve_ok: "valid a \<Longrightarrow> available a sd q res \<Longrightarrow> \<exists>a'. reserve a sd q res = Ok a'"
    and reserve_valid: "valid a \<Longrightarrow> reserve a sd q res = Ok a' \<Longrightarrow> valid a'"
    and release_reserve: "valid a \<Longrightarrow> in_i64 q \<Longrightarrow> reserve a sd q res = Ok a' \<Longrightarrow>
      \<exists>b. release a' sd q res = Ok b \<and> same a b"
begin

text \<open>An available reservation survives a full cycle.\<close>

lemma reserve_release_cycle:
  assumes "valid a" and "in_i64 q" and "available a sd q res"
  shows "\<exists>a' b. reserve a sd q res = Ok a' \<and> valid a' \<and> release a' sd q res = Ok b \<and> same a b"
proof -
  obtain a' where r: "reserve a sd q res = Ok a'"
    using reserve_ok [OF assms(1,3)] by blast
  with reserve_valid [OF assms(1) r] release_reserve [OF assms(1,2) r] show ?thesis
    by blast
qed

end

text \<open>The test of \<open>change_open\<close> on opening, for one participant and instrument.\<close>

definition reservable ::
    "participant_id \<Rightarrow> instrument_id \<Rightarrow> ledger \<Rightarrow> side \<Rightarrow> int \<Rightarrow> reservation \<Rightarrow> bool" where
  "reservable p i l sd q res \<longleftrightarrow> 0 < q \<and> (case bt_get (terms_map l) i of None \<Rightarrow> False | Some t \<Rightarrow>
     let pos = ledger_position l p i; cash = ledger_cash l p (currency t) in
     (case sd of
        Buy \<Rightarrow> in_i64 (open_buy pos + q) \<and> 0 \<le> cash_per_lot res \<and> in_i128 (cash_per_lot res * q) \<and>
          cash_reserved cash + cash_per_lot res * q \<le> balance cash
      | Sell \<Rightarrow> in_i64 (open_sell pos + q) \<and>
          (inventory res \<longrightarrow> reserved pos + q \<le> quantity pos)))"

definition same_accounts :: "ledger \<Rightarrow> ledger \<Rightarrow> bool" where
  "same_accounts l l' \<longleftrightarrow> (\<forall>r c. ledger_cash l' r c = ledger_cash l r c) \<and>
     (\<forall>r j. ledger_position l' r j = ledger_position l r j)"

lemma reservable_buy:
  assumes "ledger_wf l" and "bt_get (terms_map l) i = Some t" and "reservable p i l Buy q res"
  shows "\<exists>l'. open_order l p i Buy q res = Ok l'"
proof -
  let ?pos = "ledger_position l p i" and ?cash = "ledger_cash l p (currency t)"
  have ok: "position_ok ?pos" "cash_ok ?cash"
    using assms(1) by (auto intro: ledger_wfD)
  define A where "A = cash_per_lot res * q"
  have q: "0 < q" and ob: "in_i64 (open_buy ?pos + q)" and amt: "0 \<le> A" "in_i128 A"
    and fund: "cash_reserved ?cash + A \<le> balance ?cash"
    using assms(2,3) by (auto simp: reservable_def Let_def A_def)
  have range: "in_i128 (cash_reserved ?cash + A)" "in_i128 (balance ?cash - (cash_reserved ?cash + A))"
    using ok(2) amt fund by (simp_all add: cash_ok_def in_i128_def)
  have "change_open_buy q res True q ?pos ?cash
      = Ok (?pos\<lparr>open_buy := open_buy ?pos + q\<rparr>, ?cash\<lparr>cash_reserved := cash_reserved ?cash + A\<rparr>)"
    using ok(2) ob amt fund range
    by (simp add: change_open_buy_def i64_checked_add_def i128_checked_add_def per_lot_total_def
        i128_checked_mul_def A_def [symmetric] Let_def cash_available_def i128_checked_sub_def cash_ok_def)
  then show ?thesis
    using assms(2) ok(1) q
    by (simp add: open_order_def change_open_def ledger_terms_def Let_def position_ok_def)
qed

lemma reservable_sell:
  assumes "ledger_wf l" and "bt_get (terms_map l) i = Some t" and "reservable p i l Sell q res"
  shows "\<exists>l'. open_order l p i Sell q res = Ok l'"
proof -
  let ?pos = "ledger_position l p i"
  have ok: "position_ok ?pos"
    using assms(1) by (rule ledger_wfD)
  have q: "0 < q" and r: "in_i64 (open_sell ?pos + q)" "inventory res \<longrightarrow> reserved ?pos + q \<le> quantity ?pos"
    using assms(2,3) by (auto simp: reservable_def Let_def)
  have "in_i64 (reserved ?pos + q)" and "in_i64 (quantity ?pos - (reserved ?pos + q))" if "inventory res"
    using that ok q r(2) by (auto simp: position_ok_def in_i64_def)
  then show ?thesis
    using assms(2) ok q r
    by (cases "inventory res")
      (auto simp: open_order_def change_open_def ledger_terms_def change_open_sell_def Let_def
        i64_checked_add_def position_available_def i64_checked_sub_def position_ok_def)
qed

lemma reservable_open:
  assumes "ledger_wf l" and "reservable p i l sd q res"
  shows "\<exists>l'. open_order l p i sd q res = Ok l'"
proof -
  obtain t where "bt_get (terms_map l) i = Some t"
    using assms(2) by (auto simp: reservable_def split: option.splits)
  then show ?thesis
    using assms reservable_buy reservable_sell by (cases sd) auto
qed

lemma open_order_wf: "ledger_wf l \<Longrightarrow> open_order l p i sd q res = Ok l' \<Longrightarrow> ledger_wf l'"
  by (auto simp: open_order_def intro: change_open_wf)

lemma open_close_same:
  assumes "ledger_wf l" and "in_i64 q" and "open_order l p i sd q res = Ok l1"
  shows "\<exists>l2. close_order l1 p i sd q res = Ok l2 \<and> same_accounts l l2"
  using open_close_undo [OF assms] by (auto simp: same_accounts_def)

interpretation accounts: reservation_provider
  "reservable p i" "\<lambda>l. open_order l p i" "\<lambda>l. close_order l p i" same_accounts ledger_wf
  by unfold_locales (auto intro: reservable_open open_order_wf open_close_same)

lemma admit_reservable:
  assumes adm: "admit limits enabled order listing l mkt = Ok a" and wf: "ledger_wf l"
    and price: "0 < reservation_price a"
    and cash: "so_side order = Buy \<Longrightarrow> \<not> cash_constrained limits \<Longrightarrow>
      bt_get (terms_map l) (so_instrument_id order) = Some t \<Longrightarrow>
      cash_reserved (ledger_cash l (so_participant_id order) (currency t))
        \<le> balance (ledger_cash l (so_participant_id order) (currency t))"
    and t: "bt_get (terms_map l) (so_instrument_id order) = Some t"
  shows "reservable (so_participant_id order) (so_instrument_id order) l (so_side order)
    (so_quantity order) (adm_reservation a)"
  using adm
proof (rule admit_Ok, goal_cases)
  case (1 t')
  let ?pos = "ledger_position l (so_participant_id order) (so_instrument_id order)"
  have [simp]: "t' = t" using "1"(1) t by simp
  have mult: "0 < multiplier t" and pos: "position_ok ?pos"
    using ledger_wfD [OF wf] t by (auto simp: terms_ok_def)
  have res: "admit_reservation limits order listing l t ?pos (reservation_price a) = Ok (adm_reservation a)"
    and range: "in_i64 (open_buy ?pos + open_sell ?pos + so_quantity order)"
    using "1"(6) by (auto simp: Let_def)
  have ob: "in_i64 (open_buy ?pos + so_quantity order)" "in_i64 (open_sell ?pos + so_quantity order)"
    using range pos "1"(3) by (auto simp: position_ok_def in_i64_def)
  show ?case
  proof (cases "so_side order")
    case Buy
    show ?thesis
    proof (cases "cash_constrained limits")
      case True
      note r = admit_reservation_buy_Ok [OF res Buy True]
      have "0 \<le> cash_per_lot (adm_reservation a)"
        using r(2) t price mult by simp
      then show ?thesis
        using r(3,4) t Buy "1"(3) ob by (simp add: reservable_def Let_def)
    next
      case False
      then have "adm_reservation a = reservation_none"
        using admit_reservation_none(1) [OF res Buy] by simp
      then show ?thesis
        using t Buy "1"(3) ob cash [OF Buy False t] by (simp add: reservable_def Let_def reservation_none_def)
    qed
  next
    case Sell
    show ?thesis
    proof (cases "shortable t")
      case True
      then show ?thesis
        using admit_reservation_none(2) [OF res Sell True] t Sell "1"(3) ob
        by (simp add: reservable_def reservation_none_def)
    next
      case False
      then show ?thesis
        using admit_reservation_sell_Ok [OF res Sell False] t Sell "1"(3) ob
        by (simp add: reservable_def Let_def)
    qed
  qed
qed

text \<open>
  Admission is sound for the ledger: when \<open>admit\<close> accepts an order at a positive
  price, the ledger always accepts the reservation it asked for, stays well-formed, and
  gives it back exactly when the order is closed. For a buyer who is exempt from funding
  the account must not be overdrawn (see the next property).
\<close>

theorem admitted_order_reserves:
  assumes "admit limits enabled order listing l mkt = Ok a" and "ledger_wf l"
    and "0 < reservation_price a" and "in_i64 (so_quantity order)"
    and "bt_get (terms_map l) (so_instrument_id order) = Some t"
    and "so_side order = Sell \<or> cash_constrained limits \<or>
      cash_reserved (ledger_cash l (so_participant_id order) (currency t))
        \<le> balance (ledger_cash l (so_participant_id order) (currency t))"
  shows "\<exists>l1 l2. open_order l (so_participant_id order) (so_instrument_id order) (so_side order)
        (so_quantity order) (adm_reservation a) = Ok l1 \<and> ledger_wf l1 \<and>
      close_order l1 (so_participant_id order) (so_instrument_id order) (so_side order)
        (so_quantity order) (adm_reservation a) = Ok l2 \<and> same_accounts l l2"
proof -
  have "reservable (so_participant_id order) (so_instrument_id order) l (so_side order)
      (so_quantity order) (adm_reservation a)"
    using assms by (intro admit_reservable [OF assms(1-3) _ assms(5)]) auto
  then show ?thesis
    by (rule accounts.reserve_release_cycle [OF assms(2,4)])
qed

theorem admitted_order_reserves_witness:
  "\<exists>l1 l2. open_order ex_ledger 1 10 Buy 90 \<lparr>cash_per_lot = 16, inventory = False\<rparr> = Ok l1 \<and> ledger_wf l1 \<and>
     close_order l1 1 10 Buy 90 \<lparr>cash_per_lot = 16, inventory = False\<rparr> = Ok l2 \<and> same_accounts ex_ledger l2"
proof -
  have wf: "ledger_wf ex_ledger" by code_simp
  have t: "bt_get (terms_map ex_ledger) (so_instrument_id (ex_order Buy 90 15)) = Some ex_terms"
    by (simp add: ex_ledger_def ex_order_def)
  show ?thesis
    using admitted_order_reserves [OF ex_admit wf _ _ t]
    by (simp add: ex_order_def in_i64_def ex_limits_def risk_limits_new_def)
qed

text \<open>
  The exemption is not honoured by the ledger: a buy order of a participant whose
  limits say that buys need no funding is admitted without a reservation, but if the
  account's available cash is already negative (which settlement allows for exactly such
  participants), \<open>open_order\<close> refuses it as underfunded.
\<close>

theorem unfunded_buy_admitted_then_refused:
  assumes "admit limits enabled order listing l mkt = Ok a" and "ledger_wf l"
    and "so_side order = Buy" and "\<not> cash_constrained limits"
    and "bt_get (terms_map l) (so_instrument_id order) = Some t"
    and "balance (ledger_cash l (so_participant_id order) (currency t))
       < cash_reserved (ledger_cash l (so_participant_id order) (currency t))"
    and "in_i128 (balance (ledger_cash l (so_participant_id order) (currency t))
       - cash_reserved (ledger_cash l (so_participant_id order) (currency t)))"
  shows "open_order l (so_participant_id order) (so_instrument_id order) Buy (so_quantity order)
    (adm_reservation a) = Err LedgerInsufficientCash"
  using assms(1)
proof (rule admit_Ok, goal_cases)
  case (1 t')
  let ?pos = "ledger_position l (so_participant_id order) (so_instrument_id order)"
  let ?cash = "ledger_cash l (so_participant_id order) (currency t)"
  have pos: "position_ok ?pos" and cash: "cash_ok ?cash"
    using ledger_wfD [OF assms(2)] by auto
  have res: "adm_reservation a = reservation_none"
    using "1"(1,6) assms(3-5) by (auto simp: Let_def dest: admit_reservation_none(1))
  have "in_i64 (open_buy ?pos + so_quantity order)"
    using "1"(3,6) pos by (auto simp: position_ok_def in_i64_def Let_def)
  then show ?case
    using assms(5-7) "1"(3) cash res
    by (simp add: open_order_def change_open_def ledger_terms_def change_open_buy_def Let_def
        i64_checked_add_def i128_checked_add_def i128_checked_sub_def per_lot_total_def i128_checked_mul_def
        reservation_none_def cash_available_def cash_ok_def)
qed

definition ex_overdrawn :: ledger where
  "ex_overdrawn = ex_ledger\<lparr>cash_map := [((1, 1), \<lparr>balance = - 5, cash_reserved = 0, fees = 0\<rparr>)]\<rparr>"

theorem unfunded_buy_admitted_then_refused_witness:
  "admit (ex_limits\<lparr>cash_constrained := False\<rparr>) True (ex_order Buy 1 10) ex_listing ex_overdrawn None
     = Ok \<lparr>reservation_price = 10, adm_reservation = reservation_none\<rparr> \<and>
   open_order ex_overdrawn 1 10 Buy 1 reservation_none = Err LedgerInsufficientCash"
proof -
  have a: "admit (ex_limits\<lparr>cash_constrained := False\<rparr>) True (ex_order Buy 1 10) ex_listing ex_overdrawn None
     = Ok \<lparr>reservation_price = 10, adm_reservation = reservation_none\<rparr>"
    by (simp add: admit_def ex_limits_def risk_limits_new_def ex_order_def ex_listing_def ex_ledger_def
        ex_overdrawn_def ex_terms_def ledger_terms_def ledger_position_def default_position_def Let_def
        admit_price_def validate_price_def tmod_def tdiv_def worst_case_position_def admit_reservation_def
        i64_checked_add_def checked_i64_def in_i64_def)
  have wf: "ledger_wf ex_overdrawn" by code_simp
  have t: "bt_get (terms_map ex_overdrawn) (so_instrument_id (ex_order Buy 1 10)) = Some ex_terms"
    by (simp add: ex_overdrawn_def ex_ledger_def ex_order_def)
  have c: "ledger_cash ex_overdrawn (so_participant_id (ex_order Buy 1 10)) (currency ex_terms)
      = \<lparr>balance = - 5, cash_reserved = 0, fees = 0\<rparr>"
    by (simp add: ex_overdrawn_def ex_order_def ex_terms_def ledger_cash_def)
  show ?thesis
    using a unfunded_buy_admitted_then_refused [OF a wf _ _ t]
    unfolding c by (simp add: ex_order_def in_i128_def)
qed

end
