(* ===== verification/Simulation.thy ===== *)
theory Simulation
  imports Events Risk_Engine
begin

text \<open>
  The simulation domain, \<open>packages/bunting-engine/src/simulation.rs\<close>: lifecycle and
  logical clock, scheduled actions, news, tenders, OTC negotiations, facility jobs,
  scores and the trade projections. One definition per method of \<open>SimulationState\<close>, and
  one per arm of its command reducer \<open>apply\<close>. A method that may fail returns the new
  state or the error; the engine discards the state a failing method leaves behind.
\<close>

definition SIMULATION_POLICY_VERSION :: nat where
  "SIMULATION_POLICY_VERSION = 1"

definition MAX_TRADE_HISTORY :: nat where
  "MAX_TRADE_HISTORY = 4096"

definition MAX_NEWS_ITEMS :: nat where
  "MAX_NEWS_ITEMS = 4096"

definition MAX_SCHEDULED_ACTIONS :: nat where
  "MAX_SCHEDULED_ACTIONS = 8192"

subsection \<open>Scenario data\<close>

datatype instrument_kind =
    Equity
  | CurrencyKind
  | Bond nat logical_time_ns
  | OptionKind instrument_id price_ticks logical_time_ns bool
  | FutureKind instrument_id logical_time_ns bool
  | Commodity
  | Synthetic "(instrument_id \<times> int) list"

datatype facility_kind = Asset | Lease | Transport | Storage | Production | Conversion

record facility_definition =
  fd_facility_id :: facility_id
  fd_kind :: facility_kind
  fd_capacity :: quantity_lots
  input_instrument :: "instrument_id option"
  output_instrument :: "instrument_id option"

datatype run_lifecycle = Stopped | Active | Paused | Terminated

record logical_clock =
  clock_now :: logical_time_ns
  step_ns :: nat
  clock_mode :: clock_mode

definition default_clock :: logical_clock where
  "default_clock = \<lparr>clock_now = 0, step_ns = 1000000, clock_mode = Lockstep\<rparr>"

datatype cashflow_kind = Dividend | Coupon | Interest | Fee | Settlement | Adjustment

datatype scheduled_action_kind =
    Cashflow participant_id currency_id money_minor cashflow_kind
  | ExpireInstrument instrument_id
  | ExerciseOption participant_id instrument_id quantity_lots
  | Deliver participant_id instrument_id quantity_lots
  | CompleteFacilityJob nat

record scheduled_action =
  action_id :: nat
  effective_at :: logical_time_ns
  action_kind :: scheduled_action_kind

record news_item =
  ni_news_id :: news_id
  published_at :: logical_time_ns
  ni_audience :: news_audience
  headline :: string
  news_body :: string

record simulation_scenario =
  ss_policy_version :: nat
  ss_clock :: logical_clock
  ss_facilities :: "(facility_id, facility_definition) btree_map"
  ss_scheduled_actions :: "scheduled_action list"
  initial_news :: "news_item list"
  starts_active :: bool

definition default_simulation_scenario :: simulation_scenario where
  "default_simulation_scenario =
     \<lparr>ss_policy_version = SIMULATION_POLICY_VERSION, ss_clock = default_clock, ss_facilities = [],
      ss_scheduled_actions = [], initial_news = [], starts_active = True\<rparr>"

datatype simulation_error =
    InvalidSimulation | InvalidLifecycle | InvalidCommand | TimeRegression | BoundExceeded
  | DuplicateIdentity | UnknownIdentity | NotOwner | SimulationOverflow | RequiresMatchingState
  | Unsupported | LedgerFailed ledger_error

fun facility_valid :: "facility_id \<times> facility_definition \<Rightarrow> bool" where
  "facility_valid (i, f) \<longleftrightarrow>
     \<not> (i \<noteq> fd_facility_id f \<or> i = 0 \<or> fd_capacity f \<le> 0 \<or>
        (input_instrument f = None \<and> output_instrument f = None))"

fun unsettled_kind :: "scheduled_action_kind \<Rightarrow> bool" where
  "unsettled_kind (ExerciseOption _ _ _) = True"
| "unsettled_kind (Deliver _ _ _) = True"
| "unsettled_kind _ = False"

definition scenario_facilities_deserialize ::
    "facility_definition list \<Rightarrow> (facility_id, facility_definition) btree_map option" where
  "scenario_facilities_deserialize values =
     foldl (\<lambda>acc f. Option.bind acc (\<lambda>m.
        if bt_get m (fd_facility_id f) \<noteq> None then None else Some (bt_insert (fd_facility_id f) f m)))
       (Some []) values"

definition simulation_scenario_validate :: "simulation_scenario \<Rightarrow> (unit, simulation_error) result" where
  "simulation_scenario_validate s =
     (if ss_policy_version s \<noteq> SIMULATION_POLICY_VERSION \<or> step_ns (ss_clock s) = 0 \<or>
         length (ss_scheduled_actions s) > MAX_SCHEDULED_ACTIONS \<or> length (initial_news s) > MAX_NEWS_ITEMS
      then Err InvalidSimulation
      else if \<not> list_all facility_valid (ss_facilities s) then Err InvalidSimulation
      else if list_ex (unsettled_kind \<circ> action_kind) (ss_scheduled_actions s) then Err Unsupported
      else Ok ())"

fun action_instrument :: "scheduled_action_kind \<Rightarrow> instrument_id option" where
  "action_instrument (ExpireInstrument i) = Some i"
| "action_instrument (ExerciseOption _ i _) = Some i"
| "action_instrument (Deliver _ i _) = Some i"
| "action_instrument (Cashflow _ _ _ _) = None"
| "action_instrument (CompleteFacilityJob _) = None"

definition referenced_instruments :: "simulation_scenario \<Rightarrow> instrument_id list" where
  "referenced_instruments s =
     concat (map (\<lambda>(_, f). List.map_filter (\<lambda>x. x) [input_instrument f, output_instrument f]) (ss_facilities s))
     @ List.map_filter (action_instrument \<circ> action_kind) (ss_scheduled_actions s)"

subsection \<open>The economic context\<close>

text \<open>\<open>ParticipantDefinition\<close> of \<open>lib.rs\<close>, which the context reads.\<close>

record participant_definition =
  pd_participant_id :: participant_id
  pd_enabled :: bool
  pd_limits :: risk_limits
  initial_cash :: "(currency_id, money_minor) btree_map"
  initial_positions :: "(instrument_id, quantity_lots) btree_map"

record simulation_context =
  ctx_ledger :: ledger
  ctx_participants :: "(participant_id, participant_definition) btree_map"
  ctx_reporting_currency :: currency_id
  ctx_fx_rates :: "fx_rate list"

definition require_instrument :: "simulation_context \<Rightarrow> instrument_id \<Rightarrow> (unit, simulation_error) result" where
  "require_instrument ctx i =
     map_err (\<lambda>_. UnknownIdentity) (attempt (ledger_terms (ctx_ledger ctx) i) (\<lambda>_. Ok ()))"

definition require_participant :: "simulation_context \<Rightarrow> participant_id \<Rightarrow> (unit, simulation_error) result" where
  "require_participant ctx p =
     (if bt_get (ctx_participants ctx) p \<noteq> None then Ok () else Err UnknownIdentity)"

text \<open>Whether fills must leave the participant's cash non-negative.\<close>

definition funded :: "(participant_id, participant_definition) btree_map \<Rightarrow> participant_id \<Rightarrow> bool" where
  "funded participants p =
     (case bt_get participants p of None \<Rightarrow> False | Some d \<Rightarrow> cash_constrained (pd_limits d))"

definition ctx_party :: "simulation_context \<Rightarrow> participant_id \<Rightarrow> fill_party" where
  "ctx_party ctx p =
     \<lparr>party_participant = p, party_fee = 0, party_order = None,
      enforce_funding = funded (ctx_participants ctx) p\<rparr>"

text \<open>A ledger call inside a simulation method: \<open>context.ledger.f(...)?\<close>.\<close>

definition with_ledger ::
    "simulation_context \<Rightarrow> (ledger, ledger_error) result \<Rightarrow> (simulation_context, simulation_error) result" where
  "with_ledger ctx r = attempt (map_err LedgerFailed r) (\<lambda>l. Ok (ctx\<lparr>ctx_ledger := l\<rparr>))"

subsection \<open>Trade projections\<close>

record trade_record =
  tr_logical_time :: logical_time_ns
  tr_price :: price_ticks
  tr_quantity :: quantity_lots

record ohlc_bar =
  bucket_start :: logical_time_ns
  bar_open :: price_ticks
  bar_high :: price_ticks
  bar_low :: price_ticks
  bar_close :: price_ticks
  bar_volume :: quantity_lots

record market_projection =
  trades :: "trade_record list"
  bars :: "ohlc_bar list"
  cumulative_volume :: quantity_lots

definition default_projection :: market_projection where
  "default_projection = \<lparr>trades = [], bars = [], cumulative_volume = 0\<rparr>"

definition bucket_of :: "trade_record \<Rightarrow> logical_time_ns" where
  "bucket_of trade = (tr_logical_time trade div 1000000000) * 1000000000"

text \<open>The last bar when it is the trade's.\<close>

definition current_bar :: "market_projection \<Rightarrow> trade_record \<Rightarrow> ohlc_bar option" where
  "current_bar mp trade =
     (if bars mp \<noteq> [] \<and> bucket_start (last (bars mp)) = bucket_of trade then Some (last (bars mp)) else None)"

definition validate_trade :: "market_projection \<Rightarrow> trade_record \<Rightarrow> (unit, simulation_error) result" where
  "validate_trade mp trade =
     attempt (ok_or SimulationOverflow (i64_checked_add (cumulative_volume mp) (tr_quantity trade))) (\<lambda>_.
     case current_bar mp trade of
       None \<Rightarrow> Ok ()
     | Some bar \<Rightarrow>
         attempt (ok_or SimulationOverflow (i64_checked_add (bar_volume bar) (tr_quantity trade))) (\<lambda>_. Ok ()))"

text \<open>A bounded queue drops its oldest element when full.\<close>

definition push_bounded :: "'a list \<Rightarrow> 'a \<Rightarrow> 'a list" where
  "push_bounded xs x = (if length xs = MAX_TRADE_HISTORY then tl xs else xs) @ [x]"

definition record_trade ::
    "market_projection \<Rightarrow> trade_record \<Rightarrow> (market_projection, simulation_error) result" where
  "record_trade mp trade =
     attempt (validate_trade mp trade) (\<lambda>_.
     attempt (ok_or SimulationOverflow (i64_checked_add (cumulative_volume mp) (tr_quantity trade))) (\<lambda>cum.
     let mp1 = mp\<lparr>cumulative_volume := cum, trades := push_bounded (trades mp) trade\<rparr> in
     case current_bar mp1 trade of
       Some bar \<Rightarrow>
         attempt (ok_or SimulationOverflow (i64_checked_add (bar_volume bar) (tr_quantity trade))) (\<lambda>vol.
         Ok (mp1\<lparr>bars := butlast (bars mp1) @
              [bar\<lparr>bar_high := max (bar_high bar) (tr_price trade), bar_low := min (bar_low bar) (tr_price trade),
                   bar_close := tr_price trade, bar_volume := vol\<rparr>]\<rparr>))
     | None \<Rightarrow>
         Ok (mp1\<lparr>bars := push_bounded (bars mp1)
              \<lparr>bucket_start = bucket_of trade, bar_open = tr_price trade, bar_high = tr_price trade,
               bar_low = tr_price trade, bar_close = tr_price trade, bar_volume = tr_quantity trade\<rparr>\<rparr>)))"

subsection \<open>State\<close>

type_synonym private_projection = "news_id list"

record tender_state =
  t_tender_id :: tender_id
  t_participant_id :: participant_id
  t_instrument_id :: instrument_id
  t_side :: side
  t_quantity :: quantity_lots
  t_price :: price_ticks
  t_expires_at :: logical_time_ns
  t_status :: string

record otc_state =
  o_negotiation_id :: negotiation_id
  proposer_id :: participant_id
  counterparty_id :: participant_id
  o_instrument_id :: instrument_id
  o_side :: side
  o_quantity :: quantity_lots
  o_price :: price_ticks
  o_expires_at :: logical_time_ns
  o_status :: string
  awaiting :: participant_id

record facility_job =
  job_id :: nat
  job_facility_id :: facility_id
  job_participant_id :: participant_id
  input_quantity :: quantity_lots
  output_quantity :: quantity_lots
  completes_at :: logical_time_ns
  completed :: bool

record score_entry =
  se_participant_id :: participant_id
  score :: money_minor
  rank_of :: nat

record iteration_report =
  report_policy_version :: nat
  generated_at :: logical_time_ns
  entries_of :: "score_entry list"

record administrator_change =
  ac_actor :: participant_id
  ac_effective_at :: logical_time_ns
  ac_reason :: string

record simulation_state =
  policy_version :: nat
  lifecycle :: run_lifecycle
  clock :: logical_clock
  facilities :: "(facility_id, facility_definition) btree_map"
  halted_instruments :: "instrument_id btree_set"
  scheduled_actions :: "scheduled_action list"
  applied_actions :: "nat btree_set"
  market :: "(instrument_id, market_projection) btree_map"
  market_by_listing :: "(listing_key, market_projection) btree_map"
  private_news :: "(participant_id, private_projection) btree_map"
  news :: "news_item list"
  tenders :: "(tender_id, tender_state) btree_map"
  otc :: "(negotiation_id, otc_state) btree_map"
  facility_jobs :: "(nat, facility_job) btree_map"
  administrator_changes :: "administrator_change list"
  reports :: "iteration_report list"
  next_action_id :: nat

definition default_simulation_state :: simulation_state where
  "default_simulation_state =
     \<lparr>policy_version = SIMULATION_POLICY_VERSION, lifecycle = Stopped, clock = default_clock,
      facilities = [], halted_instruments = [], scheduled_actions = [], applied_actions = [],
      market = [], market_by_listing = [], private_news = [], news = [], tenders = [], otc = [],
      facility_jobs = [], administrator_changes = [], reports = [], next_action_id = 1\<rparr>"

definition u128_saturating_succ :: "nat \<Rightarrow> nat" where
  "u128_saturating_succ n = min (Suc n) (2 ^ 128 - 1)"

definition action_key :: "scheduled_action \<Rightarrow> logical_time_ns \<times> nat" where
  "action_key a = (effective_at a, action_id a)"

text \<open>The loop over the scenario's actions: identifiers seen so far and the state built.\<close>

fun load_actions ::
    "scheduled_action list \<Rightarrow> nat btree_set \<Rightarrow> simulation_state \<Rightarrow> (simulation_state, simulation_error) result" where
  "load_actions [] ids s = Ok s"
| "load_actions (a # as) ids s =
     (if action_id a \<in> set ids then Err DuplicateIdentity
      else load_actions as (bs_insert (action_id a) ids)
             (s\<lparr>scheduled_actions := scheduled_actions s @ [a],
                next_action_id := max (next_action_id s) (u128_saturating_succ (action_id a))\<rparr>))"

definition simulation_from_scenario ::
    "simulation_scenario \<Rightarrow> (simulation_state, simulation_error) result" where
  "simulation_from_scenario sc =
     attempt (simulation_scenario_validate sc) (\<lambda>_.
     attempt (load_actions (ss_scheduled_actions sc) []
        (default_simulation_state
           \<lparr>lifecycle := (if starts_active sc then Active else Stopped), clock := ss_clock sc,
            facilities := ss_facilities sc, news := initial_news sc\<rparr>)) (\<lambda>s.
     Ok (s\<lparr>scheduled_actions := sort_key action_key (scheduled_actions s)\<rparr>)))"

subsection \<open>Helpers of the reducer\<close>

definition require_lifecycle :: "simulation_state \<Rightarrow> run_lifecycle \<Rightarrow> (unit, simulation_error) result" where
  "require_lifecycle s required = (if lifecycle s = required then Ok () else Err InvalidLifecycle)"

definition validate_reason :: "string \<Rightarrow> (unit, simulation_error) result" where
  "validate_reason reason =
     (if reason = [] \<or> length reason > 1024 then Err InvalidCommand else Ok ())"

definition route_news :: "simulation_state \<Rightarrow> news_id \<Rightarrow> news_audience \<Rightarrow> simulation_state" where
  "route_news s i audience =
     (case audience of
        Participant p \<Rightarrow>
          s\<lparr>private_news := bt_insert p
              ((case bt_get (private_news s) p of None \<Rightarrow> [] | Some ns \<Rightarrow> ns) @ [i]) (private_news s)\<rparr>
      | _ \<Rightarrow> s)"

definition record_admin ::
    "simulation_state \<Rightarrow> participant_id \<Rightarrow> logical_time_ns \<Rightarrow> string \<Rightarrow> simulation_state" where
  "record_admin s actor at reason =
     s\<lparr>administrator_changes := administrator_changes s @
        [\<lparr>ac_actor = actor, ac_effective_at = at, ac_reason = reason\<rparr>]\<rparr>"

definition schedule :: "simulation_state \<Rightarrow> scheduled_action \<Rightarrow> (simulation_state, simulation_error) result" where
  "schedule s a =
     (if length (scheduled_actions s) \<ge> MAX_SCHEDULED_ACTIONS \<or> effective_at a \<le> clock_now (clock s) \<or>
         list_ex (\<lambda>x. action_id x = action_id a) (scheduled_actions s)
      then Err BoundExceeded
      else Ok (s\<lparr>scheduled_actions := sort_key action_key (scheduled_actions s @ [a])\<rparr>))"

definition next_action :: "simulation_state \<Rightarrow> nat \<times> simulation_state" where
  "next_action s = (next_action_id s, s\<lparr>next_action_id := u128_saturating_succ (next_action_id s)\<rparr>)"

definition has_due_actions :: "simulation_state \<Rightarrow> logical_time_ns \<Rightarrow> bool" where
  "has_due_actions s at = (case scheduled_actions s of [] \<Rightarrow> False | a # _ \<Rightarrow> effective_at a \<le> at)"

definition tender_open :: "tender_state \<Rightarrow> bool" where
  "tender_open t \<longleftrightarrow> t_status t = ''open''"

definition otc_open :: "otc_state \<Rightarrow> bool" where
  "otc_open n \<longleftrightarrow> o_status n = ''proposed'' \<or> o_status n = ''countered''"

definition min_option :: "'a::linorder list \<Rightarrow> 'a option" where
  "min_option xs = (case xs of [] \<Rightarrow> None | x # ys \<Rightarrow> Some (foldl min x ys))"

definition simulation_next_due :: "simulation_state \<Rightarrow> logical_time_ns option" where
  "simulation_next_due s =
     min_option (List.map_filter (\<lambda>x. x)
       [case scheduled_actions s of [] \<Rightarrow> None | a # _ \<Rightarrow> Some (effective_at a),
        min_option (map t_expires_at (filter tender_open (map snd (tenders s)))),
        min_option (map o_expires_at (filter otc_open (map snd (otc s))))])"

subsection \<open>Clock and scheduled actions\<close>

type_synonym simulation_work = "simulation_context \<times> simulation_state"

definition apply_scheduled ::
    "scheduled_action \<Rightarrow> simulation_work \<Rightarrow> (simulation_work, simulation_error) result" where
  "apply_scheduled a w =
     (let ctx = fst w; s = snd w in
      case action_kind a of
        Cashflow p c amount _ \<Rightarrow>
          attempt (with_ledger ctx (post_cash (ctx_ledger ctx) p c amount)) (\<lambda>ctx'. Ok (ctx', s))
      | CompleteFacilityJob j \<Rightarrow>
          attempt (ok_or UnknownIdentity (bt_get (facility_jobs s) j)) (\<lambda>job.
          attempt (ok_or UnknownIdentity (bt_get (facilities s) (job_facility_id job))) (\<lambda>f.
          attempt (with_ledger ctx (convert (ctx_ledger ctx) (job_participant_id job)
            (map_option (\<lambda>i. (i, input_quantity job)) (input_instrument f))
            (map_option (\<lambda>i. (i, output_quantity job)) (output_instrument f)))) (\<lambda>ctx'.
          Ok (ctx', s\<lparr>facility_jobs := bt_insert j (job\<lparr>completed := True\<rparr>) (facility_jobs s)\<rparr>))))
      | ExpireInstrument i \<Rightarrow> Ok (ctx, s\<lparr>halted_instruments := bs_insert i (halted_instruments s)\<rparr>)
      | ExerciseOption _ _ _ \<Rightarrow> Err Unsupported
      | Deliver _ _ _ \<Rightarrow> Err Unsupported)"

definition apply_due ::
    "scheduled_action \<Rightarrow> simulation_event list \<times> simulation_work \<Rightarrow>
     (simulation_event list \<times> simulation_work, simulation_error) result" where
  "apply_due a w =
     attempt (apply_scheduled a (snd w)) (\<lambda>(ctx, s).
     Ok (fst w @ [ScheduledActionApplied (action_id a)],
         (ctx, s\<lparr>applied_actions := bs_insert (action_id a) (applied_actions s)\<rparr>)))"

definition sweep_tenders :: "logical_time_ns \<Rightarrow> simulation_state \<Rightarrow> simulation_event list \<times> simulation_state" where
  "sweep_tenders now s =
     (let due = (\<lambda>t. tender_open t \<and> t_expires_at t \<le> now) in
      (List.map_filter (\<lambda>(_, t). if due t then Some (TenderChanged (t_tender_id t) ''expired'') else None) (tenders s),
       s\<lparr>tenders := map (\<lambda>(k, t). (k, if due t then t\<lparr>t_status := ''expired''\<rparr> else t)) (tenders s)\<rparr>))"

definition sweep_otc :: "logical_time_ns \<Rightarrow> simulation_state \<Rightarrow> simulation_event list \<times> simulation_state" where
  "sweep_otc now s =
     (let due = (\<lambda>n. otc_open n \<and> o_expires_at n \<le> now) in
      (List.map_filter (\<lambda>(_, n). if due n then Some (OtcChanged (o_negotiation_id n) ''expired'') else None) (otc s),
       s\<lparr>otc := map (\<lambda>(k, n). (k, if due n then n\<lparr>o_status := ''expired''\<rparr> else n)) (otc s)\<rparr>))"

definition simulation_catch_up ::
    "simulation_state \<Rightarrow> simulation_context \<Rightarrow> logical_time_ns \<Rightarrow> bool \<Rightarrow>
     (simulation_event list \<times> simulation_work, simulation_error) result" where
  "simulation_catch_up s ctx now sweep =
     (if now < clock_now (clock s) then Err TimeRegression
      else
        let s1 = s\<lparr>clock := (clock s)\<lparr>clock_now := now\<rparr>\<rparr> in
        attempt (if has_due_actions s1 now
                 then try_fold apply_due (takeWhile (\<lambda>a. effective_at a \<le> now) (scheduled_actions s1))
                        ([], (ctx, s1\<lparr>scheduled_actions := dropWhile (\<lambda>a. effective_at a \<le> now) (scheduled_actions s1)\<rparr>))
                 else Ok ([], (ctx, s1))) (\<lambda>(events, (ctx2, s2)).
        if sweep
        then let (tender_events, s3) = sweep_tenders now s2; (otc_events, s4) = sweep_otc now s3 in
             Ok (events @ tender_events @ otc_events, (ctx2, s4))
        else Ok (events, (ctx2, s2))))"

definition advance ::
    "simulation_state \<Rightarrow> simulation_context \<Rightarrow> nat \<Rightarrow>
     (simulation_event list \<times> simulation_work, simulation_error) result" where
  "advance s ctx steps =
     attempt (require_lifecycle s Active) (\<lambda>_.
     if steps = 0 then Err InvalidCommand
     else
       let limit = (case clock_mode (clock s) of
                      Lockstep \<Rightarrow> 1 | Paced _ \<Rightarrow> 1 | Accelerated most \<Rightarrow> max most 1) in
       if steps > limit then Err BoundExceeded
       else
         let start = clock_now (clock s) in
         attempt (ok_or SimulationOverflow (checked_u64 (step_ns (clock s) * steps))) (\<lambda>delta.
         attempt (ok_or SimulationOverflow (u64_checked_add start delta)) (\<lambda>now.
         attempt (simulation_catch_up s ctx now True) (\<lambda>(events, w).
         Ok (ClockAdvanced start now # events, w)))))"

subsection \<open>Scores\<close>

text \<open>Highest value first, ties by participant (\<open>sort_by_key\<close> on \<open>Reverse\<close>).\<close>

definition score_key :: "score_entry \<Rightarrow> int \<times> participant_id" where
  "score_key e = (- score e, se_participant_id e)"

definition score_iteration ::
    "simulation_state \<Rightarrow> simulation_context \<Rightarrow>
     (simulation_event list \<times> simulation_work, simulation_error) result" where
  "score_iteration s ctx =
     attempt (map_err LedgerFailed (try_map (\<lambda>p.
        attempt (reporting_value (ctx_ledger ctx) p (ctx_reporting_currency ctx) (ctx_fx_rates ctx)) (\<lambda>v.
        Ok \<lparr>se_participant_id = p, score = v, rank_of = 0\<rparr>)) (map fst (ctx_participants ctx)))) (\<lambda>unranked.
     attempt (try_map (\<lambda>(i, e). attempt (ok_or BoundExceeded (checked_u32 (i + 1))) (\<lambda>r. Ok (e\<lparr>rank_of := r\<rparr>)))
        (enumerate 0 (sort_key score_key unranked))) (\<lambda>ranked.
     attempt (ok_or BoundExceeded (checked_u32 (length ranked))) (\<lambda>count.
     Ok ([IterationScored count],
         (ctx, s\<lparr>reports := reports s @
            [\<lparr>report_policy_version = SIMULATION_POLICY_VERSION, generated_at = clock_now (clock s),
              entries_of = ranked\<rparr>]\<rparr>)))))"

subsection \<open>Arms of the command reducer\<close>

text \<open>Lifecycle, pacing and halts.\<close>

definition change_lifecycle ::
    "run_lifecycle \<Rightarrow> run_lifecycle \<Rightarrow> string \<Rightarrow> simulation_state \<Rightarrow> simulation_context \<Rightarrow>
     (simulation_event list \<times> simulation_work, simulation_error) result" where
  "change_lifecycle required new status s ctx =
     attempt (require_lifecycle s required) (\<lambda>_. Ok ([LifecycleChanged status], (ctx, s\<lparr>lifecycle := new\<rparr>)))"

definition set_pacing ::
    "simulation_state \<Rightarrow> simulation_context \<Rightarrow> participant_id \<Rightarrow> logical_time_ns \<Rightarrow> clock_mode \<Rightarrow> string \<Rightarrow>
     (simulation_event list \<times> simulation_work, simulation_error) result" where
  "set_pacing s ctx actor at mode reason =
     attempt (validate_reason reason) (\<lambda>_.
     Ok ([PacingChanged mode reason, AdministratorChangeRecorded reason],
         (ctx, record_admin (s\<lparr>clock := (clock s)\<lparr>clock_mode := mode\<rparr>\<rparr>) actor at reason)))"

definition terminate ::
    "simulation_state \<Rightarrow> simulation_context \<Rightarrow> participant_id \<Rightarrow> logical_time_ns \<Rightarrow> string \<Rightarrow>
     (simulation_event list \<times> simulation_work, simulation_error) result" where
  "terminate s ctx actor at reason =
     attempt (validate_reason reason) (\<lambda>_.
     if lifecycle s = Terminated then Err InvalidLifecycle
     else Ok ([LifecycleChanged ''terminated'', AdministratorChangeRecorded reason],
              (ctx, record_admin (s\<lparr>lifecycle := Terminated\<rparr>) actor at reason)))"

definition set_listing_halt ::
    "simulation_state \<Rightarrow> simulation_context \<Rightarrow> participant_id \<Rightarrow> logical_time_ns \<Rightarrow> instrument_id \<Rightarrow> bool \<Rightarrow>
     string \<Rightarrow> (simulation_event list \<times> simulation_work, simulation_error) result" where
  "set_listing_halt s ctx actor at i halted reason =
     attempt (validate_reason reason) (\<lambda>_.
     attempt (require_instrument ctx i) (\<lambda>_.
     let s1 = s\<lparr>halted_instruments := (if halted then bs_insert i (halted_instruments s)
                                       else bs_remove i (halted_instruments s))\<rparr> in
     Ok ([ListingHaltChanged i halted, AdministratorChangeRecorded reason],
         (ctx, record_admin s1 actor at reason))))"

definition publish_news ::
    "simulation_state \<Rightarrow> simulation_context \<Rightarrow> logical_time_ns \<Rightarrow> news_id \<Rightarrow> news_audience \<Rightarrow> string \<Rightarrow>
     string \<Rightarrow> (simulation_event list \<times> simulation_work, simulation_error) result" where
  "publish_news s ctx at i audience head bod =
     (if length (news s) \<ge> MAX_NEWS_ITEMS \<or> head = [] \<or> length head > 256 \<or> length bod > 16384 \<or>
         list_ex (\<lambda>n. ni_news_id n = i) (news s)
      then Err BoundExceeded
      else Ok ([NewsPublished i audience],
               (ctx, route_news (s\<lparr>news := news s @ [\<lparr>ni_news_id = i, published_at = at, ni_audience = audience,
                  headline = head, news_body = bod\<rparr>]\<rparr>) i audience)))"

text \<open>Tenders, settled against the house at their fixed price.\<close>

definition open_tender ::
    "simulation_state \<Rightarrow> simulation_context \<Rightarrow> logical_time_ns \<Rightarrow> tender_id \<Rightarrow> participant_id \<Rightarrow>
     instrument_id \<Rightarrow> side \<Rightarrow> quantity_lots \<Rightarrow> price_ticks \<Rightarrow> logical_time_ns \<Rightarrow>
     (simulation_event list \<times> simulation_work, simulation_error) result" where
  "open_tender s ctx at i p instrument sd q price expires =
     attempt (require_instrument ctx instrument) (\<lambda>_.
     attempt (require_participant ctx p) (\<lambda>_.
     if q \<le> 0 \<or> price \<le> 0 \<or> expires \<le> at \<or> bt_get (tenders s) i \<noteq> None then Err InvalidCommand
     else Ok ([TenderChanged i ''open''],
              (ctx, s\<lparr>tenders := bt_insert i \<lparr>t_tender_id = i, t_participant_id = p, t_instrument_id = instrument,
                 t_side = sd, t_quantity = q, t_price = price, t_expires_at = expires, t_status = ''open''\<rparr>
                 (tenders s)\<rparr>))))"

definition tender_fill :: "simulation_context \<Rightarrow> tender_state \<Rightarrow> fill" where
  "tender_fill ctx t =
     (let party = ctx_party ctx (t_participant_id t);
          parties = (case t_side t of Buy \<Rightarrow> (Some party, None) | Sell \<Rightarrow> (None, Some party)) in
      \<lparr>fill_instrument = t_instrument_id t, fill_price = t_price t, fill_quantity = t_quantity t,
       buyer = fst parties, seller = snd parties, fill_set_mark = False\<rparr>)"

fun tender_status :: "tender_decision \<Rightarrow> string" where
  "tender_status TenderAccept = ''accepted''"
| "tender_status TenderDecline = ''declined''"

definition decide_tender ::
    "simulation_state \<Rightarrow> simulation_context \<Rightarrow> participant_id \<Rightarrow> logical_time_ns \<Rightarrow> tender_id \<Rightarrow>
     tender_decision \<Rightarrow> (simulation_event list \<times> simulation_work, simulation_error) result" where
  "decide_tender s ctx actor at i decision =
     attempt (ok_or UnknownIdentity (bt_get (tenders s) i)) (\<lambda>t.
     if t_participant_id t \<noteq> actor \<or> \<not> tender_open t \<or> t_expires_at t \<le> at then Err InvalidLifecycle
     else
       attempt (if decision = TenderAccept
                then attempt (with_ledger ctx (settle (ctx_ledger ctx) (tender_fill ctx t))) (\<lambda>ctx'.
                     Ok ([TenderSettled i (t_participant_id t) (t_instrument_id t) (t_side t)
                            (t_quantity t) (t_price t)], ctx'))
                else Ok ([], ctx)) (\<lambda>(events, ctx').
       let t' = t\<lparr>t_status := tender_status decision\<rparr> in
       Ok (TenderChanged i (t_status t') # events, (ctx', s\<lparr>tenders := bt_insert i t' (tenders s)\<rparr>))))"

text \<open>Bilateral negotiations.\<close>

definition open_otc ::
    "simulation_state \<Rightarrow> simulation_context \<Rightarrow> participant_id \<Rightarrow> logical_time_ns \<Rightarrow> negotiation_id \<Rightarrow>
     participant_id \<Rightarrow> instrument_id \<Rightarrow> side \<Rightarrow> quantity_lots \<Rightarrow> price_ticks \<Rightarrow> logical_time_ns \<Rightarrow>
     (simulation_event list \<times> simulation_work, simulation_error) result" where
  "open_otc s ctx actor at i counterparty instrument sd q price expires =
     attempt (require_instrument ctx instrument) (\<lambda>_.
     attempt (require_participant ctx actor) (\<lambda>_.
     attempt (require_participant ctx counterparty) (\<lambda>_.
     if q \<le> 0 \<or> price \<le> 0 \<or> expires \<le> at \<or> counterparty = actor \<or> bt_get (otc s) i \<noteq> None
     then Err InvalidCommand
     else Ok ([OtcChanged i ''proposed''],
              (ctx, s\<lparr>otc := bt_insert i \<lparr>o_negotiation_id = i, proposer_id = actor, counterparty_id = counterparty,
                 o_instrument_id = instrument, o_side = sd, o_quantity = q, o_price = price, o_expires_at = expires,
                 o_status = ''proposed'', awaiting = counterparty\<rparr> (otc s)\<rparr>)))))"

definition counter_otc ::
    "simulation_state \<Rightarrow> simulation_context \<Rightarrow> participant_id \<Rightarrow> logical_time_ns \<Rightarrow> negotiation_id \<Rightarrow>
     quantity_lots \<Rightarrow> price_ticks \<Rightarrow> (simulation_event list \<times> simulation_work, simulation_error) result" where
  "counter_otc s ctx actor at i q price =
     attempt (ok_or UnknownIdentity (bt_get (otc s) i)) (\<lambda>n.
     if actor \<noteq> awaiting n \<or> \<not> otc_open n \<or> o_expires_at n \<le> at \<or> q \<le> 0 \<or> price \<le> 0 then Err InvalidLifecycle
     else
       let n' = n\<lparr>o_quantity := q, o_price := price, o_status := ''countered'',
                  awaiting := (if actor = proposer_id n then counterparty_id n else proposer_id n)\<rparr> in
       Ok ([OtcChanged i (o_status n')], (ctx, s\<lparr>otc := bt_insert i n' (otc s)\<rparr>)))"

fun otc_status :: "otc_decision \<Rightarrow> string" where
  "otc_status OtcAccept = ''accepted''"
| "otc_status OtcReject = ''rejected''"
| "otc_status OtcBreak = ''broken''"

definition otc_parties :: "otc_state \<Rightarrow> participant_id \<times> participant_id" where
  "otc_parties n =
     (case o_side n of Buy \<Rightarrow> (proposer_id n, counterparty_id n) | Sell \<Rightarrow> (counterparty_id n, proposer_id n))"

definition otc_fill :: "simulation_context \<Rightarrow> otc_state \<Rightarrow> fill" where
  "otc_fill ctx n =
     \<lparr>fill_instrument = o_instrument_id n, fill_price = o_price n, fill_quantity = o_quantity n,
      buyer = Some (ctx_party ctx (fst (otc_parties n))), seller = Some (ctx_party ctx (snd (otc_parties n))),
      fill_set_mark = False\<rparr>"

definition decide_otc ::
    "simulation_state \<Rightarrow> simulation_context \<Rightarrow> participant_id \<Rightarrow> logical_time_ns \<Rightarrow> negotiation_id \<Rightarrow>
     otc_decision \<Rightarrow> (simulation_event list \<times> simulation_work, simulation_error) result" where
  "decide_otc s ctx actor at i decision =
     attempt (ok_or UnknownIdentity (bt_get (otc s) i)) (\<lambda>n.
     let party = (actor = proposer_id n \<or> actor = counterparty_id n);
         responder = (actor = awaiting n) in
     if \<not> (party \<and> (responder \<or> decision = OtcBreak)) then Err NotOwner
     else if \<not> otc_open n \<or> o_expires_at n \<le> at then Err InvalidLifecycle
     else
       attempt (if decision = OtcAccept
                then attempt (with_ledger ctx (settle (ctx_ledger ctx) (otc_fill ctx n))) (\<lambda>ctx'.
                     Ok ([OtcSettled i (fst (otc_parties n)) (snd (otc_parties n)) (o_instrument_id n)
                            (o_quantity n) (o_price n)], ctx'))
                else Ok ([], ctx)) (\<lambda>(events, ctx').
       let n' = n\<lparr>o_status := otc_status decision\<rparr> in
       Ok (OtcChanged i (o_status n') # events, (ctx', s\<lparr>otc := bt_insert i n' (otc s)\<rparr>))))"

text \<open>Cashflows, fines and facility jobs.\<close>

definition schedule_cashflow ::
    "simulation_state \<Rightarrow> simulation_context \<Rightarrow> participant_id \<Rightarrow> currency_id \<Rightarrow> money_minor \<Rightarrow>
     logical_time_ns \<Rightarrow> string \<Rightarrow> (simulation_event list \<times> simulation_work, simulation_error) result" where
  "schedule_cashflow s ctx p c amount effective reason =
     attempt (validate_reason reason) (\<lambda>_.
     let (i, s1) = next_action s in
     attempt (schedule s1 \<lparr>action_id = i, effective_at = effective,
        action_kind = Cashflow p c amount Adjustment\<rparr>) (\<lambda>s2.
     Ok ([CashflowScheduled p c amount], (ctx, s2))))"

definition apply_fine ::
    "simulation_state \<Rightarrow> simulation_context \<Rightarrow> participant_id \<Rightarrow> logical_time_ns \<Rightarrow> participant_id \<Rightarrow>
     currency_id \<Rightarrow> money_minor \<Rightarrow> string \<Rightarrow>
     (simulation_event list \<times> simulation_work, simulation_error) result" where
  "apply_fine s ctx actor at p c amount reason =
     attempt (validate_reason reason) (\<lambda>_.
     if amount \<le> 0 then Err InvalidCommand
     else
       attempt (require_participant ctx p) (\<lambda>_.
       attempt (ok_or SimulationOverflow (i128_checked_sub 0 amount)) (\<lambda>debit.
       attempt (with_ledger ctx (post_cash (ctx_ledger ctx) p c debit)) (\<lambda>ctx'.
       Ok ([FineApplied p c amount SIMULATION_POLICY_VERSION, AdministratorChangeRecorded reason],
           (ctx', record_admin s actor at reason))))))"

text \<open>Input quantity of the unfinished jobs of a facility.\<close>

definition reserved_capacity :: "simulation_state \<Rightarrow> facility_id \<Rightarrow> quantity_lots option" where
  "reserved_capacity s f =
     foldl (\<lambda>acc job. Option.bind acc (\<lambda>tot. i64_checked_add tot (input_quantity job))) (Some 0)
       (filter (\<lambda>job. job_facility_id job = f \<and> \<not> completed job) (map snd (facility_jobs s)))"

definition schedule_facility_job ::
    "simulation_state \<Rightarrow> simulation_context \<Rightarrow> logical_time_ns \<Rightarrow> facility_id \<Rightarrow> participant_id \<Rightarrow>
     quantity_lots \<Rightarrow> quantity_lots \<Rightarrow> logical_time_ns \<Rightarrow>
     (simulation_event list \<times> simulation_work, simulation_error) result" where
  "schedule_facility_job s ctx at f p inp outp completes =
     attempt (ok_or UnknownIdentity (bt_get (facilities s) f)) (\<lambda>facility.
     attempt (ok_or SimulationOverflow (reserved_capacity s f)) (\<lambda>held.
     if inp \<le> 0 \<or> outp \<le> 0 \<or>
        (case i64_checked_add held inp of None \<Rightarrow> True | Some tot \<Rightarrow> tot > fd_capacity facility) \<or>
        completes \<le> at
     then Err InvalidCommand
     else
       let (j, s1) = next_action s;
           s2 = s1\<lparr>facility_jobs := bt_insert j \<lparr>job_id = j, job_facility_id = f, job_participant_id = p,
                     input_quantity = inp, output_quantity = outp, completes_at = completes, completed = False\<rparr>
                     (facility_jobs s1)\<rparr> in
       attempt (schedule s2 \<lparr>action_id = j, effective_at = completes, action_kind = CompleteFacilityJob j\<rparr>) (\<lambda>s3.
       Ok ([FacilityJobScheduled f p], (ctx, s3)))))"

definition simulation_apply ::
    "simulation_state \<Rightarrow> simulation_context \<Rightarrow> participant_id \<Rightarrow> logical_time_ns \<Rightarrow> simulation_command \<Rightarrow>
     (simulation_event list \<times> simulation_work, simulation_error) result" where
  "simulation_apply s ctx actor at cmd =
     (if at < clock_now (clock s) then Err TimeRegression
      else case cmd of
        StartRun \<Rightarrow> change_lifecycle Stopped Active ''active'' s ctx
      | PauseRun \<Rightarrow> change_lifecycle Active Paused ''paused'' s ctx
      | ResumeRun \<Rightarrow> change_lifecycle Paused Active ''active'' s ctx
      | Advance steps \<Rightarrow> advance s ctx steps
      | ClockTick \<Rightarrow> Ok ([], (ctx, s))
      | SetPacing mode reason \<Rightarrow> set_pacing s ctx actor at mode reason
      | Terminate reason \<Rightarrow> terminate s ctx actor at reason
      | SetListingHalt i halted reason \<Rightarrow> set_listing_halt s ctx actor at i halted reason
      | PublishNews i audience head bod \<Rightarrow> publish_news s ctx at i audience head bod
      | OpenTender i p instrument sd q price expires \<Rightarrow> open_tender s ctx at i p instrument sd q price expires
      | DecideTender i decision \<Rightarrow> decide_tender s ctx actor at i decision
      | OpenOtc i counterparty instrument sd q price expires \<Rightarrow>
          open_otc s ctx actor at i counterparty instrument sd q price expires
      | CounterOtc i q price \<Rightarrow> counter_otc s ctx actor at i q price
      | DecideOtc i decision \<Rightarrow> decide_otc s ctx actor at i decision
      | SubmitComposite policy minimum_fill legs \<Rightarrow> Err Unsupported
      | ScheduleCashflow p c amount effective reason \<Rightarrow> schedule_cashflow s ctx p c amount effective reason
      | ApplyFine p c amount reason \<Rightarrow> apply_fine s ctx actor at p c amount reason
      | ScheduleFacilityJob f p inp outp completes \<Rightarrow> schedule_facility_job s ctx at f p inp outp completes
      | ScoreIteration \<Rightarrow> score_iteration s ctx
      | MassCancel _ _ \<Rightarrow> Err RequiresMatchingState)"

subsection \<open>Projection of committed events\<close>

definition view_of :: "('k, market_projection) btree_map \<Rightarrow> 'k \<Rightarrow> market_projection" where
  "view_of m k = (case bt_get m k of None \<Rightarrow> default_projection | Some v \<Rightarrow> v)"

definition check_view ::
    "('k, market_projection) btree_map \<Rightarrow> 'k \<Rightarrow> trade_record \<Rightarrow> (unit, simulation_error) result" where
  "check_view m k trade = (case bt_get m k of None \<Rightarrow> Ok () | Some v \<Rightarrow> validate_trade v trade)"

definition project_trade ::
    "simulation_state \<Rightarrow> instrument_id \<Rightarrow> listing_key option \<Rightarrow> trade_record \<Rightarrow>
     (simulation_state, simulation_error) result" where
  "project_trade s i listing trade =
     attempt (case listing of
                None \<Rightarrow> Ok ()
              | Some k \<Rightarrow> if lk_instrument k \<noteq> i then Err UnknownIdentity
                          else check_view (market_by_listing s) k trade) (\<lambda>_.
     attempt (check_view (market s) i trade) (\<lambda>_.
     attempt (record_trade (view_of (market s) i) trade) (\<lambda>v.
     let s1 = s\<lparr>market := bt_insert i v (market s)\<rparr> in
     case listing of
       None \<Rightarrow> Ok s1
     | Some k \<Rightarrow>
         attempt (record_trade (view_of (market_by_listing s1) k) trade) (\<lambda>v'.
         Ok (s1\<lparr>market_by_listing := bt_insert k v' (market_by_listing s1)\<rparr>)))))"

definition project_event ::
    "simulation_state \<Rightarrow> logical_time_ns \<Rightarrow> event_payload \<Rightarrow> (simulation_state, simulation_error) result" where
  "project_event s at event =
     (case event of
        TradeExecuted i listing _ _ _ _ price q _ _ \<Rightarrow>
          project_trade s i listing \<lparr>tr_logical_time = at, tr_price = price, tr_quantity = q\<rparr>
      | _ \<Rightarrow> Ok s)"

end
