(* ===== verification/Calendar.thy ===== *)
theory Calendar
  imports Market_Types
begin

text \<open>
  The trading calendar, \<open>packages/bunting-engine/src/calendar.rs\<close>: four boundaries per
  trading day and venue, numbered through the run. The engine keeps only the number of
  boundaries a venue has passed, so what matters is that the numbered boundaries of a
  valid calendar exist without gaps, never move backwards in time, and agree with the
  phase that the count alone gives.
\<close>

definition MAX_CALENDAR_DAYS :: nat where
  "MAX_CALENDAR_DAYS = 3660"

definition BOUNDARIES_PER_DAY :: nat where
  "BOUNDARIES_PER_DAY = 4"

record venue_session =
  vs_venue_id :: venue_id
  pre_open_ns :: nat
  open_ns :: nat
  closing_call_ns :: nat
  close_ns :: nat

record calendar =
  day_ns :: nat
  days :: nat
  holidays :: "nat btree_set"
  sessions :: "venue_session list"

record boundary =
  b_at :: nat
  b_phase :: session_phase
  b_day :: nat

definition session_ordered :: "nat \<Rightarrow> venue_session \<Rightarrow> bool" where
  "session_ordered day s \<longleftrightarrow>
     pre_open_ns s \<le> open_ns s \<and> open_ns s \<le> closing_call_ns s \<and>
     closing_call_ns s \<le> close_ns s \<and> close_ns s \<le> day"

definition is_valid :: "calendar \<Rightarrow> venue_id btree_set \<Rightarrow> bool" where
  "is_valid c venues \<longleftrightarrow>
     (let covered = foldr bs_insert (map vs_venue_id (sessions c)) [] in
      day_ns c > 0 \<and> 1 \<le> days c \<and> days c \<le> MAX_CALENDAR_DAYS \<and>
      checked_u64 (day_ns c * days c) \<noteq> None \<and>
      list_all (\<lambda>d. d < days c) (holidays c) \<and>
      length covered = length (sessions c) \<and>
      sorted (map vs_venue_id (sessions c)) \<and>
      covered = venues \<and>
      list_all (session_ordered (day_ns c)) (sessions c))"

text \<open>
  \<open>binary_search_by_key\<close> of the standard library. Which of several equal keys it
  returns, and anything on an unsorted slice, is unspecified there; on the sorted,
  distinct sessions of a valid calendar the probes do not matter.
\<close>

function bsearch :: "(nat \<Rightarrow> 'k::linorder) \<Rightarrow> 'k \<Rightarrow> nat \<Rightarrow> nat \<Rightarrow> nat option" where
  "bsearch f k lo hi =
     (if hi \<le> lo then None
      else let mid = lo + (hi - lo) div 2 in
           if f mid = k then Some mid
           else if f mid < k then bsearch f k (Suc mid) hi else bsearch f k lo mid)"
  by pat_completeness auto
termination
  by (relation "measure (\<lambda>(f, k, lo, hi). hi - lo)") auto

declare bsearch.simps [simp del]

definition session :: "calendar \<Rightarrow> venue_id \<Rightarrow> venue_session option" where
  "session c v =
     map_option (\<lambda>i. sessions c ! i)
       (bsearch (\<lambda>i. vs_venue_id (sessions c ! i)) v 0 (length (sessions c)))"

definition trading_days :: "calendar \<Rightarrow> nat list" where
  "trading_days c = filter (\<lambda>d. d \<notin> set (holidays c)) [0 ..< days c]"

definition trading_day :: "calendar \<Rightarrow> nat \<Rightarrow> nat option" where
  "trading_day c i = (if i < length (trading_days c) then Some (trading_days c ! i) else None)"

definition boundary_of :: "venue_session \<Rightarrow> nat \<Rightarrow> nat \<times> session_phase" where
  "boundary_of s k =
     (if k = 0 then (pre_open_ns s, PreOpen)
      else if k = 1 then (open_ns s, Continuous)
      else if k = 2 then (closing_call_ns s, ClosingCall)
      else (close_ns s, Closed))"

definition calendar_boundary :: "calendar \<Rightarrow> venue_id \<Rightarrow> nat \<Rightarrow> boundary option" where
  "calendar_boundary c v stp =
     Option.bind (session c v) (\<lambda>s.
     Option.bind (trading_day c (stp div BOUNDARIES_PER_DAY)) (\<lambda>day.
     let (offset, phase) = boundary_of s (stp mod BOUNDARIES_PER_DAY) in
     Option.bind (checked_u64 (day_ns c * day)) (\<lambda>base.
     Option.bind (checked_u64 (base + offset)) (\<lambda>at.
     Some \<lparr>b_at = at, b_phase = phase, b_day = day\<rparr>))))"

definition phase_after :: "nat \<Rightarrow> session_phase" where
  "phase_after steps =
     (if steps = 0 then Closed
      else let k = (steps - 1) mod BOUNDARIES_PER_DAY in
           if k = 0 then PreOpen else if k = 1 then Continuous else if k = 2 then ClosingCall else Closed)"

subsection \<open>Search\<close>

lemma bsearch_Some: "bsearch f k lo hi = Some i \<Longrightarrow> f i = k \<and> lo \<le> i \<and> i < hi"
proof (induction f k lo hi rule: bsearch.induct)
  case (1 f k lo hi)
  define mid where "mid = lo + (hi - lo) div 2"
  have "lo < hi" and res: "f mid = k \<and> i = mid \<or>
      f mid \<noteq> k \<and> f mid < k \<and> bsearch f k (Suc mid) hi = Some i \<or>
      f mid \<noteq> k \<and> \<not> f mid < k \<and> bsearch f k lo mid = Some i"
    using 1(3) by (subst (asm) bsearch.simps; auto simp: mid_def Let_def split: if_splits)+
  then have mid: "lo \<le> mid" "mid < hi" "\<not> hi \<le> lo"
    by (auto simp: mid_def)
  then show ?case
    using res 1(1,2) [OF _ mid_def] by auto
qed

lemma bsearch_finds:
  assumes "\<And>i j. i < j \<Longrightarrow> j < n \<Longrightarrow> f i < f j" and "lo \<le> i" and "i < hi" and "hi \<le> n" and "f i = k"
  shows "bsearch f k lo hi = Some i"
  using assms
proof (induction f k lo hi rule: bsearch.induct)
  case (1 f k lo hi)
  define mid where "mid = lo + (hi - lo) div 2"
  have mid: "lo \<le> mid" "mid < hi"
    using 1(4,5) by (auto simp: mid_def)
  consider "mid < i" | "mid = i" | "i < mid"
    by linarith
  then show ?case
  proof cases
    case 1: 1
    then have "f mid < k"
      using "1.prems" by auto
    then show ?thesis
      using 1 mid "1.IH"(1) [OF _ mid_def] "1.prems" by (subst bsearch.simps) (simp add: mid_def [symmetric])
  next
    case 2
    then show ?thesis
      using mid "1.prems"(5) by (subst bsearch.simps) (simp add: mid_def [symmetric])
  next
    case 3
    then have "f mid \<noteq> k" "\<not> f mid < k"
      using "1.prems"(1) [of i mid] "1.prems"(4,5) mid by auto
    then show ?thesis
      using 3 mid "1.IH"(2) [OF _ mid_def] "1.prems" by (subst bsearch.simps) (simp add: mid_def [symmetric])
  qed
qed

subsection \<open>Valid calendars\<close>

lemma bs_insert_all:
  fixes xs :: "'a::linorder list"
  shows "bs_wf (foldr bs_insert xs []) \<and> set (foldr bs_insert xs []) = set xs"
  by (induction xs) (auto simp: bs_wf_def [of "[]"])

lemma valid_sessions:
  assumes "is_valid c venues"
  shows "sorted_wrt (<) (map vs_venue_id (sessions c))" and "vs_venue_id ` set (sessions c) = set venues"
    and "s \<in> set (sessions c) \<Longrightarrow> session_ordered (day_ns c) s"
    and "0 < day_ns c" and "day_ns c * days c < 2 ^ 64"
proof -
  let ?ids = "map vs_venue_id (sessions c)"
  let ?covered = "foldr bs_insert ?ids []"
  have len: "length ?covered = length (sessions c)" and srt: "sorted ?ids" and cov: "?covered = venues"
    using assms by (auto simp: is_valid_def Let_def)
  have "distinct ?covered" and set: "set ?covered = set ?ids"
    using bs_insert_all [of ?ids] by (auto simp: bs_wf_def strict_sorted_iff)
  then have "card (set ?ids) = length ?ids"
    using len distinct_card [of ?covered] by simp
  then show "sorted_wrt (<) ?ids"
    using srt card_distinct [of ?ids] by (simp add: strict_sorted_iff)
  show "vs_venue_id ` set (sessions c) = set venues"
    using set cov by simp
  show "session_ordered (day_ns c) s" if "s \<in> set (sessions c)"
    using assms that by (auto simp: is_valid_def Let_def list_all_iff)
  show "0 < day_ns c" and "day_ns c * days c < 2 ^ 64"
    using assms by (auto simp: is_valid_def Let_def result_simps)
qed

lemma session_found:
  assumes "is_valid c venues" and "v \<in> set venues"
  obtains s where "session c v = Some s" and "session_ordered (day_ns c) s"
proof -
  let ?f = "\<lambda>i. vs_venue_id (sessions c ! i)"
  obtain i where i: "i < length (sessions c)" "?f i = v"
    using valid_sessions(2) [OF assms(1)] assms(2) by (metis imageE in_set_conv_nth)
  have "?f j < ?f k" if "j < k" "k < length (sessions c)" for j k
    using sorted_wrt_nth_less [OF valid_sessions(1) [OF assms(1)], of j k] that by simp
  then have "bsearch ?f v 0 (length (sessions c)) = Some i"
    using i by (intro bsearch_finds [of "length (sessions c)"]) auto
  then show ?thesis
    using that [of "sessions c ! i"] valid_sessions(3) [OF assms(1)] i(1) by (simp add: session_def)
qed

lemma trading_days_sorted: "sorted_wrt (<) (trading_days c)"
  unfolding trading_days_def by (rule sorted_wrt_filter) simp

lemma trading_dayD:
  assumes "trading_day c i = Some d"
  shows "i < length (trading_days c)" and "d = trading_days c ! i" and "d < days c" and "d \<notin> set (holidays c)"
proof -
  show i: "i < length (trading_days c)" and d: "d = trading_days c ! i"
    using assms by (auto simp: trading_day_def split: if_splits)
  have "d \<in> set (trading_days c)"
    using i d by simp
  then show "d < days c" and "d \<notin> set (holidays c)"
    by (auto simp: trading_days_def)
qed

lemma boundary_of_bounds:
  assumes "session_ordered day s"
  shows "fst (boundary_of s k) \<le> day" and "j \<le> k \<Longrightarrow> fst (boundary_of s j) \<le> fst (boundary_of s k)"
  using assms by (auto simp: boundary_of_def session_ordered_def)

lemma boundary_of_phase: "snd (boundary_of s (n mod BOUNDARIES_PER_DAY)) = phase_after (Suc n)"
  by (simp add: boundary_of_def phase_after_def Let_def)

text \<open>The one computation behind the claims: a boundary of a valid calendar, with no overflow.\<close>

lemma calendar_boundary_eq:
  assumes valid: "is_valid c venues" and s: "session c v = Some s" "session_ordered (day_ns c) s"
  shows "calendar_boundary c v n =
    map_option (\<lambda>d. \<lparr>b_at = day_ns c * d + fst (boundary_of s (n mod BOUNDARIES_PER_DAY)),
        b_phase = phase_after (Suc n), b_day = d\<rparr>) (trading_day c (n div BOUNDARIES_PER_DAY))"
proof (cases "trading_day c (n div BOUNDARIES_PER_DAY)")
  case (Some d)
  let ?o = "fst (boundary_of s (n mod BOUNDARIES_PER_DAY))"
  have "day_ns c * Suc d \<le> day_ns c * days c"
    using trading_dayD(3) [OF Some] by (intro mult_le_mono2) simp
  then have "day_ns c * d + ?o < 2 ^ 64"
    using boundary_of_bounds(1) [OF s(2), of "n mod BOUNDARIES_PER_DAY"] valid_sessions(5) [OF valid] by simp
  moreover from this have "day_ns c * d < 2 ^ 64"
    by simp
  ultimately show ?thesis
    using Some s(1) boundary_of_phase [of s n]
    by (simp add: calendar_boundary_def checked_u64_def case_prod_unfold)
qed (simp add: calendar_boundary_def s(1))

text \<open>
  The numbered boundaries of a valid calendar exist without gaps: a covered venue
  has exactly four per trading day, no arithmetic overflows on the way, the boundary
  numbered \<open>n\<close> starts the phase that the count \<open>n + 1\<close> alone gives, it lies inside its
  day, and that day is within the run and no holiday.
\<close>

theorem boundary_complete:
  assumes "is_valid c venues" and "v \<in> set venues"
  shows "(calendar_boundary c v n = None \<longleftrightarrow> 4 * length (trading_days c) \<le> n) \<and>
    (\<forall>b. calendar_boundary c v n = Some b \<longrightarrow>
       b_phase b = phase_after (Suc n) \<and> b_day b = trading_days c ! (n div 4) \<and>
       b_day b < days c \<and> b_day b \<notin> set (holidays c) \<and>
       day_ns c * b_day b \<le> b_at b \<and> b_at b \<le> day_ns c * Suc (b_day b))"
proof -
  obtain s where s: "session c v = Some s" "session_ordered (day_ns c) s"
    using session_found [OF assms] .
  note eq = calendar_boundary_eq [OF assms(1) s, of n]
  have "calendar_boundary c v n = None \<longleftrightarrow> length (trading_days c) \<le> n div 4"
    by (simp add: eq trading_day_def BOUNDARIES_PER_DAY_def)
  moreover have "length (trading_days c) \<le> n div 4 \<longleftrightarrow> 4 * length (trading_days c) \<le> n"
    by (simp add: less_eq_div_iff_mult_less_eq mult.commute)
  ultimately show ?thesis
    using boundary_of_bounds(1) [OF s(2)] trading_dayD [of c "n div BOUNDARIES_PER_DAY"]
    by (auto simp: eq BOUNDARIES_PER_DAY_def)
qed

text \<open>
  Boundaries never move backwards: of two boundaries of the same venue the one
  with the higher number is not earlier, in time or in day, across holidays and across
  the end of a day.
\<close>

theorem boundary_monotone:
  assumes "is_valid c venues" and "v \<in> set venues" and "m \<le> n"
    and "calendar_boundary c v m = Some bm" and "calendar_boundary c v n = Some bn"
  shows "b_at bm \<le> b_at bn \<and> b_day bm \<le> b_day bn"
proof -
  obtain s where s: "session c v = Some s" "session_ordered (day_ns c) s"
    using session_found [OF assms(1,2)] .
  note eq = calendar_boundary_eq [OF assms(1) s]
  obtain dm dn where dm: "trading_day c (m div BOUNDARIES_PER_DAY) = Some dm"
    and dn: "trading_day c (n div BOUNDARIES_PER_DAY) = Some dn"
    using assms(4,5) by (auto simp: eq)
  have b: "b_day bm = dm" "b_day bn = dn"
    "b_at bm = day_ns c * dm + fst (boundary_of s (m mod BOUNDARIES_PER_DAY))"
    "b_at bn = day_ns c * dn + fst (boundary_of s (n mod BOUNDARIES_PER_DAY))"
    using assms(4,5) dm dn by (auto simp: eq)
  have "m div BOUNDARIES_PER_DAY \<le> n div BOUNDARIES_PER_DAY"
    using assms(3) by (rule div_le_mono)
  then consider (same) "m div BOUNDARIES_PER_DAY = n div BOUNDARIES_PER_DAY"
    | (later) "m div BOUNDARIES_PER_DAY < n div BOUNDARIES_PER_DAY"
    by linarith
  then show ?thesis
  proof cases
    case same
    then have "m mod BOUNDARIES_PER_DAY \<le> n mod BOUNDARIES_PER_DAY"
      using assms(3) by (metis add_le_cancel_left div_mult_mod_eq)
    then show ?thesis
      using same dm dn b boundary_of_bounds(2) [OF s(2)] by simp
  next
    case later
    then have "dm < dn"
      using sorted_wrt_nth_less [OF trading_days_sorted later] trading_dayD(1,2) [OF dm] trading_dayD(1,2) [OF dn]
      by simp
    moreover from this have "day_ns c * Suc dm \<le> day_ns c * dn"
      by (intro mult_le_mono2) simp
    ultimately show ?thesis
      using b boundary_of_bounds(1) [OF s(2), of "m mod BOUNDARIES_PER_DAY"] by simp
  qed
qed

subsection \<open>Example\<close>

definition ex_calendar :: calendar where
  "ex_calendar = \<lparr>day_ns = 100, days = 3, holidays = [1], sessions =
     [\<lparr>vs_venue_id = 1, pre_open_ns = 10, open_ns = 20, closing_call_ns = 80, close_ns = 90\<rparr>]\<rparr>"

lemma ex_calendar_valid: "is_valid ex_calendar [1]"
  by (simp add: is_valid_def ex_calendar_def session_ordered_def bs_insert_def MAX_CALENDAR_DAYS_def checked_u64_def)

lemma ex_trading_days: "trading_days ex_calendar = [0, 2]"
  by (simp add: trading_days_def ex_calendar_def upt_rec numeral_eq_Suc)

lemma ex_boundary:
  "calendar_boundary ex_calendar 1 3 = Some \<lparr>b_at = 90, b_phase = Closed, b_day = 0\<rparr>"
  "calendar_boundary ex_calendar 1 4 = Some \<lparr>b_at = 210, b_phase = PreOpen, b_day = 2\<rparr>"
  by (simp_all add: calendar_boundary_def trading_day_def ex_trading_days boundary_of_def BOUNDARIES_PER_DAY_def)
    (simp_all add: session_def bsearch.simps checked_u64_def ex_calendar_def)

theorem boundary_complete_witness:
  "calendar_boundary ex_calendar 1 8 = None \<and> calendar_boundary ex_calendar 1 7 \<noteq> None"
  using boundary_complete [OF ex_calendar_valid, of 1 8] boundary_complete [OF ex_calendar_valid, of 1 7]
  by (simp add: ex_trading_days)

theorem boundary_monotone_witness:
  "\<exists>bm bn. calendar_boundary ex_calendar 1 3 = Some bm \<and> calendar_boundary ex_calendar 1 4 = Some bn \<and>
     b_at bm \<le> b_at bn \<and> b_day bm \<le> b_day bn"
proof -
  have "1 \<in> set [1 :: nat]" and "(3::nat) \<le> 4"
    by simp_all
  from boundary_monotone [OF ex_calendar_valid this ex_boundary] show ?thesis
    using ex_boundary by blast
qed

end
