(* ===== verification/Scenario.thy ===== *)
theory Scenario
  imports Simulation Calendar
begin

text \<open>
  Scenario definitions and the publication catalog, the first part of
  \<open>packages/bunting-engine/src/lib.rs\<close>: what a run may be built from, its validation, and
  the catalog of immutable published versions. Serialization and hashing come from
  \<open>serde_json\<close> and \<open>sha2\<close>; they are the arguments \<open>to_vec\<close> and \<open>sha256\<close>.
\<close>

definition ENGINE_VERSION :: nat where
  "ENGINE_VERSION = 5"

definition ENGINE_SNAPSHOT_VERSION :: nat where
  "ENGINE_SNAPSHOT_VERSION = 5"

definition SCENARIO_SCHEMA_VERSION :: nat where
  "SCENARIO_SCHEMA_VERSION = 2"

definition MAX_INSTRUMENTS :: nat where
  "MAX_INSTRUMENTS = 256"

definition MAX_LISTINGS :: nat where
  "MAX_LISTINGS = 64"

definition MAX_PARTICIPANTS :: nat where
  "MAX_PARTICIPANTS = 1024"

definition MAX_LIVE_ORDERS :: nat where
  "MAX_LIVE_ORDERS = 250000"

definition MAX_RETIRED_ORDERS :: nat where
  "MAX_RETIRED_ORDERS = 65536"

subsection \<open>Definitions\<close>

record engine_config =
  engine_version :: nat
  max_listings :: nat

definition default_engine_config :: engine_config where
  "default_engine_config = \<lparr>engine_version = ENGINE_VERSION, max_listings = min MAX_LISTINGS 65535\<rparr>"

record fee_schedule =
  taker_per_lot :: money_minor
  maker_per_lot :: money_minor

definition default_fee_schedule :: fee_schedule where
  "default_fee_schedule = \<lparr>taker_per_lot = 0, maker_per_lot = 0\<rparr>"

definition fee_schedule_bound :: "fee_schedule \<Rightarrow> money_minor" where
  "fee_schedule_bound f = max (max (taker_per_lot f) (maker_per_lot f)) 0"

datatype scenario_error =
    UnsupportedSchemaVersion | InvalidInstrumentDef | InvalidCurrency | ListingBound | ParticipantBound
  | DuplicateListing | DuplicateParticipant | InvalidListing | InvalidParticipant
  | InvalidScenarioIdentity | InvalidSimulationDef | InvalidCalendar | PrimaryListing

record listing_definition =
  ld_key :: listing_key
  ld_symbol :: string
  ld_price_bounds :: price_bounds
  ld_fees :: fee_schedule
  broker_ids :: bool
  primary :: bool
  ld_tick_size :: int

definition listing_definition_new ::
    "listing_key \<Rightarrow> string \<Rightarrow> price_bounds \<Rightarrow> (listing_definition, scenario_error) result" where
  "listing_definition_new key symbol bounds =
     (if lk_venue key = 0 \<or> lk_instrument key = 0 \<or> symbol = [] \<or> length symbol > 128
      then Err InvalidListing
      else Ok \<lparr>ld_key = key, ld_symbol = symbol, ld_price_bounds = bounds, ld_fees = default_fee_schedule,
               broker_ids = False, primary = False, ld_tick_size = 1\<rparr>)"

record instrument_definition =
  id_instrument_id :: instrument_id
  id_symbol :: string
  id_currency :: currency_id
  id_kind :: instrument_kind
  id_multiplier :: int
  id_shortable :: bool
  opening_mark :: "price_ticks option"
  quoted_decimals :: nat
  display_unit :: string
  description :: string

definition instrument_definition_new ::
    "instrument_id \<Rightarrow> string \<Rightarrow> currency_id \<Rightarrow> instrument_kind \<Rightarrow> instrument_definition" where
  "instrument_definition_new i symbol c kind =
     \<lparr>id_instrument_id = i, id_symbol = symbol, id_currency = c, id_kind = kind, id_multiplier = 1,
      id_shortable = False, opening_mark = None, quoted_decimals = 2, display_unit = '''', description = ''''\<rparr>"

definition definition_terms :: "instrument_definition \<Rightarrow> instrument_terms" where
  "definition_terms d =
     \<lparr>currency = id_currency d, multiplier = id_multiplier d, shortable = id_shortable d\<rparr>"

definition instrument_definition_validate :: "instrument_definition \<Rightarrow> (unit, scenario_error) result" where
  "instrument_definition_validate d =
     (if id_instrument_id d = 0 \<or> id_symbol d = [] \<or> length (id_symbol d) > 128 \<or> id_currency d = 0 \<or>
         id_multiplier d \<le> 0 \<or> (case opening_mark d of None \<Rightarrow> False | Some mark \<Rightarrow> mark \<le> 0)
      then Err InvalidInstrumentDef else Ok ())"

definition instrument_list_deserialize ::
    "instrument_definition list \<Rightarrow> (instrument_id, instrument_definition) btree_map option" where
  "instrument_list_deserialize values =
     foldl (\<lambda>acc d. Option.bind acc (\<lambda>m.
        if bt_get m (id_instrument_id d) \<noteq> None then None else Some (bt_insert (id_instrument_id d) d m)))
       (Some []) values"

record scenario_definition =
  schema_version :: nat
  scenario_id :: nat
  scenario_version :: nat
  reporting_currency :: currency_id
  fx_rates :: "fx_rate list"
  sd_instruments :: "(instrument_id, instrument_definition) btree_map"
  sd_listings :: "(listing_key, listing_definition) btree_map"
  sd_participants :: "(participant_id, participant_definition) btree_map"
  sd_simulation :: simulation_scenario
  sd_calendar :: "calendar option"

subsection \<open>Validation\<close>

text \<open>The body of the first loop of \<open>validate_listings\<close>.\<close>

definition validate_listing ::
    "scenario_definition \<Rightarrow> listing_key \<times> listing_definition \<Rightarrow> (unit, scenario_error) result" where
  "validate_listing sc e =
     (let key = fst e; listing = snd e in
      if lk_venue key = 0 \<or> lk_instrument key = 0 \<or> key \<noteq> ld_key listing \<or> ld_symbol listing = [] \<or>
         length (ld_symbol listing) > 128 \<or> bt_get (sd_instruments sc) (lk_instrument key) = None
      then Err InvalidListing
      else
        attempt (map_err (\<lambda>_. InvalidListing)
          (validate_price (ld_price_bounds listing) (bounds_min (ld_price_bounds listing)))) (\<lambda>_.
        if ld_tick_size listing < 1 \<or> tmod (bounds_min (ld_price_bounds listing)) (ld_tick_size listing) \<noteq> 0
        then Err InvalidListing
        else if list_ex (\<lambda>(_, x). lk_venue (ld_key x) = lk_venue key \<and> broker_ids x \<noteq> broker_ids listing)
                  (sd_listings sc)
        then Err InvalidListing
        else Ok ()))"

text \<open>The body of the second loop: primary listings of one instrument.\<close>

definition validate_primary ::
    "scenario_definition \<Rightarrow> instrument_id \<Rightarrow> (unit, scenario_error) result" where
  "validate_primary sc i =
     (let (count, primaries) =
        foldl (\<lambda>(count, primaries) x. (count + 1, primaries + (if primary x then 1 else 0))) (0::nat, 0::nat)
          (filter (\<lambda>x. lk_instrument (ld_key x) = i) (map snd (sd_listings sc)))
      in if primaries > 1 \<or> (sd_calendar sc \<noteq> None \<and> count > 1 \<and> primaries = 0)
         then Err PrimaryListing else Ok ())"

definition validate_listings :: "scenario_definition \<Rightarrow> (unit, scenario_error) result" where
  "validate_listings sc =
     attempt (try_fold (\<lambda>e _. validate_listing sc e) (sd_listings sc) ()) (\<lambda>_.
     try_fold (\<lambda>i _. validate_primary sc i) (map fst (sd_instruments sc)) ())"

definition currency_supported :: "scenario_definition \<Rightarrow> currency_id \<Rightarrow> bool" where
  "currency_supported sc c \<longleftrightarrow>
     c = reporting_currency sc \<or> list_ex (\<lambda>r. fx_currency r = c) (fx_rates sc)"

definition validate_rate :: "scenario_definition \<Rightarrow> nat \<times> fx_rate \<Rightarrow> (unit, scenario_error) result" where
  "validate_rate sc e =
     (let index = fst e; rate = snd e in
      if fx_currency rate = reporting_currency sc \<or> minor_units_per_lot rate \<le> 0 \<or>
         list_ex (\<lambda>r. fx_currency r = fx_currency rate) (take index (fx_rates sc)) \<or>
         (case bt_get (sd_instruments sc) (fx_instrument_id rate) of
            None \<Rightarrow> True | Some d \<Rightarrow> id_currency d \<noteq> reporting_currency sc)
      then Err InvalidCurrency else Ok ())"

definition validate_participant ::
    "scenario_definition \<Rightarrow> participant_id \<times> participant_definition \<Rightarrow> (unit, scenario_error) result" where
  "validate_participant sc e =
     (let p = snd e in
      if fst e \<noteq> pd_participant_id p \<or> length (initial_positions p) > MAX_INSTRUMENTS \<or>
         length (initial_cash p) > MAX_INSTRUMENTS \<or>
         list_ex (\<lambda>(c, _). c = 0 \<or> \<not> currency_supported sc c) (initial_cash p)
      then Err InvalidParticipant
      else try_fold (\<lambda>(i, q) _.
             attempt (ok_or InvalidParticipant (bt_get (sd_instruments sc) i)) (\<lambda>d.
             if q \<noteq> 0 \<and> opening_mark d = None then Err InvalidParticipant
             else if q < 0 \<and> \<not> id_shortable d then Err InvalidParticipant
             else Ok ())) (initial_positions p) ())"

definition validate_instrument ::
    "instrument_id \<times> instrument_definition \<Rightarrow> (unit, scenario_error) result" where
  "validate_instrument e =
     (if fst e \<noteq> id_instrument_id (snd e) then Err InvalidInstrumentDef
      else instrument_definition_validate (snd e))"

definition venues_of :: "scenario_definition \<Rightarrow> venue_id btree_set" where
  "venues_of sc = foldr bs_insert (map (lk_venue \<circ> fst) (sd_listings sc)) []"

definition scenario_validate :: "scenario_definition \<Rightarrow> (unit, scenario_error) result" where
  "scenario_validate sc =
     (if schema_version sc \<noteq> SCENARIO_SCHEMA_VERSION then Err UnsupportedSchemaVersion
      else if scenario_id sc = 0 \<or> scenario_version sc = 0 then Err InvalidScenarioIdentity
      else if sd_listings sc = [] \<or> length (sd_listings sc) > MAX_LISTINGS then Err ListingBound
      else if sd_instruments sc = [] \<or> length (sd_instruments sc) > MAX_INSTRUMENTS then Err InvalidInstrumentDef
      else if length (sd_participants sc) > MAX_PARTICIPANTS then Err ParticipantBound
      else
        attempt (try_fold (\<lambda>e _. validate_instrument e) (sd_instruments sc) ()) (\<lambda>_.
        if reporting_currency sc = 0 then Err InvalidCurrency
        else
          attempt (try_fold (\<lambda>e _. validate_rate sc e) (enumerate 0 (fx_rates sc)) ()) (\<lambda>_.
          if list_ex (\<lambda>(_, d). \<not> currency_supported sc (id_currency d)) (sd_instruments sc)
          then Err InvalidCurrency
          else
            attempt (validate_listings sc) (\<lambda>_.
            attempt (try_fold (\<lambda>e _. validate_participant sc e) (sd_participants sc) ()) (\<lambda>_.
            attempt (map_err (\<lambda>_. InvalidSimulationDef) (simulation_scenario_validate (sd_simulation sc))) (\<lambda>_.
            if list_ex (\<lambda>i. bt_get (sd_instruments sc) i = None) (referenced_instruments (sd_simulation sc))
            then Err InvalidSimulationDef
            else if (case sd_calendar sc of None \<Rightarrow> False | Some c \<Rightarrow> \<not> is_valid c (venues_of sc))
            then Err InvalidCalendar
            else Ok ()))))))"

subsection \<open>Construction\<close>

text \<open>Collecting items into a map, refusing a repeated key.\<close>

definition collect_unique ::
    "('a \<Rightarrow> 'k::linorder) \<Rightarrow> 'e \<Rightarrow> 'a list \<Rightarrow> (('k, 'a) btree_map, 'e) result" where
  "collect_unique key e xs =
     try_fold (\<lambda>x m. if bt_get m (key x) \<noteq> None then Err e else Ok (bt_insert (key x) x m)) xs []"

definition scenario_new ::
    "nat \<Rightarrow> nat \<Rightarrow> instrument_definition list \<Rightarrow> listing_definition list \<Rightarrow> participant_definition list \<Rightarrow>
     (scenario_definition, scenario_error) result" where
  "scenario_new i version instruments listings participants =
     attempt (collect_unique id_instrument_id InvalidInstrumentDef instruments) (\<lambda>im.
     attempt (collect_unique ld_key DuplicateListing listings) (\<lambda>lm.
     attempt (collect_unique pd_participant_id DuplicateParticipant participants) (\<lambda>pm.
     attempt (ok_or InvalidInstrumentDef (min_option (map (id_currency \<circ> snd) im))) (\<lambda>c.
     let sc = \<lparr>schema_version = SCENARIO_SCHEMA_VERSION, scenario_id = i, scenario_version = version,
               reporting_currency = c, fx_rates = [], sd_instruments = im, sd_listings = lm,
               sd_participants = pm, sd_simulation = default_simulation_scenario, sd_calendar = None\<rparr> in
     attempt (scenario_validate sc) (\<lambda>_. Ok sc)))))"

definition with_reporting ::
    "scenario_definition \<Rightarrow> currency_id \<Rightarrow> fx_rate list \<Rightarrow> (scenario_definition, scenario_error) result" where
  "with_reporting sc c rates =
     (let sc' = sc\<lparr>reporting_currency := c, fx_rates := rates\<rparr> in
      attempt (scenario_validate sc') (\<lambda>_. Ok sc'))"

definition with_simulation ::
    "scenario_definition \<Rightarrow> simulation_scenario \<Rightarrow> (scenario_definition, scenario_error) result" where
  "with_simulation sc sim =
     attempt (map_err (\<lambda>_. InvalidSimulationDef) (simulation_scenario_validate sim)) (\<lambda>_.
     let sc' = sc\<lparr>sd_simulation := sim\<rparr> in
     attempt (scenario_validate sc') (\<lambda>_. Ok sc'))"

definition with_calendar ::
    "scenario_definition \<Rightarrow> calendar \<Rightarrow> (scenario_definition, scenario_error) result" where
  "with_calendar sc c =
     (let sc' = sc\<lparr>sd_calendar := Some c\<rparr> in attempt (scenario_validate sc') (\<lambda>_. Ok sc'))"

subsection \<open>Content hashes\<close>

datatype snapshot_error = Serialization | UnsupportedVersion | HashMismatch | InvalidScenarioSnapshot

definition hex_digit :: "nat \<Rightarrow> char" where
  "hex_digit d = ''0123456789abcdef'' ! d"

text \<open>\<open>to_vec\<close> is \<open>serde_json::to_vec\<close>, \<open>sha256\<close> the digest of \<open>sha2\<close>, as bytes.\<close>

definition hash_serializable ::
    "('a \<Rightarrow> nat list option) \<Rightarrow> (nat list \<Rightarrow> nat list) \<Rightarrow> 'a \<Rightarrow> (string, snapshot_error) result" where
  "hash_serializable to_vec sha256 v =
     attempt (ok_or Serialization (to_vec v)) (\<lambda>bytes.
     Ok (concat (map (\<lambda>b. [hex_digit (b div 16), hex_digit (b mod 16)]) (sha256 bytes))))"

definition content_hash ::
    "(scenario_definition \<Rightarrow> nat list option) \<Rightarrow> (nat list \<Rightarrow> nat list) \<Rightarrow> scenario_definition \<Rightarrow>
     (string, snapshot_error) result" where
  "content_hash to_vec sha256 sc =
     attempt (map_err (\<lambda>_. InvalidScenarioSnapshot) (scenario_validate sc)) (\<lambda>_.
     hash_serializable to_vec sha256 sc)"

subsection \<open>Publication catalog\<close>

record published_scenario =
  ps_definition :: scenario_definition
  ps_content_hash :: string

datatype publish_scenario_outcome = Published | AlreadyPublished

datatype scenario_catalog_error = InvalidPublished | HashFailed | VersionConflict | CatalogFull

type_synonym scenario_catalog = "published_scenario list"

definition published_key :: "published_scenario \<Rightarrow> nat \<times> nat" where
  "published_key r = (scenario_id (ps_definition r), scenario_version (ps_definition r))"

definition catalog_get :: "scenario_catalog \<Rightarrow> nat \<Rightarrow> nat \<Rightarrow> published_scenario option" where
  "catalog_get records i version =
     find (\<lambda>r. scenario_id (ps_definition r) = i \<and> scenario_version (ps_definition r) = version) records"

definition publish ::
    "(scenario_definition \<Rightarrow> nat list option) \<Rightarrow> (nat list \<Rightarrow> nat list) \<Rightarrow> scenario_catalog \<Rightarrow>
     scenario_definition \<Rightarrow> (publish_scenario_outcome \<times> scenario_catalog, scenario_catalog_error) result" where
  "publish to_vec sha256 records sc =
     attempt (map_err (\<lambda>_. InvalidPublished) (scenario_validate sc)) (\<lambda>_.
     attempt (map_err (\<lambda>_. HashFailed) (content_hash to_vec sha256 sc)) (\<lambda>h.
     case find (\<lambda>r. scenario_id (ps_definition r) = scenario_id sc \<and>
                    scenario_version (ps_definition r) = scenario_version sc) records of
       Some existing \<Rightarrow>
         if ps_content_hash existing = h then Ok (AlreadyPublished, records) else Err VersionConflict
     | None \<Rightarrow>
         if length records = 4096 then Err CatalogFull
         else Ok (Published,
                  sort_key published_key (records @ [\<lparr>ps_definition = sc, ps_content_hash = h\<rparr>]))))"

end
