(* ===== verification/Order_Book.thy ===== *)
theory Order_Book
  imports Market_Types
begin

text \<open>
  The price-time order book of one listing, \<open>packages/bunting-engine/src/book.rs\<close>:
  price levels in ordered maps, each level a queue keyed by priority with cached
  displayed and total quantity, and the orders themselves in a map by identity.

  A method that takes \<open>&mut self\<close> returns the new book with its result, or the error.
  The caller discards a book whose operation failed half-way, so no state accompanies
  an error here either; theory \<open>Book_Invariant\<close> shows which errors can occur at all.
\<close>

record book_order =
  bo_order_id :: order_id
  bo_side :: side
  bo_price :: price_ticks
  remaining :: quantity_lots
  visible :: quantity_lots
  display :: "quantity_lots option"
  priority :: nat

record book_match =
  maker :: order_id
  match_price :: price_ticks
  match_quantity :: quantity_lots
  maker_remaining :: quantity_lots

record cross =
  cross_buy :: order_id
  cross_sell :: order_id
  cross_quantity :: quantity_lots
  buy_remaining :: quantity_lots
  sell_remaining :: quantity_lots
  buy_priority :: nat
  sell_priority :: nat

datatype book_error = DuplicateOrder | InvalidOrder | BookOverflow

record level =
  queue :: "(nat, order_id) btree_map"
  level_visible :: quantity_lots
  level_total :: quantity_lots

type_synonym level_map = "(price_ticks, level) btree_map"

record book =
  bids :: level_map
  asks :: level_map
  orders :: "(order_id, book_order) btree_map"
  next_priority :: nat

definition default_level :: level where
  "default_level = \<lparr>queue = [], level_visible = 0, level_total = 0\<rparr>"

definition book_new :: book where
  "book_new = \<lparr>bids = [], asks = [], orders = [], next_priority = 0\<rparr>"

fun crosses :: "side \<Rightarrow> price_ticks \<Rightarrow> price_ticks \<Rightarrow> bool" where
  "crosses Buy limit resting = (resting \<le> limit)"
| "crosses Sell limit resting = (resting \<ge> limit)"

definition book_len :: "book \<Rightarrow> nat" where
  "book_len b = length (orders b)"

definition book_contains :: "book \<Rightarrow> order_id \<Rightarrow> bool" where
  "book_contains b i \<longleftrightarrow> bt_get (orders b) i \<noteq> None"

definition book_side :: "book \<Rightarrow> side \<Rightarrow> level_map" where
  "book_side b sd = (case sd of Buy \<Rightarrow> bids b | Sell \<Rightarrow> asks b)"

definition set_book_side :: "book \<Rightarrow> side \<Rightarrow> level_map \<Rightarrow> book" where
  "set_book_side b sd ls = (case sd of Buy \<Rightarrow> b\<lparr>bids := ls\<rparr> | Sell \<Rightarrow> b\<lparr>asks := ls\<rparr>)"

text \<open>The levels of a side best first: bids downwards, asks upwards.\<close>

definition best_first :: "book \<Rightarrow> side \<Rightarrow> level_map" where
  "best_first b sd = (case sd of Buy \<Rightarrow> rev (bids b) | Sell \<Rightarrow> asks b)"

definition best :: "book \<Rightarrow> side \<Rightarrow> price_ticks option" where
  "best b sd =
     (case sd of Buy \<Rightarrow> map_option fst (bt_last (bids b)) | Sell \<Rightarrow> map_option fst (bt_first (asks b)))"

definition would_cross :: "book \<Rightarrow> side \<Rightarrow> price_ticks \<Rightarrow> bool" where
  "would_cross b taker limit =
     (case best b (opposite taker) of None \<Rightarrow> False | Some p \<Rightarrow> crosses taker limit p)"

definition within_limit :: "side \<Rightarrow> price_ticks option \<Rightarrow> price_ticks \<Rightarrow> bool" where
  "within_limit taker limit p = (case limit of None \<Rightarrow> True | Some l \<Rightarrow> crosses taker l p)"

definition executable :: "book \<Rightarrow> side \<Rightarrow> price_ticks option \<Rightarrow> quantity_lots" where
  "executable b taker limit =
     foldl (\<lambda>acc (_, lv). case i64_checked_add acc (level_total lv) of None \<Rightarrow> 2 ^ 63 - 1 | Some v \<Rightarrow> v) 0
       (takeWhile (\<lambda>(p, _). within_limit taker limit p) (best_first b (opposite taker)))"

subsection \<open>Insertion and removal\<close>

definition take_priority :: "book \<Rightarrow> (nat \<times> book, book_error) result" where
  "take_priority b =
     attempt (ok_or BookOverflow (u64_checked_add (next_priority b) 1)) (\<lambda>n.
     Ok (next_priority b, b\<lparr>next_priority := n\<rparr>))"

definition book_insert :: "book \<Rightarrow> book_order \<Rightarrow> (book, book_error) result" where
  "book_insert b ord =
     (if remaining ord \<le> 0 \<or> visible ord \<le> 0 \<or> visible ord > remaining ord \<or> bo_price ord \<le> 0
      then Err InvalidOrder
      else if book_contains b (bo_order_id ord) then Err DuplicateOrder
      else
        let sd = book_side b (bo_side ord);
            lv = (case bt_get sd (bo_price ord) of None \<Rightarrow> default_level | Some lv \<Rightarrow> lv)
        in if bt_get (queue lv) (priority ord) \<noteq> None then Err DuplicateOrder
           else
             attempt (ok_or BookOverflow (i64_checked_add (level_visible lv) (visible ord))) (\<lambda>vis.
             attempt (ok_or BookOverflow (i64_checked_add (level_total lv) (remaining ord))) (\<lambda>tot.
             let lv' = \<lparr>queue = bt_insert (priority ord) (bo_order_id ord) (queue lv),
                        level_visible = vis, level_total = tot\<rparr>
             in Ok ((set_book_side b (bo_side ord) (bt_insert (bo_price ord) lv' sd))
                    \<lparr>orders := bt_insert (bo_order_id ord) ord (orders b)\<rparr>))))"

definition book_remove :: "book \<Rightarrow> order_id \<Rightarrow> (book, book_error) result" where
  "book_remove b i =
     attempt (ok_or InvalidOrder (bt_get (orders b) i)) (\<lambda>ord.
     let sd = book_side b (bo_side ord) in
     attempt (ok_or InvalidOrder (bt_get sd (bo_price ord))) (\<lambda>lv.
     let q = bt_remove (priority ord) (queue lv) in
     attempt (ok_or BookOverflow (i64_checked_sub (level_visible lv) (visible ord))) (\<lambda>vis.
     attempt (ok_or BookOverflow (i64_checked_sub (level_total lv) (remaining ord))) (\<lambda>tot.
     let lv' = \<lparr>queue = q, level_visible = vis, level_total = tot\<rparr>;
         sd' = (if q = [] then bt_remove (bo_price ord) sd else bt_insert (bo_price ord) lv' sd)
     in Ok ((set_book_side b (bo_side ord) sd')\<lparr>orders := bt_remove i (orders b)\<rparr>)))))"

subsection \<open>Matching\<close>

definition level_head :: "book \<Rightarrow> side \<Rightarrow> price_ticks \<Rightarrow> order_id option" where
  "level_head b sd price =
     Option.bind (bt_get (book_side b sd) price) (\<lambda>lv. map_option snd (bt_first (queue lv)))"

text \<open>The displayed slice of an order whose last slice was used up.\<close>

definition refresh_slice :: "book_order \<Rightarrow> nat \<Rightarrow> book_order" where
  "refresh_slice ord pr =
     ord\<lparr>visible := min (case display ord of None \<Rightarrow> remaining ord | Some peak \<Rightarrow> peak) (remaining ord),
         priority := pr\<rparr>"

text \<open>One turn of the loop in \<open>execute\<close>, against the head of the level at \<open>price\<close>.\<close>

definition execute_one ::
    "book \<Rightarrow> side \<Rightarrow> price_ticks \<Rightarrow> quantity_lots \<Rightarrow> (book_match \<times> quantity_lots \<times> book, book_error) result" where
  "execute_one b maker_side price left =
     attempt (ok_or InvalidOrder (level_head b maker_side price)) (\<lambda>maker_id.
     attempt (ok_or InvalidOrder (bt_get (orders b) maker_id)) (\<lambda>mk.
     let fill = min left (visible mk) in
     if fill \<le> 0 then Err InvalidOrder
     else
       attempt (ok_or BookOverflow (i64_checked_sub left fill)) (\<lambda>left'.
       attempt (ok_or BookOverflow (i64_checked_sub (remaining mk) fill)) (\<lambda>rem.
       attempt (ok_or BookOverflow (i64_checked_sub (visible mk) fill)) (\<lambda>vis.
       let mk' = mk\<lparr>remaining := rem, visible := vis\<rparr>;
           m = \<lparr>maker = maker_id, match_price = price, match_quantity = fill, maker_remaining = rem\<rparr>
       in attempt (book_remove b maker_id) (\<lambda>b1.
          if rem > 0
          then attempt (if vis = 0
                        then attempt (take_priority b1) (\<lambda>(pr, b2). Ok (refresh_slice mk' pr, b2))
                        else Ok (mk', b1)) (\<lambda>(mk'', b2).
               attempt (book_insert b2 mk'') (\<lambda>b3. Ok (m, left', b3)))
          else Ok (m, left', b1)))))))"

lemma execute_one_left:
  "execute_one b sd price left = Ok (m, left', b') \<Longrightarrow> left' = left - match_quantity m \<and> 0 < match_quantity m"
  by (auto simp: execute_one_def Let_def result_simps split: if_splits)

function execute_loop ::
    "book \<Rightarrow> side \<Rightarrow> price_ticks option \<Rightarrow> quantity_lots \<Rightarrow>
     (book_match list \<times> quantity_lots \<times> book, book_error) result" where
  "execute_loop b taker limit left =
     (if left > 0
      then (case best b (opposite taker) of
              None \<Rightarrow> Ok ([], left, b)
            | Some price \<Rightarrow>
                if \<not> within_limit taker limit price then Ok ([], left, b)
                else
                  attempt (execute_one b (opposite taker) price left) (\<lambda>(m, left', b').
                  attempt (execute_loop b' taker limit left') (\<lambda>(ms, rest, b'').
                  Ok (m # ms, rest, b''))))
      else Ok ([], left, b))"
  by pat_completeness auto
termination
  by (relation "measure (\<lambda>(b, taker, limit, left). nat left)") (auto dest: execute_one_left)

declare execute_loop.simps [simp del]

definition execute ::
    "book \<Rightarrow> side \<Rightarrow> price_ticks option \<Rightarrow> quantity_lots \<Rightarrow>
     (book_match list \<times> quantity_lots \<times> book, book_error) result" where
  "execute b taker limit q = (if q \<le> 0 then Err InvalidOrder else execute_loop b taker limit q)"

definition rest ::
    "book \<Rightarrow> order_id \<Rightarrow> side \<Rightarrow> price_ticks \<Rightarrow> quantity_lots \<Rightarrow> quantity_lots option \<Rightarrow>
     (book, book_error) result" where
  "rest b i sd price q disp =
     (if q \<le> 0 \<or> price \<le> 0 \<or> (case disp of None \<Rightarrow> False | Some peak \<Rightarrow> peak \<le> 0 \<or> peak > q)
      then Err InvalidOrder
      else if book_contains b i then Err DuplicateOrder
      else attempt (take_priority b) (\<lambda>(pr, b1).
           book_insert b1 \<lparr>bo_order_id = i, bo_side = sd, bo_price = price, remaining = q,
             visible = (case disp of None \<Rightarrow> q | Some peak \<Rightarrow> peak), display = disp, priority = pr\<rparr>))"

definition cancel :: "book \<Rightarrow> order_id \<Rightarrow> (book_order \<times> book) option" where
  "cancel b i =
     Option.bind (bt_get (orders b) i) (\<lambda>ord.
     case book_remove b i of Inl _ \<Rightarrow> None | Inr b' \<Rightarrow> Some (ord, b'))"

subsection \<open>Views\<close>

definition depth :: "book \<Rightarrow> side \<Rightarrow> (price_ticks \<times> quantity_lots) list" where
  "depth b sd = map (\<lambda>(p, lv). (p, level_visible lv)) (best_first b sd)"

definition book_order_of :: "book \<Rightarrow> order_id \<Rightarrow> book_order option" where
  "book_order_of b i = bt_get (orders b) i"

definition book_orders :: "book \<Rightarrow> side \<Rightarrow> book_order list" where
  "book_orders b sd =
     concat (map (\<lambda>(_, lv). List.map_filter (\<lambda>(_, i). bt_get (orders b) i) (queue lv)) (best_first b sd))"

subsection \<open>Call auction\<close>

text \<open>The running choice of the auction: price, volume and imbalance so far.\<close>

type_synonym auction_best = "(price_ticks \<times> int \<times> int) option"

definition auction_better ::
    "price_ticks \<Rightarrow> price_ticks \<Rightarrow> int \<Rightarrow> int \<Rightarrow> auction_best \<Rightarrow> bool" where
  "auction_better reference price volume imbalance chosen =
     (case chosen of
        None \<Rightarrow> True
      | Some (cp, cv, ci) \<Rightarrow>
          (volume, - imbalance, - \<bar>price - reference\<bar>) > (cv, - ci, - \<bar>cp - reference\<bar>))"

definition auction_offer ::
    "price_ticks \<Rightarrow> price_ticks \<Rightarrow> int \<Rightarrow> int \<Rightarrow> auction_best \<Rightarrow> auction_best" where
  "auction_offer reference price demand supply chosen =
     (let volume = min demand supply in
      if volume > 0
      then let imbalance = \<bar>demand - supply\<bar> in
           if auction_better reference price volume imbalance chosen
           then Some (price, volume, imbalance) else chosen
      else chosen)"

definition auction_result :: "auction_best \<Rightarrow> (price_ticks \<times> quantity_lots) option" where
  "auction_result chosen =
     Option.bind chosen (\<lambda>(price, volume, _). map_option (\<lambda>v. (price, v)) (checked_i64 volume))"

text \<open>The ascending sweep over both sides of \<open>auction_price\<close>.\<close>

function auction_sweep ::
    "price_ticks \<Rightarrow> int \<Rightarrow> int \<Rightarrow> int \<Rightarrow> level_map \<Rightarrow> level_map \<Rightarrow> auction_best \<Rightarrow> auction_best" where
  "auction_sweep reference total_demand bids_below supply [] [] chosen = chosen"
| "auction_sweep reference total_demand bids_below supply ((bp, bl) # bs) [] chosen =
     auction_sweep reference total_demand (bids_below + level_total bl) supply bs []
       (auction_offer reference bp (total_demand - bids_below) supply chosen)"
| "auction_sweep reference total_demand bids_below supply [] ((ap, al) # as) chosen =
     auction_sweep reference total_demand bids_below (supply + level_total al) [] as
       (auction_offer reference ap (total_demand - bids_below) (supply + level_total al) chosen)"
| "auction_sweep reference total_demand bids_below supply ((bp, bl) # bs) ((ap, al) # as) chosen =
     (let price = (if bp \<le> ap then bp else ap);
          bid_at_price = (if bp = price then level_total bl else 0);
          supply' = (if ap = price then supply + level_total al else supply)
      in auction_sweep reference total_demand (bids_below + bid_at_price) supply'
           (if bp = price then bs else (bp, bl) # bs) (if ap = price then as else (ap, al) # as)
           (auction_offer reference price (total_demand - bids_below) supply' chosen))"
  by pat_completeness auto
termination
  by (relation "measure (\<lambda>(r, t, bb, s, bs, as, c). length bs + length as)") (auto split: if_splits)

definition auction_price :: "book \<Rightarrow> price_ticks \<Rightarrow> (price_ticks \<times> quantity_lots) option" where
  "auction_price b reference =
     auction_result
       (auction_sweep reference (sum_list (map (\<lambda>(_, lv). level_total lv) (bids b))) 0 0 (bids b) (asks b) None)"

text \<open>The quadratic reference implementation kept as a test oracle.\<close>

definition auction_price_reference :: "book \<Rightarrow> price_ticks \<Rightarrow> (price_ticks \<times> quantity_lots) option" where
  "auction_price_reference b reference =
     auction_result
       (foldl (\<lambda>chosen price.
          auction_offer reference price
            (sum_list (map (\<lambda>(_, lv). level_total lv) (filter (\<lambda>(p, _). price \<le> p) (bids b))))
            (sum_list (map (\<lambda>(_, lv). level_total lv) (filter (\<lambda>(p, _). p \<le> price) (asks b)))) chosen)
          None (foldr bs_insert (map fst (bids b) @ map fst (asks b)) []))"

definition fill_resting ::
    "book \<Rightarrow> book_order \<Rightarrow> quantity_lots \<Rightarrow> (quantity_lots \<times> book, book_error) result" where
  "fill_resting b ord q =
     attempt (book_remove b (bo_order_id ord)) (\<lambda>b1.
     attempt (ok_or BookOverflow (Option.bind (i64_checked_sub (remaining ord) q)
                (\<lambda>r. if r \<ge> 0 then Some r else None))) (\<lambda>rem.
     let ord' = ord\<lparr>remaining := rem\<rparr> in
     if rem > 0
     then attempt (if q \<ge> visible ord'
                   then attempt (take_priority b1) (\<lambda>(pr, b2). Ok (refresh_slice ord' pr, b2))
                   else attempt (ok_or BookOverflow (i64_checked_sub (visible ord') q)) (\<lambda>vis.
                        Ok (ord'\<lparr>visible := vis\<rparr>, b1))) (\<lambda>(ord'', b2).
          attempt (book_insert b2 ord'') (\<lambda>b3. Ok (rem, b3)))
     else Ok (rem, b1)))"

definition head_order :: "book \<Rightarrow> side \<Rightarrow> price_ticks \<Rightarrow> (book_order, book_error) result" where
  "head_order b sd price =
     ok_or InvalidOrder (Option.bind (level_head b sd price) (bt_get (orders b)))"

text \<open>One turn of the loop in \<open>uncross\<close>; \<open>None\<close> when it stops.\<close>

definition uncross_one :: "book \<Rightarrow> price_ticks \<Rightarrow> ((cross \<times> book) option, book_error) result" where
  "uncross_one b price =
     (case (best b Buy, best b Sell) of
        (Some bid, Some ask) \<Rightarrow>
          if bid < price \<or> ask > price then Ok None
          else
            attempt (head_order b Buy bid) (\<lambda>bid_head.
            attempt (head_order b Sell ask) (\<lambda>ask_head.
            let q = min (remaining bid_head) (remaining ask_head) in
            attempt (fill_resting b bid_head q) (\<lambda>(br, b1).
            attempt (fill_resting b1 ask_head q) (\<lambda>(sr, b2).
            Ok (Some (\<lparr>cross_buy = bo_order_id bid_head, cross_sell = bo_order_id ask_head,
                cross_quantity = q, buy_remaining = br, sell_remaining = sr,
                buy_priority = priority bid_head, sell_priority = priority ask_head\<rparr>, b2))))))
      | _ \<Rightarrow> Ok None)"

partial_function (option) uncross_loop ::
    "book \<Rightarrow> price_ticks \<Rightarrow> (cross list \<times> book, book_error) result option" where
  "uncross_loop b price =
     (case uncross_one b price of
        Inl e \<Rightarrow> Some (Err e)
      | Inr None \<Rightarrow> Some (Ok ([], b))
      | Inr (Some (c, b')) \<Rightarrow>
          Option.bind (uncross_loop b' price) (\<lambda>r.
          Some (attempt r (\<lambda>(cs, b''). Ok (c # cs, b'')))))"

subsection \<open>Persistence\<close>

record book_record =
  rec_next_priority :: nat
  rec_orders :: "book_order list"

definition order_sort_key :: "book_order \<Rightarrow> side \<times> price_ticks \<times> nat" where
  "order_sort_key ord = (bo_side ord, bo_price ord, priority ord)"

definition book_to_record :: "book \<Rightarrow> book_record" where
  "book_to_record b =
     \<lparr>rec_next_priority = next_priority b, rec_orders = sort_key order_sort_key (map snd (orders b))\<rparr>"

datatype record_error = PriorityBeyondSequence | InsertFailed book_error

fun insert_all :: "nat \<Rightarrow> book \<Rightarrow> book_order list \<Rightarrow> (book, record_error) result" where
  "insert_all n b [] = Ok b"
| "insert_all n b (ord # os) =
     (if priority ord \<ge> n then Err PriorityBeyondSequence
      else attempt (map_err InsertFailed (book_insert b ord)) (\<lambda>b'. insert_all n b' os))"

definition book_from_record :: "book_record \<Rightarrow> (book, record_error) result" where
  "book_from_record r =
     insert_all (rec_next_priority r) (book_new\<lparr>next_priority := rec_next_priority r\<rparr>) (rec_orders r)"

end
