(* ===== verification/Book_Invariant.thy ===== *)
theory Book_Invariant
  imports Order_Book
begin

text \<open>
  The representation invariant of the book and its consequences. A book is a
  redundant structure: the level maps repeat what the order map says. \<open>book_inv\<close>
  states that they agree: every order sits in the queue of its level under its
  priority, every queue entry is such an order, and the cached quantities of a level
  are the sums over its orders. Under it \<open>remove\<close> cannot fail, \<open>insert\<close> fails only
  where the caller broke its contract or a level overflows, and a book is a function of
  its orders (\<open>book_ext\<close>), which is what makes replay and persistence exact.
\<close>

named_theorems book_simps "projections of books"

subsection \<open>The invariant\<close>

definition at_level :: "side \<Rightarrow> price_ticks \<Rightarrow> book_order \<Rightarrow> bool" where
  "at_level sd p ord \<longleftrightarrow> bo_side ord = sd \<and> bo_price ord = p"

definition order_ok :: "book_order \<Rightarrow> bool" where
  "order_ok ord \<longleftrightarrow>
     0 < visible ord \<and> visible ord \<le> remaining ord \<and> in_i64 (remaining ord) \<and>
     0 < bo_price ord \<and> in_i64 (bo_price ord) \<and>
     (case display ord of None \<Rightarrow> True | Some peak \<Rightarrow> 0 < peak)"

text \<open>A quantity summed over the orders of one level.\<close>

definition level_sum :: "(book_order \<Rightarrow> int) \<Rightarrow> (order_id, book_order) btree_map \<Rightarrow> side \<Rightarrow> price_ticks \<Rightarrow> int" where
  "level_sum f os sd p = (\<Sum>(i, ord) \<leftarrow> os. if at_level sd p ord then f ord else 0)"

definition level_inv :: "(order_id, book_order) btree_map \<Rightarrow> side \<Rightarrow> price_ticks \<Rightarrow> level \<Rightarrow> bool" where
  "level_inv os sd p lv \<longleftrightarrow>
     bt_wf (queue lv) \<and> queue lv \<noteq> [] \<and>
     (\<forall>pr i. bt_get (queue lv) pr = Some i \<longrightarrow>
        (\<exists>ord. bt_get os i = Some ord \<and> at_level sd p ord \<and> priority ord = pr)) \<and>
     level_visible lv = level_sum visible os sd p \<and> in_i64 (level_visible lv) \<and>
     level_total lv = level_sum remaining os sd p \<and> in_i64 (level_total lv)"

definition queued :: "book \<Rightarrow> book_order \<Rightarrow> bool" where
  "queued b ord \<longleftrightarrow>
     (\<exists>lv. bt_get (book_side b (bo_side ord)) (bo_price ord) = Some lv \<and>
           bt_get (queue lv) (priority ord) = Some (bo_order_id ord))"

definition book_inv :: "book \<Rightarrow> bool" where
  "book_inv b \<longleftrightarrow>
     (\<forall>sd. bt_wf (book_side b sd)) \<and> bt_wf (orders b) \<and> next_priority b < 2 ^ 64 \<and>
     (\<forall>i ord. bt_get (orders b) i = Some ord \<longrightarrow>
        bo_order_id ord = i \<and> order_ok ord \<and> priority ord < next_priority b \<and> queued b ord) \<and>
     (\<forall>sd p lv. bt_get (book_side b sd) p = Some lv \<longrightarrow> level_inv (orders b) sd p lv)"

subsection \<open>Projections\<close>

lemma side_neq_opposite: "sd' \<noteq> sd \<longleftrightarrow> sd' = opposite sd"
  by (cases sd; cases sd') auto

lemma book_side_set [book_simps]:
  "book_side (set_book_side b sd ls) sd' = (if sd' = sd then ls else book_side b sd')"
  by (cases sd; cases sd') (auto simp: book_side_def set_book_side_def)

lemma set_book_side_proj [book_simps]:
  "orders (set_book_side b sd ls) = orders b"
  "next_priority (set_book_side b sd ls) = next_priority b"
  by (cases sd; simp add: set_book_side_def)+

lemma book_side_update [book_simps]:
  "book_side (b\<lparr>orders := os\<rparr>) sd = book_side b sd"
  "book_side (b\<lparr>next_priority := n\<rparr>) sd = book_side b sd"
  by (cases sd; simp add: book_side_def)+

lemma book_eqI:
  fixes b b' :: book
  assumes "\<And>sd. book_side b sd = book_side b' sd" and "orders b = orders b'"
    and "next_priority b = next_priority b'"
  shows "b = b'"
  using assms(1) [of Buy] assms(1) [of Sell] assms(2,3) by (simp add: book_side_def)

subsection \<open>Sums over a level\<close>

lemma level_sum_insert:
  assumes "bt_wf os" and "bt_get os i = None"
  shows "level_sum f (bt_insert i ord os) sd p = level_sum f os sd p + (if at_level sd p ord then f ord else 0)"
  using assms bt.sum_ins [of os "\<lambda>i ord. if at_level sd p ord then f ord else 0" i ord]
  by (simp add: level_sum_def)

lemma level_sum_remove:
  assumes "bt_wf os" and "bt_get os i = Some ord"
  shows "level_sum f (bt_remove i os) sd p = level_sum f os sd p - (if at_level sd p ord then f ord else 0)"
  using assms bt.sum_del [of os "\<lambda>i ord. if at_level sd p ord then f ord else 0" i]
  by (simp add: level_sum_def)

lemma level_sum_nonneg:
  assumes "bt_wf os" and "\<And>i ord. bt_get os i = Some ord \<Longrightarrow> 0 \<le> f ord"
  shows "0 \<le> level_sum f os sd p"
  unfolding level_sum_def using assms by (intro sum_list_nonneg) (auto simp: bt_get_mem)

lemma level_sum_ge:
  assumes "bt_wf os" and "\<And>i ord. bt_get os i = Some ord \<Longrightarrow> 0 \<le> f ord"
    and "bt_get os i = Some ord" and "at_level sd p ord"
  shows "f ord \<le> level_sum f os sd p"
proof -
  have "0 \<le> level_sum f (bt_remove i os) sd p"
    using assms(1,2) by (intro level_sum_nonneg) (auto split: if_splits)
  then show ?thesis
    using assms by (simp add: level_sum_remove)
qed

lemma level_sum_mono:
  assumes "bt_wf os" and "\<And>i ord. bt_get os i = Some ord \<Longrightarrow> f ord \<le> g ord"
  shows "level_sum f os sd p \<le> level_sum g os sd p"
  unfolding level_sum_def using assms by (intro sum_list_mono) (auto simp: bt_get_mem)

lemma level_sum_zero:
  assumes "bt_wf os" and "\<And>i ord. bt_get os i = Some ord \<Longrightarrow> \<not> at_level sd p ord"
  shows "level_sum f os sd p = 0"
proof -
  have "(case e of (i, ord) \<Rightarrow> if at_level sd p ord then f ord else 0) = 0" if "e \<in> set os" for e
    using that assms by (auto simp: bt_get_mem split: prod.split)
  then show ?thesis
    unfolding level_sum_def by (metis (mono_tags, lifting) map_cong sum_list_0)
qed

subsection \<open>Consequences of the invariant\<close>

lemma book_invD:
  assumes "book_inv b"
  shows "bt_wf (book_side b sd)" and "bt_wf (orders b)" and "next_priority b < 2 ^ 64"
    and "bt_get (orders b) i = Some ord \<Longrightarrow> bo_order_id ord = i"
    and "bt_get (orders b) i = Some ord \<Longrightarrow> order_ok ord"
    and "bt_get (orders b) i = Some ord \<Longrightarrow> priority ord < next_priority b"
    and "bt_get (orders b) i = Some ord \<Longrightarrow> queued b ord"
    and "bt_get (book_side b sd) p = Some lv \<Longrightarrow> level_inv (orders b) sd p lv"
  using assms by (auto simp: book_inv_def)

lemma orders_mem:
  assumes "book_inv b"
  shows "(\<exists>i. (i, ord) \<in> set (orders b)) \<longleftrightarrow> bt_get (orders b) (bo_order_id ord) = Some ord"
  using book_invD(4) [OF assms] unfolding bt_get_mem [OF book_invD(2) [OF assms], symmetric] by blast

lemma order_okD:
  assumes "order_ok ord"
  shows "0 < visible ord" and "visible ord \<le> remaining ord" and "0 < remaining ord"
    and "in_i64 (remaining ord)" and "in_i64 (visible ord)" and "0 < bo_price ord" and "in_i64 (bo_price ord)"
    and "display ord = Some peak \<Longrightarrow> 0 < peak"
  using assms by (auto simp: order_ok_def in_i64_def)

lemma book_inv_new: "book_inv book_new"
  by (auto simp: book_inv_def book_new_def book_side_def split: side.splits)

lemma book_inv_priority_unique:
  assumes "book_inv b" and "bt_get (orders b) i = Some x" and "bt_get (orders b) j = Some y"
    and "bo_side x = bo_side y" and "bo_price x = bo_price y" and "priority x = priority y"
  shows "i = j"
  using book_invD(7) [OF assms(1,2)] book_invD(7) [OF assms(1,3)] book_invD(4) [OF assms(1,2)]
    book_invD(4) [OF assms(1,3)] assms(4-6)
  by (auto simp: queued_def)

lemma level_queue_iff:
  assumes "book_inv b" and "bt_get (book_side b sd) p = Some lv"
  shows "bt_get (queue lv) pr = Some i \<longleftrightarrow>
    (\<exists>ord. bt_get (orders b) i = Some ord \<and> at_level sd p ord \<and> priority ord = pr)"
  using book_invD(8) [OF assms] book_invD(7,4) [OF assms(1)] assms(2)
  by (fastforce simp: level_inv_def queued_def at_level_def)

lemma level_exists_iff:
  assumes "book_inv b"
  shows "bt_get (book_side b sd) p \<noteq> None \<longleftrightarrow>
    (\<exists>i ord. bt_get (orders b) i = Some ord \<and> at_level sd p ord)" (is "?L \<longleftrightarrow> ?R")
proof
  assume ?L
  then obtain lv where lv: "bt_get (book_side b sd) p = Some lv"
    by auto
  with book_invD(8) [OF assms] have "queue lv \<noteq> []"
    by (auto simp: level_inv_def)
  then obtain pr i where "bt_get (queue lv) pr = Some i"
    by (auto simp: bt_Nil_iff [of "queue lv"])
  with level_queue_iff [OF assms lv] show ?R
    by blast
next
  assume ?R
  then show ?L
    using book_invD(7) [OF assms] by (fastforce simp: queued_def at_level_def)
qed

lemma level_inv_transfer:
  assumes "level_inv os sd p lv"
    and "\<And>i x. bt_get os i = Some x \<Longrightarrow> at_level sd p x \<Longrightarrow> bt_get os' i = Some x"
    and "\<And>f. level_sum f os' sd p = level_sum f os sd p"
  shows "level_inv os' sd p lv"
  using assms unfolding level_inv_def by metis

text \<open>A well-formed book is determined by its orders and its sequence number.\<close>

lemma book_ext:
  assumes b: "book_inv b" and b': "book_inv b'"
    and os: "orders b = orders b'" and n: "next_priority b = next_priority b'"
  shows "b = b'"
proof (rule book_eqI)
  fix sd
  show "book_side b sd = book_side b' sd"
  proof (rule bt_ext)
    fix p
    show "bt_get (book_side b sd) p = bt_get (book_side b' sd) p"
    proof (cases "bt_get (book_side b sd) p")
      case None
      then show ?thesis
        using level_exists_iff [OF b] level_exists_iff [OF b'] os by metis
    next
      case (Some lv)
      then obtain lv' where lv': "bt_get (book_side b' sd) p = Some lv'"
        using level_exists_iff [OF b, of sd p] level_exists_iff [OF b', of sd p] os by auto
      have "bt_get (queue lv) pr = bt_get (queue lv') pr" for pr
        using level_queue_iff [OF b Some] level_queue_iff [OF b' lv'] os
        by (metis option.exhaust)
      then have "queue lv = queue lv'"
        using book_invD(8) [OF b Some] book_invD(8) [OF b' lv'] by (intro bt_ext) (auto simp: level_inv_def)
      then have "lv = lv'"
        using book_invD(8) [OF b Some] book_invD(8) [OF b' lv'] os by (simp add: level_inv_def)
      with Some lv' show ?thesis by simp
    qed
  qed (use book_invD(1) b b' in auto)
qed (fact os n)+

subsection \<open>Insertion\<close>

lemma take_priority_Ok_iff [result_simps]:
  "take_priority b = Ok (pr, b') \<longleftrightarrow>
     pr = next_priority b \<and> b' = b\<lparr>next_priority := Suc (next_priority b)\<rparr> \<and> Suc (next_priority b) < 2 ^ 64"
  by (auto simp: take_priority_def result_simps)

lemma book_inv_next_priority:
  "book_inv b \<Longrightarrow> next_priority b \<le> n \<Longrightarrow> n < 2 ^ 64 \<Longrightarrow> book_inv (b\<lparr>next_priority := n\<rparr>)"
  by (fastforce simp: book_inv_def book_simps queued_def)

text \<open>The level an order joins: its old level, or an empty one.\<close>

definition level_or_default :: "book \<Rightarrow> side \<Rightarrow> price_ticks \<Rightarrow> level" where
  "level_or_default b sd p = (case bt_get (book_side b sd) p of None \<Rightarrow> default_level | Some lv \<Rightarrow> lv)"

lemma level_or_default_sums:
  assumes "book_inv b"
  shows "level_visible (level_or_default b sd p) = level_sum visible (orders b) sd p"
    and "level_total (level_or_default b sd p) = level_sum remaining (orders b) sd p"
    and "bt_wf (queue (level_or_default b sd p))"
    and "bt_get (queue (level_or_default b sd p)) pr = Some i \<longleftrightarrow>
      (\<exists>ord. bt_get (orders b) i = Some ord \<and> at_level sd p ord \<and> priority ord = pr)"
proof -
  show "level_visible (level_or_default b sd p) = level_sum visible (orders b) sd p"
    and "level_total (level_or_default b sd p) = level_sum remaining (orders b) sd p"
    and "bt_wf (queue (level_or_default b sd p))"
    using book_invD(8) [OF assms, of sd p] level_exists_iff [OF assms, of sd p]
      level_sum_zero [OF book_invD(2) [OF assms], of sd p]
    by (fastforce simp: level_or_default_def level_inv_def default_level_def split: option.splits)+
  show "bt_get (queue (level_or_default b sd p)) pr = Some i \<longleftrightarrow>
      (\<exists>ord. bt_get (orders b) i = Some ord \<and> at_level sd p ord \<and> priority ord = pr)"
    using level_queue_iff [OF assms, of sd p] level_exists_iff [OF assms, of sd p]
    by (auto simp: level_or_default_def default_level_def split: option.splits)
qed

lemma book_insert_Ok_iff:
  "book_insert b ord = Ok b' \<longleftrightarrow>
     0 < visible ord \<and> visible ord \<le> remaining ord \<and> 0 < bo_price ord \<and>
     bt_get (orders b) (bo_order_id ord) = None \<and>
     (let sd = bo_side ord; p = bo_price ord; lv = level_or_default b sd p in
      bt_get (queue lv) (priority ord) = None \<and>
      in_i64 (level_visible lv + visible ord) \<and> in_i64 (level_total lv + remaining ord) \<and>
      b' = (set_book_side b sd (bt_insert p
             \<lparr>queue = bt_insert (priority ord) (bo_order_id ord) (queue lv),
              level_visible = level_visible lv + visible ord, level_total = level_total lv + remaining ord\<rparr>
             (book_side b sd)))\<lparr>orders := bt_insert (bo_order_id ord) ord (orders b)\<rparr>)"
  by (auto simp: book_insert_def Let_def book_contains_def level_or_default_def result_simps
      split: option.split)

lemma book_insert_proj:
  assumes "book_insert b ord = Ok b'"
  shows "orders b' = bt_insert (bo_order_id ord) ord (orders b)"
    and "next_priority b' = next_priority b"
    and "bt_get (orders b) (bo_order_id ord) = None"
  using assms by (auto simp: book_insert_Ok_iff Let_def book_simps)

lemma book_insert_inv:
  assumes inv: "book_inv b" and ins: "book_insert b ord = Ok b'"
    and ok: "order_ok ord" and pr: "priority ord < next_priority b"
  shows "book_inv b'"
proof -
  note os = book_insert_proj [OF ins]
  let ?sd = "bo_side ord" and ?p = "bo_price ord" and ?i = "bo_order_id ord"
  let ?lv = "level_or_default b ?sd ?p"
  let ?new = "\<lparr>queue = bt_insert (priority ord) ?i (queue ?lv),
      level_visible = level_visible ?lv + visible ord, level_total = level_total ?lv + remaining ord\<rparr>"
  have free: "bt_get (queue ?lv) (priority ord) = None"
    and range: "in_i64 (level_visible ?lv + visible ord)" "in_i64 (level_total ?lv + remaining ord)"
    and side: "book_side b' sd = (if sd = ?sd then bt_insert ?p ?new (book_side b ?sd) else book_side b sd)" for sd
    using ins by (auto simp: book_insert_Ok_iff Let_def book_simps)
  note sums = level_or_default_sums [OF inv, of ?sd ?p]
  have lookup: "bt_get (book_side b' sd) p
      = (if sd = ?sd \<and> p = ?p then Some ?new else bt_get (book_side b sd) p)" for sd p
    by (simp add: side)
  have sum: "level_sum f (orders b') sd p
      = level_sum f (orders b) sd p + (if sd = ?sd \<and> p = ?p then f ord else 0)" for f sd p
    using level_sum_insert [OF book_invD(2) [OF inv] os(3), of f ord sd p]
    by (auto simp: os at_level_def)
  have "bt_get (queue ?new) pr = Some i \<Longrightarrow>
      \<exists>ord'. bt_get (orders b') i = Some ord' \<and> at_level ?sd ?p ord' \<and> priority ord' = pr" for pr i
    using sums(4) [of pr i] os(3) by (auto simp: os at_level_def split: if_splits)
  then have new: "level_inv (orders b') ?sd ?p ?new"
    using range sums(1-3) by (auto simp: level_inv_def sum)
  have keep: "level_inv (orders b') sd p lv"
    if "\<not> (sd = ?sd \<and> p = ?p)" "bt_get (book_side b sd) p = Some lv" for sd p lv
    using that(1) os(3) sum [of _ sd p]
    by (intro level_inv_transfer [OF book_invD(8) [OF inv that(2)]]) (auto simp: os(1))
  have queued_old: "queued b' ord'" if "bt_get (orders b) i = Some ord'" for i ord'
  proof -
    have "queued b ord'"
      using book_invD(7) [OF inv that] .
    moreover have "priority ord' \<noteq> priority ord" if "bo_side ord' = ?sd" "bo_price ord' = ?p"
      using sums(4) [of "priority ord'" i] \<open>bt_get (orders b) i = Some ord'\<close> that free
      by (auto simp: at_level_def)
    ultimately show ?thesis
      by (auto simp: queued_def lookup level_or_default_def)
  qed
  have "queued b' ord"
    by (simp add: queued_def lookup)
  then show ?thesis
    using inv book_invD(3) [OF inv] new keep queued_old ok pr unfolding book_inv_def [of b']
    by (auto simp: os lookup side book_invD split: if_splits)
qed

text \<open>When an insertion succeeds.\<close>

lemma book_insert_succeeds:
  assumes inv: "book_inv b" and ok: "order_ok ord" and "bt_get (orders b) (bo_order_id ord) = None"
    and free: "\<And>i x. bt_get (orders b) i = Some x \<Longrightarrow> at_level (bo_side ord) (bo_price ord) x \<Longrightarrow>
      priority x \<noteq> priority ord"
    and fits: "in_i64 (level_sum remaining (orders b) (bo_side ord) (bo_price ord) + remaining ord)"
  obtains b' where "book_insert b ord = Ok b'"
proof -
  let ?sd = "bo_side ord" and ?p = "bo_price ord"
  note sums = level_or_default_sums [OF inv, of ?sd ?p]
  have "bt_get (queue (level_or_default b ?sd ?p)) (priority ord) = None"
    using sums(4) [of "priority ord"] free by (metis not_Some_eq)
  moreover have "level_sum visible (orders b) ?sd ?p \<le> level_sum remaining (orders b) ?sd ?p"
    using book_invD(5) [OF inv] by (intro level_sum_mono book_invD(2) [OF inv]) (auto dest: order_okD)
  moreover have "0 \<le> level_sum visible (orders b) ?sd ?p"
    using book_invD(5) [OF inv] by (intro level_sum_nonneg book_invD(2) [OF inv]) (force dest: order_okD)
  ultimately show ?thesis
    using that ok fits assms(3) sums(1,2) by (auto simp: book_insert_Ok_iff Let_def order_ok_def in_i64_def)
qed

subsection \<open>Removal\<close>

lemma book_remove_inv:
  assumes inv: "book_inv b" and get: "bt_get (orders b) i = Some ord"
  obtains b' where "book_remove b i = Ok b'" and "book_inv b'"
    and "orders b' = bt_remove i (orders b)" and "next_priority b' = next_priority b"
proof -
  let ?sd = "bo_side ord" and ?p = "bo_price ord"
  have id: "bo_order_id ord = i" and ok: "order_ok ord"
    using book_invD(4,5) [OF inv get] by auto
  have nonneg: "0 \<le> visible x" "0 \<le> remaining x" if "bt_get (orders b) j = Some x" for j x
    using order_okD(1,3) [OF book_invD(5) [OF inv that]] by auto
  obtain lv where lv: "bt_get (book_side b ?sd) ?p = Some lv"
    and q: "bt_get (queue lv) (priority ord) = Some i"
    using book_invD(7) [OF inv get] id by (auto simp: queued_def)
  have li: "level_inv (orders b) ?sd ?p lv"
    using book_invD(8) [OF inv lv] .
  have at: "at_level ?sd ?p ord"
    by (simp add: at_level_def)
  have le: "visible ord \<le> level_visible lv" "remaining ord \<le> level_total lv"
    using li level_sum_ge [OF book_invD(2) [OF inv] nonneg(1) get at]
      level_sum_ge [OF book_invD(2) [OF inv] nonneg(2) get at] by (simp_all add: level_inv_def)
  have range: "in_i64 (level_visible lv - visible ord)" "in_i64 (level_total lv - remaining ord)"
    using li le ok by (auto simp: level_inv_def order_ok_def in_i64_def)
  let ?q = "bt_remove (priority ord) (queue lv)"
  let ?new = "\<lparr>queue = ?q, level_visible = level_visible lv - visible ord, level_total = level_total lv - remaining ord\<rparr>"
  let ?sd' = "if ?q = [] then bt_remove ?p (book_side b ?sd) else bt_insert ?p ?new (book_side b ?sd)"
  let ?os' = "bt_remove i (orders b)"
  define b' where "b' = (set_book_side b ?sd ?sd')\<lparr>orders := ?os'\<rparr>"
  have os': "orders b' = ?os'" and np: "next_priority b' = next_priority b"
    by (simp_all add: b'_def book_simps)
  have rem: "book_remove b i = Ok b'"
    using get lv range by (auto simp: book_remove_def Let_def i64_checked_sub_def b'_def)
  have lookup: "bt_get (book_side b' sd) p
      = (if sd = ?sd \<and> p = ?p then if ?q = [] then None else Some ?new else bt_get (book_side b sd) p)" for sd p
    by (simp add: b'_def book_simps)
  have sum: "level_sum f ?os' sd p
      = level_sum f (orders b) sd p - (if sd = ?sd \<and> p = ?p then f ord else 0)" for f sd p
    using level_sum_remove [OF book_invD(2) [OF inv] get, of f sd p] by (auto simp: at_level_def)
  have new: "level_inv ?os' ?sd ?p ?new" if "?q \<noteq> []"
  proof -
    have "\<exists>x. bt_get ?os' j = Some x \<and> at_level ?sd ?p x \<and> priority x = pr"
      if "bt_get ?q pr = Some j" for pr j
    proof -
      have "pr \<noteq> priority ord" and j: "bt_get (queue lv) pr = Some j"
        using that by (auto split: if_splits)
      then obtain x where "bt_get (orders b) j = Some x" "at_level ?sd ?p x" "priority x = pr"
        using level_queue_iff [OF inv lv] by blast
      with \<open>pr \<noteq> priority ord\<close> get show ?thesis
        by (cases "j = i") auto
    qed
    then show ?thesis
      using that li range by (auto simp: level_inv_def sum)
  qed
  have keep: "level_inv ?os' sd p l"
    if other: "\<not> (sd = ?sd \<and> p = ?p)" and l: "bt_get (book_side b sd) p = Some l" for sd p l
    using other get by (intro level_inv_transfer [OF book_invD(8) [OF inv l]]) (auto simp: sum at_level_def)
  have queued: "queued b' x" if "bt_get (orders b) j = Some x" "j \<noteq> i" for j x
  proof -
    have "queued b x"
      using book_invD(7) [OF inv that(1)] .
    moreover have "priority x \<noteq> priority ord" if "bo_side x = ?sd" "bo_price x = ?p"
      using book_inv_priority_unique [OF inv \<open>bt_get (orders b) j = Some x\<close> get that] \<open>j \<noteq> i\<close> by auto
    ultimately show ?thesis
      using lv by (auto simp: queued_def lookup bt_remove_Nil_iff)
  qed
  have wf: "bt_wf (book_side b' sd)" for sd
    using book_invD(1) [OF inv] by (simp add: b'_def book_simps)
  have "book_inv b'"
    unfolding book_inv_def [of b'] os' np
  proof (intro conjI allI impI)
    fix sd p l
    assume "bt_get (book_side b' sd) p = Some l"
    then show "level_inv ?os' sd p l"
      using new keep unfolding lookup by (auto split: if_splits)
  qed (use wf book_invD [OF inv] queued in \<open>auto split: if_splits\<close>)
  with rem show ?thesis
    using os' np by (rule that)
qed

end
