(* ===== verification/Book_View.thy ===== *)
theory Book_View
  imports Book_Invariant
begin

text \<open>
  The book seen as two lists of orders in matching priority. \<open>book_orders\<close>, which the
  code computes level by level and queue by queue, is the one list that holds the
  orders of a side in strictly ascending \<open>rank\<close>: better price first, then earlier
  priority. Its head is the order that \<open>best\<close> and the first queue entry select, and the
  sums over it are the sums over the levels.
\<close>

subsection \<open>Lists in strict order\<close>

lemma sorted_wrt_concat:
  "sorted_wrt P (concat xss) \<longleftrightarrow>
     (\<forall>xs \<in> set xss. sorted_wrt P xs) \<and> sorted_wrt (\<lambda>xs ys. \<forall>x \<in> set xs. \<forall>y \<in> set ys. P x y) xss"
  by (induction xss) (auto simp: sorted_wrt_append)

lemma sum_list_concat: "sum_list (concat xss) = (\<Sum>xs \<leftarrow> xss. sum_list xs)"
  by (induction xss) auto

lemma sorted_key_unique:
  fixes f :: "'a \<Rightarrow> 'b::linorder"
  assumes "sorted_wrt (\<lambda>x y. f x < f y) xs" and "sorted_wrt (\<lambda>x y. f x < f y) ys" and "set xs = set ys"
  shows "xs = ys"
  using assms
proof (induction xs arbitrary: ys)
  case Nil
  then show ?case by simp
next
  case (Cons x xs)
  then obtain y ys' where ys: "ys = y # ys'"
    by (cases ys) auto
  have "x = y"
  proof (rule ccontr)
    assume "x \<noteq> y"
    then have "y \<in> set xs" "x \<in> set ys'"
      using Cons.prems(3) ys by auto
    then have "f x < f y" "f y < f x"
      using Cons.prems(1,2) ys by auto
    then show False by simp
  qed
  moreover have "x \<notin> set xs" "y \<notin> set ys'"
    using Cons.prems(1,2) ys by auto
  then have "set xs = set ys'"
    using Cons.prems(3) ys \<open>x = y\<close> by auto
  ultimately show ?case
    using Cons ys by simp
qed

lemma map_filter_all_Some:
  "(\<And>x. x \<in> set xs \<Longrightarrow> f x = Some (g x)) \<Longrightarrow> List.map_filter f xs = map g xs"
  by (induction xs) (auto simp: List.map_filter_simps)

subsection \<open>Rank\<close>

text \<open>Better prices and earlier priorities have the lower rank.\<close>

definition price_rank :: "side \<Rightarrow> price_ticks \<Rightarrow> int" where
  "price_rank sd p = (case sd of Buy \<Rightarrow> - p | Sell \<Rightarrow> p)"

definition rank :: "side \<Rightarrow> book_order \<Rightarrow> int \<times> nat" where
  "rank sd ord = (price_rank sd (bo_price ord), priority ord)"

abbreviation ranked :: "side \<Rightarrow> book_order list \<Rightarrow> bool" where
  "ranked sd \<equiv> sorted_wrt (\<lambda>x y. rank sd x < rank sd y)"

definition side_orders :: "book \<Rightarrow> side \<Rightarrow> book_order set" where
  "side_orders b sd = {ord. bo_side ord = sd \<and> bt_get (orders b) (bo_order_id ord) = Some ord}"

lemma price_rank_eq_iff [simp]: "price_rank sd p = price_rank sd q \<longleftrightarrow> p = q"
  by (cases sd) (auto simp: price_rank_def)

lemma rank_less_iff:
  "rank sd x < rank sd y \<longleftrightarrow> price_rank sd (bo_price x) < price_rank sd (bo_price y) \<or>
     bo_price x = bo_price y \<and> priority x < priority y"
  by (auto simp: rank_def)

lemma crosses_price_rank:
  "crosses taker l p \<longleftrightarrow> price_rank (opposite taker) p \<le> price_rank (opposite taker) l"
  by (cases taker) (auto simp: price_rank_def)

lemma within_limit_mono:
  "within_limit taker limit q \<Longrightarrow> price_rank (opposite taker) p \<le> price_rank (opposite taker) q \<Longrightarrow>
   within_limit taker limit p"
  by (auto simp: within_limit_def crosses_price_rank split: option.splits)

subsection \<open>The traversal of the code\<close>

lemma set_best_first [simp]: "set (best_first b sd) = set (book_side b sd)"
  by (cases sd) (auto simp: best_first_def book_side_def)

lemma best_first_ranked:
  assumes "book_inv b"
  shows "sorted_wrt (\<lambda>x y. price_rank sd (fst x) < price_rank sd (fst y)) (best_first b sd)"
  using book_invD(1) [OF assms, of sd]
  by (cases sd) (auto simp: best_first_def book_side_def price_rank_def bt_wf_def sorted_wrt_map sorted_wrt_rev)

definition queue_orders :: "book \<Rightarrow> level \<Rightarrow> book_order list" where
  "queue_orders b lv = map (\<lambda>(_, i). the (bt_get (orders b) i)) (queue lv)"

lemma queue_entry:
  assumes "book_inv b" and "bt_get (book_side b sd) p = Some lv" and "(pr, i) \<in> set (queue lv)"
  obtains ord where "bt_get (orders b) i = Some ord" and "at_level sd p ord" and "priority ord = pr"
proof -
  have "bt_wf (queue lv)"
    using book_invD(8) [OF assms(1,2)] by (simp add: level_inv_def)
  then have "bt_get (queue lv) pr = Some i"
    using assms(3) by (simp add: bt_get_mem)
  then show ?thesis
    using level_queue_iff [OF assms(1,2)] that by blast
qed

lemma queue_orders_set:
  assumes "book_inv b" and lv: "bt_get (book_side b sd) p = Some lv"
  shows "set (queue_orders b lv) = {ord \<in> side_orders b sd. bo_price ord = p}" (is "?L = ?R")
proof
  show "?L \<subseteq> ?R"
    using book_invD(4) [OF assms(1)]
    by (auto simp: queue_orders_def side_orders_def at_level_def elim!: queue_entry [OF assms])
  have wf: "bt_wf (queue lv)"
    using book_invD(8) [OF assms] by (simp add: level_inv_def)
  show "?R \<subseteq> ?L"
  proof
    fix ord
    assume ord: "ord \<in> ?R"
    then have "(priority ord, bo_order_id ord) \<in> set (queue lv)"
      using level_queue_iff [OF assms, of "priority ord" "bo_order_id ord"] wf
      by (auto simp: side_orders_def at_level_def bt_get_mem)
    with ord show "ord \<in> ?L"
      by (force simp: queue_orders_def side_orders_def)
  qed
qed

lemma queue_orders_ranked:
  assumes "book_inv b" and lv: "bt_get (book_side b sd) p = Some lv"
  shows "ranked sd (queue_orders b lv)"
proof -
  have "sorted_wrt (\<lambda>x y. fst x < fst y) (queue lv)"
    using book_invD(8) [OF assms] by (simp add: level_inv_def bt_wf_def sorted_wrt_map)
  then show ?thesis
    unfolding queue_orders_def sorted_wrt_map
  proof (rule sorted_wrt_mono_rel [rotated])
    fix x y
    assume x: "x \<in> set (queue lv)" and y: "y \<in> set (queue lv)" and less: "fst x < fst y"
    obtain ox where "bt_get (orders b) (snd x) = Some ox" "at_level sd p ox" "priority ox = fst x"
      using queue_entry [OF assms] x by (metis prod.collapse)
    moreover obtain oy where "bt_get (orders b) (snd y) = Some oy" "at_level sd p oy" "priority oy = fst y"
      using queue_entry [OF assms] y by (metis prod.collapse)
    ultimately show "rank sd (case x of (_, i) \<Rightarrow> the (bt_get (orders b) i))
        < rank sd (case y of (_, i) \<Rightarrow> the (bt_get (orders b) i))"
      using less by (auto simp: rank_less_iff at_level_def split: prod.splits)
  qed
qed

lemma book_orders_queues:
  assumes "book_inv b"
  shows "book_orders b sd = concat (map (\<lambda>(p, lv). queue_orders b lv) (best_first b sd))"
proof -
  have "List.map_filter (\<lambda>(_, i). bt_get (orders b) i) (queue lv) = queue_orders b lv"
    if "(p, lv) \<in> set (best_first b sd)" for p lv
  proof -
    have lv: "bt_get (book_side b sd) p = Some lv"
      using that book_invD(1) [OF assms] by (simp add: bt_get_mem)
    show ?thesis
      unfolding queue_orders_def
      by (rule map_filter_all_Some) (auto elim!: queue_entry [OF assms lv])
  qed
  then show ?thesis
    unfolding book_orders_def by (intro arg_cong [where f = concat] map_cong) auto
qed

lemma book_orders_set:
  assumes "book_inv b"
  shows "set (book_orders b sd) = side_orders b sd"
proof -
  have lv: "(p, lv) \<in> set (book_side b sd) \<longleftrightarrow> bt_get (book_side b sd) p = Some lv" for p lv
    using book_invD(1) [OF assms] by (simp add: bt_get_mem)
  have "set (book_orders b sd) = (\<Union>(p, lv) \<in> set (book_side b sd). set (queue_orders b lv))"
    by (auto simp: book_orders_queues [OF assms])
  also have "\<dots> = (\<Union>(p, lv) \<in> set (book_side b sd). {ord \<in> side_orders b sd. bo_price ord = p})"
    using queue_orders_set [OF assms] by (intro SUP_cong) (auto simp: lv)
  also have "\<dots> = side_orders b sd"
  proof -
    have "\<exists>lv. bt_get (book_side b sd) (bo_price ord) = Some lv" if "ord \<in> side_orders b sd" for ord
      using level_exists_iff [OF assms, of sd "bo_price ord"] that
      by (auto simp: side_orders_def at_level_def)
    then show ?thesis
      by (force simp: lv)
  qed
  finally show ?thesis .
qed

lemma book_orders_ranked:
  assumes "book_inv b"
  shows "ranked sd (book_orders b sd)"
proof -
  have lv: "bt_get (book_side b sd) p = Some lv" if "(p, lv) \<in> set (best_first b sd)" for p lv
    using that book_invD(1) [OF assms] by (simp add: bt_get_mem)
  have "sorted_wrt (\<lambda>x y. \<forall>o1 \<in> set (queue_orders b (snd x)). \<forall>o2 \<in> set (queue_orders b (snd y)).
      rank sd o1 < rank sd o2) (best_first b sd)"
  proof (rule sorted_wrt_mono_rel [OF _ best_first_ranked [OF assms, of sd]])
    fix x y
    assume x: "x \<in> set (best_first b sd)" and y: "y \<in> set (best_first b sd)"
      and less: "price_rank sd (fst x) < price_rank sd (fst y)"
    have "set (queue_orders b (snd e)) = {ord \<in> side_orders b sd. bo_price ord = fst e}"
      if "e \<in> set (best_first b sd)" for e
      using queue_orders_set [OF assms lv] that by (metis prod.collapse)
    then show "\<forall>o1 \<in> set (queue_orders b (snd x)). \<forall>o2 \<in> set (queue_orders b (snd y)). rank sd o1 < rank sd o2"
      using x y less by (auto simp: rank_less_iff)
  qed
  then show ?thesis
    unfolding book_orders_queues [OF assms] sorted_wrt_concat sorted_wrt_map
    using queue_orders_ranked [OF assms lv] by (auto simp: case_prod_beta)
qed

text \<open>The view is determined by the order map alone.\<close>

lemma book_orders_eqI:
  assumes "book_inv b" and "ranked sd xs" and "set xs = side_orders b sd"
  shows "book_orders b sd = xs"
  using assms by (intro sorted_key_unique [where f = "rank sd"]) (auto simp: book_orders_ranked book_orders_set)

subsection \<open>The head of the view\<close>

lemma best_best_first: "best b sd = map_option fst (bt_first (best_first b sd))"
  by (cases sd) (auto simp: best_def best_first_def bt_last_def)

lemma view_head:
  assumes "book_inv b"
  shows "best b sd = None \<Longrightarrow> book_orders b sd = []"
    and "best b sd = Some p \<Longrightarrow>
      \<exists>ord tl. book_orders b sd = ord # tl \<and> bo_price ord = p \<and> level_head b sd p = Some (bo_order_id ord) \<and>
        bt_get (orders b) (bo_order_id ord) = Some ord"
proof -
  show "book_orders b sd = []" if "best b sd = None"
    using that by (simp add: best_best_first book_orders_def)
  assume "best b sd = Some p"
  then obtain lv ls where bf: "best_first b sd = (p, lv) # ls"
    by (auto simp: best_best_first bt_first_def split: list.splits)
  then have "(p, lv) \<in> set (book_side b sd)"
    by (metis list.set_intros(1) set_best_first)
  then have lv: "bt_get (book_side b sd) p = Some lv"
    using book_invD(1) [OF assms] by (simp add: bt_get_mem)
  then have "queue lv \<noteq> []"
    using book_invD(8) [OF assms] by (auto simp: level_inv_def)
  then obtain pr i q where q: "queue lv = (pr, i) # q"
    by (metis list.exhaust surj_pair)
  then obtain ord where ord: "bt_get (orders b) i = Some ord" "at_level sd p ord"
    using queue_entry [OF assms lv, of pr i] by auto
  then show "\<exists>ord tl. book_orders b sd = ord # tl \<and> bo_price ord = p \<and> level_head b sd p = Some (bo_order_id ord) \<and>
        bt_get (orders b) (bo_order_id ord) = Some ord"
    using bf q lv book_invD(4) [OF assms ord(1)]
    by (auto simp: book_orders_queues [OF assms] queue_orders_def level_head_def bt_first_def at_level_def)
qed

lemma best_view:
  assumes "book_inv b"
  shows "best b sd = (case book_orders b sd of [] \<Rightarrow> None | ord # _ \<Rightarrow> Some (bo_price ord))"
  using view_head [OF assms, of sd] by (cases "best b sd") auto

text \<open>No order of the side is better than the best price.\<close>

lemma best_price_rank:
  assumes "book_inv b" and "best b sd = Some p" and "ord \<in> side_orders b sd"
  shows "price_rank sd p \<le> price_rank sd (bo_price ord)"
proof -
  obtain hd tl where v: "book_orders b sd = hd # tl" and p: "bo_price hd = p"
    using view_head(2) [OF assms(1,2)] by auto
  then have "ord = hd \<or> ord \<in> set tl"
    using assms(3) book_orders_set [OF assms(1), of sd] by auto
  then show ?thesis
    using book_orders_ranked [OF assms(1), of sd] v p by (auto simp: rank_less_iff)
qed

subsection \<open>Volumes\<close>

text \<open>The quantity, displayed and hidden, that a side holds at the prices selected by \<open>P\<close>.\<close>

definition volume :: "book \<Rightarrow> side \<Rightarrow> (price_ticks \<Rightarrow> bool) \<Rightarrow> int" where
  "volume b sd P = (\<Sum>ord \<leftarrow> book_orders b sd. if P (bo_price ord) then remaining ord else 0)"

lemma finite_side_orders: "book_inv b \<Longrightarrow> finite (side_orders b sd)"
  by (metis book_orders_set List.finite_set)

lemma ranked_distinct: "ranked sd xs \<Longrightarrow> distinct xs"
  by (induction xs) (auto simp: rank_less_iff)

lemma volume_sum:
  assumes "book_inv b"
  shows "volume b sd P = (\<Sum>ord \<in> side_orders b sd. if P (bo_price ord) then remaining ord else 0)"
  using ranked_distinct [OF book_orders_ranked [OF assms, of sd]] book_orders_set [OF assms, of sd]
  by (simp add: volume_def sum_list_distinct_conv_sum_set)

lemma side_orders_ok: "book_inv b \<Longrightarrow> ord \<in> side_orders b sd \<Longrightarrow> order_ok ord"
  by (auto simp: side_orders_def dest: book_invD(5))

lemma volume_nonneg: "book_inv b \<Longrightarrow> 0 \<le> volume b sd P"
  by (auto simp: volume_sum intro!: sum_nonneg dest!: side_orders_ok order_okD(3))

lemma volume_mono:
  assumes "book_inv b" and "\<And>p. P p \<Longrightarrow> Q p"
  shows "volume b sd P \<le> volume b sd Q"
  using assms order_okD(3) [OF side_orders_ok [OF assms(1)]]
  by (auto simp: volume_sum intro!: sum_mono) force

lemma volume_pos:
  assumes "book_inv b" and "ord \<in> side_orders b sd" and "P (bo_price ord)"
  shows "remaining ord \<le> volume b sd P"
proof -
  have "(if P (bo_price ord) then remaining ord else 0) \<le> volume b sd P"
    unfolding volume_sum [OF assms(1)]
    using assms order_okD(3) [OF side_orders_ok [OF assms(1)]] finite_side_orders [OF assms(1), of sd]
    by (intro member_le_sum) (auto, force)
  with assms(3) show ?thesis by simp
qed

lemma volume_zero_iff:
  assumes "book_inv b"
  shows "volume b sd P = 0 \<longleftrightarrow> (\<forall>ord \<in> side_orders b sd. \<not> P (bo_price ord))"
proof
  assume "volume b sd P = 0"
  then show "\<forall>ord \<in> side_orders b sd. \<not> P (bo_price ord)"
    using volume_pos [OF assms, of _ sd P] order_okD(3) [OF side_orders_ok [OF assms, of _ sd]] by fastforce
qed (simp add: volume_sum [OF assms])

text \<open>The cached totals of the levels are the volumes of their orders.\<close>

lemma level_sum_queue:
  assumes "book_inv b" and "bt_get (book_side b sd) p = Some lv"
  shows "level_sum f (orders b) sd p = (\<Sum>ord \<leftarrow> queue_orders b lv. f ord)"
proof -
  let ?at = "\<lambda>(i, ord). at_level sd p ord"
  have wf: "bt_wf (orders b)"
    using book_invD(2) [OF assms(1)] .
  have inj: "inj_on snd (set (orders b))"
    using book_invD(4) [OF assms(1)] bt_get_mem [OF wf] by (auto simp: inj_on_def) metis+
  have "level_sum f (orders b) sd p = (\<Sum>e \<in> set (orders b). if ?at e then f (snd e) else 0)"
    using bt_distinct [OF wf]
    by (simp add: level_sum_def sum_list_distinct_conv_sum_set distinct_map case_prod_beta)
  also have "\<dots> = (\<Sum>e \<in> {e \<in> set (orders b). ?at e}. f (snd e))"
    by (simp add: sum.inter_filter)
  also have "\<dots> = (\<Sum>ord \<in> snd ` {e \<in> set (orders b). ?at e}. f ord)"
    using inj by (subst sum.reindex) (auto intro: inj_on_subset)
  also have "snd ` {e \<in> set (orders b). ?at e} = set (queue_orders b lv)"
  proof (rule set_eqI)
    fix ord
    have "ord \<in> snd ` {e \<in> set (orders b). ?at e} \<longleftrightarrow> (\<exists>i. (i, ord) \<in> set (orders b)) \<and> at_level sd p ord"
      by force
    also have "\<dots> \<longleftrightarrow> bt_get (orders b) (bo_order_id ord) = Some ord \<and> at_level sd p ord"
      by (simp only: orders_mem [OF assms(1)])
    finally show "ord \<in> snd ` {e \<in> set (orders b). ?at e} \<longleftrightarrow> ord \<in> set (queue_orders b lv)"
      by (auto simp: queue_orders_set [OF assms] side_orders_def at_level_def)
  qed
  finally show ?thesis
    using ranked_distinct [OF queue_orders_ranked [OF assms]]
    by (simp add: sum_list_distinct_conv_sum_set)
qed

lemma level_queue_sums:
  assumes "book_inv b" and "bt_get (book_side b sd) p = Some lv"
  shows "level_total lv = (\<Sum>ord \<leftarrow> queue_orders b lv. remaining ord)"
    and "level_visible lv = (\<Sum>ord \<leftarrow> queue_orders b lv. visible ord)"
  using book_invD(8) [OF assms] level_sum_queue [OF assms] by (simp_all add: level_inv_def)

lemma level_totals_volume:
  assumes "book_inv b"
  shows "(\<Sum>(p, lv) \<leftarrow> best_first b sd. if P p then level_total lv else 0) = volume b sd P"
proof -
  have lv: "bt_get (book_side b sd) p = Some lv" if "(p, lv) \<in> set (best_first b sd)" for p lv
    using that book_invD(1) [OF assms] by (simp add: bt_get_mem)
  have "(\<Sum>ord \<leftarrow> queue_orders b lv. if P (bo_price ord) then remaining ord else 0)
      = (if P p then level_total lv else 0)" if "(p, lv) \<in> set (best_first b sd)" for p lv
  proof -
    have "\<forall>ord \<in> set (queue_orders b lv). bo_price ord = p"
      using queue_orders_set [OF assms lv [OF that]] by simp
    then have "(\<Sum>ord \<leftarrow> queue_orders b lv. if P (bo_price ord) then remaining ord else 0)
        = (\<Sum>ord \<leftarrow> queue_orders b lv. if P p then remaining ord else 0)"
      by (intro arg_cong [where f = sum_list] map_cong) auto
    then show ?thesis
      by (simp add: level_queue_sums(1) [OF assms lv [OF that]])
  qed
  then have "map (\<lambda>(p, lv). if P p then level_total lv else 0) (best_first b sd)
      = map (\<lambda>(p, lv). \<Sum>ord \<leftarrow> queue_orders b lv. if P (bo_price ord) then remaining ord else 0) (best_first b sd)"
    by (intro map_cong) auto
  then show ?thesis
    by (simp add: volume_def book_orders_queues [OF assms] map_concat sum_list_concat o_def case_prod_unfold
        del: map_eq_conv)
qed

end
