(* ===== verification/Book_Matching.thy ===== *)
theory Book_Matching
  imports Book_View
begin

text \<open>
  Continuous matching. The view of a side is the list of its resting orders in
  matching priority; \<open>book_orders_view\<close> shows that the code's traversal yields it.
  \<open>matching\<close> states the price-time rules of the module's documentation on such lists,
  and \<open>execute\<close> is shown to implement it: which orders trade, in which order, at
  which price, and where a refreshed iceberg slice goes.
\<close>

subsection \<open>Taking a quantity from a resting order\<close>

definition filled_order :: "book_order \<Rightarrow> quantity_lots \<Rightarrow> nat \<Rightarrow> book_order" where
  "filled_order ord q n =
     (if q < visible ord then ord\<lparr>remaining := remaining ord - q, visible := visible ord - q\<rparr>
      else refresh_slice (ord\<lparr>remaining := remaining ord - q\<rparr>) n)"

definition refreshes :: "book_order \<Rightarrow> quantity_lots \<Rightarrow> bool" where
  "refreshes ord q \<longleftrightarrow> visible ord \<le> q \<and> q < remaining ord"

definition filled_orders ::
    "(order_id, book_order) btree_map \<Rightarrow> book_order \<Rightarrow> quantity_lots \<Rightarrow> nat \<Rightarrow> (order_id, book_order) btree_map" where
  "filled_orders os ord q n =
     (if q = remaining ord then bt_remove (bo_order_id ord) os
      else bt_insert (bo_order_id ord) (filled_order ord q n) os)"

definition after_fill :: "book \<Rightarrow> book_order \<Rightarrow> quantity_lots \<Rightarrow> book \<Rightarrow> bool" where
  "after_fill b ord q b' \<longleftrightarrow>
     book_inv b' \<and> orders b' = filled_orders (orders b) ord q (next_priority b) \<and>
     next_priority b' = next_priority b + (if refreshes ord q then 1 else 0)"

lemma filled_order_proj [simp]:
  "bo_order_id (filled_order ord q n) = bo_order_id ord"
  "bo_side (filled_order ord q n) = bo_side ord"
  "bo_price (filled_order ord q n) = bo_price ord"
  "remaining (filled_order ord q n) = remaining ord - q"
  "display (filled_order ord q n) = display ord"
  "priority (filled_order ord q n) = (if q < visible ord then priority ord else n)"
  by (simp_all add: filled_order_def refresh_slice_def)

lemma refresh_slice_visible [simp]:
  "refresh_slice (ord\<lparr>remaining := r, visible := v\<rparr>) n = refresh_slice (ord\<lparr>remaining := r\<rparr>) n"
  by (simp add: refresh_slice_def split: option.split)

lemma order_ok_filled:
  "order_ok ord \<Longrightarrow> 0 < q \<Longrightarrow> q < remaining ord \<Longrightarrow> order_ok (filled_order ord q n)"
  by (auto simp: order_ok_def filled_order_def refresh_slice_def in_i64_def split: option.splits)

text \<open>Putting a reduced order back where the old one was removed.\<close>

lemma reinsert:
  assumes inv: "book_inv b" and get: "bt_get (orders b) i = Some ord"
    and b1: "book_inv b1" "orders b1 = bt_remove i (orders b)" "next_priority b1 = n"
    and ok: "order_ok ord'" and same: "bo_order_id ord' = i" "bo_side ord' = bo_side ord" "bo_price ord' = bo_price ord"
    and less: "remaining ord' \<le> remaining ord"
    and pr: "priority ord' = priority ord \<or> next_priority b \<le> priority ord'" "priority ord' < n"
  obtains b2 where "book_insert b1 ord' = Ok b2" and "book_inv b2"
    and "orders b2 = bt_insert i ord' (orders b)" and "next_priority b2 = n"
proof -
  let ?sd = "bo_side ord" and ?p = "bo_price ord"
  have fresh: "bt_get (orders b1) (bo_order_id ord') = None"
    by (simp add: b1 same)
  have free: "priority x \<noteq> priority ord'"
    if "bt_get (orders b1) j = Some x" "at_level (bo_side ord') (bo_price ord') x" for j x
  proof -
    have x: "bt_get (orders b) j = Some x" "j \<noteq> i"
      using that(1) by (auto simp: b1 split: if_splits)
    then have "priority x < next_priority b" and "priority x \<noteq> priority ord"
      using book_invD(6) [OF inv x(1)] book_inv_priority_unique [OF inv x(1) get] that(2) x(2)
      by (auto simp: at_level_def same)
    with pr(1) show ?thesis by auto
  qed
  obtain lv where "bt_get (book_side b ?sd) ?p = Some lv"
    using book_invD(7) [OF inv get] by (auto simp: queued_def)
  then have total: "in_i64 (level_sum remaining (orders b) ?sd ?p)"
    using book_invD(8) [OF inv] by (fastforce simp: level_inv_def)
  have "level_sum remaining (orders b1) ?sd ?p = level_sum remaining (orders b) ?sd ?p - remaining ord"
    using level_sum_remove [OF book_invD(2) [OF inv] get] by (simp add: b1 at_level_def)
  moreover have "0 \<le> level_sum remaining (orders b1) ?sd ?p"
    using order_okD(3) [OF book_invD(5) [OF b1(1)]]
    by (intro level_sum_nonneg book_invD(2) [OF b1(1)]) force
  ultimately have fits: "in_i64 (level_sum remaining (orders b1) (bo_side ord') (bo_price ord') + remaining ord')"
    using total less order_okD(3) [OF ok] by (auto simp: in_i64_def same)
  obtain b2 where b2: "book_insert b1 ord' = Ok b2"
    using book_insert_succeeds [OF b1(1) ok fresh _ fits] free by blast
  have "orders b2 = bt_insert i ord' (orders b)"
    using book_insert_proj(1) [OF b2] book_invD(2) [OF inv] by (auto simp: b1 same intro!: bt_ext)
  moreover have "book_inv b2"
    using book_insert_inv [OF b1(1) b2 ok] pr(2) b1(3) by simp
  ultimately show ?thesis
    using that b2 book_insert_proj(2) [OF b2] b1(3) by simp
qed

lemma fill_resting_spec:
  assumes inv: "book_inv b" and get: "bt_get (orders b) (bo_order_id ord) = Some ord"
    and q: "0 < q" "q \<le> remaining ord"
    and seq: "refreshes ord q \<Longrightarrow> Suc (next_priority b) < 2 ^ 64"
  obtains b' where "fill_resting b ord q = Ok (remaining ord - q, b')" and "after_fill b ord q b'"
proof -
  obtain b1 where rem: "book_remove b (bo_order_id ord) = Ok b1" and b1: "book_inv b1"
    "orders b1 = bt_remove (bo_order_id ord) (orders b)" "next_priority b1 = next_priority b"
    using book_remove_inv [OF inv get] .
  have ok: "order_ok ord" and old: "priority ord < next_priority b"
    using book_invD(5,6) [OF inv get] .
  have sub: "i64_checked_sub (remaining ord) q = Some (remaining ord - q)"
    "q < visible ord \<Longrightarrow> i64_checked_sub (visible ord) q = Some (visible ord - q)"
    using ok q by (auto simp: i64_checked_sub_def order_ok_def in_i64_def checked_i64_def)
  consider (all) "q = remaining ord" | (part) "q < remaining ord" "q < visible ord"
    | (refresh) "q < remaining ord" "visible ord \<le> q"
    using q by linarith
  then show ?thesis
  proof cases
    case all
    then have "fill_resting b ord q = Ok (remaining ord - q, b1)"
      using rem sub(1) by (simp add: fill_resting_def)
    then show ?thesis
      using that b1 all by (simp add: after_fill_def filled_orders_def refreshes_def)
  next
    case part
    let ?new = "filled_order ord q (next_priority b)"
    obtain b2 where "book_insert b1 ?new = Ok b2" "book_inv b2"
      "orders b2 = bt_insert (bo_order_id ord) ?new (orders b)" "next_priority b2 = next_priority b"
      using reinsert [OF inv get b1, of ?new] order_ok_filled [OF ok q(1) part(1)] q old part
      by auto
    then show ?thesis
      using that rem sub part
      by (auto simp: fill_resting_def Let_def after_fill_def filled_orders_def refreshes_def filled_order_def)
  next
    case refresh
    let ?new = "filled_order ord q (next_priority b)" and ?b1 = "b1\<lparr>next_priority := Suc (next_priority b)\<rparr>"
    have seq': "Suc (next_priority b) < 2 ^ 64"
      using seq refresh by (simp add: refreshes_def)
    then have "book_inv ?b1"
      using book_inv_next_priority [OF b1(1), of "Suc (next_priority b)"] b1(3) by simp
    then obtain b2 where "book_insert ?b1 ?new = Ok b2" "book_inv b2"
      "orders b2 = bt_insert (bo_order_id ord) ?new (orders b)" "next_priority b2 = Suc (next_priority b)"
      using reinsert [OF inv get, of ?b1 _ ?new] order_ok_filled [OF ok q(1) refresh(1)] q refresh b1(2)
      by auto
    moreover have "take_priority b1 = Ok (next_priority b, ?b1)"
      using seq' b1(3) by (simp add: result_simps)
    ultimately show ?thesis
      using that rem sub refresh
      by (auto simp: fill_resting_def Let_def after_fill_def filled_orders_def refreshes_def filled_order_def)
  qed
qed

text \<open>A turn of \<open>execute\<close> takes its fill from the level's head the same way.\<close>

lemma execute_one_fill_resting:
  assumes inv: "book_inv b" and head: "level_head b sd price = Some i"
    and get: "bt_get (orders b) i = Some mk" and left: "0 < left" "in_i64 left"
  defines "fill \<equiv> min left (visible mk)"
  shows "execute_one b sd price left =
    attempt (fill_resting b mk fill) (\<lambda>(r, b').
    Ok (\<lparr>maker = i, match_price = price, match_quantity = fill, maker_remaining = remaining mk - fill\<rparr>,
        left - fill, b'))"
proof -
  have ok: "order_ok mk" and i: "bo_order_id mk = i"
    using book_invD(4,5) [OF inv get] by auto
  have sub: "i64_checked_sub left fill = Some (left - fill)"
    "i64_checked_sub (remaining mk) fill = Some (remaining mk - fill)"
    "i64_checked_sub (visible mk) fill = Some (visible mk - fill)"
    and fill: "0 < fill" "fill \<le> visible mk" "fill \<le> remaining mk"
    using ok left by (auto simp: fill_def i64_checked_sub_def order_ok_def in_i64_def checked_i64_def)
  obtain b1 where "book_remove b i = Ok b1"
    using book_remove_inv [OF inv get] .
  then show ?thesis
    using head get sub fill i
    by (auto simp: execute_one_def fill_resting_def Let_def fill_def [symmetric] attempt_def
        split: sum.splits prod.splits)
qed

subsection \<open>Views after a fill\<close>

lemma side_ordersD:
  assumes "book_inv b" and "ord \<in> side_orders b sd"
  shows "bt_get (orders b) (bo_order_id ord) = Some ord" and "bo_side ord = sd" and "order_ok ord"
    and "priority ord < next_priority b"
  using assms side_orders_ok [OF assms] by (auto simp: side_orders_def dest: book_invD(6))

lemma side_orders_fill:
  assumes "after_fill b ord q b'" and "ord \<in> side_orders b sd"
  shows "side_orders b' sd =
      (side_orders b sd - {ord}) \<union> (if q = remaining ord then {} else {filled_order ord q (next_priority b)})"
    and "side_orders b' (opposite sd) = side_orders b (opposite sd)"
proof -
  define new where "new = filled_order ord q (next_priority b)"
  have new: "bo_order_id new = bo_order_id ord" "bo_side new = bo_side ord"
    by (simp_all add: new_def)
  have os: "bt_get (orders b') i = (if i = bo_order_id ord then if q = remaining ord then None else Some new
      else bt_get (orders b) i)" for i
    using assms(1) by (simp add: after_fill_def filled_orders_def new_def)
  have old: "bt_get (orders b) (bo_order_id ord) = Some ord" "bo_side ord = sd"
    using assms(2) by (simp_all add: side_orders_def)
  have "x \<in> side_orders b' sd \<longleftrightarrow> x \<in> side_orders b sd - {ord} \<or> q \<noteq> remaining ord \<and> x = new" for x
    using old new os [of "bo_order_id x"] by (cases "bo_order_id x = bo_order_id ord") (auto simp: side_orders_def)
  then show "side_orders b' sd =
      (side_orders b sd - {ord}) \<union> (if q = remaining ord then {} else {filled_order ord q (next_priority b)})"
    unfolding new_def by (intro set_eqI) simp
  have "x \<in> side_orders b' (opposite sd) \<longleftrightarrow> x \<in> side_orders b (opposite sd)" for x
    using old new os [of "bo_order_id x"] by (cases "bo_order_id x = bo_order_id ord") (auto simp: side_orders_def)
  then show "side_orders b' (opposite sd) = side_orders b (opposite sd)"
    by blast
qed

lemma book_orders_other_side:
  assumes "book_inv b" and "after_fill b ord q b'" and "ord \<in> side_orders b sd"
  shows "book_orders b' (opposite sd) = book_orders b (opposite sd)"
  using assms side_orders_fill(2) [OF assms(2,3)]
  by (intro book_orders_eqI) (auto simp: after_fill_def book_orders_ranked book_orders_set)

text \<open>A refreshed order goes behind the orders of its price.\<close>

definition requeue :: "book_order \<Rightarrow> book_order list \<Rightarrow> book_order list" where
  "requeue ord xs =
     takeWhile (\<lambda>x. bo_price x = bo_price ord) xs @ ord # dropWhile (\<lambda>x. bo_price x = bo_price ord) xs"

text \<open>The view of a side whose head gave up \<open>q\<close> lots.\<close>

definition fill_head :: "book_order \<Rightarrow> quantity_lots \<Rightarrow> nat \<Rightarrow> book_order list \<Rightarrow> book_order list" where
  "fill_head ord q n xs =
     (if q = remaining ord then xs
      else if q < visible ord then filled_order ord q n # xs
      else requeue (filled_order ord q n) xs)"

lemma set_requeue [simp]: "set (requeue ord xs) = insert ord (set xs)"
proof -
  have "set xs = set (takeWhile P xs) \<union> set (dropWhile P xs)" for P
    by (metis set_append takeWhile_dropWhile_id)
  then show ?thesis
    by (auto simp: requeue_def)
qed

lemma ranked_dropWhile_price:
  assumes "ranked sd xs" and "\<forall>x \<in> set xs. price_rank sd p \<le> price_rank sd (bo_price x)"
    and "x \<in> set (dropWhile (\<lambda>x. bo_price x = p) xs)"
  shows "price_rank sd p < price_rank sd (bo_price x)"
  using assms
proof (induction xs)
  case (Cons y ys)
  show ?case
  proof (cases "bo_price y = p")
    case True
    then show ?thesis using Cons by simp
  next
    case False
    then have "price_rank sd p < price_rank sd (bo_price y)"
      using Cons.prems(2) by (simp add: order_less_le)
    moreover have "x = y \<or> rank sd y < rank sd x"
      using Cons.prems(1,3) False by auto
    ultimately show ?thesis
      by (auto simp: rank_less_iff)
  qed
qed simp

lemma ranked_requeue:
  assumes r: "ranked sd xs" and "\<forall>x \<in> set xs. price_rank sd (bo_price ord) \<le> price_rank sd (bo_price x)"
    and "\<forall>x \<in> set xs. priority x < priority ord"
  shows "ranked sd (requeue ord xs)"
proof -
  let ?t = "takeWhile (\<lambda>x. bo_price x = bo_price ord) xs" and ?d = "dropWhile (\<lambda>x. bo_price x = bo_price ord) xs"
  have "ranked sd (?t @ ?d)"
    using r by simp
  moreover have "rank sd x < rank sd ord" if "x \<in> set ?t" for x
    using set_takeWhileD [OF that] assms(3) by (auto simp: rank_less_iff)
  moreover have "rank sd ord < rank sd x" if "x \<in> set ?d" for x
    using ranked_dropWhile_price [OF r assms(2) that] by (auto simp: rank_less_iff)
  ultimately show ?thesis
    unfolding requeue_def by (auto simp: sorted_wrt_append intro: less_trans [of _ "rank sd ord"])
qed

lemma book_orders_fill:
  assumes inv: "book_inv b" and fill: "after_fill b ord q b'" and v: "book_orders b sd = ord # xs"
  shows "book_orders b' sd = fill_head ord q (next_priority b) xs"
proof (rule book_orders_eqI)
  let ?new = "filled_order ord q (next_priority b)"
  have r: "ranked sd (ord # xs)" and set: "side_orders b sd = insert ord (set xs)"
    using book_orders_ranked [OF inv, of sd] book_orders_set [OF inv, of sd] v by auto
  then have "ord \<notin> set xs"
    using ranked_distinct [OF r] by simp
  then show "set (fill_head ord q (next_priority b) xs) = side_orders b' sd"
    using side_orders_fill(1) [OF fill, of sd] set by (auto simp: fill_head_def)
  have "ranked sd (?new # xs)" if "q < visible ord"
    using r that by (auto simp: rank_less_iff)
  moreover have "ranked sd (requeue ?new xs)" if "visible ord \<le> q"
  proof (rule ranked_requeue)
    show "\<forall>x \<in> set xs. price_rank sd (bo_price ?new) \<le> price_rank sd (bo_price x)"
      using r by (auto simp: rank_less_iff)
    show "\<forall>x \<in> set xs. priority x < priority ?new"
      using side_ordersD(4) [OF inv, of _ sd] set that by auto
  qed (use r in simp)
  ultimately show "ranked sd (fill_head ord q (next_priority b) xs)"
    using r by (auto simp: fill_head_def)
  show "book_inv b'"
    using fill by (simp add: after_fill_def)
qed

text \<open>A fill moves the volume of every price set that holds the order's price.\<close>

lemma volume_fill:
  assumes inv: "book_inv b" and fill: "after_fill b ord q b'" and ord: "ord \<in> side_orders b sd"
  shows "volume b' sd P = volume b sd P - (if P (bo_price ord) then q else 0)"
    and "volume b' (opposite sd) P = volume b (opposite sd) P"
proof -
  let ?g = "\<lambda>ord. if P (bo_price ord) then remaining ord else 0"
  let ?new = "filled_order ord q (next_priority b)"
  have inv': "book_inv b'"
    using fill by (simp add: after_fill_def)
  have fin: "finite (side_orders b sd)"
    using finite_side_orders [OF inv] .
  have "?new \<notin> side_orders b sd - {ord}"
    using side_ordersD(1) [OF inv ord] by (auto simp: side_orders_def)
  then show "volume b' sd P = volume b sd P - (if P (bo_price ord) then q else 0)"
    using fin ord by (auto simp: volume_sum [OF inv] volume_sum [OF inv'] side_orders_fill(1) [OF fill ord] sum_diff1)
  show "volume b' (opposite sd) P = volume b (opposite sd) P"
    by (simp add: volume_sum [OF inv] volume_sum [OF inv'] side_orders_fill(2) [OF fill ord])
qed

subsection \<open>The matching rules\<close>

text \<open>
  \<open>matching taker limit xs n q ms r ys n'\<close>: an aggressor of \<open>q\<close> lots against the
  opposite side \<open>xs\<close> makes the executions \<open>ms\<close>, keeps \<open>r\<close> lots and leaves \<open>ys\<close>,
  while the priority sequence moves from \<open>n\<close> to \<open>n'\<close>.
\<close>

inductive matching ::
    "side \<Rightarrow> price_ticks option \<Rightarrow> book_order list \<Rightarrow> nat \<Rightarrow> quantity_lots \<Rightarrow>
     book_match list \<Rightarrow> quantity_lots \<Rightarrow> book_order list \<Rightarrow> nat \<Rightarrow> bool"
  for taker limit where
  filled: "matching taker limit xs n 0 [] 0 xs n"
| exhausted: "0 < q \<Longrightarrow> matching taker limit [] n q [] q [] n"
| no_cross: "0 < q \<Longrightarrow> \<not> within_limit taker limit (bo_price mk) \<Longrightarrow>
    matching taker limit (mk # xs) n q [] q (mk # xs) n"
| trade: "0 < q \<Longrightarrow> within_limit taker limit (bo_price mk) \<Longrightarrow> fill = min q (visible mk) \<Longrightarrow>
    matching taker limit (fill_head mk fill n xs) (n + (if refreshes mk fill then 1 else 0)) (q - fill) ms r ys n' \<Longrightarrow>
    matching taker limit (mk # xs) n q
      (\<lparr>maker = bo_order_id mk, match_price = bo_price mk, match_quantity = fill,
        maker_remaining = remaining mk - fill\<rparr> # ms) r ys n'"

inductive_cases matching_NilE: "matching taker limit [] n q ms r ys n'"
inductive_cases matching_ConsE: "matching taker limit (mk # xs) n q ms r ys n'"

lemma matching_deterministic:
  assumes "matching taker limit xs n q ms r ys n'" and "matching taker limit xs n q ms' r' ys' n''"
  shows "ms' = ms \<and> r' = r \<and> ys' = ys \<and> n'' = n'"
  using assms
proof (induction arbitrary: ms' r' ys' n'' rule: matching.induct)
  case (filled xs n)
  then show ?case by (cases xs) (auto elim: matching_NilE matching_ConsE)
next
  case (exhausted q n)
  then show ?case by (auto elim: matching_NilE)
next
  case (no_cross q mk xs n)
  then show ?case by (auto elim: matching_ConsE)
next
  case (trade q mk fill n xs ms r ys n')
  from trade.prems show ?case
  proof (rule matching_ConsE, goal_cases)
    case (3 ms'')
    then show ?case
      using trade.hyps(3) trade.IH [of ms'' r' ys' n''] by simp
  qed (use trade.hyps in simp_all)
qed

subsection \<open>Execution implements the rules\<close>

lemma fill_resting_overflow:
  assumes inv: "book_inv b" and get: "bt_get (orders b) (bo_order_id ord) = Some ord"
    and "0 < q" and "refreshes ord q" and seq: "\<not> Suc (next_priority b) < 2 ^ 64"
  shows "fill_resting b ord q = Err BookOverflow"
proof -
  obtain b1 where "book_remove b (bo_order_id ord) = Ok b1" "next_priority b1 = next_priority b"
    using book_remove_inv [OF inv get] .
  moreover have "i64_checked_sub (remaining ord) q = Some (remaining ord - q)"
    using assms(3,4) order_okD(3,4) [OF book_invD(5) [OF inv get]]
    by (auto simp: i64_checked_sub_def refreshes_def in_i64_def checked_i64_def)
  ultimately show ?thesis
    using seq assms(4)
    by (simp add: fill_resting_def take_priority_def refreshes_def u64_checked_add_def checked_u64_def)
qed

lemma execute_step:
  assumes inv: "book_inv b" and v: "book_orders b sd = mk # xs" and q: "0 < q" "in_i64 q"
  defines "fill \<equiv> min q (visible mk)"
  shows "refreshes mk fill \<and> \<not> Suc (next_priority b) < 2 ^ 64 \<and> execute_one b sd (bo_price mk) q = Err BookOverflow \<or>
    (\<exists>b'. after_fill b mk fill b' \<and> execute_one b sd (bo_price mk) q =
      Ok (\<lparr>maker = bo_order_id mk, match_price = bo_price mk, match_quantity = fill,
           maker_remaining = remaining mk - fill\<rparr>, q - fill, b'))"
proof -
  have head: "level_head b sd (bo_price mk) = Some (bo_order_id mk)"
    and get: "bt_get (orders b) (bo_order_id mk) = Some mk"
    using view_head(2) [OF inv, of sd "bo_price mk"] v by (auto simp: best_view [OF inv])
  have fill: "0 < fill" "fill \<le> remaining mk"
    using q order_okD(1,2) [OF book_invD(5) [OF inv get]] by (auto simp: fill_def)
  note one = execute_one_fill_resting [OF inv head get q, folded fill_def]
  show ?thesis
  proof (cases "refreshes mk fill \<and> \<not> Suc (next_priority b) < 2 ^ 64")
    case True
    then show ?thesis
      using fill_resting_overflow [OF inv get fill(1)] by (simp add: one)
  next
    case False
    then obtain b' where "fill_resting b mk fill = Ok (remaining mk - fill, b')" "after_fill b mk fill b'"
      using fill_resting_spec [OF inv get fill] by blast
    then show ?thesis
      by (auto simp: one)
  qed
qed

lemma execute_loop_spec:
  assumes "book_inv b" and "0 \<le> q" and "in_i64 q"
  shows "case execute_loop b taker limit q of
      Inl e \<Rightarrow> e = BookOverflow \<and> 2 ^ 64 \<le> next_priority b + nat q
    | Inr (ms, r, b') \<Rightarrow> book_inv b' \<and> book_orders b' taker = book_orders b taker \<and>
        matching taker limit (book_orders b (opposite taker)) (next_priority b) q ms r
          (book_orders b' (opposite taker)) (next_priority b')"
  using assms
proof (induction "nat q" arbitrary: b q rule: less_induct)
  case less
  let ?sd = "opposite taker"
  show ?case
  proof (cases "0 < q \<and> (\<exists>mk xs. book_orders b ?sd = mk # xs \<and> within_limit taker limit (bo_price mk))")
    case False
    then show ?thesis
      using less.prems best_view [OF less.prems(1), of ?sd]
      by (subst execute_loop.simps)
        (auto split: option.splits list.splits intro: matching.filled matching.exhausted matching.no_cross)
  next
    case True
    then obtain mk xs where q: "0 < q" and v: "book_orders b ?sd = mk # xs"
      and lim: "within_limit taker limit (bo_price mk)"
      by auto
    define fill where "fill = min q (visible mk)"
    have mk: "mk \<in> side_orders b ?sd"
      using book_orders_set [OF less.prems(1), of ?sd] v by auto
    then have fill: "0 < fill" "fill \<le> q"
      using q order_okD(1) [OF side_orders_ok [OF less.prems(1)]] by (auto simp: fill_def)
    have loop: "execute_loop b taker limit q =
        attempt (execute_one b ?sd (bo_price mk) q) (\<lambda>(m, q', b').
        attempt (execute_loop b' taker limit q') (\<lambda>(ms, r, b''). Ok (m # ms, r, b'')))"
      using q lim v best_view [OF less.prems(1), of ?sd] by (subst execute_loop.simps) simp
    from execute_step [OF less.prems(1) v q less.prems(3)] consider
      (stop) "\<not> Suc (next_priority b) < 2 ^ 64" "execute_one b ?sd (bo_price mk) q = Err BookOverflow"
      | (go) b' where "after_fill b mk fill b'"
        "execute_one b ?sd (bo_price mk) q = Ok (\<lparr>maker = bo_order_id mk, match_price = bo_price mk,
          match_quantity = fill, maker_remaining = remaining mk - fill\<rparr>, q - fill, b')"
      unfolding fill_def by auto
    then show ?thesis
    proof cases
      case stop
      then show ?thesis
        using loop q by simp
    next
      case go
      have inv': "book_inv b'" and n': "next_priority b' = next_priority b + (if refreshes mk fill then 1 else 0)"
        using go(1) by (auto simp: after_fill_def)
      have own: "book_orders b' taker = book_orders b taker"
        using book_orders_other_side [OF less.prems(1) go(1) mk] by simp
      have "in_i64 (q - fill)"
        using fill less.prems by (auto simp: in_i64_def)
      then have IH: "case execute_loop b' taker limit (q - fill) of
          Inl e \<Rightarrow> e = BookOverflow \<and> 2 ^ 64 \<le> next_priority b' + nat (q - fill)
        | Inr (ms, r, b'') \<Rightarrow> book_inv b'' \<and> book_orders b'' taker = book_orders b' taker \<and>
            matching taker limit (book_orders b' ?sd) (next_priority b') (q - fill) ms r
              (book_orders b'' ?sd) (next_priority b'')"
        using less.hyps [of "q - fill" b'] inv' fill by simp
      have "next_priority b' + nat (q - fill) \<le> next_priority b + nat q"
        using fill n' by auto
      then show ?thesis
        using IH loop go(2) own v n' book_orders_fill [OF less.prems(1) go(1) v]
          matching.trade [OF q lim fill_def]
        by (auto split: sum.splits)
    qed
  qed
qed

subsection \<open>What the rules guarantee\<close>

text \<open>The quantity of a list of orders at the prices selected by \<open>P\<close>.\<close>

definition list_volume :: "book_order list \<Rightarrow> (price_ticks \<Rightarrow> bool) \<Rightarrow> int" where
  "list_volume xs P = (\<Sum>ord \<leftarrow> xs. if P (bo_price ord) then remaining ord else 0)"

lemma volume_list: "volume b sd P = list_volume (book_orders b sd) P"
  by (simp add: volume_def list_volume_def)

lemma list_volume_simps [simp]:
  "list_volume [] P = 0"
  "list_volume (x # xs) P = (if P (bo_price x) then remaining x else 0) + list_volume xs P"
  "list_volume (xs @ ys) P = list_volume xs P + list_volume ys P"
  by (simp_all add: list_volume_def)

lemma list_volume_requeue:
  "list_volume (requeue ord xs) P = (if P (bo_price ord) then remaining ord else 0) + list_volume xs P"
proof -
  let ?p = "\<lambda>x. bo_price x = bo_price ord"
  have "list_volume (takeWhile ?p xs) P + list_volume (dropWhile ?p xs) P = list_volume xs P"
    by (simp flip: list_volume_simps(3))
  then show ?thesis
    by (simp add: requeue_def)
qed

lemma list_volume_fill_head:
  "list_volume (fill_head mk q n xs) P = list_volume (mk # xs) P - (if P (bo_price mk) then q else 0)"
  by (simp add: fill_head_def list_volume_requeue)

lemma fill_head_ok:
  assumes "\<forall>x \<in> set (mk # xs). order_ok x" and "0 < q" and "q \<le> remaining mk"
  shows "\<forall>x \<in> set (fill_head mk q n xs). order_ok x"
  using assms order_ok_filled [of mk q n] by (auto simp: fill_head_def)

lemma fill_head_prices:
  assumes "sorted (map (\<lambda>x. price_rank sd (bo_price x)) (mk # xs))"
  shows "sorted (map (\<lambda>x. price_rank sd (bo_price x)) (fill_head mk q n xs))"
    and "x \<in> set (fill_head mk q n xs) \<Longrightarrow> price_rank sd (bo_price mk) \<le> price_rank sd (bo_price x)"
proof -
  let ?f = "\<lambda>x. price_rank sd (bo_price x)" and ?p = "\<lambda>x. bo_price x = bo_price mk"
  have "sorted (map ?f (takeWhile ?p xs @ dropWhile ?p xs))"
    using assms by (simp del: map_append)
  then have "sorted (map ?f (takeWhile ?p xs))" "sorted (map ?f (dropWhile ?p xs))"
    by (simp_all only: map_append sorted_append)
  moreover have "\<forall>x \<in> set (takeWhile ?p xs). ?f x \<le> ?f mk"
    by (auto dest: set_takeWhileD)
  moreover have "\<forall>x \<in> set (dropWhile ?p xs). ?f mk \<le> ?f x"
    using assms by (auto dest: set_dropWhileD)
  ultimately have "sorted (map ?f (requeue (filled_order mk q n) xs))"
    by (auto simp: requeue_def sorted_append intro: order_trans [of _ "?f mk"])
  then show "sorted (map ?f (fill_head mk q n xs))"
    using assms by (simp add: fill_head_def)
  show "?f mk \<le> ?f x" if "x \<in> set (fill_head mk q n xs)"
    using assms that by (auto simp: fill_head_def split: if_splits)
qed

lemma matching_quantities:
  assumes "matching taker limit xs n q ms r ys n'" and "\<forall>x \<in> set xs. order_ok x" and "0 \<le> q"
  shows "0 \<le> r \<and> (\<Sum>m \<leftarrow> ms. match_quantity m) = q - r \<and>
    list_volume ys (within_limit taker limit) = list_volume xs (within_limit taker limit) - (q - r) \<and>
    (\<forall>m \<in> set ms. 0 < match_quantity m \<and> 0 \<le> maker_remaining m \<and> within_limit taker limit (match_price m)) \<and>
    (r = 0 \<or> (case ys of [] \<Rightarrow> True | y # _ \<Rightarrow> \<not> within_limit taker limit (bo_price y))) \<and>
    (\<forall>y \<in> set ys. order_ok y)"
  using assms
proof (induction rule: matching.induct)
  case (trade q mk fill n xs ms r ys n')
  have fill: "0 < fill" "fill \<le> remaining mk" "fill \<le> q"
    using trade.hyps(1,3) trade.prems(1) order_okD(1,2) [of mk] by auto
  then show ?case
    using trade.IH fill_head_ok [OF trade.prems(1) fill(1,2)] trade.hyps(2)
    by (simp add: list_volume_fill_head)
qed auto

lemma matching_prices:
  assumes "matching taker limit xs n q ms r ys n'"
    and "sorted (map (\<lambda>x. price_rank (opposite taker) (bo_price x)) xs)"
  shows "sorted (map (\<lambda>m. price_rank (opposite taker) (match_price m)) ms) \<and>
    (\<forall>m \<in> set ms. \<forall>k. (\<forall>x \<in> set xs. k \<le> price_rank (opposite taker) (bo_price x)) \<longrightarrow>
       k \<le> price_rank (opposite taker) (match_price m))"
  using assms
proof (induction rule: matching.induct)
  case (trade q mk fill n xs ms r ys n')
  note prices = fill_head_prices [OF trade.prems, where q = fill and n = n]
  have IH: "sorted (map (\<lambda>m. price_rank (opposite taker) (match_price m)) ms)"
    "\<And>m k. m \<in> set ms \<Longrightarrow> (\<forall>x \<in> set (fill_head mk fill n xs). k \<le> price_rank (opposite taker) (bo_price x)) \<Longrightarrow>
       k \<le> price_rank (opposite taker) (match_price m)"
    using trade.IH [OF prices(1)] by auto
  have low: "price_rank (opposite taker) (bo_price mk) \<le> price_rank (opposite taker) (match_price m)"
    if "m \<in> set ms" for m
    using IH(2) [OF that] prices(2) by blast
  show ?case
    using IH(1) low by (auto intro: order_trans)
qed auto

subsection \<open>Fill-or-kill feasibility\<close>

lemma takeWhile_filter_sorted:
  assumes "sorted_wrt R xs" and "\<And>x y. R x y \<Longrightarrow> P y \<Longrightarrow> P x"
  shows "takeWhile P xs = filter P xs"
  using assms(1)
proof (induction xs)
  case (Cons x xs)
  have "filter P xs = []" if "\<not> P x"
    using Cons.prems that assms(2) by (auto simp: filter_empty_conv)
  then show ?case
    using Cons by simp
qed simp

lemma saturating_fold:
  assumes "0 \<le> acc" and "acc < 2 ^ 63" and "\<forall>(p, lv) \<in> set ls. 0 \<le> level_total lv"
  shows "foldl (\<lambda>acc (_, lv). case i64_checked_add acc (level_total lv) of None \<Rightarrow> 2 ^ 63 - 1 | Some v \<Rightarrow> v) acc ls
    = min (2 ^ 63 - 1) (acc + (\<Sum>(p, lv) \<leftarrow> ls. level_total lv))"
  using assms
proof (induction ls arbitrary: acc)
  case (Cons e ls)
  obtain p lv where e: "e = (p, lv)" by (cases e)
  have nonneg: "0 \<le> level_total lv" "0 \<le> (\<Sum>(p, lv) \<leftarrow> ls. level_total lv)"
    using Cons.prems(3) e by (auto intro!: sum_list_nonneg)
  show ?case
    using Cons nonneg e
    by (auto simp: i64_checked_add_def checked_i64_def in_i64_def split: option.splits)
qed simp

lemma executable_volume:
  assumes "book_inv b"
  shows "executable b taker limit = min (2 ^ 63 - 1) (volume b (opposite taker) (within_limit taker limit))"
proof -
  let ?ls = "best_first b (opposite taker)" and ?P = "\<lambda>(p, lv). within_limit taker limit p"
  have "takeWhile ?P ?ls = filter ?P ?ls"
    using best_first_ranked [OF assms]
    by (rule takeWhile_filter_sorted) (auto intro: within_limit_mono)
  moreover have "0 \<le> level_total lv" if "(p, lv) \<in> set (best_first b (opposite taker))" for p lv
  proof -
    have "level_inv (orders b) (opposite taker) p lv"
      using that book_invD(1,8) [OF assms] by (simp add: bt_get_mem)
    then show ?thesis
      using level_sum_nonneg [OF book_invD(2) [OF assms], of remaining] order_okD(3) [OF book_invD(5) [OF assms]]
      by (force simp: level_inv_def)
  qed
  moreover have "(\<Sum>(p, lv) \<leftarrow> filter ?P ?ls. level_total lv) = volume b (opposite taker) (within_limit taker limit)"
    using level_totals_volume [OF assms, where sd = "opposite taker" and P = "within_limit taker limit"]
    by (simp add: sum_list_map_filter' case_prod_unfold)
  ultimately show ?thesis
    unfolding executable_def by (subst saturating_fold) auto
qed

subsection \<open>Resting and cancelling\<close>

definition new_order ::
    "order_id \<Rightarrow> side \<Rightarrow> price_ticks \<Rightarrow> quantity_lots \<Rightarrow> quantity_lots option \<Rightarrow> nat \<Rightarrow> book_order" where
  "new_order i sd p q disp n =
     \<lparr>bo_order_id = i, bo_side = sd, bo_price = p, remaining = q,
      visible = (case disp of None \<Rightarrow> q | Some peak \<Rightarrow> peak), display = disp, priority = n\<rparr>"

definition rest_valid :: "price_ticks \<Rightarrow> quantity_lots \<Rightarrow> quantity_lots option \<Rightarrow> bool" where
  "rest_valid p q disp \<longleftrightarrow> 0 < q \<and> 0 < p \<and> (case disp of None \<Rightarrow> True | Some peak \<Rightarrow> 0 < peak \<and> peak \<le> q)"

lemma new_order_proj [simp]:
  "bo_order_id (new_order i sd p q disp n) = i" "bo_side (new_order i sd p q disp n) = sd"
  "bo_price (new_order i sd p q disp n) = p" "remaining (new_order i sd p q disp n) = q"
  "priority (new_order i sd p q disp n) = n"
  by (simp_all add: new_order_def)

lemma rest_new_order:
  "rest b i sd p q disp =
     (if \<not> rest_valid p q disp then Err InvalidOrder
      else if book_contains b i then Err DuplicateOrder
      else attempt (take_priority b) (\<lambda>(pr, b1). book_insert b1 (new_order i sd p q disp pr)))"
  by (auto simp: rest_def rest_valid_def new_order_def split: option.splits)

lemma order_ok_new: "rest_valid p q disp \<Longrightarrow> in_i64 p \<Longrightarrow> in_i64 q \<Longrightarrow> order_ok (new_order i sd p q disp n)"
  by (auto simp: rest_valid_def new_order_def order_ok_def split: option.splits)

lemma rest_OkD:
  assumes inv: "book_inv b" and range: "in_i64 p" "in_i64 q" and rest: "rest b i sd p q disp = Ok b'"
  shows "book_inv b'" and "orders b' = bt_insert i (new_order i sd p q disp (next_priority b)) (orders b)"
    and "next_priority b' = Suc (next_priority b)" and "bt_get (orders b) i = None" and "rest_valid p q disp"
proof -
  let ?b1 = "b\<lparr>next_priority := Suc (next_priority b)\<rparr>" and ?o = "new_order i sd p q disp (next_priority b)"
  have valid: "rest_valid p q disp" and seq: "Suc (next_priority b) < 2 ^ 64"
    and ins: "book_insert ?b1 ?o = Ok b'"
    using rest by (auto simp: rest_new_order result_simps split: if_splits)
  have "book_inv ?b1"
    using book_inv_next_priority [OF inv _ seq] by simp
  then show "book_inv b'"
    using book_insert_inv [OF _ ins order_ok_new [OF valid range]] by simp
  show "orders b' = bt_insert i ?o (orders b)" "next_priority b' = Suc (next_priority b)"
    "bt_get (orders b) i = None" "rest_valid p q disp"
    using book_insert_proj [OF ins] valid by simp_all
qed

lemma rest_succeeds:
  assumes inv: "book_inv b" and range: "in_i64 p" "in_i64 q" and valid: "rest_valid p q disp"
    and new: "bt_get (orders b) i = None" and seq: "Suc (next_priority b) < 2 ^ 64"
    and fits: "in_i64 (volume b sd (\<lambda>x. x = p) + q)"
  obtains b' where "rest b i sd p q disp = Ok b'"
proof -
  let ?b1 = "b\<lparr>next_priority := Suc (next_priority b)\<rparr>" and ?o = "new_order i sd p q disp (next_priority b)"
  have inv1: "book_inv ?b1"
    using book_inv_next_priority [OF inv _ seq] by simp
  have total: "level_sum remaining (orders b) sd p = volume b sd (\<lambda>x. x = p)"
  proof (cases "bt_get (book_side b sd) p")
    case None
    then show ?thesis
      using level_exists_iff [OF inv, of sd p] level_sum_zero [OF book_invD(2) [OF inv], of sd p remaining]
        volume_zero_iff [OF inv, of sd "\<lambda>x. x = p"]
      by (fastforce simp: side_orders_def at_level_def)
  next
    case (Some lv)
    have "(\<Sum>(x, l) \<leftarrow> book_side b sd. if x = p then level_total l else 0) = level_total lv"
      using bt.sum_entries [OF book_invD(1) [OF inv, of sd], of "\<lambda>x l. if x = p then level_total l else 0"]
        bt.finite_dom_get [OF book_invD(1) [OF inv, of sd]] Some
      by (auto simp: sum.delta split: if_splits)
    then show ?thesis
      using level_totals_volume [OF inv, where sd = sd and P = "\<lambda>x. x = p"] book_invD(8) [OF inv Some]
      by (cases sd) (auto simp: best_first_def book_side_def level_inv_def sum_list_rev simp flip: rev_map)
  qed
  obtain b' where "book_insert ?b1 ?o = Ok b'"
  proof (rule book_insert_succeeds [OF inv1 order_ok_new [OF valid range], of i sd "next_priority b"])
    show "bt_get (orders ?b1) (bo_order_id ?o) = None"
      using new by simp
    show "priority x \<noteq> priority ?o" if "bt_get (orders ?b1) j = Some x" for j x
      using book_invD(6) [OF inv, of j x] that by simp
    show "in_i64 (level_sum remaining (orders ?b1) (bo_side ?o) (bo_price ?o) + remaining ?o)"
      using fits total by simp
  qed
  moreover have "take_priority b = Ok (next_priority b, ?b1)"
    using seq by (simp add: result_simps)
  ultimately show ?thesis
    using that valid new by (simp add: rest_new_order book_contains_def)
qed

lemma side_orders_rest:
  assumes inv: "book_inv b" and range: "in_i64 p" "in_i64 q" and rest: "rest b i sd p q disp = Ok b'"
  shows "side_orders b' sd = insert (new_order i sd p q disp (next_priority b)) (side_orders b sd)"
    and "side_orders b' (opposite sd) = side_orders b (opposite sd)"
proof -
  define new where "new = new_order i sd p q disp (next_priority b)"
  have new: "bo_order_id new = i" "bo_side new = sd"
    by (simp_all add: new_def)
  have os: "bt_get (orders b') j = (if j = i then Some new else bt_get (orders b) j)" for j
    using rest_OkD(2) [OF assms] by (simp add: new_def)
  have "x \<in> side_orders b' sd \<longleftrightarrow> x = new \<or> x \<in> side_orders b sd" for x
    using new os [of "bo_order_id x"] rest_OkD(4) [OF assms]
    by (cases "bo_order_id x = i") (auto simp: side_orders_def)
  then show "side_orders b' sd = insert (new_order i sd p q disp (next_priority b)) (side_orders b sd)"
    unfolding new_def by (intro set_eqI) simp
  have "bo_side new \<noteq> opposite sd"
    by (simp add: new)
  then have "x \<in> side_orders b' (opposite sd) \<longleftrightarrow> x \<in> side_orders b (opposite sd)" for x
    using os [of "bo_order_id x"] rest_OkD(4) [OF assms]
    by (cases "bo_order_id x = i") (auto simp: side_orders_def)
  then show "side_orders b' (opposite sd) = side_orders b (opposite sd)"
    by blast
qed

lemma cancel_spec:
  assumes inv: "book_inv b"
  shows "case cancel b i of
      None \<Rightarrow> bt_get (orders b) i = None
    | Some (ord, b') \<Rightarrow> bt_get (orders b) i = Some ord \<and> book_inv b' \<and>
        orders b' = bt_remove i (orders b) \<and> next_priority b' = next_priority b"
proof (cases "bt_get (orders b) i")
  case (Some ord)
  obtain b' where "book_remove b i = Ok b'" "book_inv b'" "orders b' = bt_remove i (orders b)"
    "next_priority b' = next_priority b"
    using book_remove_inv [OF inv Some] .
  then show ?thesis
    using Some by (simp add: cancel_def)
qed (simp add: cancel_def)

end
