(* ===== verification/Book_Continuous.thy ===== *)
theory Book_Continuous
  imports Book_Matching
begin

text \<open>
  The contract of continuous trading: \<open>execute\<close>, \<open>rest\<close>, \<open>cancel\<close> and the
  fill-or-kill test \<open>executable\<close>, stated on the book operations alone, with a small
  book of four orders as the running example.
\<close>

subsection \<open>Example book\<close>

definition ex_book :: book where
  "ex_book =
     \<lparr>bids = [(99, \<lparr>queue = [(3, 4)], level_visible = 6, level_total = 6\<rparr>)],
      asks = [(101, \<lparr>queue = [(0, 1), (1, 2)], level_visible = 9, level_total = 15\<rparr>),
              (103, \<lparr>queue = [(2, 3)], level_visible = 7, level_total = 7\<rparr>)],
      orders = [(1, new_order 1 Sell 101 10 (Some 4) 0), (2, new_order 2 Sell 101 5 None 1),
                (3, new_order 3 Sell 103 7 None 2), (4, new_order 4 Buy 99 6 None 3)],
      next_priority = 4\<rparr>"

lemmas book_eval =
  rest_def book_contains_def take_priority_def book_insert_def book_remove_def book_side_def set_book_side_def
  default_level_def i64_checked_add_def i64_checked_sub_def u64_checked_add_def checked_i64_def checked_u64_def
  in_i64_def bt_insert_def bt_remove_def new_order_def book_new_def Let_def

text \<open>Example books are built by resting orders, so that their invariant needs no separate proof.\<close>

fun rest_all ::
    "book \<Rightarrow> (order_id \<times> side \<times> price_ticks \<times> quantity_lots \<times> quantity_lots option) list \<Rightarrow> (book, book_error) result" where
  "rest_all b [] = Ok b"
| "rest_all b ((i, sd, p, q, disp) # os) = attempt (rest b i sd p q disp) (\<lambda>b'. rest_all b' os)"

lemma rest_all_inv:
  "rest_all b os = Ok b' \<Longrightarrow> book_inv b \<Longrightarrow> \<forall>(i, sd, p, q, disp) \<in> set os. in_i64 p \<and> in_i64 q \<Longrightarrow> book_inv b'"
  by (induction b os rule: rest_all.induct) (auto simp: result_simps dest: rest_OkD(1))

lemma ex_book_inv: "book_inv ex_book"
proof (rule rest_all_inv)
  show "rest_all book_new
      [(1, Sell, 101, 10, Some 4), (2, Sell, 101, 5, None), (3, Sell, 103, 7, None), (4, Buy, 99, 6, None)] = Ok ex_book"
    by (simp add: book_eval ex_book_def)
qed (simp_all add: book_inv_new in_i64_def)

definition ex_swept :: book where
  "ex_swept =
     \<lparr>bids = [(99, \<lparr>queue = [(3, 4)], level_visible = 6, level_total = 6\<rparr>)],
      asks = [(101, \<lparr>queue = [(4, 1)], level_visible = 3, level_total = 5\<rparr>),
              (103, \<lparr>queue = [(2, 3)], level_visible = 7, level_total = 7\<rparr>)],
      orders = [(1, \<lparr>bo_order_id = 1, bo_side = Sell, bo_price = 101, remaining = 5, visible = 3,
                     display = Some 4, priority = 4\<rparr>),
                (3, new_order 3 Sell 103 7 None 2), (4, new_order 4 Buy 99 6 None 3)],
      next_priority = 5\<rparr>"

text \<open>Ten lots take the iceberg's displayed slice, then the order behind it, then the refreshed slice.\<close>

definition ex_matches :: "book_match list" where
  "ex_matches =
     [\<lparr>maker = 1, match_price = 101, match_quantity = 4, maker_remaining = 6\<rparr>,
      \<lparr>maker = 2, match_price = 101, match_quantity = 5, maker_remaining = 0\<rparr>,
      \<lparr>maker = 1, match_price = 101, match_quantity = 1, maker_remaining = 5\<rparr>]"

lemma ex_execute: "execute ex_book Buy (Some 102) 10 = Ok (ex_matches, 0, ex_swept)"
  by (simp add: execute_def execute_loop.simps execute_one_def level_head_def best_def within_limit_def
      refresh_slice_def bt_first_def bt_last_def book_eval ex_book_def ex_swept_def ex_matches_def)

subsection \<open>Execution\<close>

lemma execute_OkD:
  assumes "book_inv b" and "in_i64 q" and "execute b taker limit q = Ok (ms, r, b')"
  shows "0 < q" and "book_inv b'" and "book_orders b' taker = book_orders b taker"
    and "matching taker limit (book_orders b (opposite taker)) (next_priority b) q ms r
      (book_orders b' (opposite taker)) (next_priority b')"
proof -
  have "0 < q" and loop: "execute_loop b taker limit q = Ok (ms, r, b')"
    using assms(3) by (auto simp: execute_def split: if_splits)
  then show "0 < q" and "book_inv b'" and "book_orders b' taker = book_orders b taker"
    and "matching taker limit (book_orders b (opposite taker)) (next_priority b) q ms r
      (book_orders b' (opposite taker)) (next_priority b')"
    using execute_loop_spec [OF assms(1) _ assms(2), of taker limit] by (simp_all add: loop)
qed

lemma execute_quantities:
  assumes "book_inv b" and "in_i64 q" and "execute b taker limit q = Ok (ms, r, b')"
  shows "0 \<le> r" and "(\<Sum>m \<leftarrow> ms. match_quantity m) = q - r"
    and "volume b' (opposite taker) (within_limit taker limit)
      = volume b (opposite taker) (within_limit taker limit) - (q - r)"
    and "\<forall>m \<in> set ms. 0 < match_quantity m \<and> 0 \<le> maker_remaining m \<and> within_limit taker limit (match_price m)"
    and "r = 0 \<or> (case book_orders b' (opposite taker) of [] \<Rightarrow> True | y # _ \<Rightarrow> \<not> within_limit taker limit (bo_price y))"
proof -
  have ok: "\<forall>x \<in> set (book_orders b (opposite taker)). order_ok x"
    using side_orders_ok [OF assms(1)] book_orders_set [OF assms(1)] by auto
  note facts = matching_quantities [OF execute_OkD(4) [OF assms] ok order_less_imp_le [OF execute_OkD(1) [OF assms]]]
  show "0 \<le> r" and "(\<Sum>m \<leftarrow> ms. match_quantity m) = q - r"
    and "volume b' (opposite taker) (within_limit taker limit)
      = volume b (opposite taker) (within_limit taker limit) - (q - r)"
    and "\<forall>m \<in> set ms. 0 < match_quantity m \<and> 0 \<le> maker_remaining m \<and> within_limit taker limit (match_price m)"
    and "r = 0 \<or> (case book_orders b' (opposite taker) of [] \<Rightarrow> True | y # _ \<Rightarrow> \<not> within_limit taker limit (bo_price y))"
    using facts by (simp_all add: volume_list)
qed

text \<open>
  C29. Execution implements the price-time rules. On a well-formed book a successful
  \<open>execute\<close> yields exactly the matches, remainder, opposite side and priority
  sequence that the relation \<open>matching\<close> prescribes for the orders in matching
  priority (and the relation is deterministic), leaves the aggressor's own side alone
  and keeps the book well formed.
\<close>

theorem execute_refines_matching:
  assumes "book_inv b" and "in_i64 q" and "execute b taker limit q = Ok (ms, r, b')"
  shows "book_inv b' \<and> book_orders b' taker = book_orders b taker \<and>
    (\<forall>ms' r' ys n'.
       matching taker limit (book_orders b (opposite taker)) (next_priority b) q ms' r' ys n' \<longleftrightarrow>
       ms' = ms \<and> r' = r \<and> ys = book_orders b' (opposite taker) \<and> n' = next_priority b')"
  using execute_OkD [OF assms] matching_deterministic [OF execute_OkD(4) [OF assms]] by blast

theorem execute_refines_matching_witness:
  "book_inv ex_swept \<and> book_orders ex_swept Buy = book_orders ex_book Buy \<and>
   matching Buy (Some 102) (book_orders ex_book Sell) 4 10 ex_matches 0 (book_orders ex_swept Sell) 5"
proof -
  have "in_i64 10"
    by (simp add: in_i64_def)
  from execute_refines_matching [OF ex_book_inv this ex_execute] show ?thesis
    by (simp add: ex_book_def ex_swept_def)
qed

text \<open>
  Execution never fails half-way. On a well-formed book a positive 64-bit quantity
  is matched to the end unless the 64-bit priority sequence could run out on the way,
  and each lot uses up at most one priority; the internal errors of the loop (a level
  without a head, a queue entry without an order, an overflowing aggregate, a
  duplicate on reinsertion) cannot occur.
\<close>

theorem execute_succeeds:
  assumes "book_inv b" and "0 < q" and "in_i64 q" and "next_priority b + nat q < 2 ^ 64"
  shows "\<exists>ms r b'. execute b taker limit q = Ok (ms, r, b') \<and> book_inv b'"
  using execute_loop_spec [OF assms(1) _ assms(3), of taker limit] assms(2,4)
  by (auto simp: execute_def split: sum.splits)

theorem execute_succeeds_witness: "\<exists>ms r b'. execute ex_book Sell None 1000 = Ok (ms, r, b') \<and> book_inv b'"
proof -
  have "in_i64 1000" and "next_priority ex_book + nat 1000 < 2 ^ 64"
    by (simp_all add: in_i64_def ex_book_def)
  then show ?thesis
    using execute_succeeds [OF ex_book_inv, of 1000] by simp
qed

text \<open>
  Execution fills as much as the fill-or-kill test promises. The executed
  quantities are positive and add up to the aggressor's quantity less the remainder,
  and the remainder is exactly what exceeds \<open>executable\<close>: an order for at most
  \<open>executable\<close> lots is filled completely, hidden quantity included, and a larger one
  takes everything within its limit.
\<close>

theorem execute_fills_executable:
  assumes "book_inv b" and "in_i64 q" and "execute b taker limit q = Ok (ms, r, b')"
  shows "r = max 0 (q - executable b taker limit) \<and> (\<Sum>m \<leftarrow> ms. match_quantity m) = q - r \<and>
    (\<forall>m \<in> set ms. 0 < match_quantity m)"
proof -
  let ?V = "\<lambda>b. volume b (opposite taker) (within_limit taker limit)"
  note facts = execute_quantities [OF assms]
  have inv': "book_inv b'"
    using execute_OkD(2) [OF assms] .
  have "?V b' = 0" if "r \<noteq> 0"
  proof -
    have "\<not> within_limit taker limit (bo_price x)" if x: "x \<in> side_orders b' (opposite taker)" for x
    proof -
      obtain y ys where v: "book_orders b' (opposite taker) = y # ys"
        using x book_orders_set [OF inv', of "opposite taker"] by (cases "book_orders b' (opposite taker)") auto
      then have "\<not> within_limit taker limit (bo_price y)"
        using facts(5) \<open>r \<noteq> 0\<close> by simp
      then show ?thesis
        using best_price_rank [OF inv' _ x, of "bo_price y"] v within_limit_mono
        by (auto simp: best_view [OF inv'])
    qed
    then show ?thesis
      by (simp add: volume_zero_iff [OF inv'])
  qed
  moreover have "0 \<le> ?V b'"
    using volume_nonneg [OF inv'] .
  ultimately have "r = max 0 (q - min (2 ^ 63 - 1) (?V b))"
    using facts(1,3) assms(2) by (cases "r = 0") (auto simp: in_i64_def max_def min_def split: if_splits)
  then show ?thesis
    using facts(2,4) by (simp add: executable_volume [OF assms(1)])
qed

theorem execute_fills_executable_witness:
  "(0::int) = max 0 (10 - executable ex_book Buy (Some 102)) \<and> (\<Sum>m \<leftarrow> ex_matches. match_quantity m) = 10 \<and>
   list_all (\<lambda>m. 0 < match_quantity m) ex_matches"
proof -
  have "in_i64 10"
    by (simp add: in_i64_def)
  from execute_fills_executable [OF ex_book_inv this ex_execute] show ?thesis
    by (simp add: list_all_iff)
qed

text \<open>
  Execution prices. Every match is within the aggressor's limit, no match is at a
  better price than the best resting price at the start, and the prices of successive
  matches never improve: the book is walked from the best level outwards.
\<close>

theorem execute_prices:
  assumes "book_inv b" and "in_i64 q" and "execute b taker limit q = Ok (ms, r, b')"
  shows "(\<forall>m \<in> set ms. within_limit taker limit (match_price m) \<and>
      (\<forall>p. best b (opposite taker) = Some p \<longrightarrow> crosses taker (match_price m) p)) \<and>
    sorted_wrt (\<lambda>m m'. crosses taker (match_price m') (match_price m)) ms"
proof -
  let ?sd = "opposite taker"
  have "sorted (map (\<lambda>x. price_rank ?sd (bo_price x)) (book_orders b ?sd))"
    unfolding sorted_map
    by (rule sorted_wrt_mono_rel [OF _ book_orders_ranked [OF assms(1)]]) (auto simp: rank_less_iff)
  note prices = matching_prices [OF execute_OkD(4) [OF assms] this]
  have "price_rank ?sd p \<le> price_rank ?sd (match_price m)" if "m \<in> set ms" "best b ?sd = Some p" for m p
    using prices that best_price_rank [OF assms(1) that(2)] book_orders_set [OF assms(1), of ?sd] by auto
  then show ?thesis
    using execute_quantities(4) [OF assms] prices by (auto simp: crosses_price_rank sorted_map)
qed

theorem execute_prices_witness:
  "sorted_wrt (\<lambda>m m'. crosses Buy (match_price m') (match_price m)) ex_matches \<and>
   list_all (\<lambda>m. within_limit Buy (Some 102) (match_price m)) ex_matches"
proof -
  have "in_i64 10"
    by (simp add: in_i64_def)
  from execute_prices [OF ex_book_inv this ex_execute] show ?thesis
    by (simp add: list_all_iff)
qed

subsection \<open>Resting and cancelling\<close>

text \<open>
  A resting order joins the back of its price level: in matching priority it comes
  after every order at its price or better and before every order at a worse price.
  The other side is untouched and the book stays well formed.
\<close>

theorem rest_joins_back:
  assumes "book_inv b" and "in_i64 p" and "in_i64 q" and "rest b i sd p q disp = Ok b'"
  shows "book_inv b' \<and> book_orders b' (opposite sd) = book_orders b (opposite sd) \<and>
    (let ahead = (\<lambda>x. case sd of Buy \<Rightarrow> p \<le> bo_price x | Sell \<Rightarrow> bo_price x \<le> p) in
     book_orders b' sd = filter ahead (book_orders b sd) @ new_order i sd p q disp (next_priority b) #
       filter (\<lambda>x. \<not> ahead x) (book_orders b sd))"
proof -
  let ?new = "new_order i sd p q disp (next_priority b)" and ?xs = "book_orders b sd"
  let ?ahead = "\<lambda>x. price_rank sd (bo_price x) \<le> price_rank sd p"
  have inv': "book_inv b'"
    using rest_OkD(1) [OF assms] .
  have old: "priority x < next_priority b" if "x \<in> set ?xs" for x
    using side_ordersD(4) [OF assms(1), of x sd] that book_orders_set [OF assms(1)] by simp
  have filt: "ranked sd (filter P ?xs)" for P
    using book_orders_ranked [OF assms(1)] by (rule sorted_wrt_filter)
  have "rank sd x < rank sd ?new" if "x \<in> set ?xs" "?ahead x" for x
    using old [OF that(1)] that(2) by (auto simp: rank_less_iff order_le_less)
  moreover have "rank sd ?new < rank sd x" if "\<not> ?ahead x" for x
    using that by (auto simp: rank_less_iff)
  ultimately have "ranked sd (filter ?ahead ?xs @ ?new # filter (\<lambda>x. \<not> ?ahead x) ?xs)"
    using filt by (auto simp: sorted_wrt_append intro: less_trans [of _ "rank sd ?new"])
  then have "book_orders b' sd = filter ?ahead ?xs @ ?new # filter (\<lambda>x. \<not> ?ahead x) ?xs"
    using inv' side_orders_rest(1) [OF assms] book_orders_set [OF assms(1), of sd]
    by (intro book_orders_eqI) auto
  moreover have "book_orders b' (opposite sd) = book_orders b (opposite sd)"
    using inv' side_orders_rest(2) [OF assms] assms(1)
    by (intro book_orders_eqI) (auto simp: book_orders_ranked book_orders_set)
  moreover have "?ahead x \<longleftrightarrow> (case sd of Buy \<Rightarrow> p \<le> bo_price x | Sell \<Rightarrow> bo_price x \<le> p)" for x :: book_order
    by (cases sd) (auto simp: price_rank_def)
  ultimately show ?thesis
    using inv' by (simp add: Let_def)
qed

definition ex_rested :: book where
  "ex_rested = ex_book\<lparr>bids := [(99, \<lparr>queue = [(3, 4)], level_visible = 6, level_total = 6\<rparr>),
       (100, \<lparr>queue = [(4, 9)], level_visible = 2, level_total = 8\<rparr>)],
     orders := orders ex_book @ [(9, new_order 9 Buy 100 8 (Some 2) 4)], next_priority := 5\<rparr>"

lemma ex_rest: "rest ex_book 9 Buy 100 8 (Some 2) = Ok ex_rested"
  by (simp add: book_eval ex_book_def ex_rested_def)

theorem rest_joins_back_witness:
  "book_inv ex_rested \<and> book_orders ex_rested Sell = book_orders ex_book Sell \<and>
   book_orders ex_rested Buy = filter (\<lambda>x. 100 \<le> bo_price x) (book_orders ex_book Buy) @
     new_order 9 Buy 100 8 (Some 2) 4 # filter (\<lambda>x. \<not> 100 \<le> bo_price x) (book_orders ex_book Buy)"
proof -
  have "in_i64 100" "in_i64 8" "next_priority ex_book = 4"
    by (simp_all add: in_i64_def ex_book_def)
  then show ?thesis
    using rest_joins_back [OF ex_book_inv _ _ ex_rest] by (simp add: Let_def)
qed

text \<open>
  Cancelling undoes resting: cancelling a freshly rested order returns that order
  and the book as it was, but for the priority number the order consumed.
\<close>

theorem cancel_undoes_rest:
  assumes "book_inv b" and "in_i64 p" and "in_i64 q" and "rest b i sd p q disp = Ok b'"
  shows "cancel b' i =
    Some (new_order i sd p q disp (next_priority b), b\<lparr>next_priority := Suc (next_priority b)\<rparr>)"
proof -
  note r = rest_OkD [OF assms]
  obtain ord b'' where c: "cancel b' i = Some (ord, b'')"
    using cancel_spec [OF r(1), of i] r(2) by (cases "cancel b' i") auto
  have ord: "ord = new_order i sd p q disp (next_priority b)"
    and b'': "book_inv b''" "orders b'' = bt_remove i (orders b')" "next_priority b'' = next_priority b'"
    using cancel_spec [OF r(1), of i] c r(2) by auto
  have "Suc (next_priority b) < 2 ^ 64"
    using book_invD(3) [OF r(1)] r(3) by simp
  then have "book_inv (b\<lparr>next_priority := Suc (next_priority b)\<rparr>)"
    using book_inv_next_priority [OF assms(1)] by simp
  then have "b'' = b\<lparr>next_priority := Suc (next_priority b)\<rparr>"
    using b'' r(2-4) book_invD(2) [OF assms(1)] by (intro book_ext) (simp_all add: bt_remove_insert)
  with c ord show ?thesis
    by simp
qed

theorem cancel_undoes_rest_witness:
  "cancel ex_rested 9 = Some (new_order 9 Buy 100 8 (Some 2) 4, ex_book\<lparr>next_priority := 5\<rparr>)"
proof -
  have "in_i64 100" "in_i64 8" "next_priority ex_book = 4"
    by (simp_all add: in_i64_def ex_book_def)
  then show ?thesis
    using cancel_undoes_rest [OF ex_book_inv _ _ ex_rest] by simp
qed

subsection \<open>The book is never crossed in continuous trading\<close>

definition uncrossed :: "book \<Rightarrow> bool" where
  "uncrossed b = (case (best b Buy, best b Sell) of (Some bid, Some ask) \<Rightarrow> bid < ask | _ \<Rightarrow> True)"

lemma uncrossed_iff:
  assumes "book_inv b"
  shows "uncrossed b \<longleftrightarrow> (\<forall>x \<in> side_orders b Buy. \<forall>y \<in> side_orders b Sell. bo_price x < bo_price y)"
proof -
  have head: "best b sd = None \<and> side_orders b sd = {} \<or>
      (\<exists>x. best b sd = Some (bo_price x) \<and> x \<in> side_orders b sd \<and>
        (\<forall>y \<in> side_orders b sd. price_rank sd (bo_price x) \<le> price_rank sd (bo_price y)))" for sd
  proof (cases "book_orders b sd")
    case Nil
    then show ?thesis
      using book_orders_set [OF assms, of sd] by (simp add: best_view [OF assms])
  next
    case (Cons x xs)
    then have "best b sd = Some (bo_price x)" "x \<in> side_orders b sd"
      using book_orders_set [OF assms, of sd] by (auto simp: best_view [OF assms])
    then show ?thesis
      using best_price_rank [OF assms] by blast
  qed
  show ?thesis
    using head [of Buy] head [of Sell]
    by (fastforce simp: uncrossed_def price_rank_def split: option.splits)
qed

lemma matching_price_set:
  "matching taker limit xs n q ms r ys n' \<Longrightarrow> bo_price ` set ys \<subseteq> bo_price ` set xs"
proof (induction rule: matching.induct)
  case (trade q mk fill n xs ms r ys n')
  moreover have "bo_price ` set (fill_head mk fill n xs) \<subseteq> bo_price ` set (mk # xs)"
    by (auto simp: fill_head_def)
  ultimately show ?case by blast
qed auto

text \<open>
  Continuous trading keeps the book uncrossed: from an uncrossed book, executing
  a limit order leaves best bid below best ask, and so does resting its remainder at
  its limit.
\<close>

theorem continuous_uncrossed:
  assumes "book_inv b" and "uncrossed b" and "in_i64 q" and "in_i64 l"
    and "execute b taker (Some l) q = Ok (ms, r, b')"
  shows "uncrossed b' \<and> (\<forall>i disp b''. 0 < r \<longrightarrow> rest b' i taker l r disp = Ok b'' \<longrightarrow> uncrossed b'')"
proof -
  note ex = assms(1,3,5)
  have inv': "book_inv b'"
    using execute_OkD(2) [OF ex] .
  have own: "side_orders b' taker = side_orders b taker"
    using execute_OkD(3) [OF ex] book_orders_set [OF assms(1)] book_orders_set [OF inv'] by metis
  have other: "\<exists>y' \<in> side_orders b (opposite taker). bo_price y = bo_price y'"
    if "y \<in> side_orders b' (opposite taker)" for y
    using matching_price_set [OF execute_OkD(4) [OF ex]] that book_orders_set [OF assms(1)] book_orders_set [OF inv']
    by (auto simp: subset_iff image_iff)
  have un: "uncrossed b'"
    using assms(2) own other unfolding uncrossed_iff [OF assms(1)] uncrossed_iff [OF inv']
    by (cases taker) (simp_all, metis+)
  have "uncrossed b''" if "0 < r" and rest: "rest b' i taker l r disp = Ok b''" for i disp b''
  proof -
    have r: "in_i64 r"
      using execute_quantities(1,4) [OF ex] execute_quantities(2) [OF ex] assms(3) \<open>0 < r\<close>
        sum_list_nonneg [of "map match_quantity ms"] by (force simp: in_i64_def)
    note so = side_orders_rest [OF inv' assms(4) r rest]
    have "\<not> crosses taker l (bo_price y)" if y: "y \<in> side_orders b' (opposite taker)" for y
    proof -
      obtain z zs where z: "book_orders b' (opposite taker) = z # zs"
        using y book_orders_set [OF inv', of "opposite taker"] by (cases "book_orders b' (opposite taker)") auto
      then have "\<not> within_limit taker (Some l) (bo_price z)"
        using execute_quantities(5) [OF ex] \<open>0 < r\<close> by simp
      then show ?thesis
        using best_price_rank [OF inv' _ y, of "bo_price z"] z
        by (auto simp: best_view [OF inv'] within_limit_def crosses_price_rank)
    qed
    then show ?thesis
      using un so unfolding uncrossed_iff [OF inv'] uncrossed_iff [OF rest_OkD(1) [OF inv' assms(4) r rest]]
      by (cases taker) fastforce+
  qed
  with un show ?thesis
    by blast
qed

theorem continuous_uncrossed_witness: "uncrossed ex_book \<and> uncrossed ex_swept"
proof -
  have range: "in_i64 10" "in_i64 102"
    by (simp_all add: in_i64_def)
  have un: "uncrossed ex_book"
    by (simp add: uncrossed_def best_def bt_first_def bt_last_def ex_book_def)
  show ?thesis
    using continuous_uncrossed [OF ex_book_inv un range ex_execute] un by blast
qed

end
