(* ===== verification/Book_Persistence.thy ===== *)
theory Book_Persistence
  imports Book_Continuous
begin

text \<open>
  The persisted form of a book: \<open>From<Book> for BookRecord\<close> writes the orders and the
  priority sequence, \<open>TryFrom<BookRecord> for Book\<close> rebuilds the levels by inserting
  the orders one by one. Levels and aggregates are not persisted; that rebuilding them
  gives the same book back rests on \<open>book_ext\<close>.
\<close>

lemma option_eqI: "(\<And>x. u = Some x \<longleftrightarrow> v = Some x) \<Longrightarrow> u = v"
  by (cases u; cases v) auto

lemma level_sum_submap:
  assumes "bt_wf os" and "bt_wf os'" and sub: "\<And>i ord. bt_get os i = Some ord \<Longrightarrow> bt_get os' i = Some ord"
    and pos: "\<And>i ord. bt_get os' i = Some ord \<Longrightarrow> 0 \<le> f ord"
  shows "level_sum f os sd p \<le> level_sum f os' sd p"
proof -
  let ?g = "\<lambda>ord. if at_level sd p ord then f ord else 0"
  have same: "(\<Sum>i \<in> dom (bt_get os). ?g (the (bt_get os i))) = (\<Sum>i \<in> dom (bt_get os). ?g (the (bt_get os' i)))"
    using sub by (intro sum.cong refl) fastforce
  have "(\<Sum>i \<in> dom (bt_get os). ?g (the (bt_get os' i))) \<le> (\<Sum>i \<in> dom (bt_get os'). ?g (the (bt_get os' i)))"
    using bt.finite_dom_get [OF assms(2)] by (intro sum_mono2) (auto dest: sub pos)
  then show ?thesis
    using bt.sum_entries [OF assms(1), of "\<lambda>i. ?g"] bt.sum_entries [OF assms(2), of "\<lambda>i. ?g"] same
    by (simp add: level_sum_def)
qed

text \<open>Inserting the orders that a partial copy still misses completes the copy.\<close>

definition order_map :: "book_order list \<Rightarrow> order_id \<rightharpoonup> book_order" where
  "order_map os = map_of (map (\<lambda>ord. (bo_order_id ord, ord)) os)"

definition completes :: "book \<Rightarrow> book \<Rightarrow> book_order list \<Rightarrow> bool" where
  "completes b b0 os \<longleftrightarrow>
     next_priority b0 = next_priority b \<and> distinct (map bo_order_id os) \<and>
     (\<forall>ord \<in> set os. bt_get (orders b0) (bo_order_id ord) = None) \<and>
     bt_get (orders b) = bt_get (orders b0) ++ order_map os"

lemma order_map_Some_iff:
  "distinct (map bo_order_id os) \<Longrightarrow> order_map os i = Some ord \<longleftrightarrow> ord \<in> set os \<and> bo_order_id ord = i"
  unfolding order_map_def by (subst map_of_eq_Some_iff) (auto simp: o_def)

lemma completesD:
  assumes "completes b b0 (ord # os)"
  shows "bt_get (orders b) (bo_order_id ord) = Some ord" and "bt_get (orders b0) (bo_order_id ord) = None"
    and "bt_get (orders b0) i = Some x \<Longrightarrow> bt_get (orders b) i = Some x"
    and "next_priority b0 = next_priority b"
proof -
  have d: "distinct (map bo_order_id (ord # os))" and fresh: "\<forall>x \<in> set (ord # os). bt_get (orders b0) (bo_order_id x) = None"
    and get: "bt_get (orders b) = bt_get (orders b0) ++ order_map (ord # os)"
    using assms by (simp_all add: completes_def)
  show "bt_get (orders b) (bo_order_id ord) = Some ord"
    by (simp add: get order_map_def)
  show "bt_get (orders b0) (bo_order_id ord) = None"
    using fresh by simp
  assume i: "bt_get (orders b0) i = Some x"
  have "order_map (ord # os) i = None"
  proof (rule ccontr)
    assume "order_map (ord # os) i \<noteq> None"
    then obtain y where "y \<in> set (ord # os)" "bo_order_id y = i"
      using order_map_Some_iff [OF d, of i] by blast
    with fresh i show False by fastforce
  qed
  with i show "bt_get (orders b) i = Some x"
    by (simp add: get map_add_def)
qed (use assms in \<open>simp add: completes_def\<close>)

lemma completes_step:
  assumes "completes b b0 (ord # os)" and "orders b1 = bt_insert (bo_order_id ord) ord (orders b0)"
    and "next_priority b1 = next_priority b0"
  shows "completes b b1 os"
proof -
  have new: "bo_order_id ord \<notin> bo_order_id ` set os" and d: "distinct (map bo_order_id os)"
    and get: "bt_get (orders b) = bt_get (orders b0) ++ order_map (ord # os)"
    and fresh: "\<forall>x \<in> set os. bt_get (orders b0) (bo_order_id x) = None"
    using assms(1) by (simp_all add: completes_def)
  have "bo_order_id ord \<notin> dom (order_map os)"
    using new order_map_Some_iff [OF d] by (metis domD image_eqI)
  then have "bt_get (orders b) = bt_get (orders b1) ++ order_map os"
    by (simp add: get assms(2) map_add_upd_left) (simp add: order_map_def map_add_upd)
  moreover have "\<forall>x \<in> set os. bt_get (orders b1) (bo_order_id x) = None"
    using fresh new by (auto simp: assms(2) image_iff)
  ultimately show ?thesis
    using d assms(1,3) by (simp add: completes_def)
qed

lemma completes_insert:
  assumes inv: "book_inv b" and inv0: "book_inv b0" and c: "completes b b0 (ord # os)"
  obtains b1 where "book_insert b0 ord = Ok b1" and "book_inv b1" and "completes b b1 os"
proof -
  let ?sd = "bo_side ord" and ?p = "bo_price ord" and ?i = "bo_order_id ord"
  note get = completesD(1) [OF c] and new = completesD(2) [OF c] and sub = completesD(3) [OF c]
    and n = completesD(4) [OF c]
  have ok: "order_ok ord" and pr: "priority ord < next_priority b"
    using book_invD(5,6) [OF inv get] .
  have pos: "0 \<le> remaining x" if "bt_get (orders b) i = Some x" for i x
    using order_okD(3) [OF book_invD(5) [OF inv that]] by simp
  have free: "priority x \<noteq> priority ord" if "bt_get (orders b0) i = Some x" "at_level ?sd ?p x" for i x
    using book_inv_priority_unique [OF inv sub [OF that(1)] get] that new by (auto simp: at_level_def)
  obtain lv where "bt_get (book_side b ?sd) ?p = Some lv"
    using book_invD(7) [OF inv get] by (auto simp: queued_def)
  then have range: "in_i64 (level_sum remaining (orders b) ?sd ?p)"
    using book_invD(8) [OF inv] by (fastforce simp: level_inv_def)
  have "level_sum remaining (bt_insert ?i ord (orders b0)) ?sd ?p \<le> level_sum remaining (orders b) ?sd ?p"
    using book_invD(2) [OF inv0] book_invD(2) [OF inv] sub get pos
    by (intro level_sum_submap) (auto split: if_splits)
  then have "level_sum remaining (orders b0) ?sd ?p + remaining ord \<le> level_sum remaining (orders b) ?sd ?p"
    using level_sum_insert [OF book_invD(2) [OF inv0] new, of remaining ord ?sd ?p] by (simp add: at_level_def)
  moreover have "0 \<le> level_sum remaining (orders b0) ?sd ?p"
    using book_invD(2) [OF inv0] sub pos by (intro level_sum_nonneg) auto
  ultimately have fits: "in_i64 (level_sum remaining (orders b0) ?sd ?p + remaining ord)"
    using range order_okD(3) [OF ok] by (auto simp: in_i64_def)
  obtain b1 where b1: "book_insert b0 ord = Ok b1"
    using book_insert_succeeds [OF inv0 ok new _ fits] free by blast
  moreover have "book_inv b1"
    using book_insert_inv [OF inv0 b1 ok] pr n by simp
  moreover have "completes b b1 os"
    using completes_step [OF c] book_insert_proj [OF b1] by blast
  ultimately show ?thesis
    by (rule that)
qed

lemma insert_all_completes:
  assumes inv: "book_inv b" and "book_inv b0" and "completes b b0 os"
  shows "insert_all (next_priority b) b0 os = Ok b"
  using assms(2,3)
proof (induction os arbitrary: b0)
  case Nil
  then have "orders b0 = orders b"
    using book_invD(2) [OF inv] book_invD(2) [OF Nil(1)]
    by (intro bt_ext) (simp_all add: completes_def order_map_def)
  then show ?case
    using book_ext [OF Nil(1) inv] Nil(2) by (simp add: completes_def)
next
  case (Cons ord os)
  obtain b1 where "book_insert b0 ord = Ok b1" "book_inv b1" "completes b b1 os"
    using completes_insert [OF inv Cons.prems] .
  moreover have "priority ord < next_priority b"
    using book_invD(6) [OF inv completesD(1) [OF Cons.prems(2)]] .
  ultimately show ?case
    using Cons.IH by simp
qed

lemma book_to_record_completes:
  assumes "book_inv b"
  shows "book_inv (book_new\<lparr>next_priority := next_priority b\<rparr>)"
    and "completes b (book_new\<lparr>next_priority := next_priority b\<rparr>) (rec_orders (book_to_record b))"
proof -
  let ?b0 = "book_new\<lparr>next_priority := next_priority b\<rparr>"
  let ?xs = "sort_key order_sort_key (map snd (orders b))"
  show "book_inv ?b0"
    using book_inv_next_priority [OF book_inv_new, of "next_priority b"] book_invD(3) [OF assms]
    by (simp add: book_new_def)
  have wf: "bt_wf (orders b)"
    using book_invD(2) [OF assms] .
  have mem: "ord \<in> set (map snd (orders b)) \<longleftrightarrow> bt_get (orders b) (bo_order_id ord) = Some ord" for ord
    unfolding orders_mem [OF assms, symmetric] by force
  have "bo_order_id (snd e) = fst e" if "e \<in> set (orders b)" for e
    using book_invD(4) [OF assms, of "fst e" "snd e"] that by (simp add: bt_get_mem [OF wf])
  then have ids: "map bo_order_id (map snd (orders b)) = map fst (orders b)"
    by simp
  have "distinct (map bo_order_id (map snd (orders b)))"
    unfolding ids using bt_distinct [OF wf] .
  then have d: "distinct (map bo_order_id ?xs)"
    unfolding distinct_map by (simp add: distinct_map)
  have "order_map ?xs i = bt_get (orders b) i" for i
  proof (rule option_eqI)
    show "order_map ?xs i = Some ord \<longleftrightarrow> bt_get (orders b) i = Some ord" for ord
      using mem [of ord] book_invD(4) [OF assms, of i ord] unfolding order_map_Some_iff [OF d] set_sort by blast
  qed
  then show "completes b ?b0 (rec_orders (book_to_record b))"
    using d by (auto simp: completes_def book_new_def book_to_record_def)
qed

text \<open>
  Persistence round trip: reading back the record written for a well-formed book
  succeeds and gives the same book, with every level, queue and cached aggregate
  rebuilt exactly.
\<close>

theorem book_record_roundtrip:
  assumes "book_inv b"
  shows "book_from_record (book_to_record b) = Ok b"
  using insert_all_completes [OF assms book_to_record_completes [OF assms]]
  by (simp add: book_from_record_def) (simp add: book_to_record_def)

theorem book_record_roundtrip_witness: "book_from_record (book_to_record ex_book) = Ok ex_book"
  by (rule book_record_roundtrip [OF ex_book_inv])

text \<open>
  C38. A record is not only accepted when it was written by a book: a well-formed result is
  promised for a record whose orders carry positive display sizes and 64-bit
  prices and quantities, which is what the record type leaves unchecked. In
  particular no accepted record gives a book with a crossed index, a stale
  aggregate or a priority beyond the sequence.
\<close>

theorem book_from_record_inv:
  assumes "book_from_record rec = Ok b" and "rec_next_priority rec < 2 ^ 64"
    and "\<forall>ord \<in> set (rec_orders rec). in_i64 (remaining ord) \<and> in_i64 (bo_price ord) \<and>
      (case display ord of None \<Rightarrow> True | Some peak \<Rightarrow> 0 < peak)"
  shows "book_inv b \<and> next_priority b = rec_next_priority rec \<and> set (map snd (orders b)) = set (rec_orders rec)"
proof -
  let ?n = "rec_next_priority rec"
  have "book_inv b \<and> next_priority b = ?n \<and> ran (bt_get (orders b)) = ran (bt_get (orders b0)) \<union> set os"
    if "insert_all ?n b0 os = Ok b" "book_inv b0" "next_priority b0 = ?n"
      "\<forall>ord \<in> set os. in_i64 (remaining ord) \<and> in_i64 (bo_price ord) \<and>
        (case display ord of None \<Rightarrow> True | Some peak \<Rightarrow> 0 < peak)" for b0 os
    using that
  proof (induction os arbitrary: b0)
    case (Cons ord os)
    then obtain b1 where b1: "book_insert b0 ord = Ok b1" and pr: "priority ord < ?n"
      and tl: "insert_all ?n b1 os = Ok b"
      by (auto simp: result_simps split: if_splits)
    have "order_ok ord"
      using b1 Cons.prems(4) by (auto simp: order_ok_def book_insert_Ok_iff Let_def)
    then have "book_inv b1"
      using book_insert_inv [OF Cons.prems(2) b1] pr Cons.prems(3) by simp
    moreover have "ran (bt_get (orders b1)) = insert ord (ran (bt_get (orders b0)))"
      using book_insert_proj(1,3) [OF b1] by simp
    ultimately show ?case
      using Cons.IH [OF tl] Cons.prems(3,4) book_insert_proj(2) [OF b1] by auto
  qed simp
  from this [of "book_new\<lparr>next_priority := ?n\<rparr>" "rec_orders rec"]
  have inv: "book_inv b" and n: "next_priority b = ?n" and "ran (bt_get (orders b)) = set (rec_orders rec)"
    using assms book_inv_next_priority [OF book_inv_new, of ?n]
    by (auto simp: book_from_record_def book_new_def)
  moreover have "ran (bt_get (orders b)) = set (map snd (orders b))"
    using ran_distinct [OF bt_distinct [OF book_invD(2) [OF inv]]] by simp
  ultimately show ?thesis
    by simp
qed

theorem book_from_record_inv_witness:
  "book_inv ex_book \<and> next_priority ex_book = 4 \<and> set (map snd (orders ex_book)) = set (rec_orders (book_to_record ex_book))"
proof -
  let ?r = "book_to_record ex_book"
  have ok: "book_from_record ?r = Ok ex_book"
    by (simp add: book_from_record_def book_to_record_def order_sort_key_def book_eval ex_book_def less_side_def less_eq_side_def)
  have n: "rec_next_priority ?r = 4"
    by (simp add: book_to_record_def ex_book_def)
  have "\<forall>ord \<in> set (rec_orders ?r). in_i64 (remaining ord) \<and> in_i64 (bo_price ord) \<and>
      (case display ord of None \<Rightarrow> True | Some peak \<Rightarrow> 0 < peak)"
    by (simp add: book_to_record_def ex_book_def new_order_def in_i64_def)
  with book_from_record_inv [OF ok] n show ?thesis
    by simp
qed

text \<open>
  The display size is indeed unchecked on the way in: a record with an order of display
  size zero is accepted, and the book it gives fails as soon as the order's displayed
  lots are used up.
\<close>

definition ex_zero_display :: book_record where
  "ex_zero_display = \<lparr>rec_next_priority = 1, rec_orders =
     [\<lparr>bo_order_id = 1, bo_side = Sell, bo_price = 101, remaining = 10, visible = 4, display = Some 0, priority = 0\<rparr>]\<rparr>"

lemma record_zero_display:
  "\<exists>b. book_from_record ex_zero_display = Ok b \<and> execute b Buy None 4 = Err InvalidOrder"
  by (simp add: book_from_record_def ex_zero_display_def execute_def execute_loop.simps execute_one_def
      level_head_def best_def within_limit_def refresh_slice_def bt_first_def bt_last_def book_eval)

end
