(* ===== verification/Book_Auction.thy ===== *)
theory Book_Auction
  imports Book_Persistence
begin

text \<open>
  The call auction. The linear sweep \<open>auction_price\<close> agrees with the quadratic
  reference the code keeps as a test oracle, its price maximises the executable volume,
  and \<open>uncross\<close> at that price trades exactly this volume, in priority order, and
  leaves a book that is no longer crossed.
\<close>

subsection \<open>The sweep against the reference\<close>

definition level_totals :: "level_map \<Rightarrow> int" where
  "level_totals ls = (\<Sum>(p, lv) \<leftarrow> ls. level_total lv)"

lemma level_totals_simps [simp]:
  "level_totals [] = 0"
  "level_totals ((p, lv) # ls) = level_total lv + level_totals ls"
  by (simp_all add: level_totals_def)

definition price_set :: "level_map \<Rightarrow> level_map \<Rightarrow> price_ticks btree_set" where
  "price_set bs as = foldr bs_insert (map fst bs @ map fst as) []"

lemma bs_wf_price_set: "bs_wf (price_set bs as)"
proof -
  have "bs_wf (foldr bs_insert xs [])" for xs :: "price_ticks list"
    by (induction xs) (auto simp: bs_wf_def [of "[]"])
  then show ?thesis
    unfolding price_set_def .
qed

lemma set_price_set: "set (price_set bs as) = fst ` set bs \<union> fst ` set as"
proof -
  have "set (foldr bs_insert xs []) = set xs" for xs :: "price_ticks list"
    by (induction xs) auto
  from this [of "map fst bs @ map fst as"] show ?thesis
    unfolding price_set_def by simp
qed

lemma price_set_eqI:
  assumes "bs_wf xs" and "set xs = fst ` set bs \<union> fst ` set as"
  shows "price_set bs as = xs"
  using assms bs_wf_price_set [of bs as] set_price_set [of bs as]
  by (intro sorted_key_unique [where f = "\<lambda>x. x"]) (simp_all add: bs_wf_def)

lemma price_set_step:
  assumes "set bs \<subseteq> set bs0" and "set as \<subseteq> set as0"
    and "\<forall>e \<in> set bs \<union> set as. p < fst e"
    and "fst ` set bs0 \<union> fst ` set as0 = insert p (fst ` set bs \<union> fst ` set as)"
  shows "price_set bs0 as0 = p # price_set bs as"
  using assms(3,4) bs_wf_price_set [of bs as] by (intro price_set_eqI) (auto simp: bs_wf_def set_price_set)

text \<open>What the sweep offers at a candidate price, in terms of the levels still ahead.\<close>

definition sweep_offer ::
    "price_ticks \<Rightarrow> int \<Rightarrow> int \<Rightarrow> level_map \<Rightarrow> level_map \<Rightarrow> auction_best \<Rightarrow> price_ticks \<Rightarrow> auction_best" where
  "sweep_offer r d s bs as c p =
     auction_offer r p (d - level_totals (filter (\<lambda>e. fst e < p) bs)) (s + level_totals (filter (\<lambda>e. fst e \<le> p) as)) c"

lemma foldl_cong_set: "(\<And>c x. x \<in> set xs \<Longrightarrow> f c x = g c x) \<Longrightarrow> foldl f c xs = foldl g c xs"
  by (induction xs arbitrary: c) auto

lemma filter_none: "(\<And>x. x \<in> set xs \<Longrightarrow> \<not> P x) \<Longrightarrow> filter P xs = []"
  by (simp add: filter_empty_conv)

lemma auction_sweep_foldl:
  assumes "bt_wf bs" and "bt_wf as"
  shows "auction_sweep r t bb s bs as c = foldl (sweep_offer r (t - bb) s bs as) c (price_set bs as)"
  using assms
proof (induction r t bb s bs as c rule: auction_sweep.induct)
  case (1 r t bb s c)
  then show ?case by (simp add: price_set_def)
next
  case (2 r t bb s bp bl bs c)
  have wf: "bt_wf bs" and low: "\<forall>e \<in> set bs. bp < fst e"
    using 2(2) by (auto simp: bt_wf_Cons)
  have "price_set ((bp, bl) # bs) [] = bp # price_set bs []"
    using low by (intro price_set_step) auto
  moreover have "foldl (sweep_offer r (t - (bb + level_total bl)) s bs []) c' (price_set bs [])
      = foldl (sweep_offer r (t - bb) s ((bp, bl) # bs) []) c' (price_set bs [])" for c'
    using low by (intro foldl_cong_set) (auto simp: sweep_offer_def set_price_set algebra_simps)
  moreover have "sweep_offer r (t - bb) s ((bp, bl) # bs) [] c bp = auction_offer r bp (t - bb) s c"
    using low by (simp add: sweep_offer_def filter_none order_less_imp_not_less)
  ultimately show ?case
    using 2(1) [OF wf] by simp
next
  case (3 r t bb s ap al as c)
  have wf: "bt_wf as" and low: "\<forall>e \<in> set as. ap < fst e"
    using 3(3) by (auto simp: bt_wf_Cons)
  have "price_set [] ((ap, al) # as) = ap # price_set [] as"
    using low by (intro price_set_step) auto
  moreover have "foldl (sweep_offer r (t - bb) (s + level_total al) [] as) c' (price_set [] as)
      = foldl (sweep_offer r (t - bb) s [] ((ap, al) # as)) c' (price_set [] as)" for c'
    using low by (intro foldl_cong_set) (auto simp: sweep_offer_def set_price_set algebra_simps)
  moreover have "sweep_offer r (t - bb) s [] ((ap, al) # as) c ap = auction_offer r ap (t - bb) (s + level_total al) c"
    using low by (simp add: sweep_offer_def filter_none not_le)
  ultimately show ?case
    using 3(1) [OF _ wf] by simp
next
  case (4 r t bb s bp bl bs ap al as c)
  let ?p = "if bp \<le> ap then bp else ap"
  let ?bs = "if bp = ?p then bs else (bp, bl) # bs" and ?as = "if ap = ?p then as else (ap, al) # as"
  let ?b = "if bp = ?p then level_total bl else 0" and ?s = "if ap = ?p then s + level_total al else s"
  have lows: "\<forall>e \<in> set bs. bp < fst e" "\<forall>e \<in> set as. ap < fst e" and wfs: "bt_wf ?bs" "bt_wf ?as"
    using 4(2,3) by (auto simp: bt_wf_Cons)
  have low: "\<forall>e \<in> set ?bs \<union> set ?as. ?p < fst e"
    using lows by auto
  have "price_set ((bp, bl) # bs) ((ap, al) # as) = ?p # price_set ?bs ?as"
    using low by (intro price_set_step) auto
  moreover have "foldl (sweep_offer r (t - (bb + ?b)) ?s ?bs ?as) c' (price_set ?bs ?as)
      = foldl (sweep_offer r (t - bb) s ((bp, bl) # bs) ((ap, al) # as)) c' (price_set ?bs ?as)" for c'
  proof (rule foldl_cong_set)
    fix c x
    assume "x \<in> set (price_set ?bs ?as)"
    then have "?p < x"
      using low unfolding set_price_set by blast
    then show "sweep_offer r (t - (bb + ?b)) ?s ?bs ?as c x
        = sweep_offer r (t - bb) s ((bp, bl) # bs) ((ap, al) # as) c x"
      by (auto simp: sweep_offer_def algebra_simps)
  qed
  moreover have "sweep_offer r (t - bb) s ((bp, bl) # bs) ((ap, al) # as) c ?p = auction_offer r ?p (t - bb) ?s c"
  proof -
    have "filter (\<lambda>e. fst e < ?p) ((bp, bl) # bs) = []"
      using lows by (intro filter_none) auto
    moreover have "filter (\<lambda>e. fst e \<le> ?p) as = []"
    proof (rule filter_none)
      fix e
      assume "e \<in> set as"
      then have "ap < fst e"
        using lows(2) by blast
      then show "\<not> fst e \<le> ?p"
        by simp
    qed
    then have "level_totals (filter (\<lambda>e. fst e \<le> ?p) ((ap, al) # as)) = (if ap = ?p then level_total al else 0)"
      by (cases "bp \<le> ap") simp_all
    ultimately show ?thesis
      by (simp add: sweep_offer_def)
  qed
  ultimately show ?case
    using 4(1) [OF refl refl refl] wfs by (simp add: Let_def)
qed

lemma level_totals_filter_split:
  fixes p :: price_ticks
  shows "level_totals (filter (\<lambda>e. fst e < p) ls) + level_totals (filter (\<lambda>e. p \<le> fst e) ls) = level_totals ls"
  by (induction ls) auto

definition demand_at :: "book \<Rightarrow> price_ticks \<Rightarrow> int" where
  "demand_at b p = level_totals (filter (\<lambda>e. p \<le> fst e) (bids b))"

definition supply_at :: "book \<Rightarrow> price_ticks \<Rightarrow> int" where
  "supply_at b p = level_totals (filter (\<lambda>e. fst e \<le> p) (asks b))"

definition auction_choice :: "book \<Rightarrow> price_ticks \<Rightarrow> auction_best" where
  "auction_choice b r =
     foldl (\<lambda>c p. auction_offer r p (demand_at b p) (supply_at b p) c) None (price_set (bids b) (asks b))"

lemma auction_price_reference_choice: "auction_price_reference b r = auction_result (auction_choice b r)"
  by (simp add: auction_price_reference_def auction_choice_def demand_at_def supply_at_def level_totals_def price_set_def
      case_prod_unfold)

lemma auction_price_choice:
  assumes "bt_wf (bids b)" and "bt_wf (asks b)"
  shows "auction_price b r = auction_result (auction_choice b r)"
proof -
  have "level_totals (bids b) - level_totals (filter (\<lambda>e. fst e < p) (bids b)) = demand_at b p" for p
    using level_totals_filter_split [of p "bids b"] by (simp add: demand_at_def)
  then have "sweep_offer r (level_totals (bids b)) 0 (bids b) (asks b)
      = (\<lambda>c p. auction_offer r p (demand_at b p) (supply_at b p) c)"
    by (intro ext) (simp add: sweep_offer_def supply_at_def)
  then show ?thesis
    using auction_sweep_foldl [OF assms, of r "level_totals (bids b)" 0 0 None]
    by (simp add: auction_price_def auction_choice_def level_totals_def)
qed

text \<open>
  The linear auction sweep equals its quadratic reference: on every well-formed
  book and for every reference price, \<open>auction_price\<close> returns what the test oracle
  \<open>auction_price_reference\<close> computes from range sums at every candidate price.
\<close>

theorem auction_price_equals_reference:
  assumes "book_inv b"
  shows "auction_price b r = auction_price_reference b r"
  using auction_price_choice [of b r] book_invD(1) [OF assms, of Buy] book_invD(1) [OF assms, of Sell]
  by (simp add: auction_price_reference_choice book_side_def)

subsection \<open>The chosen price is the best one\<close>

definition cross_volume :: "book \<Rightarrow> price_ticks \<Rightarrow> int" where
  "cross_volume b p = min (demand_at b p) (supply_at b p)"

definition imbalance :: "book \<Rightarrow> price_ticks \<Rightarrow> int" where
  "imbalance b p = \<bar>demand_at b p - supply_at b p\<bar>"

text \<open>Volume first, then small imbalance, then nearness to the reference.\<close>

definition auction_key :: "book \<Rightarrow> price_ticks \<Rightarrow> price_ticks \<Rightarrow> int \<times> int \<times> int" where
  "auction_key b r p = (cross_volume b p, - imbalance b p, - \<bar>p - r\<bar>)"

definition good_choice :: "book \<Rightarrow> price_ticks \<Rightarrow> price_ticks list \<Rightarrow> auction_best \<Rightarrow> bool" where
  "good_choice b r ps c =
     (case c of
        None \<Rightarrow> \<forall>p \<in> set ps. cross_volume b p \<le> 0
      | Some (p, v, im) \<Rightarrow> p \<in> set ps \<and> v = cross_volume b p \<and> 0 < v \<and> im = imbalance b p \<and>
          (\<forall>p' \<in> set ps. auction_key b r p' \<le> auction_key b r p \<and> (auction_key b r p' = auction_key b r p \<longrightarrow> p \<le> p')))"

lemma auction_offer_key:
  "auction_offer r p (demand_at b p) (supply_at b p) c =
     (if 0 < cross_volume b p \<and>
         (case c of None \<Rightarrow> True | Some (cp, cv, ci) \<Rightarrow> (cv, - ci, - \<bar>cp - r\<bar>) < auction_key b r p)
      then Some (p, cross_volume b p, imbalance b p) else c)"
  by (auto simp: auction_offer_def auction_better_def auction_key_def cross_volume_def imbalance_def Let_def
      split: option.split prod.split)

lemma good_choice_foldl:
  assumes "sorted_wrt (<) ps"
  shows "good_choice b r ps (foldl (\<lambda>c p. auction_offer r p (demand_at b p) (supply_at b p) c) None ps)"
  using assms
proof (induction ps rule: rev_induct)
  case Nil
  show ?case by (simp add: good_choice_def)
next
  case (snoc p ps)
  let ?c = "foldl (\<lambda>c p. auction_offer r p (demand_at b p) (supply_at b p) c) None ps"
  have IH: "good_choice b r ps ?c" and low: "\<forall>p' \<in> set ps. p' < p"
    using snoc by (auto simp: sorted_wrt_append)
  show ?case
  proof (cases ?c)
    case None
    then have "\<forall>p' \<in> set ps. cross_volume b p' \<le> 0"
      using IH by (simp add: good_choice_def)
    then show ?thesis
      using None by (auto simp: good_choice_def auction_offer_key auction_key_def)
  next
    case (Some c)
    obtain cp cv ci where c: "c = (cp, cv, ci)" by (cases c)
    have key: "(cv, - ci, - \<bar>cp - r\<bar>) = auction_key b r cp"
      and best: "\<forall>p' \<in> set ps. auction_key b r p' \<le> auction_key b r cp \<and> (auction_key b r p' = auction_key b r cp \<longrightarrow> cp \<le> p')"
      and cp: "cp \<in> set ps" "cv = cross_volume b cp" "0 < cv" "ci = imbalance b cp"
      using IH Some c by (auto simp: good_choice_def auction_key_def)
    show ?thesis
    proof (cases "auction_key b r cp < auction_key b r p")
      case True
      then have "cross_volume b cp \<le> cross_volume b p"
        by (auto simp: auction_key_def)
      then have "0 < cross_volume b p"
        using cp by simp
      moreover have "auction_key b r p' < auction_key b r p" if "p' \<in> set ps" for p'
        using best that True by (blast intro: order.strict_trans1)
      ultimately show ?thesis
        using True Some c key by (force simp: good_choice_def auction_offer_key dest: order_less_imp_le)
    next
      case False
      then show ?thesis
        using Some c key best cp low by (auto simp: good_choice_def auction_offer_key not_less)
    qed
  qed
qed

lemma auction_choice_good:
  "good_choice b r (price_set (bids b) (asks b)) (auction_choice b r)"
  unfolding auction_choice_def
  by (rule good_choice_foldl) (use bs_wf_price_set in \<open>simp add: bs_wf_def\<close>)

lemma level_totals_filter: "level_totals (filter (\<lambda>e. P (fst e)) ls) = (\<Sum>(p, lv) \<leftarrow> ls. if P p then level_total lv else 0)"
  by (induction ls) (auto simp: level_totals_def)

lemma demand_at_volume: "book_inv b \<Longrightarrow> demand_at b p = volume b Buy (\<lambda>x. p \<le> x)"
  using level_totals_volume [of b "\<lambda>x. p \<le> x" Buy]
  by (simp add: demand_at_def level_totals_filter [of "\<lambda>x. p \<le> x"] best_first_def sum_list_rev flip: rev_map)

lemma supply_at_volume: "book_inv b \<Longrightarrow> supply_at b p = volume b Sell (\<lambda>x. x \<le> p)"
  using level_totals_volume [of b "\<lambda>x. x \<le> p" Sell]
  by (simp add: supply_at_def level_totals_filter [of "\<lambda>x. x \<le> p"] best_first_def)

text \<open>Every price is matched by a bid level that executes at least as much.\<close>

lemma cross_volume_candidate:
  assumes inv: "book_inv b" and pos: "0 < cross_volume b p"
  obtains p' where "p' \<in> set (price_set (bids b) (asks b))" and "cross_volume b p \<le> cross_volume b p'"
proof -
  have fin: "finite {x \<in> fst ` set (bids b). p \<le> x}" (is "finite ?X")
    by simp
  have "?X \<noteq> {}"
  proof
    assume "?X = {}"
    then have "filter (\<lambda>e. p \<le> fst e) (bids b) = []"
      by (auto simp: filter_empty_conv)
    then show False
      using pos by (simp add: cross_volume_def demand_at_def)
  qed
  then obtain m where m: "m \<in> fst ` set (bids b)" "p \<le> m"
    and least: "\<And>e. e \<in> set (bids b) \<Longrightarrow> p \<le> fst e \<Longrightarrow> m \<le> fst e"
    using Min_in [OF fin] Min_le [OF fin] by blast
  have "filter (\<lambda>e. p \<le> fst e) (bids b) = filter (\<lambda>e. m \<le> fst e) (bids b)"
    using m(2) least by (intro filter_cong) (auto intro: order_trans)
  then have "demand_at b p = demand_at b m"
    by (simp add: demand_at_def)
  moreover have "supply_at b p \<le> supply_at b m"
    using m(2) by (auto simp: supply_at_volume [OF inv] intro!: volume_mono [OF inv])
  ultimately show ?thesis
    using that [of m] m(1) by (auto simp: cross_volume_def set_price_set)
qed

lemma auction_price_SomeD:
  assumes inv: "book_inv b" and price: "auction_price b r = Some (p, v)"
  shows "auction_choice b r = Some (p, v, imbalance b p)" and "v = cross_volume b p" and "0 < v"
    and "in_i64 v" and "cross_volume b p' \<le> v"
proof -
  have wf: "bt_wf (bids b)" "bt_wf (asks b)"
    using book_invD(1) [OF inv, of Buy] book_invD(1) [OF inv, of Sell] by (simp_all add: book_side_def)
  obtain im where c: "auction_choice b r = Some (p, v, im)" and "in_i64 v"
    using price unfolding auction_price_choice [OF wf]
    by (auto simp: auction_result_def result_simps split: bind_splits)
  then show "in_i64 v" and "auction_choice b r = Some (p, v, imbalance b p)" and v: "v = cross_volume b p" and "0 < v"
    using auction_choice_good [of b r] by (auto simp: good_choice_def)
  show "cross_volume b p' \<le> v"
  proof (cases "0 < cross_volume b p'")
    case True
    then obtain p'' where "p'' \<in> set (price_set (bids b) (asks b))" "cross_volume b p' \<le> cross_volume b p''"
      using cross_volume_candidate [OF inv] by blast
    moreover from this(1) have "auction_key b r p'' \<le> auction_key b r p"
      using auction_choice_good [of b r] c by (simp add: good_choice_def)
    then have "cross_volume b p'' \<le> cross_volume b p"
      by (auto simp: auction_key_def)
    ultimately show ?thesis
      using v by simp
  qed (use \<open>0 < v\<close> in simp)
qed

text \<open>
  The auction price is optimal: it is the price of a resting order, the volume it
  reports is what both sides hold at that price or better, no price whatever executes
  more, and among the resting prices of equal volume it has the least imbalance, then
  is nearest to the reference, then is lowest.
\<close>

theorem auction_price_optimal:
  assumes "book_inv b" and "auction_price b r = Some (p, v)"
  shows "v = min (volume b Buy (\<lambda>x. p \<le> x)) (volume b Sell (\<lambda>x. x \<le> p)) \<and> 0 < v \<and>
    (\<forall>p'. min (volume b Buy (\<lambda>x. p' \<le> x)) (volume b Sell (\<lambda>x. x \<le> p')) \<le> v) \<and>
    p \<in> fst ` set (bids b) \<union> fst ` set (asks b) \<and>
    (\<forall>p' \<in> fst ` set (bids b) \<union> fst ` set (asks b).
       cross_volume b p' = v \<longrightarrow>
       (imbalance b p, \<bar>p - r\<bar>, p) \<le> (imbalance b p', \<bar>p' - r\<bar>, p'))"
proof -
  note D = auction_price_SomeD [OF assms]
  have good: "p \<in> set (price_set (bids b) (asks b))"
    "\<forall>p' \<in> set (price_set (bids b) (asks b)). auction_key b r p' \<le> auction_key b r p \<and>
      (auction_key b r p' = auction_key b r p \<longrightarrow> p \<le> p')"
    using auction_choice_good [of b r] D(1) by (simp_all add: good_choice_def)
  have "(imbalance b p, \<bar>p - r\<bar>, p) \<le> (imbalance b p', \<bar>p' - r\<bar>, p')"
    if "p' \<in> fst ` set (bids b) \<union> fst ` set (asks b)" "cross_volume b p' = v" for p'
  proof -
    have "auction_key b r p' \<le> auction_key b r p" "auction_key b r p' = auction_key b r p \<longrightarrow> p \<le> p'"
      using good(2) that(1) by (simp_all add: set_price_set)
    then show ?thesis
      using that(2) D(2) by (auto simp: auction_key_def)
  qed
  then show ?thesis
    using D(2,3,5) good(1)
    by (simp add: cross_volume_def demand_at_volume [OF assms(1)] supply_at_volume [OF assms(1)] set_price_set)
qed

subsection \<open>Uncrossing\<close>

text \<open>
  The rule of the auction's execution on the two sides in matching priority: the heads
  trade the smaller of their quantities while both can trade at the price.
\<close>

inductive uncrossing ::
    "price_ticks \<Rightarrow> book_order list \<Rightarrow> book_order list \<Rightarrow> nat \<Rightarrow>
     cross list \<Rightarrow> book_order list \<Rightarrow> book_order list \<Rightarrow> nat \<Rightarrow> bool"
  for price where
  stop: "xs = [] \<or> ys = [] \<or> bo_price (hd xs) < price \<or> price < bo_price (hd ys) \<Longrightarrow>
    uncrossing price xs ys n [] xs ys n"
| cross: "price \<le> bo_price x \<Longrightarrow> bo_price y \<le> price \<Longrightarrow> q = min (remaining x) (remaining y) \<Longrightarrow>
    n1 = n + (if refreshes x q then 1 else 0) \<Longrightarrow> n2 = n1 + (if refreshes y q then 1 else 0) \<Longrightarrow>
    uncrossing price (fill_head x q n xs) (fill_head y q n1 ys) n2 cs xs' ys' n' \<Longrightarrow>
    uncrossing price (x # xs) (y # ys) n
      (\<lparr>cross_buy = bo_order_id x, cross_sell = bo_order_id y, cross_quantity = q,
        buy_remaining = remaining x - q, sell_remaining = remaining y - q,
        buy_priority = priority x, sell_priority = priority y\<rparr> # cs) xs' ys' n'"

lemma head_order_view:
  assumes "book_inv b" and "book_orders b sd = x # xs"
  shows "head_order b sd (bo_price x) = Ok x" and "x \<in> side_orders b sd" and "best b sd = Some (bo_price x)"
  using view_head(2) [OF assms(1), of sd "bo_price x"] assms(2) book_orders_set [OF assms(1), of sd]
  by (auto simp: best_view [OF assms(1)] head_order_def)

lemma uncross_one_stop:
  assumes "book_inv b"
    and "book_orders b Buy = [] \<or> book_orders b Sell = [] \<or>
      bo_price (hd (book_orders b Buy)) < price \<or> price < bo_price (hd (book_orders b Sell))"
  shows "uncross_one b price = Ok None"
  using assms(2) by (auto simp: uncross_one_def best_view [OF assms(1)] split: list.splits)

lemma uncross_one_cross:
  assumes inv: "book_inv b" and x: "book_orders b Buy = x # xs" and y: "book_orders b Sell = y # ys"
    and "price \<le> bo_price x" and "bo_price y \<le> price"
  defines "q \<equiv> min (remaining x) (remaining y)"
  shows "\<not> Suc (next_priority b) < 2 ^ 64 \<and> uncross_one b price = Err BookOverflow \<or>
    (\<exists>b1 b2. after_fill b x q b1 \<and> after_fill b1 y q b2 \<and> y \<in> side_orders b1 Sell \<and>
      book_orders b1 Sell = y # ys \<and> next_priority b2 \<le> Suc (next_priority b) \<and>
      uncross_one b price = Ok (Some (\<lparr>cross_buy = bo_order_id x, cross_sell = bo_order_id y, cross_quantity = q,
        buy_remaining = remaining x - q, sell_remaining = remaining y - q,
        buy_priority = priority x, sell_priority = priority y\<rparr>, b2)))"
proof -
  note hx = head_order_view [OF inv x] and hy = head_order_view [OF inv y]
  note gx = side_ordersD(1) [OF inv hx(2)]
  have ok: "order_ok x" "order_ok y"
    using side_orders_ok [OF inv] hx(2) hy(2) by auto
  have q: "0 < q" "q \<le> remaining x" "q \<le> remaining y" and one: "\<not> (refreshes x q \<and> refreshes y q)"
    using order_okD(3) [OF ok(1)] order_okD(3) [OF ok(2)] by (auto simp: q_def refreshes_def)
  have turn: "uncross_one b price =
      attempt (fill_resting b x q) (\<lambda>(br, b1).
      attempt (fill_resting b1 y q) (\<lambda>(sr, b2).
      Ok (Some (\<lparr>cross_buy = bo_order_id x, cross_sell = bo_order_id y, cross_quantity = q,
        buy_remaining = br, sell_remaining = sr, buy_priority = priority x, sell_priority = priority y\<rparr>, b2))))"
    using assms(4,5) hx(1,3) hy(1,3) by (simp add: uncross_one_def q_def Let_def)
  show ?thesis
  proof (cases "refreshes x q \<and> \<not> Suc (next_priority b) < 2 ^ 64")
    case True
    then show ?thesis
      using fill_resting_overflow [OF inv gx q(1)] turn by simp
  next
    case False
    then obtain b1 where f1: "fill_resting b x q = Ok (remaining x - q, b1)" "after_fill b x q b1"
      using fill_resting_spec [OF inv gx q(1,2)] by blast
    have inv1: "book_inv b1" and n1: "next_priority b1 = next_priority b + (if refreshes x q then 1 else 0)"
      using f1(2) by (auto simp: after_fill_def)
    have y1: "book_orders b1 Sell = y # ys"
      using book_orders_other_side [OF inv f1(2) hx(2)] y by simp
    note gy = head_order_view(2) [OF inv1 y1]
    show ?thesis
    proof (cases "refreshes y q \<and> \<not> Suc (next_priority b1) < 2 ^ 64")
      case True
      then show ?thesis
        using fill_resting_overflow [OF inv1 side_ordersD(1) [OF inv1 gy] q(1)] turn f1(1) n1 one by auto
    next
      case False
      then obtain b2 where f2: "fill_resting b1 y q = Ok (remaining y - q, b2)" "after_fill b1 y q b2"
        using fill_resting_spec [OF inv1 side_ordersD(1) [OF inv1 gy] q(1,3)] by blast
      then have "next_priority b2 \<le> Suc (next_priority b)"
        using n1 one by (auto simp: after_fill_def)
      then show ?thesis
        using turn f1 f2 gy y1 by auto
    qed
  qed
qed

text \<open>
  What a completed run of \<open>uncross\<close> guarantees. The last two parts say that a price
  range with quantity left over took part in every trade of its side, which is the
  price priority of the run.
\<close>

definition uncrossed_at :: "price_ticks \<Rightarrow> book \<Rightarrow> cross list \<Rightarrow> book \<Rightarrow> bool" where
  "uncrossed_at price b cs b' \<longleftrightarrow>
     book_inv b' \<and>
     uncrossing price (book_orders b Buy) (book_orders b Sell) (next_priority b) cs
       (book_orders b' Buy) (book_orders b' Sell) (next_priority b') \<and>
     (\<Sum>c \<leftarrow> cs. cross_quantity c) = min (volume b Buy (\<lambda>p. price \<le> p)) (volume b Sell (\<lambda>p. p \<le> price)) \<and>
     (\<forall>c \<in> set cs. 0 < cross_quantity c) \<and>
     (\<forall>k. 0 < volume b' Buy (\<lambda>p. k \<le> p) \<longrightarrow>
        volume b Buy (\<lambda>p. k \<le> p) = volume b' Buy (\<lambda>p. k \<le> p) + (\<Sum>c \<leftarrow> cs. cross_quantity c)) \<and>
     (\<forall>k. 0 < volume b' Sell (\<lambda>p. p \<le> k) \<longrightarrow>
        volume b Sell (\<lambda>p. p \<le> k) = volume b' Sell (\<lambda>p. p \<le> k) + (\<Sum>c \<leftarrow> cs. cross_quantity c))"

lemma uncrossed_at_stop:
  assumes inv: "book_inv b"
    and stop: "book_orders b Buy = [] \<or> book_orders b Sell = [] \<or>
      bo_price (hd (book_orders b Buy)) < price \<or> price < bo_price (hd (book_orders b Sell))"
  shows "uncrossed_at price b [] b"
proof -
  have worse: "price_rank sd (bo_price (hd (book_orders b sd))) \<le> price_rank sd (bo_price x)"
    if "x \<in> side_orders b sd" for x sd
    using that best_price_rank [OF inv _ that] book_orders_set [OF inv, of sd]
    by (cases "book_orders b sd") (auto simp: best_view [OF inv])
  have "volume b Buy (\<lambda>p. price \<le> p) = 0 \<or> volume b Sell (\<lambda>p. p \<le> price) = 0"
    using stop
  proof (elim disjE)
    assume "bo_price (hd (book_orders b Buy)) < price"
    then have "\<forall>x \<in> side_orders b Buy. \<not> price \<le> bo_price x"
      using worse [of _ Buy] by (force simp: price_rank_def)
    then show ?thesis
      by (simp add: volume_zero_iff [OF inv])
  next
    assume "price < bo_price (hd (book_orders b Sell))"
    then have "\<forall>x \<in> side_orders b Sell. \<not> bo_price x \<le> price"
      using worse [of _ Sell] by (force simp: price_rank_def)
    then show ?thesis
      by (simp add: volume_zero_iff [OF inv])
  qed (simp_all add: volume_def)
  then have "0 = min (volume b Buy (\<lambda>p. price \<le> p)) (volume b Sell (\<lambda>p. p \<le> price))"
    using volume_nonneg [OF inv, of Buy "\<lambda>p. price \<le> p"] volume_nonneg [OF inv, of Sell "\<lambda>p. p \<le> price"]
    by (auto simp: min_def)
  then show ?thesis
    using inv uncrossing.stop [OF stop] by (simp add: uncrossed_at_def)
qed

lemma uncrossed_at_cross:
  assumes inv: "book_inv b" and x: "book_orders b Buy = x # xs" and y: "book_orders b Sell = y # ys"
    and px: "price \<le> bo_price x" and py: "bo_price y \<le> price"
    and q: "q = min (remaining x) (remaining y)"
    and f1: "after_fill b x q b1" and f2: "after_fill b1 y q b2"
    and y1: "y \<in> side_orders b1 Sell" "book_orders b1 Sell = y # ys"
    and tail: "uncrossed_at price b2 cs b'"
  shows "uncrossed_at price b (\<lparr>cross_buy = bo_order_id x, cross_sell = bo_order_id y, cross_quantity = q,
        buy_remaining = remaining x - q, sell_remaining = remaining y - q,
        buy_priority = priority x, sell_priority = priority y\<rparr> # cs) b'"
proof -
  let ?total = "\<Sum>c \<leftarrow> cs. cross_quantity c"
  note hx = head_order_view(2,3) [OF inv x] and hy = head_order_view(2,3) [OF inv y]
  have inv1: "book_inv b1" and inv2: "book_inv b2"
    and n: "next_priority b1 = next_priority b + (if refreshes x q then 1 else 0)"
      "next_priority b2 = next_priority b1 + (if refreshes y q then 1 else 0)"
    using f1 f2 by (auto simp: after_fill_def)
  have pos: "0 < q"
    using order_okD(3) [OF side_orders_ok [OF inv hx(1)]] order_okD(3) [OF side_orders_ok [OF inv hy(1)]] q
    by simp
  have views: "book_orders b2 Buy = fill_head x q (next_priority b) xs"
    "book_orders b2 Sell = fill_head y q (next_priority b1) ys"
    using book_orders_other_side [OF inv1 f2 y1(1)] book_orders_fill [OF inv f1 x] book_orders_fill [OF inv1 f2 y1(2)]
    by simp_all
  have vol: "volume b2 Buy P = volume b Buy P - (if P (bo_price x) then q else 0)"
    "volume b2 Sell P = volume b Sell P - (if P (bo_price y) then q else 0)" for P
    using volume_fill [OF inv f1 hx(1), of P] volume_fill [OF inv1 f2 y1(1), of P] by simp_all
  have total: "0 \<le> ?total"
    using tail by (force simp: uncrossed_at_def intro!: sum_list_nonneg)
  have buy: "volume b Buy (\<lambda>p. k \<le> p) = volume b' Buy (\<lambda>p. k \<le> p) + (q + ?total)"
    if k: "0 < volume b' Buy (\<lambda>p. k \<le> p)" for k
  proof -
    have eq: "volume b2 Buy (\<lambda>p. k \<le> p) = volume b' Buy (\<lambda>p. k \<le> p) + ?total"
      using tail k by (simp add: uncrossed_at_def)
    then have "volume b Buy (\<lambda>p. k \<le> p) \<noteq> 0"
      using k total pos vol(1) [of "\<lambda>p. k \<le> p"] by (auto split: if_splits)
    then obtain z where "z \<in> side_orders b Buy" "k \<le> bo_price z"
      using volume_zero_iff [OF inv, of Buy "\<lambda>p. k \<le> p"] by blast
    then have "k \<le> bo_price x"
      using best_price_rank [OF inv hx(2), of z] by (simp add: price_rank_def)
    then show ?thesis
      using eq vol(1) [of "\<lambda>p. k \<le> p"] by simp
  qed
  have sell: "volume b Sell (\<lambda>p. p \<le> k) = volume b' Sell (\<lambda>p. p \<le> k) + (q + ?total)"
    if k: "0 < volume b' Sell (\<lambda>p. p \<le> k)" for k
  proof -
    have eq: "volume b2 Sell (\<lambda>p. p \<le> k) = volume b' Sell (\<lambda>p. p \<le> k) + ?total"
      using tail k by (simp add: uncrossed_at_def)
    then have "volume b Sell (\<lambda>p. p \<le> k) \<noteq> 0"
      using k total pos vol(2) [of "\<lambda>p. p \<le> k"] by (auto split: if_splits)
    then obtain z where "z \<in> side_orders b Sell" "bo_price z \<le> k"
      using volume_zero_iff [OF inv, of Sell "\<lambda>p. p \<le> k"] by blast
    then have "bo_price y \<le> k"
      using best_price_rank [OF inv hy(2), of z] by (simp add: price_rank_def)
    then show ?thesis
      using eq vol(2) [of "\<lambda>p. p \<le> k"] by simp
  qed
  have "q + ?total = min (volume b Buy (\<lambda>p. price \<le> p)) (volume b Sell (\<lambda>p. p \<le> price))"
    using tail vol(1) [of "\<lambda>p. price \<le> p"] vol(2) [of "\<lambda>p. p \<le> price"] px py by (simp add: uncrossed_at_def)
  moreover have "uncrossing price (x # xs) (y # ys) (next_priority b)
      (\<lparr>cross_buy = bo_order_id x, cross_sell = bo_order_id y, cross_quantity = q,
        buy_remaining = remaining x - q, sell_remaining = remaining y - q,
        buy_priority = priority x, sell_priority = priority y\<rparr> # cs)
      (book_orders b' Buy) (book_orders b' Sell) (next_priority b')"
    using tail views by (intro uncrossing.cross [OF px py q n]) (simp add: uncrossed_at_def)
  ultimately show ?thesis
    using tail buy sell pos x y by (simp add: uncrossed_at_def)
qed

lemma uncross_loop_spec:
  assumes "book_inv b"
  shows "\<exists>res. uncross_loop b price = Some res \<and>
    (case res of
       Inl e \<Rightarrow> e = BookOverflow \<and> 2 ^ 64 \<le> next_priority b + nat (volume b Buy (\<lambda>p. price \<le> p))
     | Inr (cs, b') \<Rightarrow> uncrossed_at price b cs b')"
  using assms
proof (induction "nat (volume b Buy (\<lambda>p. price \<le> p))" arbitrary: b rule: less_induct)
  case less
  show ?case
  proof (cases "book_orders b Buy = [] \<or> book_orders b Sell = [] \<or>
      bo_price (hd (book_orders b Buy)) < price \<or> price < bo_price (hd (book_orders b Sell))")
    case True
    then have "uncross_loop b price = Some (Ok ([], b))"
      using uncross_one_stop [OF less.prems] by (subst uncross_loop.simps) simp
    then show ?thesis
      using uncrossed_at_stop [OF less.prems True] by simp
  next
    case False
    then obtain x xs y ys where x: "book_orders b Buy = x # xs" and y: "book_orders b Sell = y # ys"
      and px: "price \<le> bo_price x" and py: "bo_price y \<le> price"
      by (cases "book_orders b Buy"; cases "book_orders b Sell") auto
    define q where "q = min (remaining x) (remaining y)"
    define c where "c = \<lparr>cross_buy = bo_order_id x, cross_sell = bo_order_id y, cross_quantity = q,
      buy_remaining = remaining x - q, sell_remaining = remaining y - q,
      buy_priority = priority x, sell_priority = priority y\<rparr>"
    note hx = head_order_view(2) [OF less.prems x] and hy = head_order_view(2) [OF less.prems y]
    have q: "0 < q" "q \<le> remaining x"
      using order_okD(3) [OF side_orders_ok [OF less.prems hx]] order_okD(3) [OF side_orders_ok [OF less.prems hy]]
      by (auto simp: q_def)
    have le: "remaining x \<le> volume b Buy (\<lambda>p. price \<le> p)"
      using volume_pos [OF less.prems hx] px .
    from uncross_one_cross [OF less.prems x y px py] consider
      (over) "\<not> Suc (next_priority b) < 2 ^ 64" "uncross_one b price = Err BookOverflow"
      | (go) b1 b2 where "after_fill b x q b1" "after_fill b1 y q b2" "y \<in> side_orders b1 Sell"
        "book_orders b1 Sell = y # ys" "next_priority b2 \<le> Suc (next_priority b)"
        "uncross_one b price = Ok (Some (c, b2))"
      unfolding q_def c_def by blast
    then show ?thesis
    proof cases
      case over
      then show ?thesis
        using q le by (subst uncross_loop.simps) auto
    next
      case go
      have inv1: "book_inv b1" and inv2: "book_inv b2"
        using go(1,2) by (auto simp: after_fill_def)
      have vol: "volume b2 Buy (\<lambda>p. price \<le> p) = volume b Buy (\<lambda>p. price \<le> p) - q"
        using volume_fill(1) [OF less.prems go(1) hx, of "\<lambda>p. price \<le> p"]
          volume_fill(2) [OF inv1 go(2,3), of "\<lambda>p. price \<le> p"] px by simp
      then obtain res where res: "uncross_loop b2 price = Some res"
        and IH: "case res of
            Inl e \<Rightarrow> e = BookOverflow \<and> 2 ^ 64 \<le> next_priority b2 + nat (volume b2 Buy (\<lambda>p. price \<le> p))
          | Inr (cs, b') \<Rightarrow> uncrossed_at price b2 cs b'"
        using less.hyps [OF _ inv2] q le by auto
      have loop: "uncross_loop b price = Some (attempt res (\<lambda>(cs, b''). Ok (c # cs, b'')))"
        using go(6) res by (subst uncross_loop.simps) simp
      have "next_priority b2 + nat (volume b2 Buy (\<lambda>p. price \<le> p)) \<le> next_priority b + nat (volume b Buy (\<lambda>p. price \<le> p))"
        using go(5) vol q le by auto
      then show ?thesis
        using loop IH uncrossed_at_cross [OF less.prems x y px py q_def go(1-4)]
        by (cases res) (auto simp: c_def)
    qed
  qed
qed

text \<open>
  C30. Uncrossing always ends and implements the auction rule. On a well-formed book
  with enough priority numbers left, \<open>uncross\<close> returns, keeps the book well formed,
  makes exactly the crosses the relation \<open>uncrossing\<close> prescribes for the two sides in
  matching priority, and trades all that both sides can trade at the price.
\<close>

theorem uncross_complete:
  assumes "book_inv b" and "next_priority b + nat (volume b Buy (\<lambda>p. price \<le> p)) < 2 ^ 64"
  shows "\<exists>cs b'. uncross_loop b price = Some (Ok (cs, b')) \<and> book_inv b' \<and>
    uncrossing price (book_orders b Buy) (book_orders b Sell) (next_priority b) cs
      (book_orders b' Buy) (book_orders b' Sell) (next_priority b') \<and>
    (\<Sum>c \<leftarrow> cs. cross_quantity c) = min (volume b Buy (\<lambda>p. price \<le> p)) (volume b Sell (\<lambda>p. p \<le> price))"
proof -
  obtain res where "uncross_loop b price = Some res" and "case res of
      Inl e \<Rightarrow> e = BookOverflow \<and> 2 ^ 64 \<le> next_priority b + nat (volume b Buy (\<lambda>p. price \<le> p))
    | Inr (cs, b') \<Rightarrow> uncrossed_at price b cs b'"
    using uncross_loop_spec [OF assms(1)] by blast
  then show ?thesis
    using assms(2) by (cases res) (auto simp: uncrossed_at_def)
qed

text \<open>
  A call auction clears the book: uncrossing at the price \<open>auction_price\<close> chose
  executes exactly the volume it announced and leaves best bid below best ask.
\<close>

theorem auction_clears:
  assumes "book_inv b" and "auction_price b r = Some (p, v)" and "uncross_loop b p = Some (Ok (cs, b'))"
  shows "(\<Sum>c \<leftarrow> cs. cross_quantity c) = v \<and> uncrossed b'"
proof -
  have run: "uncrossed_at p b cs b'"
    using uncross_loop_spec [OF assms(1), of p] assms(3) by simp
  then have inv': "book_inv b'"
    by (simp add: uncrossed_at_def)
  have vol: "cross_volume b k = min (volume b Buy (\<lambda>x. k \<le> x)) (volume b Sell (\<lambda>x. x \<le> k))" for k
    by (simp add: cross_volume_def demand_at_volume [OF assms(1)] supply_at_volume [OF assms(1)])
  have total: "(\<Sum>c \<leftarrow> cs. cross_quantity c) = v"
    using run auction_price_SomeD(2) [OF assms(1,2)] vol by (simp add: uncrossed_at_def)
  have "bo_price x < bo_price y" if x: "x \<in> side_orders b' Buy" and y: "y \<in> side_orders b' Sell" for x y
  proof (rule ccontr)
    let ?k = "bo_price x"
    assume "\<not> bo_price x < bo_price y"
    then have "0 < volume b' Buy (\<lambda>p. ?k \<le> p)" "0 < volume b' Sell (\<lambda>p. p \<le> ?k)"
      using volume_pos [OF inv' x, of "\<lambda>p. ?k \<le> p"] volume_pos [OF inv' y, of "\<lambda>p. p \<le> ?k"]
        order_okD(3) [OF side_orders_ok [OF inv' x]] order_okD(3) [OF side_orders_ok [OF inv' y]]
      by auto
    then have "v < volume b Buy (\<lambda>p. ?k \<le> p)" "v < volume b Sell (\<lambda>p. p \<le> ?k)"
      using run total unfolding uncrossed_at_def by auto
    then show False
      using auction_price_SomeD(5) [OF assms(1,2), of ?k] by (simp add: vol)
  qed
  then show ?thesis
    using total by (simp add: uncrossed_iff [OF inv'])
qed

subsection \<open>Example auction\<close>

definition ex_crossed :: book where
  "ex_crossed =
     \<lparr>bids = [(103, \<lparr>queue = [(1, 2)], level_visible = 5, level_total = 5\<rparr>),
              (105, \<lparr>queue = [(0, 1)], level_visible = 10, level_total = 10\<rparr>)],
      asks = [(100, \<lparr>queue = [(2, 3)], level_visible = 3, level_total = 8\<rparr>),
              (104, \<lparr>queue = [(3, 4)], level_visible = 9, level_total = 9\<rparr>)],
      orders = [(1, new_order 1 Buy 105 10 None 0), (2, new_order 2 Buy 103 5 None 1),
                (3, new_order 3 Sell 100 8 (Some 3) 2), (4, new_order 4 Sell 104 9 None 3)],
      next_priority = 4\<rparr>"

lemma ex_crossed_inv: "book_inv ex_crossed"
proof (rule rest_all_inv)
  show "rest_all book_new
      [(1, Buy, 105, 10, None), (2, Buy, 103, 5, None), (3, Sell, 100, 8, Some 3), (4, Sell, 104, 9, None)] = Ok ex_crossed"
    by (simp add: book_eval ex_crossed_def)
qed (simp_all add: book_inv_new in_i64_def)

lemma ex_auction: "auction_price ex_crossed 104 = Some (104, 10)"
  by (simp add: auction_price_def auction_result_def auction_offer_def auction_better_def Let_def checked_i64_def
      in_i64_def ex_crossed_def)

definition ex_cleared :: book where
  "ex_cleared =
     \<lparr>bids = [(103, \<lparr>queue = [(1, 2)], level_visible = 5, level_total = 5\<rparr>)],
      asks = [(104, \<lparr>queue = [(3, 4)], level_visible = 7, level_total = 7\<rparr>)],
      orders = [(2, new_order 2 Buy 103 5 None 1),
                (4, \<lparr>bo_order_id = 4, bo_side = Sell, bo_price = 104, remaining = 7, visible = 7,
                     display = None, priority = 3\<rparr>)],
      next_priority = 4\<rparr>"

definition ex_crosses :: "cross list" where
  "ex_crosses =
     [\<lparr>cross_buy = 1, cross_sell = 3, cross_quantity = 8, buy_remaining = 2, sell_remaining = 0,
       buy_priority = 0, sell_priority = 2\<rparr>,
      \<lparr>cross_buy = 1, cross_sell = 4, cross_quantity = 2, buy_remaining = 0, sell_remaining = 7,
       buy_priority = 0, sell_priority = 3\<rparr>]"

lemma ex_uncross: "uncross_loop ex_crossed 104 = Some (Ok (ex_crosses, ex_cleared))"
  by (simp add: uncross_loop.simps uncross_one_def head_order_def fill_resting_def level_head_def best_def
      refresh_slice_def bt_first_def bt_last_def book_eval ex_crossed_def ex_cleared_def ex_crosses_def)

theorem auction_price_equals_reference_witness:
  "auction_price_reference ex_crossed 104 = Some (104, 10)"
  using auction_price_equals_reference [OF ex_crossed_inv, of 104] ex_auction by simp

theorem auction_price_optimal_witness:
  "(10::int) = min (volume ex_crossed Buy (\<lambda>x. 104 \<le> x)) (volume ex_crossed Sell (\<lambda>x. x \<le> 104)) \<and>
   (\<forall>p'. min (volume ex_crossed Buy (\<lambda>x. p' \<le> x)) (volume ex_crossed Sell (\<lambda>x. x \<le> p')) \<le> 10)"
  using auction_price_optimal [OF ex_crossed_inv ex_auction] by blast

theorem auction_clears_witness: "(\<Sum>c \<leftarrow> ex_crosses. cross_quantity c) = (10::int) \<and> uncrossed ex_cleared"
  using auction_clears [OF ex_crossed_inv ex_auction ex_uncross] .

theorem uncross_complete_witness:
  "\<exists>cs b'. uncross_loop ex_crossed 104 = Some (Ok (cs, b')) \<and> book_inv b' \<and>
    (\<Sum>c \<leftarrow> cs. cross_quantity c) = min (volume ex_crossed Buy (\<lambda>p. 104 \<le> p)) (volume ex_crossed Sell (\<lambda>p. p \<le> 104))"
proof -
  have "volume ex_crossed Buy (\<lambda>p. 104 \<le> p) = 10"
    by (simp add: volume_def book_orders_def best_first_def ex_crossed_def new_order_def List.map_filter_simps)
  then have "next_priority ex_crossed + nat (volume ex_crossed Buy (\<lambda>p. 104 \<le> p)) < 2 ^ 64"
    by (simp add: ex_crossed_def)
  from uncross_complete [OF ex_crossed_inv this] show ?thesis
    by blast
qed

end
