(* ===== verification/Book_Lifecycle.thy ===== *)
theory Book_Lifecycle
  imports Book_Auction
begin

text \<open>
  The book over its whole life: every sequence of its operations, from the empty book,
  keeps the invariant, and the published depth is then the displayed quantity of the
  resting orders, level by level.
\<close>

subsection \<open>Reachable books\<close>

inductive book_step :: "book \<Rightarrow> book \<Rightarrow> bool" where
  rests: "rest b i sd p q disp = Ok b' \<Longrightarrow> in_i64 p \<Longrightarrow> in_i64 q \<Longrightarrow> book_step b b'"
| executes: "execute b taker limit q = Ok (ms, r, b') \<Longrightarrow> in_i64 q \<Longrightarrow> book_step b b'"
| cancels: "cancel b i = Some (ord, b') \<Longrightarrow> book_step b b'"
| uncrosses: "uncross_loop b price = Some (Ok (cs, b')) \<Longrightarrow> book_step b b'"
| reloads: "book_from_record (book_to_record b) = Ok b' \<Longrightarrow> book_step b b'"

lemma reload_same:
  assumes "book_inv b"
  shows "insert_all (next_priority b) (book_new\<lparr>next_priority := next_priority b\<rparr>)
    (rec_orders (book_to_record b)) = Ok b"
  using book_to_record_completes [OF assms] insert_all_completes [OF assms] by blast

lemma book_step_inv:
  assumes "book_inv b" and "book_step b b'"
  shows "book_inv b'"
  using assms(2,1)
proof (cases rule: book_step.cases)
  case (cancels i ord)
  then show ?thesis
    using cancel_spec [OF assms(1), of i] by simp
next
  case (uncrosses price cs)
  then show ?thesis
    using uncross_loop_spec [OF assms(1), of price] by (simp add: uncrossed_at_def)
next
  case reloads
  then show ?thesis
    using reload_same [OF assms(1)] assms(1) by (simp add: book_from_record_def book_to_record_def)
qed (use assms(1) rest_OkD(1) execute_OkD(2) in blast)+

interpretation books: step_system "\<lambda>b. b = book_new" book_step book_inv
  by unfold_locales (auto simp: book_inv_new book_step_inv)

text \<open>
  Every book that any sequence of resting, executing, cancelling, uncrossing and
  reloading reaches from the empty book is well formed: the level maps, queues and
  cached aggregates agree with the orders, quantities are positive and in range, and
  priorities lie below the sequence.
\<close>

theorem book_reachable_inv:
  assumes "book_step\<^sup>*\<^sup>* book_new b"
  shows "book_inv b"
  using books.reachable_inv [OF refl assms] .

theorem book_reachable_inv_witness: "book_inv ex_rested"
proof -
  have r1: "rest book_new 1 Sell 101 10 (Some 4) = Ok \<lparr>bids = [],
      asks = [(101, \<lparr>queue = [(0, 1)], level_visible = 4, level_total = 10\<rparr>)],
      orders = [(1, new_order 1 Sell 101 10 (Some 4) 0)], next_priority = 1\<rparr>" (is "_ = Ok ?b1")
    by (simp add: book_eval)
  have r2: "rest ?b1 2 Sell 101 5 None = Ok \<lparr>bids = [],
      asks = [(101, \<lparr>queue = [(0, 1), (1, 2)], level_visible = 9, level_total = 15\<rparr>)],
      orders = [(1, new_order 1 Sell 101 10 (Some 4) 0), (2, new_order 2 Sell 101 5 None 1)], next_priority = 2\<rparr>" (is "_ = Ok ?b2")
    by (simp add: book_eval)
  have r3: "rest ?b2 3 Sell 103 7 None = Ok (ex_book\<lparr>bids := [], orders := butlast (orders ex_book), next_priority := 3\<rparr>)" (is "_ = Ok ?b3")
    by (simp add: book_eval ex_book_def)
  have r4: "rest ?b3 4 Buy 99 6 None = Ok ex_book"
    by (simp add: book_eval ex_book_def)
  have range: "in_i64 101" "in_i64 103" "in_i64 99" "in_i64 100" "in_i64 10" "in_i64 5" "in_i64 7" "in_i64 6" "in_i64 8"
    by (simp_all add: in_i64_def)
  have "book_step\<^sup>*\<^sup>* book_new ex_rested"
    by (meson r1 r2 r3 r4 ex_rest range book_step.rests rtranclp.rtrancl_into_rtrancl rtranclp.rtrancl_refl)
  then show ?thesis
    by (rule book_reachable_inv)
qed

subsection \<open>Published depth\<close>

lemma view_level_sum:
  assumes inv: "book_inv b" and lv: "bt_get (book_side b sd) p = Some lv"
  shows "(\<Sum>ord \<leftarrow> filter (\<lambda>ord. bo_price ord = p) (book_orders b sd). f ord) = (\<Sum>ord \<leftarrow> queue_orders b lv. f ord :: int)"
proof -
  have "ranked sd (filter (\<lambda>ord. bo_price ord = p) (book_orders b sd))"
    using book_orders_ranked [OF inv] by (rule sorted_wrt_filter)
  then have "filter (\<lambda>ord. bo_price ord = p) (book_orders b sd) = queue_orders b lv"
    using queue_orders_ranked [OF inv lv] queue_orders_set [OF inv lv] book_orders_set [OF inv, of sd]
    by (intro sorted_key_unique [where f = "rank sd"]) auto
  then show ?thesis
    by simp
qed

text \<open>
  Published depth is what the orders display: \<open>depth\<close> lists the prices of a side
  from the best outwards, a price appears exactly when an order rests there, and its
  quantity is the displayed quantity of the orders at that price.
\<close>

theorem depth_displays:
  assumes "book_inv b"
  shows "sorted_wrt (\<lambda>x y. case sd of Buy \<Rightarrow> fst y < fst x | Sell \<Rightarrow> fst x < fst y) (depth b sd) \<and>
    (\<forall>p v. (p, v) \<in> set (depth b sd) \<longleftrightarrow>
       (\<exists>ord \<in> set (book_orders b sd). bo_price ord = p) \<and>
       v = (\<Sum>ord \<leftarrow> filter (\<lambda>ord. bo_price ord = p) (book_orders b sd). visible ord))"
proof -
  have wf: "bt_wf (book_side b sd)"
    using book_invD(1) [OF assms] .
  have "sorted_wrt (\<lambda>x y. case sd of Buy \<Rightarrow> fst y < fst x | Sell \<Rightarrow> fst x < fst y) (depth b sd)"
    using best_first_ranked [OF assms, of sd]
    by (cases sd) (simp_all add: depth_def sorted_wrt_map price_rank_def case_prod_unfold)
  moreover have "(p, v) \<in> set (depth b sd) \<longleftrightarrow>
      (\<exists>lv. bt_get (book_side b sd) p = Some lv \<and> v = level_visible lv)" for p v
    by (force simp: depth_def bt_get_mem [OF wf])
  moreover have "(\<exists>ord \<in> set (book_orders b sd). bo_price ord = p) \<longleftrightarrow> (\<exists>lv. bt_get (book_side b sd) p = Some lv)" for p
    using level_exists_iff [OF assms, of sd p] book_invD(4) [OF assms]
    by (fastforce simp: book_orders_set [OF assms] side_orders_def at_level_def)
  moreover have "level_visible lv = (\<Sum>ord \<leftarrow> filter (\<lambda>ord. bo_price ord = p) (book_orders b sd). visible ord)"
    if "bt_get (book_side b sd) p = Some lv" for p lv
    using level_queue_sums(2) [OF assms that] view_level_sum [OF assms that, of visible] by simp
  ultimately show ?thesis
    by auto
qed

theorem depth_displays_witness:
  "sorted_wrt (\<lambda>x y. fst x < fst y) (depth ex_book Sell) \<and> depth ex_book Sell = [(101, 9), (103, 7)] \<and>
   (9::int) = (\<Sum>ord \<leftarrow> filter (\<lambda>ord. bo_price ord = 101) (book_orders ex_book Sell). visible ord)"
proof -
  have d: "depth ex_book Sell = [(101, 9), (103, 7)]"
    by (simp add: depth_def best_first_def ex_book_def)
  have facts: "sorted_wrt (\<lambda>x y. fst x < fst y) (depth ex_book Sell)"
    "\<forall>p v. (p, v) \<in> set (depth ex_book Sell) \<longleftrightarrow>
       (\<exists>ord \<in> set (book_orders ex_book Sell). bo_price ord = p) \<and>
       v = (\<Sum>ord \<leftarrow> filter (\<lambda>ord. bo_price ord = p) (book_orders ex_book Sell). visible ord)"
    using depth_displays [OF ex_book_inv, of Sell] by simp_all
  moreover have "(101, 9) \<in> set (depth ex_book Sell)"
    by (simp add: d)
  ultimately show ?thesis
    using d by blast
qed

end
