(* ===== verification/Engine.thy ===== *)
theory Engine
  imports Scenario Book_Lifecycle
begin

text \<open>
  The run: \<open>RunState\<close> of \<open>packages/bunting-engine/src/lib.rs\<close> and its transitions. A
  method that takes \<open>&mut self\<close> with \<open>&mut payloads\<close> and \<open>&mut changed_listings\<close> maps a
  \<open>transit\<close> record, which holds the three, to the new one or an error.

  Two outcomes of \<open>engine_error\<close> are not values of the source's type: \<open>Panicked\<close> stands
  for an index that panics and \<open>Diverged\<close> for a loop that does not return. That neither
  occurs on a consistent run is proved, not assumed.
\<close>

subsection \<open>State\<close>

datatype owned_order_state = OrderActive | OrderFilled | OrderCancelled

record owned_order =
  oo_order_id :: order_id
  oo_participant_id :: participant_id
  oo_listing_key :: listing_key
  oo_side :: side
  oo_limit_price :: price_ticks
  original_quantity :: quantity_lots
  remaining_quantity :: quantity_lots
  oo_state :: owned_order_state
  oo_reservation :: reservation
  oo_expires_at :: "logical_time_ns option"
  oo_day :: bool
  oo_anonymous :: bool

record listing_state =
  ls_definition :: listing_definition
  ls_book :: book

record run_state =
  rs_run_id :: run_id
  run_sequence :: event_sequence
  run_event_sequence :: event_sequence
  iteration_id :: nat
  rs_scenario_id :: nat
  rs_scenario_version :: nat
  scenario_hash :: string
  config :: engine_config
  rs_reporting_currency :: currency_id
  rs_fx_rates :: "fx_rate list"
  instruments :: "(instrument_id, instrument_definition) btree_map"
  listings :: "(listing_key, listing_state) btree_map"
  participants :: "(participant_id, participant_definition) btree_map"
  run_ledger :: ledger
  ownership :: "(order_id, owned_order) btree_map"
  retired :: "order_id list"
  expiries :: "(logical_time_ns \<times> order_id) btree_set"
  live_orders :: "(participant_id, nat) btree_map"
  kill_switched :: "participant_id btree_set"
  simulation :: simulation_state
  rs_calendar :: "calendar option"
  session_steps :: "(venue_id, nat) btree_map"
  day_trades :: "(listing_key, price_ticks) btree_map"
  closes :: "(listing_key, price_ticks) btree_map"

datatype engine_error =
    InvalidScenario | UnknownListing | AmbiguousListing | SequenceConflictAt event_sequence
  | SequenceOverflow | OwnershipInvariant | Accounting | SimulationFailed simulation_error
  | SnapshotFailed snapshot_error | Panicked | Diverged

record transit =
  run :: run_state
  payloads :: "event_payload list"
  changed :: "listing_key btree_set"

definition push :: "event_payload \<Rightarrow> transit \<Rightarrow> transit" where
  "push p t = t\<lparr>payloads := payloads t @ [p]\<rparr>"

definition touch :: "listing_key \<Rightarrow> transit \<Rightarrow> transit" where
  "touch k t = t\<lparr>changed := bs_insert k (changed t)\<rparr>"

definition set_book :: "run_state \<Rightarrow> listing_key \<Rightarrow> listing_state \<Rightarrow> book \<Rightarrow> run_state" where
  "set_book s k ls b = s\<lparr>listings := bt_insert k (ls\<lparr>ls_book := b\<rparr>) (listings s)\<rparr>"

text \<open>A ledger error becomes \<open>EngineError::Accounting\<close>.\<close>

definition accounting :: "('a, ledger_error) result \<Rightarrow> ('a, engine_error) result" where
  "accounting r = map_err (\<lambda>_. Accounting) r"

subsection \<open>Queries\<close>

definition live_order_count :: "run_state \<Rightarrow> participant_id \<Rightarrow> nat" where
  "live_order_count s p = (case bt_get (live_orders s) p of None \<Rightarrow> 0 | Some n \<Rightarrow> n)"

definition kill_switch_active :: "run_state \<Rightarrow> participant_id \<Rightarrow> bool" where
  "kill_switch_active s p \<longleftrightarrow> p \<in> set (kill_switched s)"

definition participant_live_orders :: "run_state \<Rightarrow> participant_id \<Rightarrow> owned_order list" where
  "participant_live_orders s p =
     filter (\<lambda>x. oo_participant_id x = p \<and> oo_state x = OrderActive) (map snd (ownership s))"

definition run_net_liquidation_value :: "run_state \<Rightarrow> participant_id \<Rightarrow> (money_minor, engine_error) result" where
  "run_net_liquidation_value s p =
     accounting (reporting_value (run_ledger s) p (rs_reporting_currency s) (rs_fx_rates s))"

definition listing_key_for_instrument :: "run_state \<Rightarrow> instrument_id \<Rightarrow> (listing_key, engine_error) result" where
  "listing_key_for_instrument s i =
     (case filter (\<lambda>k. lk_instrument k = i) (map fst (listings s)) of
        [] \<Rightarrow> Err UnknownListing
      | [k] \<Rightarrow> Ok k
      | _ \<Rightarrow> Err AmbiguousListing)"

definition visible_levels ::
    "run_state \<Rightarrow> listing_key \<Rightarrow>
     ((price_ticks \<times> quantity_lots) list \<times> (price_ticks \<times> quantity_lots) list, engine_error) result" where
  "visible_levels s k =
     attempt (ok_or UnknownListing (bt_get (listings s) k)) (\<lambda>ls.
     Ok (depth (ls_book ls) Buy, depth (ls_book ls) Sell))"

definition run_session_phase :: "run_state \<Rightarrow> venue_id \<Rightarrow> session_phase" where
  "run_session_phase s v =
     (if rs_calendar s = None then Continuous
      else phase_after (case bt_get (session_steps s) v of None \<Rightarrow> 0 | Some n \<Rightarrow> n))"

definition official_close :: "run_state \<Rightarrow> listing_key \<Rightarrow> price_ticks option" where
  "official_close s k = bt_get (closes s) k"

text \<open>\<open>Iterator::min_by_key\<close> returns the first least element.\<close>

definition min_by_key :: "('a \<Rightarrow> 'k::linorder) \<Rightarrow> 'a list \<Rightarrow> 'a option" where
  "min_by_key key xs =
     (case xs of [] \<Rightarrow> None | x # ys \<Rightarrow> Some (foldl (\<lambda>m y. if key y < key m then y else m) x ys))"

definition next_boundary :: "run_state \<Rightarrow> (venue_id \<times> nat \<times> boundary) option" where
  "next_boundary s =
     Option.bind (rs_calendar s) (\<lambda>c.
     min_by_key (\<lambda>(venue, stp, bnd). (b_at bnd, venue))
       (List.map_filter (\<lambda>(venue, stp). map_option (\<lambda>bnd. (venue, stp, bnd)) (calendar_boundary c venue stp))
          (session_steps s)))"

definition night_until :: "run_state \<Rightarrow> logical_time_ns option" where
  "night_until s =
     (if list_ex (\<lambda>(venue, _). run_session_phase s venue \<noteq> Closed) (session_steps s) then None
      else Option.bind (next_boundary s) (\<lambda>(_, _, bnd).
           if b_phase bnd = PreOpen \<and> b_at bnd > clock_now (clock (simulation s))
           then Some (b_at bnd) else None))"

definition run_next_due :: "run_state \<Rightarrow> logical_time_ns option" where
  "run_next_due s =
     min_option (List.map_filter (\<lambda>x. x)
       [simulation_next_due (simulation s),
        case expiries s of [] \<Rightarrow> None | e # _ \<Rightarrow> Some (fst e),
        map_option (\<lambda>(_, _, bnd). b_at bnd) (next_boundary s)])"

subsection \<open>Orders and fills\<close>

definition per_lot_fee :: "money_minor \<Rightarrow> quantity_lots \<Rightarrow> (money_minor, engine_error) result" where
  "per_lot_fee per_lot q = ok_or Accounting (i128_checked_mul per_lot q)"

text \<open>Takes a fill off an order; the second component is the event the source pushes.\<close>

definition reduce_order ::
    "order_id \<Rightarrow> quantity_lots \<Rightarrow> (order_id, owned_order) btree_map \<Rightarrow>
     ((order_id, owned_order) btree_map \<times> event_payload, engine_error) result" where
  "reduce_order i q own =
     attempt (ok_or OwnershipInvariant (bt_get own i)) (\<lambda>x.
     attempt (ok_or Accounting (Option.bind (i64_checked_sub (remaining_quantity x) q)
                (\<lambda>r. if r \<ge> 0 then Some r else None))) (\<lambda>r.
     if r = 0
     then Ok (bt_insert i (x\<lparr>remaining_quantity := r, oo_state := OrderFilled\<rparr>) own, OrderCompleted i)
     else Ok (bt_insert i (x\<lparr>remaining_quantity := r\<rparr>) own, OrderReduced i r)))"

definition order_party ::
    "(participant_id, participant_definition) btree_map \<Rightarrow> owned_order \<Rightarrow> money_minor \<Rightarrow> fill_party" where
  "order_party ps x fee =
     \<lparr>party_participant = oo_participant_id x, party_fee = fee, party_order = Some (oo_reservation x),
      enforce_funding = funded ps (oo_participant_id x)\<rparr>"

text \<open>A filled order leaves the expiry index.\<close>

definition drop_expiry :: "order_id \<times> logical_time_ns option \<Rightarrow> run_state \<Rightarrow> run_state" where
  "drop_expiry e s =
     (case e of
        (i, Some at) \<Rightarrow>
          (case bt_get (ownership s) i of
             Some x \<Rightarrow> if remaining_quantity x = 0 then s\<lparr>expiries := bs_remove (at, i) (expiries s)\<rparr> else s
           | None \<Rightarrow> s)
      | (_, None) \<Rightarrow> s)"

text \<open>The ownership part of a fill: both orders shrink, and the expiry index follows.\<close>

definition reduce_filled ::
    "order_id \<Rightarrow> order_id \<Rightarrow> owned_order \<Rightarrow> owned_order \<Rightarrow> quantity_lots \<Rightarrow> bool \<Rightarrow> transit \<Rightarrow>
     (transit, engine_error) result" where
  "reduce_filled maker_id taker_id mk tk q auction t =
     attempt (reduce_order maker_id q (ownership (run t))) (\<lambda>(own1, e1).
     attempt (reduce_order taker_id q own1) (\<lambda>(own2, e2).
     let t1 = push e1 t;
         t2 = (if auction then push e2 t1 else t1)\<lparr>run := (run t)\<lparr>ownership := own2\<rparr>\<rparr>;
         settled = (maker_id, oo_expires_at mk) # (if auction then [(taker_id, oo_expires_at tk)] else [])
     in Ok (t2\<lparr>run := fold drop_expiry settled (run t2)\<rparr>)))"

text \<open>The settled ledger and, in a run with a calendar, the listing's last trade of the day.\<close>

definition post_trade :: "listing_key \<Rightarrow> price_ticks \<Rightarrow> ledger \<Rightarrow> run_state \<Rightarrow> run_state" where
  "post_trade k price l s =
     (let s1 = s\<lparr>run_ledger := l\<rparr> in
      if rs_calendar s1 \<noteq> None then s1\<lparr>day_trades := bt_insert k price (day_trades s1)\<rparr> else s1)"

definition settle_fill ::
    "listing_key \<Rightarrow> order_id \<Rightarrow> order_id \<Rightarrow> price_ticks \<Rightarrow> quantity_lots \<Rightarrow> bool \<Rightarrow> transit \<Rightarrow>
     (transit, engine_error) result" where
  "settle_fill k maker_id taker_id price q auction t =
     (let s = run t in
      attempt (ok_or Panicked (bt_get (listings s) k)) (\<lambda>ls.
      let fs = ld_fees (ls_definition ls) in
      attempt (ok_or OwnershipInvariant (bt_get (ownership s) maker_id)) (\<lambda>mk.
      attempt (ok_or OwnershipInvariant (bt_get (ownership s) taker_id)) (\<lambda>tk.
      if oo_listing_key mk \<noteq> k \<or> oo_state mk \<noteq> OrderActive \<or> oo_listing_key tk \<noteq> k
      then Err OwnershipInvariant
      else
        attempt (per_lot_fee (if auction then taker_per_lot fs else maker_per_lot fs) q) (\<lambda>maker_fee.
        attempt (per_lot_fee (taker_per_lot fs) q) (\<lambda>taker_fee.
        let tp = order_party (participants s) tk taker_fee;
            mp = order_party (participants s) mk maker_fee;
            (b, sl) = (if oo_side tk = Buy then (tp, mp) else (mp, tp))
        in attempt (accounting (settle (run_ledger s)
             \<lparr>fill_instrument = lk_instrument k, fill_price = price, fill_quantity = q,
              buyer = Some b, seller = Some sl, fill_set_mark = True\<rparr>)) (\<lambda>l.
           attempt (reduce_filled maker_id taker_id mk tk q auction (t\<lparr>run := post_trade k price l s\<rparr>)) (\<lambda>t1.
           Ok (push (TradeExecuted (lk_instrument k) (Some k) maker_id taker_id
                 (party_participant b) (party_participant sl) price q (party_fee b) (party_fee sl)) t1)))))))))"

definition settle_matches ::
    "order_id \<Rightarrow> listing_key \<Rightarrow> book_match list \<Rightarrow> transit \<Rightarrow> (transit, engine_error) result" where
  "settle_matches taker_id k ms t =
     try_fold (\<lambda>m. settle_fill k (maker m) taker_id (match_price m) (match_quantity m) False) ms t"

definition cancel_order :: "order_id \<Rightarrow> cancel_reason \<Rightarrow> transit \<Rightarrow> (transit, engine_error) result" where
  "cancel_order i reason t =
     (let s = run t in
      attempt (ok_or OwnershipInvariant (Option.bind (bt_get (ownership s) i)
                 (\<lambda>x. if oo_state x = OrderActive then Some x else None))) (\<lambda>x.
      attempt (ok_or UnknownListing (bt_get (listings s) (oo_listing_key x))) (\<lambda>ls.
      attempt (ok_or OwnershipInvariant (cancel (ls_book ls) i)) (\<lambda>(resting, b).
      let s1 = set_book s (oo_listing_key x) ls b in
      if remaining resting \<noteq> remaining_quantity x then Err OwnershipInvariant
      else
        attempt (accounting (close_order (run_ledger s1) (oo_participant_id x) (lk_instrument (oo_listing_key x))
                   (oo_side x) (remaining_quantity x) (oo_reservation x))) (\<lambda>l.
        let s2 = s1\<lparr>run_ledger := l,
              expiries := (case oo_expires_at x of None \<Rightarrow> expiries s1 | Some at \<Rightarrow> bs_remove (at, i) (expiries s1)),
              ownership := bt_insert i (x\<lparr>oo_state := OrderCancelled, remaining_quantity := 0\<rparr>) (ownership s1)\<rparr>
        in Ok (push (OrderCanceled i (oo_participant_id x) (lk_instrument (oo_listing_key x))
                 (Some (oo_listing_key x)) (remaining_quantity x) reason) (t\<lparr>run := s2\<rparr>)))))))"

subsection \<open>Expiry\<close>

text \<open>Orders a run still has in its books.\<close>

definition active_ids :: "run_state \<Rightarrow> order_id set" where
  "active_ids s = {i. \<exists>x. bt_get (ownership s) i = Some x \<and> oo_state x = OrderActive}"

lemma finite_active_ids [simp]: "finite (active_ids s)"
  by (rule finite_subset [OF _ finite_dom_map_of [of "ownership s"]]) (auto simp: active_ids_def)

lemma push_sel [simp]:
  "run (push p t) = run t" "payloads (push p t) = payloads t @ [p]" "changed (push p t) = changed t"
  by (simp_all add: push_def)

lemma touch_sel [simp]:
  "run (touch k t) = run t" "payloads (touch k t) = payloads t" "changed (touch k t) = bs_insert k (changed t)"
  by (simp_all add: touch_def)

lemma cancel_order_active_ids:
  assumes "cancel_order i reason t = Ok t'"
  shows "active_ids (run t') = active_ids (run t) - {i}" and "i \<in> active_ids (run t)"
  using assms
  by (auto simp: cancel_order_def Let_def result_simps active_ids_def set_book_def bind_eq_Some_conv
      split: if_splits)

text \<open>Each turn cancels a live order, so the loop ends.\<close>

function expire_due :: "logical_time_ns \<Rightarrow> transit \<Rightarrow> (transit, engine_error) result" where
  "expire_due now t =
     (case expiries (run t) of
        [] \<Rightarrow> Ok t
      | (at, i) # _ \<Rightarrow>
          if at > now then Ok t
          else
            attempt (ok_or OwnershipInvariant (map_option oo_listing_key (bt_get (ownership (run t)) i))) (\<lambda>k.
            attempt (cancel_order i Expired (touch k t)) (\<lambda>t'.
            expire_due now t')))"
  by pat_completeness simp
termination
proof (relation "measure (\<lambda>(now, t). card (active_ids (run t)))", goal_cases)
  case (2 now t e es at i k t')
  note cancel_order_active_ids [OF 2(5), unfolded touch_sel]
  then have "card (active_ids (run t')) < card (active_ids (run t))"
    by (simp only: card_Diff1_less finite_active_ids)
  then show ?case
    by (simp only: in_measure prod.case)
qed (rule wf_measure)

declare expire_due.simps [simp del]

subsection \<open>Submission\<close>

text \<open>\<open>usize\<close> subtraction of a release build.\<close>

definition usize_sub :: "nat \<Rightarrow> nat \<Rightarrow> nat" where
  "usize_sub a b = (if b \<le> a then a - b else a + 2 ^ 64 - b)"

text \<open>The checks before the listing is read.\<close>

definition submit_identity :: "run_state \<Rightarrow> submit_order \<Rightarrow> (participant_definition, reject_code) result" where
  "submit_identity s order =
     (if so_order_id order = 0 then Err InvalidOrderId
      else if bt_get (ownership s) (so_order_id order) \<noteq> None then Err DuplicateOrderId
      else if usize_sub (length (ownership s)) (length (retired s)) \<ge> MAX_LIVE_ORDERS
      then Err MaxOpenOrderQuantity
      else if so_quantity order \<le> 0 then Err InvalidQuantity
      else ok_or ParticipantDisabled (bt_get (participants s) (so_participant_id order)))"

text \<open>Limit, time in force, post-only flag and display size of an order.\<close>

fun order_terms ::
    "order_kind \<Rightarrow> price_ticks option \<times> time_in_force \<times> bool \<times> quantity_lots option" where
  "order_terms (Limit price) = (Some price, Gtc, False, None)"
| "order_terms Market = (None, Ioc, False, None)"
| "order_terms (LimitWithPolicy price tif post_only disp) = (Some price, tif, post_only, disp)"

definition expiry_of :: "logical_time_ns \<Rightarrow> time_in_force \<Rightarrow> (logical_time_ns option, reject_code) result" where
  "expiry_of now tif =
     (case tif of Gtd at \<Rightarrow> if at \<le> now then Err InvalidTimeInForce else Ok (Some at) | _ \<Rightarrow> Ok None)"

record plan =
  pl_limit :: "price_ticks option"
  pl_tif :: time_in_force
  pl_display :: "quantity_lots option"
  pl_expires_at :: "logical_time_ns option"
  pl_immediate :: bool
  pl_call :: bool
  pl_admission :: admission

text \<open>The checks on the order, the session phase, the book and the limits.\<close>

definition submit_check ::
    "run_state \<Rightarrow> submit_order \<Rightarrow> listing_key \<Rightarrow> logical_time_ns \<Rightarrow> participant_definition \<Rightarrow>
     listing_state \<Rightarrow> (plan, reject_code) result" where
  "submit_check s order k now participant ls =
     (let (limit, tif, post_only, disp) = order_terms (so_kind order);
          def = ls_definition ls
      in attempt (expiry_of now tif) (\<lambda>expires_at.
         let immediate = (tif = Ioc \<or> tif = Fok) in
         if (case disp of None \<Rightarrow> False | Some peak \<Rightarrow> peak \<le> 0 \<or> peak > so_quantity order) \<or>
            (immediate \<and> (post_only \<or> disp \<noteq> None))
         then Err InvalidTimeInForce
         else
           attempt (case run_session_phase s (lk_venue k) of
                      Closed \<Rightarrow> Err MarketClosed
                    | PreOpen \<Rightarrow> Ok True | ClosingCall \<Rightarrow> Ok True | Continuous \<Rightarrow> Ok False) (\<lambda>call.
           if call \<and> (limit = None \<or> immediate) then Err CallPhaseOrderType
           else if limit = None \<and> best (ls_book ls) (opposite (so_side order)) = None
           then Err InsufficientLiquidity
           else if (case limit of None \<Rightarrow> False | Some price \<Rightarrow>
                      post_only \<and> \<not> call \<and> would_cross (ls_book ls) (so_side order) price)
           then Err PostOnlyWouldCross
           else
             let market_bound = (case so_side order of
                   Buy \<Rightarrow> bounds_max (ld_price_bounds def) | Sell \<Rightarrow> bounds_min (ld_price_bounds def)) in
             attempt (admit (pd_limits participant) (pd_enabled participant) order
               \<lparr>lt_price_bounds = ld_price_bounds def, fee_bound = fee_schedule_bound (ld_fees def),
                lt_tick_size = ld_tick_size def\<rparr>
               (run_ledger s) (if limit = None then Some market_bound else None)) (\<lambda>adm.
             attempt (if immediate then Ok ()
                      else admit_live_order_count (pd_limits participant)
                             (live_order_count s (so_participant_id order))) (\<lambda>_.
             Ok \<lparr>pl_limit = limit, pl_tif = tif, pl_display = disp, pl_expires_at = expires_at,
                 pl_immediate = immediate, pl_call = call, pl_admission = adm\<rparr>)))))"

text \<open>The order becomes live: reservation, ownership record, live count.\<close>

definition submit_accept ::
    "submit_order \<Rightarrow> listing_key \<Rightarrow> plan \<Rightarrow> transit \<Rightarrow> (transit, engine_error) result" where
  "submit_accept order k pl t =
     (let s = run t in
      attempt (accounting (open_order (run_ledger s) (so_participant_id order) (so_instrument_id order)
        (so_side order) (so_quantity order) (adm_reservation (pl_admission pl)))) (\<lambda>l.
      let s1 = s\<lparr>run_ledger := l,
            ownership := bt_insert (so_order_id order)
              \<lparr>oo_order_id = so_order_id order, oo_participant_id = so_participant_id order,
               oo_listing_key = k, oo_side = so_side order,
               oo_limit_price = reservation_price (pl_admission pl),
               original_quantity = so_quantity order, remaining_quantity = so_quantity order,
               oo_state = OrderActive, oo_reservation = adm_reservation (pl_admission pl),
               oo_expires_at = pl_expires_at pl, oo_day = (pl_tif pl = Day),
               oo_anonymous = so_anonymous order\<rparr> (ownership s)\<rparr>
      in attempt (ok_or OwnershipInvariant (checked_u32 (live_order_count s1 (so_participant_id order) + 1))) (\<lambda>n.
         Ok (push (OrderAccepted (so_order_id order))
               (t\<lparr>run := s1\<lparr>live_orders := bt_insert (so_participant_id order) n (live_orders s1)\<rparr>\<rparr>)))))"

text \<open>Matching: the remaining quantity and the state with every match settled.\<close>

definition submit_match ::
    "submit_order \<Rightarrow> listing_key \<Rightarrow> plan \<Rightarrow> transit \<Rightarrow> (quantity_lots \<times> transit, engine_error) result" where
  "submit_match order k pl t =
     attempt (ok_or Panicked (bt_get (listings (run t)) k)) (\<lambda>ls.
     if \<not> pl_call pl \<and>
        (pl_tif pl \<noteq> Fok \<or> executable (ls_book ls) (so_side order) (pl_limit pl) \<ge> so_quantity order)
     then
       attempt (map_err (\<lambda>_. OwnershipInvariant)
         (execute (ls_book ls) (so_side order) (pl_limit pl) (so_quantity order))) (\<lambda>(ms, left, b).
       attempt (settle_matches (so_order_id order) k ms (t\<lparr>run := set_book (run t) k ls b\<rparr>)) (\<lambda>t1.
       Ok (left, t1)))
     else Ok (so_quantity order, t))"

text \<open>What is left rests, or is cancelled when the order may not rest.\<close>

definition submit_rest ::
    "submit_order \<Rightarrow> listing_key \<Rightarrow> plan \<Rightarrow> price_ticks \<Rightarrow> quantity_lots \<Rightarrow> transit \<Rightarrow>
     (transit, engine_error) result" where
  "submit_rest order k pl price left t =
     attempt (ok_or UnknownListing (bt_get (listings (run t)) k)) (\<lambda>ls.
     attempt (map_err (\<lambda>_. OwnershipInvariant)
       (rest (ls_book ls) (so_order_id order) (so_side order) price left (pl_display pl))) (\<lambda>b.
     let s1 = set_book (run t) k ls b;
         s2 = (case pl_expires_at pl of
                 None \<Rightarrow> s1 | Some at \<Rightarrow> s1\<lparr>expiries := bs_insert (at, so_order_id order) (expiries s1)\<rparr>)
     in Ok (push (OrderRested (so_order_id order) (so_participant_id order) (so_instrument_id order) (Some k)
              (so_side order) price left) (t\<lparr>run := s2\<rparr>))))"

definition submit_drop ::
    "submit_order \<Rightarrow> listing_key \<Rightarrow> plan \<Rightarrow> quantity_lots \<Rightarrow> transit \<Rightarrow> (transit, engine_error) result" where
  "submit_drop order k pl left t =
     (let s = run t in
      attempt (accounting (close_order (run_ledger s) (so_participant_id order) (so_instrument_id order)
        (so_side order) left (adm_reservation (pl_admission pl)))) (\<lambda>l.
      attempt (ok_or OwnershipInvariant (bt_get (ownership s) (so_order_id order))) (\<lambda>x.
      let s1 = s\<lparr>run_ledger := l,
            ownership := bt_insert (so_order_id order)
              (x\<lparr>oo_state := OrderCancelled, remaining_quantity := 0\<rparr>) (ownership s)\<rparr>
      in Ok (push (OrderCanceled (so_order_id order) (so_participant_id order) (so_instrument_id order) (Some k)
               left (if pl_limit pl = None then MarketRemainder else Expired)) (t\<lparr>run := s1\<rparr>)))))"

definition submit_remainder ::
    "submit_order \<Rightarrow> listing_key \<Rightarrow> plan \<Rightarrow> quantity_lots \<Rightarrow> transit \<Rightarrow> (transit, engine_error) result" where
  "submit_remainder order k pl left t =
     (if left = 0 then Ok (push (OrderCompleted (so_order_id order)) t)
      else case (pl_limit pl, pl_immediate pl) of
        (Some price, False) \<Rightarrow> submit_rest order k pl price left t
      | _ \<Rightarrow> submit_drop order k pl left t)"

definition submit ::
    "submit_order \<Rightarrow> listing_key \<Rightarrow> logical_time_ns \<Rightarrow> transit \<Rightarrow>
     ((unit, reject_code) result \<times> transit, engine_error) result" where
  "submit order k now t =
     (case submit_identity (run t) order of
        Inl code \<Rightarrow> Ok (Err code, t)
      | Inr participant \<Rightarrow>
          attempt (ok_or Panicked (bt_get (listings (run t)) k)) (\<lambda>ls.
          case submit_check (run t) order k now participant ls of
            Inl code \<Rightarrow> Ok (Err code, t)
          | Inr pl \<Rightarrow>
              attempt (submit_accept order k pl t) (\<lambda>t1.
              attempt (submit_match order k pl t1) (\<lambda>(left, t2).
              attempt (submit_remainder order k pl left t2) (\<lambda>t3.
              Ok (Ok (), t3))))))"

subsection \<open>Auctions and session boundaries\<close>

definition settle_cross ::
    "listing_key \<Rightarrow> price_ticks \<Rightarrow> cross \<Rightarrow> transit \<Rightarrow> (transit, engine_error) result" where
  "settle_cross k price c t =
     (let (mk, tk) = (if buy_priority c < sell_priority c then (cross_buy c, cross_sell c)
                      else (cross_sell c, cross_buy c))
      in settle_fill k mk tk price (cross_quantity c) True t)"

definition run_auction :: "listing_key \<Rightarrow> transit \<Rightarrow> (transit, engine_error) result" where
  "run_auction k t =
     (let s = run t;
          reference = (case ledger_mark (run_ledger s) (lk_instrument k) of None \<Rightarrow> 1 | Some m \<Rightarrow> m)
      in attempt (ok_or UnknownListing (bt_get (listings s) k)) (\<lambda>ls.
         case auction_price (ls_book ls) reference of
           None \<Rightarrow> Ok t
         | Some (price, q) \<Rightarrow>
             (case uncross_loop (ls_book ls) price of
                None \<Rightarrow> Err Diverged
              | Some r \<Rightarrow>
                  attempt (map_err (\<lambda>_. OwnershipInvariant) r) (\<lambda>(cs, b).
                  attempt (try_fold (settle_cross k price) cs (t\<lparr>run := set_book s k ls b\<rparr>)) (\<lambda>t1.
                  Ok (push (Simulation (AuctionUncrossed k price q)) t1))))))"

text \<open>One listing's official close: its last trade of the day, its previous close, or the mark.\<close>

definition close_listing :: "listing_key \<Rightarrow> closing_price list \<times> run_state \<Rightarrow> closing_price list \<times> run_state" where
  "close_listing k w =
     (let s = snd w; s1 = s\<lparr>day_trades := bt_remove k (day_trades s)\<rparr> in
      case (case bt_get (day_trades s) k of
              Some p \<Rightarrow> Some p
            | None \<Rightarrow> (case bt_get (closes s1) k of
                          Some p \<Rightarrow> Some p
                        | None \<Rightarrow> ledger_mark (run_ledger s1) (lk_instrument k))) of
        None \<Rightarrow> (fst w, s1)
      | Some p \<Rightarrow> (fst w @ [\<lparr>cp_listing_key = k, cp_price = p\<rparr>], s1\<lparr>closes := bt_insert k p (closes s1)\<rparr>))"

definition venue_listings :: "run_state \<Rightarrow> venue_id \<Rightarrow> listing_key list" where
  "venue_listings s v = filter (\<lambda>k. lk_venue k = v) (map fst (listings s))"

definition close_day :: "venue_id \<Rightarrow> run_state \<Rightarrow> closing_price list \<times> run_state" where
  "close_day v s = fold close_listing (venue_listings s v) ([], s)"

definition primary_listing :: "run_state \<Rightarrow> instrument_id \<Rightarrow> listing_key option" where
  "primary_listing s i =
     (case filter (\<lambda>d. lk_instrument (ld_key d) = i) (map (ls_definition \<circ> snd) (listings s)) of
        [only] \<Rightarrow> Some (ld_key only)
      | _ \<Rightarrow> map_option ld_key
               (find (\<lambda>d. lk_instrument (ld_key d) = i \<and> primary d) (map (ls_definition \<circ> snd) (listings s))))"

definition mark_to_close ::
    "instrument_id \<Rightarrow> instrument_mark list \<times> run_state \<Rightarrow> (instrument_mark list \<times> run_state, engine_error) result" where
  "mark_to_close i w =
     (let s = snd w in
      case Option.bind (primary_listing s i) (bt_get (closes s)) of
        None \<Rightarrow> Ok w
      | Some price \<Rightarrow>
          attempt (accounting (set_mark (run_ledger s) i price)) (\<lambda>l.
          Ok (fst w @ [\<lparr>im_instrument_id = i, im_price = price\<rparr>], s\<lparr>run_ledger := l\<rparr>)))"

definition day_score_key :: "day_score \<Rightarrow> int \<times> participant_id" where
  "day_score_key d = (- ds_net_liquidation_value d, ds_participant_id d)"

definition rank_scores :: "day_score list \<Rightarrow> (day_score list, engine_error) result" where
  "rank_scores scores =
     try_map (\<lambda>(i, d). attempt (ok_or SequenceOverflow (checked_u32 (i + 1))) (\<lambda>r. Ok (d\<lparr>ds_rank := r\<rparr>)))
       (enumerate 0 (sort_key day_score_key scores))"

definition settle_day :: "nat \<Rightarrow> run_state \<Rightarrow> (simulation_event \<times> run_state, engine_error) result" where
  "settle_day day s =
     attempt (try_fold mark_to_close (map fst (instruments s)) ([], s)) (\<lambda>(marks, s1).
     attempt (try_map (\<lambda>p. attempt (run_net_liquidation_value s1 p) (\<lambda>v.
        Ok \<lparr>ds_participant_id = p, ds_net_liquidation_value = v, ds_rank = 0\<rparr>)) (map fst (participants s1))) (\<lambda>unranked.
     attempt (rank_scores unranked) (\<lambda>scores.
     Ok (DaySettled day marks scores, s1))))"

text \<open>The open and the close uncross the venue's books.\<close>

definition auction_venue :: "venue_id \<Rightarrow> transit \<Rightarrow> (transit, engine_error) result" where
  "auction_venue v t = try_fold (\<lambda>k t. run_auction k (touch k t)) (venue_listings (run t) v) t"

definition expire_day_orders :: "venue_id \<Rightarrow> transit \<Rightarrow> (transit, engine_error) result" where
  "expire_day_orders v t =
     try_fold (\<lambda>i. cancel_order i Expired)
       (map oo_order_id (filter (\<lambda>x. oo_day x \<and> oo_state x = OrderActive \<and> lk_venue (oo_listing_key x) = v)
          (map snd (ownership (run t))))) t"

definition close_venue :: "venue_id \<Rightarrow> nat \<Rightarrow> transit \<Rightarrow> (transit, engine_error) result" where
  "close_venue v day t =
     (let (cs, s1) = close_day v (run t);
          t1 = push (Simulation (DayClosed v day cs)) (t\<lparr>run := s1\<rparr>)
      in if list_all (\<lambda>(v', _). run_session_phase (run t1) v' = Closed) (session_steps (run t1))
         then attempt (settle_day day (run t1)) (\<lambda>(e, s2). Ok (push (Simulation e) (t1\<lparr>run := s2\<rparr>)))
         else Ok t1)"

definition cross_boundary ::
    "venue_id \<Rightarrow> nat \<Rightarrow> boundary \<Rightarrow> transit \<Rightarrow> (transit, engine_error) result" where
  "cross_boundary v stp bnd t =
     attempt (ok_or SequenceOverflow (checked_u64 (stp + 1))) (\<lambda>nxt.
     let t0 = t\<lparr>run := (run t)\<lparr>session_steps := bt_insert v nxt (session_steps (run t))\<rparr>\<rparr> in
     attempt (if b_phase bnd = Continuous \<or> b_phase bnd = Closed then auction_venue v t0 else Ok t0) (\<lambda>t1.
     attempt (if b_phase bnd = Closed then expire_day_orders v t1 else Ok t1) (\<lambda>t2.
     let t3 = push (Simulation (SessionPhaseChanged v (b_day bnd) (b_phase bnd))) t2 in
     if b_phase bnd = Closed then close_venue v (b_day bnd) t3 else Ok t3)))"

subsection \<open>Catching up with the clock\<close>

definition context_of :: "run_state \<Rightarrow> simulation_context" where
  "context_of s =
     \<lparr>ctx_ledger = run_ledger s, ctx_participants = participants s,
      ctx_reporting_currency = rs_reporting_currency s, ctx_fx_rates = rs_fx_rates s\<rparr>"

text \<open>A simulation method run on the run's ledger; its events join the payloads.\<close>

definition with_simulation_state ::
    "transit \<Rightarrow> (simulation_event list \<times> simulation_work, simulation_error) result \<Rightarrow> (transit, engine_error) result" where
  "with_simulation_state t r =
     attempt (map_err SimulationFailed r) (\<lambda>(events, (ctx, sim)).
     Ok (t\<lparr>run := (run t)\<lparr>run_ledger := ctx_ledger ctx, simulation := sim\<rparr>,
           payloads := payloads t @ map Simulation events\<rparr>))"

text \<open>Boundaries the calendar still has for the venues of the run: enough turns for the loop.\<close>

definition boundary_fuel :: "run_state \<Rightarrow> nat" where
  "boundary_fuel s =
     (case rs_calendar s of
        None \<Rightarrow> 1
      | Some c \<Rightarrow> Suc (\<Sum>(v, stp) \<leftarrow> session_steps s. BOUNDARIES_PER_DAY * length (trading_days c) - stp))"

fun cross_due :: "nat \<Rightarrow> logical_time_ns \<Rightarrow> transit \<Rightarrow> (transit, engine_error) result" where
  "cross_due 0 now t = Err Diverged"
| "cross_due (Suc n) now t =
     (case next_boundary (run t) of
        None \<Rightarrow> Ok t
      | Some (v, stp, bnd) \<Rightarrow>
          if b_at bnd \<le> now
          then attempt (expire_due (b_at bnd) t) (\<lambda>t1.
               attempt (cross_boundary v stp bnd t1) (\<lambda>t2.
               cross_due n now t2))
          else Ok t)"

definition catch_up :: "logical_time_ns \<Rightarrow> bool \<Rightarrow> transit \<Rightarrow> (transit, engine_error) result" where
  "catch_up now sweep t =
     attempt (with_simulation_state t (simulation_catch_up (simulation (run t)) (context_of (run t)) now sweep)) (\<lambda>t1.
     attempt (cross_due (boundary_fuel (run t1)) now t1) (\<lambda>t2.
     expire_due now t2))"

subsection \<open>Committing a command\<close>

fun trim_retired ::
    "order_id list \<Rightarrow> (order_id, owned_order) btree_map \<Rightarrow> order_id list \<times> (order_id, owned_order) btree_map" where
  "trim_retired [] own = ([], own)"
| "trim_retired (i # is) own =
     (if length (i # is) > MAX_RETIRED_ORDERS then trim_retired is (bt_remove i own) else (i # is, own))"

definition release_live :: "order_id \<Rightarrow> run_state \<Rightarrow> run_state" where
  "release_live i s =
     (case bt_get (ownership s) i of
        None \<Rightarrow> s
      | Some x \<Rightarrow>
          (case bt_get (live_orders s) (oo_participant_id x) of
             None \<Rightarrow> s
           | Some n \<Rightarrow> s\<lparr>live_orders := (if n - 1 = 0 then bt_remove (oo_participant_id x) (live_orders s)
                                         else bt_insert (oo_participant_id x) (n - 1) (live_orders s))\<rparr>))"

definition retire :: "order_id \<Rightarrow> run_state \<Rightarrow> run_state" where
  "retire i s =
     (let s1 = release_live i s; (ret, own) = trim_retired (retired s1 @ [i]) (ownership s1)
      in s1\<lparr>retired := ret, ownership := own\<rparr>)"

fun terminal_order :: "event_payload \<Rightarrow> order_id option" where
  "terminal_order (OrderCompleted i) = Some i"
| "terminal_order (OrderCanceled i _ _ _ _ _) = Some i"
| "terminal_order _ = None"

definition commit_payload ::
    "logical_time_ns \<Rightarrow> event_payload \<Rightarrow> run_state \<Rightarrow> (run_state, engine_error) result" where
  "commit_payload at p s =
     attempt (map_err SimulationFailed (project_event (simulation s) at p)) (\<lambda>sim.
     let s1 = s\<lparr>simulation := sim\<rparr> in
     Ok (case terminal_order p of None \<Rightarrow> s1 | Some i \<Rightarrow> retire i s1))"

definition envelope_event ::
    "'p envelope \<Rightarrow> event_sequence \<Rightarrow> nat \<times> event_payload \<Rightarrow> (event_envelope, engine_error) result" where
  "envelope_event cmd current e =
     attempt (ok_or SequenceOverflow (checked_u64 (fst e + 1))) (\<lambda>offset.
     attempt (ok_or SequenceOverflow (u64_checked_add current offset)) (\<lambda>sequence.
     Ok \<lparr>ev_schema_version = EVENT_SCHEMA_VERSION, ev_run_id = c_run_id cmd, ev_event_id = sequence,
         ev_sequence = sequence, ev_logical_time = c_logical_time cmd, ev_actor = c_actor cmd,
         ev_command_id = c_command_id cmd, ev_correlation_id = c_correlation_id cmd,
         ev_causation_sequence = None, ev_payload = snd e\<rparr>))"

definition envelope_events ::
    "'p envelope \<Rightarrow> event_sequence \<Rightarrow> event_payload list \<Rightarrow> (event_envelope list, engine_error) result" where
  "envelope_events cmd current ps = try_map (envelope_event cmd current) (enumerate 0 ps)"

text \<open>
  What a transition commits. \<open>reject_code\<close> is the code itself where the source keeps its
  \<open>Debug\<close> text.
\<close>

record applied =
  events :: "event_envelope list"
  accepted :: bool
  ap_reject_code :: "reject_code option"
  ap_order_id :: "order_id option"
  changed_listings :: "listing_key btree_set"

definition finish ::
    "'p envelope \<Rightarrow> event_sequence \<Rightarrow> bool \<Rightarrow> reject_code option \<Rightarrow> order_id option \<Rightarrow> transit \<Rightarrow>
     (applied \<times> run_state, engine_error) result" where
  "finish cmd next_sequence acc code order t =
     attempt (try_fold (commit_payload (c_logical_time cmd)) (payloads t) (run t)) (\<lambda>s.
     attempt (envelope_events cmd (run_event_sequence s) (payloads t)) (\<lambda>evs.
     let s1 = s\<lparr>run_sequence := next_sequence,
                run_event_sequence := (if evs = [] then run_event_sequence s else ev_sequence (last evs))\<rparr> in
     Ok (\<lparr>events = evs, accepted = acc, ap_reject_code = code, ap_order_id = order,
          changed_listings = changed t\<rparr>, s1)))"

subsection \<open>Order commands\<close>

datatype apply_error = Unchanged engine_error | Poisoned engine_error

fun into_inner :: "apply_error \<Rightarrow> engine_error" where
  "into_inner (Unchanged e) = e"
| "into_inner (Poisoned e) = e"

definition preflight :: "run_state \<Rightarrow> run_id \<Rightarrow> event_sequence \<Rightarrow> (event_sequence, engine_error) result" where
  "preflight s rid expected =
     (if rs_run_id s \<noteq> rid \<or> run_sequence s \<noteq> expected then Err (SequenceConflictAt (run_sequence s))
      else ok_or SequenceOverflow (u64_checked_add (run_sequence s) 1))"

text \<open>Cancelling every order of a list, as the kill switch and the mass cancel do.\<close>

definition cancel_listed ::
    "cancel_reason \<Rightarrow> (order_id \<times> listing_key) list \<Rightarrow> transit \<Rightarrow> (transit, engine_error) result" where
  "cancel_listed reason live t = try_fold (\<lambda>(i, k) t. cancel_order i reason (touch k t)) live t"

definition activate_kill_switch :: "participant_id \<Rightarrow> transit \<Rightarrow> (transit, engine_error) result" where
  "activate_kill_switch p t =
     (let t1 = push KillSwitchActivated
                 (t\<lparr>run := (run t)\<lparr>kill_switched := bs_insert p (kill_switched (run t))\<rparr>\<rparr>);
          live = map (\<lambda>(i, x). (i, oo_listing_key x))
            (filter (\<lambda>(_, x). oo_participant_id x = p \<and> oo_state x = OrderActive) (ownership (run t1)))
      in cancel_listed KillSwitch live t1)"

text \<open>The command's outcome: whether it was accepted, the reject code, the order.\<close>

type_synonym outcome = "(bool \<times> reject_code option \<times> order_id option) \<times> transit"

definition report :: "order_id \<Rightarrow> (unit, reject_code) result \<Rightarrow> transit \<Rightarrow> outcome" where
  "report i r t =
     (case r of
        Inr _ \<Rightarrow> ((True, None, Some i), t)
      | Inl code \<Rightarrow> ((False, Some code, Some i), push (OrderRejected (Some i) code) t))"

definition apply_submit ::
    "submit_order \<Rightarrow> listing_key option \<Rightarrow> logical_time_ns \<Rightarrow> transit \<Rightarrow> (outcome, engine_error) result" where
  "apply_submit order key now t =
     attempt (ok_or UnknownListing key) (\<lambda>k.
     let t1 = push (OrderReceived order (Some k)) t; s = run t1 in
     attempt (if lifecycle (simulation s) \<noteq> Active then Ok (Err RunNotActive, t1)
              else if so_participant_id order \<in> set (kill_switched s) then Ok (Err KillSwitchActive, t1)
              else if so_instrument_id order \<in> set (halted_instruments (simulation s)) then Ok (Err ListingHalted, t1)
              else submit order k now (touch k t1)) (\<lambda>(r, t2).
     Ok (report (so_order_id order) r t2)))"

definition apply_cancel :: "cancel_request \<Rightarrow> transit \<Rightarrow> (outcome, engine_error) result" where
  "apply_cancel c t =
     (let i = cr_order_id c in
      attempt (case bt_get (ownership (run t)) i of
                 None \<Rightarrow> Ok (Err UnknownOrder, t)
               | Some x \<Rightarrow>
                   if oo_participant_id x \<noteq> cr_participant_id c then Ok (Err NotOrderOwner, t)
                   else if oo_state x \<noteq> OrderActive then Ok (Err UnknownOrder, t)
                   else attempt (cancel_order i Requested (touch (oo_listing_key x) t)) (\<lambda>t1. Ok (Ok (), t1))) (\<lambda>(r, t1).
      Ok (report i r t1)))"

definition apply_payload :: "command \<Rightarrow> listing_key option \<Rightarrow> transit \<Rightarrow> (outcome, engine_error) result" where
  "apply_payload cmd key t =
     (case c_payload cmd of
        SubmitOrder order \<Rightarrow> apply_submit order key (c_logical_time cmd) t
      | SubmitOrderAtListing _ order \<Rightarrow> apply_submit order key (c_logical_time cmd) t
      | CancelOrder c \<Rightarrow> apply_cancel c t
      | ActivateKillSwitch \<Rightarrow>
          attempt (activate_kill_switch (c_actor cmd) t) (\<lambda>t1. Ok ((True, None, None), t1))
      | ResetKillSwitch \<Rightarrow>
          Ok ((True, None, None), push KillSwitchReset
            (t\<lparr>run := (run t)\<lparr>kill_switched := bs_remove (c_actor cmd) (kill_switched (run t))\<rparr>\<rparr>)))"

definition transit_of :: "run_state \<Rightarrow> transit" where
  "transit_of s = \<lparr>run = s, payloads = [], changed = []\<rparr>"

definition apply_validated ::
    "run_state \<Rightarrow> command \<Rightarrow> event_sequence \<Rightarrow> listing_key option \<Rightarrow> (applied \<times> run_state, engine_error) result" where
  "apply_validated s cmd next_sequence key =
     attempt (catch_up (c_logical_time cmd) False (transit_of s)) (\<lambda>t.
     attempt (apply_payload cmd key t) (\<lambda>((acc, code, order), t1).
     finish cmd next_sequence acc code order t1))"

definition resolve_listing :: "run_state \<Rightarrow> command_payload \<Rightarrow> (listing_key option, engine_error) result" where
  "resolve_listing s p =
     (case p of
        SubmitOrderAtListing k order \<Rightarrow>
          if lk_instrument k \<noteq> so_instrument_id order \<or> bt_get (listings s) k = None then Err UnknownListing
          else Ok (Some k)
      | SubmitOrder order \<Rightarrow> attempt (listing_key_for_instrument s (so_instrument_id order)) (\<lambda>k. Ok (Some k))
      | _ \<Rightarrow> Ok None)"

text \<open>
  \<open>apply\<close>: the branch on due scheduled actions decides only how a failure is reported,
  since the staged copy and the state in place go through the same steps.
\<close>

definition run_apply :: "run_state \<Rightarrow> command \<Rightarrow> (applied \<times> run_state, apply_error) result" where
  "run_apply s cmd =
     attempt (map_err Unchanged (preflight s (c_run_id cmd) (c_expected_sequence cmd))) (\<lambda>next_sequence.
     attempt (map_err Unchanged (resolve_listing s (c_payload cmd))) (\<lambda>key.
     if c_logical_time cmd < clock_now (clock (simulation s)) then Err (Unchanged (SimulationFailed TimeRegression))
     else if has_due_actions (simulation s) (c_logical_time cmd)
     then map_err Unchanged (apply_validated s cmd next_sequence key)
     else map_err Poisoned (apply_validated s cmd next_sequence key)))"

definition run_transition :: "run_state \<Rightarrow> command \<Rightarrow> (applied \<times> run_state, engine_error) result" where
  "run_transition s cmd = map_err into_inner (run_apply s cmd)"

subsection \<open>Simulation commands\<close>

definition mass_cancel ::
    "participant_id option \<Rightarrow> instrument_id option \<Rightarrow> transit \<Rightarrow> (transit, engine_error) result" where
  "mass_cancel p i t =
     (let live = map (\<lambda>x. (oo_order_id x, oo_listing_key x))
            (filter (\<lambda>x. oo_state x = OrderActive \<and> (p = None \<or> p = Some (oo_participant_id x)) \<and>
                (i = None \<or> i = Some (lk_instrument (oo_listing_key x)))) (map snd (ownership (run t))))
      in attempt (cancel_listed MassCancelled live t) (\<lambda>t1.
         Ok (push (Simulation (MassCancelCompleted (map fst live))) t1)))"

definition apply_simulation_payload ::
    "simulation_command_request \<Rightarrow> transit \<Rightarrow> (transit, engine_error) result" where
  "apply_simulation_payload req t =
     (case c_payload req of
        MassCancel p i \<Rightarrow> mass_cancel p i t
      | _ \<Rightarrow>
          attempt (with_simulation_state t (simulation_apply (simulation (run t)) (context_of (run t))
                     (c_actor req) (c_logical_time req) (c_payload req))) (\<lambda>t1.
          expire_due (clock_now (clock (simulation (run t1)))) t1))"

definition apply_simulation_validated ::
    "run_state \<Rightarrow> simulation_command_request \<Rightarrow> event_sequence \<Rightarrow> (applied \<times> run_state, engine_error) result" where
  "apply_simulation_validated s req next_sequence =
     (let tick = (c_payload req = ClockTick);
          from_time = clock_now (clock (simulation s));
          t0 = (if tick \<and> c_logical_time req > from_time
                then push (Simulation (ClockAdvanced from_time (c_logical_time req))) (transit_of s)
                else transit_of s)
      in attempt (catch_up (c_logical_time req) tick t0) (\<lambda>t1.
         attempt (apply_simulation_payload req t1) (\<lambda>t2.
         finish req next_sequence True None None t2)))"

fun is_mass_cancel :: "simulation_command \<Rightarrow> bool" where
  "is_mass_cancel (MassCancel _ _) = True"
| "is_mass_cancel _ = False"

definition run_apply_simulation ::
    "run_state \<Rightarrow> simulation_command_request \<Rightarrow> (applied \<times> run_state, apply_error) result" where
  "run_apply_simulation s req =
     attempt (map_err Unchanged (preflight s (c_run_id req) (c_expected_sequence req))) (\<lambda>next_sequence.
     if c_logical_time req < clock_now (clock (simulation s)) then Err (Unchanged (SimulationFailed TimeRegression))
     else
       let tick = (c_payload req = ClockTick) in
       if tick \<and> lifecycle (simulation s) \<noteq> Active then Err (Unchanged (SimulationFailed InvalidLifecycle))
       else if (tick \<or> is_mass_cancel (c_payload req)) \<and> \<not> has_due_actions (simulation s) (c_logical_time req)
       then map_err Poisoned (apply_simulation_validated s req next_sequence)
       else map_err Unchanged (apply_simulation_validated s req next_sequence))"

definition transition_simulation ::
    "run_state \<Rightarrow> simulation_command_request \<Rightarrow> (applied \<times> run_state, engine_error) result" where
  "transition_simulation s req =
     attempt (preflight s (c_run_id req) (c_expected_sequence req)) (\<lambda>next_sequence.
     apply_simulation_validated s req next_sequence)"

end
