(* ===== verification/Engine_Snapshot.thy ===== *)
theory Engine_Snapshot
  imports Engine
begin

text \<open>
  Starting, resetting, validating and persisting a run: \<open>RunState::from_scenario\<close>,
  \<open>reset_iteration\<close>, \<open>validate\<close> and the snapshot envelope. JSON and hashing come from
  \<open>serde_json\<close> and \<open>sha2\<close> and are arguments.
\<close>

subsection \<open>Starting a run\<close>

definition configure_one ::
    "instrument_id \<times> instrument_definition \<Rightarrow> ledger \<Rightarrow> (ledger, engine_error) result" where
  "configure_one e l =
     attempt (accounting (configure_instrument l (fst e) (definition_terms (snd e)))) (\<lambda>l1.
     case opening_mark (snd e) of
       None \<Rightarrow> Ok l1
     | Some mark \<Rightarrow> accounting (set_mark l1 (fst e) mark))"

definition seed_one ::
    "scenario_definition \<Rightarrow> participant_id \<Rightarrow> instrument_id \<times> quantity_lots \<Rightarrow> ledger \<Rightarrow> (ledger, engine_error) result" where
  "seed_one sc p e l =
     attempt (ok_or Panicked (bt_get (sd_instruments sc) (fst e))) (\<lambda>d.
     attempt (accounting (case opening_mark d of
                None \<Rightarrow> Ok 0 | Some mark \<Rightarrow> notional mark (snd e) (id_multiplier d))) (\<lambda>basis.
     accounting (seed_position l p (fst e) (snd e) basis)))"

definition fund_participant ::
    "scenario_definition \<Rightarrow> participant_definition \<Rightarrow> ledger \<Rightarrow> (ledger, engine_error) result" where
  "fund_participant sc d l =
     attempt (try_fold (\<lambda>(c, amount) l. accounting (post_cash l (pd_participant_id d) c amount)) (initial_cash d) l) (\<lambda>l1.
     try_fold (seed_one sc (pd_participant_id d)) (initial_positions d) l1)"

text \<open>Boundaries at run time zero apply silently: the books are empty.\<close>

function initial_step :: "calendar \<Rightarrow> venue_id \<Rightarrow> nat \<Rightarrow> nat" where
  "initial_step c v stp =
     (case calendar_boundary c v stp of
        None \<Rightarrow> stp
      | Some bnd \<Rightarrow> if b_at bnd = 0 then initial_step c v (Suc stp) else stp)"
  by pat_completeness simp
termination
proof (relation "measure (\<lambda>(c, v, stp). BOUNDARIES_PER_DAY * length (trading_days c) - stp)", goal_cases)
  case (2 c v stp bnd)
  then have "stp div BOUNDARIES_PER_DAY < length (trading_days c)"
    by (auto simp: calendar_boundary_def trading_day_def bind_eq_Some_conv split: if_splits)
  then have "stp < BOUNDARIES_PER_DAY * length (trading_days c)"
    by (simp add: BOUNDARIES_PER_DAY_def div_less_iff_less_mult)
  then show ?case
    by simp
qed simp

declare initial_step.simps [simp del]

definition initial_steps :: "calendar option \<Rightarrow> (venue_id, nat) btree_map" where
  "initial_steps cal =
     (case cal of
        None \<Rightarrow> []
      | Some c \<Rightarrow> foldl (\<lambda>m ses. bt_insert (vs_venue_id ses) (initial_step c (vs_venue_id ses) 0) m) [] (sessions c))"

definition run_from_scenario ::
    "(scenario_definition \<Rightarrow> nat list option) \<Rightarrow> (nat list \<Rightarrow> nat list) \<Rightarrow> run_id \<Rightarrow> nat \<Rightarrow>
     scenario_definition \<Rightarrow> (run_state, engine_error) result" where
  "run_from_scenario to_vec sha256 rid iteration sc =
     attempt (map_err (\<lambda>_. InvalidScenario) (scenario_validate sc)) (\<lambda>_.
     if iteration = 0 then Err InvalidScenario
     else
       attempt (try_fold configure_one (sd_instruments sc) ledger_new) (\<lambda>l1.
       attempt (try_fold (\<lambda>(_, d). fund_participant sc d) (sd_participants sc) l1) (\<lambda>l2.
       attempt (map_err (\<lambda>_. InvalidScenario) (simulation_from_scenario (sd_simulation sc))) (\<lambda>sim.
       attempt (map_err SnapshotFailed (content_hash to_vec sha256 sc)) (\<lambda>h.
       Ok \<lparr>rs_run_id = rid, run_sequence = 0, run_event_sequence = 0, iteration_id = iteration,
           rs_scenario_id = scenario_id sc, rs_scenario_version = scenario_version sc, scenario_hash = h,
           config = default_engine_config, rs_reporting_currency = reporting_currency sc,
           rs_fx_rates = fx_rates sc, instruments = sd_instruments sc,
           listings = map (\<lambda>(k, d). (k, \<lparr>ls_definition = d, ls_book = book_new\<rparr>)) (sd_listings sc),
           participants = sd_participants sc, run_ledger = l2, ownership = [], retired = [], expiries = [],
           live_orders = [], kill_switched = [], simulation = sim, rs_calendar = sd_calendar sc,
           session_steps = initial_steps (sd_calendar sc), day_trades = [], closes = []\<rparr>)))))"

definition reset_iteration ::
    "(scenario_definition \<Rightarrow> nat list option) \<Rightarrow> (nat list \<Rightarrow> nat list) \<Rightarrow> run_state \<Rightarrow> nat \<Rightarrow>
     scenario_definition \<Rightarrow> (run_state, engine_error) result" where
  "reset_iteration to_vec sha256 s iteration sc =
     (if scenario_id sc \<noteq> rs_scenario_id s \<or> scenario_version sc \<noteq> rs_scenario_version s
      then Err InvalidScenario
      else
        attempt (map_err SnapshotFailed (content_hash to_vec sha256 sc)) (\<lambda>h.
        if h \<noteq> scenario_hash s then Err InvalidScenario
        else run_from_scenario to_vec sha256 (rs_run_id s) iteration sc))"

subsection \<open>Snapshot validation\<close>

text \<open>Live orders counted per participant (\<open>live_by_participant\<close>).\<close>

definition count_live :: "run_state \<Rightarrow> ((participant_id, nat) btree_map, snapshot_error) result" where
  "count_live s =
     try_fold (\<lambda>(_, x) m.
        if oo_state x = OrderActive
        then attempt (ok_or UnsupportedVersion
               (checked_u32 ((case bt_get m (oo_participant_id x) of None \<Rightarrow> 0 | Some n \<Rightarrow> n) + 1))) (\<lambda>n.
             Ok (bt_insert (oo_participant_id x) n m))
        else Ok m) (ownership s) []"

definition owner_consistent :: "run_state \<Rightarrow> order_id \<times> owned_order \<Rightarrow> bool" where
  "owner_consistent s e \<longleftrightarrow>
     fst e = oo_order_id (snd e) \<and>
     ((oo_state (snd e) = OrderActive) \<longleftrightarrow>
       (case bt_get (listings s) (oo_listing_key (snd e)) of
          None \<Rightarrow> False | Some ls \<Rightarrow> book_contains (ls_book ls) (fst e)))"

definition expiry_consistent :: "run_state \<Rightarrow> logical_time_ns \<times> order_id \<Rightarrow> bool" where
  "expiry_consistent s e \<longleftrightarrow>
     (case bt_get (ownership s) (snd e) of
        None \<Rightarrow> False | Some x \<Rightarrow> oo_state x = OrderActive \<and> oo_expires_at x = Some (fst e))"

definition run_validate :: "run_state \<Rightarrow> (unit, snapshot_error) result" where
  "run_validate s =
     (let live = length (filter (\<lambda>(_, x). oo_state x = OrderActive) (ownership s)) in
      attempt (count_live s) (\<lambda>live_by_participant.
      let resting = (\<Sum>(_, ls) \<leftarrow> listings s. book_len (ls_book ls)) in
      if engine_version (config s) \<noteq> ENGINE_VERSION \<or> max_listings (config s) = 0 \<or>
         max_listings (config s) > MAX_LISTINGS \<or> listings s = [] \<or>
         length (listings s) > max_listings (config s) \<or> length (participants s) > MAX_PARTICIPANTS \<or>
         live > MAX_LIVE_ORDERS \<or> length (retired s) > MAX_RETIRED_ORDERS \<or> live \<noteq> resting \<or>
         live_by_participant \<noteq> live_orders s \<or> live + length (retired s) \<noteq> length (ownership s) \<or>
         \<not> list_all (owner_consistent s) (ownership s) \<or> \<not> list_all (expiry_consistent s) (expiries s) \<or>
         policy_version (simulation s) \<noteq> SIMULATION_POLICY_VERSION \<or>
         length (terms_map (run_ledger s)) \<noteq> length (instruments s) \<or>
         \<not> list_all (\<lambda>(i, d). ledger_terms (run_ledger s) i = Ok (definition_terms d)) (instruments s)
      then Err UnsupportedVersion
      else Ok ()))"

subsection \<open>Snapshot envelope\<close>

record engine_snapshot_envelope =
  es_schema_version :: nat
  es_state_hash :: string
  es_state :: run_state

definition snapshot_new ::
    "(run_state \<Rightarrow> nat list option) \<Rightarrow> (nat list \<Rightarrow> nat list) \<Rightarrow> run_state \<Rightarrow>
     (engine_snapshot_envelope, snapshot_error) result" where
  "snapshot_new to_vec sha256 s =
     attempt (hash_serializable to_vec sha256 s) (\<lambda>h.
     Ok \<lparr>es_schema_version = ENGINE_SNAPSHOT_VERSION, es_state_hash = h, es_state = s\<rparr>)"

definition snapshot_verify ::
    "(run_state \<Rightarrow> nat list option) \<Rightarrow> (nat list \<Rightarrow> nat list) \<Rightarrow> engine_snapshot_envelope \<Rightarrow>
     (unit, snapshot_error) result" where
  "snapshot_verify to_vec sha256 e =
     (if es_schema_version e \<noteq> ENGINE_SNAPSHOT_VERSION then Err UnsupportedVersion
      else
        attempt (run_validate (es_state e)) (\<lambda>_.
        attempt (hash_serializable to_vec sha256 (es_state e)) (\<lambda>h.
        if h \<noteq> es_state_hash e then Err HashMismatch else Ok ())))"

text \<open>\<open>encode\<close> is \<open>serde_json::to_string\<close> on the envelope.\<close>

definition snapshot_to_json ::
    "(engine_snapshot_envelope \<Rightarrow> string option) \<Rightarrow> engine_snapshot_envelope \<Rightarrow> (string, snapshot_error) result" where
  "snapshot_to_json encode e = ok_or Serialization (encode e)"

text \<open>\<open>header\<close> reads the version alone, \<open>decode\<close> the whole envelope (\<open>serde_json::from_str\<close>).\<close>

definition snapshot_from_json ::
    "(string \<Rightarrow> nat option) \<Rightarrow> (string \<Rightarrow> engine_snapshot_envelope option) \<Rightarrow>
     (run_state \<Rightarrow> nat list option) \<Rightarrow> (nat list \<Rightarrow> nat list) \<Rightarrow> string \<Rightarrow>
     (engine_snapshot_envelope, snapshot_error) result" where
  "snapshot_from_json header decode to_vec sha256 json =
     attempt (ok_or Serialization (header json)) (\<lambda>version.
     if version \<noteq> ENGINE_SNAPSHOT_VERSION then Err UnsupportedVersion
     else
       attempt (ok_or Serialization (decode json)) (\<lambda>e.
       attempt (snapshot_verify to_vec sha256 e) (\<lambda>_. Ok e)))"

end
