(* ===== verification/Latency.thy ===== *)
theory Latency
  imports Market_Types "HOL-Library.Word" "HOL-Library.Char_ord" "HOL-Library.List_Lexorder"
begin

text \<open>
  Virtual latency, first part of \<open>packages/admission-sequencer/src/lib.rs\<close>: the delay
  estimator, the latency map with its validation, and the latency model with its
  jitter streams. Jitter is drawn with SplitMix64, which wraps, so the mixer works on
  \<open>64 word\<close>; times are natural numbers with the saturation of \<open>saturating_add\<close>
  written out. Location names are byte strings under the bytewise order of Rust's
  \<open>str\<close>.

  The two unchecked additions of \<open>delay_with_position\<close> (\<open>jitter_us + 1\<close> and
  the latency plus the draw) are plain additions here; \<open>path_bounded\<close> shows that they stay far
  below \<open>2 ^ 64\<close> on a validated map, the only maps a model is built from.
\<close>

unbundle bit_operations_syntax

definition MAX_CONFIGURED_DELAY_US :: nat where
  "MAX_CONFIGURED_DELAY_US = 10000000"

definition MAX_JITTER_STREAMS :: nat where
  "MAX_JITTER_STREAMS = 65536"

datatype policy_fault =
    LatencyTooLong | MapTooLarge | EmptyLocation | DuplicatePlacement | SelfLink | MissingLink

datatype admission_error = QueueFull nat | TooManyStreams nat | InvalidPolicy policy_fault

definition saturating_add_u64 :: "nat \<Rightarrow> nat \<Rightarrow> nat" where
  "saturating_add_u64 a b = min (a + b) (2 ^ 64 - 1)"

subsection \<open>Measured delay\<close>

datatype rtt_source = RttNone | RttKernel | RttProbe | RttBoth

record delay_estimator =
  kernel_min_us :: "nat option"
  probe_min_us :: "nat option"
  probe_samples :: nat

definition delay_estimator_new :: delay_estimator where
  "delay_estimator_new = \<lparr>kernel_min_us = None, probe_min_us = None, probe_samples = 0\<rparr>"

definition record_probe :: "nat \<Rightarrow> delay_estimator \<Rightarrow> delay_estimator" where
  "record_probe rtt e =
     e\<lparr>probe_min_us := Some (case probe_min_us e of None \<Rightarrow> rtt | Some mn \<Rightarrow> min mn rtt),
       probe_samples := saturating_add_u64 (probe_samples e) 1\<rparr>"

definition record_kernel_min :: "nat \<Rightarrow> delay_estimator \<Rightarrow> delay_estimator" where
  "record_kernel_min rtt e =
     (if rtt = 0 then e
      else e\<lparr>kernel_min_us := Some (case kernel_min_us e of None \<Rightarrow> rtt | Some mn \<Rightarrow> min mn rtt)\<rparr>)"

definition rtt_source_of :: "delay_estimator \<Rightarrow> rtt_source" where
  "rtt_source_of e =
     (case (kernel_min_us e, probe_min_us e) of
        (None, None) \<Rightarrow> RttNone | (Some _, None) \<Rightarrow> RttKernel
      | (None, Some _) \<Rightarrow> RttProbe | (Some _, Some _) \<Rightarrow> RttBoth)"

definition min_rtt_us :: "delay_estimator \<Rightarrow> nat option" where
  "min_rtt_us e =
     (case (kernel_min_us e, probe_min_us e) of
        (Some krn, Some prb) \<Rightarrow> Some (min krn prb)
      | (krn, prb) \<Rightarrow> (case krn of None \<Rightarrow> prb | Some k \<Rightarrow> Some k))"

definition one_way_us :: "delay_estimator \<Rightarrow> nat option" where
  "one_way_us e = map_option (\<lambda>rtt. rtt div 2) (min_rtt_us e)"

subsection \<open>The latency map\<close>

record path_latency =
  latency_us :: nat
  jitter_us :: nat

definition path_latency_default :: path_latency where
  "path_latency_default = \<lparr>latency_us = 0, jitter_us = 0\<rparr>"

datatype endpoint = Participant participant_id | Venue venue_id | Hub

instantiation endpoint :: linorder
begin

fun endpoint_rank :: "endpoint \<Rightarrow> nat \<times> nat" where
  "endpoint_rank (Participant p) = (0, p)"
| "endpoint_rank (Venue v) = (1, v)"
| "endpoint_rank Hub = (2, 0)"

definition less_eq_endpoint :: "endpoint \<Rightarrow> endpoint \<Rightarrow> bool" where
  "less_eq_endpoint a b \<longleftrightarrow> endpoint_rank a \<le> endpoint_rank b"

definition less_endpoint :: "endpoint \<Rightarrow> endpoint \<Rightarrow> bool" where
  "less_endpoint a b \<longleftrightarrow> endpoint_rank a < endpoint_rank b"

instance
proof
  fix x y z :: endpoint
  have inj: "endpoint_rank x = endpoint_rank y \<Longrightarrow> x = y"
    by (cases x; cases y) auto
  show "x < y \<longleftrightarrow> x \<le> y \<and> \<not> y \<le> x"
    by (auto simp: less_eq_endpoint_def less_endpoint_def)
  show "x \<le> x"
    by (simp add: less_eq_endpoint_def)
  show "x \<le> y \<Longrightarrow> y \<le> z \<Longrightarrow> x \<le> z"
    unfolding less_eq_endpoint_def by (rule order_trans)
  show "x \<le> y \<Longrightarrow> y \<le> x \<Longrightarrow> x = y"
    using inj unfolding less_eq_endpoint_def by (blast intro: antisym)
  show "x \<le> y \<or> y \<le> x"
    unfolding less_eq_endpoint_def by (rule linear)
qed

end

record link =
  between :: "string \<times> string"
  link_latency :: path_latency

record latency_map =
  jitter_seed :: "64 word"
  default_location :: string
  placed_participants :: "(participant_id \<times> string) list"
  placed_venues :: "(venue_id \<times> string) list"
  local_path :: path_latency
  links :: "link list"

definition latency_map_default :: latency_map where
  "latency_map_default =
     \<lparr>jitter_seed = 0, default_location = ''hub'', placed_participants = [], placed_venues = [],
      local_path = path_latency_default, links = []\<rparr>"

definition ordered :: "string \<Rightarrow> string \<Rightarrow> string \<times> string" where
  "ordered a b = (if a \<le> b then (a, b) else (b, a))"

definition link_key :: "link \<Rightarrow> string \<times> string" where
  "link_key l = ordered (fst (between l)) (snd (between l))"

definition find_link :: "latency_map \<Rightarrow> string \<Rightarrow> string \<Rightarrow> path_latency option" where
  "find_link m a b = map_option link_latency (List.find (\<lambda>l. link_key l = ordered a b) (links m))"

definition location :: "latency_map \<Rightarrow> endpoint \<Rightarrow> string" where
  "location m e =
     (let placed =
        (case e of
           Participant p \<Rightarrow> map_option snd (List.find (\<lambda>pl. fst pl = p) (placed_participants m))
         | Venue v \<Rightarrow> map_option snd (List.find (\<lambda>pl. fst pl = v) (placed_venues m))
         | Hub \<Rightarrow> None)
      in case placed of None \<Rightarrow> default_location m | Some l \<Rightarrow> l)"

definition path :: "latency_map \<Rightarrow> endpoint \<Rightarrow> endpoint \<Rightarrow> path_latency" where
  "path m from to =
     (let a = location m from; b = location m to in
      if a = b then local_path m
      else case find_link m a b of None \<Rightarrow> path_latency_default | Some p \<Rightarrow> p)"

definition bounded :: "path_latency \<Rightarrow> bool" where
  "bounded p \<longleftrightarrow> latency_us p \<le> MAX_CONFIGURED_DELAY_US \<and> jitter_us p \<le> MAX_CONFIGURED_DELAY_US"

text \<open>\<open>sort_unstable\<close> followed by \<open>windows(2)\<close>: a sorted list has equal neighbours.\<close>

definition has_duplicate :: "'a::linorder list \<Rightarrow> bool" where
  "has_duplicate xs = (let s = sort xs in list_ex (\<lambda>(a, b). a = b) (zip s (tl s)))"

fun all_linked :: "latency_map \<Rightarrow> string list \<Rightarrow> bool" where
  "all_linked m [] = True"
| "all_linked m (a # as) \<longleftrightarrow> list_all (\<lambda>b. find_link m a b \<noteq> None) as \<and> all_linked m as"

definition used_locations :: "latency_map \<Rightarrow> string btree_set" where
  "used_locations m =
     foldl (\<lambda>used l. bs_insert l used) [default_location m]
       (map snd (placed_participants m) @ map snd (placed_venues m))"

definition validate :: "latency_map \<Rightarrow> (unit, admission_error) result" where
  "validate m =
     (if \<not> bounded (local_path m) \<or> \<not> list_all (\<lambda>l. bounded (link_latency l)) (links m)
      then Err (InvalidPolicy LatencyTooLong)
      else if length (placed_participants m) + length (placed_venues m) + length (links m) > MAX_JITTER_STREAMS
      then Err (InvalidPolicy MapTooLarge)
      else if default_location m = [] \<or>
              list_ex (\<lambda>l. l = []) (map snd (placed_participants m) @ map snd (placed_venues m) @
                concat (map (\<lambda>l. [fst (between l), snd (between l)]) (links m)))
      then Err (InvalidPolicy EmptyLocation)
      else if has_duplicate (map fst (placed_participants m)) \<or> has_duplicate (map fst (placed_venues m)) \<or>
              has_duplicate (map link_key (links m))
      then Err (InvalidPolicy DuplicatePlacement)
      else if list_ex (\<lambda>l. fst (between l) = snd (between l)) (links m)
      then Err (InvalidPolicy SelfLink)
      else if \<not> all_linked m (used_locations m) then Err (InvalidPolicy MissingLink)
      else Ok ())"

subsection \<open>The latency model\<close>

definition splitmix64 :: "64 word \<Rightarrow> 64 word" where
  "splitmix64 value =
     (let z = value + 0x9e3779b97f4a7c15;
          z = (z XOR drop_bit 30 z) * 0xbf58476d1ce4e5b9;
          z = (z XOR drop_bit 27 z) * 0x94d049bb133111eb
      in z XOR drop_bit 31 z)"

definition fold_seed :: "64 word \<Rightarrow> nat \<Rightarrow> 64 word" where
  "fold_seed tag value =
     (let low = word_of_nat (value mod 2 ^ 64); high = word_of_nat (value div 2 ^ 64)
      in splitmix64 (tag XOR splitmix64 (low XOR splitmix64 high)))"

fun endpoint_seed :: "endpoint \<Rightarrow> 64 word" where
  "endpoint_seed (Participant p) = fold_seed 1 p"
| "endpoint_seed (Venue v) = fold_seed 2 v"
| "endpoint_seed Hub = fold_seed 3 0"

record latency_model =
  lmap :: latency_map
  streams :: "(endpoint \<times> endpoint, 64 word) btree_map"

definition latency_model_new :: "latency_map \<Rightarrow> (latency_model, admission_error) result" where
  "latency_model_new m = attempt (validate m) (\<lambda>_. Ok \<lparr>lmap = m, streams = []\<rparr>)"

definition jitter_draw :: "latency_map \<Rightarrow> endpoint \<Rightarrow> endpoint \<Rightarrow> 64 word \<Rightarrow> 64 word" where
  "jitter_draw m from to position =
     (let stream = splitmix64 (jitter_seed m XOR splitmix64 (endpoint_seed from XOR splitmix64 (endpoint_seed to)))
      in splitmix64 (stream XOR splitmix64 position))"

definition delay_with_position ::
    "latency_model \<Rightarrow> endpoint \<Rightarrow> endpoint \<Rightarrow> ((nat \<times> 64 word option) \<times> latency_model, admission_error) result" where
  "delay_with_position lm from to =
     (let p = path (lmap lm) from to in
      if jitter_us p = 0 then Ok ((latency_us p, None), lm)
      else if bt_get (streams lm) (from, to) = None \<and> length (streams lm) \<ge> MAX_JITTER_STREAMS
      then Err (TooManyStreams MAX_JITTER_STREAMS)
      else
        let current = (case bt_get (streams lm) (from, to) of None \<Rightarrow> 0 | Some n \<Rightarrow> n);
            draw = jitter_draw (lmap lm) from to current
        in Ok ((latency_us p + unat draw mod (jitter_us p + 1), Some current),
               lm\<lparr>streams := bt_insert (from, to) (current + 1) (streams lm)\<rparr>))"

definition delay_us :: "latency_model \<Rightarrow> endpoint \<Rightarrow> endpoint \<Rightarrow> (nat \<times> latency_model, admission_error) result" where
  "delay_us lm from to = attempt (delay_with_position lm from to) (\<lambda>((delay, _), lm'). Ok (delay, lm'))"

record admission_record =
  received_us :: nat
  measured_one_way_us :: "nat option"
  ar_rtt_source :: rtt_source
  destination :: endpoint
  path_latency_us :: nat
  jitter_position :: "64 word option"
  release_us :: nat
  arrival_sequence :: nat

definition decide ::
    "latency_model \<Rightarrow> nat \<Rightarrow> delay_estimator \<Rightarrow> participant_id \<Rightarrow> endpoint \<Rightarrow>
     (admission_record \<times> latency_model, admission_error) result" where
  "decide lm received measured participant dest =
     attempt (delay_with_position lm (Participant participant) dest) (\<lambda>((p, pos), lm').
     Ok (\<lparr>received_us = received, measured_one_way_us = one_way_us measured,
          ar_rtt_source = rtt_source_of measured, destination = dest, path_latency_us = p,
          jitter_position = pos, release_us = saturating_add_u64 received p, arrival_sequence = 0\<rparr>, lm'))"

subsection \<open>The map's lookups\<close>

lemma ordered_commute: "ordered a b = ordered b a"
  by (auto simp: ordered_def)

lemma find_link_commute: "find_link m a b = find_link m b a"
  by (simp add: find_link_def ordered_commute [of a b])

lemma set_used_locations:
  "set (used_locations m) = insert (default_location m) (snd ` set (placed_participants m) \<union> snd ` set (placed_venues m))"
proof -
  have "set (foldl (\<lambda>used l. bs_insert l used) u ls) = set u \<union> set ls" for u ls :: "string list"
    by (induction ls arbitrary: u) auto
  from this [of "[default_location m]" "map snd (placed_participants m) @ map snd (placed_venues m)"]
  show ?thesis
    unfolding used_locations_def by simp
qed

lemma find_mem: "List.find P xs = Some x \<Longrightarrow> x \<in> set xs \<and> P x"
  by (induction xs) (auto split: if_splits)

lemma location_used: "location m e \<in> set (used_locations m)"
proof (cases e)
  case (Participant p)
  then show ?thesis
    by (force simp: location_def set_used_locations Let_def split: option.split dest!: find_mem)
next
  case (Venue v)
  then show ?thesis
    by (force simp: location_def set_used_locations Let_def split: option.split dest!: find_mem)
next
  case Hub
  then show ?thesis
    by (simp add: location_def set_used_locations)
qed

lemma all_linked_pair: "all_linked m ls \<Longrightarrow> a \<in> set ls \<Longrightarrow> b \<in> set ls \<Longrightarrow> a \<noteq> b \<Longrightarrow> find_link m a b \<noteq> None"
  by (induction m ls rule: all_linked.induct) (auto simp: list_all_iff, metis find_link_commute)

lemma validate_OkD:
  assumes "validate m = Ok u"
  shows "bounded (local_path m)" and "l \<in> set (links m) \<Longrightarrow> bounded (link_latency l)"
    and "all_linked m (used_locations m)"
  using assms by (auto simp: validate_def list_all_iff split: if_splits)

lemma path_bounded:
  assumes "validate m = Ok u"
  shows "bounded (path m from to)"
proof -
  have "bounded p" if "find_link m a b = Some p" for a b p
    using that validate_OkD(2) [OF assms] by (auto simp: find_link_def dest!: find_mem)
  then show ?thesis
    using validate_OkD(1) [OF assms]
    by (auto simp: path_def Let_def path_latency_default_def bounded_def split: option.split)
qed

text \<open>
  The validated geography is complete and symmetric: whenever two endpoints sit
  at different locations a configured link joins them, so the fallback to zero
  latency in \<open>path\<close> is never taken, and the path is the same in both directions.
\<close>

theorem path_linked_symmetric:
  assumes "validate m = Ok u"
  shows "path m from to = path m to from \<and>
    (if location m from = location m to then path m from to = local_path m
     else \<exists>l \<in> set (links m). link_key l = ordered (location m from) (location m to) \<and> path m from to = link_latency l)"
proof -
  have "\<exists>l \<in> set (links m). link_key l = ordered (location m from) (location m to) \<and> path m from to = link_latency l"
    if neq: "location m from \<noteq> location m to"
  proof -
    obtain p where p: "find_link m (location m from) (location m to) = Some p"
      using all_linked_pair [OF validate_OkD(3) [OF assms] location_used location_used neq] by auto
    then have "path m from to = p"
      using neq by (simp add: path_def)
    then show ?thesis
      using p by (auto simp: find_link_def dest!: find_mem)
  qed
  moreover have "path m from to = path m to from"
    by (simp add: path_def Let_def find_link_commute [of m "location m from"])
  moreover have "path m from to = local_path m" if "location m from = location m to"
    using that by (simp add: path_def)
  ultimately show ?thesis
    by simp
qed

subsection \<open>Delays\<close>

text \<open>The jitter streams of a model built from a validated map.\<close>

definition model_ok :: "latency_model \<Rightarrow> bool" where
  "model_ok lm \<longleftrightarrow> validate (lmap lm) = Ok () \<and> bt_wf (streams lm)"

lemma model_ok_new: "latency_model_new m = Ok lm \<Longrightarrow> model_ok lm"
  by (auto simp: latency_model_new_def model_ok_def result_simps)

lemma delay_with_positionD:
  assumes "model_ok lm" and "delay_with_position lm from to = Ok ((d, pos), lm')"
  shows "model_ok lm'" and "lmap lm' = lmap lm"
    and "latency_us (path (lmap lm) from to) \<le> d"
    and "d \<le> latency_us (path (lmap lm) from to) + jitter_us (path (lmap lm) from to)"
    and "key \<noteq> (from, to) \<Longrightarrow> bt_get (streams lm') key = bt_get (streams lm) key"
    and "pos = (if jitter_us (path (lmap lm) from to) = 0 then None
      else Some (case bt_get (streams lm) (from, to) of None \<Rightarrow> 0 | Some n \<Rightarrow> n))"
proof -
  have "unat (jitter_draw (lmap lm) from to k) mod (jitter_us (path (lmap lm) from to) + 1)
      \<le> jitter_us (path (lmap lm) from to)" for k
    using mod_less_divisor [of "jitter_us (path (lmap lm) from to) + 1"] by (simp add: less_Suc_eq_le)
  then show "model_ok lm'" and "lmap lm' = lmap lm"
    and "latency_us (path (lmap lm) from to) \<le> d"
    and "d \<le> latency_us (path (lmap lm) from to) + jitter_us (path (lmap lm) from to)"
    and "key \<noteq> (from, to) \<Longrightarrow> bt_get (streams lm') key = bt_get (streams lm) key"
    and "pos = (if jitter_us (path (lmap lm) from to) = 0 then None
      else Some (case bt_get (streams lm) (from, to) of None \<Rightarrow> 0 | Some n \<Rightarrow> n))"
    using assms by (auto simp: delay_with_position_def Let_def model_ok_def split: if_splits)
qed

text \<open>
  An admission decision delays a command by its configured path and no more than
  its configured jitter: the release is the receive time plus a delay between the
  link's latency and latency plus jitter, at most 20 s, so no addition
  overflows; measured delay is recorded but never enters the release; and the draw
  advances the jitter stream of this directed pair only.
\<close>

theorem decide_release:
  assumes "model_ok lm" and "received + 2 * MAX_CONFIGURED_DELAY_US < 2 ^ 64"
    and "decide lm received measured p dest = Ok (r, lm')"
  shows "let pth = path (lmap lm) (Participant p) dest in
    release_us r = received + path_latency_us r \<and>
    latency_us pth \<le> path_latency_us r \<and> path_latency_us r \<le> latency_us pth + jitter_us pth \<and>
    path_latency_us r \<le> 2 * MAX_CONFIGURED_DELAY_US \<and>
    received_us r = received \<and> measured_one_way_us r = one_way_us measured \<and> destination r = dest \<and>
    (\<forall>measured'. \<exists>r'. decide lm received measured' p dest = Ok (r', lm') \<and> release_us r' = release_us r) \<and>
    (\<forall>key. key \<noteq> (Participant p, dest) \<longrightarrow> bt_get (streams lm') key = bt_get (streams lm) key) \<and> model_ok lm'"
proof -
  obtain d pos where d: "delay_with_position lm (Participant p) dest = Ok ((d, pos), lm')"
    and r: "r = \<lparr>received_us = received, measured_one_way_us = one_way_us measured,
          ar_rtt_source = rtt_source_of measured, destination = dest, path_latency_us = d,
          jitter_position = pos, release_us = saturating_add_u64 received d, arrival_sequence = 0\<rparr>"
    using assms(3) by (auto simp: decide_def result_simps split: prod.splits)
  note D = delay_with_positionD [OF assms(1) d]
  have "bounded (path (lmap lm) (Participant p) dest)"
    using path_bounded assms(1) by (auto simp: model_ok_def)
  then have le: "d \<le> 2 * MAX_CONFIGURED_DELAY_US"
    using D(4) by (simp add: bounded_def)
  then have "saturating_add_u64 received d = received + d"
    using assms(2) by (simp add: saturating_add_u64_def)
  moreover have "\<exists>r'. decide lm received measured' p dest = Ok (r', lm') \<and> release_us r' = release_us r" for measured'
    by (simp add: decide_def d r)
  ultimately show ?thesis
    using D r le by (simp add: Let_def)
qed

subsection \<open>Example\<close>

definition ex_map :: latency_map where
  "ex_map = \<lparr>jitter_seed = 7, default_location = ''hub'', placed_participants = [(1, ''nyc'')], placed_venues = [],
     local_path = \<lparr>latency_us = 5, jitter_us = 0\<rparr>,
     links = [\<lparr>between = (''nyc'', ''hub''), link_latency = \<lparr>latency_us = 100, jitter_us = 20\<rparr>\<rparr>]\<rparr>"

lemma ex_map_valid: "validate ex_map = Ok ()"
  by (simp add: validate_def ex_map_def bounded_def MAX_CONFIGURED_DELAY_US_def MAX_JITTER_STREAMS_def has_duplicate_def
      used_locations_def bs_insert_def find_link_def link_key_def ordered_def less_char_def less_eq_char_def)

lemma ex_model_ok: "model_ok \<lparr>lmap = ex_map, streams = []\<rparr>"
  by (simp add: model_ok_def ex_map_valid)

theorem path_linked_symmetric_witness:
  "path ex_map (Participant 1) Hub = path ex_map Hub (Participant 1) \<and> latency_us (path ex_map Hub (Participant 1)) = 100"
proof -
  have "location ex_map (Participant 1) \<noteq> location ex_map Hub"
    by (simp add: location_def ex_map_def)
  then show ?thesis
    using path_linked_symmetric [OF ex_map_valid, of "Participant 1" Hub] by (auto simp: ex_map_def)
qed

theorem decide_release_witness:
  "\<exists>r lm'. decide \<lparr>lmap = ex_map, streams = []\<rparr> 1000 delay_estimator_new 1 Hub = Ok (r, lm') \<and>
     release_us r = 1000 + path_latency_us r \<and> path_latency_us r \<le> 2 * MAX_CONFIGURED_DELAY_US \<and> model_ok lm'"
proof -
  have "\<exists>d pos lm'. delay_with_position \<lparr>lmap = ex_map, streams = []\<rparr> (Participant 1) Hub = Ok ((d, pos), lm')"
    by (simp add: delay_with_position_def MAX_JITTER_STREAMS_def Let_def)
  then obtain r lm' where d: "decide \<lparr>lmap = ex_map, streams = []\<rparr> 1000 delay_estimator_new 1 Hub = Ok (r, lm')"
    by (auto simp: decide_def)
  have "1000 + 2 * MAX_CONFIGURED_DELAY_US < 2 ^ 64"
    by (simp add: MAX_CONFIGURED_DELAY_US_def)
  from decide_release [OF ex_model_ok this d] d show ?thesis
    by (auto simp: Let_def)
qed

end
