(* ===== verification/Origin_Store.thy ===== *)
theory Origin_Store
  imports Engine_Snapshot Latency
begin

text \<open>
  The origin of a run (\<open>origin-store/src/lib.rs\<close>) and the command transactions over it
  (\<open>command-transaction/src/lib.rs\<close>). One writer owns the live state of a run, applies an
  input, records it as a link of a hash chain and answers; a restart re-executes the journal.

  The JSON encoders and SHA-256 are the fields of \<open>digests\<close>. An operation on a mutable run
  returns its result and the run after it. A failed transition that leaves the state unusable
  (\<open>Poisoned\<close>) is always followed by \<open>rebuild\<close>, which replaces the state or marks the run as
  poisoned, when nothing reads the state again; the model keeps the earlier state meanwhile.
\<close>

section \<open>Journal records\<close>

record command_result =
  res_accepted :: bool
  res_reject_code :: "reject_code option"
  committed_sequence :: event_sequence
  res_order_id :: "order_id option"

datatype journal_input = OrderInput command | SimulationInput simulation_command_request

fun input_run_id :: "journal_input \<Rightarrow> run_id" where
  "input_run_id (OrderInput c) = c_run_id c"
| "input_run_id (SimulationInput r) = c_run_id r"

fun input_command_id :: "journal_input \<Rightarrow> command_id" where
  "input_command_id (OrderInput c) = c_command_id c"
| "input_command_id (SimulationInput r) = c_command_id r"

fun input_expected_sequence :: "journal_input \<Rightarrow> event_sequence" where
  "input_expected_sequence (OrderInput c) = c_expected_sequence c"
| "input_expected_sequence (SimulationInput r) = c_expected_sequence r"

text \<open>\<open>self.state.apply\<close> or \<open>self.state.apply_simulation\<close>.\<close>

fun apply_input :: "run_state \<Rightarrow> journal_input \<Rightarrow> (applied \<times> run_state, apply_error) result" where
  "apply_input s (OrderInput c) = run_apply s c"
| "apply_input s (SimulationInput r) = run_apply_simulation s r"

record command_record =
  jr_input :: journal_input
  jr_fingerprint :: string
  jr_result :: command_result
  jr_events :: "event_envelope list"
  jr_chain :: string
  jr_admission :: "admission_record option"

record executed =
  exe_result :: command_result
  exe_events :: "event_envelope list"
  duplicate :: bool

datatype origin_error =
    UnknownRun | RunVersionConflict event_sequence | IdempotencyConflict | InvalidCommit | Unavailable
  | CapacityExceeded | EngineRefused engine_error

record run_limits =
  max_commands :: nat
  max_events :: nat
  checkpoint_interval :: nat

definition default_run_limits :: run_limits where
  "default_run_limits = \<lparr>max_commands = 2097152, max_events = 16777216, checkpoint_interval = 8192\<rparr>"

section \<open>Digests\<close>

text \<open>The fields of a record that its chain value covers.\<close>

record chained =
  ch_input :: journal_input
  ch_fingerprint :: string
  ch_result :: command_result
  ch_events :: "event_envelope list"
  ch_admission :: "admission_record option"

definition chained_of :: "command_record \<Rightarrow> chained" where
  "chained_of r = \<lparr>ch_input = jr_input r, ch_fingerprint = jr_fingerprint r, ch_result = jr_result r,
     ch_events = jr_events r, ch_admission = jr_admission r\<rparr>"

text \<open>\<open>serde_json::to_vec\<close> on the four types that are hashed, and \<open>Sha256::digest\<close>.\<close>

record digests =
  json_state :: "run_state \<Rightarrow> nat list option"
  json_command :: "command \<Rightarrow> nat list option"
  json_request :: "simulation_command_request \<Rightarrow> nat list option"
  json_chained :: "chained \<Rightarrow> nat list option"
  sha256_of :: "nat list \<Rightarrow> nat list"

definition GENESIS_DOMAIN :: "nat list" where
  "GENESIS_DOMAIN = map of_char ''bunting.journal.v3.genesis'' @ [0]"

definition digest_json :: "digests \<Rightarrow> nat list option \<Rightarrow> (nat list, origin_error) result" where
  "digest_json d json = attempt (ok_or InvalidCommit json) (\<lambda>bytes. Ok (sha256_of d bytes))"

fun fingerprint_bytes :: "digests \<Rightarrow> journal_input \<Rightarrow> (nat list, origin_error) result" where
  "fingerprint_bytes d (OrderInput c) = digest_json d (json_command d c)"
| "fingerprint_bytes d (SimulationInput r) = digest_json d (json_request d r)"

definition genesis_chain :: "digests \<Rightarrow> run_state \<Rightarrow> (nat list, origin_error) result" where
  "genesis_chain d s =
     attempt (map_err (\<lambda>_. InvalidCommit) (hash_serializable (json_state d) (sha256_of d) s)) (\<lambda>h.
     Ok (sha256_of d (GENESIS_DOMAIN @ map of_char h)))"

definition next_chain :: "digests \<Rightarrow> nat list \<Rightarrow> chained \<Rightarrow> (nat list, origin_error) result" where
  "next_chain d previous c =
     attempt (ok_or InvalidCommit (json_chained d c)) (\<lambda>bytes. Ok (sha256_of d (previous @ bytes)))"

text \<open>The lower-case hexadecimal text of a digest, and its parser for 32 bytes.\<close>

definition hex :: "nat list \<Rightarrow> string" where
  "hex bytes = concat (map (\<lambda>b. [hex_digit (b div 16), hex_digit (b mod 16)]) bytes)"

definition digit_of_byte :: "nat \<Rightarrow> (nat, origin_error) result" where
  "digit_of_byte b =
     (if 48 \<le> b \<and> b \<le> 57 then Ok (b - 48) else if 97 \<le> b \<and> b \<le> 102 then Ok (b - 97 + 10) else Err InvalidCommit)"

fun parse_pairs :: "nat list \<Rightarrow> (nat list, origin_error) result" where
  "parse_pairs (a # b # more_bytes) =
     attempt (digit_of_byte a) (\<lambda>hi. attempt (digit_of_byte b) (\<lambda>lo.
     attempt (parse_pairs more_bytes) (\<lambda>bytes. Ok ((16 * hi + lo) # bytes))))"
| "parse_pairs _ = Ok []"

definition parse_hex :: "string \<Rightarrow> (nat list, origin_error) result" where
  "parse_hex s = (if length s \<noteq> 64 then Err InvalidCommit else parse_pairs (map of_char s))"

definition input_fingerprint :: "digests \<Rightarrow> journal_input \<Rightarrow> (string, origin_error) result" where
  "input_fingerprint d input = attempt (fingerprint_bytes d input) (\<lambda>bytes. Ok (hex bytes))"

section \<open>The live run\<close>

record indexed_command =
  ic_fingerprint :: "nat list"
  ic_result :: command_result

datatype execution = Duplicate command_result | Committed command_record

record live_run =
  lr_state :: run_state
  lr_chain :: "nat list"
  lr_base :: run_state
  lr_base_chain :: "nat list"
  lr_tail :: "journal_input list"
  lr_index :: "(command_id, indexed_command) btree_map"
  lr_limits :: run_limits
  lr_poisoned :: bool

type_synonym 'a live_call = "live_run \<Rightarrow> ('a, origin_error) result \<times> live_run"

definition live_genesis :: "digests \<Rightarrow> run_state \<Rightarrow> run_limits \<Rightarrow> (live_run, origin_error) result" where
  "live_genesis d s limits =
     attempt (genesis_chain d s) (\<lambda>chain.
     Ok \<lparr>lr_state = s, lr_chain = chain, lr_base = s, lr_base_chain = chain, lr_tail = [], lr_index = [],
         lr_limits = limits, lr_poisoned = False\<rparr>)"

definition live_state :: "live_run \<Rightarrow> (run_state, origin_error) result" where
  "live_state lr = (if lr_poisoned lr then Err Unavailable else Ok (lr_state lr))"

definition checkpoint_state :: "live_run \<Rightarrow> run_state \<times> string" where
  "checkpoint_state lr = (lr_base lr, hex (lr_base_chain lr))"

definition command_count :: "live_run \<Rightarrow> nat" where
  "command_count lr = length (lr_index lr)"

definition live_find :: "live_run \<Rightarrow> command_id \<Rightarrow> (string \<times> command_result) option" where
  "live_find lr i = map_option (\<lambda>e. (hex (ic_fingerprint e), ic_result e)) (bt_get (lr_index lr) i)"

definition replay_inputs :: "journal_input list \<Rightarrow> run_state \<Rightarrow> (run_state, apply_error) result" where
  "replay_inputs = try_fold (\<lambda>input s. attempt (apply_input s input) (\<lambda>(_, s'). Ok s'))"

definition rebuild :: "unit live_call" where
  "rebuild lr =
     (case replay_inputs (lr_tail lr) (lr_base lr) of
        Inl _ \<Rightarrow> (Err Unavailable, lr\<lparr>lr_poisoned := True\<rparr>)
      | Inr s \<Rightarrow> (Ok (), lr\<lparr>lr_state := s\<rparr>))"

text \<open>\<open>self.rebuild()?; return Err(error)\<close>.\<close>

definition roll_back :: "origin_error \<Rightarrow> 'a live_call" where
  "roll_back error lr =
     (case rebuild lr of (Inl e, lr') \<Rightarrow> (Err e, lr') | (Inr _, lr') \<Rightarrow> (Err error, lr'))"

text \<open>What \<open>execute_admitted\<close> does once the engine has applied the input.\<close>

definition commit_applied ::
    "digests \<Rightarrow> journal_input \<Rightarrow> admission_record option \<Rightarrow> nat list \<Rightarrow> applied \<Rightarrow> execution live_call" where
  "commit_applied d input admission fingerprint ap lr =
     (if run_event_sequence (lr_state lr) > max_events (lr_limits lr) then roll_back CapacityExceeded lr
      else
        let result = \<lparr>res_accepted = accepted ap, res_reject_code = ap_reject_code ap,
                      committed_sequence = run_sequence (lr_state lr), res_order_id = ap_order_id ap\<rparr>
        in case next_chain d (lr_chain lr)
                  \<lparr>ch_input = input, ch_fingerprint = hex fingerprint, ch_result = result, ch_events = events ap,
                   ch_admission = admission\<rparr> of
             Inl e \<Rightarrow> (Err e, lr)
           | Inr chain \<Rightarrow>
               (Ok (Committed \<lparr>jr_input = input, jr_fingerprint = hex fingerprint, jr_result = result,
                  jr_events = events ap, jr_chain = hex chain, jr_admission = admission\<rparr>),
                lr\<lparr>lr_index := bt_insert (input_command_id input)
                     \<lparr>ic_fingerprint = fingerprint, ic_result = result\<rparr> (lr_index lr),
                   lr_tail := lr_tail lr @ [input], lr_chain := chain\<rparr>))"

definition live_execute ::
    "digests \<Rightarrow> journal_input \<Rightarrow> admission_record option \<Rightarrow> execution live_call" where
  "live_execute d input admission lr =
     (if lr_poisoned lr then (Err Unavailable, lr)
      else if input_run_id input \<noteq> rs_run_id (lr_state lr) then (Err UnknownRun, lr)
      else
        case fingerprint_bytes d input of
          Inl e \<Rightarrow> (Err e, lr)
        | Inr fingerprint \<Rightarrow>
            (case bt_get (lr_index lr) (input_command_id input) of
               Some entry \<Rightarrow>
                 (if ic_fingerprint entry = fingerprint then Ok (Duplicate (ic_result entry)) else Err IdempotencyConflict, lr)
             | None \<Rightarrow>
                 if run_sequence (lr_state lr) \<noteq> input_expected_sequence input
                 then (Err (RunVersionConflict (run_sequence (lr_state lr))), lr)
                 else if length (lr_index lr) \<ge> max_commands (lr_limits lr) then (Err CapacityExceeded, lr)
                 else
                   (case apply_input (lr_state lr) input of
                      Inl (Unchanged e) \<Rightarrow> (Err (EngineRefused e), lr)
                    | Inl (Poisoned e) \<Rightarrow> roll_back (EngineRefused e) lr
                    | Inr (ap, s) \<Rightarrow> commit_applied d input admission fingerprint ap (lr\<lparr>lr_state := s\<rparr>))))"

definition needs_checkpoint :: "live_run \<Rightarrow> bool" where
  "needs_checkpoint lr \<longleftrightarrow> length (lr_tail lr) \<ge> max (checkpoint_interval (lr_limits lr)) 1"

definition live_checkpoint :: "unit live_call" where
  "live_checkpoint lr =
     (if lr_poisoned lr then (Err Unavailable, lr)
      else (Ok (), lr\<lparr>lr_base := lr_state lr, lr_base_chain := lr_chain lr, lr_tail := []\<rparr>))"

section \<open>Recovery\<close>

record run_recovery =
  rec_live :: live_run
  genesis_sequence :: event_sequence
  replayed_through :: event_sequence
  checkpoint_sequence :: event_sequence
  checkpoint_chain :: "nat list"

definition check_checkpoint_reached :: "run_recovery \<Rightarrow> (unit, origin_error) result" where
  "check_checkpoint_reached r =
     (if replayed_through r = checkpoint_sequence r \<and> lr_chain (rec_live r) \<noteq> checkpoint_chain r
      then Err InvalidCommit else Ok ())"

text \<open>The live run a recovery starts from, with the sequence and chain its checkpoint claims.\<close>

definition recovery_start ::
    "live_run \<Rightarrow> (run_state \<times> string) option \<Rightarrow> (live_run \<times> event_sequence \<times> nat list, origin_error) result" where
  "recovery_start lr checkpoint =
     (case checkpoint of
        None \<Rightarrow> Ok (lr, run_sequence (lr_state lr), lr_chain lr)
      | Some (s, text_chain) \<Rightarrow>
          if rs_run_id s \<noteq> rs_run_id (lr_state lr) \<or> scenario_hash s \<noteq> scenario_hash (lr_state lr)
             \<or> run_sequence s < run_sequence (lr_state lr)
          then Err InvalidCommit
          else attempt (parse_hex text_chain) (\<lambda>chain.
            Ok (lr\<lparr>lr_base := s, lr_base_chain := chain, lr_state := s\<rparr>, run_sequence s, chain)))"

definition recovery_new ::
    "digests \<Rightarrow> run_state \<Rightarrow> (run_state \<times> string) option \<Rightarrow> run_limits \<Rightarrow> (run_recovery, origin_error) result" where
  "recovery_new d genesis checkpoint limits =
     attempt (live_genesis d genesis limits) (\<lambda>lr.
     attempt (recovery_start lr checkpoint) (\<lambda>(lr', sequence, chain).
     let r = \<lparr>rec_live = lr', genesis_sequence = run_sequence genesis, replayed_through = run_sequence genesis,
              checkpoint_sequence = sequence, checkpoint_chain = chain\<rparr>
     in attempt (check_checkpoint_reached r) (\<lambda>_. Ok r)))"

text \<open>A record the checkpoint covers is verified and indexed, not executed.\<close>

definition replay_covered ::
    "digests \<Rightarrow> command_record \<Rightarrow> run_recovery \<Rightarrow> (unit, origin_error) result \<times> run_recovery" where
  "replay_covered d record r =
     (let lr = rec_live r in
      case attempt (fingerprint_bytes d (jr_input record)) (\<lambda>fingerprint.
             attempt (next_chain d (lr_chain lr) (chained_of record)) (\<lambda>chain. Ok (fingerprint, chain))) of
        Inl e \<Rightarrow> (Err e, r)
      | Inr (fingerprint, chain) \<Rightarrow>
          if hex fingerprint \<noteq> jr_fingerprint record \<or> hex chain \<noteq> jr_chain record
             \<or> bt_get (lr_index lr) (input_command_id (jr_input record)) \<noteq> None
          then (Err InvalidCommit, r)
          else
            let r' = r\<lparr>rec_live := lr\<lparr>lr_index := bt_insert (input_command_id (jr_input record))
                         \<lparr>ic_fingerprint = fingerprint, ic_result = jr_result record\<rparr> (lr_index lr), lr_chain := chain\<rparr>,
                       replayed_through := committed_sequence (jr_result record)\<rparr>
            in (check_checkpoint_reached r', r'))"

text \<open>A later record is executed and has to come out as it was journalled.\<close>

definition replay_executed ::
    "digests \<Rightarrow> command_record \<Rightarrow> run_recovery \<Rightarrow> (unit, origin_error) result \<times> run_recovery" where
  "replay_executed d record r =
     (case live_execute d (jr_input record) (jr_admission record) (rec_live r) of
        (Inr (Committed produced), lr) \<Rightarrow>
          if produced = record then (Ok (), r\<lparr>rec_live := lr, replayed_through := committed_sequence (jr_result record)\<rparr>)
          else (Err InvalidCommit, r\<lparr>rec_live := lr\<rparr>)
      | (_, lr) \<Rightarrow> (Err InvalidCommit, r\<lparr>rec_live := lr\<rparr>))"

definition replay ::
    "digests \<Rightarrow> command_record \<Rightarrow> run_recovery \<Rightarrow> (unit, origin_error) result \<times> run_recovery" where
  "replay d record r =
     (let sequence = committed_sequence (jr_result record) in
      case u64_checked_add (replayed_through r) 1 of
        None \<Rightarrow> (Err InvalidCommit, r)
      | Some successor \<Rightarrow>
          if sequence \<noteq> successor \<or> input_run_id (jr_input record) \<noteq> rs_run_id (lr_state (rec_live r))
             \<or> input_expected_sequence (jr_input record) \<noteq> replayed_through r
          then (Err InvalidCommit, r)
          else if sequence \<le> checkpoint_sequence r then replay_covered d record r
          else replay_executed d record r)"

definition recovery_finish :: "run_recovery \<Rightarrow> (live_run, origin_error) result" where
  "recovery_finish r =
     (if replayed_through r < checkpoint_sequence r then Err InvalidCommit else Ok (rec_live r))"

section \<open>The in-memory origin\<close>

record in_memory_origin =
  mem_runs :: "(run_id, live_run) btree_map"
  mem_limits :: run_limits

definition with_limits :: "run_limits \<Rightarrow> in_memory_origin" where
  "with_limits limits = \<lparr>mem_runs = [], mem_limits = limits\<rparr>"

definition insert_run ::
    "digests \<Rightarrow> run_state \<Rightarrow> in_memory_origin \<Rightarrow> (unit, origin_error) result \<times> in_memory_origin" where
  "insert_run d s m =
     (case bt_get (mem_runs m) (rs_run_id s) of
        Some existing \<Rightarrow>
          (attempt (live_state existing) (\<lambda>s'. if s' = s then Ok () else Err InvalidCommit), m)
      | None \<Rightarrow>
          (case live_genesis d s (mem_limits m) of
             Inl e \<Rightarrow> (Err e, m)
           | Inr lr \<Rightarrow> (Ok (), m\<lparr>mem_runs := bt_insert (rs_run_id s) lr (mem_runs m)\<rparr>)))"

text \<open>The answer to an execution, and the checkpoint after a committed one.\<close>

definition executed_of :: "execution \<Rightarrow> executed" where
  "executed_of x =
     (case x of
        Duplicate result \<Rightarrow> \<lparr>exe_result = result, exe_events = [], duplicate = True\<rparr>
      | Committed record \<Rightarrow> \<lparr>exe_result = jr_result record, exe_events = jr_events record, duplicate = False\<rparr>)"

definition settle_execution :: "execution \<Rightarrow> executed live_call" where
  "settle_execution x lr =
     (case x of
        Duplicate _ \<Rightarrow> (Ok (executed_of x), lr)
      | Committed _ \<Rightarrow>
          if needs_checkpoint lr
          then (case live_checkpoint lr of (Inl e, lr') \<Rightarrow> (Err e, lr') | (Inr _, lr') \<Rightarrow> (Ok (executed_of x), lr'))
          else (Ok (executed_of x), lr))"

definition memory_execute ::
    "digests \<Rightarrow> journal_input \<Rightarrow> admission_record option \<Rightarrow> in_memory_origin \<Rightarrow>
     (executed, origin_error) result \<times> in_memory_origin" where
  "memory_execute d input admission m =
     (case bt_get (mem_runs m) (input_run_id input) of
        None \<Rightarrow> (Err UnknownRun, m)
      | Some lr \<Rightarrow>
          (case (case live_execute d input admission lr of
                   (Inl e, lr') \<Rightarrow> (Err e, lr')
                 | (Inr x, lr') \<Rightarrow> settle_execution x lr') of
             (answer, lr') \<Rightarrow> (answer, m\<lparr>mem_runs := bt_insert (input_run_id input) lr' (mem_runs m)\<rparr>)))"

definition memory_read_run :: "in_memory_origin \<Rightarrow> run_id \<Rightarrow> (run_state \<Rightarrow> 'a) \<Rightarrow> ('a, origin_error) result" where
  "memory_read_run m i read =
     attempt (ok_or UnknownRun (bt_get (mem_runs m) i)) (\<lambda>lr. attempt (live_state lr) (\<lambda>s. Ok (read s)))"

definition memory_find_command ::
    "in_memory_origin \<Rightarrow> run_id \<Rightarrow> command_id \<Rightarrow> ((string \<times> command_result) option, origin_error) result" where
  "memory_find_command m i c =
     attempt (ok_or UnknownRun (bt_get (mem_runs m) i)) (\<lambda>lr. Ok (live_find lr c))"

section \<open>Command transactions\<close>

datatype transaction_error = OriginFailed origin_error | TransactionConflict | TransactionRefused engine_error

fun transaction_error_of :: "origin_error \<Rightarrow> transaction_error" where
  "transaction_error_of IdempotencyConflict = TransactionConflict"
| "transaction_error_of (EngineRefused e) = TransactionRefused e"
| "transaction_error_of e = OriginFailed e"

text \<open>The transactions of an origin, given by its \<open>execute_admitted\<close>.\<close>

type_synonym 'o origin_execute =
  "journal_input \<Rightarrow> admission_record option \<Rightarrow> 'o \<Rightarrow> (executed, origin_error) result \<times> 'o"

definition transact ::
    "'o origin_execute \<Rightarrow> journal_input \<Rightarrow> admission_record option \<Rightarrow> 'o \<Rightarrow> (executed, transaction_error) result \<times> 'o" where
  "transact exec_store input admission origin =
     (case exec_store input admission origin of (r, origin') \<Rightarrow> (map_err transaction_error_of r, origin'))"

definition execute_detailed :: "'o origin_execute \<Rightarrow> command \<Rightarrow> 'o \<Rightarrow> (executed, transaction_error) result \<times> 'o" where
  "execute_detailed exec_store c = transact exec_store (OrderInput c) None"

definition transaction_execute ::
    "'o origin_execute \<Rightarrow> command \<Rightarrow> 'o \<Rightarrow> (command_result, transaction_error) result \<times> 'o" where
  "transaction_execute exec_store c origin =
     (case execute_detailed exec_store c origin of (r, origin') \<Rightarrow> (attempt r (\<lambda>x. Ok (exe_result x)), origin'))"

definition transaction_admitted ::
    "'o origin_execute \<Rightarrow> command \<Rightarrow> admission_record \<Rightarrow> 'o \<Rightarrow> (executed, transaction_error) result \<times> 'o" where
  "transaction_admitted exec_store c admission = transact exec_store (OrderInput c) (Some admission)"

definition execute_simulation_detailed ::
    "'o origin_execute \<Rightarrow> simulation_command_request \<Rightarrow> 'o \<Rightarrow> (executed, transaction_error) result \<times> 'o" where
  "execute_simulation_detailed exec_store r = transact exec_store (SimulationInput r) None"

definition execute_simulation_admitted ::
    "'o origin_execute \<Rightarrow> simulation_command_request \<Rightarrow> admission_record \<Rightarrow> 'o \<Rightarrow>
     (executed, transaction_error) result \<times> 'o" where
  "execute_simulation_admitted exec_store r admission = transact exec_store (SimulationInput r) (Some admission)"

end
