(* ===== verification/Book_Fills.thy ===== *)
theory Book_Fills
  imports Book_Lifecycle
begin

text \<open>
  What the executions of a book mean for each resting order: the quantity an order has
  left in the book is what it had less its fills. The engine settles the reported
  matches one by one, so this is the fact that keeps its ownership records and the
  book in step.
\<close>

subsection \<open>Quantity left in an order\<close>

definition order_left :: "book \<Rightarrow> order_id \<Rightarrow> int" where
  "order_left b i = (case bt_get (orders b) i of None \<Rightarrow> 0 | Some ord \<Rightarrow> remaining ord)"

definition list_left :: "book_order list \<Rightarrow> order_id \<Rightarrow> int" where
  "list_left xs i = (\<Sum>ord \<leftarrow> xs. if bo_order_id ord = i then remaining ord else 0)"

definition match_fills :: "book_match list \<Rightarrow> order_id \<Rightarrow> int" where
  "match_fills ms i = (\<Sum>m \<leftarrow> ms. if maker m = i then match_quantity m else 0)"

definition cross_fills :: "cross list \<Rightarrow> order_id \<Rightarrow> int" where
  "cross_fills cs i =
     (\<Sum>c \<leftarrow> cs. (if cross_buy c = i then cross_quantity c else 0) + (if cross_sell c = i then cross_quantity c else 0))"

lemma list_left_simps [simp]:
  "list_left [] i = 0"
  "list_left (x # xs) i = (if bo_order_id x = i then remaining x else 0) + list_left xs i"
  "list_left (xs @ ys) i = list_left xs i + list_left ys i"
  by (simp_all add: list_left_def)

lemma match_fills_simps [simp]:
  "match_fills [] i = 0"
  "match_fills (m # ms) i = (if maker m = i then match_quantity m else 0) + match_fills ms i"
  by (simp_all add: match_fills_def)

lemma cross_fills_simps [simp]:
  "cross_fills [] i = 0"
  "cross_fills (c # cs) i = (if cross_buy c = i then cross_quantity c else 0) +
     (if cross_sell c = i then cross_quantity c else 0) + cross_fills cs i"
  by (simp_all add: cross_fills_def)

lemma list_left_fill_head:
  "list_left (fill_head x q n xs) i = list_left (x # xs) i - (if bo_order_id x = i then q else 0)"
proof -
  let ?p = "\<lambda>y. bo_price y = bo_price (filled_order x q n)"
  have "list_left (takeWhile ?p xs) i + list_left (dropWhile ?p xs) i = list_left xs i"
    by (simp flip: list_left_simps(3))
  then show ?thesis
    by (simp add: fill_head_def requeue_def)
qed

lemma list_left_absent: "(\<And>x. x \<in> set xs \<Longrightarrow> bo_order_id x \<noteq> i) \<Longrightarrow> list_left xs i = 0"
  by (induction xs) auto

lemma list_left_present:
  assumes "distinct xs" and "x \<in> set xs" and "bo_order_id x = i"
    and "\<And>y. y \<in> set xs \<Longrightarrow> bo_order_id y = i \<Longrightarrow> y = x"
  shows "list_left xs i = remaining x"
proof -
  obtain us vs where xs: "xs = us @ x # vs"
    using assms(2) by (auto simp: in_set_conv_decomp)
  have "bo_order_id y \<noteq> i" if "y \<in> set us \<union> set vs" for y
    using assms(1,3) assms(4) [of y] that unfolding xs by auto
  then have "list_left us i = 0" "list_left vs i = 0"
    by (auto intro: list_left_absent)
  then show ?thesis
    using assms(3) by (simp add: xs)
qed

lemma list_left_side:
  assumes "book_inv b"
  shows "list_left (book_orders b sd) i =
    (case bt_get (orders b) i of None \<Rightarrow> 0 | Some ord \<Rightarrow> if bo_side ord = sd then remaining ord else 0)"
proof -
  have mem: "x \<in> set (book_orders b sd) \<Longrightarrow> bt_get (orders b) (bo_order_id x) = Some x \<and> bo_side x = sd" for x
    using side_ordersD [OF assms] by (simp add: book_orders_set [OF assms])
  show ?thesis
  proof (cases "\<exists>ord. bt_get (orders b) i = Some ord \<and> bo_side ord = sd")
    case True
    then obtain ord where ord: "bt_get (orders b) i = Some ord" "bo_side ord = sd"
      by blast
    have "list_left (book_orders b sd) i = remaining ord"
    proof (rule list_left_present)
      show "distinct (book_orders b sd)"
        using ranked_distinct [OF book_orders_ranked [OF assms]] .
      show "ord \<in> set (book_orders b sd)"
        using ord book_invD(4) [OF assms ord(1)] by (auto simp: book_orders_set [OF assms] side_orders_def)
      show "bo_order_id ord = i"
        using book_invD(4) [OF assms ord(1)] .
      show "y = ord" if "y \<in> set (book_orders b sd)" "bo_order_id y = i" for y
        using mem [OF that(1)] that(2) ord by simp
    qed
    then show ?thesis
      using ord by simp
  next
    case False
    have "list_left (book_orders b sd) i = 0"
      using mem False by (intro list_left_absent) blast
    then show ?thesis
      using False by (auto split: option.split)
  qed
qed

lemma order_left_view:
  "book_inv b \<Longrightarrow> order_left b i = list_left (book_orders b sd) i + list_left (book_orders b (opposite sd)) i"
  by (cases sd) (auto simp: list_left_side order_left_def split: option.split intro: side.exhaust)

lemma order_left_pos_iff: "book_inv b \<Longrightarrow> 0 < order_left b i \<longleftrightarrow> book_contains b i"
  by (auto simp: order_left_def book_contains_def dest: book_invD(5) order_okD(3) split: option.split)

lemma order_left_nonneg: "book_inv b \<Longrightarrow> 0 \<le> order_left b i"
  using book_invD(5) [of b i] order_okD(3) by (fastforce simp: order_left_def split: option.split)

subsection \<open>Continuous matching\<close>

lemma matching_left:
  "matching taker limit xs n q ms r ys n' \<Longrightarrow> list_left ys i = list_left xs i - match_fills ms i"
proof (induction rule: matching.induct)
  case (trade q mk fill n xs ms r ys n')
  then show ?case
    by (simp add: list_left_fill_head)
qed simp_all

lemma execute_left:
  assumes "book_inv b" and "in_i64 q" and "execute b taker limit q = Ok (ms, r, b')"
  shows "order_left b' i = order_left b i - match_fills ms i"
  using matching_left [OF execute_OkD(4) [OF assms]] execute_OkD(2,3) [OF assms] assms(1)
  by (simp add: order_left_view [where sd = taker])

lemma execute_match_facts:
  assumes "book_inv b" and "in_i64 q" and "execute b taker limit q = Ok (ms, r, b')"
  shows "\<forall>m \<in> set ms. 0 < match_quantity m" and "(\<Sum>m \<leftarrow> ms. match_quantity m) = q - r" and "0 \<le> r"
proof -
  have "\<forall>x \<in> set (book_orders b (opposite taker)). order_ok x"
    using side_ordersD(3) [OF assms(1)] by (simp add: book_orders_set [OF assms(1)])
  from matching_quantities [OF execute_OkD(4) [OF assms] this] execute_OkD(1) [OF assms]
  show "\<forall>m \<in> set ms. 0 < match_quantity m" "(\<Sum>m \<leftarrow> ms. match_quantity m) = q - r" "0 \<le> r"
    by auto
qed

subsection \<open>Call auction\<close>

lemma uncrossing_left:
  "uncrossing price xs ys n cs xs' ys' n' \<Longrightarrow>
    list_left xs' i + list_left ys' i = list_left xs i + list_left ys i - cross_fills cs i"
proof (induction rule: uncrossing.induct)
  case (cross x y q n1 n n2 xs ys cs xs' ys' n')
  then show ?case
    by (simp add: list_left_fill_head)
qed simp

lemma fill_head_ids: "bo_order_id ` set (fill_head x q n xs) \<subseteq> bo_order_id ` set (x # xs)"
  by (auto simp: fill_head_def)

lemma uncrossing_ids:
  "uncrossing price xs ys n cs xs' ys' n' \<Longrightarrow>
    \<forall>c \<in> set cs. cross_buy c \<in> bo_order_id ` set xs \<and> cross_sell c \<in> bo_order_id ` set ys"
proof (induction rule: uncrossing.induct)
  case (cross x y q n1 n n2 xs ys cs xs' ys' n')
  then show ?case
    using fill_head_ids [of x q n xs] fill_head_ids [of y q n1 ys] by (auto simp: subset_iff)
qed simp

lemma uncross_left:
  assumes "book_inv b" and "uncross_loop b price = Some (Ok (cs, b'))"
  shows "order_left b' i = order_left b i - cross_fills cs i" and "book_inv b'"
    and "\<forall>c \<in> set cs. 0 < cross_quantity c" and "\<forall>c \<in> set cs. cross_buy c \<noteq> cross_sell c"
proof -
  have u: "uncrossed_at price b cs b'"
    using uncross_loop_spec [OF assms(1), of price] assms(2) by simp
  then show "book_inv b'" "\<forall>c \<in> set cs. 0 < cross_quantity c"
    by (simp_all add: uncrossed_at_def)
  have x: "uncrossing price (book_orders b Buy) (book_orders b Sell) (next_priority b) cs
      (book_orders b' Buy) (book_orders b' Sell) (next_priority b')"
    using u by (simp add: uncrossed_at_def)
  from uncrossing_left [OF x, of i] show "order_left b' i = order_left b i - cross_fills cs i"
    using assms(1) \<open>book_inv b'\<close> by (simp add: order_left_view [where sd = Buy])
  have "bo_order_id v \<noteq> bo_order_id w" if v: "v \<in> side_orders b Buy" and w: "w \<in> side_orders b Sell" for v w
  proof
    assume eq: "bo_order_id v = bo_order_id w"
    have "Some v = Some w"
      using side_ordersD(1) [OF assms(1) v, unfolded eq] side_ordersD(1) [OF assms(1) w] by (rule trans [OF sym])
    then show False
      using side_ordersD(2) [OF assms(1) v] side_ordersD(2) [OF assms(1) w] by (metis option.inject side.distinct(1))
  qed
  note ids = this
  show "\<forall>c \<in> set cs. cross_buy c \<noteq> cross_sell c"
  proof
    fix c
    assume "c \<in> set cs"
    then obtain v w where "v \<in> set (book_orders b Buy)" "cross_buy c = bo_order_id v"
      "w \<in> set (book_orders b Sell)" "cross_sell c = bo_order_id w"
      using uncrossing_ids [OF x] by blast
    then show "cross_buy c \<noteq> cross_sell c"
      using ids [of v w] by (simp only: book_orders_set [OF assms(1)]) simp
  qed
qed

subsection \<open>Resting and cancelling\<close>

lemma rest_left:
  assumes "book_inv b" and "in_i64 p" and "in_i64 q" and "rest b i sd p q disp = Ok b'"
  shows "order_left b' j = (if j = i then q else order_left b j)" and "order_left b i = 0" and "0 < q"
  using rest_OkD [OF assms] by (simp_all add: order_left_def rest_valid_def)

lemma cancel_left:
  assumes "book_inv b" and "cancel b i = Some (ord, b')"
  shows "book_inv b'" and "order_left b' j = (if j = i then 0 else order_left b j)"
    and "order_left b i = remaining ord"
  using cancel_spec [OF assms(1), of i] assms(2) by (simp_all add: order_left_def)

lemma order_left_new [simp]: "order_left book_new i = 0"
  by (simp add: order_left_def book_new_def)

end
