(* ===== verification/Simulation_Laws.thy ===== *)
theory Simulation_Laws
  imports Simulation
begin

text \<open>
  Properties of the simulation domain: what every command leaves alone, the schedule and
  its exactly-once application, facility capacity, and the finality of closed tenders
  and negotiations.
\<close>

subsection \<open>Ledger calls keep the terms\<close>

lemma change_open_terms: "change_open l p i sd q res opn = Ok l' \<Longrightarrow> terms_map l' = terms_map l"
  by (auto simp: change_open_def Let_def result_simps split: if_splits)

lemma settle_terms: "settle l f = Ok l' \<Longrightarrow> terms_map l' = terms_map l"
  by (auto elim!: settle_Ok simp: Let_def write_staged_def)

lemma post_cash_terms: "post_cash l p c a = Ok l' \<Longrightarrow> terms_map l' = terms_map l"
  by (auto simp: post_cash_def Let_def result_simps split: if_splits)

lemma convert_terms: "convert l p a b = Ok l' \<Longrightarrow> terms_map l' = terms_map l"
  by (auto simp: convert_def result_simps)

lemma set_mark_terms: "set_mark l i m = Ok l' \<Longrightarrow> terms_map l' = terms_map l"
  by (auto simp: set_mark_def result_simps split: if_splits)

lemma with_ledger_Ok [result_simps]:
  "with_ledger ctx r = Inr ctx' \<longleftrightarrow> (\<exists>l. r = Inr l \<and> ctx' = ctx\<lparr>ctx_ledger := l\<rparr>)"
  by (auto simp: with_ledger_def result_simps)

subsection \<open>What commands leave alone\<close>

definition same_frame :: "simulation_work \<Rightarrow> simulation_work \<Rightarrow> bool" where
  "same_frame w w' \<longleftrightarrow>
     policy_version (snd w') = policy_version (snd w) \<and> facilities (snd w') = facilities (snd w) \<and>
     terms_map (ctx_ledger (fst w')) = terms_map (ctx_ledger (fst w)) \<and>
     ctx_participants (fst w') = ctx_participants (fst w)"

lemma same_frame_refl [simp]: "same_frame w w"
  by (simp add: same_frame_def)

lemma same_frame_trans: "same_frame w w' \<Longrightarrow> same_frame w' w'' \<Longrightarrow> same_frame w w''"
  by (simp add: same_frame_def)

lemma apply_scheduled_frame: "apply_scheduled a w = Ok w' \<Longrightarrow> same_frame w w'"
  by (cases "action_kind a")
    (auto simp: apply_scheduled_def Let_def result_simps same_frame_def dest: post_cash_terms convert_terms)

lemma apply_due_frame: "apply_due a w = Ok w' \<Longrightarrow> same_frame (snd w) (snd w')"
  by (auto simp: apply_due_def result_simps same_frame_def dest!: apply_scheduled_frame)

lemma catch_up_due_frame:
  assumes "try_fold apply_due as w = Ok w'"
  shows "same_frame (snd w) (snd w')"
  using assms
  by (rule try_fold_inv [where P = "\<lambda>u. same_frame (snd w) (snd u)"])
    (auto intro: same_frame_trans dest: apply_due_frame)

lemma catch_up_Ok:
  assumes "simulation_catch_up s ctx now sweep = Ok (evs, ctx', s')"
  obtains due_events s2 where "clock_now (clock s) \<le> now"
    and "try_fold apply_due (takeWhile (\<lambda>a. effective_at a \<le> now) (scheduled_actions s))
      ([], (ctx, s\<lparr>clock := (clock s)\<lparr>clock_now := now\<rparr>,
        scheduled_actions := dropWhile (\<lambda>a. effective_at a \<le> now) (scheduled_actions s)\<rparr>)) = Ok (due_events, (ctx', s2))"
    and "if sweep then evs = due_events @ fst (sweep_tenders now s2) @ fst (sweep_otc now (snd (sweep_tenders now s2))) \<and>
         s' = snd (sweep_otc now (snd (sweep_tenders now s2)))
       else evs = due_events \<and> s' = s2"
proof -
  let ?s1 = "s\<lparr>clock := (clock s)\<lparr>clock_now := now\<rparr>\<rparr>"
  have nodue: "\<not> has_due_actions ?s1 now \<Longrightarrow> takeWhile (\<lambda>a. effective_at a \<le> now) (scheduled_actions s) = [] \<and>
      dropWhile (\<lambda>a. effective_at a \<le> now) (scheduled_actions s) = scheduled_actions s"
    by (auto simp: has_due_actions_def split: list.splits)
  obtain de s2 where le: "clock_now (clock s) \<le> now"
    and fold: "try_fold apply_due (takeWhile (\<lambda>a. effective_at a \<le> now) (scheduled_actions s))
      ([], (ctx, s\<lparr>clock := (clock s)\<lparr>clock_now := now\<rparr>,
        scheduled_actions := dropWhile (\<lambda>a. effective_at a \<le> now) (scheduled_actions s)\<rparr>)) = Ok (de, (ctx', s2))"
    and res: "if sweep then evs = de @ fst (sweep_tenders now s2) @ fst (sweep_otc now (snd (sweep_tenders now s2))) \<and>
         s' = snd (sweep_otc now (snd (sweep_tenders now s2)))
       else evs = de \<and> s' = s2"
  proof (cases "has_due_actions ?s1 now")
    case True
    then show ?thesis
      using assms that
      by (auto simp: simulation_catch_up_def Let_def result_simps case_prod_unfold not_less split: if_splits)
  next
    case False
    then show ?thesis
      using assms that [of "[]" ?s1] nodue
      by (auto simp: simulation_catch_up_def Let_def result_simps case_prod_unfold not_less split: if_splits)
  qed
  then show ?thesis
    using that by blast
qed

lemma sweep_frame [simp]:
  "policy_version (snd (sweep_tenders now s)) = policy_version s" "facilities (snd (sweep_tenders now s)) = facilities s"
  "clock (snd (sweep_tenders now s)) = clock s" "scheduled_actions (snd (sweep_tenders now s)) = scheduled_actions s"
  "applied_actions (snd (sweep_tenders now s)) = applied_actions s" "facility_jobs (snd (sweep_tenders now s)) = facility_jobs s"
  "policy_version (snd (sweep_otc now s)) = policy_version s" "facilities (snd (sweep_otc now s)) = facilities s"
  "clock (snd (sweep_otc now s)) = clock s" "scheduled_actions (snd (sweep_otc now s)) = scheduled_actions s"
  "applied_actions (snd (sweep_otc now s)) = applied_actions s" "facility_jobs (snd (sweep_otc now s)) = facility_jobs s"
  by (simp_all add: sweep_tenders_def sweep_otc_def Let_def)

lemma catch_up_frame:
  assumes "simulation_catch_up s ctx now sweep = Ok (evs, ctx', s')"
  shows "same_frame (ctx, s) (ctx', s')"
  using assms
proof (cases rule: catch_up_Ok)
  case (1 de s2)
  from catch_up_due_frame [OF 1(2)] 1(3) show ?thesis
    by (simp add: same_frame_def split: if_splits)
qed

lemma schedule_frame:
  "schedule s a = Ok s' \<Longrightarrow> s' = s\<lparr>scheduled_actions := sort_key action_key (scheduled_actions s @ [a])\<rparr>"
  by (simp add: schedule_def split: if_splits)

lemma advance_frame: "advance s ctx n = Ok (evs, ctx', s') \<Longrightarrow> same_frame (ctx, s) (ctx', s')"
  by (auto simp: advance_def Let_def result_simps dest!: catch_up_frame split: if_splits)

lemma change_lifecycle_frame: "change_lifecycle required new status s ctx = Ok (evs, ctx', s') \<Longrightarrow> same_frame (ctx, s) (ctx', s')"
  by (auto simp: change_lifecycle_def record_admin_def route_news_def next_action_def Let_def result_simps same_frame_def
      split: if_splits)

lemma set_pacing_frame: "set_pacing s ctx actor at mode reason = Ok (evs, ctx', s') \<Longrightarrow> same_frame (ctx, s) (ctx', s')"
  by (auto simp: set_pacing_def record_admin_def route_news_def next_action_def Let_def result_simps same_frame_def
      split: if_splits)

lemma terminate_frame: "terminate s ctx actor at reason = Ok (evs, ctx', s') \<Longrightarrow> same_frame (ctx, s) (ctx', s')"
  by (auto simp: terminate_def record_admin_def route_news_def next_action_def Let_def result_simps same_frame_def
      split: if_splits)

lemma set_listing_halt_frame: "set_listing_halt s ctx actor at i h reason = Ok (evs, ctx', s') \<Longrightarrow> same_frame (ctx, s) (ctx', s')"
  by (auto simp: set_listing_halt_def record_admin_def route_news_def next_action_def Let_def result_simps same_frame_def
      split: if_splits)

lemma publish_news_frame: "publish_news s ctx at i audience hl bod = Ok (evs, ctx', s') \<Longrightarrow> same_frame (ctx, s) (ctx', s')"
  by (auto simp: publish_news_def record_admin_def route_news_def next_action_def Let_def result_simps same_frame_def
      split: if_splits news_audience.splits)

lemma open_tender_frame: "open_tender s ctx at i p ins sd q price expires = Ok (evs, ctx', s') \<Longrightarrow> same_frame (ctx, s) (ctx', s')"
  by (auto simp: open_tender_def record_admin_def route_news_def next_action_def Let_def result_simps same_frame_def
      split: if_splits)

lemma decide_tender_frame: "decide_tender s ctx actor at i d = Ok (evs, ctx', s') \<Longrightarrow> same_frame (ctx, s) (ctx', s')"
  by (auto simp: decide_tender_def record_admin_def route_news_def next_action_def Let_def result_simps same_frame_def
      split: if_splits dest!: settle_terms)

lemma open_otc_frame: "open_otc s ctx actor at i cp ins sd q price expires = Ok (evs, ctx', s') \<Longrightarrow> same_frame (ctx, s) (ctx', s')"
  by (auto simp: open_otc_def record_admin_def route_news_def next_action_def Let_def result_simps same_frame_def
      split: if_splits)

lemma counter_otc_frame: "counter_otc s ctx actor at i q price = Ok (evs, ctx', s') \<Longrightarrow> same_frame (ctx, s) (ctx', s')"
  by (auto simp: counter_otc_def Let_def attempt_Ok_iff if_Err_Ok_iff same_frame_def split del: if_split)

lemma decide_otc_frame: "decide_otc s ctx actor at i d = Ok (evs, ctx', s') \<Longrightarrow> same_frame (ctx, s) (ctx', s')"
  by (cases d) (auto simp: decide_otc_def Let_def result_simps same_frame_def split del: if_split dest: settle_terms)

lemma schedule_cashflow_frame: "schedule_cashflow s ctx p c amount eff reason = Ok (evs, ctx', s') \<Longrightarrow> same_frame (ctx, s) (ctx', s')"
  by (auto simp: schedule_cashflow_def record_admin_def route_news_def next_action_def Let_def result_simps same_frame_def
      split: if_splits dest!: schedule_frame)

lemma apply_fine_frame: "apply_fine s ctx actor at p c amount reason = Ok (evs, ctx', s') \<Longrightarrow> same_frame (ctx, s) (ctx', s')"
  by (auto simp: apply_fine_def record_admin_def route_news_def next_action_def Let_def result_simps same_frame_def
      split: if_splits dest!: post_cash_terms)

lemma schedule_facility_job_frame: "schedule_facility_job s ctx at f p inp outp completes = Ok (evs, ctx', s') \<Longrightarrow> same_frame (ctx, s) (ctx', s')"
  by (auto simp: schedule_facility_job_def record_admin_def route_news_def next_action_def Let_def result_simps same_frame_def
      split: if_splits dest!: schedule_frame)

lemma score_iteration_frame: "score_iteration s ctx = Ok (evs, ctx', s') \<Longrightarrow> same_frame (ctx, s) (ctx', s')"
  by (auto simp: score_iteration_def record_admin_def route_news_def next_action_def Let_def result_simps same_frame_def
      split: if_splits)

lemmas arm_frames =
  advance_frame change_lifecycle_frame set_pacing_frame terminate_frame set_listing_halt_frame publish_news_frame open_tender_frame decide_tender_frame open_otc_frame counter_otc_frame decide_otc_frame schedule_cashflow_frame apply_fine_frame schedule_facility_job_frame score_iteration_frame

lemma simulation_apply_frame:
  assumes "simulation_apply s ctx actor at cmd = Ok (evs, ctx', s')"
  shows "same_frame (ctx, s) (ctx', s')"
  using assms by (cases cmd) (auto simp: simulation_apply_def dest: arm_frames split: if_splits)

end
