(* ===== verification/Engine_Invariant.thy ===== *)
theory Engine_Invariant
  imports Engine_Snapshot Book_Fills Simulation_Laws
begin

text \<open>
  The consistency of a run. While a command is applied the run's parts drift apart in a
  controlled way: a book has executed matches that are not settled yet, an arriving
  order is live but not in a book, a terminal order is not yet retired. The invariant
  is therefore stated with three parameters: \<open>owed\<close>, the quantity each order still has
  to be settled or rested for; \<open>arriving\<close>, the orders in that state; and \<open>ended\<close>, the
  orders that became terminal in this command and are retired when it commits. Between
  commands all three are empty, and what remains is what \<open>RunState::validate\<close> checks.
\<close>

declare split_paired_All [simp del] split_paired_Ex [simp del]

subsection \<open>The invariant\<close>

definition owned_left :: "run_state \<Rightarrow> listing_key \<Rightarrow> order_id \<Rightarrow> int" where
  "owned_left s k i =
     (case bt_get (ownership s) i of
        None \<Rightarrow> 0 | Some x \<Rightarrow> if oo_listing_key x = k then remaining_quantity x else 0)"

definition book_left :: "run_state \<Rightarrow> listing_key \<Rightarrow> order_id \<Rightarrow> int" where
  "book_left s k i = (case bt_get (listings s) k of None \<Rightarrow> 0 | Some ls \<Rightarrow> order_left (ls_book ls) i)"

type_synonym debts = "listing_key \<Rightarrow> order_id \<Rightarrow> int"

text \<open>Ownership and books agree up to what is owed.\<close>

definition in_step :: "debts \<Rightarrow> run_state \<Rightarrow> bool" where
  "in_step owed s \<longleftrightarrow> (\<forall>k i. owned_left s k i = book_left s k i + owed k i)"

definition owned_ok :: "run_state \<Rightarrow> order_id \<Rightarrow> owned_order \<Rightarrow> bool" where
  "owned_ok s i x \<longleftrightarrow>
     oo_order_id x = i \<and> 0 \<le> remaining_quantity x \<and>
     (oo_state x = OrderActive \<longleftrightarrow> 0 < remaining_quantity x) \<and> bt_get (listings s) (oo_listing_key x) \<noteq> None"

definition run_wf :: "run_state \<Rightarrow> bool" where
  "run_wf s \<longleftrightarrow>
     bt_wf (ownership s) \<and> bt_wf (listings s) \<and> bt_wf (live_orders s) \<and> bs_wf (expiries s) \<and>
     (\<forall>k ls. bt_get (listings s) k = Some ls \<longrightarrow> book_inv (ls_book ls)) \<and>
     (\<forall>i x. bt_get (ownership s) i = Some x \<longrightarrow> owned_ok s i x)"

definition terminal_ids :: "run_state \<Rightarrow> order_id set" where
  "terminal_ids s = {i. \<exists>x. bt_get (ownership s) i = Some x \<and> oo_state x \<noteq> OrderActive}"

definition retirement :: "order_id set \<Rightarrow> order_id list \<Rightarrow> run_state \<Rightarrow> bool" where
  "retirement arriving ended s \<longleftrightarrow>
     distinct (retired s @ ended) \<and> set (retired s @ ended) = terminal_ids s - arriving"

text \<open>Orders of a participant that have not been retired.\<close>

definition unretired :: "run_state \<Rightarrow> participant_id \<Rightarrow> order_id set" where
  "unretired s p =
     {i. \<exists>x. bt_get (ownership s) i = Some x \<and> oo_participant_id x = p \<and> i \<notin> set (retired s)}"

definition live_counts :: "run_state \<Rightarrow> bool" where
  "live_counts s \<longleftrightarrow>
     (\<forall>p. live_order_count s p = card (unretired s p)) \<and>
     (\<forall>p n. bt_get (live_orders s) p = Some n \<longrightarrow> 0 < n)"

definition expiry_index :: "order_id set \<Rightarrow> run_state \<Rightarrow> bool" where
  "expiry_index arriving s \<longleftrightarrow>
     (\<forall>at i. (at, i) \<in> set (expiries s) \<longleftrightarrow> i \<notin> arriving \<and>
       (\<exists>x. bt_get (ownership s) i = Some x \<and> oo_state x = OrderActive \<and> oo_expires_at x = Some at))"

definition order_caps :: "run_state \<Rightarrow> bool" where
  "order_caps s \<longleftrightarrow>
     length (ownership s) \<le> length (retired s) + MAX_LIVE_ORDERS \<and> length (retired s) \<le> MAX_RETIRED_ORDERS"

definition consistent :: "debts \<Rightarrow> order_id set \<Rightarrow> order_id list \<Rightarrow> run_state \<Rightarrow> bool" where
  "consistent owed arriving ended s \<longleftrightarrow>
     run_wf s \<and> in_step owed s \<and> retirement arriving ended s \<and> live_counts s \<and>
     expiry_index arriving s \<and> order_caps s"

definition settled_up :: debts where
  "settled_up k i = 0"

definition ended_orders :: "transit \<Rightarrow> order_id list" where
  "ended_orders t = List.map_filter terminal_order (payloads t)"

abbreviation run_inv :: "run_state \<Rightarrow> bool" where
  "run_inv \<equiv> consistent settled_up {} []"

abbreviation transit_inv :: "transit \<Rightarrow> bool" where
  "transit_inv t \<equiv> consistent settled_up {} (ended_orders t) (run t)"

text \<open>What no command changes.\<close>

definition run_constants where
  "run_constants s =
     (rs_run_id s, config s, participants s, instruments s, map fst (listings s),
      terms_map (run_ledger s), policy_version (simulation s), rs_calendar s, scenario_hash s)"

lemma run_constants_frame [simp]:
  "run_constants (s\<lparr>ownership := own\<rparr>) = run_constants s" "run_constants (s\<lparr>expiries := ex\<rparr>) = run_constants s"
  "run_constants (s\<lparr>retired := rt\<rparr>) = run_constants s" "run_constants (s\<lparr>live_orders := lo\<rparr>) = run_constants s"
  "run_constants (s\<lparr>session_steps := st\<rparr>) = run_constants s" "run_constants (s\<lparr>day_trades := dt\<rparr>) = run_constants s"
  "run_constants (s\<lparr>closes := cl\<rparr>) = run_constants s" "run_constants (s\<lparr>kill_switched := ks\<rparr>) = run_constants s"
  "run_constants (s\<lparr>run_sequence := n\<rparr>) = run_constants s" "run_constants (s\<lparr>run_event_sequence := n\<rparr>) = run_constants s"
  "terms_map l = terms_map (run_ledger s) \<Longrightarrow> run_constants (s\<lparr>run_ledger := l\<rparr>) = run_constants s"
  "policy_version sim = policy_version (simulation s) \<Longrightarrow> run_constants (s\<lparr>simulation := sim\<rparr>) = run_constants s"
  by (simp_all add: run_constants_def)

lemma consistentD:
  assumes "consistent owed arriving ended s"
  shows "bt_wf (ownership s)" and "bt_wf (listings s)" and "bt_wf (live_orders s)" and "bs_wf (expiries s)"
    and "bt_get (listings s) k = Some ls \<Longrightarrow> book_inv (ls_book ls)"
    and "bt_get (ownership s) i = Some x \<Longrightarrow> owned_ok s i x"
    and "owned_left s k i = book_left s k i + owed k i"
    and "retirement arriving ended s" and "live_counts s" and "expiry_index arriving s" and "order_caps s"
    and "run_wf s" and "in_step owed s"
  using assms by (auto simp: consistent_def run_wf_def in_step_def)

text \<open>Only the order fields of a run matter.\<close>

lemma consistent_cong:
  assumes "ownership s' = ownership s" and "listings s' = listings s" and "live_orders s' = live_orders s"
    and "expiries s' = expiries s" and "retired s' = retired s"
  shows "consistent owed arriving ended s' \<longleftrightarrow> consistent owed arriving ended s"
  by (simp add: consistent_def run_wf_def in_step_def retirement_def live_counts_def expiry_index_def
      order_caps_def owned_ok_def owned_left_def book_left_def terminal_ids_def unretired_def
      live_order_count_def assms)

lemma ended_orders_push [simp]:
  "ended_orders (push p t) = ended_orders t @ (case terminal_order p of None \<Rightarrow> [] | Some i \<Rightarrow> [i])"
  by (simp add: ended_orders_def map_filter_def split: option.split)

lemma ended_orders_touch [simp]: "ended_orders (touch k t) = ended_orders t"
  by (simp add: ended_orders_def)

lemma ended_orders_run [simp]: "ended_orders (t\<lparr>run := s\<rparr>) = ended_orders t"
  by (simp add: ended_orders_def)

lemma ended_orders_transit_of [simp]: "ended_orders (transit_of s) = []"
  by (simp add: ended_orders_def transit_of_def map_filter_def)

subsection \<open>Changing one order's record\<close>

lemma owned_left_insert:
  "owned_left (s\<lparr>ownership := bt_insert i y (ownership s), expiries := E\<rparr>) k j =
    (if j = i then (if oo_listing_key y = k then remaining_quantity y else 0) else owned_left s k j)"
  by (simp add: owned_left_def)

lemma finite_unretired [simp]: "finite (unretired s p)"
  by (rule finite_subset [OF _ finite_dom_map_of [of "ownership s"]]) (auto simp: unretired_def)

text \<open>
  A fill or a cancellation rewrites the record of a live order: its quantity shrinks, and
  when nothing is left the order ends and leaves the expiry index.
\<close>

lemma consistent_update:
  assumes con: "consistent owed arriving ended s" and get: "bt_get (ownership s) i = Some x"
    and act: "oo_state x = OrderActive"
    and same: "oo_order_id y = oo_order_id x" "oo_participant_id y = oo_participant_id x"
      "oo_listing_key y = oo_listing_key x" "oo_expires_at y = oo_expires_at x"
    and ok: "0 \<le> remaining_quantity y" "oo_state y = OrderActive \<longleftrightarrow> 0 < remaining_quantity y"
    and E: "bs_wf E" "\<forall>at j. (at, j) \<in> set E \<longleftrightarrow> (at, j) \<in> set (expiries s) \<and> (j = i \<longrightarrow> oo_state y = OrderActive)"
  shows "consistent
    (\<lambda>k j. owed k j - (if j = i \<and> k = oo_listing_key x then remaining_quantity x - remaining_quantity y else 0))
    arriving (ended @ (if oo_state y = OrderActive \<or> i \<in> arriving then [] else [i]))
    (s\<lparr>ownership := bt_insert i y (ownership s), expiries := E\<rparr>)" (is "consistent ?owed _ ?ended ?s")
  unfolding consistent_def
proof (intro conjI)
  show "run_wf ?s"
    using consistentD(12) [OF con] get same ok E(1) by (auto simp: run_wf_def owned_ok_def)
  have "owned_left s (oo_listing_key x) i = remaining_quantity x"
    using get by (simp add: owned_left_def)
  moreover have "owned_left s k i = 0" if "k \<noteq> oo_listing_key x" for k
    using get that by (simp add: owned_left_def)
  moreover have "book_left ?s = book_left s"
    by (simp add: book_left_def fun_eq_iff)
  ultimately show "in_step ?owed ?s"
    using consistentD(7) [OF con] same by (fastforce simp: in_step_def owned_left_insert)
  have "terminal_ids ?s = terminal_ids s \<union> (if oo_state y = OrderActive then {} else {i})" and "i \<notin> terminal_ids s"
    using get act by (auto simp: terminal_ids_def)
  then show "retirement arriving ?ended ?s"
    using consistentD(8) [OF con] by (auto simp: retirement_def)
  have "unretired ?s = unretired s"
    using get same by (auto simp: unretired_def fun_eq_iff)
  then show "live_counts ?s"
    using consistentD(9) [OF con] by (simp add: live_counts_def live_order_count_def)
  show "expiry_index arriving ?s"
    using consistentD(10) [OF con] get act same E(2) by (auto simp: expiry_index_def)
  show "order_caps ?s"
    using consistentD(11) [OF con] get by (simp add: order_caps_def bt_length_insert [OF consistentD(1) [OF con]])
qed

text \<open>The book side of a change: one listing's book is replaced.\<close>

lemma consistent_set_book:
  assumes con: "consistent owed arriving ended s" and get: "bt_get (listings s) k = Some ls" and inv: "book_inv b"
  shows "consistent (\<lambda>k' j. owed k' j + (if k' = k then order_left (ls_book ls) j - order_left b j else 0))
    arriving ended (set_book s k ls b)" (is "consistent ?owed _ _ ?s")
  unfolding consistent_def
proof (intro conjI)
  have dom: "bt_get (listings ?s) k' \<noteq> None \<longleftrightarrow> bt_get (listings s) k' \<noteq> None" for k'
    using get by (simp add: set_book_def)
  show "run_wf ?s"
    using consistentD(12) [OF con] inv dom by (auto simp: run_wf_def owned_ok_def set_book_def)
  have "owned_left ?s = owned_left s"
    by (simp add: owned_left_def set_book_def fun_eq_iff)
  moreover have "book_left ?s k' j = (if k' = k then order_left b j else book_left s k' j)" for k' j
    by (simp add: book_left_def set_book_def)
  moreover have "book_left s k j = order_left (ls_book ls) j" for j
    using get by (simp add: book_left_def)
  ultimately show "in_step ?owed ?s"
    using consistentD(7) [OF con] by (simp add: in_step_def)
  have "terminal_ids ?s = terminal_ids s" "unretired ?s = unretired s"
    by (simp_all add: terminal_ids_def unretired_def set_book_def fun_eq_iff)
  then show "retirement arriving ended ?s" "live_counts ?s" "expiry_index arriving ?s" "order_caps ?s"
    using consistentD(8-11) [OF con]
    by (simp_all add: retirement_def live_counts_def live_order_count_def expiry_index_def order_caps_def set_book_def)
qed

lemma consistent_owed_cong:
  "consistent owed arriving ended s \<Longrightarrow> (\<And>k i. owed k i = owed' k i) \<Longrightarrow> consistent owed' arriving ended s"
  by (simp add: consistent_def in_step_def)

subsection \<open>Replacing a book\<close>

lemma accounting_Ok [result_simps]: "accounting r = Inr x \<longleftrightarrow> r = Inr x"
  by (simp add: accounting_def result_simps)

lemma set_book_keys:
  "bt_wf (listings s) \<Longrightarrow> bt_get (listings s) k = Some ls \<Longrightarrow> map fst (listings (set_book s k ls b)) = map fst (listings s)"
  by (simp add: set_book_def bt_keys_insert)

lemma set_book_sel [simp]:
  "ownership (set_book s k ls b) = ownership s" "expiries (set_book s k ls b) = expiries s"
  "retired (set_book s k ls b) = retired s" "live_orders (set_book s k ls b) = live_orders s"
  "run_ledger (set_book s k ls b) = run_ledger s" "participants (set_book s k ls b) = participants s"
  "rs_calendar (set_book s k ls b) = rs_calendar s" "simulation (set_book s k ls b) = simulation s"
  "session_steps (set_book s k ls b) = session_steps s" "kill_switched (set_book s k ls b) = kill_switched s"
  by (simp_all add: set_book_def)

lemma run_constants_set_book:
  "bt_wf (listings s) \<Longrightarrow> bt_get (listings s) k = Some ls \<Longrightarrow> run_constants (set_book s k ls b) = run_constants s"
  using set_book_keys [of s k ls b] by (simp add: run_constants_def set_book_def)

subsection \<open>Cancelling\<close>

lemma expiry_index_entry:
  "consistent owed arriving ended s \<Longrightarrow> (at, i) \<in> set (expiries s) \<Longrightarrow> bt_get (ownership s) i = Some x \<Longrightarrow>
    oo_expires_at x = Some at \<and> oo_state x = OrderActive \<and> i \<notin> arriving"
  by (auto simp: expiry_index_def dest: consistentD(10))

lemma cancel_order_Ok:
  assumes "cancel_order i reason t = Ok t'"
  obtains x ls resting b l where "bt_get (ownership (run t)) i = Some x" and "oo_state x = OrderActive"
    and "bt_get (listings (run t)) (oo_listing_key x) = Some ls" and "cancel (ls_book ls) i = Some (resting, b)"
    and "remaining resting = remaining_quantity x"
    and "close_order (run_ledger (run t)) (oo_participant_id x) (lk_instrument (oo_listing_key x)) (oo_side x)
      (remaining_quantity x) (oo_reservation x) = Ok l"
    and "run t' = (set_book (run t) (oo_listing_key x) ls b)\<lparr>run_ledger := l,
      expiries := (case oo_expires_at x of None \<Rightarrow> expiries (run t) | Some at \<Rightarrow> bs_remove (at, i) (expiries (run t))),
      ownership := bt_insert i (x\<lparr>oo_state := OrderCancelled, remaining_quantity := 0\<rparr>) (ownership (run t))\<rparr>"
    and "payloads t' = payloads t @ [OrderCanceled i (oo_participant_id x) (lk_instrument (oo_listing_key x))
      (Some (oo_listing_key x)) (remaining_quantity x) reason]"
    and "changed t' = changed t"
proof -
  obtain x ls resting b l where x: "bt_get (ownership (run t)) i = Some x" "oo_state x = OrderActive"
    "bt_get (listings (run t)) (oo_listing_key x) = Some ls" "cancel (ls_book ls) i = Some (resting, b)"
    "remaining resting = remaining_quantity x"
    "close_order (run_ledger (run t)) (oo_participant_id x) (lk_instrument (oo_listing_key x)) (oo_side x)
      (remaining_quantity x) (oo_reservation x) = Ok l"
    and "t' = push (OrderCanceled i (oo_participant_id x) (lk_instrument (oo_listing_key x))
      (Some (oo_listing_key x)) (remaining_quantity x) reason)
      (t\<lparr>run := (set_book (run t) (oo_listing_key x) ls b)\<lparr>run_ledger := l,
      expiries := (case oo_expires_at x of None \<Rightarrow> expiries (run t) | Some at \<Rightarrow> bs_remove (at, i) (expiries (run t))),
      ownership := bt_insert i (x\<lparr>oo_state := OrderCancelled, remaining_quantity := 0\<rparr>) (ownership (run t))\<rparr>\<rparr>)"
    using assms
    by (auto simp: cancel_order_def Let_def result_simps bind_eq_Some_conv split: if_splits cong: option.case_cong)
  then show ?thesis
    by (intro that [of x ls resting b l]) simp_all
qed

lemma cancel_order_inv:
  assumes "cancel_order i reason t = Ok t'" and con: "consistent owed {} (ended_orders t) (run t)"
  shows "consistent owed {} (ended_orders t') (run t')" and "run_constants (run t') = run_constants (run t)"
proof -
  obtain x ls resting b l where x: "bt_get (ownership (run t)) i = Some x" "oo_state x = OrderActive"
    and ls: "bt_get (listings (run t)) (oo_listing_key x) = Some ls" and c: "cancel (ls_book ls) i = Some (resting, b)"
    and rem: "remaining resting = remaining_quantity x"
    and l: "close_order (run_ledger (run t)) (oo_participant_id x) (lk_instrument (oo_listing_key x)) (oo_side x)
      (remaining_quantity x) (oo_reservation x) = Ok l"
    and t': "run t' = (set_book (run t) (oo_listing_key x) ls b)\<lparr>run_ledger := l,
      expiries := (case oo_expires_at x of None \<Rightarrow> expiries (run t) | Some at \<Rightarrow> bs_remove (at, i) (expiries (run t))),
      ownership := bt_insert i (x\<lparr>oo_state := OrderCancelled, remaining_quantity := 0\<rparr>) (ownership (run t))\<rparr>"
    and p: "payloads t' = payloads t @ [OrderCanceled i (oo_participant_id x) (lk_instrument (oo_listing_key x))
      (Some (oo_listing_key x)) (remaining_quantity x) reason]"
    using cancel_order_Ok [OF assms(1)] .
  let ?k = "oo_listing_key x" and ?y = "x\<lparr>oo_state := OrderCancelled, remaining_quantity := 0\<rparr>"
  let ?s = "set_book (run t) ?k ls b"
  define E where "E = (case oo_expires_at x of None \<Rightarrow> expiries (run t) | Some at \<Rightarrow> bs_remove (at, i) (expiries (run t)))"
  note cl = cancel_left [OF consistentD(5) [OF con ls] c]
  have wf: "bs_wf (expiries (run t))"
    using consistentD(4) [OF con] .
  have E: "bs_wf E" "\<forall>at j. (at, j) \<in> set E \<longleftrightarrow> (at, j) \<in> set (expiries ?s) \<and> (j = i \<longrightarrow> oo_state ?y = OrderActive)"
    using expiry_index_entry [OF con, of _ i x] x(1) wf by (auto simp: E_def split: option.splits)
  have "consistent owed {} (ended_orders t @ [i]) (?s\<lparr>ownership := bt_insert i ?y (ownership ?s), expiries := E\<rparr>)"
    using consistent_update [OF consistent_set_book [OF con ls cl(1)], of i x ?y E] x E cl(2,3) rem
    by (auto elim!: consistent_owed_cong)
  then show "consistent owed {} (ended_orders t') (run t')"
    by (subst consistent_cong [where s = "?s\<lparr>ownership := bt_insert i ?y (ownership ?s), expiries := E\<rparr>"])
      (simp_all add: t' p E_def ended_orders_def map_filter_def)
  show "run_constants (run t') = run_constants (run t)"
    using run_constants_set_book [OF consistentD(2) [OF con] ls] change_open_terms [OF l [unfolded close_order_def]]
    by (simp add: t' run_constants_def)
qed

subsection \<open>Fills\<close>

definition reduced :: "owned_order \<Rightarrow> quantity_lots \<Rightarrow> owned_order" where
  "reduced x q = x\<lparr>remaining_quantity := remaining_quantity x - q,
     oo_state := (if remaining_quantity x - q = 0 then OrderFilled else oo_state x)\<rparr>"

lemma reduced_sel [simp]:
  "oo_order_id (reduced x q) = oo_order_id x" "oo_participant_id (reduced x q) = oo_participant_id x"
  "oo_listing_key (reduced x q) = oo_listing_key x" "oo_expires_at (reduced x q) = oo_expires_at x"
  "remaining_quantity (reduced x q) = remaining_quantity x - q"
  "oo_state (reduced x q) = (if remaining_quantity x - q = 0 then OrderFilled else oo_state x)"
  "oo_day (reduced x q) = oo_day x" "oo_side (reduced x q) = oo_side x"
  by (simp_all add: reduced_def)

lemma reduce_order_Ok:
  assumes "reduce_order i q own = Ok (own', e)"
  obtains x where "bt_get own i = Some x" and "q \<le> remaining_quantity x" and "own' = bt_insert i (reduced x q) own"
    and "terminal_order e = (if remaining_quantity x = q then Some i else None)"
  using assms
  by (auto simp: reduce_order_def result_simps bind_eq_Some_conv reduced_def intro!: that split: if_splits)

text \<open>Debts after \<open>q\<close> lots of an order were settled.\<close>

definition paid :: "listing_key \<Rightarrow> order_id \<Rightarrow> int \<Rightarrow> debts \<Rightarrow> debts" where
  "paid k i q owed = (\<lambda>k' j. owed k' j - (if j = i \<and> k' = k then q else 0))"

lemma drop_expiry_sel [simp]:
  "ownership (drop_expiry e s) = ownership s" "listings (drop_expiry e s) = listings s"
  "retired (drop_expiry e s) = retired s" "live_orders (drop_expiry e s) = live_orders s"
  "run_constants (drop_expiry e s) = run_constants s" "simulation (drop_expiry e s) = simulation s"
  "run_ledger (drop_expiry e s) = run_ledger s" "rs_calendar (drop_expiry e s) = rs_calendar s"
  "session_steps (drop_expiry e s) = session_steps s" "kill_switched (drop_expiry e s) = kill_switched s"
  by (simp_all add: drop_expiry_def run_constants_def split: prod.split option.split)

lemma drop_expiry_update:
  "drop_expiry (i, a) (s\<lparr>ownership := own\<rparr>) = s\<lparr>ownership := own, expiries :=
     (case a of None \<Rightarrow> expiries s | Some at \<Rightarrow>
        (case bt_get own i of
           None \<Rightarrow> expiries s
         | Some x \<Rightarrow> if remaining_quantity x = 0 then bs_remove (at, i) (expiries s) else expiries s))\<rparr>"
  by (simp add: drop_expiry_def split: option.split)

lemma reduce_consistent:
  assumes con: "consistent owed arriving ended s" and red: "reduce_order i q (ownership s) = Ok (own, e)"
    and q: "0 < q" and x: "bt_get (ownership s) i = Some x"
  shows "consistent (paid (oo_listing_key x) i q owed) arriving
      (ended @ (if i \<in> arriving then [] else case terminal_order e of None \<Rightarrow> [] | Some j \<Rightarrow> [j]))
      (drop_expiry (i, oo_expires_at x) (s\<lparr>ownership := own\<rparr>))"
    and "i \<in> arriving \<Longrightarrow> drop_expiry (i, oo_expires_at x) (s\<lparr>ownership := own\<rparr>) = s\<lparr>ownership := own\<rparr>"
proof -
  obtain x' where "bt_get (ownership s) i = Some x'" and "q \<le> remaining_quantity x'"
    and "own = bt_insert i (reduced x' q) (ownership s)"
    and "terminal_order e = (if remaining_quantity x' = q then Some i else None)"
    using reduce_order_Ok [OF red] .
  with x have le: "q \<le> remaining_quantity x" and own: "own = bt_insert i (reduced x q) (ownership s)"
    and fin: "terminal_order e = (if remaining_quantity x = q then Some i else None)"
    by simp_all
  have act: "oo_state x = OrderActive"
    using consistentD(6) [OF con x] le q by (auto simp: owned_ok_def)
  define E where "E = (case oo_expires_at x of None \<Rightarrow> expiries s | Some at \<Rightarrow>
    if remaining_quantity (reduced x q) = 0 then bs_remove (at, i) (expiries s) else expiries s)"
  have s': "drop_expiry (i, oo_expires_at x) (s\<lparr>ownership := own\<rparr>) =
      s\<lparr>ownership := bt_insert i (reduced x q) (ownership s), expiries := E\<rparr>"
    by (simp add: drop_expiry_update own E_def split: option.split)
  have E: "bs_wf E" "\<forall>at j. (at, j) \<in> set E \<longleftrightarrow>
      (at, j) \<in> set (expiries s) \<and> (j = i \<longrightarrow> oo_state (reduced x q) = OrderActive)"
    using expiry_index_entry [OF con, of _ i x] x act consistentD(4) [OF con] by (auto simp: E_def split: option.splits)
  show "consistent (paid (oo_listing_key x) i q owed) arriving
      (ended @ (if i \<in> arriving then [] else case terminal_order e of None \<Rightarrow> [] | Some j \<Rightarrow> [j]))
      (drop_expiry (i, oo_expires_at x) (s\<lparr>ownership := own\<rparr>))"
    using consistent_update [OF con x act, of "reduced x q" E] le act E fin
    unfolding s' paid_def by (auto elim!: consistent_owed_cong)
  assume "i \<in> arriving"
  then have "(at, i) \<notin> set (expiries s)" for at
    using expiry_index_entry [OF con _ x] by blast
  then have "bs_remove (at, i) (expiries s) = expiries s" for at
    by (auto simp: bs_remove_def filter_id_conv)
  then show "drop_expiry (i, oo_expires_at x) (s\<lparr>ownership := own\<rparr>) = s\<lparr>ownership := own\<rparr>"
    unfolding s' by (simp add: own E_def split: option.split)
qed

lemma reduce_filled_inv:
  assumes run: "reduce_filled mi ti mk tk q auction t = Ok t'"
    and con: "consistent owed arriving (ended_orders t) (run t)" and q: "0 < q"
    and mk: "bt_get (ownership (run t)) mi = Some mk" and tk: "bt_get (ownership (run t)) ti = Some tk"
    and ne: "mi \<noteq> ti" and arr: "mi \<notin> arriving" "ti \<in> arriving \<longleftrightarrow> \<not> auction"
  shows "consistent (paid (oo_listing_key tk) ti q (paid (oo_listing_key mk) mi q owed)) arriving (ended_orders t') (run t')"
    and "run_constants (run t') = run_constants (run t)"
proof -
  let ?s = "run t" and ?dm = "(mi, oo_expires_at mk)" and ?dt = "(ti, oo_expires_at tk)"
  obtain own1 e1 own2 e2 where r1: "reduce_order mi q (ownership ?s) = Ok (own1, e1)"
    and r2: "reduce_order ti q own1 = Ok (own2, e2)"
    and t': "t' = (if auction then push e2 (push e1 t) else push e1 t)\<lparr>run := fold drop_expiry
        (?dm # (if auction then [?dt] else [])) (?s\<lparr>ownership := own2\<rparr>)\<rparr>"
    using run by (auto simp: reduce_filled_def result_simps Let_def)
  define s1 where "s1 = drop_expiry ?dm (?s\<lparr>ownership := own1\<rparr>)"
  have con1: "consistent (paid (oo_listing_key mk) mi q owed) arriving
      (ended_orders t @ (case terminal_order e1 of None \<Rightarrow> [] | Some j \<Rightarrow> [j])) s1"
    using reduce_consistent(1) [OF con r1 q mk] arr(1) by (simp add: s1_def)
  have own1: "ownership s1 = own1"
    by (simp add: s1_def)
  obtain x where "own1 = bt_insert mi (reduced mk q) (ownership ?s)" and own2: "own2 = bt_insert ti (reduced x q) own1"
    by (rule reduce_order_Ok [OF r1], rule reduce_order_Ok [OF r2]) (use mk in simp)
  then have tk1: "bt_get own1 ti = Some tk" and mi2: "bt_get own2 mi = bt_get own1 mi"
    using tk ne by simp_all
  have s2: "drop_expiry ?dm (?s\<lparr>ownership := own2\<rparr>) = s1\<lparr>ownership := own2\<rparr>"
    by (simp add: s1_def drop_expiry_update mi2 cong: option.case_cong)
  have con2: "consistent (paid (oo_listing_key tk) ti q (paid (oo_listing_key mk) mi q owed)) arriving
      (ended_orders t @ (case terminal_order e1 of None \<Rightarrow> [] | Some j \<Rightarrow> [j]) @
        (if ti \<in> arriving then [] else case terminal_order e2 of None \<Rightarrow> [] | Some j \<Rightarrow> [j]))
      (drop_expiry ?dt (s1\<lparr>ownership := own2\<rparr>))"
    using reduce_consistent(1) [OF con1 _ q, of ti own2 e2 tk] r2 tk1 own1 by simp
  show "consistent (paid (oo_listing_key tk) ti q (paid (oo_listing_key mk) mi q owed)) arriving (ended_orders t') (run t')"
    using con2 reduce_consistent(2) [OF con1 _ q, of ti own2 e2 tk] r2 tk1 own1 arr(2) s2
    by (cases auction) (simp_all add: t' s2)
  show "run_constants (run t') = run_constants (run t)"
    by (simp add: t' s2 s1_def)
qed

subsection \<open>Settlement\<close>

lemma settle_quantity: "settle l f = Ok l' \<Longrightarrow> 0 < fill_quantity f"
  by (auto simp: settle_def result_simps split: if_splits)

lemma post_trade_sel [simp]:
  "ownership (post_trade k price l s) = ownership s" "listings (post_trade k price l s) = listings s"
  "retired (post_trade k price l s) = retired s" "live_orders (post_trade k price l s) = live_orders s"
  "expiries (post_trade k price l s) = expiries s" "simulation (post_trade k price l s) = simulation s"
  "rs_calendar (post_trade k price l s) = rs_calendar s" "session_steps (post_trade k price l s) = session_steps s"
  "kill_switched (post_trade k price l s) = kill_switched s" "run_ledger (post_trade k price l s) = l"
  "terms_map l = terms_map (run_ledger s) \<Longrightarrow> run_constants (post_trade k price l s) = run_constants s"
  by (simp_all add: post_trade_def Let_def)

lemma settle_fill_Ok:
  assumes "settle_fill k mi ti price q auction t = Ok t'"
  obtains mk tk f l t1 e where "bt_get (ownership (run t)) mi = Some mk" and "bt_get (ownership (run t)) ti = Some tk"
    and "oo_listing_key mk = k" and "oo_listing_key tk = k" and "oo_state mk = OrderActive"
    and "settle (run_ledger (run t)) f = Ok l" and "fill_quantity f = q" and "fill_price f = price"
    and "reduce_filled mi ti mk tk q auction (t\<lparr>run := post_trade k price l (run t)\<rparr>) = Ok t1"
    and "t' = push e t1" and "terminal_order e = None"
proof -
  obtain mk tk where o: "bt_get (ownership (run t)) mi = Some mk" "bt_get (ownership (run t)) ti = Some tk"
    "oo_listing_key mk = k" "oo_listing_key tk = k" "oo_state mk = OrderActive"
    using assms by (auto simp: settle_fill_def Let_def result_simps split: if_splits)
  show ?thesis
    using assms o
    by (simp add: settle_fill_def Let_def result_simps case_prod_unfold split del: if_split)
      (elim exE conjE, rule that [OF o(1,2)], assumption+, simp, simp, assumption, erule sym, simp)
qed

lemma settle_fill_inv:
  assumes run: "settle_fill k mi ti price q auction t = Ok t'"
    and con: "consistent owed arriving (ended_orders t) (run t)"
    and ne: "mi \<noteq> ti" and arr: "mi \<notin> arriving" "ti \<in> arriving \<longleftrightarrow> \<not> auction"
  shows "consistent (paid k ti q (paid k mi q owed)) arriving (ended_orders t') (run t')"
    and "run_constants (run t') = run_constants (run t)"
  using run
proof (atomize (full), cases rule: settle_fill_Ok)
  case (1 mk tk f l t1 e)
  let ?s = "post_trade k price l (run t)"
  have "consistent owed arriving (ended_orders (t\<lparr>run := ?s\<rparr>)) (run (t\<lparr>run := ?s\<rparr>))"
    using con by (subst consistent_cong [where s = "run t"]) simp_all
  moreover have "0 < q"
    using settle_quantity [OF 1(6)] 1(7) by simp
  ultimately show "consistent (paid k ti q (paid k mi q owed)) arriving (ended_orders t') (run t') \<and>
      run_constants (run t') = run_constants (run t)"
    using reduce_filled_inv [OF 1(9) _ _ _ _ ne arr] 1(1-4,10,11) settle_terms [OF 1(6)] by simp
qed

lemma settle_matches_inv:
  assumes "settle_matches ti k ms t = Ok t'" and "consistent owed {ti} (ended_orders t) (run t)"
    and "\<forall>m \<in> set ms. maker m \<noteq> ti"
  shows "consistent (\<lambda>k' j. owed k' j - (if k' = k then match_fills ms j +
      (if j = ti then \<Sum>m \<leftarrow> ms. match_quantity m else 0) else 0)) {ti} (ended_orders t') (run t') \<and>
    run_constants (run t') = run_constants (run t)"
  using assms
proof (induction ms arbitrary: t owed)
  case Nil
  then show ?case
    by (auto simp: settle_matches_def elim!: consistent_owed_cong)
next
  case (Cons m ms)
  then obtain t1 where t1: "settle_fill k (maker m) ti (match_price m) (match_quantity m) False t = Ok t1"
    and rest: "settle_matches ti k ms t1 = Ok t'"
    by (auto simp: settle_matches_def result_simps)
  note inv1 = settle_fill_inv [OF t1 Cons.prems(2)]
  have "maker m \<noteq> ti"
    using Cons.prems(3) by simp
  then show ?case
    using Cons.IH [OF rest inv1(1)] inv1(2) Cons.prems(3)
    by (auto simp: paid_def elim!: consistent_owed_cong)
qed

lemma settle_crosses_inv:
  assumes "try_fold (settle_cross k price) cs t = Ok t'" and "consistent owed {} (ended_orders t) (run t)"
    and "\<forall>c \<in> set cs. cross_buy c \<noteq> cross_sell c"
  shows "consistent (\<lambda>k' j. owed k' j - (if k' = k then cross_fills cs j else 0)) {} (ended_orders t') (run t') \<and>
    run_constants (run t') = run_constants (run t)"
  using assms
proof (induction cs arbitrary: t owed)
  case Nil
  then show ?case
    by (auto elim!: consistent_owed_cong)
next
  case (Cons c cs)
  then obtain t1 where t1: "settle_cross k price c t = Ok t1" and rest: "try_fold (settle_cross k price) cs t1 = Ok t'"
    by (auto simp: result_simps)
  obtain mi ti where fill: "settle_fill k mi ti price (cross_quantity c) True t = Ok t1"
    and ids: "(mi, ti) = (cross_buy c, cross_sell c) \<or> (mi, ti) = (cross_sell c, cross_buy c)"
    using t1 by (auto simp: settle_cross_def split: if_splits)
  have ne: "mi \<noteq> ti"
    using ids Cons.prems(3) by auto
  note inv1 = settle_fill_inv [OF fill Cons.prems(2) ne]
  show ?case
    using Cons.IH [OF rest inv1(1)] inv1(2) Cons.prems(3) ids
    by (auto simp: paid_def elim!: consistent_owed_cong)
qed

subsection \<open>Identity of the orders\<close>

text \<open>What a fill never changes in an ownership record.\<close>

definition ident :: "owned_order \<Rightarrow> order_id \<times> participant_id \<times> listing_key \<times> side \<times> reservation \<times> logical_time_ns option \<times> bool" where
  "ident x = (oo_order_id x, oo_participant_id x, oo_listing_key x, oo_side x, oo_reservation x, oo_expires_at x, oo_day x)"

definition order_idents where
  "order_idents s i = map_option ident (bt_get (ownership s) i)"

lemma ident_reduced [simp]: "ident (reduced x q) = ident x"
  by (simp add: ident_def reduced_def)

lemma order_identsD:
  "order_idents s' = order_idents s \<Longrightarrow> bt_get (ownership s) i = Some x \<Longrightarrow>
    \<exists>y. bt_get (ownership s') i = Some y \<and> ident y = ident x"
  by (auto simp: order_idents_def dest: fun_cong [of _ _ i] split: option.splits)

lemma reduce_order_idents:
  "reduce_order i q own = Ok (own', e) \<Longrightarrow> map_option ident (bt_get own' j) = map_option ident (bt_get own j)"
  by (erule reduce_order_Ok) auto

lemma settle_fill_frame:
  assumes "settle_fill k mi ti price q auction t = Ok t'"
  shows "order_idents (run t') = order_idents (run t) \<and> listings (run t') = listings (run t)"
  using assms
proof (cases rule: settle_fill_Ok)
  case (1 mk tk f l t1 e)
  then obtain own1 e1 own2 e2 where "reduce_order mi q (ownership (run t)) = Ok (own1, e1)"
    and "reduce_order ti q own1 = Ok (own2, e2)" and "ownership (run t') = own2" and "listings (run t') = listings (run t)"
    by (auto simp: reduce_filled_def result_simps Let_def split: if_splits)
  then show ?thesis
    by (simp add: order_idents_def fun_eq_iff reduce_order_idents)
qed

lemma settle_matches_frame:
  assumes "settle_matches ti k ms t = Ok t'"
  shows "order_idents (run t') = order_idents (run t) \<and> listings (run t') = listings (run t)"
  using assms unfolding settle_matches_def
  by (rule try_fold_inv [where P = "\<lambda>u. order_idents (run u) = order_idents (run t) \<and> listings (run u) = listings (run t)"])
    (auto dest: settle_fill_frame)

subsection \<open>An order arrives\<close>

definition owes :: "listing_key \<Rightarrow> order_id \<Rightarrow> int \<Rightarrow> debts" where
  "owes k i q = (\<lambda>k' j. if k' = k \<and> j = i then q else 0)"

lemma retired_subset: "consistent owed arriving ended s \<Longrightarrow> set (retired s) \<subseteq> dom (bt_get (ownership s))"
  using consistentD(8) by (fastforce simp: retirement_def terminal_ids_def)

lemma consistent_arrive:
  assumes con: "consistent settled_up {} ended s" and new: "bt_get (ownership s) i = None"
    and k: "bt_get (listings s) k \<noteq> None" and cap: "length (ownership s) < length (retired s) + MAX_LIVE_ORDERS"
    and x: "oo_order_id x = i" "oo_participant_id x = p" "oo_listing_key x = k" "oo_state x = OrderActive"
      "remaining_quantity x = q" "0 < q"
    and s': "s' = s\<lparr>ownership := bt_insert i x (ownership s), live_orders := bt_insert p (live_order_count s p + 1) (live_orders s)\<rparr>"
  shows "consistent (owes k i q) {i} ended s'"
  unfolding consistent_def
proof (intro conjI)
  show "run_wf s'"
    using consistentD(12) [OF con] k x by (auto simp: s' run_wf_def owned_ok_def)
  have "book_left s k' i = 0" for k'
    using consistentD(7) [OF con, of k' i] new by (simp add: owned_left_def settled_up_def)
  moreover have "owned_left s' k' j = (if j = i then (if k' = k then q else 0) else owned_left s k' j)"
    and "book_left s' = book_left s" for k' j
    using x by (auto simp: s' owned_left_def book_left_def fun_eq_iff)
  ultimately show "in_step (owes k i q) s'"
    using consistentD(7) [OF con] by (simp add: in_step_def settled_up_def owes_def)
  have "terminal_ids s' = terminal_ids s" "i \<notin> terminal_ids s"
    using new x by (auto simp: s' terminal_ids_def)
  then show "retirement {i} ended s'"
    using consistentD(8) [OF con] by (simp add: retirement_def s')
  have "i \<notin> set (retired s)"
    using retired_subset [OF con] new by auto
  then have "unretired s' r = (if r = p then insert i (unretired s p) else unretired s r)" and "i \<notin> unretired s r" for r
    using new x by (auto simp: s' unretired_def)
  then show "live_counts s'"
    using consistentD(9) [OF con] by (auto simp: live_counts_def live_order_count_def s')
  show "expiry_index {i} s'"
    using consistentD(10) [OF con] new by (auto simp: expiry_index_def s')
  show "order_caps s'"
    using consistentD(11) [OF con] cap new by (simp add: order_caps_def s' bt_length_insert [OF consistentD(1) [OF con]])
qed

text \<open>An arriving order that ended is handed over to retirement.\<close>

lemma consistent_depart:
  assumes con: "consistent owed {i} ended s" and x: "bt_get (ownership s) i = Some x" "oo_state x \<noteq> OrderActive"
  shows "consistent owed {} (ended @ [i]) s"
proof -
  have "i \<in> terminal_ids s"
    using x by (auto simp: terminal_ids_def)
  then have "retirement {} (ended @ [i]) s"
    using consistentD(8) [OF con] by (auto simp: retirement_def)
  moreover have "expiry_index {} s"
    using consistentD(10) [OF con] x by (auto simp: expiry_index_def)
  ultimately show ?thesis
    using con by (simp add: consistent_def)
qed

text \<open>An arriving order that rests joins the book and the expiry index.\<close>

lemma consistent_land:
  assumes con: "consistent (owes k i q) {i} ended s" and x: "bt_get (ownership s) i = Some x" "oo_listing_key x = k"
    and ls: "bt_get (listings s) k = Some ls" and b: "book_inv b" "0 < q"
      "\<And>j. order_left b j = (if j = i then q else order_left (ls_book ls) j)" "order_left (ls_book ls) i = 0"
    and E: "E = (case oo_expires_at x of None \<Rightarrow> expiries s | Some at \<Rightarrow> bs_insert (at, i) (expiries s))"
  shows "consistent settled_up {} ended ((set_book s k ls b)\<lparr>expiries := E\<rparr>)"
proof -
  let ?s = "set_book s k ls b"
  have "owned_left s k i = q"
    using consistentD(7) [OF con, of k i] b(4) ls by (simp add: owes_def book_left_def)
  then have act: "oo_state x = OrderActive"
    using x b(2) consistentD(6) [OF con x(1)] by (simp add: owned_left_def owned_ok_def)
  have "consistent settled_up {i} ended ?s"
    using consistent_set_book [OF con ls b(1)] b(3,4) by (auto simp: owes_def settled_up_def elim!: consistent_owed_cong)
  moreover have "terminal_ids (?s\<lparr>expiries := E\<rparr>) = terminal_ids ?s" "unretired (?s\<lparr>expiries := E\<rparr>) = unretired ?s"
    "i \<notin> terminal_ids ?s"
    using x act by (auto simp: terminal_ids_def unretired_def fun_eq_iff)
  moreover have "bs_wf E"
    using consistentD(4) [OF con] by (simp add: E split: option.split)
  moreover have "expiry_index {} (?s\<lparr>expiries := E\<rparr>)"
    using consistentD(10) [OF con] x act by (auto simp: expiry_index_def E split: option.splits)
  ultimately show ?thesis
    by (simp add: consistent_def run_wf_def in_step_def owned_left_def book_left_def owned_ok_def retirement_def
        live_counts_def live_order_count_def order_caps_def)
qed

subsection \<open>Submission\<close>

text \<open>The widths of an order's fields in the source.\<close>

definition order_fits :: "submit_order \<Rightarrow> bool" where
  "order_fits order \<longleftrightarrow> in_i64 (so_quantity order) \<and>
     (case limit_price (so_kind order) of None \<Rightarrow> True | Some p \<Rightarrow> in_i64 p)"

lemma order_terms_limit: "fst (order_terms kind) = limit_price kind"
  by (cases kind) simp_all

lemma submit_identity_Ok:
  assumes "submit_identity s order = Ok participant" and "length (retired s) \<le> length (ownership s)"
  shows "bt_get (ownership s) (so_order_id order) = None" and "0 < so_quantity order"
    and "length (ownership s) < length (retired s) + MAX_LIVE_ORDERS"
  using assms by (auto simp: submit_identity_def usize_sub_def result_simps split: if_splits)

lemma submit_check_limit: "submit_check s order k now participant ls = Ok pl \<Longrightarrow> pl_limit pl = limit_price (so_kind order)"
  by (auto simp: submit_check_def Let_def result_simps case_prod_unfold order_terms_limit)

lemma retired_length:
  assumes "consistent owed arriving ended s"
  shows "length (retired s) \<le> length (ownership s)"
proof -
  have "distinct (retired s)"
    using consistentD(8) [OF assms] by (simp add: retirement_def)
  then show ?thesis
    using card_mono [OF bt.finite_dom_get [OF consistentD(1) [OF assms]] retired_subset [OF assms]]
    by (simp add: distinct_card bt_length [OF consistentD(1) [OF assms]])
qed

lemma submit_accept_inv:
  assumes "submit_accept order k pl t = Ok t'" and con: "transit_inv t"
    and new: "bt_get (ownership (run t)) (so_order_id order) = None" and q: "0 < so_quantity order"
    and cap: "length (ownership (run t)) < length (retired (run t)) + MAX_LIVE_ORDERS"
    and k: "bt_get (listings (run t)) k \<noteq> None"
  shows "consistent (owes k (so_order_id order) (so_quantity order)) {so_order_id order} (ended_orders t') (run t')"
    and "run_constants (run t') = run_constants (run t)" and "listings (run t') = listings (run t)"
    and "\<exists>x. bt_get (ownership (run t')) (so_order_id order) = Some x \<and> oo_listing_key x = k \<and>
      remaining_quantity x = so_quantity order \<and> oo_expires_at x = pl_expires_at pl"
proof -
  let ?i = "so_order_id order" and ?s = "run t" and ?p = "so_participant_id order"
  define x where "x = \<lparr>oo_order_id = ?i, oo_participant_id = ?p, oo_listing_key = k, oo_side = so_side order,
    oo_limit_price = reservation_price (pl_admission pl), original_quantity = so_quantity order,
    remaining_quantity = so_quantity order, oo_state = OrderActive, oo_reservation = adm_reservation (pl_admission pl),
    oo_expires_at = pl_expires_at pl, oo_day = (pl_tif pl = Day), oo_anonymous = so_anonymous order\<rparr>"
  have x: "oo_order_id x = ?i" "oo_participant_id x = ?p" "oo_listing_key x = k" "oo_state x = OrderActive"
    "remaining_quantity x = so_quantity order" "oo_expires_at x = pl_expires_at pl"
    by (simp_all add: x_def)
  obtain l where l: "open_order (run_ledger ?s) ?p (so_instrument_id order) (so_side order)
      (so_quantity order) (adm_reservation (pl_admission pl)) = Ok l"
    and t': "t' = push (OrderAccepted ?i) (t\<lparr>run := ?s\<lparr>run_ledger := l, ownership := bt_insert ?i x (ownership ?s),
      live_orders := bt_insert ?p (live_order_count ?s ?p + 1) (live_orders ?s)\<rparr>\<rparr>)"
    using assms(1) by (auto simp: submit_accept_def Let_def result_simps live_order_count_def x_def)
  let ?s' = "?s\<lparr>ownership := bt_insert ?i x (ownership ?s), live_orders := bt_insert ?p (live_order_count ?s ?p + 1) (live_orders ?s)\<rparr>"
  have "consistent (owes k ?i (so_quantity order)) {?i} (ended_orders t) ?s'"
    using consistent_arrive [OF con new k cap x(1-5) q refl] .
  then show "consistent (owes k ?i (so_quantity order)) {?i} (ended_orders t') (run t')"
    by (subst consistent_cong [where s = ?s']) (simp_all add: t')
  show "run_constants (run t') = run_constants ?s" "listings (run t') = listings ?s"
    using change_open_terms [OF l [unfolded open_order_def]] by (simp_all add: t' run_constants_def)
  show "\<exists>x. bt_get (ownership (run t')) ?i = Some x \<and> oo_listing_key x = k \<and>
      remaining_quantity x = so_quantity order \<and> oo_expires_at x = pl_expires_at pl"
    using x by (simp add: t')
qed

lemma match_fills_maker:
  assumes "\<forall>m \<in> set ms. 0 < match_quantity m" and "m \<in> set ms"
  shows "0 < match_fills ms (maker m)"
proof -
  have nonneg: "0 \<le> match_fills ns i" if "set ns \<subseteq> set ms" for ns i
    using that assms(1) by (induction ns) (auto simp: less_imp_le)
  obtain us vs where "ms = us @ m # vs"
    using assms(2) by (auto simp: in_set_conv_decomp)
  moreover from this have "match_fills ms (maker m) = match_fills us (maker m) + match_quantity m + match_fills vs (maker m)"
    by (simp add: match_fills_def)
  moreover have "0 \<le> match_fills us (maker m)" "0 \<le> match_fills vs (maker m)"
    using calculation(1) by (auto intro: nonneg)
  ultimately show ?thesis
    using assms by auto
qed

lemma book_left_arriving:
  assumes "consistent (owes k i q) {i} ended s" and "bt_get (ownership s) i = Some x" and "oo_listing_key x = k"
    and "remaining_quantity x = q"
  shows "book_left s k i = 0"
  using consistentD(7) [OF assms(1), of k i] assms(2-4) by (simp add: owned_left_def owes_def)

lemma submit_match_inv:
  assumes run: "submit_match order k pl t = Ok (left, t')" and fits: "in_i64 (so_quantity order)" and q: "0 < so_quantity order"
    and con: "consistent (owes k (so_order_id order) (so_quantity order)) {so_order_id order} (ended_orders t) (run t)"
    and own: "bt_get (ownership (run t)) (so_order_id order) = Some x" "oo_listing_key x = k"
      "remaining_quantity x = so_quantity order"
  shows "consistent (owes k (so_order_id order) left) {so_order_id order} (ended_orders t') (run t')"
    and "run_constants (run t') = run_constants (run t)" and "order_idents (run t') = order_idents (run t)"
    and "0 \<le> left" and "left \<le> so_quantity order" and "book_left (run t') k (so_order_id order) = 0"
proof (atomize (full), goal_cases)
  case 1
  let ?i = "so_order_id order" and ?q = "so_quantity order"
  obtain ls where ls: "bt_get (listings (run t)) k = Some ls"
    and cases: "left = ?q \<and> t' = t \<or> (\<exists>ms b. execute (ls_book ls) (so_side order) (pl_limit pl) ?q = Ok (ms, left, b) \<and>
      settle_matches ?i k ms (t\<lparr>run := set_book (run t) k ls b\<rparr>) = Ok t')"
    using run by (auto simp: submit_match_def result_simps split: if_splits)
  from cases show ?case
  proof (elim disjE exE conjE)
    assume "left = ?q" "t' = t"
    then show ?thesis
      using con q book_left_arriving [OF con own] by simp
  next
    fix ms b
    assume ex: "execute (ls_book ls) (so_side order) (pl_limit pl) ?q = Ok (ms, left, b)"
      and set: "settle_matches ?i k ms (t\<lparr>run := set_book (run t) k ls b\<rparr>) = Ok t'"
    note inv = consistentD(5) [OF con ls]
    note facts = execute_match_facts [OF inv fits ex] and lft = execute_left [OF inv fits ex]
    have b: "book_inv b"
      using execute_OkD(2) [OF inv fits ex] .
    have out: "order_left (ls_book ls) ?i = 0"
      using book_left_arriving [OF con own] ls by (simp add: book_left_def)
    then have "match_fills ms ?i \<le> 0"
      using lft [of ?i] order_left_nonneg [OF b, of ?i] by simp
    then have makers: "\<forall>m \<in> set ms. maker m \<noteq> ?i"
      using match_fills_maker [OF facts(1)] by force
    have con1: "consistent (\<lambda>k' j. owes k ?i ?q k' j + (if k' = k then match_fills ms j else 0)) {?i}
        (ended_orders t) (set_book (run t) k ls b)"
      using consistent_set_book [OF con ls b] lft by (auto elim!: consistent_owed_cong)
    have "consistent (owes k ?i left) {?i} (ended_orders t') (run t')" "run_constants (run t') = run_constants (run t)"
      using settle_matches_inv [OF set _ makers, of "\<lambda>k' j. owes k ?i ?q k' j + (if k' = k then match_fills ms j else 0)"]
        con1 facts(2) run_constants_set_book [OF consistentD(2) [OF con] ls]
      by (auto simp: owes_def elim!: consistent_owed_cong)
    moreover have "order_idents (run t') = order_idents (run t)" "listings (run t') = listings (set_book (run t) k ls b)"
      using settle_matches_frame [OF set] by (simp_all add: order_idents_def fun_eq_iff)
    moreover have "match_fills ms ?i = 0"
      using makers by (induction ms) auto
    moreover have "0 \<le> (\<Sum>m \<leftarrow> ms. match_quantity m)"
      using facts(1) by (intro sum_list_nonneg) (auto simp: less_imp_le)
    ultimately show ?thesis
      using facts(2,3) out lft [of ?i] by (simp add: book_left_def set_book_def)
  qed
qed

lemma submit_drop_inv:
  assumes run: "submit_drop order k pl left t = Ok t'" and pos: "0 < left"
    and con: "consistent (owes k (so_order_id order) left) {so_order_id order} (ended_orders t) (run t)"
    and own: "bt_get (ownership (run t)) (so_order_id order) = Some x" "oo_listing_key x = k" "remaining_quantity x = left"
  shows "transit_inv t'" and "run_constants (run t') = run_constants (run t)"
proof -
  let ?i = "so_order_id order" and ?s = "run t" and ?y = "x\<lparr>oo_state := OrderCancelled, remaining_quantity := 0\<rparr>"
  obtain l e where l: "close_order (run_ledger ?s) (so_participant_id order) (so_instrument_id order) (so_side order) left
      (adm_reservation (pl_admission pl)) = Ok l"
    and t': "t' = push e (t\<lparr>run := ?s\<lparr>run_ledger := l, ownership := bt_insert ?i ?y (ownership ?s)\<rparr>\<rparr>)"
    and e: "terminal_order e = Some ?i"
    using run own by (auto simp: submit_drop_def Let_def result_simps)
  have act: "oo_state x = OrderActive"
    using consistentD(6) [OF con own(1)] pos own(3) by (simp add: owned_ok_def)
  have E: "\<forall>at j. (at, j) \<in> set (expiries ?s) \<longleftrightarrow> (at, j) \<in> set (expiries ?s) \<and> (j = ?i \<longrightarrow> oo_state ?y = OrderActive)"
    using expiry_index_entry [OF con _ own(1)] by auto
  let ?s1 = "?s\<lparr>ownership := bt_insert ?i ?y (ownership ?s), expiries := expiries ?s\<rparr>"
  have "consistent settled_up {?i} (ended_orders t) ?s1"
    using consistent_update [OF con own(1) act, of ?y "expiries ?s"] E consistentD(4) [OF con] own
    by (auto simp: owes_def settled_up_def elim!: consistent_owed_cong)
  then have "consistent settled_up {} (ended_orders t @ [?i]) ?s1"
    by (rule consistent_depart [where x = ?y]) simp_all
  then show "transit_inv t'"
    by (subst consistent_cong [where s = ?s1]) (simp_all add: t' e)
  show "run_constants (run t') = run_constants (run t)"
    using change_open_terms [OF l [unfolded close_order_def]] by (simp add: t')
qed

lemma submit_rest_inv:
  assumes run: "submit_rest order k pl price left t = Ok t'" and pos: "0 < left" and fits: "in_i64 price" "in_i64 left"
    and con: "consistent (owes k (so_order_id order) left) {so_order_id order} (ended_orders t) (run t)"
    and own: "bt_get (ownership (run t)) (so_order_id order) = Some x" "oo_listing_key x = k"
      "oo_expires_at x = pl_expires_at pl"
  shows "transit_inv t'" and "run_constants (run t') = run_constants (run t)"
proof -
  let ?i = "so_order_id order" and ?s = "run t"
  define E where "E = (case pl_expires_at pl of None \<Rightarrow> expiries ?s | Some at \<Rightarrow> bs_insert (at, ?i) (expiries ?s))"
  obtain ls b e where ls: "bt_get (listings ?s) k = Some ls"
    and b: "rest (ls_book ls) ?i (so_side order) price left (pl_display pl) = Ok b"
    and t': "t' = push e (t\<lparr>run := (case pl_expires_at pl of None \<Rightarrow> set_book ?s k ls b
      | Some at \<Rightarrow> (set_book ?s k ls b)\<lparr>expiries := bs_insert (at, ?i) (expiries (set_book ?s k ls b))\<rparr>)\<rparr>)"
    and e: "terminal_order e = None"
    using run by (auto simp: submit_rest_def Let_def result_simps)
  have r: "run t' = (set_book ?s k ls b)\<lparr>expiries := E\<rparr>"
    by (auto simp: t' E_def set_book_def split: option.split)
  note inv = consistentD(5) [OF con ls]
  show "transit_inv t'"
    using consistent_land [OF con own(1,2) ls rest_OkD(1) [OF inv fits b] pos rest_left(1,2) [OF inv fits b]] e own(3)
    by (simp add: r E_def) (simp add: t')
  show "run_constants (run t') = run_constants (run t)"
    using run_constants_set_book [OF consistentD(2) [OF con] ls] by (simp add: r)
qed

lemma submit_remainder_inv:
  assumes run: "submit_remainder order k pl left t = Ok t'" and range: "0 \<le> left" "in_i64 left"
    and fits: "case pl_limit pl of None \<Rightarrow> True | Some p \<Rightarrow> in_i64 p"
    and con: "consistent (owes k (so_order_id order) left) {so_order_id order} (ended_orders t) (run t)"
    and own: "bt_get (ownership (run t)) (so_order_id order) = Some x" "oo_listing_key x = k"
      "oo_expires_at x = pl_expires_at pl"
    and out: "book_left (run t) k (so_order_id order) = 0"
  shows "transit_inv t' \<and> run_constants (run t') = run_constants (run t)"
proof -
  have left: "remaining_quantity x = left"
    using consistentD(7) [OF con, of k "so_order_id order"] own out by (simp add: owned_left_def owes_def)
  show ?thesis
  proof (cases "left = 0")
    case True
    then have "oo_state x \<noteq> OrderActive" "owes k (so_order_id order) left = settled_up"
      using consistentD(6) [OF con own(1)] left by (auto simp: owned_ok_def owes_def settled_up_def fun_eq_iff)
    then show ?thesis
      using True run con consistent_depart [of settled_up, OF _ own(1)] by (auto simp: submit_remainder_def)
  next
    case False
    then consider (rests) price where "pl_limit pl = Some price" "submit_rest order k pl price left t = Ok t'"
      | (drops) "submit_drop order k pl left t = Ok t'"
      using run by (auto simp: submit_remainder_def split: option.splits bool.splits)
    then show ?thesis
    proof cases
      case rests
      then show ?thesis
        using submit_rest_inv [OF rests(2) _ _ range(2) con own] fits range(1) False by simp
    next
      case drops
      then show ?thesis
        using submit_drop_inv [OF drops _ con own(1,2) left] range(1) False by simp
    qed
  qed
qed

lemma submit_cases:
  assumes "submit order k now t = Ok (r, t')"
  shows "(\<exists>code. r = Err code \<and> t' = t) \<or>
    (\<exists>p ls pl t1 left t2. submit_identity (run t) order = Ok p \<and> bt_get (listings (run t)) k = Some ls \<and>
       submit_check (run t) order k now p ls = Ok pl \<and> submit_accept order k pl t = Ok t1 \<and>
       submit_match order k pl t1 = Ok (left, t2) \<and> submit_remainder order k pl left t2 = Ok t' \<and> r = Ok ())"
proof (cases "submit_identity (run t) order")
  case (Inr p)
  then obtain ls where ls: "bt_get (listings (run t)) k = Some ls"
    using assms by (auto simp: submit_def result_simps)
  then show ?thesis
    using assms Inr by (cases "submit_check (run t) order k now p ls") (auto simp: submit_def result_simps)
qed (use assms in \<open>auto simp: submit_def\<close>)

lemma submit_inv:
  assumes run: "submit order k now t = Ok (r, t')" and con: "transit_inv t" and fits: "order_fits order"
  shows "transit_inv t' \<and> run_constants (run t') = run_constants (run t)"
  using submit_cases [OF run]
proof (elim disjE exE conjE)
  let ?i = "so_order_id order"
  fix p ls pl t1 left t2
  assume ident: "submit_identity (run t) order = Ok p"
    and ls: "bt_get (listings (run t)) k = Some ls" and chk: "submit_check (run t) order k now p ls = Ok pl"
    and t1: "submit_accept order k pl t = Ok t1" and t2: "submit_match order k pl t1 = Ok (left, t2)"
    and t': "submit_remainder order k pl left t2 = Ok t'"
  note id = submit_identity_Ok [OF ident retired_length [OF con]]
  note acc = submit_accept_inv [OF t1 con id]
  obtain x where x: "bt_get (ownership (run t1)) ?i = Some x" "oo_listing_key x = k"
    "remaining_quantity x = so_quantity order" "oo_expires_at x = pl_expires_at pl"
    using acc(4) ls by auto
  have q: "in_i64 (so_quantity order)" "0 < so_quantity order"
    using fits id(2) by (simp_all add: order_fits_def)
  note mt = submit_match_inv [OF t2 q acc(1) x(1-3)]
  obtain y where y: "bt_get (ownership (run t2)) ?i = Some y" "ident y = ident x"
    using order_identsD [OF mt(3) x(1)] ls by auto
  have "in_i64 left" "case pl_limit pl of None \<Rightarrow> True | Some p \<Rightarrow> in_i64 p"
    using mt(4,5) q ls fits submit_check_limit [OF chk] by (auto simp: in_i64_def order_fits_def)
  then show ?thesis
    using submit_remainder_inv [OF t' _ _ _ mt(1) y(1)] mt(2,4,6) acc(2) y(2) x ls by (simp add: ident_def)
qed (use con in simp)

subsection \<open>Operations that keep a run consistent\<close>

text \<open>
  The contract every internal operation of a transition keeps; it composes along
  \<open>?\<close> and loops.
\<close>

definition keeps :: "(transit \<Rightarrow> (transit, engine_error) result) \<Rightarrow> bool" where
  "keeps f \<longleftrightarrow> (\<forall>t t'. f t = Ok t' \<longrightarrow> transit_inv t \<longrightarrow> transit_inv t' \<and> run_constants (run t') = run_constants (run t))"

lemma keepsD: "keeps f \<Longrightarrow> f t = Ok t' \<Longrightarrow> transit_inv t \<Longrightarrow> transit_inv t' \<and> run_constants (run t') = run_constants (run t)"
  unfolding keeps_def by blast

lemma keeps_attempt:
  assumes "keeps f" and "\<And>t. keeps (g t)"
  shows "keeps (\<lambda>t. attempt (f t) (g t))"
  unfolding keeps_def attempt_Ok_iff using keepsD [OF assms(1)] keepsD [OF assms(2)] by metis

lemma keeps_diag: "(\<And>u. keeps (g u)) \<Longrightarrow> keeps (\<lambda>t. g t t)"
  by (simp add: keeps_def)

lemma keeps_try_fold:
  assumes "\<And>x. keeps (f x)"
  shows "keeps (try_fold f xs)"
proof (induction xs)
  case Nil
  then show ?case
    by (simp add: keeps_def)
next
  case (Cons x xs)
  then show ?case
    using keeps_attempt [OF assms, of "\<lambda>_. try_fold f xs" x] by (simp add: fun_eq_iff keeps_def)
qed

text \<open>Bookkeeping outside the orders.\<close>

lemma keeps_frame:
  assumes "\<And>t t'. f t = Ok t' \<Longrightarrow> ownership (run t') = ownership (run t) \<and> listings (run t') = listings (run t) \<and>
      live_orders (run t') = live_orders (run t) \<and> expiries (run t') = expiries (run t) \<and>
      retired (run t') = retired (run t) \<and> ended_orders t' = ended_orders t \<and>
      run_constants (run t') = run_constants (run t)"
  shows "keeps f"
  unfolding keeps_def
proof (intro allI impI)
  fix t t'
  assume t': "f t = Ok t'" and inv: "transit_inv t"
  show "transit_inv t' \<and> run_constants (run t') = run_constants (run t)"
    using assms [OF t'] inv consistent_cong [of "run t'" "run t"] by simp
qed

lemma keeps_cancel: "keeps (cancel_order i reason)"
  unfolding keeps_def using cancel_order_inv by blast

lemma keeps_cancel_touch: "keeps (\<lambda>t. cancel_order i reason (touch k t))"
  unfolding keeps_def
proof (intro allI impI)
  fix t t'
  assume "cancel_order i reason (touch k t) = Ok t'" "transit_inv t"
  then show "transit_inv t' \<and> run_constants (run t') = run_constants (run t)"
    using cancel_order_inv [of i reason "touch k t" t' settled_up] by simp
qed

lemma keeps_cancel_listed: "keeps (cancel_listed reason live)"
  unfolding cancel_listed_def by (intro keeps_try_fold) (auto intro: keeps_cancel_touch)

lemma keeps_expire_due: "keeps (expire_due now)"
  unfolding keeps_def
proof (intro allI impI)
  fix t t'
  assume "expire_due now t = Ok t'" and "transit_inv t"
  then show "transit_inv t' \<and> run_constants (run t') = run_constants (run t)"
  proof (induction now t rule: expire_due.induct)
    case (1 now t)
    show ?case
    proof (cases "expiries (run t)")
      case Nil
      then show ?thesis
        using 1(2,3) by (subst (asm) expire_due.simps) simp
    next
      case (Cons e es)
      obtain at i where e: "e = (at, i)"
        by (cases e)
      show ?thesis
      proof (cases "now < at")
        case True
        then show ?thesis
          using 1(2,3) Cons e by (subst (asm) expire_due.simps) simp
      next
        case False
        then obtain k t1 where k: "ok_or OwnershipInvariant (map_option oo_listing_key (bt_get (ownership (run t)) i)) = Ok k"
          and t1: "cancel_order i Expired (touch k t) = Ok t1" and rec: "expire_due now t1 = Ok t'"
          using 1(2) Cons e by (subst (asm) expire_due.simps) (auto simp: attempt_Ok_iff)
        show ?thesis
          using 1(1) [OF Cons e [symmetric] _ k t1 rec] False keepsD [OF keeps_cancel_touch t1 1(3)] by simp
      qed
    qed
  qed
qed

lemma keeps_run_auction: "keeps (run_auction k)"
  unfolding keeps_def
proof (intro allI impI)
  fix t t'
  assume run: "run_auction k t = Ok t'" and con: "transit_inv t"
  let ?s = "run t"
  obtain ls where ls: "bt_get (listings ?s) k = Some ls"
    using run by (auto simp: run_auction_def Let_def result_simps)
  have "t' = t \<or>
      (\<exists>price q cs b t1. uncross_loop (ls_book ls) price = Some (Ok (cs, b)) \<and>
        try_fold (settle_cross k price) cs (t\<lparr>run := set_book ?s k ls b\<rparr>) = Ok t1 \<and>
        t' = push (Simulation (AuctionUncrossed k price q)) t1)"
    using run ls by (auto simp: run_auction_def Let_def result_simps split: option.splits) blast+
  then show "transit_inv t' \<and> run_constants (run t') = run_constants ?s"
  proof (elim disjE exE conjE)
    fix price q cs b t1
    assume u: "uncross_loop (ls_book ls) price = Some (Ok (cs, b))"
      and fold: "try_fold (settle_cross k price) cs (t\<lparr>run := set_book ?s k ls b\<rparr>) = Ok t1"
      and t': "t' = push (Simulation (AuctionUncrossed k price q)) t1"
    note un = uncross_left [OF consistentD(5) [OF con ls] u]
    have "consistent (\<lambda>k' j. if k' = k then cross_fills cs j else 0) {} (ended_orders t) (set_book ?s k ls b)"
      using consistent_set_book [OF con ls un(2)] un(1) by (auto simp: settled_up_def elim!: consistent_owed_cong)
    then show ?thesis
      using settle_crosses_inv [OF fold _ un(4), of "\<lambda>k' j. if k' = k then cross_fills cs j else 0"]
        run_constants_set_book [OF consistentD(2) [OF con] ls]
      by (auto simp: t' settled_up_def elim!: consistent_owed_cong)
  qed (use con in simp)
qed

end
