(* ===== verification/Engine_Lifecycle.thy ===== *)
theory Engine_Lifecycle
  imports Engine_Invariant
begin

text \<open>
  Whole commands keep a run consistent: catching up with the clock, crossing session
  boundaries, applying the payload and committing. Runs reachable from a scenario are
  then exactly the runs whose snapshots validate.
\<close>

subsection \<open>Simulation methods\<close>

lemma ended_orders_simulation [simp]:
  "ended_orders (t\<lparr>run := s, payloads := payloads t @ map Simulation evs\<rparr>) = ended_orders t"
  by (simp add: ended_orders_def map_filter_def)

lemma keeps_simulation:
  assumes "\<And>t evs ctx sim. f t = Ok (evs, ctx, sim) \<Longrightarrow> same_frame (context_of (run t), simulation (run t)) (ctx, sim)"
  shows "keeps (\<lambda>t. with_simulation_state t (f t))"
proof (rule keeps_frame)
  fix t t'
  assume "with_simulation_state t (f t) = Ok t'"
  then obtain evs ctx sim where ok: "f t = Ok (evs, ctx, sim)"
    and t': "t' = t\<lparr>run := (run t)\<lparr>run_ledger := ctx_ledger ctx, simulation := sim\<rparr>, payloads := payloads t @ map Simulation evs\<rparr>"
    by (auto simp: with_simulation_state_def result_simps)
  from assms [OF ok] show "ownership (run t') = ownership (run t) \<and> listings (run t') = listings (run t) \<and>
      live_orders (run t') = live_orders (run t) \<and> expiries (run t') = expiries (run t) \<and>
      retired (run t') = retired (run t) \<and> ended_orders t' = ended_orders t \<and>
      run_constants (run t') = run_constants (run t)"
    by (simp add: t' same_frame_def context_of_def run_constants_def)
qed

lemma keeps_simulation_catch_up:
  "keeps (\<lambda>t. with_simulation_state t (simulation_catch_up (simulation (run t)) (context_of (run t)) now sweep))"
  by (rule keeps_simulation) (rule catch_up_frame)

lemma keeps_simulation_apply:
  "keeps (\<lambda>t. with_simulation_state t (simulation_apply (simulation (run t)) (context_of (run t)) actor at cmd))"
  by (rule keeps_simulation) (rule simulation_apply_frame)

subsection \<open>Boundaries\<close>

text \<open>Parts of a run that only bookkeeping touches.\<close>

definition order_part where
  "order_part s = (ownership s, listings s, live_orders s, expiries s, retired s)"

lemma keeps_order_part:
  assumes "\<And>t t'. f t = Ok t' \<Longrightarrow> order_part (run t') = order_part (run t) \<and> ended_orders t' = ended_orders t \<and>
      run_constants (run t') = run_constants (run t)"
  shows "keeps f"
  by (rule keeps_frame) (use assms in \<open>simp add: order_part_def\<close>)

lemma close_listing_part:
  "order_part (snd (close_listing k w)) = order_part (snd w) \<and> run_constants (snd (close_listing k w)) = run_constants (snd w)"
  by (simp add: close_listing_def Let_def order_part_def split: option.split)

lemma close_day_part:
  "order_part (snd (close_day v s)) = order_part s \<and> run_constants (snd (close_day v s)) = run_constants s"
proof -
  have "order_part (snd (fold close_listing ks w)) = order_part (snd w) \<and>
      run_constants (snd (fold close_listing ks w)) = run_constants (snd w)" for ks w
    by (induction ks arbitrary: w) (simp_all add: close_listing_part)
  then show ?thesis
    by (simp add: close_day_def)
qed

lemma settle_day_part:
  assumes "settle_day day s = Ok (e, s')"
  shows "order_part s' = order_part s \<and> run_constants s' = run_constants s"
proof -
  obtain marks where "try_fold mark_to_close (map fst (instruments s)) ([], s) = Ok (marks, s')"
    using assms by (auto simp: settle_day_def result_simps)
  then have "order_part (snd (marks, s')) = order_part s \<and> run_constants (snd (marks, s')) = run_constants s"
  proof (rule try_fold_inv)
    fix i u v
    assume u: "order_part (snd u) = order_part s \<and> run_constants (snd u) = run_constants s"
      and "mark_to_close i u = Ok v"
    then have "snd v = snd u \<or> (\<exists>l. snd v = (snd u)\<lparr>run_ledger := l\<rparr> \<and> terms_map l = terms_map (run_ledger (snd u)))"
      by (auto simp: mark_to_close_def Let_def result_simps set_mark_terms split: option.splits)
    then show "order_part (snd v) = order_part s \<and> run_constants (snd v) = run_constants s"
      using u by (auto simp: order_part_def)
  qed simp
  then show ?thesis
    by simp
qed

lemma keeps_close_venue: "keeps (close_venue v day)"
proof (rule keeps_order_part)
  fix t t'
  assume run: "close_venue v day t = Ok t'"
  let ?s1 = "snd (close_day v (run t))"
  have "run t' = ?s1 \<or> (\<exists>e. settle_day day ?s1 = Ok (e, run t'))" and "ended_orders t' = ended_orders t"
    using run by (auto simp: close_venue_def Let_def result_simps case_prod_unfold split: if_splits)
  then show "order_part (run t') = order_part (run t) \<and> ended_orders t' = ended_orders t \<and>
      run_constants (run t') = run_constants (run t)"
    using close_day_part [of v "run t"] settle_day_part [of day ?s1] by auto
qed

lemma keeps_auction_venue: "keeps (auction_venue v)"
proof -
  have touch: "keeps (\<lambda>t. run_auction k (touch k t))" for k
    using keepsD [OF keeps_run_auction [of k], of "touch k _"] by (simp add: keeps_def)
  show ?thesis
    unfolding auction_venue_def by (rule keeps_diag) (rule keeps_try_fold, rule touch)
qed

lemma keeps_expire_day_orders: "keeps (expire_day_orders v)"
  unfolding expire_day_orders_def by (rule keeps_diag) (rule keeps_try_fold, rule keeps_cancel)

lemma keeps_push: "terminal_order p = None \<Longrightarrow> keeps (\<lambda>t. Ok (push p t))"
  by (rule keeps_order_part) (auto simp: order_part_def)

lemma keeps_if: "keeps f \<Longrightarrow> keeps g \<Longrightarrow> keeps (\<lambda>t. if b then f t else g t)"
  by (cases b) simp_all

lemma keeps_Ok: "keeps Ok"
  by (simp add: keeps_def)

lemma keeps_step: "keeps (\<lambda>t. Ok (t\<lparr>run := (run t)\<lparr>session_steps := bt_insert v n (session_steps (run t))\<rparr>\<rparr>))"
  by (rule keeps_order_part) (auto simp: order_part_def)

text \<open>A boundary is the composition of these steps.\<close>

lemma cross_boundary_steps:
  "cross_boundary v stp bnd t =
     attempt (ok_or SequenceOverflow (checked_u64 (stp + 1))) (\<lambda>nxt.
     attempt (Ok (t\<lparr>run := (run t)\<lparr>session_steps := bt_insert v nxt (session_steps (run t))\<rparr>\<rparr>)) (\<lambda>t.
     attempt (if b_phase bnd = Continuous \<or> b_phase bnd = Closed then auction_venue v t else Ok t) (\<lambda>t.
     attempt (if b_phase bnd = Closed then expire_day_orders v t else Ok t) (\<lambda>t.
     attempt (Ok (push (Simulation (SessionPhaseChanged v (b_day bnd) (b_phase bnd))) t)) (\<lambda>t.
     if b_phase bnd = Closed then close_venue v (b_day bnd) t else Ok t)))))"
  by (simp add: cross_boundary_def Let_def)

lemma keeps_cross_boundary: "keeps (cross_boundary v stp bnd)"
proof -
  have "keeps (\<lambda>t. attempt (Ok (t\<lparr>run := (run t)\<lparr>session_steps := bt_insert v nxt (session_steps (run t))\<rparr>\<rparr>)) (\<lambda>t.
     attempt (if b_phase bnd = Continuous \<or> b_phase bnd = Closed then auction_venue v t else Ok t) (\<lambda>t.
     attempt (if b_phase bnd = Closed then expire_day_orders v t else Ok t) (\<lambda>t.
     attempt (Ok (push (Simulation (SessionPhaseChanged v (b_day bnd) (b_phase bnd))) t)) (\<lambda>t.
     if b_phase bnd = Closed then close_venue v (b_day bnd) t else Ok t)))))" for nxt
    by (intro keeps_attempt keeps_if keeps_auction_venue keeps_expire_day_orders keeps_close_venue keeps_Ok
        keeps_push keeps_step) simp
  then show ?thesis
    unfolding keeps_def cross_boundary_steps attempt_Ok_iff by blast
qed

lemma keeps_cross_due: "keeps (cross_due n now)"
proof (induction n)
  case 0
  then show ?case
    by (simp add: keeps_def)
next
  case (Suc n)
  show ?case
    unfolding keeps_def
  proof (intro allI impI)
    fix t t'
    assume run: "cross_due (Suc n) now t = Ok t'" and con: "transit_inv t"
    have "t' = t \<or> (\<exists>v stp bnd t1 t2. expire_due (b_at bnd) t = Ok t1 \<and> cross_boundary v stp bnd t1 = Ok t2 \<and>
        cross_due n now t2 = Ok t')"
      using run by (auto simp: result_simps split: option.splits if_splits)
    then show "transit_inv t' \<and> run_constants (run t') = run_constants (run t)"
    proof (elim disjE exE conjE)
      fix v stp bnd t1 t2
      assume "expire_due (b_at bnd) t = Ok t1" "cross_boundary v stp bnd t1 = Ok t2" "cross_due n now t2 = Ok t'"
      then show ?thesis
        using keepsD [OF keeps_expire_due _ con] keepsD [OF keeps_cross_boundary, of v stp bnd t1 t2] keepsD [OF Suc, of t2 t'] by simp
    qed (use con in simp)
  qed
qed

lemma keeps_catch_up: "keeps (catch_up now sweep)"
  unfolding catch_up_def
  by (intro keeps_attempt keeps_simulation_catch_up keeps_expire_due keeps_diag
      [where g = "\<lambda>u t. cross_due (boundary_fuel (run u)) now t"] keeps_cross_due)

subsection \<open>Retirement\<close>

lemma trim_retired_short: "length is \<le> MAX_RETIRED_ORDERS \<Longrightarrow> trim_retired is own = (is, own)"
  by (cases "is") auto

lemma trim_retired_full:
  "length is = MAX_RETIRED_ORDERS \<Longrightarrow> trim_retired (j # is) own = (is, bt_remove j own)"
  by (simp add: trim_retired_short)

text \<open>The window after one more order: the same order list, or its oldest entry dropped.\<close>

lemma retire_window:
  assumes "length rs \<le> MAX_RETIRED_ORDERS"
  obtains "trim_retired (rs @ [i]) own = (rs @ [i], own)" "length (rs @ [i]) \<le> MAX_RETIRED_ORDERS"
    | j rest where "rs @ [i] = j # rest" "trim_retired (rs @ [i]) own = (rest, bt_remove j own)"
        "length rest \<le> MAX_RETIRED_ORDERS"
proof (cases "length rs < MAX_RETIRED_ORDERS")
  case True
  then show ?thesis
    using that(1) trim_retired_short [of "rs @ [i]" own] by simp
next
  case False
  obtain j rest where r: "rs @ [i] = j # rest"
    by (cases "rs @ [i]") auto
  have "Suc (length rest) = Suc (length rs)"
    using arg_cong [OF r, of length] by simp
  then have "length rest = MAX_RETIRED_ORDERS"
    using False assms by simp
  then show ?thesis
    using that(2) [OF r] trim_retired_full [of rest j own] by (simp add: r del: trim_retired.simps)
qed

lemma release_live_count:
  assumes con: "consistent owed {} (i # P) s" and x: "bt_get (ownership s) i = Some x"
  shows "live_order_count (release_live i s) p = card (unretired s p - {i})"
    and "\<And>p n. bt_get (live_orders (release_live i s)) p = Some n \<Longrightarrow> 0 < n"
    and "bt_wf (live_orders (release_live i s))"
proof -
  let ?o = "oo_participant_id x"
  have counts: "live_order_count s p = card (unretired s p)" and pos: "bt_get (live_orders s) p = Some n \<Longrightarrow> 0 < n" for p n
    using consistentD(9) [OF con] by (auto simp: live_counts_def)
  have "i \<notin> set (retired s)"
    using consistentD(8) [OF con] by (auto simp: retirement_def)
  then have mem: "i \<in> unretired s ?o" and other: "p \<noteq> ?o \<Longrightarrow> i \<notin> unretired s p" for p
    using x by (auto simp: unretired_def)
  have "0 < card (unretired s ?o)"
    using mem by (auto simp: card_gt_0_iff)
  then obtain n where n: "bt_get (live_orders s) ?o = Some n" "n = card (unretired s ?o)"
    using counts [of ?o] by (auto simp: live_order_count_def split: option.splits)
  have "card (unretired s ?o - {i}) = n - 1"
    using mem n(2) by simp
  moreover have "card (unretired s p - {i}) = live_order_count s p" if "p \<noteq> ?o"
    using other [OF that] counts by simp
  ultimately show "live_order_count (release_live i s) p = card (unretired s p - {i})"
    using x n(1) by (auto simp: release_live_def live_order_count_def)
  show "0 < m" if "bt_get (live_orders (release_live i s)) p = Some m" for p m
    using that x n(1) pos by (auto simp: release_live_def split: if_splits)
  show "bt_wf (live_orders (release_live i s))"
    using x n(1) consistentD(3) [OF con] by (simp add: release_live_def)
qed

lemma release_live_sel [simp]:
  "ownership (release_live i s) = ownership s" "listings (release_live i s) = listings s"
  "retired (release_live i s) = retired s" "expiries (release_live i s) = expiries s"
  "run_constants (release_live i s) = run_constants s"
  by (auto simp: release_live_def split: option.split)

lemma retire_consistent:
  assumes con: "consistent settled_up {} (i # P) s"
  shows "consistent settled_up {} P (retire i s)" and "run_constants (retire i s) = run_constants s"
proof -
  have ret: "distinct (retired s @ i # P)" "set (retired s @ i # P) = terminal_ids s"
    using consistentD(8) [OF con] by (simp_all add: retirement_def)
  obtain x where x: "bt_get (ownership s) i = Some x"
    using ret(2) by (auto simp: terminal_ids_def)
  obtain R O' where trim: "trim_retired (retired s @ [i]) (ownership s) = (R, O')"
    by (cases "trim_retired (retired s @ [i]) (ownership s)")
  have s': "retire i s = (release_live i s)\<lparr>retired := R, ownership := O'\<rparr>"
    by (simp add: retire_def Let_def trim)
  show "run_constants (retire i s) = run_constants s"
    by (simp add: s')
  obtain D where D: "\<And>k. bt_get O' k = (if k \<in> D then None else bt_get (ownership s) k)" "bt_wf O'"
    and R: "distinct R" "set R = insert i (set (retired s)) - D" "D \<subseteq> insert i (set (retired s))"
    and len: "length R \<le> MAX_RETIRED_ORDERS" "length O' \<le> length R + MAX_LIVE_ORDERS"
  proof -
    have cap: "length (retired s) \<le> MAX_RETIRED_ORDERS" "length (ownership s) \<le> length (retired s) + MAX_LIVE_ORDERS"
      using consistentD(11) [OF con] by (simp_all add: order_caps_def)
    note wf = consistentD(1) [OF con]
    show ?thesis
    proof (rule retire_window [OF cap(1), of i "ownership s"], goal_cases)
      case 1
      then show ?case
        using that [of "{}"] trim wf ret(1) cap(2) by auto
    next
      case (2 j rest)
      have d: "distinct (j # rest)"
        using ret(1) unfolding 2(1) [symmetric] by auto
      have e: "insert j (set rest) = insert i (set (retired s))"
        using arg_cong [OF 2(1), of set] by auto
      have "j \<in> terminal_ids s"
        using e ret(2) by auto
      then have "bt_get (ownership s) j \<noteq> None"
        by (auto simp: terminal_ids_def)
      then have "length O' = length (ownership s) - 1"
        using 2(2) trim bt_length_remove [OF wf, of j] by auto
      moreover have "length rest = length (retired s)"
        using arg_cong [OF 2(1), of length] by simp
      moreover have "R = rest" "O' = bt_remove j (ownership s)"
        using trim 2(2) by simp_all
      moreover have "set rest = insert i (set (retired s)) - {j}" "{j} \<subseteq> insert i (set (retired s))"
        using d e by auto
      ultimately show ?case
        using that [of "{j}"] wf cap(2) 2(3) d by simp
    qed
  qed
  have gone: "k \<in> terminal_ids s" if "k \<in> D" for k
    using that R(3) ret(2) by auto
  then have ended: "oo_state y \<noteq> OrderActive" if "k \<in> D" "bt_get (ownership s) k = Some y" for k y
    using that by (force simp: terminal_ids_def)
  show "consistent settled_up {} P (retire i s)"
    unfolding consistent_def
  proof (intro conjI)
    show "run_wf (retire i s)"
      using consistentD(12) [OF con] release_live_count(3) [OF con x] D
      by (auto simp: s' run_wf_def owned_ok_def split: if_splits)
    have "owned_left (retire i s) k j = owned_left s k j" "book_left (retire i s) = book_left s" for k j
      using gone [of j] consistentD(6) [OF con, of j]
      by (auto simp: s' owned_left_def book_left_def D terminal_ids_def owned_ok_def fun_eq_iff)
    then show "in_step settled_up (retire i s)"
      using consistentD(13) [OF con] by (simp add: in_step_def)
    have "terminal_ids (retire i s) = terminal_ids s - D"
      by (auto simp: s' terminal_ids_def D split: if_splits)
    then show "retirement {} P (retire i s)"
      using ret R by (auto simp: retirement_def s')
    have "unretired (retire i s) p = unretired s p - {i}" for p
      using R by (auto simp: s' unretired_def D split: if_splits)
    then show "live_counts (retire i s)"
      using release_live_count(1,2) [OF con x] by (simp add: live_counts_def s' live_order_count_def)
    show "expiry_index {} (retire i s)"
      using consistentD(10) [OF con] ended by (auto simp: expiry_index_def s' D)
    show "order_caps (retire i s)"
      using len by (simp add: order_caps_def s')
  qed
qed

subsection \<open>Commit\<close>

lemma project_event_policy: "project_event s at p = Ok s' \<Longrightarrow> policy_version s' = policy_version s"
  by (cases p) (auto simp: project_event_def project_trade_def Let_def result_simps split: option.splits)

lemma commit_payload_inv:
  assumes "commit_payload at p s = Ok s'" and con: "consistent settled_up {} (List.map_filter terminal_order (p # ps)) s"
  shows "consistent settled_up {} (List.map_filter terminal_order ps) s' \<and> run_constants s' = run_constants s"
proof -
  obtain sim where sim: "project_event (simulation s) at p = Ok sim"
    and s': "s' = (case terminal_order p of None \<Rightarrow> s\<lparr>simulation := sim\<rparr> | Some i \<Rightarrow> retire i (s\<lparr>simulation := sim\<rparr>))"
    using assms(1) by (auto simp: commit_payload_def Let_def result_simps)
  have const: "run_constants (s\<lparr>simulation := sim\<rparr>) = run_constants s"
    using project_event_policy [OF sim] by simp
  have "consistent settled_up {} (List.map_filter terminal_order (p # ps)) (s\<lparr>simulation := sim\<rparr>)"
    using con by (subst consistent_cong [where s = s]) simp_all
  then show ?thesis
    using retire_consistent [of _ _ "s\<lparr>simulation := sim\<rparr>"] const
    by (cases "terminal_order p") (simp_all add: s' map_filter_simps)
qed

lemma commit_payloads_inv:
  "try_fold (commit_payload at) ps s = Ok s' \<Longrightarrow> consistent settled_up {} (List.map_filter terminal_order ps) s \<Longrightarrow>
    run_inv s' \<and> run_constants s' = run_constants s"
proof (induction ps arbitrary: s)
  case Nil
  then show ?case
    by (simp add: map_filter_simps)
next
  case (Cons p ps)
  then obtain s1 where "commit_payload at p s = Ok s1" "try_fold (commit_payload at) ps s1 = Ok s'"
    by (auto simp: attempt_Ok_iff)
  then show ?case
    using Cons.IH [of s1] commit_payload_inv [of at p s s1 ps] Cons.prems(2) by simp
qed

lemma finish_inv:
  assumes "finish cmd n acc code order t = Ok (ap, s')" and "transit_inv t"
  shows "run_inv s' \<and> run_constants s' = run_constants (run t)"
proof -
  obtain s m where s: "try_fold (commit_payload (c_logical_time cmd)) (payloads t) (run t) = Ok s"
    and s': "s' = s\<lparr>run_sequence := n, run_event_sequence := m\<rparr>"
    using assms(1) by (auto simp: finish_def Let_def result_simps)
  have "run_inv s \<and> run_constants s = run_constants (run t)"
    using commit_payloads_inv [OF s] assms(2) by (simp add: ended_orders_def)
  moreover have "run_inv s' \<longleftrightarrow> run_inv s"
    by (rule consistent_cong) (simp_all add: s')
  ultimately show ?thesis
    by (simp add: s')
qed

subsection \<open>Commands\<close>

definition payload_fits :: "command_payload \<Rightarrow> bool" where
  "payload_fits p = (case p of SubmitOrder order \<Rightarrow> order_fits order | SubmitOrderAtListing _ order \<Rightarrow> order_fits order | _ \<Rightarrow> True)"

lemma keeps_activate_kill_switch: "keeps (activate_kill_switch p)"
proof -
  have "keeps (\<lambda>t. Ok (push KillSwitchActivated (t\<lparr>run := (run t)\<lparr>kill_switched := bs_insert p (kill_switched (run t))\<rparr>\<rparr>)))"
    by (rule keeps_order_part) (auto simp: order_part_def)
  then have "keeps (\<lambda>t. attempt (Ok (push KillSwitchActivated
        (t\<lparr>run := (run t)\<lparr>kill_switched := bs_insert p (kill_switched (run t))\<rparr>\<rparr>))) (\<lambda>t.
      cancel_listed KillSwitch (map (\<lambda>(i, x). (i, oo_listing_key x))
        (filter (\<lambda>(_, x). oo_participant_id x = p \<and> oo_state x = OrderActive) (ownership (run t)))) t))"
    by (rule keeps_attempt) (rule keeps_diag, rule keeps_cancel_listed)
  then show ?thesis
    by (simp add: keeps_def activate_kill_switch_def Let_def)
qed

lemma report_inv:
  "transit_inv t \<Longrightarrow> report i r t = (res, t') \<Longrightarrow> transit_inv t' \<and> run_constants (run t') = run_constants (run t)"
  by (auto simp: report_def split: sum.splits)

lemma apply_submit_cases:
  assumes "apply_submit order key now t = Ok (res, t')"
  shows "\<exists>k r t2. key = Some k \<and> report (so_order_id order) r t2 = (res, t') \<and>
    (r = Err RunNotActive \<and> t2 = push (OrderReceived order (Some k)) t \<or>
      r = Err KillSwitchActive \<and> t2 = push (OrderReceived order (Some k)) t \<or>
      r = Err ListingHalted \<and> t2 = push (OrderReceived order (Some k)) t \<or>
      submit order k now (touch k (push (OrderReceived order (Some k)) t)) = Ok (r, t2) \<and>
      so_participant_id order \<notin> set (kill_switched (run t)) \<and> lifecycle (simulation (run t)) = Active)"
  using assms by (auto simp: apply_submit_def Let_def result_simps split: if_splits)

lemma apply_submit_inv:
  assumes run: "apply_submit order key now t = Ok (res, t')" and con: "transit_inv t" and fits: "order_fits order"
  shows "transit_inv t' \<and> run_constants (run t') = run_constants (run t)"
proof -
  obtain k r t2 where "r = Err RunNotActive \<and> t2 = push (OrderReceived order (Some k)) t \<or>
      r = Err KillSwitchActive \<and> t2 = push (OrderReceived order (Some k)) t \<or>
      r = Err ListingHalted \<and> t2 = push (OrderReceived order (Some k)) t \<or>
      submit order k now (touch k (push (OrderReceived order (Some k)) t)) = Ok (r, t2)"
    and rep: "report (so_order_id order) r t2 = (res, t')"
    using apply_submit_cases [OF run] by blast
  then have "transit_inv t2 \<and> run_constants (run t2) = run_constants (run t)"
    using con submit_inv [OF _ _ fits, of k now "touch k (push (OrderReceived order (Some k)) t)" r t2] by auto
  then show ?thesis
    using report_inv [OF _ rep] by simp
qed

lemma apply_cancel_inv:
  assumes run: "apply_cancel c t = Ok (res, t')" and con: "transit_inv t"
  shows "transit_inv t' \<and> run_constants (run t') = run_constants (run t)"
proof -
  obtain r t1 where "t1 = t \<or> (\<exists>k. cancel_order (cr_order_id c) Requested (touch k t) = Ok t1)"
    and rep: "report (cr_order_id c) r t1 = (res, t')"
    using run by (auto simp: apply_cancel_def Let_def result_simps split: option.splits if_splits)
  then have "transit_inv t1 \<and> run_constants (run t1) = run_constants (run t)"
    using con keepsD [OF keeps_cancel_touch] by blast
  then show ?thesis
    using report_inv [OF _ rep] by simp
qed

lemma apply_payload_inv:
  assumes run: "apply_payload cmd key t = Ok (res, t')" and con: "transit_inv t" and fits: "payload_fits (c_payload cmd)"
  shows "transit_inv t' \<and> run_constants (run t') = run_constants (run t)"
proof (cases "c_payload cmd")
  case (SubmitOrder order)
  then show ?thesis
    using run fits apply_submit_inv [OF _ con] by (simp add: apply_payload_def payload_fits_def)
next
  case (SubmitOrderAtListing k order)
  then show ?thesis
    using run fits apply_submit_inv [OF _ con] by (simp add: apply_payload_def payload_fits_def)
next
  case (CancelOrder c)
  then show ?thesis
    using run apply_cancel_inv [OF _ con] by (simp add: apply_payload_def)
next
  case ActivateKillSwitch
  then show ?thesis
    using run keepsD [OF keeps_activate_kill_switch _ con] by (auto simp: apply_payload_def attempt_Ok_iff)
next
  case ResetKillSwitch
  then have "order_part (run t') = order_part (run t)" "ended_orders t' = ended_orders t"
    "run_constants (run t') = run_constants (run t)"
    using run by (auto simp: apply_payload_def order_part_def)
  then show ?thesis
    using con consistent_cong [of "run t'" "run t"] by (simp add: order_part_def)
qed

lemma apply_validated_inv:
  assumes "apply_validated s cmd n key = Ok (ap, s')" and "run_inv s" and "payload_fits (c_payload cmd)"
  shows "run_inv s' \<and> run_constants s' = run_constants s"
proof -
  obtain t acc code order t1 where t: "catch_up (c_logical_time cmd) False (transit_of s) = Ok t"
    and t1: "apply_payload cmd key t = Ok ((acc, code, order), t1)" and s': "finish cmd n acc code order t1 = Ok (ap, s')"
    using assms(1) by (auto simp: apply_validated_def result_simps)
  have "transit_inv (transit_of s)"
    using assms(2) by (simp add: transit_of_def) (simp add: ended_orders_def map_filter_def)
  then have "transit_inv t \<and> run_constants (run t) = run_constants s"
    using keepsD [OF keeps_catch_up t] by (simp add: transit_of_def)
  then show ?thesis
    using apply_payload_inv [OF t1 _ assms(3)] finish_inv [OF s'] by simp
qed

lemma run_apply_inv:
  assumes "run_apply s cmd = Ok (ap, s')" and "run_inv s" and "payload_fits (c_payload cmd)"
  shows "run_inv s' \<and> run_constants s' = run_constants s"
  using assms(1) apply_validated_inv [OF _ assms(2,3)] by (auto simp: run_apply_def result_simps split: if_splits)

lemma keeps_mass_cancel: "keeps (mass_cancel p i)"
  unfolding mass_cancel_def Let_def
  by (intro keeps_diag [where g = "\<lambda>u t. attempt (cancel_listed MassCancelled (map (\<lambda>x. (oo_order_id x, oo_listing_key x))
        (filter (\<lambda>x. oo_state x = OrderActive \<and> (p = None \<or> p = Some (oo_participant_id x)) \<and>
          (i = None \<or> i = Some (lk_instrument (oo_listing_key x)))) (map snd (ownership (run u))))) t) (\<lambda>t1.
        Ok (push (Simulation (MassCancelCompleted (map fst (map (\<lambda>x. (oo_order_id x, oo_listing_key x))
        (filter (\<lambda>x. oo_state x = OrderActive \<and> (p = None \<or> p = Some (oo_participant_id x)) \<and>
          (i = None \<or> i = Some (lk_instrument (oo_listing_key x)))) (map snd (ownership (run u)))))))) t1))"]
      keeps_attempt keeps_cancel_listed keeps_push) simp

lemma keeps_apply_simulation_payload: "keeps (apply_simulation_payload req)"
proof (cases "is_mass_cancel (c_payload req)")
  case True
  then obtain p i where "c_payload req = MassCancel p i"
    by (cases "c_payload req") auto
  then show ?thesis
    using keeps_mass_cancel by (simp add: keeps_def apply_simulation_payload_def)
next
  case False
  then have eq: "apply_simulation_payload req t =
      attempt (with_simulation_state t (simulation_apply (simulation (run t)) (context_of (run t))
        (c_actor req) (c_logical_time req) (c_payload req))) (\<lambda>t1. expire_due (clock_now (clock (simulation (run t1)))) t1)" for t
    by (cases "c_payload req") (simp_all add: apply_simulation_payload_def)
  show ?thesis
    unfolding eq [abs_def]
    by (intro keeps_attempt keeps_simulation_apply keeps_diag
        [where g = "\<lambda>u t. expire_due (clock_now (clock (simulation (run u)))) t"] keeps_expire_due)
qed

lemma run_apply_simulation_inv:
  assumes "run_apply_simulation s req = Ok (ap, s')" and "run_inv s"
  shows "run_inv s' \<and> run_constants s' = run_constants s"
proof -
  obtain n where "apply_simulation_validated s req n = Ok (ap, s')"
    using assms(1) by (auto simp: run_apply_simulation_def Let_def result_simps split: if_splits)
  note run = this
  define tick where "tick \<longleftrightarrow> c_payload req = ClockTick"
  define t0 where "t0 = (if tick \<and> c_logical_time req > clock_now (clock (simulation s))
    then push (Simulation (ClockAdvanced (clock_now (clock (simulation s))) (c_logical_time req))) (transit_of s)
    else transit_of s)"
  have t0: "run t0 = s" "ended_orders t0 = []"
    by (simp_all add: t0_def) (simp_all add: transit_of_def)
  obtain t1 t2 where t1: "catch_up (c_logical_time req) tick t0 = Ok t1"
    and t2: "apply_simulation_payload req t1 = Ok t2" and s': "finish req n True None None t2 = Ok (ap, s')"
    using run unfolding apply_simulation_validated_def Let_def tick_def [symmetric] t0_def [symmetric] attempt_Ok_iff by blast
  have "transit_inv t0"
    using assms(2) t0 by simp
  then have "transit_inv t2 \<and> run_constants (run t2) = run_constants s"
    using keepsD [OF keeps_catch_up t1] keepsD [OF keeps_apply_simulation_payload t2] t0(1) by simp
  then show ?thesis
    using finish_inv [OF s'] by simp
qed

end
