(* ===== verification/Engine_Validity.thy ===== *)
theory Engine_Validity
  imports Engine_Lifecycle
begin

text \<open>
  Every run that commands reach from a scenario passes the checks that
  \<open>RunState::validate\<close> makes when a snapshot is loaded, so a snapshot taken between
  commands can always be restored.
\<close>

subsection \<open>Consistent runs validate\<close>

definition constants_ok :: "run_state \<Rightarrow> bool" where
  "constants_ok s \<longleftrightarrow>
     engine_version (config s) = ENGINE_VERSION \<and> 0 < max_listings (config s) \<and> max_listings (config s) \<le> MAX_LISTINGS \<and>
     listings s \<noteq> [] \<and> length (listings s) \<le> max_listings (config s) \<and> length (participants s) \<le> MAX_PARTICIPANTS \<and>
     policy_version (simulation s) = SIMULATION_POLICY_VERSION \<and>
     terms_map (run_ledger s) = map (\<lambda>(i, d). (i, definition_terms d)) (instruments s) \<and> bt_wf (instruments s)"

lemma constants_ok_cong: "run_constants s' = run_constants s \<Longrightarrow> constants_ok s' \<longleftrightarrow> constants_ok s"
  by (auto simp: constants_ok_def run_constants_def dest: map_eq_imp_length_eq)

lemma terminal_retired: "run_inv s \<Longrightarrow> terminal_ids s = set (retired s)"
  using consistentD(8) by (fastforce simp: retirement_def)

lemma active_terminal: "active_ids s \<union> terminal_ids s = dom (bt_get (ownership s))" "active_ids s \<inter> terminal_ids s = {}"
  by (auto simp: active_ids_def terminal_ids_def)

lemma live_retired_length:
  assumes "run_inv s"
  shows "card (active_ids s) + length (retired s) = length (ownership s)"
proof -
  have "distinct (retired s)"
    using consistentD(8) [OF assms] by (simp add: retirement_def)
  then have "card (active_ids s) + length (retired s) = card (active_ids s \<union> terminal_ids s)"
    using active_terminal(2) [of s] terminal_retired [OF assms]
    by (simp add: card_Un_disjoint distinct_card)
  then show ?thesis
    by (simp add: active_terminal(1) bt_length [OF consistentD(1) [OF assms]])
qed

lemma live_filter_length:
  "run_inv s \<Longrightarrow> length (filter (\<lambda>(_, x). oo_state x = OrderActive) (ownership s)) = card (active_ids s)"
  using bt_filter_count [OF consistentD(1), of settled_up "{}" "[]" s "\<lambda>_ x. oo_state x = OrderActive"]
  by (simp add: active_ids_def)

text \<open>An order is live exactly when its listing's book holds it.\<close>

lemma book_contains_iff:
  assumes inv: "run_inv s" and ls: "bt_get (listings s) k = Some ls"
  shows "book_contains (ls_book ls) i \<longleftrightarrow>
    (\<exists>x. bt_get (ownership s) i = Some x \<and> oo_listing_key x = k \<and> oo_state x = OrderActive)"
proof -
  have "book_contains (ls_book ls) i \<longleftrightarrow> 0 < owned_left s k i"
    using consistentD(7) [OF inv, of k i] ls order_left_pos_iff [OF consistentD(5) [OF inv ls], of i]
    by (simp add: book_left_def settled_up_def)
  also have "\<dots> \<longleftrightarrow> (\<exists>x. bt_get (ownership s) i = Some x \<and> oo_listing_key x = k \<and> oo_state x = OrderActive)"
    using consistentD(6) [OF inv, of i] by (auto simp: owned_left_def owned_ok_def split: option.splits)
  finally show ?thesis .
qed

lemma resting_count:
  assumes inv: "run_inv s"
  shows "(\<Sum>(_, ls) \<leftarrow> listings s. book_len (ls_book ls)) = card (active_ids s)"
proof -
  let ?at = "\<lambda>k. {i. \<exists>x. bt_get (ownership s) i = Some x \<and> oo_listing_key x = k \<and> oo_state x = OrderActive}"
  let ?D = "dom (bt_get (listings s))"
  have fin: "finite (?at k)" for k
    by (rule finite_subset [OF _ finite_active_ids [of s]]) (auto simp: active_ids_def)
  have len: "book_len (ls_book ls) = card (?at k)" if "bt_get (listings s) k = Some ls" for k ls
  proof -
    have "dom (bt_get (orders (ls_book ls))) = ?at k"
      using book_contains_iff [OF inv that] by (auto simp: book_contains_def)
    then show ?thesis
      using bt_length [OF book_invD(2) [OF consistentD(5) [OF inv that]]] by (simp add: book_len_def)
  qed
  have "(\<Sum>(_, ls) \<leftarrow> listings s. book_len (ls_book ls)) = (\<Sum>k \<in> ?D. book_len (ls_book (the (bt_get (listings s) k))))"
    using bt.sum_entries [OF consistentD(2) [OF inv], of "\<lambda>_ ls. book_len (ls_book ls)"] by simp
  also have "\<dots> = (\<Sum>k \<in> ?D. card (?at k))"
    by (rule sum.cong) (auto simp: len)
  also have "\<dots> = card (\<Union>k \<in> ?D. ?at k)"
    by (rule card_UN_disjoint [symmetric]) (use fin bt.finite_dom_get [OF consistentD(2) [OF inv]] in auto)
  also have "(\<Union>k \<in> ?D. ?at k) = active_ids s"
    using consistentD(6) [OF inv] by (force simp: active_ids_def owned_ok_def)
  finally show ?thesis .
qed

subsection \<open>Live counts\<close>

definition live_of :: "(order_id \<times> owned_order) list \<Rightarrow> participant_id \<Rightarrow> nat" where
  "live_of own p = length (filter (\<lambda>(_, x). oo_state x = OrderActive \<and> oo_participant_id x = p) own)"

lemma live_of_simps [simp]:
  "live_of [] p = 0"
  "live_of ((i, x) # own) p = (if oo_state x = OrderActive \<and> oo_participant_id x = p then 1 else 0) + live_of own p"
  by (simp_all add: live_of_def)

definition counted :: "(participant_id, nat) btree_map \<Rightarrow> (participant_id \<Rightarrow> nat) \<Rightarrow> bool" where
  "counted m f \<longleftrightarrow> bt_wf m \<and> (\<forall>p. bt_get m p = (if f p = 0 then None else Some (f p)))"

lemma count_live_fold:
  assumes "counted m f" and "\<And>p. f p + live_of own p < 2 ^ 32"
  shows "\<exists>m'. try_fold (\<lambda>(_, x) m.
      if oo_state x = OrderActive
      then attempt (ok_or UnsupportedVersion
             (checked_u32 ((case bt_get m (oo_participant_id x) of None \<Rightarrow> 0 | Some n \<Rightarrow> n) + 1))) (\<lambda>n.
           Ok (bt_insert (oo_participant_id x) n m))
      else Ok m) own m = Ok m' \<and> counted m' (\<lambda>p. f p + live_of own p)"
  using assms
proof (induction own arbitrary: m f)
  case Nil
  then show ?case
    by simp
next
  case (Cons e own)
  obtain i x where e: "e = (i, x)"
    by (cases e)
  show ?case
  proof (cases "oo_state x = OrderActive")
    case True
    let ?p = "oo_participant_id x"
    let ?f = "f(?p := f ?p + 1)"
    have old: "(case bt_get m ?p of None \<Rightarrow> 0 | Some n \<Rightarrow> n) = f ?p"
      using Cons.prems(1) by (simp add: counted_def)
    have "f ?p + 1 < 2 ^ 32"
      using Cons.prems(2) [of ?p] e True by simp
    moreover have "counted (bt_insert ?p (f ?p + 1) m) ?f"
      using Cons.prems(1) by (simp add: counted_def)
    moreover have sum: "?f p + live_of own p = f p + live_of (e # own) p" for p
      using e True by simp
    then have "?f p + live_of own p < 2 ^ 32" for p
      using Cons.prems(2) by (simp only:)
    ultimately show ?thesis
      using Cons.IH [of "bt_insert ?p (f ?p + 1) m" ?f] old
      unfolding sum by (simp add: e True checked_u32_def del: live_of_simps fun_upd_apply)
  next
    case False
    then show ?thesis
      using Cons.IH [OF Cons.prems(1)] Cons.prems(2) e by simp
  qed
qed

lemma count_live_orders:
  assumes inv: "run_inv s"
  shows "count_live s = Ok (live_orders s)"
proof -
  have set: "{i. \<exists>x. bt_get (ownership s) i = Some x \<and> oo_state x = OrderActive \<and> oo_participant_id x = p} = unretired s p" for p
    by (auto simp: unretired_def terminal_retired [OF inv, symmetric] terminal_ids_def)
  have live: "live_of (ownership s) p = card (unretired s p)" for p
    using bt_filter_count [OF consistentD(1) [OF inv], of "\<lambda>_ x. oo_state x = OrderActive \<and> oo_participant_id x = p"]
    by (simp add: live_of_def set)
  have part: "card (unretired s p) \<le> card (active_ids s)" for p
    by (rule card_mono [OF finite_active_ids]) (auto simp: set [symmetric] active_ids_def)
  have "card (active_ids s) \<le> MAX_LIVE_ORDERS"
    using live_retired_length [OF inv] consistentD(11) [OF inv] by (simp add: order_caps_def)
  then have "0 + live_of (ownership s) p < 2 ^ 32" for p
    using part [of p] by (simp add: live MAX_LIVE_ORDERS_def)
  then have "\<exists>m. count_live s = Ok m \<and> counted m (\<lambda>p. 0 + live_of (ownership s) p)"
    unfolding count_live_def by (intro count_live_fold) (simp_all add: counted_def)
  then obtain m where m: "count_live s = Ok m" "counted m (\<lambda>p. 0 + live_of (ownership s) p)"
    by blast
  have "bt_get (live_orders s) p = (if live_of (ownership s) p = 0 then None else Some (live_of (ownership s) p))" for p
  proof (cases "bt_get (live_orders s) p")
    case None
    then show ?thesis
      using consistentD(9) [OF inv, unfolded live_counts_def, THEN conjunct1, THEN spec, of p]
      by (simp add: live_order_count_def live)
  next
    case (Some n)
    then show ?thesis
      using consistentD(9) [OF inv, unfolded live_counts_def, THEN conjunct1, THEN spec, of p]
        consistentD(9) [OF inv, unfolded live_counts_def, THEN conjunct2, THEN spec, THEN spec, of p n]
      by (auto simp: live_order_count_def live)
  qed
  then have "bt_get m p = bt_get (live_orders s) p" for p
    using m(2) by (simp add: counted_def)
  then have "m = live_orders s"
    using m(2) consistentD(3) [OF inv] by (intro bt_ext) (simp_all add: counted_def)
  then show ?thesis
    using m(1) by simp
qed

lemma run_inv_validates:
  assumes inv: "run_inv s" and const: "constants_ok s"
  shows "run_validate s = Ok ()"
proof -
  have "list_all (owner_consistent s) (ownership s)"
    unfolding list_all_iff
  proof
    fix e
    assume "e \<in> set (ownership s)"
    then have x: "bt_get (ownership s) (fst e) = Some (snd e)"
      using bt_get_mem [OF consistentD(1) [OF inv]] by simp
    then obtain ls where "bt_get (listings s) (oo_listing_key (snd e)) = Some ls"
      using consistentD(6) [OF inv x] by (auto simp: owned_ok_def)
    then show "owner_consistent s e"
      using x consistentD(6) [OF inv x] book_contains_iff [OF inv, of _ ls "fst e"]
      by (simp add: owner_consistent_def owned_ok_def)
  qed
  moreover have "list_all (expiry_consistent s) (expiries s)"
    using consistentD(10) [OF inv] by (auto simp: list_all_iff expiry_consistent_def expiry_index_def split: option.splits)
  moreover have "list_all (\<lambda>(i, d). ledger_terms (run_ledger s) i = Ok (definition_terms d)) (instruments s)"
  proof -
    have wf: "bt_wf (instruments s)" "bt_wf (terms_map (run_ledger s))"
      using const by (simp_all add: constants_ok_def bt_wf_def o_def case_prod_unfold)
    then have "bt_get (terms_map (run_ledger s)) i = Some (definition_terms d)" if "(i, d) \<in> set (instruments s)" for i d
      using const that by (force simp: constants_ok_def bt_get_mem)
    then show ?thesis
      by (auto simp: list_all_iff ledger_terms_def)
  qed
  moreover have "card (active_ids s) \<le> MAX_LIVE_ORDERS" "length (retired s) \<le> MAX_RETIRED_ORDERS"
    using live_retired_length [OF inv] consistentD(11) [OF inv] by (simp_all add: order_caps_def)
  ultimately show ?thesis
    using const live_retired_length [OF inv]
    by (simp add: run_validate_def Let_def count_live_orders [OF inv] live_filter_length [OF inv] resting_count [OF inv]
        constants_ok_def)
qed

end
