(* ===== verification/Engine_Demo.thy ===== *)
theory Engine_Demo
  imports Engine_Snapshot
begin

text \<open>
  A worked run: two participants trade one instrument on one listing. Its states are the
  concrete inputs at which the theorems about runs are applied. The bundles below unfold
  one layer of the program each, so that \<open>simp\<close> evaluates whole commands.
\<close>

subsection \<open>Evaluation\<close>

lemmas checked_eval =
  overflow_def i128_checked_add_def i128_checked_sub_def i128_checked_mul_def i64_checked_add_def i64_checked_sub_def
  u64_checked_add_def checked_i128_def checked_i64_def checked_u64_def checked_u32_def in_i128_def in_i64_def
  tmod_def tdiv_def validate_price_def

lemmas ledger_eval =
  accounting_def configure_instrument_def set_mark_def post_cash_def ledger_terms_def ledger_cash_def ledger_mark_def
  ledger_position_def default_cash_def default_position_def open_order_def close_order_def change_open_def
  change_open_buy_def change_open_sell_def per_lot_total_def cash_available_def position_available_def
  reservation_none_def bt_insert_def bt_remove_def

lemmas scenario_eval =
  scenario_validate_def MAX_LISTINGS_def MAX_INSTRUMENTS_def MAX_PARTICIPANTS_def validate_instrument_def
  instrument_definition_validate_def currency_supported_def validate_rate_def validate_listings_def
  validate_listing_def validate_primary_def validate_participant_def default_simulation_scenario_def
  simulation_scenario_validate_def referenced_instruments_def instrument_definition_new_def default_clock_def
  MAX_SCHEDULED_ACTIONS_def MAX_NEWS_ITEMS_def

lemmas book_eval =
  would_cross_def best_def executable_def execute_def execute_loop.simps execute_one_def level_head_def
  within_limit_def best_first_def refresh_slice_def rest_def cancel_def take_priority_def book_insert_def
  book_remove_def book_contains_def book_side_def set_book_side_def default_level_def book_new_def bt_last_def
  bt_first_def

lemmas submit_eval =
  submit_def submit_identity_def usize_sub_def MAX_LIVE_ORDERS_def submit_check_def expiry_of_def run_session_phase_def
  admit_def admit_price_def worst_case_position_def admit_reservation_def admit_live_order_count_def
  live_order_count_def submit_accept_def submit_match_def settle_matches_def set_book_def submit_remainder_def
  submit_rest_def submit_drop_def

lemmas fill_eval =
  settle_fill_def order_party_def funded_def settle_def settle_party_def settle_balances_def release_filled_def
  apply_fill_def negate_def notional_def write_staged_def reduce_filled_def reduce_order_def drop_expiry_def
  post_trade_def per_lot_fee_def project_trade_def record_trade_def retire_def release_live_def validate_trade_def
  check_view_def view_of_def default_projection_def push_bounded_def current_bar_def bucket_of_def
  MAX_RETIRED_ORDERS_def MAX_TRADE_HISTORY_def

lemmas catch_up_eval =
  catch_up_def with_simulation_state_def simulation_catch_up_def transit_of_def context_of_def boundary_fuel_def
  next_boundary_def expire_due.simps has_due_actions_def

lemmas command_eval =
  run_apply_def preflight_def resolve_listing_def listing_key_for_instrument_def apply_validated_def
  apply_payload_def apply_submit_def apply_cancel_def cancel_order_def report_def finish_def commit_payload_def
  project_event_def envelope_events_def envelope_event_def bs_insert_def bs_remove_def push_def touch_def Let_def

subsection \<open>The scenario and its run\<close>

definition demo_limits :: risk_limits where
  "demo_limits = \<lparr>max_order_quantity = 100, max_open_order_quantity = 100, max_absolute_position = 100,
     cash_constrained = False, max_live_orders = 10\<rparr>"

definition demo_listing :: listing_definition where
  "demo_listing = \<lparr>ld_key = (3, 10), ld_symbol = ''ABC'', ld_price_bounds = \<lparr>bounds_min = 1, bounds_max = 1000\<rparr>,
     ld_fees = default_fee_schedule, broker_ids = False, primary = False, ld_tick_size = 1\<rparr>"

definition demo_participant :: "participant_id \<Rightarrow> participant_definition" where
  "demo_participant p = \<lparr>pd_participant_id = p, pd_enabled = True, pd_limits = demo_limits,
     initial_cash = [(1, 5000)], initial_positions = []\<rparr>"

definition demo_instrument :: instrument_definition where
  "demo_instrument = (instrument_definition_new 10 ''ABC'' 1 Equity)\<lparr>id_shortable := True, opening_mark := Some 50\<rparr>"

definition demo_scenario :: scenario_definition where
  "demo_scenario = \<lparr>schema_version = SCENARIO_SCHEMA_VERSION, scenario_id = 1, scenario_version = 1,
     reporting_currency = 1, fx_rates = [], sd_instruments = [(10, demo_instrument)], sd_listings = [((3, 10), demo_listing)],
     sd_participants = [(7, demo_participant 7), (8, demo_participant 8)], sd_simulation = default_simulation_scenario,
     sd_calendar = None\<rparr>"

definition demo_ledger :: ledger where
  "demo_ledger = \<lparr>terms_map = [(10, definition_terms demo_instrument)],
     cash_map = [((7, 1), \<lparr>balance = 5000, cash_reserved = 0, fees = 0\<rparr>),
                 ((8, 1), \<lparr>balance = 5000, cash_reserved = 0, fees = 0\<rparr>)],
     positions_map = [], marks_map = [(10, 50)]\<rparr>"

definition demo_simulation :: simulation_state where
  "demo_simulation = default_simulation_state\<lparr>lifecycle := Active, clock := default_clock\<rparr>"

definition demo_run :: run_state where
  "demo_run = \<lparr>rs_run_id = 1, run_sequence = 0, run_event_sequence = 0, iteration_id = 1,
     rs_scenario_id = 1, rs_scenario_version = 1, scenario_hash = [],
     config = default_engine_config, rs_reporting_currency = 1,
     rs_fx_rates = [], instruments = [(10, demo_instrument)],
     listings = [((3, 10), \<lparr>ls_definition = demo_listing, ls_book = book_new\<rparr>)],
     participants = [(7, demo_participant 7), (8, demo_participant 8)], run_ledger = demo_ledger,
     ownership = [], retired = [], expiries = [], live_orders = [], kill_switched = [],
     simulation = demo_simulation, rs_calendar = None, session_steps = [], day_trades = [], closes = []\<rparr>"

lemmas demo_defs =
  demo_run_def demo_ledger_def demo_simulation_def demo_instrument_def demo_listing_def demo_participant_def
  demo_limits_def default_simulation_state_def default_clock_def definition_terms_def instrument_definition_new_def
  fee_schedule_bound_def default_fee_schedule_def

lemma demo_valid: "scenario_validate demo_scenario = Ok ()"
  by (simp add: demo_scenario_def demo_instrument_def demo_listing_def demo_participant_def scenario_eval checked_eval)

lemma demo_ledger_started:
  "attempt (try_fold configure_one (sd_instruments demo_scenario) ledger_new)
     (try_fold (\<lambda>(_, d). fund_participant demo_scenario d) (sd_participants demo_scenario)) = Ok demo_ledger"
  by (simp add: configure_one_def fund_participant_def ledger_eval checked_eval demo_scenario_def demo_instrument_def
      demo_participant_def demo_ledger_def instrument_definition_new_def definition_terms_def ledger_new_def)

lemma demo_simulation_started: "simulation_from_scenario (sd_simulation demo_scenario) = Ok demo_simulation"
  by (simp add: simulation_from_scenario_def demo_scenario_def scenario_eval demo_simulation_def default_simulation_state_def)

lemma demo_started: "run_from_scenario (\<lambda>_. Some []) (\<lambda>_. []) 1 1 demo_scenario = Ok demo_run"
proof -
  obtain l1 where "try_fold configure_one (sd_instruments demo_scenario) ledger_new = Ok l1"
    and "try_fold (\<lambda>(_, d). fund_participant demo_scenario d) (sd_participants demo_scenario) l1 = Ok demo_ledger"
    using demo_ledger_started by (auto simp: attempt_Ok_iff)
  then show ?thesis
    by (simp add: run_from_scenario_def demo_valid demo_simulation_started content_hash_def hash_serializable_def)
      (simp add: demo_run_def demo_scenario_def initial_steps_def)
qed

subsection \<open>Commands\<close>

definition demo_order :: "order_id \<Rightarrow> participant_id \<Rightarrow> side \<Rightarrow> quantity_lots \<Rightarrow> order_kind \<Rightarrow> submit_order" where
  "demo_order i p sd q kind = \<lparr>so_order_id = i, so_instrument_id = 10, so_participant_id = p, so_side = sd,
     so_quantity = q, so_kind = kind, so_anonymous = False\<rparr>"

definition demo_command :: "nat \<Rightarrow> logical_time_ns \<Rightarrow> participant_id \<Rightarrow> 'p \<Rightarrow> 'p envelope" where
  "demo_command n at actor pl = \<lparr>c_run_id = 1, c_command_id = n + 1, c_correlation_id = n + 1, c_logical_time = at,
     c_expected_sequence = n, c_actor = actor, c_payload = pl\<rparr>"

text \<open>Participant 7 bids 3 lots at 40 until time 90.\<close>

definition demo_bid :: command where
  "demo_bid = demo_command 0 20 7 (SubmitOrder (demo_order 5 7 Buy 3 (LimitWithPolicy 40 (Gtd 90) False None)))"

definition demo_rested :: run_state where
  "demo_rested = demo_run
     \<lparr>run_sequence := 1, run_event_sequence := 3,
      listings := [((3, 10), \<lparr>ls_definition = demo_listing, ls_book =
        \<lparr>bids = [(40, \<lparr>queue = [(0, 5)], level_visible = 3, level_total = 3\<rparr>)], asks = [],
         orders = [(5, \<lparr>bo_order_id = 5, bo_side = Buy, bo_price = 40, remaining = 3, visible = 3, display = None,
           priority = 0\<rparr>)], next_priority = 1\<rparr>\<rparr>)],
      run_ledger := demo_ledger\<lparr>positions_map := [((7, 10), default_position\<lparr>open_buy := 3\<rparr>)]\<rparr>,
      ownership := [(5, \<lparr>oo_order_id = 5, oo_participant_id = 7, oo_listing_key = (3, 10), oo_side = Buy,
        oo_limit_price = 40, original_quantity = 3, remaining_quantity = 3, oo_state = OrderActive,
        oo_reservation = reservation_none, oo_expires_at = Some 90, oo_day = False, oo_anonymous = False\<rparr>)],
      expiries := [(90, 5)], live_orders := [(7, 1)],
      simulation := demo_simulation\<lparr>clock := default_clock\<lparr>clock_now := 20\<rparr>\<rparr>\<rparr>"

lemma demo_bid_rests:
  "\<exists>ap. run_apply demo_run demo_bid = Ok (ap, demo_rested) \<and> accepted ap \<and> changed_listings ap = [(3, 10)] \<and>
     map ev_sequence (events ap) = [1, 2, 3]"
  by (simp add: command_eval catch_up_eval submit_eval ledger_eval checked_eval book_eval demo_bid_def demo_command_def
      demo_order_def demo_rested_def demo_defs)

text \<open>Participant 8 sells 2 lots into it.\<close>

definition demo_ask :: command where
  "demo_ask = demo_command 1 30 8 (SubmitOrder (demo_order 6 8 Sell 2 (Limit 40)))"

lemma demo_ask_trades:
  "\<exists>ap s'. run_apply demo_rested demo_ask = Ok (ap, s') \<and> accepted ap \<and> length (events ap) = 5 \<and>
     balance (ledger_cash (run_ledger s') 7 1) = 4920 \<and> balance (ledger_cash (run_ledger s') 8 1) = 5080"
  by (simp add: command_eval catch_up_eval submit_eval ledger_eval checked_eval book_eval fill_eval demo_ask_def
      demo_command_def demo_order_def demo_rested_def demo_defs)

end
