(* ===== verification/Engine_Runs.thy ===== *)
theory Engine_Runs
  imports Engine_Validity Engine_Demo
begin

text \<open>
  Runs from their scenario on: a run that \<open>RunState::from_scenario\<close> builds is consistent,
  every command keeps it so, and therefore every reachable run passes the checks of
  \<open>RunState::validate\<close> and its snapshot can be restored.
\<close>

subsection \<open>Starting consistent\<close>

text \<open>Appending above all keys of a map is inserting.\<close>

lemma bt_insert_above:
  assumes "\<forall>e \<in> set m. fst e < k"
  shows "bt_insert k v m = m @ [(k, v)]"
proof -
  have all: "takeWhile (\<lambda>e. fst e < k) m = m" and none: "dropWhile (\<lambda>e. fst e < k) m = []"
    using assms by (simp_all add: takeWhile_eq_all_conv)
  show ?thesis
    by (simp add: bt_insert_def all none)
qed

lemma accounting_Ok_iff [result_simps]: "accounting r = Inr x \<longleftrightarrow> r = Inr x"
  by (simp add: accounting_def result_simps)

lemma seed_position_terms: "seed_position l p i q b = Ok l' \<Longrightarrow> terms_map l' = terms_map l"
  by (auto simp: seed_position_def result_simps split: if_splits)

lemma configure_terms:
  "configure_one e l = Ok l' \<Longrightarrow> terms_map l' = bt_insert (fst e) (definition_terms (snd e)) (terms_map l)"
  by (auto simp: configure_one_def configure_instrument_def result_simps split: if_splits option.splits
      dest!: set_mark_terms)

lemma configured_terms:
  assumes "try_fold configure_one es l = Ok l'" and "bt_wf (terms_map l)" and "bt_wf es"
    and "\<forall>e \<in> set (terms_map l). \<forall>d \<in> set es. fst e < fst d"
  shows "terms_map l' = terms_map l @ map (\<lambda>(i, d). (i, definition_terms d)) es"
  using assms
proof (induction es arbitrary: l)
  case Nil
  then show ?case
    by simp
next
  case (Cons e es)
  from Cons.prems(1) obtain l1 where l1: "configure_one e l = Ok l1" and rest: "try_fold configure_one es l1 = Ok l'"
    by (auto simp: result_simps)
  have t1: "terms_map l1 = terms_map l @ [(fst e, definition_terms (snd e))]"
    using configure_terms [OF l1] Cons.prems(2,4) by (simp add: bt_insert_above)
  have "bt_wf (terms_map l1)"
    using configure_terms [OF l1] Cons.prems(2) by simp
  then have "terms_map l' = terms_map l1 @ map (\<lambda>(i, d). (i, definition_terms d)) es"
    using Cons.IH [OF rest] Cons.prems(3,4) by (simp add: t1 bt_wf_Cons)
  then show ?case
    by (simp add: t1 case_prod_unfold)
qed

lemma fund_participant_terms: "fund_participant sc d l = Ok l' \<Longrightarrow> terms_map l' = terms_map l"
proof -
  assume "fund_participant sc d l = Ok l'"
  then obtain l1 where cash: "try_fold (\<lambda>(c, amount) l. accounting (post_cash l (pd_participant_id d) c amount)) (initial_cash d) l = Ok l1"
    and seed: "try_fold (seed_one sc (pd_participant_id d)) (initial_positions d) l1 = Ok l'"
    by (auto simp: fund_participant_def result_simps)
  have "terms_map l1 = terms_map l"
    using cash by (rule try_fold_inv [where P = "\<lambda>u. terms_map u = terms_map l"])
      (auto simp: result_simps dest!: post_cash_terms)
  moreover have "terms_map l' = terms_map l1"
    using seed by (rule try_fold_inv [where P = "\<lambda>u. terms_map u = terms_map l1"])
      (auto simp: seed_one_def result_simps dest!: seed_position_terms)
  ultimately show ?thesis
    by simp
qed

lemma load_actions_policy: "load_actions as ids s = Ok s' \<Longrightarrow> policy_version s' = policy_version s"
  by (induction as ids s rule: load_actions.induct) (auto split: if_splits)

lemma started_sim_policy: "simulation_from_scenario sc = Ok s \<Longrightarrow> policy_version s = SIMULATION_POLICY_VERSION"
  by (auto simp: simulation_from_scenario_def result_simps default_simulation_state_def dest!: load_actions_policy)

text \<open>What the types of a scenario's fields guarantee: maps in key order, values in their width.\<close>

definition scenario_typed :: "scenario_definition \<Rightarrow> bool" where
  "scenario_typed sc \<longleftrightarrow>
     bt_wf (sd_instruments sc) \<and> bt_wf (sd_listings sc) \<and> bt_wf (sd_participants sc) \<and>
     list_all (\<lambda>(_, d). in_i64 (id_multiplier d) \<and> pred_option in_i64 (opening_mark d)) (sd_instruments sc) \<and>
     list_all (\<lambda>(_, d). list_all (\<lambda>(_, q). in_i64 q) (initial_positions d)) (sd_participants sc)"

lemma empty_run_inv:
  assumes "ownership s = []" "retired s = []" "expiries s = []" "live_orders s = []"
    and "bt_wf (listings s)" and "\<And>k ls. bt_get (listings s) k = Some ls \<Longrightarrow> ls_book ls = book_new"
  shows "run_inv s"
proof -
  have "order_left book_new i = 0" for i
    by (simp add: order_left_def book_new_def)
  then have "book_left s k i = 0" for k i
    using assms(6) by (auto simp: book_left_def split: option.split)
  then show ?thesis
    using assms book_inv_new
    by (auto simp: consistent_def run_wf_def in_step_def owned_left_def settled_up_def retirement_def
        terminal_ids_def live_counts_def live_order_count_def unretired_def expiry_index_def order_caps_def bs_wf_def)
qed

lemma run_from_scenario_inv:
  assumes run: "run_from_scenario to_vec sha256 rid iteration sc = Ok s" and maps: "scenario_typed sc"
  shows "run_inv s" and "constants_ok s"
proof -
  obtain u l1 l2 sim h where valid: "scenario_validate sc = Ok u"
    and l1: "try_fold configure_one (sd_instruments sc) ledger_new = Ok l1"
    and l2: "try_fold (\<lambda>(_, d). fund_participant sc d) (sd_participants sc) l1 = Ok l2"
    and sim: "simulation_from_scenario (sd_simulation sc) = Ok sim"
    and s: "s = \<lparr>rs_run_id = rid, run_sequence = 0, run_event_sequence = 0, iteration_id = iteration,
           rs_scenario_id = scenario_id sc, rs_scenario_version = scenario_version sc, scenario_hash = h,
           config = default_engine_config, rs_reporting_currency = reporting_currency sc,
           rs_fx_rates = fx_rates sc, instruments = sd_instruments sc,
           listings = map (\<lambda>(k, d). (k, \<lparr>ls_definition = d, ls_book = book_new\<rparr>)) (sd_listings sc),
           participants = sd_participants sc, run_ledger = l2, ownership = [], retired = [], expiries = [],
           live_orders = [], kill_switched = [], simulation = sim, rs_calendar = sd_calendar sc,
           session_steps = initial_steps (sd_calendar sc), day_trades = [], closes = []\<rparr>"
    using run unfolding run_from_scenario_def
    by (auto simp only: result_simps)
  have keys: "map fst (listings s) = map fst (sd_listings sc)"
    by (simp add: s case_prod_unfold)
  show "run_inv s"
  proof (rule empty_run_inv)
    show "bt_wf (listings s)"
      using maps by (simp add: bt_wf_def keys scenario_typed_def)
    show "ls_book ls = book_new" if "bt_get (listings s) k = Some ls" for k ls
      using map_of_SomeD [OF that] by (auto simp: s)
  qed (simp_all add: s)
  have "terms_map l2 = terms_map l1"
    using l2 by (rule try_fold_inv [where P = "\<lambda>u. terms_map u = terms_map l1"]) (auto dest!: fund_participant_terms)
  moreover have "terms_map l1 = map (\<lambda>(i, d). (i, definition_terms d)) (sd_instruments sc)"
    using configured_terms [OF l1] maps by (simp add: ledger_new_def scenario_typed_def)
  moreover have "sd_listings sc \<noteq> []" "length (sd_listings sc) \<le> MAX_LISTINGS" "length (sd_participants sc) \<le> MAX_PARTICIPANTS"
    using valid by (auto simp: scenario_validate_def split: if_splits)
  ultimately show "constants_ok s"
    using maps started_sim_policy [OF sim]
    by (simp add: constants_ok_def s scenario_typed_def default_engine_config_def MAX_LISTINGS_def)
qed

subsection \<open>Commands as steps\<close>

inductive run_step :: "run_state \<Rightarrow> run_state \<Rightarrow> bool" where
  order_command: "run_apply s cmd = Ok (ap, s') \<Longrightarrow> payload_fits (c_payload cmd) \<Longrightarrow> run_step s s'"
| simulation_command: "run_apply_simulation s req = Ok (ap, s') \<Longrightarrow> run_step s s'"

inductive_cases run_stepE: "run_step s s'"

interpretation runs: step_system "\<lambda>s. run_inv s \<and> constants_ok s" run_step "\<lambda>s. run_inv s \<and> constants_ok s"
proof
  fix s t
  assume inv: "run_inv s \<and> constants_ok s" and "run_step s t"
  from this(2) have "run_inv t \<and> run_constants t = run_constants s"
    by (cases rule: run_stepE) (use inv run_apply_inv run_apply_simulation_inv in blast)+
  with inv show "run_inv t \<and> constants_ok t"
    using constants_ok_cong by blast
qed

text \<open>A run reached from a scenario by commands.\<close>

definition run_reachable :: "run_state \<Rightarrow> bool" where
  "run_reachable s \<longleftrightarrow>
     (\<exists>to_vec sha256 rid iteration sc s0.
        scenario_typed sc \<and> run_from_scenario to_vec sha256 rid iteration sc = Ok s0 \<and> run_step\<^sup>*\<^sup>* s0 s)"

lemma run_reachable_inv: "run_reachable s \<Longrightarrow> run_inv s \<and> constants_ok s"
  using runs.reachable_inv run_from_scenario_inv unfolding run_reachable_def by blast

lemma run_reachable_step: "run_reachable s \<Longrightarrow> run_step s t \<Longrightarrow> run_reachable t"
  unfolding run_reachable_def by (meson rtranclp.rtrancl_into_rtrancl)

lemma demo_scenario_typed: "scenario_typed demo_scenario"
  by (simp add: scenario_typed_def demo_scenario_def demo_instrument_def demo_participant_def instrument_definition_new_def
    bt_wf_def in_i64_def)

lemma demo_rested_reachable: "run_reachable demo_rested"
proof -
  obtain ap where "run_apply demo_run demo_bid = Ok (ap, demo_rested)"
    using demo_bid_rests by blast
  then have "run_step demo_run demo_rested"
    by (rule run_step.order_command) (simp add: demo_bid_def demo_command_def demo_order_def payload_fits_def order_fits_def in_i64_def)
  then show ?thesis
    using demo_started demo_scenario_typed unfolding run_reachable_def by blast
qed

subsection \<open>Properties\<close>

text \<open>C1. Every run that commands reach from a scenario passes the checks that are made
  when a snapshot is loaded: books, ownership, live counts, expiries and the retired
  window agree, and every bound holds.\<close>

theorem run_reachable_validates: "run_reachable s \<Longrightarrow> run_validate s = Ok ()"
  using run_reachable_inv run_inv_validates by blast

theorem run_reachable_validates_witness: "run_reachable demo_rested \<and> run_validate demo_rested = Ok ()"
  using run_reachable_validates [OF demo_rested_reachable] demo_rested_reachable by simp

text \<open>C12. A snapshot of a reachable run is accepted when it is read back, and gives the
  same run, provided the JSON codec returns what it encoded.\<close>

theorem snapshot_roundtrip:
  assumes "run_reachable s" and "snapshot_new to_vec sha256 s = Ok e" and "snapshot_to_json encode e = Ok json"
    and "decode json = Some e" and "header json = Some (es_schema_version e)"
  shows "snapshot_from_json header decode to_vec sha256 json = Ok e \<and> es_state e = s"
proof -
  obtain h where h: "hash_serializable to_vec sha256 s = Ok h"
    and e: "e = \<lparr>es_schema_version = ENGINE_SNAPSHOT_VERSION, es_state_hash = h, es_state = s\<rparr>"
    using assms(2) by (auto simp: snapshot_new_def result_simps)
  have "run_validate s = Ok ()"
    using assms(1) run_reachable_inv run_inv_validates by blast
  then show ?thesis
    using h assms(4,5) by (simp add: snapshot_from_json_def snapshot_verify_def e)
qed

theorem snapshot_roundtrip_witness:
  "let e = \<lparr>es_schema_version = ENGINE_SNAPSHOT_VERSION, es_state_hash = ''0f'', es_state = demo_rested\<rparr>
   in snapshot_new (\<lambda>_. Some []) (\<lambda>_. [15]) demo_rested = Ok e \<and>
      snapshot_from_json (\<lambda>_. Some 5) (\<lambda>_. Some e) (\<lambda>_. Some []) (\<lambda>_. [15]) ''json'' = Ok e"
proof -
  let ?e = "\<lparr>es_schema_version = ENGINE_SNAPSHOT_VERSION, es_state_hash = ''0f'', es_state = demo_rested\<rparr>"
  have new: "snapshot_new (\<lambda>_. Some []) (\<lambda>_. [15]) demo_rested = Ok ?e"
    by (simp add: snapshot_new_def hash_serializable_def hex_digit_def)
  show ?thesis
    using snapshot_roundtrip [OF demo_rested_reachable new, of "\<lambda>_. Some ''json''" "''json''" "\<lambda>_. Some ?e" "\<lambda>_. Some 5"] new
    by (simp add: snapshot_to_json_def ENGINE_SNAPSHOT_VERSION_def Let_def)
qed

subsection \<open>A listing that admits the price zero\<close>

definition low_listing :: listing_definition where
  "low_listing = demo_listing\<lparr>ld_price_bounds := \<lparr>bounds_min = 0, bounds_max = 1000\<rparr>\<rparr>"

definition low_scenario :: scenario_definition where
  "low_scenario = demo_scenario\<lparr>sd_listings := [((3, 10), low_listing)]\<rparr>"

definition low_run :: run_state where
  "low_run = demo_run\<lparr>listings := [((3, 10), \<lparr>ls_definition = low_listing, ls_book = book_new\<rparr>)]\<rparr>"

lemma low_valid: "scenario_validate low_scenario = Ok ()"
  by (simp add: low_scenario_def low_listing_def demo_scenario_def demo_instrument_def demo_listing_def demo_participant_def
      scenario_eval checked_eval)

lemma low_started: "run_from_scenario (\<lambda>_. Some []) (\<lambda>_. []) 1 1 low_scenario = Ok low_run"
proof -
  obtain l1 where "try_fold configure_one (sd_instruments demo_scenario) ledger_new = Ok l1"
    and "try_fold (\<lambda>(_, d). fund_participant demo_scenario d) (sd_participants demo_scenario) l1 = Ok demo_ledger"
    using demo_ledger_started by (auto simp: attempt_Ok_iff)
  moreover have "seed_one low_scenario = seed_one demo_scenario"
    by (intro ext) (simp add: seed_one_def low_scenario_def)
  then have "fund_participant low_scenario = fund_participant demo_scenario"
    by (intro ext) (simp add: fund_participant_def)
  ultimately show ?thesis
    by (simp add: run_from_scenario_def low_valid content_hash_def hash_serializable_def)
      (simp add: low_scenario_def demo_simulation_started, simp add: low_run_def demo_run_def demo_scenario_def initial_steps_def)
qed


end
