(* ===== verification/Origin_Laws.thy ===== *)
theory Origin_Laws
  imports Origin_Store Engine_Runs
begin

text \<open>
  What the origin promises. The specification of a run is its committed core (state, chain
  value, command index) and the partial function \<open>commit\<close> on it; a history is a sequence of
  commits from a genesis state. A live run always holds the core of its journal, whatever was
  refused in between, and a recovery rebuilds it from the journal with any earlier checkpoint.
\<close>

section \<open>Specification\<close>

type_synonym run_core = "run_state \<times> nat list \<times> (command_id, indexed_command) btree_map"

definition commit ::
    "digests \<Rightarrow> run_limits \<Rightarrow> journal_input \<Rightarrow> admission_record option \<Rightarrow> run_core \<Rightarrow> (command_record \<times> run_core) option" where
  "commit d limits input admission =
     (\<lambda>(s, chain, index).
        if input_run_id input \<noteq> rs_run_id s \<or> bt_get index (input_command_id input) \<noteq> None
           \<or> run_sequence s \<noteq> input_expected_sequence input \<or> max_commands limits \<le> length index then None
        else
          case (fingerprint_bytes d input, apply_input s input) of
            (Inr fingerprint, Inr (ap, s')) \<Rightarrow>
              let result = \<lparr>res_accepted = accepted ap, res_reject_code = ap_reject_code ap,
                            committed_sequence = run_sequence s', res_order_id = ap_order_id ap\<rparr>;
                  link = \<lparr>ch_input = input, ch_fingerprint = hex fingerprint, ch_result = result,
                          ch_events = events ap, ch_admission = admission\<rparr>
              in if max_events limits < run_event_sequence s' then None
                 else (case next_chain d chain link of
                         Inl _ \<Rightarrow> None
                       | Inr chain' \<Rightarrow>
                           Some (\<lparr>jr_input = input, jr_fingerprint = hex fingerprint, jr_result = result,
                                  jr_events = events ap, jr_chain = hex chain', jr_admission = admission\<rparr>,
                                 (s', chain', bt_insert (input_command_id input)
                                    \<lparr>ic_fingerprint = fingerprint, ic_result = result\<rparr> index)))
          | _ \<Rightarrow> None)"

inductive history :: "digests \<Rightarrow> run_limits \<Rightarrow> run_state \<Rightarrow> command_record list \<Rightarrow> run_core \<Rightarrow> bool"
  for d limits g where
  start: "genesis_chain d g = Ok chain \<Longrightarrow> history d limits g [] (g, chain, [])"
| step: "history d limits g rs core \<Longrightarrow> commit d limits (jr_input r) (jr_admission r) core = Some (r, core') \<Longrightarrow>
    history d limits g (rs @ [r]) core'"

inductive_simps history_Nil: "history d limits g [] core"
inductive_cases history_snocE: "history d limits g (rs @ [r]) core"

text \<open>JSON of the chained fields never fails and a digest has 32 bytes.\<close>

definition sound_digests :: "digests \<Rightarrow> bool" where
  "sound_digests d \<longleftrightarrow> (\<forall>c. json_chained d c \<noteq> None) \<and> (\<forall>b. length (sha256_of d b) = 32 \<and> (\<forall>x\<in>set (sha256_of d b). x < 256))"

fun input_fits :: "journal_input \<Rightarrow> bool" where
  "input_fits (OrderInput c) = payload_fits (c_payload c)"
| "input_fits (SimulationInput r) = True"

definition core_of :: "live_run \<Rightarrow> run_core" where
  "core_of lr = (lr_state lr, lr_chain lr, lr_index lr)"

definition live_ok :: "digests \<Rightarrow> run_state \<Rightarrow> command_record list \<Rightarrow> live_run \<Rightarrow> bool" where
  "live_ok d g rs lr \<longleftrightarrow> \<not> lr_poisoned lr \<and> history d (lr_limits lr) g rs (core_of lr)
     \<and> (\<exists>n index. n \<le> length rs \<and> history d (lr_limits lr) g (take n rs) (lr_base lr, lr_base_chain lr, index)
          \<and> lr_tail lr = map jr_input (drop n rs))"

section \<open>Commits\<close>

lemma commitE:
  assumes "commit d limits input admission (s, chain, index) = Some (r, core')"
  obtains fingerprint ap s' chain' where
    "input_run_id input = rs_run_id s" "bt_get index (input_command_id input) = None"
    "run_sequence s = input_expected_sequence input" "length index < max_commands limits"
    "fingerprint_bytes d input = Ok fingerprint" "apply_input s input = Ok (ap, s')"
    "run_event_sequence s' \<le> max_events limits" "jr_input r = input" "jr_admission r = admission"
    "jr_fingerprint r = hex fingerprint" "jr_chain r = hex chain'" "jr_events r = events ap"
    "jr_result r = \<lparr>res_accepted = accepted ap, res_reject_code = ap_reject_code ap,
       committed_sequence = run_sequence s', res_order_id = ap_order_id ap\<rparr>"
    "next_chain d chain (chained_of r) = Ok chain'"
    "core' = (s', chain', bt_insert (input_command_id input) \<lparr>ic_fingerprint = fingerprint, ic_result = jr_result r\<rparr> index)"
  using assms
  by (auto simp: commit_def chained_of_def Let_def not_le not_less split: if_splits sum.splits prod.splits)

lemma finish_sequence: "finish cmd n acc code order t = Ok (ap, s') \<Longrightarrow> run_sequence s' = n"
  by (auto simp: finish_def result_simps Let_def)

lemma validated_sequence:
  "apply_validated s cmd n key = Ok (ap, s') \<Longrightarrow> run_sequence s' = n"
  "apply_simulation_validated s req n = Ok (ap, s') \<Longrightarrow> run_sequence s' = n"
  by (auto simp: apply_validated_def apply_simulation_validated_def Let_def attempt_Ok_iff dest: finish_sequence)

lemma preflight_Ok:
  "preflight s i n = Ok m \<Longrightarrow> m = run_sequence s + 1 \<and> u64_checked_add (run_sequence s) 1 = Some m \<and> i = rs_run_id s \<and> n = run_sequence s"
  by (auto simp: preflight_def ok_or_Ok_iff u64_checked_add_Some split: if_splits)

lemma apply_input_sequence:
  assumes "apply_input s input = Ok (ap, s')"
  shows "run_sequence s' = run_sequence s + 1" "u64_checked_add (run_sequence s) 1 = Some (run_sequence s + 1)"
    "input_run_id input = rs_run_id s" "input_expected_sequence input = run_sequence s"
proof -
  obtain n where "preflight s (input_run_id input) (input_expected_sequence input) = Ok n" "run_sequence s' = n"
    using assms
    by (cases input) (auto simp: run_apply_def run_apply_simulation_def attempt_Ok_iff map_err_Ok_iff Let_def
        dest: validated_sequence split: if_splits)
  then show "run_sequence s' = run_sequence s + 1" "u64_checked_add (run_sequence s) 1 = Some (run_sequence s + 1)"
    "input_run_id input = rs_run_id s" "input_expected_sequence input = run_sequence s"
    by (auto dest: preflight_Ok)
qed

section \<open>Histories\<close>

lemma history_snoc:
  "history d limits g (rs @ [r]) core' \<longleftrightarrow>
     (\<exists>core. history d limits g rs core \<and> commit d limits (jr_input r) (jr_admission r) core = Some (r, core'))"
  using history.cases [of d limits g "rs @ [r]" core'] history.step by (metis append_is_Nil_conv butlast_snoc last_snoc list.discI)

lemma history_deterministic:
  "history d limits g rs core \<Longrightarrow> history d limits g rs core' \<Longrightarrow> core = core'"
proof (induction rs arbitrary: core core' rule: rev_induct)
  case (snoc r rs)
  then show ?case
    unfolding history_snoc by (metis Pair_inject option.inject)
qed (auto simp: history_Nil)

lemma history_take:
  "history d limits g rs core \<Longrightarrow> \<exists>core'. history d limits g (take n rs) core'"
proof (induction rs arbitrary: core rule: rev_induct)
  case (snoc r rs)
  show ?case
  proof (cases "n \<le> length rs")
    case True
    then show ?thesis
      using snoc unfolding history_snoc by auto
  next
    case False
    with snoc.prems show ?thesis
      by (intro exI [of _ core]) simp
  qed
qed auto

lemma try_fold_append: "try_fold f (xs @ ys) s = attempt (try_fold f xs s) (try_fold f ys)"
  by (induction xs arbitrary: s) (simp_all add: attempt_def split: sum.split)

lemma history_replays:
  "history d limits g rs core \<Longrightarrow> history d limits g (take n rs) core' \<Longrightarrow>
    replay_inputs (map jr_input (drop n rs)) (fst core') = Ok (fst core)"
proof (induction rs arbitrary: core rule: rev_induct)
  case Nil
  then show ?case
    by (auto simp: replay_inputs_def history_Nil)
next
  case (snoc r rs)
  show ?case
  proof (cases "n \<le> length rs")
    case True
    obtain s chain index where h: "history d limits g rs (s, chain, index)"
      and c: "commit d limits (jr_input r) (jr_admission r) (s, chain, index) = Some (r, core)"
      using snoc.prems(1) unfolding history_snoc by auto
    have "replay_inputs (map jr_input (drop n rs)) (fst core') = Ok s"
      using snoc.IH [OF h] snoc.prems(2) True by simp
    moreover obtain ap where "apply_input s (jr_input r) = Ok (ap, fst core)"
      by (rule commitE [OF c]) simp
    ultimately show ?thesis
      using True by (simp add: replay_inputs_def try_fold_append)
  next
    case False
    then have "core' = core"
      using snoc.prems history_deterministic by simp
    with False show ?thesis
      by (simp add: replay_inputs_def)
  qed
qed


lemma history_constants:
  assumes "run_inv g"
  shows "history d limits g rs core \<Longrightarrow> list_all (\<lambda>r. input_fits (jr_input r)) rs \<Longrightarrow>
    run_inv (fst core) \<and> run_constants (fst core) = run_constants g"
proof (induction rs arbitrary: core rule: rev_induct)
  case Nil
  with assms show ?case
    by (auto simp: history_Nil)
next
  case (snoc r rs)
  obtain s chain index where h: "history d limits g rs (s, chain, index)"
    and c: "commit d limits (jr_input r) (jr_admission r) (s, chain, index) = Some (r, core)"
    using snoc.prems(1) unfolding history_snoc by auto
  have inv: "run_inv s" "run_constants s = run_constants g"
    using snoc.IH [OF h] snoc.prems(2) by simp_all
  obtain ap where "apply_input s (jr_input r) = Ok (ap, fst core)"
    by (rule commitE [OF c]) simp
  with inv snoc.prems(2) show ?case
    by (cases "jr_input r") (auto dest!: run_apply_inv run_apply_simulation_inv)
qed

lemma history_sequence:
  "history d limits g rs core \<Longrightarrow> run_sequence (fst core) = run_sequence g + length rs
    \<and> map (\<lambda>r. committed_sequence (jr_result r)) rs = [Suc (run_sequence g) ..< Suc (run_sequence g + length rs)]"
proof (induction rs arbitrary: core rule: rev_induct)
  case Nil
  then show ?case
    by (auto simp: history_Nil)
next
  case (snoc r rs)
  obtain s chain index where h: "history d limits g rs (s, chain, index)"
    and c: "commit d limits (jr_input r) (jr_admission r) (s, chain, index) = Some (r, core)"
    using snoc.prems(1) unfolding history_snoc by auto
  obtain ap where "apply_input s (jr_input r) = Ok (ap, fst core)" "committed_sequence (jr_result r) = run_sequence (fst core)"
    by (rule commitE [OF c]) simp
  with snoc.IH [OF h] apply_input_sequence(1) show ?case
    by simp
qed

definition entry_of :: "digests \<Rightarrow> command_record \<Rightarrow> indexed_command option" where
  "entry_of d r = (case fingerprint_bytes d (jr_input r) of Inl _ \<Rightarrow> None
     | Inr fingerprint \<Rightarrow> Some \<lparr>ic_fingerprint = fingerprint, ic_result = jr_result r\<rparr>)"

lemma history_index:
  "history d limits g rs (s, chain, index) \<Longrightarrow> bt_wf index \<and> length index = length rs
    \<and> distinct (map (\<lambda>r. input_command_id (jr_input r)) rs)
    \<and> dom (bt_get index) = (\<lambda>r. input_command_id (jr_input r)) ` set rs
    \<and> (\<forall>r\<in>set rs. entry_of d r \<noteq> None \<and> bt_get index (input_command_id (jr_input r)) = entry_of d r)"
proof (induction rs arbitrary: s chain index rule: rev_induct)
  case Nil
  then show ?case
    by (auto simp: history_Nil)
next
  case (snoc r rs)
  obtain s0 chain0 index0 where h: "history d limits g rs (s0, chain0, index0)"
    and c: "commit d limits (jr_input r) (jr_admission r) (s0, chain0, index0) = Some (r, s, chain, index)"
    using snoc.prems(1) unfolding history_snoc by auto
  note IH = snoc.IH [OF h]
  obtain fingerprint where new: "bt_get index0 (input_command_id (jr_input r)) = None"
    and fp: "fingerprint_bytes d (jr_input r) = Ok fingerprint"
    and index: "index = bt_insert (input_command_id (jr_input r)) \<lparr>ic_fingerprint = fingerprint, ic_result = jr_result r\<rparr> index0"
    by (rule commitE [OF c]) simp
  have fresh: "input_command_id (jr_input r') \<noteq> input_command_id (jr_input r)" if "r' \<in> set rs" for r'
    using IH that new by metis
  have "entry_of d r = Some \<lparr>ic_fingerprint = fingerprint, ic_result = jr_result r\<rparr>"
    by (simp add: entry_of_def fp)
  then show ?case
    using IH fresh new by (auto simp: index bt_length_insert)
qed

section \<open>The live run follows its journal\<close>

lemma live_okD:
  assumes "live_ok d g rs lr"
  shows "\<not> lr_poisoned lr" and "history d (lr_limits lr) g rs (core_of lr)"
    and "replay_inputs (lr_tail lr) (lr_base lr) = Ok (lr_state lr)"
proof -
  obtain n index where "history d (lr_limits lr) g (take n rs) (lr_base lr, lr_base_chain lr, index)"
      "lr_tail lr = map jr_input (drop n rs)"
    using assms by (auto simp: live_ok_def)
  moreover show hist: "history d (lr_limits lr) g rs (core_of lr)" and "\<not> lr_poisoned lr"
    using assms by (simp_all add: live_ok_def)
  ultimately show "replay_inputs (lr_tail lr) (lr_base lr) = Ok (lr_state lr)"
    using history_replays [OF hist] by (fastforce simp: core_of_def)
qed

lemma roll_back_restores:
  assumes "live_ok d g rs lr"
  shows "roll_back e (lr\<lparr>lr_state := s\<rparr>) = (Err e, lr)" "roll_back e lr = (Err e, lr)"
  using live_okD(3) [OF assms] by (simp_all add: roll_back_def rebuild_def)

lemma execute_committed:
  assumes "commit d (lr_limits lr) input admission (core_of lr) = Some (r, s, chain, index)" and "\<not> lr_poisoned lr"
  shows "live_execute d input admission lr = (Ok (Committed r),
    lr\<lparr>lr_state := s, lr_chain := chain, lr_index := index, lr_tail := lr_tail lr @ [input]\<rparr>)"
  using assms
  by (auto simp: commit_def core_of_def live_execute_def commit_applied_def Let_def not_less
      split: if_splits sum.splits prod.splits)

lemma next_chain_Ok:
  assumes "sound_digests d"
  shows "next_chain d chain c = Ok (sha256_of d (chain @ the (json_chained d c)))"
proof -
  obtain bytes where "json_chained d c = Some bytes"
    using assms unfolding sound_digests_def by blast
  then show ?thesis
    by (simp add: next_chain_def)
qed

lemma execute_uncommitted:
  assumes ok: "live_ok d g rs lr" and "sound_digests d" and none: "commit d (lr_limits lr) input admission (core_of lr) = None"
  shows "(\<exists>result. live_execute d input admission lr = (Ok (Duplicate result), lr)) \<or> (\<exists>e. live_execute d input admission lr = (Err e, lr))"
proof (cases "input_run_id input = rs_run_id (lr_state lr) \<and> bt_get (lr_index lr) (input_command_id input) = None
    \<and> run_sequence (lr_state lr) = input_expected_sequence input \<and> length (lr_index lr) < max_commands (lr_limits lr)
    \<and> (\<exists>fingerprint ap s. fingerprint_bytes d input = Ok fingerprint \<and> apply_input (lr_state lr) input = Ok (ap, s))")
  case True
  then obtain fingerprint ap s where fp: "fingerprint_bytes d input = Ok fingerprint"
    and app: "apply_input (lr_state lr) input = Ok (ap, s)"
    by blast
  have "max_events (lr_limits lr) < run_event_sequence s"
    using none True by (simp add: commit_def core_of_def fp app Let_def next_chain_Ok [OF assms(2)] split: if_splits)
  then show ?thesis
    using True live_okD(1) [OF ok]
    by (simp add: live_execute_def fp app commit_applied_def roll_back_restores [OF ok])
next
  case False
  then show ?thesis
    by (auto simp: live_execute_def not_less roll_back_restores [OF ok] split: sum.splits option.splits apply_error.splits)
qed

lemma live_ok_commit:
  assumes "live_ok d g rs lr" and "commit d (lr_limits lr) input admission (core_of lr) = Some (r, s, chain, index)"
  shows "live_ok d g (rs @ [r]) (lr\<lparr>lr_state := s, lr_chain := chain, lr_index := index, lr_tail := lr_tail lr @ [input]\<rparr>)"
proof -
  obtain n index0 where n: "n \<le> length rs" "history d (lr_limits lr) g (take n rs) (lr_base lr, lr_base_chain lr, index0)"
      "lr_tail lr = map jr_input (drop n rs)"
    using assms(1) by (auto simp: live_ok_def)
  have "jr_input r = input" "jr_admission r = admission"
    using assms(2) by (auto simp: core_of_def elim: commitE)
  then have "history d (lr_limits lr) g (rs @ [r]) (s, chain, index)"
    using history.step [OF live_okD(2) [OF assms(1)], of r] assms(2) by simp
  with n \<open>jr_input r = input\<close> live_okD(1) [OF assms(1)] show ?thesis
    by (auto simp: live_ok_def core_of_def intro!: exI [of _ n])
qed

lemma live_ok_genesis: "live_genesis d g limits = Ok lr \<Longrightarrow> live_ok d g [] lr \<and> lr_limits lr = limits"
  by (auto simp: live_genesis_def attempt_Ok_iff live_ok_def core_of_def history_Nil)

lemma live_ok_checkpoint:
  assumes "live_ok d g rs lr"
  shows "\<exists>lr'. live_checkpoint lr = (Ok (), lr') \<and> live_ok d g rs lr' \<and> lr_limits lr' = lr_limits lr
    \<and> core_of lr' = core_of lr \<and> checkpoint_state lr' = (lr_state lr, hex (lr_chain lr))"
  using assms by (auto simp: live_checkpoint_def live_ok_def core_of_def checkpoint_state_def intro!: exI [of _ "length rs"])

section \<open>Hexadecimal text\<close>

lemma hex_digits_listed:
  "list_all (\<lambda>v. digit_of_byte (of_char (hex_digit v)) = Ok v) [0..<16]"
  "list_all (\<lambda>n. case digit_of_byte n of Inl _ \<Rightarrow> True | Inr v \<Rightarrow> v < 16 \<and> hex_digit v = char_of n) [0..<256]"
  by code_simp+

lemma hex_digit_byte: "v < 16 \<Longrightarrow> digit_of_byte (of_char (hex_digit v)) = Ok v"
  using hex_digits_listed(1) by (simp add: list_all_iff)

lemma digit_of_byte_hex: "digit_of_byte (of_char c) = Ok v \<Longrightarrow> v < 16 \<and> hex_digit v = c"
proof -
  assume "digit_of_byte (of_char c) = Ok v"
  moreover have "(of_char c :: nat) \<in> set [0..<256]"
    by simp
  ultimately show ?thesis
    using hex_digits_listed(2) [unfolded list_all_iff, rule_format, of "of_char c"] by simp
qed

lemma hex_simps [simp]: "hex [] = []" "hex (b # bs) = hex_digit (b div 16) # hex_digit (b mod 16) # hex bs"
  by (simp_all add: hex_def)

lemma length_hex [simp]: "length (hex bs) = 2 * length bs"
  by (induction bs) simp_all

lemma parse_pairs_hex: "\<forall>b\<in>set bs. b < 256 \<Longrightarrow> parse_pairs (map of_char (hex bs)) = Ok bs"
  by (induction bs) (simp_all add: hex_digit_byte less_mult_imp_div_less)

lemma hex_parse_pairs:
  "parse_pairs (map of_char s) = Ok bs \<Longrightarrow> even (length s) \<Longrightarrow> hex bs = s \<and> (\<forall>b\<in>set bs. b < 256)"
proof (induction s arbitrary: bs rule: induct_list012)
  case (3 a b s)
  obtain hi lo rest_bytes where "digit_of_byte (of_char a) = Ok hi" "digit_of_byte (of_char b) = Ok lo"
      "parse_pairs (map of_char s) = Ok rest_bytes" "bs = (16 * hi + lo) # rest_bytes"
    using 3 by (auto simp: attempt_Ok_iff)
  with 3 show ?case
    using digit_of_byte_hex [of a hi] digit_of_byte_hex [of b lo] by auto
qed simp_all

lemma hex_roundtrip:
  "parse_hex s = Ok bs \<longleftrightarrow> s = hex bs \<and> length bs = 32 \<and> (\<forall>b\<in>set bs. b < 256)"
proof
  assume "parse_hex s = Ok bs"
  then have "parse_pairs (map of_char s) = Ok bs" "length s = 64"
    by (simp_all add: parse_hex_def split: if_splits)
  then show "s = hex bs \<and> length bs = 32 \<and> (\<forall>b\<in>set bs. b < 256)"
    using hex_parse_pairs [of s bs] length_hex [of bs] by force
qed (simp add: parse_hex_def parse_pairs_hex)

section \<open>Recovery\<close>

text \<open>Replaying the journal records of one run, stopping at the first that is refused.\<close>

fun replay_all :: "digests \<Rightarrow> command_record list \<Rightarrow> run_recovery \<Rightarrow> (run_recovery, origin_error) result" where
  "replay_all d [] r = Ok r"
| "replay_all d (x # xs) r = (case replay d x r of (Inl e, _) \<Rightarrow> Err e | (Inr _, r') \<Rightarrow> replay_all d xs r')"

definition recover_run ::
    "digests \<Rightarrow> run_state \<Rightarrow> (run_state \<times> string) option \<Rightarrow> run_limits \<Rightarrow> command_record list \<Rightarrow> (live_run, origin_error) result" where
  "recover_run d g checkpoint limits rs =
     attempt (recovery_new d g checkpoint limits) (\<lambda>r. attempt (replay_all d rs r) recovery_finish)"

lemma replay_all_append:
  "replay_all d (xs @ ys) r = attempt (replay_all d xs r) (replay_all d ys)"
  by (induction xs arbitrary: r) (auto split: prod.split sum.split)

text \<open>The recovery after \<open>k\<close> records when the checkpoint covers \<open>n\<close>.\<close>

definition resumed :: "run_limits \<Rightarrow> run_state \<Rightarrow> command_record list \<Rightarrow> nat \<Rightarrow> run_core \<Rightarrow> nat \<Rightarrow> run_core \<Rightarrow> run_recovery" where
  "resumed limits g rs n at_checkpoint k core =
     (case (at_checkpoint, core) of ((s0, chain0, _), (s, chain, index)) \<Rightarrow>
        \<lparr>rec_live = \<lparr>lr_state = (if k \<le> n then s0 else s), lr_chain = chain, lr_base = s0, lr_base_chain = chain0,
                     lr_tail = map jr_input (drop n (take k rs)), lr_index = index, lr_limits = limits, lr_poisoned = False\<rparr>,
         genesis_sequence = run_sequence g, replayed_through = run_sequence g + k,
         checkpoint_sequence = run_sequence g + n, checkpoint_chain = chain0\<rparr>)"

lemma replay_resumed:
  assumes "run_inv g" and "list_all (\<lambda>r. input_fits (jr_input r)) rs" and k: "k < length rs"
    and n: "history d limits g (take n rs) at_n" "n \<le> length rs"
    and hk: "history d limits g (take k rs) core" and hk1: "history d limits g (take (Suc k) rs) core'"
  shows "replay d (rs ! k) (resumed limits g rs n at_n k core) = (Ok (), resumed limits g rs n at_n (Suc k) core')"
proof -
  let ?r = "rs ! k"
  obtain s0 chain0 index0 s chain index where at: "at_n = (s0, chain0, index0)" and core: "core = (s, chain, index)"
    by (cases at_n, cases core) auto
  have "history d limits g (take k rs @ [?r]) core'"
    using hk1 by (simp add: take_Suc_conv_app_nth k)
  then have c: "commit d limits (jr_input ?r) (jr_admission ?r) (s, chain, index) = Some (?r, core')"
    unfolding history_snoc using history_deterministic [OF hk] core by metis
  obtain fingerprint ap s' chain' where com: "bt_get index (input_command_id (jr_input ?r)) = None"
      "fingerprint_bytes d (jr_input ?r) = Ok fingerprint" "apply_input s (jr_input ?r) = Ok (ap, s')"
      "jr_fingerprint ?r = hex fingerprint" "jr_chain ?r = hex chain'" "committed_sequence (jr_result ?r) = run_sequence s'"
      "next_chain d chain (chained_of ?r) = Ok chain'"
      "core' = (s', chain', bt_insert (input_command_id (jr_input ?r)) \<lparr>ic_fingerprint = fingerprint, ic_result = jr_result ?r\<rparr> index)"
    by (rule commitE [OF c]) simp
  have "list_all (\<lambda>r. input_fits (jr_input r)) (take m rs)" for m
    using assms(2) by (auto simp: list_all_iff dest: in_set_takeD)
  then have "run_constants s0 = run_constants g" "run_constants s = run_constants g"
    using history_constants [OF assms(1) n(1)] history_constants [OF assms(1) hk] by (simp_all add: at core)
  then have id: "rs_run_id s0 = rs_run_id s"
    by (simp add: run_constants_def)
  have "run_sequence s = run_sequence g + k"
    using history_sequence [OF hk] k by (simp add: core)
  note seq = this apply_input_sequence [OF com(3)]
  have same: "chain' = chain0" if "Suc k = n"
    using history_deterministic [OF n(1)] hk1 that by (auto simp: at com(8))
  have here: "s0 = s" if "k = n"
    using history_deterministic [OF n(1)] hk that by (auto simp: at core)
  show ?thesis
  proof (cases "Suc k \<le> n")
    case True
    then show ?thesis
      using seq com(1,2,4-7) id same
      by (simp add: replay_def replay_covered_def resumed_def at core com(8) check_checkpoint_reached_def Let_def)
  next
    case False
    define lr where "lr = rec_live (resumed limits g rs n at_n k core)"
    have lr: "core_of lr = core" "lr_limits lr = limits" "\<not> lr_poisoned lr"
      using False here by (auto simp: lr_def resumed_def core_of_def at core)
    have "live_execute d (jr_input ?r) (jr_admission ?r) lr = (Ok (Committed ?r),
        lr\<lparr>lr_state := s', lr_chain := chain', lr_index := snd (snd core'), lr_tail := lr_tail lr @ [jr_input ?r]\<rparr>)"
      using c by (intro execute_committed) (simp_all add: lr core com(8))
    moreover have "drop n (take (Suc k) rs) = drop n (take k rs) @ [?r]"
      using False k by (simp add: take_Suc_conv_app_nth)
    ultimately show ?thesis
      using False seq com(6) id
      by (simp add: replay_def replay_executed_def lr_def resumed_def at core com(8))
  qed
qed

lemma replay_all_resumed:
  assumes "run_inv g" and "list_all (\<lambda>r. input_fits (jr_input r)) rs" and "history d limits g (take n rs) at_n" "n \<le> length rs"
    and start: "genesis_chain d g = Ok chain"
  shows "history d limits g (take k rs) core \<Longrightarrow> k \<le> length rs \<Longrightarrow>
    replay_all d (take k rs) (resumed limits g rs n at_n 0 (g, chain, [])) = Ok (resumed limits g rs n at_n k core)"
proof (induction k arbitrary: core)
  case 0
  then show ?case
    using start by (simp add: history_Nil)
next
  case (Suc k)
  then have k: "k < length rs"
    by simp
  then have app: "take (Suc k) rs = take k rs @ [rs ! k]"
    by (simp add: take_Suc_conv_app_nth)
  obtain core0 where core0: "history d limits g (take k rs) core0"
    using Suc.prems(1) unfolding app history_snoc by blast
  have "replay d (rs ! k) (resumed limits g rs n at_n k core0) = (Ok (), resumed limits g rs n at_n (Suc k) core)"
    by (rule replay_resumed [OF assms(1,2) k assms(3,4) core0 Suc.prems(1)])
  then show ?case
    using Suc.IH [OF core0] k by (simp add: app replay_all_append)
qed

lemma history_chain:
  assumes "sound_digests d" and "history d limits g rs (s, chain, index)"
  shows "length chain = 32 \<and> (\<forall>b\<in>set chain. b < 256)"
proof (cases rs rule: rev_cases)
  case Nil
  then show ?thesis
    using assms by (auto simp: history_Nil genesis_chain_def attempt_Ok_iff sound_digests_def)
next
  case (snoc xs r)
  obtain s0 chain0 index0 where "commit d limits (jr_input r) (jr_admission r) (s0, chain0, index0) = Some (r, s, chain, index)"
    using assms(2) unfolding snoc history_snoc by auto
  then obtain c where "next_chain d chain0 c = Ok chain"
    by (auto elim: commitE)
  then show ?thesis
    using assms(1) by (auto simp: next_chain_def attempt_Ok_iff sound_digests_def)
qed

lemma history_start: "history d limits g rs core \<Longrightarrow> \<exists>chain. genesis_chain d g = Ok chain"
  by (induction rule: history.induct) auto

text \<open>The run that a recovery from the checkpoint \<open>(s0, chain0)\<close> of \<open>n\<close> records gives.\<close>

definition recovered :: "run_limits \<Rightarrow> command_record list \<Rightarrow> nat \<Rightarrow> run_state \<Rightarrow> nat list \<Rightarrow> run_core \<Rightarrow> live_run" where
  "recovered limits rs n s0 chain0 core =
     (case core of (s, chain, index) \<Rightarrow>
        \<lparr>lr_state = s, lr_chain = chain, lr_base = s0, lr_base_chain = chain0, lr_tail = map jr_input (drop n rs),
         lr_index = index, lr_limits = limits, lr_poisoned = False\<rparr>)"

lemma finish_resumed:
  assumes "history d limits g rs core" "history d limits g (take n rs) (s0, chain0, index0)" "n \<le> length rs"
  shows "recovery_finish (resumed limits g rs n (s0, chain0, index0) (length rs) core) = Ok (recovered limits rs n s0 chain0 core)"
proof -
  have "s0 = fst core" if "length rs \<le> n"
    using that assms history_deterministic [of d limits g rs core "(s0, chain0, index0)"] by simp
  with assms(3) show ?thesis
    by (cases core) (auto simp: recovery_finish_def resumed_def recovered_def)
qed

lemma recovery_new_checkpoint:
  assumes "sound_digests d" "run_inv g" "list_all (\<lambda>r. input_fits (jr_input r)) rs" "n \<le> length rs"
    and h: "history d limits g (take n rs) (s0, chain0, index0)" and start: "genesis_chain d g = Ok chain"
  shows "recovery_new d g (Some (s0, hex chain0)) limits = Ok (resumed limits g rs n (s0, chain0, index0) 0 (g, chain, []))"
proof -
  have "list_all (\<lambda>r. input_fits (jr_input r)) (take n rs)"
    using assms(3) by (auto simp: list_all_iff dest: in_set_takeD)
  then have "rs_run_id s0 = rs_run_id g" "scenario_hash s0 = scenario_hash g"
    using history_constants [OF assms(2) h] by (simp_all add: run_constants_def)
  moreover have "run_sequence s0 = run_sequence g + n"
    using history_sequence [OF h] assms(4) by simp
  moreover have "chain0 = chain" if "n = 0"
    using h start that by (simp add: history_Nil)
  moreover have "parse_hex (hex chain0) = Ok chain0"
    using history_chain [OF assms(1) h] by (simp add: hex_roundtrip)
  ultimately show ?thesis
    by (auto simp: recovery_new_def live_genesis_def start recovery_start_def resumed_def check_checkpoint_reached_def Let_def)
qed

lemma recovery_new_none:
  assumes "genesis_chain d g = Ok chain"
  shows "recovery_new d g None limits = Ok (resumed limits g rs 0 (g, chain, []) 0 (g, chain, []))"
  by (simp add: recovery_new_def live_genesis_def assms recovery_start_def resumed_def check_checkpoint_reached_def Let_def)

lemma recover_checkpoint:
  assumes "sound_digests d" "run_inv g" "list_all (\<lambda>r. input_fits (jr_input r)) rs" "n \<le> length rs"
    and "history d limits g (take n rs) (s0, chain0, index0)" and "history d limits g rs core"
  shows "recover_run d g (Some (s0, hex chain0)) limits rs = Ok (recovered limits rs n s0 chain0 core)"
proof -
  obtain chain where "genesis_chain d g = Ok chain"
    using history_start [OF assms(6)] by blast
  then show ?thesis
    using recovery_new_checkpoint [OF assms(1-5)] replay_all_resumed [OF assms(2,3,5,4), of chain "length rs" core]
      finish_resumed [OF assms(6,5,4)] assms(6)
    by (simp add: recover_run_def)
qed

lemma recover_genesis:
  assumes "run_inv g" "list_all (\<lambda>r. input_fits (jr_input r)) rs" "history d limits g rs core" "genesis_chain d g = Ok chain"
  shows "recover_run d g None limits rs = Ok (recovered limits rs 0 g chain core)"
proof -
  have "history d limits g (take 0 rs) (g, chain, [])"
    using assms(4) by (simp add: history_Nil)
  then show ?thesis
    using recovery_new_none [OF assms(4), of limits rs] replay_all_resumed [OF assms(1,2) _ _ assms(4), of limits 0 "(g, chain, [])" "length rs" core]
      finish_resumed [OF assms(3), of 0 g chain "[]"] assms(3)
    by (simp add: recover_run_def)
qed

lemma execute_Committed:
  assumes "live_execute d input admission lr = (Ok (Committed r), lr')"
  shows "commit d (lr_limits lr) input admission (core_of lr) = Some (r, core_of lr')" "lr_limits lr' = lr_limits lr" "\<not> lr_poisoned lr'"
  using assms
  by (auto simp: commit_def core_of_def live_execute_def commit_applied_def roll_back_def Let_def not_less
      split: if_splits sum.splits prod.splits option.splits apply_error.splits)

lemma replay_genuine:
  assumes "replay d x r = (Ok (), r')" and "checkpoint_sequence r \<le> replayed_through r"
  shows "commit d (lr_limits (rec_live r)) (jr_input x) (jr_admission x) (core_of (rec_live r)) = Some (x, core_of (rec_live r'))"
    "lr_limits (rec_live r') = lr_limits (rec_live r)" "checkpoint_sequence r' \<le> replayed_through r'"
proof -
  obtain lr where lr: "live_execute d (jr_input x) (jr_admission x) (rec_live r) = (Ok (Committed x), lr)"
    and r': "r' = r\<lparr>rec_live := lr, replayed_through := committed_sequence (jr_result x)\<rparr>" "committed_sequence (jr_result x) = replayed_through r + 1"
    using assms
    by (auto simp: replay_def replay_executed_def Let_def u64_checked_add_Some
        split: if_splits option.splits prod.splits sum.splits execution.splits)
  show "commit d (lr_limits (rec_live r)) (jr_input x) (jr_admission x) (core_of (rec_live r)) = Some (x, core_of (rec_live r'))"
    "lr_limits (rec_live r') = lr_limits (rec_live r)" "checkpoint_sequence r' \<le> replayed_through r'"
    using execute_Committed [OF lr] r' assms(2) by simp_all
qed

lemma replay_all_genuine:
  "replay_all d xs r = Ok r' \<Longrightarrow> checkpoint_sequence r \<le> replayed_through r \<Longrightarrow> history d (lr_limits (rec_live r)) g rs (core_of (rec_live r)) \<Longrightarrow>
    history d (lr_limits (rec_live r)) g (rs @ xs) (core_of (rec_live r'))"
proof (induction xs arbitrary: r rs)
  case (Cons x xs)
  obtain r1 where r1: "replay d x r = (Ok (), r1)" "replay_all d xs r1 = Ok r'"
    using Cons.prems(1) by (auto split: prod.splits sum.splits)
  note x = replay_genuine [OF r1(1) Cons.prems(2)]
  have "history d (lr_limits (rec_live r)) g (rs @ [x]) (core_of (rec_live r1))"
    using history.step [OF Cons.prems(3) x(1)] .
  then show ?case
    using Cons.IH [OF r1(2) x(3), of "rs @ [x]"] x(2) by simp
qed simp

section \<open>Sequences of operations\<close>

datatype live_op = Execute journal_input "admission_record option" | Checkpoint

fun op_fits :: "live_op \<Rightarrow> bool" where
  "op_fits (Execute input _) = input_fits input"
| "op_fits Checkpoint = True"

text \<open>The records that a sequence of operations commits, and the run after it.\<close>

fun live_ops :: "digests \<Rightarrow> live_op list \<Rightarrow> live_run \<Rightarrow> command_record list \<times> live_run" where
  "live_ops d [] lr = ([], lr)"
| "live_ops d (Execute input admission # ops) lr =
     (case live_execute d input admission lr of
        (answer, lr1) \<Rightarrow>
          (case live_ops d ops lr1 of
             (rs, lr2) \<Rightarrow> ((case answer of Inr (Committed r) \<Rightarrow> r # rs | _ \<Rightarrow> rs), lr2)))"
| "live_ops d (Checkpoint # ops) lr = live_ops d ops (snd (live_checkpoint lr))"

lemma live_ops_ok:
  assumes "sound_digests d"
  shows "live_ops d ops lr = (rs', lr') \<Longrightarrow> live_ok d g rs lr \<Longrightarrow> list_all op_fits ops \<Longrightarrow>
    live_ok d g (rs @ rs') lr' \<and> lr_limits lr' = lr_limits lr \<and> list_all (\<lambda>r. input_fits (jr_input r)) rs'"
proof (induction ops arbitrary: lr rs rs')
  case (Cons op ops)
  show ?case
  proof (cases op)
    case (Execute input admission)
    obtain answer lr1 where lr1: "live_execute d input admission lr = (answer, lr1)"
      by fastforce
    obtain rs1 where rs1: "live_ops d ops lr1 = (rs1, lr')"
      and rs': "rs' = (case answer of Inr (Committed r) \<Rightarrow> r # rs1 | _ \<Rightarrow> rs1)"
      using Cons.prems(1) by (auto simp: Execute lr1 split: prod.splits)
    show ?thesis
    proof (cases "commit d (lr_limits lr) input admission (core_of lr)")
      case None
      then have "lr1 = lr" "rs' = rs1"
        using execute_uncommitted [OF Cons.prems(2) assms None] by (auto simp: lr1 rs')
      with Cons.IH [OF rs1, of rs] Cons.prems(2,3) show ?thesis
        by simp
    next
      case (Some c)
      then obtain r s chain index where c: "commit d (lr_limits lr) input admission (core_of lr) = Some (r, s, chain, index)"
        by (cases c) auto
      have "answer = Ok (Committed r)" "live_ok d g (rs @ [r]) lr1" "lr_limits lr1 = lr_limits lr"
        using execute_committed [OF c live_okD(1) [OF Cons.prems(2)]] live_ok_commit [OF Cons.prems(2) c] by (auto simp: lr1)
      moreover have "jr_input r = input"
        using c by (auto simp: core_of_def elim: commitE)
      ultimately show ?thesis
        using Cons.IH [OF rs1, of "rs @ [r]"] Cons.prems(3) by (simp add: rs' Execute)
    qed
  next
    case Checkpoint
    then show ?thesis
      using live_ok_checkpoint [OF Cons.prems(2)] Cons.IH [of _ rs' rs] Cons.prems by fastforce
  qed
qed simp

end
