(* ===== verification/Commit_Journal.thy ===== *)
theory Commit_Journal
  imports Origin_Laws
begin

text \<open>
  The journal file of the native server (\<open>bunting-server/src/commit_journal.rs\<close>): frames of a
  magic number, a length, a digest and the JSON of one entry, appended one at a time. A file is
  its bytes; what a write leaves of a frame when it fails is an argument of the operation, and
  reading succeeds. The laws: the frames of a file are read back in order whatever part of a
  further frame follows them, and the repair removes that part only.
\<close>

section \<open>Entries and frames\<close>

definition JOURNAL_MAGIC :: "nat list" where
  "JOURNAL_MAGIC = map of_char ''BUNTWAL3''"

definition HEADER_SIZE :: nat where
  "HEADER_SIZE = 48"

definition MAX_RECORD_BYTES :: nat where
  "MAX_RECORD_BYTES = 256 * 1024 * 1024"

datatype commit_entry = GenesisEntry engine_snapshot_envelope | CommandEntry command_record

text \<open>\<open>serde_json::to_vec\<close> and \<open>from_slice\<close> on entries.\<close>

record entry_codec =
  entry_json :: "commit_entry \<Rightarrow> nat list option"
  entry_parse :: "nat list \<Rightarrow> commit_entry option"

definition u64_bytes :: "nat \<Rightarrow> nat list" where
  "u64_bytes n = map (\<lambda>i. n div 256 ^ i mod 256) [0..<8]"

definition u64_of_bytes :: "nat list \<Rightarrow> nat" where
  "u64_of_bytes bytes = foldr (\<lambda>b n. b + 256 * n) bytes 0"

definition journal_frame :: "digests \<Rightarrow> entry_codec \<Rightarrow> commit_entry \<Rightarrow> (nat list, origin_error) result" where
  "journal_frame d codec entry =
     attempt (ok_or InvalidCommit (entry_json codec entry)) (\<lambda>bytes.
     if length bytes = 0 \<or> length bytes > MAX_RECORD_BYTES then Err InvalidCommit
     else Ok (JOURNAL_MAGIC @ u64_bytes (length bytes) @ sha256_of d bytes @ bytes))"

text \<open>\<open>write_all\<close> and \<open>sync_data\<close>: either all bytes are durable, or the call fails and some prefix is.\<close>

datatype write_outcome = Written | WriteFailed nat

definition journal_append ::
    "digests \<Rightarrow> entry_codec \<Rightarrow> commit_entry \<Rightarrow> write_outcome \<Rightarrow> nat list \<Rightarrow> (unit, origin_error) result \<times> nat list" where
  "journal_append d codec entry io file =
     (case journal_frame d codec entry of
        Inl e \<Rightarrow> (Err e, file)
      | Inr bytes \<Rightarrow>
          (case io of
             Written \<Rightarrow> (Ok (), file @ bytes)
           | WriteFailed n \<Rightarrow> (Err Unavailable, file @ take n bytes)))"

section \<open>Scanning\<close>

text \<open>The loop of \<open>scan\<close> over the bytes after \<open>offset\<close>: what the visitor makes of the entries, and the
  offset at which an incomplete frame starts.\<close>

function scan_from ::
    "digests \<Rightarrow> entry_codec \<Rightarrow> (commit_entry \<Rightarrow> 's \<Rightarrow> ('s, origin_error) result) \<Rightarrow> nat list \<Rightarrow> nat \<Rightarrow> 's \<Rightarrow>
     ('s \<times> nat option, origin_error) result" where
  "scan_from d codec visit bytes offset s =
     (if bytes = [] then Ok (s, None)
      else if length bytes < HEADER_SIZE then Ok (s, Some offset)
      else if take 8 bytes \<noteq> JOURNAL_MAGIC then Err InvalidCommit
      else
        let size = u64_of_bytes (take 8 (drop 8 bytes)); body = take size (drop HEADER_SIZE bytes) in
        if size = 0 \<or> size > MAX_RECORD_BYTES then Err InvalidCommit
        else if size > length bytes - HEADER_SIZE then Ok (s, Some offset)
        else if sha256_of d body \<noteq> take 32 (drop 16 bytes) then Err InvalidCommit
        else attempt (ok_or InvalidCommit (entry_parse codec body)) (\<lambda>entry.
             attempt (visit entry s) (\<lambda>s'.
             scan_from d codec visit (drop (HEADER_SIZE + size) bytes) (offset + HEADER_SIZE + size) s')))"
  by pat_completeness auto
termination
  by (relation "measure (\<lambda>(d, codec, visit, bytes, offset, s). length bytes)") (auto simp: HEADER_SIZE_def)

declare scan_from.simps [simp del]

definition journal_scan ::
    "digests \<Rightarrow> entry_codec \<Rightarrow> bool \<Rightarrow> (commit_entry \<Rightarrow> 's \<Rightarrow> ('s, origin_error) result) \<Rightarrow> nat list \<Rightarrow> 's \<Rightarrow>
     ('s, origin_error) result \<times> nat list" where
  "journal_scan d codec repair visit file s =
     (case scan_from d codec visit file 0 s of
        Inl e \<Rightarrow> (Err e, file)
      | Inr (s', None) \<Rightarrow> (Ok s', file)
      | Inr (s', Some offset) \<Rightarrow> (Ok s', if repair then take offset file else file))"

section \<open>Frames are read back\<close>

definition sound_codec :: "entry_codec \<Rightarrow> bool" where
  "sound_codec codec \<longleftrightarrow> (\<forall>e bytes. entry_json codec e = Some bytes \<longrightarrow> entry_parse codec bytes = Some e)"

text \<open>The bytes of a file that holds the frames of some entries.\<close>

fun framed :: "digests \<Rightarrow> entry_codec \<Rightarrow> commit_entry list \<Rightarrow> (nat list, origin_error) result" where
  "framed d codec [] = Ok []"
| "framed d codec (e # es) = attempt (journal_frame d codec e) (\<lambda>f. attempt (framed d codec es) (\<lambda>rest_bytes. Ok (f @ rest_bytes)))"

lemma u64_of_bytes_append: "u64_of_bytes (xs @ [b]) = u64_of_bytes xs + 256 ^ length xs * b"
  by (induction xs) (simp_all add: u64_of_bytes_def algebra_simps)

lemma u64_of_bytes_u64: "n < 2 ^ 64 \<Longrightarrow> u64_of_bytes (u64_bytes n) = n"
proof -
  assume n: "n < 2 ^ 64"
  have "u64_of_bytes (map (\<lambda>i. n div 256 ^ i mod 256) [0..<k]) = n mod 256 ^ k" for k
  proof (induction k)
    case (Suc k)
    then show ?case
      by (simp add: u64_of_bytes_append mod_mult2_eq [of n "256 ^ k" 256, symmetric] mult.commute)
        (metis add.commute mod_mult2_eq mult.commute)
  qed (simp add: u64_of_bytes_def)
  from this [of 8] n show ?thesis
    by (simp add: u64_bytes_def)
qed

lemma u64_bytes_length [simp]: "length (u64_bytes n) = 8"
  by (simp add: u64_bytes_def)

lemma JOURNAL_MAGIC_length [simp]: "length JOURNAL_MAGIC = 8"
  by (simp add: JOURNAL_MAGIC_def)

lemma journal_frameE:
  assumes "journal_frame d codec e = Ok f" "sound_digests d"
  obtains bytes where "entry_json codec e = Some bytes" "f = JOURNAL_MAGIC @ u64_bytes (length bytes) @ sha256_of d bytes @ bytes"
    "0 < length bytes" "length bytes \<le> MAX_RECORD_BYTES" "length (sha256_of d bytes) = 32" "length f = 48 + length bytes"
  using assms by (auto simp: journal_frame_def attempt_Ok_iff ok_or_Ok_iff sound_digests_def split: if_splits)

lemma scan_frame:
  assumes "journal_frame d codec e = Ok f" "sound_digests d" "sound_codec codec"
  shows "scan_from d codec visit (f @ tail) offset s =
    attempt (visit e s) (scan_from d codec visit tail (offset + length f))"
proof -
  obtain bytes where b: "entry_json codec e = Some bytes" "f = JOURNAL_MAGIC @ u64_bytes (length bytes) @ sha256_of d bytes @ bytes"
    "0 < length bytes" "length bytes \<le> MAX_RECORD_BYTES" "length (sha256_of d bytes) = 32" "length f = 48 + length bytes"
    by (rule journal_frameE [OF assms(1,2)])
  have "u64_of_bytes (u64_bytes (length bytes)) = length bytes"
    using b(4) by (intro u64_of_bytes_u64) (simp add: MAX_RECORD_BYTES_def)
  moreover have "entry_parse codec bytes = Some e"
    using assms(3) b(1) by (simp add: sound_codec_def)
  ultimately show ?thesis
    using b(3-5) by (subst scan_from.simps) (auto simp: b(2) HEADER_SIZE_def Let_def add.assoc)
qed

lemma scan_partial:
  assumes "journal_frame d codec e = Ok f" "sound_digests d" "0 < n" "n < length f"
  shows "scan_from d codec visit (take n f) offset s = Ok (s, Some offset)"
proof -
  obtain bytes where b: "entry_json codec e = Some bytes" "f = JOURNAL_MAGIC @ u64_bytes (length bytes) @ sha256_of d bytes @ bytes"
    "0 < length bytes" "length bytes \<le> MAX_RECORD_BYTES" "length (sha256_of d bytes) = 32" "length f = 48 + length bytes"
    by (rule journal_frameE [OF assms(1,2)])
  show ?thesis
  proof (cases "n < 48")
    case True
    then show ?thesis
      using assms(3,4) by (subst scan_from.simps) (auto simp: HEADER_SIZE_def)
  next
    case False
    then have "take 8 (take n f) = JOURNAL_MAGIC" "take 8 (drop 8 (take n f)) = u64_bytes (length bytes)" "length (take n f) - 48 < length bytes"
      using assms(4) b(6) by (auto simp: b(2) take_drop min_def)
    moreover have "u64_of_bytes (u64_bytes (length bytes)) = length bytes"
      using b(4) by (intro u64_of_bytes_u64) (simp add: MAX_RECORD_BYTES_def)
    ultimately show ?thesis
      using False assms(4) b(3,4) by (subst scan_from.simps) (auto simp: HEADER_SIZE_def Let_def)
  qed
qed

lemma scan_framed:
  assumes "sound_digests d" "sound_codec codec"
  shows "framed d codec es = Ok bytes \<Longrightarrow>
    scan_from d codec visit (bytes @ tail) offset s = attempt (try_fold visit es s) (scan_from d codec visit tail (offset + length bytes))"
proof (induction es arbitrary: bytes offset s)
  case (Cons e es)
  obtain f more_bytes where f: "journal_frame d codec e = Ok f" "framed d codec es = Ok more_bytes" "bytes = f @ more_bytes"
    using Cons.prems by (auto simp: attempt_Ok_iff)
  show ?case
    using scan_frame [OF f(1) assms, of visit "more_bytes @ tail" offset s] Cons.IH [OF f(2)]
    by (cases "visit e s") (simp_all add: f(3) add.assoc)
qed simp

text \<open>What is left of a frame that was not written completely.\<close>

definition torn :: "digests \<Rightarrow> entry_codec \<Rightarrow> nat list \<Rightarrow> bool" where
  "torn d codec tail \<longleftrightarrow> tail = [] \<or> (\<exists>e f n. journal_frame d codec e = Ok f \<and> n < length f \<and> tail = take n f)"

lemma scan_torn:
  assumes "sound_digests d" "torn d codec tail"
  shows "scan_from d codec visit tail offset s = Ok (s, if tail = [] then None else Some offset)"
proof (cases "tail = []")
  case True
  then show ?thesis
    by (subst scan_from.simps) simp
next
  case False
  then obtain e f n where "journal_frame d codec e = Ok f" "0 < n" "n < length f" "tail = take n f"
    using assms(2) by (fastforce simp: torn_def)
  with scan_partial [OF _ assms(1)] False show ?thesis
    by simp
qed

lemma journal_scan_framed:
  assumes "sound_digests d" "sound_codec codec" "framed d codec es = Ok bytes" "torn d codec tail"
  shows "journal_scan d codec repair visit (bytes @ tail) s =
    (case try_fold visit es s of Inl e \<Rightarrow> (Err e, bytes @ tail) | Inr s' \<Rightarrow> (Ok s', if repair then bytes else bytes @ tail))"
  using scan_framed [OF assms(1-3), of visit tail 0 s]
  by (cases "try_fold visit es s") (simp_all add: journal_scan_def scan_torn [OF assms(1,4)])

end
