(* ===== verification/File_Origin.thy ===== *)
theory File_Origin
  imports Commit_Journal
begin

text \<open>
  The durable origin of the native server (\<open>bunting-server/src/storage.rs\<close>): live runs in
  memory, every committed input appended to the journal file before it is answered, and a
  checkpoint file that shortens a restart. A disk is the bytes of the two files. The outcome of
  each write is an argument, so that a failed or interrupted write leaves any prefix of a frame,
  and a replacement of the checkpoint takes place or not. The writer lease and the mutex only
  keep other writers out.
\<close>

section \<open>Files\<close>

definition CHECKPOINT_VERSION :: nat where
  "CHECKPOINT_VERSION = 3"

record checkpoint_run =
  cp_snapshot :: engine_snapshot_envelope
  cp_chain :: string

record checkpoint =
  cp_version :: nat
  cp_runs :: "checkpoint_run list"

text \<open>JSON of the checkpoint, beside that of the journal entries.\<close>

record store_codec = entry_codec +
  checkpoint_json :: "checkpoint \<Rightarrow> nat list option"
  checkpoint_parse :: "nat list \<Rightarrow> checkpoint option"

record store_config =
  max_runs :: nat
  store_limits :: run_limits

record file_store =
  fo_runs :: "(run_id, live_run) btree_map"
  fo_journal :: "nat list"
  fo_checkpoint :: "nat list option"
  fo_poisoned :: bool
  fo_config :: store_config

text \<open>\<open>persist_json\<close>: the file is replaced as a whole, or the call fails before or after the renaming.\<close>

datatype persist_outcome = Persisted | PersistFailed bool

definition checkpoint_entry :: "digests \<Rightarrow> live_run \<Rightarrow> (checkpoint_run, origin_error) result" where
  "checkpoint_entry d lr =
     (case checkpoint_state lr of (s, chain) \<Rightarrow>
        attempt (map_err (\<lambda>_. InvalidCommit) (snapshot_new (json_state d) (sha256_of d) s)) (\<lambda>e.
        Ok \<lparr>cp_snapshot = e, cp_chain = chain\<rparr>))"

definition write_checkpoint ::
    "digests \<Rightarrow> store_codec \<Rightarrow> persist_outcome \<Rightarrow> (run_id, live_run) btree_map \<Rightarrow> nat list option \<Rightarrow>
     (unit, origin_error) result \<times> nat list option" where
  "write_checkpoint d codec io runs old =
     (case attempt (try_map (\<lambda>(_, lr). checkpoint_entry d lr) runs) (\<lambda>entries.
             ok_or InvalidCommit (checkpoint_json codec \<lparr>cp_version = CHECKPOINT_VERSION, cp_runs = entries\<rparr>)) of
        Inl e \<Rightarrow> (Err e, old)
      | Inr bytes \<Rightarrow>
          (case io of
             Persisted \<Rightarrow> (Ok (), Some bytes)
           | PersistFailed placed \<Rightarrow> (Err Unavailable, if placed then Some bytes else old)))"

section \<open>Recovery\<close>

definition insert_checkpoint ::
    "digests \<Rightarrow> checkpoint_run \<Rightarrow> (run_id, run_state \<times> string) btree_map \<Rightarrow>
     ((run_id, run_state \<times> string) btree_map, origin_error) result" where
  "insert_checkpoint d c m =
     attempt (map_err (\<lambda>_. InvalidCommit) (snapshot_verify (json_state d) (sha256_of d) (cp_snapshot c))) (\<lambda>_.
     let s = es_state (cp_snapshot c) in
     if bt_get m (rs_run_id s) \<noteq> None then Err InvalidCommit
     else Ok (bt_insert (rs_run_id s) (s, cp_chain c) m))"

definition read_checkpoint ::
    "digests \<Rightarrow> store_codec \<Rightarrow> nat list option \<Rightarrow> ((run_id, run_state \<times> string) btree_map, origin_error) result" where
  "read_checkpoint d codec file =
     (case file of
        None \<Rightarrow> Ok []
      | Some bytes \<Rightarrow>
          attempt (ok_or InvalidCommit (checkpoint_parse codec bytes)) (\<lambda>c.
          if cp_version c \<noteq> CHECKPOINT_VERSION then Err InvalidCommit
          else try_fold (insert_checkpoint d) (cp_runs c) []))"

type_synonym recovering = "(run_id, run_state \<times> string) btree_map \<times> (run_id, run_recovery) btree_map"

definition recover_entry ::
    "digests \<Rightarrow> store_config \<Rightarrow> commit_entry \<Rightarrow> recovering \<Rightarrow> (recovering, origin_error) result" where
  "recover_entry d cfg entry w =
     (case w of (checkpointed, recoveries) \<Rightarrow>
        (case entry of
           GenesisEntry e \<Rightarrow>
             attempt (map_err (\<lambda>_. InvalidCommit) (snapshot_verify (json_state d) (sha256_of d) e)) (\<lambda>_.
             let i = rs_run_id (es_state e) in
             if bt_get recoveries i \<noteq> None \<or> length recoveries \<ge> max_runs cfg then Err InvalidCommit
             else attempt (recovery_new d (es_state e) (bt_get checkpointed i) (store_limits cfg)) (\<lambda>r.
               Ok (bt_remove i checkpointed, bt_insert i r recoveries)))
         | CommandEntry record \<Rightarrow>
             attempt (ok_or InvalidCommit (bt_get recoveries (input_run_id (jr_input record)))) (\<lambda>r.
             case replay d record r of
               (Inl e, _) \<Rightarrow> Err e
             | (Inr _, r') \<Rightarrow> Ok (checkpointed, bt_insert (input_run_id (jr_input record)) r' recoveries))))"

definition finish_each :: "(run_id, run_recovery) btree_map \<Rightarrow> ((run_id, live_run) btree_map, origin_error) result" where
  "finish_each = try_map (\<lambda>(i, r). attempt (recovery_finish r) (\<lambda>lr. Ok (i, lr)))"

text \<open>The recovered runs, and the journal file with its incomplete end cut off.\<close>

definition recover ::
    "digests \<Rightarrow> store_codec \<Rightarrow> store_config \<Rightarrow> nat list option \<Rightarrow> nat list \<Rightarrow>
     ((run_id, live_run) btree_map, origin_error) result \<times> nat list" where
  "recover d codec cfg checkpoint_file journal_file =
     (case read_checkpoint d codec checkpoint_file of
        Inl e \<Rightarrow> (Err e, journal_file)
      | Inr checkpointed \<Rightarrow>
          (case journal_scan d (entry_codec.truncate codec) True (recover_entry d cfg) journal_file (checkpointed, []) of
             (Inl e, file) \<Rightarrow> (Err e, file)
           | (Inr (unused, recoveries), file) \<Rightarrow>
               (if unused \<noteq> [] then Err InvalidCommit else finish_each recoveries, file)))"

section \<open>Operations\<close>

fun checkpoint_runs :: "(run_id, live_run) btree_map \<Rightarrow> (unit, origin_error) result \<times> (run_id, live_run) btree_map" where
  "checkpoint_runs [] = (Ok (), [])"
| "checkpoint_runs ((i, lr) # runs) =
     (case live_checkpoint lr of
        (Inl e, lr') \<Rightarrow> (Err e, (i, lr') # runs)
      | (Inr _, lr') \<Rightarrow> (case checkpoint_runs runs of (answer, runs') \<Rightarrow> (answer, (i, lr') # runs')))"

text \<open>\<open>open\<close> on the two files of a disk; a journal that is missing is \<open>None\<close>.\<close>

definition store_open ::
    "digests \<Rightarrow> store_codec \<Rightarrow> store_config \<Rightarrow> persist_outcome \<Rightarrow> nat list option \<Rightarrow> nat list option \<Rightarrow>
     (file_store, origin_error) result" where
  "store_open d codec cfg io journal_file checkpoint_file =
     (if checkpoint_file \<noteq> None \<and> journal_file = None then Err InvalidCommit
      else
        case recover d codec cfg checkpoint_file (case journal_file of None \<Rightarrow> [] | Some bytes \<Rightarrow> bytes) of
          (Inl e, _) \<Rightarrow> Err e
        | (Inr runs, file) \<Rightarrow>
            let st = \<lparr>fo_runs = runs, fo_journal = file, fo_checkpoint = checkpoint_file, fo_poisoned = False, fo_config = cfg\<rparr> in
            if list_ex (\<lambda>(_, lr). needs_checkpoint lr) runs
            then (case checkpoint_runs runs of
                    (Inl e, _) \<Rightarrow> Err e
                  | (Inr _, runs') \<Rightarrow>
                      Ok (st\<lparr>fo_runs := runs', fo_checkpoint := snd (write_checkpoint d codec io runs' checkpoint_file)\<rparr>))
            else Ok st)"

definition store_insert_run ::
    "digests \<Rightarrow> store_codec \<Rightarrow> run_state \<Rightarrow> write_outcome \<Rightarrow> file_store \<Rightarrow> (unit, origin_error) result \<times> file_store" where
  "store_insert_run d codec s io st =
     (if fo_poisoned st then (Err Unavailable, st)
      else
        case bt_get (fo_runs st) (rs_run_id s) of
          Some existing \<Rightarrow> (attempt (live_state existing) (\<lambda>s'. if s' = s then Ok () else Err InvalidCommit), st)
        | None \<Rightarrow>
            if length (fo_runs st) \<ge> max_runs (fo_config st) then (Err CapacityExceeded, st)
            else
              (case attempt (map_err (\<lambda>_. InvalidCommit) (snapshot_new (json_state d) (sha256_of d) s)) (\<lambda>e.
                      attempt (live_genesis d s (store_limits (fo_config st))) (\<lambda>lr. Ok (e, lr))) of
                 Inl e \<Rightarrow> (Err e, st)
               | Inr (snapshot, lr) \<Rightarrow>
                   (case journal_append d (entry_codec.truncate codec) (GenesisEntry snapshot) io (fo_journal st) of
                      (Inl e, file) \<Rightarrow> (Err e, st\<lparr>fo_journal := file, fo_poisoned := True\<rparr>)
                    | (Inr _, file) \<Rightarrow>
                        (Ok (), st\<lparr>fo_journal := file, fo_runs := bt_insert (rs_run_id s) lr (fo_runs st)\<rparr>))))"

text \<open>The last part of \<open>execute_admitted\<close>: the committed record becomes durable.\<close>

definition store_commit ::
    "digests \<Rightarrow> store_codec \<Rightarrow> run_id \<Rightarrow> command_record \<Rightarrow> live_run \<Rightarrow> write_outcome \<Rightarrow> persist_outcome \<Rightarrow> file_store \<Rightarrow>
     (executed, origin_error) result \<times> file_store" where
  "store_commit d codec i record lr io pio st =
     (case journal_append d (entry_codec.truncate codec) (CommandEntry record) io (fo_journal st) of
        (Inl e, file) \<Rightarrow>
          (Err e, st\<lparr>fo_runs := bt_insert i lr (fo_runs st), fo_journal := file, fo_poisoned := True\<rparr>)
      | (Inr _, file) \<Rightarrow>
          let st1 = st\<lparr>fo_journal := file\<rparr> in
          if needs_checkpoint lr
          then (case live_checkpoint lr of
                  (Inl e, lr') \<Rightarrow> (Err e, st1\<lparr>fo_runs := bt_insert i lr' (fo_runs st)\<rparr>)
                | (Inr _, lr') \<Rightarrow>
                    let runs = bt_insert i lr' (fo_runs st) in
                    (Ok (executed_of (Committed record)),
                     st1\<lparr>fo_runs := runs, fo_checkpoint := snd (write_checkpoint d codec pio runs (fo_checkpoint st))\<rparr>))
          else (Ok (executed_of (Committed record)), st1\<lparr>fo_runs := bt_insert i lr (fo_runs st)\<rparr>))"

definition store_execute ::
    "digests \<Rightarrow> store_codec \<Rightarrow> journal_input \<Rightarrow> admission_record option \<Rightarrow> write_outcome \<Rightarrow> persist_outcome \<Rightarrow> file_store \<Rightarrow>
     (executed, origin_error) result \<times> file_store" where
  "store_execute d codec input admission io pio st =
     (if fo_poisoned st then (Err Unavailable, st)
      else
        case bt_get (fo_runs st) (input_run_id input) of
          None \<Rightarrow> (Err UnknownRun, st)
        | Some lr \<Rightarrow>
            (case live_execute d input admission lr of
               (Inl e, lr') \<Rightarrow> (Err e, st\<lparr>fo_runs := bt_insert (input_run_id input) lr' (fo_runs st)\<rparr>)
             | (Inr (Duplicate result), lr') \<Rightarrow>
                 (Ok (executed_of (Duplicate result)), st\<lparr>fo_runs := bt_insert (input_run_id input) lr' (fo_runs st)\<rparr>)
             | (Inr (Committed record), lr') \<Rightarrow> store_commit d codec (input_run_id input) record lr' io pio st))"

definition store_checkpoint ::
    "digests \<Rightarrow> store_codec \<Rightarrow> persist_outcome \<Rightarrow> file_store \<Rightarrow> (unit, origin_error) result \<times> file_store" where
  "store_checkpoint d codec pio st =
     (if fo_poisoned st then (Err Unavailable, st)
      else
        case checkpoint_runs (fo_runs st) of
          (Inl e, runs) \<Rightarrow> (Err e, st\<lparr>fo_runs := runs\<rparr>)
        | (Inr _, runs) \<Rightarrow>
            (case write_checkpoint d codec pio runs (fo_checkpoint st) of
               (answer, file) \<Rightarrow> (answer, st\<lparr>fo_runs := runs, fo_checkpoint := file\<rparr>)))"

definition store_read_run :: "file_store \<Rightarrow> run_id \<Rightarrow> (run_state \<Rightarrow> 'a) \<Rightarrow> ('a, origin_error) result" where
  "store_read_run st i read =
     (if fo_poisoned st then Err Unavailable
      else attempt (ok_or UnknownRun (bt_get (fo_runs st) i)) (\<lambda>lr. attempt (live_state lr) (\<lambda>s. Ok (read s))))"

definition store_find_command ::
    "file_store \<Rightarrow> run_id \<Rightarrow> command_id \<Rightarrow> ((string \<times> command_result) option, origin_error) result" where
  "store_find_command st i c =
     (if fo_poisoned st then Err Unavailable
      else attempt (ok_or UnknownRun (bt_get (fo_runs st) i)) (\<lambda>lr. Ok (live_find lr c)))"

definition collect_events ::
    "run_id \<Rightarrow> commit_entry \<Rightarrow> event_envelope list \<Rightarrow> (event_envelope list, origin_error) result" where
  "collect_events i entry evs =
     Ok (case entry of
           CommandEntry record \<Rightarrow> if input_run_id (jr_input record) = i then evs @ jr_events record else evs
         | GenesisEntry _ \<Rightarrow> evs)"

definition store_events ::
    "digests \<Rightarrow> store_codec \<Rightarrow> run_id \<Rightarrow> file_store \<Rightarrow> (event_envelope list, origin_error) result" where
  "store_events d codec i st =
     (if fo_poisoned st then Err Unavailable
      else if bt_get (fo_runs st) i = None then Err UnknownRun
      else fst (journal_scan d (entry_codec.truncate codec) False (collect_events i) (fo_journal st) []))"

definition collect_run ::
    "run_id \<Rightarrow> commit_entry \<Rightarrow> engine_snapshot_envelope option \<times> command_record list \<Rightarrow>
     (engine_snapshot_envelope option \<times> command_record list, origin_error) result" where
  "collect_run i entry w =
     (case (entry, w) of
        (GenesisEntry e, genesis, records) \<Rightarrow>
          if rs_run_id (es_state e) \<noteq> i then Ok w
          else if genesis \<noteq> None then Err InvalidCommit else Ok (Some e, records)
      | (CommandEntry record, genesis, records) \<Rightarrow>
          if input_run_id (jr_input record) \<noteq> i then Ok w
          else if genesis = None then Err InvalidCommit else Ok (genesis, records @ [record]))"

definition read_run_journal ::
    "digests \<Rightarrow> store_codec \<Rightarrow> nat list \<Rightarrow> run_id \<Rightarrow> (engine_snapshot_envelope \<times> command_record list, origin_error) result" where
  "read_run_journal d codec file i =
     attempt (fst (journal_scan d (entry_codec.truncate codec) False (collect_run i) file (None, []))) (\<lambda>(genesis, records).
     attempt (ok_or UnknownRun genesis) (\<lambda>e. Ok (e, records)))"

end
