(* ===== verification/Simulation_Invariant.thy ===== *)
theory Simulation_Invariant
  imports Simulation_Laws
begin

text \<open>
  Invariants of the simulation domain across its commands: the run clock never moves
  back, scheduled actions are applied exactly when due and in order, facilities are never
  booked beyond their capacity, and a closed tender or negotiation never changes again.
\<close>

subsection \<open>The clock\<close>

lemma apply_scheduled_clock: "apply_scheduled a w = Ok w' \<Longrightarrow> clock (snd w') = clock (snd w)"
  by (cases "action_kind a") (auto simp: apply_scheduled_def Let_def result_simps)

lemma apply_due_clock: "apply_due a w = Ok w' \<Longrightarrow> clock (snd (snd w')) = clock (snd (snd w))"
  by (auto simp: apply_due_def result_simps dest!: apply_scheduled_clock)

lemma apply_dues_clock:
  assumes "try_fold apply_due as w = Ok w'"
  shows "clock (snd (snd w')) = clock (snd (snd w))"
  using assms
  by (rule try_fold_inv [where P = "\<lambda>u. clock (snd (snd u)) = clock (snd (snd w))"])
    (auto dest: apply_due_clock)

lemma catch_up_clock:
  assumes "simulation_catch_up s ctx now sweep = Ok (evs, ctx', s')"
  shows "clock s' = (clock s)\<lparr>clock_now := now\<rparr>" and "clock_now (clock s) \<le> now"
  using assms
proof (atomize (full), cases rule: catch_up_Ok)
  case (1 de s2)
  from apply_dues_clock [OF 1(2)] 1(1,3) show "clock s' = (clock s)\<lparr>clock_now := now\<rparr> \<and> clock_now (clock s) \<le> now"
    by (cases sweep) simp_all
qed

lemma advance_clock: "advance s ctx n = Ok (evs, ctx', s') \<Longrightarrow> clock_now (clock s) \<le> clock_now (clock s')"
  by (auto simp: advance_def Let_def result_simps dest!: catch_up_clock(1) split: if_splits)

lemma arm_clocks:
  "change_lifecycle required new status s ctx = Ok (evs, ctx', s') \<Longrightarrow> clock_now (clock s') = clock_now (clock s)"
  "set_pacing s ctx actor at mode reason = Ok (evs, ctx', s') \<Longrightarrow> clock_now (clock s') = clock_now (clock s)"
  "terminate s ctx actor at reason = Ok (evs, ctx', s') \<Longrightarrow> clock_now (clock s') = clock_now (clock s)"
  "set_listing_halt s ctx actor at i h reason = Ok (evs, ctx', s') \<Longrightarrow> clock_now (clock s') = clock_now (clock s)"
  "open_tender s ctx at ti p ins sd q price expires = Ok (evs, ctx', s') \<Longrightarrow> clock_now (clock s') = clock_now (clock s)"
  "open_otc s ctx actor at ti cp ins sd q price expires = Ok (evs, ctx', s') \<Longrightarrow> clock_now (clock s') = clock_now (clock s)"
  "schedule_cashflow s ctx p c amount eff reason = Ok (evs, ctx', s') \<Longrightarrow> clock_now (clock s') = clock_now (clock s)"
  "apply_fine s ctx actor at p c amount reason = Ok (evs, ctx', s') \<Longrightarrow> clock_now (clock s') = clock_now (clock s)"
  "schedule_facility_job s ctx at f p inp outp completes = Ok (evs, ctx', s') \<Longrightarrow> clock_now (clock s') = clock_now (clock s)"
  "score_iteration s ctx = Ok (evs, ctx', s') \<Longrightarrow> clock_now (clock s') = clock_now (clock s)"
  by (auto simp: change_lifecycle_def set_pacing_def terminate_def set_listing_halt_def open_tender_def open_otc_def
      schedule_cashflow_def apply_fine_def schedule_facility_job_def score_iteration_def record_admin_def next_action_def
      Let_def result_simps split: if_splits dest!: schedule_frame)

lemma publish_news_clock:
  "publish_news s ctx at ni audience hl bod = Ok (evs, ctx', s') \<Longrightarrow> clock_now (clock s') = clock_now (clock s)"
  by (auto simp: publish_news_def route_news_def Let_def split: if_splits news_audience.splits)

lemma decide_tender_clock:
  "decide_tender s ctx actor at ti d = Ok (evs, ctx', s') \<Longrightarrow> clock_now (clock s') = clock_now (clock s)"
  by (auto simp: decide_tender_def Let_def result_simps split: if_splits)

lemma counter_otc_clock:
  "counter_otc s ctx actor at ti q price = Ok (evs, ctx', s') \<Longrightarrow> clock_now (clock s') = clock_now (clock s)"
  by (auto simp: counter_otc_def Let_def attempt_Ok_iff if_Err_Ok_iff split del: if_split)

lemma decide_otc_clock: "decide_otc s ctx actor at ti d = Ok (evs, ctx', s') \<Longrightarrow> clock_now (clock s') = clock_now (clock s)"
  by (cases d) (auto simp: decide_otc_def Let_def result_simps split del: if_split)

lemma simulation_apply_clock:
  assumes "simulation_apply s ctx actor at cmd = Ok (evs, ctx', s')"
  shows "clock_now (clock s) \<le> clock_now (clock s')"
  using assms
  by (cases cmd) (auto simp: simulation_apply_def dest!: advance_clock arm_clocks publish_news_clock
      decide_tender_clock counter_otc_clock decide_otc_clock split: if_splits)

lemma project_event_frame:
  "project_event s at p = Ok s' \<Longrightarrow>
     s'\<lparr>market := [], market_by_listing := []\<rparr> = s\<lparr>market := [], market_by_listing := []\<rparr>"
  by (cases p) (auto simp: project_event_def project_trade_def Let_def result_simps split: option.splits)

lemma project_event_clock:
  assumes "project_event s at p = Ok s'"
  shows "clock s' = clock s \<and> lifecycle s' = lifecycle s"
  using arg_cong [OF project_event_frame [OF assms], of clock] arg_cong [OF project_event_frame [OF assms], of lifecycle]
  by simp

subsection \<open>What a command may change\<close>

text \<open>The parts of the simulation that most commands leave alone.\<close>

definition deals where
  "deals s = (facilities s, scheduled_actions s, applied_actions s, facility_jobs s, tenders s, otc s, clock_now (clock s))"

lemma simulation_apply_cases:
  assumes "simulation_apply s ctx actor at cmd = Ok (evs, ctx', s')"
  obtains (other) "deals s' = deals s"
    | (advance) n where "advance s ctx n = Ok (evs, ctx', s')"
    | (open_tender) i p ins sd q price expires where "open_tender s ctx at i p ins sd q price expires = Ok (evs, ctx', s')"
    | (decide_tender) i d where "decide_tender s ctx actor at i d = Ok (evs, ctx', s')"
    | (open_otc) i cp ins sd q price expires where "open_otc s ctx actor at i cp ins sd q price expires = Ok (evs, ctx', s')"
    | (counter_otc) i q price where "counter_otc s ctx actor at i q price = Ok (evs, ctx', s')"
    | (decide_otc) i d where "decide_otc s ctx actor at i d = Ok (evs, ctx', s')"
    | (schedule_cashflow) p c amount eff reason where "schedule_cashflow s ctx p c amount eff reason = Ok (evs, ctx', s')"
    | (schedule_job) f p inp outp completes where "schedule_facility_job s ctx at f p inp outp completes = Ok (evs, ctx', s')"
proof (cases cmd)
  case (PublishNews i audience hl bod)
  then show ?thesis
    using assms by (intro other) (auto simp: simulation_apply_def publish_news_def route_news_def deals_def
        split: if_splits news_audience.splits)
qed (use assms in \<open>auto simp: simulation_apply_def split: if_splits intro: that(2-9)\<close>;
    use assms in \<open>auto simp: simulation_apply_def change_lifecycle_def set_pacing_def terminate_def set_listing_halt_def
      apply_fine_def score_iteration_def record_admin_def Let_def result_simps deals_def split: if_splits intro!: that(1)\<close>)+

subsection \<open>The schedule\<close>

definition schedule_ok :: "simulation_state \<Rightarrow> bool" where
  "schedule_ok s \<longleftrightarrow> sorted (map action_key (scheduled_actions s))"

lemma apply_dues_effect:
  assumes "try_fold apply_due as (evs, w) = Ok (evs', w')"
  shows "evs' = evs @ map (ScheduledActionApplied \<circ> action_id) as"
    and "set (applied_actions (snd w')) = set (applied_actions (snd w)) \<union> action_id ` set as"
    and "scheduled_actions (snd w') = scheduled_actions (snd w)"
    and "tenders (snd w') = tenders (snd w)" and "otc (snd w') = otc (snd w)" and "facilities (snd w') = facilities (snd w)"
proof -
  have one: "applied_actions (snd v) = applied_actions (snd u) \<and> scheduled_actions (snd v) = scheduled_actions (snd u) \<and>
      tenders (snd v) = tenders (snd u) \<and> otc (snd v) = otc (snd u) \<and> facilities (snd v) = facilities (snd u)"
    if "apply_scheduled a u = Ok v" for a u v
    using that by (cases "action_kind a") (auto simp: apply_scheduled_def Let_def result_simps)
  have "evs' = evs @ map (ScheduledActionApplied \<circ> action_id) as \<and>
    set (applied_actions (snd w')) = set (applied_actions (snd w)) \<union> action_id ` set as \<and>
    scheduled_actions (snd w') = scheduled_actions (snd w) \<and> tenders (snd w') = tenders (snd w) \<and>
    otc (snd w') = otc (snd w) \<and> facilities (snd w') = facilities (snd w)"
    using assms
  proof (induction as arbitrary: evs w)
    case (Cons a as)
    obtain ctx u where u: "apply_scheduled a w = Ok (ctx, u)"
      and rest: "try_fold apply_due as (evs @ [ScheduledActionApplied (action_id a)],
        (ctx, u\<lparr>applied_actions := bs_insert (action_id a) (applied_actions u)\<rparr>)) = Ok (evs', w')"
      using Cons.prems by (auto simp: apply_due_def [of a] result_simps)
    show ?case
      using Cons.IH [OF rest] one [OF u] by auto
  qed simp
  then show "evs' = evs @ map (ScheduledActionApplied \<circ> action_id) as"
    "set (applied_actions (snd w')) = set (applied_actions (snd w)) \<union> action_id ` set as"
    "scheduled_actions (snd w') = scheduled_actions (snd w)"
    "tenders (snd w') = tenders (snd w)" "otc (snd w') = otc (snd w)" "facilities (snd w') = facilities (snd w)"
    by blast+
qed

text \<open>Sorted by time, the due actions are exactly the prefix that is taken.\<close>

lemma schedule_split:
  assumes "schedule_ok s"
  shows "takeWhile (\<lambda>a. effective_at a \<le> now) (scheduled_actions s) = filter (\<lambda>a. effective_at a \<le> now) (scheduled_actions s)"
    and "dropWhile (\<lambda>a. effective_at a \<le> now) (scheduled_actions s) = filter (\<lambda>a. now < effective_at a) (scheduled_actions s)"
proof -
  have "takeWhile (\<lambda>a. effective_at a \<le> now) as = filter (\<lambda>a. effective_at a \<le> now) as \<and>
    dropWhile (\<lambda>a. effective_at a \<le> now) as = filter (\<lambda>a. now < effective_at a) as"
    if "sorted (map action_key as)" for as
    using that
  proof (induction as)
    case (Cons a as)
    have later: "effective_at a \<le> effective_at b" if "b \<in> set as" for b
      using Cons.prems that by (auto simp: action_key_def)
    show ?case
    proof (cases "effective_at a \<le> now")
      case False
      then have "\<forall>b \<in> set as. now < effective_at b"
        using later by fastforce
      then have "filter (\<lambda>a. effective_at a \<le> now) as = []" "filter (\<lambda>a. now < effective_at a) as = as"
        by (auto simp: filter_empty_conv filter_id_conv)
      then show ?thesis
        using False by simp
    qed (use Cons in simp)
  qed simp
  then show "takeWhile (\<lambda>a. effective_at a \<le> now) (scheduled_actions s) = filter (\<lambda>a. effective_at a \<le> now) (scheduled_actions s)"
    "dropWhile (\<lambda>a. effective_at a \<le> now) (scheduled_actions s) = filter (\<lambda>a. now < effective_at a) (scheduled_actions s)"
    using assms by (auto simp: schedule_ok_def)
qed

lemma catch_up_schedule:
  assumes "simulation_catch_up s ctx now sweep = Ok (evs, ctx', s')" and "schedule_ok s"
  shows "scheduled_actions s' = filter (\<lambda>a. now < effective_at a) (scheduled_actions s)"
    and "set (applied_actions s') = set (applied_actions s) \<union>
      action_id ` {a \<in> set (scheduled_actions s). effective_at a \<le> now}"
    and "\<exists>swept. evs = map (ScheduledActionApplied \<circ> action_id) (filter (\<lambda>a. effective_at a \<le> now) (scheduled_actions s)) @ swept \<and>
      (sweep \<or> swept = [])"
proof (atomize (full), goal_cases)
  case 1
  from assms(1) show ?case
  proof (cases rule: catch_up_Ok)
    case (1 de s2)
    note eff = apply_dues_effect [OF 1(2)]
    show ?thesis
      using 1(3) eff(1-3) schedule_split [OF assms(2), of now] by (cases sweep) auto
  qed
qed

lemma schedule_ok_cong: "scheduled_actions s' = scheduled_actions s \<Longrightarrow> schedule_ok s' \<longleftrightarrow> schedule_ok s"
  by (simp add: schedule_ok_def)

lemma schedule_ok_filter: "schedule_ok s \<Longrightarrow> scheduled_actions s' = filter P (scheduled_actions s) \<Longrightarrow> schedule_ok s'"
  by (simp add: schedule_ok_def sorted_filter)

lemma catch_up_schedule_ok: "simulation_catch_up s ctx now sweep = Ok (evs, ctx', s') \<Longrightarrow> schedule_ok s \<Longrightarrow> schedule_ok s'"
  using catch_up_schedule(1) schedule_ok_filter by blast

lemma schedule_schedule_ok: "schedule s a = Ok s' \<Longrightarrow> schedule_ok s'"
  by (auto dest!: schedule_frame simp: schedule_ok_def)

lemma simulation_apply_schedule_ok:
  assumes "simulation_apply s ctx actor at cmd = Ok (evs, ctx', s')" and "schedule_ok s"
  shows "schedule_ok s'"
  using assms(1)
proof (cases rule: simulation_apply_cases)
  case other
  then show ?thesis
    using assms(2) by (simp add: deals_def schedule_ok_def)
next
  case (advance n)
  then show ?thesis
    using assms(2) by (auto simp: advance_def Let_def result_simps dest: catch_up_schedule_ok split: if_splits)
next
  case (schedule_cashflow p c amount eff reason)
  then show ?thesis
    by (auto simp: schedule_cashflow_def Let_def result_simps case_prod_unfold dest: schedule_schedule_ok)
next
  case (schedule_job f p inp outp completes)
  then show ?thesis
    by (auto simp: schedule_facility_job_def Let_def result_simps case_prod_unfold dest: schedule_schedule_ok)
next
  case (counter_otc i q price)
  then have "scheduled_actions s' = scheduled_actions s"
    by (auto simp: counter_otc_def Let_def attempt_Ok_iff if_Err_Ok_iff split del: if_split)
  then show ?thesis
    using assms(2) schedule_ok_cong by blast
next
  case (decide_otc i d)
  then have "scheduled_actions s' = scheduled_actions s"
    by (cases d) (auto simp: decide_otc_def Let_def result_simps split del: if_split)
  then show ?thesis
    using assms(2) schedule_ok_cong by blast
qed (use assms(2) in \<open>auto simp: open_tender_def decide_tender_def open_otc_def Let_def result_simps schedule_ok_def split: if_splits\<close>)

subsection \<open>Facility capacity\<close>

definition booked :: "facility_id \<Rightarrow> nat \<Rightarrow> facility_job \<Rightarrow> int" where
  "booked f j job = (if job_facility_id job = f \<and> \<not> completed job then input_quantity job else 0)"

definition facility_load :: "simulation_state \<Rightarrow> facility_id \<Rightarrow> int" where
  "facility_load s f = (\<Sum>(j, job) \<leftarrow> facility_jobs s. booked f j job)"

definition capacity_ok :: "simulation_state \<Rightarrow> bool" where
  "capacity_ok s \<longleftrightarrow>
     bt_wf (facility_jobs s) \<and> (\<forall>j job. bt_get (facility_jobs s) j = Some job \<longrightarrow> 0 < input_quantity job) \<and>
     (\<forall>f d. bt_get (facilities s) f = Some d \<longrightarrow> facility_load s f \<le> fd_capacity d)"

lemma reserved_capacity_load:
  assumes "reserved_capacity s f = Some held"
  shows "held = facility_load s f"
proof -
  have "held = acc + (\<Sum>job \<leftarrow> jobs. input_quantity job)"
    if "foldl (\<lambda>acc job. Option.bind acc (\<lambda>tot. i64_checked_add tot (input_quantity job))) (Some acc) jobs = Some held"
    for acc and jobs :: "facility_job list"
    using that
  proof (induction jobs arbitrary: acc)
    case (Cons job jobs)
    have none: "foldl (\<lambda>acc job. Option.bind acc (\<lambda>tot. i64_checked_add tot (input_quantity job))) None js = None"
      for js :: "facility_job list"
      by (induction js) auto
    show ?case
    proof (cases "i64_checked_add acc (input_quantity job)")
      case (Some a)
      then have "a = acc + input_quantity job"
        by (simp add: i64_checked_add_def checked_i64_def split: if_splits)
      then show ?thesis
        using Cons.IH [of a] Cons.prems Some by simp
    qed (use Cons.prems none in simp)
  qed simp
  from this [OF assms [unfolded reserved_capacity_def]]
  have "held = (\<Sum>job \<leftarrow> filter (\<lambda>job. job_facility_id job = f \<and> \<not> completed job) (map snd (facility_jobs s)). input_quantity job)"
    by simp
  also have "\<dots> = facility_load s f"
    by (simp add: facility_load_def booked_def sum_list_map_filter' comp_def case_prod_unfold)
  finally show ?thesis .
qed

lemma load_insert:
  assumes "bt_wf (facility_jobs s)" and "facility_jobs s' = bt_insert j job (facility_jobs s)"
  shows "facility_load s' f = facility_load s f - (case bt_get (facility_jobs s) j of None \<Rightarrow> 0 | Some old \<Rightarrow> booked f j old) + booked f j job"
  unfolding facility_load_def assms(2) by (rule bt.sum_ins [OF assms(1)])

lemma capacity_ok_cong: "facility_jobs s' = facility_jobs s \<Longrightarrow> facilities s' = facilities s \<Longrightarrow> capacity_ok s' \<longleftrightarrow> capacity_ok s"
  by (simp add: capacity_ok_def facility_load_def)

lemma apply_scheduled_capacity:
  assumes "apply_scheduled a w = Ok w'" and "capacity_ok (snd w)"
  shows "capacity_ok (snd w')"
proof (cases "\<exists>j. action_kind a = CompleteFacilityJob j")
  case True
  then obtain j job where job: "bt_get (facility_jobs (snd w)) j = Some job"
    and s': "snd w' = (snd w)\<lparr>facility_jobs := bt_insert j (job\<lparr>completed := True\<rparr>) (facility_jobs (snd w))\<rparr>"
    using assms(1) by (auto simp: apply_scheduled_def Let_def result_simps)
  have pos: "0 < input_quantity job"
    using assms(2) job by (simp add: capacity_ok_def)
  have "facility_load (snd w') f \<le> facility_load (snd w) f" for f
    using load_insert [of "snd w" "snd w'" j "job\<lparr>completed := True\<rparr>" f] assms(2) job less_imp_le [OF pos] s'
    by (simp add: capacity_ok_def booked_def)
  then have "bt_get (facilities (snd w)) f = Some d \<Longrightarrow> facility_load (snd w') f \<le> fd_capacity d" for f d
    using assms(2) order_trans unfolding capacity_ok_def by blast
  then have "\<forall>f d. bt_get (facilities (snd w')) f = Some d \<longrightarrow> facility_load (snd w') f \<le> fd_capacity d"
    by (simp add: s')
  moreover have "bt_wf (facility_jobs (snd w'))" "\<forall>j job. bt_get (facility_jobs (snd w')) j = Some job \<longrightarrow> 0 < input_quantity job"
    using assms(2) pos by (auto simp: capacity_ok_def s')
  ultimately show ?thesis
    by (simp only: capacity_ok_def)
next
  case False
  then have "facility_jobs (snd w') = facility_jobs (snd w)" "facilities (snd w') = facilities (snd w)"
    using assms(1) by (cases "action_kind a"; auto simp: apply_scheduled_def Let_def result_simps)+
  then show ?thesis
    using assms(2) capacity_ok_cong by blast
qed

lemma catch_up_capacity:
  assumes "simulation_catch_up s ctx now sweep = Ok (evs, ctx', s')" and "capacity_ok s"
  shows "capacity_ok s'"
  using assms(1)
proof (cases rule: catch_up_Ok)
  case (1 de s2)
  have "capacity_ok (snd (snd (de, (ctx', s2))))"
    using 1(2)
  proof (rule try_fold_inv [where P = "\<lambda>w. capacity_ok (snd (snd w))"])
    fix a u v
    assume "capacity_ok (snd (snd u))" "apply_due a u = Ok v"
    then show "capacity_ok (snd (snd v))"
      by (auto simp: apply_due_def result_simps dest!: apply_scheduled_capacity) (simp add: capacity_ok_def facility_load_def)
  qed (use assms(2) in \<open>simp add: capacity_ok_def facility_load_def\<close>)
  then show ?thesis
    using 1(3) capacity_ok_cong [of s' s2] by (cases sweep) simp_all
qed

lemma schedule_job_capacity:
  assumes "schedule_facility_job s ctx at f p inp outp completes = Ok (evs, ctx', s')" and "capacity_ok s"
  shows "capacity_ok s'"
proof -
  obtain d held job where d: "bt_get (facilities s) f = Some d" and held: "reserved_capacity s f = Some held"
    and inp: "0 < inp" and fits: "held + inp \<le> fd_capacity d"
    and jobs: "facility_jobs s' = bt_insert (next_action_id s) job (facility_jobs s)" "facilities s' = facilities s"
    and job: "job_facility_id job = f" "input_quantity job = inp" "\<not> completed job"
    using assms(1)
    by (auto simp: schedule_facility_job_def next_action_def Let_def result_simps i64_checked_add_def
        split: if_splits option.splits dest!: schedule_frame)
  have wf: "bt_wf (facility_jobs s)"
    using assms(2) by (simp add: capacity_ok_def)
  have old: "0 \<le> (case bt_get (facility_jobs s) (next_action_id s) of None \<Rightarrow> 0 | Some old \<Rightarrow> booked g (next_action_id s) old)" for g
    using assms(2) by (auto simp: capacity_ok_def booked_def less_imp_le split: option.splits)
  have load: "facility_load s' g \<le> (if g = f then held + inp else facility_load s g)" for g
    using load_insert [OF wf jobs(1), of g] old [of g] reserved_capacity_load [OF held] job by (simp add: booked_def)
  have "bt_get (facilities s') g = Some e \<Longrightarrow> facility_load s' g \<le> fd_capacity e" for g e
    using load [of g] assms(2) d fits jobs(2) unfolding capacity_ok_def by (cases "g = f") fastforce+
  then show ?thesis
    using assms(2) jobs(1) job inp by (auto simp: capacity_ok_def)
qed

lemma simulation_apply_capacity:
  assumes "simulation_apply s ctx actor at cmd = Ok (evs, ctx', s')" and "capacity_ok s"
  shows "capacity_ok s'"
  using assms(1)
proof (cases rule: simulation_apply_cases)
  case other
  then show ?thesis
    using assms(2) capacity_ok_cong [of s' s] by (simp add: deals_def)
next
  case (advance n)
  then show ?thesis
    using assms(2) by (auto simp: advance_def Let_def result_simps dest: catch_up_capacity split: if_splits)
next
  case (schedule_job f p inp outp completes)
  then show ?thesis
    using schedule_job_capacity assms(2) by blast
next
  case (counter_otc i q price)
  then have "facility_jobs s' = facility_jobs s" "facilities s' = facilities s"
    by (auto simp: counter_otc_def Let_def attempt_Ok_iff if_Err_Ok_iff split del: if_split)
  then show ?thesis
    using assms(2) capacity_ok_cong by blast
next
  case (decide_otc i d)
  then have "facility_jobs s' = facility_jobs s" "facilities s' = facilities s"
    by (cases d; auto simp: decide_otc_def Let_def result_simps split del: if_split)+
  then show ?thesis
    using assms(2) capacity_ok_cong by blast
qed (use assms(2) in \<open>auto simp: open_tender_def decide_tender_def open_otc_def schedule_cashflow_def next_action_def Let_def
    result_simps capacity_ok_def facility_load_def split: if_splits dest!: schedule_frame\<close>)

subsection \<open>Closed deals\<close>

text \<open>A tender or a negotiation that is no longer open stays as it is.\<close>

definition deals_final :: "simulation_state \<Rightarrow> simulation_state \<Rightarrow> bool" where
  "deals_final s s' \<longleftrightarrow>
     (\<forall>i t. bt_get (tenders s) i = Some t \<longrightarrow> \<not> tender_open t \<longrightarrow> bt_get (tenders s') i = Some t) \<and>
     (\<forall>i n. bt_get (otc s) i = Some n \<longrightarrow> \<not> otc_open n \<longrightarrow> bt_get (otc s') i = Some n)"

lemma deals_final_refl [simp]: "tenders s' = tenders s \<Longrightarrow> otc s' = otc s \<Longrightarrow> deals_final s s'"
  by (simp add: deals_final_def)

lemma deals_final_trans: "deals_final s t \<Longrightarrow> deals_final t u \<Longrightarrow> deals_final s u"
  by (simp add: deals_final_def)

lemma bt_get_map_values: "bt_get (map (\<lambda>(k, v). (k, g v)) m) i = map_option g (bt_get m i)"
  by (induction m) auto

lemma sweeps_final: "deals_final s (snd (sweep_otc now (snd (sweep_tenders now s))))"
  by (auto simp: deals_final_def sweep_otc_def sweep_tenders_def Let_def bt_get_map_values)

lemma catch_up_final:
  assumes "simulation_catch_up s ctx now sweep = Ok (evs, ctx', s')"
  shows "deals_final s s'"
  using assms
proof (cases rule: catch_up_Ok)
  case (1 de s2)
  have "deals_final s s2"
    using apply_dues_effect(4,5) [OF 1(2)] by simp
  then show ?thesis
    using 1(3) sweeps_final [of s2 now] deals_final_trans [of s s2 s'] by (cases sweep) simp_all
qed

lemma simulation_apply_final:
  assumes "simulation_apply s ctx actor at cmd = Ok (evs, ctx', s')"
  shows "deals_final s s'"
  using assms
proof (cases rule: simulation_apply_cases)
  case other
  then show ?thesis
    by (simp add: deals_def)
next
  case (advance n)
  then show ?thesis
    by (auto simp: advance_def Let_def result_simps dest: catch_up_final split: if_splits)
next
  case (counter_otc i q price)
  then obtain n n' where "bt_get (otc s) i = Some n" "otc_open n" "otc s' = bt_insert i n' (otc s)" "tenders s' = tenders s"
    by (auto simp: counter_otc_def Let_def attempt_Ok_iff if_Err_Ok_iff ok_or_Ok_iff split del: if_split)
  then show ?thesis
    by (auto simp: deals_final_def)
next
  case (decide_otc i d)
  then obtain n n' where "bt_get (otc s) i = Some n" "otc_open n" "otc s' = bt_insert i n' (otc s)" "tenders s' = tenders s"
    by (cases d) (auto simp: decide_otc_def Let_def result_simps split del: if_split)
  then show ?thesis
    by (auto simp: deals_final_def)
qed (auto simp: open_tender_def decide_tender_def open_otc_def schedule_cashflow_def schedule_facility_job_def next_action_def
    Let_def result_simps deals_final_def split: if_splits dest!: schedule_frame)

end
