(* ===== verification/Engine_Relations.thy ===== *)
theory Engine_Relations
  imports Engine_Lifecycle Simulation_Invariant
begin

text \<open>
  What a transition may do to a run, as an interface. A transition is a sequence of few
  kinds of writes: bookkeeping of orders, books and sessions; the ledger's opening and
  closing of orders and its two-party fills; closing prices and day-end marks; market
  data projections. A relation between run states that holds across each of these writes
  holds across every command. The locale \<open>run_relation\<close> states that once; its
  interpretations give the clock and sequence frame, the accounting of a run, and the
  bounds of its market data.
\<close>

declare split_paired_All [simp del] split_paired_Ex [simp del]

subsection \<open>Prices of executions\<close>

lemma matching_price_mem: "matching taker limit xs n q ms r ys n' \<Longrightarrow> match_price ` set ms \<subseteq> bo_price ` set xs"
proof (induction rule: matching.induct)
  case (trade q mk fill n xs ms r ys n')
  moreover have "bo_price ` set (fill_head mk fill n xs) \<subseteq> bo_price ` set (mk # xs)"
    by (auto simp: fill_head_def)
  ultimately show ?case
    by auto
qed auto

lemma execute_price_fits:
  assumes "book_inv b" and "in_i64 q" and "execute b taker limit q = Ok (ms, r, b')" and "m \<in> set ms"
  shows "in_i64 (match_price m)"
proof -
  have "\<forall>x \<in> set (book_orders b (opposite taker)). order_ok x"
    using side_ordersD(3) [OF assms(1)] by (simp add: book_orders_set [OF assms(1)])
  then show ?thesis
    using matching_price_mem [OF execute_OkD(4) [OF assms(1-3)]] assms(4) by (fastforce simp: order_ok_def)
qed

lemma auction_price_fits:
  assumes inv: "book_inv b" and price: "auction_price b r = Some (p, v)"
  shows "in_i64 p"
proof -
  have "p \<in> fst ` set (bids b) \<union> fst ` set (asks b)"
    using auction_choice_good [of b r] auction_price_SomeD(1) [OF assms] by (simp add: good_choice_def set_price_set)
  then have "(\<exists>lv. (p, lv) \<in> set (book_side b Buy)) \<or> (\<exists>lv. (p, lv) \<in> set (book_side b Sell))"
    by (auto simp: book_side_def)
  then obtain sd lv where "(p, lv) \<in> set (book_side b sd)"
    by blast
  then have "bt_get (book_side b sd) p \<noteq> None"
    by (simp add: map_of_eq_None_iff image_iff) force
  then show ?thesis
    using level_exists_iff [OF inv] book_invD(5) [OF inv] by (auto simp: at_level_def order_ok_def)
qed

subsection \<open>The interface\<close>

text \<open>The parts of a run that bookkeeping of orders, books and sessions leaves alone.\<close>

definition audited where
  "audited s = (run_ledger s, simulation s, run_sequence s, run_event_sequence s, kill_switched s, day_trades s,
     closes s, participants s, instruments s, rs_calendar s, session_steps s)"

text \<open>
  How an order record may change: its terms never do; its remaining quantity shrinks, or
  is dropped while the order is live; an order that is not live never becomes live again.
\<close>

definition order_aged :: "owned_order \<Rightarrow> owned_order \<Rightarrow> bool" where
  "order_aged x x' \<longleftrightarrow>
     x' = x\<lparr>oo_state := oo_state x', remaining_quantity := remaining_quantity x'\<rparr> \<and>
     (oo_state x' = OrderActive \<longrightarrow> oo_state x = OrderActive) \<and>
     (remaining_quantity x' = remaining_quantity x \<and> oo_state x' = oo_state x \<or>
      0 \<le> remaining_quantity x' \<and> remaining_quantity x' < remaining_quantity x \<or>
      oo_state x = OrderActive \<and> remaining_quantity x' = 0)"

lemma order_aged_refl [simp]: "order_aged x x"
  by (simp add: order_aged_def)

lemma order_aged_trans: "order_aged x y \<Longrightarrow> order_aged y z \<Longrightarrow> order_aged x z"
  by (cases x, cases y, cases z) (auto simp: order_aged_def)

definition orders_aged :: "(order_id, owned_order) btree_map \<Rightarrow> (order_id, owned_order) btree_map \<Rightarrow> bool" where
  "orders_aged own own' \<longleftrightarrow>
     (\<forall>i x'. bt_get own' i = Some x' \<longrightarrow> (\<exists>x. bt_get own i = Some x \<and> order_aged x x'))"

lemma orders_aged_refl [simp]: "orders_aged own own"
  by (auto simp: orders_aged_def)

lemma orders_aged_trans: "orders_aged a b \<Longrightarrow> orders_aged b c \<Longrightarrow> orders_aged a c"
  unfolding orders_aged_def using order_aged_trans by meson

lemma orders_aged_insert: "bt_get own i = Some x \<Longrightarrow> order_aged x y \<Longrightarrow> orders_aged own (bt_insert i y own)"
  by (auto simp: orders_aged_def)

lemma orders_aged_remove: "orders_aged own (bt_remove i own)"
  by (auto simp: orders_aged_def)

lemma reduce_order_aged:
  assumes "reduce_order i q own = Ok (own', e)" and "0 < q"
  shows "orders_aged own own'"
proof -
  obtain x where x: "bt_get own i = Some x" and r: "0 \<le> remaining_quantity x - q"
    and own': "own' = bt_insert i (if remaining_quantity x - q = 0 then x\<lparr>remaining_quantity := remaining_quantity x - q, oo_state := OrderFilled\<rparr>
      else x\<lparr>remaining_quantity := remaining_quantity x - q\<rparr>) own"
    using assms(1)
    by (auto simp: reduce_order_def result_simps bind_eq_Some_conv i64_checked_sub_def checked_i64_def split: if_splits)
  show ?thesis
    unfolding own' by (rule orders_aged_insert [OF x]) (use r assms(2) in \<open>simp add: order_aged_def\<close>)
qed

lemma settle_fill_aged:
  assumes "settle_fill k mi ti price q auction t = Ok t'"
  shows "orders_aged (ownership (run t)) (ownership (run t'))"
  using assms
proof (cases rule: settle_fill_Ok)
  case (1 mk tk f l t1 e)
  then obtain own1 e1 own2 e2 where "reduce_order mi q (ownership (run t)) = Ok (own1, e1)"
    and "reduce_order ti q own1 = Ok (own2, e2)" and "ownership (run t') = own2"
    by (auto simp: reduce_filled_def result_simps Let_def split: if_splits)
  moreover have "0 < q"
    using settle_quantity [OF 1(6)] 1(7) by simp
  ultimately show ?thesis
    using reduce_order_aged orders_aged_trans by metis
qed

lemma retire_aged: "orders_aged (ownership s) (ownership (retire i s))"
proof -
  have "orders_aged own (snd (trim_retired is own))" for "is" own
  proof (induction "is" own rule: trim_retired.induct)
    case (2 i "is" own)
    then show ?case
      using orders_aged_trans [OF orders_aged_remove, of i own "snd (trim_retired is (bt_remove i own))"] by simp
  qed simp
  then show ?thesis
    by (simp add: retire_def Let_def case_prod_unfold)
qed

locale write_relation =
  fixes rel :: "run_state \<Rightarrow> run_state \<Rightarrow> bool"
  assumes reflexive: "rel s s"
    and transitive: "rel s t \<Longrightarrow> rel t u \<Longrightarrow> rel s u"
    and bookkeeping: "audited s' = audited s \<Longrightarrow> orders_aged (ownership s) (ownership s') \<Longrightarrow> rel s s'"
    and accepting: "bt_get (ownership s) (oo_order_id x) = None \<Longrightarrow> oo_participant_id x \<notin> set (kill_switched s) \<Longrightarrow>
      oo_state x = OrderActive \<Longrightarrow> lifecycle (simulation s) = Active \<Longrightarrow>
      pred_option (\<lambda>at. clock_now (clock (simulation s)) < at) (oo_expires_at x) \<Longrightarrow>
      rel s (s\<lparr>ownership := bt_insert (oo_order_id x) x (ownership s)\<rparr>)"
    and order_opening: "open_order (run_ledger s) p i sd q res = Ok l \<Longrightarrow> rel s (s\<lparr>run_ledger := l\<rparr>)"
    and order_closing: "close_order (run_ledger s) p i sd q res = Ok l \<Longrightarrow> rel s (s\<lparr>run_ledger := l\<rparr>)"
    and trading: "settle (run_ledger s) f = Ok l \<Longrightarrow> buyer f = Some b \<Longrightarrow> seller f = Some c \<Longrightarrow>
      fill_price f = price \<Longrightarrow> in_i64 price \<Longrightarrow> rel s (post_trade k price l s)"
    and day_closing: "rel s (snd (close_listing k (cs, s)))"
    and day_marking: "mark_to_close i (ms, s) = Ok (ms', s') \<Longrightarrow> rel s s'"
    and projecting: "project_event (simulation s) at event = Ok sim \<Longrightarrow> rel s (s\<lparr>simulation := sim\<rparr>)"

text \<open>Crossing a session boundary also counts the venue's step.\<close>

locale run_relation = write_relation +
  assumes stepping: "rel s (s\<lparr>session_steps := bt_insert v n (session_steps s)\<rparr>)"

text \<open>An operation that keeps the invariant and relates the runs before and after.\<close>

definition tracks ::
    "(run_state \<Rightarrow> run_state \<Rightarrow> bool) \<Rightarrow> (transit \<Rightarrow> (transit, engine_error) result) \<Rightarrow> bool" where
  "tracks rel f \<longleftrightarrow> (\<forall>t t'. f t = Ok t' \<longrightarrow> transit_inv t \<longrightarrow> transit_inv t' \<and> rel (run t) (run t'))"

lemma tracksD: "tracks rel f \<Longrightarrow> f t = Ok t' \<Longrightarrow> transit_inv t \<Longrightarrow> transit_inv t' \<and> rel (run t) (run t')"
  unfolding tracks_def by blast

lemma tracksI:
  assumes "keeps f" and "\<And>t t'. f t = Ok t' \<Longrightarrow> transit_inv t \<Longrightarrow> rel (run t) (run t')"
  shows "tracks rel f"
  using assms keepsD [OF assms(1)] unfolding tracks_def by blast

lemma tracks_diag: "(\<And>u. tracks rel (g u)) \<Longrightarrow> tracks rel (\<lambda>t. g t t)"
  by (simp add: tracks_def)

lemma tracks_if: "tracks rel f \<Longrightarrow> tracks rel g \<Longrightarrow> tracks rel (\<lambda>t. if b then f t else g t)"
  by (cases b) simp_all

lemma settle_fill_audit:
  assumes "settle_fill k mi ti price q auction t = Ok t'"
  shows "\<exists>f l b c. settle (run_ledger (run t)) f = Ok l \<and> buyer f = Some b \<and> seller f = Some c \<and> fill_price f = price \<and>
    audited (run t') = audited (post_trade k price l (run t))"
proof -
  have drop: "audited (drop_expiry e s) = audited s" for e s
    by (auto simp: drop_expiry_def audited_def split: option.splits prod.splits)
  have red: "audited (run t1) = audited (run u)" if ok: "reduce_filled mi ti mk tk q auction u = Ok t1" for mk tk u t1
  proof -
    obtain own where "run t1 = fold drop_expiry ((mi, oo_expires_at mk) # (if auction then [(ti, oo_expires_at tk)] else []))
        ((run u)\<lparr>ownership := own\<rparr>)"
      using ok by (auto simp: reduce_filled_def Let_def result_simps)
    moreover have "audited ((run u)\<lparr>ownership := own\<rparr>) = audited (run u)"
      by (simp add: audited_def)
    ultimately show ?thesis
      by (cases auction) (simp_all add: drop)
  qed
  show ?thesis
    using assms
    by (simp add: settle_fill_def Let_def result_simps case_prod_unfold split del: if_split)
      (elim exE conjE, intro exI conjI, assumption, simp, simp, simp, drule red, drule sym [where t = t'], simp)
qed

text \<open>The simulation's part of catching up with the clock.\<close>

definition caught_up :: "logical_time_ns \<Rightarrow> bool \<Rightarrow> run_state \<Rightarrow> run_state \<Rightarrow> bool" where
  "caught_up now sweep s s1 \<longleftrightarrow> (\<exists>evs ctx sim.
     simulation_catch_up (simulation s) (context_of s) now sweep = Ok (evs, ctx, sim) \<and>
     s1 = s\<lparr>run_ledger := ctx_ledger ctx, simulation := sim\<rparr>)"

text \<open>What a command does to the set of kill-switched participants.\<close>

definition kill_after :: "command \<Rightarrow> participant_id btree_set \<Rightarrow> participant_id btree_set" where
  "kill_after cmd ks =
     (case c_payload cmd of
        ActivateKillSwitch \<Rightarrow> bs_insert (c_actor cmd) ks
      | ResetKillSwitch \<Rightarrow> bs_remove (c_actor cmd) ks
      | _ \<Rightarrow> ks)"

text \<open>What a simulation command does to the simulation and the ledger.\<close>

definition administered :: "simulation_command_request \<Rightarrow> run_state \<Rightarrow> run_state \<Rightarrow> bool" where
  "administered req s s1 \<longleftrightarrow>
     (if is_mass_cancel (c_payload req) then s1 = s
      else \<exists>evs ctx sim. simulation_apply (simulation s) (context_of s) (c_actor req) (c_logical_time req) (c_payload req)
          = Ok (evs, ctx, sim) \<and> s1 = s\<lparr>run_ledger := ctx_ledger ctx, simulation := sim\<rparr>)"

subsection \<open>Operations of a transition\<close>

context write_relation
begin

lemma tracks_attempt:
  assumes "tracks rel f" and "\<And>t. tracks rel (g t)"
  shows "tracks rel (\<lambda>t. attempt (f t) (g t))"
  unfolding tracks_def attempt_Ok_iff
proof (intro allI impI, elim exE conjE)
  fix t t' u
  assume "f t = Ok u" "g t u = Ok t'" "transit_inv t"
  then show "transit_inv t' \<and> rel (run t) (run t')"
    using tracksD [OF assms(1), of t u] tracksD [OF assms(2), of t u t'] transitive by blast
qed

lemma tracks_Ok: "tracks rel Ok"
  by (simp add: tracks_def reflexive)

lemma tracks_try_fold:
  assumes "\<And>x. tracks rel (f x)"
  shows "tracks rel (try_fold f xs)"
proof (induction xs)
  case Nil
  have "try_fold f [] = Ok"
    by (rule ext) simp
  then show ?case
    using tracks_Ok by simp
next
  case (Cons x xs)
  have eq: "try_fold f (x # xs) = (\<lambda>t. attempt (f x t) (try_fold f xs))"
    by (rule ext) simp
  show ?case
    unfolding eq by (rule tracks_attempt) (rule assms, rule Cons)
qed

lemma tracks_bookkeeping:
  assumes "keeps f" and "\<And>t t'. f t = Ok t' \<Longrightarrow> audited (run t') = audited (run t) \<and> ownership (run t') = ownership (run t)"
  shows "tracks rel f"
  by (rule tracksI [OF assms(1)]) (rule bookkeeping, auto dest: assms(2))

lemma cancel_order_rel: "cancel_order i reason t = Ok t' \<Longrightarrow> rel (run t) (run t')"
proof -
  assume "cancel_order i reason t = Ok t'"
  then obtain p j sd q res l x where l: "close_order (run_ledger (run t)) p j sd q res = Ok l"
    and a: "audited (run t') = audited ((run t)\<lparr>run_ledger := l\<rparr>)"
    and x: "bt_get (ownership (run t)) i = Some x" "oo_state x = OrderActive"
      "ownership (run t') = bt_insert i (x\<lparr>oo_state := OrderCancelled, remaining_quantity := 0\<rparr>) (ownership (run t))"
    by (auto simp: cancel_order_def Let_def result_simps accounting_def set_book_def audited_def bind_eq_Some_conv split: if_splits)
  have "orders_aged (ownership ((run t)\<lparr>run_ledger := l\<rparr>)) (ownership (run t'))"
    using x by (simp add: orders_aged_insert order_aged_def)
  then show ?thesis
    using order_closing [OF l] bookkeeping [OF a] transitive by blast
qed

lemma tracks_cancel: "tracks rel (cancel_order i reason)"
  by (rule tracksI [OF keeps_cancel]) (rule cancel_order_rel)

lemma tracks_cancel_touch: "tracks rel (\<lambda>t. cancel_order i reason (touch k t))"
  by (rule tracksI [OF keeps_cancel_touch]) (use cancel_order_rel in force)

lemma tracks_cancel_listed: "tracks rel (cancel_listed reason live)"
  unfolding cancel_listed_def by (intro tracks_try_fold) (auto intro: tracks_cancel_touch)

lemma expire_due_rel: "expire_due now t = Ok t' \<Longrightarrow> rel (run t) (run t')"
proof (induction now t rule: expire_due.induct)
  case (1 now t)
  show ?case
  proof (cases "expiries (run t)")
    case Nil
    then show ?thesis
      using 1(2) reflexive by (subst (asm) expire_due.simps) simp
  next
    case (Cons e es)
    obtain at i where e: "e = (at, i)"
      by (cases e)
    show ?thesis
    proof (cases "now < at")
      case True
      then show ?thesis
        using 1(2) Cons e reflexive by (subst (asm) expire_due.simps) simp
    next
      case False
      then obtain k t1 where k: "ok_or OwnershipInvariant (map_option oo_listing_key (bt_get (ownership (run t)) i)) = Ok k"
        and t1: "cancel_order i Expired (touch k t) = Ok t1" and rec: "expire_due now t1 = Ok t'"
        using 1(2) Cons e by (subst (asm) expire_due.simps) (auto simp: attempt_Ok_iff)
      show ?thesis
        using 1(1) [OF Cons e [symmetric] _ k t1 rec] False cancel_order_rel [OF t1] transitive by auto
    qed
  qed
qed

lemma tracks_expire_due: "tracks rel (expire_due now)"
  by (rule tracksI [OF keeps_expire_due]) (rule expire_due_rel)

lemma settle_fill_rel:
  assumes "settle_fill k mi ti price q auction t = Ok t'" and "in_i64 price"
  shows "rel (run t) (run t')"
proof -
  obtain f l b c where f: "settle (run_ledger (run t)) f = Ok l" "buyer f = Some b" "seller f = Some c" "fill_price f = price"
    and a: "audited (run t') = audited (post_trade k price l (run t))"
    using settle_fill_audit [OF assms(1)] by blast
  have own: "orders_aged (ownership (post_trade k price l (run t))) (ownership (run t'))"
    using settle_fill_aged [OF assms(1)] by (simp add: post_trade_def Let_def)
  show ?thesis
    using trading [OF f assms(2)] bookkeeping [OF a own] transitive by blast
qed

lemma settle_matches_rel:
  assumes "settle_matches ti k ms t = Ok t'" and "\<forall>m \<in> set ms. in_i64 (match_price m)"
  shows "rel (run t) (run t')"
  using assms(1) unfolding settle_matches_def
  by (rule try_fold_inv [where P = "\<lambda>u. rel (run t) (run u)"])
    (use assms(2) reflexive transitive settle_fill_rel in blast)+

lemma settle_crosses_rel:
  assumes "try_fold (settle_cross k price) cs t = Ok t'" and "in_i64 price"
  shows "rel (run t) (run t')"
  using assms(1)
proof (rule try_fold_inv [where P = "\<lambda>u. rel (run t) (run u)"])
  fix c u v
  assume "rel (run t) (run u)" "settle_cross k price c u = Ok v"
  moreover from this(2) obtain mi ti where "settle_fill k mi ti price (cross_quantity c) True u = Ok v"
    by (auto simp: settle_cross_def split: if_splits)
  ultimately show "rel (run t) (run v)"
    using settle_fill_rel [OF _ assms(2)] transitive by blast
qed (rule reflexive)

lemma tracks_run_auction: "tracks rel (run_auction k)"
proof (rule tracksI [OF keeps_run_auction])
  fix t t'
  assume run: "run_auction k t = Ok t'" and con: "transit_inv t"
  let ?s = "run t"
  obtain ls where ls: "bt_get (listings ?s) k = Some ls"
    using run by (auto simp: run_auction_def Let_def result_simps)
  have "t' = t \<or>
      (\<exists>r price q cs b t1. auction_price (ls_book ls) r = Some (price, q) \<and>
        try_fold (settle_cross k price) cs (t\<lparr>run := set_book ?s k ls b\<rparr>) = Ok t1 \<and>
        t' = push (Simulation (AuctionUncrossed k price q)) t1)"
    using run ls by (auto simp: run_auction_def Let_def result_simps split: option.splits) blast+
  then show "rel ?s (run t')"
  proof (elim disjE exE conjE)
    fix r price q cs b t1
    assume "auction_price (ls_book ls) r = Some (price, q)"
      and fold: "try_fold (settle_cross k price) cs (t\<lparr>run := set_book ?s k ls b\<rparr>) = Ok t1"
      and t': "t' = push (Simulation (AuctionUncrossed k price q)) t1"
    then have "rel (set_book ?s k ls b) (run t')"
      using settle_crosses_rel [OF fold auction_price_fits [OF consistentD(5) [OF con ls]]] by simp
    moreover have "rel ?s (set_book ?s k ls b)"
      by (rule bookkeeping) (simp_all add: audited_def set_book_def)
    ultimately show ?thesis
      using transitive by blast
  qed (simp add: reflexive)
qed

lemma tracks_auction_venue: "tracks rel (auction_venue v)"
proof -
  have touch: "tracks rel (\<lambda>t. run_auction k (touch k t))" for k
    using tracksD [OF tracks_run_auction [of k], of "touch k _"] by (simp add: tracks_def)
  show ?thesis
    unfolding auction_venue_def by (rule tracks_diag) (rule tracks_try_fold, rule touch)
qed

lemma tracks_expire_day_orders: "tracks rel (expire_day_orders v)"
  unfolding expire_day_orders_def by (rule tracks_diag) (rule tracks_try_fold, rule tracks_cancel)

lemma tracks_push: "terminal_order p = None \<Longrightarrow> tracks rel (\<lambda>t. Ok (push p t))"
  by (rule tracks_bookkeeping [OF keeps_push]) auto

lemma close_day_rel: "rel s (snd (close_day v s))"
proof -
  have "rel (snd w) (snd (fold close_listing ks w))" for ks w
  proof (induction ks arbitrary: w)
    case (Cons k ks)
    show ?case
      using transitive [OF day_closing [of "snd w" k "fst w", unfolded prod.collapse] Cons.IH [of "close_listing k w"]] by simp
  qed (simp add: reflexive)
  from this [of "([], s)" "venue_listings s v"] show ?thesis
    by (simp add: close_day_def)
qed

lemma settle_day_rel: "settle_day day s = Ok (e, s') \<Longrightarrow> rel s s'"
proof -
  assume "settle_day day s = Ok (e, s')"
  then obtain marks where "try_fold mark_to_close (map fst (instruments s)) ([], s) = Ok (marks, s')"
    by (auto simp: settle_day_def result_simps)
  then have "rel s (snd (marks, s'))"
  proof (rule try_fold_inv)
    fix i u v
    assume "rel s (snd u)" "mark_to_close i u = Ok v"
    then show "rel s (snd v)"
      using day_marking [of i "fst u" "snd u" "fst v" "snd v"] transitive by simp
  qed (simp add: reflexive)
  then show ?thesis
    by simp
qed

lemma tracks_close_venue: "tracks rel (close_venue v day)"
proof (rule tracksI [OF keeps_close_venue])
  fix t t'
  assume run: "close_venue v day t = Ok t'"
  let ?s1 = "snd (close_day v (run t))"
  have "run t' = ?s1 \<or> (\<exists>e. settle_day day ?s1 = Ok (e, run t'))"
    using run by (auto simp: close_venue_def Let_def result_simps case_prod_unfold split: if_splits)
  then show "rel (run t) (run t')"
    using close_day_rel [of "run t" v] settle_day_rel [of day ?s1] transitive by metis
qed

end

context run_relation
begin

lemma tracks_step: "tracks rel (\<lambda>t. Ok (t\<lparr>run := (run t)\<lparr>session_steps := bt_insert v n (session_steps (run t))\<rparr>\<rparr>))"
  by (rule tracksI [OF keeps_step]) (auto simp: stepping)

lemma tracks_cross_boundary: "tracks rel (cross_boundary v stp bnd)"
proof -
  have "tracks rel (\<lambda>t. attempt (Ok (t\<lparr>run := (run t)\<lparr>session_steps := bt_insert v nxt (session_steps (run t))\<rparr>\<rparr>)) (\<lambda>t.
     attempt (if b_phase bnd = Continuous \<or> b_phase bnd = Closed then auction_venue v t else Ok t) (\<lambda>t.
     attempt (if b_phase bnd = Closed then expire_day_orders v t else Ok t) (\<lambda>t.
     attempt (Ok (push (Simulation (SessionPhaseChanged v (b_day bnd) (b_phase bnd))) t)) (\<lambda>t.
     if b_phase bnd = Closed then close_venue v (b_day bnd) t else Ok t)))))" for nxt
    by (intro tracks_attempt tracks_if tracks_auction_venue tracks_expire_day_orders tracks_close_venue tracks_Ok
        tracks_push tracks_step) simp
  then show ?thesis
    unfolding tracks_def cross_boundary_steps attempt_Ok_iff by blast
qed

lemma tracks_cross_due: "tracks rel (cross_due n now)"
proof (induction n)
  case 0
  then show ?case
    by (simp add: tracks_def)
next
  case (Suc n)
  show ?case
    unfolding tracks_def
  proof (intro allI impI)
    fix t t'
    assume run: "cross_due (Suc n) now t = Ok t'" and con: "transit_inv t"
    have "t' = t \<or> (\<exists>v stp bnd t1 t2. expire_due (b_at bnd) t = Ok t1 \<and> cross_boundary v stp bnd t1 = Ok t2 \<and>
        cross_due n now t2 = Ok t')"
      using run by (auto simp: result_simps split: option.splits if_splits)
    then show "transit_inv t' \<and> rel (run t) (run t')"
    proof (elim disjE exE conjE)
      fix v stp bnd t1 t2
      assume t1: "expire_due (b_at bnd) t = Ok t1" and t2: "cross_boundary v stp bnd t1 = Ok t2"
        and t': "cross_due n now t2 = Ok t'"
      note a = tracksD [OF tracks_expire_due t1 con]
      note b = tracksD [OF tracks_cross_boundary t2 conjunct1 [OF a]]
      note c = tracksD [OF Suc t' conjunct1 [OF b]]
      show ?thesis
        using a b c transitive by blast
    qed (use con reflexive in simp)
  qed
qed

text \<open>After the simulation has caught up, the rest of catching up is related.\<close>

lemma catch_up_rel:
  assumes "catch_up now sweep t = Ok t'" and "transit_inv t"
  shows "\<exists>s1. caught_up now sweep (run t) s1 \<and> rel s1 (run t')"
proof -
  obtain t1 t2 where t1: "with_simulation_state t (simulation_catch_up (simulation (run t)) (context_of (run t)) now sweep) = Ok t1"
    and t2: "cross_due (boundary_fuel (run t1)) now t1 = Ok t2" and t': "expire_due now t2 = Ok t'"
    using assms(1) by (auto simp: catch_up_def attempt_Ok_iff)
  have "caught_up now sweep (run t) (run t1)"
    using t1 by (auto simp: caught_up_def with_simulation_state_def result_simps)
  moreover have "transit_inv t1"
    using keepsD [OF keeps_simulation_catch_up t1 assms(2)] by blast
  then have "rel (run t1) (run t')"
    using tracksD [OF tracks_cross_due t2] tracksD [OF tracks_expire_due t'] transitive by blast
  ultimately show ?thesis
    by blast
qed

end

subsection \<open>The clock during a transition\<close>

interpretation clocks: run_relation "\<lambda>s s'. clock_now (clock (simulation s')) = clock_now (clock (simulation s))"
proof
  fix s :: run_state and at event sim
  show "project_event (simulation s) at event = Ok sim \<Longrightarrow>
      clock_now (clock (simulation (s\<lparr>simulation := sim\<rparr>))) = clock_now (clock (simulation s))"
    by (simp add: project_event_clock)
qed (auto simp: audited_def post_trade_def Let_def close_listing_def mark_to_close_def result_simps split: option.splits)

lemma catch_up_now:
  assumes "catch_up now sweep t = Ok t'" and "transit_inv t"
  shows "clock_now (clock (simulation (run t'))) = now"
  using clocks.catch_up_rel [OF assms] by (auto simp: caught_up_def dest: catch_up_clock(1))

text \<open>No live order is past its expiry.\<close>

definition unexpired :: "run_state \<Rightarrow> bool" where
  "unexpired s \<longleftrightarrow>
     (\<forall>i x at. bt_get (ownership s) i = Some x \<longrightarrow> oo_state x = OrderActive \<longrightarrow> oo_expires_at x = Some at \<longrightarrow>
       clock_now (clock (simulation s)) < at)"

lemma expire_due_head:
  "expire_due now t = Ok t' \<Longrightarrow> expiries (run t') = [] \<or> (\<exists>at i es. expiries (run t') = (at, i) # es \<and> now < at)"
proof (induction now t rule: expire_due.induct)
  case (1 now t)
  show ?case
  proof (cases "expiries (run t)")
    case Nil
    then show ?thesis
      using 1(2) by (subst (asm) expire_due.simps) simp
  next
    case (Cons e es)
    obtain at i where e: "e = (at, i)"
      by (cases e)
    show ?thesis
    proof (cases "now < at")
      case True
      then show ?thesis
        using 1(2) Cons e by (subst (asm) expire_due.simps) simp
    next
      case False
      then obtain k t1 where k: "ok_or OwnershipInvariant (map_option oo_listing_key (bt_get (ownership (run t)) i)) = Ok k"
        and t1: "cancel_order i Expired (touch k t) = Ok t1" and rec: "expire_due now t1 = Ok t'"
        using 1(2) Cons e by (subst (asm) expire_due.simps) (auto simp: attempt_Ok_iff)
      show ?thesis
        using 1(1) [OF Cons e [symmetric] _ k t1 rec] False by simp
    qed
  qed
qed

lemma unexpired_index:
  assumes "transit_inv t" and "\<forall>e \<in> set (expiries (run t)). clock_now (clock (simulation (run t))) < fst e"
  shows "unexpired (run t)"
  using assms(2) consistentD(10) [OF assms(1)] by (force simp: unexpired_def expiry_index_def)

lemma expire_due_unexpired:
  assumes "expire_due now t = Ok t'" and "transit_inv t" and "clock_now (clock (simulation (run t'))) \<le> now"
  shows "unexpired (run t')"
proof -
  have inv: "transit_inv t'"
    using keepsD [OF keeps_expire_due assms(1,2)] by blast
  have "\<forall>e \<in> set (expiries (run t')). now < fst e"
    using expire_due_head [OF assms(1)] consistentD(4) [OF inv] by (force simp: bs_wf_def)
  then show ?thesis
    by (intro unexpired_index [OF inv]) (use assms(3) in auto)
qed

lemma catch_up_unexpired:
  assumes "catch_up now sweep t = Ok t'" and "transit_inv t"
  shows "unexpired (run t')"
proof -
  obtain t1 t2 where t1: "with_simulation_state t (simulation_catch_up (simulation (run t)) (context_of (run t)) now sweep) = Ok t1"
    and t2: "cross_due (boundary_fuel (run t1)) now t1 = Ok t2" and t': "expire_due now t2 = Ok t'"
    using assms(1) by (auto simp: catch_up_def attempt_Ok_iff)
  have "transit_inv t2"
    using keepsD [OF keeps_simulation_catch_up t1 assms(2)] keepsD [OF keeps_cross_due t2] by blast
  then show ?thesis
    by (rule expire_due_unexpired [OF t']) (simp add: catch_up_now [OF assms])
qed

lemma cancel_listed_unexpired:
  assumes "cancel_listed reason live t = Ok t'" and "unexpired (run t)"
  shows "unexpired (run t')"
  using assms(1) unfolding cancel_listed_def
proof (rule try_fold_inv [where P = "\<lambda>u. unexpired (run u)"])
  fix e u v
  assume u: "unexpired (run u)" and "(case e of (i, k) \<Rightarrow> \<lambda>t. cancel_order i reason (touch k t)) u = Ok v"
  then obtain i x where "simulation (run v) = simulation (run u)" "bt_get (ownership (run u)) i = Some x"
    and "ownership (run v) = bt_insert i (x\<lparr>oo_state := OrderCancelled, remaining_quantity := 0\<rparr>) (ownership (run u))"
    by (auto simp: cancel_order_def Let_def result_simps set_book_def bind_eq_Some_conv split: if_splits prod.splits)
  then show "unexpired (run v)"
    using u by (auto simp: unexpired_def split: if_splits)
qed (rule assms(2))

lemma submit_check_expiry:
  "submit_check s order k now p ls = Ok pl \<Longrightarrow> pred_option (\<lambda>at. now < at) (pl_expires_at pl)"
  by (auto simp: submit_check_def Let_def result_simps expiry_of_def case_prod_unfold split: if_splits time_in_force.splits)

subsection \<open>Commands\<close>

context run_relation
begin

lemma submit_accept_rel:
  assumes run: "submit_accept order k pl t = Ok t'"
    and new: "bt_get (ownership (run t)) (so_order_id order) = None"
    and alive: "so_participant_id order \<notin> set (kill_switched (run t))" "lifecycle (simulation (run t)) = Active"
      "pred_option (\<lambda>at. clock_now (clock (simulation (run t))) < at) (pl_expires_at pl)"
  shows "rel (run t) (run t') \<and> listings (run t') = listings (run t)"
proof -
  define x where "x = \<lparr>oo_order_id = so_order_id order, oo_participant_id = so_participant_id order, oo_listing_key = k,
    oo_side = so_side order, oo_limit_price = reservation_price (pl_admission pl), original_quantity = so_quantity order,
    remaining_quantity = so_quantity order, oo_state = OrderActive, oo_reservation = adm_reservation (pl_admission pl),
    oo_expires_at = pl_expires_at pl, oo_day = (pl_tif pl = Day), oo_anonymous = so_anonymous order\<rparr>"
  obtain p i sd q res l where l: "open_order (run_ledger (run t)) p i sd q res = Ok l"
    and own: "ownership (run t') = bt_insert (so_order_id order) x (ownership (run t))"
    and a: "audited (run t') = audited ((run t)\<lparr>run_ledger := l\<rparr>)" and "listings (run t') = listings (run t)"
    using run by (auto simp: submit_accept_def Let_def result_simps accounting_def audited_def x_def)
  have x: "oo_order_id x = so_order_id order" "oo_participant_id x = so_participant_id order" "oo_state x = OrderActive"
    "oo_expires_at x = pl_expires_at pl"
    by (simp_all add: x_def)
  let ?s = "(run t)\<lparr>run_ledger := l\<rparr>"
  have "rel ?s (?s\<lparr>ownership := bt_insert (oo_order_id x) x (ownership ?s)\<rparr>)"
    by (rule accepting) (use x new alive in simp_all)
  moreover have "rel (?s\<lparr>ownership := bt_insert (oo_order_id x) x (ownership ?s)\<rparr>) (run t')"
    by (rule bookkeeping) (use x own a in \<open>simp_all add: audited_def\<close>)
  ultimately show ?thesis
    using order_opening [OF l] \<open>listings (run t') = listings (run t)\<close> transitive by blast
qed

lemma submit_match_rel:
  assumes run: "submit_match order k pl t = Ok (left, t')" and fits: "in_i64 (so_quantity order)"
    and books: "\<And>ls. bt_get (listings (run t)) k = Some ls \<Longrightarrow> book_inv (ls_book ls)"
  shows "rel (run t) (run t')"
proof -
  obtain ls where ls: "bt_get (listings (run t)) k = Some ls"
    and "t' = t \<or> (\<exists>ms b. execute (ls_book ls) (so_side order) (pl_limit pl) (so_quantity order) = Ok (ms, left, b) \<and>
      settle_matches (so_order_id order) k ms (t\<lparr>run := set_book (run t) k ls b\<rparr>) = Ok t')"
    using run by (auto simp: submit_match_def result_simps split: if_splits)
  from this(2) show ?thesis
  proof (elim disjE exE conjE)
    fix ms b
    assume ex: "execute (ls_book ls) (so_side order) (pl_limit pl) (so_quantity order) = Ok (ms, left, b)"
      and st: "settle_matches (so_order_id order) k ms (t\<lparr>run := set_book (run t) k ls b\<rparr>) = Ok t'"
    have "rel (set_book (run t) k ls b) (run t')"
      using settle_matches_rel [OF st] execute_price_fits [OF books [OF ls] fits ex] by simp
    moreover have "rel (run t) (set_book (run t) k ls b)"
      by (rule bookkeeping) (simp_all add: audited_def set_book_def)
    ultimately show ?thesis
      using transitive by blast
  qed (simp add: reflexive)
qed

lemma submit_rest_audit:
  "submit_rest order k pl price left t = Ok t' \<Longrightarrow> audited (run t') = audited (run t) \<and> ownership (run t') = ownership (run t)"
  by (auto simp: submit_rest_def Let_def result_simps audited_def set_book_def split: option.splits)

lemma submit_drop_audit:
  "submit_drop order k pl left t = Ok t' \<Longrightarrow> \<exists>p i sd q res l. close_order (run_ledger (run t)) p i sd q res = Ok l \<and>
     audited (run t') = audited ((run t)\<lparr>run_ledger := l\<rparr>) \<and> (\<exists>x. bt_get (ownership (run t)) (so_order_id order) = Some x \<and>
     ownership (run t') = bt_insert (so_order_id order) (x\<lparr>oo_state := OrderCancelled, remaining_quantity := 0\<rparr>) (ownership (run t)))"
  by (auto simp: submit_drop_def Let_def result_simps accounting_def audited_def) blast

lemma submit_remainder_rel:
  assumes run: "submit_remainder order k pl left t = Ok t'"
    and live: "left \<noteq> 0 \<Longrightarrow> so_order_id order \<in> active_ids (run t)"
  shows "rel (run t) (run t')"
proof -
  consider "run t' = run t" | price where "submit_rest order k pl price left t = Ok t'" | "left \<noteq> 0" "submit_drop order k pl left t = Ok t'"
    using run by (auto simp: submit_remainder_def split: if_splits option.splits bool.splits)
  then show ?thesis
  proof cases
    case 1
    then show ?thesis
      using reflexive by simp
  next
    case 2
    show ?thesis
      by (rule bookkeeping) (use submit_rest_audit [OF 2] in simp_all)
  next
    case 3
    then obtain p i sd q res l x where l: "close_order (run_ledger (run t)) p i sd q res = Ok l"
      and a1: "audited (run t') = audited ((run t)\<lparr>run_ledger := l\<rparr>)"
      and x: "bt_get (ownership (run t)) (so_order_id order) = Some x"
        "ownership (run t') = bt_insert (so_order_id order) (x\<lparr>oo_state := OrderCancelled, remaining_quantity := 0\<rparr>) (ownership (run t))"
      using submit_drop_audit by blast
    have "oo_state x = OrderActive"
      using live [OF 3(1)] x(1) by (simp add: active_ids_def)
    then have a2: "orders_aged (ownership ((run t)\<lparr>run_ledger := l\<rparr>)) (ownership (run t'))"
      using x by (simp add: orders_aged_insert order_aged_def)
    note a = a1 a2
    show ?thesis
      by (rule transitive [OF order_closing [OF l] bookkeeping [OF a]])
  qed
qed

lemma submit_left_active:
  assumes ident: "submit_identity (run t) order = Ok p" and ls: "bt_get (listings (run t)) k = Some ls"
    and t1: "submit_accept order k pl t = Ok t1" and t2: "submit_match order k pl t1 = Ok (left, t2)"
    and con: "transit_inv t" and fits: "order_fits order" and "left \<noteq> 0"
  shows "so_order_id order \<in> active_ids (run t2)"
proof -
  let ?i = "so_order_id order"
  note id = submit_identity_Ok [OF ident retired_length [OF con]]
  note acc = submit_accept_inv [OF t1 con id]
  obtain x where x: "bt_get (ownership (run t1)) ?i = Some x" "oo_listing_key x = k" "remaining_quantity x = so_quantity order"
    using acc(4) ls by auto
  note m = submit_match_inv [OF t2 _ id(2) acc(1) x]
  have q: "in_i64 (so_quantity order)"
    using fits by (simp add: order_fits_def)
  have "owned_left (run t2) k ?i = left"
    using consistentD(7) [OF m(1) [OF q]] m(6) [OF q] ls by (simp add: owes_def)
  then obtain y where y: "bt_get (ownership (run t2)) ?i = Some y" "remaining_quantity y = left"
    using assms(7) by (auto simp: owned_left_def split: option.splits if_splits)
  then have "oo_state y = OrderActive"
    using consistentD(6) [OF m(1) [OF q] y(1)] assms(7) ls by (auto simp: owned_ok_def)
  then show ?thesis
    using y by (simp add: active_ids_def)
qed

lemma submit_rel:
  assumes run: "submit order k now t = Ok (r, t')" and con: "transit_inv t" and fits: "order_fits order"
    and alive: "so_participant_id order \<notin> set (kill_switched (run t))" "lifecycle (simulation (run t)) = Active"
    and now: "clock_now (clock (simulation (run t))) \<le> now"
  shows "rel (run t) (run t')"
  using submit_cases [OF run]
proof (elim disjE exE conjE)
  fix p ls pl t1 left t2
  assume ident: "submit_identity (run t) order = Ok p" and ls: "bt_get (listings (run t)) k = Some ls"
    and chk: "submit_check (run t) order k now p ls = Ok pl" and t1: "submit_accept order k pl t = Ok t1"
    and t2: "submit_match order k pl t1 = Ok (left, t2)" and t': "submit_remainder order k pl left t2 = Ok t'"
  note id = submit_identity_Ok [OF ident retired_length [OF con]]
  have "pred_option (\<lambda>at. clock_now (clock (simulation (run t))) < at) (pl_expires_at pl)"
    using submit_check_expiry [OF chk] now by (auto simp: pred_option_def)
  note a = submit_accept_rel [OF t1 id(1) alive this]
  have "left \<noteq> 0 \<Longrightarrow> so_order_id order \<in> active_ids (run t2)"
    by (rule submit_left_active [OF ident ls t1 t2 con fits])
  have "rel (run t1) (run t2)"
    by (rule submit_match_rel [OF t2]) (use fits consistentD(5) [OF con] a in \<open>auto simp: order_fits_def\<close>)
  then show ?thesis
    using a submit_remainder_rel [OF t' \<open>left \<noteq> 0 \<Longrightarrow> so_order_id order \<in> active_ids (run t2)\<close>] transitive by blast
qed (simp add: reflexive)

lemma report_run: "report i r t = (res, t') \<Longrightarrow> run t' = run t"
  by (auto simp: report_def split: sum.splits)

lemma apply_submit_rel:
  assumes run: "apply_submit order key now t = Ok (res, t')" and con: "transit_inv t" and fits: "order_fits order"
    and now: "clock_now (clock (simulation (run t))) \<le> now"
  shows "rel (run t) (run t')"
proof -
  obtain k r t2 where "run t2 = run t \<or> submit order k now (touch k (push (OrderReceived order (Some k)) t)) = Ok (r, t2) \<and>
      so_participant_id order \<notin> set (kill_switched (run t)) \<and> lifecycle (simulation (run t)) = Active"
    and rep: "report (so_order_id order) r t2 = (res, t')"
    using apply_submit_cases [OF run] by (metis push_sel(1))
  then have "rel (run t) (run t2)"
    using submit_rel [OF _ _ fits, of k now "touch k (push (OrderReceived order (Some k)) t)" r t2] con now reflexive by auto
  then show ?thesis
    using report_run [OF rep] by simp
qed

lemma apply_cancel_rel:
  assumes run: "apply_cancel c t = Ok (res, t')"
  shows "rel (run t) (run t')"
proof -
  obtain r t1 where "t1 = t \<or> (\<exists>k. cancel_order (cr_order_id c) Requested (touch k t) = Ok t1)"
    and rep: "report (cr_order_id c) r t1 = (res, t')"
    using run by (auto simp: apply_cancel_def Let_def result_simps split: option.splits if_splits)
  then have "rel (run t) (run t1)"
    using cancel_order_rel [of "cr_order_id c" Requested "touch _ t" t1] reflexive by auto
  then show ?thesis
    using report_run [OF rep] by simp
qed

lemma apply_payload_rel:
  assumes run: "apply_payload cmd key t = Ok (res, t')" and con: "transit_inv t" and fits: "payload_fits (c_payload cmd)"
    and now: "clock_now (clock (simulation (run t))) \<le> c_logical_time cmd"
  shows "rel ((run t)\<lparr>kill_switched := kill_after cmd (kill_switched (run t))\<rparr>) (run t')"
proof (cases "c_payload cmd")
  case (SubmitOrder order)
  then show ?thesis
    using run fits apply_submit_rel [OF _ con _ now] by (simp add: apply_payload_def payload_fits_def kill_after_def)
next
  case (SubmitOrderAtListing k order)
  then show ?thesis
    using run fits apply_submit_rel [OF _ con _ now] by (simp add: apply_payload_def payload_fits_def kill_after_def)
next
  case (CancelOrder c)
  then show ?thesis
    using run apply_cancel_rel by (simp add: apply_payload_def kill_after_def)
next
  case ActivateKillSwitch
  let ?s = "(run t)\<lparr>kill_switched := bs_insert (c_actor cmd) (kill_switched (run t))\<rparr>"
  obtain live where live: "cancel_listed KillSwitch live (push KillSwitchActivated (t\<lparr>run := ?s\<rparr>)) = Ok t'"
    using run ActivateKillSwitch by (auto simp: apply_payload_def activate_kill_switch_def Let_def result_simps)
  have "transit_inv (push KillSwitchActivated (t\<lparr>run := ?s\<rparr>))"
    using con consistent_cong [of ?s "run t"] by (simp add: ended_orders_def map_filter_def)
  then show ?thesis
    using tracksD [OF tracks_cancel_listed live] ActivateKillSwitch by (simp add: kill_after_def)
next
  case ResetKillSwitch
  then show ?thesis
    using run reflexive by (auto simp: apply_payload_def kill_after_def)
qed

lemma commit_payloads_rel: "try_fold (commit_payload at) ps s = Ok s' \<Longrightarrow> rel s s'"
proof (rule try_fold_inv [where P = "rel s"])
  fix p u v
  assume u: "rel s u" and "commit_payload at p u = Ok v"
  then obtain sim where sim: "project_event (simulation u) at p = Ok sim"
    and v: "v = (case terminal_order p of None \<Rightarrow> u\<lparr>simulation := sim\<rparr> | Some i \<Rightarrow> retire i (u\<lparr>simulation := sim\<rparr>))"
    by (auto simp: commit_payload_def Let_def result_simps)
  have "audited (retire i w) = audited w" for i w
    by (auto simp: retire_def release_live_def audited_def Let_def case_prod_unfold split: option.split)
  then have "audited v = audited (u\<lparr>simulation := sim\<rparr>)"
    using v by (simp split: option.split)
  moreover have "orders_aged (ownership (u\<lparr>simulation := sim\<rparr>)) (ownership v)"
    using v retire_aged [of "u\<lparr>simulation := sim\<rparr>"] by (simp split: option.split)
  ultimately show "rel s v"
    using u projecting [OF sim] bookkeeping transitive by blast
qed (auto simp: reflexive)

lemma finish_rel:
  assumes "finish cmd n acc code order t = Ok (ap, s')"
  obtains s where "rel (run t) s" and "envelope_events cmd (run_event_sequence s) (payloads t) = Ok (events ap)"
    and "s' = s\<lparr>run_sequence := n, run_event_sequence :=
      (if events ap = [] then run_event_sequence s else ev_sequence (last (events ap)))\<rparr>"
proof -
  obtain s evs where s: "try_fold (commit_payload (c_logical_time cmd)) (payloads t) (run t) = Ok s"
    and evs: "envelope_events cmd (run_event_sequence s) (payloads t) = Ok evs" and ap: "events ap = evs"
    and s': "s' = s\<lparr>run_sequence := n, run_event_sequence := (if evs = [] then run_event_sequence s else ev_sequence (last evs))\<rparr>"
    using assms by (auto simp: finish_def Let_def result_simps)
  show ?thesis
    using that [OF commit_payloads_rel [OF s]] evs s' unfolding ap by blast
qed

text \<open>
  A whole order command: the simulation catches up, then a related run, the kill switch
  of the command, another related run, and the new sequence numbers.
\<close>

lemma run_apply_rel:
  assumes "run_apply s cmd = Ok (ap, s')" and "run_inv s" and "payload_fits (c_payload cmd)"
  obtains s1 s2 s3 ps where "caught_up (c_logical_time cmd) False s s1" and "rel s1 s2" and "unexpired s2"
    and "rel (s2\<lparr>kill_switched := kill_after cmd (kill_switched s2)\<rparr>) s3"
    and "envelope_events cmd (run_event_sequence s3) ps = Ok (events ap)"
    and "s' = s3\<lparr>run_sequence := run_sequence s + 1, run_event_sequence :=
      (if events ap = [] then run_event_sequence s3 else ev_sequence (last (events ap)))\<rparr>"
    and "c_run_id cmd = rs_run_id s" and "clock_now (clock (simulation s)) \<le> c_logical_time cmd"
proof -
  obtain n key where n: "preflight s (c_run_id cmd) (c_expected_sequence cmd) = Ok n"
    and le: "clock_now (clock (simulation s)) \<le> c_logical_time cmd"
    and run: "apply_validated s cmd n key = Ok (ap, s')"
    using assms(1) by (auto simp: run_apply_def result_simps not_less split: if_splits)
  obtain t acc code order t1 where t: "catch_up (c_logical_time cmd) False (transit_of s) = Ok t"
    and t1: "apply_payload cmd key t = Ok ((acc, code, order), t1)" and fin: "finish cmd n acc code order t1 = Ok (ap, s')"
    using run by (auto simp: apply_validated_def result_simps)
  have inv0: "transit_inv (transit_of s)" "run (transit_of s) = s"
    using assms(2) by (simp_all add: transit_of_def) (simp add: ended_orders_def map_filter_def)
  obtain s1 where s1: "caught_up (c_logical_time cmd) False s s1" "rel s1 (run t)"
    using catch_up_rel [OF t inv0(1)] inv0(2) by auto
  have inv: "transit_inv t"
    using keepsD [OF keeps_catch_up t inv0(1)] by blast
  note pay = apply_payload_rel [OF t1 inv assms(3) eq_refl [OF catch_up_now [OF t inv0(1)]]]
  obtain s3 where s3: "rel (run t1) s3" "envelope_events cmd (run_event_sequence s3) (payloads t1) = Ok (events ap)"
    "s' = s3\<lparr>run_sequence := n, run_event_sequence :=
      (if events ap = [] then run_event_sequence s3 else ev_sequence (last (events ap)))\<rparr>"
    by (rule finish_rel [OF fin])
  have "n = run_sequence s + 1" "c_run_id cmd = rs_run_id s"
    using n by (auto simp: preflight_def result_simps u64_checked_add_def split: if_splits)
  then show ?thesis
    using that [OF s1 catch_up_unexpired [OF t inv0(1)] transitive [OF pay s3(1)] s3(2)] s3(3) le by simp
qed

text \<open>A whole simulation command.\<close>

lemma run_apply_simulation_rel:
  assumes "run_apply_simulation s req = Ok (ap, s')" and inv: "run_inv s"
  obtains s1 s2 s3 s4 ps where "caught_up (c_logical_time req) (c_payload req = ClockTick) s s1" and "rel s1 s2"
    and "administered req s2 s3" and "rel s3 s4" and "\<exists>u. unexpired u \<and> rel u s4"
    and "envelope_events req (run_event_sequence s4) ps = Ok (events ap)"
    and "s' = s4\<lparr>run_sequence := run_sequence s + 1, run_event_sequence :=
      (if events ap = [] then run_event_sequence s4 else ev_sequence (last (events ap)))\<rparr>"
    and "c_run_id req = rs_run_id s" and "clock_now (clock (simulation s)) \<le> c_logical_time req"
proof -
  obtain n where n: "preflight s (c_run_id req) (c_expected_sequence req) = Ok n"
    and le: "clock_now (clock (simulation s)) \<le> c_logical_time req"
    and run: "apply_simulation_validated s req n = Ok (ap, s')"
    using assms(1) by (auto simp: run_apply_simulation_def Let_def result_simps not_less split: if_splits)
  define tick where "tick \<longleftrightarrow> c_payload req = ClockTick"
  define t0 where "t0 = (if tick \<and> c_logical_time req > clock_now (clock (simulation s))
    then push (Simulation (ClockAdvanced (clock_now (clock (simulation s))) (c_logical_time req))) (transit_of s)
    else transit_of s)"
  have t0: "run t0 = s" "ended_orders t0 = []"
    by (simp_all add: t0_def) (simp_all add: transit_of_def)
  obtain t1 t2 where t1: "catch_up (c_logical_time req) tick t0 = Ok t1"
    and t2: "apply_simulation_payload req t1 = Ok t2" and fin: "finish req n True None None t2 = Ok (ap, s')"
    using run unfolding apply_simulation_validated_def Let_def tick_def [symmetric] t0_def [symmetric] attempt_Ok_iff by blast
  have inv0: "transit_inv t0"
    using inv t0 by simp
  obtain s1 where s1: "caught_up (c_logical_time req) tick s s1" "rel s1 (run t1)"
    using catch_up_rel [OF t1 inv0] t0(1) by auto
  have inv1: "transit_inv t1"
    using keepsD [OF keeps_catch_up t1 inv0] by blast
  obtain s3 where s3: "administered req (run t1) s3" "rel s3 (run t2)" "unexpired (run t2)"
  proof (cases "is_mass_cancel (c_payload req)")
    case True
    then obtain p i where "mass_cancel p i t1 = Ok t2"
      using t2 by (cases "c_payload req") (auto simp: apply_simulation_payload_def)
    then obtain live t3 where t3: "cancel_listed MassCancelled live t1 = Ok t3" and "run t2 = run t3"
      by (auto simp: mass_cancel_def Let_def result_simps)
    then show ?thesis
      using that [of "run t1"] tracksD [OF tracks_cancel_listed t3 inv1] True
        cancel_listed_unexpired [OF t3 catch_up_unexpired [OF t1 inv0]] by (simp add: administered_def)
  next
    case False
    then obtain t3 where t3: "with_simulation_state t1 (simulation_apply (simulation (run t1)) (context_of (run t1))
        (c_actor req) (c_logical_time req) (c_payload req)) = Ok t3"
      and ex: "expire_due (clock_now (clock (simulation (run t3)))) t3 = Ok t2"
      using t2 by (cases "c_payload req") (auto simp: apply_simulation_payload_def attempt_Ok_iff)
    have "administered req (run t1) (run t3)"
      using t3 False by (auto simp: administered_def with_simulation_state_def result_simps)
    moreover have "transit_inv t3"
      using keepsD [OF keeps_simulation_apply t3 inv1] by blast
    then have "unexpired (run t2)"
      by (rule expire_due_unexpired [OF ex]) (simp add: clocks.expire_due_rel [OF ex])
    ultimately show ?thesis
      using that expire_due_rel [OF ex] by blast
  qed
  obtain s4 where s4: "rel (run t2) s4" "envelope_events req (run_event_sequence s4) (payloads t2) = Ok (events ap)"
    "s' = s4\<lparr>run_sequence := n, run_event_sequence :=
      (if events ap = [] then run_event_sequence s4 else ev_sequence (last (events ap)))\<rparr>"
    by (rule finish_rel [OF fin])
  have "n = run_sequence s + 1" "c_run_id req = rs_run_id s"
    using n by (auto simp: preflight_def result_simps u64_checked_add_def split: if_splits)
  then show ?thesis
    using that [OF _ s1(2) s3(1) transitive [OF s3(2) s4(1)] _ s4(2)] s1(1) s3(3) s4(1,3) le by (auto simp: tick_def)
qed

end

end
