(* ===== verification/Engine_Events.thy ===== *)
theory Engine_Events
  imports Engine_Relations Simulation_Invariant Engine_Runs
begin

text \<open>
  The event stream of a run. Whatever the commands, the events of a run carry the
  consecutive sequence numbers of one run-wide stream, their identifiers never repeat,
  and their times never go back.
\<close>

subsection \<open>Envelopes\<close>

definition stamped :: "'p envelope \<Rightarrow> event_envelope \<Rightarrow> bool" where
  "stamped cmd e \<longleftrightarrow>
     ev_event_id e = ev_sequence e \<and> ev_run_id e = c_run_id cmd \<and> ev_logical_time e = c_logical_time cmd \<and>
     ev_actor e = c_actor cmd \<and> ev_command_id e = c_command_id cmd \<and> ev_correlation_id e = c_correlation_id cmd"

lemma envelope_event_Ok:
  "envelope_event cmd n x = Ok e \<Longrightarrow> ev_sequence e = Suc (n + fst x) \<and> ev_payload e = snd x \<and> stamped cmd e"
  by (auto simp: envelope_event_def result_simps stamped_def u64_checked_add_def)

lemma envelope_events_Ok:
  assumes "envelope_events cmd n ps = Ok evs"
  shows "map ev_sequence evs = [Suc n ..< Suc (n + length evs)]" and "map ev_payload evs = ps"
    and "list_all (stamped cmd) evs"
proof -
  have all: "list_all2 (\<lambda>x e. envelope_event cmd n x = Ok e) (enumerate 0 ps) evs"
    using assms by (simp add: envelope_events_def result_simps)
  then have len: "length evs = length ps"
    by (auto dest: list_all2_lengthD)
  have ev: "ev_sequence (evs ! i) = Suc (n + i) \<and> ev_payload (evs ! i) = ps ! i \<and> stamped cmd (evs ! i)"
    if "i < length evs" for i
    using envelope_event_Ok [OF list_all2_nthD2 [OF all that]] that len by (simp add: nth_enumerate_eq)
  show "map ev_sequence evs = [Suc n ..< Suc (n + length evs)]"
    by (rule nth_equalityI) (simp_all add: ev del: upt_Suc)
  show "map ev_payload evs = ps"
    by (rule nth_equalityI) (simp_all add: ev len)
  show "list_all (stamped cmd) evs"
    using ev by (simp add: list_all_length)
qed

lemma envelope_events_last:
  assumes "envelope_events cmd n ps = Ok evs"
  shows "(if evs = [] then n else ev_sequence (last evs)) = n + length evs"
proof (cases evs rule: rev_cases)
  case (snoc xs e)
  then show ?thesis
    using arg_cong [OF envelope_events_Ok(1) [OF assms], of last] by simp
qed simp

subsection \<open>Sequence numbers and clock\<close>

definition same_stream :: "run_state \<Rightarrow> run_state \<Rightarrow> bool" where
  "same_stream s s' \<longleftrightarrow>
     run_sequence s' = run_sequence s \<and> run_event_sequence s' = run_event_sequence s \<and> kill_switched s' = kill_switched s \<and>
     clock (simulation s') = clock (simulation s) \<and> lifecycle (simulation s') = lifecycle (simulation s)"

interpretation stream: run_relation same_stream
proof
  fix s s' :: run_state and at event sim
  show "project_event (simulation s) at event = Ok sim \<Longrightarrow> same_stream s (s\<lparr>simulation := sim\<rparr>)"
    by (simp add: same_stream_def project_event_clock)
  show "audited s' = audited s \<Longrightarrow> orders_aged (ownership s) (ownership s') \<Longrightarrow> same_stream s s'"
    by (simp add: same_stream_def audited_def)
qed (auto simp: same_stream_def post_trade_def Let_def close_listing_def mark_to_close_def result_simps split: option.splits)

lemma caught_up_stream:
  "caught_up now sweep s s1 \<Longrightarrow> run_event_sequence s1 = run_event_sequence s \<and> clock_now (clock (simulation s1)) = now"
  by (auto simp: caught_up_def dest: catch_up_clock(1))

lemma administered_stream:
  "administered req s s1 \<Longrightarrow> run_event_sequence s1 = run_event_sequence s \<and>
     clock_now (clock (simulation s)) \<le> clock_now (clock (simulation s1))"
  by (auto simp: administered_def dest: simulation_apply_clock split: if_splits)

lemma run_apply_stream:
  assumes "run_apply s cmd = Ok (ap, s')" and "run_inv s" and "payload_fits (c_payload cmd)"
  shows "map ev_sequence (events ap) = [Suc (run_event_sequence s) ..< Suc (run_event_sequence s')]"
    and "list_all (stamped cmd) (events ap)" and "run_sequence s' = run_sequence s + 1" and "c_run_id cmd = rs_run_id s"
    and "clock_now (clock (simulation s)) \<le> c_logical_time cmd" and "clock_now (clock (simulation s')) = c_logical_time cmd"
    and "run_event_sequence s \<le> run_event_sequence s'"
proof (atomize (full), goal_cases)
  case 1
  obtain s1 s2 s3 ps where cu: "caught_up (c_logical_time cmd) False s s1" and r1: "same_stream s1 s2"
    and r2: "same_stream (s2\<lparr>kill_switched := kill_after cmd (kill_switched s2)\<rparr>) s3"
    and ev: "envelope_events cmd (run_event_sequence s3) ps = Ok (events ap)"
    and s': "s' = s3\<lparr>run_sequence := run_sequence s + 1, run_event_sequence :=
      (if events ap = [] then run_event_sequence s3 else ev_sequence (last (events ap)))\<rparr>"
    and id: "c_run_id cmd = rs_run_id s" "clock_now (clock (simulation s)) \<le> c_logical_time cmd"
    by (rule stream.run_apply_rel [OF assms])
  have "run_event_sequence s3 = run_event_sequence s" "clock_now (clock (simulation s3)) = c_logical_time cmd"
    using caught_up_stream [OF cu] r1 r2 by (simp_all add: same_stream_def)
  then show ?case
    using envelope_events_Ok [OF ev] envelope_events_last [OF ev] id by (simp add: s' del: upt_Suc)
qed

lemma run_apply_simulation_stream:
  assumes "run_apply_simulation s req = Ok (ap, s')" and "run_inv s"
  shows "map ev_sequence (events ap) = [Suc (run_event_sequence s) ..< Suc (run_event_sequence s')]"
    and "list_all (stamped req) (events ap)" and "run_sequence s' = run_sequence s + 1" and "c_run_id req = rs_run_id s"
    and "clock_now (clock (simulation s)) \<le> c_logical_time req" and "c_logical_time req \<le> clock_now (clock (simulation s'))"
    and "run_event_sequence s \<le> run_event_sequence s'"
proof (atomize (full), goal_cases)
  case 1
  obtain s1 s2 s3 s4 ps where cu: "caught_up (c_logical_time req) (c_payload req = ClockTick) s s1" and r1: "same_stream s1 s2"
    and ad: "administered req s2 s3" and r2: "same_stream s3 s4"
    and ev: "envelope_events req (run_event_sequence s4) ps = Ok (events ap)"
    and s': "s' = s4\<lparr>run_sequence := run_sequence s + 1, run_event_sequence :=
      (if events ap = [] then run_event_sequence s4 else ev_sequence (last (events ap)))\<rparr>"
    and id: "c_run_id req = rs_run_id s" "clock_now (clock (simulation s)) \<le> c_logical_time req"
    by (rule stream.run_apply_simulation_rel [OF assms])
  have "run_event_sequence s4 = run_event_sequence s" "c_logical_time req \<le> clock_now (clock (simulation s4))"
    using caught_up_stream [OF cu] administered_stream [OF ad] r1 r2 by (simp_all add: same_stream_def)
  then show ?case
    using envelope_events_Ok [OF ev] envelope_events_last [OF ev] id by (simp add: s' del: upt_Suc)
qed

subsection \<open>Histories\<close>

text \<open>The events a sequence of commands commits.\<close>

inductive run_history :: "run_state \<Rightarrow> event_envelope list \<Rightarrow> run_state \<Rightarrow> bool" for s where
  start: "run_history s [] s"
| order_command: "run_history s evs s1 \<Longrightarrow> run_apply s1 cmd = Ok (ap, s2) \<Longrightarrow> payload_fits (c_payload cmd) \<Longrightarrow>
    run_history s (evs @ events ap) s2"
| simulation_command: "run_history s evs s1 \<Longrightarrow> run_apply_simulation s1 req = Ok (ap, s2) \<Longrightarrow>
    run_history s (evs @ events ap) s2"

definition ordered_stream :: "run_state \<Rightarrow> event_envelope list \<Rightarrow> run_state \<Rightarrow> bool" where
  "ordered_stream s evs s' \<longleftrightarrow>
     map ev_sequence evs = [Suc (run_event_sequence s) ..< Suc (run_event_sequence s')] \<and>
     list_all (\<lambda>e. ev_event_id e = ev_sequence e \<and> ev_run_id e = rs_run_id s) evs \<and>
     sorted (map ev_logical_time evs) \<and>
     list_all (\<lambda>e. clock_now (clock (simulation s)) \<le> ev_logical_time e \<and> ev_logical_time e \<le> clock_now (clock (simulation s'))) evs"

lemma ordered_stream_extend:
  assumes "ordered_stream s evs s1" and "list_all (stamped cmd) new" and "rs_run_id s1 = rs_run_id s"
    and "map ev_sequence new = [Suc (run_event_sequence s1) ..< Suc (run_event_sequence s2)]"
    and "c_run_id cmd = rs_run_id s1" and "clock_now (clock (simulation s)) \<le> clock_now (clock (simulation s1))"
    and "clock_now (clock (simulation s1)) \<le> c_logical_time cmd"
    and "c_logical_time cmd \<le> clock_now (clock (simulation s2))"
    and "run_event_sequence s \<le> run_event_sequence s1" and "run_event_sequence s1 \<le> run_event_sequence s2"
  shows "ordered_stream s (evs @ new) s2"
proof -
  have times: "map ev_logical_time new = replicate (length new) (c_logical_time cmd)"
    using assms(2) by (induction new) (simp_all add: stamped_def)
  have "[Suc (run_event_sequence s) ..< Suc (run_event_sequence s1)] @ [Suc (run_event_sequence s1) ..< Suc (run_event_sequence s2)]
      = [Suc (run_event_sequence s) ..< Suc (run_event_sequence s2)]"
    using upt_add_eq_append [of "Suc (run_event_sequence s)" "Suc (run_event_sequence s1)"
        "run_event_sequence s2 - run_event_sequence s1"] assms(9,10) by (simp del: upt_Suc)
  moreover have "sorted (map ev_logical_time (evs @ new))"
    using assms(1,7) by (auto simp: times sorted_append ordered_stream_def list_all_iff intro: order_trans)
  ultimately show ?thesis
    using assms
    by (auto simp: ordered_stream_def list_all_iff stamped_def simp del: upt_Suc intro: order_trans)
qed

lemma run_history_ordered:
  assumes "run_history s evs s'" and "run_inv s"
  shows "ordered_stream s evs s' \<and> run_inv s' \<and> rs_run_id s' = rs_run_id s \<and>
    run_event_sequence s \<le> run_event_sequence s' \<and> clock_now (clock (simulation s)) \<le> clock_now (clock (simulation s'))"
  using assms(1)
proof (induction rule: run_history.induct)
  case start
  then show ?case
    using assms(2) by (simp add: ordered_stream_def)
next
  case (order_command evs s1 cmd ap s2)
  then have inv: "run_inv s1"
    by blast
  note st = run_apply_stream [OF order_command.hyps(2) inv order_command.hyps(3)]
  have "rs_run_id s2 = rs_run_id s1" "run_inv s2"
    using run_apply_inv [OF order_command.hyps(2) inv order_command.hyps(3)] by (simp_all add: run_constants_def)
  then show ?case
    using order_command.IH st ordered_stream_extend [OF _ st(2) _ st(1,4) _ st(5)] by simp
next
  case (simulation_command evs s1 req ap s2)
  then have inv: "run_inv s1"
    by blast
  note st = run_apply_simulation_stream [OF simulation_command.hyps(2) inv]
  have "rs_run_id s2 = rs_run_id s1" "run_inv s2"
    using run_apply_simulation_inv [OF simulation_command.hyps(2) inv] by (simp_all add: run_constants_def)
  then show ?case
    using simulation_command.IH st ordered_stream_extend [OF _ st(2) _ st(1,4) _ st(5,6)] by simp
qed

subsection \<open>Properties\<close>

text \<open>C2. The events that any sequence of commands commits to a run carry consecutive
  run-wide sequence numbers, an identifier that never repeats and the run's identity;
  their times never go back and lie between the run clock before and after, and the run
  stays consistent throughout.\<close>

theorem event_stream_gapless:
  assumes "run_history s evs s'" and "run_inv s"
  shows "map ev_sequence evs = [Suc (run_event_sequence s) ..< Suc (run_event_sequence s')] \<and>
    distinct (map ev_event_id evs) \<and> list_all (\<lambda>e. ev_run_id e = rs_run_id s) evs \<and>
    sorted (map ev_logical_time evs) \<and>
    list_all (\<lambda>e. clock_now (clock (simulation s)) \<le> ev_logical_time e \<and>
      ev_logical_time e \<le> clock_now (clock (simulation s'))) evs \<and> run_inv s'"
proof -
  have o: "ordered_stream s evs s'" and inv: "run_inv s'"
    using run_history_ordered [OF assms] by blast+
  have "map ev_event_id evs = map ev_sequence evs"
    using o unfolding ordered_stream_def list_all_iff by (intro map_cong) blast+
  then have "distinct (map ev_event_id evs)"
    using o by (simp only: ordered_stream_def distinct_upt)
  then show ?thesis
    using o inv by (simp add: ordered_stream_def list_all_iff del: upt_Suc)
qed

lemma demo_run_inv: "run_inv demo_run"
  by (rule empty_run_inv) (auto simp: demo_run_def bt_wf_def split: if_splits)

lemma demo_bid_fits: "payload_fits (c_payload demo_bid)"
  by (simp add: demo_bid_def demo_command_def demo_order_def payload_fits_def order_fits_def in_i64_def)

theorem event_stream_gapless_witness:
  "\<exists>evs. run_history demo_run evs demo_rested \<and> map ev_sequence evs = [1, 2, 3] \<and> distinct (map ev_event_id evs)"
proof -
  obtain ap where "run_apply demo_run demo_bid = Ok (ap, demo_rested)"
    using demo_bid_rests by blast
  then have h: "run_history demo_run ([] @ events ap) demo_rested"
    by (rule run_history.order_command [OF run_history.start _ demo_bid_fits])
  from event_stream_gapless [OF h demo_run_inv] have "map ev_sequence (events ap) = [1, 2, 3]" "distinct (map ev_event_id (events ap))"
    by (simp_all add: demo_rested_def demo_run_def upt_rec)
  then show ?thesis
    using h by auto
qed

end
