(* ===== verification/Origin_Runs.thy ===== *)
theory Origin_Runs
  imports Origin_Laws Engine_Events
begin

text \<open>
  The properties of the origin: idempotent commands, refusals without a trace, and recovery
  from the journal, for every sequence of operations on a run.
\<close>

lemma started_ok:
  assumes "live_genesis d g limits = Ok lr0" "sound_digests d" "list_all op_fits ops" "live_ops d ops lr0 = (rs, lr)"
  shows "live_ok d g rs lr" "lr_limits lr = limits" "list_all (\<lambda>r. input_fits (jr_input r)) rs"
  using live_ops_ok [OF assms(2,4), of g "[]"] live_ok_genesis [OF assms(1)] assms(3) by simp_all

lemma replayed_reachable:
  "replay_inputs inputs s = Ok s' \<Longrightarrow> run_reachable s \<Longrightarrow> list_all input_fits inputs \<Longrightarrow> run_reachable s'"
proof (induction inputs arbitrary: s)
  case (Cons input inputs)
  obtain ap s1 where s1: "apply_input s input = Ok (ap, s1)" "replay_inputs inputs s1 = Ok s'"
    using Cons.prems(1) by (auto simp: replay_inputs_def attempt_Ok_iff)
  have "run_step s s1"
    using s1(1) Cons.prems(3) by (cases input) (auto intro: run_step.intros)
  then show ?case
    using Cons.IH [OF s1(2)] Cons.prems(2,3) run_reachable_step by simp
qed (simp add: replay_inputs_def)

lemma recover_live:
  assumes "sound_digests d" "run_inv g" "live_ok d g rs lr" "live_ok d g (rs @ rs') lr'" "lr_limits lr' = lr_limits lr"
    and "list_all (\<lambda>r. input_fits (jr_input r)) (rs @ rs')"
  shows "recover_run d g (Some (checkpoint_state lr)) (lr_limits lr) (rs @ rs') =
    Ok (lr'\<lparr>lr_base := lr_base lr, lr_base_chain := lr_base_chain lr, lr_tail := lr_tail lr @ map jr_input rs'\<rparr>)"
proof -
  obtain n index where n: "n \<le> length rs" "history d (lr_limits lr) g (take n rs) (lr_base lr, lr_base_chain lr, index)"
      "lr_tail lr = map jr_input (drop n rs)"
    using assms(3) by (auto simp: live_ok_def)
  have "history d (lr_limits lr) g (rs @ rs') (core_of lr')"
    using live_okD(2) [OF assms(4)] assms(5) by simp
  then show ?thesis
    using recover_checkpoint [OF assms(1,2,6), of n "lr_limits lr" "lr_base lr" "lr_base_chain lr" index "core_of lr'"] n
      live_okD(1) [OF assms(4)] assms(5)
    by (simp add: checkpoint_state_def recovered_def core_of_def)
qed

section \<open>Properties\<close>

text \<open>C9. A command is committed once: after any operations on a live run, refused and failed ones
  included, an input that carries the identifier of a committed command is answered with the result
  committed then when its fingerprint is the same, with a conflict otherwise, and changes nothing.\<close>

theorem committed_commands_answered_again:
  assumes "live_genesis d g limits = Ok lr0" "run_reachable g" "sound_digests d" "list_all op_fits ops" "live_ops d ops lr0 = (rs, lr)"
    and "r \<in> set rs" "input_run_id input = rs_run_id g" "input_command_id input = input_command_id (jr_input r)"
    and "fingerprint_bytes d input = Ok fingerprint"
  shows "live_execute d input admission lr =
    (if fingerprint_bytes d (jr_input r) = Ok fingerprint then Ok (Duplicate (jr_result r)) else Err IdempotencyConflict, lr)"
proof -
  note ok = started_ok [OF assms(1,3-5)]
  have hist: "history d limits g rs (lr_state lr, lr_chain lr, lr_index lr)"
    using live_okD(2) [OF ok(1)] ok(2) by (simp add: core_of_def)
  have "rs_run_id (lr_state lr) = rs_run_id g"
    using history_constants [OF _ hist ok(3)] run_reachable_inv [OF assms(2)] by (simp add: run_constants_def)
  moreover obtain f where "fingerprint_bytes d (jr_input r) = Ok f"
      "bt_get (lr_index lr) (input_command_id input) = Some \<lparr>ic_fingerprint = f, ic_result = jr_result r\<rparr>"
    using history_index [OF hist] assms(6,8) by (fastforce simp: entry_of_def split: sum.splits)
  ultimately show ?thesis
    using assms(7,9) live_okD(1) [OF ok(1)] by (simp add: live_execute_def)
qed

text \<open>C8. What was not committed leaves no trace: after any operations, whatever the engine refused or
  poisoned and whatever exceeded a limit, the live run is available and its state is the one that the
  committed inputs alone lead to; their sequence numbers are consecutive and their identifiers distinct.\<close>

theorem refused_inputs_leave_no_trace:
  assumes "live_genesis d g limits = Ok lr0" "run_reachable g" "sound_digests d" "list_all op_fits ops" "live_ops d ops lr0 = (rs, lr)"
  shows "\<exists>s. live_state lr = Ok s \<and> replay_inputs (map jr_input rs) g = Ok s \<and> run_reachable s
    \<and> map (\<lambda>r. committed_sequence (jr_result r)) rs = [Suc (run_sequence g) ..< Suc (run_sequence s)]
    \<and> distinct (map (\<lambda>r. input_command_id (jr_input r)) rs) \<and> length rs \<le> max_commands limits"
proof -
  note ok = started_ok [OF assms(1,3-5)]
  have hist: "history d limits g rs (lr_state lr, lr_chain lr, lr_index lr)"
    using live_okD(2) [OF ok(1)] ok(2) by (simp add: core_of_def)
  obtain chain where "history d limits g (take 0 rs) (g, chain, [])"
    using history_start [OF hist] by (auto simp: history_Nil)
  then have replays: "replay_inputs (map jr_input rs) g = Ok (lr_state lr)"
    using history_replays [OF hist] by fastforce
  have "length rs \<le> max_commands limits"
  proof (cases rs rule: rev_cases)
    case (snoc xs r)
    then show ?thesis
      using hist by (auto simp: history_snoc dest: history_index elim!: commitE)
  qed simp
  moreover have "list_all input_fits (map jr_input rs)"
    using ok(3) by (simp add: list_all_iff)
  ultimately show ?thesis
    using live_okD(1) [OF ok(1)] replays replayed_reachable [OF replays assms(2)] history_sequence [OF hist] history_index [OF hist]
    by (simp add: live_state_def)
qed

text \<open>C10. The journal rebuilds the run: a recovery from the genesis state, the checkpoint that the run had
  at any earlier moment and all records committed so far returns the run as it is now, with its
  state, chain value and index; with the latest checkpoint it is the same run.\<close>

theorem journal_rebuilds_run:
  assumes "live_genesis d g limits = Ok lr0" "run_reachable g" "sound_digests d" "list_all op_fits (ops @ ops')"
    and "live_ops d ops lr0 = (rs, lr)" "live_ops d ops' lr = (rs', lr')"
  shows "recover_run d g (Some (checkpoint_state lr)) limits (rs @ rs') =
      Ok (lr'\<lparr>lr_base := lr_base lr, lr_base_chain := lr_base_chain lr, lr_tail := lr_tail lr @ map jr_input rs'\<rparr>)
    \<and> recover_run d g (Some (checkpoint_state lr')) limits (rs @ rs') = Ok lr'"
proof -
  have fits: "list_all op_fits ops" "list_all op_fits ops'"
    using assms(4) by simp_all
  note ok = started_ok [OF assms(1,3) fits(1) assms(5)]
  note ok' = live_ops_ok [OF assms(3,6) ok(1) fits(2)]
  have inv: "run_inv g" and all: "list_all (\<lambda>r. input_fits (jr_input r)) (rs @ rs')"
    using run_reachable_inv [OF assms(2)] ok(3) ok' by simp_all
  show ?thesis
    using recover_live [OF assms(3) inv ok(1), of rs' lr'] recover_live [OF assms(3) inv, of "rs @ rs'" lr' "[]" lr'] ok(2) ok' all
    by simp
qed

text \<open>C11. A recovery without a checkpoint accepts exactly the journals that executing their inputs on the
  genesis state writes: it succeeds on no altered, reordered or incomplete one, and what it returns is the
  run after those inputs.\<close>

theorem recovery_accepts_only_journals:
  assumes "run_reachable g" "list_all (\<lambda>r. input_fits (jr_input r)) rs"
  shows "recover_run d g None limits rs = Ok lr \<longleftrightarrow>
    (\<exists>chain core. genesis_chain d g = Ok chain \<and> history d limits g rs core \<and> lr = recovered limits rs 0 g chain core)"
proof
  assume rec: "recover_run d g None limits rs = Ok lr"
  then obtain chain where chain: "genesis_chain d g = Ok chain"
    by (auto simp: recover_run_def recovery_new_def live_genesis_def attempt_Ok_iff)
  let ?r = "resumed limits g rs 0 (g, chain, []) 0 (g, chain, [])"
  obtain r where "replay_all d rs ?r = Ok r"
    using rec recovery_new_none [OF chain, of limits rs] by (auto simp: recover_run_def attempt_Ok_iff)
  then have "history d limits g rs (core_of (rec_live r))"
    using replay_all_genuine [of d rs ?r r g "[]"] chain by (simp add: resumed_def core_of_def history_Nil)
  moreover from this have "recover_run d g None limits rs = Ok (recovered limits rs 0 g chain (core_of (rec_live r)))"
    using recover_genesis [OF _ assms(2) _ chain] run_reachable_inv [OF assms(1)] by blast
  ultimately show "\<exists>chain core. genesis_chain d g = Ok chain \<and> history d limits g rs core \<and> lr = recovered limits rs 0 g chain core"
    using rec chain by (metis Inr_inject)
next
  assume "\<exists>chain core. genesis_chain d g = Ok chain \<and> history d limits g rs core \<and> lr = recovered limits rs 0 g chain core"
  then show "recover_run d g None limits rs = Ok lr"
    using recover_genesis [OF _ assms(2)] run_reachable_inv [OF assms(1)] by blast
qed

section \<open>Witnesses\<close>

text \<open>Digests for a concrete run, and the commands of the demonstration on its origin.\<close>

definition demo_digests :: digests where
  "demo_digests = \<lparr>json_state = \<lambda>_. Some [], json_command = \<lambda>c. Some [c_command_id c mod 256], json_request = \<lambda>_. Some [],
     json_chained = \<lambda>_. Some [], sha256_of = \<lambda>bytes. replicate 32 (sum_list bytes mod 256)\<rparr>"

lemma demo_digests_sound: "sound_digests demo_digests"
  by (simp add: sound_digests_def demo_digests_def)

lemma demo_reachable: "run_reachable demo_run"
  using demo_started demo_scenario_typed unfolding run_reachable_def by blast

definition demo_ops :: "live_op list" where
  "demo_ops = [Execute (OrderInput demo_bid) None, Checkpoint, Execute (OrderInput demo_bid) None]"

lemma demo_ops_fit: "list_all op_fits demo_ops"
  using demo_bid_fits by (simp add: demo_ops_def)

lemma demo_committed:
  "\<exists>lr0 r lr. live_genesis demo_digests demo_run default_run_limits = Ok lr0 \<and> live_ops demo_digests demo_ops lr0 = ([r], lr)
    \<and> jr_input r = OrderInput demo_bid \<and> lr_state lr = demo_rested"
proof -
  obtain chain where "genesis_chain demo_digests demo_run = Ok chain"
    by (simp add: genesis_chain_def hash_serializable_def demo_digests_def)
  moreover obtain ap where "run_apply demo_run demo_bid = Ok (ap, demo_rested)"
    using demo_bid_rests by blast
  moreover have "rs_run_id demo_run = 1" "run_sequence demo_run = 0" "run_event_sequence demo_rested = 3"
    "rs_run_id demo_rested = 1" "run_sequence demo_rested = 1"
    "c_run_id demo_bid = 1" "c_expected_sequence demo_bid = 0" "c_command_id demo_bid = 1"
    by (simp_all add: demo_run_def demo_rested_def demo_bid_def demo_command_def)
  ultimately show ?thesis
    by (simp add: live_genesis_def demo_ops_def live_execute_def commit_applied_def live_checkpoint_def digest_json_def next_chain_def
        Let_def demo_digests_def default_run_limits_def)
qed

theorem committed_commands_answered_again_witness:
  "\<exists>lr0 r lr. live_ops demo_digests demo_ops lr0 = ([r], lr)
    \<and> live_execute demo_digests (OrderInput demo_bid) None lr = (Ok (Duplicate (jr_result r)), lr)"
proof -
  obtain lr0 r lr where run: "live_genesis demo_digests demo_run default_run_limits = Ok lr0" "live_ops demo_digests demo_ops lr0 = ([r], lr)"
    and r: "jr_input r = OrderInput demo_bid"
    using demo_committed by blast
  have "input_run_id (OrderInput demo_bid) = rs_run_id demo_run"
    by (simp add: demo_bid_def demo_command_def demo_run_def)
  moreover obtain f where "fingerprint_bytes demo_digests (OrderInput demo_bid) = Ok f"
    by (simp add: demo_digests_def digest_json_def)
  ultimately show ?thesis
    using committed_commands_answered_again [OF run(1) demo_reachable demo_digests_sound demo_ops_fit run(2), of r "OrderInput demo_bid" f None] run(2) r
    by auto
qed

theorem refused_inputs_leave_no_trace_witness:
  "\<exists>lr0 r lr s. live_ops demo_digests demo_ops lr0 = ([r], lr) \<and> live_state lr = Ok s
    \<and> replay_inputs [OrderInput demo_bid] demo_run = Ok s \<and> run_reachable s"
  using demo_committed refused_inputs_leave_no_trace [OF _ demo_reachable demo_digests_sound demo_ops_fit] by fastforce

theorem journal_rebuilds_run_witness:
  "\<exists>lr0 r lr. live_ops demo_digests demo_ops lr0 = ([r], lr)
    \<and> recover_run demo_digests demo_run (Some (checkpoint_state lr)) default_run_limits [r] = Ok lr"
proof -
  obtain lr0 r lr where run: "live_genesis demo_digests demo_run default_run_limits = Ok lr0" "live_ops demo_digests demo_ops lr0 = ([r], lr)"
    using demo_committed by blast
  then show ?thesis
    using journal_rebuilds_run [OF run(1) demo_reachable demo_digests_sound _ run(2), of "[]" "[]" lr] demo_ops_fit by auto
qed

theorem recovery_accepts_only_journals_witness:
  "\<exists>lr0 r lr lr'. live_ops demo_digests demo_ops lr0 = ([r], lr)
    \<and> recover_run demo_digests demo_run None default_run_limits [r] = Ok lr' \<and> lr_state lr' = demo_rested"
proof -
  obtain lr0 r lr where run: "live_genesis demo_digests demo_run default_run_limits = Ok lr0" "live_ops demo_digests demo_ops lr0 = ([r], lr)"
    and "lr_state lr = demo_rested"
    using demo_committed by blast
  note ok = started_ok [OF run(1) demo_digests_sound demo_ops_fit run(2)]
  have hist: "history demo_digests default_run_limits demo_run [r] (demo_rested, lr_chain lr, lr_index lr)"
    using live_okD(2) [OF ok(1)] ok(2) \<open>lr_state lr = demo_rested\<close> by (simp add: core_of_def)
  obtain chain where chain: "genesis_chain demo_digests demo_run = Ok chain"
    using history_start [OF hist] by blast
  have "recover_run demo_digests demo_run None default_run_limits [r]
      = Ok (recovered default_run_limits [r] 0 demo_run chain (demo_rested, lr_chain lr, lr_index lr))"
    using recovery_accepts_only_journals [OF demo_reachable ok(3)] hist chain by blast
  moreover have "lr_state (recovered default_run_limits [r] 0 demo_run chain (demo_rested, lr_chain lr, lr_index lr)) = demo_rested"
    by (simp add: recovered_def)
  ultimately show ?thesis
    using run(2) by blast
qed

end
