(* ===== verification/File_Laws.thy ===== *)
theory File_Laws
  imports File_Origin Origin_Runs
begin

text \<open>
  The durable origin loses nothing that it answered. The journal file of a store always holds
  the frames of a valid sequence of entries, followed by part of a frame at most when a write has
  failed; the checkpoint file always describes an earlier moment of that sequence; and opening
  the store on such files gives every run as its entries say.
\<close>

section \<open>Valid journals\<close>

text \<open>The runs that a sequence of entries describes: genesis state and records.\<close>

fun add_entry ::
    "(run_id \<rightharpoonup> run_state \<times> command_record list) \<Rightarrow> commit_entry \<Rightarrow> (run_id \<rightharpoonup> run_state \<times> command_record list)" where
  "add_entry m (GenesisEntry e) = m(rs_run_id (es_state e) \<mapsto> (es_state e, []))"
| "add_entry m (CommandEntry r) =
     (case m (input_run_id (jr_input r)) of None \<Rightarrow> m | Some (g, rs) \<Rightarrow> m(input_run_id (jr_input r) \<mapsto> (g, rs @ [r])))"

definition runs_after :: "commit_entry list \<Rightarrow> (run_id \<rightharpoonup> run_state \<times> command_record list)" where
  "runs_after es = foldl add_entry (\<lambda>_. None) es"

lemma runs_after_simps [simp]:
  "runs_after [] = (\<lambda>_. None)" "runs_after (es @ [e]) = add_entry (runs_after es) e"
  by (simp_all add: runs_after_def)

inductive valid_log :: "digests \<Rightarrow> store_config \<Rightarrow> commit_entry list \<Rightarrow> bool" for d cfg where
  empty: "valid_log d cfg []"
| genesis: "valid_log d cfg es \<Longrightarrow> runs_after es (rs_run_id g) = None \<Longrightarrow> run_reachable g \<Longrightarrow>
    snapshot_new (json_state d) (sha256_of d) g = Ok e \<Longrightarrow> genesis_chain d g = Ok chain \<Longrightarrow>
    card (dom (runs_after es)) < max_runs cfg \<Longrightarrow> valid_log d cfg (es @ [GenesisEntry e])"
| command: "valid_log d cfg es \<Longrightarrow> runs_after es (input_run_id (jr_input r)) = Some (g, rs) \<Longrightarrow>
    history d (store_limits cfg) g (rs @ [r]) core \<Longrightarrow> input_fits (jr_input r) \<Longrightarrow> valid_log d cfg (es @ [CommandEntry r])"

lemma snapshot_newD:
  assumes "snapshot_new to_vec sha256 s = Ok e"
  shows "es_state e = s" and "run_reachable s \<Longrightarrow> snapshot_verify to_vec sha256 e = Ok ()"
proof -
  show "es_state e = s"
    using assms by (auto simp: snapshot_new_def attempt_Ok_iff)
  assume "run_reachable s"
  then have "run_validate s = Ok ()"
    using run_reachable_inv run_inv_validates by blast
  then show "snapshot_verify to_vec sha256 e = Ok ()"
    using assms by (auto simp: snapshot_new_def snapshot_verify_def attempt_Ok_iff)
qed

definition run_journalled :: "digests \<Rightarrow> store_config \<Rightarrow> run_id \<Rightarrow> run_state \<times> command_record list \<Rightarrow> bool" where
  "run_journalled d cfg i journalled_run \<longleftrightarrow>
     (case journalled_run of (g, rs) \<Rightarrow> rs_run_id g = i \<and> run_reachable g \<and> list_all (\<lambda>r. input_fits (jr_input r)) rs
        \<and> (\<exists>core. history d (store_limits cfg) g rs core))"

lemma valid_log_run:
  "valid_log d cfg es \<Longrightarrow> runs_after es i = Some journalled_run \<Longrightarrow> run_journalled d cfg i journalled_run"
proof (induction arbitrary: journalled_run rule: valid_log.induct)
  case (genesis es g e chain)
  then show ?case
    by (auto simp: snapshot_newD(1) run_journalled_def history_Nil split: if_splits)
next
  case (command es r g rs core)
  show ?case
  proof (cases "i = input_run_id (jr_input r)")
    case True
    have "run_journalled d cfg i (g, rs)"
      using command.IH command.hyps(2) by (simp add: True)
    then show ?thesis
      using command True by (cases core) (auto simp: run_journalled_def)
  next
    case False
    then show ?thesis
      using command by (auto split: option.splits prod.splits)
  qed
qed simp

section \<open>Recovery\<close>

text \<open>The checkpoints describe earlier moments of the runs.\<close>

definition checkpoints_ok ::
    "digests \<Rightarrow> store_config \<Rightarrow> commit_entry list \<Rightarrow> (run_id, run_state \<times> string) btree_map \<Rightarrow> bool" where
  "checkpoints_ok d cfg es m \<longleftrightarrow> bt_wf m \<and>
     (\<forall>i s t. bt_get m i = Some (s, t) \<longrightarrow>
        (\<exists>g rs n chain index. runs_after es i = Some (g, rs) \<and> n \<le> length rs \<and> t = hex chain
           \<and> history d (store_limits cfg) g (take n rs) (s, chain, index)))"

lemma recovered_ok:
  assumes "history d limits g rs core" "history d limits g (take n rs) (s0, chain0, index0)" "n \<le> length rs"
  shows "live_ok d g rs (recovered limits rs n s0 chain0 core)"
  using assms by (cases core) (auto simp: live_ok_def recovered_def core_of_def)

lemma run_recovers:
  assumes "sound_digests d" "run_journalled d cfg i (g, rs)" "runs_after es i = Some (g, rs)" "checkpoints_ok d cfg es m"
  shows "\<exists>r0 r lr. recovery_new d g (bt_get m i) (store_limits cfg) = Ok r0 \<and> replay_all d rs r0 = Ok r
    \<and> recovery_finish r = Ok lr \<and> live_ok d g rs lr \<and> lr_limits lr = store_limits cfg"
proof -
  obtain core where hist: "history d (store_limits cfg) g rs core"
    using assms(2) by (auto simp: run_journalled_def)
  have inv: "run_inv g" and fits: "list_all (\<lambda>r. input_fits (jr_input r)) rs"
    using assms(2) run_reachable_inv by (auto simp: run_journalled_def)
  obtain chain where chain: "genesis_chain d g = Ok chain"
    using history_start [OF hist] by blast
  obtain n s0 chain0 index0 where n: "n \<le> length rs" "history d (store_limits cfg) g (take n rs) (s0, chain0, index0)"
    and new: "recovery_new d g (bt_get m i) (store_limits cfg) = Ok (resumed (store_limits cfg) g rs n (s0, chain0, index0) 0 (g, chain, []))"
  proof (cases "bt_get m i")
    case None
    then show ?thesis
      using that [of 0 g chain "[]"] recovery_new_none [OF chain, of "store_limits cfg" rs] chain by (simp add: history_Nil)
  next
    case (Some c)
    then obtain s0 n chain0 index0 where "bt_get m i = Some (s0, hex chain0)" "n \<le> length rs"
        "history d (store_limits cfg) g (take n rs) (s0, chain0, index0)"
      using assms(3,4) by (cases c) (fastforce simp: checkpoints_ok_def)
    then show ?thesis
      using that recovery_new_checkpoint [OF assms(1) inv fits _ _ chain] by simp
  qed
  have "replay_all d rs (resumed (store_limits cfg) g rs n (s0, chain0, index0) 0 (g, chain, []))
      = Ok (resumed (store_limits cfg) g rs n (s0, chain0, index0) (length rs) core)"
    using replay_all_resumed [OF inv fits n(2,1) chain, of "length rs" core] hist by simp
  moreover have "lr_limits (recovered (store_limits cfg) rs n s0 chain0 core) = store_limits cfg"
    by (cases core) (simp add: recovered_def)
  ultimately show ?thesis
    using new finish_resumed [OF hist n(2,1)] recovered_ok [OF hist n(2,1)] by blast
qed


text \<open>The state of the scan after some entries.\<close>

definition recovers ::
    "digests \<Rightarrow> store_config \<Rightarrow> (run_id, run_state \<times> string) btree_map \<Rightarrow> run_id \<Rightarrow> run_state \<times> command_record list \<Rightarrow> run_recovery \<Rightarrow> bool" where
  "recovers d cfg m i journalled_run r \<longleftrightarrow>
     (\<exists>r0. recovery_new d (fst journalled_run) (bt_get m i) (store_limits cfg) = Ok r0 \<and> replay_all d (snd journalled_run) r0 = Ok r)"

definition recovering_ok ::
    "digests \<Rightarrow> store_config \<Rightarrow> (run_id, run_state \<times> string) btree_map \<Rightarrow> commit_entry list \<Rightarrow> recovering \<Rightarrow> bool" where
  "recovering_ok d cfg m es w \<longleftrightarrow>
     (case w of (m', recs) \<Rightarrow>
        bt_wf recs \<and> bt_wf m' \<and> (\<forall>i. bt_get m' i = (if runs_after es i = None then bt_get m i else None))
        \<and> (\<forall>i. rel_option (recovers d cfg m i) (runs_after es i) (bt_get recs i)))"

lemma recovers_snoc:
  assumes "recovers d cfg m i (g, rs @ [x]) r" "recovers d cfg m i (g, rs) r1"
  shows "replay d x r1 = (Ok (), r)"
  using assms by (auto simp: recovers_def replay_all_append split: prod.splits sum.splits)

lemma recovers_prefix: "recovers d cfg m i (g, rs @ xs) r \<Longrightarrow> \<exists>r1. recovers d cfg m i (g, rs) r1"
  by (auto simp: recovers_def replay_all_append attempt_Ok_iff)

lemma recover_scan:
  assumes wf: "bt_wf m"
  shows "valid_log d cfg es \<Longrightarrow> \<forall>i journalled_run. runs_after es i = Some journalled_run \<longrightarrow> (\<exists>r. recovers d cfg m i journalled_run r) \<Longrightarrow>
    \<exists>w. try_fold (recover_entry d cfg) es (m, []) = Ok w \<and> recovering_ok d cfg m es w"
proof (induction rule: valid_log.induct)
  case empty
  then show ?case
    using wf by (simp add: recovering_ok_def)
next
  case (genesis es g e chain)
  note e = snapshot_newD [OF genesis.hyps(4)]
  have "\<forall>i journalled_run. runs_after es i = Some journalled_run \<longrightarrow> (\<exists>r. recovers d cfg m i journalled_run r)"
    using genesis.prems genesis.hyps(2) by (simp add: e(1)) (metis option.discI)
  then obtain m' recs where w: "try_fold (recover_entry d cfg) es (m, []) = Ok (m', recs)" "recovering_ok d cfg m es (m', recs)"
    using genesis.IH by auto
  have dom: "bt_get recs i = None \<longleftrightarrow> runs_after es i = None" for i
    using w(2) by (auto simp: recovering_ok_def dest: spec [of _ i])
  have "length recs = card (dom (runs_after es))"
    using w(2) dom by (auto simp: recovering_ok_def bt_length dom_def intro!: arg_cong [of _ _ card])
  moreover obtain r where r: "recovery_new d g (bt_get m (rs_run_id g)) (store_limits cfg) = Ok r"
    using genesis.prems [rule_format, of "rs_run_id g" "(g, [])"] by (auto simp: e(1) recovers_def)
  moreover have "bt_get m' (rs_run_id g) = bt_get m (rs_run_id g)"
    using w(2) genesis.hyps(2) by (auto simp: recovering_ok_def)
  ultimately have "recover_entry d cfg (GenesisEntry e) (m', recs) = Ok (bt_remove (rs_run_id g) m', bt_insert (rs_run_id g) r recs)"
    using genesis.hyps(2,3,6) dom [of "rs_run_id g"] by (simp add: recover_entry_def e Let_def)
  moreover have "recovering_ok d cfg m (es @ [GenesisEntry e]) (bt_remove (rs_run_id g) m', bt_insert (rs_run_id g) r recs)"
    using w(2) r by (auto simp: recovering_ok_def e(1) recovers_def)
  ultimately show ?case
    using w(1) by (simp add: try_fold_append)
next
  case (command es r g rs core)
  let ?i = "input_run_id (jr_input r)"
  have "\<exists>r. recovers d cfg m i journalled_run r" if "runs_after es i = Some journalled_run" for i journalled_run
    using that command.prems [rule_format, of i] command.hyps(2) recovers_prefix [of d cfg m ?i g rs "[r]"]
    by (cases "i = ?i") auto
  then obtain m' recs where w: "try_fold (recover_entry d cfg) es (m, []) = Ok (m', recs)" "recovering_ok d cfg m es (m', recs)"
    using command.IH by (metis surj_pair)
  obtain r1 where r1: "bt_get recs ?i = Some r1" "recovers d cfg m ?i (g, rs) r1"
    using w(2) command.hyps(2) by (auto simp: recovering_ok_def option_rel_Some1 dest!: spec [of _ ?i])
  obtain r2 where r2: "recovers d cfg m ?i (g, rs @ [r]) r2"
    using command.prems [rule_format, of ?i "(g, rs @ [r])"] command.hyps(2) by auto
  have "recover_entry d cfg (CommandEntry r) (m', recs) = Ok (m', bt_insert ?i r2 recs)"
    using recovers_snoc [OF r2 r1(2)] r1(1) by (simp add: recover_entry_def)
  moreover have "recovering_ok d cfg m (es @ [CommandEntry r]) (m', bt_insert ?i r2 recs)"
    using w(2) r2 command.hyps(2) by (auto simp: recovering_ok_def)
  ultimately show ?case
    using w(1) by (simp add: try_fold_append)
qed


definition memory_ok :: "digests \<Rightarrow> store_config \<Rightarrow> commit_entry list \<Rightarrow> (run_id, live_run) btree_map \<Rightarrow> bool" where
  "memory_ok d cfg es runs \<longleftrightarrow> bt_wf runs \<and>
     (\<forall>i. rel_option (\<lambda>(g, rs) lr. live_ok d g rs lr \<and> lr_limits lr = store_limits cfg) (runs_after es i) (bt_get runs i))"

lemma finish_each_Ok:
  "\<forall>(i, r)\<in>set recs. \<exists>lr. recovery_finish r = Ok lr \<Longrightarrow>
    \<exists>runs. finish_each recs = Ok runs \<and> map fst runs = map fst recs
      \<and> (\<forall>i. rel_option (\<lambda>r lr. recovery_finish r = Ok lr) (bt_get recs i) (bt_get runs i))"
proof (induction recs)
  case (Cons x recs)
  obtain i r lr where x: "x = (i, r)" "recovery_finish r = Ok lr"
    using Cons.prems by (cases x) auto
  with Cons show ?case
    by (auto simp: finish_each_def)
qed (simp add: finish_each_def)

text \<open>The checkpoint file can be read and describes earlier moments.\<close>

definition checkpoint_file_ok :: "digests \<Rightarrow> store_codec \<Rightarrow> store_config \<Rightarrow> commit_entry list \<Rightarrow> nat list option \<Rightarrow> bool" where
  "checkpoint_file_ok d codec cfg es file \<longleftrightarrow> (\<exists>m. read_checkpoint d codec file = Ok m \<and> checkpoints_ok d cfg es m)"

definition sound_store_codec :: "store_codec \<Rightarrow> bool" where
  "sound_store_codec codec \<longleftrightarrow> sound_codec (entry_codec.truncate codec)
     \<and> (\<forall>c bytes. checkpoint_json codec c = Some bytes \<longrightarrow> checkpoint_parse codec bytes = Some c)"

lemma recover_Ok:
  assumes "sound_digests d" "sound_store_codec codec" "framed d (entry_codec.truncate codec) es = Ok bytes"
    and "torn d (entry_codec.truncate codec) tail" and "valid_log d cfg es" "checkpoint_file_ok d codec cfg es file"
  shows "\<exists>runs. recover d codec cfg file (bytes @ tail) = (Ok runs, bytes) \<and> memory_ok d cfg es runs"
proof -
  obtain m where m: "read_checkpoint d codec file = Ok m" "checkpoints_ok d cfg es m" "bt_wf m"
    using assms(6) by (auto simp: checkpoint_file_ok_def checkpoints_ok_def)
  have each: "\<exists>r0 r lr. recovery_new d g (bt_get m i) (store_limits cfg) = Ok r0 \<and> replay_all d rs r0 = Ok r
      \<and> recovery_finish r = Ok lr \<and> live_ok d g rs lr \<and> lr_limits lr = store_limits cfg"
    if "runs_after es i = Some (g, rs)" for i g rs
    using run_recovers [OF assms(1) valid_log_run [OF assms(5) that] that m(2)] .
  have "\<forall>i journalled_run. runs_after es i = Some journalled_run \<longrightarrow> (\<exists>r. recovers d cfg m i journalled_run r)"
    using each by (fastforce simp: recovers_def)
  then obtain m' recs where w: "try_fold (recover_entry d cfg) es (m, []) = Ok (m', recs)" "recovering_ok d cfg m es (m', recs)"
    using recover_scan [OF m(3) assms(5)] by auto
  have recs: "rel_option (recovers d cfg m i) (runs_after es i) (bt_get recs i)" "bt_wf recs" for i
    using w(2) by (auto simp: recovering_ok_def)
  have "bt_get m' i = None" for i
    using w(2) m(2) by (cases "bt_get m i") (simp add: recovering_ok_def, force simp: recovering_ok_def checkpoints_ok_def)
  then have unused: "m' = []"
    by (simp add: bt_Nil_iff)
  have finish: "\<exists>lr. recovery_finish r = Ok lr \<and> live_ok d g rs lr \<and> lr_limits lr = store_limits cfg"
    if "bt_get recs i = Some r" "runs_after es i = Some (g, rs)" for i r g rs
    using recs(1) [of i] each [OF that(2)] that by (auto simp: recovers_def)
  have "\<exists>lr. recovery_finish r = Ok lr" if "(i, r) \<in> set recs" for i r
  proof -
    have "bt_get recs i = Some r"
      using that recs(2) by (simp add: bt_get_mem)
    then show ?thesis
      using recs(1) [of i] finish [of i r] by (auto simp: option_rel_Some2)
  qed
  then obtain runs where runs: "finish_each recs = Ok runs" "map fst runs = map fst recs"
      "\<And>i. rel_option (\<lambda>r lr. recovery_finish r = Ok lr) (bt_get recs i) (bt_get runs i)"
    using finish_each_Ok [of recs] by blast
  have "rel_option (\<lambda>(g, rs) lr. live_ok d g rs lr \<and> lr_limits lr = store_limits cfg) (runs_after es i) (bt_get runs i)" for i
    using recs(1) [of i] runs(3) [of i] finish [of i]
    by (cases "runs_after es i"; cases "bt_get recs i") (fastforce simp: option_rel_Some1)+
  moreover have "bt_wf runs"
    using recs(2) runs(2) by (simp add: bt_wf_def)
  ultimately have "memory_ok d cfg es runs"
    by (simp add: memory_ok_def)
  moreover have "recover d codec cfg file (bytes @ tail) = (Ok runs, bytes)"
    using journal_scan_framed [OF assms(1) _ assms(3,4), of True "recover_entry d cfg" "(m, [])"] assms(2)
    by (simp add: recover_def m(1) w(1) unused runs(1) sound_store_codec_def)
  ultimately show ?thesis
    by blast
qed


section \<open>Checkpoints\<close>

lemma history_reachable:
  assumes "run_reachable g" "history d limits g rs core" "list_all (\<lambda>r. input_fits (jr_input r)) rs"
  shows "run_reachable (fst core)"
proof -
  obtain chain where "history d limits g (take 0 rs) (g, chain, [])"
    using history_start [OF assms(2)] by (auto simp: history_Nil)
  then have "replay_inputs (map jr_input rs) g = Ok (fst core)"
    using history_replays [OF assms(2)] by fastforce
  then show ?thesis
    using replayed_reachable assms(1,3) by (simp add: list_all_iff)
qed

lemma live_base:
  assumes "run_journalled d cfg i (g, rs)" "live_ok d g rs lr" "lr_limits lr = store_limits cfg"
  shows "rs_run_id (lr_base lr) = i" "run_reachable (lr_base lr)"
    "\<exists>n index. n \<le> length rs \<and> history d (store_limits cfg) g (take n rs) (lr_base lr, lr_base_chain lr, index)"
proof -
  obtain n index where n: "n \<le> length rs" "history d (store_limits cfg) g (take n rs) (lr_base lr, lr_base_chain lr, index)"
    using assms(2,3) by (auto simp: live_ok_def)
  have g: "rs_run_id g = i" "run_reachable g" "list_all (\<lambda>r. input_fits (jr_input r)) (take n rs)"
    using assms(1) by (auto simp: run_journalled_def list_all_iff dest: in_set_takeD)
  show "rs_run_id (lr_base lr) = i" "run_reachable (lr_base lr)"
    using history_constants [OF _ n(2) g(3)] history_reachable [OF g(2) n(2) g(3)] run_reachable_inv [OF g(2)] g(1)
    by (auto simp: run_constants_def)
  show "\<exists>n index. n \<le> length rs \<and> history d (store_limits cfg) g (take n rs) (lr_base lr, lr_base_chain lr, index)"
    using n by blast
qed

lemma insert_checkpoints:
  assumes "list_all2 (\<lambda>x c. checkpoint_entry d (snd x) = Ok c) runs cs"
  shows "distinct (map fst runs) \<Longrightarrow> \<forall>(i, lr)\<in>set runs. rs_run_id (lr_base lr) = i \<and> run_reachable (lr_base lr) \<and> bt_get m i = None \<Longrightarrow>
    bt_wf m \<Longrightarrow> \<exists>m'. try_fold (insert_checkpoint d) cs m = Ok m' \<and> bt_wf m'
      \<and> (\<forall>i. bt_get m' i = (case bt_get runs i of None \<Rightarrow> bt_get m i | Some lr \<Rightarrow> Some (checkpoint_state lr)))"
  using assms
proof (induction runs cs arbitrary: m rule: list_all2_induct)
  case (Cons x runs c cs)
  obtain i lr where x: "x = (i, lr)"
    by (cases x)
  have lr: "rs_run_id (lr_base lr) = i" "run_reachable (lr_base lr)" "bt_get m i = None" and fresh: "i \<notin> fst ` set runs"
    using Cons.prems by (auto simp: x)
  obtain e where c: "c = \<lparr>cp_snapshot = e, cp_chain = snd (checkpoint_state lr)\<rparr>"
    and e: "snapshot_new (json_state d) (sha256_of d) (lr_base lr) = Ok e"
    using Cons.hyps(1) by (auto simp: x checkpoint_entry_def checkpoint_state_def attempt_Ok_iff map_err_Ok_iff)
  let ?m = "bt_insert i (checkpoint_state lr) m"
  have "insert_checkpoint d c m = Ok ?m"
    using snapshot_newD [OF e] lr by (simp add: insert_checkpoint_def c Let_def checkpoint_state_def)
  moreover have later: "\<forall>(j, lr)\<in>set runs. rs_run_id (lr_base lr) = j \<and> run_reachable (lr_base lr) \<and> bt_get ?m j = None"
    using Cons.prems(2) fresh by (force simp: x)
  obtain m' where "try_fold (insert_checkpoint d) cs ?m = Ok m'" "bt_wf m'"
      "\<And>j. bt_get m' j = (case bt_get runs j of None \<Rightarrow> bt_get ?m j | Some lr \<Rightarrow> Some (checkpoint_state lr))"
    using Cons.IH [OF _ later] Cons.prems by (auto simp: x)
  moreover have "bt_get runs i = None"
    using fresh by (simp add: map_of_eq_None_iff)
  ultimately show ?case
    by (auto simp: x split: option.splits)
qed simp

lemma write_checkpoint_ok:
  assumes "sound_store_codec codec" "valid_log d cfg es" "memory_ok d cfg es runs" "checkpoint_file_ok d codec cfg es old"
  shows "checkpoint_file_ok d codec cfg es (snd (write_checkpoint d codec io runs old))"
proof (cases "attempt (try_map (\<lambda>(_, lr). checkpoint_entry d lr) runs) (\<lambda>entries.
    ok_or InvalidCommit (checkpoint_json codec \<lparr>cp_version = CHECKPOINT_VERSION, cp_runs = entries\<rparr>))")
  case (Inl e)
  then show ?thesis
    using assms(4) by (simp add: write_checkpoint_def)
next
  case (Inr bytes)
  then obtain cs where cs: "list_all2 (\<lambda>x c. checkpoint_entry d (snd x) = Ok c) runs cs"
    and json: "checkpoint_json codec \<lparr>cp_version = CHECKPOINT_VERSION, cp_runs = cs\<rparr> = Some bytes"
    by (auto simp: attempt_Ok_iff ok_or_Ok_iff try_map_Ok_iff case_prod_beta)
  have base: "rs_run_id (lr_base lr) = i \<and> run_reachable (lr_base lr) \<and> (\<exists>g rs n index. runs_after es i = Some (g, rs) \<and> n \<le> length rs
      \<and> history d (store_limits cfg) g (take n rs) (lr_base lr, lr_base_chain lr, index))" if get: "bt_get runs i = Some lr" for i lr
  proof -
    have "rel_option (\<lambda>(g, rs) lr. live_ok d g rs lr \<and> lr_limits lr = store_limits cfg) (runs_after es i) (bt_get runs i)"
      using assms(3) by (simp add: memory_ok_def)
    then obtain g rs where run: "runs_after es i = Some (g, rs)" "live_ok d g rs lr" "lr_limits lr = store_limits cfg"
      using get by (auto simp: option_rel_Some2)
    show ?thesis
      using live_base [OF valid_log_run [OF assms(2) run(1)] run(2,3)] run(1) by auto
  qed
  have wf: "bt_wf runs"
    using assms(3) by (simp add: memory_ok_def)
  have "\<forall>(i, lr)\<in>set runs. rs_run_id (lr_base lr) = i \<and> run_reachable (lr_base lr) \<and> bt_get [] i = None"
    using base bt_get_mem [OF wf] by auto
  then obtain m where m: "try_fold (insert_checkpoint d) cs [] = Ok m" "bt_wf m"
      "\<forall>i. bt_get m i = (case bt_get runs i of None \<Rightarrow> bt_get [] i | Some lr \<Rightarrow> Some (checkpoint_state lr))"
    using insert_checkpoints [OF cs bt_distinct [OF wf] _ bt_wf_Nil] by blast
  have "read_checkpoint d codec (Some bytes) = Ok m"
    using assms(1) json m(1) by (simp add: read_checkpoint_def sound_store_codec_def)
  moreover have "\<exists>g rs n chain index. runs_after es i = Some (g, rs) \<and> n \<le> length rs \<and> t = hex chain
      \<and> history d (store_limits cfg) g (take n rs) (s, chain, index)" if get: "bt_get m i = Some (s, t)" for i s t
  proof -
    obtain lr where "bt_get runs i = Some lr" "s = lr_base lr" "t = hex (lr_base_chain lr)"
      using get m(3) [rule_format, of i] by (auto simp: checkpoint_state_def split: option.splits)
    then show ?thesis
      using base by blast
  qed
  then have "checkpoints_ok d cfg es m"
    using m(2) by (simp add: checkpoints_ok_def)
  ultimately have "checkpoint_file_ok d codec cfg es (Some bytes)"
    by (auto simp: checkpoint_file_ok_def)
  then show ?thesis
    using assms(4) by (simp add: write_checkpoint_def Inr split: persist_outcome.splits)
qed


section \<open>The store follows its files\<close>

definition disk_ok :: "digests \<Rightarrow> store_codec \<Rightarrow> file_store \<Rightarrow> commit_entry list \<Rightarrow> bool" where
  "disk_ok d codec st es \<longleftrightarrow> valid_log d (fo_config st) es \<and> checkpoint_file_ok d codec (fo_config st) es (fo_checkpoint st)
     \<and> (\<exists>bytes tail. framed d (entry_codec.truncate codec) es = Ok bytes \<and> torn d (entry_codec.truncate codec) tail
          \<and> fo_journal st = bytes @ tail)"

definition store_ok :: "digests \<Rightarrow> store_codec \<Rightarrow> file_store \<Rightarrow> commit_entry list \<Rightarrow> bool" where
  "store_ok d codec st es \<longleftrightarrow> disk_ok d codec st es
     \<and> (\<not> fo_poisoned st \<longrightarrow> memory_ok d (fo_config st) es (fo_runs st)
          \<and> framed d (entry_codec.truncate codec) es = Ok (fo_journal st))"

lemma framed_append:
  "framed d codec (es @ [e]) = attempt (framed d codec es) (\<lambda>bytes. attempt (journal_frame d codec e) (\<lambda>f. Ok (bytes @ f)))"
  by (induction es) (auto simp: attempt_def split: sum.splits)

text \<open>Appending an entry gives the longer sequence, or leaves a torn frame after the old one.\<close>

lemma append_cases:
  assumes "framed d codec es = Ok file" "journal_append d codec e io file = (answer, file')"
  obtains (written) "framed d codec (es @ [e]) = Ok file'"
  | (failed) tail where "answer \<noteq> Ok ()" "torn d codec tail" "file' = file @ tail"
proof (cases "journal_frame d codec e")
  case (Inl x)
  then show thesis
    using assms that(2) [of "[]"] by (auto simp: journal_append_def torn_def)
next
  case (Inr f)
  then have whole: "framed d codec (es @ [e]) = Ok (file @ f)"
    using assms(1) by (simp add: framed_append)
  show thesis
  proof (cases io)
    case Written
    then show thesis
      using whole assms(2) Inr that(1) by (simp add: journal_append_def)
  next
    case (WriteFailed n)
    then show thesis
      using whole assms(2) Inr that(1) that(2) [of "take n f"]
      by (cases "n < length f") (auto simp: journal_append_def torn_def)
  qed
qed

lemma runs_after_mono:
  assumes "valid_log d cfg (es @ [e])" "runs_after es i = Some (g, rs)"
  shows "\<exists>xs. runs_after (es @ [e]) i = Some (g, rs @ xs)"
  using assms(1)
proof (cases rule: valid_log.cases)
  case (genesis es' g' e' chain)
  then show ?thesis
    using assms(2) by (auto simp: snapshot_newD(1))
next
  case (command es' r g' rs' core)
  then show ?thesis
    using assms(2) by auto
qed simp

lemma checkpoint_file_ok_mono:
  assumes "checkpoint_file_ok d codec cfg es file" "valid_log d cfg (es @ [e])"
  shows "checkpoint_file_ok d codec cfg (es @ [e]) file"
proof -
  obtain m where m: "read_checkpoint d codec file = Ok m" "checkpoints_ok d cfg es m"
    using assms(1) by (auto simp: checkpoint_file_ok_def)
  have "\<exists>g rs n chain index. runs_after (es @ [e]) i = Some (g, rs) \<and> n \<le> length rs \<and> t = hex chain
      \<and> history d (store_limits cfg) g (take n rs) (s, chain, index)" if get: "bt_get m i = Some (s, t)" for i s t
  proof -
    obtain g rs n chain index where run: "runs_after es i = Some (g, rs)" "n \<le> length rs" "t = hex chain"
        "history d (store_limits cfg) g (take n rs) (s, chain, index)"
      using m(2) get unfolding checkpoints_ok_def by blast
    obtain xs where "runs_after (es @ [e]) i = Some (g, rs @ xs)"
      using runs_after_mono [OF assms(2) run(1)] by blast
    with run(2-4) show ?thesis
      by (intro exI [of _ g] exI [of _ "rs @ xs"] exI [of _ n] exI [of _ chain] exI [of _ index]) simp
  qed
  then show ?thesis
    using m by (auto simp: checkpoint_file_ok_def checkpoints_ok_def)
qed


lemma disk_ok_torn:
  assumes "store_ok d codec st es" "\<not> fo_poisoned st" "torn d (entry_codec.truncate codec) tail"
  shows "disk_ok d codec (st\<lparr>fo_journal := fo_journal st @ tail\<rparr>) es"
  using assms by (auto simp: store_ok_def disk_ok_def)

lemma memory_ok_get:
  assumes "memory_ok d cfg es runs"
  shows "runs_after es i = None \<longleftrightarrow> bt_get runs i = None"
    and "bt_get runs i = Some lr \<Longrightarrow> \<exists>g rs. runs_after es i = Some (g, rs) \<and> live_ok d g rs lr \<and> lr_limits lr = store_limits cfg"
    and "length runs = card (dom (runs_after es))"
proof -
  have rel: "rel_option (\<lambda>(g, rs) lr. live_ok d g rs lr \<and> lr_limits lr = store_limits cfg) (runs_after es i) (bt_get runs i)" for i
    using assms by (simp add: memory_ok_def)
  show none: "runs_after es i = None \<longleftrightarrow> bt_get runs i = None" for i
    using rel [of i] by auto
  show "bt_get runs i = Some lr \<Longrightarrow> \<exists>g rs. runs_after es i = Some (g, rs) \<and> live_ok d g rs lr \<and> lr_limits lr = store_limits cfg"
    using rel [of i] by (auto simp: option_rel_Some2)
  have "dom (bt_get runs) = dom (runs_after es)"
    using none by (auto simp: dom_def)
  then show "length runs = card (dom (runs_after es))"
    using assms by (simp add: memory_ok_def bt_length)
qed

lemma memory_ok_insert:
  assumes "memory_ok d cfg es runs" "runs_after es' = (runs_after es)(i \<mapsto> (g, rs))" "live_ok d g rs lr" "lr_limits lr = store_limits cfg"
  shows "memory_ok d cfg es' (bt_insert i lr runs)"
  using assms by (auto simp: memory_ok_def)

lemma insert_run_ok:
  assumes "sound_digests d" "store_ok d codec st es" "run_reachable s" "store_insert_run d codec s io st = (answer, st')"
  shows "\<exists>es'. (es' = es \<or> (\<exists>e. es' = es @ [e])) \<and> store_ok d codec st' es' \<and> fo_config st' = fo_config st"
proof (cases "fo_poisoned st \<or> bt_get (fo_runs st) (rs_run_id s) \<noteq> None \<or> max_runs (fo_config st) \<le> length (fo_runs st)
    \<or> isl (attempt (map_err (\<lambda>_. InvalidCommit) (snapshot_new (json_state d) (sha256_of d) s)) (\<lambda>e.
        attempt (live_genesis d s (store_limits (fo_config st))) (\<lambda>lr. Ok (e, lr))))")
  case True
  then have "st' = st"
    using assms(4) by (auto simp: store_insert_run_def isl_def split: option.splits if_splits)
  then show ?thesis
    using assms(2) by blast
next
  case False
  then obtain e lr where new: "snapshot_new (json_state d) (sha256_of d) s = Ok e" "live_genesis d s (store_limits (fo_config st)) = Ok lr"
    by (auto simp: isl_def map_err_def attempt_def split: sum.splits)
  let ?codec = "entry_codec.truncate codec" and ?es = "es @ [GenesisEntry e]" and ?cfg = "fo_config st"
  have st: "valid_log d ?cfg es" "checkpoint_file_ok d codec ?cfg es (fo_checkpoint st)" "memory_ok d ?cfg es (fo_runs st)"
    "framed d ?codec es = Ok (fo_journal st)"
    using assms(2) False by (auto simp: store_ok_def disk_ok_def)
  note mem = memory_ok_get [OF st(3)]
  obtain chain where "genesis_chain d s = Ok chain"
    using new(2) by (auto simp: live_genesis_def attempt_Ok_iff)
  then have journal: "valid_log d ?cfg ?es"
    using False mem(1) [of "rs_run_id s"] mem(3) by (intro valid_log.genesis [OF st(1) _ assms(3) new(1)]) auto
  note check = checkpoint_file_ok_mono [OF st(2) journal]
  obtain answer' after where app: "journal_append d ?codec (GenesisEntry e) io (fo_journal st) = (answer', after)"
    by fastforce
  show ?thesis
  proof (cases rule: append_cases [OF st(4) app])
    case 1
    have "memory_ok d ?cfg ?es (bt_insert (rs_run_id s) lr (fo_runs st))"
      using memory_ok_insert [OF st(3)] live_ok_genesis [OF new(2)] by (simp add: snapshot_newD(1) [OF new(1)])
    with 1 journal check False assms(4) new app show ?thesis
      by (intro exI [of _ ?es]) (auto simp: store_insert_run_def store_ok_def disk_ok_def torn_def split: sum.splits)
  next
    case (2 tail)
    then have "st' = st\<lparr>fo_journal := fo_journal st @ tail, fo_poisoned := True\<rparr>"
      using assms(4) False new app by (auto simp: store_insert_run_def split: sum.splits)
    moreover have "disk_ok d codec (st\<lparr>fo_journal := fo_journal st @ tail\<rparr>) es"
      using disk_ok_torn [OF assms(2) _ 2(2)] False by simp
    ultimately show ?thesis
      by (auto simp: store_ok_def disk_ok_def)
  qed
qed


text \<open>A committed command of the journal answers an input.\<close>

definition answered :: "digests \<Rightarrow> commit_entry list \<Rightarrow> journal_input \<Rightarrow> command_result \<Rightarrow> bool" where
  "answered d es input result \<longleftrightarrow>
     (\<exists>g rs r fingerprint. runs_after es (input_run_id input) = Some (g, rs) \<and> r \<in> set rs
        \<and> input_command_id (jr_input r) = input_command_id input \<and> fingerprint_bytes d (jr_input r) = Ok fingerprint
        \<and> fingerprint_bytes d input = Ok fingerprint \<and> jr_result r = result)"

lemma answered_mono: "answered d es input result \<Longrightarrow> valid_log d cfg (es @ [e]) \<Longrightarrow> answered d (es @ [e]) input result"
  unfolding answered_def using runs_after_mono by (metis UnCI set_append)

lemma duplicate_answered:
  assumes "live_ok d g rs lr" "live_execute d input admission lr = (Ok (Duplicate result), lr')"
    and "runs_after es (input_run_id input) = Some (g, rs)"
  shows "lr' = lr" and "answered d es input result"
proof -
  obtain fingerprint where entry: "fingerprint_bytes d input = Ok fingerprint" "lr' = lr"
    "bt_get (lr_index lr) (input_command_id input) = Some \<lparr>ic_fingerprint = fingerprint, ic_result = result\<rparr>"
    using assms(2)
    by (auto simp: live_execute_def commit_applied_def roll_back_def Let_def
        split: if_splits sum.splits option.splits prod.splits apply_error.splits)
  then show "lr' = lr"
    by simp
  have index: "dom (bt_get (lr_index lr)) = (\<lambda>r. input_command_id (jr_input r)) ` set rs"
      "\<forall>r\<in>set rs. entry_of d r \<noteq> None \<and> bt_get (lr_index lr) (input_command_id (jr_input r)) = entry_of d r"
    using history_index live_okD(2) [OF assms(1)] by (auto simp: core_of_def)
  obtain r where r: "r \<in> set rs" "input_command_id (jr_input r) = input_command_id input"
    using index(1) entry(3) by (auto simp: dom_def) (metis (mono_tags) imageE mem_Collect_eq)
  then have "entry_of d r = Some \<lparr>ic_fingerprint = fingerprint, ic_result = result\<rparr>"
    using index(2) entry(3) by fastforce
  then show "answered d es input result"
    using r entry(1) assms(3) by (auto simp: answered_def entry_of_def split: sum.splits)
qed


lemma commit_ok:
  assumes "sound_digests d" "sound_store_codec codec" "store_ok d codec st es" "\<not> fo_poisoned st"
    and run: "runs_after es i = Some (g, rs)" "live_ok d g rs lr" "lr_limits lr = store_limits (fo_config st)" and "input_fits input"
    and c: "commit d (lr_limits lr) input admission (core_of lr) = Some (r, s, chain, index)" and i: "i = input_run_id input"
    and "store_commit d codec i r (lr\<lparr>lr_state := s, lr_chain := chain, lr_index := index, lr_tail := lr_tail lr @ [input]\<rparr>) io pio st = (answer, st')"
  shows "\<exists>es'. (es' = es \<or> (\<exists>e. es' = es @ [e])) \<and> store_ok d codec st' es' \<and> fo_config st' = fo_config st
    \<and> (\<forall>x. answer = Ok x \<longrightarrow> answered d es' input (exe_result x))"
proof -
  let ?codec = "entry_codec.truncate codec" and ?es = "es @ [CommandEntry r]" and ?cfg = "fo_config st"
  define lr' where "lr' = lr\<lparr>lr_state := s, lr_chain := chain, lr_index := index, lr_tail := lr_tail lr @ [input]\<rparr>"
  have st: "valid_log d ?cfg es" "checkpoint_file_ok d codec ?cfg es (fo_checkpoint st)" "memory_ok d ?cfg es (fo_runs st)"
    "framed d ?codec es = Ok (fo_journal st)"
    using assms(3,4) by (auto simp: store_ok_def disk_ok_def)
  obtain fingerprint where r: "jr_input r = input" "jr_admission r = admission" "fingerprint_bytes d input = Ok fingerprint"
    using c by (auto simp: core_of_def elim: commitE)
  have live: "live_ok d g (rs @ [r]) lr'" "lr_limits lr' = store_limits ?cfg"
    using live_ok_commit [OF run(2) c] run(3) by (simp_all add: lr'_def)
  have journal: "valid_log d ?cfg ?es"
    using valid_log.command [OF st(1), of r g rs "core_of lr'"] run(1) live_okD(2) [OF live(1)] live(2) assms(8) i by (simp add: r)
  note check = checkpoint_file_ok_mono [OF st(2) journal]
  have after: "runs_after ?es = (runs_after es)(i \<mapsto> (g, rs @ [r]))"
    using run(1) i by (simp add: r)
  have answered: "answered d ?es input (exe_result (executed_of (Committed r)))"
    using after i r by (auto simp: answered_def executed_of_def)
  obtain answer' after where app: "journal_append d ?codec (CommandEntry r) io (fo_journal st) = (answer', after)"
    by fastforce
  obtain lr'' where lr'': "live_checkpoint lr' = (Ok (), lr'')" "live_ok d g (rs @ [r]) lr''" "lr_limits lr'' = lr_limits lr'"
    using live_ok_checkpoint [OF live(1)] by blast
  have mem: "memory_ok d ?cfg ?es (bt_insert i lr' (fo_runs st))" "memory_ok d ?cfg ?es (bt_insert i lr'' (fo_runs st))"
    using memory_ok_insert [OF st(3) \<open>runs_after ?es = _\<close>] live lr''(2,3) by simp_all
  note check' = write_checkpoint_ok [OF assms(2) journal mem(2) check, of pio]
  have step: "store_commit d codec i r lr' io pio st = (answer, st')"
    using assms(11) by (simp add: lr'_def)
  show ?thesis
  proof (cases rule: append_cases [OF st(4) app])
    case 1
    have "store_ok d codec st' ?es \<and> fo_config st' = ?cfg \<and> (\<forall>x. answer = Ok x \<longrightarrow> exe_result x = exe_result (executed_of (Committed r)))"
      using step app 1 journal check check' mem lr''(1) assms(4)
      by (auto simp: store_commit_def store_ok_def disk_ok_def torn_def Let_def split: sum.splits if_splits)
    then show ?thesis
      using answered by metis
  next
    case (2 tail)
    then have "st' = st\<lparr>fo_runs := bt_insert i lr' (fo_runs st), fo_journal := fo_journal st @ tail, fo_poisoned := True\<rparr>" "\<forall>x. answer \<noteq> Ok x"
      using step app by (auto simp: store_commit_def split: sum.splits)
    moreover have "disk_ok d codec (st\<lparr>fo_journal := fo_journal st @ tail\<rparr>) es"
      using disk_ok_torn [OF assms(3,4) 2(2)] .
    ultimately show ?thesis
      by (auto simp: store_ok_def disk_ok_def)
  qed
qed

lemma execute_ok:
  assumes "sound_digests d" "sound_store_codec codec" "store_ok d codec st es" "input_fits input"
    and "store_execute d codec input admission io pio st = (answer, st')"
  shows "\<exists>es'. (es' = es \<or> (\<exists>e. es' = es @ [e])) \<and> store_ok d codec st' es' \<and> fo_config st' = fo_config st
    \<and> (\<forall>x. answer = Ok x \<longrightarrow> answered d es' input (exe_result x))"
proof (cases "fo_poisoned st \<or> bt_get (fo_runs st) (input_run_id input) = None")
  case True
  then have "st' = st" "\<forall>x. answer \<noteq> Ok x"
    using assms(5) by (auto simp: store_execute_def split: if_splits)
  then show ?thesis
    using assms(3) by auto
next
  case False
  then obtain lr where lr: "bt_get (fo_runs st) (input_run_id input) = Some lr"
    by auto
  have mem: "memory_ok d (fo_config st) es (fo_runs st)"
    using assms(3) False by (simp add: store_ok_def)
  obtain g rs where run: "runs_after es (input_run_id input) = Some (g, rs)" "live_ok d g rs lr" "lr_limits lr = store_limits (fo_config st)"
    using memory_ok_get(2) [OF mem lr] by blast
  have same: "bt_insert (input_run_id input) lr (fo_runs st) = fo_runs st"
    using mem lr by (simp add: bt_insert_same memory_ok_def)
  show ?thesis
  proof (cases "commit d (lr_limits lr) input admission (core_of lr)")
    case None
    from execute_uncommitted [OF run(2) assms(1) None] show ?thesis
    proof (elim disjE exE)
      fix result
      assume x: "live_execute d input admission lr = (Ok (Duplicate result), lr)"
      then have "st' = st" "answer = Ok (executed_of (Duplicate result))"
        using assms(5) False lr same by (auto simp: store_execute_def)
      then show ?thesis
        using assms(3) duplicate_answered(2) [OF run(2) x run(1)] by (auto simp: executed_of_def)
    next
      fix e
      assume "live_execute d input admission lr = (Err e, lr)"
      then have "st' = st" "\<forall>x. answer \<noteq> Ok x"
        using assms(5) False lr same by (auto simp: store_execute_def)
      then show ?thesis
        using assms(3) by auto
    qed
  next
    case (Some c)
    then obtain r s chain index where c: "commit d (lr_limits lr) input admission (core_of lr) = Some (r, s, chain, index)"
      by (cases c) auto
    then show ?thesis
      using commit_ok [OF assms(1-3) _ run assms(4) c refl] execute_committed [OF c live_okD(1) [OF run(2)]] assms(5) False lr
      by (auto simp: store_execute_def)
  qed
qed

lemma checkpoint_runs_ok:
  "\<forall>(i, lr)\<in>set runs. \<exists>g rs. live_ok d g rs lr \<Longrightarrow> \<exists>runs'. checkpoint_runs runs = (Ok (), runs') \<and> map fst runs' = map fst runs
    \<and> (\<forall>i. rel_option (\<lambda>lr lr'. live_checkpoint lr = (Ok (), lr')) (bt_get runs i) (bt_get runs' i))"
proof (induction runs)
  case (Cons x runs)
  obtain i lr g rs where x: "x = (i, lr)" "live_ok d g rs lr"
    using Cons.prems by (cases x) auto
  obtain lr' where "live_checkpoint lr = (Ok (), lr')"
    using live_ok_checkpoint [OF x(2)] by blast
  with Cons x show ?case
    by auto
qed simp

lemma checkpoint_runs_memory:
  assumes "memory_ok d cfg es runs"
  shows "\<exists>runs'. checkpoint_runs runs = (Ok (), runs') \<and> memory_ok d cfg es runs'
    \<and> (\<forall>i. map_option core_of (bt_get runs' i) = map_option core_of (bt_get runs i))"
proof -
  have "\<forall>(i, lr)\<in>set runs. \<exists>g rs. live_ok d g rs lr"
    using assms memory_ok_get(2) [OF assms] by (fastforce simp: memory_ok_def bt_get_mem)
  then obtain runs' where runs': "checkpoint_runs runs = (Ok (), runs')" "map fst runs' = map fst runs"
      "\<And>i. rel_option (\<lambda>lr lr'. live_checkpoint lr = (Ok (), lr')) (bt_get runs i) (bt_get runs' i)"
    using checkpoint_runs_ok by blast
  have each: "live_ok d g rs lr' \<and> lr_limits lr' = lr_limits lr \<and> core_of lr' = core_of lr"
    if "live_ok d g rs lr" "live_checkpoint lr = (Ok (), lr')" for g rs lr lr'
    using live_ok_checkpoint [OF that(1)] that(2) by auto
  have rel: "rel_option (\<lambda>(g, rs) lr. live_ok d g rs lr \<and> lr_limits lr = store_limits cfg) (runs_after es i) (bt_get runs i)" for i
    using assms by (simp add: memory_ok_def)
  have "rel_option (\<lambda>(g, rs) lr. live_ok d g rs lr \<and> lr_limits lr = store_limits cfg) (runs_after es i) (bt_get runs' i)
      \<and> map_option core_of (bt_get runs' i) = map_option core_of (bt_get runs i)" for i
  proof (cases "bt_get runs i")
    case None
    then show ?thesis
      using rel [of i] runs'(3) [of i] by simp
  next
    case (Some lr)
    then obtain g rs lr' where x: "runs_after es i = Some (g, rs)" "live_ok d g rs lr" "lr_limits lr = store_limits cfg"
        "bt_get runs' i = Some lr'" "live_checkpoint lr = (Ok (), lr')"
      using rel [of i] runs'(3) [of i] by (auto simp: option_rel_Some1 option_rel_Some2)
    then show ?thesis
      using each [OF x(2,5)] Some by simp
  qed
  moreover have "bt_wf runs'"
    using assms runs'(2) by (simp add: memory_ok_def bt_wf_def)
  ultimately show ?thesis
    using runs'(1) by (auto simp: memory_ok_def)
qed


section \<open>Sequences of operations\<close>

text \<open>The operations of a store, each with the outcomes of its writes.\<close>

datatype store_op =
    InsertRun run_state write_outcome
  | ExecuteInput journal_input "admission_record option" write_outcome persist_outcome
  | SaveCheckpoint persist_outcome

fun store_op_fits :: "store_op \<Rightarrow> bool" where
  "store_op_fits (InsertRun s _) = run_reachable s"
| "store_op_fits (ExecuteInput input _ _ _) = input_fits input"
| "store_op_fits (SaveCheckpoint _) = True"

text \<open>The inputs that were answered, with their results, and the store after the operations.\<close>

fun store_ops :: "digests \<Rightarrow> store_codec \<Rightarrow> store_op list \<Rightarrow> file_store \<Rightarrow> (journal_input \<times> command_result) list \<times> file_store" where
  "store_ops d codec [] st = ([], st)"
| "store_ops d codec (InsertRun s io # ops) st = store_ops d codec ops (snd (store_insert_run d codec s io st))"
| "store_ops d codec (SaveCheckpoint pio # ops) st = store_ops d codec ops (snd (store_checkpoint d codec pio st))"
| "store_ops d codec (ExecuteInput input admission io pio # ops) st =
     (case store_execute d codec input admission io pio st of
        (answer, st1) \<Rightarrow>
          (case store_ops d codec ops st1 of
             (answers, st2) \<Rightarrow> ((case answer of Inl _ \<Rightarrow> answers | Inr x \<Rightarrow> (input, exe_result x) # answers), st2)))"

lemma store_checkpoint_ok:
  assumes "sound_store_codec codec" "store_ok d codec st es"
  shows "store_ok d codec (snd (store_checkpoint d codec pio st)) es \<and> fo_config (snd (store_checkpoint d codec pio st)) = fo_config st"
proof (cases "fo_poisoned st")
  case True
  then show ?thesis
    using assms(2) by (simp add: store_checkpoint_def)
next
  case False
  have st: "valid_log d (fo_config st) es" "checkpoint_file_ok d codec (fo_config st) es (fo_checkpoint st)"
    "memory_ok d (fo_config st) es (fo_runs st)" "framed d (entry_codec.truncate codec) es = Ok (fo_journal st)"
    using assms(2) False by (auto simp: store_ok_def disk_ok_def)
  obtain runs where runs: "checkpoint_runs (fo_runs st) = (Ok (), runs)" "memory_ok d (fo_config st) es runs"
    using checkpoint_runs_memory [OF st(3)] by blast
  show ?thesis
    using write_checkpoint_ok [OF assms(1) st(1) runs(2) st(2), of pio] st runs False
    by (auto simp: store_checkpoint_def store_ok_def disk_ok_def torn_def split: prod.splits)
qed

lemma answered_extend:
  "answered d es input result \<Longrightarrow> es' = es \<or> (\<exists>e. es' = es @ [e]) \<Longrightarrow> valid_log d cfg es' \<Longrightarrow> answered d es' input result"
  using answered_mono by blast

lemma store_ok_journal: "store_ok d codec st es \<Longrightarrow> valid_log d (fo_config st) es"
  by (simp add: store_ok_def disk_ok_def)

lemma store_ops_ok:
  assumes "sound_digests d" "sound_store_codec codec"
  shows "store_ops d codec ops st = (answers, st') \<Longrightarrow> store_ok d codec st es \<Longrightarrow> list_all store_op_fits ops \<Longrightarrow>
    \<exists>es'. store_ok d codec st' es' \<and> fo_config st' = fo_config st \<and> (\<forall>(input, result)\<in>set answers. answered d es' input result)
      \<and> (\<forall>input result. answered d es input result \<longrightarrow> answered d es' input result)"
proof (induction ops arbitrary: st answers es)
  case (Cons op ops)
  have go: ?case if step: "store_ops d codec ops st1 = (answers1, st')" "store_ok d codec st1 es1" "fo_config st1 = fo_config st"
      "es1 = es \<or> (\<exists>e. es1 = es @ [e])" "\<forall>(input, result)\<in>set answers. (input, result) \<in> set answers1 \<or> answered d es1 input result"
    for st1 answers1 es1
  proof -
    obtain es' where es': "store_ok d codec st' es'" "fo_config st' = fo_config st1" "\<forall>(input, result)\<in>set answers1. answered d es' input result"
        "\<forall>input result. answered d es1 input result \<longrightarrow> answered d es' input result"
      using Cons.IH [OF step(1,2)] Cons.prems(3) by auto
    have "\<forall>input result. answered d es input result \<longrightarrow> answered d es1 input result"
      using answered_extend [OF _ step(4) store_ok_journal [OF step(2)]] by blast
    then have "\<forall>input result. answered d es input result \<longrightarrow> answered d es' input result"
      using es'(4) by blast
    moreover have "\<forall>(input, result)\<in>set answers. answered d es' input result"
      using es'(3,4) step(5) by blast
    ultimately show ?thesis
      using es'(1,2) step(3) by auto
  qed
  show ?case
  proof (cases op)
    case (InsertRun s io)
    obtain answer st1 where st1: "store_insert_run d codec s io st = (answer, st1)"
      by fastforce
    then show ?thesis
      using insert_run_ok [OF assms(1) Cons.prems(2) _ st1] Cons.prems(1,3) go [of st1 answers] by (auto simp: InsertRun)
  next
    case (SaveCheckpoint pio)
    then show ?thesis
      using store_checkpoint_ok [OF assms(2) Cons.prems(2), of pio] Cons.prems(1) go [of "snd (store_checkpoint d codec pio st)" answers es]
      by auto
  next
    case (ExecuteInput input admission io pio)
    obtain answer st1 where st1: "store_execute d codec input admission io pio st = (answer, st1)"
      by fastforce
    obtain answers1 where ops: "store_ops d codec ops st1 = (answers1, st')"
      and answers: "answers = (case answer of Inl _ \<Rightarrow> answers1 | Inr x \<Rightarrow> (input, exe_result x) # answers1)"
      using Cons.prems(1) by (auto simp: ExecuteInput st1 split: prod.splits)
    obtain es1 where es1: "es1 = es \<or> (\<exists>e. es1 = es @ [e])" "store_ok d codec st1 es1" "fo_config st1 = fo_config st"
        "\<forall>x. answer = Ok x \<longrightarrow> answered d es1 input (exe_result x)"
      using execute_ok [OF assms Cons.prems(2) _ st1] Cons.prems(3) by (auto simp: ExecuteInput)
    have "\<forall>(input, result)\<in>set answers. (input, result) \<in> set answers1 \<or> answered d es1 input result"
      using es1(4) by (auto simp: answers split: sum.splits)
    then show ?thesis
      by (rule go [OF ops es1(2,3,1)])
  qed
qed auto


lemma answered_duplicate:
  assumes "store_ok d codec st es" "\<not> fo_poisoned st" "answered d es input result"
  shows "store_execute d codec input admission io pio st = (Ok \<lparr>exe_result = result, exe_events = [], duplicate = True\<rparr>, st)"
proof -
  obtain g rs r fingerprint where r: "runs_after es (input_run_id input) = Some (g, rs)" "r \<in> set rs"
      "input_command_id (jr_input r) = input_command_id input" "fingerprint_bytes d (jr_input r) = Ok fingerprint"
      "fingerprint_bytes d input = Ok fingerprint" "jr_result r = result"
    using assms(3) by (auto simp: answered_def)
  have mem: "memory_ok d (fo_config st) es (fo_runs st)"
    using assms(1,2) by (simp add: store_ok_def)
  obtain lr where lr: "bt_get (fo_runs st) (input_run_id input) = Some lr" "live_ok d g rs lr" "lr_limits lr = store_limits (fo_config st)"
    using memory_ok_get(1,2) [OF mem, of "input_run_id input"] r(1) by fastforce
  have hist: "history d (lr_limits lr) g rs (lr_state lr, lr_chain lr, lr_index lr)"
    using live_okD(2) [OF lr(2)] by (simp add: core_of_def)
  have run: "rs_run_id g = input_run_id input" "run_inv g" "list_all (\<lambda>r. input_fits (jr_input r)) rs"
    using valid_log_run [OF store_ok_journal [OF assms(1)] r(1)] run_reachable_inv by (auto simp: run_journalled_def)
  have "rs_run_id (lr_state lr) = input_run_id input"
    using history_constants [OF run(2) hist run(3)] run(1) by (simp add: run_constants_def)
  moreover have "bt_get (lr_index lr) (input_command_id input) = Some \<lparr>ic_fingerprint = fingerprint, ic_result = result\<rparr>"
    using history_index [OF hist] r by (fastforce simp: entry_of_def)
  ultimately have "live_execute d input admission lr = (Ok (Duplicate result), lr)"
    using live_okD(1) [OF lr(2)] r(5) by (simp add: live_execute_def)
  moreover have "bt_insert (input_run_id input) lr (fo_runs st) = fo_runs st"
    using mem lr(1) by (simp add: bt_insert_same memory_ok_def)
  ultimately show ?thesis
    using assms(2) lr(1) by (simp add: store_execute_def executed_of_def)
qed

lemma store_open_ok:
  assumes "sound_digests d" "sound_store_codec codec" "store_ok d codec st es"
  shows "\<exists>st'. store_open d codec (fo_config st) pio (Some (fo_journal st)) (fo_checkpoint st) = Ok st' \<and> store_ok d codec st' es
    \<and> \<not> fo_poisoned st' \<and> fo_config st' = fo_config st"
proof -
  let ?cfg = "fo_config st" and ?codec = "entry_codec.truncate codec"
  obtain bytes tail where st: "valid_log d ?cfg es" "checkpoint_file_ok d codec ?cfg es (fo_checkpoint st)"
      "framed d ?codec es = Ok bytes" "torn d ?codec tail" "fo_journal st = bytes @ tail"
    using assms(3) by (auto simp: store_ok_def disk_ok_def)
  obtain runs where runs: "recover d codec ?cfg (fo_checkpoint st) (fo_journal st) = (Ok runs, bytes)" "memory_ok d ?cfg es runs"
    using recover_Ok [OF assms(1,2) st(3,4,1,2)] st(5) by auto
  obtain runs' where runs': "checkpoint_runs runs = (Ok (), runs')" "memory_ok d ?cfg es runs'"
    using checkpoint_runs_memory [OF runs(2)] by blast
  show ?thesis
    using write_checkpoint_ok [OF assms(2) st(1) runs'(2) st(2), of pio] st runs runs'
    by (auto simp: store_open_def store_ok_def disk_ok_def torn_def Let_def)
qed

lemma empty_store:
  "store_open d codec cfg pio None None = Ok \<lparr>fo_runs = [], fo_journal = [], fo_checkpoint = None, fo_poisoned = False, fo_config = cfg\<rparr>"
  "store_ok d codec \<lparr>fo_runs = [], fo_journal = [], fo_checkpoint = None, fo_poisoned = False, fo_config = cfg\<rparr> []"
  by (simp_all add: store_open_def recover_def read_checkpoint_def journal_scan_def scan_from.simps [of _ _ _ "[]"] finish_each_def
      store_ok_def disk_ok_def valid_log.empty checkpoint_file_ok_def checkpoints_ok_def torn_def memory_ok_def)

end
