(* ===== verification/File_Runs.thy ===== *)
theory File_Runs
  imports File_Laws
begin

text \<open>
  The properties of the durable origin: a restart on whatever the writes left keeps every answer,
  and a store that has not failed is found again as it was.
\<close>

lemma memory_core:
  assumes "memory_ok d cfg es runs" "memory_ok d cfg es runs'"
  shows "map_option core_of (bt_get runs i) = map_option core_of (bt_get runs' i)"
proof (cases "bt_get runs i")
  case None
  then show ?thesis
    using memory_ok_get(1) [OF assms(1), of i] memory_ok_get(1) [OF assms(2), of i] by simp
next
  case (Some lr)
  obtain g rs where lr: "runs_after es i = Some (g, rs)" "live_ok d g rs lr" "lr_limits lr = store_limits cfg"
    using memory_ok_get(2) [OF assms(1) Some] by blast
  obtain lr' where lr': "bt_get runs' i = Some lr'" "live_ok d g rs lr'" "lr_limits lr' = store_limits cfg"
    using memory_ok_get(1,2) [OF assms(2), of i] lr(1) by fastforce
  have "core_of lr = core_of lr'"
    using history_deterministic [OF live_okD(2) [OF lr(2)], of "core_of lr'"] live_okD(2) [OF lr'(2)] lr(3) lr'(3) by simp
  then show ?thesis
    by (simp add: Some lr'(1))
qed

lemma memory_reads:
  assumes "memory_ok d cfg es runs" "memory_ok d cfg es runs'"
  shows "map_option live_state (bt_get runs i) = map_option live_state (bt_get runs' i)"
    "map_option (\<lambda>lr. live_find lr c) (bt_get runs i) = map_option (\<lambda>lr. live_find lr c) (bt_get runs' i)"
proof -
  have "live_state lr = Ok (fst (core_of lr))" if "bt_get runs i = Some lr \<or> bt_get runs' i = Some lr" for lr
    using memory_ok_get(2) [OF assms(1), of i lr] memory_ok_get(2) [OF assms(2), of i lr] that live_okD(1)
    by (auto simp: live_state_def core_of_def)
  moreover have "live_find lr c = map_option (\<lambda>e. (hex (ic_fingerprint e), ic_result e)) (bt_get (snd (snd (core_of lr))) c)" for lr
    by (simp add: live_find_def core_of_def)
  ultimately show "map_option live_state (bt_get runs i) = map_option live_state (bt_get runs' i)"
    "map_option (\<lambda>lr. live_find lr c) (bt_get runs i) = map_option (\<lambda>lr. live_find lr c) (bt_get runs' i)"
    using memory_core [OF assms, of i] by (cases "bt_get runs i"; cases "bt_get runs' i"; simp)+
qed

lemma collect_events_Ok:
  "valid_log d cfg es \<Longrightarrow> try_fold (collect_events i) es [] =
    Ok (case runs_after es i of None \<Rightarrow> [] | Some (g, rs) \<Rightarrow> concat (map jr_events rs))"
proof (induction rule: valid_log.induct)
  case (genesis es g e chain)
  then show ?case
    by (auto simp: try_fold_append collect_events_def snapshot_newD(1))
next
  case (command es r g rs core)
  then show ?case
    by (auto simp: try_fold_append collect_events_def)
qed simp

lemma history_events:
  "history d limits g rs core \<Longrightarrow> list_all (\<lambda>r. input_fits (jr_input r)) rs \<Longrightarrow>
    run_history g (concat (map jr_events rs)) (fst core)"
proof (induction rs arbitrary: core rule: rev_induct)
  case Nil
  then show ?case
    by (auto simp: history_Nil intro: run_history.start)
next
  case (snoc r rs)
  obtain s chain index where h: "history d limits g rs (s, chain, index)"
    and c: "commit d limits (jr_input r) (jr_admission r) (s, chain, index) = Some (r, core)"
    using snoc.prems(1) unfolding history_snoc by auto
  obtain ap where "apply_input s (jr_input r) = Ok (ap, fst core)" "jr_events r = events ap"
    by (rule commitE [OF c]) simp
  moreover have "run_history g (concat (map jr_events rs)) s"
    using snoc.IH [OF h] snoc.prems(2) by simp
  ultimately show ?case
    using snoc.prems(2) by (cases "jr_input r") (auto intro: run_history.intros)
qed

lemma store_events_value:
  assumes "sound_digests d" "sound_store_codec codec" "store_ok d codec st es" "\<not> fo_poisoned st"
  shows "store_events d codec i st = (case runs_after es i of None \<Rightarrow> Err UnknownRun | Some (g, rs) \<Rightarrow> Ok (concat (map jr_events rs)))"
proof -
  have st: "framed d (entry_codec.truncate codec) es = Ok (fo_journal st)" "sound_codec (entry_codec.truncate codec)"
      "memory_ok d (fo_config st) es (fo_runs st)"
    using assms(2-4) by (auto simp: store_ok_def sound_store_codec_def)
  have scan: "fst (journal_scan d (entry_codec.truncate codec) False (collect_events i) (fo_journal st) []) =
      Ok (case runs_after es i of None \<Rightarrow> [] | Some (g, rs) \<Rightarrow> concat (map jr_events rs))"
    using journal_scan_framed [OF assms(1) st(2,1), of "[]" False "collect_events i" "[]"] collect_events_Ok [OF store_ok_journal [OF assms(3)]]
    by (simp add: torn_def)
  show ?thesis
    using memory_ok_get(1) [OF st(3), of i] assms(4) by (auto simp: store_events_def scan split: option.splits)
qed

lemma store_history:
  assumes "sound_digests d" "sound_store_codec codec" "store_ok d codec st es" "\<not> fo_poisoned st" "store_read_run st i id = Ok s"
  shows "\<exists>g evs. store_events d codec i st = Ok evs \<and> run_reachable g \<and> run_history g evs s"
proof -
  obtain lr where lr: "bt_get (fo_runs st) i = Some lr" "live_state lr = Ok s"
    using assms(4,5) by (auto simp: store_read_run_def attempt_Ok_iff ok_or_Ok_iff)
  have mem: "memory_ok d (fo_config st) es (fo_runs st)"
    using assms(3,4) by (simp add: store_ok_def)
  obtain g rs where run: "runs_after es i = Some (g, rs)" "live_ok d g rs lr"
    using memory_ok_get(2) [OF mem lr(1)] by blast
  have "run_reachable g" "list_all (\<lambda>r. input_fits (jr_input r)) rs"
    using valid_log_run [OF store_ok_journal [OF assms(3)] run(1)] by (auto simp: run_journalled_def)
  moreover have "s = fst (core_of lr)"
    using lr(2) by (auto simp: live_state_def core_of_def split: if_splits)
  ultimately show ?thesis
    using history_events [OF live_okD(2) [OF run(2)]] store_events_value [OF assms(1-4), of i] run(1) by auto
qed

section \<open>Properties\<close>

text \<open>C6. Every answered command survives: run a durable origin from empty files through any inputs,
  insertions of runs and checkpoints, with any of the writes failing or being cut short, and stop it at
  any moment. It opens again on the files that are left, and every input that had been answered is
  answered with the same result, as a duplicate.\<close>

theorem answered_commands_survive:
  assumes "sound_digests d" "sound_store_codec codec" "list_all store_op_fits ops"
    and "store_open d codec cfg pio None None = Ok st0" "store_ops d codec ops st0 = (answers, st)"
  shows "\<exists>st'. store_open d codec cfg pio' (Some (fo_journal st)) (fo_checkpoint st) = Ok st' \<and> \<not> fo_poisoned st'
    \<and> list_all (\<lambda>(input, result). \<forall>admission io pio. store_execute d codec input admission io pio st'
        = (Ok \<lparr>exe_result = result, exe_events = [], duplicate = True\<rparr>, st')) answers"
proof -
  have st0: "store_ok d codec st0 []" "fo_config st0 = cfg"
    using assms(4) empty_store by auto
  obtain es where es: "store_ok d codec st es" "fo_config st = cfg" "\<forall>(input, result)\<in>set answers. answered d es input result"
    using store_ops_ok [OF assms(1,2,5) st0(1) assms(3)] st0(2) by auto
  obtain st' where "store_open d codec cfg pio' (Some (fo_journal st)) (fo_checkpoint st) = Ok st'" "store_ok d codec st' es" "\<not> fo_poisoned st'"
    using store_open_ok [OF assms(1,2) es(1), of pio'] es(2) by auto
  then show ?thesis
    using answered_duplicate es(3) by (fastforce simp: list_all_iff)
qed

text \<open>C7. A store whose writes have not failed is found again as it was: after any operations a restart
  gives the same states, the same index of commands and the same events; and the events of a run are
  exactly those of the commands that lead from its genesis state to its state.\<close>

theorem restart_keeps_runs:
  assumes "sound_digests d" "sound_store_codec codec" "list_all store_op_fits ops"
    and "store_open d codec cfg pio None None = Ok st0" "store_ops d codec ops st0 = (answers, st)" "\<not> fo_poisoned st"
  shows "\<exists>st'. store_open d codec cfg pio' (Some (fo_journal st)) (fo_checkpoint st) = Ok st'
    \<and> (\<forall>i. store_read_run st' i id = store_read_run st i id)
    \<and> (\<forall>i c. store_find_command st' i c = store_find_command st i c)
    \<and> (\<forall>i. store_events d codec i st' = store_events d codec i st)
    \<and> (\<forall>i s. store_read_run st i id = Ok s \<longrightarrow>
        (\<exists>g evs. store_events d codec i st = Ok evs \<and> run_reachable g \<and> run_history g evs s))"
proof -
  have st0: "store_ok d codec st0 []" "fo_config st0 = cfg"
    using assms(4) empty_store by auto
  obtain es where es: "store_ok d codec st es" "fo_config st = cfg"
    using store_ops_ok [OF assms(1,2,5) st0(1) assms(3)] st0(2) by auto
  obtain st' where st': "store_open d codec cfg pio' (Some (fo_journal st)) (fo_checkpoint st) = Ok st'" "store_ok d codec st' es"
      "\<not> fo_poisoned st'" "fo_config st' = cfg"
    using store_open_ok [OF assms(1,2) es(1), of pio'] es(2) by auto
  have mem: "memory_ok d cfg es (fo_runs st)" "memory_ok d cfg es (fo_runs st')"
    using es st' assms(6) by (auto simp: store_ok_def)
  have reads: "store_read_run st' i id = store_read_run st i id" for i
    using memory_reads(1) [OF mem, of i] st'(3) assms(6)
    by (cases "bt_get (fo_runs st) i"; cases "bt_get (fo_runs st') i"; simp add: store_read_run_def)
  have finds: "store_find_command st' i c = store_find_command st i c" for i c
    using memory_reads(2) [OF mem, of c i] st'(3) assms(6)
    by (cases "bt_get (fo_runs st) i"; cases "bt_get (fo_runs st') i"; simp add: store_find_command_def)
  show ?thesis
    using st'(1) reads finds store_events_value [OF assms(1,2) es(1) assms(6)] store_events_value [OF assms(1,2) st'(2,3)]
      store_history [OF assms(1,2) es(1) assms(6)] by auto
qed


section \<open>Witnesses\<close>

lemma demo_executed:
  "\<exists>lr0 r lr. live_genesis demo_digests demo_run default_run_limits = Ok lr0
    \<and> live_execute demo_digests (OrderInput demo_bid) None lr0 = (Ok (Committed r), lr) \<and> \<not> needs_checkpoint lr"
proof -
  obtain chain where "genesis_chain demo_digests demo_run = Ok chain"
    by (simp add: genesis_chain_def hash_serializable_def demo_digests_def)
  moreover obtain ap where "run_apply demo_run demo_bid = Ok (ap, demo_rested)"
    using demo_bid_rests by blast
  moreover have "rs_run_id demo_run = 1" "run_sequence demo_run = 0" "run_event_sequence demo_rested = 3"
    "c_run_id demo_bid = 1" "c_expected_sequence demo_bid = 0"
    by (simp_all add: demo_run_def demo_rested_def demo_bid_def demo_command_def)
  ultimately show ?thesis
    by (simp add: live_genesis_def live_execute_def commit_applied_def digest_json_def next_chain_def needs_checkpoint_def
        Let_def demo_digests_def default_run_limits_def)
qed

text \<open>Texts for the two entries of a journal, and for no other.\<close>

definition demo_codec :: "engine_snapshot_envelope \<Rightarrow> command_record \<Rightarrow> store_codec" where
  "demo_codec e r = \<lparr>entry_json = \<lambda>x. if x = GenesisEntry e then Some [1] else if x = CommandEntry r then Some [2] else None,
     entry_parse = \<lambda>bytes. if bytes = [1] then Some (GenesisEntry e) else if bytes = [2] then Some (CommandEntry r) else None,
     checkpoint_json = \<lambda>_. None, checkpoint_parse = \<lambda>_. None\<rparr>"

lemma demo_codec_sound: "sound_store_codec (demo_codec e r)"
  by (auto simp: sound_store_codec_def sound_codec_def demo_codec_def entry_codec.defs)

definition demo_store_config :: store_config where
  "demo_store_config = \<lparr>max_runs = 1, store_limits = default_run_limits\<rparr>"

definition demo_store :: file_store where
  "demo_store = \<lparr>fo_runs = [], fo_journal = [], fo_checkpoint = None, fo_poisoned = False, fo_config = demo_store_config\<rparr>"

definition demo_store_ops :: "store_op list" where
  "demo_store_ops = [InsertRun demo_run Written, ExecuteInput (OrderInput demo_bid) None Written Persisted]"

lemma demo_store_ops_fit: "list_all store_op_fits demo_store_ops"
  using demo_bid_fits demo_reachable by (simp add: demo_store_ops_def)

lemma demo_store_run:
  "\<exists>e r st. store_ops demo_digests (demo_codec e r) demo_store_ops demo_store = ([(OrderInput demo_bid, jr_result r)], st)
    \<and> \<not> fo_poisoned st"
proof -
  obtain lr0 r lr where run: "live_genesis demo_digests demo_run default_run_limits = Ok lr0"
      "live_execute demo_digests (OrderInput demo_bid) None lr0 = (Ok (Committed r), lr)" "\<not> needs_checkpoint lr"
    using demo_executed by blast
  obtain e where e: "snapshot_new (json_state demo_digests) (sha256_of demo_digests) demo_run = Ok e"
    by (simp add: snapshot_new_def hash_serializable_def demo_digests_def)
  have frames: "journal_append demo_digests (entry_codec.truncate (demo_codec e r)) x Written file_bytes
      = (Ok (), file_bytes @ JOURNAL_MAGIC @ u64_bytes 1 @ sha256_of demo_digests [n] @ [n])"
    if "x = GenesisEntry e \<and> n = 1 \<or> x = CommandEntry r \<and> n = 2" for x n file_bytes
    using that by (auto simp: journal_append_def journal_frame_def demo_codec_def entry_codec.defs MAX_RECORD_BYTES_def)
  have "rs_run_id demo_run = 1" "c_run_id demo_bid = 1"
    by (simp_all add: demo_run_def demo_bid_def demo_command_def)
  then show ?thesis
    using run e frames [of "GenesisEntry e" 1] frames [of "CommandEntry r" 2]
    by (intro exI [of _ e] exI [of _ r])
      (simp add: demo_store_ops_def demo_store_def demo_store_config_def store_insert_run_def store_execute_def store_commit_def executed_of_def)
qed

theorem answered_commands_survive_witness:
  "\<exists>e r st st'. store_ops demo_digests (demo_codec e r) demo_store_ops demo_store = ([(OrderInput demo_bid, jr_result r)], st)
    \<and> store_open demo_digests (demo_codec e r) demo_store_config Persisted (Some (fo_journal st)) (fo_checkpoint st) = Ok st'
    \<and> store_execute demo_digests (demo_codec e r) (OrderInput demo_bid) None Written Persisted st'
        = (Ok \<lparr>exe_result = jr_result r, exe_events = [], duplicate = True\<rparr>, st')"
proof -
  obtain e r st where run: "store_ops demo_digests (demo_codec e r) demo_store_ops demo_store = ([(OrderInput demo_bid, jr_result r)], st)"
    using demo_store_run by blast
  have "store_open demo_digests (demo_codec e r) demo_store_config Persisted None None = Ok demo_store"
    by (simp add: empty_store(1) demo_store_def)
  from answered_commands_survive [OF demo_digests_sound demo_codec_sound demo_store_ops_fit this run, of Persisted]
  obtain st' where "store_open demo_digests (demo_codec e r) demo_store_config Persisted (Some (fo_journal st)) (fo_checkpoint st) = Ok st'"
      "store_execute demo_digests (demo_codec e r) (OrderInput demo_bid) None Written Persisted st'
        = (Ok \<lparr>exe_result = jr_result r, exe_events = [], duplicate = True\<rparr>, st')"
    by auto
  with run show ?thesis
    by blast
qed

theorem restart_keeps_runs_witness:
  "\<exists>e r st st'. store_ops demo_digests (demo_codec e r) demo_store_ops demo_store = ([(OrderInput demo_bid, jr_result r)], st)
    \<and> store_open demo_digests (demo_codec e r) demo_store_config Persisted (Some (fo_journal st)) (fo_checkpoint st) = Ok st'
    \<and> store_read_run st' 1 id = store_read_run st 1 id"
proof -
  obtain e r st where run: "store_ops demo_digests (demo_codec e r) demo_store_ops demo_store = ([(OrderInput demo_bid, jr_result r)], st)"
    "\<not> fo_poisoned st"
    using demo_store_run by blast
  have "store_open demo_digests (demo_codec e r) demo_store_config Persisted None None = Ok demo_store"
    by (simp add: empty_store(1) demo_store_def)
  from restart_keeps_runs [OF demo_digests_sound demo_codec_sound demo_store_ops_fit this run, of Persisted]
  obtain st' where "store_open demo_digests (demo_codec e r) demo_store_config Persisted (Some (fo_journal st)) (fo_checkpoint st) = Ok st'"
      "store_read_run st' 1 id = store_read_run st 1 id"
    by blast
  with run(1) show ?thesis
    by blast
qed

end
