(* ===== verification/Quarcc_Engine.thy ===== *)
theory Quarcc_Engine
  imports Market_Types
begin

text \<open>
  The participant's execution engine, \<open>src/packages/quarcc-execution-engine/src/\<close>: it turns a
  strategy's intents into venue actions, follows every order through the venue's reports, projects
  positions from the fills and reconciles with an authoritative snapshot.

  The engine works in place on \<open>&mut self\<close> and an output buffer, and an error leaves what was
  changed before it; an operation is therefore a function to a result and the state after it
  (\<open>exec_op\<close>). Identifiers are natural numbers, venue identifiers strings. The maps the source never
  iterates are maps of HOL; orders and the windows of seen identifiers, which it does iterate, are
  ordered containers. Where the source formats a lifecycle or a report into an error text, the
  model keeps the value.
\<close>

subsection \<open>Data\<close>

datatype order_lifecycle =
    IntentReceived
  | PendingSubmit
  | Live
  | PartiallyFilled
  | PendingCancel
  | PendingReplace
  | Cancelled
  | Filled
  | Rejected
  | Expired
  | ExternallyDiscovered
  | Quarantined

definition is_terminal :: "order_lifecycle \<Rightarrow> bool" where
  "is_terminal l \<longleftrightarrow> l \<in> {Cancelled, Filled, Rejected, Expired}"

definition is_open :: "order_lifecycle \<Rightarrow> bool" where
  "is_open l \<longleftrightarrow> \<not> is_terminal l \<and> l \<noteq> Quarantined"

record desired_order =
  do_client_order_id :: nat
  do_instrument_id :: instrument_id
  do_participant_id :: participant_id
  do_side :: side
  do_quantity :: quantity_lots
  do_kind :: order_kind
  do_anonymous :: bool

datatype venue_report_kind =
    ReportAccepted
  | ReportRejected string
  | ReportFill quantity_lots quantity_lots price_ticks
  | ReportCancelled
  | ReportCancelRejected string
  | ReportReplaced
  | ReportExpired

datatype quarantine_reason = InvalidReport venue_report_kind | VenueReason string

record managed_order =
  mo_local_order_id :: nat
  mo_desired :: desired_order
  mo_venue_order_id :: "string option"
  mo_lifecycle :: order_lifecycle
  mo_filled_quantity :: quantity_lots
  mo_average_fill_price :: "price_ticks option"
  mo_replacement_for :: "nat option"
  mo_pending_replace :: "(quantity_lots \<times> order_kind) option"
  mo_quarantine_reason :: "quarantine_reason option"

definition i64_saturating_sub :: "int \<Rightarrow> int \<Rightarrow> int" where
  "i64_saturating_sub a b = max (- (2 ^ 63)) (min (2 ^ 63 - 1) (a - b))"

definition remaining_quantity :: "managed_order \<Rightarrow> quantity_lots" where
  "remaining_quantity m = i64_saturating_sub (do_quantity (mo_desired m)) (mo_filled_quantity m)"

record venue_report =
  vr_report_id :: nat
  vr_source_sequence :: "nat option"
  vr_client_order_id :: "nat option"
  vr_local_order_id :: "nat option"
  vr_venue_order_id :: "string option"
  vr_leaves_quantity :: "quantity_lots option"
  vr_kind :: venue_report_kind

datatype transition_cause = OfReport venue_report_kind | CancelIntent | ReplaceIntent

datatype execution_error =
    BufferFull nat
  | DuplicateIntent
  | InvalidQuantity
  | InvalidPrice
  | InvalidTransition "order_lifecycle option" transition_cause
  | KillSwitchActive
  | OpenOrderLimit
  | PositionLimit
  | UnknownClientOrder nat
  | UnknownLocalOrder nat
  | UnknownVenueOrder string
  | AmbiguousReport nat
  | ArithmeticOverflow
  | InvalidSnapshotVersion nat
  | SnapshotEncoding

definition is_pre_trade_refusal :: "execution_error \<Rightarrow> bool" where
  "is_pre_trade_refusal e \<longleftrightarrow> e \<in> {OpenOrderLimit, PositionLimit, KillSwitchActive}"

record execution_config =
  max_orders :: nat
  max_actions_per_call :: nat
  max_seen_reports :: nat
  max_deferred_reports :: nat
  config_max_order_quantity :: quantity_lots
  config_max_absolute_position :: quantity_lots

definition execution_config_default :: execution_config where
  "execution_config_default =
     \<lparr>max_orders = 1024, max_actions_per_call = 256, max_seen_reports = 16384, max_deferred_reports = 256,
      config_max_order_quantity = 1000000, config_max_absolute_position = 10000000\<rparr>"

definition EXECUTION_SNAPSHOT_VERSION :: nat where
  "EXECUTION_SNAPSHOT_VERSION = 1"

datatype execution_intent =
    IntentSubmit nat desired_order
  | IntentCancel nat nat
  | IntentReplace nat nat quantity_lots order_kind
  | IntentQuery nat nat
  | IntentActivateKillSwitch nat

fun intent_id :: "execution_intent \<Rightarrow> nat" where
  "intent_id (IntentSubmit i _) = i"
| "intent_id (IntentCancel i _) = i"
| "intent_id (IntentReplace i _ _ _) = i"
| "intent_id (IntentQuery i _) = i"
| "intent_id (IntentActivateKillSwitch i) = i"

datatype execution_action =
    ActionSubmit nat nat desired_order
  | ActionCancel nat nat "string option"
  | ActionReplace nat nat string quantity_lots order_kind
  | ActionQueryOrder nat nat "string option"
  | ActionQueryOpenOrders nat

record market_observation =
  ob_instrument_id :: instrument_id
  ob_logical_time :: logical_time_ns
  ob_best_bid :: "(price_ticks \<times> quantity_lots) option"
  ob_best_ask :: "(price_ticks \<times> quantity_lots) option"
  ob_last_trade :: "(price_ticks \<times> quantity_lots) option"
  ob_committed_sequence :: nat

subsection \<open>Positions\<close>

record position_projection =
  pp_quantity :: quantity_lots
  pp_average_price :: "price_ticks option"
  pp_realized_pnl :: money_minor

definition position_default :: position_projection where
  "position_default = \<lparr>pp_quantity = 0, pp_average_price = None, pp_realized_pnl = 0\<rparr>"

text \<open>The realized part of a reducing fill, and the average price after a fill.\<close>

definition close_pnl :: "position_projection \<Rightarrow> int \<Rightarrow> price_ticks \<Rightarrow> (money_minor, execution_error) result" where
  "close_pnl p signed price =
     (let old = pp_quantity p;
          closed = min \<bar>old\<bar> \<bar>signed\<bar>;
          average = (case pp_average_price p of Some a \<Rightarrow> a | None \<Rightarrow> price) in
      attempt (ok_or ArithmeticOverflow
          (if old > 0 then i64_checked_sub price average else i64_checked_sub average price)) (\<lambda>per_unit.
      attempt (ok_or ArithmeticOverflow (checked_i128 (per_unit * closed))) (\<lambda>pnl.
      ok_or ArithmeticOverflow (i128_checked_add (pp_realized_pnl p) pnl))))"

definition fill_average :: "position_projection \<Rightarrow> int \<Rightarrow> int \<Rightarrow> price_ticks \<Rightarrow> (price_ticks option, execution_error) result" where
  "fill_average p signed new price =
     (let old = pp_quantity p in
      if new = 0 then Ok None
      else if old = 0 \<or> sgn old \<noteq> sgn new then Ok (Some price)
      else if sgn old = sgn signed then
        attempt (ok_or ArithmeticOverflow
            (checked_i128 (old * (case pp_average_price p of Some a \<Rightarrow> a | None \<Rightarrow> price)))) (\<lambda>old_notional.
        attempt (ok_or ArithmeticOverflow (checked_i128 (signed * price))) (\<lambda>added.
        attempt (ok_or ArithmeticOverflow (i128_checked_add old_notional added)) (\<lambda>total.
        attempt (ok_or ArithmeticOverflow (checked_i64 (tdiv total new))) (\<lambda>weighted.
        Ok (Some weighted)))))
      else Ok (pp_average_price p))"

definition position_apply_fill :: "side \<Rightarrow> quantity_lots \<Rightarrow> price_ticks \<Rightarrow> position_projection \<Rightarrow>
    (position_projection, execution_error) result" where
  "position_apply_fill side quantity price p =
     (if quantity \<le> 0 \<or> price \<le> 0 then Err InvalidQuantity
      else
        attempt (case side of Buy \<Rightarrow> Ok quantity
          | Sell \<Rightarrow> ok_or ArithmeticOverflow (checked_i64 (- quantity))) (\<lambda>signed.
        let old = pp_quantity p in
        attempt (ok_or ArithmeticOverflow (i64_checked_add old signed)) (\<lambda>new.
        attempt (if old \<noteq> 0 \<and> sgn old \<noteq> sgn signed then close_pnl p signed price else Ok (pp_realized_pnl p)) (\<lambda>pnl.
        attempt (fill_average p signed new price) (\<lambda>average.
        Ok \<lparr>pp_quantity = new, pp_average_price = average, pp_realized_pnl = pnl\<rparr>)))))"

record authoritative_position =
  ap_instrument_id :: instrument_id
  ap_quantity :: quantity_lots
  ap_average_price :: "price_ticks option"
  ap_realized_pnl :: money_minor

record authoritative_open_order =
  ao_client_order_id :: "nat option"
  ao_venue_order_id :: string
  ao_order :: desired_order
  ao_filled_quantity :: quantity_lots

record authoritative_venue_snapshot =
  av_committed_sequence :: nat
  av_open_orders :: "authoritative_open_order list"
  av_positions :: "authoritative_position list"

subsection \<open>Pre-trade limits\<close>

definition validate_submit :: "execution_config \<Rightarrow> desired_order \<Rightarrow> nat \<Rightarrow> position_projection option \<Rightarrow>
    (unit, execution_error) result" where
  "validate_submit config order open_orders p =
     (if do_quantity order \<le> 0 then Err InvalidQuantity
      else if do_quantity order > config_max_order_quantity config then Err PositionLimit
      else if open_orders \<ge> max_orders config then Err OpenOrderLimit
      else
        (let current = (case p of Some v \<Rightarrow> pp_quantity v | None \<Rightarrow> 0) in
         attempt (ok_or ArithmeticOverflow
           (case do_side order of Buy \<Rightarrow> i64_checked_add current (do_quantity order)
            | Sell \<Rightarrow> i64_checked_sub current (do_quantity order))) (\<lambda>projected.
         if \<bar>projected\<bar> > \<bar>config_max_absolute_position config\<bar> then Err PositionLimit else Ok ())))"

subsection \<open>State and operations\<close>

record execution_snapshot =
  x_version :: nat
  x_config :: execution_config
  x_next_id :: nat
  x_kill_switch_active :: bool
  x_last_venue_sequence :: nat
  x_processed_intents :: "nat btree_set"
  x_intents_processed_through :: "nat option"
  x_seen_reports :: "nat btree_set"
  x_reports_seen_through :: "nat option"
  x_orders :: "(nat, managed_order) btree_map"
  x_client_to_local :: "nat \<rightharpoonup> nat"
  x_venue_to_local :: "string \<rightharpoonup> nat"
  x_deferred_reports :: "venue_report list"
  x_positions :: "instrument_id \<rightharpoonup> position_projection"
  x_market_data :: "instrument_id \<rightharpoonup> market_observation"

definition snapshot_empty :: "execution_config \<Rightarrow> execution_snapshot" where
  "snapshot_empty config =
     \<lparr>x_version = EXECUTION_SNAPSHOT_VERSION, x_config = config, x_next_id = 1, x_kill_switch_active = False,
      x_last_venue_sequence = 0, x_processed_intents = [], x_intents_processed_through = None, x_seen_reports = [],
      x_reports_seen_through = None, x_orders = [], x_client_to_local = Map.empty, x_venue_to_local = Map.empty,
      x_deferred_reports = [], x_positions = Map.empty, x_market_data = Map.empty\<rparr>"

record action_buffer =
  ab_limit :: nat
  ab_actions :: "execution_action list"

record exec =
  ex_state :: execution_snapshot
  ex_output :: action_buffer

type_synonym 'a exec_op = "exec \<Rightarrow> ('a, execution_error) result \<times> exec"

definition x_return :: "'a \<Rightarrow> 'a exec_op" where
  "x_return v s = (Ok v, s)"

definition x_fail :: "execution_error \<Rightarrow> 'a exec_op" where
  "x_fail e s = (Err e, s)"

definition x_lift :: "('a, execution_error) result \<Rightarrow> 'a exec_op" where
  "x_lift r s = (r, s)"

definition x_bind :: "'a exec_op \<Rightarrow> ('a \<Rightarrow> 'b exec_op) \<Rightarrow> 'b exec_op" where
  "x_bind m k s = (case m s of (Inl e, s') \<Rightarrow> (Err e, s') | (Inr v, s') \<Rightarrow> k v s')"

definition x_get :: "(execution_snapshot \<Rightarrow> 'a) \<Rightarrow> 'a exec_op" where
  "x_get f s = (Ok (f (ex_state s)), s)"

definition x_modify :: "(execution_snapshot \<Rightarrow> execution_snapshot) \<Rightarrow> unit exec_op" where
  "x_modify f s = (Ok (), s \<lparr>ex_state := f (ex_state s)\<rparr>)"

text \<open>\<open>ExecutionActionBuffer::push\<close>.\<close>

definition x_push :: "execution_action \<Rightarrow> unit exec_op" where
  "x_push action s =
     (let out = ex_output s in
      if length (ab_actions out) \<ge> ab_limit out then (Err (BufferFull (ab_limit out)), s)
      else (Ok (), s \<lparr>ex_output := out \<lparr>ab_actions := ab_actions out @ [action]\<rparr>\<rparr>))"

text \<open>\<open>next_local_id\<close> and \<open>next_action_id\<close> draw from one counter.\<close>

definition x_next :: "nat exec_op" where
  "x_next s =
     (let i = x_next_id (ex_state s) in
      if i + 1 < 2 ^ 128 then (Ok i, s \<lparr>ex_state := ex_state s \<lparr>x_next_id := i + 1\<rparr>\<rparr>)
      else (Err ArithmeticOverflow, s))"

definition x_order :: "nat \<Rightarrow> managed_order exec_op" where
  "x_order i = x_bind (x_get (\<lambda>s. bt_get (x_orders s) i)) (\<lambda>m. x_lift (ok_or (UnknownLocalOrder i) m))"

text \<open>\<open>orders.get_mut(&local)\<close>: writing to the order when it is there.\<close>

definition map_order :: "nat \<Rightarrow> (managed_order \<Rightarrow> managed_order) \<Rightarrow> execution_snapshot \<Rightarrow> execution_snapshot" where
  "map_order i f s =
     (case bt_get (x_orders s) i of
       None \<Rightarrow> s
     | Some m \<Rightarrow> s \<lparr>x_orders := bt_insert i (f m) (x_orders s)\<rparr>)"

definition x_update_order :: "nat \<Rightarrow> (managed_order \<Rightarrow> managed_order) \<Rightarrow> unit exec_op" where
  "x_update_order i f = x_bind (x_order i) (\<lambda>_. x_modify (map_order i f))"

definition set_lifecycle :: "order_lifecycle \<Rightarrow> managed_order \<Rightarrow> managed_order" where
  "set_lifecycle l m = m \<lparr>mo_lifecycle := l\<rparr>"

definition forget_order :: "nat \<Rightarrow> managed_order \<Rightarrow> execution_snapshot \<Rightarrow> execution_snapshot" where
  "forget_order i m s =
     (let client = do_client_order_id (mo_desired m);
          s' = s \<lparr>x_orders := bt_remove i (x_orders s),
                  x_venue_to_local := (case mo_venue_order_id m of
                     None \<Rightarrow> x_venue_to_local s | Some v \<Rightarrow> (x_venue_to_local s)(v := None))\<rparr> in
      if x_client_to_local s' client = Some i then s' \<lparr>x_client_to_local := (x_client_to_local s')(client := None)\<rparr>
      else s')"

function retire_terminal_orders :: "execution_snapshot \<Rightarrow> (unit, execution_error) result \<times> execution_snapshot" where
  "retire_terminal_orders s =
     (if length (x_orders s) \<ge> max_orders (x_config s) then
        (case find (\<lambda>(_, m). is_terminal (mo_lifecycle m)) (x_orders s) of
          None \<Rightarrow> (Err OpenOrderLimit, s)
        | Some (i, m) \<Rightarrow> retire_terminal_orders (forget_order i m s))
      else (Ok (), s))"
  by pat_completeness auto
termination
proof (relation "measure (\<lambda>s. length (x_orders s))")
  fix s :: execution_snapshot and x i m
  assume "find (\<lambda>(_, m). is_terminal (mo_lifecycle m)) (x_orders s) = Some x" "(i, m) = x"
  then have "(i, m) \<in> set (x_orders s)"
    by (auto simp: find_Some_iff in_set_conv_nth)
  then have "length (bt_remove i (x_orders s)) < length (x_orders s)"
    by (auto simp: bt_remove_def intro!: length_filter_less)
  then show "(forget_order i m s, s) \<in> measure (\<lambda>s. length (x_orders s))"
    by (simp add: forget_order_def Let_def)
qed simp

definition x_retire :: "unit exec_op" where
  "x_retire s = (case retire_terminal_orders (ex_state s) of (r, st) \<Rightarrow> (r, s \<lparr>ex_state := st\<rparr>))"

subsection \<open>Construction\<close>

definition engine_new :: "execution_config \<Rightarrow> execution_snapshot" where
  "engine_new config = snapshot_empty config"

definition engine_restore :: "execution_snapshot \<Rightarrow> (execution_snapshot, execution_error) result" where
  "engine_restore s =
     (if x_version s \<noteq> EXECUTION_SNAPSHOT_VERSION then Err (InvalidSnapshotVersion (x_version s))
      else if length (x_orders s) > max_orders (x_config s)
        \<or> length (x_seen_reports s) > max_seen_reports (x_config s)
        \<or> length (x_deferred_reports s) > max_deferred_reports (x_config s)
      then Err (BufferFull (max_orders (x_config s)))
      else Ok s)"

definition order_by_client :: "nat \<Rightarrow> execution_snapshot \<Rightarrow> managed_order option" where
  "order_by_client client s = Option.bind (x_client_to_local s client) (bt_get (x_orders s))"

subsection \<open>Venue reports\<close>

definition or_else :: "'a option \<Rightarrow> 'a option \<Rightarrow> 'a option" where
  "or_else a b = (case a of None \<Rightarrow> b | Some _ \<Rightarrow> a)"

definition resolve_report :: "execution_snapshot \<Rightarrow> venue_report \<Rightarrow> nat option" where
  "resolve_report s r =
     or_else (case vr_local_order_id r of
         Some i \<Rightarrow> if bt_get (x_orders s) i \<noteq> None then Some i else None | None \<Rightarrow> None)
      (or_else (Option.bind (vr_client_order_id r) (x_client_to_local s))
        (Option.bind (vr_venue_order_id r) (x_venue_to_local s)))"

definition defer_report :: "venue_report \<Rightarrow> unit exec_op" where
  "defer_report r =
     x_bind (x_get id) (\<lambda>s.
       if list_ex (\<lambda>d. vr_report_id d = vr_report_id r) (x_deferred_reports s) then x_return ()
       else if length (x_deferred_reports s) \<ge> max_deferred_reports (x_config s)
       then x_fail (BufferFull (max_deferred_reports (x_config s)))
       else x_modify (\<lambda>s. s \<lparr>x_deferred_reports := x_deferred_reports s @ [r]\<rparr>))"

definition quarantine :: "nat \<Rightarrow> venue_report \<Rightarrow> unit exec_op" where
  "quarantine i r =
     x_bind (x_get (\<lambda>s. map_option mo_lifecycle (bt_get (x_orders s) i))) (\<lambda>from.
     x_bind (x_modify (map_order i (\<lambda>m. m \<lparr>mo_lifecycle := Quarantined,
         mo_quarantine_reason := Some (InvalidReport (vr_kind r))\<rparr>))) (\<lambda>_.
     x_fail (InvalidTransition from (OfReport (vr_kind r)))))"

definition bind_venue_id :: "nat \<Rightarrow> string option \<Rightarrow> unit exec_op" where
  "bind_venue_id i venue =
     (case venue of
       None \<Rightarrow> x_return ()
     | Some v \<Rightarrow>
         x_bind (x_get (\<lambda>s. x_venue_to_local s v)) (\<lambda>existing.
         if existing \<noteq> None \<and> existing \<noteq> Some i then x_fail (UnknownVenueOrder v)
         else
           x_bind (x_modify (\<lambda>s. s \<lparr>x_venue_to_local := (x_venue_to_local s)(v \<mapsto> i)\<rparr>)) (\<lambda>_.
           x_modify (map_order i (\<lambda>m. m \<lparr>mo_venue_order_id := Some v\<rparr>)))))"

text \<open>\<open>positions.entry(instrument).or_default().apply_fill(..)?\<close>: the entry stays when the fill fails.\<close>

definition position_of :: "execution_snapshot \<Rightarrow> instrument_id \<Rightarrow> position_projection" where
  "position_of s i = (case x_positions s i of Some p \<Rightarrow> p | None \<Rightarrow> position_default)"

definition x_position_fill :: "instrument_id \<Rightarrow> side \<Rightarrow> quantity_lots \<Rightarrow> price_ticks \<Rightarrow> unit exec_op" where
  "x_position_fill instrument side quantity price =
     x_bind (x_get (\<lambda>s. position_of s instrument)) (\<lambda>p.
     x_bind (x_modify (\<lambda>s. s \<lparr>x_positions := (x_positions s)(instrument \<mapsto> p)\<rparr>)) (\<lambda>_.
     x_bind (x_lift (position_apply_fill side quantity price p)) (\<lambda>p'.
     x_modify (\<lambda>s. s \<lparr>x_positions := (x_positions s)(instrument \<mapsto> p')\<rparr>))))"

definition resting_lifecycle :: "managed_order \<Rightarrow> order_lifecycle" where
  "resting_lifecycle m = (if mo_filled_quantity m > 0 then PartiallyFilled else Live)"

definition filled_lifecycle :: "quantity_lots \<Rightarrow> quantity_lots \<Rightarrow> order_lifecycle \<Rightarrow> order_lifecycle" where
  "filled_lifecycle cumulative whole l =
     (if cumulative = whole then Filled
      else if l \<in> {Cancelled, Expired} then l
      else PartiallyFilled)"

definition apply_fill_report :: "nat \<Rightarrow> venue_report \<Rightarrow> order_lifecycle \<Rightarrow> quantity_lots \<Rightarrow> price_ticks \<Rightarrow> unit exec_op" where
  "apply_fill_report i r l cumulative price =
     x_bind (x_order i) (\<lambda>m.
     let d = mo_desired m; previous = mo_filled_quantity m; whole = do_quantity d in
     if cumulative < previous then x_return ()
     else if cumulative > whole then quarantine i r
     else
       x_bind (x_lift (ok_or ArithmeticOverflow (i64_checked_sub cumulative previous))) (\<lambda>delta.
       x_bind (if delta > 0 then x_position_fill (do_instrument_id d) (do_side d) delta price else x_return ()) (\<lambda>_.
       x_update_order i (\<lambda>m. m \<lparr>mo_filled_quantity := cumulative, mo_average_fill_price := Some price,
         mo_lifecycle := filled_lifecycle cumulative whole l\<rparr>))))"

definition apply_replacement :: "managed_order \<Rightarrow> managed_order" where
  "apply_replacement m =
     (let m' = (case mo_pending_replace m of
          None \<Rightarrow> m
        | Some (quantity, kind) \<Rightarrow> m \<lparr>mo_pending_replace := None,
            mo_desired := mo_desired m \<lparr>do_quantity := quantity, do_kind := kind\<rparr>\<rparr>) in
      m' \<lparr>mo_lifecycle := resting_lifecycle m'\<rparr>)"

definition apply_report_kind :: "nat \<Rightarrow> venue_report \<Rightarrow> order_lifecycle \<Rightarrow> unit exec_op" where
  "apply_report_kind i r l =
     (case vr_kind r of
       ReportAccepted \<Rightarrow>
         if l \<in> {PendingSubmit, IntentReceived} then x_update_order i (set_lifecycle Live)
         else if l \<in> {Live, PartiallyFilled, Filled, Cancelled, PendingCancel, PendingReplace} then x_return ()
         else quarantine i r
     | ReportRejected reason \<Rightarrow>
         if l \<in> {Filled, Cancelled, Expired, Live, PartiallyFilled} then x_return ()
         else if l \<in> {PendingSubmit, PendingReplace}
         then x_update_order i (\<lambda>m. m \<lparr>mo_lifecycle := Rejected, mo_quarantine_reason := Some (VenueReason reason)\<rparr>)
         else if l = PendingCancel then x_update_order i (\<lambda>m. set_lifecycle (resting_lifecycle m) m)
         else quarantine i r
     | ReportFill _ cumulative price \<Rightarrow>
         if l \<in> {PendingSubmit, Live, PartiallyFilled, PendingCancel, PendingReplace, Filled, Cancelled, Expired}
         then apply_fill_report i r l cumulative price
         else quarantine i r
     | ReportCancelled \<Rightarrow>
         if l \<in> {Filled, Cancelled, Expired} then x_return ()
         else if l \<in> {PendingCancel, Live, PartiallyFilled, PendingReplace, PendingSubmit}
         then x_update_order i (set_lifecycle Cancelled)
         else quarantine i r
     | ReportCancelRejected _ \<Rightarrow>
         if l \<in> {Filled, Cancelled, Expired, Live, PartiallyFilled} then x_return ()
         else if l = PendingCancel then x_update_order i (\<lambda>m. set_lifecycle (resting_lifecycle m) m)
         else quarantine i r
     | ReportReplaced \<Rightarrow>
         if l = PendingReplace then x_update_order i apply_replacement else quarantine i r
     | ReportExpired \<Rightarrow>
         if l \<in> {Filled, Cancelled, Expired} then x_return ()
         else if is_open l then x_update_order i (set_lifecycle Expired)
         else quarantine i r)"

definition apply_resolved_report :: "nat \<Rightarrow> venue_report \<Rightarrow> unit exec_op" where
  "apply_resolved_report i r =
     x_bind (bind_venue_id i (vr_venue_order_id r)) (\<lambda>_.
     x_bind (x_order i) (\<lambda>m.
     apply_report_kind i r (mo_lifecycle m)))"

text \<open>\<open>BTreeSet::insert\<close>, then \<open>pop_first\<close> into the low-water mark when the window is over its bound.\<close>

definition window_insert :: "nat \<Rightarrow> nat \<Rightarrow> nat btree_set \<times> nat option \<Rightarrow> nat btree_set \<times> nat option" where
  "window_insert bound i w =
     (let seen = bs_insert i (fst w) in
      if length seen > bound then (tl seen, Some (hd seen)) else (seen, snd w))"

definition window_has :: "nat btree_set \<times> nat option \<Rightarrow> nat \<Rightarrow> bool" where
  "window_has w i \<longleftrightarrow> i \<in> set (fst w) \<or> (case snd w of Some through \<Rightarrow> i \<le> through | None \<Rightarrow> False)"

definition report_window :: "execution_snapshot \<Rightarrow> nat btree_set \<times> nat option" where
  "report_window s = (x_seen_reports s, x_reports_seen_through s)"

definition intent_window :: "execution_snapshot \<Rightarrow> nat btree_set \<times> nat option" where
  "intent_window s = (x_processed_intents s, x_intents_processed_through s)"

definition record_report :: "venue_report \<Rightarrow> execution_snapshot \<Rightarrow> execution_snapshot" where
  "record_report r s =
     (let w = window_insert (max_seen_reports (x_config s)) (vr_report_id r) (report_window s) in
      s \<lparr>x_seen_reports := fst w, x_reports_seen_through := snd w,
         x_last_venue_sequence := (case vr_source_sequence r of
            None \<Rightarrow> x_last_venue_sequence s | Some n \<Rightarrow> max (x_last_venue_sequence s) n)\<rparr>)"

text \<open>One report up to the point where the deferred ones are retried; the value says whether they are.\<close>

definition apply_report_once :: "venue_report \<Rightarrow> bool exec_op" where
  "apply_report_once r =
     x_bind (x_get (\<lambda>s. (window_has (report_window s) (vr_report_id r), resolve_report s r))) (\<lambda>(seen, target).
     if seen then x_return False
     else
       (case target of
         None \<Rightarrow> x_bind (defer_report r) (\<lambda>_. x_return False)
       | Some i \<Rightarrow>
           x_bind (apply_resolved_report i r) (\<lambda>_.
           x_bind (x_modify (record_report r)) (\<lambda>_.
           x_return (vr_kind r = ReportAccepted \<or> vr_kind r = ReportReplaced)))))"

lemmas exec_simps = x_return_def x_fail_def x_lift_def x_bind_def x_get_def x_modify_def Let_def

subsection \<open>What an operation does to the state\<close>

text \<open>
  \<open>moves R m s\<close>: from \<open>s\<close>, the operation leads to a state related by \<open>R\<close>, whatever its result. For a
  reflexive and transitive relation this follows the composition of the operations.
\<close>

definition moves :: "(execution_snapshot \<Rightarrow> execution_snapshot \<Rightarrow> bool) \<Rightarrow> 'a exec_op \<Rightarrow> exec \<Rightarrow> bool" where
  "moves R m s \<longleftrightarrow> R (ex_state s) (ex_state (snd (m s)))"

lemma exec_values [simp]:
  "x_return v s = (Ok v, s)" "x_fail e s = (Err e, s)" "x_lift r s = (r, s)"
  "x_get f s = (Ok (f (ex_state s)), s)" "x_modify g s = (Ok (), s \<lparr>ex_state := g (ex_state s)\<rparr>)"
  by (simp_all add: exec_simps)

lemma x_bind_Ok_iff: "x_bind m k s = (Ok v, s'') \<longleftrightarrow> (\<exists>a s'. m s = (Ok a, s') \<and> k a s' = (Ok v, s''))"
  by (auto simp: x_bind_def split: prod.splits sum.splits)

lemma x_order_value [simp]: "x_order i s = (ok_or (UnknownLocalOrder i) (bt_get (x_orders (ex_state s)) i), s)"
  by (simp add: x_order_def x_bind_def)

lemma x_push_state [simp]: "ex_state (snd (x_push a s)) = ex_state s"
  by (simp add: x_push_def Let_def)

locale exec_relation =
  fixes R :: "execution_snapshot \<Rightarrow> execution_snapshot \<Rightarrow> bool"
  assumes R_refl: "R s s"
    and R_trans: "R s t \<Longrightarrow> R t u \<Longrightarrow> R s u"
begin

lemma moves_pure:
  "moves R (x_return v) s" "moves R (x_fail e) s" "moves R (x_lift r) s" "moves R (x_get f) s"
  "moves R (x_push a) s" "moves R (x_order i) s"
  by (simp_all add: moves_def R_refl)

lemma moves_modify: "R (ex_state s) (f (ex_state s)) \<Longrightarrow> moves R (x_modify f) s"
  by (simp add: moves_def)

lemma moves_bind:
  assumes "moves R m s" and "\<And>v s'. m s = (Ok v, s') \<Longrightarrow> moves R (k v) s'"
  shows "moves R (x_bind m k) s"
  using assms by (auto simp: moves_def x_bind_def split: prod.splits sum.splits intro: R_trans R_refl)

lemma moves_if: "(b \<Longrightarrow> moves R m s) \<Longrightarrow> (\<not> b \<Longrightarrow> moves R n s) \<Longrightarrow> moves R (if b then m else n) s"
  by simp

lemma moves_update_order:
  assumes "\<And>m. bt_get (x_orders (ex_state s)) i = Some m \<Longrightarrow>
    R (ex_state s) (ex_state s \<lparr>x_orders := bt_insert i (f m) (x_orders (ex_state s))\<rparr>)"
  shows "moves R (x_update_order i f) s"
  using assms unfolding x_update_order_def
  by (auto intro!: moves_bind moves_pure moves_modify simp: map_order_def R_refl split: option.splits)

end

definition same_intake :: "execution_snapshot \<Rightarrow> execution_snapshot \<Rightarrow> bool" where
  "same_intake s t \<longleftrightarrow> x_deferred_reports t = x_deferred_reports s \<and> x_config t = x_config s
     \<and> report_window t = report_window s \<and> intent_window t = intent_window s"

interpretation intake: exec_relation same_intake
  by unfold_locales (auto simp: same_intake_def)

lemma same_intake_map_order [simp]: "same_intake s (map_order i f s)"
  by (simp add: same_intake_def map_order_def report_window_def intent_window_def split: option.split)

lemmas intake_intros = intake.moves_bind intake.moves_pure intake.moves_modify intake.moves_if
  intake.moves_update_order

lemma quarantine_intake: "moves same_intake (quarantine i r) s"
  unfolding quarantine_def by (intro intake_intros) simp

lemma bind_venue_id_intake: "moves same_intake (bind_venue_id i v) s"
  unfolding bind_venue_id_def
  by (cases v; simp only: option.case; intro intake_intros same_intake_map_order)
    (simp add: same_intake_def report_window_def intent_window_def)

lemma x_position_fill_intake: "moves same_intake (x_position_fill i d q p) s"
  unfolding x_position_fill_def by (intro intake_intros) (simp_all add: same_intake_def report_window_def intent_window_def)

lemma apply_fill_report_intake: "moves same_intake (apply_fill_report i r l c p) s"
  unfolding apply_fill_report_def Let_def
  by (intro intake_intros quarantine_intake x_position_fill_intake) (simp add: same_intake_def report_window_def intent_window_def)

lemma apply_report_kind_intake: "moves same_intake (apply_report_kind i r l) s"
  unfolding apply_report_kind_def
  by (cases "vr_kind r")
    (auto simp: same_intake_def report_window_def intent_window_def intro!: intake_intros quarantine_intake apply_fill_report_intake)

lemma apply_resolved_report_intake: "moves same_intake (apply_resolved_report i r) s"
  unfolding apply_resolved_report_def
  by (intro intake_intros bind_venue_id_intake apply_report_kind_intake)

text \<open>One report adds at most itself to the deferred ones, and none when it leads to a retry.\<close>

abbreviation deferred_count :: "exec \<Rightarrow> nat" where
  "deferred_count s \<equiv> length (x_deferred_reports (ex_state s))"

lemma apply_report_once_deferred:
  "deferred_count (snd (apply_report_once r s)) \<le> Suc (deferred_count s)"
  "fst (apply_report_once r s) = Ok True \<Longrightarrow> deferred_count (snd (apply_report_once r s)) = deferred_count s"
  using apply_resolved_report_intake [of "the (resolve_report (ex_state s) r)" r s, unfolded moves_def same_intake_def]
  by (auto simp: apply_report_once_def x_bind_def defer_report_def record_report_def Let_def
      split: prod.splits sum.splits option.splits if_splits)

subsection \<open>Retrying deferred reports\<close>

text \<open>
  \<open>apply_venue_report\<close> retries the deferred reports, each through \<open>apply_venue_report\<close> again.
  \<open>apply_reports\<close> is the loop of \<open>retry_deferred\<close> with that recursion; one report is the loop over
  one element. Each retry empties the deferred list and defers any report of it at most once, so the
  recursion ends.
\<close>

definition clear_deferred :: "exec \<Rightarrow> exec" where
  "clear_deferred s = s \<lparr>ex_state := ex_state s \<lparr>x_deferred_reports := []\<rparr>\<rparr>"

function apply_reports :: "venue_report list \<Rightarrow> exec \<Rightarrow> (unit, execution_error) result \<times> exec" where
  "apply_reports [] s = (Ok (), s)"
| "apply_reports (r # rs) s =
     (case apply_report_once r s of
       (Inl e, s1) \<Rightarrow> (Err e, s1)
     | (Inr retry, s1) \<Rightarrow>
         (case (if retry then apply_reports (x_deferred_reports (ex_state s1)) (clear_deferred s1) else (Ok (), s1)) of
           (Inl e, s2) \<Rightarrow> (Err e, s2)
         | (Inr _, s2) \<Rightarrow> apply_reports rs s2))"
  by pat_completeness auto

lemma apply_reports_deferred:
  assumes "apply_reports_dom (rs, s)"
  shows "deferred_count (snd (apply_reports rs s)) \<le> length rs + deferred_count s"
  using assms
proof (induction rs s rule: apply_reports.pinduct)
  case (1 s)
  then show ?case
    by (simp add: apply_reports.psimps)
next
  case (2 r rs s)
  then show ?case
    using apply_report_once_deferred [of r s]
    by (fastforce simp: apply_reports.psimps clear_deferred_def split: prod.splits sum.splits if_splits)
qed

termination apply_reports
proof (relation "measures [\<lambda>(rs, s). length rs + deferred_count s, \<lambda>(rs, s). length rs]")
  fix r :: venue_report and rs s x s1 b
  assume "(x, s1) = apply_report_once r s" "x = Inr b" b
  then show "((x_deferred_reports (ex_state s1), clear_deferred s1), r # rs, s)
      \<in> measures [\<lambda>(rs, s). length rs + deferred_count s, \<lambda>(rs, s). length rs]"
    using apply_report_once_deferred(2) [of r s] by (cases "apply_report_once r s") (simp add: clear_deferred_def)
next
  fix r :: venue_report and rs s x s1 b y s2 u
  assume x: "(x, s1) = apply_report_once r s" "x = Inr b"
    and y: "(y, s2) = (if b then apply_reports (x_deferred_reports (ex_state s1)) (clear_deferred s1) else (Ok (), s1))"
      "y = Inr u"
    and dom: "b \<Longrightarrow> apply_reports_dom (x_deferred_reports (ex_state s1), clear_deferred s1)"
  show "((rs, s2), r # rs, s) \<in> measures [\<lambda>(rs, s). length rs + deferred_count s, \<lambda>(rs, s). length rs]"
  proof (cases b)
    case True
    with x have "deferred_count s1 = deferred_count s"
      using apply_report_once_deferred(2) [of r s] by (cases "apply_report_once r s") simp
    moreover from y True have "s2 = snd (apply_reports (x_deferred_reports (ex_state s1)) (clear_deferred s1))"
      by (metis snd_conv)
    ultimately show ?thesis
      using apply_reports_deferred [OF dom [OF True]] by (simp add: clear_deferred_def)
  next
    case False
    with x y show ?thesis
      using apply_report_once_deferred(1) [of r s] by (cases "apply_report_once r s") auto
  qed
qed simp

definition retry_deferred :: "unit exec_op" where
  "retry_deferred s = apply_reports (x_deferred_reports (ex_state s)) (clear_deferred s)"

definition apply_venue_report :: "venue_report \<Rightarrow> unit exec_op" where
  "apply_venue_report r = apply_reports [r]"

text \<open>The two as the source writes them.\<close>

lemma apply_venue_report_retries:
  "apply_venue_report r = x_bind (apply_report_once r) (\<lambda>retry. if retry then retry_deferred else x_return ())"
  by (rule ext) (auto simp: apply_venue_report_def x_bind_def retry_deferred_def split: prod.splits sum.splits)

lemma apply_reports_Cons:
  "apply_reports (r # rs) = x_bind (apply_venue_report r) (\<lambda>_. apply_reports rs)"
  by (rule ext) (auto simp: apply_venue_report_def x_bind_def split: prod.splits sum.splits)

declare apply_reports.simps(2) [simp del]

subsection \<open>Intents\<close>

definition managed_new :: "nat \<Rightarrow> desired_order \<Rightarrow> managed_order" where
  "managed_new i d =
     \<lparr>mo_local_order_id = i, mo_desired = d, mo_venue_order_id = None, mo_lifecycle = PendingSubmit,
      mo_filled_quantity = 0, mo_average_fill_price = None, mo_replacement_for = None,
      mo_pending_replace = None, mo_quarantine_reason = None\<rparr>"

definition open_count :: "execution_snapshot \<Rightarrow> nat" where
  "open_count s = length (filter (\<lambda>(_, m). is_open (mo_lifecycle m)) (x_orders s))"

definition intent_submit :: "desired_order \<Rightarrow> unit exec_op" where
  "intent_submit d =
     x_bind (x_get id) (\<lambda>s.
     if x_kill_switch_active s then x_fail KillSwitchActive
     else if x_client_to_local s (do_client_order_id d) \<noteq> None then x_fail DuplicateIntent
     else
       x_bind (x_lift (validate_submit (x_config s) d (open_count s) (x_positions s (do_instrument_id d)))) (\<lambda>_.
       x_bind x_retire (\<lambda>_.
       x_bind x_next (\<lambda>i.
       x_bind x_next (\<lambda>a.
       x_bind (x_push (ActionSubmit a i d)) (\<lambda>_.
       x_modify (\<lambda>s. s \<lparr>x_client_to_local := (x_client_to_local s)(do_client_order_id d \<mapsto> i),
         x_orders := bt_insert i (managed_new i d) (x_orders s)\<rparr>)))))))"

definition x_client_order :: "nat \<Rightarrow> (nat \<times> managed_order) exec_op" where
  "x_client_order client =
     x_bind (x_get (\<lambda>s. x_client_to_local s client)) (\<lambda>found.
     x_bind (x_lift (ok_or (UnknownClientOrder client) found)) (\<lambda>i.
     x_bind (x_order i) (\<lambda>m. x_return (i, m))))"

definition intent_cancel :: "nat \<Rightarrow> unit exec_op" where
  "intent_cancel client =
     x_bind (x_client_order client) (\<lambda>(i, m).
     if mo_lifecycle m \<notin> {PendingSubmit, Live, PartiallyFilled}
     then x_fail (InvalidTransition (Some (mo_lifecycle m)) CancelIntent)
     else
       x_bind x_next (\<lambda>a.
       x_bind (x_push (ActionCancel a i (mo_venue_order_id m))) (\<lambda>_.
       x_update_order i (set_lifecycle PendingCancel))))"

definition intent_replace :: "nat \<Rightarrow> quantity_lots \<Rightarrow> order_kind \<Rightarrow> unit exec_op" where
  "intent_replace client quantity kind =
     (if quantity \<le> 0 then x_fail InvalidQuantity
      else
        x_bind (x_client_order client) (\<lambda>(i, m).
        if mo_lifecycle m \<notin> {Live, PartiallyFilled}
        then x_fail (InvalidTransition (Some (mo_lifecycle m)) ReplaceIntent)
        else
          x_bind (x_lift (ok_or (UnknownLocalOrder i) (mo_venue_order_id m))) (\<lambda>v.
          x_bind x_next (\<lambda>a.
          x_bind (x_push (ActionReplace a i v quantity kind)) (\<lambda>_.
          x_update_order i (\<lambda>m. m \<lparr>mo_lifecycle := PendingReplace, mo_pending_replace := Some (quantity, kind)\<rparr>))))))"

definition intent_query :: "nat \<Rightarrow> unit exec_op" where
  "intent_query i =
     x_bind (x_order i) (\<lambda>m.
     x_bind x_next (\<lambda>a.
     x_push (ActionQueryOrder a i (mo_venue_order_id m))))"

definition open_orders :: "execution_snapshot \<Rightarrow> (nat \<times> string option) list" where
  "open_orders s =
     map (\<lambda>(i, m). (i, mo_venue_order_id m)) (filter (\<lambda>(_, m). is_open (mo_lifecycle m)) (x_orders s))"

fun cancel_each :: "(nat \<times> string option) list \<Rightarrow> unit exec_op" where
  "cancel_each [] = x_return ()"
| "cancel_each ((i, v) # rest) =
     x_bind x_next (\<lambda>a.
     x_bind (x_push (ActionCancel a i v)) (\<lambda>_.
     x_bind (x_modify (map_order i (set_lifecycle PendingCancel))) (\<lambda>_.
     cancel_each rest)))"

definition intent_kill_switch :: "unit exec_op" where
  "intent_kill_switch =
     x_bind (x_modify (\<lambda>s. s \<lparr>x_kill_switch_active := True\<rparr>)) (\<lambda>_.
     x_bind (x_get open_orders) cancel_each)"

fun intent_body :: "execution_intent \<Rightarrow> unit exec_op" where
  "intent_body (IntentSubmit _ d) = intent_submit d"
| "intent_body (IntentCancel _ client) = intent_cancel client"
| "intent_body (IntentReplace _ client quantity kind) = intent_replace client quantity kind"
| "intent_body (IntentQuery _ i) = intent_query i"
| "intent_body (IntentActivateKillSwitch _) = intent_kill_switch"

definition record_intent :: "nat \<Rightarrow> execution_snapshot \<Rightarrow> execution_snapshot" where
  "record_intent i s =
     (let w = window_insert (max_seen_reports (x_config s)) i (intent_window s) in
      s \<lparr>x_processed_intents := fst w, x_intents_processed_through := snd w\<rparr>)"

definition submit_intent :: "execution_intent \<Rightarrow> unit exec_op" where
  "submit_intent intent =
     x_bind (x_get (\<lambda>s. window_has (intent_window s) (intent_id intent))) (\<lambda>processed.
     if processed then x_return ()
     else x_bind (intent_body intent) (\<lambda>_. x_modify (record_intent (intent_id intent))))"

subsection \<open>Market data and reconciliation\<close>

definition apply_market_data :: "market_observation \<Rightarrow> unit exec_op" where
  "apply_market_data ob =
     x_modify (\<lambda>s. s \<lparr>x_market_data := (x_market_data s)(ob_instrument_id ob \<mapsto> ob),
       x_last_venue_sequence := max (x_last_venue_sequence s) (ob_committed_sequence ob)\<rparr>)"

definition discovered_order :: "nat \<Rightarrow> nat \<Rightarrow> authoritative_open_order \<Rightarrow> managed_order" where
  "discovered_order i client e =
     \<lparr>mo_local_order_id = i, mo_desired = ao_order e \<lparr>do_client_order_id := client\<rparr>,
      mo_venue_order_id = Some (ao_venue_order_id e), mo_lifecycle = ExternallyDiscovered,
      mo_filled_quantity = ao_filled_quantity e, mo_average_fill_price = None, mo_replacement_for = None,
      mo_pending_replace = None, mo_quarantine_reason = None\<rparr>"

definition adopt_external :: "authoritative_open_order \<Rightarrow> nat exec_op" where
  "adopt_external e =
     (let client = (case ao_client_order_id e of Some c \<Rightarrow> c | None \<Rightarrow> do_client_order_id (ao_order e)) in
      x_bind (x_get (\<lambda>s. x_client_to_local s client)) (\<lambda>known.
      case known of
        Some i \<Rightarrow> x_return i
      | None \<Rightarrow>
          x_bind x_next (\<lambda>i.
          x_bind (x_modify (\<lambda>s. s \<lparr>x_client_to_local := (x_client_to_local s)(client \<mapsto> i),
            x_orders := bt_insert i (discovered_order i client e) (x_orders s)\<rparr>)) (\<lambda>_.
          x_return i))))"

definition external_state :: "quantity_lots \<Rightarrow> managed_order \<Rightarrow> managed_order" where
  "external_state filled m =
     (let m' = m \<lparr>mo_filled_quantity := filled\<rparr> in
      if mo_lifecycle m' = ExternallyDiscovered then m'
      else m' \<lparr>mo_lifecycle := if filled > 0 then PartiallyFilled else Live\<rparr>)"

fun reconcile_orders :: "authoritative_open_order list \<Rightarrow> nat list \<Rightarrow> nat list exec_op" where
  "reconcile_orders [] observed = x_return observed"
| "reconcile_orders (e # es) observed =
     x_bind (adopt_external e) (\<lambda>i.
     x_bind (bind_venue_id i (Some (ao_venue_order_id e))) (\<lambda>_.
     x_bind (x_modify (map_order i (external_state (ao_filled_quantity e)))) (\<lambda>_.
     reconcile_orders es (bs_insert i observed))))"

fun query_each :: "(nat \<times> string option) list \<Rightarrow> unit exec_op" where
  "query_each [] = x_return ()"
| "query_each ((i, v) # rest) =
     x_bind x_next (\<lambda>a.
     x_bind (x_push (ActionQueryOrder a i v)) (\<lambda>_.
     query_each rest))"

definition authoritative_positions :: "authoritative_position list \<Rightarrow> instrument_id \<rightharpoonup> position_projection" where
  "authoritative_positions ps =
     foldl (\<lambda>t p. t(ap_instrument_id p \<mapsto>
       \<lparr>pp_quantity = ap_quantity p, pp_average_price = ap_average_price p, pp_realized_pnl = ap_realized_pnl p\<rparr>))
       Map.empty ps"

definition reconcile :: "authoritative_venue_snapshot \<Rightarrow> unit exec_op" where
  "reconcile v =
     x_bind (x_get x_config) (\<lambda>config.
     if length (av_open_orders v) > max_orders config then x_fail (BufferFull (max_orders config))
     else
       x_bind (reconcile_orders (av_open_orders v) []) (\<lambda>observed.
       x_bind (x_get open_orders) (\<lambda>still_open.
       x_bind (query_each (filter (\<lambda>(i, _). i \<notin> set observed) still_open)) (\<lambda>_.
       x_bind (x_modify (\<lambda>s. s \<lparr>x_positions := authoritative_positions (av_positions v),
         x_last_venue_sequence := av_committed_sequence v\<rparr>)) (\<lambda>_.
       retry_deferred)))))"

end
