(* ===== verification/Quarcc_Laws.thy ===== *)
theory Quarcc_Laws
  imports Quarcc_Engine
begin

text \<open>
  Correctness of the execution engine. Every operation is a sequence of primitive writes: those of
  venue reports (\<open>report_write\<close>), with those of intents (\<open>intent_write\<close>), with those of reconciliation
  (\<open>reconcile_write\<close>). Each relation is an interpretation of the locale \<open>exec_relation\<close>, so the
  operations are decomposed once, and an invariant or a step relation is checked on the writes only.
\<close>

subsection \<open>Writes\<close>

definition managed_ok :: "managed_order \<Rightarrow> bool" where
  "managed_ok m \<longleftrightarrow> (mo_lifecycle m = Filled \<longrightarrow> mo_filled_quantity m = do_quantity (mo_desired m))"

definition order_step :: "managed_order \<Rightarrow> managed_order \<Rightarrow> bool" where
  "order_step m m' \<longleftrightarrow>
     do_instrument_id (mo_desired m') = do_instrument_id (mo_desired m) \<and> do_side (mo_desired m') = do_side (mo_desired m)
     \<and> (managed_ok m \<longrightarrow> managed_ok m' \<and> (is_open (mo_lifecycle m') \<longrightarrow> is_open (mo_lifecycle m)))"

text \<open>What the writes below are about; the indexes from client and venue identifiers, market data and
  the venue's sequence are not part of it.\<close>

definition core :: "execution_snapshot \<Rightarrow> _" where
  "core s = (x_orders s, x_positions s, x_config s, x_next_id s, x_kill_switch_active s, report_window s,
     intent_window s, x_deferred_reports s, x_version s)"

lemmas core_simps = core_def report_window_def intent_window_def

inductive report_write :: "execution_snapshot \<Rightarrow> execution_snapshot \<Rightarrow> bool" where
  frame_write: "core t = core s \<Longrightarrow> report_write s t"
| order_write: "\<lbrakk>bt_get (x_orders s) i = Some m; order_step m m'; mo_filled_quantity m' = mo_filled_quantity m\<rbrakk> \<Longrightarrow>
    report_write s (s \<lparr>x_orders := bt_insert i m' (x_orders s)\<rparr>)"
| entry_write: "report_write s (s \<lparr>x_positions := (x_positions s)(k \<mapsto> position_of s k)\<rparr>)"
| fill_write: "\<lbrakk>bt_get (x_orders s) i = Some m; order_step m m'; k = do_instrument_id (mo_desired m);
    position_apply_fill (do_side (mo_desired m)) (mo_filled_quantity m' - mo_filled_quantity m) price (position_of s k) = Ok p\<rbrakk> \<Longrightarrow>
    report_write s (s \<lparr>x_positions := (x_positions s)(k \<mapsto> p), x_orders := bt_insert i m' (x_orders s)\<rparr>)"
| record_write: "\<not> window_has (report_window s) (vr_report_id r) \<Longrightarrow> report_write s (record_report r s)"
| defer_write: "length (x_deferred_reports s) < max_deferred_reports (x_config s) \<Longrightarrow>
    report_write s (s \<lparr>x_deferred_reports := x_deferred_reports s @ [r]\<rparr>)"
| clear_write: "report_write s (s \<lparr>x_deferred_reports := []\<rparr>)"

inductive intent_write :: "execution_snapshot \<Rightarrow> execution_snapshot \<Rightarrow> bool" where
  of_report: "report_write s t \<Longrightarrow> intent_write s t"
| next_write: "intent_write s (s \<lparr>x_next_id := x_next_id s + 1\<rparr>)"
| submit_write: "\<lbrakk>length (x_orders s) < max_orders (x_config s); mo_lifecycle m \<noteq> Filled; i = x_next_id s; n > i;
    core t = core (s \<lparr>x_next_id := n, x_orders := bt_insert i m (x_orders s)\<rparr>)\<rbrakk> \<Longrightarrow> intent_write s t"
| retire_write: "\<lbrakk>bt_get (x_orders s) i = Some m; is_terminal (mo_lifecycle m)\<rbrakk> \<Longrightarrow> intent_write s (forget_order i m s)"
| kill_write: "intent_write s (s \<lparr>x_kill_switch_active := True\<rparr>)"
| intent_record_write: "\<not> window_has (intent_window s) i \<Longrightarrow> intent_write s (record_intent i s)"

inductive reconcile_write :: "execution_snapshot \<Rightarrow> execution_snapshot \<Rightarrow> bool" where
  of_intent: "intent_write s t \<Longrightarrow> reconcile_write s t"
| adopt_write: "\<lbrakk>mo_lifecycle m \<noteq> Filled; i = x_next_id s;
    core t = core (s \<lparr>x_next_id := i + 1, x_orders := bt_insert i m (x_orders s)\<rparr>)\<rbrakk> \<Longrightarrow> reconcile_write s t"
| external_write: "\<lbrakk>bt_get (x_orders s) i = Some m; mo_lifecycle m' \<noteq> Filled\<rbrakk> \<Longrightarrow>
    reconcile_write s (s \<lparr>x_orders := bt_insert i m' (x_orders s)\<rparr>)"
| positions_write: "core t = core (s \<lparr>x_positions := ps\<rparr>) \<Longrightarrow> reconcile_write s t"

interpretation by_report: exec_relation "report_write\<^sup>*\<^sup>*"
  by unfold_locales auto

interpretation by_intent: exec_relation "intent_write\<^sup>*\<^sup>*"
  by unfold_locales auto

interpretation by_reconcile: exec_relation "reconcile_write\<^sup>*\<^sup>*"
  by unfold_locales auto

lemma moves_mono: "moves R m s \<Longrightarrow> (\<And>s t. R s t \<Longrightarrow> R' s t) \<Longrightarrow> moves R' m s"
  by (simp add: moves_def)

lemma report_intent: "report_write\<^sup>*\<^sup>* s t \<Longrightarrow> intent_write\<^sup>*\<^sup>* s t"
  by (rule rtranclp_mono [THEN predicate2D]) (auto intro: of_report)

lemma intent_reconcile: "intent_write\<^sup>*\<^sup>* s t \<Longrightarrow> reconcile_write\<^sup>*\<^sup>* s t"
  by (rule rtranclp_mono [THEN predicate2D]) (auto intro: of_intent)

subsection \<open>Reports are report writes\<close>

lemmas report_intros = by_report.moves_bind by_report.moves_pure by_report.moves_modify by_report.moves_if

lemma report_update:
  assumes "bt_get (x_orders (ex_state s)) i = Some m" "order_step m (f m)"
    "mo_filled_quantity (f m) = mo_filled_quantity m"
  shows "moves report_write\<^sup>*\<^sup>* (x_update_order i f) s"
  using assms by (intro by_report.moves_update_order) (auto intro: order_write)

lemma map_order_write:
  assumes "\<And>m. bt_get (x_orders s) i = Some m \<Longrightarrow> order_step m (f m) \<and> mo_filled_quantity (f m) = mo_filled_quantity m"
  shows "report_write\<^sup>*\<^sup>* s (map_order i f s)"
  using assms by (auto simp: map_order_def split: option.split intro!: order_write)

lemma quarantine_writes: "moves report_write\<^sup>*\<^sup>* (quarantine i r) s"
  unfolding quarantine_def
  by (intro report_intros map_order_write) (simp add: order_step_def managed_ok_def is_open_def)

lemma bind_venue_id_writes: "moves report_write\<^sup>*\<^sup>* (bind_venue_id i v) s"
  unfolding bind_venue_id_def
  by (cases v; simp only: option.case; intro report_intros map_order_write)
    (auto simp: order_step_def managed_ok_def core_simps intro!: frame_write)

lemma order_step_lifecycle:
  assumes "is_open l \<longrightarrow> is_open (mo_lifecycle m)" "l \<noteq> Filled"
  shows "order_step m (set_lifecycle l m)" "order_step m (m \<lparr>mo_lifecycle := l\<rparr>)"
    "order_step m (m \<lparr>mo_lifecycle := l, mo_quarantine_reason := q\<rparr>)"
    "order_step m (m \<lparr>mo_lifecycle := l, mo_pending_replace := pr\<rparr>)"
  using assms by (auto simp: order_step_def managed_ok_def set_lifecycle_def)

lemma apply_replacement_step:
  assumes "mo_lifecycle m = PendingReplace"
  shows "order_step m (apply_replacement m)" "mo_filled_quantity (apply_replacement m) = mo_filled_quantity m"
  using assms
  by (auto simp: order_step_def managed_ok_def apply_replacement_def resting_lifecycle_def is_open_def is_terminal_def Let_def
      split: option.split)

lemma fill_step:
  assumes "mo_filled_quantity m \<le> c" "c \<le> do_quantity (mo_desired m)"
    "mo_lifecycle m \<notin> {Rejected, Quarantined}"
  shows "order_step m (m \<lparr>mo_filled_quantity := c, mo_average_fill_price := Some p,
    mo_lifecycle := filled_lifecycle c (do_quantity (mo_desired m)) (mo_lifecycle m)\<rparr>)"
  using assms by (auto simp: order_step_def managed_ok_def filled_lifecycle_def is_open_def is_terminal_def)

lemma apply_fill_report_writes:
  assumes m: "bt_get (x_orders (ex_state s)) i = Some m" and l: "l = mo_lifecycle m" "l \<notin> {Rejected, Quarantined}"
  shows "moves report_write\<^sup>*\<^sup>* (apply_fill_report i r l c p) s"
proof (cases "mo_filled_quantity m < c \<and> c \<le> do_quantity (mo_desired m)")
  case False
  consider "c < mo_filled_quantity m" | "c > do_quantity (mo_desired m)" "\<not> c < mo_filled_quantity m"
    | "c = mo_filled_quantity m" "c \<le> do_quantity (mo_desired m)"
    using False by linarith
  then show ?thesis
  proof cases
    case 2
    then show ?thesis
      using quarantine_writes [of i r s] m by (simp add: apply_fill_report_def moves_def x_bind_def Let_def)
  next
    case 3
    with fill_step [of m c p] m l have "moves report_write\<^sup>*\<^sup>* (x_update_order i (\<lambda>m'. m' \<lparr>mo_filled_quantity := c,
        mo_average_fill_price := Some p, mo_lifecycle := filled_lifecycle c (do_quantity (mo_desired m)) l\<rparr>)) s"
      by (intro report_update) auto
    with 3 m show ?thesis
      by (simp add: apply_fill_report_def moves_def x_bind_def Let_def i64_checked_sub_def checked_i64_def in_i64_0)
  qed (use m in \<open>simp add: apply_fill_report_def moves_def x_bind_def\<close>)
next
  case True
  let ?d = "mo_desired m" and ?k = "do_instrument_id (mo_desired m)"
  let ?m' = "m \<lparr>mo_filled_quantity := c, mo_average_fill_price := Some p, mo_lifecycle := filled_lifecycle c (do_quantity ?d) l\<rparr>"
  have step: "order_step m ?m'"
    using fill_step [of m c p] True l by simp
  show ?thesis
  proof (cases "i64_checked_sub c (mo_filled_quantity m)")
    case None
    with m True show ?thesis
      by (simp add: apply_fill_report_def moves_def x_bind_def Let_def)
  next
    case (Some delta)
    then have delta: "delta = c - mo_filled_quantity m"
      by (simp add: i64_checked_sub_Some)
    show ?thesis
    proof (cases "position_apply_fill (do_side ?d) delta p (position_of (ex_state s) ?k)")
      case (Inl e)
      with m True Some delta show ?thesis
        by (simp add: apply_fill_report_def moves_def x_bind_def Let_def x_position_fill_def entry_write r_into_rtranclp)
    next
      case (Inr q)
      with m step delta have "report_write (ex_state s) (ex_state s \<lparr>x_positions := (x_positions (ex_state s))(?k \<mapsto> q),
          x_orders := bt_insert i ?m' (x_orders (ex_state s))\<rparr>)"
        by (intro fill_write [where m = m and price = p]) simp_all
      with m True Some Inr delta show ?thesis
        by (simp add: apply_fill_report_def moves_def x_bind_def Let_def x_position_fill_def x_update_order_def map_order_def
            r_into_rtranclp)
    qed
  qed
qed

lemma apply_report_kind_writes:
  assumes "bt_get (x_orders (ex_state s)) i = Some m"
  shows "moves report_write\<^sup>*\<^sup>* (apply_report_kind i r (mo_lifecycle m)) s"
proof -
  note facts = report_update [OF assms] report_intros quarantine_writes apply_fill_report_writes [OF assms]
    order_step_lifecycle apply_replacement_step
  show ?thesis
    unfolding apply_report_kind_def
    by (cases "vr_kind r")
      (auto intro!: facts simp: is_open_def is_terminal_def set_lifecycle_def resting_lifecycle_def split: if_splits)
qed

lemma apply_resolved_report_writes: "moves report_write\<^sup>*\<^sup>* (apply_resolved_report i r) s"
  unfolding apply_resolved_report_def
  by (intro report_intros bind_venue_id_writes) (auto simp: ok_or_Ok_iff intro: apply_report_kind_writes)

lemma apply_report_once_writes: "moves report_write\<^sup>*\<^sup>* (apply_report_once r) s"
proof (cases "window_has (report_window (ex_state s)) (vr_report_id r)")
  case True
  then show ?thesis
    by (simp add: apply_report_once_def moves_def x_bind_def)
next
  case False
  show ?thesis
  proof (cases "resolve_report (ex_state s) r")
    case None
    with False show ?thesis
      by (auto simp: apply_report_once_def moves_def x_bind_def defer_report_def
          intro!: r_into_rtranclp [where r = report_write] defer_write)
  next
    case (Some i)
    have "moves report_write\<^sup>*\<^sup>* (x_bind (apply_resolved_report i r) (\<lambda>_. x_bind (x_modify (record_report r)) (\<lambda>_.
        x_return (vr_kind r = ReportAccepted \<or> vr_kind r = ReportReplaced)))) s"
    proof (intro report_intros apply_resolved_report_writes)
      fix v s' assume "apply_resolved_report i r s = (Ok v, s')"
      with apply_resolved_report_intake [of i r s] have "report_window (ex_state s') = report_window (ex_state s)"
        by (simp add: moves_def same_intake_def)
      with False show "report_write\<^sup>*\<^sup>* (ex_state s') (record_report r (ex_state s'))"
        by (simp add: record_write r_into_rtranclp)
    qed
    with False Some show ?thesis
      by (simp add: apply_report_once_def moves_def x_bind_def)
  qed
qed

lemma apply_reports_writes: "moves report_write\<^sup>*\<^sup>* (apply_reports rs) s"
proof (induction rs s rule: apply_reports.induct)
  case (2 r rs s)
  obtain res s1 where once: "apply_report_once r s = (res, s1)"
    by fastforce
  have first: "report_write\<^sup>*\<^sup>* (ex_state s) (ex_state s1)"
    using apply_report_once_writes [of r s] once by (simp add: moves_def)
  show ?case
  proof (cases res)
    case (Inr retry)
    have cleared: "report_write\<^sup>*\<^sup>* (ex_state s1) (ex_state (clear_deferred s1))"
      by (auto simp: clear_deferred_def intro: clear_write)
    obtain v s2 where second: "(if retry then apply_reports (x_deferred_reports (ex_state s1)) (clear_deferred s1)
        else (Ok (), s1)) = (v, s2)"
      by fastforce
    have "report_write\<^sup>*\<^sup>* (ex_state s1) (ex_state s2)"
      using 2(1) [OF once [symmetric] Inr] second cleared
      by (cases retry) (auto simp: moves_def dest: rtranclp_trans)
    with first have "report_write\<^sup>*\<^sup>* (ex_state s) (ex_state s2)"
      by (rule rtranclp_trans)
    with 2(2) [OF once [symmetric] Inr second [symmetric]] once Inr second show ?thesis
      by (cases v) (auto simp: moves_def apply_reports.simps(2) dest: rtranclp_trans)
  qed (use once first in \<open>simp add: moves_def apply_reports.simps(2)\<close>)
qed (simp add: moves_def)

lemma apply_reports_deferred_count: "deferred_count (snd (apply_reports rs s)) \<le> length rs + deferred_count s"
proof (induction rs s rule: apply_reports.induct)
  case (2 r rs s)
  then show ?case
    using apply_report_once_deferred [of r s]
    by (fastforce simp: apply_reports.simps(2) clear_deferred_def split: prod.splits sum.splits if_splits)
qed simp

lemma apply_venue_report_writes: "moves report_write\<^sup>*\<^sup>* (apply_venue_report r) s"
  by (simp add: apply_venue_report_def apply_reports_writes)

lemma retry_deferred_writes: "moves report_write\<^sup>*\<^sup>* retry_deferred s"
proof -
  have "report_write\<^sup>*\<^sup>* (ex_state s) (ex_state (clear_deferred s))"
    by (auto simp: clear_deferred_def intro: clear_write)
  then show ?thesis
    using apply_reports_writes [of "x_deferred_reports (ex_state s)" "clear_deferred s"]
    by (auto simp: moves_def retry_deferred_def)
qed

subsection \<open>Intents are intent writes\<close>

lemmas intent_intros = by_intent.moves_bind by_intent.moves_pure by_intent.moves_modify by_intent.moves_if

lemmas of_reports = report_intent [OF r_into_rtranclp]

lemma x_next_Ok_iff:
  "x_next s = (Ok i, s') \<longleftrightarrow> i = x_next_id (ex_state s) \<and> i + 1 < 2 ^ 128
     \<and> s' = s \<lparr>ex_state := ex_state s \<lparr>x_next_id := i + 1\<rparr>\<rparr>"
  by (auto simp: x_next_def Let_def)

lemma x_next_writes: "moves intent_write\<^sup>*\<^sup>* x_next s"
  using next_write [of "ex_state s"] by (simp add: moves_def x_next_def Let_def r_into_rtranclp)

lemma intent_update:
  assumes "bt_get (x_orders (ex_state s)) i = Some m" "order_step m (f m)"
    "mo_filled_quantity (f m) = mo_filled_quantity m"
  shows "moves intent_write\<^sup>*\<^sup>* (x_update_order i f) s"
  using report_update [of s i m f] assms by (blast intro: moves_mono report_intent)

lemma find_get:
  assumes "bt_wf t" "find P t = Some (i, m)"
  shows "bt_get t i = Some m" "P (i, m)"
  using assms by (auto simp: find_Some_iff bt_get_mem in_set_conv_nth)

lemma forget_order_orders [simp]: "x_orders (forget_order i m s) = bt_remove i (x_orders s)"
  by (simp add: forget_order_def Let_def)

lemma forget_order_intake [simp]: "same_intake s (forget_order i m s)"
  by (simp add: forget_order_def Let_def same_intake_def report_window_def intent_window_def)

declare retire_terminal_orders.simps [simp del]

lemma retire_writes:
  assumes "bt_wf (x_orders s)"
  shows "intent_write\<^sup>*\<^sup>* s (snd (retire_terminal_orders s))
    \<and> (fst (retire_terminal_orders s) = Ok () \<longrightarrow>
        length (x_orders (snd (retire_terminal_orders s))) < max_orders (x_config (snd (retire_terminal_orders s))))"
  using assms
proof (induction s rule: retire_terminal_orders.induct)
  case (1 s)
  show ?case
  proof (cases "length (x_orders s) \<ge> max_orders (x_config s)")
    case True
    show ?thesis
    proof (cases "find (\<lambda>(_, m). is_terminal (mo_lifecycle m)) (x_orders s)")
      case None
      with True show ?thesis
        by (simp add: retire_terminal_orders.simps [of s])
    next
      case (Some e)
      obtain i m where e: "e = (i, m)"
        by fastforce
      from find_get [OF 1(2) Some [unfolded e]] have "intent_write s (forget_order i m s)"
        by (intro retire_write) auto
      with 1 True Some e show ?thesis
        by (auto simp: retire_terminal_orders.simps [of s] intro: converse_rtranclp_into_rtranclp)
    qed
  qed (simp add: retire_terminal_orders.simps [of s])
qed

lemma submit_effect:
  assumes "length (x_orders (ex_state s)) < max_orders (x_config (ex_state s))"
  shows "moves intent_write\<^sup>*\<^sup>* (x_bind x_next (\<lambda>i. x_bind x_next (\<lambda>a. x_bind (x_push (ActionSubmit a i d)) (\<lambda>_.
       x_modify (\<lambda>s. s \<lparr>x_client_to_local := (x_client_to_local s)(do_client_order_id d \<mapsto> i),
         x_orders := bt_insert i (managed_new i d) (x_orders s)\<rparr>))))) s"
proof -
  let ?s = "ex_state s" and ?n = "x_next_id (ex_state s)"
  have one: "intent_write\<^sup>*\<^sup>* ?s (?s \<lparr>x_next_id := ?n + 1\<rparr>)"
    by (intro r_into_rtranclp next_write)
  have "intent_write (?s \<lparr>x_next_id := ?n + 1\<rparr>) (?s \<lparr>x_next_id := ?n + 1\<rparr> \<lparr>x_next_id := x_next_id (?s \<lparr>x_next_id := ?n + 1\<rparr>) + 1\<rparr>)"
    by (rule next_write)
  with one have two: "intent_write\<^sup>*\<^sup>* ?s (?s \<lparr>x_next_id := ?n + 2\<rparr>)"
    by simp
  have "intent_write\<^sup>*\<^sup>* ?s (?s \<lparr>x_next_id := ?n + 2,
      x_client_to_local := (x_client_to_local ?s)(do_client_order_id d \<mapsto> ?n),
      x_orders := bt_insert ?n (managed_new ?n d) (x_orders ?s)\<rparr>)"
    using assms by (intro r_into_rtranclp [where r = intent_write] submit_write [where m = "managed_new ?n d"])
      (auto simp: managed_new_def core_simps)
  with one two show ?thesis
    by (auto simp: moves_def x_bind_def x_next_def x_push_def Let_def)
qed

lemma intent_submit_writes:
  assumes "bt_wf (x_orders (ex_state s))"
  shows "moves intent_write\<^sup>*\<^sup>* (intent_submit d) s"
proof -
  have retire: "moves intent_write\<^sup>*\<^sup>* x_retire s"
    using retire_writes [OF assms] by (auto simp: moves_def x_retire_def split: prod.splits)
  have room: "length (x_orders (ex_state s')) < max_orders (x_config (ex_state s'))" if "x_retire s = (Ok w, s')" for w s'
    using that retire_writes [OF assms] by (auto simp: x_retire_def split: prod.splits)
  show ?thesis
    unfolding intent_submit_def by (intro submit_effect intent_intros) (auto simp: retire room)
qed

lemma x_client_order_Ok:
  "x_client_order c s = (Ok (i, m), s') \<longleftrightarrow>
     x_client_to_local (ex_state s) c = Some i \<and> bt_get (x_orders (ex_state s)) i = Some m \<and> s' = s"
  by (auto simp: x_client_order_def x_bind_Ok_iff ok_or_Ok_iff)

lemma client_order_writes:
  assumes "\<And>i m. bt_get (x_orders (ex_state s)) i = Some m \<Longrightarrow> moves intent_write\<^sup>*\<^sup>* (k (i, m)) s"
  shows "moves intent_write\<^sup>*\<^sup>* (x_bind (x_client_order c) k) s"
proof (intro intent_intros)
  show "moves intent_write\<^sup>*\<^sup>* (x_client_order c) s"
    unfolding x_client_order_def by (intro intent_intros)
qed (use assms in \<open>auto simp: x_client_order_Ok\<close>)

lemma x_push_Ok: "x_push a s = (Ok v, s') \<Longrightarrow> ex_state s' = ex_state s"
  by (metis x_push_state snd_conv)

lemma intent_cancel_writes: "moves intent_write\<^sup>*\<^sup>* (intent_cancel c) s"
  unfolding intent_cancel_def
  by (intro client_order_writes intent_intros; simp only: prod.case; intro intent_intros x_next_writes)
    (auto dest!: x_push_Ok simp: x_next_Ok_iff set_lifecycle_def is_open_def is_terminal_def
      intro!: intent_update order_step_lifecycle)

lemma intent_replace_writes: "moves intent_write\<^sup>*\<^sup>* (intent_replace c q k) s"
  unfolding intent_replace_def
  by (intro client_order_writes intent_intros; simp only: prod.case; intro intent_intros x_next_writes)
    (auto dest!: x_push_Ok simp: x_next_Ok_iff is_open_def is_terminal_def
      intro!: intent_update order_step_lifecycle)

lemma intent_query_writes: "moves intent_write\<^sup>*\<^sup>* (intent_query i) s"
  unfolding intent_query_def by (intro intent_intros x_next_writes)

lemma cancel_each_writes:
  assumes "\<And>i v m. (i, v) \<in> set xs \<Longrightarrow> bt_get (x_orders (ex_state s)) i = Some m \<Longrightarrow> is_open (mo_lifecycle m)"
  shows "moves intent_write\<^sup>*\<^sup>* (cancel_each xs) s"
  using assms
proof (induction xs arbitrary: s rule: cancel_each.induct)
  case (2 i v rest)
  show ?case
    unfolding cancel_each.simps
  proof (intro intent_intros x_next_writes)
    fix a s1 u s2 assume "x_next s = (Ok a, s1)" "x_push (ActionCancel a i v) s1 = (Ok u, s2)"
    then have same: "x_orders (ex_state s2) = x_orders (ex_state s)"
      by (auto simp: x_next_Ok_iff dest!: x_push_Ok)
    have open_i: "is_open (mo_lifecycle m)" if "bt_get (x_orders (ex_state s)) i = Some m" for m
      using 2(2) that by force
    have "report_write\<^sup>*\<^sup>* (ex_state s2) (map_order i (set_lifecycle PendingCancel) (ex_state s2))"
      by (intro map_order_write) (use same open_i in \<open>auto intro!: order_step_lifecycle simp: set_lifecycle_def\<close>)
    then show "intent_write\<^sup>*\<^sup>* (ex_state s2) (map_order i (set_lifecycle PendingCancel) (ex_state s2))"
      by (rule report_intent)
    fix w s3 assume s3: "x_modify (map_order i (set_lifecycle PendingCancel)) s2 = (Ok w, s3)"
    show "moves intent_write\<^sup>*\<^sup>* (cancel_each rest) s3"
    proof (rule 2(1))
      fix j v' m assume "(j, v') \<in> set rest" "bt_get (x_orders (ex_state s3)) j = Some m"
      with s3 same 2(2) [of j v'] show "is_open (mo_lifecycle m)"
        by (auto simp: map_order_def set_lifecycle_def is_open_def is_terminal_def split: option.splits if_splits)
    qed
  qed
qed (simp add: by_intent.moves_pure)

lemma open_orders_open:
  assumes "bt_wf (x_orders s)" "(i, v) \<in> set (open_orders s)" "bt_get (x_orders s) i = Some m"
  shows "is_open (mo_lifecycle m)"
  using assms by (auto simp: open_orders_def simp flip: bt_get_mem [OF assms(1)])

lemma intent_kill_switch_writes:
  assumes "bt_wf (x_orders (ex_state s))"
  shows "moves intent_write\<^sup>*\<^sup>* intent_kill_switch s"
  unfolding intent_kill_switch_def
  by (intro intent_intros cancel_each_writes)
    (use assms in \<open>auto intro: kill_write dest!: open_orders_open [rotated -1]\<close>)

lemma intent_body_writes:
  assumes "bt_wf (x_orders (ex_state s))"
  shows "moves intent_write\<^sup>*\<^sup>* (intent_body intent) s"
  using assms by (cases intent)
    (simp_all add: intent_submit_writes intent_cancel_writes intent_replace_writes intent_query_writes intent_kill_switch_writes)

subsubsection \<open>Intents leave the windows alone\<close>

lemma x_next_intake: "moves same_intake x_next s"
  by (simp add: moves_def x_next_def Let_def same_intake_def report_window_def intent_window_def)

lemma x_retire_intake: "moves same_intake x_retire s"
proof -
  have "same_intake t (snd (retire_terminal_orders t))" for t
  proof (induction t rule: retire_terminal_orders.induct)
    case (1 t)
    show ?case
    proof (cases "max_orders (x_config t) \<le> length (x_orders t) \<and>
        find (\<lambda>(_, m). is_terminal (mo_lifecycle m)) (x_orders t) \<noteq> None")
      case True
      then obtain i m where found: "find (\<lambda>(_, m). is_terminal (mo_lifecycle m)) (x_orders t) = Some (i, m)"
        by auto
      from 1 [OF conjunct1 [OF True] found refl] True found show ?thesis
        by (simp add: retire_terminal_orders.simps [of t] intake.R_trans [OF forget_order_intake])
    qed (auto simp: retire_terminal_orders.simps [of t] intake.R_refl split: option.split)
  qed
  then show ?thesis
    by (simp add: moves_def x_retire_def split: prod.splits) (metis snd_conv)
qed

lemma cancel_each_intake: "moves same_intake (cancel_each xs) s"
  by (induction xs arbitrary: s rule: cancel_each.induct; simp only: cancel_each.simps)
    (intro intake_intros x_next_intake same_intake_map_order; assumption)+

lemma intent_body_intake: "moves same_intake (intent_body intent) s"
  by (cases intent; simp only: intent_body.simps intent_submit_def intent_cancel_def intent_replace_def intent_query_def
      intent_kill_switch_def x_client_order_def case_prod_unfold;
      intro intake_intros x_next_intake x_retire_intake cancel_each_intake)
    (simp_all add: same_intake_def report_window_def intent_window_def)

lemma submit_intent_writes:
  assumes "bt_wf (x_orders (ex_state s))"
  shows "moves intent_write\<^sup>*\<^sup>* (submit_intent intent) s"
proof (cases "window_has (intent_window (ex_state s)) (intent_id intent)")
  case False
  have "moves intent_write\<^sup>*\<^sup>* (x_bind (intent_body intent) (\<lambda>_. x_modify (record_intent (intent_id intent)))) s"
  proof (intro intent_intros intent_body_writes assms)
    fix v s' assume "intent_body intent s = (Ok v, s')"
    with intent_body_intake [of intent s] have "intent_window (ex_state s') = intent_window (ex_state s)"
      by (simp add: moves_def same_intake_def)
    with False show "intent_write\<^sup>*\<^sup>* (ex_state s') (record_intent (intent_id intent) (ex_state s'))"
      by (simp add: intent_record_write r_into_rtranclp)
  qed
  with False show ?thesis
    by (simp add: submit_intent_def moves_def x_bind_def)
qed (simp add: submit_intent_def moves_def x_bind_def)

subsection \<open>Reconciliation\<close>

lemmas reconcile_intros = by_reconcile.moves_bind by_reconcile.moves_pure by_reconcile.moves_modify by_reconcile.moves_if

lemma x_next_reconcile: "moves reconcile_write\<^sup>*\<^sup>* x_next s"
  using x_next_writes by (rule moves_mono) (rule intent_reconcile)

lemma bind_venue_id_reconcile: "moves reconcile_write\<^sup>*\<^sup>* (bind_venue_id i v) s"
  using bind_venue_id_writes by (rule moves_mono) (intro intent_reconcile report_intent)

lemma retry_deferred_reconcile: "moves reconcile_write\<^sup>*\<^sup>* retry_deferred s"
  using retry_deferred_writes by (rule moves_mono) (intro intent_reconcile report_intent)

lemma adopt_external_writes: "moves reconcile_write\<^sup>*\<^sup>* (adopt_external e) s"
proof -
  let ?s = "ex_state s" and ?n = "x_next_id (ex_state s)"
  have "reconcile_write\<^sup>*\<^sup>* ?s (?s \<lparr>x_next_id := ?n + 1,
      x_client_to_local := (x_client_to_local ?s)(c \<mapsto> ?n),
      x_orders := bt_insert ?n (discovered_order ?n c e) (x_orders ?s)\<rparr>)" for c
    by (intro r_into_rtranclp [where r = reconcile_write] adopt_write [where m = "discovered_order ?n c e"])
      (auto simp: discovered_order_def core_simps)
  then show ?thesis
    by (auto simp: adopt_external_def Let_def moves_def x_bind_def x_next_def split: option.split)
qed

lemma reconcile_orders_writes: "moves reconcile_write\<^sup>*\<^sup>* (reconcile_orders es observed) s"
proof (induction es arbitrary: observed s)
  case (Cons e es)
  have "reconcile_write\<^sup>*\<^sup>* t (map_order i (external_state q) t)" for t i q
    by (auto simp: map_order_def external_state_def Let_def split: option.split intro!: external_write)
  with Cons show ?case
    by (auto intro!: reconcile_intros adopt_external_writes bind_venue_id_reconcile)
qed (simp add: by_reconcile.moves_pure)

lemma query_each_writes: "moves reconcile_write\<^sup>*\<^sup>* (query_each xs) s"
  by (induction xs arbitrary: s rule: query_each.induct; simp only: query_each.simps)
    (intro reconcile_intros x_next_reconcile; assumption)+

lemma reconcile_writes: "moves reconcile_write\<^sup>*\<^sup>* (reconcile v) s"
  unfolding reconcile_def
  by (intro reconcile_intros reconcile_orders_writes query_each_writes retry_deferred_reconcile
      r_into_rtranclp [where r = reconcile_write] positions_write [where ps = "authoritative_positions (av_positions v)"])
    (simp add: core_simps)

subsection \<open>The invariant\<close>

definition window_ok :: "nat \<Rightarrow> nat btree_set \<times> nat option \<Rightarrow> bool" where
  "window_ok bound w \<longleftrightarrow> bs_wf (fst w) \<and> length (fst w) \<le> bound
     \<and> (\<forall>t. snd w = Some t \<longrightarrow> (\<forall>i\<in>set (fst w). t < i))"

definition exec_ok :: "execution_snapshot \<Rightarrow> bool" where
  "exec_ok s \<longleftrightarrow> bt_wf (x_orders s)
     \<and> (\<forall>i m. bt_get (x_orders s) i = Some m \<longrightarrow> i < x_next_id s \<and> managed_ok m)
     \<and> window_ok (max_seen_reports (x_config s)) (report_window s)
     \<and> window_ok (max_seen_reports (x_config s)) (intent_window s)
     \<and> length (x_deferred_reports s) \<le> max_deferred_reports (x_config s)
     \<and> x_version s = EXECUTION_SNAPSHOT_VERSION"

lemma exec_ok_new: "exec_ok (engine_new config)"
  by (simp add: exec_ok_def engine_new_def snapshot_empty_def window_ok_def report_window_def intent_window_def bs_wf_def)

lemma length_bs_insert: "bs_wf s \<Longrightarrow> length (bs_insert x s) = card (insert x (set s))"
proof -
  assume "bs_wf s"
  then have "distinct (bs_insert x s)"
    using bs_wf_insert [of s x] by (auto simp: bs_wf_def strict_sorted_iff)
  then show ?thesis
    by (metis distinct_card set_bs_insert)
qed

lemma window_insert_laws:
  assumes "window_ok bound w" "\<not> window_has w i"
  shows "window_ok bound (window_insert bound i w)"
    and "window_has w j \<or> j = i \<Longrightarrow> window_has (window_insert bound i w) j"
proof -
  let ?seen = "bs_insert i (fst w)"
  have wf: "bs_wf ?seen"
    using assms by (simp add: window_ok_def)
  have above: "t < k" if "snd w = Some t" "k \<in> set ?seen" for t k
    using assms that by (auto simp: window_ok_def window_has_def)
  have "length ?seen \<le> Suc (length (fst w))"
    using assms(1) card_length [of "fst w"] by (simp add: window_ok_def length_bs_insert card_insert_if)
  then have short: "length ?seen \<le> Suc bound"
    using assms(1) by (simp add: window_ok_def)
  show "window_ok bound (window_insert bound i w)"
    using wf above short by (cases ?seen) (auto simp: window_insert_def Let_def window_ok_def bs_wf_def)
  assume j: "window_has w j \<or> j = i"
  obtain first rest where seen: "?seen = first # rest"
    by (cases ?seen) (use set_bs_insert [of i "fst w"] in auto)
  have "j \<in> set ?seen \<or> (\<exists>t. snd w = Some t \<and> j \<le> t)"
    using j by (auto simp: window_has_def split: option.splits)
  moreover have "j \<le> first" if "snd w = Some t" "j \<le> t" for t
    using above [OF that(1), of first] that seen by simp
  ultimately show "window_has (window_insert bound i w) j"
    using seen by (auto simp: window_insert_def Let_def window_has_def)
qed

subsection \<open>What a write keeps\<close>

text \<open>An order at this identifier is finished, quarantined, or no longer kept.\<close>

definition closed_at :: "execution_snapshot \<Rightarrow> nat \<Rightarrow> bool" where
  "closed_at s i \<longleftrightarrow> (\<forall>m. bt_get (x_orders s) i = Some m \<longrightarrow> \<not> is_open (mo_lifecycle m))"

definition advances :: "execution_snapshot \<Rightarrow> execution_snapshot \<Rightarrow> bool" where
  "advances s t \<longleftrightarrow> exec_ok t \<and> x_config t = x_config s \<and> x_next_id s \<le> x_next_id t
     \<and> (x_kill_switch_active s \<longrightarrow> x_kill_switch_active t)
     \<and> (\<forall>i. window_has (report_window s) i \<longrightarrow> window_has (report_window t) i)"

definition keeps_settled :: "execution_snapshot \<Rightarrow> execution_snapshot \<Rightarrow> bool" where
  "keeps_settled s t \<longleftrightarrow> (\<forall>i < x_next_id s. closed_at s i \<longrightarrow> closed_at t i)
     \<and> (length (x_orders s) \<le> max_orders (x_config s) \<longrightarrow> length (x_orders t) \<le> max_orders (x_config t))"

lemma core_eq_iff:
  "core t = core s \<longleftrightarrow> x_orders t = x_orders s \<and> x_positions t = x_positions s \<and> x_config t = x_config s
     \<and> x_next_id t = x_next_id s \<and> x_kill_switch_active t = x_kill_switch_active s
     \<and> report_window t = report_window s \<and> intent_window t = intent_window s
     \<and> x_deferred_reports t = x_deferred_reports s \<and> x_version t = x_version s"
  by (simp add: core_def)

lemma window_updates [simp]:
  "report_window (s \<lparr>x_orders := orders\<rparr>) = report_window s" "intent_window (s \<lparr>x_orders := orders\<rparr>) = intent_window s"
  "report_window (s \<lparr>x_positions := ps\<rparr>) = report_window s" "intent_window (s \<lparr>x_positions := ps\<rparr>) = intent_window s"
  "report_window (s \<lparr>x_deferred_reports := rs\<rparr>) = report_window s"
  "intent_window (s \<lparr>x_deferred_reports := rs\<rparr>) = intent_window s"
  "report_window (s \<lparr>x_next_id := n\<rparr>) = report_window s" "intent_window (s \<lparr>x_next_id := n\<rparr>) = intent_window s"
  "report_window (s \<lparr>x_kill_switch_active := b\<rparr>) = report_window s"
  "intent_window (s \<lparr>x_kill_switch_active := b\<rparr>) = intent_window s"
  "report_window (forget_order j m s) = report_window s" "intent_window (forget_order j m s) = intent_window s"
  "report_window (record_report r s) = window_insert (max_seen_reports (x_config s)) (vr_report_id r) (report_window s)"
  "intent_window (record_report r s) = intent_window s"
  "intent_window (record_intent i s) = window_insert (max_seen_reports (x_config s)) i (intent_window s)"
  "report_window (record_intent i s) = report_window s"
  by (simp_all add: report_window_def intent_window_def forget_order_def record_report_def record_intent_def Let_def)

lemma record_updates [simp]:
  "x_orders (record_report r s) = x_orders s" "x_config (record_report r s) = x_config s"
  "x_next_id (record_report r s) = x_next_id s" "x_kill_switch_active (record_report r s) = x_kill_switch_active s"
  "x_deferred_reports (record_report r s) = x_deferred_reports s" "x_version (record_report r s) = x_version s"
  "x_positions (record_report r s) = x_positions s"
  "x_orders (record_intent i s) = x_orders s" "x_config (record_intent i s) = x_config s"
  "x_next_id (record_intent i s) = x_next_id s" "x_kill_switch_active (record_intent i s) = x_kill_switch_active s"
  "x_deferred_reports (record_intent i s) = x_deferred_reports s" "x_version (record_intent i s) = x_version s"
  "x_config (forget_order j m s) = x_config s" "x_next_id (forget_order j m s) = x_next_id s"
  "x_kill_switch_active (forget_order j m s) = x_kill_switch_active s"
  "x_deferred_reports (forget_order j m s) = x_deferred_reports s" "x_version (forget_order j m s) = x_version s"
  by (simp_all add: record_report_def record_intent_def forget_order_def Let_def)

lemma report_write_advances:
  assumes "report_write s t" "exec_ok s"
  shows "advances s t \<and> keeps_settled s t \<and> x_next_id t = x_next_id s"
  using assms
proof cases
  case frame_write
  with assms(2) show ?thesis
    by (simp add: core_eq_iff advances_def exec_ok_def keeps_settled_def closed_at_def)
next
  case (order_write i m m')
  with assms(2) show ?thesis
    by (auto simp: advances_def exec_ok_def keeps_settled_def closed_at_def order_step_def bt_length_insert)
next
  case entry_write
  with assms(2) show ?thesis
    by (simp add: advances_def exec_ok_def keeps_settled_def closed_at_def)
next
  case (fill_write i m m' k price p)
  with assms(2) show ?thesis
    by (auto simp: advances_def exec_ok_def keeps_settled_def closed_at_def order_step_def bt_length_insert)
next
  case (record_write r)
  with assms(2) show ?thesis
    by (auto simp: advances_def exec_ok_def keeps_settled_def closed_at_def window_insert_laws)
qed (use assms(2) in \<open>auto simp: advances_def exec_ok_def keeps_settled_def closed_at_def\<close>)

lemma intent_write_advances:
  assumes "intent_write s t" "exec_ok s"
  shows "advances s t \<and> keeps_settled s t"
  using assms
proof cases
  case (submit_write m i n)
  then have "bt_get (x_orders s) i = None"
    using assms(2) by (cases "bt_get (x_orders s) i") (auto simp: exec_ok_def)
  with submit_write assms(2) show ?thesis
    by (auto simp: core_eq_iff advances_def exec_ok_def keeps_settled_def closed_at_def managed_ok_def bt_length_insert
        intro: less_trans)
next
  case (retire_write i m)
  with assms(2) show ?thesis
    by (auto simp: advances_def exec_ok_def keeps_settled_def closed_at_def bt_length_remove split: if_splits)
next
  case of_report
  with report_write_advances assms(2) show ?thesis
    by simp
next
  case (intent_record_write i)
  with assms(2) show ?thesis
    by (auto simp: advances_def exec_ok_def keeps_settled_def closed_at_def window_insert_laws)
qed (use assms(2) in \<open>auto simp: advances_def exec_ok_def keeps_settled_def closed_at_def intro: less_SucI\<close>)

lemma reconcile_write_advances:
  assumes "reconcile_write s t" "exec_ok s"
  shows "advances s t"
  using assms
proof cases
  case of_intent
  with intent_write_advances assms(2) show ?thesis
    by simp
next
  case (adopt_write m i)
  with assms(2) show ?thesis
    by (auto simp: core_eq_iff advances_def exec_ok_def managed_ok_def intro: less_SucI)
next
  case (external_write i m m')
  with assms(2) show ?thesis
    by (auto simp: advances_def exec_ok_def managed_ok_def)
next
  case (positions_write ps)
  with assms(2) show ?thesis
    by (simp add: core_eq_iff advances_def exec_ok_def)
qed

lemma report_writes_advance:
  assumes "report_write\<^sup>*\<^sup>* s t" "exec_ok s"
  shows "advances s t"
  using assms
proof (induction rule: converse_rtranclp_induct)
  case (step s u)
  with report_write_advances show ?case
    by (force simp: advances_def)
qed (simp add: advances_def)

lemma intent_writes_advance:
  assumes "intent_write\<^sup>*\<^sup>* s t" "exec_ok s"
  shows "advances s t \<and> keeps_settled s t"
  using assms
proof (induction rule: converse_rtranclp_induct)
  case (step s u)
  from intent_write_advances [OF step(1) step(4)] step(3) show ?case
    by (auto simp: advances_def keeps_settled_def)
qed (simp add: advances_def keeps_settled_def)

lemma reconcile_writes_advance:
  assumes "reconcile_write\<^sup>*\<^sup>* s t" "exec_ok s"
  shows "advances s t"
  using assms
proof (induction rule: converse_rtranclp_induct)
  case (step s u)
  with reconcile_write_advances show ?case
    by (force simp: advances_def)
qed (simp add: advances_def)

subsection \<open>Calls on the engine\<close>

text \<open>The calls of the trait \<open>ExecutionEngine\<close>, each with an output buffer of its own; a host may go on
  after an error, so a run continues from the state any call leaves.\<close>

datatype engine_event =
    OnIntent execution_intent
  | OnMarketData market_observation
  | OnReport venue_report
  | OnReconcile authoritative_venue_snapshot

fun engine_call :: "engine_event \<Rightarrow> unit exec_op" where
  "engine_call (OnIntent intent) = submit_intent intent"
| "engine_call (OnMarketData ob) = apply_market_data ob"
| "engine_call (OnReport r) = apply_venue_report r"
| "engine_call (OnReconcile v) = reconcile v"

definition engine_after :: "engine_event \<times> action_buffer \<Rightarrow> execution_snapshot \<Rightarrow> execution_snapshot" where
  "engine_after c s = ex_state (snd (engine_call (fst c) \<lparr>ex_state = s, ex_output = snd c\<rparr>))"

definition engine_run :: "(engine_event \<times> action_buffer) list \<Rightarrow> execution_snapshot \<Rightarrow> execution_snapshot" where
  "engine_run calls s = fold engine_after calls s"

definition reconciles :: "engine_event \<Rightarrow> bool" where
  "reconciles e \<longleftrightarrow> (case e of OnReconcile _ \<Rightarrow> True | _ \<Rightarrow> False)"

lemma apply_market_data_writes: "moves report_write\<^sup>*\<^sup>* (apply_market_data ob) s"
  unfolding apply_market_data_def
  by (intro report_intros r_into_rtranclp [where r = report_write] frame_write) (simp add: core_simps)

lemma call_advances: "exec_ok s \<Longrightarrow> advances s (engine_after c s)"
proof -
  assume ok: "exec_ok s"
  let ?x = "\<lparr>ex_state = s, ex_output = snd c\<rparr>"
  have wf: "bt_wf (x_orders (ex_state ?x))"
    using ok by (simp add: exec_ok_def)
  have "moves reconcile_write\<^sup>*\<^sup>* (engine_call (fst c)) ?x"
    using reconcile_writes [of _ ?x] moves_mono [OF submit_intent_writes [OF wf] intent_reconcile]
      moves_mono [OF apply_venue_report_writes [of _ ?x] intent_reconcile [OF report_intent]]
      moves_mono [OF apply_market_data_writes [of _ ?x] intent_reconcile [OF report_intent]]
    by (cases "fst c") auto
  with ok show ?thesis
    using reconcile_writes_advance by (auto simp: engine_after_def moves_def)
qed

lemma call_keeps_settled:
  assumes "exec_ok s" "\<not> reconciles (fst c)"
  shows "keeps_settled s (engine_after c s)"
proof -
  let ?x = "\<lparr>ex_state = s, ex_output = snd c\<rparr>"
  have wf: "bt_wf (x_orders (ex_state ?x))"
    using assms by (simp add: exec_ok_def)
  have "moves intent_write\<^sup>*\<^sup>* (engine_call (fst c)) ?x"
    using assms(2) submit_intent_writes [OF wf] moves_mono [OF apply_venue_report_writes [of _ ?x] report_intent]
      moves_mono [OF apply_market_data_writes [of _ ?x] report_intent]
    by (cases "fst c") (auto simp: reconciles_def)
  with assms(1) show ?thesis
    using intent_writes_advance by (auto simp: engine_after_def moves_def)
qed

lemma run_advances: "exec_ok s \<Longrightarrow> advances s (engine_run calls s)"
proof (induction calls arbitrary: s)
  case (Cons c calls)
  with call_advances [of s c] show ?case
    by (force simp: engine_run_def advances_def)
qed (simp add: engine_run_def advances_def)

lemma run_keeps_settled:
  assumes "exec_ok s" "\<forall>c\<in>set calls. \<not> reconciles (fst c)"
  shows "keeps_settled s (engine_run calls s)"
  using assms
proof (induction calls arbitrary: s)
  case (Cons c calls)
  with call_advances [of s c] call_keeps_settled [of s c] show ?case
    by (force simp: engine_run_def advances_def keeps_settled_def)
qed (simp add: engine_run_def keeps_settled_def)

lemma engine_run_ok: "exec_ok (engine_run calls (engine_new config))"
  "x_config (engine_run calls (engine_new config)) = config"
  using run_advances [OF exec_ok_new [of config], of calls] by (simp_all add: advances_def engine_new_def snapshot_empty_def)

lemma engine_run_append: "engine_run (xs @ ys) s = engine_run ys (engine_run xs s)"
  by (simp add: engine_run_def)

subsection \<open>Positions and fills\<close>

definition signed_fill :: "managed_order \<Rightarrow> int" where
  "signed_fill m = (case do_side (mo_desired m) of Buy \<Rightarrow> mo_filled_quantity m | Sell \<Rightarrow> - mo_filled_quantity m)"

definition filled_net :: "execution_snapshot \<Rightarrow> instrument_id \<Rightarrow> int" where
  "filled_net s k = (\<Sum>(i, m)\<leftarrow>x_orders s. if do_instrument_id (mo_desired m) = k then signed_fill m else 0)"

definition exposure :: "execution_snapshot \<Rightarrow> instrument_id \<Rightarrow> int" where
  "exposure s k = pp_quantity (position_of s k) - filled_net s k"

lemma position_apply_fill_quantity:
  assumes "position_apply_fill side q price p = Ok p'"
  shows "pp_quantity p' = pp_quantity p + (case side of Buy \<Rightarrow> q | Sell \<Rightarrow> - q)"
  using assms
  by (auto simp: position_apply_fill_def Let_def attempt_Ok_iff ok_or_Ok_iff i64_checked_add_Some checked_i64_Some_iff
      split: side.splits if_splits)

lemma filled_net_insert:
  assumes "bt_wf (x_orders s)" "bt_get (x_orders s) i = Some m" "x_orders t = bt_insert i m' (x_orders s)"
    "do_instrument_id (mo_desired m') = do_instrument_id (mo_desired m)"
  shows "filled_net t k = filled_net s k
    + (if do_instrument_id (mo_desired m) = k then signed_fill m' - signed_fill m else 0)"
  using assms bt.sum_ins [of "x_orders s" "\<lambda>_ m. if do_instrument_id (mo_desired m) = k then signed_fill m else 0" i m']
  by (simp add: filled_net_def)

lemma report_write_exposure:
  assumes "report_write s t" "bt_wf (x_orders s)"
  shows "exposure t k = exposure s k"
  using assms
proof cases
  case (order_write i m m')
  with assms(2) show ?thesis
    by (simp add: exposure_def position_of_def filled_net_insert [where i = i] order_step_def signed_fill_def
        split: side.split)
next
  case (fill_write i m m' k' price p)
  then have "pp_quantity p = pp_quantity (position_of s k') + (signed_fill m' - signed_fill m)"
    by (auto dest!: position_apply_fill_quantity simp: signed_fill_def order_step_def split: side.splits)
  moreover have "filled_net t k = filled_net s k + (if k' = k then signed_fill m' - signed_fill m else 0)"
    using fill_write assms(2) by (subst filled_net_insert [where i = i and m' = m']) (auto simp: order_step_def)
  moreover have "position_of t k = (if k' = k then p else position_of s k)"
    using fill_write by (simp add: position_of_def)
  ultimately show ?thesis
    by (simp add: exposure_def)
qed (auto simp: exposure_def core_eq_iff position_of_def filled_net_def)

lemma report_writes_exposure:
  assumes "report_write\<^sup>*\<^sup>* s t" "exec_ok s"
  shows "exposure t k = exposure s k"
  using assms
proof (induction rule: converse_rtranclp_induct)
  case (step s u)
  have "exec_ok u"
    using report_write_advances [OF step(1,4)] by (simp add: advances_def)
  with step report_write_exposure [OF step(1)] show ?case
    by (simp add: exec_ok_def)
qed simp

subsection \<open>The kill switch\<close>

lemma map_order_fields [simp]:
  "x_next_id (map_order i f s) = x_next_id s" "x_kill_switch_active (map_order i f s) = x_kill_switch_active s"
  "bt_get (x_orders (map_order i f s)) = (\<lambda>j. if j = i then map_option f (bt_get (x_orders s) i) else bt_get (x_orders s) j)"
  by (auto simp: map_order_def split: option.split)

lemma cancel_each_complete:
  assumes "length (ab_actions (ex_output s)) + length xs \<le> ab_limit (ex_output s)"
    "x_next_id (ex_state s) + length xs < 2 ^ 128"
  shows "\<exists>s'. cancel_each xs s = (Ok (), s')
    \<and> ab_actions (ex_output s') = ab_actions (ex_output s)
        @ map (\<lambda>(a, i, v). ActionCancel a i v) (enumerate (x_next_id (ex_state s)) xs)
    \<and> x_kill_switch_active (ex_state s') = x_kill_switch_active (ex_state s)
    \<and> (\<forall>i. bt_get (x_orders (ex_state s')) i = (if i \<in> fst ` set xs
          then map_option (set_lifecycle PendingCancel) (bt_get (x_orders (ex_state s)) i)
          else bt_get (x_orders (ex_state s)) i))"
  using assms
proof (induction xs arbitrary: s rule: cancel_each.induct)
  case (2 i v rest)
  let ?n = "x_next_id (ex_state s)"
  define s1 where "s1 = s \<lparr>ex_output := ex_output s \<lparr>ab_actions := ab_actions (ex_output s) @ [ActionCancel ?n i v]\<rparr>,
    ex_state := map_order i (set_lifecycle PendingCancel) (ex_state s \<lparr>x_next_id := ?n + 1\<rparr>)\<rparr>"
  have step: "cancel_each ((i, v) # rest) s = cancel_each rest s1"
    using 2(2,3) by (simp add: x_bind_def x_next_def x_push_def Let_def s1_def)
  have twice: "map_option (set_lifecycle l) (map_option (set_lifecycle l) x) = map_option (set_lifecycle l) x" for l x
    by (cases x) (simp_all add: set_lifecycle_def)
  obtain s' where "cancel_each rest s1 = (Ok (), s')"
    "ab_actions (ex_output s') = ab_actions (ex_output s1)
        @ map (\<lambda>(a, i, v). ActionCancel a i v) (enumerate (x_next_id (ex_state s1)) rest)"
    "x_kill_switch_active (ex_state s') = x_kill_switch_active (ex_state s1)"
    "\<forall>i. bt_get (x_orders (ex_state s')) i = (if i \<in> fst ` set rest
          then map_option (set_lifecycle PendingCancel) (bt_get (x_orders (ex_state s1)) i)
          else bt_get (x_orders (ex_state s1)) i)"
    using 2(1) [of s1] 2(2,3) by (auto simp: s1_def)
  then show ?case
    using step by (auto simp: s1_def twice)
qed simp

end
