(* ===== verification/Quarcc_Runs.thy ===== *)
theory Quarcc_Runs
  imports Quarcc_Laws
begin

text \<open>
  The properties of the execution engine, with the runs that witness them: settled orders stay
  settled, positions move with fills, a report counts once, the engine restores its own snapshots,
  the kill switch reaches every open order, and a refusal changes nothing; and what is lost when a
  deferred report fails or a discovered order trades.
\<close>

subsection \<open>A small run\<close>

definition trial_config :: execution_config where
  "trial_config = execution_config_default \<lparr>max_orders := 2\<rparr>"

definition trial_desired :: "nat \<Rightarrow> desired_order" where
  "trial_desired c = \<lparr>do_client_order_id = c, do_instrument_id = 7, do_participant_id = 1, do_side = Buy,
     do_quantity = 5, do_kind = Limit 100, do_anonymous = False\<rparr>"

definition trial_report :: "nat \<Rightarrow> venue_report_kind \<Rightarrow> venue_report" where
  "trial_report i kind = \<lparr>vr_report_id = i, vr_source_sequence = Some i, vr_client_order_id = Some 10,
     vr_local_order_id = None, vr_venue_order_id = Some ''v'', vr_leaves_quantity = None, vr_kind = kind\<rparr>"

definition trial_buffer :: action_buffer where
  "trial_buffer = \<lparr>ab_limit = 256, ab_actions = []\<rparr>"

definition trial_submit :: "engine_event \<times> action_buffer" where
  "trial_submit = (OnIntent (IntentSubmit 1 (trial_desired 10)), trial_buffer)"

definition trial_fill :: "engine_event \<times> action_buffer" where
  "trial_fill = (OnReport (trial_report 2 (ReportFill 5 5 100)), trial_buffer)"

definition trial_accept :: "engine_event \<times> action_buffer" where
  "trial_accept = (OnReport (trial_report 3 ReportAccepted), trial_buffer)"

lemmas trial_defs = trial_config_def trial_desired_def trial_report_def trial_buffer_def trial_submit_def trial_fill_def
  trial_accept_def execution_config_default_def engine_new_def snapshot_empty_def EXECUTION_SNAPSHOT_VERSION_def

lemmas call_defs = engine_run_def engine_after_def submit_intent_def intent_submit_def window_has_def window_insert_def
  intent_window_def report_window_def validate_submit_def open_count_def x_retire_def retire_terminal_orders.simps
  managed_new_def bt_insert_def bs_insert_def record_intent_def apply_venue_report_def apply_reports.simps
  apply_report_once_def resolve_report_def or_else_def apply_resolved_report_def bind_venue_id_def map_order_def
  apply_report_kind_def apply_fill_report_def x_position_fill_def position_of_def position_default_def
  position_apply_fill_def fill_average_def x_update_order_def filled_lifecycle_def record_report_def
  x_bind_def x_next_def x_push_def Let_def clear_deferred_def set_lifecycle_def is_open_def is_terminal_def
  i64_checked_sub_def i64_checked_add_def checked_i64_def checked_i128_def in_i64_def attempt_def ok_or_def

definition trial_submitted :: execution_snapshot where
  "trial_submitted = engine_run [trial_submit] (engine_new trial_config)"

lemma trial_submitted_value:
  "trial_submitted = (engine_new trial_config) \<lparr>x_next_id := 3, x_processed_intents := [1],
     x_orders := [(1, managed_new 1 (trial_desired 10))], x_client_to_local := [10 \<mapsto> 1]\<rparr>"
  by (simp add: trial_submitted_def trial_defs call_defs)

lemma calls_step: "engine_run (c # calls) s = engine_run calls (engine_after c s)"
  by (simp add: engine_run_def)

lemma calls_Nil: "engine_run [] s = s"
  by (simp add: engine_run_def)

definition trial_filled :: execution_snapshot where
  "trial_filled = engine_after trial_fill trial_submitted"

definition trial_filled_order :: managed_order where
  "trial_filled_order = (managed_new 1 (trial_desired 10)) \<lparr>mo_venue_order_id := Some ''v'', mo_lifecycle := Filled,
     mo_filled_quantity := 5, mo_average_fill_price := Some 100\<rparr>"

lemma trial_filled_value:
  "trial_filled = trial_submitted \<lparr>x_last_venue_sequence := 2, x_seen_reports := [2],
     x_orders := [(1, trial_filled_order)], x_venue_to_local := [''v'' \<mapsto> 1],
     x_positions := [7 \<mapsto> \<lparr>pp_quantity = 5, pp_average_price = Some 100, pp_realized_pnl = 0\<rparr>]\<rparr>"
  by (simp add: trial_filled_def trial_submitted_value trial_filled_order_def trial_defs call_defs)

lemma trial_accepted_order: "bt_get (x_orders (engine_after trial_accept trial_filled)) 1 = Some trial_filled_order"
  by (simp add: trial_filled_value trial_submitted_value trial_filled_order_def retry_deferred_def trial_defs call_defs)

subsection \<open>Orders\<close>

text \<open>
  C23. A finished or quarantined order never becomes open again through intents, venue reports,
  deferred reports or market data, whatever succeeds or fails on the way: only an authoritative
  reconciliation may reopen it. Local identifiers are not used twice, so the order found later at the
  identifier is the same one.
\<close>

theorem settled_orders_stay_settled:
  assumes "bt_get (x_orders (engine_run calls (engine_new config))) i = Some m" "\<not> is_open (mo_lifecycle m)"
    and "\<forall>c\<in>set later. \<not> reconciles (fst c)"
    and "bt_get (x_orders (engine_run (calls @ later) (engine_new config))) i = Some m'"
  shows "\<not> is_open (mo_lifecycle m')"
proof -
  let ?s = "engine_run calls (engine_new config)"
  have "i < x_next_id ?s" "closed_at ?s i"
    using engine_run_ok(1) [of calls config] assms(1,2) by (auto simp: exec_ok_def closed_at_def)
  then have "closed_at (engine_run later ?s) i"
    using run_keeps_settled [OF engine_run_ok(1) assms(3), of calls config] by (auto simp: keeps_settled_def)
  then show ?thesis
    using assms(4) by (simp add: closed_at_def engine_run_append)
qed

theorem settled_orders_stay_settled_witness:
  "\<not> is_open (mo_lifecycle (the (bt_get (x_orders (engine_run [trial_submit, trial_fill, trial_accept] (engine_new trial_config))) 1)))"
proof -
  have run: "engine_run [trial_submit, trial_fill] (engine_new trial_config) = trial_filled"
    "engine_run [trial_submit, trial_fill, trial_accept] (engine_new trial_config) = engine_after trial_accept trial_filled"
    by (simp_all add: calls_step calls_Nil trial_filled_def trial_submitted_def)
  have closed: "\<not> is_open (mo_lifecycle trial_filled_order)"
    and filled: "bt_get (x_orders (engine_run [trial_submit, trial_fill] (engine_new trial_config))) 1 = Some trial_filled_order"
    and calm: "\<forall>c\<in>set [trial_accept]. \<not> reconciles (fst c)"
    by (simp_all add: run trial_filled_value trial_filled_order_def is_open_def is_terminal_def reconciles_def trial_accept_def)
  have after: "bt_get (x_orders (engine_run ([trial_submit, trial_fill] @ [trial_accept]) (engine_new trial_config))) 1
      = Some trial_filled_order"
    using trial_accepted_order by (simp only: append.simps run)
  show ?thesis
    using settled_orders_stay_settled [OF filled closed calm after] after by (simp only: append.simps option.sel not_False_eq_True)
qed

text \<open>
  C24. Positions move exactly with the fills: whatever one venue report does, with the deferred reports
  it releases and whatever of them fails, each instrument's position changes by the signed filled
  quantities the orders gained.
\<close>

theorem positions_follow_fills:
  fixes calls config
  defines "s \<equiv> engine_run calls (engine_new config)"
  shows "pp_quantity (position_of (engine_after (OnReport r, buffer) s) k) - pp_quantity (position_of s k)
    = filled_net (engine_after (OnReport r, buffer) s) k - filled_net s k"
proof -
  have "report_write\<^sup>*\<^sup>* s (engine_after (OnReport r, buffer) s)"
    using apply_venue_report_writes [of r "\<lparr>ex_state = s, ex_output = buffer\<rparr>"]
    by (simp add: moves_def engine_after_def)
  from report_writes_exposure [OF this, of k] engine_run_ok(1) [of calls config] show ?thesis
    by (simp add: s_def exposure_def)
qed

text \<open>
  C25. A report counts once: when it has been applied, every later delivery of it, after whatever calls
  in between, is accepted and changes nothing.
\<close>

theorem report_counts_once:
  assumes "\<not> window_has (report_window (engine_run calls (engine_new config))) (vr_report_id r)"
    and "resolve_report (engine_run calls (engine_new config)) r = Some i"
    and "fst (apply_venue_report r \<lparr>ex_state = engine_run calls (engine_new config), ex_output = buffer\<rparr>) = Ok ()"
    and "ex_state x = engine_run (calls @ (OnReport r, buffer) # later) (engine_new config)"
  shows "apply_venue_report r x = (Ok (), x)"
proof -
  define s where "s = \<lparr>ex_state = engine_run calls (engine_new config), ex_output = buffer\<rparr>"
  have ok: "exec_ok (ex_state s)"
    by (simp add: s_def engine_run_ok)
  obtain retry s1 where once: "apply_report_once r s = (Ok retry, s1)"
    using assms(3) by (auto simp: apply_venue_report_retries s_def x_bind_def split: prod.splits sum.splits)
  then obtain t where t: "apply_resolved_report i r s = (Ok (), t)" "s1 = t \<lparr>ex_state := record_report r (ex_state t)\<rparr>"
    using assms(1,2) by (auto simp: apply_report_once_def x_bind_def s_def split: prod.splits sum.splits)
  have same: "report_window (ex_state t) = report_window (ex_state s)" "x_config (ex_state t) = x_config (ex_state s)"
    using apply_resolved_report_intake [of i r s] t(1) by (simp_all add: moves_def same_intake_def)
  have "window_has (report_window (ex_state s1)) (vr_report_id r)"
    using assms(1) ok t(2) same window_insert_laws(2)
    by (auto simp: exec_ok_def s_def)
  moreover have "exec_ok (ex_state s1)"
    using report_writes_advance [OF apply_report_once_writes [of r s, unfolded moves_def] ok] once
    by (simp add: advances_def)
  moreover have "report_write\<^sup>*\<^sup>* (ex_state s1) (ex_state (snd (apply_venue_report r s)))"
    using retry_deferred_writes [of s1] once
    by (auto simp: apply_venue_report_retries x_bind_def moves_def)
  ultimately have "window_has (report_window (engine_after (OnReport r, buffer) (ex_state s))) (vr_report_id r)"
    and "exec_ok (engine_after (OnReport r, buffer) (ex_state s))"
    using report_writes_advance by (auto simp: engine_after_def s_def advances_def)
  then have "window_has (report_window (ex_state x)) (vr_report_id r)"
    using run_advances assms(4) by (simp add: engine_run_append calls_step s_def advances_def)
  then show ?thesis
    by (simp add: apply_venue_report_retries x_bind_def apply_report_once_def)
qed

theorem report_counts_once_witness:
  "apply_venue_report (trial_report 2 (ReportFill 5 5 100)) \<lparr>ex_state = engine_after trial_accept trial_filled, ex_output = trial_buffer\<rparr>
    = (Ok (), \<lparr>ex_state = engine_after trial_accept trial_filled, ex_output = trial_buffer\<rparr>)"
proof (rule report_counts_once)
  show "\<not> window_has (report_window (engine_run [trial_submit] (engine_new trial_config))) (vr_report_id (trial_report 2 (ReportFill 5 5 100)))"
    by (simp add: trial_submitted_def [symmetric] trial_submitted_value trial_defs call_defs)
  show "resolve_report (engine_run [trial_submit] (engine_new trial_config)) (trial_report 2 (ReportFill 5 5 100)) = Some 1"
    by (simp add: trial_submitted_def [symmetric] trial_submitted_value trial_defs call_defs)
  show "fst (apply_venue_report (trial_report 2 (ReportFill 5 5 100))
      \<lparr>ex_state = engine_run [trial_submit] (engine_new trial_config), ex_output = trial_buffer\<rparr>) = Ok ()"
    by (simp add: trial_submitted_def [symmetric] trial_submitted_value trial_defs call_defs)
  show "ex_state \<lparr>ex_state = engine_after trial_accept trial_filled, ex_output = trial_buffer\<rparr>
      = engine_run ([trial_submit] @ (OnReport (trial_report 2 (ReportFill 5 5 100)), trial_buffer) # [trial_accept]) (engine_new trial_config)"
    by (simp add: calls_step calls_Nil trial_submitted_def trial_filled_def trial_fill_def)
qed

text \<open>
  C27. The engine restores its own snapshots: after any intents, reports and market data from a new
  engine, failed ones included, the snapshot is within the bounds that \<open>restore\<close> checks.
\<close>

theorem own_snapshot_restores:
  assumes "\<forall>c\<in>set calls. \<not> reconciles (fst c)"
  shows "engine_restore (engine_run calls (engine_new config)) = Ok (engine_run calls (engine_new config))"
  using run_keeps_settled [OF exec_ok_new assms, of config] engine_run_ok [of calls config]
  by (auto simp: keeps_settled_def engine_restore_def exec_ok_def window_ok_def report_window_def
      engine_new_def snapshot_empty_def)

theorem own_snapshot_restores_witness: "engine_restore trial_filled = Ok trial_filled"
  using own_snapshot_restores [of "[trial_submit, trial_fill]" trial_config]
  by (simp add: calls_step calls_Nil trial_filled_def trial_submitted_def reconciles_def trial_submit_def trial_fill_def)

subsection \<open>The kill switch and refusals\<close>

text \<open>
  C26. The kill switch reaches every open order: with room for one action per open order in the buffer
  and identifiers left, activating it succeeds, sends exactly one cancel for each open order, in their
  order and with consecutive action identifiers, and leaves every open order waiting for its cancel;
  from then on, after any calls, every new order is refused and nothing is changed.
\<close>

theorem kill_switch_reaches_every_order:
  fixes calls config
  defines "s \<equiv> engine_run calls (engine_new config)"
  assumes "\<not> window_has (intent_window s) a"
    and "length (open_orders s) \<le> ab_limit buffer" "ab_actions buffer = []" "x_next_id s + length (open_orders s) < 2 ^ 128"
  shows "\<exists>x. submit_intent (IntentActivateKillSwitch a) \<lparr>ex_state = s, ex_output = buffer\<rparr> = (Ok (), x)
    \<and> ab_actions (ex_output x) = map (\<lambda>(b, i, v). ActionCancel b i v) (enumerate (x_next_id s) (open_orders s))
    \<and> (\<forall>i m. bt_get (x_orders s) i = Some m \<longrightarrow> is_open (mo_lifecycle m) \<longrightarrow>
         bt_get (x_orders (ex_state x)) i = Some (set_lifecycle PendingCancel m))
    \<and> (\<forall>later out d. intent_submit d \<lparr>ex_state = engine_run later (ex_state x), ex_output = out\<rparr>
         = (Err KillSwitchActive, \<lparr>ex_state = engine_run later (ex_state x), ex_output = out\<rparr>))"
proof -
  let ?x = "\<lparr>ex_state = s \<lparr>x_kill_switch_active := True\<rparr>, ex_output = buffer\<rparr>"
  obtain x where x: "cancel_each (open_orders s) ?x = (Ok (), x)"
    "ab_actions (ex_output x) = map (\<lambda>(b, i, v). ActionCancel b i v) (enumerate (x_next_id s) (open_orders s))"
    "x_kill_switch_active (ex_state x)"
    "\<forall>i. bt_get (x_orders (ex_state x)) i = (if i \<in> fst ` set (open_orders s)
       then map_option (set_lifecycle PendingCancel) (bt_get (x_orders s) i) else bt_get (x_orders s) i)"
    using cancel_each_complete [of ?x "open_orders s"] assms by auto
  define y where "y = x \<lparr>ex_state := record_intent a (ex_state x)\<rparr>"
  have call: "submit_intent (IntentActivateKillSwitch a) \<lparr>ex_state = s, ex_output = buffer\<rparr> = (Ok (), y)"
    using x(1) assms(2) by (simp add: submit_intent_def x_bind_def intent_kill_switch_def y_def open_orders_def)
  have "exec_ok s"
    by (simp add: s_def engine_run_ok)
  then have "exec_ok (ex_state y)"
    using call call_advances [of s "(OnIntent (IntentActivateKillSwitch a), buffer)"] by (simp add: advances_def engine_after_def)
  then have "x_kill_switch_active (engine_run later (ex_state y))" for later
    using run_advances x(3) by (simp add: advances_def y_def)
  moreover have "i \<in> fst ` set (open_orders s)" if "bt_get (x_orders s) i = Some m" "is_open (mo_lifecycle m)" for i m
    using that \<open>exec_ok s\<close> by (force simp: exec_ok_def bt_get_mem open_orders_def)
  ultimately show ?thesis
    using call x(2,4) by (intro exI [of _ y]) (simp add: y_def intent_submit_def x_bind_def)
qed

theorem kill_switch_reaches_every_order_witness:
  "\<exists>x. submit_intent (IntentActivateKillSwitch 2) \<lparr>ex_state = trial_submitted, ex_output = trial_buffer\<rparr> = (Ok (), x)
    \<and> ab_actions (ex_output x) = [ActionCancel 3 1 None]"
proof -
  have "open_orders trial_submitted = [(1, None)]" "x_next_id trial_submitted = 3"
    "\<not> window_has (intent_window trial_submitted) 2"
    by (simp_all add: trial_submitted_value open_orders_def trial_defs call_defs)
  with kill_switch_reaches_every_order [of "[trial_submit]" trial_config 2 trial_buffer] show ?thesis
    unfolding trial_submitted_def [symmetric] by (auto simp: trial_buffer_def)
qed

lemma submit_refusal:
  assumes "fst (intent_submit d x) = Err e" "is_pre_trade_refusal e" "bt_wf (x_orders (ex_state x))"
    "length (x_orders (ex_state x)) \<le> max_orders (x_config (ex_state x))"
  shows "snd (intent_submit d x) = x"
proof -
  have "snd (x_retire x) = x" if "fst (x_retire x) = Err e'" for e'
  proof (cases "find (\<lambda>(_, m). is_terminal (mo_lifecycle m)) (x_orders (ex_state x))")
    case None
    then show ?thesis
      by (simp add: x_retire_def retire_terminal_orders.simps [of "ex_state x"])
  next
    case (Some p)
    obtain i m where p: "p = (i, m)"
      by fastforce
    with Some find_get [OF assms(3)] have "bt_get (x_orders (ex_state x)) i = Some m"
      by blast
    then have "length (bt_remove i (x_orders (ex_state x))) < length (x_orders (ex_state x))"
      using assms(3) by (cases "x_orders (ex_state x)") (auto simp: bt_length_remove)
    then have "length (bt_remove i (x_orders (ex_state x))) < max_orders (x_config (ex_state x))"
      using assms(4) by simp
    with Some p that show ?thesis
      by (simp add: x_retire_def retire_terminal_orders.simps [of "ex_state x"]
          retire_terminal_orders.simps [of "forget_order i m (ex_state x)"] split: if_splits)
  qed
  with assms(1,2) show ?thesis
    by (auto simp: intent_submit_def x_bind_def x_next_def x_push_def Let_def is_pre_trade_refusal_def
        split: prod.splits sum.splits if_splits)
qed

lemma cancel_each_errors: "fst (cancel_each xs x) = Err e \<Longrightarrow> \<not> is_pre_trade_refusal e"
proof (induction xs arbitrary: x rule: cancel_each.induct)
  case (2 i v rest)
  then show ?case
    by (auto simp: x_bind_def x_next_def x_push_def Let_def is_pre_trade_refusal_def split: if_splits)
qed simp

lemma other_refusals:
  assumes "fst (intent_body intent x) = Err e" "\<And>a d. intent \<noteq> IntentSubmit a d"
  shows "\<not> is_pre_trade_refusal e"
  using assms cancel_each_errors
  by (cases intent)
    (auto simp: intent_cancel_def intent_replace_def intent_query_def intent_kill_switch_def x_client_order_def
      x_update_order_def x_bind_def x_next_def x_push_def Let_def ok_or_def is_pre_trade_refusal_def
      split: if_splits option.splits)

text \<open>
  A pre-trade refusal leaves everything as it was: after any calls but reconciliations, an intent
  answered with the open-order limit, the position limit or the kill switch has sent nothing and
  changed no state.
\<close>

theorem refusal_changes_nothing:
  assumes "\<forall>c\<in>set calls. \<not> reconciles (fst c)"
    and "ex_state x = engine_run calls (engine_new config)"
    and "fst (submit_intent intent x) = Err e" "is_pre_trade_refusal e"
  shows "snd (submit_intent intent x) = x"
proof -
  have "bt_wf (x_orders (ex_state x))" "length (x_orders (ex_state x)) \<le> max_orders (x_config (ex_state x))"
    using run_keeps_settled [OF exec_ok_new assms(1), of config] engine_run_ok [of calls config] assms(2)
    by (auto simp: keeps_settled_def exec_ok_def engine_new_def snapshot_empty_def)
  note refusal = submit_refusal [OF _ assms(4) this]
  have submit: "fst (intent_body intent x) = Err e" "snd (submit_intent intent x) = snd (intent_body intent x)"
    using assms(3) by (auto simp: submit_intent_def x_bind_def split: prod.splits sum.splits if_splits)
  show ?thesis
  proof (cases intent)
    case (IntentSubmit a d)
    with refusal submit show ?thesis
      by simp
  qed (use submit assms(4) other_refusals [of intent x e] in auto)
qed

definition trial_other :: "engine_event \<times> action_buffer" where
  "trial_other = (OnIntent (IntentSubmit 2 (trial_desired 11)), trial_buffer)"

definition trial_full :: execution_snapshot where
  "trial_full = engine_run [trial_submit, trial_other] (engine_new trial_config)"

lemma trial_full_value:
  "trial_full = trial_submitted \<lparr>x_next_id := 5, x_processed_intents := [1, 2],
     x_orders := [(1, managed_new 1 (trial_desired 10)), (3, managed_new 3 (trial_desired 11))],
     x_client_to_local := [10 \<mapsto> 1, 11 \<mapsto> 3]\<rparr>"
  by (simp add: trial_full_def calls_step calls_Nil trial_submitted_def [unfolded calls_step calls_Nil, symmetric])
    (simp add: trial_submitted_value trial_other_def trial_defs call_defs fun_upd_twist)

theorem refusal_changes_nothing_witness:
  "submit_intent (IntentSubmit 3 (trial_desired 12)) \<lparr>ex_state = trial_full, ex_output = trial_buffer\<rparr>
    = (Err OpenOrderLimit, \<lparr>ex_state = trial_full, ex_output = trial_buffer\<rparr>)"
proof -
  let ?x = "\<lparr>ex_state = trial_full, ex_output = trial_buffer\<rparr>"
  have refused: "fst (submit_intent (IntentSubmit 3 (trial_desired 12)) ?x) = Err OpenOrderLimit"
    by (simp add: trial_full_value trial_submitted_value trial_defs call_defs)
  have "snd (submit_intent (IntentSubmit 3 (trial_desired 12)) ?x) = ?x"
    by (rule refusal_changes_nothing [of "[trial_submit, trial_other]" _ trial_config, OF _ _ refused])
      (simp_all add: trial_full_def is_pre_trade_refusal_def reconciles_def trial_submit_def trial_other_def)
  with refused show ?thesis
    by (simp add: prod_eq_iff)
qed

subsection \<open>What is lost\<close>

text \<open>
  Deferred reports that are retried after one that fails are lost: \<open>retry_deferred\<close> has taken the whole
  list and stops at the first error, so at most the failing report itself is still deferred.
\<close>

theorem failed_retry_drops_the_rest:
  assumes "x_deferred_reports (ex_state x) = r # rs"
    and "apply_venue_report r (clear_deferred x) = (Err e, y)"
  shows "retry_deferred x = (Err e, y) \<and> length (x_deferred_reports (ex_state y)) \<le> 1"
proof -
  have "retry_deferred x = (Err e, y)"
    using assms by (simp add: retry_deferred_def apply_reports_Cons x_bind_def)
  then show ?thesis
    using apply_reports_deferred_count [of "[r]" "clear_deferred x"] assms(2)
    by (simp add: apply_venue_report_def clear_deferred_def)
qed

text \<open>
  An order that reconciliation discovered cannot trade: a fill addressed to it is an invalid
  transition, the order is quarantined and the position does not move.
\<close>

theorem discovered_order_fill_refused:
  assumes "\<not> window_has (report_window (ex_state x)) (vr_report_id r)" "vr_local_order_id r = Some i"
    and "bt_get (x_orders (ex_state x)) i = Some m" "mo_lifecycle m = ExternallyDiscovered"
    and "vr_venue_order_id r = None" "vr_kind r = ReportFill lots cumulative price"
  shows "\<exists>y. apply_venue_report r x = (Err (InvalidTransition (Some ExternallyDiscovered) (OfReport (vr_kind r))), y)
    \<and> map_option mo_lifecycle (bt_get (x_orders (ex_state y)) i) = Some Quarantined
    \<and> x_positions (ex_state y) = x_positions (ex_state x)"
  using assms
  by (auto simp: apply_venue_report_retries x_bind_def apply_report_once_def resolve_report_def or_else_def
      apply_resolved_report_def bind_venue_id_def apply_report_kind_def quarantine_def ok_or_def map_order_def)

text \<open>
  Quarantined orders are never forgotten: when they fill the order table, every new order is refused
  with the open-order limit although no order is open.
\<close>

theorem quarantined_orders_block_submission:
  assumes "\<forall>(i, m)\<in>set (x_orders (ex_state x)). mo_lifecycle m = Quarantined"
    and "length (x_orders (ex_state x)) = max_orders (x_config (ex_state x))"
    and "\<not> x_kill_switch_active (ex_state x)" "x_client_to_local (ex_state x) (do_client_order_id d) = None"
    and "validate_submit (x_config (ex_state x)) d 0 (x_positions (ex_state x) (do_instrument_id d)) = Ok ()"
  shows "open_count (ex_state x) = 0 \<and> intent_submit d x = (Err OpenOrderLimit, x)"
proof -
  have none: "open_count (ex_state x) = 0"
    using assms(1) by (auto simp: open_count_def is_open_def filter_empty_conv)
  have "find (\<lambda>(_, m). is_terminal (mo_lifecycle m)) (x_orders (ex_state x)) = None"
    using assms(1) by (auto simp: find_None_iff is_terminal_def)
  with assms none show ?thesis
    by (simp add: intent_submit_def x_bind_def x_retire_def retire_terminal_orders.simps [of "ex_state x"])
qed

subsubsection \<open>Witnesses\<close>

text \<open>Two reports arrive before their order is submitted; the first is for more than the order.\<close>

definition trial_early :: execution_snapshot where
  "trial_early = engine_run [(OnReport (trial_report 5 (ReportFill 9 9 100)), trial_buffer),
     (OnReport (trial_report 6 ReportCancelled), trial_buffer), trial_submit] (engine_new trial_config)"

lemma trial_early_value:
  "trial_early = trial_submitted \<lparr>x_deferred_reports := [trial_report 5 (ReportFill 9 9 100), trial_report 6 ReportCancelled]\<rparr>"
  by (simp add: trial_early_def trial_submitted_value trial_defs call_defs defer_report_def)

theorem failed_retry_drops_the_rest_witness:
  "length (x_deferred_reports trial_early) = 2
    \<and> length (x_deferred_reports (ex_state (snd (retry_deferred \<lparr>ex_state = trial_early, ex_output = trial_buffer\<rparr>)))) \<le> 1"
proof -
  let ?x = "\<lparr>ex_state = trial_early, ex_output = trial_buffer\<rparr>"
  have fails: "apply_venue_report (trial_report 5 (ReportFill 9 9 100)) (clear_deferred ?x)
    = (Err (InvalidTransition (Some PendingSubmit) (OfReport (ReportFill 9 9 100))),
       snd (apply_venue_report (trial_report 5 (ReportFill 9 9 100)) (clear_deferred ?x)))"
    by (simp add: trial_early_value trial_submitted_value trial_defs call_defs quarantine_def)
  have "x_deferred_reports (ex_state ?x) = [trial_report 5 (ReportFill 9 9 100), trial_report 6 ReportCancelled]"
    by (simp add: trial_early_value)
  from failed_retry_drops_the_rest [OF this fails] show ?thesis
    by (simp add: trial_early_value)
qed

text \<open>The venue reports an open order the engine does not know.\<close>

definition trial_discovered :: execution_snapshot where
  "trial_discovered = engine_run [(OnReconcile \<lparr>av_committed_sequence = 4, av_open_orders = [\<lparr>ao_client_order_id = None,
     ao_venue_order_id = ''w'', ao_order = trial_desired 30, ao_filled_quantity = 0\<rparr>], av_positions = []\<rparr>, trial_buffer)]
     (engine_new trial_config)"

lemma trial_discovered_order:
  "bt_get (x_orders trial_discovered) 1 = Some (discovered_order 1 30 \<lparr>ao_client_order_id = None,
     ao_venue_order_id = ''w'', ao_order = trial_desired 30, ao_filled_quantity = 0\<rparr>)"
  "x_seen_reports trial_discovered = []" "x_reports_seen_through trial_discovered = None"
  by (simp_all add: trial_discovered_def reconcile_def adopt_external_def external_state_def discovered_order_def
      retry_deferred_def open_orders_def trial_defs call_defs)

theorem discovered_order_fill_refused_witness:
  "\<exists>y. apply_venue_report (trial_report 8 (ReportFill 5 5 100) \<lparr>vr_local_order_id := Some 1, vr_venue_order_id := None\<rparr>)
      \<lparr>ex_state = trial_discovered, ex_output = trial_buffer\<rparr>
      = (Err (InvalidTransition (Some ExternallyDiscovered) (OfReport (ReportFill 5 5 100))), y)"
proof -
  let ?x = "\<lparr>ex_state = trial_discovered, ex_output = trial_buffer\<rparr>"
  let ?r = "trial_report 8 (ReportFill 5 5 100) \<lparr>vr_local_order_id := Some 1, vr_venue_order_id := None\<rparr>"
  obtain m where "bt_get (x_orders (ex_state ?x)) 1 = Some m" "mo_lifecycle m = ExternallyDiscovered"
    using trial_discovered_order(1) by (simp add: discovered_order_def)
  moreover have "\<not> window_has (report_window (ex_state ?x)) (vr_report_id ?r)"
    by (simp add: trial_discovered_order window_has_def report_window_def)
  ultimately obtain y where "apply_venue_report ?r ?x = (Err (InvalidTransition (Some ExternallyDiscovered) (OfReport (vr_kind ?r))), y)"
    using discovered_order_fill_refused [of ?x ?r 1 m 5 5 100] by (auto simp: trial_report_def)
  then show ?thesis
    by (auto simp: trial_report_def)
qed

text \<open>Both orders of a full table are quarantined by an unexpected replacement report.\<close>

definition trial_quarantined :: execution_snapshot where
  "trial_quarantined = engine_run [(OnReport (trial_report 5 ReportReplaced), trial_buffer),
     (OnReport (trial_report 6 ReportReplaced \<lparr>vr_client_order_id := Some 11, vr_venue_order_id := None\<rparr>), trial_buffer)] trial_full"

theorem quarantined_orders_block_submission_witness:
  "open_count trial_quarantined = 0
    \<and> fst (intent_submit (trial_desired 12) \<lparr>ex_state = trial_quarantined, ex_output = trial_buffer\<rparr>) = Err OpenOrderLimit"
  using quarantined_orders_block_submission [of "\<lparr>ex_state = trial_quarantined, ex_output = trial_buffer\<rparr>" "trial_desired 12"]
  by (simp add: trial_quarantined_def trial_full_value trial_submitted_value trial_defs call_defs quarantine_def)

end
