(* ===== verification/Quarcc_Adapter.thy ===== *)
theory Quarcc_Adapter
  imports Events Quarcc_Runs
begin

text \<open>
  The adapter between the venue and a participant's execution engine,
  \<open>src/packages/quarcc-bunting-adapter/src/lib.rs\<close>: actions become commands, committed events become
  normalized reports with cumulative fills. The composition with the execution engine keeps the two in
  step: after any fair events, every order of the engine has filled exactly what the venue executed for it.
\<close>

subsection \<open>Data\<close>

record command_context =
  cc_run_id :: run_id
  cc_actor :: participant_id
  cc_expected_sequence :: event_sequence
  cc_logical_time :: logical_time_ns
  cc_correlation_id :: correlation_id

datatype adapter_error = UnsupportedAction | ActorMismatch | AdapterOverflow

record execution_adapter =
  cumulative_fills :: "nat \<rightharpoonup> quantity_lots"
  order_quantities :: "nat \<rightharpoonup> quantity_lots"
  owned_orders :: "nat set"

definition adapter_default :: execution_adapter where
  "adapter_default = \<lparr>cumulative_fills = Map.empty, order_quantities = Map.empty, owned_orders = {}\<rparr>"

subsection \<open>Actions to commands\<close>

fun action_payload :: "participant_id \<Rightarrow> execution_action \<Rightarrow> (nat \<times> command_payload, adapter_error) result" where
  "action_payload actor (ActionSubmit a i d) =
     (if do_participant_id d \<noteq> actor then Err ActorMismatch
      else Ok (a, SubmitOrder \<lparr>so_order_id = i, so_instrument_id = do_instrument_id d,
        so_participant_id = do_participant_id d, so_side = do_side d, so_quantity = do_quantity d,
        so_kind = do_kind d, so_anonymous = do_anonymous d\<rparr>))"
| "action_payload actor (ActionCancel a i _) = Ok (a, CancelOrder \<lparr>cr_order_id = i, cr_participant_id = actor\<rparr>)"
| "action_payload _ (ActionReplace _ _ _ _ _) = Err UnsupportedAction"
| "action_payload _ (ActionQueryOrder _ _ _) = Err UnsupportedAction"
| "action_payload _ (ActionQueryOpenOrders _) = Err UnsupportedAction"

definition command_for_action :: "execution_action \<Rightarrow> command_context \<Rightarrow> (command, adapter_error) result" where
  "command_for_action action context =
     attempt (action_payload (cc_actor context) action) (\<lambda>(a, payload).
     Ok \<lparr>c_run_id = cc_run_id context, c_command_id = a, c_correlation_id = cc_correlation_id context,
         c_logical_time = cc_logical_time context, c_expected_sequence = cc_expected_sequence context,
         c_actor = cc_actor context, c_payload = payload\<rparr>)"

subsection \<open>Events to reports\<close>

text \<open>The derived \<open>Debug\<close> text of a reject code.\<close>

fun debug_code :: "reject_code \<Rightarrow> string" where
  "debug_code DuplicateOrderId = ''DuplicateOrderId''"
| "debug_code InvalidOrderId = ''InvalidOrderId''"
| "debug_code UnknownOrder = ''UnknownOrder''"
| "debug_code NotOrderOwner = ''NotOrderOwner''"
| "debug_code reject_code.KillSwitchActive = ''KillSwitchActive''"
| "debug_code RunNotActive = ''RunNotActive''"
| "debug_code ListingHalted = ''ListingHalted''"
| "debug_code ParticipantDisabled = ''ParticipantDisabled''"
| "debug_code reject_code.InvalidQuantity = ''InvalidQuantity''"
| "debug_code InvalidInstrument = ''InvalidInstrument''"
| "debug_code RejectPriceOutOfBounds = ''PriceOutOfBounds''"
| "debug_code MaxOrderQuantity = ''MaxOrderQuantity''"
| "debug_code MaxOpenOrderQuantity = ''MaxOpenOrderQuantity''"
| "debug_code MaxLiveOrders = ''MaxLiveOrders''"
| "debug_code reject_code.PositionLimit = ''PositionLimit''"
| "debug_code InsufficientCash = ''InsufficientCash''"
| "debug_code InsufficientInventory = ''InsufficientInventory''"
| "debug_code InsufficientLiquidity = ''InsufficientLiquidity''"
| "debug_code PostOnlyWouldCross = ''PostOnlyWouldCross''"
| "debug_code InvalidTimeInForce = ''InvalidTimeInForce''"
| "debug_code MarketClosed = ''MarketClosed''"
| "debug_code CallPhaseOrderType = ''CallPhaseOrderType''"
| "debug_code LogicalTimeRegression = ''LogicalTimeRegression''"
| "debug_code SequenceConflict = ''SequenceConflict''"
| "debug_code reject_code.ArithmeticOverflow = ''ArithmeticOverflow''"
| "debug_code PriceNotOnTick = ''PriceNotOnTick''"

definition traded_order :: "execution_adapter \<Rightarrow> order_id \<Rightarrow> order_id \<Rightarrow> nat option" where
  "traded_order a maker taker =
     (if maker \<in> owned_orders a then Some maker else if taker \<in> owned_orders a then Some taker else None)"

definition cumulative_of :: "execution_adapter \<Rightarrow> nat \<Rightarrow> quantity_lots" where
  "cumulative_of a i = (case cumulative_fills a i of Some q \<Rightarrow> q | None \<Rightarrow> 0)"

type_synonym 'a adapter_step = "('a, adapter_error) result \<times> execution_adapter"

fun event_kind :: "participant_id \<Rightarrow> event_payload \<Rightarrow> execution_adapter \<Rightarrow> (nat \<times> venue_report_kind) option adapter_step" where
  "event_kind actor (OrderReceived order _) a =
     (if so_participant_id order = actor then
        (Ok None, a \<lparr>owned_orders := insert (so_order_id order) (owned_orders a),
           order_quantities := (order_quantities a)(so_order_id order \<mapsto> so_quantity order)\<rparr>)
      else (Ok None, a))"
| "event_kind actor (OrderAccepted i) a = (Ok (if i \<in> owned_orders a then Some (i, ReportAccepted) else None), a)"
| "event_kind actor (OrderRejected (Some i) code) a =
     (Ok (if i \<in> owned_orders a then Some (i, ReportRejected (debug_code code)) else None), a)"
| "event_kind actor (OrderCanceled i p _ _ _ reason) a =
     (Ok (if p = actor then Some (i, if reason = cancel_reason.Expired then ReportExpired else ReportCancelled) else None), a)"
| "event_kind actor (TradeExecuted _ _ maker taker buyer seller price quantity _ _) a =
     (if buyer = actor \<or> seller = actor then
        (case traded_order a maker taker of
          None \<Rightarrow> (Ok None, a)
        | Some i \<Rightarrow>
            (case i64_checked_add (cumulative_of a i) quantity of
              None \<Rightarrow> (Err AdapterOverflow, a)
            | Some cumulative \<Rightarrow>
                (Ok (Some (i, ReportFill quantity cumulative price)),
                 a \<lparr>cumulative_fills := (cumulative_fills a)(i \<mapsto> cumulative)\<rparr>)))
      else (Ok None, a))"
| "event_kind _ _ a = (Ok None, a)"

fun report_leaves :: "execution_adapter \<Rightarrow> nat \<Rightarrow> venue_report_kind \<Rightarrow> (quantity_lots option, adapter_error) result" where
  "report_leaves a i (ReportFill _ cumulative _) =
     attempt (ok_or AdapterOverflow (order_quantities a i)) (\<lambda>whole.
     attempt (ok_or AdapterOverflow (i64_checked_sub whole cumulative)) (\<lambda>leaves. Ok (Some leaves)))"
| "report_leaves _ _ ReportCancelled = Ok (Some 0)"
| "report_leaves _ _ ReportExpired = Ok (Some 0)"
| "report_leaves _ _ _ = Ok None"

definition forget_finished :: "nat \<Rightarrow> venue_report_kind \<Rightarrow> quantity_lots option \<Rightarrow> execution_adapter \<Rightarrow> execution_adapter" where
  "forget_finished i kind leaves a =
     (if (case kind of ReportRejected _ \<Rightarrow> True | _ \<Rightarrow> False) \<or> leaves = Some 0 then
        a \<lparr>owned_orders := owned_orders a - {i}, order_quantities := (order_quantities a)(i := None),
           cumulative_fills := (cumulative_fills a)(i := None)\<rparr>
      else a)"

definition adapter_report :: "event_envelope \<Rightarrow> nat \<Rightarrow> venue_report_kind \<Rightarrow> quantity_lots option \<Rightarrow> venue_report" where
  "adapter_report e i kind leaves =
     \<lparr>vr_report_id = ev_event_id e, vr_source_sequence = Some (ev_sequence e), vr_client_order_id = None,
      vr_local_order_id = Some i, vr_venue_order_id = Some (show_u128 i), vr_leaves_quantity = leaves, vr_kind = kind\<rparr>"

definition normalize_event :: "participant_id \<Rightarrow> event_envelope \<Rightarrow> execution_adapter \<Rightarrow> venue_report list adapter_step" where
  "normalize_event actor e a =
     (case event_kind actor (ev_payload e) a of
       (Inl err, a1) \<Rightarrow> (Err err, a1)
     | (Inr None, a1) \<Rightarrow> (Ok [], a1)
     | (Inr (Some (i, kind)), a1) \<Rightarrow>
         (case report_leaves a1 i kind of
           Inl err \<Rightarrow> (Err err, a1)
         | Inr leaves \<Rightarrow> (Ok [adapter_report e i kind leaves], forget_finished i kind leaves a1)))"

fun normalize_committed_events :: "participant_id \<Rightarrow> event_envelope list \<Rightarrow> execution_adapter \<Rightarrow> venue_report list adapter_step" where
  "normalize_committed_events actor [] a = (Ok [], a)"
| "normalize_committed_events actor (e # es) a =
     (case normalize_event actor e a of
       (Inl err, a1) \<Rightarrow> (Err err, a1)
     | (Inr rs, a1) \<Rightarrow>
         (case normalize_committed_events actor es a1 of
           (Inl err, a2) \<Rightarrow> (Err err, a2)
         | (Inr others, a2) \<Rightarrow> (Ok (rs @ others), a2)))"

subsection \<open>Adapter and engine in step\<close>

definition fillable :: "order_lifecycle \<Rightarrow> bool" where
  "fillable l \<longleftrightarrow> l \<in> {PendingSubmit, Live, PartiallyFilled, PendingCancel, PendingReplace}"

definition venues_ok :: "execution_snapshot \<Rightarrow> bool" where
  "venues_ok s \<longleftrightarrow> (\<forall>v i. x_venue_to_local s v = Some i \<longrightarrow> v = show_u128 i \<and> i < 2 ^ 128)"

text \<open>Every order the adapter follows is open in the engine, with the same quantity and the same fills;
  the engine has no report waiting and knows orders by the venue identifiers the adapter writes.\<close>

definition keeps_step :: "execution_adapter \<Rightarrow> execution_snapshot \<Rightarrow> bool" where
  "keeps_step a s \<longleftrightarrow> x_deferred_reports s = [] \<and> venues_ok s
     \<and> (\<forall>i\<in>owned_orders a. i < 2 ^ 128 \<and> (\<exists>m. bt_get (x_orders s) i = Some m \<and> fillable (mo_lifecycle m)
          \<and> order_quantities a i = Some (do_quantity (mo_desired m)) \<and> cumulative_of a i = mo_filled_quantity m))"

lemma show_u128_inject: "i < 2 ^ 128 \<Longrightarrow> j < 2 ^ 128 \<Longrightarrow> show_u128 i = show_u128 j \<longleftrightarrow> i = j"
  by (metis option.inject parse_show_u128)

text \<open>A kind of report the order can take, and the filled quantity after it.\<close>

definition takes :: "execution_snapshot \<Rightarrow> managed_order \<Rightarrow> venue_report_kind \<Rightarrow> bool" where
  "takes s m kind \<longleftrightarrow> (case kind of
       ReportAccepted \<Rightarrow> True | ReportRejected _ \<Rightarrow> True | ReportCancelled \<Rightarrow> True | ReportExpired \<Rightarrow> True
     | ReportFill q c price \<Rightarrow> mo_filled_quantity m < c \<and> c \<le> do_quantity (mo_desired m)
         \<and> q = c - mo_filled_quantity m \<and> in_i64 q
         \<and> (\<exists>p. position_apply_fill (do_side (mo_desired m)) q price (position_of s (do_instrument_id (mo_desired m))) = Ok p)
     | _ \<Rightarrow> False)"

fun filled_by :: "quantity_lots \<Rightarrow> venue_report_kind \<Rightarrow> quantity_lots" where
  "filled_by _ (ReportFill _ c _) = c"
| "filled_by q _ = q"

lemma resolved_kind:
  assumes m: "bt_get (x_orders (ex_state x)) i = Some m" and "fillable (mo_lifecycle m)" "takes (ex_state x) m (vr_kind r)"
  shows "\<exists>x' m'. apply_report_kind i r (mo_lifecycle m) x = (Ok (), x')
    \<and> x_deferred_reports (ex_state x') = x_deferred_reports (ex_state x)
    \<and> x_venue_to_local (ex_state x') = x_venue_to_local (ex_state x)
    \<and> bt_get (x_orders (ex_state x')) = (bt_get (x_orders (ex_state x)))(i \<mapsto> m')
    \<and> mo_desired m' = mo_desired m \<and> mo_filled_quantity m' = filled_by (mo_filled_quantity m) (vr_kind r)
    \<and> (vr_kind r = ReportAccepted \<or> mo_filled_quantity m < mo_filled_quantity m' \<and> mo_filled_quantity m' < do_quantity (mo_desired m)
        \<longrightarrow> fillable (mo_lifecycle m'))"
proof (cases "vr_kind r")
  have same: "bt_get (x_orders (ex_state x)) = (bt_get (x_orders (ex_state x)))(i \<mapsto> m') \<longleftrightarrow> m' = m" for m'
    using m by (metis fun_upd_apply fun_upd_triv option.inject)
  note unfold = apply_report_kind_def takes_def fillable_def x_update_order_def x_bind_def map_order_def
    set_lifecycle_def resting_lifecycle_def is_open_def is_terminal_def same
  {
    case ReportAccepted
    with assms show ?thesis by (auto simp: unfold)
  next
    case ReportCancelled
    with assms show ?thesis by (auto simp: unfold)
  next
    case ReportExpired
    with assms show ?thesis by (auto simp: unfold)
  next
    case (ReportRejected reason)
    with assms show ?thesis by (auto simp: unfold)
  }
  case (ReportFill q c price)
  then obtain p where p: "position_apply_fill (do_side (mo_desired m)) q price
      (position_of (ex_state x) (do_instrument_id (mo_desired m))) = Ok p" "i64_checked_sub c (mo_filled_quantity m) = Some q"
    "mo_filled_quantity m < c" "c \<le> do_quantity (mo_desired m)" "q > 0"
    using assms(3) by (auto simp: takes_def i64_checked_sub_Some)
  have "mo_lifecycle m \<in> {PendingSubmit, Live, PartiallyFilled, PendingCancel, PendingReplace, Filled, Cancelled, Expired}"
    using assms(2) by (auto simp: fillable_def)
  then show ?thesis
    using m p assms(2) ReportFill
    by (auto simp: apply_report_kind_def apply_fill_report_def x_bind_def Let_def x_position_fill_def x_update_order_def
        map_order_def fillable_def filled_lifecycle_def)
qed (use assms in \<open>simp_all add: takes_def\<close>)

lemma bind_own_id:
  assumes m: "bt_get (x_orders (ex_state x)) i = Some m" and "venues_ok (ex_state x)" "i < 2 ^ 128"
  shows "\<exists>x'. bind_venue_id i (Some (show_u128 i)) x = (Ok (), x') \<and> venues_ok (ex_state x')
    \<and> x_deferred_reports (ex_state x') = x_deferred_reports (ex_state x) \<and> x_positions (ex_state x') = x_positions (ex_state x)
    \<and> bt_get (x_orders (ex_state x')) = (bt_get (x_orders (ex_state x)))(i \<mapsto> m \<lparr>mo_venue_order_id := Some (show_u128 i)\<rparr>)"
proof -
  have "x_venue_to_local (ex_state x) (show_u128 i) \<in> {None, Some i}"
    using assms(2,3) show_u128_inject by (cases "x_venue_to_local (ex_state x) (show_u128 i)") (auto simp: venues_ok_def)
  with assms show ?thesis
    by (auto simp: bind_venue_id_def x_bind_def map_order_def venues_ok_def)
qed

lemma report_applied:
  assumes m: "bt_get (x_orders (ex_state x)) i = Some m" "fillable (mo_lifecycle m)" "takes (ex_state x) m kind"
    and new: "\<not> window_has (report_window (ex_state x)) (ev_event_id e)"
    and calm: "x_deferred_reports (ex_state x) = []" "venues_ok (ex_state x)" "i < 2 ^ 128"
  shows "\<exists>x' m'. apply_venue_report (adapter_report e i kind leaves) x = (Ok (), x')
    \<and> x_deferred_reports (ex_state x') = [] \<and> venues_ok (ex_state x')
    \<and> bt_get (x_orders (ex_state x')) = (bt_get (x_orders (ex_state x)))(i \<mapsto> m')
    \<and> mo_desired m' = mo_desired m \<and> mo_filled_quantity m' = filled_by (mo_filled_quantity m) kind
    \<and> (kind = ReportAccepted \<or> mo_filled_quantity m < mo_filled_quantity m' \<and> mo_filled_quantity m' < do_quantity (mo_desired m)
        \<longrightarrow> fillable (mo_lifecycle m'))"
proof -
  let ?r = "adapter_report e i kind leaves" and ?m = "m \<lparr>mo_venue_order_id := Some (show_u128 i)\<rparr>"
  obtain x1 where x1: "bind_venue_id i (Some (show_u128 i)) x = (Ok (), x1)" "venues_ok (ex_state x1)"
    "x_deferred_reports (ex_state x1) = []" "x_positions (ex_state x1) = x_positions (ex_state x)"
    "bt_get (x_orders (ex_state x1)) = (bt_get (x_orders (ex_state x)))(i \<mapsto> ?m)"
    using bind_own_id [OF m(1) calm(2,3)] calm(1) by auto
  have "takes (ex_state x1) ?m (vr_kind ?r)" "fillable (mo_lifecycle ?m)" "bt_get (x_orders (ex_state x1)) i = Some ?m"
    using m x1(4,5) by (auto simp: takes_def adapter_report_def position_of_def split: venue_report_kind.splits)
  then obtain x2 m' where raw: "apply_report_kind i ?r (mo_lifecycle ?m) x1 = (Ok (), x2)"
    "x_deferred_reports (ex_state x2) = x_deferred_reports (ex_state x1)"
    "x_venue_to_local (ex_state x2) = x_venue_to_local (ex_state x1)"
    "bt_get (x_orders (ex_state x2)) = (bt_get (x_orders (ex_state x1)))(i \<mapsto> m')"
    "mo_desired m' = mo_desired ?m" "mo_filled_quantity m' = filled_by (mo_filled_quantity ?m) (vr_kind ?r)"
    "vr_kind ?r = ReportAccepted \<or> mo_filled_quantity ?m < mo_filled_quantity m' \<and> mo_filled_quantity m' < do_quantity (mo_desired ?m)
        \<longrightarrow> fillable (mo_lifecycle m')"
    using resolved_kind [of x1 i ?m ?r] by blast
  then have x2: "x_deferred_reports (ex_state x2) = []"
    "bt_get (x_orders (ex_state x2)) = (bt_get (x_orders (ex_state x)))(i \<mapsto> m')"
    "mo_desired m' = mo_desired m" "mo_filled_quantity m' = filled_by (mo_filled_quantity m) kind"
    "kind = ReportAccepted \<or> mo_filled_quantity m < mo_filled_quantity m' \<and> mo_filled_quantity m' < do_quantity (mo_desired m)
        \<longrightarrow> fillable (mo_lifecycle m')"
    using x1(3,5) by (simp_all add: adapter_report_def)
  define x3 where "x3 = x2 \<lparr>ex_state := record_report ?r (ex_state x2)\<rparr>"
  have sel: "vr_venue_order_id ?r = Some (show_u128 i)" "vr_local_order_id ?r = Some i" "vr_kind ?r = kind"
    "vr_report_id ?r = ev_event_id e"
    by (simp_all add: adapter_report_def)
  have "apply_resolved_report i ?r x = (Ok (), x2)"
    using x1(1,5) raw(1) by (simp add: apply_resolved_report_def x_bind_def sel)
  then have "apply_report_once ?r x = (Ok (kind = ReportAccepted \<or> kind = ReportReplaced), x3)"
    using m(1) new by (simp add: apply_report_once_def resolve_report_def or_else_def x_bind_def x3_def sel)
  moreover have "retry_deferred x3 = (Ok (), clear_deferred x3)"
    using x2(1) by (simp add: retry_deferred_def x3_def)
  ultimately have "apply_venue_report ?r x = (Ok (), x3) \<or> apply_venue_report ?r x = (Ok (), clear_deferred x3)"
    by (simp add: apply_venue_report_retries x_bind_def)
  moreover have "venues_ok (ex_state x2)"
    using x1(2) raw(3) by (simp add: venues_ok_def)
  ultimately show ?thesis
    using x2 by (auto simp: x3_def clear_deferred_def venues_ok_def record_report_def Let_def)
qed

text \<open>
  What the venue guarantees about an event, given where the two stand: reports are new; an order is
  received once, as the engine submitted it; a cancellation concerns an order still followed; a trade is
  not between two orders of the participant and fits the order and the position.
\<close>

definition fair_event :: "participant_id \<Rightarrow> event_envelope \<Rightarrow> execution_adapter \<Rightarrow> execution_snapshot \<Rightarrow> bool" where
  "fair_event actor e a s \<longleftrightarrow> \<not> window_has (report_window s) (ev_event_id e) \<and>
     (case ev_payload e of
        OrderReceived order _ \<Rightarrow> so_participant_id order = actor \<longrightarrow>
          so_order_id order < 2 ^ 128 \<and> cumulative_fills a (so_order_id order) = None \<and>
          (case bt_get (x_orders s) (so_order_id order) of
             Some m \<Rightarrow> mo_lifecycle m = PendingSubmit \<and> mo_filled_quantity m = 0 \<and> do_quantity (mo_desired m) = so_quantity order
           | None \<Rightarrow> False)
      | OrderCanceled i p _ _ _ _ \<Rightarrow> p = actor \<longrightarrow> i \<in> owned_orders a
      | TradeExecuted _ _ maker taker buyer seller price quantity _ _ \<Rightarrow>
          \<not> (maker \<in> owned_orders a \<and> taker \<in> owned_orders a) \<and>
          (\<forall>i m. traded_order a maker taker = Some i \<longrightarrow> bt_get (x_orders s) i = Some m \<longrightarrow> buyer = actor \<or> seller = actor \<longrightarrow>
             quantity > 0 \<and> mo_filled_quantity m + quantity \<le> do_quantity (mo_desired m)
             \<and> in_i64 quantity \<and> in_i64 (mo_filled_quantity m + quantity)
             \<and> in_i64 (do_quantity (mo_desired m) - (mo_filled_quantity m + quantity))
             \<and> (\<exists>p. position_apply_fill (do_side (mo_desired m)) quantity price (position_of s (do_instrument_id (mo_desired m))) = Ok p))
      | _ \<Rightarrow> True)"

text \<open>What an event executed for an order of the participant.\<close>

definition executed_for :: "participant_id \<Rightarrow> execution_adapter \<Rightarrow> event_payload \<Rightarrow> nat \<Rightarrow> quantity_lots" where
  "executed_for actor a payload i =
     (case payload of
        TradeExecuted _ _ maker taker buyer seller price quantity _ _ \<Rightarrow>
          if (buyer = actor \<or> seller = actor) \<and> i \<in> {maker, taker} \<and> i \<in> owned_orders a then quantity else 0
      | _ \<Rightarrow> 0)"

text \<open>The order table after an event: the same orders, each filled by what was executed for it.\<close>

definition fills_added :: "(nat \<Rightarrow> quantity_lots) \<Rightarrow> execution_snapshot \<Rightarrow> execution_snapshot \<Rightarrow> bool" where
  "fills_added f s t \<longleftrightarrow> (\<forall>i m. bt_get (x_orders s) i = Some m \<longrightarrow>
     (\<exists>m'. bt_get (x_orders t) i = Some m' \<and> mo_desired m' = mo_desired m \<and> mo_filled_quantity m' = mo_filled_quantity m + f i))"

lemma step_of_report:
  assumes "keeps_step a (ex_state x)" "i \<in> owned_orders a" "bt_get (x_orders (ex_state x)) i = Some m"
    and new: "\<not> window_has (report_window (ex_state x)) (ev_event_id e)"
    and kind: "takes (ex_state x) m kind" "report_leaves a1 i kind = Ok leaves"
    and a1: "owned_orders a1 = owned_orders a" "order_quantities a1 = order_quantities a"
      "\<And>j. cumulative_of a1 j = (if j = i then filled_by (mo_filled_quantity m) kind else cumulative_of a j)"
  shows "\<exists>x'. apply_reports [adapter_report e i kind leaves] x = (Ok (), x')
    \<and> keeps_step (forget_finished i kind leaves a1) (ex_state x')
    \<and> fills_added (\<lambda>j. if j = i then filled_by (mo_filled_quantity m) kind - mo_filled_quantity m else 0) (ex_state x) (ex_state x')"
proof -
  have m: "fillable (mo_lifecycle m)" "order_quantities a i = Some (do_quantity (mo_desired m))" "i < 2 ^ 128"
    and calm: "x_deferred_reports (ex_state x) = []" "venues_ok (ex_state x)"
    using assms(1-3) by (auto simp: keeps_step_def)
  obtain x' m' where x': "apply_venue_report (adapter_report e i kind leaves) x = (Ok (), x')"
    "x_deferred_reports (ex_state x') = []" "venues_ok (ex_state x')"
    "bt_get (x_orders (ex_state x')) = (bt_get (x_orders (ex_state x)))(i \<mapsto> m')"
    "mo_desired m' = mo_desired m" "mo_filled_quantity m' = filled_by (mo_filled_quantity m) kind"
    "kind = ReportAccepted \<or> mo_filled_quantity m < mo_filled_quantity m' \<and> mo_filled_quantity m' < do_quantity (mo_desired m)
        \<longrightarrow> fillable (mo_lifecycle m')"
    using report_applied [OF assms(3) m(1) kind(1) new calm m(3)] by blast
  have followed: "fillable (mo_lifecycle m')" if "i \<in> owned_orders (forget_finished i kind leaves a1)"
  proof (cases kind)
    case (ReportFill q c price)
    then have "c \<noteq> do_quantity (mo_desired m)"
      using that kind(2) m(2) a1(2) by (auto simp: forget_finished_def attempt_Ok_iff ok_or_Ok_iff i64_checked_sub_Some)
    with ReportFill kind(1) x'(6,7) show ?thesis
      by (auto simp: takes_def)
  qed (use that kind x'(7) in \<open>auto simp: forget_finished_def takes_def\<close>)
  have "keeps_step (forget_finished i kind leaves a1) (ex_state x')"
    unfolding keeps_step_def
  proof (intro conjI ballI x'(2,3))
    fix j assume j: "j \<in> owned_orders (forget_finished i kind leaves a1)"
    then have own: "j \<in> owned_orders a" "j = i \<or> j \<noteq> i"
      using a1(1) by (auto simp: forget_finished_def split: if_splits)
    then show "j < 2 ^ 128"
      using assms(1) by (simp add: keeps_step_def)
    show "\<exists>n. bt_get (x_orders (ex_state x')) j = Some n \<and> fillable (mo_lifecycle n)
        \<and> order_quantities (forget_finished i kind leaves a1) j = Some (do_quantity (mo_desired n))
        \<and> cumulative_of (forget_finished i kind leaves a1) j = mo_filled_quantity n"
    proof (cases "j = i")
      case True
      with j have "forget_finished i kind leaves a1 = a1"
        by (auto simp: forget_finished_def split: if_splits)
      with True x'(4,5,6) m(2) a1 followed [OF j [unfolded True]] show ?thesis
        by simp
    next
      case False
      from own(1) assms(1) obtain n where "bt_get (x_orders (ex_state x)) j = Some n" "fillable (mo_lifecycle n)"
        "order_quantities a j = Some (do_quantity (mo_desired n))" "cumulative_of a j = mo_filled_quantity n"
        by (auto simp: keeps_step_def)
      with False x'(4) a1 show ?thesis
        by (auto simp: forget_finished_def cumulative_of_def split: option.splits)
    qed
  qed
  moreover have "fills_added (\<lambda>j. if j = i then filled_by (mo_filled_quantity m) kind - mo_filled_quantity m else 0)
      (ex_state x) (ex_state x')"
    using x'(4,5,6) assms(3) by (simp add: fills_added_def)
  ultimately show ?thesis
    using x'(1) by (simp add: apply_reports_Cons x_bind_def)
qed

lemma fills_added_refl: "(\<And>i. f i = 0) \<Longrightarrow> fills_added f s s"
  by (simp add: fills_added_def)

lemma fills_added_trans: "fills_added f s t \<Longrightarrow> fills_added g t u \<Longrightarrow> fills_added (\<lambda>i. f i + g i) s u"
  unfolding fills_added_def by (metis add.assoc)

lemma no_report_in_step:
  assumes "keeps_step a (ex_state x)" "event_kind actor (ev_payload e) a = (Ok None, a1)" "keeps_step a1 (ex_state x)"
    "\<And>i. executed_for actor a (ev_payload e) i = 0"
  shows "\<exists>rs a' x'. normalize_event actor e a = (Ok rs, a') \<and> apply_reports rs x = (Ok (), x') \<and> keeps_step a' (ex_state x')
    \<and> fills_added (executed_for actor a (ev_payload e)) (ex_state x) (ex_state x')"
  using assms by (simp add: normalize_event_def fills_added_refl)

lemma plain_report_in_step:
  assumes "keeps_step a (ex_state x)" "fair_event actor e a (ex_state x)" "i \<in> owned_orders a"
    and "event_kind actor (ev_payload e) a = (Ok (Some (i, kind)), a)"
    and "kind \<in> {ReportAccepted, ReportCancelled, ReportExpired} \<or> (\<exists>reason. kind = ReportRejected reason)"
    and "\<And>j. executed_for actor a (ev_payload e) j = 0"
  shows "\<exists>rs a' x'. normalize_event actor e a = (Ok rs, a') \<and> apply_reports rs x = (Ok (), x') \<and> keeps_step a' (ex_state x')
    \<and> fills_added (executed_for actor a (ev_payload e)) (ex_state x) (ex_state x')"
proof -
  obtain m where m: "bt_get (x_orders (ex_state x)) i = Some m" "cumulative_of a i = mo_filled_quantity m"
    using assms(1,3) by (auto simp: keeps_step_def)
  obtain leaves where leaves: "report_leaves a i kind = Ok leaves"
    using assms(5) by auto
  have kind: "takes (ex_state x) m kind" "filled_by (mo_filled_quantity m) kind = mo_filled_quantity m"
    using assms(5) by (auto simp: takes_def)
  have "\<not> window_has (report_window (ex_state x)) (ev_event_id e)"
    using assms(2) by (simp add: fair_event_def)
  from step_of_report [OF assms(1,3) m(1) this kind(1) leaves refl refl] m(2) kind(2) obtain x'
    where "apply_reports [adapter_report e i kind leaves] x = (Ok (), x')" "keeps_step (forget_finished i kind leaves a) (ex_state x')"
      "fills_added (\<lambda>j. 0) (ex_state x) (ex_state x')"
    by (auto simp: if_distrib cong: if_cong)
  then show ?thesis
    using assms(4,6) leaves by (simp add: normalize_event_def fills_added_def)
qed

lemma trade_in_step:
  assumes "keeps_step a (ex_state x)" "fair_event actor e a (ex_state x)"
    and "ev_payload e = TradeExecuted k key maker taker buyer seller price quantity u v"
  shows "\<exists>rs a' x'. normalize_event actor e a = (Ok rs, a') \<and> apply_reports rs x = (Ok (), x') \<and> keeps_step a' (ex_state x')
    \<and> fills_added (executed_for actor a (ev_payload e)) (ex_state x) (ex_state x')"
proof (cases "(buyer = actor \<or> seller = actor) \<and> traded_order a maker taker \<noteq> None")
  case False
  then have "event_kind actor (ev_payload e) a = (Ok None, a)" "executed_for actor a (ev_payload e) i = 0" for i
    using assms(3) by (auto simp: executed_for_def traded_order_def split: if_splits)
  with assms(1) show ?thesis
    by (intro no_report_in_step)
next
  case True
  then obtain i where i: "traded_order a maker taker = Some i" "i \<in> owned_orders a"
    by (auto simp: traded_order_def split: if_splits)
  obtain m where m: "bt_get (x_orders (ex_state x)) i = Some m" "cumulative_of a i = mo_filled_quantity m"
    "order_quantities a i = Some (do_quantity (mo_desired m))"
    using assms(1) i(2) by (auto simp: keeps_step_def)
  let ?c = "mo_filled_quantity m + quantity"
  let ?kind = "ReportFill quantity ?c price" and ?a1 = "a \<lparr>cumulative_fills := (cumulative_fills a)(i \<mapsto> ?c)\<rparr>"
  let ?leaves = "Some (do_quantity (mo_desired m) - ?c)"
  have fair: "quantity > 0" "?c \<le> do_quantity (mo_desired m)" "in_i64 quantity" "in_i64 ?c"
    "in_i64 (do_quantity (mo_desired m) - ?c)" "\<not> window_has (report_window (ex_state x)) (ev_event_id e)"
    "\<exists>p. position_apply_fill (do_side (mo_desired m)) quantity price (position_of (ex_state x) (do_instrument_id (mo_desired m))) = Ok p"
    "\<not> (maker \<in> owned_orders a \<and> taker \<in> owned_orders a)"
    using assms(2,3) i(1) m(1) True by (auto simp: fair_event_def)
  have kind: "event_kind actor (ev_payload e) a = (Ok (Some (i, ?kind)), ?a1)" "report_leaves ?a1 i ?kind = Ok ?leaves"
    using True i(1) m fair assms(3) by (simp_all add: i64_checked_add_def i64_checked_sub_def)
  have "takes (ex_state x) m ?kind"
    using fair by (simp add: takes_def)
  moreover have "cumulative_of ?a1 j = (if j = i then filled_by (mo_filled_quantity m) ?kind else cumulative_of a j)" for j
    by (simp add: cumulative_of_def)
  ultimately obtain x'
    where x': "apply_reports [adapter_report e i ?kind ?leaves] x = (Ok (), x')" "keeps_step (forget_finished i ?kind ?leaves ?a1) (ex_state x')"
      "fills_added (\<lambda>j. if j = i then filled_by (mo_filled_quantity m) ?kind - mo_filled_quantity m else 0) (ex_state x) (ex_state x')"
    using step_of_report [OF assms(1) i(2) m(1) fair(6) _ kind(2)] by (auto simp del: filled_by.simps)
  have "executed_for actor a (ev_payload e) = (\<lambda>j. if j = i then filled_by (mo_filled_quantity m) ?kind - mo_filled_quantity m else 0)"
    using assms(3) i True fair(8) by (auto simp: executed_for_def traded_order_def split: if_splits)
  with x' kind show ?thesis
    by (simp add: normalize_event_def del: filled_by.simps)
qed

lemma event_in_step:
  assumes "keeps_step a (ex_state x)" "fair_event actor e a (ex_state x)"
  shows "\<exists>rs a' x'. normalize_event actor e a = (Ok rs, a') \<and> apply_reports rs x = (Ok (), x') \<and> keeps_step a' (ex_state x')
    \<and> fills_added (executed_for actor a (ev_payload e)) (ex_state x) (ex_state x')"
proof (cases "ev_payload e")
  case (OrderReceived order key)
  let ?i = "so_order_id order"
  let ?a1 = "a \<lparr>owned_orders := insert ?i (owned_orders a), order_quantities := (order_quantities a)(?i \<mapsto> so_quantity order)\<rparr>"
  have "keeps_step ?a1 (ex_state x)" if own: "so_participant_id order = actor"
  proof -
    obtain m where "bt_get (x_orders (ex_state x)) ?i = Some m" "mo_lifecycle m = PendingSubmit" "mo_filled_quantity m = 0"
      "do_quantity (mo_desired m) = so_quantity order" "cumulative_fills a ?i = None" "?i < 2 ^ 128"
      using assms(2) own OrderReceived by (auto simp: fair_event_def split: option.splits)
    with assms(1) show ?thesis
      by (auto simp: keeps_step_def cumulative_of_def fillable_def)
  qed
  with assms(1) OrderReceived show ?thesis
    by (intro no_report_in_step [where ?a1.0 = "if so_participant_id order = actor then ?a1 else a"]) (simp_all add: executed_for_def)
next
  case (OrderAccepted i)
  show ?thesis
  proof (cases "i \<in> owned_orders a")
    case True
    with OrderAccepted assms show ?thesis
      by (intro plain_report_in_step [where i = i and kind = ReportAccepted]) (simp_all add: executed_for_def)
  next
    case False
    with OrderAccepted assms(1) show ?thesis
      by (intro no_report_in_step) (simp_all add: executed_for_def)
  qed
next
  case (OrderRejected target code)
  show ?thesis
  proof (cases "\<exists>i\<in>owned_orders a. target = Some i")
    case True
    then obtain i where "i \<in> owned_orders a" "target = Some i"
      by blast
    with OrderRejected assms show ?thesis
      by (intro plain_report_in_step [where i = i and kind = "ReportRejected (debug_code code)"]) (simp_all add: executed_for_def)
  next
    case False
    then have "event_kind actor (ev_payload e) a = (Ok None, a)"
      using OrderRejected by (cases target) auto
    with OrderRejected assms(1) show ?thesis
      by (intro no_report_in_step) (simp_all add: executed_for_def)
  qed
next
  case (OrderCanceled i p k key q reason)
  show ?thesis
  proof (cases "p = actor")
    case True
    with assms(2) OrderCanceled have "i \<in> owned_orders a"
      by (simp add: fair_event_def)
    with assms OrderCanceled True show ?thesis
      by (intro plain_report_in_step [where kind = "if reason = cancel_reason.Expired then ReportExpired else ReportCancelled"])
        (auto simp: executed_for_def)
  next
    case False
    with OrderCanceled assms(1) show ?thesis
      by (intro no_report_in_step) (auto simp: executed_for_def)
  qed
next
  case (TradeExecuted k key maker taker buyer seller price quantity u v)
  with assms show ?thesis
    by (rule trade_in_step)
qed (use assms(1) in \<open>(intro no_report_in_step; simp add: executed_for_def)+\<close>)

fun fair_events :: "participant_id \<Rightarrow> event_envelope list \<Rightarrow> execution_adapter \<Rightarrow> exec \<Rightarrow> bool" where
  "fair_events actor [] a x \<longleftrightarrow> True"
| "fair_events actor (e # es) a x \<longleftrightarrow> fair_event actor e a (ex_state x) \<and>
     (case normalize_event actor e a of
        (Inr rs, a') \<Rightarrow> fair_events actor es a' (snd (apply_reports rs x))
      | (Inl _, _) \<Rightarrow> False)"

fun executed_in :: "participant_id \<Rightarrow> event_envelope list \<Rightarrow> execution_adapter \<Rightarrow> nat \<Rightarrow> quantity_lots" where
  "executed_in actor [] a i = 0"
| "executed_in actor (e # es) a i =
     executed_for actor a (ev_payload e) i + executed_in actor es (snd (normalize_event actor e a)) i"

lemma apply_reports_append: "apply_reports (rs @ qs) = x_bind (apply_reports rs) (\<lambda>_. apply_reports qs)"
proof (induction rs)
  case (Cons r rs)
  then show ?case
    by (auto simp: apply_reports_Cons x_bind_def fun_eq_iff split: prod.splits sum.splits)
qed (simp add: x_bind_def)



subsection \<open>Witnesses\<close>

definition trial_event :: "nat \<Rightarrow> event_payload \<Rightarrow> event_envelope" where
  "trial_event n payload = \<lparr>ev_schema_version = 1, ev_run_id = 1, ev_event_id = n, ev_sequence = n, ev_logical_time = n,
     ev_actor = 1, ev_command_id = n, ev_correlation_id = n, ev_causation_sequence = None, ev_payload = payload\<rparr>"

definition trial_order :: "nat \<Rightarrow> submit_order" where
  "trial_order i = \<lparr>so_order_id = i, so_instrument_id = 7, so_participant_id = 1, so_side = Buy, so_quantity = 5,
     so_kind = Limit 100, so_anonymous = False\<rparr>"

definition trial_events :: "event_envelope list" where
  "trial_events = [trial_event 11 (OrderReceived (trial_order 1) None),
     trial_event 12 (TradeExecuted 7 None 90 1 1 2 100 2 0 0)]"

definition trial_exec :: exec where
  "trial_exec = \<lparr>ex_state = trial_submitted, ex_output = trial_buffer\<rparr>"

lemma trial_in_step: "keeps_step adapter_default (ex_state trial_exec)"
  by (simp add: keeps_step_def venues_ok_def adapter_default_def trial_exec_def trial_submitted_value trial_defs)

lemma trial_fair: "fair_events 1 trial_events adapter_default trial_exec"
  by (simp add: trial_events_def trial_event_def trial_order_def trial_exec_def trial_submitted_value trial_defs call_defs
      adapter_default_def fair_event_def normalize_event_def traded_order_def cumulative_of_def forget_finished_def
      adapter_report_def in_i64_def)



end
