(* ===== verification/Fix_Wire.thy ===== *)
theory Fix_Wire
  imports Market_Types Byte_Strings "HOL-Library.Word"
begin

text \<open>
  The FIX tag-value framing of \<open>src/packages/simfix-wire/src/lib.rs\<close>: messages, the
  encoder with its body length and checksum, the incremental decoder with its bounded
  receive buffer, repeating groups, and the competition profile's message rules.

  Byte strings are those of theory \<open>Byte_Strings\<close>. The dictionaries
  of the crate \<open>rustyfix_dictionary\<close> are parameters: which message types and tags each
  of the two declares. Tags are naturals below \<open>2 ^ 32\<close>, lengths naturals below \<open>2 ^ 64\<close>;
  the checksum is an \<open>8 word\<close>, where the addition of the source wraps.

  The lemmas show that a frame produced by \<open>encode\<close> is recognised at its exact length
  whatever follows it and decodes to the message it was made from, and that the decoder
  does not depend on how its input was cut into reads.
\<close>

subsection \<open>Numbers as text\<close>

text \<open>
  \<open>str::parse\<close> at an unsigned width of at most 128 bits: an optional plus sign, then
  digits whose value fits.
\<close>

definition parse_uint :: "nat \<Rightarrow> string \<Rightarrow> nat option" where
  "parse_uint width s =
     (case parse_u128 s of None \<Rightarrow> None | Some n \<Rightarrow> if n < 2 ^ width then Some n else None)"

text \<open>\<open>format!("{checksum:03}")\<close>.\<close>

definition show_03 :: "nat \<Rightarrow> string" where
  "show_03 n = replicate (3 - length (show_u128 n)) (CHR ''0'') @ show_u128 n"

subsection \<open>Messages\<close>

definition SOH :: char where
  "SOH = CHR 0x01"

definition FIXT_11 :: string where
  "FIXT_11 = ''FIXT.1.1''"

definition FIX_50_SP2_APPL_VER_ID :: string where
  "FIX_50_SP2_APPL_VER_ID = ''9''"

record field =
  field_tag :: nat
  field_value :: string

definition field_new :: "nat \<Rightarrow> string \<Rightarrow> field" where
  "field_new tag v = \<lparr>field_tag = tag, field_value = v\<rparr>"

record fix_message =
  begin_string :: string
  msg_type :: string
  message_fields :: "field list"

definition fix_message_new :: "string \<Rightarrow> fix_message" where
  "fix_message_new type = \<lparr>begin_string = FIXT_11, msg_type = type, message_fields = []\<rparr>"

definition message_value :: "fix_message \<Rightarrow> nat \<Rightarrow> string option" where
  "message_value m tag = map_option field_value (find (\<lambda>f. field_tag f = tag) (message_fields m))"

definition push_field :: "nat \<Rightarrow> string \<Rightarrow> fix_message \<Rightarrow> fix_message" where
  "push_field tag v m = m\<lparr>message_fields := message_fields m @ [field_new tag v]\<rparr>"

record wire_limits =
  max_message_bytes :: nat
  max_field_bytes :: nat
  max_fields :: nat
  max_buffer_bytes :: nat

definition wire_limits_default :: wire_limits where
  "wire_limits_default =
     \<lparr>max_message_bytes = 65536, max_field_bytes = 8192, max_fields = 256, max_buffer_bytes = 131072\<rparr>"

datatype wire_error =
    BufferFull | MessageTooLarge | FieldTooLarge | TooManyFields | InvalidUtf8 | InvalidField
  | InvalidBeginString | InvalidBodyLength | InvalidChecksum | MissingMsgType
  | MissingRequiredTag nat | DuplicateTag nat | InvalidMessageType | InvalidRepeatingGroup nat
  | ReservedTag nat | DictionaryUnavailable | UnknownTag nat

subsection \<open>Encoding\<close>

definition validate_value :: "string \<Rightarrow> wire_limits \<Rightarrow> (unit, wire_error) result" where
  "validate_value v limits =
     (if SOH \<in> set v \<or> CHR ''='' \<in> set v then Err InvalidField
      else if length v > max_field_bytes limits then Err FieldTooLarge
      else Ok ())"

definition append_field :: "bytes \<Rightarrow> nat \<Rightarrow> string \<Rightarrow> wire_limits \<Rightarrow> (bytes, wire_error) result" where
  "append_field out tag v limits =
     attempt (validate_value v limits) (\<lambda>_.
     Ok (out @ show_u128 tag @ ''='' @ v @ [SOH]))"

definition reserved_tag :: "nat \<Rightarrow> bool" where
  "reserved_tag tag \<longleftrightarrow> tag = 8 \<or> tag = 9 \<or> tag = 10 \<or> tag = 35"

definition append_body_field :: "wire_limits \<Rightarrow> field \<Rightarrow> bytes \<Rightarrow> (bytes, wire_error) result" where
  "append_body_field limits f body =
     (if reserved_tag (field_tag f) then Err (ReservedTag (field_tag f))
      else append_field body (field_tag f) (field_value f) limits)"

definition checksum_of :: "bytes \<Rightarrow> 8 word" where
  "checksum_of frame = foldl (\<lambda>sum byte. sum + of_char byte) 0 frame"

definition encode :: "fix_message \<Rightarrow> wire_limits \<Rightarrow> (bytes, wire_error) result" where
  "encode m limits =
     (if length (message_fields m) > max_fields limits then Err TooManyFields
      else
        attempt (validate_value (begin_string m) limits) (\<lambda>_.
        attempt (validate_value (msg_type m) limits) (\<lambda>_.
        attempt (append_field [] 35 (msg_type m) limits) (\<lambda>body0.
        attempt (try_fold (append_body_field limits) (message_fields m) body0) (\<lambda>body.
        attempt (append_field [] 8 (begin_string m) limits) (\<lambda>frame0.
        attempt (append_field frame0 9 (show_u128 (length body)) limits) (\<lambda>frame1.
        let frame2 = frame1 @ body in
        attempt (append_field frame2 10 (show_03 (unat (checksum_of frame2))) limits) (\<lambda>frame.
        if length frame > max_message_bytes limits then Err MessageTooLarge
        else Ok frame))))))))"

subsection \<open>Decoding\<close>

definition delimiter_after :: "bytes \<Rightarrow> nat \<Rightarrow> nat option" where
  "delimiter_after bs start =
     (if start > length bs then None
      else map_option (\<lambda>offset. start + offset) (position (\<lambda>b. b = SOH) (drop start bs)))"

definition begin_prefix :: bytes where
  "begin_prefix = ''8=FIXT.1.1'' @ [SOH]"

definition complete_frame_len :: "bytes \<Rightarrow> wire_limits \<Rightarrow> (nat option, wire_error) result" where
  "complete_frame_len bs limits =
     (if bs = [] then Ok None
      else if \<not> starts_with bs begin_prefix then Err InvalidBeginString
      else (case delimiter_after bs 0 of
        None \<Rightarrow> Ok None
      | Some begin_end \<Rightarrow>
          let body_length_start = begin_end + 1 in
          if get_range bs body_length_start (body_length_start + 2) \<noteq> Some ''9='' then Err InvalidBodyLength
          else (case delimiter_after bs body_length_start of
            None \<Rightarrow> Ok None
          | Some length_end \<Rightarrow>
              attempt (ok_or InvalidBodyLength
                (from_utf8 (take (length_end - (body_length_start + 2)) (drop (body_length_start + 2) bs)))) (\<lambda>length_text.
              attempt (ok_or InvalidBodyLength (parse_uint 64 length_text)) (\<lambda>body_length.
              attempt (ok_or MessageTooLarge (checked_u64 (length_end + 1 + body_length))) (\<lambda>checksum_start.
              attempt (ok_or MessageTooLarge (checked_u64 (checksum_start + 7))) (\<lambda>total.
              if total > max_message_bytes limits then Err MessageTooLarge
              else if length bs < total then Ok None
              else if get_range bs checksum_start (checksum_start + 3) \<noteq> Some ''10=''
                   \<or> get_at bs (total - 1) \<noteq> Some SOH
              then Err InvalidBodyLength
              else Ok (Some total))))))))"

definition parse_field :: "wire_limits \<Rightarrow> bytes \<Rightarrow> (field, wire_error) result" where
  "parse_field limits raw =
     attempt (ok_or InvalidField (position (\<lambda>b. b = CHR ''='') raw)) (\<lambda>equals.
     attempt (ok_or InvalidUtf8 (from_utf8 (take equals raw))) (\<lambda>tag_text.
     attempt (ok_or InvalidField (parse_uint 32 tag_text)) (\<lambda>tag.
     attempt (ok_or InvalidUtf8 (from_utf8 (drop (equals + 1) raw))) (\<lambda>v.
     attempt (validate_value v limits) (\<lambda>_.
     Ok (field_new tag v))))))"

definition parse_frame :: "bytes \<Rightarrow> wire_limits \<Rightarrow> (fix_message, wire_error) result" where
  "parse_frame frame limits =
     (if length frame < 7 then Err InvalidChecksum
      else
        let checksum_start = length frame - 7 in
        attempt (ok_or InvalidChecksum (from_utf8 (take 3 (drop (checksum_start + 3) frame)))) (\<lambda>text.
        attempt (ok_or InvalidChecksum (parse_uint 8 text)) (\<lambda>expected.
        if unat (checksum_of (take checksum_start frame)) \<noteq> expected then Err InvalidChecksum
        else
          attempt (try_map (parse_field limits)
            (filter (\<lambda>f. f \<noteq> []) (split_on SOH (take checksum_start frame)))) (\<lambda>parsed.
          if length parsed > max_fields limits + 3 then Err TooManyFields
          else
            attempt (ok_or InvalidBeginString
              (case get_at parsed 0 of Some f \<Rightarrow> if field_tag f = 8 then Some (field_value f) else None
               | None \<Rightarrow> None)) (\<lambda>begin.
            if begin \<noteq> FIXT_11 then Err InvalidBeginString
            else if map_option field_tag (get_at parsed 1) \<noteq> Some 9 then Err InvalidBodyLength
            else
              attempt (ok_or MissingMsgType
                (case get_at parsed 2 of Some f \<Rightarrow> if field_tag f = 35 then Some (field_value f) else None
                 | None \<Rightarrow> None)) (\<lambda>type.
              Ok \<lparr>begin_string = begin, msg_type = type,
                  message_fields = filter (\<lambda>f. \<not> (field_tag f = 8 \<or> field_tag f = 9 \<or> field_tag f = 35)) parsed\<rparr>))))))"

subsection \<open>The dictionaries of the competition profile\<close>

text \<open>
  A third-party dictionary: the message types and tags it declares, and the tags it
  gives the datatype \<open>Price\<close>.
\<close>

record dictionary =
  message_by_msgtype :: "string \<Rightarrow> bool"
  field_by_tag :: "nat \<Rightarrow> bool"
  price_datatype :: "nat \<Rightarrow> bool"

record competition_dictionary =
  session_dict :: dictionary
  application_dict :: dictionary

text \<open>
  \<open>load\<close> takes the outcome of \<open>Dictionary::fixt11()\<close> and \<open>Dictionary::fix50sp2()\<close>, where
  \<open>None\<close> is a load error; \<open>shared\<close> keeps the first outcome for the whole process.
\<close>

definition load_dictionary ::
  "dictionary option \<Rightarrow> dictionary option \<Rightarrow> (competition_dictionary, wire_error) result" where
  "load_dictionary fixt11 fix50sp2 =
     attempt (ok_or DictionaryUnavailable fixt11) (\<lambda>s.
     attempt (ok_or DictionaryUnavailable fix50sp2) (\<lambda>a.
     Ok \<lparr>session_dict = s, application_dict = a\<rparr>))"

definition shared :: "dictionary option \<Rightarrow> dictionary option \<Rightarrow> (competition_dictionary, wire_error) result" where
  "shared fixt11 fix50sp2 =
     (case load_dictionary fixt11 fix50sp2 of Inr d \<Rightarrow> Ok d | Inl _ \<Rightarrow> Err DictionaryUnavailable)"

definition extension_message :: "string \<Rightarrow> bool" where
  "extension_message type \<longleftrightarrow> type \<in> {''U6'', ''U9'', ''UA'', ''UB'', ''UC''}"

definition known_tag :: "competition_dictionary \<Rightarrow> nat \<Rightarrow> bool" where
  "known_tag d tag \<longleftrightarrow>
     \<not> (\<not> field_by_tag (session_dict d) tag \<and> \<not> field_by_tag (application_dict d) tag
        \<and> \<not> (10000 \<le> tag \<and> tag \<le> 10023))"

definition dictionary_validate :: "competition_dictionary \<Rightarrow> fix_message \<Rightarrow> (unit, wire_error) result" where
  "dictionary_validate d m =
     (if begin_string m \<noteq> FIXT_11 then Err InvalidBeginString
      else
        let standard = message_by_msgtype (session_dict d) (msg_type m)
              \<or> message_by_msgtype (application_dict d) (msg_type m);
            extension = extension_message (msg_type m) in
        if \<not> standard \<and> \<not> extension then Err InvalidMessageType
        else try_fold (\<lambda>f _. if known_tag d (field_tag f) then Ok () else Err (UnknownTag (field_tag f)))
               (message_fields m) ())"

definition is_price_field :: "competition_dictionary \<Rightarrow> nat \<Rightarrow> bool" where
  "is_price_field d tag \<longleftrightarrow> field_by_tag (application_dict d) tag \<and> price_datatype (application_dict d) tag"

subsection \<open>The incremental decoder\<close>

record decoder =
  decoder_limits :: wire_limits
  decoder_buffer :: bytes
  decoder_dictionary :: competition_dictionary

definition decoder_try_new ::
  "(competition_dictionary, wire_error) result \<Rightarrow> wire_limits \<Rightarrow> (decoder, wire_error) result" where
  "decoder_try_new dict limits =
     attempt dict (\<lambda>d. Ok \<lparr>decoder_limits = limits, decoder_buffer = [], decoder_dictionary = d\<rparr>)"

definition retained_bytes :: "decoder \<Rightarrow> nat" where
  "retained_bytes d = length (decoder_buffer d)"

lemma complete_frame_len_bound:
  "complete_frame_len bs limits = Ok (Some n) \<Longrightarrow> 7 \<le> n \<and> n \<le> length bs"
  by (auto simp: complete_frame_len_def result_simps Let_def split: if_splits option.splits)

text \<open>
  The loop of \<open>Decoder::push\<close> over the buffer and the messages found so far. Every
  round removes a frame of at least seven bytes, so the loop ends.
\<close>

function drain_frames ::
  "competition_dictionary \<Rightarrow> wire_limits \<Rightarrow> bytes \<Rightarrow> fix_message list
   \<Rightarrow> (fix_message list, wire_error) result \<times> bytes" where
  "drain_frames d limits buffer messages =
     (case complete_frame_len buffer limits of
        Inl e \<Rightarrow> (Err e, buffer)
      | Inr None \<Rightarrow> (Ok messages, buffer)
      | Inr (Some frame_len) \<Rightarrow>
          let frame = take frame_len buffer; rest = drop frame_len buffer in
          (case parse_frame frame limits of
             Inl e \<Rightarrow> (Err e, rest)
           | Inr message \<Rightarrow>
               (case dictionary_validate d message of
                  Inl e \<Rightarrow> (Err e, rest)
                | Inr _ \<Rightarrow> drain_frames d limits rest (messages @ [message]))))"
  by pat_completeness auto

termination drain_frames
  by (relation "measure (\<lambda>(d, limits, buffer, messages). length buffer)")
     (auto dest!: complete_frame_len_bound)

declare drain_frames.simps [simp del]

definition decoder_push :: "decoder \<Rightarrow> bytes \<Rightarrow> (fix_message list, wire_error) result \<times> decoder" where
  "decoder_push dec bs =
     (if min (length (decoder_buffer dec) + length bs) (2 ^ 64 - 1) > max_buffer_bytes (decoder_limits dec)
      then (Err BufferFull, dec)
      else
        (case drain_frames (decoder_dictionary dec) (decoder_limits dec) (decoder_buffer dec @ bs) [] of
           (r, buffer) \<Rightarrow> (r, dec\<lparr>decoder_buffer := buffer\<rparr>)))"

subsection \<open>Repeating groups\<close>

record repeating_group =
  count_tag :: nat
  delimiter_tag :: nat
  entries :: "field list list"

text \<open>
  The member loop: \<open>rest\<close> are the fields after the count, \<open>done\<close> the finished entries and
  \<open>current\<close> the open one. An entry is closed by the next delimiter; a tag that is not a
  member ends the group.
\<close>

fun group_loop ::
  "nat \<Rightarrow> nat \<Rightarrow> nat list \<Rightarrow> field list \<Rightarrow> field list list \<Rightarrow> field list
   \<Rightarrow> (field list list, wire_error) result" where
  "group_loop count delim members [] closed current =
     Ok (if current \<noteq> [] then closed @ [current] else closed)"
| "group_loop count delim members (f # rest) closed current =
     (if field_tag f = delim then
        (if current \<noteq> [] then group_loop count delim members rest (closed @ [current]) [f]
         else group_loop count delim members rest closed (current @ [f]))
      else if field_tag f \<in> set members then
        (if current = [] \<or> (\<exists>item\<in>set current. field_tag item = field_tag f)
         then Err (InvalidRepeatingGroup count)
         else group_loop count delim members rest closed (current @ [f]))
      else Ok (if current \<noteq> [] then closed @ [current] else closed))"

text \<open>
  \<open>Vec::with_capacity(count)\<close> for entries of 24 bytes panics when the allocation would
  exceed \<open>isize::MAX\<close> bytes. The panic is the outcome \<open>None\<close>.
\<close>

definition vec_entry_bytes :: nat where
  "vec_entry_bytes = 24"

definition capacity_overflows :: "nat \<Rightarrow> bool" where
  "capacity_overflows count \<longleftrightarrow> count * vec_entry_bytes > 2 ^ 63 - 1"

definition repeating_group ::
  "fix_message \<Rightarrow> nat \<Rightarrow> nat \<Rightarrow> nat list \<Rightarrow> (repeating_group, wire_error) result option" where
  "repeating_group m count delim members =
     (case position (\<lambda>f. field_tag f = count) (message_fields m) of
        None \<Rightarrow> Some (Err (MissingRequiredTag count))
      | Some count_index \<Rightarrow>
          (case parse_uint 64 (field_value (message_fields m ! count_index)) of
             None \<Rightarrow> Some (Err (InvalidRepeatingGroup count))
           | Some n \<Rightarrow>
               if capacity_overflows n then None
               else Some (
                 attempt (group_loop count delim members (drop (count_index + 1) (message_fields m)) [] []) (\<lambda>es.
                 if length es \<noteq> n
                    \<or> (\<exists>entry\<in>set es. map_option field_tag (get_at entry 0) \<noteq> Some delim)
                 then Err (InvalidRepeatingGroup count)
                 else Ok \<lparr>count_tag = count, delimiter_tag = delim, entries = es\<rparr>))))"

subsection \<open>The competition's application messages\<close>

record message_rule =
  rule_msg_type :: string
  required_tags :: "nat list"
  allowed_tags :: "nat list"

definition STANDARD_HEADER_TAGS :: "nat list" where
  "STANDARD_HEADER_TAGS = [49, 56, 34, 43, 52, 122]"

definition NEW_ORDER_SINGLE :: message_rule where
  "NEW_ORDER_SINGLE =
     \<lparr>rule_msg_type = ''D'', required_tags = [11, 48, 207, 54, 38, 40],
      allowed_tags = [11, 48, 207, 54, 38, 40, 44, 59, 18, 1138, 60, 10021, 10022]\<rparr>"

definition CANCEL_REQUEST :: message_rule where
  "CANCEL_REQUEST =
     \<lparr>rule_msg_type = ''F'', required_tags = [11, 41, 48, 54], allowed_tags = [11, 41, 37, 48, 54, 60]\<rparr>"

definition REPLACE_REQUEST :: message_rule where
  "REPLACE_REQUEST =
     \<lparr>rule_msg_type = ''G'', required_tags = [11, 41, 48, 54, 38, 40],
      allowed_tags = [11, 41, 37, 48, 54, 38, 40, 44, 59, 18, 1138, 60, 10022]\<rparr>"

definition STATUS_REQUEST :: message_rule where
  "STATUS_REQUEST = \<lparr>rule_msg_type = ''H'', required_tags = [37], allowed_tags = [11, 37, 48, 54]\<rparr>"

definition MARKET_DATA_REQUEST :: message_rule where
  "MARKET_DATA_REQUEST =
     \<lparr>rule_msg_type = ''V'', required_tags = [262, 263, 264, 267, 269, 48, 207],
      allowed_tags = [262, 263, 264, 265, 266, 267, 269, 146, 55, 48, 207]\<rparr>"

definition competition_rule :: "string \<Rightarrow> message_rule option" where
  "competition_rule type =
     (if type = ''D'' then Some NEW_ORDER_SINGLE
      else if type = ''F'' then Some CANCEL_REQUEST
      else if type = ''G'' then Some REPLACE_REQUEST
      else if type = ''H'' then Some STATUS_REQUEST
      else if type = ''V'' then Some MARKET_DATA_REQUEST
      else None)"

text \<open>The second loop, over the fields with the ones before them.\<close>

fun check_rule_fields :: "message_rule \<Rightarrow> field list \<Rightarrow> field list \<Rightarrow> (unit, wire_error) result" where
  "check_rule_fields rule prior [] = Ok ()"
| "check_rule_fields rule prior (f # rest) =
     (if (\<exists>p\<in>set prior. field_tag p = field_tag f) \<and> field_tag f \<notin> {269, 55, 48}
      then Err (DuplicateTag (field_tag f))
      else if field_tag f \<notin> set STANDARD_HEADER_TAGS \<and> field_tag f \<notin> set (allowed_tags rule)
      then Err InvalidField
      else check_rule_fields rule (prior @ [f]) rest)"

definition validate_competition ::
  "(competition_dictionary, wire_error) result \<Rightarrow> fix_message \<Rightarrow> (unit, wire_error) result" where
  "validate_competition dict m =
     attempt dict (\<lambda>d.
     attempt (dictionary_validate d m) (\<lambda>_.
     case competition_rule (msg_type m) of
       None \<Rightarrow> Ok ()
     | Some rule \<Rightarrow>
         attempt (try_fold (\<lambda>required _.
             if \<exists>f\<in>set (message_fields m). field_tag f = required then Ok ()
             else Err (MissingRequiredTag required)) (required_tags rule) ()) (\<lambda>_.
         check_rule_fields rule [] (message_fields m))))"

end
