(* ===== verification/Fix_Wire_Laws.thy ===== *)
theory Fix_Wire_Laws
  imports Fix_Wire "HOL-Library.Code_Target_Numeral"
begin

text \<open>
  Laws of the FIX framing (theory \<open>Fix_Wire\<close>). A frame is described by \<open>render\<close>, the
  concatenation of its fields; \<open>encode_Ok_iff\<close> shows what \<open>encode\<close> writes, and the lemmas on
  \<open>split_on\<close>, \<open>position\<close> and \<open>parse_uint\<close> read it back. \<open>frame_len_extend\<close> shows that the
  recognition of a frame looks only at the frame's own bytes, which is why the decoder's
  result does not depend on the cutting of the stream into reads.
\<close>

subsection \<open>Byte strings\<close>

lemma digits_utf8: "(\<forall>c\<in>set s. is_digit c) \<Longrightarrow> from_utf8 s = Some s"
  by (fastforce simp: from_utf8_def is_digit_def intro: utf8_ascii)

lemma show_u128_utf8 [simp]: "from_utf8 (show_u128 n) = Some (show_u128 n)"
  by (rule digits_utf8) (auto dest: show_u128_digits)

lemma show_u128_no_SOH [simp]: "SOH \<notin> set (show_u128 n)"
  by (auto simp: SOH_def is_digit_def dest: show_u128_digits)

lemma show_u128_no_eq [simp]: "CHR ''='' \<notin> set (show_u128 n)"
  by (auto simp: is_digit_def dest: show_u128_digits)

lemma parse_uint_show: "n < 2 ^ w \<Longrightarrow> w \<le> 128 \<Longrightarrow> parse_uint w (show_u128 n) = Some n"
  using power_increasing [of w 128 "2 :: nat"] by (simp add: parse_uint_def parse_show_u128)

lemma length_show_u128_less: "0 < k \<Longrightarrow> n < 10 ^ k \<Longrightarrow> length (show_u128 n) \<le> k"
proof (induction n arbitrary: k rule: show_u128.induct)
  case (1 n)
  show ?case
  proof (cases "n < 10")
    case True
    then show ?thesis
      using "1.prems" by (subst show_u128.simps) simp
  next
    case False
    with "1.prems" obtain j where k: "k = Suc j" "0 < j"
      by (cases k; cases "k - 1") auto
    with False "1.prems" have "length (show_u128 (n div 10)) \<le> j"
      by (intro "1.IH") (auto simp: less_mult_imp_div_less mult.commute)
    with False k show ?thesis
      by (subst show_u128.simps) simp
  qed
qed

lemma foldl_push_zeros: "foldl push_digit (Some 0) (replicate k (CHR ''0'')) = Some 0"
  by (induction k) (auto simp: push_digit_def is_digit_def)

lemma show_03_digits: "c \<in> set (show_03 n) \<Longrightarrow> is_digit c"
  by (auto simp: show_03_def is_digit_def dest: show_u128_digits)

lemma show_03_length: "n < 256 \<Longrightarrow> length (show_03 n) = 3"
  using length_show_u128_less [of 3 n] by (simp add: show_03_def)

lemma show_03_utf8 [simp]: "from_utf8 (show_03 n) = Some (show_03 n)"
  by (rule digits_utf8) (auto dest: show_03_digits)

lemma parse_show_03: "n < 256 \<Longrightarrow> parse_uint 8 (show_03 n) = Some n"
proof -
  assume n: "n < 256"
  obtain c t where s: "show_03 n = c # t"
    using show_03_length [OF n] by (cases "show_03 n") auto
  then have "is_digit c"
    using show_03_digits [of c n] by simp
  then have "c \<noteq> CHR ''+''"
    by (auto simp: is_digit_def)
  then have "parse_u128 (show_03 n) = parse_digits (show_03 n)"
    by (auto simp: s parse_u128_def split: char.splits bool.splits)
  also have "\<dots> = Some n"
    using n by (simp add: parse_digits_def show_03_def foldl_push_zeros foldl_show_u128 show_u128_not_Nil)
  finally show ?thesis
    using n by (simp add: parse_uint_def)
qed

subsection \<open>What the encoder writes\<close>

definition field_bytes :: "field \<Rightarrow> bytes" where
  "field_bytes f = show_u128 (field_tag f) @ ''='' @ field_value f @ [SOH]"

definition render :: "field list \<Rightarrow> bytes" where
  "render fs = concat (map field_bytes fs)"

text \<open>\<open>clean limits v\<close>: the value passes \<open>validate_value\<close>.\<close>

definition clean :: "wire_limits \<Rightarrow> string \<Rightarrow> bool" where
  "clean limits v \<longleftrightarrow> SOH \<notin> set v \<and> CHR ''='' \<notin> set v \<and> length v \<le> max_field_bytes limits"

lemma render_simps [simp]:
  "render [] = []"
  "render (f # fs) = field_bytes f @ render fs"
  "render (fs @ gs) = render fs @ render gs"
  by (simp_all add: render_def)

lemma validate_value_Ok_iff [result_simps]: "validate_value v limits = Ok u \<longleftrightarrow> clean limits v"
  by (auto simp: validate_value_def clean_def)

lemma append_field_Ok_iff [result_simps]:
  "append_field out tag v limits = Ok out' \<longleftrightarrow> clean limits v \<and> out' = out @ field_bytes (field_new tag v)"
  by (auto simp: append_field_def result_simps field_bytes_def field_new_def)

lemma field_new_eta [simp]: "field_new (field_tag f) (field_value f) = f"
  by (simp add: field_new_def)

lemma field_new_sel [simp]: "field_tag (field_new t v) = t" "field_value (field_new t v) = v"
  by (simp_all add: field_new_def)

lemma append_fields_Ok_iff [result_simps]:
  "try_fold (append_body_field limits) fs body = Ok body' \<longleftrightarrow>
     (\<forall>f\<in>set fs. \<not> reserved_tag (field_tag f) \<and> clean limits (field_value f)) \<and> body' = body @ render fs"
  by (induction fs arbitrary: body) (auto simp: append_body_field_def result_simps)

definition body_of :: "fix_message \<Rightarrow> bytes" where
  "body_of m = render (field_new 35 (msg_type m) # message_fields m)"

definition head_of :: "fix_message \<Rightarrow> bytes" where
  "head_of m = render [field_new 8 (begin_string m), field_new 9 (show_u128 (length (body_of m)))]"

definition trailer_of :: "fix_message \<Rightarrow> bytes" where
  "trailer_of m = field_bytes (field_new 10 (show_03 (unat (checksum_of (head_of m @ body_of m)))))"

lemma encode_Ok_iff:
  "encode m limits = Ok frame \<longleftrightarrow>
     length (message_fields m) \<le> max_fields limits \<and> clean limits (begin_string m) \<and> clean limits (msg_type m)
     \<and> (\<forall>f\<in>set (message_fields m). \<not> reserved_tag (field_tag f) \<and> clean limits (field_value f))
     \<and> clean limits (show_u128 (length (body_of m)))
     \<and> clean limits (show_03 (unat (checksum_of (head_of m @ body_of m))))
     \<and> frame = head_of m @ body_of m @ trailer_of m \<and> length frame \<le> max_message_bytes limits"
  by (auto simp: encode_def result_simps Let_def body_of_def head_of_def trailer_of_def)

text \<open>The values of the message are Rust strings, its tags are of type \<open>u32\<close>.\<close>

definition field_typed :: "field \<Rightarrow> bool" where
  "field_typed f \<longleftrightarrow> field_tag f < 2 ^ 32 \<and> utf8 (map of_char (field_value f))"

definition message_typed :: "fix_message \<Rightarrow> bool" where
  "message_typed m \<longleftrightarrow> utf8 (map of_char (msg_type m)) \<and> (\<forall>f\<in>set (message_fields m). field_typed f)"

subsection \<open>Reading a frame back\<close>

lemma split_render:
  "(\<forall>f\<in>set fs. SOH \<notin> set (field_value f)) \<Longrightarrow>
   filter (\<lambda>w. w \<noteq> []) (split_on SOH (render fs))
     = map (\<lambda>f. show_u128 (field_tag f) @ ''='' @ field_value f) fs"
proof (induction fs)
  case (Cons f fs)
  let ?w = "show_u128 (field_tag f) @ ''='' @ field_value f"
  have "SOH \<notin> set ?w"
    using Cons.prems by (simp add: SOH_def) (simp flip: SOH_def)
  then have "split_on SOH (?w @ SOH # render fs) = ?w # split_on SOH (render fs)"
    by (rule split_on_append)
  then show ?case
    using Cons by (simp add: field_bytes_def)
qed simp

lemma parse_field_render:
  assumes "field_typed f" and "clean limits (field_value f)"
  shows "parse_field limits (show_u128 (field_tag f) @ ''='' @ field_value f) = Ok f"
proof -
  have "position (\<lambda>b. b = CHR ''='') (show_u128 (field_tag f) @ CHR ''='' # field_value f)
      = Some (length (show_u128 (field_tag f)))"
    using show_u128_no_eq [of "field_tag f"] by (intro position_append) auto
  then show ?thesis
    using assms by (simp add: parse_field_def parse_uint_show field_typed_def from_utf8_def [of "field_value f"]
        attempt_Ok_iff result_simps)
qed

lemma try_map_parse_fields:
  "(\<forall>f\<in>set fs. field_typed f \<and> clean limits (field_value f)) \<Longrightarrow>
   try_map (parse_field limits) (map (\<lambda>f. show_u128 (field_tag f) @ ''='' @ field_value f) fs) = Ok fs"
  by (simp add: try_map_Ok_iff list_all2_map1 list_all2_same parse_field_render del: append.simps)

lemma show_tags [simp]:
  "show_u128 8 = ''8''" "show_u128 9 = ''9''" "show_u128 10 = ''10''" "show_u128 35 = ''35''"
  by code_simp+

lemma parse_encoded:
  assumes "encode m limits = Ok frame" and "begin_string m = FIXT_11" and "message_typed m"
  shows "parse_frame frame limits = Ok m"
proof -
  let ?hb = "head_of m @ body_of m"
  let ?cs = "unat (checksum_of ?hb)"
  let ?fs = "[field_new 8 (begin_string m), field_new 9 (show_u128 (length (body_of m))),
              field_new 35 (msg_type m)] @ message_fields m"
  note enc = assms(1) [unfolded encode_Ok_iff]
  have cs: "?cs < 256"
    using unsigned_less [of "checksum_of ?hb"] by simp
  have trailer: "trailer_of m = ''10='' @ show_03 ?cs @ [SOH]"
    by (simp add: trailer_of_def field_bytes_def)
  have frame: "frame = ?hb @ ''10='' @ show_03 ?cs @ [SOH]"
    using enc by (simp add: trailer)
  have len: "length frame - 7 = length ?hb" "\<not> length frame < 7"
    by (simp_all add: frame show_03_length [OF cs])
  have hb: "?hb = render ?fs"
    by (simp add: head_of_def body_of_def)
  have typed: "\<forall>f\<in>set ?fs. field_typed f \<and> clean limits (field_value f)"
    using enc assms(2,3) show_u128_utf8 [of "length (body_of m)"]
    by (auto simp: message_typed_def field_typed_def FIXT_11_def utf8_ascii from_utf8_def split: if_splits)
  have "filter (\<lambda>w. w \<noteq> []) (split_on SOH ?hb)
      = map (\<lambda>f. show_u128 (field_tag f) @ ''='' @ field_value f) ?fs"
    unfolding hb using typed by (intro split_render) (auto simp: clean_def)
  with try_map_parse_fields [OF typed]
  have parsed: "try_map (parse_field limits) (filter (\<lambda>w. w \<noteq> []) (split_on SOH ?hb)) = Ok ?fs"
    by simp
  have keep: "filter (\<lambda>f. \<not> (field_tag f = 8 \<or> field_tag f = 9 \<or> field_tag f = 35)) ?fs = message_fields m"
    using enc by (auto simp: reserved_tag_def intro!: filter_True)
  have slice: "take 3 (drop (length ?hb + 3) frame) = show_03 ?cs"
    using show_03_length [OF cs] by (simp add: frame)
  show ?thesis
    using enc len parsed keep slice assms(2) parse_show_03 [OF cs]
    by (simp add: parse_frame_def Let_def get_at_def frame del: filter.simps)
qed

text \<open>The recognition of a frame, on the parts it looks at.\<close>

lemma delimiter_after_append:
  "SOH \<notin> set w \<Longrightarrow> delimiter_after (pre @ w @ SOH # rest) (length pre) = Some (length pre + length w)"
  using position_append [of w "\<lambda>b. b = SOH" SOH rest] by (auto simp: delimiter_after_def)

lemma begin_prefix_length: "length begin_prefix = 11"
  by (simp add: begin_prefix_def)

lemma complete_frame_len_head:
  assumes "SOH \<notin> set t" and "bs = begin_prefix @ ''9='' @ t @ SOH # tail"
  shows "complete_frame_len bs limits =
    attempt (ok_or InvalidBodyLength (from_utf8 t)) (\<lambda>text.
    attempt (ok_or InvalidBodyLength (parse_uint 64 text)) (\<lambda>n.
    attempt (ok_or MessageTooLarge (checked_u64 (14 + length t + n))) (\<lambda>checksum_start.
    attempt (ok_or MessageTooLarge (checked_u64 (checksum_start + 7))) (\<lambda>total.
    if total > max_message_bytes limits then Err MessageTooLarge
    else if length bs < total then Ok None
    else if get_range bs checksum_start (checksum_start + 3) \<noteq> Some ''10=''
         \<or> get_at bs (total - 1) \<noteq> Some SOH
    then Err InvalidBodyLength
    else Ok (Some total)))))"
proof -
  note pre = begin_prefix_length
  have nine: "SOH \<notin> set ''9=''"
    by (simp add: SOH_def)
  have first: "delimiter_after bs 0 = Some 10"
    using delimiter_after_append [of "''8=FIXT.1.1''" "[]" "''9='' @ t @ SOH # tail"]
    unfolding assms(2) begin_prefix_def by (simp add: SOH_def)
  have second: "delimiter_after bs 11 = Some (13 + length t)"
    using delimiter_after_append [of "''9='' @ t" begin_prefix tail] assms(1) nine
    unfolding assms(2) by (simp add: pre)
  have start: "starts_with bs begin_prefix" "bs \<noteq> []"
    unfolding assms(2) by (simp_all add: starts_with_def begin_prefix_def)
  have range: "get_range bs 11 13 = Some ''9=''"
    unfolding assms(2) by (simp add: get_range_def pre)
  have slice: "take (length t) (drop 13 bs) = t"
    unfolding assms(2) by (simp add: pre)
  show ?thesis
    by (simp add: complete_frame_len_def Let_def start first second range slice)
qed

lemma encoded_shape:
  assumes "encode m limits = Ok frame" and "begin_string m = FIXT_11"
  obtains cs where "length cs = 3" and
    "frame = begin_prefix @ ''9='' @ show_u128 (length (body_of m)) @ SOH # body_of m @ ''10='' @ cs @ [SOH]"
proof
  let ?cs = "unat (checksum_of (head_of m @ body_of m))"
  have "?cs < 256"
    using unsigned_less [of "checksum_of (head_of m @ body_of m)"] by simp
  then show "length (show_03 ?cs) = 3"
    by (rule show_03_length)
  have "head_of m = begin_prefix @ ''9='' @ show_u128 (length (body_of m)) @ [SOH]"
    by (simp add: head_of_def field_bytes_def begin_prefix_def assms(2) FIXT_11_def)
  moreover have "trailer_of m = ''10='' @ show_03 ?cs @ [SOH]"
    by (simp add: trailer_of_def field_bytes_def)
  moreover have "frame = head_of m @ body_of m @ trailer_of m"
    using assms(1) by (simp add: encode_Ok_iff)
  ultimately show "frame = begin_prefix @ ''9='' @ show_u128 (length (body_of m)) @ SOH # body_of m
      @ ''10='' @ show_03 ?cs @ [SOH]"
    by (metis append_assoc append_Cons append_Nil)
qed

lemma frame_len_encoded:
  assumes "encode m limits = Ok frame" and "begin_string m = FIXT_11" and "max_message_bytes limits < 2 ^ 64"
  shows "complete_frame_len (frame @ rest) limits = Ok (Some (length frame))"
proof -
  let ?t = "show_u128 (length (body_of m))"
  obtain cs where cs: "length cs = 3" and
    frame: "frame = begin_prefix @ ''9='' @ ?t @ SOH # body_of m @ ''10='' @ cs @ [SOH]"
    using encoded_shape [OF assms(1,2)] .
  have bound: "length frame \<le> max_message_bytes limits"
    using iffD1 [OF encode_Ok_iff assms(1)] by blast
  define k where "k = 14 + length ?t + length (body_of m)"
  have total: "length frame = k + 7"
    by (simp add: frame cs begin_prefix_length k_def)
  have range: "get_range (frame @ rest) k (k + 3) = Some ''10=''"
    using get_range_append [of "begin_prefix @ ''9='' @ ?t @ SOH # body_of m" "''10=''" "cs @ [SOH] @ rest"]
    by (simp add: frame begin_prefix_length k_def add_ac)
  have last: "get_at (frame @ rest) (6 + k) = Some SOH"
    by (simp add: get_at_def nth_append frame begin_prefix_length cs k_def)
  have small: "length (body_of m) < 2 ^ 64" "k + 7 < 2 ^ 64" "k < 2 ^ 64"
    using total bound assms(3) by (simp_all add: k_def)
  then have checked: "parse_uint 64 ?t = Some (length (body_of m))"
      "checked_u64 k = Some k" "checked_u64 (k + 7) = Some (k + 7)"
    by (simp_all only: parse_uint_show checked_u64_def) simp_all
  have "frame @ rest = begin_prefix @ ''9='' @ ?t @ SOH # (body_of m @ ''10='' @ cs @ [SOH] @ rest)"
    by (simp add: frame)
  note len = complete_frame_len_head [OF show_u128_no_SOH this]
  show ?thesis
    using total bound range last
    by (simp add: len checked flip: k_def)
qed

subsection \<open>Independence of the cutting into reads\<close>

lemma delimiter_after_extend: "delimiter_after a i = Some j \<Longrightarrow> delimiter_after (a @ b) i = Some j"
  by (auto simp: delimiter_after_def position_prefix split: if_splits)

lemma delimiter_after_bound: "delimiter_after a i = Some j \<Longrightarrow> i \<le> j \<and> j < length a"
  by (auto simp: delimiter_after_def dest!: position_bound split: if_splits)

lemma position_split:
  "position P xs = Some i \<Longrightarrow> \<exists>ys y zs. xs = ys @ y # zs \<and> P y \<and> (\<forall>x\<in>set ys. \<not> P x)"
proof (induction xs arbitrary: i)
  case (Cons x xs)
  show ?case
  proof (cases "P x")
    case False
    with Cons obtain ys y zs where "xs = ys @ y # zs" "P y" "\<forall>x\<in>set ys. \<not> P x"
      by auto
    with False show ?thesis
      by (intro exI [of _ "x # ys"] exI [of _ y] exI [of _ zs]) simp
  qed (auto intro: exI [of _ "[]"])
qed simp

lemma frame_len_head:
  assumes "complete_frame_len a limits = Ok (Some n)"
  obtains t tail where "SOH \<notin> set t" and "a = begin_prefix @ ''9='' @ t @ SOH # tail"
proof -
  have "starts_with a begin_prefix"
    using assms by (auto simp: complete_frame_len_def split: if_splits)
  then obtain r where a: "a = begin_prefix @ r"
    by (metis append_take_drop_id starts_with_def)
  have first: "delimiter_after a 0 = Some 10"
    using delimiter_after_append [of "''8=FIXT.1.1''" "[]" r] by (simp add: a begin_prefix_def SOH_def)
  obtain j where "get_range a 11 13 = Some ''9=''" and j: "delimiter_after a 11 = Some j"
    using assms by (auto simp: complete_frame_len_def first split: if_splits option.splits)
  then have "take 2 r = ''9=''"
    by (simp add: a get_range_def begin_prefix_length split: if_splits)
  then obtain r' where r: "r = ''9='' @ r'"
    by (metis append_take_drop_id)
  from j obtain i where "position (\<lambda>b. b = SOH) r' = Some i"
    by (auto simp: a r delimiter_after_def begin_prefix_length SOH_def split: if_splits)
  then obtain t tail where "r' = t @ SOH # tail" "SOH \<notin> set t"
    by (auto dest!: position_split)
  then show thesis
    using that by (simp add: a r)
qed

text \<open>A frame recognised in \<open>a\<close> is recognised at the same length when more bytes follow.\<close>

lemma frame_len_extend:
  assumes "complete_frame_len a limits = Ok (Some n)"
  shows "complete_frame_len (a @ b) limits = Ok (Some n)"
proof -
  obtain t tail where t: "SOH \<notin> set t" and a: "a = begin_prefix @ ''9='' @ t @ SOH # tail"
    using frame_len_head [OF assms] .
  have ab: "a @ b = begin_prefix @ ''9='' @ t @ SOH # (tail @ b)"
    by (simp add: a)
  obtain x m where m: "from_utf8 t = Some x" "parse_uint 64 x = Some m"
      "checked_u64 (14 + length t + m) = Some (14 + length t + m)"
      "checked_u64 (14 + length t + m + 7) = Some n" "n = 14 + length t + m + 7"
    and n: "n \<le> max_message_bytes limits" "n \<le> length a"
      "get_range a (14 + length t + m) (14 + length t + m + 3) = Some ''10=''" "get_at a (n - 1) = Some SOH"
    using assms unfolding complete_frame_len_head [OF t a]
    by (auto simp: result_simps not_less split: if_splits)
  have "get_range (a @ b) (14 + length t + m) (14 + length t + m + 3) = Some ''10=''" "get_at (a @ b) (n - 1) = Some SOH"
    using n m(5) by (simp_all add: get_range_extend get_at_extend)
  with m n show ?thesis
    unfolding complete_frame_len_head [OF t ab] by simp
qed

lemma complete_frame_len_drop:
  assumes "complete_frame_len bs limits = Ok (Some n)"
  shows "length (drop n bs) < length bs"
proof -
  have "7 \<le> n" "n \<le> length bs"
    using complete_frame_len_bound [OF assms] by simp_all
  then show ?thesis
    by (simp only: length_drop)
qed

lemma drain_frames_acc:
  "drain_frames d limits buffer messages =
     map_prod (\<lambda>r. attempt r (\<lambda>found. Ok (messages @ found))) id (drain_frames d limits buffer [])"
proof (induction buffer arbitrary: messages rule: measure_induct_rule [of length])
  case (less buffer)
  show ?case
  proof (cases "complete_frame_len buffer limits")
    case (Inr len)
    show ?thesis
    proof (cases len)
      case (Some n)
      then have "length (drop n buffer) < length buffer"
        using Inr complete_frame_len_drop [of buffer limits n] by simp
      note IH = less.IH [OF this]
      have step: "drain_frames d limits buffer ms =
          (case parse_frame (take n buffer) limits of Inl e \<Rightarrow> (Err e, drop n buffer)
           | Inr m \<Rightarrow> (case dictionary_validate d m of Inl e \<Rightarrow> (Err e, drop n buffer)
              | Inr _ \<Rightarrow> drain_frames d limits (drop n buffer) (ms @ [m])))" for ms
        using Inr Some by (subst drain_frames.simps) (simp add: Let_def)
      show ?thesis
      proof (cases "parse_frame (take n buffer) limits")
        case (Inr m)
        then show ?thesis
          using IH [of "messages @ [m]"] IH [of "[m]"]
          by (cases "dictionary_validate d m"; cases "fst (drain_frames d limits (drop n buffer) [])")
             (simp_all add: step map_prod_def split_beta)
      qed (simp add: step)
    qed (use Inr in \<open>simp add: drain_frames.simps [of d limits buffer]\<close>)
  qed (simp add: drain_frames.simps [of d limits buffer])
qed

lemma drain_frames_shrinks: "drain_frames d limits a messages = (res, r) \<Longrightarrow> length r \<le> length a"
proof (induction a arbitrary: messages rule: measure_induct_rule [of length])
  case (less a)
  show ?case
  proof (cases "\<exists>n. complete_frame_len a limits = Ok (Some n)")
    case True
    then obtain n where n: "complete_frame_len a limits = Ok (Some n)"
      by blast
    have IH: "drain_frames d limits (drop n a) ms = (res, r) \<Longrightarrow> length r \<le> length (drop n a)" for ms
      using less.IH [OF complete_frame_len_drop [OF n]] .
    show ?thesis
      using less.prems n IH by (subst (asm) drain_frames.simps) (fastforce simp: Let_def split: sum.splits)
  qed (use less.prems in \<open>subst (asm) drain_frames.simps, auto split: sum.splits option.splits\<close>)
qed

lemma drain_frames_extend:
  "drain_frames d limits a messages = (Ok found, r) \<Longrightarrow>
   drain_frames d limits (a @ b) messages = drain_frames d limits (r @ b) found"
proof (induction a arbitrary: messages rule: measure_induct_rule [of length])
  case (less a)
  from less.prems obtain len where len: "complete_frame_len a limits = Ok len"
    by (subst (asm) drain_frames.simps) (auto split: sum.splits)
  show ?case
  proof (cases len)
    case None
    with less.prems len show ?thesis
      by (subst (asm) drain_frames.simps) simp
  next
    case (Some n)
    with len have n: "complete_frame_len a limits = Ok (Some n)"
      by simp
    note bound = complete_frame_len_bound [OF n]
    from less.prems n obtain m u where m: "parse_frame (take n a) limits = Ok m" "dictionary_validate d m = Ok u"
      and rest: "drain_frames d limits (drop n a) (messages @ [m]) = (Ok found, r)"
      by (subst (asm) drain_frames.simps) (auto simp: Let_def split: sum.splits)
    have "drain_frames d limits (drop n a @ b) (messages @ [m]) = drain_frames d limits (r @ b) found"
      by (rule less.IH [OF complete_frame_len_drop [OF n] rest])
    with m bound frame_len_extend [OF n] show ?thesis
      by (subst drain_frames.simps) (simp add: Let_def)
  qed
qed

subsection \<open>Streams of encoded messages\<close>

text \<open>\<open>deliverable\<close>: a message both ends accept, with the frame that carries it.\<close>

definition deliverable :: "competition_dictionary \<Rightarrow> wire_limits \<Rightarrow> fix_message \<Rightarrow> bytes \<Rightarrow> bool" where
  "deliverable d limits m frame \<longleftrightarrow>
     encode m limits = Ok frame \<and> message_typed m \<and> dictionary_validate d m = Ok ()"

lemma deliverable_begin: "deliverable d limits m frame \<Longrightarrow> begin_string m = FIXT_11"
  by (auto simp: deliverable_def dictionary_validate_def split: if_splits)

lemma drain_deliverable:
  assumes "deliverable d limits m frame" and "max_message_bytes limits < 2 ^ 64"
  shows "drain_frames d limits (frame @ rest) messages = drain_frames d limits rest (messages @ [m])"
proof -
  have enc: "encode m limits = Ok frame" "message_typed m" "dictionary_validate d m = Ok ()"
    using assms(1) by (simp_all add: deliverable_def)
  note fixt = deliverable_begin [OF assms(1)]
  show ?thesis
    using frame_len_encoded [OF enc(1) fixt assms(2), of rest] parse_encoded [OF enc(1) fixt enc(2)] enc(3)
    by (subst drain_frames.simps) (simp add: Let_def)
qed

lemma drain_nothing [simp]: "drain_frames d limits [] messages = (Ok messages, [])"
  by (subst drain_frames.simps) (simp add: complete_frame_len_def)

lemma drain_stream:
  assumes "list_all2 (deliverable d limits) ms frames" and "max_message_bytes limits < 2 ^ 64"
  shows "drain_frames d limits (concat frames @ rest) messages = drain_frames d limits rest (messages @ ms)"
  using assms(1)
  by (induction arbitrary: messages rule: list_all2_induct) (simp_all add: drain_deliverable [OF _ assms(2)])

lemma frame_len_unterminated:
  assumes "SOH \<notin> set t"
  shows "complete_frame_len (begin_prefix @ ''9='' @ t) limits = Ok None"
proof -
  let ?bs = "begin_prefix @ ''9='' @ t"
  have first: "delimiter_after ?bs 0 = Some 10"
    using delimiter_after_append [of "''8=FIXT.1.1''" "[]" "''9='' @ t"] by (simp add: begin_prefix_def SOH_def)
  have "position (\<lambda>b. b = SOH) (''9='' @ t) = None"
    using assms by (intro position_None) (auto simp: SOH_def)
  then have second: "delimiter_after ?bs 11 = None"
    by (simp add: delimiter_after_def begin_prefix_length)
  have "starts_with ?bs begin_prefix" "?bs \<noteq> []" "get_range ?bs 11 13 = Some ''9=''"
    by (simp_all add: starts_with_def get_range_def begin_prefix_length)
  with first second show ?thesis
    by (simp add: complete_frame_len_def Let_def)
qed

lemma encoded_fragment:
  assumes "encode m limits = Ok frame" and "begin_string m = FIXT_11" and "max_message_bytes limits < 2 ^ 64"
    and "13 \<le> k" and "k < length frame"
  shows "complete_frame_len (take k frame) limits = Ok None"
proof -
  let ?t = "show_u128 (length (body_of m))"
  obtain cs where cs: "length cs = 3" and
    frame: "frame = begin_prefix @ ''9='' @ ?t @ SOH # body_of m @ ''10='' @ cs @ [SOH]"
    using encoded_shape [OF assms(1,2)] .
  show ?thesis
  proof (cases "k \<le> 13 + length ?t")
    case True
    then have "take k frame = begin_prefix @ ''9='' @ take (k - 13) ?t"
      using assms(4) by (simp add: frame begin_prefix_length take_Cons')
    moreover have "SOH \<notin> set (take (k - 13) ?t)"
      using show_u128_no_SOH by (blast dest: in_set_takeD)
    ultimately show ?thesis
      using frame_len_unterminated by simp
  next
    case False
    define n where "n = 14 + length ?t + length (body_of m)"
    have total: "length frame = n + 7"
      by (simp add: frame cs begin_prefix_length n_def)
    have bound: "length frame \<le> max_message_bytes limits"
      using iffD1 [OF encode_Ok_iff assms(1)] by blast
    then have "length (body_of m) < 2 ^ 64" "n + 7 < 2 ^ 64" "n < 2 ^ 64"
      using total assms(3) by (simp_all add: n_def)
    then have checked: "parse_uint 64 ?t = Some (length (body_of m))"
        "checked_u64 n = Some n" "checked_u64 (n + 7) = Some (n + 7)"
      by (simp_all only: parse_uint_show checked_u64_def) simp_all
    have "take k frame = begin_prefix @ ''9='' @ ?t @ SOH # take (k - 14 - length ?t) (body_of m @ ''10='' @ cs @ [SOH])"
      using False by (simp add: frame begin_prefix_length take_Cons' del: append_assoc)
    note len = complete_frame_len_head [OF show_u128_no_SOH this]
    show ?thesis
      using total bound assms(5) by (simp add: len checked flip: n_def)
  qed
qed

lemma encoded_cut:
  assumes "encode m limits = Ok frame" and "begin_string m = FIXT_11" and "k = 11 \<or> k = 12"
  shows "take k frame = begin_prefix @ take (k - 11) ''9=''"
proof -
  obtain cs where frame:
    "frame = begin_prefix @ ''9='' @ show_u128 (length (body_of m)) @ SOH # body_of m @ ''10='' @ cs @ [SOH]"
    using encoded_shape [OF assms(1,2)] .
  show ?thesis
    using assms(3) by (elim disjE) (simp_all add: frame begin_prefix_length)
qed

lemma fragment_too_short:
  assumes "bs \<noteq> []" and "length bs < 11"
  shows "complete_frame_len bs limits = Err InvalidBeginString"
proof -
  have "\<not> starts_with bs begin_prefix"
    using assms(2) by (auto simp: starts_with_def begin_prefix_length dest!: arg_cong [of _ _ length])
  with assms(1) show ?thesis
    by (simp add: complete_frame_len_def)
qed

lemma fragment_no_length:
  assumes "bs = begin_prefix @ take j ''9=''" and "j < 2"
  shows "complete_frame_len bs limits = Err InvalidBodyLength"
proof -
  have first: "delimiter_after bs 0 = Some 10"
    using delimiter_after_append [of "''8=FIXT.1.1''" "[]" "take j ''9=''"]
    unfolding assms(1) begin_prefix_def by (simp add: SOH_def)
  have "starts_with bs begin_prefix" "bs \<noteq> []"
    unfolding assms(1) by (simp_all add: starts_with_def begin_prefix_def)
  moreover have "get_range bs 11 13 = None"
    using assms by (simp add: get_range_def begin_prefix_length)
  ultimately show ?thesis
    by (simp add: complete_frame_len_def Let_def first)
qed


text \<open>
  The decoder does not depend on how the stream is cut: when a read of \<open>a\<close> succeeds,
  a read of \<open>b\<close> after it gives exactly what one read of \<open>a @ b\<close> would have given, the
  messages found (or the error) and the bytes retained alike (\<open>Decoder::push\<close>).
\<close>

theorem push_split:
  assumes "decoder_push dec a = (Ok found, dec')"
    and "length (decoder_buffer dec) + length a + length b \<le> max_buffer_bytes (decoder_limits dec)"
  shows "decoder_push dec (a @ b) =
    (case decoder_push dec' b of (r, dec'') \<Rightarrow> (attempt r (\<lambda>more. Ok (found @ more)), dec''))"
proof -
  let ?d = "decoder_dictionary dec" and ?l = "decoder_limits dec"
  obtain r where r: "drain_frames ?d ?l (decoder_buffer dec @ a) [] = (Ok found, r)" "dec' = dec\<lparr>decoder_buffer := r\<rparr>"
    using assms by (auto simp: decoder_push_def split: if_splits prod.splits)
  have "length r \<le> length (decoder_buffer dec @ a)"
    using drain_frames_shrinks [OF r(1)] .
  then show ?thesis
    using assms r drain_frames_extend [OF r(1), of b] drain_frames_acc [of ?d ?l "r @ b" found]
    by (auto simp: decoder_push_def map_prod_def split: prod.splits)
qed


text \<open>
  A frame cut at an arbitrary byte \<open>k\<close>. From byte 13 on the first part is retained
  and the second part completes the message; a cut inside the first 12 bytes is refused
  as malformed, although the rest of the frame may still arrive (\<open>complete_frame_len\<close>).
\<close>

theorem fragment_outcome:
  assumes "deliverable (decoder_dictionary dec) (decoder_limits dec) m frame"
    and "decoder_buffer dec = []" and "max_message_bytes (decoder_limits dec) < 2 ^ 64"
    and "length frame \<le> max_buffer_bytes (decoder_limits dec)"
    and "0 < k" and "k < length frame"
  shows "decoder_push dec (take k frame) =
    (if k < 11 then Err InvalidBeginString else if k < 13 then Err InvalidBodyLength else Ok [],
     dec\<lparr>decoder_buffer := take k frame\<rparr>)
    \<and> (13 \<le> k \<longrightarrow> decoder_push (dec\<lparr>decoder_buffer := take k frame\<rparr>) (drop k frame) = (Ok [m], dec))"
proof -
  let ?d = "decoder_dictionary dec" and ?l = "decoder_limits dec"
  have enc: "encode m ?l = Ok frame" and fixt: "begin_string m = FIXT_11"
    using assms(1) deliverable_begin [OF assms(1)] by (simp_all add: deliverable_def)
  have fit: "length (take k frame) \<le> max_buffer_bytes ?l"
    using assms(4,6) by simp
  have push: "decoder_push dec (take k frame) =
      (case drain_frames ?d ?l (take k frame) [] of (r, buffer) \<Rightarrow> (r, dec\<lparr>decoder_buffer := buffer\<rparr>))"
    using fit assms(2,6) by (simp add: decoder_push_def)
  have whole: "decoder_push (dec\<lparr>decoder_buffer := take k frame\<rparr>) (drop k frame) = (Ok [m], dec)"
    using drain_deliverable [OF assms(1,3), of "[]" "[]"] assms(2,4,6) by (simp add: decoder_push_def)
  consider "k < 11" | "k = 11 \<or> k = 12" | "13 \<le> k"
    by linarith
  then show ?thesis
  proof cases
    case 1
    then have "complete_frame_len (take k frame) ?l = Err InvalidBeginString"
      using fragment_too_short [of "take k frame"] assms(5,6) by (cases "frame = []") simp_all
    with 1 show ?thesis
      by (simp add: push drain_frames.simps [of ?d ?l "take k frame"])
  next
    case 2
    then have "complete_frame_len (take k frame) ?l = Err InvalidBodyLength"
      by (intro fragment_no_length [OF encoded_cut [OF enc fixt]]) auto
    with 2 show ?thesis
      by (auto simp: push drain_frames.simps [of ?d ?l "take k frame"])
  next
    case 3
    have "complete_frame_len (take k frame) ?l = Ok None"
      using encoded_fragment [OF enc fixt assms(3) 3 assms(6)] .
    with 3 whole show ?thesis
      by (simp add: push drain_frames.simps [of ?d ?l "take k frame"])
  qed
qed

subsection \<open>A concrete stream\<close>

text \<open>
  A dictionary that declares every message type and the tags below 2000, a heartbeat and
  a test request, with the frames they are encoded to.
\<close>

definition demo_dictionary :: competition_dictionary where
  "demo_dictionary =
     (let d = \<lparr>message_by_msgtype = (\<lambda>_. True), field_by_tag = (\<lambda>tag. tag < 2000), price_datatype = (\<lambda>tag. tag = 44)\<rparr>
      in \<lparr>session_dict = d, application_dict = d\<rparr>)"

definition demo_decoder :: decoder where
  "demo_decoder =
     \<lparr>decoder_limits = wire_limits_default, decoder_buffer = [], decoder_dictionary = demo_dictionary\<rparr>"

definition demo_heartbeat :: fix_message where
  "demo_heartbeat = push_field 34 ''7'' (fix_message_new ''0'')"

definition demo_test_request :: fix_message where
  "demo_test_request = push_field 112 ''probe'' (push_field 34 ''8'' (fix_message_new ''1''))"

definition demo_heartbeat_frame :: bytes where
  "demo_heartbeat_frame =
     ''8=FIXT.1.1'' @ [SOH] @ ''9=10'' @ [SOH] @ ''35=0'' @ [SOH] @ ''34=7'' @ [SOH] @ ''10=249'' @ [SOH]"

definition demo_test_request_frame :: bytes where
  "demo_test_request_frame =
     ''8=FIXT.1.1'' @ [SOH] @ ''9=20'' @ [SOH] @ ''35=1'' @ [SOH] @ ''34=8'' @ [SOH] @ ''112=probe'' @ [SOH]
     @ ''10=230'' @ [SOH]"

lemma demo_deliverable:
  "deliverable demo_dictionary wire_limits_default demo_heartbeat demo_heartbeat_frame"
  "deliverable demo_dictionary wire_limits_default demo_test_request demo_test_request_frame"
  by code_simp+

lemma demo_decoder_sel [simp]:
  "decoder_limits demo_decoder = wire_limits_default" "decoder_buffer demo_decoder = []"
  "decoder_dictionary demo_decoder = demo_dictionary"
  "max_message_bytes wire_limits_default = 65536" "max_buffer_bytes wire_limits_default = 131072"
  by (simp_all add: demo_decoder_def wire_limits_default_def)

lemma demo_frame_lengths [simp]:
  "length demo_heartbeat_frame = 33" "length demo_test_request_frame = 43"
  by (simp_all add: demo_heartbeat_frame_def demo_test_request_frame_def)


theorem fragment_outcome_witness:
  "fst (decoder_push demo_decoder (take 10 demo_heartbeat_frame)) = Err InvalidBeginString
   \<and> fst (decoder_push demo_decoder (take 12 demo_heartbeat_frame)) = Err InvalidBodyLength
   \<and> fst (decoder_push demo_decoder (take 13 demo_heartbeat_frame)) = Ok []"
  using fragment_outcome [of demo_decoder demo_heartbeat demo_heartbeat_frame 10]
    fragment_outcome [of demo_decoder demo_heartbeat demo_heartbeat_frame 12]
    fragment_outcome [of demo_decoder demo_heartbeat demo_heartbeat_frame 13]
  by (simp add: demo_deliverable)

theorem push_split_witness:
  "decoder_push demo_decoder (take 20 demo_heartbeat_frame @ drop 20 demo_heartbeat_frame)
     = (Ok [demo_heartbeat], demo_decoder)"
proof -
  let ?dec = "demo_decoder\<lparr>decoder_buffer := take 20 demo_heartbeat_frame\<rparr>"
  have a: "decoder_push demo_decoder (take 20 demo_heartbeat_frame) = (Ok [], ?dec)"
  proof -
    have "drain_frames demo_dictionary wire_limits_default (take 20 demo_heartbeat_frame) []
        = (Ok [], take 20 demo_heartbeat_frame)"
      by code_simp
    then show ?thesis
      by (simp add: decoder_push_def)
  qed
  have b: "decoder_push ?dec (drop 20 demo_heartbeat_frame) = (Ok [demo_heartbeat], demo_decoder)"
    using drain_deliverable [OF demo_deliverable(1), of "[]" "[]"] by (simp add: decoder_push_def)
  from push_split [OF a, of "drop 20 demo_heartbeat_frame"] b show ?thesis
    by simp
qed

subsection \<open>Repeating groups\<close>

text \<open>
  An entry of a group starts with the delimiter, names no tag twice and has only member
  tags after the delimiter; a group ends before the first tag that is neither.
\<close>

definition entry_ok :: "nat \<Rightarrow> nat list \<Rightarrow> field list \<Rightarrow> bool" where
  "entry_ok delim members e \<longleftrightarrow>
     (\<exists>f fs. e = f # fs \<and> field_tag f = delim \<and> distinct (map field_tag e)
        \<and> (\<forall>g\<in>set fs. field_tag g \<in> set members))"

definition group_ends :: "nat \<Rightarrow> nat list \<Rightarrow> field list \<Rightarrow> bool" where
  "group_ends delim members post \<longleftrightarrow>
     (case post of [] \<Rightarrow> True | f # _ \<Rightarrow> field_tag f \<noteq> delim \<and> field_tag f \<notin> set members)"

lemma group_loop_sound:
  assumes "group_loop count delim members rest closed current = Ok es"
    and "current = [] \<or> entry_ok delim members current"
  shows "\<exists>new post. es = closed @ new \<and> concat new @ post = current @ rest
    \<and> (\<forall>e\<in>set new. entry_ok delim members e) \<and> group_ends delim members post"
  using assms
proof (induction count delim members rest closed current rule: group_loop.induct)
  case (1 count delim members closed current)
  then show ?case
    by (cases "current = []")
       (auto simp: group_ends_def intro: exI [of _ "[]"] exI [of _ "[current]"])
next
  case (2 count delim members f rest closed current)
  consider (close) "field_tag f = delim" "current \<noteq> []" | (open_first) "field_tag f = delim" "current = []"
    | (member) "field_tag f \<noteq> delim" "field_tag f \<in> set members" "current \<noteq> []"
        "\<forall>item\<in>set current. field_tag item \<noteq> field_tag f"
    | (stop) "field_tag f \<noteq> delim" "field_tag f \<notin> set members"
    using "2.prems"(1) by (auto split: if_splits)
  then show ?case
  proof cases
    case close
    then obtain new post where "es = (closed @ [current]) @ new" "concat new @ post = [f] @ rest"
        "\<forall>e\<in>set new. entry_ok delim members e" "group_ends delim members post"
      using "2.IH"(1) "2.prems"(1) by (auto simp: entry_ok_def)
    then show ?thesis
      using close "2.prems"(2) by (intro exI [of _ "current # new"] exI [of _ post]) auto
  next
    case open_first
    then show ?thesis
      using "2.IH"(2) "2.prems"(1) by (auto simp: entry_ok_def)
  next
    case member
    then have "entry_ok delim members (current @ [f])"
      using "2.prems"(2) by (fastforce simp: entry_ok_def)
    then show ?thesis
      using member "2.IH"(3) "2.prems"(1) by auto
  next
    case stop
    then show ?thesis
      using "2.prems" by (cases "current = []")
        (auto simp: group_ends_def intro: exI [of _ "[]"] exI [of _ "[current]"])
  qed
qed

lemma group_loop_members:
  "current \<noteq> [] \<Longrightarrow> (\<forall>g\<in>set xs. field_tag g \<in> set members \<and> field_tag g \<noteq> delim) \<Longrightarrow>
   distinct (map field_tag (current @ xs)) \<Longrightarrow>
   group_loop count delim members (xs @ rest) closed current
     = group_loop count delim members rest closed (current @ xs)"
proof (induction xs arbitrary: current)
  case (Cons x xs)
  then have "\<not> (\<exists>item\<in>set current. field_tag item = field_tag x)"
    by (auto simp: image_iff)
  then show ?case
    using Cons.prems Cons.IH [of "current @ [x]"] by simp
qed simp

lemma group_loop_complete:
  "(\<forall>e\<in>set es. entry_ok delim members e) \<Longrightarrow> group_ends delim members post \<Longrightarrow>
   group_loop count delim members (concat es @ post) closed current
     = Ok (if current \<noteq> [] then closed @ [current] @ es else closed @ es)"
proof (induction es arbitrary: closed current)
  case Nil
  then show ?case
    by (cases post) (auto simp: group_ends_def)
next
  case (Cons e es)
  then obtain f fs where e: "e = f # fs" "field_tag f = delim" "distinct (map field_tag e)"
      "\<forall>g\<in>set fs. field_tag g \<in> set members"
    by (auto simp: entry_ok_def)
  then have "\<forall>g\<in>set fs. field_tag g \<noteq> delim"
    unfolding e(1) e(2) [symmetric] by (auto simp: image_iff)
  with e have "group_loop count delim members (fs @ concat es @ post) c [f]
      = group_loop count delim members (concat es @ post) c e" for c
    using group_loop_members [of "[f]" fs members delim count "concat es @ post" c] by simp
  then show ?case
    using Cons e by auto
qed

text \<open>
  A repeating group is read exactly: for a count whose allocation does not overflow,
  the parse succeeds with entries \<open>es\<close> if and only
  if the fields after the first count field are those entries, each starting with the
  delimiter and with distinct member tags, then a field that belongs to no entry, and the
  count field states their number (\<open>FixMessage::repeating_group\<close>).
\<close>

theorem repeating_group_exact:
  assumes "message_fields m = pre @ f # rest" and "field_tag f = count"
    and "\<forall>g\<in>set pre. field_tag g \<noteq> count"
    and "parse_uint 64 (field_value f) = Some n" and "\<not> capacity_overflows n"
  shows "repeating_group m count delim members
      = Some (Ok \<lparr>count_tag = count, delimiter_tag = delim, entries = es\<rparr>)
    \<longleftrightarrow> length es = n \<and> (\<exists>post. rest = concat es @ post \<and> group_ends delim members post)
      \<and> (\<forall>e\<in>set es. entry_ok delim members e)"
proof -
  have pos: "position (\<lambda>g. field_tag g = count) (message_fields m) = Some (length pre)"
    using assms(1-3) position_append [of pre "\<lambda>g. field_tag g = count" f rest] by simp
  have eq: "repeating_group m count delim members =
      Some (attempt (group_loop count delim members rest [] []) (\<lambda>es.
        if length es \<noteq> n \<or> (\<exists>entry\<in>set es. map_option field_tag (get_at entry 0) \<noteq> Some delim)
        then Err (InvalidRepeatingGroup count)
        else Ok \<lparr>count_tag = count, delimiter_tag = delim, entries = es\<rparr>))"
    using assms(4,5) unfolding repeating_group_def pos by (simp add: assms(1))
  have heads: "map_option field_tag (get_at e 0) = Some delim" if "entry_ok delim members e" for e
    using that by (auto simp: entry_ok_def get_at_def)
  show ?thesis
  proof
    assume "repeating_group m count delim members
        = Some (Ok \<lparr>count_tag = count, delimiter_tag = delim, entries = es\<rparr>)"
    then have "group_loop count delim members rest [] [] = Ok es" "length es = n"
      by (auto simp: eq result_simps split: if_splits)
    then show "length es = n \<and> (\<exists>post. rest = concat es @ post \<and> group_ends delim members post)
        \<and> (\<forall>e\<in>set es. entry_ok delim members e)"
      using group_loop_sound [of count delim members rest "[]" "[]" es] by auto
  next
    assume r: "length es = n \<and> (\<exists>post. rest = concat es @ post \<and> group_ends delim members post)
        \<and> (\<forall>e\<in>set es. entry_ok delim members e)"
    then have "group_loop count delim members rest [] [] = Ok es"
      using group_loop_complete [of es delim members _ count "[]" "[]"] by auto
    with r show "repeating_group m count delim members
        = Some (Ok \<lparr>count_tag = count, delimiter_tag = delim, entries = es\<rparr>)"
      using heads by (simp add: eq)
  qed
qed

definition demo_market_data_request :: fix_message where
  "demo_market_data_request =
     push_field 48 ''5'' (push_field 269 ''1'' (push_field 269 ''0'' (push_field 267 ''2'' (fix_message_new ''V''))))"

theorem repeating_group_exact_witness:
  "repeating_group demo_market_data_request 267 269 []
     = Some (Ok \<lparr>count_tag = 267, delimiter_tag = 269, entries = [[field_new 269 ''0''], [field_new 269 ''1'']]\<rparr>)"
proof -
  let ?f = "field_new 267 ''2''"
  let ?rest = "[field_new 269 ''0'', field_new 269 ''1'', field_new 48 ''5'']"
  have fs: "message_fields demo_market_data_request = [] @ ?f # ?rest"
    by (simp add: demo_market_data_request_def push_field_def fix_message_new_def)
  have count: "parse_uint 64 (field_value ?f) = Some 2" "\<not> capacity_overflows 2"
    by code_simp+
  have "\<exists>post. ?rest = concat [[field_new 269 ''0''], [field_new 269 ''1'']] @ post \<and> group_ends 269 [] post"
    by (intro exI [of _ "[field_new 48 ''5'']"]) (simp add: group_ends_def)
  then show ?thesis
    using repeating_group_exact [OF fs _ _ count, of 267 269 "[]" "[[field_new 269 ''0''], [field_new 269 ''1'']]"]
    by (simp add: entry_ok_def)
qed

text \<open>A peer's count field alone decides whether the allocation panics.\<close>

theorem repeating_group_panics:
  "repeating_group m count delim members = None \<longleftrightarrow>
     (\<exists>i n. position (\<lambda>f. field_tag f = count) (message_fields m) = Some i
        \<and> parse_uint 64 (field_value (message_fields m ! i)) = Some n \<and> n > (2 ^ 63 - 1) div 24)"
  by (auto simp: repeating_group_def capacity_overflows_def vec_entry_bytes_def split: option.splits if_splits)

end
