(* ===== verification/Fix_Mapping.thy ===== *)
theory Fix_Mapping
  imports Fix_Wire_Laws Quarcc_Engine
begin

text \<open>
  The FIX application messages, \<open>src/packages/simfix-mapping/src/lib.rs\<close>: orders and requests of a
  participant become intents and requests of the venue, normalized reports and public market data
  become messages. Numbers are read and written as the standard library does; the JSON of competition
  payloads comes in as text, with \<open>None\<close> for a failed serialization; a panic is the outcome \<open>None\<close>.
\<close>

subsection \<open>Signed numbers as text\<close>

definition show_i64 :: "int \<Rightarrow> string" where
  "show_i64 n = (if n < 0 then CHR ''-'' # show_u128 (nat (- n)) else show_u128 (nat n))"

definition parse_i64 :: "string \<Rightarrow> int option" where
  "parse_i64 s =
     (case s of
       c # t \<Rightarrow>
         if c = CHR ''-'' then
           (case parse_digits t of None \<Rightarrow> None | Some n \<Rightarrow> checked_i64 (- int n))
         else (case parse_u128 s of None \<Rightarrow> None | Some n \<Rightarrow> checked_i64 (int n))
     | [] \<Rightarrow> None)"

lemma parse_show_i64: "in_i64 n \<Longrightarrow> parse_i64 (show_i64 n) = Some n"
proof -
  assume n: "in_i64 n"
  then have small: "nat (- n) < 2 ^ 128" "nat n < 2 ^ 128"
    by (auto simp: in_i64_def)
  obtain c t where s: "show_u128 (nat n) = c # t"
    using show_u128_not_Nil by (cases "show_u128 (nat n)") auto
  have "c \<noteq> CHR ''-''"
    using show_u128_digits [of c "nat n"] s by (auto simp: is_digit_def)
  then show ?thesis
    using n small s parse_show_u128 [OF small(2)] foldl_show_u128 [OF small(1)]
    by (auto simp: show_i64_def parse_i64_def parse_digits_def show_u128_not_Nil)
qed

subsection \<open>Data\<close>

datatype md_request_type = MdSnapshot | MdSubscribe | MdUnsubscribe

datatype md_entry_type = MdBid | MdOffer | MdTrade

datatype tender_action = ListTenders | AcceptTender | DeclineTender

datatype competition_request =
    DiscoveryRequest
  | AccountRequest
  | NewsRequest
  | TenderRequest tender_action "nat option"
  | ScoreRequest
  | RiskRequest
  | RunControlRequest string "string option"
  | RiskAdminRequest string "string option"

datatype inbound_application =
    InboundIntent execution_intent
  | MarketDataRequest string listing_key md_request_type nat "md_entry_type list" bool
  | CompetitionInbound competition_request

datatype mapping_error =
    UnsupportedMessage
  | MissingTag nat
  | InvalidTag nat
  | UnsupportedOrderType
  | UnsupportedSubscriptionType
  | DictionaryError wire_error
  | SerializationError
  | PayloadTooLarge

record mapping_context =
  mc_participant_id :: participant_id
  mc_next_intent_id :: nat

subsection \<open>Fields\<close>

definition fix_required :: "fix_message \<Rightarrow> nat \<Rightarrow> (string, mapping_error) result" where
  "fix_required m tag = ok_or (MissingTag tag) (message_value m tag)"

definition fix_parse :: "(string \<Rightarrow> 'a option) \<Rightarrow> fix_message \<Rightarrow> nat \<Rightarrow> ('a, mapping_error) result" where
  "fix_parse parser m tag = attempt (fix_required m tag) (\<lambda>s. ok_or (InvalidTag tag) (parser s))"

definition parse_side :: "string \<Rightarrow> (side, mapping_error) result" where
  "parse_side v = (if v = ''1'' then Ok Buy else if v = ''2'' then Ok Sell else Err (InvalidTag 54))"

definition parse_post_only :: "fix_message \<Rightarrow> (bool, mapping_error) result" where
  "parse_post_only m =
     (case message_value m 18 of
       None \<Rightarrow> Ok False
     | Some v \<Rightarrow> if v = ''6'' then Ok True else Err (InvalidTag 18))"

definition parse_display :: "fix_message \<Rightarrow> (quantity_lots option, mapping_error) result" where
  "parse_display m =
     (if message_value m 1138 = None then Ok None
      else
        attempt (fix_parse parse_i64 m 1138) (\<lambda>display.
        attempt (if display \<le> 0 then Ok True
          else attempt (fix_parse parse_i64 m 38) (\<lambda>quantity. Ok (display > quantity))) (\<lambda>wrong.
        if wrong then Err (InvalidTag 1138) else Ok (Some display))))"

definition parse_time_in_force :: "fix_message \<Rightarrow> (time_in_force, mapping_error) result" where
  "parse_time_in_force m =
     (case message_value m 59 of
       None \<Rightarrow> Ok Day
     | Some v \<Rightarrow>
         if v = ''0'' then Ok Day
         else if v = ''1'' then Ok Gtc
         else if v = ''3'' then Ok Ioc
         else if v = ''4'' then Ok Fok
         else if v = ''6'' then attempt (fix_parse (parse_uint 64) m 10022) (\<lambda>t. Ok (Gtd t))
         else Err (InvalidTag 59))"

definition parse_order_kind :: "fix_message \<Rightarrow> (order_kind, mapping_error) result" where
  "parse_order_kind m =
     attempt (parse_post_only m) (\<lambda>post_only.
     attempt (parse_display m) (\<lambda>display.
     if message_value m 10022 \<noteq> None \<and> message_value m 59 \<noteq> Some ''6'' then Err (InvalidTag 10022)
     else
       attempt (parse_time_in_force m) (\<lambda>tif.
       attempt (fix_required m 40) (\<lambda>type.
       if type = ''1'' then
         (if post_only \<or> display \<noteq> None then Err UnsupportedOrderType
          else if tif = Day \<or> tif = Ioc then Ok Market
          else Err (InvalidTag 59))
       else if type = ''2'' then
         attempt (fix_parse parse_i64 m 44) (\<lambda>price.
         if tif = Gtc \<and> \<not> post_only \<and> display = None then Ok (Limit price)
         else Ok (LimitWithPolicy price tif post_only display))
       else Err UnsupportedOrderType))))"

definition fix_order_listing :: "fix_message \<Rightarrow> (listing_key option, mapping_error) result" where
  "fix_order_listing m =
     (if msg_type m \<noteq> ''D'' then Ok None
      else
        attempt (fix_parse parse_u128 m 48) (\<lambda>instrument.
        attempt (fix_parse parse_u128 m 207) (\<lambda>venue.
        if instrument = 0 then Err (InvalidTag 48)
        else if venue = 0 then Err (InvalidTag 207)
        else Ok (Some (venue, instrument)))))"

definition parse_anonymous :: "fix_message \<Rightarrow> (bool, mapping_error) result" where
  "parse_anonymous m =
     (case message_value m 10021 of
       None \<Rightarrow> Ok False
     | Some v \<Rightarrow> if v = ''N'' then Ok False else if v = ''Y'' then Ok True else Err (InvalidTag 10021))"

subsection \<open>Inbound messages\<close>

definition map_new_order :: "fix_message \<Rightarrow> mapping_context \<Rightarrow> (inbound_application, mapping_error) result" where
  "map_new_order m context =
     attempt (fix_parse parse_u128 m 11) (\<lambda>client.
     attempt (fix_order_listing m) (\<lambda>listing.
     attempt (ok_or (MissingTag 207) listing) (\<lambda>key.
     attempt (fix_required m 54) (\<lambda>side_text.
     attempt (parse_side side_text) (\<lambda>side.
     attempt (fix_parse parse_i64 m 38) (\<lambda>quantity.
     attempt (parse_order_kind m) (\<lambda>kind.
     attempt (parse_anonymous m) (\<lambda>anonymous.
     Ok (InboundIntent (IntentSubmit (mc_next_intent_id context)
       \<lparr>do_client_order_id = client, do_instrument_id = lk_instrument key,
        do_participant_id = mc_participant_id context, do_side = side, do_quantity = quantity,
        do_kind = kind, do_anonymous = anonymous\<rparr>))))))))))"

definition map_request_type :: "string \<Rightarrow> (md_request_type, mapping_error) result" where
  "map_request_type v =
     (if v = ''0'' then Ok MdSnapshot else if v = ''1'' then Ok MdSubscribe
      else if v = ''2'' then Ok MdUnsubscribe else Err UnsupportedSubscriptionType)"

definition map_entry_type :: "field list \<Rightarrow> (md_entry_type, mapping_error) result" where
  "map_entry_type entry =
     (let v = field_value (hd entry) in
      if v = ''0'' then Ok MdBid else if v = ''1'' then Ok MdOffer else if v = ''2'' then Ok MdTrade
      else Err (InvalidTag 269))"

definition map_aggregated :: "fix_message \<Rightarrow> (bool, mapping_error) result" where
  "map_aggregated m =
     (case message_value m 266 of
       None \<Rightarrow> Ok True
     | Some v \<Rightarrow> if v = ''Y'' then Ok True else if v = ''N'' then Ok False else Err (InvalidTag 266))"

definition map_md_group :: "fix_message \<Rightarrow> md_request_type \<Rightarrow> repeating_group \<Rightarrow> (inbound_application, mapping_error) result" where
  "map_md_group m type g =
     attempt (try_map map_entry_type (entries g)) (\<lambda>types.
     attempt (fix_required m 262) (\<lambda>request_id.
     attempt (fix_parse parse_u128 m 207) (\<lambda>venue.
     attempt (fix_parse parse_u128 m 48) (\<lambda>instrument.
     attempt (fix_parse (parse_uint 64) m 264) (\<lambda>depth.
     attempt (map_aggregated m) (\<lambda>aggregated.
     Ok (MarketDataRequest request_id (venue, instrument) type depth types aggregated)))))))"

definition map_md_request :: "fix_message \<Rightarrow> (inbound_application, mapping_error) result option" where
  "map_md_request m =
     (case attempt (fix_required m 263) map_request_type of
       Inl e \<Rightarrow> Some (Err e)
     | Inr type \<Rightarrow>
         (case repeating_group m 267 269 [] of
           None \<Rightarrow> None
         | Some (Inl e) \<Rightarrow> Some (Err (DictionaryError e))
         | Some (Inr g) \<Rightarrow> Some (map_md_group m type g)))"

definition map_tender :: "fix_message \<Rightarrow> (competition_request, mapping_error) result" where
  "map_tender m =
     attempt (let v = (case message_value m 10018 of Some v \<Rightarrow> v | None \<Rightarrow> ''list'') in
        if v = ''list'' then Ok ListTenders else if v = ''accept'' then Ok AcceptTender
        else if v = ''decline'' then Ok DeclineTender else Err (InvalidTag 10018)) (\<lambda>action.
     attempt (case message_value m 10017 of
          None \<Rightarrow> Ok None
        | Some v \<Rightarrow> (case parse_u128 v of None \<Rightarrow> Err (InvalidTag 10017) | Some i \<Rightarrow> Ok (Some i))) (\<lambda>tender.
     if action \<noteq> ListTenders \<and> tender = None then Err (MissingTag 10017)
     else Ok (TenderRequest action tender)))"

definition map_competition :: "fix_message \<Rightarrow> (competition_request, mapping_error) result" where
  "map_competition m =
     (let type = msg_type m in
      if type = ''x'' then Ok DiscoveryRequest
      else if type = ''AN'' then Ok AccountRequest
      else if type = ''BE'' \<and> message_value m 10016 = Some ''news'' then Ok NewsRequest
      else if type = ''U6'' then map_tender m
      else if type = ''U9'' then Ok ScoreRequest
      else if type = ''UB'' \<and> message_value m 10018 \<in> {None, Some ''query''} then Ok RiskRequest
      else if type = ''UA'' then
        attempt (fix_required m 10018) (\<lambda>action. Ok (RunControlRequest action (message_value m 10020)))
      else if type = ''UB'' then
        attempt (fix_required m 10018) (\<lambda>action. Ok (RiskAdminRequest action (message_value m 10020)))
      else Err UnsupportedMessage)"

definition map_inbound :: "(competition_dictionary, wire_error) result \<Rightarrow> fix_message \<Rightarrow> mapping_context \<Rightarrow>
    (inbound_application, mapping_error) result option" where
  "map_inbound dict m context =
     (case validate_competition dict m of
       Inl e \<Rightarrow> Some (Err (DictionaryError e))
     | Inr _ \<Rightarrow>
         (let next_id = mc_next_intent_id context in
          if msg_type m = ''D'' then Some (map_new_order m context)
          else if msg_type m = ''F'' then
            Some (attempt (fix_parse parse_u128 m 41) (\<lambda>client. Ok (InboundIntent (IntentCancel next_id client))))
          else if msg_type m = ''G'' then
            Some (attempt (fix_parse parse_u128 m 41) (\<lambda>client.
              attempt (fix_parse parse_i64 m 38) (\<lambda>quantity.
              attempt (parse_order_kind m) (\<lambda>kind.
              Ok (InboundIntent (IntentReplace next_id client quantity kind))))))
          else if msg_type m = ''H'' then
            Some (attempt (fix_parse parse_u128 m 37) (\<lambda>i. Ok (InboundIntent (IntentQuery next_id i))))
          else if msg_type m = ''V'' then map_md_request m
          else Some (attempt (map_competition m) (\<lambda>r. Ok (CompetitionInbound r)))))"

subsection \<open>Outbound messages\<close>

definition push_fields :: "(nat \<times> string) list \<Rightarrow> fix_message \<Rightarrow> fix_message" where
  "push_fields fs m = fold (\<lambda>(tag, v). push_field tag v) fs m"

definition competition_report :: "string \<Rightarrow> string \<Rightarrow> string \<Rightarrow> string \<Rightarrow> string \<Rightarrow> nat \<Rightarrow> string option \<Rightarrow>
    (fix_message, mapping_error) result" where
  "competition_report type audience resource_kind action status committed payload =
     attempt (ok_or SerializationError payload) (\<lambda>json.
     if length json > 16384 then Err PayloadTooLarge
     else Ok (push_fields [(10010, show_u128 committed), (10012, audience), (10016, resource_kind), (10018, action),
       (10019, status), (10020, json)] (fix_message_new type)))"

fun report_status :: "quantity_lots option \<Rightarrow> venue_report_kind \<Rightarrow> string \<times> string" where
  "report_status _ ReportAccepted = (''0'', ''0'')"
| "report_status leaves (ReportFill _ _ _) = (if leaves = Some 0 then (''F'', ''2'') else (''F'', ''1''))"
| "report_status _ ReportCancelled = (''4'', ''4'')"
| "report_status _ ReportReplaced = (''5'', ''5'')"
| "report_status _ (ReportRejected _) = (''8'', ''8'')"
| "report_status _ ReportExpired = (''C'', ''C'')"
| "report_status _ (ReportCancelRejected _) = ('''', '''')"

fun report_body :: "venue_report_kind \<Rightarrow> quantity_lots option \<Rightarrow> fix_message" where
  "report_body (ReportCancelRejected reason) _ = push_fields [(39, ''0''), (58, reason)] (fix_message_new ''9'')"
| "report_body kind leaves =
     push_fields ((case report_status leaves kind of (exec_type, ord_status) \<Rightarrow> [(150, exec_type), (39, ord_status)])
       @ (case kind of
            ReportFill q c price \<Rightarrow> [(32, show_i64 q), (14, show_i64 c), (31, show_i64 price)]
              @ (case leaves of None \<Rightarrow> [] | Some l \<Rightarrow> [(151, show_i64 l)])
          | ReportRejected reason \<Rightarrow> [(58, reason)]
          | _ \<Rightarrow> [])) (fix_message_new ''8'')"

definition map_execution_report :: "venue_report \<Rightarrow> (fix_message, mapping_error) result" where
  "map_execution_report r =
     attempt (ok_or (MissingTag 37) (vr_local_order_id r)) (\<lambda>local.
     Ok (push_fields ([(37, show_u128 local), (17, show_u128 (vr_report_id r))]
         @ (case vr_client_order_id r of None \<Rightarrow> [] | Some client \<Rightarrow> [(11, show_u128 client)]))
       (report_body (vr_kind r) (vr_leaves_quantity r))))"

definition side_type :: "side \<Rightarrow> string" where
  "side_type side = (if side = Buy then ''0'' else ''1'')"

definition market_snapshot :: "string \<Rightarrow> listing_key \<Rightarrow> (price_ticks \<times> quantity_lots) list \<Rightarrow>
    (price_ticks \<times> quantity_lots) list \<Rightarrow> fix_message" where
  "market_snapshot request_id key bids asks =
     push_fields ([(262, request_id), (48, show_u128 (lk_instrument key)), (207, show_u128 (lk_venue key)),
         (268, show_u128 (length bids + length asks))]
       @ concat (map (\<lambda>(price, quantity). [(269, ''0''), (270, show_i64 price), (271, show_i64 quantity)]) bids)
       @ concat (map (\<lambda>(price, quantity). [(269, ''1''), (270, show_i64 price), (271, show_i64 quantity)]) asks))
     (fix_message_new ''W'')"

definition push_brokers :: "participant_id option \<Rightarrow> participant_id option \<Rightarrow> (nat \<times> string) list" where
  "push_brokers buyer seller =
     (case buyer of None \<Rightarrow> [] | Some b \<Rightarrow> [(288, show_u128 b)])
     @ (case seller of None \<Rightarrow> [] | Some s \<Rightarrow> [(289, show_u128 s)])"

record snapshot_order =
  sno_side :: side
  sno_reference :: nat
  sno_price :: price_ticks
  sno_quantity :: quantity_lots
  sno_broker :: "participant_id option"

definition u64_count_up :: "nat \<Rightarrow> nat" where
  "u64_count_up n = min (2 ^ 64 - 1) (n + 1)"

fun order_entries :: "nat \<Rightarrow> nat \<Rightarrow> snapshot_order list \<Rightarrow> (nat \<times> string) list" where
  "order_entries bids asks [] = []"
| "order_entries bids asks (ord # rest) =
     (let bids' = (if sno_side ord = Buy then u64_count_up bids else bids);
          asks' = (if sno_side ord = Sell then u64_count_up asks else asks) in
      [(269, side_type (sno_side ord)), (278, show_u128 (sno_reference ord))]
      @ (case sno_side ord of Buy \<Rightarrow> push_brokers (sno_broker ord) None | Sell \<Rightarrow> push_brokers None (sno_broker ord))
      @ [(270, show_i64 (sno_price ord)), (271, show_i64 (sno_quantity ord)),
         (290, show_u128 (if sno_side ord = Buy then bids' else asks'))]
      @ order_entries bids' asks' rest)"

definition order_snapshot :: "string \<Rightarrow> listing_key \<Rightarrow> snapshot_order list \<Rightarrow> fix_message" where
  "order_snapshot request_id key orders =
     push_fields ([(262, request_id), (48, show_u128 (lk_instrument key)), (207, show_u128 (lk_venue key)), (266, ''N''),
         (268, show_u128 (length orders))] @ order_entries 0 0 orders) (fix_message_new ''W'')"

definition CONSOLIDATED_EXCHANGE :: nat where
  "CONSOLIDATED_EXCHANGE = 0"

definition consolidated_snapshot :: "string \<Rightarrow> instrument_id \<Rightarrow> nat \<Rightarrow>
    (listing_key \<times> side \<times> price_ticks \<times> quantity_lots) list \<Rightarrow> fix_message" where
  "consolidated_snapshot request_id instrument last_report quotes =
     push_fields ([(262, request_id), (48, show_u128 instrument), (207, show_u128 CONSOLIDATED_EXCHANGE),
         (83, show_u128 last_report), (268, show_u128 (length quotes))]
       @ concat (map (\<lambda>(key, side, price, quantity). [(269, side_type side), (207, show_u128 (lk_venue key)),
           (270, show_i64 price), (271, show_i64 quantity)]) quotes)) (fix_message_new ''W'')"

datatype md_update_action = MdNew | MdChange | MdDelete

datatype md_increment =
    MdLevel md_update_action side price_ticks quantity_lots
  | MdOrder md_update_action side nat price_ticks quantity_lots "participant_id option"
  | MdTraded price_ticks quantity_lots "nat option" "participant_id option" "participant_id option"

fun update_code :: "md_update_action \<Rightarrow> string" where
  "update_code MdNew = ''0''"
| "update_code MdChange = ''1''"
| "update_code MdDelete = ''2''"

fun increment_values :: "md_increment \<Rightarrow> md_update_action \<times> string \<times> nat option \<times> price_ticks \<times> quantity_lots" where
  "increment_values (MdLevel action side price quantity) = (action, side_type side, None, price, quantity)"
| "increment_values (MdOrder action side reference price quantity _) = (action, side_type side, Some reference, price, quantity)"
| "increment_values (MdTraded price quantity reference _ _) = (MdNew, ''2'', reference, price, quantity)"

fun increment_brokers :: "md_increment \<Rightarrow> participant_id option \<times> participant_id option" where
  "increment_brokers (MdOrder _ Buy _ _ _ broker) = (broker, None)"
| "increment_brokers (MdOrder _ Sell _ _ _ broker) = (None, broker)"
| "increment_brokers (MdTraded _ _ _ buyer seller) = (buyer, seller)"
| "increment_brokers (MdLevel _ _ _ _) = (None, None)"

definition report_number :: "nat \<Rightarrow> nat \<Rightarrow> nat" where
  "report_number first offset = min (2 ^ 64 - 1) (first + offset)"

definition increment_fields :: "nat \<Rightarrow> listing_key \<times> md_increment \<Rightarrow> (nat \<times> string) list" where
  "increment_fields number entry =
     (case increment_values (snd entry) of (action, type, reference, price, quantity) \<Rightarrow>
      case increment_brokers (snd entry) of (buyer, seller) \<Rightarrow>
        [(279, update_code action), (269, type), (48, show_u128 (lk_instrument (fst entry))),
         (207, show_u128 (lk_venue (fst entry)))]
        @ (case reference of None \<Rightarrow> [] | Some n \<Rightarrow> [(278, show_u128 n)])
        @ push_brokers buyer seller
        @ [(270, show_i64 price), (271, show_i64 quantity), (83, show_u128 number)])"

definition market_incremental :: "string \<Rightarrow> nat \<Rightarrow> (listing_key \<times> md_increment) list \<Rightarrow> fix_message" where
  "market_incremental request_id first es =
     push_fields ([(262, request_id), (268, show_u128 (length es))]
       @ concat (map (\<lambda>(offset, entry). increment_fields (report_number first offset) entry) (enumerate 0 es)))
     (fix_message_new ''X'')"

definition business_reject :: "string \<Rightarrow> string \<Rightarrow> fix_message" where
  "business_reject reference_type reason =
     push_fields [(372, reference_type), (380, ''3''), (58, reason)] (fix_message_new ''j'')"

end
