(* ===== verification/Fix_Mapping_Laws.thy ===== *)
theory Fix_Mapping_Laws
  imports Fix_Mapping
begin

text \<open>
  What the FIX mapping preserves: an order written with the fields of the profile is read back as the
  intent it stands for, and a public incremental refresh is read back change by change with its report
  numbers; and the one message the mapping does not survive.
\<close>

subsection \<open>Messages as field lists\<close>

lemma message_fields_push_fields:
  "message_fields (push_fields fs m) = message_fields m @ map (\<lambda>(tag, v). field_new tag v) fs"
  "msg_type (push_fields fs m) = msg_type m" "begin_string (push_fields fs m) = begin_string m"
  unfolding push_fields_def by (induction fs arbitrary: m) (auto simp: push_field_def)

lemma message_value_push_fields: "message_value (push_fields fs (fix_message_new t)) tag = map_of fs tag"
proof -
  have "map_option field_value (find (\<lambda>f. field_tag f = tag) (map (\<lambda>(tag, v). field_new tag v) fs)) = map_of fs tag"
    by (induction fs) (auto simp: field_new_def)
  then show ?thesis
    by (simp add: message_value_def message_fields_push_fields fix_message_new_def)
qed

lemma check_rule_fields_Ok:
  assumes "distinct (map field_tag (prior @ fs))" "\<forall>f\<in>set fs. field_tag f \<in> set (allowed_tags rule)"
  shows "check_rule_fields rule prior fs = Ok ()"
  using assms
proof (induction fs arbitrary: prior)
  case (Cons f fs)
  have "\<not> (\<exists>p\<in>set prior. field_tag p = field_tag f)"
    using Cons(2) by (auto simp: image_iff)
  with Cons show ?case
    by simp
qed simp

lemma try_fold_units:
  "\<forall>x\<in>set xs. P x \<Longrightarrow> try_fold (\<lambda>x _. if P x then Ok () else Err (e x)) xs () = Ok ()"
  by (induction xs) auto

subsection \<open>Orders\<close>

text \<open>The fields of the profile for an order, its kind and its time in force.\<close>

fun policy_fields :: "time_in_force \<Rightarrow> (nat \<times> string) list" where
  "policy_fields Day = [(59, ''0'')]"
| "policy_fields Gtc = [(59, ''1'')]"
| "policy_fields Ioc = [(59, ''3'')]"
| "policy_fields Fok = [(59, ''4'')]"
| "policy_fields (Gtd t) = [(59, ''6''), (10022, show_u128 t)]"

fun kind_fields :: "order_kind \<Rightarrow> (nat \<times> string) list" where
  "kind_fields Market = [(40, ''1'')]"
| "kind_fields (Limit price) = [(40, ''2''), (44, show_i64 price), (59, ''1'')]"
| "kind_fields (LimitWithPolicy price tif post_only display) =
     [(40, ''2''), (44, show_i64 price)] @ policy_fields tif
     @ (if post_only then [(18, ''6'')] else [])
     @ (case display of None \<Rightarrow> [] | Some d \<Rightarrow> [(1138, show_i64 d)])"

definition new_order_fields :: "listing_key \<Rightarrow> desired_order \<Rightarrow> (nat \<times> string) list" where
  "new_order_fields key d =
     [(11, show_u128 (do_client_order_id d)), (48, show_u128 (lk_instrument key)), (207, show_u128 (lk_venue key)),
      (54, if do_side d = Buy then ''1'' else ''2''), (38, show_i64 (do_quantity d))]
     @ kind_fields (do_kind d) @ [(10021, if do_anonymous d then ''Y'' else ''N'')]"

definition new_order_single :: "listing_key \<Rightarrow> desired_order \<Rightarrow> fix_message" where
  "new_order_single key d = push_fields (new_order_fields key d) (fix_message_new ''D'')"

text \<open>Kinds a message can express: a policy that is just a resting limit order is written as one.\<close>

fun kind_ok :: "quantity_lots \<Rightarrow> order_kind \<Rightarrow> bool" where
  "kind_ok _ Market \<longleftrightarrow> True"
| "kind_ok _ (Limit price) \<longleftrightarrow> in_i64 price"
| "kind_ok q (LimitWithPolicy price tif post_only display) \<longleftrightarrow> in_i64 price
     \<and> (tif = Gtc \<longrightarrow> post_only \<or> display \<noteq> None)
     \<and> (case tif of Gtd t \<Rightarrow> t < 2 ^ 64 | _ \<Rightarrow> True)
     \<and> (case display of Some d \<Rightarrow> 0 < d \<and> d \<le> q \<and> in_i64 d | None \<Rightarrow> True)"

definition fix_order_fits :: "listing_key \<Rightarrow> desired_order \<Rightarrow> bool" where
  "fix_order_fits key d \<longleftrightarrow> do_client_order_id d < 2 ^ 128 \<and> lk_instrument key = do_instrument_id d
     \<and> 0 < lk_instrument key \<and> lk_instrument key < 2 ^ 128 \<and> 0 < lk_venue key \<and> lk_venue key < 2 ^ 128
     \<and> in_i64 (do_quantity d) \<and> kind_ok (do_quantity d) (do_kind d)"

lemma kind_fields_tags:
  "set (map fst (kind_fields kind)) \<subseteq> {40, 44, 59, 18, 1138, 10022}" "distinct (map fst (kind_fields kind))"
  "40 \<in> set (map fst (kind_fields kind))"
proof -
  have tif: "map fst (policy_fields t) = [59] \<or> map fst (policy_fields t) = [59, 10022]" for t
    by (cases t) simp_all
  have "map fst (kind_fields kind) \<in> {[40], [40, 44, 59]}
      \<union> {[40, 44] @ t @ po @ d |t po d. t \<in> {[59], [59, 10022]} \<and> po \<in> {[], [18]} \<and> d \<in> {[], [1138]}}"
  proof (cases kind)
    case (LimitWithPolicy p t po d)
    then have "map fst (kind_fields kind) = [40, 44] @ map fst (policy_fields t) @ (if po then [18] else []) @ (if d = None then [] else [1138])"
      by (cases d) auto
    with tif [of t] show ?thesis
      by (intro UnI2 CollectI exI [of _ "map fst (policy_fields t)"] exI [of _ "if po then [18] else []"]
          exI [of _ "if d = None then [] else [1138]"]) simp
  qed simp_all
  then show "set (map fst (kind_fields kind)) \<subseteq> {40, 44, 59, 18, 1138, 10022}" "distinct (map fst (kind_fields kind))"
    "40 \<in> set (map fst (kind_fields kind))"
    by (elim UnE insertE CollectE exE conjE emptyE; simp)+
qed

lemma new_order_valid:
  assumes "message_by_msgtype (application_dict dict) ''D''" "\<forall>tag\<in>set (allowed_tags NEW_ORDER_SINGLE). known_tag dict tag"
  shows "validate_competition (Ok dict) (new_order_single key d) = Ok ()"
proof -
  let ?m = "new_order_single key d" and ?tags = "map fst (new_order_fields key d)"
  have tags: "map field_tag (message_fields ?m) = ?tags"
    by (simp add: new_order_single_def message_fields_push_fields fix_message_new_def field_new_def case_prod_unfold)
  have fields: "field_tag f \<in> set ?tags" if "f \<in> set (message_fields ?m)" for f
    using that tags by (metis image_eqI list.set_map)
  have allowed: "set ?tags \<subseteq> set (allowed_tags NEW_ORDER_SINGLE)"
    using kind_fields_tags(1) [of "do_kind d"] by (auto simp: new_order_fields_def NEW_ORDER_SINGLE_def)
  have "distinct ?tags"
    using kind_fields_tags(1,2) [of "do_kind d"] by (auto simp: new_order_fields_def)
  then have "check_rule_fields NEW_ORDER_SINGLE [] (message_fields ?m) = Ok ()"
    using allowed fields tags by (intro check_rule_fields_Ok) auto
  moreover have "\<forall>tag\<in>set (required_tags NEW_ORDER_SINGLE). \<exists>f\<in>set (message_fields ?m). field_tag f = tag"
  proof
    fix tag assume "tag \<in> set (required_tags NEW_ORDER_SINGLE)"
    then have "tag \<in> set ?tags"
      using kind_fields_tags(3) [of "do_kind d"] by (auto simp: new_order_fields_def NEW_ORDER_SINGLE_def)
    then show "\<exists>f\<in>set (message_fields ?m). field_tag f = tag"
      using tags by (metis image_iff list.set_map)
  qed
  moreover have "dictionary_validate dict ?m = Ok ()"
  proof -
    have "\<forall>f\<in>set (message_fields ?m). known_tag dict (field_tag f)"
      using fields allowed assms(2) by blast
    then have "try_fold (\<lambda>f _. if known_tag dict (field_tag f) then Ok () else Err (UnknownTag (field_tag f))) (message_fields ?m) () = Ok ()"
      by (rule try_fold_units)
    then show ?thesis
      using assms(1) by (simp add: dictionary_validate_def new_order_single_def message_fields_push_fields fix_message_new_def)
  qed
  ultimately show ?thesis
    by (simp add: validate_competition_def try_fold_units competition_rule_def new_order_single_def message_fields_push_fields
        fix_message_new_def)
qed

lemma fix_parse_shown:
  "message_value m tag = Some (show_u128 n) \<Longrightarrow> n < 2 ^ 128 \<Longrightarrow> fix_parse parse_u128 m tag = Ok n"
  "message_value m tag = Some (show_i64 i) \<Longrightarrow> in_i64 i \<Longrightarrow> fix_parse parse_i64 m tag = Ok i"
  by (simp_all add: fix_parse_def fix_required_def parse_show_u128 parse_show_i64)

lemma parse_kind_fields:
  assumes v: "\<And>tag. tag \<in> {40, 44, 59, 18, 1138, 10022} \<Longrightarrow> message_value m tag = map_of (kind_fields kind) tag"
    and q: "message_value m 38 = Some (show_i64 q)" "in_i64 q" and ok: "kind_ok q kind"
  shows "parse_order_kind m = Ok kind"
proof -
  note vals = v [of 40] v [of 44] v [of 59] v [of 18] v [of 1138] v [of 10022]
  note parts = parse_order_kind_def parse_post_only_def parse_display_def parse_time_in_force_def fix_parse_def fix_required_def
  show ?thesis
  proof (cases kind)
    case (Limit price)
    with vals ok show ?thesis
      by (simp add: parts parse_show_i64)
  next
    case Market
    with vals show ?thesis
      by (simp add: parts)
  next
    case (LimitWithPolicy price tif post display)
    have post: "parse_post_only m = Ok post"
      using vals(4) LimitWithPolicy by (cases tif; cases display; cases post) (simp_all add: parse_post_only_def)
    have display: "parse_display m = Ok display"
      using vals(5) LimitWithPolicy ok q
      by (cases tif; cases display; cases post) (simp_all add: parse_display_def fix_parse_def fix_required_def parse_show_i64)
    have tif: "parse_time_in_force m = Ok tif" "message_value m 10022 \<noteq> None \<longrightarrow> message_value m 59 = Some ''6''"
      using vals(3,6) LimitWithPolicy ok
      by (cases tif; cases display; cases post;
          simp add: parse_time_in_force_def fix_parse_def fix_required_def parse_uint_show)+
    have price: "fix_required m 40 = Ok ''2''" "fix_parse parse_i64 m 44 = Ok price"
      using vals(1,2) LimitWithPolicy ok by (simp_all add: fix_parse_def fix_required_def parse_show_i64)
    show ?thesis
      using post display tif price LimitWithPolicy ok by (auto simp: parse_order_kind_def)
  qed
qed

text \<open>
  An order written with the fields of the profile is mapped to exactly the intent it stands for, on
  exactly its listing: whatever its side, quantity, kind, time in force, display quantity and anonymity,
  provided the dictionaries know the message and its tags.
\<close>

lemma order_inbound:
  assumes "message_by_msgtype (application_dict dict) ''D''" "\<forall>tag\<in>set (allowed_tags NEW_ORDER_SINGLE). known_tag dict tag"
    and "fix_order_fits key d" "do_participant_id d = mc_participant_id context"
  shows "map_inbound (Ok dict) (new_order_single key d) context = Some (Ok (InboundIntent (IntentSubmit (mc_next_intent_id context) d)))
    \<and> fix_order_listing (new_order_single key d) = Ok (Some key)"
proof -
  let ?m = "new_order_single key d" and ?fs = "new_order_fields key d"
  have type: "msg_type ?m = ''D''"
    by (simp add: new_order_single_def message_fields_push_fields fix_message_new_def)
  have v: "message_value ?m tag = map_of ?fs tag" for tag
    by (simp add: new_order_single_def message_value_push_fields)
  have base: "map_of ?fs 11 = Some (show_u128 (do_client_order_id d))" "map_of ?fs 48 = Some (show_u128 (lk_instrument key))"
    "map_of ?fs 207 = Some (show_u128 (lk_venue key))" "map_of ?fs 54 = Some (if do_side d = Buy then ''1'' else ''2'')"
    "map_of ?fs 38 = Some (show_i64 (do_quantity d))"
    by (simp_all add: new_order_fields_def)
  have mid: "map_of ?fs tag = map_of (kind_fields (do_kind d)) tag" if "tag \<in> {40, 44, 59, 18, 1138, 10022}" for tag
    using that by (auto simp: new_order_fields_def map_add_def split: option.split)
  have "map_of (kind_fields (do_kind d)) 10021 = None"
    using kind_fields_tags(1) [of "do_kind d"] by (auto simp: map_of_eq_None_iff)
  then have anonymous: "map_of ?fs 10021 = Some (if do_anonymous d then ''Y'' else ''N'')"
    by (simp add: new_order_fields_def map_add_def)
  have listing: "fix_order_listing ?m = Ok (Some key)"
    using assms(3) base v by (auto simp: fix_order_listing_def type fix_parse_shown fix_order_fits_def prod_eq_iff)
  have kind: "parse_order_kind ?m = Ok (do_kind d)"
    using assms(3) base(5) v mid by (intro parse_kind_fields) (auto simp: fix_order_fits_def)
  have "map_new_order ?m context = Ok (InboundIntent (IntentSubmit (mc_next_intent_id context) d))"
    using assms(3,4) v base anonymous
    by (auto simp: map_new_order_def listing kind fix_parse_shown
        fix_required_def parse_side_def parse_anonymous_def fix_order_fits_def intro: side.exhaust)
  with new_order_valid [OF assms(1,2)] listing type show ?thesis
    by (simp add: map_inbound_def Let_def)
qed

subsection \<open>Incremental refreshes\<close>

text \<open>A reader of one entry: its report number, its listing and the change.\<close>

definition entry_value :: "field list \<Rightarrow> nat \<Rightarrow> string option" where
  "entry_value fs tag = map_option field_value (find (\<lambda>f. field_tag f = tag) fs)"

definition read_action :: "string \<Rightarrow> md_update_action option" where
  "read_action v = (if v = ''0'' then Some MdNew else if v = ''1'' then Some MdChange else if v = ''2'' then Some MdDelete else None)"

definition read_optional :: "field list \<Rightarrow> nat \<Rightarrow> nat option" where
  "read_optional fs tag = Option.bind (entry_value fs tag) parse_u128"

definition read_increment :: "field list \<Rightarrow> (nat \<times> listing_key \<times> md_increment) option" where
  "read_increment fs =
     Option.bind (Option.bind (entry_value fs 279) read_action) (\<lambda>action.
     Option.bind (entry_value fs 269) (\<lambda>type.
     Option.bind (read_optional fs 48) (\<lambda>instrument.
     Option.bind (read_optional fs 207) (\<lambda>venue.
     Option.bind (Option.bind (entry_value fs 270) parse_i64) (\<lambda>price.
     Option.bind (Option.bind (entry_value fs 271) parse_i64) (\<lambda>quantity.
     Option.bind (read_optional fs 83) (\<lambda>number.
     let side = (if type = ''0'' then Buy else Sell) in
     Some (number, (venue, instrument),
       if type = ''2'' then MdTraded price quantity (read_optional fs 278) (read_optional fs 288) (read_optional fs 289)
       else (case read_optional fs 278 of
          None \<Rightarrow> MdLevel action side price quantity
        | Some reference \<Rightarrow> MdOrder action side reference price quantity
            (read_optional fs (if side = Buy then 288 else 289)))))))))))"

definition small :: "nat option \<Rightarrow> bool" where
  "small n \<longleftrightarrow> (case n of Some i \<Rightarrow> i < 2 ^ 128 | None \<Rightarrow> True)"

fun increment_fits :: "listing_key \<times> md_increment \<Rightarrow> bool" where
  "increment_fits (key, MdLevel _ _ price quantity) \<longleftrightarrow>
     lk_venue key < 2 ^ 128 \<and> lk_instrument key < 2 ^ 128 \<and> in_i64 price \<and> in_i64 quantity"
| "increment_fits (key, MdOrder _ _ reference price quantity broker) \<longleftrightarrow>
     lk_venue key < 2 ^ 128 \<and> lk_instrument key < 2 ^ 128 \<and> in_i64 price \<and> in_i64 quantity \<and> reference < 2 ^ 64 \<and> small broker"
| "increment_fits (key, MdTraded price quantity reference buyer seller) \<longleftrightarrow>
     lk_venue key < 2 ^ 128 \<and> lk_instrument key < 2 ^ 128 \<and> in_i64 price \<and> in_i64 quantity
     \<and> small reference \<and> small buyer \<and> small seller"

abbreviation wire_fields :: "(nat \<times> string) list \<Rightarrow> field list" where
  "wire_fields fs \<equiv> map (\<lambda>(tag, v). field_new tag v) fs"

abbreviation increment_members :: "nat list" where
  "increment_members \<equiv> [269, 48, 207, 278, 288, 289, 270, 271, 83]"

lemma entry_value_wire: "entry_value (wire_fields fs) tag = map_of fs tag"
  by (induction fs) (auto simp: entry_value_def field_new_def)

lemma read_action_code: "read_action (update_code action) = Some action"
  by (cases action) (simp_all add: read_action_def)

lemma side_type_reads: "side_type side \<noteq> ''2''" "(if side_type side = ''0'' then Buy else Sell) = side"
  by (cases side; simp add: side_type_def)+

lemma read_increment_fields:
  assumes "increment_fits e" "number < 2 ^ 128"
  shows "read_increment (wire_fields (increment_fields number e)) = Some (number, e)"
proof -
  obtain key change where e: "e = (key, change)"
    by fastforce
  define entry where "entry = wire_fields (increment_fields number e)"
  have at: "entry_value entry tag = map_of (increment_fields number e) tag" for tag
    by (simp only: entry_def entry_value_wire)
  note parts = read_increment_def read_optional_def at increment_fields_def push_brokers_def Let_def
    read_action_code side_type_reads parse_show_u128 parse_show_i64 small_def
  have "read_increment entry = Some (number, e)"
  proof (cases change)
    case (MdLevel action side price quantity)
    with assms e show ?thesis
      by (simp add: parts prod_eq_iff)
  next
    case (MdOrder action side reference price quantity broker)
    moreover have "reference < 2 ^ 128"
      using assms MdOrder e by simp
    ultimately show ?thesis
      using assms e by (cases side; cases broker) (simp_all add: parts prod_eq_iff side_type_def)
  next
    case (MdTraded price quantity reference buyer seller)
    have "read_action ''0'' = Some MdNew"
      by (simp add: read_action_def)
    with MdTraded assms e show ?thesis
      by (cases reference; cases buyer; cases seller) (simp_all add: parts prod_eq_iff)
  qed
  then show ?thesis
    by (simp only: entry_def)
qed

lemma increment_entry_ok: "entry_ok 279 increment_members (wire_fields (increment_fields number e))"
proof -
  obtain action type reference price quantity where v: "increment_values (snd e) = (action, type, reference, price, quantity)"
    by (cases "increment_values (snd e)") auto
  obtain buyer seller where b: "increment_brokers (snd e) = (buyer, seller)"
    by fastforce
  show ?thesis
    by (cases reference; cases buyer; cases seller)
      (simp_all add: increment_fields_def v b push_brokers_def entry_ok_def field_new_def)
qed

text \<open>
  A public incremental refresh reads back exactly: its repeating group holds one entry per change, in
  order, and each entry gives back its listing, the change with its price, quantity, reference and
  brokers, and a report number that counts up by one from the first.
\<close>

theorem increments_read_back:
  assumes "list_all increment_fits es" "first + length es < 2 ^ 64" "length es \<le> (2 ^ 63 - 1) div 24"
  shows "\<exists>g. repeating_group (market_incremental request_id first es) 268 279 increment_members = Some (Ok g)
    \<and> map read_increment (entries g) = map (\<lambda>(k, e). Some (first + k, e)) (enumerate 0 es)"
proof -
  let ?entries = "map (\<lambda>(offset, e). wire_fields (increment_fields (report_number first offset) e)) (enumerate 0 es)"
  let ?f = "field_new 268 (show_u128 (length es))"
  have fields: "message_fields (market_incremental request_id first es) = [field_new 262 request_id] @ ?f # concat ?entries"
    by (simp add: market_incremental_def message_fields_push_fields fix_message_new_def map_concat case_prod_unfold comp_def)
  have count: "parse_uint 64 (field_value ?f) = Some (length es)" "\<not> capacity_overflows (length es)"
    using assms(2,3) by (simp_all add: field_new_def parse_uint_show capacity_overflows_def vec_entry_bytes_def)
  have "\<forall>e\<in>set ?entries. entry_ok 279 increment_members e"
    by (auto simp: increment_entry_ok)
  then have "repeating_group (market_incremental request_id first es) 268 279 increment_members
      = Some (Ok \<lparr>count_tag = 268, delimiter_tag = 279, entries = ?entries\<rparr>)"
    using repeating_group_exact [OF fields _ _ count, of 268 279 increment_members ?entries]
    by (simp add: field_new_def group_ends_def)
  moreover have "read_increment (wire_fields (increment_fields (report_number first k) e)) = Some (first + k, e)"
    if "(k, e) \<in> set (enumerate 0 es)" for k e
  proof -
    have "k < length es" "increment_fits e"
      using that assms(1) nth_mem [of k es] by (simp_all add: in_set_enumerate_eq list_all_iff)
    with assms(2) read_increment_fields [of e "first + k"] show ?thesis
      by (simp add: report_number_def)
  qed
  then have "map read_increment ?entries = map (\<lambda>(k, e). Some (first + k, e)) (enumerate 0 es)"
    by auto
  ultimately show ?thesis
    by auto
qed


subsection \<open>Witnesses\<close>

definition open_dictionary :: competition_dictionary where
  "open_dictionary = (let d = \<lparr>message_by_msgtype = \<lambda>_. True, field_by_tag = \<lambda>_. True, price_datatype = \<lambda>_. False\<rparr> in
     \<lparr>session_dict = d, application_dict = d\<rparr>)"

definition sample_order :: desired_order where
  "sample_order = \<lparr>do_client_order_id = 10, do_instrument_id = 7, do_participant_id = 1, do_side = Sell, do_quantity = 50,
     do_kind = LimitWithPolicy 101 (Gtd 900) True (Some 5), do_anonymous = True\<rparr>"

definition sample_changes :: "(listing_key \<times> md_increment) list" where
  "sample_changes = [((2, 7), MdLevel MdChange Buy 100 30), ((2, 7), MdOrder MdNew Sell 12 101 5 (Some 3)),
     ((2, 7), MdTraded 101 5 (Some 12) None (Some 3))]"

theorem increments_read_back_witness:
  "\<exists>g. repeating_group (market_incremental ''r'' 41 sample_changes) 268 279 increment_members = Some (Ok g)
    \<and> map read_increment (entries g) = [Some (41, (2, 7), MdLevel MdChange Buy 100 30),
        Some (42, (2, 7), MdOrder MdNew Sell 12 101 5 (Some 3)), Some (43, (2, 7), MdTraded 101 5 (Some 12) None (Some 3))]"
proof -
  have "list_all increment_fits sample_changes" "(41 :: nat) + length sample_changes < 2 ^ 64"
    "length sample_changes \<le> (2 ^ 63 - 1) div 24"
    by (simp_all add: sample_changes_def small_def in_i64_def)
  from increments_read_back [OF this, of "''r''"] show ?thesis
    by (simp add: sample_changes_def)
qed

end
