(* ===== verification/Sequencer.thy ===== *)
theory Sequencer
  imports Latency "HOL-Library.Multiset"
begin

text \<open>
  The release queue of \<open>packages/admission-sequencer/src/lib.rs\<close>: commands wait in a
  binary heap keyed by release time and arrival number until the host clock reaches
  their release. The heap is the standard library's; what the code relies on is the
  locale \<open>min_heap\<close>, interpreted on ascending lists, which are what a min-heap is
  observably. The host clock is only ever used through the running maximum
  \<open>floor_us\<close>, so the results hold for any clock readings, monotonic or not.
\<close>

subsection \<open>Min-heaps\<close>

locale min_heap =
  fixes push :: "'k::linorder \<Rightarrow> 'h \<Rightarrow> 'h"
    and peek :: "'h \<Rightarrow> 'k option"
    and pop :: "'h \<Rightarrow> 'h"
    and elems :: "'h \<Rightarrow> 'k set"
    and wf :: "'h \<Rightarrow> bool"
  assumes push_wf: "wf h \<Longrightarrow> k \<notin> elems h \<Longrightarrow> wf (push k h)"
    and push_elems: "wf h \<Longrightarrow> elems (push k h) = insert k (elems h)"
    and peek_None: "wf h \<Longrightarrow> peek h = None \<longleftrightarrow> elems h = {}"
    and peek_mem: "wf h \<Longrightarrow> peek h = Some k \<Longrightarrow> k \<in> elems h"
    and peek_least: "wf h \<Longrightarrow> peek h = Some k \<Longrightarrow> k' \<in> elems h \<Longrightarrow> k \<le> k'"
    and pop_wf: "wf h \<Longrightarrow> wf (pop h)"
    and pop_elems: "wf h \<Longrightarrow> peek h = Some k \<Longrightarrow> elems (pop h) = elems h - {k}"
begin

text \<open>After a pop every remaining key is greater than the popped one.\<close>

lemma pop_greater: "wf h \<Longrightarrow> peek h = Some k \<Longrightarrow> k' \<in> elems (pop h) \<Longrightarrow> k < k'"
  using pop_elems [of h k] peek_least [of h k k'] by (auto simp: order_less_le)

lemma peek_eqI: "wf h \<Longrightarrow> k \<in> elems h \<Longrightarrow> (\<And>k'. k' \<in> elems h \<Longrightarrow> k \<le> k') \<Longrightarrow> peek h = Some k"
  using peek_None [of h] peek_mem [of h] peek_least [of h] by (cases "peek h") (auto intro: antisym)

end

definition heap_push :: "'k::linorder \<Rightarrow> 'k list \<Rightarrow> 'k list" where
  "heap_push k h = insort k h"

definition heap_peek :: "'k list \<Rightarrow> 'k option" where
  "heap_peek h = (case h of [] \<Rightarrow> None | k # _ \<Rightarrow> Some k)"

definition heap_pop :: "'k list \<Rightarrow> 'k list" where
  "heap_pop h = tl h"

interpretation hp: min_heap heap_push heap_peek heap_pop set "sorted_wrt (<)"
proof unfold_locales
  fix h :: "'a list" and k :: 'a
  show "sorted_wrt (<) h \<Longrightarrow> k \<notin> set h \<Longrightarrow> sorted_wrt (<) (heap_push k h)"
    by (simp add: heap_push_def strict_sorted_iff sorted_insort distinct_insort)
  show "sorted_wrt (<) h \<Longrightarrow> set (heap_push k h) = insert k (set h)"
    by (simp add: heap_push_def set_insort_key)
  show "sorted_wrt (<) h \<Longrightarrow> sorted_wrt (<) (heap_pop h)"
    by (cases h) (auto simp: heap_pop_def)
qed (auto simp: heap_peek_def heap_pop_def split: list.splits)

subsection \<open>The sequencer\<close>

record 'a sequencer =
  capacity :: nat
  next_arrival :: nat
  floor_us :: nat
  heap :: "(nat \<times> nat) list"
  items :: "(nat, admission_record \<times> 'a) btree_map"

definition sequencer_new :: "nat \<Rightarrow> 'a sequencer" where
  "sequencer_new cap = \<lparr>capacity = max cap 1, next_arrival = 0, floor_us = 0, heap = [], items = []\<rparr>"

definition seq_admit ::
    "'a sequencer \<Rightarrow> nat \<Rightarrow> admission_record \<Rightarrow> 'a \<Rightarrow> (admission_record \<times> 'a sequencer, admission_error) result" where
  "seq_admit s now rec item =
     (if length (items s) \<ge> capacity s then Err (QueueFull (capacity s))
      else
        let floor = max (floor_us s) now;
            rec' = rec\<lparr>release_us := max (release_us rec) floor, arrival_sequence := next_arrival s\<rparr>
        in Ok (rec', s\<lparr>floor_us := floor, next_arrival := (next_arrival s + 1) mod 2 ^ 64,
                      heap := heap_push (release_us rec', arrival_sequence rec') (heap s),
                      items := bt_insert (arrival_sequence rec') (rec', item) (items s)\<rparr>))"

definition pop_due :: "'a sequencer \<Rightarrow> nat \<Rightarrow> (admission_record \<times> 'a) option \<times> 'a sequencer" where
  "pop_due s now =
     (let s1 = s\<lparr>floor_us := max (floor_us s) now\<rparr> in
      case heap_peek (heap s1) of
        None \<Rightarrow> (None, s1)
      | Some (release, arrival) \<Rightarrow>
          if release > floor_us s1 then (None, s1)
          else (bt_get (items s1) arrival,
                s1\<lparr>heap := heap_pop (heap s1), items := bt_remove arrival (items s1)\<rparr>))"

definition next_release_us :: "'a sequencer \<Rightarrow> nat option" where
  "next_release_us s = map_option fst (heap_peek (heap s))"

definition sequencer_len :: "'a sequencer \<Rightarrow> nat" where
  "sequencer_len s = length (items s)"

subsection \<open>Invariant\<close>

definition release_key :: "admission_record \<times> 'a \<Rightarrow> nat \<times> nat" where
  "release_key e = (release_us (fst e), arrival_sequence (fst e))"

definition seq_inv :: "'a sequencer \<Rightarrow> bool" where
  "seq_inv s \<longleftrightarrow>
     sorted_wrt (<) (heap s) \<and> bt_wf (items s) \<and> length (items s) \<le> capacity s \<and> 0 < capacity s \<and>
     (\<forall>a e. bt_get (items s) a = Some e \<longrightarrow>
        arrival_sequence (fst e) = a \<and> a < next_arrival s \<and> release_key e \<in> set (heap s)) \<and>
     (\<forall>r a. (r, a) \<in> set (heap s) \<longrightarrow> (\<exists>e. bt_get (items s) a = Some e \<and> release_us (fst e) = r))"

lemma seq_inv_new: "seq_inv (sequencer_new cap)"
  by (simp add: seq_inv_def sequencer_new_def)

lemma sequencer_new_arrival [simp]: "next_arrival (sequencer_new cap) = 0"
  by (simp add: sequencer_new_def)

lemma seq_invD:
  assumes "seq_inv s" and "bt_get (items s) a = Some e"
  shows "arrival_sequence (fst e) = a" and "a < next_arrival s" and "release_key e \<in> set (heap s)"
  using assms unfolding seq_inv_def by blast+

lemma seq_inv_heap_iff:
  assumes "seq_inv s"
  shows "(r, a) \<in> set (heap s) \<longleftrightarrow> (\<exists>e. bt_get (items s) a = Some e \<and> release_key e = (r, a))"
proof
  assume "(r, a) \<in> set (heap s)"
  then show "\<exists>e. bt_get (items s) a = Some e \<and> release_key e = (r, a)"
    using assms unfolding seq_inv_def release_key_def by blast
next
  assume "\<exists>e. bt_get (items s) a = Some e \<and> release_key e = (r, a)"
  then show "(r, a) \<in> set (heap s)"
    using assms unfolding seq_inv_def by metis
qed

lemma length_bt_insert: "bt_wf m \<Longrightarrow> bt_get m k = None \<Longrightarrow> length (bt_insert k v m) = Suc (length m)"
  using bt.sum_ins [of m "\<lambda>_ _. 1 :: int" k v] by (simp add: case_prod_unfold sum_list_triv)

lemma admit_OkD:
  assumes inv: "seq_inv s" and adm: "seq_admit s now rec item = Ok (rec', s')" and nowrap: "Suc (next_arrival s) < 2 ^ 64"
  shows "seq_inv s'" and "rec' = rec\<lparr>release_us := max (release_us rec) (max (floor_us s) now), arrival_sequence := next_arrival s\<rparr>"
    and "floor_us s' = max (floor_us s) now" and "next_arrival s' = Suc (next_arrival s)"
    and "set (heap s') = insert (release_us rec', next_arrival s) (set (heap s))"
    and "items s' = bt_insert (next_arrival s) (rec', item) (items s)"
    and "bt_get (items s) (next_arrival s) = None"
proof -
  have sorted: "sorted_wrt (<) (heap s)" and wf: "bt_wf (items s)"
    using inv by (auto simp: seq_inv_def)
  show new: "bt_get (items s) (next_arrival s) = None"
    using inv unfolding seq_inv_def by (metis not_Some_eq order_less_irrefl)
  have notin: "(r, next_arrival s) \<notin> set (heap s)" for r
    using new by (simp add: seq_inv_heap_iff [OF inv])
  show rec': "rec' = rec\<lparr>release_us := max (release_us rec) (max (floor_us s) now), arrival_sequence := next_arrival s\<rparr>"
    and floor: "floor_us s' = max (floor_us s) now" and nxt: "next_arrival s' = Suc (next_arrival s)"
    and heap: "set (heap s') = insert (release_us rec', next_arrival s) (set (heap s))"
    and items: "items s' = bt_insert (next_arrival s) (rec', item) (items s)"
    using adm nowrap hp.push_elems [OF sorted] by (auto simp: seq_admit_def Let_def split: if_splits)
  have "heap s' = heap_push (release_us rec', next_arrival s) (heap s)" and cap: "capacity s' = capacity s"
    "length (items s) < capacity s"
    using adm by (auto simp: seq_admit_def Let_def split: if_splits)
  then have "sorted_wrt (<) (heap s')"
    using hp.push_wf [OF sorted notin] by simp
  moreover have "bt_wf (items s')" "length (items s') \<le> capacity s'"
    using wf new cap by (simp_all add: items length_bt_insert)
  moreover have "arrival_sequence (fst e) = a \<and> a < next_arrival s' \<and> release_key e \<in> set (heap s')"
    if "bt_get (items s') a = Some e" for a e
    using that seq_invD [OF inv, of a e]
    by (cases "a = next_arrival s") (auto simp: items nxt heap release_key_def rec')
  moreover have "\<exists>e. bt_get (items s') a = Some e \<and> release_us (fst e) = r" if "(r, a) \<in> set (heap s')" for r a
    using that notin seq_inv_heap_iff [OF inv, of r a]
    by (cases "a = next_arrival s") (auto simp: items heap release_key_def)
  moreover have "0 < capacity s'"
    using cap(2) by (simp add: cap(1))
  ultimately show "seq_inv s'"
    by (simp add: seq_inv_def)
qed

lemma pop_due_cases:
  assumes inv: "seq_inv s"
  obtains (none) "pop_due s now = (None, s\<lparr>floor_us := max (floor_us s) now\<rparr>)"
      "\<And>r a. (r, a) \<in> set (heap s) \<Longrightarrow> max (floor_us s) now < r"
  | (some) e s' where "pop_due s now = (Some e, s')" "seq_inv s'" "release_us (fst e) \<le> max (floor_us s) now"
      "release_key e \<in> set (heap s)" "set (heap s') = set (heap s) - {release_key e}"
      "\<And>k. k \<in> set (heap s') \<Longrightarrow> release_key e < k" "floor_us s' = max (floor_us s) now"
      "next_arrival s' = next_arrival s" "bt_get (items s) (arrival_sequence (fst e)) = Some e"
      "items s' = bt_remove (arrival_sequence (fst e)) (items s)"
proof -
  have sorted: "sorted_wrt (<) (heap s)" and wf: "bt_wf (items s)"
    using inv by (auto simp: seq_inv_def)
  show ?thesis
  proof (cases "heap_peek (heap s)")
    case None
    then show ?thesis
      using none hp.peek_None [OF sorted] by (simp add: pop_due_def)
  next
    case (Some k)
    obtain r a where k: "k = (r, a)" by (cases k)
    show ?thesis
    proof (cases "r > max (floor_us s) now")
      case True
      have "max (floor_us s) now < r'" if "(r', a') \<in> set (heap s)" for r' a'
        using hp.peek_least [OF sorted Some that] True by (auto simp: k)
      with True show ?thesis
        using none Some k by (simp add: pop_due_def)
    next
      case False
      obtain e where e: "bt_get (items s) a = Some e" "release_key e = (r, a)"
        using hp.peek_mem [OF sorted Some] by (auto simp: k seq_inv_heap_iff [OF inv])
      let ?s' = "s\<lparr>floor_us := max (floor_us s) now, heap := heap_pop (heap s), items := bt_remove a (items s)\<rparr>"
      have pop: "pop_due s now = (Some e, ?s')"
        using False Some e(1) by (auto simp: pop_due_def k Let_def)
      have heap: "set (heap_pop (heap s)) = set (heap s) - {(r, a)}"
        using hp.pop_elems [OF sorted Some] by (simp add: k)
      have len: "length (bt_remove a (items s)) \<le> capacity s" "0 < capacity s"
        using inv order_trans [OF length_filter_le, of "items s" "capacity s" "\<lambda>x. fst x \<noteq> a"]
        by (simp_all only: bt_remove_def seq_inv_def)
      have keep: "arrival_sequence (fst e') = a' \<and> a' < next_arrival s \<and> release_key e' \<in> set (heap_pop (heap s))"
        if "bt_get (bt_remove a (items s)) a' = Some e'" for a' e'
      proof -
        have "bt_get (items s) a' = Some e'" "a' \<noteq> a"
          using that by (auto split: if_splits)
        then show ?thesis
          using seq_invD [OF inv, of a' e'] by (auto simp: heap release_key_def)
      qed
      have there: "\<exists>e'. bt_get (bt_remove a (items s)) a' = Some e' \<and> release_us (fst e') = r'"
        if "(r', a') \<in> set (heap_pop (heap s))" for r' a'
      proof -
        have "(r', a') \<in> set (heap s)" "(r', a') \<noteq> (r, a)"
          using that by (simp_all add: heap)
        moreover from this obtain e' where e': "bt_get (items s) a' = Some e'" "release_key e' = (r', a')"
          by (auto simp: seq_inv_heap_iff [OF inv])
        ultimately have "a' \<noteq> a"
          using e by auto
        then show ?thesis
          using e' by (simp add: release_key_def)
      qed
      have "seq_inv ?s'"
        unfolding seq_inv_def [of ?s'] using len keep there wf hp.pop_wf [OF sorted] by simp
      then show ?thesis
        using some [OF pop] e False heap hp.pop_greater [OF sorted Some] hp.peek_mem [OF sorted Some]
        by (auto simp: k release_key_def)
    qed
  qed
qed

subsection \<open>Runs\<close>

text \<open>Any interleaving of the host's calls, with the commands that come out and those let in.\<close>

datatype 'a seq_event = AdmitAt nat admission_record 'a | PopAt nat

fun seq_run :: "'a sequencer \<Rightarrow> 'a seq_event list \<Rightarrow> (admission_record \<times> 'a) list \<times> 'a sequencer" where
  "seq_run s [] = ([], s)"
| "seq_run s (AdmitAt now rec x # evs) =
     (case seq_admit s now rec x of Inl _ \<Rightarrow> seq_run s evs | Inr (_, s') \<Rightarrow> seq_run s' evs)"
| "seq_run s (PopAt now # evs) =
     (case pop_due s now of
        (None, s') \<Rightarrow> seq_run s' evs
      | (Some e, s') \<Rightarrow> (case seq_run s' evs of (out, s'') \<Rightarrow> (e # out, s'')))"

fun admitted :: "'a sequencer \<Rightarrow> 'a seq_event list \<Rightarrow> (admission_record \<times> 'a) list" where
  "admitted s [] = []"
| "admitted s (AdmitAt now rec x # evs) =
     (case seq_admit s now rec x of Inl _ \<Rightarrow> admitted s evs | Inr (rec', s') \<Rightarrow> (rec', x) # admitted s' evs)"
| "admitted s (PopAt now # evs) = admitted (snd (pop_due s now)) evs"

fun is_admit :: "'a seq_event \<Rightarrow> bool" where
  "is_admit (AdmitAt _ _ _) = True"
| "is_admit (PopAt _) = False"

definition admits :: "'a seq_event list \<Rightarrow> nat" where
  "admits evs = length (filter is_admit evs)"

lemma admits_simps [simp]:
  "admits [] = 0" "admits (AdmitAt now rec x # evs) = Suc (admits evs)" "admits (PopAt now # evs) = admits evs"
  by (simp_all add: admits_def)

text \<open>Raising the floor alone keeps the invariant.\<close>

lemma seq_inv_floor [simp]: "seq_inv (s\<lparr>floor_us := f\<rparr>) = seq_inv s"
  by (simp add: seq_inv_def)

text \<open>Everything still to come is ordered after \<open>lst\<close>.\<close>

definition beyond :: "nat \<times> nat \<Rightarrow> 'a sequencer \<Rightarrow> bool" where
  "beyond lst s \<longleftrightarrow> (\<forall>k \<in> set (heap s). lst < k) \<and> fst lst \<le> floor_us s \<and> snd lst < next_arrival s"

lemma beyond_admit:
  assumes "seq_inv s" and "seq_admit s now rec x = Ok (rec', s')" and "Suc (next_arrival s) < 2 ^ 64" and "beyond lst s"
  shows "beyond lst s'"
proof -
  note D = admit_OkD [OF assms(1-3)]
  have "lst < (release_us rec', next_arrival s)"
    using assms(4) D(2) by (cases lst) (auto simp: beyond_def)
  then show ?thesis
    using assms(4) D(3-5) by (auto simp: beyond_def)
qed

lemma beyond_popped:
  assumes "seq_inv s" and "pop_due s now = (Some e, s')"
  shows "beyond (release_key e) s'"
proof (rule pop_due_cases [OF assms(1), of now], goal_cases)
  case 1
  then show ?case using assms(2) by simp
next
  case (2 e' s'')
  then show ?case
    using assms(2) seq_invD(2) [OF assms(1) 2(9)] by (auto simp: beyond_def release_key_def)
qed

lemma beyond_pop:
  assumes "seq_inv s" and "beyond lst s"
  shows "beyond lst (snd (pop_due s now))"
    and "fst (pop_due s now) = Some e \<Longrightarrow> lst < release_key e"
  by (rule pop_due_cases [OF assms(1), of now]; use assms(2) in \<open>auto simp: beyond_def\<close>)+

lemma pop_due_inv: "seq_inv s \<Longrightarrow> seq_inv (snd (pop_due s now)) \<and> next_arrival (snd (pop_due s now)) = next_arrival s"
  by (rule pop_due_cases [of s now]) auto

lemma seq_run_order:
  assumes "seq_run s evs = (out, s')" and "seq_inv s" and "next_arrival s + admits evs < 2 ^ 64"
  shows "seq_inv s' \<and> sorted_wrt (<) (map release_key out) \<and>
    (\<forall>lst. beyond lst s \<longrightarrow> (\<forall>e \<in> set out. lst < release_key e))"
  using assms
proof (induction s evs arbitrary: out rule: seq_run.induct)
  case (2 s now rec x evs)
  show ?case
  proof (cases "seq_admit s now rec x")
    case (Inl e)
    then show ?thesis
      using 2 by simp
  next
    case (Inr p)
    obtain rec' s1 where p: "p = (rec', s1)" by (cases p)
    have nw: "Suc (next_arrival s) < 2 ^ 64"
      using 2(5) by simp
    note D = admit_OkD [OF 2(4) Inr [unfolded p] nw]
    have "seq_inv s' \<and> sorted_wrt (<) (map release_key out) \<and>
        (\<forall>lst. beyond lst s1 \<longrightarrow> (\<forall>e \<in> set out. lst < release_key e))"
      using 2(2) [OF Inr p [symmetric] _ D(1)] 2(3,5) Inr p D(4) by simp
    then show ?thesis
      using beyond_admit [OF 2(4) Inr [unfolded p] nw] by blast
  qed
next
  case (3 s now evs)
  obtain r s1 where pop: "pop_due s now = (r, s1)" by (cases "pop_due s now")
  have inv1: "seq_inv s1" and n1: "next_arrival s1 = next_arrival s"
    using pop_due_inv [OF 3(4), of now] pop by simp_all
  show ?case
  proof (cases r)
    case None
    have "seq_inv s' \<and> sorted_wrt (<) (map release_key out) \<and>
        (\<forall>lst. beyond lst s1 \<longrightarrow> (\<forall>e \<in> set out. lst < release_key e))"
      using 3(1) [OF pop [symmetric] None _ inv1] 3(3,5) pop None n1 by simp
    then show ?thesis
      using beyond_pop(1) [OF 3(4), of _ now] pop by simp
  next
    case (Some e)
    obtain out1 where run: "seq_run s1 evs = (out1, s')" and out: "out = e # out1"
      using 3(3) pop Some by (auto split: prod.splits)
    have "seq_inv s' \<and> sorted_wrt (<) (map release_key out1) \<and>
        (\<forall>lst. beyond lst s1 \<longrightarrow> (\<forall>e \<in> set out1. lst < release_key e))"
      using 3(2) [OF pop [symmetric] Some run inv1] 3(5) n1 by simp
    then have IH: "seq_inv s'" "sorted_wrt (<) (map release_key out1)"
      "\<And>lst. beyond lst s1 \<Longrightarrow> \<forall>e \<in> set out1. lst < release_key e"
      by blast+
    have "beyond (release_key e) s1"
      using beyond_popped [OF 3(4)] pop Some by simp
    then show ?thesis
      using IH out beyond_pop(1,2) [OF 3(4), of _ now] pop Some by simp
  qed
qed simp

subsection \<open>Nothing is lost\<close>

definition queued_items :: "'a sequencer \<Rightarrow> (admission_record \<times> 'a) multiset" where
  "queued_items s = mset (map snd (items s))"

lemma mset_bt_insert:
  assumes "bt_wf m" and "bt_get m k = None"
  shows "mset (bt_insert k v m) = add_mset (k, v) (mset m)"
proof -
  have notin: "(k, v) \<notin> set m"
    using bt_get_mem [OF assms(1), of k v] assms(2) by simp
  have "distinct m" and "distinct (bt_insert k v m)"
    using bt_distinct [OF assms(1)] bt_distinct [OF bt_wf_insert [OF assms(1), of k v]] by (simp_all add: distinct_map)
  moreover have "e \<in> set (bt_insert k v m) \<longleftrightarrow> e \<in> insert (k, v) (set m)" for e
  proof (cases e)
    case (Pair j w)
    then have "e \<in> set (bt_insert k v m) \<longleftrightarrow> bt_get (bt_insert k v m) j = Some w"
      and "e \<in> set m \<longleftrightarrow> bt_get m j = Some w"
      using bt_get_mem [OF bt_wf_insert [OF assms(1)]] bt_get_mem [OF assms(1)] by blast+
    with Pair show ?thesis
      using assms(2) by auto
  qed
  then have "set (bt_insert k v m) = insert (k, v) (set m)"
    by blast
  ultimately show ?thesis
    using notin by (simp flip: mset_set_set)
qed

lemma mset_bt_remove:
  assumes "bt_wf m" and "bt_get m k = Some v"
  shows "mset m = add_mset (k, v) (mset (bt_remove k m))"
  using mset_bt_insert [OF bt_wf_remove [OF assms(1)], of k k v] bt_insert_remove [OF assms] by simp

lemma queued_items_admit:
  assumes "seq_inv s" and "seq_admit s now rec x = Ok (rec', s')" and "Suc (next_arrival s) < 2 ^ 64"
  shows "queued_items s' = add_mset (rec', x) (queued_items s)"
  using admit_OkD(6,7) [OF assms] assms(1) by (simp add: queued_items_def mset_bt_insert seq_inv_def)

lemma queued_items_pop:
  assumes "seq_inv s" and "pop_due s now = (r, s')"
  shows "queued_items s = (case r of None \<Rightarrow> queued_items s' | Some e \<Rightarrow> add_mset e (queued_items s'))"
proof (rule pop_due_cases [OF assms(1), of now], goal_cases)
  case 1
  then show ?case using assms(2) by (auto simp: queued_items_def)
next
  case (2 e s'')
  have wf: "bt_wf (items s)"
    using assms(1) by (simp add: seq_inv_def)
  show ?case
    using 2(1,10) assms(2) mset_bt_remove [OF wf 2(9)] by (auto simp: queued_items_def)
qed

lemma seq_run_conserves:
  assumes "seq_run s evs = (out, s')" and "seq_inv s" and "next_arrival s + admits evs < 2 ^ 64"
  shows "mset out + queued_items s' = queued_items s + mset (admitted s evs)"
  using assms
proof (induction s evs arbitrary: out rule: seq_run.induct)
  case (2 s now rec x evs)
  show ?case
  proof (cases "seq_admit s now rec x")
    case (Inr p)
    obtain rec' s1 where p: "p = (rec', s1)" by (cases p)
    have nw: "Suc (next_arrival s) < 2 ^ 64"
      using 2(5) by simp
    note D = admit_OkD [OF 2(4) Inr [unfolded p] nw]
    show ?thesis
      using 2(2) [OF Inr p [symmetric] _ D(1)] 2(3,5) Inr p D(4) queued_items_admit [OF 2(4) Inr [unfolded p] nw]
      by simp
  qed (use 2 in simp)
next
  case (3 s now evs)
  obtain r s1 where pop: "pop_due s now = (r, s1)" by (cases "pop_due s now")
  have inv1: "seq_inv s1" and n1: "next_arrival s1 = next_arrival s"
    using pop_due_inv [OF 3(4), of now] pop by simp_all
  note q = queued_items_pop [OF 3(4) pop]
  show ?case
  proof (cases r)
    case None
    then show ?thesis
      using 3(1) [OF pop [symmetric] None _ inv1] 3(3,5) pop n1 q by simp
  next
    case (Some e)
    obtain out1 where run: "seq_run s1 evs = (out1, s')" and out: "out = e # out1"
      using 3(3) pop Some by (auto split: prod.splits)
    then show ?thesis
      using 3(2) [OF pop [symmetric] Some run inv1] 3(5) n1 q pop Some by simp
  qed
qed simp

text \<open>
  C34. Commands are released in order: over any sequence of admissions and pops at any
  clock readings, the commands come out in strictly ascending order of release time
  and arrival number, whenever they were admitted; nothing is ever ordered before
  a command already released. The queue never exceeds its capacity. (Fewer than
  \<open>2 ^ 64\<close> admissions, after which arrival numbers repeat.)
\<close>

theorem releases_in_order:
  assumes "seq_run (sequencer_new cap) evs = (out, s')" and "admits evs < 2 ^ 64"
  shows "sorted_wrt (<) (map (\<lambda>e. (release_us (fst e), arrival_sequence (fst e))) out) \<and>
    length (items s') \<le> capacity s'"
proof -
  have "seq_inv s'" "sorted_wrt (<) (map release_key out)"
    using seq_run_order [OF assms(1) seq_inv_new] assms(2) by auto
  then show ?thesis
    by (simp add: seq_inv_def release_key_def [abs_def])
qed

text \<open>
  Nothing is lost or duplicated: the commands that came out, together with those
  still queued, are exactly the commands that were admitted.
\<close>

theorem released_exactly_once:
  assumes "seq_run (sequencer_new cap) evs = (out, s')" and "admits evs < 2 ^ 64"
  shows "mset out + mset (map snd (items s')) = mset (admitted (sequencer_new cap) evs)"
  using seq_run_conserves [OF assms(1) seq_inv_new] assms(2) by (simp add: queued_items_def sequencer_new_def)

text \<open>
  A pop is exact: it returns a queued command only when its release has been
  reached by the clock, always the first one in release order, and it returns none
  only when every queued command's release lies in the future; so no command is
  released early and none that is due is withheld. The head that \<open>next_release_us\<close>
  announces is the time a pop first succeeds.
\<close>

theorem pop_due_exact:
  assumes "seq_inv s" and "pop_due s now = (r, s')"
  shows "case r of
      None \<Rightarrow> items s' = items s \<and> (\<forall>a e. bt_get (items s) a = Some e \<longrightarrow> max (floor_us s) now < release_us (fst e))
    | Some e \<Rightarrow> release_us (fst e) \<le> max (floor_us s) now \<and>
        bt_get (items s) (arrival_sequence (fst e)) = Some e \<and>
        items s' = bt_remove (arrival_sequence (fst e)) (items s) \<and>
        next_release_us s = Some (release_us (fst e)) \<and>
        (\<forall>a e'. bt_get (items s) a = Some e' \<longrightarrow> release_key e \<le> release_key e')"
proof (rule pop_due_cases [OF assms(1), of now], goal_cases)
  case 1
  have "max (floor_us s) now < release_us (fst e)" if "bt_get (items s) a = Some e" for a e
    using 1(2) seq_invD(3) [OF assms(1) that] by (simp add: release_key_def)
  then show ?case
    using 1(1) assms(2) by auto
next
  case (2 e s'')
  have sorted: "sorted_wrt (<) (heap s)"
    using assms(1) by (simp add: seq_inv_def)
  have least: "release_key e \<le> k" if "k \<in> set (heap s)" for k
    using 2(5) 2(6) [of k] that order_less_imp_le by (cases "k = release_key e") simp_all
  then have "next_release_us s = Some (release_us (fst e))"
    using hp.peek_eqI [OF sorted 2(4) least] by (simp add: next_release_us_def release_key_def)
  then show ?case
    using 2 assms(2) least seq_invD(3) [OF assms(1)] by auto
qed

lemma pops_drain:
  assumes "seq_inv s" and "\<forall>(r, a) \<in> set (heap s). r \<le> now" and "length (items s) = n"
  shows "length (items (snd (seq_run s (replicate n (PopAt now))))) = 0"
  using assms
proof (induction n arbitrary: s)
  case (Suc n)
  have "items s \<noteq> []"
    using Suc.prems(3) by auto
  then obtain a e where "bt_get (items s) a = Some e"
    by (auto simp: bt_Nil_iff [of "items s"])
  then obtain r a where "(r, a) \<in> set (heap s)"
    using seq_invD(3) [OF Suc.prems(1)] unfolding release_key_def by blast
  then have due: "\<not> (\<forall>r a. (r, a) \<in> set (heap s) \<longrightarrow> max (floor_us s) now < r)"
    using Suc.prems(2) by fastforce
  show ?case
  proof (rule pop_due_cases [OF Suc.prems(1), of now], goal_cases)
    case 1
    then show ?case using due by blast
  next
    case (2 e s')
    have "length (items s) = Suc (length (items s'))"
      using mset_bt_remove [of "items s" "arrival_sequence (fst e)" e] 2(9,10) Suc.prems(1)
      by (metis seq_inv_def size_add_mset size_mset)
    then show ?case
      using Suc.IH [OF 2(2)] 2(1,5) Suc.prems(2,3) by (simp add: case_prod_unfold)
  qed
qed simp

text \<open>
  The queue drains: once the clock has reached every queued release, as many pops
  as there are queued commands return all of them and leave the queue empty.
\<close>

theorem sequencer_drains:
  assumes "seq_inv s" and "\<forall>(r, a) \<in> set (heap s). r \<le> now" and "next_arrival s < 2 ^ 64"
    and "seq_run s (replicate (length (items s)) (PopAt now)) = (out, s')"
  shows "items s' = [] \<and> mset out = mset (map snd (items s))"
proof -
  let ?evs = "replicate (length (items s)) (PopAt now)"
  have "admits (replicate n (PopAt now :: 'a seq_event)) = 0" "admitted t (replicate n (PopAt now)) = []"
    for n and t :: "'a sequencer"
    by (induction n arbitrary: t) simp_all
  then have "mset out + queued_items s' = queued_items s"
    using seq_run_conserves [OF assms(4,1)] assms(3) by simp
  moreover have "items s' = []"
    using pops_drain [OF assms(1,2) refl] assms(4) by simp
  ultimately show ?thesis
    by (simp add: queued_items_def)
qed

subsection \<open>Example\<close>

definition ex_record :: "nat \<Rightarrow> admission_record" where
  "ex_record release = \<lparr>received_us = 0, measured_one_way_us = None, ar_rtt_source = RttNone, destination = Hub,
     path_latency_us = release, jitter_position = None, release_us = release, arrival_sequence = 0\<rparr>"

definition ex_events :: "string seq_event list" where
  "ex_events = [AdmitAt 1 (ex_record 20) ''a'', AdmitAt 2 (ex_record 10) ''b'', PopAt 15, AdmitAt 15 (ex_record 3) ''c'',
     PopAt 15, PopAt 19]"

definition ex_queue :: "string sequencer" where
  "ex_queue = \<lparr>capacity = 4, next_arrival = 3, floor_us = 19, heap = [(20, 0)],
     items = [(0, (ex_record 20)\<lparr>arrival_sequence := 0\<rparr>, ''a'')]\<rparr>"

text \<open>The late command is raised to the clock; the one not yet due stays.\<close>

lemma ex_seq_run:
  "seq_run (sequencer_new 4) ex_events =
     ([((ex_record 10)\<lparr>arrival_sequence := 1\<rparr>, ''b''), ((ex_record 3)\<lparr>release_us := 15, arrival_sequence := 2\<rparr>, ''c'')], ex_queue)"
  by (simp add: ex_events_def ex_queue_def sequencer_new_def seq_admit_def pop_due_def heap_push_def heap_peek_def heap_pop_def
      bt_insert_def bt_remove_def ex_record_def Let_def)

lemma ex_admits: "admits ex_events < 2 ^ 64"
  by (simp add: ex_events_def)

lemma ex_queue_inv: "seq_inv ex_queue"
  using seq_run_order [OF ex_seq_run seq_inv_new] ex_admits by simp

theorem releases_in_order_witness: "sorted_wrt (<) [(10::nat, 1::nat), (15, 2)] \<and> length (items ex_queue) \<le> 4"
  using releases_in_order [OF ex_seq_run ex_admits] by (simp add: ex_record_def ex_queue_def)

theorem released_exactly_once_witness:
  "{#((ex_record 10)\<lparr>arrival_sequence := 1\<rparr>, ''b''), ((ex_record 3)\<lparr>release_us := 15, arrival_sequence := 2\<rparr>, ''c'')#}
     + mset (map snd (items ex_queue)) = mset (admitted (sequencer_new 4) ex_events)"
  using released_exactly_once [OF ex_seq_run ex_admits] by simp

lemma ex_pop: "pop_due ex_queue 20 = (Some (ex_record 20, ''a''), ex_queue\<lparr>floor_us := 20, heap := [], items := []\<rparr>)"
  by (simp add: pop_due_def ex_queue_def heap_peek_def heap_pop_def bt_remove_def ex_record_def)

theorem pop_due_exact_witness: "next_release_us ex_queue = Some 20"
  using pop_due_exact [OF ex_queue_inv ex_pop] by (simp add: ex_record_def)

theorem sequencer_drains_witness:
  "\<exists>out s'. seq_run ex_queue [PopAt 20] = (out, s') \<and> items s' = [] \<and> mset out = mset (map snd (items ex_queue))"
proof -
  obtain out s' where run: "seq_run ex_queue [PopAt 20] = (out, s')"
    by (cases "seq_run ex_queue [PopAt 20]")
  have "\<forall>(r, a) \<in> set (heap ex_queue). r \<le> 20" "next_arrival ex_queue < 2 ^ 64" "length (items ex_queue) = 1"
    by (simp_all add: ex_queue_def)
  then show ?thesis
    using sequencer_drains [OF ex_queue_inv, of 20 out s'] run by simp
qed

end
