(* ===== verification/Engine_Accounts.thy ===== *)
theory Engine_Accounts
  imports Engine_Events
begin

text \<open>
  The accounting of a run. Every write of a command to the ledger is one of the ledger's
  own operations, so the ledger's laws carry over to whole runs: order commands neither
  create nor destroy money or lots, and every reachable run has a well-formed ledger.
\<close>

declare split_paired_All [simp del] split_paired_Ex [simp del]

subsection \<open>Well-formed accounts\<close>

definition price_ok :: "price_ticks \<Rightarrow> bool" where
  "price_ok p \<longleftrightarrow> 0 < p \<and> in_i64 p"

definition accounts_ok :: "run_state \<Rightarrow> bool" where
  "accounts_ok s \<longleftrightarrow>
     ledger_wf (run_ledger s) \<and> bt_wf (day_trades s) \<and> bt_wf (closes s) \<and>
     (\<forall>k p. bt_get (day_trades s) k = Some p \<longrightarrow> price_ok p) \<and> (\<forall>k p. bt_get (closes s) k = Some p \<longrightarrow> price_ok p)"

lemma marks_ok: "ledger_wf l \<Longrightarrow> ledger_mark l i = Some p \<Longrightarrow> price_ok p"
  by (auto simp: ledger_wf_views price_ok_def)

lemma settle_price: "settle l f = Ok l' \<Longrightarrow> 0 < fill_price f"
  by (erule settle_Ok)

text \<open>Order commands: same money in every currency, same lots of every instrument.\<close>

definition balanced :: "run_state \<Rightarrow> run_state \<Rightarrow> bool" where
  "balanced s s' \<longleftrightarrow> (accounts_ok s \<longrightarrow>
     accounts_ok s' \<and> trading_step\<^sup>*\<^sup>* (run_ledger s) (run_ledger s') \<and>
     (\<forall>c. total_money (run_ledger s') c = total_money (run_ledger s) c) \<and>
     (\<forall>i. total_quantity (run_ledger s') i = total_quantity (run_ledger s) i))"

lemma balancedI:
  assumes "accounts_ok s \<Longrightarrow> accounts_ok s'" and "accounts_ok s \<Longrightarrow> trading_step\<^sup>*\<^sup>* (run_ledger s) (run_ledger s')"
    and "\<And>c. accounts_ok s \<Longrightarrow> total_money (run_ledger s') c = total_money (run_ledger s) c"
    and "\<And>i. accounts_ok s \<Longrightarrow> total_quantity (run_ledger s') i = total_quantity (run_ledger s) i"
  shows "balanced s s'"
  using assms by (simp add: balanced_def)

lemma balanced_change_open:
  assumes "change_open (run_ledger s) p i sd q res opn = Ok l"
  shows "balanced s (s\<lparr>run_ledger := l\<rparr>)"
proof (rule balancedI, goal_cases)
  case 1
  then show ?case
    using change_open_wf [OF assms] by (simp add: accounts_ok_def)
next
  case 2
  show ?case
    using trading_step.opened [of "run_ledger s" p i sd q res l] trading_step.closed [of "run_ledger s" p i sd q res l] assms
    by (cases opn) (auto simp: open_order_def close_order_def)
next
  case (3 c)
  then show ?case
    using change_open_totals(1) [OF assms] by (simp add: accounts_ok_def)
next
  case (4 j)
  then show ?case
    using change_open_totals(2) [OF assms] by (simp add: accounts_ok_def)
qed

lemma balanced_trade:
  assumes st: "settle (run_ledger s) f = Ok l" and b: "buyer f = Some b" "seller f = Some c"
    and price: "fill_price f = price" "in_i64 price"
  shows "balanced s (post_trade k price l s)"
proof (rule balancedI, goal_cases)
  case 1
  then have "ledger_wf l" "price_ok price"
    using settle_wf [OF st] settle_price [OF st] price by (auto simp: accounts_ok_def price_ok_def)
  then show ?case
    using 1 by (auto simp: accounts_ok_def post_trade_def Let_def)
next
  case 2
  show ?case
    using trading_step.settled [OF st] price by auto
next
  case (3 d)
  then show ?case
    using settle_money [OF st b] by (simp add: accounts_ok_def ledger_wf_def)
next
  case (4 i)
  obtain t where t: "bt_get (terms_map (run_ledger s)) (fill_instrument f) = Some t"
    using st by (rule settle_Ok)
  show ?case
    using 4 settle_totals(2) [OF st b _ _ t] by (simp add: accounts_ok_def ledger_wf_def)
qed

lemma balanced_day_close: "balanced s (snd (close_listing k (cs, s)))"
proof (rule balancedI, goal_cases)
  case 1
  then show ?case
    using marks_ok [of "run_ledger s"]
    by (auto simp: close_listing_def Let_def accounts_ok_def split: option.splits)
qed (simp_all add: close_listing_def Let_def split: option.split)

lemma balanced_day_mark:
  assumes "mark_to_close i (ms, s) = Ok (ms', s')"
  shows "balanced s s'"
proof -
  have "s' = s \<or> (\<exists>k price l. bt_get (closes s) k = Some price \<and> set_mark (run_ledger s) i price = Ok l \<and> s' = s\<lparr>run_ledger := l\<rparr>)"
    using assms by (auto simp: mark_to_close_def Let_def result_simps accounting_def bind_eq_Some_conv split: option.splits)
  then show ?thesis
  proof (elim disjE exE conjE)
    fix k price l
    assume p: "bt_get (closes s) k = Some price" and m: "set_mark (run_ledger s) i price = Ok l" and s': "s' = s\<lparr>run_ledger := l\<rparr>"
    have l: "total_money l c = total_money (run_ledger s) c" "total_quantity l j = total_quantity (run_ledger s) j" for c j
      using m by (auto simp: set_mark_def result_simps total_money_def total_quantity_def split: if_splits)
    have pr: "accounts_ok s \<Longrightarrow> in_i64 price"
      using p by (auto simp: accounts_ok_def price_ok_def)
    show ?thesis
    proof (rule balancedI, goal_cases)
      case 1
      then show ?case
        using set_mark_wf [OF m] pr by (auto simp: accounts_ok_def s')
    next
      case 2
      then show ?case
        using trading_step.mark [OF m] pr by (auto simp: s')
    qed (simp_all add: s' l)
  qed (simp add: balanced_def)
qed

interpretation books: run_relation balanced
proof
  fix s t u :: run_state and p i sd q res l f b c price k cs ms ms' at event sim
  show "balanced s s"
    by (simp add: balanced_def)
  show "balanced s t \<Longrightarrow> balanced t u \<Longrightarrow> balanced s u"
    unfolding balanced_def by (metis rtranclp_trans)
  show "audited t = audited s \<Longrightarrow> orders_aged (ownership s) (ownership t) \<Longrightarrow> balanced s t"
    by (simp add: balanced_def audited_def accounts_ok_def)
  show "balanced s (s\<lparr>ownership := own\<rparr>)" "balanced s (s\<lparr>session_steps := st\<rparr>)" for own st
    by (simp_all add: balanced_def accounts_ok_def)
  show "open_order (run_ledger s) p i sd q res = Ok l \<Longrightarrow> balanced s (s\<lparr>run_ledger := l\<rparr>)"
    "close_order (run_ledger s) p i sd q res = Ok l \<Longrightarrow> balanced s (s\<lparr>run_ledger := l\<rparr>)"
    by (simp_all add: open_order_def close_order_def balanced_change_open)
  show "project_event (simulation s) at event = Ok sim \<Longrightarrow> balanced s (s\<lparr>simulation := sim\<rparr>)"
    by (simp add: balanced_def accounts_ok_def)
qed (rule balanced_trade balanced_day_close balanced_day_mark; assumption)+

subsection \<open>Simulation methods\<close>

text \<open>Scheduled actions and simulation commands use the ledger's operations too.\<close>

definition sound :: "run_state \<Rightarrow> run_state \<Rightarrow> bool" where
  "sound s s' \<longleftrightarrow> (accounts_ok s \<longrightarrow> accounts_ok s' \<and> trading_step\<^sup>*\<^sup>* (run_ledger s) (run_ledger s'))"

lemma trading_steps_wf: "trading_step\<^sup>*\<^sup>* l l' \<Longrightarrow> ledger_wf l \<Longrightarrow> ledger_wf l'"
  by (induction rule: rtranclp_induct) (auto intro: trading_step_wf)

lemma sound_ledger: "trading_step\<^sup>*\<^sup>* (run_ledger s) l \<Longrightarrow> sound s (s\<lparr>run_ledger := l, simulation := sim\<rparr>)"
  using trading_steps_wf by (auto simp: sound_def accounts_ok_def)

lemmas trail_steps =
  r_into_rtranclp [of trading_step, OF trading_step.cash] r_into_rtranclp [of trading_step, OF trading_step.converted]
  r_into_rtranclp [of trading_step, OF trading_step.settled]

lemma apply_scheduled_trail:
  "apply_scheduled a w = Ok w' \<Longrightarrow> trading_step\<^sup>*\<^sup>* (ctx_ledger (fst w)) (ctx_ledger (fst w'))"
  by (cases "action_kind a")
    (auto simp: apply_scheduled_def Let_def result_simps intro: trail_steps)

lemma apply_due_trail: "apply_due a w = Ok w' \<Longrightarrow> trading_step\<^sup>*\<^sup>* (ctx_ledger (fst (snd w))) (ctx_ledger (fst (snd w')))"
  by (auto simp: apply_due_def result_simps dest!: apply_scheduled_trail)

lemma catch_up_trail:
  assumes "simulation_catch_up s ctx now sweep = Ok (evs, ctx', s')"
  shows "trading_step\<^sup>*\<^sup>* (ctx_ledger ctx) (ctx_ledger ctx')"
  using assms
proof (cases rule: catch_up_Ok)
  case (1 de s2)
  have "trading_step\<^sup>*\<^sup>* (ctx_ledger ctx) (ctx_ledger (fst (snd (de, (ctx', s2)))))"
    using 1(2) by (rule try_fold_inv [where P = "\<lambda>w. trading_step\<^sup>*\<^sup>* (ctx_ledger ctx) (ctx_ledger (fst (snd w)))"])
      (auto dest: apply_due_trail)
  then show ?thesis
    by simp
qed

lemma simulation_apply_trail:
  assumes "simulation_apply s ctx actor at cmd = Ok (evs, ctx', s')"
  shows "trading_step\<^sup>*\<^sup>* (ctx_ledger ctx) (ctx_ledger ctx')"
proof -
  have same: "ctx' = ctx \<Longrightarrow> ?thesis"
    by simp
  show ?thesis
  proof (cases cmd)
    case (Advance n)
    then show ?thesis
      using assms by (auto simp: simulation_apply_def advance_def Let_def result_simps dest: catch_up_trail split: if_splits)
  next
    case (DecideTender i d)
    then show ?thesis
      using assms by (auto simp: simulation_apply_def decide_tender_def Let_def result_simps tender_fill_def
          intro: trail_steps split: if_splits)
  next
    case (DecideOtc i d)
    then show ?thesis
      using assms by (cases d) (auto simp: simulation_apply_def decide_otc_def Let_def result_simps otc_fill_def
          intro: trail_steps split: if_splits)
  next
    case (ApplyFine p c amount reason)
    then show ?thesis
      using assms by (auto simp: simulation_apply_def apply_fine_def result_simps intro: trail_steps split: if_splits)
  next
    case (CounterOtc i q price)
    then show ?thesis
      using assms by (intro same) (auto simp: simulation_apply_def counter_otc_def Let_def attempt_Ok_iff if_Err_Ok_iff split: if_splits)
  qed (use assms in \<open>auto simp: simulation_apply_def change_lifecycle_def set_pacing_def terminate_def set_listing_halt_def
      publish_news_def open_tender_def open_otc_def schedule_cashflow_def schedule_facility_job_def score_iteration_def
      Let_def result_simps case_prod_unfold split: if_splits\<close>)
qed

lemma caught_up_sound: "caught_up now sweep s s1 \<Longrightarrow> sound s s1"
  by (auto simp: caught_up_def context_of_def intro!: sound_ledger dest!: catch_up_trail)

lemma administered_sound: "administered req s s1 \<Longrightarrow> sound s s1"
proof (cases "is_mass_cancel (c_payload req)")
  case False
  assume "administered req s s1"
  with False obtain evs ctx sim where ap: "simulation_apply (simulation s) (context_of s) (c_actor req) (c_logical_time req) (c_payload req)
      = Ok (evs, ctx, sim)" and s1: "s1 = s\<lparr>run_ledger := ctx_ledger ctx, simulation := sim\<rparr>"
    by (auto simp: administered_def)
  show ?thesis
    unfolding s1 by (rule sound_ledger) (use simulation_apply_trail [OF ap] in \<open>simp add: context_of_def\<close>)
qed (simp add: administered_def sound_def)

lemma balanced_sound: "balanced s s' \<Longrightarrow> sound s s'"
  by (simp add: balanced_def sound_def)

lemma sound_trans: "sound s t \<Longrightarrow> sound t u \<Longrightarrow> sound s u"
  by (auto simp: sound_def intro: rtranclp_trans)

lemma accounts_ok_frame [simp]:
  "accounts_ok (s\<lparr>kill_switched := ks\<rparr>) \<longleftrightarrow> accounts_ok s"
  "accounts_ok (s\<lparr>run_sequence := n, run_event_sequence := m\<rparr>) \<longleftrightarrow> accounts_ok s"
  by (simp_all add: accounts_ok_def)

lemma sound_same: "run_ledger s' = run_ledger s \<Longrightarrow> accounts_ok s' = accounts_ok s \<Longrightarrow> sound s s'"
  by (simp add: sound_def)

lemma run_apply_sound:
  assumes "run_apply s cmd = Ok (ap, s')" and "run_inv s" and "payload_fits (c_payload cmd)"
  shows "sound s s'"
proof -
  obtain s1 s2 s3 ps where a: "caught_up (c_logical_time cmd) False s s1" and b: "balanced s1 s2"
    and c: "balanced (s2\<lparr>kill_switched := kill_after cmd (kill_switched s2)\<rparr>) s3"
    and s': "s' = s3\<lparr>run_sequence := run_sequence s + 1, run_event_sequence :=
      (if events ap = [] then run_event_sequence s3 else ev_sequence (last (events ap)))\<rparr>"
    by (rule books.run_apply_rel [OF assms])
  have kill: "sound s2 (s2\<lparr>kill_switched := kill_after cmd (kill_switched s2)\<rparr>)" and last: "sound s3 s'"
    by (simp_all add: sound_same s')
  show ?thesis
    by (rule sound_trans [OF sound_trans [OF caught_up_sound [OF a] balanced_sound [OF b]]
        sound_trans [OF kill sound_trans [OF balanced_sound [OF c] last]]])
qed

lemma run_apply_simulation_sound:
  assumes "run_apply_simulation s req = Ok (ap, s')" and "run_inv s"
  shows "sound s s'"
proof -
  obtain s1 s2 s3 s4 ps where a: "caught_up (c_logical_time req) (c_payload req = ClockTick) s s1" and b: "balanced s1 s2"
    and c: "administered req s2 s3" and d: "balanced s3 s4"
    and s': "s' = s4\<lparr>run_sequence := run_sequence s + 1, run_event_sequence :=
      (if events ap = [] then run_event_sequence s4 else ev_sequence (last (events ap)))\<rparr>"
    by (rule books.run_apply_simulation_rel [OF assms])
  have last: "sound s4 s'"
    by (simp add: sound_same s')
  show ?thesis
    by (rule sound_trans [OF sound_trans [OF caught_up_sound [OF a] balanced_sound [OF b]]
        sound_trans [OF administered_sound [OF c] sound_trans [OF balanced_sound [OF d] last]]])
qed

subsection \<open>Starting a run\<close>

lemma configure_one_reachable:
  assumes "configure_one e l = Ok l'" and "ledger_reachable l"
    and "in_i64 (id_multiplier (snd e))" and "pred_option in_i64 (opening_mark (snd e))"
  shows "ledger_reachable l'"
proof -
  obtain l1 where l1: "configure_instrument l (fst e) (definition_terms (snd e)) = Ok l1"
    and "l' = l1 \<or> (\<exists>m. opening_mark (snd e) = Some m \<and> set_mark l1 (fst e) m = Ok l')"
    using assms(1) by (auto simp: configure_one_def result_simps accounting_def split: option.splits)
  moreover have "ledger_reachable l1"
    using assms(2,3) by (intro ledger_reachable.prepare [OF _ setup_step.configure [OF l1]]) (simp_all add: definition_terms_def)
  ultimately show ?thesis
    using assms(4) ledger_reachable.trade [OF _ trading_step.mark] by auto
qed

lemma seed_one_reachable:
  assumes "seed_one sc p e l = Ok l'" and "ledger_reachable l" and "in_i64 (snd e)"
  shows "ledger_reachable l'"
proof -
  obtain d :: instrument_definition and basis where b: "(case opening_mark d of None \<Rightarrow> Ok 0 | Some mark \<Rightarrow> notional mark (snd e) (id_multiplier d)) = Ok basis"
    and s: "seed_position l p (fst e) (snd e) basis = Ok l'"
    using assms(1) unfolding seed_one_def attempt_Ok_iff accounting_def map_err_Ok_iff by blast
  have "in_i128 basis"
    using b by (auto simp: notional_def result_simps overflow_def i128_checked_mul_def split: option.splits)
  then show ?thesis
    using assms(2,3) by (intro ledger_reachable.prepare [OF _ setup_step.seed [OF s]])
qed

lemma fund_participant_reachable:
  assumes "fund_participant sc d l = Ok l'" and "ledger_reachable l" and "list_all (\<lambda>(_, q). in_i64 q) (initial_positions d)"
  shows "ledger_reachable l'"
proof -
  obtain l1 where cash: "try_fold (\<lambda>(c, amount) l. accounting (post_cash l (pd_participant_id d) c amount)) (initial_cash d) l = Ok l1"
    and seed: "try_fold (seed_one sc (pd_participant_id d)) (initial_positions d) l1 = Ok l'"
    using assms(1) by (auto simp: fund_participant_def result_simps)
  have "ledger_reachable l1"
    using cash assms(2)
    by (rule try_fold_inv) (auto simp: accounting_def result_simps intro: ledger_reachable.trade [OF _ trading_step.cash])
  with seed show ?thesis
  proof (rule try_fold_inv)
    fix e u v
    assume "e \<in> set (initial_positions d)" "ledger_reachable u" "seed_one sc (pd_participant_id d) e u = Ok v"
    then show "ledger_reachable v"
      using seed_one_reachable assms(3) by (auto simp: list_all_iff)
  qed
qed

lemma run_from_scenario_accounts:
  assumes run: "run_from_scenario to_vec sha256 rid iteration sc = Ok s" and typed: "scenario_typed sc"
  shows "ledger_reachable (run_ledger s)" and "day_trades s = []" and "closes s = []"
proof -
  obtain l1 where l1: "try_fold configure_one (sd_instruments sc) ledger_new = Ok l1"
    and l2: "try_fold (\<lambda>(_, d). fund_participant sc d) (sd_participants sc) l1 = Ok (run_ledger s)"
    and rest: "day_trades s = []" "closes s = []"
    using run by (auto simp: run_from_scenario_def result_simps split: if_splits)
  show "day_trades s = []" "closes s = []"
    by (fact rest)+
  have "ledger_reachable l1"
    using l1 ledger_reachable.start
  proof (rule try_fold_inv)
    fix e u v
    assume "e \<in> set (sd_instruments sc)" "ledger_reachable u" "configure_one e u = Ok v"
    then show "ledger_reachable v"
      using configure_one_reachable typed by (force simp: scenario_typed_def list_all_iff)
  qed
  with l2 show "ledger_reachable (run_ledger s)"
  proof (rule try_fold_inv)
    fix e u v
    assume "e \<in> set (sd_participants sc)" "ledger_reachable u" "(case e of (_, d) \<Rightarrow> fund_participant sc d) u = Ok v"
    then show "ledger_reachable v"
      using fund_participant_reachable typed by (force simp: scenario_typed_def list_all_iff)
  qed
qed

subsection \<open>Properties\<close>

definition accounts_sound :: "run_state \<Rightarrow> bool" where
  "accounts_sound s \<longleftrightarrow> run_inv s \<and> accounts_ok s \<and> ledger_reachable (run_ledger s)"

lemma ledger_reachable_steps: "trading_step\<^sup>*\<^sup>* l l' \<Longrightarrow> ledger_reachable l \<Longrightarrow> ledger_reachable l'"
  by (induction rule: rtranclp_induct) (auto intro: ledger_reachable.trade)

interpretation ledgers: step_system accounts_sound run_step accounts_sound
proof
  fix s t
  assume s: "accounts_sound s" and "run_step s t"
  from this(2) have "sound s t \<and> run_inv t"
    by (cases rule: run_stepE)
      (use s run_apply_sound run_apply_inv run_apply_simulation_sound run_apply_simulation_inv in \<open>auto simp: accounts_sound_def\<close>)
  then show "accounts_sound t"
    using s ledger_reachable_steps by (auto simp: accounts_sound_def sound_def)
qed

lemma run_reachable_sound:
  assumes "run_reachable s"
  shows "accounts_sound s"
proof -
  obtain to_vec sha256 rid iteration sc s0 where sc: "scenario_typed sc"
    and s0: "run_from_scenario to_vec sha256 rid iteration sc = Ok s0" and steps: "run_step\<^sup>*\<^sup>* s0 s"
    using assms by (auto simp: run_reachable_def)
  note start = run_from_scenario_accounts [OF s0 sc]
  have "accounts_sound s0"
    using start run_from_scenario_inv(1) [OF s0 sc] ledger_reachable_wf
    by (simp add: accounts_sound_def accounts_ok_def)
  then show ?thesis
    using ledgers.steps_inv [OF steps] by blast
qed

text \<open>The ledger of every reachable run has been built by the ledger's own operations
  alone and is well-formed: every amount fits its machine width, reservations and open
  quantities are non-negative, and marks and official closes are positive prices.\<close>

theorem run_reachable_accounts:
  assumes "run_reachable s"
  shows "ledger_reachable (run_ledger s) \<and> ledger_wf (run_ledger s) \<and>
    (\<forall>k p. official_close s k = Some p \<longrightarrow> 0 < p \<and> in_i64 p)"
  using run_reachable_sound [OF assms]
  by (auto simp: accounts_sound_def accounts_ok_def official_close_def price_ok_def)

theorem run_reachable_accounts_witness: "run_reachable demo_rested \<and> ledger_wf (run_ledger demo_rested)"
  using run_reachable_accounts [OF demo_rested_reachable] demo_rested_reachable by blast

lemma caught_up_idle:
  assumes "caught_up now False s s1" and "\<not> has_due_actions (simulation s) now"
  shows "run_ledger s1 = run_ledger s" and "accounts_ok s1 \<longleftrightarrow> accounts_ok s"
proof (atomize (full), goal_cases)
  case 1
  obtain evs ctx sim where c: "simulation_catch_up (simulation s) (context_of s) now False = Ok (evs, ctx, sim)"
    and s1: "s1 = s\<lparr>run_ledger := ctx_ledger ctx, simulation := sim\<rparr>"
    using assms(1) by (auto simp: caught_up_def)
  have "ctx = context_of s"
    using c assms(2) by (auto simp: simulation_catch_up_def Let_def has_due_actions_def split: if_splits list.splits)
  then show ?case
    by (simp add: s1 context_of_def accounts_ok_def)
qed

text \<open>C3. Order commands neither create nor destroy wealth: when no scheduled action is
  due, any accepted or rejected submission, cancellation or kill switch, with every fill,
  auction, expiry and day end it brings, leaves the money of every currency (balances and
  fees paid) and the lots of every instrument as they were.\<close>

theorem orders_conserve_money:
  assumes "run_apply s cmd = Ok (ap, s')" and "run_reachable s" and "payload_fits (c_payload cmd)"
    and "\<not> has_due_actions (simulation s) (c_logical_time cmd)"
  shows "(\<forall>c. total_money (run_ledger s') c = total_money (run_ledger s) c) \<and>
    (\<forall>i. total_quantity (run_ledger s') i = total_quantity (run_ledger s) i)"
proof -
  have ok: "run_inv s" "accounts_ok s"
    using run_reachable_sound [OF assms(2)] by (simp_all add: accounts_sound_def)
  obtain s1 s2 s3 ps where a: "caught_up (c_logical_time cmd) False s s1" and b: "balanced s1 s2"
    and c: "balanced (s2\<lparr>kill_switched := kill_after cmd (kill_switched s2)\<rparr>) s3"
    and s': "s' = s3\<lparr>run_sequence := run_sequence s + 1, run_event_sequence :=
      (if events ap = [] then run_event_sequence s3 else ev_sequence (last (events ap)))\<rparr>"
    by (rule books.run_apply_rel [OF assms(1) _ assms(3)]) (use ok in simp)
  note idle = caught_up_idle [OF a assms(4)]
  show ?thesis
    using b c ok by (simp add: balanced_def idle s')
qed

theorem orders_conserve_money_witness:
  "\<exists>ap s'. run_apply demo_rested demo_ask = Ok (ap, s') \<and> balance (ledger_cash (run_ledger s') 8 1) = 5080 \<and>
     total_money (run_ledger s') 1 = 10000 \<and> total_quantity (run_ledger s') 10 = 0"
proof -
  obtain ap s' where ap: "run_apply demo_rested demo_ask = Ok (ap, s')" and b: "balance (ledger_cash (run_ledger s') 8 1) = 5080"
    using demo_ask_trades by blast
  have "payload_fits (c_payload demo_ask)"
    by (simp add: demo_ask_def demo_command_def demo_order_def payload_fits_def order_fits_def in_i64_def)
  moreover have "\<not> has_due_actions (simulation demo_rested) (c_logical_time demo_ask)"
    by (simp add: demo_rested_def demo_defs has_due_actions_def)
  moreover have "total_money (run_ledger demo_rested) 1 = 10000" "total_quantity (run_ledger demo_rested) 10 = 0"
    by (simp_all add: demo_rested_def demo_defs total_money_def total_quantity_def default_position_def)
  ultimately show ?thesis
    using orders_conserve_money [OF ap demo_rested_reachable] ap b by auto
qed

end
