(* ===== verification/Engine_Orders.thy ===== *)
theory Engine_Orders
  imports Engine_Events
begin

text \<open>
  The orders of a run over its whole life. New orders come only from participants who are
  not kill-switched and only with an expiry ahead of the clock, and no other write makes
  an order live; so a kill-switched participant never has a live order, and no live order
  is past its expiry.
\<close>

declare split_paired_All [simp del] split_paired_Ex [simp del]

subsection \<open>How the orders of a run change\<close>

text \<open>Every record is an older one or that of an order accepted since.\<close>

definition evolves :: "run_state \<Rightarrow> run_state \<Rightarrow> bool" where
  "evolves s s' \<longleftrightarrow>
     kill_switched s' = kill_switched s \<and> clock_now (clock (simulation s')) = clock_now (clock (simulation s)) \<and>
     (\<forall>i x'. bt_get (ownership s') i = Some x' \<longrightarrow>
        (\<exists>x. bt_get (ownership s) i = Some x \<and> order_aged x x') \<or>
        oo_participant_id x' \<notin> set (kill_switched s) \<and>
        pred_option (\<lambda>at. clock_now (clock (simulation s)) < at) (oo_expires_at x'))"

lemma order_aged_same:
  assumes "order_aged x x'"
  shows "oo_participant_id x' = oo_participant_id x" and "oo_expires_at x' = oo_expires_at x"
    and "oo_state x' = OrderActive \<Longrightarrow> oo_state x = OrderActive"
proof -
  have e: "x' = x\<lparr>oo_state := oo_state x', remaining_quantity := remaining_quantity x'\<rparr>"
    using assms by (simp add: order_aged_def)
  show "oo_participant_id x' = oo_participant_id x" "oo_expires_at x' = oo_expires_at x"
    by (subst e, simp)+
  show "oo_state x' = OrderActive \<Longrightarrow> oo_state x = OrderActive"
    using assms by (simp add: order_aged_def)
qed

lemma evolves_trans:
  assumes "evolves s t" and "evolves t u"
  shows "evolves s u"
  unfolding evolves_def
proof (intro conjI allI impI)
  fix i x'
  assume "bt_get (ownership u) i = Some x'"
  then consider y where "bt_get (ownership t) i = Some y" "order_aged y x'"
    | "oo_participant_id x' \<notin> set (kill_switched s)" "pred_option (\<lambda>at. clock_now (clock (simulation s)) < at) (oo_expires_at x')"
    using assms unfolding evolves_def by fastforce
  then show "(\<exists>x. bt_get (ownership s) i = Some x \<and> order_aged x x') \<or>
    oo_participant_id x' \<notin> set (kill_switched s) \<and> pred_option (\<lambda>at. clock_now (clock (simulation s)) < at) (oo_expires_at x')"
  proof cases
    case 1
    from assms(1) 1(1) have "(\<exists>x. bt_get (ownership s) i = Some x \<and> order_aged x y) \<or>
      oo_participant_id y \<notin> set (kill_switched s) \<and> pred_option (\<lambda>at. clock_now (clock (simulation s)) < at) (oo_expires_at y)"
      unfolding evolves_def by blast
    then show ?thesis
      using order_aged_trans [OF _ 1(2)] order_aged_same [OF 1(2)] by auto
  qed simp
qed (use assms in \<open>simp_all add: evolves_def\<close>)

lemma evolves_same:
  "ownership s' = ownership s \<Longrightarrow> kill_switched s' = kill_switched s \<Longrightarrow>
     clock_now (clock (simulation s')) = clock_now (clock (simulation s)) \<Longrightarrow> evolves s s'"
  by (auto simp: evolves_def)

interpretation orders: run_relation evolves
proof
  fix s s' t u :: run_state and x f b c k l price cs i ms ms' at event sim
  show "evolves s s"
    by (simp add: evolves_same)
  show "evolves s t \<Longrightarrow> evolves t u \<Longrightarrow> evolves s u"
    by (rule evolves_trans)
  show "audited s' = audited s \<Longrightarrow> orders_aged (ownership s) (ownership s') \<Longrightarrow> evolves s s'"
    by (auto simp: evolves_def audited_def orders_aged_def)
  show "oo_participant_id x \<notin> set (kill_switched s) \<Longrightarrow> pred_option (\<lambda>at. clock_now (clock (simulation s)) < at) (oo_expires_at x) \<Longrightarrow>
      evolves s (s\<lparr>ownership := bt_insert (oo_order_id x) x (ownership s)\<rparr>)"
    by (auto simp: evolves_def)
  show "evolves s (post_trade k price l s)"
    by (rule evolves_same) (simp_all add: post_trade_def Let_def)
  show "evolves s (snd (close_listing k (cs, s)))"
    by (rule evolves_same) (simp_all add: close_listing_def Let_def split: option.split)
  show "mark_to_close i (ms, s) = Ok (ms', s') \<Longrightarrow> evolves s s'"
    by (rule evolves_same) (auto simp: mark_to_close_def Let_def result_simps split: option.splits)
  show "project_event (simulation s) at event = Ok sim \<Longrightarrow> evolves s (s\<lparr>simulation := sim\<rparr>)"
    by (rule evolves_same) (simp_all add: project_event_clock)
qed (simp_all add: evolves_same)

subsection \<open>Kill switch and expiry\<close>

text \<open>No live order belongs to a kill-switched participant.\<close>

definition killed_idle :: "run_state \<Rightarrow> bool" where
  "killed_idle s \<longleftrightarrow>
     (\<forall>i x. bt_get (ownership s) i = Some x \<longrightarrow> oo_state x = OrderActive \<longrightarrow> oo_participant_id x \<notin> set (kill_switched s))"

lemma killed_idle_evolves:
  assumes "evolves s s'" and "killed_idle s"
  shows "killed_idle s'"
  unfolding killed_idle_def
proof (intro allI impI)
  fix i x'
  assume x': "bt_get (ownership s') i = Some x'" "oo_state x' = OrderActive"
  from assms(1) x'(1) consider x where "bt_get (ownership s) i = Some x" "order_aged x x'"
    | "oo_participant_id x' \<notin> set (kill_switched s)"
    unfolding evolves_def by blast
  then have "oo_participant_id x' \<notin> set (kill_switched s)"
    using assms(2) x'(2) order_aged_same by (cases) (auto simp: killed_idle_def)
  then show "oo_participant_id x' \<notin> set (kill_switched s')"
    using assms(1) by (simp add: evolves_def)
qed

lemma unexpired_evolves:
  assumes "evolves s s'" and "unexpired s"
  shows "unexpired s'"
  unfolding unexpired_def
proof (intro allI impI)
  fix i x' at
  assume x': "bt_get (ownership s') i = Some x'" "oo_state x' = OrderActive" "oo_expires_at x' = Some at"
  from assms(1) x'(1) consider x where "bt_get (ownership s) i = Some x" "order_aged x x'"
    | "pred_option (\<lambda>at. clock_now (clock (simulation s)) < at) (oo_expires_at x')"
    unfolding evolves_def by blast
  moreover have "clock_now (clock (simulation s')) = clock_now (clock (simulation s))"
    using assms(1) by (simp add: evolves_def)
  ultimately show "clock_now (clock (simulation s')) < at"
    using assms(2) x'(2,3) order_aged_same by (cases) (auto simp: unexpired_def)
qed

lemma killed_idle_shrink:
  "killed_idle s \<Longrightarrow> ownership s' = ownership s \<Longrightarrow> set (kill_switched s') \<subseteq> set (kill_switched s) \<Longrightarrow> killed_idle s'"
  by (auto simp: killed_idle_def)

lemma cancel_listed_active_ids:
  "cancel_listed reason live t = Ok t' \<Longrightarrow> active_ids (run t') = active_ids (run t) - fst ` set live"
proof (induction live arbitrary: t)
  case Nil
  then show ?case
    by (simp add: cancel_listed_def)
next
  case (Cons e live)
  obtain i k where e: "e = (i, k)"
    by (cases e)
  from Cons.prems obtain t1 where t1: "cancel_order i reason (touch k t) = Ok t1" and rest: "cancel_listed reason live t1 = Ok t'"
    by (auto simp: e cancel_listed_def result_simps)
  show ?case
    using Cons.IH [OF rest] cancel_order_active_ids(1) [OF t1] by (auto simp: e)
qed

text \<open>The kill switch cancels every live order of its participant.\<close>

lemma activate_kill_switch_idle:
  assumes run: "activate_kill_switch p t = Ok t'" and inv: "transit_inv t" and idle: "killed_idle (run t)"
  shows "killed_idle (run t')"
  unfolding killed_idle_def
proof (intro allI impI)
  fix i x'
  assume x': "bt_get (ownership (run t')) i = Some x'" "oo_state x' = OrderActive"
  let ?s = "(run t)\<lparr>kill_switched := bs_insert p (kill_switched (run t))\<rparr>"
  define live where "live = map (\<lambda>(i, x). (i, oo_listing_key x))
    (filter (\<lambda>(_, x). oo_participant_id x = p \<and> oo_state x = OrderActive) (ownership (run t)))"
  have c: "cancel_listed KillSwitch live (push KillSwitchActivated (t\<lparr>run := ?s\<rparr>)) = Ok t'"
    using run by (simp add: activate_kill_switch_def Let_def live_def)
  have "transit_inv (push KillSwitchActivated (t\<lparr>run := ?s\<rparr>))"
    using inv consistent_cong [of ?s "run t"] by (simp add: ended_orders_def map_filter_def)
  then have ev: "evolves ?s (run t')"
    using tracksD [OF orders.tracks_cancel_listed c] by simp
  have gone: "i \<notin> fst ` set live"
    using cancel_listed_active_ids [OF c] x' by (auto simp: active_ids_def)
  from ev x'(1) consider x where "bt_get (ownership (run t)) i = Some x" "order_aged x x'"
    | "oo_participant_id x' \<notin> set (kill_switched ?s)"
    unfolding evolves_def by auto
  then show "oo_participant_id x' \<notin> set (kill_switched (run t'))"
  proof cases
    case 1
    note same = order_aged_same [OF 1(2)]
    have "(i, x) \<in> set (ownership (run t))"
      using 1(1) by (simp add: map_of_SomeD)
    then have "oo_participant_id x \<noteq> p"
      using gone same(3) x'(2) by (force simp: live_def)
    then show ?thesis
      using ev idle 1(1) same x'(2) by (simp add: evolves_def killed_idle_def)
  qed (use ev in \<open>simp add: evolves_def\<close>)
qed

lemma run_apply_idle_other:
  assumes "run_apply s cmd = Ok (ap, s')" and "run_inv s" and "payload_fits (c_payload cmd)" and "killed_idle s"
    and "c_payload cmd \<noteq> ActivateKillSwitch"
  shows "killed_idle s'"
proof -
  obtain s1 s2 s3 ps where a: "caught_up (c_logical_time cmd) False s s1" and b: "evolves s1 s2"
    and c: "evolves (s2\<lparr>kill_switched := kill_after cmd (kill_switched s2)\<rparr>) s3"
    and s': "s' = s3\<lparr>run_sequence := run_sequence s + 1, run_event_sequence :=
      (if events ap = [] then run_event_sequence s3 else ev_sequence (last (events ap)))\<rparr>"
    by (rule orders.run_apply_rel [OF assms(1-3)])
  have "killed_idle s2"
    using killed_idle_evolves [OF b] a assms(4) by (auto simp: caught_up_def killed_idle_def)
  then have "killed_idle (s2\<lparr>kill_switched := kill_after cmd (kill_switched s2)\<rparr>)"
    by (rule killed_idle_shrink) (use assms(5) in \<open>auto simp: kill_after_def split: command_payload.splits\<close>)
  then show ?thesis
    using killed_idle_evolves [OF c] by (simp add: s' killed_idle_def)
qed

lemma run_apply_idle:
  assumes run: "run_apply s cmd = Ok (ap, s')" and inv: "run_inv s" and fits: "payload_fits (c_payload cmd)" and idle: "killed_idle s"
  shows "killed_idle s'"
proof (cases "c_payload cmd")
  case ActivateKillSwitch
  obtain n key where v: "apply_validated s cmd n key = Ok (ap, s')"
    using run by (auto simp: run_apply_def result_simps split: if_splits)
  obtain t t1 acc code order where t: "catch_up (c_logical_time cmd) False (transit_of s) = Ok t"
    and t1: "activate_kill_switch (c_actor cmd) t = Ok t1" and fin: "finish cmd n acc code order t1 = Ok (ap, s')"
    using v ActivateKillSwitch by (auto simp: apply_validated_def apply_payload_def result_simps)
  have inv0: "transit_inv (transit_of s)" "run (transit_of s) = s"
    using inv by (simp_all add: transit_of_def) (simp add: ended_orders_def map_filter_def)
  obtain s1 where "caught_up (c_logical_time cmd) False s s1" "evolves s1 (run t)"
    using orders.catch_up_rel [OF t inv0(1)] inv0(2) by auto
  then have "killed_idle (run t)"
    using killed_idle_evolves idle by (auto simp: caught_up_def killed_idle_def)
  then have "killed_idle (run t1)"
    using activate_kill_switch_idle [OF t1] keepsD [OF keeps_catch_up t inv0(1)] by blast
  moreover obtain s3 where "evolves (run t1) s3" and "s' = s3\<lparr>run_sequence := n, run_event_sequence :=
      (if events ap = [] then run_event_sequence s3 else ev_sequence (last (events ap)))\<rparr>"
    by (rule orders.finish_rel [OF fin])
  ultimately show ?thesis
    using killed_idle_evolves [of "run t1" s3] by (simp add: killed_idle_def)
qed (use run inv fits idle in \<open>rule run_apply_idle_other; simp\<close>)+

lemma run_apply_simulation_idle:
  assumes "run_apply_simulation s req = Ok (ap, s')" and "run_inv s" and "killed_idle s"
  shows "killed_idle s'" and "unexpired s'"
proof (atomize (full), goal_cases)
  case 1
  obtain s1 s2 s3 s4 ps where a: "caught_up (c_logical_time req) (c_payload req = ClockTick) s s1" and b: "evolves s1 s2"
    and c: "administered req s2 s3" and d: "evolves s3 s4" and fresh: "\<exists>u. unexpired u \<and> evolves u s4"
    and s': "s' = s4\<lparr>run_sequence := run_sequence s + 1, run_event_sequence :=
      (if events ap = [] then run_event_sequence s4 else ev_sequence (last (events ap)))\<rparr>"
    by (rule orders.run_apply_simulation_rel [OF assms(1,2)])
  have "killed_idle s2"
    using killed_idle_evolves [OF b] a assms(3) by (auto simp: caught_up_def killed_idle_def)
  then have "killed_idle s3"
    using c by (auto simp: administered_def killed_idle_def split: if_splits)
  moreover have "unexpired s4"
    using fresh unexpired_evolves by blast
  ultimately show ?case
    using killed_idle_evolves [OF d] by (simp add: s' killed_idle_def unexpired_def)
qed

lemma run_apply_unexpired:
  assumes "run_apply s cmd = Ok (ap, s')" and "run_inv s" and "payload_fits (c_payload cmd)"
  shows "unexpired s'"
proof -
  obtain s1 s2 s3 ps where u: "unexpired s2"
    and c: "evolves (s2\<lparr>kill_switched := kill_after cmd (kill_switched s2)\<rparr>) s3"
    and s': "s' = s3\<lparr>run_sequence := run_sequence s + 1, run_event_sequence :=
      (if events ap = [] then run_event_sequence s3 else ev_sequence (last (events ap)))\<rparr>"
    by (rule orders.run_apply_rel [OF assms])
  have "unexpired (s2\<lparr>kill_switched := kill_after cmd (kill_switched s2)\<rparr>)"
    using u by (simp add: unexpired_def)
  then show ?thesis
    using unexpired_evolves [OF c] by (simp add: s' unexpired_def)
qed

definition orders_sound :: "run_state \<Rightarrow> bool" where
  "orders_sound s \<longleftrightarrow> run_inv s \<and> killed_idle s \<and> unexpired s"

interpretation live: step_system orders_sound run_step orders_sound
proof
  fix s t
  assume s: "orders_sound s" and "run_step s t"
  from this(2) show "orders_sound t"
    by (cases rule: run_stepE)
      (use s run_apply_inv run_apply_idle run_apply_unexpired run_apply_simulation_inv run_apply_simulation_idle
        in \<open>auto simp: orders_sound_def\<close>)
qed

lemma run_reachable_orders:
  assumes "run_reachable s"
  shows "orders_sound s"
proof -
  obtain to_vec sha256 rid iteration sc s0 where sc: "scenario_typed sc"
    and s0: "run_from_scenario to_vec sha256 rid iteration sc = Ok s0" and steps: "run_step\<^sup>*\<^sup>* s0 s"
    using assms by (auto simp: run_reachable_def)
  have "ownership s0 = []"
    using s0 by (auto simp: run_from_scenario_def result_simps split: if_splits)
  then have "orders_sound s0"
    using run_from_scenario_inv(1) [OF s0 sc] by (simp add: orders_sound_def killed_idle_def unexpired_def)
  then show ?thesis
    using live.steps_inv [OF steps] by blast
qed

lemma killed_submission_rejected:
  assumes run: "run_apply s cmd = Ok (ap, s')" and pl: "c_payload cmd \<in> {SubmitOrder order, SubmitOrderAtListing k order}"
    and inv: "run_inv s" and p: "so_participant_id order \<in> set (kill_switched s)"
  shows "\<not> accepted ap \<and> ap_reject_code ap \<in> {Some RunNotActive, Some KillSwitchActive}"
proof -
  obtain n key where v: "apply_validated s cmd n key = Ok (ap, s')"
    using run by (auto simp: run_apply_def result_simps split: if_splits)
  obtain t t1 acc code i where t: "catch_up (c_logical_time cmd) False (transit_of s) = Ok t"
    and t1: "apply_submit order key (c_logical_time cmd) t = Ok ((acc, code, i), t1)"
    and fin: "finish cmd n acc code i t1 = Ok (ap, s')"
    using v pl by (auto simp: apply_validated_def apply_payload_def result_simps)
  have inv0: "transit_inv (transit_of s)" "run (transit_of s) = s"
    using inv by (simp_all add: transit_of_def) (simp add: ended_orders_def map_filter_def)
  have "so_participant_id order \<in> set (kill_switched (run t))"
    using orders.catch_up_rel [OF t inv0(1)] p inv0(2) by (auto simp: caught_up_def evolves_def)
  then have "\<not> acc \<and> code \<in> {Some RunNotActive, Some KillSwitchActive}"
    using t1 by (auto simp: apply_submit_def Let_def result_simps report_def split: if_splits)
  then show ?thesis
    using fin by (auto simp: finish_def Let_def result_simps)
qed

subsection \<open>Properties\<close>

lemma live_order_count_zero:
  assumes "run_inv s" and "participant_live_orders s p = []"
  shows "live_order_count s p = 0"
proof -
  have "unretired s p = {}"
  proof (rule ccontr)
    assume "unretired s p \<noteq> {}"
    then obtain i x where x: "bt_get (ownership s) i = Some x" "oo_participant_id x = p" "i \<notin> set (retired s)"
      by (auto simp: unretired_def)
    then have "oo_state x = OrderActive"
      using consistentD(8) [OF assms(1)] by (auto simp: retirement_def terminal_ids_def)
    then show False
      using assms(2) x(2) map_of_SomeD [OF x(1)] by (force simp: participant_live_orders_def filter_empty_conv)
  qed
  then show ?thesis
    using consistentD(9) [OF assms(1)] by (simp add: live_counts_def)
qed

text \<open>C5. The kill switch holds: in every reachable run a kill-switched participant has no
  live order at all, and every further submission in that participant's name is rejected.\<close>

theorem kill_switch_holds:
  assumes "run_reachable s" and "kill_switch_active s p"
  shows "participant_live_orders s p = [] \<and> live_order_count s p = 0 \<and>
    (\<forall>cmd ap s' order k. run_apply s cmd = Ok (ap, s') \<longrightarrow> c_payload cmd \<in> {SubmitOrder order, SubmitOrderAtListing k order} \<longrightarrow>
      so_participant_id order = p \<longrightarrow> \<not> accepted ap \<and> ap_reject_code ap \<in> {Some RunNotActive, Some KillSwitchActive})"
proof -
  have s: "run_inv s" "killed_idle s"
    using run_reachable_orders [OF assms(1)] by (simp_all add: orders_sound_def)
  have "participant_live_orders s p = []"
  proof -
    have "\<not> (oo_participant_id x = p \<and> oo_state x = OrderActive)" if x: "(i, x) \<in> set (ownership s)" for i x
    proof -
      have "bt_get (ownership s) i = Some x"
        using x bt_get_mem [OF consistentD(1) [OF s(1)]] by simp
      then show ?thesis
        using s(2) assms(2) by (auto simp: killed_idle_def kill_switch_active_def)
    qed
    then show ?thesis
      by (auto simp: participant_live_orders_def filter_empty_conv)
  qed
  moreover have "\<not> accepted ap \<and> ap_reject_code ap \<in> {Some RunNotActive, Some KillSwitchActive}"
    if run: "run_apply s cmd = Ok (ap, s')" and pl: "c_payload cmd \<in> {SubmitOrder order, SubmitOrderAtListing k order}"
      and p: "so_participant_id order = p" for cmd ap s' order k
    by (rule killed_submission_rejected [OF run pl s(1)]) (use assms(2) p in \<open>simp add: kill_switch_active_def\<close>)
  ultimately show ?thesis
    using live_order_count_zero [OF s(1)] by blast
qed

lemma demo_killed:
  "\<exists>ap s'. run_apply demo_rested (demo_command 1 30 7 ActivateKillSwitch) = Ok (ap, s') \<and> kill_switch_active s' 7"
  by (simp add: command_eval catch_up_eval ledger_eval checked_eval book_eval fill_eval demo_command_def demo_rested_def
      demo_defs activate_kill_switch_def cancel_listed_def kill_switch_active_def set_book_def)

theorem kill_switch_holds_witness:
  "\<exists>s. run_reachable s \<and> kill_switch_active s 7 \<and> participant_live_orders s 7 = [] \<and> participant_live_orders demo_rested 7 \<noteq> []"
proof -
  obtain ap s' where ap: "run_apply demo_rested (demo_command 1 30 7 ActivateKillSwitch) = Ok (ap, s')" and k: "kill_switch_active s' 7"
    using demo_killed by blast
  have "run_reachable s'"
    by (rule run_reachable_step [OF demo_rested_reachable run_step.order_command [OF ap]])
      (simp add: demo_command_def payload_fits_def)
  then show ?thesis
    using kill_switch_holds [OF _ k] k
    by (intro exI [of _ s']) (simp add: demo_rested_def demo_run_def participant_live_orders_def)
qed

text \<open>No order outlives its expiry: in every reachable run each live order that is good
  until a date has that date strictly ahead of the run clock.\<close>

theorem no_expired_live_order:
  assumes "run_reachable s" and "(i, x) \<in> set (ownership s)" and "oo_state x = OrderActive" and "oo_expires_at x = Some at"
  shows "clock_now (clock (simulation s)) < at"
proof -
  have s: "run_inv s" "unexpired s"
    using run_reachable_orders [OF assms(1)] by (simp_all add: orders_sound_def)
  then show ?thesis
    using bt_get_mem [OF consistentD(1) [OF s(1)], of i x] assms(2-4) by (simp add: unexpired_def)
qed

theorem no_expired_live_order_witness:
  "\<exists>x. (5, x) \<in> set (ownership demo_rested) \<and> oo_state x = OrderActive \<and> clock_now (clock (simulation demo_rested)) < 90"
proof -
  obtain x where x: "(5, x) \<in> set (ownership demo_rested)" "oo_state x = OrderActive" "oo_expires_at x = Some 90"
    by (simp add: demo_rested_def demo_run_def)
  then show ?thesis
    using no_expired_live_order [OF demo_rested_reachable x] by blast
qed

end
