(* ===== verification/Engine_Totality.thy ===== *)
theory Engine_Totality
  imports Engine_Relations Engine_Runs
begin

text \<open>
  Commands return. The model has two outcomes the program does not report as errors: a
  failed index (\<open>Panicked\<close>) and a loop out of fuel (\<open>Diverged\<close>). On the runs that commands
  reach neither occurs: every listing that is indexed exists, uncrossing ends, and the
  loop over session boundaries ends because each turn uses up a boundary of the calendar.
\<close>

declare split_paired_All [simp del] split_paired_Ex [simp del]

subsection \<open>Errors that the program reports\<close>

definition reported :: "engine_error \<Rightarrow> bool" where
  "reported e \<longleftrightarrow> e \<noteq> Panicked \<and> e \<noteq> Diverged"

lemma reported_simps [simp]:
  "reported UnknownListing" "reported OwnershipInvariant" "reported Accounting" "reported SequenceOverflow"
  "reported (SimulationFailed x)" "reported AmbiguousListing" "reported (SequenceConflictAt n)"
  "\<not> reported Panicked" "\<not> reported Diverged"
  by (simp_all add: reported_def)

text \<open>An operation that reports its errors, on the states of a predicate.\<close>

definition benign :: "('s \<Rightarrow> bool) \<Rightarrow> ('s \<Rightarrow> ('b, engine_error) result) \<Rightarrow> bool" where
  "benign P f \<longleftrightarrow> (\<forall>s e. P s \<longrightarrow> f s = Inl e \<longrightarrow> reported e)"

lemma benignD: "benign P f \<Longrightarrow> P s \<Longrightarrow> f s = Inl e \<Longrightarrow> reported e"
  by (simp add: benign_def)

lemma benignI: "(\<And>s e. P s \<Longrightarrow> f s = Inl e \<Longrightarrow> reported e) \<Longrightarrow> benign P f"
  by (simp add: benign_def)

lemma benign_attempt:
  assumes "benign P f" and "\<And>s u. P s \<Longrightarrow> f s = Inr u \<Longrightarrow> Q u" and "\<And>s. benign Q (g s)"
  shows "benign P (\<lambda>s. attempt (f s) (g s))"
  unfolding benign_def attempt_Err_iff using benignD [OF assms(1)] assms(2) benignD [OF assms(3)] by blast

lemma benign_try_fold:
  assumes "\<And>x. benign P (f x)" and "\<And>x s u. P s \<Longrightarrow> f x s = Inr u \<Longrightarrow> P u"
  shows "benign P (try_fold f xs)"
proof (induction xs)
  case (Cons x xs)
  have "benign P (\<lambda>s. attempt (f x s) (try_fold f xs))"
    by (rule benign_attempt [OF assms(1) assms(2) Cons])
  then show ?case
    by (simp add: benign_def)
qed (simp add: benign_def)

lemma reported_accounting: "accounting r = Inl e \<Longrightarrow> reported e"
  by (cases r) (auto simp: accounting_def)

lemma reported_map_err: "map_err f r = Inl e \<Longrightarrow> (\<And>x. reported (f x)) \<Longrightarrow> reported e"
  by (cases r) auto

lemma map_err_Err_iff: "map_err f r = Inl e \<longleftrightarrow> (\<exists>x. r = Inl x \<and> e = f x)"
  by (cases r) auto

lemma try_map_reported: "try_map f xs = Inl e \<Longrightarrow> (\<And>x e. f x = Inl e \<Longrightarrow> reported e) \<Longrightarrow> reported e"
  by (induction xs) (auto simp: attempt_Err_iff)

lemma if_Err_iff: "(if b then Inl e else r) = Inl e' \<longleftrightarrow> b \<and> e = e' \<or> \<not> b \<and> r = Inl e'"
  by auto

lemmas error_cases = attempt_Err_iff ok_or_Err_iff if_Err_iff

text \<open>The listing of a key exists.\<close>

definition listed :: "listing_key \<Rightarrow> transit \<Rightarrow> bool" where
  "listed k t \<longleftrightarrow> bt_get (listings (run t)) k \<noteq> None"

lemma listed_settle_fill: "listed k t \<Longrightarrow> settle_fill k' mi ti price q auction t = Ok u \<Longrightarrow> listed k u"
  by (auto simp: listed_def dest: settle_fill_frame)

subsection \<open>Cancelling and settling\<close>

lemma cancel_order_benign: "benign P (cancel_order i reason)"
  by (rule benignI)
    (auto simp: cancel_order_def Let_def error_cases case_prod_unfold dest: reported_accounting split: if_splits)

lemma expire_due_benign: "benign P (expire_due now)"
proof (rule benignI)
  fix t e
  show "expire_due now t = Inl e \<Longrightarrow> reported e"
  proof (induction now t rule: expire_due.induct)
    case (1 now t)
    show ?case
      using 1(2)
      by (subst (asm) expire_due.simps)
        (auto simp: error_cases split: list.splits prod.splits if_splits
          dest: benignD [OF cancel_order_benign [of "\<lambda>_. True"] TrueI] 1(1) [OF _ refl])
  qed
qed

lemma settle_fill_benign: "benign (listed k) (settle_fill k mi ti price q auction)"
proof (rule benignI)
  fix t e
  assume "listed k t" and err: "settle_fill k mi ti price q auction t = Inl e"
  then obtain ls where ls: "bt_get (listings (run t)) k = Some ls"
    by (auto simp: listed_def)
  have reduce: "reported e'" if "reduce_filled mi ti mk tk q auction u = Inl e'" for mk tk u e'
    using that by (auto simp: reduce_filled_def reduce_order_def Let_def error_cases split: if_splits)
  have fee: "reported e'" if "per_lot_fee m q = Inl e'" for m e'
    using that by (simp add: per_lot_fee_def error_cases)
  show "reported e"
    using err by (simp add: settle_fill_def ls Let_def error_cases case_prod_unfold split del: if_split)
      (elim disjE exE conjE; (drule reduce fee reported_accounting | drule sym); simp?)
qed

lemma settle_matches_benign: "benign (listed k) (settle_matches ti k ms)"
proof -
  have "settle_matches ti k ms = try_fold (\<lambda>m. settle_fill k (maker m) ti (match_price m) (match_quantity m) False) ms"
    by (rule ext) (simp add: settle_matches_def)
  then show ?thesis
    by (simp only:) (rule benign_try_fold [OF settle_fill_benign], rule listed_settle_fill)
qed

lemma settle_crosses_benign: "benign (listed k) (try_fold (settle_cross k price) cs)"
proof (rule benign_try_fold)
  have "\<exists>mi ti. settle_cross k price c = settle_fill k mi ti price (cross_quantity c) True" for c
    by (auto simp: settle_cross_def fun_eq_iff)
  then show "benign (listed k) (settle_cross k price c)" "listed k t \<Longrightarrow> settle_cross k price c t = Inr u \<Longrightarrow> listed k u" for c t u
    using settle_fill_benign listed_settle_fill by metis+
qed

lemma run_auction_benign: "benign transit_inv (run_auction k)"
proof (rule benignI)
  fix t e
  assume inv: "transit_inv t" and err: "run_auction k t = Inl e"
  have book: "\<exists>r. uncross_loop (ls_book ls) price = Some r" if "bt_get (listings (run t)) k = Some ls" for ls price
    using uncross_loop_spec [OF consistentD(5) [OF inv that]] by blast
  have settle: "reported e'" if "try_fold (settle_cross k price) cs (t\<lparr>run := set_book (run t) k ls b\<rparr>) = Inl e'" for price cs ls b e'
    by (rule benignD [OF settle_crosses_benign [of k price cs] _ that]) (simp add: set_book_def listed_def)
  show "reported e"
  proof (cases "bt_get (listings (run t)) k")
    case (Some ls)
    show ?thesis
    proof (cases "auction_price (ls_book ls) (case ledger_mark (run_ledger (run t)) (lk_instrument k) of None \<Rightarrow> 1 | Some m \<Rightarrow> m)")
      case (Some pq)
      obtain price q where pq: "pq = (price, q)"
        by (cases pq)
      obtain r where r: "uncross_loop (ls_book ls) price = Some r"
        using book [OF \<open>bt_get (listings (run t)) k = Some ls\<close>] by blast
      then have "e = OwnershipInvariant \<or> (\<exists>cs b. try_fold (settle_cross k price) cs (t\<lparr>run := set_book (run t) k ls b\<rparr>) = Inl e)"
        using err Some pq \<open>bt_get (listings (run t)) k = Some ls\<close>
        by (cases r) (auto simp: run_auction_def Let_def error_cases)
      then show ?thesis
        using settle by auto
    qed (use err Some in \<open>simp add: run_auction_def Let_def\<close>)
  qed (use err in \<open>simp add: run_auction_def Let_def\<close>)
qed

subsection \<open>Session boundaries\<close>

lemma keeps_ok: "keeps f \<Longrightarrow> transit_inv t \<Longrightarrow> f t = Inr u \<Longrightarrow> transit_inv u"
  using keepsD by blast

lemma benign_keeps:
  "benign transit_inv f \<Longrightarrow> keeps f \<Longrightarrow> (\<And>s. benign transit_inv (g s)) \<Longrightarrow> benign transit_inv (\<lambda>s. attempt (f s) (g s))"
  by (rule benign_attempt [where Q = transit_inv]) (assumption, erule keeps_ok)

lemma benign_if: "benign P f \<Longrightarrow> benign P g \<Longrightarrow> benign P (\<lambda>t. if b then f t else g t)"
  by (cases b) simp_all

lemma benign_Ok: "benign P (\<lambda>t. Ok (h t))"
  by (simp add: benign_def)

lemma auction_venue_benign: "benign transit_inv (auction_venue v)"
proof -
  have k: "keeps (\<lambda>t. run_auction k (touch k t))" and b: "benign transit_inv (\<lambda>t. run_auction k (touch k t))" for k
    using keepsD [OF keeps_run_auction [of k], of "touch k _"] benignD [OF run_auction_benign [of k], of "touch k _"]
    by (simp_all add: keeps_def benign_def)
  have "benign transit_inv (try_fold (\<lambda>k t. run_auction k (touch k t)) ks)" for ks
    by (rule benign_try_fold [OF b]) (rule keeps_ok [OF k])
  then show ?thesis
    by (simp add: auction_venue_def benign_def)
qed

lemma expire_day_orders_benign: "benign transit_inv (expire_day_orders v)"
proof -
  have "benign transit_inv (try_fold (\<lambda>i. cancel_order i Expired) is)" for "is"
    by (rule benign_try_fold [OF cancel_order_benign]) (rule keeps_ok [OF keeps_cancel])
  then show ?thesis
    by (simp add: expire_day_orders_def benign_def)
qed

lemma settle_day_reported: "settle_day day s = Inl e \<Longrightarrow> reported e"
proof -
  have marks: "try_fold mark_to_close is w = Inl e' \<Longrightarrow> reported e'" for "is" w e'
  proof (induction "is" arbitrary: w)
    case (Cons i "is")
    then show ?case
      by (auto simp: attempt_Err_iff mark_to_close_def Let_def dest: reported_accounting split: option.splits)
  qed simp
  have worth: "run_net_liquidation_value s' p = Inl e' \<Longrightarrow> reported e'" for s' p e'
    by (simp add: run_net_liquidation_value_def reported_accounting)
  have ranks: "rank_scores sc = Inl e' \<Longrightarrow> reported e'" for sc e'
    by (auto simp: rank_scores_def error_cases elim!: try_map_reported split: prod.splits)
  have scores: "try_map (\<lambda>p. attempt (run_net_liquidation_value s' p) (\<lambda>v.
      Ok \<lparr>ds_participant_id = p, ds_net_liquidation_value = v, ds_rank = 0\<rparr>)) ps = Inl e' \<Longrightarrow> reported e'" for s' ps e'
    by (erule try_map_reported) (simp add: attempt_Err_iff worth)
  assume "settle_day day s = Inl e"
  then show ?thesis
    unfolding settle_day_def attempt_Err_iff case_prod_unfold using marks scores ranks by auto
qed

lemma close_venue_benign: "benign P (close_venue v day)"
  by (rule benignI) (auto simp: close_venue_def Let_def case_prod_unfold attempt_Err_iff dest: settle_day_reported split: if_splits)

text \<open>What a boundary does once its step is counted.\<close>

definition boundary_rest :: "venue_id \<Rightarrow> boundary \<Rightarrow> transit \<Rightarrow> (transit, engine_error) result" where
  "boundary_rest v bnd = (\<lambda>t. attempt (if b_phase bnd = Continuous \<or> b_phase bnd = Closed then auction_venue v t else Ok t) (\<lambda>t.
     attempt (if b_phase bnd = Closed then expire_day_orders v t else Ok t) (\<lambda>t.
     attempt (Ok (push (Simulation (SessionPhaseChanged v (b_day bnd) (b_phase bnd))) t)) (\<lambda>t.
     if b_phase bnd = Closed then close_venue v (b_day bnd) t else Ok t))))"

lemma cross_boundary_rest:
  "cross_boundary v stp bnd t = attempt (ok_or SequenceOverflow (checked_u64 (stp + 1))) (\<lambda>nxt.
     boundary_rest v bnd (t\<lparr>run := (run t)\<lparr>session_steps := bt_insert v nxt (session_steps (run t))\<rparr>\<rparr>))"
  by (simp add: cross_boundary_steps boundary_rest_def)

lemma cross_boundary_benign: "benign transit_inv (cross_boundary v stp bnd)"
proof (rule benignI)
  fix t e
  assume inv: "transit_inv t" and err: "cross_boundary v stp bnd t = Inl e"
  have rest: "benign transit_inv (boundary_rest v bnd)"
    unfolding boundary_rest_def
    by (intro benign_keeps keeps_if keeps_auction_venue keeps_expire_day_orders keeps_Ok keeps_push
        benign_if benign_Ok auction_venue_benign expire_day_orders_benign close_venue_benign) simp
  from err obtain nxt where "e = SequenceOverflow \<or>
      boundary_rest v bnd (t\<lparr>run := (run t)\<lparr>session_steps := bt_insert v nxt (session_steps (run t))\<rparr>\<rparr>) = Inl e"
    unfolding cross_boundary_rest attempt_Err_iff ok_or_Err_iff by blast
  then show "reported e"
    using benignD [OF rest keeps_ok [OF keeps_step inv refl]] by auto
qed

text \<open>Writes between two boundaries leave the step counters alone.\<close>

interpretation held: write_relation "\<lambda>s s'. session_steps s' = session_steps s \<and> rs_calendar s' = rs_calendar s"
  by unfold_locales (auto simp: audited_def post_trade_def Let_def close_listing_def mark_to_close_def result_simps split: option.splits)

lemma cross_boundary_counts:
  assumes "cross_boundary v stp bnd t = Ok t'" and "transit_inv t"
  shows "session_steps (run t') = bt_insert v (Suc stp) (session_steps (run t)) \<and> rs_calendar (run t') = rs_calendar (run t)"
proof -
  let ?t0 = "t\<lparr>run := (run t)\<lparr>session_steps := bt_insert v (Suc stp) (session_steps (run t))\<rparr>\<rparr>"
  have rest: "tracks (\<lambda>s s'. session_steps s' = session_steps s \<and> rs_calendar s' = rs_calendar s) (boundary_rest v bnd)"
    unfolding boundary_rest_def
    by (intro held.tracks_attempt tracks_if held.tracks_auction_venue held.tracks_expire_day_orders held.tracks_close_venue
        held.tracks_Ok held.tracks_push) simp
  have "transit_inv ?t0"
    using keepsD [OF keeps_step refl assms(2)] by blast
  moreover have "boundary_rest v bnd ?t0 = Ok t'"
    using assms(1) unfolding cross_boundary_rest attempt_Ok_iff ok_or_Ok_iff checked_u64_def by (auto split: if_splits)
  ultimately show ?thesis
    using tracksD [OF rest] by simp
qed

lemma fuel_step:
  assumes wf: "bt_wf st" and get: "bt_get st v = Some stp" and le: "stp < n"
  shows "(\<Sum>(v, stp) \<leftarrow> bt_insert v (Suc stp) st. n - stp) < (\<Sum>(v, stp) \<leftarrow> st. n - stp)"
proof -
  have int: "int (\<Sum>(v, stp) \<leftarrow> xs. n - stp) = (\<Sum>(v, stp) \<leftarrow> xs. int (n - stp))" for xs :: "('k \<times> nat) list"
    by (induction xs) auto
  have "int (\<Sum>(v, stp) \<leftarrow> bt_insert v (Suc stp) st. n - stp) = int (\<Sum>(v, stp) \<leftarrow> st. n - stp) - int (n - stp) + int (n - Suc stp)"
    unfolding int using bt.sum_ins [OF wf, of "\<lambda>_ s. int (n - s)" v "Suc stp"] get by simp
  then show ?thesis
    using le by simp
qed

lemma min_by_key_mem: "min_by_key key xs = Some x \<Longrightarrow> x \<in> set xs"
proof -
  have "foldl (\<lambda>m y. if key y < key m then y else m) a ys \<in> insert a (set ys)" for a ys
  proof (induction ys arbitrary: a)
    case (Cons y ys)
    show ?case
      using Cons [of a] Cons [of y] by auto
  qed simp
  then show "min_by_key key xs = Some x \<Longrightarrow> x \<in> set xs"
    by (auto simp: min_by_key_def split: list.splits)
qed

lemma next_boundary_step:
  assumes "next_boundary s = Some (v, stp, bnd)"
  obtains c where "rs_calendar s = Some c" and "(v, stp) \<in> set (session_steps s)"
    and "stp < BOUNDARIES_PER_DAY * length (trading_days c)"
proof -
  obtain c where c: "rs_calendar s = Some c" and "(v, stp) \<in> set (session_steps s)" and b: "calendar_boundary c v stp = Some bnd"
    using assms by (auto simp: next_boundary_def bind_eq_Some_conv map_filter_def dest!: min_by_key_mem)
  moreover have "stp div BOUNDARIES_PER_DAY < length (trading_days c)"
    using b by (auto simp: calendar_boundary_def trading_day_def bind_eq_Some_conv split: if_splits)
  then have "stp < BOUNDARIES_PER_DAY * length (trading_days c)"
    by (simp add: BOUNDARIES_PER_DAY_def div_less_iff_less_mult)
  ultimately show ?thesis
    using that by blast
qed

text \<open>Enough fuel: the boundaries left, and one turn to see that none is due.\<close>

lemma cross_due_reported:
  assumes "cross_due n now t = Inl e" and "transit_inv t" and "bt_wf (session_steps (run t))" and "boundary_fuel (run t) \<le> n"
  shows "reported e"
  using assms
proof (induction n arbitrary: t)
  case 0
  then show ?case
    by (simp add: boundary_fuel_def split: option.splits)
next
  case (Suc n)
  show ?case
  proof (cases "next_boundary (run t)")
    case None
    then show ?thesis
      using Suc.prems(1) by simp
  next
    case (Some e')
    obtain v stp bnd where nb: "next_boundary (run t) = Some (v, stp, bnd)"
      using Some by (cases e') auto
    consider "expire_due (b_at bnd) t = Inl e"
      | t1 where "expire_due (b_at bnd) t = Ok t1" "cross_boundary v stp bnd t1 = Inl e"
      | t1 t2 where "expire_due (b_at bnd) t = Ok t1" "cross_boundary v stp bnd t1 = Ok t2" "cross_due n now t2 = Inl e"
      using Suc.prems(1) nb by (auto simp: attempt_Err_iff split: if_splits)
    then show ?thesis
    proof cases
      case 1
      then show ?thesis
        using benignD [OF expire_due_benign [of "\<lambda>_. True"]] by blast
    next
      case 2
      then show ?thesis
        using benignD [OF cross_boundary_benign] keeps_ok [OF keeps_expire_due Suc.prems(2)] by blast
    next
      case 3
      have inv1: "transit_inv t1"
        using keeps_ok [OF keeps_expire_due Suc.prems(2) 3(1)] .
      have st1: "session_steps (run t1) = session_steps (run t)" "rs_calendar (run t1) = rs_calendar (run t)"
        using tracksD [OF held.tracks_expire_due 3(1) Suc.prems(2)] by blast+
      have st2: "session_steps (run t2) = bt_insert v (Suc stp) (session_steps (run t))" "rs_calendar (run t2) = rs_calendar (run t)"
        using cross_boundary_counts [OF 3(2) inv1] st1 by simp_all
      obtain c where c: "rs_calendar (run t) = Some c" and mem: "(v, stp) \<in> set (session_steps (run t))"
        and lt: "stp < BOUNDARIES_PER_DAY * length (trading_days c)"
        by (rule next_boundary_step [OF nb])
      have "bt_get (session_steps (run t)) v = Some stp"
        using bt_get_mem [OF Suc.prems(3)] mem by simp
      note fuel_step [OF Suc.prems(3) this lt]
      then have "boundary_fuel (run t2) \<le> n"
        using Suc.prems(4) st2 c by (simp add: boundary_fuel_def)
      then show ?thesis
        using Suc.IH [OF 3(3) keeps_ok [OF keeps_cross_boundary inv1 3(2)]] Suc.prems(3) st2(1) by simp
    qed
  qed
qed

lemma with_simulation_state_reported: "with_simulation_state t r = Inl e \<Longrightarrow> reported e"
  by (cases r) (auto simp: with_simulation_state_def)

lemma catch_up_reported:
  assumes err: "catch_up now sweep t = Inl e" and inv: "transit_inv t" and wf: "bt_wf (session_steps (run t))"
  shows "reported e"
proof -
  let ?sim = "with_simulation_state t (simulation_catch_up (simulation (run t)) (context_of (run t)) now sweep)"
  consider "?sim = Inl e" | t1 where "?sim = Inr t1" "cross_due (boundary_fuel (run t1)) now t1 = Inl e"
    | t2 where "expire_due now t2 = Inl e"
    using err unfolding catch_up_def attempt_Err_iff by blast
  then show ?thesis
  proof cases
    case 1
    then show ?thesis
      by (rule with_simulation_state_reported)
  next
    case 2
    have "session_steps (run t1) = session_steps (run t)"
      using 2(1) by (auto simp: with_simulation_state_def result_simps)
    then show ?thesis
      using cross_due_reported [OF 2(2) keeps_ok [OF keeps_simulation_catch_up inv 2(1)]] wf by simp
  next
    case 3
    then show ?thesis
      using benignD [OF expire_due_benign [of "\<lambda>_. True"]] by blast
  qed
qed

subsection \<open>Order commands\<close>

lemma submit_benign: "benign (listed k) (submit order k now)"
proof (rule benignI)
  fix t e
  assume k: "listed k t" and err: "submit order k now t = Inl e"
  obtain pl where "submit_accept order k pl t = Inl e
      \<or> (\<exists>t1. submit_accept order k pl t = Inr t1 \<and> submit_match order k pl t1 = Inl e)
      \<or> (\<exists>left t2. submit_remainder order k pl left t2 = Inl e)"
    using err k by (auto simp: submit_def error_cases listed_def split: sum.splits) blast+
  then consider "submit_accept order k pl t = Inl e"
    | t1 where "submit_accept order k pl t = Inr t1" "submit_match order k pl t1 = Inl e"
    | left t2 where "submit_remainder order k pl left t2 = Inl e"
    by blast
  then show "reported e"
  proof cases
    case 1
    then show ?thesis
      by (auto simp: submit_accept_def Let_def error_cases dest: reported_accounting)
  next
    case 2
    have "listings (run t1) = listings (run t)"
      using 2(1) by (auto simp: submit_accept_def Let_def result_simps)
    then obtain ls where ls: "bt_get (listings (run t1)) k = Some ls"
      using k by (auto simp: listed_def)
    have "e = OwnershipInvariant \<or> (\<exists>ms b. settle_matches (so_order_id order) k ms (t1\<lparr>run := set_book (run t1) k ls b\<rparr>) = Inl e)"
      using 2(2) ls by (cases "execute (ls_book ls) (so_side order) (pl_limit pl) (so_quantity order)")
        (auto simp: submit_match_def error_cases split: if_splits)
    then show ?thesis
      using benignD [OF settle_matches_benign [of k "so_order_id order"], of "t1\<lparr>run := set_book (run t1) k ls _\<rparr>"]
      by (auto simp: listed_def set_book_def)
  next
    case 3
    then show ?thesis
      by (auto simp: submit_remainder_def submit_rest_def submit_drop_def Let_def error_cases
          dest: reported_accounting elim!: reported_map_err split: if_splits option.splits bool.splits)
  qed
qed

lemma cancel_listed_benign: "benign P (cancel_listed reason live)"
proof -
  have "benign (\<lambda>_. True) (\<lambda>t. cancel_order i reason (touch k t))" for i k
    using benignD [OF cancel_order_benign [of "\<lambda>_. True"]] by (simp add: benign_def)
  then have "benign (\<lambda>_. True) (cancel_listed reason live)"
    unfolding cancel_listed_def by (intro benign_try_fold) (auto split: prod.split)
  then show ?thesis
    by (simp add: benign_def)
qed

lemma apply_payload_reported:
  assumes err: "apply_payload cmd key t = Inl e"
    and key: "\<And>order k. c_payload cmd = SubmitOrder order \<or> c_payload cmd = SubmitOrderAtListing k order \<Longrightarrow> \<exists>k. key = Some k \<and> listed k t"
  shows "reported e"
proof -
  have sub: "reported e" if run: "apply_submit order key now t = Inl e" and k: "key = Some k" "listed k t" for order now k
  proof -
    have "\<exists>p. submit order k now (touch k (push p t)) = Inl e"
      using run k(1) by (auto simp: apply_submit_def Let_def error_cases split: if_splits)
    then show ?thesis
      using benignD [OF submit_benign [of k order now], of "touch k (push _ t)"] k(2) by (auto simp: listed_def)
  qed
  show ?thesis
  proof (cases "c_payload cmd")
    case (CancelOrder c)
    then have "\<exists>i t'. cancel_order i Requested t' = Inl e"
      using err by (auto simp: apply_payload_def apply_cancel_def Let_def error_cases split: option.splits if_splits)
    then show ?thesis
      using benignD [OF cancel_order_benign [of "\<lambda>_. True"]] by blast
  next
    case ActivateKillSwitch
    then have "\<exists>live t'. cancel_listed KillSwitch live t' = Inl e"
      using err by (auto simp: apply_payload_def activate_kill_switch_def Let_def error_cases)
    then show ?thesis
      using benignD [OF cancel_listed_benign [of "\<lambda>_. True"]] by blast
  qed (use err key sub in \<open>auto simp: apply_payload_def\<close>)
qed

lemma finish_reported: "finish cmd n acc code order t = Inl e \<Longrightarrow> reported e"
proof -
  have commit: "try_fold (commit_payload at) ps s = Inl e' \<Longrightarrow> reported e'" for at ps s e'
    by (induction ps arbitrary: s) (auto simp: commit_payload_def Let_def attempt_Err_iff elim: reported_map_err)
  have env: "envelope_events cmd m ps = Inl e' \<Longrightarrow> reported e'" for m ps e'
    by (auto simp: envelope_events_def envelope_event_def error_cases elim!: try_map_reported)
  show "finish cmd n acc code order t = Inl e \<Longrightarrow> reported e"
    by (auto simp: finish_def Let_def attempt_Err_iff intro: commit env)
qed

lemma resolve_listing_listed:
  assumes "resolve_listing s p = Ok key" and "p = SubmitOrder order \<or> p = SubmitOrderAtListing k order"
  shows "\<exists>k. key = Some k \<and> k \<in> fst ` set (listings s)"
proof -
  have single: "listing_key_for_instrument s i = Ok k' \<Longrightarrow> k' \<in> fst ` set (listings s)" for i k'
  proof -
    assume "listing_key_for_instrument s i = Ok k'"
    then have "filter (\<lambda>k. lk_instrument k = i) (map fst (listings s)) = [k']"
      by (auto simp: listing_key_for_instrument_def split: list.splits)
    then have "k' \<in> set (filter (\<lambda>k. lk_instrument k = i) (map fst (listings s)))"
      by simp
    then show ?thesis
      by simp
  qed
  show ?thesis
    using assms single by (auto simp: resolve_listing_def result_simps map_of_eq_None_iff image_iff split: if_splits) force
qed

lemma listed_catch_up:
  assumes "catch_up now sweep t = Ok t'" and "transit_inv t" and "k \<in> fst ` set (listings (run t))"
  shows "listed k t'"
proof -
  have "map fst (listings (run t')) = map fst (listings (run t))"
    using keepsD [OF keeps_catch_up assms(1,2)] by (simp add: run_constants_def)
  then have "fst ` set (listings (run t')) = fst ` set (listings (run t))"
    by (metis set_map)
  then show ?thesis
    using assms(3) by (simp add: listed_def map_of_eq_None_iff)
qed

lemma run_apply_reported:
  assumes err: "run_apply s cmd = Inl e" and inv: "run_inv s" and wf: "bt_wf (session_steps s)"
  shows "reported (into_inner e)"
proof -
  have inv0: "transit_inv (transit_of s)" "run (transit_of s) = s"
    using inv by (simp_all add: transit_of_def) (simp add: ended_orders_def map_filter_def)
  have pre: "preflight s a b = Inl x \<Longrightarrow> reported x" for a b x
    by (auto simp: preflight_def error_cases)
  have res: "resolve_listing s p = Inl x \<Longrightarrow> reported x" for p x
    by (auto simp: resolve_listing_def listing_key_for_instrument_def error_cases split: command_payload.splits list.splits)
  have app: "reported x" if run: "apply_validated s cmd n key = Inl x" and key: "resolve_listing s (c_payload cmd) = Inr key" for n key x
  proof -
    consider "catch_up (c_logical_time cmd) False (transit_of s) = Inl x"
      | t where "catch_up (c_logical_time cmd) False (transit_of s) = Inr t" "apply_payload cmd key t = Inl x"
      | acc code order t1 where "finish cmd n acc code order t1 = Inl x"
      using run unfolding apply_validated_def attempt_Err_iff case_prod_unfold by blast
    then show ?thesis
    proof cases
      case 1
      then show ?thesis
        using catch_up_reported [OF _ inv0(1)] wf inv0(2) by simp
    next
      case 2
      then show ?thesis
        using resolve_listing_listed [OF key] listed_catch_up [OF 2(1) inv0(1)] inv0(2)
        by (intro apply_payload_reported [OF 2(2)]) metis
    qed (rule finish_reported)
  qed
  show ?thesis
    using err unfolding run_apply_def attempt_Err_iff map_err_Err_iff
    by (auto simp: map_err_Ok_iff map_err_Err_iff dest: pre res app split: if_splits)
qed

lemma run_apply_simulation_reported:
  assumes err: "run_apply_simulation s req = Inl e" and inv: "run_inv s" and wf: "bt_wf (session_steps s)"
  shows "reported (into_inner e)"
proof -
  have inv0: "transit_inv (transit_of s)" "run (transit_of s) = s"
    using inv by (simp_all add: transit_of_def) (simp add: ended_orders_def map_filter_def)
  have pre: "preflight s a b = Inl x \<Longrightarrow> reported x" for a b x
    by (auto simp: preflight_def error_cases)
  have payload: "apply_simulation_payload req t = Inl x \<Longrightarrow> reported x" for t x
    using benignD [OF cancel_listed_benign [of "\<lambda>_. True"]] benignD [OF expire_due_benign [of "\<lambda>_. True"]]
    by (auto simp: apply_simulation_payload_def mass_cancel_def Let_def attempt_Err_iff with_simulation_state_reported
        split: simulation_command.splits)
  have app: "reported x" if run: "apply_simulation_validated s req n = Inl x" for n x
  proof -
    obtain t0 where t0: "transit_inv t0" "run t0 = s"
      and "catch_up (c_logical_time req) (c_payload req = ClockTick) t0 = Inl x \<or>
        (\<exists>t. apply_simulation_payload req t = Inl x) \<or> (\<exists>t. finish req n True None None t = Inl x)"
    proof
      let ?t0 = "if c_payload req = ClockTick \<and> c_logical_time req > clock_now (clock (simulation s))
        then push (Simulation (ClockAdvanced (clock_now (clock (simulation s))) (c_logical_time req))) (transit_of s) else transit_of s"
      show "transit_inv ?t0" "run ?t0 = s"
        using inv0 by (simp_all add: ended_orders_def map_filter_def)
      show "catch_up (c_logical_time req) (c_payload req = ClockTick) ?t0 = Inl x \<or>
        (\<exists>t. apply_simulation_payload req t = Inl x) \<or> (\<exists>t. finish req n True None None t = Inl x)"
        using run unfolding apply_simulation_validated_def Let_def attempt_Err_iff by blast
    qed
    then show ?thesis
      using catch_up_reported [OF _ t0(1)] wf payload finish_reported by auto
  qed
  show ?thesis
    using err unfolding run_apply_simulation_def Let_def attempt_Err_iff map_err_Err_iff
    by (auto simp: map_err_Ok_iff map_err_Err_iff dest: pre app split: if_splits)
qed

subsection \<open>Reachable runs\<close>

interpretation sorted: run_relation "\<lambda>s s'. bt_wf (session_steps s) \<longrightarrow> bt_wf (session_steps s')"
  by unfold_locales
    (auto simp: audited_def post_trade_def Let_def close_listing_def mark_to_close_def result_simps split: option.splits)

definition steps_sound :: "run_state \<Rightarrow> bool" where
  "steps_sound s \<longleftrightarrow> run_inv s \<and> bt_wf (session_steps s)"

interpretation counted_steps: step_system steps_sound run_step steps_sound
proof
  fix s t
  assume s: "steps_sound s" and "run_step s t"
  from this(2) show "steps_sound t"
  proof cases
    case 2: (order_command cmd ap)
    have "bt_wf (session_steps t)"
      by (rule sorted.run_apply_rel [OF 2(1)]) (use s 2(2) in \<open>auto simp: steps_sound_def caught_up_def\<close>)
    then show ?thesis
      using s run_apply_inv [OF 2(1) _ 2(2)] by (simp add: steps_sound_def)
  next
    case 3: (simulation_command req ap)
    have "bt_wf (session_steps t)"
      by (rule sorted.run_apply_simulation_rel [OF 3])
        (use s in \<open>auto simp: steps_sound_def caught_up_def administered_def split: if_splits\<close>)
    then show ?thesis
      using s run_apply_simulation_inv [OF 3] by (simp add: steps_sound_def)
  qed
qed

lemma run_reachable_steps:
  assumes "run_reachable s"
  shows "steps_sound s"
proof -
  obtain to_vec sha256 rid iteration sc s0 where sc: "scenario_typed sc"
    and s0: "run_from_scenario to_vec sha256 rid iteration sc = Ok s0" and steps: "run_step\<^sup>*\<^sup>* s0 s"
    using assms by (auto simp: run_reachable_def)
  have "bt_wf (foldl (\<lambda>m ses. bt_insert (vs_venue_id ses) (f ses) m) m0 xs)" if "bt_wf m0" for m0 xs and f :: "venue_session \<Rightarrow> nat"
    using that by (induction xs arbitrary: m0) simp_all
  then have "bt_wf (session_steps s0)"
    using s0 by (auto simp: run_from_scenario_def result_simps initial_steps_def split: if_splits option.splits)
  then have "steps_sound s0"
    using run_from_scenario_inv(1) [OF s0 sc] by (simp add: steps_sound_def)
  then show ?thesis
    using counted_steps.steps_inv [OF steps] by blast
qed

subsection \<open>Properties\<close>

text \<open>C4. Every command on a reachable run returns: it commits, or it fails with an error the
  program reports. No index into the listings fails, uncrossing a book ends, and the loop
  over due session boundaries ends however far the clock has moved.\<close>

theorem commands_return:
  assumes "run_reachable s"
  shows "(\<forall>e. run_apply s cmd = Err e \<longrightarrow> into_inner e \<noteq> Panicked \<and> into_inner e \<noteq> Diverged) \<and>
    (\<forall>e. run_apply_simulation s req = Err e \<longrightarrow> into_inner e \<noteq> Panicked \<and> into_inner e \<noteq> Diverged)"
  using run_reachable_steps [OF assms] run_apply_reported run_apply_simulation_reported
  by (auto simp: steps_sound_def reported_def)

theorem commands_return_witness:
  "\<exists>e. run_apply demo_rested demo_bid = Err e \<and> into_inner e \<noteq> Panicked \<and> into_inner e \<noteq> Diverged"
proof -
  have "run_apply demo_rested demo_bid = Err (Unchanged (SequenceConflictAt 1))"
    by (simp add: run_apply_def preflight_def demo_rested_def demo_run_def demo_bid_def demo_command_def)
  then show ?thesis
    using commands_return [OF demo_rested_reachable] by blast
qed

end
