(* ===== verification/Engine_Simulation.thy ===== *)
theory Engine_Simulation
  imports Engine_Relations Engine_Runs
begin

text \<open>
  The simulation domain inside a run. Whatever holds across the methods of
  \<open>SimulationState\<close> and across the market projections holds across whole commands: the
  schedule stays in time order and is worked off exactly, facilities are never booked
  beyond their capacity, and closed tenders and negotiations never change again.
\<close>

declare split_paired_All [simp del] split_paired_Ex [simp del]

subsection \<open>The interface\<close>

locale simulation_relation =
  fixes rel :: "simulation_state \<Rightarrow> simulation_state \<Rightarrow> bool"
  assumes same: "deals s' = deals s \<Longrightarrow> rel s s'"
    and composed: "rel s t \<Longrightarrow> rel t u \<Longrightarrow> rel s u"
    and catching_up: "simulation_catch_up s ctx now sweep = Ok (evs, ctx', s') \<Longrightarrow> rel s s'"
    and applying: "simulation_apply s ctx actor at cmd = Ok (evs, ctx', s') \<Longrightarrow> rel s s'"

lemma project_event_deals:
  assumes "project_event s at p = Ok s'"
  shows "deals s' = deals s"
proof -
  let ?blank = "\<lambda>s. s\<lparr>market := [], market_by_listing := []\<rparr>"
  have "deals (?blank u) = deals u" for u :: simulation_state
    by (simp add: deals_def)
  then show ?thesis
    using arg_cong [OF project_event_frame [OF assms], of deals] by simp
qed

sublocale simulation_relation \<subseteq> run_relation "\<lambda>s s'. rel (simulation s) (simulation s')"
proof
  fix s s' t u :: run_state and k cs i ms ms' at event sim
  show "rel (simulation s) (simulation t) \<Longrightarrow> rel (simulation t) (simulation u) \<Longrightarrow> rel (simulation s) (simulation u)"
    by (rule composed)
  show "audited s' = audited s \<Longrightarrow> orders_aged (ownership s) (ownership s') \<Longrightarrow> rel (simulation s) (simulation s')"
    by (rule same) (simp add: audited_def)
  show "rel (simulation s) (simulation (snd (close_listing k (cs, s))))"
    by (rule same) (simp add: close_listing_def Let_def split: option.split)
  show "mark_to_close i (ms, s) = Ok (ms', s') \<Longrightarrow> rel (simulation s) (simulation s')"
    by (rule same) (auto simp: mark_to_close_def Let_def result_simps split: option.splits)
  show "project_event (simulation s) at event = Ok sim \<Longrightarrow> rel (simulation s) (simulation (s\<lparr>simulation := sim\<rparr>))"
    by (rule same) (simp add: project_event_deals)
qed (rule same, simp add: post_trade_def Let_def)+

context simulation_relation
begin

lemma run_step_rel:
  assumes "run_step s s'" and "run_inv s"
  shows "rel (simulation s) (simulation s')"
  using assms(1)
proof cases
  case (order_command cmd ap)
  obtain s1 s2 s3 :: run_state and ps where a: "caught_up (c_logical_time cmd) False s s1" and b: "rel (simulation s1) (simulation s2)"
    and c: "rel (simulation (s2\<lparr>kill_switched := kill_after cmd (kill_switched s2)\<rparr>)) (simulation s3)"
    and s': "s' = s3\<lparr>run_sequence := run_sequence s + 1, run_event_sequence :=
      (if events ap = [] then run_event_sequence s3 else ev_sequence (last (events ap)))\<rparr>"
    by (rule run_apply_rel [OF order_command(1) assms(2) order_command(2)])
  have "rel (simulation s) (simulation s1)"
    using a catching_up by (auto simp: caught_up_def)
  then have "rel (simulation s) (simulation s3)"
    using composed [OF composed [OF _ b]] c by simp
  then show ?thesis
    by (simp add: s')
next
  case (simulation_command req ap)
  obtain s1 s2 s3 s4 :: run_state and ps where a: "caught_up (c_logical_time req) (c_payload req = ClockTick) s s1"
    and b: "rel (simulation s1) (simulation s2)" and c: "administered req s2 s3" and d: "rel (simulation s3) (simulation s4)"
    and s': "s' = s4\<lparr>run_sequence := run_sequence s + 1, run_event_sequence :=
      (if events ap = [] then run_event_sequence s4 else ev_sequence (last (events ap)))\<rparr>"
    by (rule run_apply_simulation_rel [OF simulation_command assms(2)])
  have e: "rel (simulation s) (simulation s1)"
    using a catching_up by (auto simp: caught_up_def)
  have f: "rel (simulation s2) (simulation s3)"
    using c applying same [OF refl] by (auto simp: administered_def split: if_splits)
  show ?thesis
    using composed [OF composed [OF e b] composed [OF f d]] by (simp add: s')
qed

lemma run_steps_rel:
  assumes "run_step\<^sup>*\<^sup>* s s'" and "run_inv s \<and> constants_ok s"
  shows "rel (simulation s) (simulation s')"
  using assms(1)
proof (induction rule: rtranclp_induct)
  case base
  show ?case
    by (rule same) simp
next
  case (step t u)
  then show ?case
    using run_step_rel [OF step.hyps(2)] runs.steps_inv [OF step.hyps(1) assms(2)] composed by blast
qed

end

interpretation timetable: simulation_relation "\<lambda>s s'. schedule_ok s \<longrightarrow> schedule_ok s'"
  by unfold_locales (auto simp: deals_def schedule_ok_def dest: catch_up_schedule_ok [unfolded schedule_ok_def]
      simulation_apply_schedule_ok [unfolded schedule_ok_def])

interpretation plants: simulation_relation "\<lambda>s s'. capacity_ok s \<longrightarrow> capacity_ok s'"
proof
  fix s s' :: simulation_state
  show "deals s' = deals s \<Longrightarrow> capacity_ok s \<longrightarrow> capacity_ok s'"
    using capacity_ok_cong [of s' s] by (simp add: deals_def)
qed (auto dest: catch_up_capacity simulation_apply_capacity)

interpretation closings: simulation_relation deals_final
proof
  fix s s' :: simulation_state
  show "deals s' = deals s \<Longrightarrow> deals_final s s'"
    by (simp add: deals_def)
qed (auto intro: catch_up_final simulation_apply_final deals_final_trans)

subsection \<open>From the scenario on\<close>

lemma simulation_started:
  assumes "simulation_from_scenario sc = Ok s"
  shows "schedule_ok s" and "facility_jobs s = []" and "facilities s = ss_facilities sc" and "list_all facility_valid (ss_facilities sc)"
proof -
  have load: "load_actions as ids u = Ok v \<Longrightarrow> facility_jobs v = facility_jobs u \<and> facilities v = facilities u" for as ids u v
    by (induction as ids u rule: load_actions.induct) (auto split: if_splits)
  show "schedule_ok s" "facility_jobs s = []" "facilities s = ss_facilities sc" "list_all facility_valid (ss_facilities sc)"
    using assms by (auto simp: simulation_from_scenario_def simulation_scenario_validate_def default_simulation_state_def
        result_simps schedule_ok_def split: if_splits dest!: load)
qed

lemma run_reachable_simulation:
  assumes "run_reachable s"
  shows "schedule_ok (simulation s)" and "capacity_ok (simulation s)"
proof -
  obtain to_vec sha256 rid iteration sc s0 where sc: "scenario_typed sc"
    and s0: "run_from_scenario to_vec sha256 rid iteration sc = Ok s0" and steps: "run_step\<^sup>*\<^sup>* s0 s"
    using assms by (auto simp: run_reachable_def)
  have st: "simulation_from_scenario (sd_simulation sc) = Ok (simulation s0)"
    using s0 by (auto simp: run_from_scenario_def result_simps split: if_splits)
  note start = simulation_started [OF st]
  have "bt_get (facilities (simulation s0)) f = Some d \<Longrightarrow> 0 \<le> fd_capacity d" for f d
    using start(3,4) map_of_SomeD [of "ss_facilities (sd_simulation sc)" f d] by (fastforce simp: list_all_iff)
  then have "capacity_ok (simulation s0)"
    using start(2) by (simp add: capacity_ok_def facility_load_def)
  moreover have inv: "run_inv s0 \<and> constants_ok s0"
    using run_from_scenario_inv [OF s0 sc] by blast
  ultimately show "schedule_ok (simulation s)" "capacity_ok (simulation s)"
    using timetable.run_steps_rel [OF steps inv] plants.run_steps_rel [OF steps inv] start(1) by blast+
qed

text \<open>Apart from the clock, the schedule moves only by catching up.\<close>

interpretation idle: run_relation "\<lambda>s s'. deals (simulation s') = deals (simulation s)"
  by unfold_locales (auto simp: audited_def post_trade_def Let_def close_listing_def mark_to_close_def result_simps
      project_event_deals split: option.splits)

text \<open>A due action that cannot be applied fails the whole catch-up.\<close>

lemma catch_up_stuck:
  assumes "scheduled_actions s = a # as" and "action_kind a = CompleteFacilityJob j" and "bt_get (facility_jobs s) j = None"
    and "effective_at a \<le> now"
  shows "simulation_catch_up s ctx now sweep \<noteq> Ok x"
proof
  assume "simulation_catch_up s ctx now sweep = Ok x"
  then obtain evs ctx' s' where "simulation_catch_up s ctx now sweep = Ok (evs, ctx', s')"
    by (cases x) auto
  then show False
    by (cases rule: catch_up_Ok) (use assms in \<open>simp add: apply_due_def apply_scheduled_def Let_def\<close>)
qed

lemma catch_up_stuck_run:
  "scheduled_actions (simulation (run t)) = a # as \<Longrightarrow> action_kind a = CompleteFacilityJob j \<Longrightarrow>
     bt_get (facility_jobs (simulation (run t))) j = None \<Longrightarrow> effective_at a \<le> now \<Longrightarrow> catch_up now sweep t \<noteq> Ok u"
  using catch_up_stuck by (fastforce simp: catch_up_def with_simulation_state_def result_simps)

subsection \<open>A run with a programme\<close>

text \<open>The demonstration scenario with a facility, a cashflow at time 50 and the completion of
  a job that was never scheduled at time 60. The scenario is valid.\<close>

definition demo_programme :: simulation_scenario where
  "demo_programme = default_simulation_scenario
     \<lparr>ss_facilities := [(1, \<lparr>fd_facility_id = 1, fd_kind = Production, fd_capacity = 10, input_instrument = None,
        output_instrument = Some 10\<rparr>)],
      ss_scheduled_actions := [\<lparr>action_id = 2, effective_at = 60, action_kind = CompleteFacilityJob 99\<rparr>,
        \<lparr>action_id = 1, effective_at = 50, action_kind = Cashflow 7 1 300 Adjustment\<rparr>]\<rparr>"

definition plant_scenario :: scenario_definition where
  "plant_scenario = demo_scenario\<lparr>sd_simulation := demo_programme\<rparr>"

definition plant_run :: run_state where
  "plant_run = demo_run\<lparr>simulation := demo_simulation
     \<lparr>facilities := ss_facilities demo_programme, scheduled_actions := rev (ss_scheduled_actions demo_programme), next_action_id := 3\<rparr>\<rparr>"

lemma plant_valid: "scenario_validate plant_scenario = Ok ()"
  by (simp add: plant_scenario_def demo_programme_def demo_scenario_def demo_instrument_def demo_listing_def demo_participant_def
      scenario_eval checked_eval map_filter_def)

lemma plant_simulation: "simulation_from_scenario demo_programme = Ok (simulation plant_run)"
  by (simp add: simulation_from_scenario_def demo_programme_def scenario_eval plant_run_def demo_simulation_def
      default_simulation_state_def u128_saturating_succ_def action_key_def)

lemma plant_reachable: "run_reachable plant_run"
proof -
  obtain l1 where "try_fold configure_one (sd_instruments demo_scenario) ledger_new = Ok l1"
    and "try_fold (\<lambda>(_, d). fund_participant demo_scenario d) (sd_participants demo_scenario) l1 = Ok demo_ledger"
    using demo_ledger_started by (auto simp: attempt_Ok_iff)
  moreover have "seed_one plant_scenario = seed_one demo_scenario"
    by (intro ext) (simp add: seed_one_def plant_scenario_def)
  then have "fund_participant plant_scenario = fund_participant demo_scenario"
    by (intro ext) (simp add: fund_participant_def)
  ultimately have "run_from_scenario (\<lambda>_. Some []) (\<lambda>_. []) 1 1 plant_scenario = Ok plant_run"
    by (simp add: run_from_scenario_def plant_valid content_hash_def hash_serializable_def)
      (simp add: plant_scenario_def plant_simulation, simp add: plant_run_def demo_run_def demo_scenario_def initial_steps_def)
  moreover have "scenario_typed plant_scenario"
    by (simp add: scenario_typed_def plant_scenario_def demo_scenario_def demo_instrument_def demo_participant_def
        instrument_definition_new_def bt_wf_def in_i64_def)
  ultimately show ?thesis
    unfolding run_reachable_def by blast
qed

lemma plant_reset:
  "\<exists>ap s. run_apply plant_run (demo_command 0 55 7 ResetKillSwitch) = Ok (ap, s) \<and>
     scheduled_actions (simulation s) = [\<lparr>action_id = 2, effective_at = 60, action_kind = CompleteFacilityJob 99\<rparr>] \<and>
     facility_jobs (simulation s) = [] \<and> balance (ledger_cash (run_ledger s) 7 1) = 5300"
  by (simp add: command_eval catch_up_eval ledger_eval checked_eval demo_command_def plant_run_def demo_programme_def demo_defs
      apply_due_def apply_scheduled_def with_ledger_def default_simulation_scenario_def)

lemma plant_job:
  "\<exists>ap s. run_apply_simulation plant_run (demo_command 0 20 7 (ScheduleFacilityJob 1 7 6 1 40)) = Ok (ap, s) \<and>
     facilities (simulation s) = ss_facilities demo_programme \<and> facility_load (simulation s) 1 = 6"
  by (simp add: command_eval catch_up_eval checked_eval demo_command_def plant_run_def demo_programme_def demo_defs
      run_apply_simulation_def apply_simulation_validated_def apply_simulation_payload_def simulation_apply_def
      schedule_facility_job_def reserved_capacity_def next_action_def u128_saturating_succ_def schedule_def MAX_SCHEDULED_ACTIONS_def
      default_simulation_scenario_def facility_load_def booked_def bt_insert_def)

lemma plant_tender:
  "\<exists>ap1 s1 ap2 s2. run_apply_simulation plant_run (demo_command 0 20 1 (OpenTender 4 7 10 Buy 2 45 90)) = Ok (ap1, s1) \<and>
     run_apply_simulation s1 (demo_command 1 30 7 (DecideTender 4 TenderDecline)) = Ok (ap2, s2) \<and>
     (\<exists>t. bt_get (tenders (simulation s2)) 4 = Some t \<and> t_status t = ''declined'') \<and>
     (\<exists>ap3 s3. run_apply s2 (demo_command 2 55 7 ResetKillSwitch) = Ok (ap3, s3))"
  by (simp add: command_eval catch_up_eval checked_eval ledger_eval demo_command_def plant_run_def demo_programme_def demo_defs
      run_apply_simulation_def apply_simulation_validated_def apply_simulation_payload_def simulation_apply_def
      open_tender_def decide_tender_def require_instrument_def require_participant_def tender_open_def
      apply_due_def apply_scheduled_def with_ledger_def default_simulation_scenario_def)

subsection \<open>Properties\<close>

text \<open>Facilities are never overbooked: in every reachable run the input quantities of a
  facility's unfinished jobs add up to at most its capacity.\<close>

theorem facility_never_overbooked:
  assumes "run_reachable s" and "bt_get (facilities (simulation s)) f = Some d"
  shows "(\<Sum>(j, job) \<leftarrow> facility_jobs (simulation s). if job_facility_id job = f \<and> \<not> completed job then input_quantity job else 0)
    \<le> fd_capacity d"
  using run_reachable_simulation(2) [OF assms(1)] assms(2)
  by (simp add: capacity_ok_def facility_load_def booked_def)

theorem facility_never_overbooked_witness:
  "\<exists>s. run_reachable s \<and> (\<Sum>(j, job) \<leftarrow> facility_jobs (simulation s).
     if job_facility_id job = 1 \<and> \<not> completed job then input_quantity job else 0) \<in> {6..10}"
proof -
  obtain ap s where s: "run_apply_simulation plant_run (demo_command 0 20 7 (ScheduleFacilityJob 1 7 6 1 40)) = Ok (ap, s)"
    and f: "facilities (simulation s) = ss_facilities demo_programme" and load: "facility_load (simulation s) 1 = 6"
    using plant_job by blast
  have "run_reachable s"
    by (rule run_reachable_step [OF plant_reachable run_step.simulation_command [OF s]])
  moreover obtain d where d: "bt_get (facilities (simulation s)) 1 = Some d" "fd_capacity d = 10"
    by (simp add: f demo_programme_def)
  ultimately show ?thesis
    using facility_never_overbooked [OF _ d(1)] load d(2) by (auto simp: facility_load_def booked_def)
qed

text \<open>Closed deals are final: however a run continues, a tender or a negotiation that has
  been accepted, declined, broken or has expired keeps every field it had.\<close>

theorem closed_deals_final:
  assumes "run_reachable s" and "run_step\<^sup>*\<^sup>* s s'"
  shows "(\<forall>i t. bt_get (tenders (simulation s)) i = Some t \<longrightarrow> t_status t \<noteq> ''open'' \<longrightarrow> bt_get (tenders (simulation s')) i = Some t) \<and>
    (\<forall>i n. bt_get (otc (simulation s)) i = Some n \<longrightarrow> o_status n \<noteq> ''proposed'' \<longrightarrow> o_status n \<noteq> ''countered'' \<longrightarrow>
      bt_get (otc (simulation s')) i = Some n)"
  using closings.run_steps_rel [OF assms(2) run_reachable_inv [OF assms(1)]]
  by (simp add: deals_final_def tender_open_def otc_open_def)

theorem closed_deals_final_witness:
  "\<exists>s s' t. run_reachable s \<and> run_step s s' \<and> t_status t = ''declined'' \<and> bt_get (tenders (simulation s)) 4 = Some t \<and>
     bt_get (tenders (simulation s')) 4 = Some t"
proof -
  obtain ap1 s1 ap2 s2 ap3 s3 t where s1: "run_apply_simulation plant_run (demo_command 0 20 1 (OpenTender 4 7 10 Buy 2 45 90)) = Ok (ap1, s1)"
    and s2: "run_apply_simulation s1 (demo_command 1 30 7 (DecideTender 4 TenderDecline)) = Ok (ap2, s2)"
    and t: "bt_get (tenders (simulation s2)) 4 = Some t" "t_status t = ''declined''"
    and s3: "run_apply s2 (demo_command 2 55 7 ResetKillSwitch) = Ok (ap3, s3)"
    using plant_tender by blast
  have r: "run_reachable s2"
    by (rule run_reachable_step [OF run_reachable_step [OF plant_reachable run_step.simulation_command [OF s1]]
        run_step.simulation_command [OF s2]])
  have st: "run_step s2 s3"
    by (rule run_step.order_command [OF s3]) (simp add: demo_command_def payload_fits_def)
  show ?thesis
    using closed_deals_final [OF r r_into_rtranclp [of run_step, OF st]] r st t by fastforce
qed

text \<open>C35. Scheduled actions are worked off exactly: an order command that commits has applied
  precisely the actions due by its time, no earlier and no later one; they are recorded as
  applied, and what is left of the schedule is in time order and still ahead.\<close>

theorem schedule_worked_off:
  assumes "run_reachable s" and "run_apply s cmd = Ok (ap, s')" and "payload_fits (c_payload cmd)"
  shows "scheduled_actions (simulation s') = filter (\<lambda>a. c_logical_time cmd < effective_at a) (scheduled_actions (simulation s)) \<and>
    set (applied_actions (simulation s')) = set (applied_actions (simulation s)) \<union>
      action_id ` {a \<in> set (scheduled_actions (simulation s)). effective_at a \<le> c_logical_time cmd} \<and>
    sorted (map effective_at (scheduled_actions (simulation s')))"
proof -
  obtain s1 s2 s3 :: run_state and ps where a: "caught_up (c_logical_time cmd) False s s1"
    and b: "deals (simulation s2) = deals (simulation s1)"
    and c: "deals (simulation s3) = deals (simulation (s2\<lparr>kill_switched := kill_after cmd (kill_switched s2)\<rparr>))"
    and s': "s' = s3\<lparr>run_sequence := run_sequence s + 1, run_event_sequence :=
      (if events ap = [] then run_event_sequence s3 else ev_sequence (last (events ap)))\<rparr>"
    by (rule idle.run_apply_rel [OF assms(2) _ assms(3)]) (use run_reachable_inv [OF assms(1)] in auto)
  obtain evs ctx where "simulation_catch_up (simulation s) (context_of s) (c_logical_time cmd) False = Ok (evs, ctx, simulation s1)"
    using a by (auto simp: caught_up_def)
  note cs = catch_up_schedule(1,2) [OF this run_reachable_simulation(1) [OF assms(1)]]
  have d: "scheduled_actions (simulation s') = scheduled_actions (simulation s1)" "applied_actions (simulation s') = applied_actions (simulation s1)"
    using b c by (simp_all add: deals_def s')
  have "sorted (map effective_at (scheduled_actions (simulation s)))"
    using run_reachable_simulation(1) [OF assms(1)]
    by (auto simp: schedule_ok_def sorted_map action_key_def elim!: sorted_wrt_mono_rel [rotated])
  then show ?thesis
    using cs by (simp add: d sorted_filter)
qed

theorem schedule_worked_off_witness:
  "\<exists>ap s. run_apply plant_run (demo_command 0 55 7 ResetKillSwitch) = Ok (ap, s) \<and> set (applied_actions (simulation s)) = {1} \<and>
     balance (ledger_cash (run_ledger s) 7 1) = 5300"
proof -
  obtain ap s where s: "run_apply plant_run (demo_command 0 55 7 ResetKillSwitch) = Ok (ap, s)"
    and b: "balance (ledger_cash (run_ledger s) 7 1) = 5300"
    using plant_reset by blast
  have "payload_fits (c_payload (demo_command 0 55 7 ResetKillSwitch))"
    by (simp add: demo_command_def payload_fits_def)
  then have "set (applied_actions (simulation s)) = set (applied_actions (simulation plant_run)) \<union>
      action_id ` {a \<in> set (scheduled_actions (simulation plant_run)). effective_at a \<le> 55}"
    using schedule_worked_off [OF plant_reachable s] by (simp add: demo_command_def)
  also have "\<dots> = {1}"
    by (simp only: set_filter [symmetric] list.set_map [symmetric])
      (simp add: plant_run_def demo_programme_def demo_simulation_def default_simulation_state_def)
  finally show ?thesis
    using s b by blast
qed



end
