(* ===== verification/Fix_Session.thy ===== *)
theory Fix_Session
  imports Fix_Wire BTree
begin

text \<open>
  The FIX session of \<open>src/packages/simfix-session/src/lib.rs\<close>: sequence numbers in both
  directions, the bounded resend journal with replacement keys, gap detection with the
  queue of early messages, heartbeats, the logon and logout handshakes, and the replay of
  journalled messages.

  A method that takes \<open>&mut self\<close> is a \<open>session_call\<close>: it returns the \<open>Result\<close> together
  with the session it leaves behind, because the source changes fields before it may
  return an error. The host clock, its timestamp text and the loaded dictionary are
  arguments. The traits \<open>SessionClock\<close>, \<open>MessageStore\<close> and \<open>SessionTransport\<close> of the file
  have no implementation or use there.
\<close>

subsection \<open>State\<close>

record session_config =
  sender_comp_id :: string
  target_comp_id :: string
  heartbeat_seconds :: nat
  max_journal_messages :: nat
  max_pending_inbound :: nat
  wire_limits :: wire_limits
  logon_fields :: "field list"

datatype connection_state = Disconnected | Connecting | AwaitingLogon | Established | LogoutPending

record journal_entry =
  entry_sequence :: nat
  entry_frame :: bytes
  replacement_key :: "string option"

record session_snapshot =
  snapshot_version :: nat
  incoming_sequence :: nat
  outgoing_sequence :: nat
  reconnect_generation :: nat
  connection :: connection_state
  journal :: "(nat, journal_entry) btree_map"
  pending_resend_begin :: "nat option"
  pending_inbound :: "(nat, fix_message) btree_map"
  last_received_millis :: nat
  last_sent_millis :: nat
  outstanding_test_request :: "string option"

datatype session_action =
    Send bytes
  | PeerLogon fix_message
  | Application fix_message
  | Persist
  | Disconnect
  | TestResponse string

datatype session_error =
    Wire wire_error | InvalidConfig | MissingSequence | InvalidSequence | InvalidCompId
  | InvalidApplicationVersion | InvalidSnapshot | InvalidReplacementKey | PendingInboundFull
  | NotEstablished | SessionArithmeticOverflow

record fix_session =
  session_config :: session_config
  session_snapshot :: session_snapshot
  session_decoder :: decoder

subsection \<open>Calls on a session\<close>

type_synonym 'a session_call = "fix_session \<Rightarrow> ('a, session_error) result \<times> fix_session"

text \<open>\<open>call_then f k\<close> is \<open>let x = f(self)?; k(x)\<close>.\<close>

definition call_then :: "'a session_call \<Rightarrow> ('a \<Rightarrow> 'b session_call) \<Rightarrow> 'b session_call" where
  "call_then f k s = (case f s of (Inl e, s') \<Rightarrow> (Err e, s') | (Inr x, s') \<Rightarrow> k x s')"

definition call_return :: "'a \<Rightarrow> 'a session_call" where
  "call_return x s = (Ok x, s)"

definition call_result :: "('a, session_error) result \<Rightarrow> 'a session_call" where
  "call_result r s = (r, s)"

definition call_update :: "(session_snapshot \<Rightarrow> session_snapshot) \<Rightarrow> unit session_call" where
  "call_update f s = (Ok (), s\<lparr>session_snapshot := f (session_snapshot s)\<rparr>)"

subsection \<open>Construction\<close>

definition owned_logon_tag :: "nat \<Rightarrow> bool" where
  "owned_logon_tag tag \<longleftrightarrow> tag \<in> {8, 9, 10, 34, 35, 49, 52, 56, 98, 108, 1137}"

fun adjacent_equal :: "nat list \<Rightarrow> bool" where
  "adjacent_equal (x # y # zs) \<longleftrightarrow> x = y \<or> adjacent_equal (y # zs)"
| "adjacent_equal _ \<longleftrightarrow> False"

definition validate_config :: "session_config \<Rightarrow> (unit, session_error) result" where
  "validate_config config =
     (if sender_comp_id config = [] \<or> target_comp_id config = []
         \<or> length (sender_comp_id config) > max_field_bytes (wire_limits config)
         \<or> length (target_comp_id config) > max_field_bytes (wire_limits config)
         \<or> heartbeat_seconds config = 0 \<or> max_journal_messages config = 0
         \<or> max_pending_inbound config = 0 \<or> length (logon_fields config) > 16
         \<or> (\<exists>f\<in>set (logon_fields config). owned_logon_tag (field_tag f)
              \<or> length (field_value f) > max_field_bytes (wire_limits config))
      then Err InvalidConfig
      else if adjacent_equal (sort (map field_tag (logon_fields config))) then Err InvalidConfig
      else Ok ())"

definition initial_snapshot :: session_snapshot where
  "initial_snapshot =
     \<lparr>snapshot_version = 2, incoming_sequence = 1, outgoing_sequence = 1, reconnect_generation = 0,
      connection = Disconnected, journal = [], pending_resend_begin = None, pending_inbound = [],
      last_received_millis = 0, last_sent_millis = 0, outstanding_test_request = None\<rparr>"

type_synonym loaded = "(competition_dictionary, wire_error) result"

definition session_try_new :: "loaded \<Rightarrow> session_config \<Rightarrow> (fix_session, session_error) result" where
  "session_try_new dict config =
     attempt (validate_config config) (\<lambda>_.
     attempt (map_err Wire (decoder_try_new dict (wire_limits config))) (\<lambda>dec.
     Ok \<lparr>session_config = config, session_snapshot = initial_snapshot, session_decoder = dec\<rparr>))"

definition restore :: "loaded \<Rightarrow> session_config \<Rightarrow> session_snapshot \<Rightarrow> (fix_session, session_error) result" where
  "restore dict config snap =
     attempt (validate_config config) (\<lambda>_.
     if snapshot_version snap \<noteq> 2
        \<or> length (journal snap) > max_journal_messages config
        \<or> (\<exists>(sequence, entry)\<in>set (journal snap).
             entry_sequence entry \<noteq> sequence
             \<or> (case replacement_key entry of None \<Rightarrow> False
                | Some key \<Rightarrow> key = [] \<or> length key > max_field_bytes (wire_limits config)))
        \<or> length (pending_inbound snap) > max_pending_inbound config
        \<or> incoming_sequence snap = 0 \<or> outgoing_sequence snap = 0
     then Err InvalidSnapshot
     else
       attempt (map_err Wire (decoder_try_new dict (wire_limits config))) (\<lambda>dec.
       Ok \<lparr>session_config = config, session_snapshot = snap, session_decoder = dec\<rparr>))"

subsection \<open>Sending\<close>

definition session_header_tag :: "nat \<Rightarrow> bool" where
  "session_header_tag tag \<longleftrightarrow> tag \<in> {49, 56, 34, 43, 52, 122}"

text \<open>The fields \<open>encode_at\<close> writes after those of the message.\<close>

definition stamped :: "session_config \<Rightarrow> fix_message \<Rightarrow> nat \<Rightarrow> string \<Rightarrow> string option \<Rightarrow> fix_message" where
  "stamped config m sequence timestamp original =
     (let m1 = m\<lparr>message_fields := filter (\<lambda>f. \<not> session_header_tag (field_tag f)) (message_fields m)\<rparr>;
          m2 = push_field 34 (show_u128 sequence)
                 (push_field 56 (target_comp_id config) (push_field 49 (sender_comp_id config) m1));
          m3 = (case original of None \<Rightarrow> m2 | Some t \<Rightarrow> push_field 122 t (push_field 43 ''Y'' m2))
      in push_field 52 timestamp m3)"

definition encode_at ::
  "session_config \<Rightarrow> fix_message \<Rightarrow> nat \<Rightarrow> string \<Rightarrow> string option \<Rightarrow> (bytes, session_error) result" where
  "encode_at config m sequence timestamp original =
     map_err Wire (encode (stamped config m sequence timestamp original) (wire_limits config))"

text \<open>The eviction loop: the oldest entry goes while the journal is full.\<close>

function evict :: "nat \<Rightarrow> (nat, journal_entry) btree_map \<Rightarrow> (nat, journal_entry) btree_map" where
  "evict bound j =
     (if length j \<ge> bound then
        (case bt_first j of None \<Rightarrow> j | Some (oldest, _) \<Rightarrow> evict bound (bt_remove oldest j))
      else j)"
  by pat_completeness auto

lemma bt_remove_first_shorter: "bt_first j = Some (k, v) \<Longrightarrow> length (bt_remove k j) < length j"
  by (auto simp: bt_first_def bt_remove_def le_imp_less_Suc split: list.splits)

termination evict
  by (relation "measure (\<lambda>(bound, j). length j)") (auto dest: bt_remove_first_shorter)

declare evict.simps [simp del]

definition journal_store ::
  "session_config \<Rightarrow> nat \<Rightarrow> bytes \<Rightarrow> string option \<Rightarrow> (nat, journal_entry) btree_map
   \<Rightarrow> (nat, journal_entry) btree_map" where
  "journal_store config sequence frame key j =
     (let kept = (case key of None \<Rightarrow> j
                  | Some k \<Rightarrow> filter (\<lambda>(_, entry). replacement_key entry \<noteq> Some k) j)
      in bt_insert sequence \<lparr>entry_sequence = sequence, entry_frame = frame, replacement_key = key\<rparr>
           (evict (max_journal_messages config) kept))"

definition send_new ::
  "fix_message \<Rightarrow> string \<Rightarrow> nat \<Rightarrow> bool \<Rightarrow> string option \<Rightarrow> session_action list session_call" where
  "send_new m timestamp now_millis journalled key s =
     (let snap = session_snapshot s; sequence = outgoing_sequence snap in
      (call_then (call_result (ok_or SessionArithmeticOverflow (checked_u64 (sequence + 1)))) (\<lambda>next_sequence.
       call_then (call_result (encode_at (session_config s) m sequence timestamp None)) (\<lambda>frame.
       call_then (call_update (\<lambda>sn. sn\<lparr>
         journal := (if journalled then journal_store (session_config s) sequence frame key (journal sn)
                     else journal sn),
         outgoing_sequence := next_sequence,
         last_sent_millis := now_millis\<rparr>)) (\<lambda>_.
       call_return [Send frame, Persist])))) s)"

definition connected_at :: "loaded \<Rightarrow> string \<Rightarrow> nat \<Rightarrow> session_action list session_call" where
  "connected_at dict timestamp now_millis s =
     (call_then (call_result (ok_or SessionArithmeticOverflow
         (checked_u64 (reconnect_generation (session_snapshot s) + 1)))) (\<lambda>generation.
      call_then (call_update (\<lambda>sn. sn\<lparr>reconnect_generation := generation, connection := AwaitingLogon,
         last_received_millis := now_millis, last_sent_millis := now_millis\<rparr>)) (\<lambda>_.
      call_then (call_result (map_err Wire (decoder_try_new dict (wire_limits (session_config s))))) (\<lambda>dec.
      call_then (\<lambda>t. (Ok (), t\<lparr>session_decoder := dec\<rparr>)) (\<lambda>_.
      let logon = push_field 1137 FIX_50_SP2_APPL_VER_ID
            (push_field 108 (show_u128 (heartbeat_seconds (session_config s)))
            (push_field 98 ''0'' (fix_message_new ''A'')));
          logon = fold (\<lambda>f. push_field (field_tag f) (field_value f)) (logon_fields (session_config s)) logon
      in send_new logon timestamp now_millis True None)))) s)"

definition connected :: "loaded \<Rightarrow> string \<Rightarrow> session_action list session_call" where
  "connected dict timestamp s =
     connected_at dict timestamp (last_received_millis (session_snapshot s)) s"

definition is_established :: "fix_session \<Rightarrow> bool" where
  "is_established s \<longleftrightarrow> connection (session_snapshot s) = Established"

definition send_application :: "fix_message \<Rightarrow> string \<Rightarrow> session_action list session_call" where
  "send_application m timestamp s =
     (if \<not> is_established s then (Err NotEstablished, s)
      else send_new m timestamp (last_sent_millis (session_snapshot s)) True None s)"

definition send_replaceable_application ::
  "fix_message \<Rightarrow> string \<Rightarrow> string \<Rightarrow> session_action list session_call" where
  "send_replaceable_application m timestamp key s =
     (if \<not> is_established s then (Err NotEstablished, s)
      else if key = [] \<or> length key > max_field_bytes (wire_limits (session_config s))
      then (Err InvalidReplacementKey, s)
      else send_new m timestamp (last_sent_millis (session_snapshot s)) True (Some key) s)"

definition request_logout :: "string \<Rightarrow> string option \<Rightarrow> session_action list session_call" where
  "request_logout timestamp reason s =
     (if \<not> is_established s then (Err NotEstablished, s)
      else
        (call_then (call_update (\<lambda>sn. sn\<lparr>connection := LogoutPending\<rparr>)) (\<lambda>_.
         send_new (case reason of None \<Rightarrow> fix_message_new ''5''
                   | Some r \<Rightarrow> push_field 58 r (fix_message_new ''5''))
           timestamp (last_sent_millis (session_snapshot s)) True None)) s)"

definition probe :: "string \<Rightarrow> string \<Rightarrow> nat \<Rightarrow> session_action list session_call" where
  "probe probe_id timestamp now_millis s =
     (if \<not> is_established s then (Err NotEstablished, s)
      else if probe_id = [] then (Err InvalidConfig, s)
      else send_new (push_field 112 probe_id (fix_message_new ''1'')) timestamp now_millis True None s)"

text \<open>
  \<open>saturating_sub\<close> on naturals is truncated subtraction. The product \<open>interval * 2\<close> of the
  source is unchecked; with \<open>heartbeat_seconds\<close> of type \<open>u32\<close> it is below \<open>2 ^ 64\<close>.
\<close>

definition poll :: "nat \<Rightarrow> string \<Rightarrow> session_action list session_call" where
  "poll now_millis timestamp s =
     (let snap = session_snapshot s in
      if \<not> is_established s then (Ok [], s)
      else
        (call_then (call_result (ok_or SessionArithmeticOverflow
           (checked_u64 (heartbeat_seconds (session_config s) * 1000)))) (\<lambda>interval.
         if outstanding_test_request snap \<noteq> None \<and> now_millis - last_received_millis snap \<ge> interval * 2
         then call_then (call_update (\<lambda>sn. sn\<lparr>connection := Disconnected\<rparr>)) (\<lambda>_.
              call_return [Persist, Disconnect])
         else if now_millis - last_received_millis snap \<ge> interval \<and> outstanding_test_request snap = None
         then
           let test_id = ''test-'' @ show_u128 now_millis in
           call_then (call_update (\<lambda>sn. sn\<lparr>outstanding_test_request := Some test_id\<rparr>)) (\<lambda>_.
           send_new (push_field 112 test_id (fix_message_new ''1'')) timestamp now_millis True None)
         else if now_millis - last_sent_millis snap \<ge> interval
         then send_new (fix_message_new ''0'') timestamp now_millis True None
         else call_return [])) s)"

subsection \<open>Replay of journalled messages\<close>

definition parse_tag :: "fix_message \<Rightarrow> nat \<Rightarrow> nat option" where
  "parse_tag m tag = Option.bind (message_value m tag) (parse_uint 64)"

definition decode_one :: "loaded \<Rightarrow> bytes \<Rightarrow> wire_limits \<Rightarrow> (fix_message, session_error) result" where
  "decode_one dict frame limits =
     attempt (map_err Wire (decoder_try_new dict limits)) (\<lambda>dec.
     attempt (map_err Wire (fst (decoder_push dec frame))) (\<lambda>messages.
     case messages of [] \<Rightarrow> Err InvalidSequence | m # _ \<Rightarrow> Ok m))"

text \<open>\<open>journal.range(sequence..=end).next()\<close>.\<close>

definition range_first :: "nat \<Rightarrow> nat \<Rightarrow> (nat, journal_entry) btree_map \<Rightarrow> nat option" where
  "range_first lo hi j = map_option fst (bt_first (filter (\<lambda>(k, _). lo \<le> k \<and> k \<le> hi) j))"

definition gap_fill_message :: "nat \<Rightarrow> fix_message" where
  "gap_fill_message new_sequence =
     push_field 36 (show_u128 new_sequence) (push_field 123 ''Y'' (fix_message_new ''4''))"

text \<open>
  One journalled message, stamped again as a possible duplicate under its own sequence
  number and with its first sending time.
\<close>

definition replay_entry ::
  "loaded \<Rightarrow> session_config \<Rightarrow> string \<Rightarrow> nat \<Rightarrow> journal_entry \<Rightarrow> (bytes, session_error) result" where
  "replay_entry dict config timestamp sequence entry =
     attempt (decode_one dict (entry_frame entry) (wire_limits config)) (\<lambda>original.
     let original_time = (case message_value original 52 of None \<Rightarrow> timestamp | Some t \<Rightarrow> t) in
     encode_at config original sequence timestamp (Some original_time))"

text \<open>
  The replay loop from \<open>sequence\<close> to \<open>final\<close>, with the actions so far. \<open>final\<close> is below the
  next outgoing sequence number, a \<open>u64\<close>, so the \<open>saturating_add(1)\<close> of the source is the
  plain successor. A message of the journal is followed by the next number; a gap is
  filled up to the next journalled message, or past \<open>final\<close> where there is none.
\<close>

lemma range_first_gap: "bt_get j lo = None \<Longrightarrow> range_first lo hi j = Some k \<Longrightarrow> lo < k \<and> k \<le> hi"
  by (induction j) (auto simp: range_first_def bt_first_def split: if_splits)

function replay_loop ::
  "loaded \<Rightarrow> session_config \<Rightarrow> (nat, journal_entry) btree_map \<Rightarrow> string \<Rightarrow> nat \<Rightarrow> nat
   \<Rightarrow> session_action list \<Rightarrow> (session_action list, session_error) result" where
  "replay_loop dict config j timestamp final sequence actions =
     (if sequence \<le> final then
        (case bt_get j sequence of
           Some entry \<Rightarrow>
             attempt (replay_entry dict config timestamp sequence entry) (\<lambda>frame.
             attempt (ok_or SessionArithmeticOverflow (checked_u64 (sequence + 1))) (\<lambda>next_sequence.
             replay_loop dict config j timestamp final next_sequence (actions @ [Send frame])))
         | None \<Rightarrow>
             let next_sequence = (case range_first sequence final j of None \<Rightarrow> final + 1 | Some k \<Rightarrow> k) in
             attempt (encode_at config (gap_fill_message next_sequence) sequence timestamp (Some timestamp)) (\<lambda>frame.
             replay_loop dict config j timestamp final next_sequence (actions @ [Send frame])))
      else Ok actions)"
  by pat_completeness auto

termination replay_loop
  by (relation "measure (\<lambda>(dict, config, j, timestamp, final, sequence, actions). final + 1 - sequence)")
     (auto simp: result_simps split: option.splits dest: range_first_gap)

declare replay_loop.simps [simp del]

definition replay_requested :: "loaded \<Rightarrow> fix_message \<Rightarrow> string \<Rightarrow> nat \<Rightarrow> session_action list session_call" where
  "replay_requested dict request timestamp now_millis s =
     (call_then (call_result (ok_or MissingSequence (parse_tag request 7))) (\<lambda>first.
      call_then (call_result (ok_or MissingSequence (parse_tag request 16))) (\<lambda>requested_end.
      let last_sent = outgoing_sequence (session_snapshot s) - 1;
          final = (if requested_end = 0 then last_sent else min requested_end last_sent) in
      if first = 0 \<or> first > final + 1 then call_result (Err InvalidSequence)
      else
        call_then (call_result (replay_loop dict (session_config s) (journal (session_snapshot s))
            timestamp final first [])) (\<lambda>actions.
        call_then (call_update (\<lambda>sn. sn\<lparr>last_sent_millis := now_millis\<rparr>)) (\<lambda>_.
        call_return (actions @ [Persist]))))) s)"

subsection \<open>Receiving\<close>

text \<open>The \<open>match\<close> on the message type of \<open>process_in_sequence\<close>; \<open>expected\<close> is the incoming number by then.\<close>

definition handle_message ::
  "loaded \<Rightarrow> fix_message \<Rightarrow> string \<Rightarrow> nat \<Rightarrow> nat \<Rightarrow> session_action list session_call" where
  "handle_message dict m timestamp now_millis expected =
     (if msg_type m = ''A'' then
        (if message_value m 1137 \<noteq> Some FIX_50_SP2_APPL_VER_ID
         then call_result (Err InvalidApplicationVersion)
         else call_then (call_update (\<lambda>sn. sn\<lparr>connection := Established\<rparr>)) (\<lambda>_.
              call_return [PeerLogon m]))
      else if msg_type m = ''0'' then
        call_then (call_update (\<lambda>sn.
            if outstanding_test_request sn = message_value m 112
            then sn\<lparr>outstanding_test_request := None\<rparr> else sn)) (\<lambda>_.
        call_return (case message_value m 112 of None \<Rightarrow> [] | Some test_id \<Rightarrow> [TestResponse test_id]))
      else if msg_type m = ''1'' then
        send_new (case message_value m 112 of None \<Rightarrow> fix_message_new ''0''
                  | Some test_id \<Rightarrow> push_field 112 test_id (fix_message_new ''0''))
          timestamp now_millis True None
      else if msg_type m = ''2'' then replay_requested dict m timestamp now_millis
      else if msg_type m = ''4'' then
        call_then (call_result (ok_or MissingSequence (parse_tag m 36))) (\<lambda>new_sequence.
        if new_sequence < expected then call_result (Err InvalidSequence)
        else call_then (call_update (\<lambda>sn. sn\<lparr>incoming_sequence := new_sequence\<rparr>)) (\<lambda>_.
             call_return []))
      else if msg_type m = ''5'' then
        call_then (call_update (\<lambda>sn. sn\<lparr>connection := Disconnected\<rparr>)) (\<lambda>_.
        call_then (send_new (push_field 58 ''logout acknowledged'' (fix_message_new ''5''))
            timestamp now_millis False None) (\<lambda>out.
        call_return (out @ [Disconnect])))
      else call_return [Application m])"

definition process_in_sequence ::
  "loaded \<Rightarrow> fix_message \<Rightarrow> string \<Rightarrow> nat \<Rightarrow> session_action list session_call" where
  "process_in_sequence dict m timestamp now_millis s =
     (call_then (call_result (ok_or SessionArithmeticOverflow
         (checked_u64 (incoming_sequence (session_snapshot s) + 1)))) (\<lambda>next_sequence.
      call_then (call_update (\<lambda>sn. sn\<lparr>incoming_sequence := next_sequence,
         last_received_millis := now_millis\<rparr>)) (\<lambda>_.
      handle_message dict m timestamp now_millis next_sequence)) s)"

lemma call_then_simps [simp]:
  "call_then (call_result (Inl e)) k s = (Err e, s)"
  "call_then (call_result (Inr x)) k s = k x s"
  "call_then (call_update f) g s = g () (s\<lparr>session_snapshot := f (session_snapshot s)\<rparr>)"
  "call_then (call_return x) k s = k x s"
  by (simp_all add: call_then_def call_result_def call_update_def call_return_def)

lemma call_values [simp]:
  "call_result r s = (r, s)" "call_return x s = (Ok x, s)"
  by (simp_all add: call_result_def call_return_def)

text \<open>No operation of an in-sequence message touches the queue of early ones.\<close>

lemma call_then_keeps:
  assumes "\<And>s. g (snd (f s)) = g s" and "\<And>x s. g (snd (k x s)) = g s"
  shows "g (snd (call_then f k s)) = g s"
  using assms(1) [of s] assms(2) by (auto simp: call_then_def split: prod.splits sum.splits)

lemmas pending_then = call_then_keeps [where g = "\<lambda>s. pending_inbound (session_snapshot s)"]

lemma call_update_pending [simp]:
  "pending_inbound (session_snapshot (snd (call_update f s))) = pending_inbound (f (session_snapshot s))"
  by (simp add: call_update_def)

lemma send_new_pending [simp]:
  "pending_inbound (session_snapshot (snd (send_new m t now j key s))) = pending_inbound (session_snapshot s)"
  unfolding send_new_def Let_def by (intro pending_then) simp_all

lemma replay_requested_pending [simp]:
  "pending_inbound (session_snapshot (snd (replay_requested dict m t now s))) = pending_inbound (session_snapshot s)"
  unfolding replay_requested_def Let_def by (intro pending_then) (auto intro!: pending_then)

lemma process_in_sequence_pending [simp]:
  "pending_inbound (session_snapshot (snd (process_in_sequence dict m t now s)))
     = pending_inbound (session_snapshot s)"
  unfolding process_in_sequence_def handle_message_def
  by (intro pending_then) (auto simp del: call_then_simps intro!: pending_then)

text \<open>The loop of \<open>receive\<close> over queued messages whose turn has come.\<close>

function drain_pending ::
  "loaded \<Rightarrow> string \<Rightarrow> nat \<Rightarrow> session_action list \<Rightarrow> session_action list session_call" where
  "drain_pending dict timestamp now_millis actions s =
     (let snap = session_snapshot s in
      case bt_get (pending_inbound snap) (incoming_sequence snap) of
        None \<Rightarrow> (Ok actions, s)
      | Some queued \<Rightarrow>
          (case process_in_sequence dict queued timestamp now_millis
              (s\<lparr>session_snapshot := snap\<lparr>pending_inbound :=
                   bt_remove (incoming_sequence snap) (pending_inbound snap)\<rparr>\<rparr>) of
             (Inl e, s') \<Rightarrow> (Err e, s')
           | (Inr extra, s') \<Rightarrow> drain_pending dict timestamp now_millis (actions @ extra) s'))"
  by pat_completeness auto

lemma bt_remove_present_shorter: "bt_get m k = Some v \<Longrightarrow> length (bt_remove k m) < length m"
proof (induction m)
  case (Cons e m)
  then show ?case
    by (auto simp: bt_remove_def le_imp_less_Suc split: if_splits)
qed simp

lemma drain_pending_shrinks:
  assumes "(r, s') = process_in_sequence dict queued timestamp now_millis
      (s\<lparr>session_snapshot := session_snapshot s\<lparr>pending_inbound := bt_remove n (pending_inbound (session_snapshot s))\<rparr>\<rparr>)"
    and "bt_get (pending_inbound (session_snapshot s)) n = Some queued"
  shows "length (pending_inbound (session_snapshot s')) < length (pending_inbound (session_snapshot s))"
proof -
  have "pending_inbound (session_snapshot s') = bt_remove n (pending_inbound (session_snapshot s))"
    using arg_cong [OF assms(1), of "\<lambda>r. pending_inbound (session_snapshot (snd r))"] by simp
  then show ?thesis
    using bt_remove_present_shorter [OF assms(2)] by simp
qed

termination drain_pending
  by (relation "measure (\<lambda>(dict, timestamp, now_millis, actions, s). length (pending_inbound (session_snapshot s)))")
     (auto intro: drain_pending_shrinks)

declare drain_pending.simps [simp del]

text \<open>
  A message ahead of its turn is queued, and the missing ones are requested once. A resend
  request is answered at once; its queued copy is a heartbeat that only takes its number.
\<close>

definition answer_early ::
  "loaded \<Rightarrow> fix_message \<Rightarrow> string \<Rightarrow> nat \<Rightarrow> (session_action list \<times> fix_message) session_call" where
  "answer_early dict m timestamp now_millis =
     (if msg_type m = ''2'' then
        call_then (replay_requested dict m timestamp now_millis) (\<lambda>actions.
        call_return (actions, fix_message_new ''0''))
      else call_return ([], m))"

definition enqueue_inbound :: "nat \<Rightarrow> fix_message \<Rightarrow> unit session_call" where
  "enqueue_inbound sequence queued =
     call_update (\<lambda>sn. sn\<lparr>pending_inbound :=
       (case bt_get (pending_inbound sn) sequence of
          None \<Rightarrow> bt_insert sequence queued (pending_inbound sn)
        | Some _ \<Rightarrow> pending_inbound sn)\<rparr>)"

definition request_resend :: "session_action list \<Rightarrow> string \<Rightarrow> nat \<Rightarrow> session_action list session_call" where
  "request_resend actions timestamp now_millis s =
     (let snap = session_snapshot s in
      if pending_resend_begin snap \<noteq> None then (Ok (actions @ [Persist]), s)
      else
        (call_then (call_update (\<lambda>sn. sn\<lparr>pending_resend_begin := Some (incoming_sequence snap)\<rparr>)) (\<lambda>_.
         call_then (send_new (push_field 16 ''0''
             (push_field 7 (show_u128 (incoming_sequence snap)) (fix_message_new ''2'')))
             timestamp now_millis True None) (\<lambda>extra.
         call_return (actions @ extra)))) s)"

definition receive_early :: "loaded \<Rightarrow> fix_message \<Rightarrow> nat \<Rightarrow> string \<Rightarrow> nat \<Rightarrow> session_action list session_call" where
  "receive_early dict m sequence timestamp now_millis s =
     (if length (pending_inbound (session_snapshot s)) \<ge> max_pending_inbound (session_config s)
      then (Err PendingInboundFull, s)
      else
        (call_then (answer_early dict m timestamp now_millis) (\<lambda>(actions, queued).
         call_then (enqueue_inbound sequence queued) (\<lambda>_.
         request_resend actions timestamp now_millis)) s))"

text \<open>A message whose turn it is, then the queued ones it makes due.\<close>

definition receive_due :: "loaded \<Rightarrow> fix_message \<Rightarrow> string \<Rightarrow> nat \<Rightarrow> session_action list session_call" where
  "receive_due dict m timestamp now_millis =
     call_then (process_in_sequence dict m timestamp now_millis) (\<lambda>first.
     call_then (drain_pending dict timestamp now_millis first) (\<lambda>actions.
     call_then (call_update (\<lambda>sn. if pending_inbound sn = []
         then sn\<lparr>pending_resend_begin := None\<rparr> else sn)) (\<lambda>_.
     call_return (actions @ [Persist]))))"

definition receive :: "loaded \<Rightarrow> fix_message \<Rightarrow> string \<Rightarrow> nat \<Rightarrow> session_action list session_call" where
  "receive dict m timestamp now_millis s =
     (if message_value m 49 \<noteq> Some (target_comp_id (session_config s))
         \<or> message_value m 56 \<noteq> Some (sender_comp_id (session_config s))
      then (Err InvalidCompId, s)
      else
        (case parse_tag m 34 of
           None \<Rightarrow> (Err MissingSequence, s)
         | Some sequence \<Rightarrow>
             if sequence > incoming_sequence (session_snapshot s)
             then receive_early dict m sequence timestamp now_millis s
             else if sequence < incoming_sequence (session_snapshot s) then
               (if message_value m 43 = Some ''Y'' \<and> message_value m 122 \<noteq> None then (Ok [], s)
                else (Err InvalidSequence, s))
             else receive_due dict m timestamp now_millis s))"

text \<open>The messages of one socket read, in order, until one of them fails.\<close>

fun receive_all ::
  "loaded \<Rightarrow> string \<Rightarrow> nat \<Rightarrow> fix_message list \<Rightarrow> session_action list \<Rightarrow> session_action list session_call" where
  "receive_all dict timestamp now_millis [] actions s = (Ok actions, s)"
| "receive_all dict timestamp now_millis (m # ms) actions s =
     (case receive dict m timestamp now_millis s of
        (Inl e, s') \<Rightarrow> (Err e, s')
      | (Inr extra, s') \<Rightarrow> receive_all dict timestamp now_millis ms (actions @ extra) s')"

definition receive_bytes_at :: "loaded \<Rightarrow> bytes \<Rightarrow> string \<Rightarrow> nat \<Rightarrow> session_action list session_call" where
  "receive_bytes_at dict bs timestamp now_millis s =
     (case decoder_push (session_decoder s) bs of
        (Inl e, dec) \<Rightarrow> (Err (Wire e), s\<lparr>session_decoder := dec\<rparr>)
      | (Inr messages, dec) \<Rightarrow>
          receive_all dict timestamp now_millis messages [] (s\<lparr>session_decoder := dec\<rparr>))"

definition receive_bytes :: "loaded \<Rightarrow> bytes \<Rightarrow> string \<Rightarrow> session_action list session_call" where
  "receive_bytes dict bs timestamp s =
     receive_bytes_at dict bs timestamp (last_received_millis (session_snapshot s)) s"

end
