(* ===== verification/Fix_Session_Laws.thy ===== *)
theory Fix_Session_Laws
  imports Fix_Session Fix_Wire_Laws
begin

text \<open>
  Laws of the FIX session (theory \<open>Fix_Session\<close>). Every method changes the session only by
  the writes of \<open>session_write\<close>; \<open>session_calls\<close> states that once, and an invariant or a
  relation between the states before and after any run of calls then needs one case per
  write.
\<close>

subsection \<open>The writes of a session\<close>

definition key_ok :: "session_config \<Rightarrow> string option \<Rightarrow> bool" where
  "key_ok config key \<longleftrightarrow> (\<forall>k. key = Some k \<longrightarrow> k \<noteq> [] \<and> length k \<le> max_field_bytes (wire_limits config))"

lemma key_ok_None [simp]: "key_ok config None"
  by (simp add: key_ok_def)

definition same_core :: "session_snapshot \<Rightarrow> session_snapshot \<Rightarrow> bool" where
  "same_core a b \<longleftrightarrow>
     snapshot_version a = snapshot_version b \<and> incoming_sequence a = incoming_sequence b
     \<and> outgoing_sequence a = outgoing_sequence b \<and> journal a = journal b
     \<and> pending_resend_begin a = pending_resend_begin b \<and> pending_inbound a = pending_inbound b"

inductive session_write :: "fix_session \<Rightarrow> fix_session \<Rightarrow> bool" where
  w_decoder: "session_write s (s\<lparr>session_decoder := dec\<rparr>)"
| w_status: "same_core (session_snapshot s) snap \<Longrightarrow> session_write s (s\<lparr>session_snapshot := snap\<rparr>)"
| w_resend: "session_write s (s\<lparr>session_snapshot := (session_snapshot s)\<lparr>pending_resend_begin := Some n\<rparr>\<rparr>)"
| w_resend_done: "pending_inbound (session_snapshot s) = [] \<Longrightarrow>
    session_write s (s\<lparr>session_snapshot := (session_snapshot s)\<lparr>pending_resend_begin := None\<rparr>\<rparr>)"
| w_advance: "incoming_sequence (session_snapshot s) \<le> n \<Longrightarrow> n < 2 ^ 64 \<Longrightarrow>
    session_write s (s\<lparr>session_snapshot := (session_snapshot s)\<lparr>incoming_sequence := n\<rparr>\<rparr>)"
| w_sent: "outgoing_sequence (session_snapshot s) + 1 < 2 ^ 64 \<Longrightarrow>
    session_write s (s\<lparr>session_snapshot := (session_snapshot s)\<lparr>
      outgoing_sequence := outgoing_sequence (session_snapshot s) + 1\<rparr>\<rparr>)"
| w_journalled: "outgoing_sequence (session_snapshot s) + 1 < 2 ^ 64 \<Longrightarrow>
    key_ok (session_config s) key \<Longrightarrow>
    session_write s (s\<lparr>session_snapshot := (session_snapshot s)\<lparr>
      outgoing_sequence := outgoing_sequence (session_snapshot s) + 1,
      journal := journal_store (session_config s) (outgoing_sequence (session_snapshot s)) frame key
        (journal (session_snapshot s))\<rparr>\<rparr>)"
| w_queue: "incoming_sequence (session_snapshot s) < n \<Longrightarrow>
    length (pending_inbound (session_snapshot s)) < max_pending_inbound (session_config s) \<Longrightarrow>
    bt_get (pending_inbound (session_snapshot s)) n = None \<Longrightarrow>
    session_write s (s\<lparr>session_snapshot := (session_snapshot s)\<lparr>
      pending_inbound := bt_insert n m (pending_inbound (session_snapshot s))\<rparr>\<rparr>)"
| w_unqueue: "n = incoming_sequence (session_snapshot s) \<Longrightarrow>
    session_write s (s\<lparr>session_snapshot := (session_snapshot s)\<lparr>
      pending_inbound := bt_remove n (pending_inbound (session_snapshot s))\<rparr>\<rparr>)"

abbreviation session_writes :: "fix_session \<Rightarrow> fix_session \<Rightarrow> bool" where
  "session_writes \<equiv> session_write\<^sup>*\<^sup>*"

text \<open>\<open>writes f\<close>: the call changes the session by writes only, whatever it returns.\<close>

definition writes :: "'a session_call \<Rightarrow> bool" where
  "writes f \<longleftrightarrow> (\<forall>s. session_writes s (snd (f s)))"

lemma writes_then: "writes f \<Longrightarrow> (\<And>x. writes (k x)) \<Longrightarrow> writes (call_then f k)"
  unfolding writes_def call_then_def
  by (auto split: prod.splits sum.splits) (metis rtranclp_trans snd_conv)+

lemma writes_result: "writes (call_result r)" "writes (call_return x)"
  by (simp_all add: writes_def)

lemma writes_update:
  "(\<And>s. session_writes s (s\<lparr>session_snapshot := f (session_snapshot s)\<rparr>)) \<Longrightarrow> writes (call_update f)"
  by (simp add: writes_def call_update_def)

lemma writes_status: "(\<And>sn. same_core sn (f sn)) \<Longrightarrow> writes (call_update f)"
  by (auto intro!: writes_update r_into_rtranclp session_write.w_status)

lemma send_new_writes:
  assumes "key_ok (session_config s) key"
  shows "session_writes s (snd (send_new m t now journalled key s))"
proof -
  let ?snap = "session_snapshot s"
  let ?n = "outgoing_sequence ?snap"
  show ?thesis
  proof (cases "?n + 1 < 2 ^ 64 \<and> (\<exists>frame. encode_at (session_config s) m ?n t None = Ok frame)")
    case True
    then obtain frame where frame: "encode_at (session_config s) m ?n t None = Ok frame" and n: "?n + 1 < 2 ^ 64"
      by blast
    let ?s1 = "if journalled then s\<lparr>session_snapshot := ?snap\<lparr>outgoing_sequence := ?n + 1,
        journal := journal_store (session_config s) ?n frame key (journal ?snap)\<rparr>\<rparr>
      else s\<lparr>session_snapshot := ?snap\<lparr>outgoing_sequence := ?n + 1\<rparr>\<rparr>"
    have "session_write s ?s1"
      using session_write.w_sent [OF n] session_write.w_journalled [OF n assms] by simp
    moreover have "session_write ?s1 (?s1\<lparr>session_snapshot := (session_snapshot ?s1)\<lparr>last_sent_millis := now\<rparr>\<rparr>)"
      by (rule session_write.w_status) (simp add: same_core_def)
    moreover have "snd (send_new m t now journalled key s)
        = ?s1\<lparr>session_snapshot := (session_snapshot ?s1)\<lparr>last_sent_millis := now\<rparr>\<rparr>"
      using n frame by (simp add: send_new_def Let_def checked_u64_def)
    ultimately show ?thesis
      by simp
  next
    case False
    then have "snd (send_new m t now journalled key s) = s"
      by (cases "checked_u64 (?n + 1)"; cases "encode_at (session_config s) m ?n t None")
         (auto simp: send_new_def Let_def checked_u64_def split: if_splits)
    then show ?thesis
      by simp
  qed
qed

lemma writes_send_new [simp]: "writes (send_new m t now journalled None)"
  by (simp add: writes_def send_new_writes)

lemma writes_if: "(b \<Longrightarrow> writes f) \<Longrightarrow> (\<not> b \<Longrightarrow> writes g) \<Longrightarrow> writes (if b then f else g)"
  by simp

lemma writes_let: "writes (f x) \<Longrightarrow> writes (let y = x in f y)"
  by simp

lemma writesI: "(\<And>s. session_writes s (snd (f s))) \<Longrightarrow> writes f"
  by (simp add: writes_def)

lemma writes_app: "writes f \<Longrightarrow> session_writes s (snd (f s))"
  by (simp add: writes_def)

lemma writes_raise: "session_writes s (snd (r, s))"
  by simp

lemmas writes_intros = writes_result writes_then writes_if writes_let writes_status

lemma writes_replay_requested [simp]: "writes (replay_requested dict m t now)"
proof (rule writesI)
  fix s
  show "session_writes s (snd (replay_requested dict m t now s))"
    unfolding replay_requested_def
    by (rule writes_app, intro writes_intros) (simp_all add: same_core_def)
qed

lemma handle_message_writes:
  assumes "incoming_sequence (session_snapshot s) = expected"
  shows "session_writes s (snd (handle_message dict m t now expected s))"
proof (cases "msg_type m = ''4''")
  case False
  show ?thesis
    unfolding handle_message_def
    by (rule writes_app, intro writes_intros) (use False in \<open>simp_all add: same_core_def\<close>)
next
  case True
  show ?thesis
  proof (cases "parse_tag m 36")
    case (Some n)
    then have "n < 2 ^ 64"
      by (auto simp: parse_tag_def parse_uint_def split: option.splits if_splits bind_splits)
    then show ?thesis
      using True Some assms session_write.w_advance [of s n] by (auto simp: handle_message_def)
  qed (use True in \<open>simp add: handle_message_def\<close>)
qed

lemma process_writes: "session_writes s (snd (process_in_sequence dict m t now s))"
proof (cases "incoming_sequence (session_snapshot s) + 1 < 2 ^ 64")
  case True
  let ?snap = "session_snapshot s"
  let ?n = "incoming_sequence ?snap + 1"
  let ?s1 = "s\<lparr>session_snapshot := ?snap\<lparr>incoming_sequence := ?n\<rparr>\<rparr>"
  let ?s2 = "s\<lparr>session_snapshot := ?snap\<lparr>incoming_sequence := ?n, last_received_millis := now\<rparr>\<rparr>"
  have "session_write s ?s1"
    by (rule session_write.w_advance) (use True in simp_all)
  moreover have "session_write ?s1 ?s2"
    using session_write.w_status [of ?s1 "session_snapshot ?s2"] by (simp add: same_core_def)
  moreover have "session_writes ?s2 (snd (handle_message dict m t now ?n ?s2))"
    by (rule handle_message_writes) simp
  moreover have "process_in_sequence dict m t now s = handle_message dict m t now ?n ?s2"
    using True by (simp add: process_in_sequence_def checked_u64_def)
  ultimately show ?thesis
    by (metis converse_rtranclp_into_rtranclp)
qed (simp add: process_in_sequence_def checked_u64_def)

lemma writes_process: "writes (process_in_sequence dict m t now)"
  by (simp add: writes_def process_writes)

lemma drain_pending_writes: "session_writes s (snd (drain_pending dict t now actions s))"
proof (induction dict t now actions s rule: drain_pending.induct)
  case (1 dict t now actions s)
  let ?snap = "session_snapshot s"
  let ?n = "incoming_sequence ?snap"
  let ?s1 = "s\<lparr>session_snapshot := ?snap\<lparr>pending_inbound := bt_remove ?n (pending_inbound ?snap)\<rparr>\<rparr>"
  show ?case
  proof (cases "bt_get (pending_inbound ?snap) ?n")
    case (Some queued)
    obtain r s' where r: "process_in_sequence dict queued t now ?s1 = (r, s')"
      by fastforce
    have "session_write s ?s1"
      by (rule session_write.w_unqueue) simp
    also have "session_writes ?s1 s'"
      using process_writes [of ?s1 dict queued t now] r by simp
    finally have s': "session_writes s s'" .
    show ?thesis
    proof (cases r)
      case (Inr extra)
      then have "session_writes s' (snd (drain_pending dict t now (actions @ extra) s'))"
        using "1.IH" [OF refl Some r [symmetric] Inr] by simp
      with s' show ?thesis
        using Some r Inr by (subst drain_pending.simps) (simp add: Let_def)
    qed (use Some r s' in \<open>subst drain_pending.simps, simp add: Let_def\<close>)
  qed (subst drain_pending.simps, simp)
qed

lemma replay_requested_state:
  obtains (kept) "snd (replay_requested dict m t now s) = s"
  | (sent) "snd (replay_requested dict m t now s)
      = s\<lparr>session_snapshot := (session_snapshot s)\<lparr>last_sent_millis := now\<rparr>\<rparr>"
proof -
  have "snd (replay_requested dict m t now s) = s
      \<or> snd (replay_requested dict m t now s) = s\<lparr>session_snapshot := (session_snapshot s)\<lparr>last_sent_millis := now\<rparr>\<rparr>"
    by (cases "parse_tag m 7"; cases "parse_tag m 16")
       (auto simp: replay_requested_def Let_def call_then_def call_update_def split: sum.splits)
  then show thesis
    using that by blast
qed

lemma enqueue_writes:
  assumes "incoming_sequence (session_snapshot s) < n"
    and "length (pending_inbound (session_snapshot s)) < max_pending_inbound (session_config s)"
  shows "session_writes s (snd (enqueue_inbound n m s))"
  using session_write.w_queue [OF assms, of m]
  by (cases "bt_get (pending_inbound (session_snapshot s)) n") (auto simp: enqueue_inbound_def call_update_def)

lemma writes_resend_begin: "writes (call_update (\<lambda>sn. sn\<lparr>pending_resend_begin := Some n\<rparr>))"
  by (auto intro!: writes_update r_into_rtranclp session_write.w_resend)

lemma writes_resend_done:
  "writes (call_update (\<lambda>sn. if pending_inbound sn = [] then sn\<lparr>pending_resend_begin := None\<rparr> else sn))"
  by (rule writes_update) (auto intro: session_write.w_resend_done)

lemma writes_request_resend: "writes (request_resend actions t now)"
proof (rule writesI)
  fix s
  have "writes (call_then (call_update (\<lambda>sn. sn\<lparr>pending_resend_begin := Some n\<rparr>)) (\<lambda>_.
     call_then (send_new m t now True None) (\<lambda>extra. call_return (actions @ extra))))" for n m
    by (intro writes_then writes_result writes_resend_begin) simp
  from writes_app [OF this] show "session_writes s (snd (request_resend actions t now s))"
    by (simp add: request_resend_def Let_def)
qed

text \<open>Answering a resend request early leaves everything but the time of sending.\<close>

lemma answer_early_snd:
  "snd (answer_early dict m t now s) = (if msg_type m = ''2'' then snd (replay_requested dict m t now s) else s)"
  by (simp add: answer_early_def call_then_def split: prod.splits sum.splits)

lemma answer_early_core:
  "session_config (snd (answer_early dict m t now s)) = session_config s"
  "same_core (session_snapshot s) (session_snapshot (snd (answer_early dict m t now s)))"
proof -
  show "session_config (snd (answer_early dict m t now s)) = session_config s"
    by (rule replay_requested_state [of dict m t now s]) (simp_all add: answer_early_snd)
  show "same_core (session_snapshot s) (session_snapshot (snd (answer_early dict m t now s)))"
    by (rule replay_requested_state [of dict m t now s]) (simp_all add: answer_early_snd same_core_def)
qed

lemma writes_answer_early: "writes (answer_early dict m t now)"
  unfolding answer_early_def by (intro writes_intros) simp_all

lemma receive_early_writes:
  assumes "incoming_sequence (session_snapshot s) < n"
  shows "session_writes s (snd (receive_early dict m n t now s))"
proof (cases "length (pending_inbound (session_snapshot s)) < max_pending_inbound (session_config s)")
  case True
  obtain r s1 where r: "answer_early dict m t now s = (r, s1)"
    by fastforce
  have s1: "session_writes s s1"
    using writes_app [OF writes_answer_early [of dict m t now], of s] r by simp
  show ?thesis
  proof (cases r)
    case (Inr x)
    obtain actions queued where x: "x = (actions, queued)"
      by fastforce
    obtain s2 where s2: "enqueue_inbound n queued s1 = (Ok (), s2)"
      by (simp add: enqueue_inbound_def call_update_def)
    have "session_writes s1 (snd (enqueue_inbound n queued s1))"
      using answer_early_core [where dict = dict and m = m and t = t and now = now and s = s] r assms True
      by (intro enqueue_writes) (auto simp: same_core_def)
    also have "session_writes (snd (enqueue_inbound n queued s1)) (snd (request_resend actions t now s2))"
      using writes_app [OF writes_request_resend] s2 by simp
    finally have "session_writes s1 (snd (request_resend actions t now s2))" .
    with s1 have "session_writes s (snd (request_resend actions t now s2))"
      by simp
    then show ?thesis
      using True r Inr x s2 by (simp add: receive_early_def call_then_def)
  qed (use True r s1 in \<open>simp add: receive_early_def call_then_def\<close>)
qed (simp add: receive_early_def)

lemma writes_receive_due: "writes (receive_due dict m t now)"
  unfolding receive_due_def
  by (intro writes_then writes_result writes_resend_done writes_process)
     (simp add: writes_def drain_pending_writes)

lemma receive_writes: "session_writes s (snd (receive dict m t now s))"
  using receive_early_writes writes_app [OF writes_receive_due]
  by (auto simp: receive_def split: option.splits)

lemma receive_all_writes: "session_writes s (snd (receive_all dict t now ms actions s))"
proof (induction ms arbitrary: actions s)
  case (Cons m ms)
  have first: "session_writes s (snd (receive dict m t now s))"
    by (rule receive_writes)
  then show ?case
    using Cons.IH by (auto split: prod.splits sum.splits) (metis rtranclp_trans)
qed simp

lemma receive_bytes_at_writes: "session_writes s (snd (receive_bytes_at dict bs t now s))"
proof -
  obtain r dec where r: "decoder_push (session_decoder s) bs = (r, dec)"
    by fastforce
  have "session_write s (s\<lparr>session_decoder := dec\<rparr>)"
    by (rule session_write.w_decoder)
  also have "session_writes (s\<lparr>session_decoder := dec\<rparr>) (snd (receive_bytes_at dict bs t now s))"
    by (cases r) (simp_all add: receive_bytes_at_def r receive_all_writes)
  finally show ?thesis .
qed

subsection \<open>Runs of a session\<close>

text \<open>What the host may call on a session.\<close>

datatype session_op =
    OpConnected string nat
  | OpReceive bytes string nat
  | OpSend fix_message string
  | OpSendReplaceable fix_message string string
  | OpLogout string "string option"
  | OpProbe string string nat
  | OpPoll nat string

fun session_run_op :: "loaded \<Rightarrow> session_op \<Rightarrow> session_action list session_call" where
  "session_run_op dict (OpConnected t now) = connected_at dict t now"
| "session_run_op dict (OpReceive bs t now) = receive_bytes_at dict bs t now"
| "session_run_op dict (OpSend m t) = send_application m t"
| "session_run_op dict (OpSendReplaceable m t key) = send_replaceable_application m t key"
| "session_run_op dict (OpLogout t reason) = request_logout t reason"
| "session_run_op dict (OpProbe i t now) = probe i t now"
| "session_run_op dict (OpPoll now t) = poll now t"

lemma writes_decoder: "writes (\<lambda>t. (Ok (), t\<lparr>session_decoder := dec\<rparr>))"
  by (auto simp: writes_def intro: session_write.w_decoder)

lemma session_run_op_writes: "session_writes s (snd (session_run_op dict op s))"
proof (cases op)
  case (OpConnected t now)
  show ?thesis
    unfolding OpConnected session_run_op.simps connected_at_def
    by (rule writes_app, intro writes_intros writes_decoder) (simp_all add: same_core_def)
next
  case (OpSendReplaceable m t key)
  then show ?thesis
    by (simp add: send_replaceable_application_def send_new_writes key_ok_def)
next
  case (OpLogout t reason)
  have "writes (call_then (call_update (\<lambda>sn. sn\<lparr>connection := LogoutPending\<rparr>)) (\<lambda>_. send_new m t now True None))" for m now
    by (intro writes_intros) (simp_all add: same_core_def)
  from writes_app [OF this] show ?thesis
    by (simp add: OpLogout request_logout_def)
next
  case (OpPoll now t)
  show ?thesis
    unfolding OpPoll session_run_op.simps poll_def Let_def
    by (split if_split, intro conjI impI writes_raise)
       (rule writes_app, intro writes_intros, simp_all add: same_core_def)
qed (simp_all add: send_application_def probe_def receive_bytes_at_writes send_new_writes)

text \<open>A session and every session the host can bring it to.\<close>

inductive session_reach :: "loaded \<Rightarrow> fix_session \<Rightarrow> fix_session \<Rightarrow> bool" for dict where
  reach_start: "session_reach dict s s"
| reach_op: "session_reach dict s s' \<Longrightarrow> session_reach dict s (snd (session_run_op dict op s'))"

lemma session_reach_writes: "session_reach dict s s' \<Longrightarrow> session_writes s s'"
  by (induction rule: session_reach.induct) (auto intro: rtranclp_trans session_run_op_writes)

text \<open>A property that no write breaks holds in every session reached.\<close>

lemma session_reach_keeps:
  assumes "session_reach dict s s'" and "P s" and "\<And>a b. session_write a b \<Longrightarrow> P a \<Longrightarrow> P b"
  shows "P s'"
  using session_reach_writes [OF assms(1)] assms(2,3) by (induction rule: rtranclp_induct) auto

definition journal_ok :: "session_config \<Rightarrow> nat \<Rightarrow> (nat, journal_entry) btree_map \<Rightarrow> bool" where
  "journal_ok config outgoing j \<longleftrightarrow>
     bt_wf j \<and> length j \<le> max_journal_messages config
     \<and> (\<forall>(k, e)\<in>set j. k < outgoing \<and> entry_sequence e = k \<and> key_ok config (replacement_key e))"

definition session_ok :: "fix_session \<Rightarrow> bool" where
  "session_ok s \<longleftrightarrow>
     (let snap = session_snapshot s; config = session_config s in
      snapshot_version snap = 2
      \<and> 0 < incoming_sequence snap \<and> incoming_sequence snap < 2 ^ 64
      \<and> 0 < outgoing_sequence snap \<and> outgoing_sequence snap < 2 ^ 64
      \<and> journal_ok config (outgoing_sequence snap) (journal snap)
      \<and> bt_wf (pending_inbound snap) \<and> length (pending_inbound snap) \<le> max_pending_inbound config
      \<and> validate_config config = Ok ())"

lemma evict_props:
  assumes "bt_wf j"
  shows "bt_wf (evict bound j)" and "set (evict bound j) \<subseteq> set j"
    and "0 < bound \<Longrightarrow> length (evict bound j) < bound"
proof -
  have "bt_wf (evict bound j) \<and> set (evict bound j) \<subseteq> set j \<and> (0 < bound \<longrightarrow> length (evict bound j) < bound)"
    using assms
  proof (induction bound j rule: evict.induct)
    case (1 bound j)
    show ?case
    proof (cases "length j \<ge> bound")
      case full: True
      show ?thesis
      proof (cases "bt_first j")
        case None
        then show ?thesis
          using full by (simp add: evict.simps [of 0 "[]"] bt_first_def [of "[]"])
      next
        case (Some e)
        then obtain k v where e: "bt_first j = Some (k, v)"
          by (cases e) auto
        have "set (bt_remove k j) \<subseteq> set j"
          by (auto simp: bt_remove_def)
        with "1.IH" [OF full e refl] "1.prems" have
          "bt_wf (evict bound (bt_remove k j)) \<and> set (evict bound (bt_remove k j)) \<subseteq> set j
           \<and> (0 < bound \<longrightarrow> length (evict bound (bt_remove k j)) < bound)"
          by auto
        then show ?thesis
          using full e by (subst (1 2 3) evict.simps) simp
      qed
    next
      case False
      then show ?thesis
        using "1.prems" by (subst (1 2 3) evict.simps) auto
    qed
  qed
  then show "bt_wf (evict bound j)" and "set (evict bound j) \<subseteq> set j"
    and "0 < bound \<Longrightarrow> length (evict bound j) < bound"
    by simp_all
qed

lemma bt_wf_filter: "bt_wf m \<Longrightarrow> bt_wf (filter P m)"
  by (simp add: bt_wf_def sorted_wrt_map sorted_wrt_filter)

lemma journal_store_ok:
  assumes "journal_ok config n j" and "0 < max_journal_messages config" and "key_ok config key"
  shows "journal_ok config (n + 1) (journal_store config n frame key j)"
proof -
  define kept where "kept = (case key of None \<Rightarrow> j | Some k \<Rightarrow> filter (\<lambda>(_, e). replacement_key e \<noteq> Some k) j)"
  have kept: "bt_wf kept" "set kept \<subseteq> set j"
    using assms(1) by (auto simp: kept_def journal_ok_def bt_wf_filter split: option.splits)
  let ?j = "evict (max_journal_messages config) kept"
  let ?e = "\<lparr>entry_sequence = n, entry_frame = frame, replacement_key = key\<rparr>"
  have j: "bt_wf ?j" "set ?j \<subseteq> set j" "length ?j < max_journal_messages config"
    using evict_props [OF kept(1), of "max_journal_messages config"] kept(2) assms(2) by auto
  have "\<forall>(k, e)\<in>set (bt_insert n ?e ?j). k < n + 1 \<and> entry_sequence e = k \<and> key_ok config (replacement_key e)"
    using set_bt_insert [of n ?e ?j] j(2) assms(1,3) by (fastforce simp: journal_ok_def)
  moreover have "length (bt_insert n ?e ?j) \<le> max_journal_messages config"
    using j(3) by (simp add: bt_length_insert [OF j(1)])
  ultimately show ?thesis
    using j(1) by (simp add: journal_ok_def journal_store_def kept_def [symmetric])
qed

lemma validate_config_bounds:
  "validate_config config = Ok () \<Longrightarrow> 0 < max_journal_messages config \<and> 0 < max_pending_inbound config"
  by (auto simp: validate_config_def split: if_splits)

lemma session_write_ok:
  assumes "session_write s s'" and "session_ok s"
  shows "session_ok s'"
  using assms
proof cases
  case (w_journalled key frame)
  then show ?thesis
    using assms(2) journal_store_ok [of "session_config s" _ _ key frame] validate_config_bounds
    by (simp add: session_ok_def Let_def)
next
  case (w_queue n m)
  then show ?thesis
    using assms(2) by (simp add: session_ok_def Let_def bt_length_insert)
next
  case (w_unqueue n)
  then show ?thesis
    using assms(2) bt_length_remove [of "pending_inbound (session_snapshot s)" n]
    by (auto simp: session_ok_def Let_def split: if_splits)
next
  case w_sent
  then show ?thesis
    using assms(2) by (fastforce simp: session_ok_def Let_def journal_ok_def)
qed (auto simp: session_ok_def Let_def same_core_def)

lemma session_write_config: "session_write s s' \<Longrightarrow> session_config s' = session_config s"
  by (induction rule: session_write.induct) simp_all

lemma session_reach_ok: "session_reach dict s s' \<Longrightarrow> session_ok s \<Longrightarrow> session_ok s'"
  by (rule session_reach_keeps [where P = session_ok]) (auto intro: session_write_ok)

lemma session_reach_config: "session_reach dict s s' \<Longrightarrow> session_config s' = session_config s"
  by (rule session_reach_keeps [where P = "\<lambda>s'. session_config s' = session_config s"])
     (auto dest: session_write_config)

lemma try_new_ok: "session_try_new dict config = Ok s \<Longrightarrow> session_ok s \<and> session_config s = config"
  by (auto simp: session_try_new_def session_ok_def initial_snapshot_def journal_ok_def result_simps)

text \<open>
  Whatever the peer sends and the host calls, the session's counters stay positive
  64-bit numbers, its journal holds at most \<open>max_journal_messages\<close> messages, each filed
  under its own already used sequence number, and its queue at most
  \<open>max_pending_inbound\<close>; so the snapshot of any reachable session is accepted by
  \<open>restore\<close>, which gives the session back with an empty receive buffer
  (\<open>FixSession::restore\<close>, \<open>FixSession::snapshot\<close>).
\<close>

theorem restore_own_snapshot:
  assumes "session_try_new dict config = Ok s0" and "session_reach dict s0 s"
  shows "restore dict config (session_snapshot s) = Ok (s\<lparr>session_decoder := session_decoder s0\<rparr>)
    \<and> session_ok s"
proof -
  have ok: "session_ok s" and config: "session_config s = config"
    using try_new_ok [OF assms(1)] session_reach_ok [OF assms(2)] session_reach_config [OF assms(2)] by simp_all
  obtain dec where dec: "decoder_try_new dict (wire_limits config) = Ok dec" "session_decoder s0 = dec"
    using assms(1) by (auto simp: session_try_new_def result_simps)
  have valid: "validate_config config = Ok ()"
    using ok config by (simp add: session_ok_def Let_def)
  have entries: "\<not> (\<exists>(sequence, entry)\<in>set (journal (session_snapshot s)).
      entry_sequence entry \<noteq> sequence
      \<or> (case replacement_key entry of None \<Rightarrow> False
         | Some key \<Rightarrow> key = [] \<or> length key > max_field_bytes (wire_limits config)))"
    using ok config by (fastforce simp: session_ok_def Let_def journal_ok_def key_ok_def split: option.splits)
  show ?thesis
    using ok config dec valid entries unfolding restore_def
    by (simp add: session_ok_def Let_def journal_ok_def)
qed

subsection \<open>Delivery at most once and in order\<close>

fun application_of :: "session_action \<Rightarrow> fix_message option" where
  "application_of (Application m) = Some m"
| "application_of _ = None"

text \<open>The sequence numbers of the application messages among some actions.\<close>

definition delivered :: "session_action list \<Rightarrow> nat list" where
  "delivered actions = map (\<lambda>m. the (parse_tag m 34)) (List.map_filter application_of actions)"

lemma delivered_simps [simp]:
  "delivered [] = []"
  "delivered (a # b) = (case a of Application m \<Rightarrow> the (parse_tag m 34) # delivered b | _ \<Rightarrow> delivered b)"
  "delivered (a1 @ b1) = delivered a1 @ delivered b1"
  by (auto simp: delivered_def map_filter_def split: session_action.splits)

text \<open>
  \<open>in_order lo actions hi\<close>: the application messages among the actions carry strictly
  rising numbers from \<open>lo\<close> on and below \<open>hi\<close>.
\<close>

definition in_order :: "nat \<Rightarrow> session_action list \<Rightarrow> nat \<Rightarrow> bool" where
  "in_order lo actions hi \<longleftrightarrow>
     sorted_wrt (<) (delivered actions) \<and> (\<forall>n\<in>set (delivered actions). lo \<le> n \<and> n < hi)"

lemma in_order_append:
  "in_order a xs b \<Longrightarrow> in_order b ys c \<Longrightarrow> a \<le> b \<Longrightarrow> b \<le> c \<Longrightarrow> in_order a (xs @ ys) c"
  by (fastforce simp: in_order_def sorted_wrt_append)

lemma in_order_none: "delivered actions = [] \<Longrightarrow> in_order a actions b"
  by (simp add: in_order_def)

abbreviation incoming :: "fix_session \<Rightarrow> nat" where
  "incoming s \<equiv> incoming_sequence (session_snapshot s)"

lemma session_write_incoming: "session_write s s' \<Longrightarrow> incoming s \<le> incoming s'"
  by (induction rule: session_write.induct) (simp_all add: same_core_def)

lemma session_writes_incoming: "session_writes s s' \<Longrightarrow> incoming s \<le> incoming s'"
  by (induction rule: rtranclp_induct) (auto dest: session_write_incoming)

lemma send_new_delivers: "send_new m t now j key s = (Ok actions, s') \<Longrightarrow> delivered actions = []"
  by (cases "checked_u64 (outgoing_sequence (session_snapshot s) + 1)";
      cases "encode_at (session_config s) m (outgoing_sequence (session_snapshot s)) t None")
     (auto simp: send_new_def Let_def)

definition next_journalled :: "(nat, journal_entry) btree_map \<Rightarrow> nat \<Rightarrow> nat \<Rightarrow> nat" where
  "next_journalled j n hi = (case range_first n hi j of None \<Rightarrow> hi + 1 | Some k \<Rightarrow> k)"

lemma replay_loop_gap:
  "n \<le> hi \<Longrightarrow> bt_get j n = None \<Longrightarrow> replay_loop dict config j t hi n actions =
     attempt (encode_at config (gap_fill_message (next_journalled j n hi)) n t (Some t)) (\<lambda>frame.
     replay_loop dict config j t hi (next_journalled j n hi) (actions @ [Send frame]))"
  by (simp add: replay_loop.simps [of dict config j t hi n actions] next_journalled_def Let_def)

lemma replay_loop_entry:
  "n \<le> hi \<Longrightarrow> bt_get j n = Some e \<Longrightarrow> replay_loop dict config j t hi n actions =
     attempt (replay_entry dict config t n e) (\<lambda>frame.
     attempt (ok_or SessionArithmeticOverflow (checked_u64 (n + 1))) (\<lambda>n'.
     replay_loop dict config j t hi n' (actions @ [Send frame])))"
  by (simp add: replay_loop.simps [of dict config j t hi n actions])

lemma replay_loop_end: "\<not> n \<le> hi \<Longrightarrow> replay_loop dict config j t hi n actions = Ok actions"
  by (simp add: replay_loop.simps [of dict config j t hi n actions])

lemma next_journalled_above: "bt_get j n = None \<Longrightarrow> n \<le> hi \<Longrightarrow> n < next_journalled j n hi"
  by (auto simp: next_journalled_def dest: range_first_gap split: option.splits)

lemma replay_loop_sends:
  "replay_loop dict config j t hi n actions = Ok actions' \<Longrightarrow> \<exists>frames. actions' = actions @ map Send frames"
proof (induction "hi + 1 - n" arbitrary: n actions rule: less_induct)
  case less
  show ?case
  proof (cases "n \<le> hi")
    case True
    obtain frame n' where "n < n'" "replay_loop dict config j t hi n' (actions @ [Send frame]) = Ok actions'"
      using less.prems next_journalled_above [of j n hi] True
      by (cases "bt_get j n") (auto simp: replay_loop_gap replay_loop_entry result_simps)
    moreover from this True have "hi + 1 - n' < hi + 1 - n"
      by simp
    ultimately obtain frames where "actions' = (actions @ [Send frame]) @ map Send frames"
      using less.hyps by blast
    then show ?thesis
      by (intro exI [of _ "frame # frames"]) simp
  qed (use less.prems in \<open>simp add: replay_loop_end\<close>)
qed

lemma delivered_sends [simp]: "delivered (map Send frames) = []"
  by (induction frames) simp_all

lemma replay_requested_delivers: "replay_requested dict m t now s = (Ok actions, s') \<Longrightarrow> delivered actions = []"
  by (cases "parse_tag m 7"; cases "parse_tag m 16")
     (auto simp: replay_requested_def Let_def call_then_def [of "call_result (replay_loop d c j t h n a)" for d c j t h n a]
       split: if_splits sum.splits dest!: replay_loop_sends)

text \<open>The message types the session handles itself.\<close>

definition session_type :: "string \<Rightarrow> bool" where
  "session_type type \<longleftrightarrow> type \<in> {''A'', ''0'', ''1'', ''2'', ''4'', ''5''}"

lemma handle_message_delivers:
  assumes "handle_message dict m t now expected s = (Ok actions, s')"
  shows "delivered actions = (if session_type (msg_type m) then [] else [the (parse_tag m 34)])"
proof (cases "session_type (msg_type m)")
  case False
  then show ?thesis
    using assms by (simp add: handle_message_def session_type_def) auto
next
  case True
  consider "msg_type m = ''A''" | "msg_type m = ''0''" | "msg_type m = ''1''" | "msg_type m = ''2''"
    | "msg_type m = ''4''" | "msg_type m = ''5''"
    using True by (auto simp: session_type_def)
  then have "delivered actions = []"
  proof cases
    case 3
    then show ?thesis
      using assms by (auto simp: handle_message_def dest: send_new_delivers)
  next
    case 4
    then show ?thesis
      using assms by (auto simp: handle_message_def dest: replay_requested_delivers)
  next
    case 5
    then show ?thesis
      using assms by (cases "parse_tag m 36") (auto simp: handle_message_def split: if_splits)
  next
    case 6
    then show ?thesis
      using assms
      by (auto simp: handle_message_def call_then_def [of "send_new a b c d e" for a b c d e]
          split: prod.splits sum.splits dest!: send_new_delivers)
  qed (use assms in \<open>auto simp: handle_message_def split: if_splits option.splits\<close>)
  with True show ?thesis
    by simp
qed

lemma process_in_sequence_Ok:
  assumes "process_in_sequence dict m t now s = (Ok actions, s')"
  shows "delivered actions = (if session_type (msg_type m) then [] else [the (parse_tag m 34)])"
    and "incoming s < incoming s'"
proof -
  let ?n = "incoming s + 1"
  let ?s1 = "s\<lparr>session_snapshot := (session_snapshot s)\<lparr>incoming_sequence := ?n, last_received_millis := now\<rparr>\<rparr>"
  have h: "handle_message dict m t now ?n ?s1 = (Ok actions, s')"
    using assms by (cases "?n < 2 ^ 64") (simp_all add: process_in_sequence_def checked_u64_def)
  then show "delivered actions = (if session_type (msg_type m) then [] else [the (parse_tag m 34)])"
    by (rule handle_message_delivers)
  have "session_writes ?s1 s'"
    using handle_message_writes [of ?s1 ?n dict m t now] h by simp
  from session_writes_incoming [OF this] show "incoming s < incoming s'"
    by simp
qed

text \<open>Every queued message waits under its own sequence number, or is of a session type.\<close>

definition queue_ok :: "fix_session \<Rightarrow> bool" where
  "queue_ok s \<longleftrightarrow> (\<forall>n m. bt_get (pending_inbound (session_snapshot s)) n = Some m \<longrightarrow>
     session_type (msg_type m) \<or> parse_tag m 34 = Some n)"

lemma process_in_order:
  assumes "process_in_sequence dict m t now s = (Ok actions, s')"
    and "session_type (msg_type m) \<or> parse_tag m 34 = Some (incoming s)"
  shows "in_order (incoming s) actions (incoming s')"
  using process_in_sequence_Ok [OF assms(1)] assms(2) by (auto simp: in_order_def)

lemma drain_pending_in_order:
  "drain_pending dict t now first s = (Ok actions, s') \<Longrightarrow> queue_ok s \<Longrightarrow>
   \<exists>rest. actions = first @ rest \<and> in_order (incoming s) rest (incoming s')"
proof (induction dict t now first s rule: drain_pending.induct)
  case (1 dict t now first s)
  let ?snap = "session_snapshot s"
  let ?s1 = "s\<lparr>session_snapshot := ?snap\<lparr>pending_inbound := bt_remove (incoming s) (pending_inbound ?snap)\<rparr>\<rparr>"
  show ?case
  proof (cases "bt_get (pending_inbound ?snap) (incoming s)")
    case None
    then show ?thesis
      using "1.prems"(1) by (subst (asm) drain_pending.simps) (simp add: in_order_none)
  next
    case (Some queued)
    obtain r s2 where r: "process_in_sequence dict queued t now ?s1 = (r, s2)"
      by fastforce
    obtain extra where extra: "r = Ok extra" and rest: "drain_pending dict t now (first @ extra) s2 = (Ok actions, s')"
      using "1.prems"(1) Some r by (subst (asm) drain_pending.simps) (auto simp: Let_def split: sum.splits)
    have "session_type (msg_type queued) \<or> parse_tag queued 34 = Some (incoming ?s1)"
      using "1.prems"(2) Some by (auto simp: queue_ok_def)
    then have one: "in_order (incoming s) extra (incoming s2)"
      using process_in_order [of dict queued t now ?s1 extra s2] r extra by simp
    have "pending_inbound (session_snapshot s2) = bt_remove (incoming s) (pending_inbound ?snap)"
      using process_in_sequence_pending [of dict queued t now ?s1] r by simp
    then have "queue_ok s2"
      using "1.prems"(2) by (auto simp: queue_ok_def split: if_splits)
    from "1.IH" [OF refl Some r [symmetric] extra rest this]
    obtain rest' where "actions = (first @ extra) @ rest'" "in_order (incoming s2) rest' (incoming s')"
      by blast
    moreover have "incoming s \<le> incoming s2" "incoming s2 \<le> incoming s'"
      using process_in_sequence_Ok(2) [of dict queued t now ?s1 extra s2] r extra
        session_writes_incoming [OF drain_pending_writes [of s2 dict t now "first @ extra"]] rest by simp_all
    ultimately show ?thesis
      using one in_order_append by (intro exI [of _ "extra @ rest'"]) auto
  qed
qed

lemma drain_pending_queue: "queue_ok s \<Longrightarrow> queue_ok (snd (drain_pending dict t now first s))"
proof (induction dict t now first s rule: drain_pending.induct)
  case (1 dict t now first s)
  let ?snap = "session_snapshot s"
  let ?s1 = "s\<lparr>session_snapshot := ?snap\<lparr>pending_inbound := bt_remove (incoming s) (pending_inbound ?snap)\<rparr>\<rparr>"
  show ?case
  proof (cases "bt_get (pending_inbound ?snap) (incoming s)")
    case None
    then show ?thesis
      using "1.prems" by (subst drain_pending.simps) simp
  next
    case (Some queued)
    obtain r s2 where r: "process_in_sequence dict queued t now ?s1 = (r, s2)"
      by fastforce
    have "pending_inbound (session_snapshot s2) = bt_remove (incoming s) (pending_inbound ?snap)"
      using process_in_sequence_pending [of dict queued t now ?s1] r by simp
    then have "queue_ok s2"
      using "1.prems" by (auto simp: queue_ok_def split: if_splits)
    then show ?thesis
      using "1.IH" [OF refl Some r [symmetric]] Some r
      by (subst drain_pending.simps) (auto simp: Let_def split: sum.splits)
  qed
qed

lemma call_then_Ok_iff:
  "call_then f k s = (Ok y, s') \<longleftrightarrow> (\<exists>x s1. f s = (Ok x, s1) \<and> k x s1 = (Ok y, s'))"
  by (auto simp: call_then_def split: prod.splits sum.splits)

lemma call_then_inv:
  assumes "P (snd (f s))" and "\<And>x s1. f s = (Ok x, s1) \<Longrightarrow> P (snd (k x s1))"
  shows "P (snd (call_then f k s))"
  using assms by (auto simp: call_then_def split: prod.splits sum.splits)

lemma request_resend_pending [simp]:
  "pending_inbound (session_snapshot (snd (request_resend actions t now s))) = pending_inbound (session_snapshot s)"
  unfolding request_resend_def Let_def by (auto simp del: call_then_simps intro!: pending_then)

lemma request_resend_delivers:
  assumes "request_resend actions t now s = (Ok actions', s')"
  shows "delivered actions' = delivered actions"
  using assms
  by (auto simp: request_resend_def Let_def call_then_def [of "send_new a b c d e" for a b c d e]
      split: if_splits prod.splits sum.splits dest!: send_new_delivers)

lemma answer_early_Ok:
  assumes "answer_early dict m t now s = (Ok (actions, queued), s')"
  shows "delivered actions = []" and "msg_type queued = ''0'' \<or> queued = m"
  using assms
  by (auto simp: answer_early_def call_then_def fix_message_new_def split: if_splits prod.splits sum.splits
      dest!: replay_requested_delivers)

lemma queue_ok_cong:
  "pending_inbound (session_snapshot s') = pending_inbound (session_snapshot s) \<Longrightarrow> queue_ok s \<Longrightarrow> queue_ok s'"
  by (simp add: queue_ok_def)

lemma enqueue_pending:
  "pending_inbound (session_snapshot (snd (enqueue_inbound n m s))) =
     (case bt_get (pending_inbound (session_snapshot s)) n of
        None \<Rightarrow> bt_insert n m (pending_inbound (session_snapshot s))
      | Some _ \<Rightarrow> pending_inbound (session_snapshot s))"
  by (simp add: enqueue_inbound_def)

lemma receive_early_queue:
  assumes "queue_ok s" and "parse_tag m 34 = Some n"
  shows "queue_ok (snd (receive_early dict m n t now s))"
proof (cases "length (pending_inbound (session_snapshot s)) < max_pending_inbound (session_config s)")
  case True
  obtain r s1 where r: "answer_early dict m t now s = (r, s1)"
    by fastforce
  have "same_core (session_snapshot s) (session_snapshot s1)"
    using answer_early_core(2) [where dict = dict and m = m and t = t and now = now and s = s] r by simp
  then have s1: "queue_ok s1"
    using assms(1) by (simp add: queue_ok_def same_core_def)
  show ?thesis
  proof (cases r)
    case (Inr x)
    obtain actions queued where x: "x = (actions, queued)"
      by fastforce
    obtain s2 where s2: "enqueue_inbound n queued s1 = (Ok (), s2)"
      by (simp add: enqueue_inbound_def call_update_def)
    have "session_type (msg_type queued) \<or> parse_tag queued 34 = Some n"
      using answer_early_Ok(2) [of dict m t now s actions queued s1] r Inr x assms(2) by (auto simp: session_type_def)
    then have "queue_ok s2"
      using s1 enqueue_pending [of n queued s1] s2 by (auto simp: queue_ok_def split: option.splits if_splits)
    then show ?thesis
      using True r Inr x s2 queue_ok_cong [OF request_resend_pending] by (simp add: receive_early_def call_then_def)
  qed (use True r s1 in \<open>simp add: receive_early_def call_then_def\<close>)
qed (simp add: receive_early_def assms(1))

lemma receive_early_delivers:
  assumes "receive_early dict m n t now s = (Ok actions, s')"
  shows "delivered actions = []"
proof -
  obtain acts queued s1 s2 where "answer_early dict m t now s = (Ok (acts, queued), s1)"
    and "request_resend acts t now s2 = (Ok actions, s')"
    using assms by (auto simp: receive_early_def call_then_def split: if_splits prod.splits sum.splits)
  then show ?thesis
    using answer_early_Ok(1) request_resend_delivers by metis
qed

lemma receive_due_Ok:
  assumes "receive_due dict m t now s = (Ok actions, s')" and "queue_ok s"
    and "parse_tag m 34 = Some (incoming s)"
  shows "in_order (incoming s) actions (incoming s')"
proof -
  obtain first s1 acts s2 where first: "process_in_sequence dict m t now s = (Ok first, s1)"
    and acts: "drain_pending dict t now first s1 = (Ok acts, s2)"
    and closing: "call_then (call_update (\<lambda>sn. if pending_inbound sn = [] then sn\<lparr>pending_resend_begin := None\<rparr> else sn))
      (\<lambda>_. call_return (acts @ [Persist])) s2 = (Ok actions, s')"
    using assms(1) unfolding receive_due_def call_then_Ok_iff by blast
  then have out: "actions = acts @ [Persist]" "incoming s' = incoming s2"
    by auto
  have "queue_ok s1"
    using process_in_sequence_pending [of dict m t now s] first assms(2) by (auto intro: queue_ok_cong)
  from drain_pending_in_order [OF acts this] obtain rest where
    rest: "acts = first @ rest" "in_order (incoming s1) rest (incoming s2)"
    by blast
  have "in_order (incoming s) first (incoming s1)"
    by (rule process_in_order [OF first]) (simp add: assms(3))
  moreover have "incoming s \<le> incoming s1" "incoming s1 \<le> incoming s2"
    using process_in_sequence_Ok(2) [OF first] session_writes_incoming [OF drain_pending_writes [of s1 dict t now first]] acts
    by simp_all
  ultimately have "in_order (incoming s) (first @ rest) (incoming s2)"
    using in_order_append [OF _ rest(2)] by simp
  then show ?thesis
    by (simp add: in_order_def out rest(1))
qed

lemma receive_due_queue:
  assumes "queue_ok s"
  shows "queue_ok (snd (receive_due dict m t now s))"
proof -
  have first: "queue_ok (snd (process_in_sequence dict m t now s))"
    using assms by (rule queue_ok_cong [rotated]) simp
  have drained: "queue_ok s1 \<Longrightarrow> queue_ok (snd (call_then (drain_pending dict t now acts) (\<lambda>actions.
      call_then (call_update (\<lambda>sn. if pending_inbound sn = [] then sn\<lparr>pending_resend_begin := None\<rparr> else sn)) (\<lambda>_.
      call_return (actions @ [Persist]))) s1))" for acts s1
    using drain_pending_queue [of s1 dict t now acts]
    by (intro call_then_inv [where P = queue_ok]) (auto simp: queue_ok_def call_update_def split: if_splits)
  show ?thesis
    unfolding receive_due_def
    by (rule call_then_inv [where P = queue_ok]) (use first drained in auto)
qed

lemma receive_in_order:
  assumes "receive dict m t now s = (Ok actions, s')" and "queue_ok s"
  shows "in_order (incoming s) actions (incoming s')"
proof -
  obtain n where n: "parse_tag m 34 = Some n"
    using assms(1) by (auto simp: receive_def split: if_splits option.splits)
  consider "n > incoming s" | "n < incoming s" | "n = incoming s"
    by linarith
  then show ?thesis
  proof cases
    case 1
    then show ?thesis
      using assms(1) n by (auto simp: receive_def split: if_splits intro!: in_order_none dest: receive_early_delivers)
  next
    case 2
    then show ?thesis
      using assms(1) n by (auto simp: receive_def split: if_splits intro!: in_order_none)
  next
    case 3
    then have "receive_due dict m t now s = (Ok actions, s')"
      using assms(1) n by (auto simp: receive_def split: if_splits)
    then show ?thesis
      using receive_due_Ok [OF _ assms(2)] n 3 by simp
  qed
qed

lemma receive_queue: "queue_ok s \<Longrightarrow> queue_ok (snd (receive dict m t now s))"
  by (auto simp: receive_def receive_early_queue receive_due_queue split: option.splits)

lemma receive_all_in_order:
  "receive_all dict t now ms first s = (Ok actions, s') \<Longrightarrow> queue_ok s \<Longrightarrow>
   \<exists>rest. actions = first @ rest \<and> in_order (incoming s) rest (incoming s')"
proof (induction ms arbitrary: first s)
  case (Cons m ms)
  obtain extra s1 where one: "receive dict m t now s = (Ok extra, s1)"
    and rest: "receive_all dict t now ms (first @ extra) s1 = (Ok actions, s')"
    using Cons.prems(1) by (auto split: prod.splits sum.splits)
  have "queue_ok s1"
    using receive_queue [OF Cons.prems(2), of dict m t now] one by simp
  from Cons.IH [OF rest this] obtain rest' where
    rest': "actions = (first @ extra) @ rest'" "in_order (incoming s1) rest' (incoming s')"
    by blast
  have "incoming s \<le> incoming s1" "incoming s1 \<le> incoming s'"
    using session_writes_incoming [OF receive_writes [of s dict m t now]] one
      session_writes_incoming [OF receive_all_writes [of s1 dict t now ms "first @ extra"]] rest by simp_all
  then have "in_order (incoming s) (extra @ rest') (incoming s')"
    by (rule in_order_append [OF receive_in_order [OF one Cons.prems(2)] rest'(2)])
  with rest'(1) show ?case
    by auto
qed (simp add: in_order_none)

lemma receive_all_queue: "queue_ok s \<Longrightarrow> queue_ok (snd (receive_all dict t now ms first s))"
proof (induction ms arbitrary: first s)
  case (Cons m ms)
  then show ?case
    using receive_queue [OF Cons.prems, of dict m t now] by (auto split: prod.splits sum.splits)
qed simp

lemma other_op_pending:
  assumes "\<forall>bs t now. op \<noteq> OpReceive bs t now"
  shows "pending_inbound (session_snapshot (snd (session_run_op dict op s))) = pending_inbound (session_snapshot s)"
proof (cases op)
  case (OpConnected t now)
  show ?thesis
    unfolding OpConnected session_run_op.simps connected_at_def Let_def
    by (intro pending_then) simp_all
next
  case (OpPoll now t)
  show ?thesis
    unfolding OpPoll session_run_op.simps poll_def Let_def
    by (auto simp del: call_then_simps intro!: pending_then)
qed (use assms in \<open>auto simp: send_application_def send_replaceable_application_def request_logout_def probe_def\<close>)

lemma other_op_delivers:
  assumes "\<forall>bs t now. op \<noteq> OpReceive bs t now" and "session_run_op dict op s = (Ok actions, s')"
  shows "delivered actions = []"
  using assms
  by (cases op)
     (auto simp: send_application_def send_replaceable_application_def request_logout_def probe_def
        connected_at_def poll_def Let_def call_then_Ok_iff split: if_splits dest: send_new_delivers)

text \<open>
  A run of calls from one session to another, with the actions the host was given. A call
  that fails hands over nothing but may have changed the session.
\<close>

inductive session_trace :: "loaded \<Rightarrow> fix_session \<Rightarrow> session_action list \<Rightarrow> fix_session \<Rightarrow> bool" for dict where
  trace_start: "session_trace dict s [] s"
| trace_ok: "session_trace dict s actions s1 \<Longrightarrow> session_run_op dict op s1 = (Ok extra, s2) \<Longrightarrow>
    session_trace dict s (actions @ extra) s2"
| trace_err: "session_trace dict s actions s1 \<Longrightarrow> session_run_op dict op s1 = (Err e, s2) \<Longrightarrow>
    session_trace dict s actions s2"

lemma session_run_op_queue: "queue_ok s \<Longrightarrow> queue_ok (snd (session_run_op dict op s))"
proof (cases "\<exists>bs t now. op = OpReceive bs t now")
  case True
  assume "queue_ok s"
  then have "queue_ok (s\<lparr>session_decoder := dec\<rparr>)" for dec
    by (simp add: queue_ok_def)
  with True show ?thesis
    by (auto simp: receive_bytes_at_def receive_all_queue split: prod.splits sum.splits)
next
  case False
  assume "queue_ok s"
  then show ?thesis
    using queue_ok_cong [OF other_op_pending] False by blast
qed

lemma session_run_op_in_order:
  assumes "session_run_op dict op s = (Ok actions, s')" and "queue_ok s"
  shows "in_order (incoming s) actions (incoming s')"
proof (cases "\<exists>bs t now. op = OpReceive bs t now")
  case True
  then obtain bs t now ms dec where
    "receive_all dict t now ms [] (s\<lparr>session_decoder := dec\<rparr>) = (Ok actions, s')"
    using assms(1) by (auto simp: receive_bytes_at_def split: prod.splits sum.splits)
  moreover have "queue_ok (s\<lparr>session_decoder := dec\<rparr>)"
    using assms(2) by (simp add: queue_ok_def)
  ultimately show ?thesis
    using receive_all_in_order by fastforce
next
  case False
  then show ?thesis
    using other_op_delivers [OF _ assms(1)] by (intro in_order_none) blast
qed

lemma session_trace_props:
  assumes "session_trace dict s actions s'" and "queue_ok s"
  shows "in_order (incoming s) actions (incoming s') \<and> incoming s \<le> incoming s' \<and> queue_ok s'"
  using assms
proof (induction rule: session_trace.induct)
  case (trace_ok s actions s1 op extra s2)
  then have IH: "in_order (incoming s) actions (incoming s1)" "incoming s \<le> incoming s1" "queue_ok s1"
    by simp_all
  have "incoming s1 \<le> incoming s2" "queue_ok s2"
    using session_writes_incoming [OF session_run_op_writes [of s1 dict op]]
      session_run_op_queue [OF IH(3), of dict op] trace_ok.hyps(2) by simp_all
  with IH show ?case
    using in_order_append [OF IH(1) session_run_op_in_order [OF trace_ok.hyps(2) IH(3)]] by simp
next
  case (trace_err s actions s1 op e s2)
  then have IH: "in_order (incoming s) actions (incoming s1)" "incoming s \<le> incoming s1" "queue_ok s1"
    by simp_all
  have "incoming s1 \<le> incoming s2" "queue_ok s2"
    using session_writes_incoming [OF session_run_op_writes [of s1 dict op]]
      session_run_op_queue [OF IH(3), of dict op] trace_err.hyps(2) by simp_all
  with IH show ?case
    by (auto simp: in_order_def)
qed (simp add: in_order_none)

text \<open>
  C14. Application messages reach the host at most once and in the order the peer
  numbered them, over the whole life of a session, reconnections, resends and failing
  calls included: the sequence numbers of all messages handed over are strictly rising
  and below the number expected next (\<open>FixSession::receive_bytes_at\<close>).
\<close>

theorem delivery_in_order:
  assumes "session_try_new dict config = Ok s0" and "session_trace dict s0 actions s"
  shows "sorted_wrt (<) (delivered actions)
    \<and> (\<forall>n\<in>set (delivered actions). 1 \<le> n \<and> n < incoming_sequence (session_snapshot s))"
proof -
  have "queue_ok s0" "incoming s0 = 1"
    using assms(1) by (auto simp: session_try_new_def initial_snapshot_def queue_ok_def result_simps)
  then show ?thesis
    using session_trace_props [OF assms(2)] by (simp add: in_order_def)
qed

end
