(* ===== verification/Fix_Session_Peers.thy ===== *)
theory Fix_Session_Peers
  imports Fix_Session_Laws
begin

text \<open>
  Two FIX sessions facing each other. A message one end sends is delivered by the other
  under the number it was sent with; a resend request is answered so that the requester
  gets every journalled message of the range and expects the number after it. The last
  part shows how a queued message that a gap fill overtakes stops the session from ever
  asking for a resend again.
\<close>

subsection \<open>Stamped messages\<close>

lemma message_value_push:
  "message_value (push_field tag v m) tag' =
     (case message_value m tag' of Some x \<Rightarrow> Some x | None \<Rightarrow> if tag = tag' then Some v else None)"
proof -
  have "find P (xs @ [x]) = (case find P xs of Some y \<Rightarrow> Some y | None \<Rightarrow> if P x then Some x else None)"
    for P and xs :: "field list" and x
    by (induction xs) auto
  then show ?thesis
    by (auto simp: message_value_def push_field_def split: option.splits)
qed

lemma message_value_stripped:
  "session_header_tag tag \<Longrightarrow>
   message_value (m\<lparr>message_fields := filter (\<lambda>f. \<not> session_header_tag (field_tag f)) (message_fields m)\<rparr>) tag = None"
  by (auto simp: message_value_def find_None_iff)

lemma message_value_kept:
  assumes "\<not> session_header_tag tag"
  shows "message_value (m\<lparr>message_fields := filter (\<lambda>f. \<not> session_header_tag (field_tag f)) (message_fields m)\<rparr>) tag
    = message_value m tag"
proof -
  have "find (\<lambda>f. field_tag f = tag) (filter (\<lambda>f. \<not> session_header_tag (field_tag f)) fs)
      = find (\<lambda>f. field_tag f = tag) fs" for fs :: "field list"
    using assms by (induction fs) auto
  then show ?thesis
    by (simp add: message_value_def)
qed

lemma header_tags [simp]:
  "session_header_tag 49" "session_header_tag 56" "session_header_tag 34" "session_header_tag 43"
  "session_header_tag 52" "session_header_tag 122"
  by (simp_all add: session_header_tag_def)

lemmas stamped_simps = stamped_def Let_def message_value_push message_value_stripped message_value_kept

lemma stamped_value_other:
  assumes "\<not> session_header_tag tag"
  shows "message_value (stamped config m n t original) tag = message_value m tag"
proof -
  have "49 \<noteq> tag" "56 \<noteq> tag" "34 \<noteq> tag" "43 \<noteq> tag" "52 \<noteq> tag" "122 \<noteq> tag"
    using assms header_tags by blast+
  then show ?thesis
    using assms by (cases original) (simp_all add: stamped_simps split: option.split)
qed

lemma stamped_values [simp]:
  "message_value (stamped config m n t original) 49 = Some (sender_comp_id config)"
  "message_value (stamped config m n t original) 56 = Some (target_comp_id config)"
  "message_value (stamped config m n t original) 34 = Some (show_u128 n)"
  "message_value (stamped config m n t (Some o1)) 43 = Some ''Y''"
  "message_value (stamped config m n t (Some o1)) 122 = Some o1"
  by (cases original, simp_all add: stamped_simps)+

lemma stamped_type [simp]:
  "msg_type (stamped config m n t original) = msg_type m"
  "begin_string (stamped config m n t original) = begin_string m"
  by (simp_all add: stamped_def push_field_def Let_def split: option.splits)

lemma parse_tag_stamped: "n < 2 ^ 64 \<Longrightarrow> parse_tag (stamped config m n t original) 34 = Some n"
  by (simp add: parse_tag_def parse_uint_show)

text \<open>Texts the session adds are Rust strings.\<close>

definition config_typed :: "session_config \<Rightarrow> bool" where
  "config_typed config \<longleftrightarrow> utf8 (map of_char (sender_comp_id config)) \<and> utf8 (map of_char (target_comp_id config))"

lemma utf8_digits: "utf8 (map of_char (show_u128 n))"
  using show_u128_utf8 [of n] by (simp add: from_utf8_def split: if_splits)

lemma message_typed_push:
  "message_typed m \<Longrightarrow> tag < 2 ^ 32 \<Longrightarrow> utf8 (map of_char v) \<Longrightarrow> message_typed (push_field tag v m)"
  by (auto simp: message_typed_def push_field_def field_typed_def)

lemma message_typed_filter: "message_typed m \<Longrightarrow> message_typed (m\<lparr>message_fields := filter P (message_fields m)\<rparr>)"
  by (auto simp: message_typed_def)

lemma stamped_typed:
  assumes "message_typed m" and "config_typed config" and "utf8 (map of_char t)"
    and "\<forall>o1. original = Some o1 \<longrightarrow> utf8 (map of_char o1)"
  shows "message_typed (stamped config m n t original)"
  using assms
  by (cases original)
     (auto simp: stamped_def Let_def config_typed_def utf8_digits intro!: message_typed_push message_typed_filter)

text \<open>What the session relies on in the dictionary: its own tags and message type are declared.\<close>

definition session_tags_known :: "competition_dictionary \<Rightarrow> bool" where
  "session_tags_known d \<longleftrightarrow>
     (\<forall>tag\<in>{34, 36, 43, 49, 52, 56, 122, 123}. known_tag d tag)
     \<and> (message_by_msgtype (session_dict d) ''4'' \<or> message_by_msgtype (application_dict d) ''4'')"

lemma dictionary_validate_Ok_iff:
  "dictionary_validate d m = Ok () \<longleftrightarrow>
     begin_string m = FIXT_11
     \<and> (message_by_msgtype (session_dict d) (msg_type m) \<or> message_by_msgtype (application_dict d) (msg_type m)
        \<or> extension_message (msg_type m))
     \<and> (\<forall>f\<in>set (message_fields m). known_tag d (field_tag f))"
proof -
  have "try_fold (\<lambda>f _. if known_tag d (field_tag f) then Ok () else Err (UnknownTag (field_tag f))) fs () = Ok ()
      \<longleftrightarrow> (\<forall>f\<in>set fs. known_tag d (field_tag f))" for fs :: "field list"
    by (induction fs) (auto simp: attempt_Ok_iff)
  then show ?thesis
    by (auto simp: dictionary_validate_def Let_def split: if_splits)
qed

lemma stamped_validated:
  "session_tags_known d \<Longrightarrow> dictionary_validate d m = Ok () \<Longrightarrow>
   dictionary_validate d (stamped config m n t original) = Ok ()"
  by (cases original)
     (auto simp: dictionary_validate_Ok_iff stamped_def Let_def push_field_def session_tags_known_def)

lemma stamped_deliverable:
  assumes "encode_at config m n t original = Ok frame"
    and "message_typed m" and "dictionary_validate d m = Ok ()" and "session_tags_known d" and "config_typed config"
    and "utf8 (map of_char t)" and "\<forall>o1. original = Some o1 \<longrightarrow> utf8 (map of_char o1)"
  shows "deliverable d (wire_limits config) (stamped config m n t original) frame"
  using assms by (simp add: deliverable_def encode_at_def result_simps stamped_typed stamped_validated)

subsection \<open>A receiver with nothing queued\<close>

text \<open>\<open>addressed m s\<close>: the message names this session as its target and the peer as its sender.\<close>

definition addressed :: "fix_message \<Rightarrow> fix_session \<Rightarrow> bool" where
  "addressed m s \<longleftrightarrow> message_value m 49 = Some (target_comp_id (session_config s))
     \<and> message_value m 56 = Some (sender_comp_id (session_config s))"

definition advanced :: "nat \<Rightarrow> nat \<Rightarrow> fix_session \<Rightarrow> fix_session" where
  "advanced n now s = s\<lparr>session_snapshot := (session_snapshot s)\<lparr>
     incoming_sequence := n, last_received_millis := now, pending_resend_begin := None\<rparr>\<rparr>"

lemma advanced_sel [simp]:
  "session_config (advanced n now s) = session_config s"
  "incoming_sequence (session_snapshot (advanced n now s)) = n"
  "pending_inbound (session_snapshot (advanced n now s)) = pending_inbound (session_snapshot s)"
  "session_decoder (advanced n now s) = session_decoder s"
  by (simp_all add: advanced_def)

lemma receive_application:
  assumes "addressed m s" and "parse_tag m 34 = Some (incoming s)" and "incoming s + 1 < 2 ^ 64"
    and "\<not> session_type (msg_type m)" and "pending_inbound (session_snapshot s) = []"
  shows "receive dict m t now s = (Ok [Application m, Persist], advanced (incoming s + 1) now s)"
proof -
  have "process_in_sequence dict m t now s = (Ok [Application m],
      s\<lparr>session_snapshot := (session_snapshot s)\<lparr>incoming_sequence := incoming s + 1, last_received_millis := now\<rparr>\<rparr>)"
    using assms(3,4) by (simp add: process_in_sequence_def handle_message_def session_type_def checked_u64_def)
  then show ?thesis
    using assms by (simp add: receive_def receive_due_def addressed_def call_then_def [of "process_in_sequence a b c e" for a b c e]
        call_then_def [of "drain_pending a b c e" for a b c e] drain_pending.simps advanced_def)
qed

lemma receive_gap_fill:
  assumes "addressed m s" and "parse_tag m 34 = Some (incoming s)" and "incoming s + 1 < 2 ^ 64"
    and "msg_type m = ''4''" and "parse_tag m 36 = Some n" and "incoming s < n"
    and "pending_inbound (session_snapshot s) = []"
  shows "receive dict m t now s = (Ok [Persist], advanced n now s)"
proof -
  have "process_in_sequence dict m t now s = (Ok [],
      s\<lparr>session_snapshot := (session_snapshot s)\<lparr>incoming_sequence := n, last_received_millis := now\<rparr>\<rparr>)"
    using assms(3-6) by (simp add: process_in_sequence_def handle_message_def checked_u64_def)
  then show ?thesis
    using assms by (simp add: receive_def receive_due_def addressed_def call_then_def [of "process_in_sequence a b c e" for a b c e]
        call_then_def [of "drain_pending a b c e" for a b c e] drain_pending.simps advanced_def)
qed

text \<open>Two sessions that face each other.\<close>

definition mirrored :: "session_config \<Rightarrow> session_config \<Rightarrow> bool" where
  "mirrored a b \<longleftrightarrow> sender_comp_id a = target_comp_id b \<and> target_comp_id a = sender_comp_id b
     \<and> wire_limits a = wire_limits b"

lemma stamped_addressed:
  "mirrored config (session_config s) \<Longrightarrow> addressed (stamped config m n t original) s"
  by (simp add: addressed_def mirrored_def)

text \<open>
  \<open>peer_of d s r\<close>: session \<open>r\<close> faces session \<open>s\<close> with the same limits and dictionary, has read
  every byte it got and has nothing queued.
\<close>

definition peer_of :: "competition_dictionary \<Rightarrow> fix_session \<Rightarrow> fix_session \<Rightarrow> bool" where
  "peer_of d s r \<longleftrightarrow>
     mirrored (session_config s) (session_config r) \<and> config_typed (session_config s)
     \<and> session_tags_known d \<and> max_message_bytes (wire_limits (session_config s)) < 2 ^ 64
     \<and> session_decoder r = \<lparr>decoder_limits = wire_limits (session_config s), decoder_buffer = [], decoder_dictionary = d\<rparr>
     \<and> pending_inbound (session_snapshot r) = []"

lemma peer_of_advanced: "peer_of d s r \<Longrightarrow> peer_of d s (advanced n now r)"
  by (simp add: peer_of_def)

text \<open>Receiving a stream of deliverable frames is receiving their messages.\<close>

lemma receive_stream:
  assumes "peer_of d s r" and "list_all2 (deliverable d (wire_limits (session_config s))) ms frames"
    and "length (concat frames) \<le> max_buffer_bytes (wire_limits (session_config s))"
  shows "receive_bytes_at dict (concat frames) t now r = receive_all dict t now ms [] r"
proof -
  have dec: "session_decoder r = \<lparr>decoder_limits = wire_limits (session_config s), decoder_buffer = [], decoder_dictionary = d\<rparr>"
    and lim: "max_message_bytes (wire_limits (session_config s)) < 2 ^ 64"
    using assms(1) by (simp_all add: peer_of_def)
  have "decoder_push (session_decoder r) (concat frames) = (Ok ms, session_decoder r)"
    using assms(2,3) lim drain_stream [OF assms(2) lim, of "[]" "[]"] by (simp add: dec decoder_push_def)
  then show ?thesis
    by (simp add: receive_bytes_at_def)
qed

lemma send_new_Ok:
  assumes "send_new m t now j key s = (Ok actions, s')"
  obtains frame where "outgoing_sequence (session_snapshot s) + 1 < 2 ^ 64"
    and "encode_at (session_config s) m (outgoing_sequence (session_snapshot s)) t None = Ok frame"
    and "actions = [Send frame, Persist]"
    and "outgoing_sequence (session_snapshot s') = outgoing_sequence (session_snapshot s) + 1"
    and "session_config s' = session_config s"
  using assms that
  by (cases "outgoing_sequence (session_snapshot s) + 1 < 2 ^ 64";
      cases "encode_at (session_config s) m (outgoing_sequence (session_snapshot s)) t None")
     (auto simp: send_new_def Let_def checked_u64_def)


subsection \<open>Recovery by replay\<close>

lemma parse_field_typed: "parse_field limits raw = Ok f \<Longrightarrow> field_typed f"
  by (auto simp: parse_field_def result_simps field_typed_def from_utf8_def parse_uint_def
      split: if_splits option.splits)

lemma parse_frame_typed:
  assumes "parse_frame frame limits = Ok m"
  shows "message_typed m"
proof -
  obtain raws parsed type where parsed: "try_map (parse_field limits) raws = Ok parsed"
    and f: "get_at parsed 2 = Some type" "msg_type m = field_value type" "set (message_fields m) \<subseteq> set parsed"
    using assms by (auto simp: parse_frame_def Let_def result_simps split: if_splits option.splits)
  have "\<forall>f\<in>set parsed. field_typed f"
    using parsed parse_field_typed by (fastforce simp: try_map_Ok_iff list_all2_conv_all_nth in_set_conv_nth)
  moreover have "type \<in> set parsed"
    using f(1) by (auto simp: get_at_def split: if_splits)
  ultimately show ?thesis
    using f by (auto simp: message_typed_def field_typed_def)
qed

lemma drain_frames_sound:
  assumes "drain_frames d limits buffer acc = (Ok ms, rest)"
    and "\<forall>m\<in>set acc. message_typed m \<and> dictionary_validate d m = Ok ()"
  shows "\<forall>m\<in>set ms. message_typed m \<and> dictionary_validate d m = Ok ()"
  using assms
proof (induction d limits buffer acc rule: drain_frames.induct)
  case (1 d limits buffer acc)
  show ?case
  proof (cases "\<exists>n. complete_frame_len buffer limits = Ok (Some n)")
    case True
    then obtain n where n: "complete_frame_len buffer limits = Ok (Some n)"
      by blast
    obtain m u where m: "parse_frame (take n buffer) limits = Ok m" "dictionary_validate d m = Ok u"
      and rest: "drain_frames d limits (drop n buffer) (acc @ [m]) = (Ok ms, rest)"
      using "1.prems"(1) n by (subst (asm) drain_frames.simps) (auto simp: Let_def split: sum.splits)
    show ?thesis
      by (rule "1.IH" [OF n refl refl refl m rest]) (use "1.prems"(2) m parse_frame_typed in auto)
  next
    case False
    then show ?thesis
      using "1.prems" by (subst (asm) drain_frames.simps) (auto split: sum.splits option.splits)
  qed
qed

lemma decode_one_sound:
  assumes "decode_one (Ok d) frame limits = Ok m"
  shows "message_typed m \<and> dictionary_validate d m = Ok ()"
proof -
  obtain r rest where drain: "drain_frames d limits frame [] = (r, rest)"
    by fastforce
  then obtain ms where "drain_frames d limits frame [] = (Ok ms, rest)" and "m \<in> set ms"
    using assms
    by (cases r; cases "projr r")
       (auto simp: decode_one_def decoder_try_new_def decoder_push_def split: if_splits)
  then show ?thesis
    using drain_frames_sound [of d limits frame "[]" ms rest] by simp
qed

lemma message_value_typed: "message_typed m \<Longrightarrow> message_value m tag = Some v \<Longrightarrow> utf8 (map of_char v)"
  by (auto simp: message_value_def message_typed_def field_typed_def find_Some_iff)

text \<open>What a replayed entry becomes at the peer.\<close>

lemma replay_entry_deliverable:
  assumes "replay_entry (Ok d) config t n e = Ok frame"
    and "session_tags_known d" and "config_typed config" and "utf8 (map of_char t)"
  obtains original o1 where "decode_one (Ok d) (entry_frame e) (wire_limits config) = Ok original"
    and "deliverable d (wire_limits config) (stamped config original n t (Some o1)) frame"
proof -
  obtain original where dec: "decode_one (Ok d) (entry_frame e) (wire_limits config) = Ok original"
    and enc: "encode_at config original n t
      (Some (case message_value original 52 of None \<Rightarrow> t | Some u \<Rightarrow> u)) = Ok frame"
    using assms(1) by (auto simp: replay_entry_def attempt_Ok_iff Let_def)
  have "message_typed original" "dictionary_validate d original = Ok ()"
    using decode_one_sound [OF dec] by simp_all
  with enc assms(2-4) show thesis
    using that [OF dec] by (auto intro!: stamped_deliverable dest: message_value_typed split: option.splits)
qed

definition is_application :: "loaded \<Rightarrow> wire_limits \<Rightarrow> journal_entry \<Rightarrow> bool" where
  "is_application dict limits e \<longleftrightarrow>
     (\<forall>m. decode_one dict (entry_frame e) limits = Ok m \<longrightarrow> \<not> session_type (msg_type m))"

definition keys_between :: "nat \<Rightarrow> nat \<Rightarrow> (nat, journal_entry) btree_map \<Rightarrow> nat list" where
  "keys_between lo hi j = filter (\<lambda>k. lo \<le> k \<and> k \<le> hi) (map fst j)"

lemma keys_between_sorted: "bt_wf j \<Longrightarrow> sorted_wrt (<) (keys_between lo hi j)"
  by (simp add: keys_between_def bt_wf_def sorted_wrt_filter)

lemma set_keys_between: "set (keys_between lo hi j) = {k. lo \<le> k \<and> k \<le> hi \<and> bt_get j k \<noteq> None}"
  by (auto simp: keys_between_def map_of_eq_None_iff)

lemma keys_between_entry:
  assumes "bt_wf j" and "bt_get j n = Some e" and "n \<le> hi"
  shows "keys_between n hi j = n # keys_between (n + 1) hi j"
proof (rule strict_sorted_equal)
  show "set (keys_between n hi j) = set (n # keys_between (n + 1) hi j)"
    using assms(2,3) by (auto simp: set_keys_between Suc_le_eq)
qed (use assms(1) keys_between_sorted set_keys_between in \<open>auto simp: Suc_le_eq\<close>)

lemma next_journalled_least:
  assumes "bt_wf j" and "n \<le> k" and "k \<le> hi" and "bt_get j k \<noteq> None"
  shows "next_journalled j n hi \<le> k"
proof -
  let ?f = "filter (\<lambda>(k, _). n \<le> k \<and> k \<le> hi) j"
  have wf: "bt_wf ?f"
    using assms(1) by (rule bt_wf_filter)
  obtain v where "(k, v) \<in> set ?f"
    using assms(2-4) by (auto dest: map_of_SomeD)
  then have k: "bt_get ?f k = Some v" "?f \<noteq> []"
    using bt_get_mem [OF wf] by auto
  then obtain k0 v0 where first: "bt_first ?f = Some (k0, v0)"
    by (cases "bt_first ?f") auto
  then have "k0 \<le> k"
    using bt_firstD(2) [OF wf first, of k] k by simp
  with first show ?thesis
    by (simp add: next_journalled_def range_first_def)
qed

lemma keys_between_gap:
  assumes "bt_wf j" and "bt_get j n = None" and "n \<le> hi"
  shows "keys_between n hi j = keys_between (next_journalled j n hi) hi j"
proof (rule strict_sorted_equal)
  show "set (keys_between n hi j) = set (keys_between (next_journalled j n hi) hi j)"
    using next_journalled_above [OF assms(2,3)] next_journalled_least [OF assms(1)]
    by (auto simp: set_keys_between)
qed (use assms(1) keys_between_sorted in auto)

lemma gap_fill_typed: "message_typed (gap_fill_message k)"
  by (auto simp: gap_fill_message_def message_typed_def fix_message_new_def push_field_def field_typed_def utf8_digits)

lemma gap_fill_validated: "session_tags_known d \<Longrightarrow> dictionary_validate d (gap_fill_message k) = Ok ()"
  by (auto simp: gap_fill_message_def dictionary_validate_Ok_iff fix_message_new_def push_field_def session_tags_known_def)

lemma gap_fill_value: "message_value (gap_fill_message k) 36 = Some (show_u128 k)"
proof -
  have "message_value (fix_message_new ''4'') tag = None" for tag
    by (simp add: message_value_def fix_message_new_def)
  then show ?thesis
    by (simp add: gap_fill_message_def message_value_push)
qed

lemma gap_fill_reset: "k < 2 ^ 64 \<Longrightarrow> parse_tag (stamped config (gap_fill_message k) n t original) 36 = Some k"
  by (simp add: parse_tag_def stamped_value_other session_header_tag_def gap_fill_value parse_uint_show)

lemma next_journalled_bound: "n \<le> hi \<Longrightarrow> bt_get j n = None \<Longrightarrow> next_journalled j n hi \<le> hi + 1"
  by (auto simp: next_journalled_def dest: range_first_gap split: option.splits)

text \<open>
  The messages a replay sends, received in order by a session that expects the first of
  them and has nothing queued.
\<close>

lemma replay_received:
  assumes "session_tags_known d" and "config_typed config" and "utf8 (map of_char t)" and "bt_wf j"
    and "hi + 1 < 2 ^ 64"
    and "\<forall>k e. bt_get j k = Some e \<longrightarrow> n \<le> k \<longrightarrow> k \<le> hi \<longrightarrow> is_application (Ok d) (wire_limits config) e"
    and "replay_loop (Ok d) config j t hi n acts = Ok acts'" and "n \<le> hi + 1"
    and "mirrored config (session_config r)" and "pending_inbound (session_snapshot r) = []" and "incoming r = n"
  shows "\<exists>frames ms out r'. acts' = acts @ map Send frames \<and> list_all2 (deliverable d (wire_limits config)) ms frames
    \<and> (\<forall>first. receive_all dict t' now ms first r = (Ok (first @ out), r'))
    \<and> incoming r' = hi + 1 \<and> delivered out = keys_between n hi j"
  using assms(6-11)
proof (induction "hi + 1 - n" arbitrary: n acts r rule: less_induct)
  case less
  show ?case
  proof (cases "n \<le> hi")
    case False
    then have "n = hi + 1"
      using less.prems(3) by simp
    then show ?thesis
      using less.prems by (intro exI [of _ "[]"] exI [of _ r]) (simp add: replay_loop_end keys_between_def)
  next
    case True
    have combine: ?thesis
      if step: "replay_loop (Ok d) config j t hi n' (acts @ [Send frame]) = Ok acts'" "n < n'" "n' \<le> hi + 1"
        and frame: "deliverable d (wire_limits config) m frame"
        and recv: "receive dict m t' now r = (Ok extra, advanced n' now r)"
        and keys: "delivered extra @ keys_between n' hi j = keys_between n hi j" for frame m extra n'
    proof -
      have "hi + 1 - n' < hi + 1 - n"
        using step(2) True by simp
      moreover have "\<forall>k e. bt_get j k = Some e \<longrightarrow> n' \<le> k \<longrightarrow> k \<le> hi \<longrightarrow> is_application (Ok d) (wire_limits config) e"
        using less.prems(1) step(2) by auto
      ultimately obtain frames ms out r' where
        "acts' = (acts @ [Send frame]) @ map Send frames" "list_all2 (deliverable d (wire_limits config)) ms frames"
        "\<forall>first. receive_all dict t' now ms first (advanced n' now r) = (Ok (first @ out), r')"
        "incoming r' = hi + 1" "delivered out = keys_between n' hi j"
        using less.hyps [of n' "acts @ [Send frame]" "advanced n' now r"] step less.prems(4,5) by auto
      then show ?thesis
        using frame recv keys
        by (intro exI [of _ "frame # frames"] exI [of _ "m # ms"] exI [of _ "extra @ out"] exI [of _ r']) simp
    qed
    have n: "n + 1 < 2 ^ 64"
      using True assms(5) by simp
    show ?thesis
    proof (cases "bt_get j n")
      case None
      let ?k = "next_journalled j n hi"
      let ?m = "stamped config (gap_fill_message ?k) n t (Some t)"
      have k: "n < ?k" "?k \<le> hi + 1"
        using next_journalled_above [OF None True] next_journalled_bound [OF True None] .
      obtain frame where enc: "encode_at config (gap_fill_message ?k) n t (Some t) = Ok frame"
        and step: "replay_loop (Ok d) config j t hi ?k (acts @ [Send frame]) = Ok acts'"
        using less.prems(2) True None by (auto simp: replay_loop_gap attempt_Ok_iff)
      have "deliverable d (wire_limits config) ?m frame"
        by (rule stamped_deliverable [OF enc gap_fill_typed gap_fill_validated]) (use assms(1-3) in auto)
      moreover have "receive dict ?m t' now r = (Ok [Persist], advanced ?k now r)"
        using less.prems(4-6) n k assms(5) parse_tag_stamped [of n] gap_fill_reset [of ?k]
        by (intro receive_gap_fill stamped_addressed)
           (simp_all add: gap_fill_message_def push_field_def fix_message_new_def)
      ultimately show ?thesis
        using combine [OF step k] keys_between_gap [OF assms(4) None True] by simp
    next
      case (Some e)
      obtain frame where rep: "replay_entry (Ok d) config t n e = Ok frame"
        and step: "replay_loop (Ok d) config j t hi (n + 1) (acts @ [Send frame]) = Ok acts'"
        using less.prems(2) True Some by (auto simp: replay_loop_entry result_simps)
      obtain original o1 where dec: "decode_one (Ok d) (entry_frame e) (wire_limits config) = Ok original"
        and del: "deliverable d (wire_limits config) (stamped config original n t (Some o1)) frame"
        using replay_entry_deliverable [OF rep assms(1-3)] .
      have "\<not> session_type (msg_type original)"
        using less.prems(1) Some True dec by (auto simp: is_application_def)
      then have "receive dict (stamped config original n t (Some o1)) t' now r
          = (Ok [Application (stamped config original n t (Some o1)), Persist], advanced (n + 1) now r)"
        using less.prems(4-6) n parse_tag_stamped [of n]
          receive_application [of "stamped config original n t (Some o1)" r dict t' now]
        by (simp add: stamped_addressed)
      then show ?thesis
        using combine [OF step _ _ del] True keys_between_entry [OF assms(4) Some True] parse_tag_stamped [of n] n
        by simp
    qed
  qed
qed


subsection \<open>Queued messages overtaken by a gap fill\<close>

text \<open>
  \<open>overtaken k s\<close>: the session asked for a resend, and its queue holds a message under the
  number \<open>k\<close>, which it no longer expects.
\<close>

definition overtaken :: "nat \<Rightarrow> fix_session \<Rightarrow> bool" where
  "overtaken k s \<longleftrightarrow> bt_get (pending_inbound (session_snapshot s)) k \<noteq> None
     \<and> k < incoming_sequence (session_snapshot s) \<and> pending_resend_begin (session_snapshot s) \<noteq> None"

lemma overtaken_write: "session_write s s' \<Longrightarrow> overtaken k s \<Longrightarrow> overtaken k s'"
  by (induction rule: session_write.induct) (auto simp: overtaken_def same_core_def)

lemma overtaken_writes: "session_writes s s' \<Longrightarrow> overtaken k s \<Longrightarrow> overtaken k s'"
  by (induction rule: rtranclp_induct) (auto intro: overtaken_write)

lemma gap_fill_overtakes:
  assumes "bt_get (pending_inbound (session_snapshot s)) k = Some queued"
    and "pending_resend_begin (session_snapshot s) \<noteq> None"
    and "addressed m s" and "parse_tag m 34 = Some (incoming s)" and "msg_type m = ''4''"
    and "parse_tag m 36 = Some n" and "k < n" and "incoming s < n" and "incoming s + 1 < 2 ^ 64"
  shows "overtaken k (snd (receive dict m t now s))"
proof -
  let ?s1 = "s\<lparr>session_snapshot := (session_snapshot s)\<lparr>incoming_sequence := n, last_received_millis := now\<rparr>\<rparr>"
  have first: "process_in_sequence dict m t now s = (Ok [], ?s1)"
    using assms(5,6,8,9) by (simp add: process_in_sequence_def handle_message_def checked_u64_def)
  have "session_writes ?s1 (snd (receive dict m t now s))"
  proof -
    have "writes (call_then (drain_pending dict t now []) (\<lambda>actions.
        call_then (call_update (\<lambda>sn. if pending_inbound sn = [] then sn\<lparr>pending_resend_begin := None\<rparr> else sn)) (\<lambda>_.
        call_return (actions @ [Persist]))))"
      by (intro writes_then writes_result writes_resend_done) (simp add: writes_def drain_pending_writes)
    from writes_app [OF this, of ?s1] show ?thesis
      using assms(3,4) first by (simp add: receive_def addressed_def receive_due_def
          call_then_def [of "process_in_sequence a b c e" for a b c e])
  qed
  moreover have "overtaken k ?s1"
    using assms(1,2,7) by (simp add: overtaken_def)
  ultimately show ?thesis
    by (rule overtaken_writes)
qed

text \<open>
  A queued message that a gap fill overtakes disables gap recovery for good: once a
  session that waits for a resend receives a gap fill past a queued number \<open>k\<close>, no later
  call, reconnection included, removes that entry, and every message ahead of its turn is
  from then on queued without a resend request, until the queue is full
  (\<open>FixSession::receive\<close>).
\<close>

theorem overtaken_queue_blocks_resend:
  assumes "bt_get (pending_inbound (session_snapshot s)) k = Some queued"
    and "pending_resend_begin (session_snapshot s) \<noteq> None"
    and "addressed g s" and "parse_tag g 34 = Some (incoming_sequence (session_snapshot s))" and "msg_type g = ''4''"
    and "parse_tag g 36 = Some n" and "k < n" and "incoming_sequence (session_snapshot s) < n"
    and "incoming_sequence (session_snapshot s) + 1 < 2 ^ 64"
    and "session_reach dict (snd (receive dict g t now s)) s'"
    and "addressed m s'" and "parse_tag m 34 = Some n'" and "incoming_sequence (session_snapshot s') < n'"
    and "msg_type m \<noteq> ''2''"
  shows "bt_get (pending_inbound (session_snapshot s')) k \<noteq> None
    \<and> fst (receive dict m t' now' s') =
      (if length (pending_inbound (session_snapshot s')) < max_pending_inbound (session_config s')
       then Ok [Persist] else Err PendingInboundFull)"
proof -
  have "overtaken k s'"
    using overtaken_writes [OF session_reach_writes [OF assms(10)]] gap_fill_overtakes [OF assms(1-9)] by blast
  then show ?thesis
    using assms(11-14)
    by (auto simp: receive_def addressed_def receive_early_def answer_early_def enqueue_inbound_def request_resend_def
        overtaken_def Let_def)
qed

end
