(* ===== verification/Fix_Session_Demo.thy ===== *)
theory Fix_Session_Demo
  imports Fix_Session_Peers
begin

text \<open>
  Concrete FIX sessions, a venue \<open>V\<close> and a desk \<open>D\<close> over the dictionary of theory
  \<open>Fix_Wire_Laws\<close>, and the witnesses of the session theorems on them.
\<close>

definition demo_config :: "string \<Rightarrow> string \<Rightarrow> session_config" where
  "demo_config sender target =
     \<lparr>sender_comp_id = sender, target_comp_id = target, heartbeat_seconds = 30, max_journal_messages = 8,
      max_pending_inbound = 4, wire_limits = wire_limits_default, logon_fields = []\<rparr>"

definition demo_session :: "string \<Rightarrow> string \<Rightarrow> fix_session" where
  "demo_session sender target =
     \<lparr>session_config = demo_config sender target, session_snapshot = initial_snapshot,
      session_decoder = demo_decoder\<rparr>"

lemma demo_session_sel [simp]:
  "session_config (demo_session a b) = demo_config a b" "session_snapshot (demo_session a b) = initial_snapshot"
  "session_decoder (demo_session a b) = demo_decoder" "sender_comp_id (demo_config a b) = a"
  "target_comp_id (demo_config a b) = b" "wire_limits (demo_config a b) = wire_limits_default"
  "max_pending_inbound (demo_config a b) = 4"
  by (simp_all add: demo_session_def demo_config_def)

lemma demo_try_new: "session_try_new (Ok demo_dictionary) (demo_config ''V'' ''D'') = Ok (demo_session ''V'' ''D'')"
  by (simp add: session_try_new_def validate_config_def decoder_try_new_def demo_session_def demo_decoder_def
      demo_config_def wire_limits_default_def)

theorem restore_own_snapshot_witness:
  "let s = snd (session_run_op (Ok demo_dictionary) (OpConnected ''09'' 5) (demo_session ''V'' ''D'')) in
   restore (Ok demo_dictionary) (demo_config ''V'' ''D'') (session_snapshot s)
     = Ok (s\<lparr>session_decoder := demo_decoder\<rparr>) \<and> session_ok s"
  using restore_own_snapshot [OF demo_try_new session_reach.reach_op [OF session_reach.reach_start]]
  by (simp only: Let_def demo_session_sel)

text \<open>A book update of the venue under the number 1, and its frame.\<close>

definition book_update :: fix_message where
  "book_update = push_field 262 ''b'' (fix_message_new ''W'')"

definition book_frame :: bytes where
  "book_frame = projr (encode_at (demo_config ''V'' ''D'') book_update 1 ''09'' None)"

lemma book_encoded: "encode_at (demo_config ''V'' ''D'') book_update 1 ''09'' None = Ok book_frame"
proof -
  have "\<not> isl (encode_at (demo_config ''V'' ''D'') book_update 1 ''09'' None)"
    by code_simp
  then show ?thesis
    by (cases "encode_at (demo_config ''V'' ''D'') book_update 1 ''09'' None") (simp_all add: book_frame_def)
qed

lemma book_typed: "message_typed book_update" "dictionary_validate demo_dictionary book_update = Ok ()"
    "\<not> session_type (msg_type book_update)"
  by code_simp+

lemma demo_tags_known: "session_tags_known demo_dictionary"
  by code_simp

lemma demo_typed: "config_typed (demo_config ''V'' ''D'')" "utf8 (map of_char ''09'')"
  by code_simp+

lemma demo_peer:
  assumes "session_config s = demo_config ''V'' ''D''" and "session_config r = demo_config ''D'' ''V''"
    and "session_decoder r = demo_decoder" and "pending_inbound (session_snapshot r) = []"
  shows "peer_of demo_dictionary s r"
  using assms demo_tags_known demo_typed(1) by (simp add: peer_of_def mirrored_def demo_decoder_def)

definition venue_established :: fix_session where
  "venue_established = (demo_session ''V'' ''D'')\<lparr>session_snapshot := initial_snapshot\<lparr>connection := Established\<rparr>\<rparr>"

lemma venue_sends:
  "send_application book_update ''09'' venue_established
     = (Ok [Send book_frame, Persist], snd (send_application book_update ''09'' venue_established))"
  by (simp add: venue_established_def send_application_def is_established_def send_new_def Let_def checked_u64_def
      initial_snapshot_def book_encoded [unfolded One_nat_def])


lemma desk_receives_book:
  "session_run_op (Ok demo_dictionary) (OpReceive book_frame ''10'' 7) (demo_session ''D'' ''V'')
     = (Ok [Application (stamped (demo_config ''V'' ''D'') book_update 1 ''09'' None), Persist],
        advanced 2 7 (demo_session ''D'' ''V''))"
proof -
  let ?m = "stamped (demo_config ''V'' ''D'') book_update 1 ''09'' None"
  let ?r = "demo_session ''D'' ''V''"
  have "deliverable demo_dictionary (wire_limits (session_config (demo_session ''V'' ''D''))) ?m book_frame"
    using stamped_deliverable [OF book_encoded book_typed(1,2) demo_tags_known demo_typed] by simp
  moreover from this have "length book_frame \<le> 131072"
    by (auto simp: deliverable_def encode_Ok_iff)
  ultimately have "receive_bytes_at (Ok demo_dictionary) (concat [book_frame]) ''10'' 7 ?r
      = receive_all (Ok demo_dictionary) ''10'' 7 [?m] [] ?r"
    by (intro receive_stream [of demo_dictionary "demo_session ''V'' ''D''"] demo_peer)
       (simp_all add: initial_snapshot_def)
  moreover have "receive (Ok demo_dictionary) ?m ''10'' 7 ?r = (Ok [Application ?m, Persist], advanced 2 7 ?r)"
    using receive_application [of ?m ?r "Ok demo_dictionary" "''10''" 7] book_typed(3) parse_tag_stamped [of 1]
    by (simp add: stamped_addressed mirrored_def initial_snapshot_def flip: numeral_2_eq_2)
  ultimately show ?thesis
    by simp
qed

theorem delivery_in_order_witness:
  "delivered [Application (stamped (demo_config ''V'' ''D'') book_update 1 ''09'' None), Persist] = [1]
   \<and> sorted_wrt (<) (delivered [Application (stamped (demo_config ''V'' ''D'') book_update 1 ''09'' None), Persist])
   \<and> 1 < incoming_sequence (session_snapshot (advanced 2 7 (demo_session ''D'' ''V'')))"
proof -
  have new: "session_try_new (Ok demo_dictionary) (demo_config ''D'' ''V'') = Ok (demo_session ''D'' ''V'')"
    by (simp add: session_try_new_def validate_config_def decoder_try_new_def demo_session_def demo_decoder_def
        demo_config_def wire_limits_default_def)
  have "session_trace (Ok demo_dictionary) (demo_session ''D'' ''V'')
      ([] @ [Application (stamped (demo_config ''V'' ''D'') book_update 1 ''09'' None), Persist])
      (advanced 2 7 (demo_session ''D'' ''V''))"
    by (rule session_trace.trace_ok [OF session_trace.trace_start desk_receives_book])
  from delivery_in_order [OF new this] show ?thesis
    using parse_tag_stamped [of 1] by simp
qed

text \<open>The venue's journal after two more numbers that it did not keep: 1 is journalled, 2 and 3 are not.\<close>

definition book_entry :: journal_entry where
  "book_entry = \<lparr>entry_sequence = 1, entry_frame = book_frame, replacement_key = None\<rparr>"

definition venue_journalled :: fix_session where
  "venue_journalled = (demo_session ''V'' ''D'')\<lparr>session_snapshot := initial_snapshot\<lparr>connection := Established,
     outgoing_sequence := 4, journal := [(1, book_entry)]\<rparr>\<rparr>"

abbreviation book_original :: fix_message where
  "book_original \<equiv> stamped (demo_config ''V'' ''D'') book_update 1 ''09'' None"

lemma book_decoded: "decode_one (Ok demo_dictionary) book_frame wire_limits_default = Ok book_original"
proof -
  have "deliverable demo_dictionary wire_limits_default book_original book_frame"
    using stamped_deliverable [OF book_encoded book_typed(1,2) demo_tags_known demo_typed] by simp
  moreover from this have "length book_frame \<le> 131072"
    by (auto simp: deliverable_def encode_Ok_iff)
  ultimately show ?thesis
    using drain_deliverable [of demo_dictionary wire_limits_default book_original book_frame "[]" "[]"]
    by (simp add: decode_one_def decoder_try_new_def decoder_push_def)
qed

lemma venue_replays:
  "\<exists>f1 f2. replay_loop (Ok demo_dictionary) (session_config venue_journalled)
     (journal (session_snapshot venue_journalled)) ''09'' 3 1 [] = Ok [Send f1, Send f2]
   \<and> length f1 \<le> 65536 \<and> length f2 \<le> 65536"
proof -
  have "\<not> isl (encode_at (demo_config ''V'' ''D'') book_original 1 ''09'' (Some ''09''))"
    by code_simp
  then obtain f1 where f1: "encode_at (demo_config ''V'' ''D'') book_original 1 ''09'' (Some ''09'') = Ok f1"
    by (cases "encode_at (demo_config ''V'' ''D'') book_original 1 ''09'' (Some ''09'')") simp_all
  have "\<not> isl (encode_at (demo_config ''V'' ''D'') (gap_fill_message 4) 2 ''09'' (Some ''09''))"
    by code_simp
  then obtain f2 where f2: "encode_at (demo_config ''V'' ''D'') (gap_fill_message 4) 2 ''09'' (Some ''09'') = Ok f2"
    by (cases "encode_at (demo_config ''V'' ''D'') (gap_fill_message 4) 2 ''09'' (Some ''09'')") simp_all
  have short: "length f1 \<le> 65536" "length f2 \<le> 65536"
    using f1 f2 by (auto simp: encode_at_def result_simps encode_Ok_iff)
  have "message_value book_original 52 = Some ''09''"
    by code_simp
  then have entry: "replay_entry (Ok demo_dictionary) (demo_config ''V'' ''D'') ''09'' 1 book_entry = Ok f1"
    by (simp add: replay_entry_def book_entry_def book_decoded [unfolded One_nat_def] f1 [unfolded One_nat_def])
  have sel: "session_config venue_journalled = demo_config ''V'' ''D''"
      "journal (session_snapshot venue_journalled) = [(1, book_entry)]"
    by (simp_all add: venue_journalled_def initial_snapshot_def)
  have "next_journalled [(1, book_entry)] 2 3 = 4"
    by (simp add: next_journalled_def range_first_def bt_first_def)
  then show ?thesis
    using entry f2 short unfolding sel
    by (subst replay_loop_entry [of 1 _ _ book_entry], simp, simp)
       (simp add: replay_loop_gap replay_loop_end checked_u64_def flip: numeral_2_eq_2)
qed


text \<open>A desk that queued number 3 while it waits for 2, then a gap fill from 2 to 5.\<close>

definition desk_waiting :: fix_session where
  "desk_waiting = (demo_session ''D'' ''V'')\<lparr>session_snapshot := initial_snapshot\<lparr>connection := Established,
     incoming_sequence := 2, pending_resend_begin := Some 2, pending_inbound := [(3, book_update)]\<rparr>\<rparr>"

definition venue_gap_fill :: fix_message where
  "venue_gap_fill = stamped (demo_config ''V'' ''D'') (gap_fill_message 5) 2 ''09'' (Some ''09'')"

lemma desk_after_gap_fill:
  "incoming_sequence (session_snapshot (snd (receive (Ok demo_dictionary) venue_gap_fill ''10'' 7 desk_waiting))) = 5"
  "session_config (snd (receive (Ok demo_dictionary) venue_gap_fill ''10'' 7 desk_waiting)) = demo_config ''D'' ''V''"
  "length (pending_inbound (session_snapshot (snd (receive (Ok demo_dictionary) venue_gap_fill ''10'' 7 desk_waiting)))) = 1"
  by code_simp+

theorem overtaken_queue_blocks_resend_witness:
  "fst (receive (Ok demo_dictionary) (stamped (demo_config ''V'' ''D'') book_update 9 ''10'' None) ''10'' 8
     (snd (receive (Ok demo_dictionary) venue_gap_fill ''10'' 7 desk_waiting))) = Ok [Persist]"
proof -
  let ?s = "snd (receive (Ok demo_dictionary) venue_gap_fill ''10'' 7 desk_waiting)"
  let ?m = "stamped (demo_config ''V'' ''D'') book_update 9 ''10'' None"
  have sel: "incoming_sequence (session_snapshot desk_waiting) = 2" "session_config desk_waiting = demo_config ''D'' ''V''"
      "bt_get (pending_inbound (session_snapshot desk_waiting)) 3 = Some book_update"
      "pending_resend_begin (session_snapshot desk_waiting) \<noteq> None"
    by (simp_all add: desk_waiting_def)
  have g: "addressed venue_gap_fill desk_waiting" "parse_tag venue_gap_fill 34 = Some 2" "msg_type venue_gap_fill = ''4''"
      "parse_tag venue_gap_fill 36 = Some 5"
    by (simp_all add: venue_gap_fill_def stamped_addressed mirrored_def sel parse_tag_stamped gap_fill_reset)
       (simp add: gap_fill_message_def push_field_def fix_message_new_def)
  have m: "addressed ?m ?s" "parse_tag ?m 34 = Some 9" "msg_type ?m \<noteq> ''2''"
    by (simp_all add: stamped_addressed mirrored_def desk_after_gap_fill parse_tag_stamped)
       (simp add: book_update_def push_field_def fix_message_new_def)
  show ?thesis
    using overtaken_queue_blocks_resend [OF sel(3,4) g(1) _ g(3,4) _ _ _ session_reach.reach_start m(1,2) _ m(3),
        of "''10''" 8] g(2)
    by (simp add: sel desk_after_gap_fill)
qed

end
