(* ===== verification/Spec2Isabelle.thy ===== *)
theory Spec2Isabelle
  imports Client_Connection File_Runs Quarcc_Adapter Fix_Mapping_Laws Risk_Engine Sequencer Engine_Accounts Engine_Orders
    Engine_Totality Engine_Simulation Fix_Session_Demo
begin

text \<open>
  Verification of the Bunting market simulator (the Rust workspace under \<open>src/\<close>).

  Bunting runs a deterministic exchange. A scenario describes instruments, listings,
  participants, a calendar and a simulation programme; a run is a state built from it and
  changed only by commands. An order command passes the admission sequencer (virtual
  latency and release order), then the engine: the clock catches up (scheduled actions,
  session boundaries with call auctions, expiries), the risk engine admits the order, the
  book of its listing matches it, the ledger settles every fill, and the events of the
  command are appended to the run's stream. An origin owns each live run: it answers a command
  only when its record is part of a hash-chained journal, answers a repeated command from its
  index, and rebuilds runs from the journal after a restart.
  Participants reach the venue by FIX (framing, sessions with gap recovery, application
  messages) or by the native binary protocol BNP (codec, frames, a client with its books).
  On the participant's side of FIX an execution engine turns intents into actions and
  follows orders through the venue's reports, which an adapter makes from committed events.

  \<^bold>\<open>Theories and sources\<close> (paths below \<open>src/packages/\<close>).

  Foundations:

  \<^item> \<open>Prelude\<close>, \<open>BTree\<close>, \<open>Byte_Strings\<close>: results, checked folds, the ordered containers of
    the standard library, byte strings and UTF-8; the interface \<open>step_system\<close> for
    invariants of transition systems.
  \<^item> \<open>Market_Types\<close>, \<open>Events\<close>: \<open>market-types/src/lib.rs\<close>, \<open>market-events/src/lib.rs\<close>.

  The venue:

  \<^item> \<open>Ledger\<close>, \<open>Ledger_Laws\<close>: \<open>ledger/src/lib.rs\<close>; cash, reservations, positions, fills,
    marks, conversions. The laws: conservation, reservation round trips, the value
    invariant, inventory coverage, the representation invariant of reachable ledgers.
  \<^item> \<open>Risk_Engine\<close>: \<open>risk-engine/src/lib.rs\<close>; admission enforces every limit and an
    admitted order can be reserved.
  \<^item> \<open>Order_Book\<close>, \<open>Book_Invariant\<close>, \<open>Book_View\<close>, \<open>Book_Matching\<close>, \<open>Book_Continuous\<close>,
    \<open>Book_Persistence\<close>, \<open>Book_Auction\<close>, \<open>Book_Lifecycle\<close>, \<open>Book_Fills\<close>:
    \<open>bunting-engine/src/book.rs\<close>; price-time matching as a refinement of a rule-based
    specification, icebergs, the auction sweep against its reference, uncrossing,
    the persisted record.
  \<^item> \<open>Calendar\<close>: \<open>bunting-engine/src/calendar.rs\<close>; boundaries and phases.
  \<^item> \<open>Latency\<close>, \<open>Sequencer\<close>: \<open>admission-sequencer/src/lib.rs\<close>; delays, jitter streams, the
    release queue.
  \<^item> \<open>Simulation\<close>, \<open>Simulation_Laws\<close>, \<open>Simulation_Invariant\<close>:
    \<open>bunting-engine/src/simulation.rs\<close>; lifecycle, clock, news, tenders, negotiations,
    facilities, scheduled actions, market projections.
  \<^item> \<open>Scenario\<close>, \<open>Engine\<close>, \<open>Engine_Snapshot\<close>: \<open>bunting-engine/src/lib.rs\<close>; scenario
    validation and catalog, \<open>RunState::apply\<close> and \<open>apply_simulation\<close> with everything they
    call, run construction and snapshots.
  \<^item> \<open>Engine_Invariant\<close>, \<open>Engine_Lifecycle\<close>, \<open>Engine_Validity\<close>, \<open>Engine_Runs\<close>: the
    consistency of books, ownership records, live counts and expiries through a command,
    for whole commands, for the checks of \<open>RunState::validate\<close>, and for every run reachable
    from a scenario.
  \<^item> \<open>Engine_Relations\<close>, \<open>Engine_Events\<close>, \<open>Engine_Accounts\<close>, \<open>Engine_Orders\<close>,
    \<open>Engine_Simulation\<close>: the interfaces \<open>run_relation\<close>, \<open>write_relation\<close> and
    \<open>simulation_relation\<close> (a relation kept by each kind of write is kept by every command)
    and their interpretations: the event stream, the ledger of a run, kill switches and
    expiries, the schedule, facilities and closed deals.
  \<^item> \<open>Origin_Store\<close>, \<open>Origin_Laws\<close>, \<open>Origin_Runs\<close>: \<open>origin-store/src/lib.rs\<close> and
    \<open>command-transaction/src/lib.rs\<close>; the live run refines a specification of commits, and a
    recovery from the journal returns it.
  \<^item> \<open>Commit_Journal\<close>, \<open>File_Origin\<close>, \<open>File_Laws\<close>, \<open>File_Runs\<close>: \<open>commit_journal.rs\<close> and
    \<open>storage.rs\<close> of \<open>src/apps/bunting-server/src/\<close>; the journal and checkpoint files, with any
    write failing or cut short. What was answered survives a restart.
  \<^item> \<open>Engine_Totality\<close>: every command on a reachable run returns. \<open>Engine_Demo\<close>: a concrete
    run at which the theorems are applied.

  FIX:

  \<^item> \<open>Fix_Wire\<close>, \<open>Fix_Wire_Laws\<close>: \<open>simfix-wire/src/lib.rs\<close>; encoder, incremental decoder,
    repeating groups, dictionaries and message rules. Frames are recognised at their length
    and decode to what was encoded, however the bytes are cut.
  \<^item> \<open>Fix_Session\<close>, \<open>Fix_Session_Laws\<close>, \<open>Fix_Session_Peers\<close>, \<open>Fix_Session_Demo\<close>:
    \<open>simfix-session/src/lib.rs\<close>; sequence numbers, the journal, gap recovery. Delivery in
    order, replay, two sessions facing each other.
  \<^item> \<open>Fix_Mapping\<close>, \<open>Fix_Mapping_Laws\<close>: \<open>simfix-mapping/src/lib.rs\<close>; orders and requests
    to intents, reports and market data to messages.

  BNP and its client:

  \<^item> \<open>Bnp_Types\<close>, \<open>Bnp_Codec\<close>, \<open>Bnp_Messages\<close>, \<open>Bnp_Laws\<close>, \<open>Bnp_Frames\<close>: \<open>bnp-wire/src/\<close>;
    every message of both peers. The locales \<open>codec\<close> and \<open>wire_enum\<close> carry the round trips,
    \<open>protocol\<close> the delivery of streams of frames.
  \<^item> \<open>Client_Book\<close>, \<open>Client_Laws\<close>, \<open>Client_Connection\<close>: \<open>bunting-client/src/\<close>; the books a
    client builds from numbered feeds (locale \<open>numbered_feed\<close>) and its reader thread.

  The participant:

  \<^item> \<open>Quarcc_Engine\<close>, \<open>Quarcc_Laws\<close>, \<open>Quarcc_Runs\<close>: \<open>quarcc-execution-engine/src/\<close>; intents,
    reports with deferral and retry, positions, reconciliation. The locale \<open>exec_relation\<close>
    decomposes every operation into primitive writes; the properties are checked on those.
  \<^item> \<open>Quarcc_Adapter\<close>: \<open>quarcc-bunting-adapter/src/lib.rs\<close>; events to reports, and the
    execution engine kept in step with the venue.

  This theory ends with the way of an order from a FIX message to a venue command.

  \<^bold>\<open>Modelling choices.\<close> Integers are \<open>int\<close> or \<open>nat\<close> with the checked operations of the source
  written out at their width; the jitter generator works on 64-bit words and the BNP fields
  are words of their width. A \<open>BTreeMap\<close> is an association list in key order, or a map of
  HOL where the source never iterates. A mutable borrow is a state passed and returned; a
  \<open>Result\<close> is a sum type, and every early return is a branch. Where an error leaves a
  changed state that is used again (FIX sessions, the execution engine, the adapter), the
  operation returns the result and the state. The failed transition of \<open>apply\<close> returns the
  error alone: the source documents the state of a \<open>Poisoned\<close> failure as unusable. A reject
  code is kept as the code where the source stores its debug text. Outcomes that exist in
  the model only: \<open>Panicked\<close> for a failed map index, \<open>Diverged\<close> for exhausted fuel, \<open>None\<close>
  for a panic of an allocation or of the mapping. The loops: expiry terminates by the number
  of live orders; uncrossing is a partial function shown to return; the loop over session
  boundaries has as fuel the boundaries the calendar has left, and one more; decoders end by
  the bytes left; the retries of deferred reports by the reports left. JSON, SHA-256 and the
  FIX dictionaries are parameters of the definitions that use them; the properties of the origin
  assume that JSON of the hashed fields succeeds, that what JSON wrote it reads back, and that a
  digest has 32 bytes. A file is its bytes, and the outcome of a write an argument.

  \<^bold>\<open>What the model showed\<close> is stated as theorems where the code does something its comments or
  callers do not expect: a zero price poisons a run (\<open>Engine_Runs\<close>); a scheduled completion
  of an unknown job blocks it (\<open>Engine_Simulation\<close>); an order admitted without funds is
  refused later (\<open>Risk_Engine\<close>); a gap fill can strand queued messages (\<open>Fix_Session_Peers\<close>);
  a stated group size can end the process (\<open>Fix_Mapping_Laws\<close>); a failed retry drops the
  reports after it, a discovered order cannot trade and quarantined orders block new ones
  (\<open>Quarcc_Runs\<close>); a trade with oneself is reported once (\<open>Quarcc_Adapter\<close>).

  \<^bold>\<open>Not modelled.\<close> Serialization attributes and display texts; the use cases of the application
  and the network hosts of the server (threads, sockets, TLS, wall clock); invites and enrolment
  (certificates); agents and floating-point price processes, which only send commands; the legacy
  compatibility contract; the trading desk, terminal and browser views; language bindings.
\<close>

subsection \<open>An order on its way to the venue\<close>

text \<open>The command a venue receives for a desired order.\<close>

definition venue_order :: "nat \<Rightarrow> desired_order \<Rightarrow> submit_order" where
  "venue_order i d = \<lparr>so_order_id = i, so_instrument_id = do_instrument_id d, so_participant_id = do_participant_id d,
     so_side = do_side d, so_quantity = do_quantity d, so_kind = do_kind d, so_anonymous = do_anonymous d\<rparr>"

text \<open>The execution engine has room for one more order and no objection to this one.\<close>

definition ready_for :: "nat \<Rightarrow> desired_order \<Rightarrow> exec \<Rightarrow> bool" where
  "ready_for intent d x \<longleftrightarrow> (let s = ex_state x in
     \<not> window_has (intent_window s) intent \<and> \<not> x_kill_switch_active s
     \<and> x_client_to_local s (do_client_order_id d) = None
     \<and> validate_submit (x_config s) d (open_count s) (x_positions s (do_instrument_id d)) = Ok ()
     \<and> length (x_orders s) < max_orders (x_config s) \<and> x_next_id s + 2 < 2 ^ 128
     \<and> length (ab_actions (ex_output x)) < ab_limit (ex_output x))"

lemma intent_to_action:
  assumes "ready_for intent d x"
  shows "\<exists>x' a i. submit_intent (IntentSubmit intent d) x = (Ok (), x')
    \<and> ab_actions (ex_output x') = ab_actions (ex_output x) @ [ActionSubmit a i d]
    \<and> bt_get (x_orders (ex_state x')) i = Some (managed_new i d)"
  using assms
  by (simp add: ready_for_def Let_def submit_intent_def intent_submit_def x_bind_def x_retire_def
      retire_terminal_orders.simps [of "ex_state x"] x_next_def x_push_def)


definition sample_venue :: command_context where
  "sample_venue = \<lparr>cc_run_id = 1, cc_actor = 1, cc_expected_sequence = 0, cc_logical_time = 0, cc_correlation_id = 9\<rparr>"


end
